(* ===== verification/Prelude.thy ===== *)
theory Prelude
  imports Main "HOL-Library.Word"
begin

text \<open>
  Shared vocabulary of the development.  Result codes are the enumeration gxf_result_t of
  gxf/core/gxf.h; a function that returns Expected<T> in the code returns a value of the sum
  type expected here, Inl the error and Inr the value.  The helpers of gxf/core/expected.hpp
  that convert between the two follow, then the generic facts on lists, options and machine
  words that the components share.
\<close>

named_theorems inv_defs "invariants of the components, unfolded"
named_theorems op_defs "operations of the components, unfolded"

section \<open>Result codes\<close>

datatype (plugins only: code) gxf_result_t =
    GXF_SUCCESS | GXF_FAILURE | GXF_NOT_IMPLEMENTED | GXF_FILE_NOT_FOUND | GXF_INVALID_ENUM
  | GXF_NULL_POINTER | GXF_UNINITIALIZED_VALUE | GXF_ARGUMENT_NULL
  | GXF_ARGUMENT_OUT_OF_RANGE | GXF_ARGUMENT_INVALID | GXF_OUT_OF_MEMORY
  | GXF_MEMORY_INVALID_STORAGE_MODE | GXF_CONTEXT_INVALID | GXF_EXTENSION_NOT_FOUND
  | GXF_EXTENSION_FILE_NOT_FOUND | GXF_EXTENSION_NO_FACTORY
  | GXF_FACTORY_TOO_MANY_COMPONENTS | GXF_FACTORY_DUPLICATE_TID | GXF_FACTORY_UNKNOWN_TID
  | GXF_FACTORY_ABSTRACT_CLASS | GXF_FACTORY_UNKNOWN_CLASS_NAME | GXF_FACTORY_INVALID_INFO
  | GXF_FACTORY_INCOMPATIBLE | GXF_ENTITY_NOT_FOUND | GXF_ENTITY_NAME_EXCEEDS_LIMIT
  | GXF_ENTITY_COMPONENT_NOT_FOUND | GXF_ENTITY_COMPONENT_NAME_EXCEEDS_LIMIT
  | GXF_ENTITY_CAN_NOT_ADD_COMPONENT_AFTER_INITIALIZATION
  | GXF_ENTITY_CAN_NOT_REMOVE_COMPONENT_AFTER_INITIALIZATION
  | GXF_ENTITY_MAX_COMPONENTS_LIMIT_EXCEEDED | GXF_PARAMETER_NOT_FOUND
  | GXF_PARAMETER_ALREADY_REGISTERED | GXF_PARAMETER_INVALID_TYPE
  | GXF_PARAMETER_OUT_OF_RANGE | GXF_PARAMETER_NOT_INITIALIZED
  | GXF_PARAMETER_CAN_NOT_MODIFY_CONSTANT | GXF_PARAMETER_PARSER_ERROR
  | GXF_PARAMETER_NOT_NUMERIC | GXF_PARAMETER_MANDATORY_NOT_SET
  | GXF_CONTRACT_INVALID_SEQUENCE | GXF_CONTRACT_PARAMETER_NOT_SET
  | GXF_CONTRACT_MESSAGE_NOT_AVAILABLE | GXF_INVALID_LIFECYCLE_STAGE
  | GXF_INVALID_EXECUTION_SEQUENCE | GXF_REF_COUNT_NEGATIVE | GXF_RESULT_ARRAY_TOO_SMALL
  | GXF_INVALID_DATA_FORMAT | GXF_EXCEEDING_PREALLOCATED_SIZE
  | GXF_QUERY_NOT_ENOUGH_CAPACITY | GXF_QUERY_NOT_APPLICABLE | GXF_QUERY_NOT_FOUND
  | GXF_NOT_FINISHED | GXF_HTTP_GET_FAILURE | GXF_HTTP_POST_FAILURE
  | GXF_ENTITY_GROUP_NOT_FOUND | GXF_RESOURCE_NOT_INITIALIZED | GXF_RESOURCE_NOT_FOUND
  | GXF_CONNECTION_BROKEN | GXF_CONNECTION_ATTEMPTS_EXCEEDED | GXF_IPC_CONNECTION_FAILURE
  | GXF_IPC_CALL_FAILURE | GXF_IPC_SERVICE_NOT_FOUND

type_synonym 'a expected = "gxf_result_t + 'a"
type_synonym gxf_uid_t = int

abbreviation (input) kNullUid :: gxf_uid_t where "kNullUid \<equiv> 0"
abbreviation Success :: "unit expected" where "Success \<equiv> Inr ()"
abbreviation Unexpected :: "'e \<Rightarrow> 'e + 'a" where "Unexpected \<equiv> Inl"

definition ToResultCode :: "'a expected \<Rightarrow> gxf_result_t" where
  "ToResultCode r = (case r of Inr _ \<Rightarrow> GXF_SUCCESS | Inl e \<Rightarrow> e)"

definition ExpectedOrCode :: "gxf_result_t \<Rightarrow> unit expected" where
  "ExpectedOrCode code = (if code = GXF_SUCCESS then Success else Unexpected code)"

definition ExpectedOrCodeVal :: "gxf_result_t \<Rightarrow> 'a \<Rightarrow> 'a expected" where
  "ExpectedOrCodeVal code v = (if code = GXF_SUCCESS then Inr v else Unexpected code)"

definition ExpectedOrError :: "'s expected \<Rightarrow> 'a \<Rightarrow> 'a expected" where
  "ExpectedOrError code v = (case code of Inr _ \<Rightarrow> Inr v | Inl e \<Rightarrow> Unexpected e)"

definition ForwardError :: "gxf_result_t \<Rightarrow> 'b expected" where
  "ForwardError e = Unexpected e"

definition AccumulateErrorCode :: "gxf_result_t \<Rightarrow> gxf_result_t \<Rightarrow> gxf_result_t" where
  "AccumulateErrorCode previous current =
     (if current \<noteq> GXF_SUCCESS then current else previous)"

definition AccumulateError :: "unit expected \<Rightarrow> unit expected \<Rightarrow> unit expected" where
  "AccumulateError previous current = (case current of Inl _ \<Rightarrow> current | Inr _ \<Rightarrow> previous)"

text \<open>The capacity of the lists of entities, and the event that a codelet raises from outside.\<close>

definition kMaxEntities :: nat where "kMaxEntities = 1024"

definition GXF_EVENT_EXTERNAL :: int where "GXF_EVENT_EXTERNAL = 1"

text \<open>The operator \<open>&\<close> of Expected keeps the first error.\<close>

definition AndExpected :: "'a expected \<Rightarrow> unit expected \<Rightarrow> unit expected" where
  "AndExpected a b = (case a of Inl e \<Rightarrow> Inl e | Inr _ \<Rightarrow> b)"

lemma AndExpected_simps [simp]:
  "AndExpected (Inl e) b = Inl e" "AndExpected (Inr u) b = b"
  by (simp_all add: AndExpected_def)

text \<open>The error values of the code never carry GXF_SUCCESS.\<close>

definition wf_expected :: "'a expected \<Rightarrow> bool" where
  "wf_expected r \<longleftrightarrow> r \<noteq> Inl GXF_SUCCESS"

abbreviation ok :: "'e + 'a \<Rightarrow> bool" where
  "ok r \<equiv> (case r of Inr _ \<Rightarrow> True | Inl _ \<Rightarrow> False)"

lemma ok_Inr_iff: "ok r \<longleftrightarrow> (\<exists>x. r = Inr x)"
  by (cases r) auto

lemma AccumulateError_simps [simp]:
  "AccumulateError p (Inl e) = Inl e"
  "AccumulateError p (Inr u) = p"
  by (simp_all add: AccumulateError_def)

lemma AccumulateError_Success [simp]: "AccumulateError Success c = c"
  by (cases c) auto

lemma AccumulateError_assoc:
  "AccumulateError (AccumulateError a b) c = AccumulateError a (AccumulateError b c)"
  by (cases c) auto

lemma AccumulateError_ok: "ok (AccumulateError a b) \<longleftrightarrow> ok a \<and> ok b"
  by (cases b) auto

lemma ToResultCode_ExpectedOrCode [simp]: "ToResultCode (ExpectedOrCode c) = c"
  by (simp add: ToResultCode_def ExpectedOrCode_def)

lemma ExpectedOrCode_ToResultCode: "wf_expected r \<Longrightarrow> ExpectedOrCode (ToResultCode r) = r"
  by (cases r) (auto simp: ToResultCode_def ExpectedOrCode_def wf_expected_def)

lemma ToResultCode_Accumulate:
  "wf_expected b \<Longrightarrow>
   ToResultCode (AccumulateError a b) = AccumulateErrorCode (ToResultCode a) (ToResultCode b)"
  by (cases b) (auto simp: ToResultCode_def AccumulateErrorCode_def wf_expected_def)

text \<open>A loop that runs an operation on every element and accumulates the errors, the latest
  error winning, is a left fold.\<close>

lemma foldl_AccumulateError_ok:
  "ok (foldl (\<lambda>c x. AccumulateError c (f x)) c0 xs) \<longleftrightarrow> ok c0 \<and> (\<forall>x\<in>set xs. ok (f x))"
  by (induction xs arbitrary: c0) (auto simp: AccumulateError_ok)

section \<open>Lists\<close>

lemma nth_list_update_if:
  "i < length xs \<Longrightarrow> (xs[j := x]) ! i = (if i = j then x else xs ! i)"
  by simp

lemma take_list_update_ge [simp]: "n \<le> i \<Longrightarrow> take n (xs[i := x]) = take n xs"
  by (metis take_update_cancel)

lemma take_update_last:
  "n < length xs \<Longrightarrow> take (Suc n) (xs[n := x]) = take n xs @ [x]"
  by (simp add: take_Suc_conv_app_nth)

lemma list_eq_take_drop_nth:
  "i < length xs \<Longrightarrow> xs = take i xs @ xs ! i # drop (Suc i) xs"
  by (simp add: id_take_nth_drop)

text \<open>Insertion and removal at a position, the specification of the vector operations.\<close>

definition list_insert_at :: "nat \<Rightarrow> 'a \<Rightarrow> 'a list \<Rightarrow> 'a list" where
  "list_insert_at i x xs = take i xs @ x # drop i xs"

definition list_remove_at :: "nat \<Rightarrow> 'a list \<Rightarrow> 'a list" where
  "list_remove_at i xs = take i xs @ drop (Suc i) xs"

lemma length_list_insert_at [simp]:
  "i \<le> length xs \<Longrightarrow> length (list_insert_at i x xs) = Suc (length xs)"
  by (simp add: list_insert_at_def)

lemma length_list_remove_at [simp]:
  "i < length xs \<Longrightarrow> length (list_remove_at i xs) = length xs - 1"
  by (simp add: list_remove_at_def)

lemma nth_list_insert_at:
  "i \<le> length xs \<Longrightarrow> j \<le> length xs \<Longrightarrow>
   list_insert_at i x xs ! j = (if j < i then xs ! j else if j = i then x else xs ! (j - 1))"
  by (auto simp: list_insert_at_def nth_append nth_Cons' Suc_leI intro: arg_cong [where f = "nth xs"])

lemma nth_list_remove_at:
  "i < length xs \<Longrightarrow> j < length xs - 1 \<Longrightarrow>
   list_remove_at i xs ! j = (if j < i then xs ! j else xs ! Suc j)"
  by (auto simp: list_remove_at_def nth_append)

lemma remove_insert_at: "i \<le> length xs \<Longrightarrow> list_remove_at i (list_insert_at i x xs) = xs"
  by (simp add: list_insert_at_def list_remove_at_def)

lemma insert_at_end: "list_insert_at (length xs) x xs = xs @ [x]"
  by (simp add: list_insert_at_def)

lemma remove_at_end: "xs \<noteq> [] \<Longrightarrow> list_remove_at (length xs - 1) xs = butlast xs"
  by (simp add: list_remove_at_def butlast_conv_take)

text \<open>Positions of a ring: an offset below the length determines the slot.\<close>

lemma mod_shift_inj:
  assumes "i \<le> j" "j < (c::nat)" "(h + i) mod c = (h + j) mod c"
  shows "i = j"
proof -
  have "c dvd (h + j) - (h + i)" using assms by (metis add_le_cancel_left mod_eq_dvd_iff_nat)
  then show ?thesis using assms by (auto dest: dvd_imp_le)
qed

section \<open>Options\<close>

lemma map_the_Some [simp]: "map (the \<circ> Some) xs = xs"
  by (induction xs) auto

section \<open>Unsigned 64-bit arithmetic\<close>

text \<open>size_t and uint64_t are 64-bit; a subtraction below zero wraps.\<close>

type_synonym uint64 = "64 word"

definition size_sub :: "nat \<Rightarrow> nat \<Rightarrow> nat" where
  "size_sub a b = (a + 2 ^ 64 - b mod 2 ^ 64) mod 2 ^ 64"

lemma size_sub_ge: "b \<le> a \<Longrightarrow> a < 2 ^ 64 \<Longrightarrow> size_sub a b = a - b"
  by (simp add: size_sub_def mod_if)

lemma size_sub_lt: "a < b \<Longrightarrow> b < 2 ^ 64 \<Longrightarrow> size_sub a b = 2 ^ 64 - (b - a)"
  by (simp add: size_sub_def)

lemma size_sub_bound: "size_sub a b < 2 ^ 64"
  by (simp add: size_sub_def)

lemma size_sub_unat: "a < 2 ^ 64 \<Longrightarrow> b < 2 ^ 64 \<Longrightarrow>
  unat (of_nat a - of_nat b :: uint64) = size_sub a b"
proof -
  assume a: "a < 2 ^ 64" and b: "b < 2 ^ 64"
  have ua: "unat (of_nat a :: uint64) = a" using a by (simp add: unat_of_nat)
  have ub: "unat (of_nat b :: uint64) = b" using b by (simp add: unat_of_nat)
  show ?thesis
  proof (cases "b \<le> a")
    case True
    then have "(of_nat b :: uint64) \<le> of_nat a" by (simp add: word_le_nat_alt ua ub)
    then show ?thesis using True a by (simp add: unat_sub ua ub size_sub_ge)
  next
    case False
    then show ?thesis using a b
      by (simp add: unat_sub_if_size ua ub word_size size_sub_lt)
  qed
qed

section \<open>Ordered maps\<close>

text \<open>std::map and std::set are modelled by lists in the order of the keys, since the loops of the
  code visit them in that order.\<close>

definition sorted_map :: "('k :: linorder \<times> 'v) list \<Rightarrow> bool" where
  "sorted_map m \<longleftrightarrow> sorted_wrt (<) (map fst m)"

text \<open>emplace keeps an existing binding; map_put is operator[] = v and insert_or_assign.\<close>

fun map_put :: "'k :: linorder \<Rightarrow> 'v \<Rightarrow> ('k \<times> 'v) list \<Rightarrow> ('k \<times> 'v) list" where
  "map_put k v [] = [(k, v)]"
| "map_put k v ((l, w) # m) =
     (if k < l then (k, v) # (l, w) # m else if k = l then (k, v) # m else (l, w) # map_put k v m)"

definition map_emplace :: "'k :: linorder \<Rightarrow> 'v \<Rightarrow> ('k \<times> 'v) list \<Rightarrow> ('k \<times> 'v) list" where
  "map_emplace k v m = (if map_of m k = None then map_put k v m else m)"

definition map_erase :: "'k \<Rightarrow> ('k \<times> 'v) list \<Rightarrow> ('k \<times> 'v) list" where
  "map_erase k m = filter (\<lambda>(l, _). l \<noteq> k) m"

lemma set_fst_map_put [simp]: "fst ` set (map_put k v m) = insert k (fst ` set m)"
  by (induction k v m rule: map_put.induct) auto

lemma sorted_map_put [simp]: "sorted_map m \<Longrightarrow> sorted_map (map_put k v m)"
proof (induction k v m rule: map_put.induct)
  case (2 k v l w m)
  have "\<forall>x \<in> fst ` set (map_put k v m). l < x" if "l < k" using that 2 by (auto simp: sorted_map_def)
  then show ?case using 2 by (auto simp: sorted_map_def)
qed (simp add: sorted_map_def)

lemma map_of_map_put: "sorted_map m \<Longrightarrow> map_of (map_put k v m) = (map_of m)(k \<mapsto> v)"
proof (induction k v m rule: map_put.induct)
  case (2 k v l w m)
  then show ?case by (auto simp: sorted_map_def fun_eq_iff)
qed simp

lemma map_of_map_emplace:
  "sorted_map m \<Longrightarrow> map_of (map_emplace k v m) = (if map_of m k = None then (map_of m)(k \<mapsto> v) else map_of m)"
  by (simp add: map_emplace_def map_of_map_put)

lemma sorted_map_emplace [simp]: "sorted_map m \<Longrightarrow> sorted_map (map_emplace k v m)"
  by (simp add: map_emplace_def)

lemma map_of_map_erase: "map_of (map_erase k m) = (map_of m)(k := None)"
  by (induction m) (auto simp: map_erase_def)

lemma sorted_map_erase [simp]: "sorted_map m \<Longrightarrow> sorted_map (map_erase k m)"
  by (induction m) (auto simp: sorted_map_def map_erase_def)

lemma sorted_map_Nil [simp]: "sorted_map []"
  by (simp add: sorted_map_def)

lemma sorted_map_distinct: "sorted_map m \<Longrightarrow> distinct (map fst m)"
  by (simp add: sorted_map_def strict_sorted_iff)

section \<open>Loops that return at the first error\<close>

fun each_until_error :: "('a \<Rightarrow> 's \<Rightarrow> unit expected \<times> 's) \<Rightarrow> 'a list \<Rightarrow> 's \<Rightarrow> unit expected \<times> 's" where
  "each_until_error f [] s = (Success, s)"
| "each_until_error f (a # as) s = (case f a s of
     (Inl e, s1) \<Rightarrow> (Inl e, s1) | (Inr _, s1) \<Rightarrow> each_until_error f as s1)"

text \<open>An invariant of the body is an invariant of the loop.\<close>

lemma each_until_error_inv:
  assumes "\<And>a s. a \<in> set as \<Longrightarrow> P s \<Longrightarrow> P (snd (f a s))" "P s"
  shows "P (snd (each_until_error f as s))"
  using assms
proof (induction as arbitrary: s)
  case (Cons a as)
  obtain r s1 where f: "f a s = (r, s1)" by fastforce
  have "P s1" using Cons.prems(1)[of a s] Cons.prems(2) f by simp
  then show ?case using Cons f by (cases r) auto
qed simp

text \<open>UNWRAP_OR_RETURN on the elements of a list.\<close>

definition unwrap :: "('a \<Rightarrow> 's \<Rightarrow> unit expected \<times> 's) \<Rightarrow> 'a expected \<Rightarrow> 's \<Rightarrow> unit expected \<times> 's" where
  "unwrap f m s = (case m of Inl e \<Rightarrow> (Inl e, s) | Inr a \<Rightarrow> f a s)"

lemma unwrap_simps [simp]: "unwrap f (Inr a) s = f a s" "unwrap f (Inl e) s = (Inl e, s)"
  by (simp_all add: unwrap_def)

section \<open>Ordered sets\<close>

text \<open>std::set: a strictly sorted list.\<close>

definition set_insert :: "'a :: linorder \<Rightarrow> 'a list \<Rightarrow> 'a list" where
  "set_insert = insort_insert"

lemma set_set_insert [simp]: "set (set_insert a as) = insert a (set as)"
  by (simp add: set_insert_def set_insort_insert)

lemma sorted_set_insert [simp]: "sorted as \<Longrightarrow> distinct as \<Longrightarrow> sorted (set_insert a as) \<and> distinct (set_insert a as)"
  by (simp add: set_insert_def sorted_insort_insert distinct_insort_insert)

text \<open>A map to sets; a missing key is an empty set, except for find.\<close>

definition set_at :: "('k \<rightharpoonup> 'a list) \<Rightarrow> 'k \<Rightarrow> 'a list" where
  "set_at m k = (case m k of None \<Rightarrow> [] | Some s \<Rightarrow> s)"

definition set_add :: "'k \<Rightarrow> 'a :: linorder \<Rightarrow> ('k \<rightharpoonup> 'a list) \<Rightarrow> ('k \<rightharpoonup> 'a list)" where
  "set_add k a m = m(k \<mapsto> set_insert a (set_at m k))"

definition set_del :: "'k \<Rightarrow> 'a \<Rightarrow> ('k \<rightharpoonup> 'a list) \<Rightarrow> ('k \<rightharpoonup> 'a list)" where
  "set_del k a m = m(k \<mapsto> removeAll a (set_at m k))"

lemma set_at_add [simp]: "set (set_at (set_add k a m) l) = (if l = k then insert a (set (set_at m k)) else set (set_at m l))"
  by (auto simp: set_at_def set_add_def split: option.splits)

lemma set_at_del [simp]: "set (set_at (set_del k a m) l) = (if l = k then set (set_at m k) - {a} else set (set_at m l))"
  by (auto simp: set_at_def set_del_def split: option.splits)

definition wf_sets :: "('k \<rightharpoonup> 'a :: linorder list) \<Rightarrow> bool" where
  "wf_sets m \<longleftrightarrow> (\<forall>k. sorted (set_at m k) \<and> distinct (set_at m k))"

lemma wf_set_add [simp]: "wf_sets m \<Longrightarrow> wf_sets (set_add k a m)"
  by (auto simp: wf_sets_def set_at_def set_add_def)

lemma wf_set_del [simp]: "wf_sets m \<Longrightarrow> wf_sets (set_del k a m)"
  by (auto simp: wf_sets_def set_at_def set_del_def removeAll_filter_not_eq sorted_wrt_filter split: option.splits)

end
