(* ===== verification/Fixed_Vector.thy ===== *)
theory Fixed_Vector
  imports Prelude
begin

text \<open>
  common/memory_utils.hpp and common/fixed_vector.hpp: the array moves on raw storage and the
  vector of fixed capacity built on them.  Storage is a list of cells, None for a cell that
  holds no live object (raw or destroyed memory).  elems is the abstraction to lists.
\<close>

section \<open>Array moves on raw storage (memory_utils.hpp)\<close>

type_synonym 'a cells = "'a option list"

text \<open>Moving count objects inside one buffer, from offset src to offset dst.  The loop runs
  backwards when the destination lies inside the source range.  A moved-from object is left
  in place (it is not destroyed), so its cell keeps a value.\<close>

fun array_move_loop :: "'a cells \<Rightarrow> nat \<Rightarrow> nat \<Rightarrow> nat \<Rightarrow> bool \<Rightarrow> nat \<Rightarrow> nat \<Rightarrow> 'a cells" where
  "array_move_loop mem dst src count reverse i 0 = mem"
| "array_move_loop mem dst src count reverse i (Suc n) =
     (let index = (if reverse then count - 1 - i else i)
      in array_move_loop (mem[dst + index := mem ! (src + index)]) dst src count reverse
           (Suc i) n)"

definition ArrayMoveConstruct :: "'a cells \<Rightarrow> nat \<Rightarrow> nat \<Rightarrow> nat \<Rightarrow> 'a cells" where
  "ArrayMoveConstruct mem dst src count =
     array_move_loop mem dst src count (dst > src \<and> dst < src + count) 0 count"

text \<open>Copying count objects from the start of another buffer to offset dst.\<close>

fun ArrayCopyConstruct :: "'a cells \<Rightarrow> nat \<Rightarrow> 'a cells \<Rightarrow> nat \<Rightarrow> nat \<Rightarrow> 'a cells" where
  "ArrayCopyConstruct mem dst src off 0 = mem"
| "ArrayCopyConstruct mem dst src off (Suc n) =
     (ArrayCopyConstruct mem dst src off n)[dst + n := src ! (off + n)]"

lemma length_array_move_loop [simp]:
  "length (array_move_loop mem dst src count r i n) = length mem"
  by (induction n arbitrary: mem i) (simp_all add: Let_def)

lemma length_ArrayMoveConstruct [simp]: "length (ArrayMoveConstruct mem dst src n) = length mem"
  by (simp add: ArrayMoveConstruct_def)

lemma array_move_loop_forward:
  assumes "dst + i + n \<le> length mem" "dst \<le> src \<or> src + i + n \<le> dst + i" "k < length mem"
  shows "array_move_loop mem dst src (i + n) False i n ! k =
     (if dst + i \<le> k \<and> k < dst + i + n then mem ! (src + (k - dst)) else mem ! k)"
  using assms
proof (induction n arbitrary: mem i)
  case 0
  then show ?case by auto
next
  case (Suc n)
  let ?m = "mem[dst + i := mem ! (src + i)]"
  have "array_move_loop mem dst src (i + Suc n) False i (Suc n) ! k =
        array_move_loop ?m dst src (Suc i + n) False (Suc i) n ! k" by (simp add: Let_def)
  also have "\<dots> = (if dst + Suc i \<le> k \<and> k < dst + Suc i + n then ?m ! (src + (k - dst)) else ?m ! k)"
    using Suc.prems by (intro Suc.IH) auto
  also have "\<dots> = (if dst + i \<le> k \<and> k < dst + i + Suc n then mem ! (src + (k - dst)) else mem ! k)"
    using Suc.prems by (auto simp: nth_list_update)
  finally show ?case by simp
qed

lemma array_move_loop_reverse:
  assumes "dst + count \<le> length mem" "src < dst" "i + n = count" "k < length mem"
  shows "array_move_loop mem dst src count True i n ! k =
     (if dst \<le> k \<and> k < dst + n then mem ! (src + (k - dst)) else mem ! k)"
  using assms
proof (induction n arbitrary: mem i)
  case 0
  then show ?case by auto
next
  case (Suc n)
  have idx: "count - 1 - i = n" using Suc.prems by simp
  let ?m = "mem[dst + n := mem ! (src + n)]"
  have "array_move_loop mem dst src count True i (Suc n) ! k =
        array_move_loop ?m dst src count True (Suc i) n ! k" using idx by (simp add: Let_def)
  also have "\<dots> = (if dst \<le> k \<and> k < dst + n then ?m ! (src + (k - dst)) else ?m ! k)"
    using Suc.prems by (intro Suc.IH) auto
  also have "\<dots> = (if dst \<le> k \<and> k < dst + Suc n then mem ! (src + (k - dst)) else mem ! k)"
    using Suc.prems by (auto simp: nth_list_update less_Suc_eq)
  finally show ?case .
qed

lemma nth_ArrayMoveConstruct:
  assumes "dst + n \<le> length mem" "k < length mem"
  shows "ArrayMoveConstruct mem dst src n ! k =
     (if dst \<le> k \<and> k < dst + n then mem ! (src + (k - dst)) else mem ! k)"
proof (cases "dst > src \<and> dst < src + n")
  case True
  then show ?thesis
    using assms array_move_loop_reverse [of dst n mem src 0 n k]
    by (simp add: ArrayMoveConstruct_def)
next
  case False
  then show ?thesis
    using assms array_move_loop_forward [of dst 0 n mem src k]
    by (auto simp: ArrayMoveConstruct_def)
qed

lemma length_ArrayCopyConstruct [simp]: "length (ArrayCopyConstruct mem dst s off n) = length mem"
  by (induction n) simp_all

lemma nth_ArrayCopyConstruct:
  "dst + n \<le> length mem \<Longrightarrow> k < length mem \<Longrightarrow>
   ArrayCopyConstruct mem dst s off n ! k =
     (if dst \<le> k \<and> k < dst + n then s ! (off + (k - dst)) else mem ! k)"
  by (induction n) (auto simp: nth_list_update)

section \<open>The vector (fixed_vector.hpp)\<close>

datatype fv_error =
  kOutOfMemory | kArgumentOutOfRange | kContainerEmpty | kContainerFull | kInvalidIterator

record 'a FixedVector =
  fv_data :: "'a cells"
  fv_capacity :: nat
  fv_size :: nat

definition fv_heap :: "'a FixedVector" where
  "fv_heap = \<lparr>fv_data = [], fv_capacity = 0, fv_size = 0\<rparr>"

definition fv_stack :: "nat \<Rightarrow> 'a FixedVector" where
  "fv_stack N = \<lparr>fv_data = replicate N None, fv_capacity = N, fv_size = 0\<rparr>"

fun fv_eq_loop :: "'a cells \<Rightarrow> 'a cells \<Rightarrow> nat \<Rightarrow> nat \<Rightarrow> bool" where
  "fv_eq_loop xs ys i 0 = True"
| "fv_eq_loop xs ys i (Suc n) = (if xs ! i \<noteq> ys ! i then False else fv_eq_loop xs ys (Suc i) n)"

definition fv_equal :: "'a FixedVector \<Rightarrow> 'a FixedVector \<Rightarrow> bool" where
  "fv_equal v w =
     (if fv_size v \<noteq> fv_size w then False else fv_eq_loop (fv_data v) (fv_data w) 0 (fv_size v))"

definition fv_empty :: "'a FixedVector \<Rightarrow> bool" where "fv_empty v \<longleftrightarrow> fv_size v = 0"
definition fv_full :: "'a FixedVector \<Rightarrow> bool" where "fv_full v \<longleftrightarrow> fv_size v = fv_capacity v"

definition fv_at :: "'a FixedVector \<Rightarrow> nat \<Rightarrow> fv_error + 'a" where
  "fv_at v index =
     (if index \<ge> fv_size v then Unexpected kArgumentOutOfRange else Inr (the (fv_data v ! index)))"

definition fv_front :: "'a FixedVector \<Rightarrow> fv_error + 'a" where
  "fv_front v = (if fv_empty v then Unexpected kContainerEmpty else Inr (the (fv_data v ! 0)))"

definition fv_back :: "'a FixedVector \<Rightarrow> fv_error + 'a" where
  "fv_back v =
     (if fv_empty v then Unexpected kContainerEmpty else Inr (the (fv_data v ! (fv_size v - 1))))"

definition fv_emplace :: "'a FixedVector \<Rightarrow> nat \<Rightarrow> 'a \<Rightarrow> (fv_error + unit) \<times> 'a FixedVector" where
  "fv_emplace v index x =
     (if index > fv_size v then (Unexpected kArgumentOutOfRange, v)
      else if fv_full v then (Unexpected kContainerFull, v)
      else let d = (if index < fv_size v
                    then ArrayMoveConstruct (fv_data v) (index + 1) index (fv_size v - index)
                    else fv_data v)
           in (Inr (), v\<lparr>fv_data := d[index := Some x], fv_size := fv_size v + 1\<rparr>))"

definition fv_emplace_back :: "'a FixedVector \<Rightarrow> 'a \<Rightarrow> (fv_error + unit) \<times> 'a FixedVector" where
  "fv_emplace_back v x = fv_emplace v (fv_size v) x"

definition fv_push_back :: "'a FixedVector \<Rightarrow> 'a \<Rightarrow> (fv_error + unit) \<times> 'a FixedVector" where
  "fv_push_back v x = fv_emplace_back v x"

text \<open>Insertion of the range [start, stop) of another vector at position pos of this one.
  The dereference of start fails when start is the end of the other vector.\<close>

definition fv_insert_range ::
  "'a FixedVector \<Rightarrow> nat \<Rightarrow> 'a FixedVector \<Rightarrow> nat \<Rightarrow> nat \<Rightarrow> (fv_error + unit) \<times> 'a FixedVector"
where
  "fv_insert_range v pos w start stop =
     (let count = size_sub stop start
      in if pos > fv_size v \<or> (pos + count) mod 2 ^ 64 > fv_capacity v
         then (Unexpected kArgumentOutOfRange, v)
         else if start < fv_size w
         then (Inr (), v\<lparr>fv_data := ArrayCopyConstruct (fv_data v) pos (fv_data w) start count,
                         fv_size := fv_size v + count\<rparr>)
         else (Unexpected kInvalidIterator, v))"

definition fv_erase :: "'a FixedVector \<Rightarrow> nat \<Rightarrow> (fv_error + unit) \<times> 'a FixedVector" where
  "fv_erase v index =
     (if index \<ge> fv_size v then (Unexpected kArgumentOutOfRange, v)
      else if fv_empty v then (Unexpected kContainerEmpty, v)
      else let d = (fv_data v)[index := None]; s = fv_size v - 1
           in (Inr (), v\<lparr>fv_data := (if index < s then ArrayMoveConstruct d index (index + 1) (s - index)
                                   else d),
                         fv_size := s\<rparr>))"

text \<open>pop_back computes size_ - 1 on size_t, which wraps on an empty vector.\<close>

definition fv_pop_back :: "'a FixedVector \<Rightarrow> (fv_error + unit) \<times> 'a FixedVector" where
  "fv_pop_back v = fv_erase v (size_sub (fv_size v) 1)"

fun fv_clear_loop :: "'a cells \<Rightarrow> nat \<Rightarrow> 'a cells" where
  "fv_clear_loop d 0 = d"
| "fv_clear_loop d (Suc n) = fv_clear_loop (d[n := None]) n"

definition fv_clear :: "'a FixedVector \<Rightarrow> 'a FixedVector" where
  "fv_clear v = v\<lparr>fv_data := fv_clear_loop (fv_data v) (fv_size v), fv_size := 0\<rparr>"

fun fv_grow :: "'a FixedVector \<Rightarrow> nat \<Rightarrow> 'a \<Rightarrow> nat \<Rightarrow> 'a FixedVector" where
  "fv_grow v count x 0 = v"
| "fv_grow v count x (Suc fuel) =
     (if count > fv_size v then fv_grow (snd (fv_push_back v x)) count x fuel else v)"

fun fv_shrink :: "'a FixedVector \<Rightarrow> nat \<Rightarrow> nat \<Rightarrow> 'a FixedVector" where
  "fv_shrink v count 0 = v"
| "fv_shrink v count (Suc fuel) =
     (if count < fv_size v then fv_shrink (snd (fv_pop_back v)) count fuel else v)"

text \<open>The two loops of resize run at most as often as the capacity and the size: the fuel given.\<close>

definition fv_resize :: "'a FixedVector \<Rightarrow> nat \<Rightarrow> 'a \<Rightarrow> (fv_error + unit) \<times> 'a FixedVector" where
  "fv_resize v count x =
     (if count > fv_capacity v then (Unexpected kArgumentOutOfRange, v)
      else let v' = fv_grow v count x (fv_capacity v)
           in (Inr (), fv_shrink v' count (fv_size v')))"

text \<open>Operations of the heap variant; the outcome of the allocation is an argument.\<close>

definition fv_copy_from :: "'a FixedVector \<Rightarrow> 'a FixedVector \<Rightarrow> (fv_error + unit) \<times> 'a FixedVector" where
  "fv_copy_from v other =
     (if fv_size other > fv_capacity v then (Unexpected kArgumentOutOfRange, v)
      else let v' = fv_clear v
           in (Inr (), v'\<lparr>fv_size := fv_size other,
                          fv_data := ArrayCopyConstruct (fv_data v') 0 (fv_data other) 0 (fv_size other)\<rparr>))"

definition fv_reserve :: "bool \<Rightarrow> 'a FixedVector \<Rightarrow> nat \<Rightarrow> (fv_error + unit) \<times> 'a FixedVector" where
  "fv_reserve alloc_ok v capacity =
     (if capacity > fv_capacity v
      then if \<not> alloc_ok then (Unexpected kOutOfMemory, v)
           else (Inr (), v\<lparr>fv_data := ArrayCopyConstruct (replicate capacity None) 0 (fv_data v) 0 (fv_size v),
                           fv_capacity := capacity\<rparr>)
      else (Inr (), v))"

definition fv_shrink_to_fit :: "bool \<Rightarrow> 'a FixedVector \<Rightarrow> (fv_error + unit) \<times> 'a FixedVector" where
  "fv_shrink_to_fit alloc_ok v =
     (if fv_size v < fv_capacity v
      then if \<not> alloc_ok then (Unexpected kOutOfMemory, v)
           else (Inr (), v\<lparr>fv_data := ArrayCopyConstruct (replicate (fv_size v) None) 0 (fv_data v) 0 (fv_size v),
                           fv_capacity := fv_size v\<rparr>)
      else (Inr (), v))"


section \<open>Invariant and abstraction\<close>

text \<open>The first fv_size cells hold live objects; the storage has fv_capacity cells; the
  capacity of an array in memory is below 2 ^ 63.\<close>

definition fv_inv :: "'a FixedVector \<Rightarrow> bool" where
  "fv_inv v \<longleftrightarrow> length (fv_data v) = fv_capacity v \<and> fv_size v \<le> fv_capacity v \<and>
     fv_capacity v < 2 ^ 63 \<and> (\<forall>i < fv_size v. fv_data v ! i \<noteq> None)"

definition elems :: "'a FixedVector \<Rightarrow> 'a list" where
  "elems v = map the (take (fv_size v) (fv_data v))"

lemma length_elems: "fv_inv v \<Longrightarrow> length (elems v) = fv_size v"
  by (simp add: fv_inv_def elems_def)

lemma nth_elems: "fv_inv v \<Longrightarrow> i < fv_size v \<Longrightarrow> elems v ! i = the (fv_data v ! i)"
  by (simp add: fv_inv_def elems_def)

lemma elems_eqI:
  assumes "fv_inv v" "fv_size v = length xs" "\<And>i. i < fv_size v \<Longrightarrow> the (fv_data v ! i) = xs ! i"
  shows "elems v = xs"
  using assms by (intro nth_equalityI) (simp_all add: length_elems nth_elems)

lemma fv_inv_heap: "fv_inv fv_heap" and elems_heap: "elems fv_heap = []"
  by (simp_all add: fv_inv_def fv_heap_def elems_def)

lemma fv_inv_stack: "N < 2 ^ 63 \<Longrightarrow> fv_inv (fv_stack N)" and elems_stack: "elems (fv_stack N) = []"
  by (simp_all add: fv_inv_def fv_stack_def elems_def)

lemma fv_capacity_stack: "fv_capacity (fv_stack N) = N"
  by (simp add: fv_stack_def)

lemma fv_eq_loop_iff:
  "fv_eq_loop xs ys i n \<longleftrightarrow> (\<forall>k. i \<le> k \<and> k < i + n \<longrightarrow> xs ! k = ys ! k)"
proof (induction n arbitrary: i)
  case (Suc n)
  then show ?case by (auto simp: Suc_le_eq) (metis le_neq_implies_less)
qed auto

lemma fv_equal_iff:
  assumes "fv_inv v" "fv_inv w"
  shows "fv_equal v w \<longleftrightarrow> elems v = elems w"
proof -
  have "(\<forall>k < fv_size v. fv_data v ! k = fv_data w ! k) \<longleftrightarrow> elems v = elems w"
    if "fv_size v = fv_size w"
    using assms that
    by (auto simp: list_eq_iff_nth_eq length_elems nth_elems fv_inv_def option.expand)
  then show ?thesis
    using assms by (auto simp: fv_equal_def fv_eq_loop_iff dest: arg_cong [where f = length]
        simp: length_elems)
qed

lemma fv_at_elems:
  "fv_inv v \<Longrightarrow>
   fv_at v i = (if i < length (elems v) then Inr (elems v ! i) else Inl kArgumentOutOfRange)"
  by (simp add: fv_at_def length_elems nth_elems)

lemma fv_front_elems:
  "fv_inv v \<Longrightarrow>
   fv_front v = (if elems v = [] then Inl kContainerEmpty else Inr (hd (elems v)))"
  by (cases "fv_size v = 0")
    (auto simp: fv_front_def fv_empty_def length_elems nth_elems hd_conv_nth
      simp flip: length_0_conv)

lemma fv_back_elems:
  "fv_inv v \<Longrightarrow>
   fv_back v = (if elems v = [] then Inl kContainerEmpty else Inr (last (elems v)))"
  by (cases "fv_size v = 0")
    (auto simp: fv_back_def fv_empty_def length_elems nth_elems last_conv_nth
      simp flip: length_0_conv)

lemma fv_emplace_ok:
  assumes inv: "fv_inv v" and i: "i \<le> fv_size v" and room: "fv_size v < fv_capacity v"
  shows "fst (fv_emplace v i x) = Inr ()" "fv_inv (snd (fv_emplace v i x))"
    "elems (snd (fv_emplace v i x)) = list_insert_at i x (elems v)"
    "fv_capacity (snd (fv_emplace v i x)) = fv_capacity v"
proof -
  let ?v = "snd (fv_emplace v i x)"
  let ?d = "if i < fv_size v then ArrayMoveConstruct (fv_data v) (i + 1) i (fv_size v - i)
            else fv_data v"
  have v: "?v = v\<lparr>fv_data := ?d[i := Some x], fv_size := fv_size v + 1\<rparr>"
    and r: "fst (fv_emplace v i x) = Inr ()"
    using i room by (simp_all add: fv_emplace_def fv_full_def Let_def)
  have d: "(?d[i := Some x]) ! k =
      (if k < i then fv_data v ! k else if k = i then Some x else fv_data v ! (k - 1))"
    if "k < fv_size v + 1" for k
    using that i room inv by (auto simp: fv_inv_def nth_list_update nth_ArrayMoveConstruct)
  show inv': "fv_inv ?v" using inv i room d by (auto simp: v fv_inv_def)
  show "elems ?v = list_insert_at i x (elems v)"
    using inv inv' i d
    by (intro elems_eqI) (auto simp: v length_elems nth_list_insert_at nth_elems)
qed (use i room in \<open>simp_all add: fv_emplace_def fv_full_def Let_def\<close>)

lemma fv_emplace_error:
  "i > fv_size v \<Longrightarrow> fv_emplace v i x = (Inl kArgumentOutOfRange, v)"
  "i \<le> fv_size v \<Longrightarrow> fv_full v \<Longrightarrow> fv_emplace v i x = (Inl kContainerFull, v)"
  by (simp_all add: fv_emplace_def)

lemma fv_erase_ok:
  assumes inv: "fv_inv v" and i: "i < fv_size v"
  shows "fst (fv_erase v i) = Inr ()" "fv_inv (snd (fv_erase v i))"
    "elems (snd (fv_erase v i)) = list_remove_at i (elems v)"
    "fv_capacity (snd (fv_erase v i)) = fv_capacity v"
    "fv_size (snd (fv_erase v i)) = fv_size v - 1"
proof -
  let ?v = "snd (fv_erase v i)" and ?s = "fv_size v - 1"
  let ?d = "if i < ?s then ArrayMoveConstruct ((fv_data v)[i := None]) i (i + 1) (?s - i)
            else (fv_data v)[i := None]"
  have v: "?v = v\<lparr>fv_data := ?d, fv_size := ?s\<rparr>"
    using i by (simp add: fv_erase_def fv_empty_def Let_def)
  have d: "?d ! k = (if k < i then fv_data v ! k else fv_data v ! Suc k)" if "k < ?s" for k
    using that i inv by (auto simp: fv_inv_def nth_list_update nth_ArrayMoveConstruct)
  show inv': "fv_inv ?v" using inv i d by (auto simp: v fv_inv_def)
  show "elems ?v = list_remove_at i (elems v)"
    using inv inv' i d
    by (intro elems_eqI) (auto simp: v length_elems nth_list_remove_at nth_elems)
qed (use i in \<open>simp_all add: fv_erase_def fv_empty_def Let_def\<close>)

lemma fv_erase_error: "i \<ge> fv_size v \<Longrightarrow> fv_erase v i = (Inl kArgumentOutOfRange, v)"
  by (simp add: fv_erase_def)

lemma fv_pop_back_cases:
  assumes "fv_inv v"
  shows "fv_pop_back v =
    (if fv_size v = 0 then (Inl kArgumentOutOfRange, v) else fv_erase v (fv_size v - 1))"
  using assms by (auto simp: fv_pop_back_def size_sub_ge size_sub_lt fv_inv_def fv_erase_error)

lemma fv_push_back_ok:
  assumes "fv_inv v" "fv_size v < fv_capacity v"
  shows "fst (fv_push_back v x) = Inr ()" "fv_inv (snd (fv_push_back v x))"
    "elems (snd (fv_push_back v x)) = elems v @ [x]"
    "fv_capacity (snd (fv_push_back v x)) = fv_capacity v"
    "fv_size (snd (fv_push_back v x)) = fv_size v + 1"
  using assms fv_emplace_ok [of v "fv_size v" x] insert_at_end [of "elems v" x]
  by (simp_all add: fv_push_back_def fv_emplace_back_def length_elems)
    (simp add: fv_emplace_def fv_full_def Let_def)

lemma fv_clear_loop_None:
  "n \<le> length d \<Longrightarrow> k < n \<Longrightarrow> fv_clear_loop d n ! k = None"
proof (induction n arbitrary: d)
  case (Suc n)
  have keep: "fv_clear_loop e m ! j = e ! j" if "m \<le> j" for e :: "'a cells" and m j
    using that by (induction m arbitrary: e) auto
  show ?case using Suc by (cases "k = n") (simp_all add: keep)
qed simp

lemma length_fv_clear_loop [simp]: "length (fv_clear_loop d n) = length d"
  by (induction n arbitrary: d) simp_all

lemma fv_clear_ok:
  "fv_inv v \<Longrightarrow> fv_inv (fv_clear v)" "elems (fv_clear v) = []"
  "fv_capacity (fv_clear v) = fv_capacity v"
  by (simp_all add: fv_clear_def fv_inv_def elems_def)


lemma fv_pop_back_ok:
  assumes "fv_inv v" "0 < fv_size v"
  shows "fst (fv_pop_back v) = Inr ()" "fv_inv (snd (fv_pop_back v))"
    "elems (snd (fv_pop_back v)) = butlast (elems v)"
    "fv_capacity (snd (fv_pop_back v)) = fv_capacity v"
    "fv_size (snd (fv_pop_back v)) = fv_size v - 1"
proof -
  have "elems v \<noteq> []" using assms length_elems by fastforce
  then show "elems (snd (fv_pop_back v)) = butlast (elems v)"
    using assms remove_at_end [of "elems v"]
    by (simp add: fv_pop_back_cases fv_erase_ok length_elems)
qed (use assms in \<open>simp_all add: fv_pop_back_cases fv_erase_ok\<close>)

lemma fv_grow_ok:
  assumes "fv_inv v" "count \<le> fv_capacity v" "count - fv_size v \<le> fuel"
  shows "fv_inv (fv_grow v count x fuel) \<and>
    elems (fv_grow v count x fuel) = elems v @ replicate (count - fv_size v) x \<and>
    fv_capacity (fv_grow v count x fuel) = fv_capacity v \<and>
    fv_size (fv_grow v count x fuel) = max count (fv_size v)"
  using assms
proof (induction fuel arbitrary: v)
  case (Suc fuel)
  show ?case
  proof (cases "count > fv_size v")
    case True
    let ?w = "snd (fv_push_back v x)"
    note w = fv_push_back_ok [OF Suc.prems(1), of x]
    have room: "fv_size v < fv_capacity v" using True Suc.prems by simp
    have "fv_inv (fv_grow ?w count x fuel) \<and>
      elems (fv_grow ?w count x fuel) = elems ?w @ replicate (count - fv_size ?w) x \<and>
      fv_capacity (fv_grow ?w count x fuel) = fv_capacity ?w \<and>
      fv_size (fv_grow ?w count x fuel) = max count (fv_size ?w)"
      using Suc.prems room w by (intro Suc.IH) auto
    moreover have "replicate (count - fv_size v) x = x # replicate (count - Suc (fv_size v)) x"
      using True by (metis Suc_diff_Suc replicate_Suc)
    ultimately show ?thesis using True room w by (simp add: max_def)
  qed (use Suc.prems in \<open>simp add: max_def\<close>)
qed (simp add: max_def)

lemma fv_shrink_ok:
  assumes "fv_inv v" "fv_size v - count \<le> fuel"
  shows "fv_inv (fv_shrink v count fuel) \<and> elems (fv_shrink v count fuel) = take count (elems v) \<and>
    fv_capacity (fv_shrink v count fuel) = fv_capacity v"
  using assms
proof (induction fuel arbitrary: v)
  case 0
  then show ?case by (simp add: length_elems)
next
  case (Suc fuel)
  show ?case
  proof (cases "count < fv_size v")
    case True
    let ?w = "snd (fv_pop_back v)"
    note w = fv_pop_back_ok [OF Suc.prems(1)]
    have "fv_inv (fv_shrink ?w count fuel) \<and>
      elems (fv_shrink ?w count fuel) = take count (elems ?w) \<and>
      fv_capacity (fv_shrink ?w count fuel) = fv_capacity ?w"
      using Suc.prems True w by (intro Suc.IH) auto
    then show ?thesis using True w Suc.prems
      by (auto simp: butlast_conv_take length_elems min_def)
  qed (use Suc.prems in \<open>simp add: length_elems\<close>)
qed

lemma fv_resize_ok:
  assumes "fv_inv v" "count \<le> fv_capacity v"
  shows "fst (fv_resize v count x) = Inr ()" "fv_inv (snd (fv_resize v count x))"
    "elems (snd (fv_resize v count x)) =
       take count (elems v) @ replicate (count - fv_size v) x"
    "fv_capacity (snd (fv_resize v count x)) = fv_capacity v"
proof -
  let ?g = "fv_grow v count x (fv_capacity v)"
  note g = fv_grow_ok [of v count "fv_capacity v" x, OF assms]
  have sh: "snd (fv_resize v count x) = fv_shrink ?g count (fv_size ?g)"
    using assms by (simp add: fv_resize_def Let_def)
  have g': "fv_inv ?g" "elems ?g = elems v @ replicate (count - fv_size v) x"
    "fv_capacity ?g = fv_capacity v"
    using g assms by auto
  note s = fv_shrink_ok [OF g'(1), of count "fv_size ?g"]
  show "fv_inv (snd (fv_resize v count x))" "fv_capacity (snd (fv_resize v count x)) = fv_capacity v"
    using s g' by (simp_all add: sh)
  show "elems (snd (fv_resize v count x)) = take count (elems v) @ replicate (count - fv_size v) x"
    using s g' assms by (simp add: sh length_elems)
  show "fst (fv_resize v count x) = Inr ()"
    using assms by (simp add: fv_resize_def Let_def)
qed

lemma fv_copy_from_ok:
  assumes "fv_inv v" "fv_inv w" "fv_size w \<le> fv_capacity v"
  shows "fst (fv_copy_from v w) = Inr ()" "fv_inv (snd (fv_copy_from v w))"
    "elems (snd (fv_copy_from v w)) = elems w"
proof -
  let ?r = "snd (fv_copy_from v w)"
  have r: "fv_size ?r = fv_size w" "fv_capacity ?r = fv_capacity v"
    "fv_data ?r = ArrayCopyConstruct (fv_data (fv_clear v)) 0 (fv_data w) 0 (fv_size w)"
    using assms by (simp_all add: fv_copy_from_def fv_clear_def Let_def)
  have len: "length (fv_data (fv_clear v)) = fv_capacity v"
    using assms by (simp add: fv_clear_def fv_inv_def)
  have d: "fv_data ?r ! i = fv_data w ! i" if "i < fv_size w" for i
    using that assms len by (simp add: r nth_ArrayCopyConstruct)
  show inv: "fv_inv ?r"
    using assms d len by (auto simp: fv_inv_def r)
  show "elems ?r = elems w"
    using inv assms d by (intro elems_eqI) (simp_all add: r length_elems nth_elems)
qed (use assms in \<open>simp add: fv_copy_from_def Let_def\<close>)

lemma fv_reserve_ok:
  assumes "fv_inv v" "n < 2 ^ 63"
  shows "fst (fv_reserve True v n) = Inr ()" "fv_inv (snd (fv_reserve True v n))"
    "elems (snd (fv_reserve True v n)) = elems v"
    "fv_capacity (snd (fv_reserve True v n)) = max n (fv_capacity v)"
proof -
  let ?r = "snd (fv_reserve True v n)"
  have d: "fv_size ?r = fv_size v \<and> (\<forall>i < fv_size v. fv_data ?r ! i = fv_data v ! i)"
    using assms by (auto simp: fv_reserve_def nth_ArrayCopyConstruct fv_inv_def)
  show inv: "fv_inv ?r"
    using assms d by (auto simp: fv_inv_def fv_reserve_def)
  show "elems ?r = elems v"
    using inv assms d by (intro elems_eqI) (simp_all add: length_elems nth_elems)
qed (use assms in \<open>simp_all add: fv_reserve_def max_def\<close>)

lemma fv_shrink_to_fit_ok:
  assumes "fv_inv v"
  shows "fst (fv_shrink_to_fit True v) = Inr ()" "fv_inv (snd (fv_shrink_to_fit True v))"
    "elems (snd (fv_shrink_to_fit True v)) = elems v"
    "fv_capacity (snd (fv_shrink_to_fit True v)) = fv_size v"
proof -
  let ?r = "snd (fv_shrink_to_fit True v)"
  have d: "fv_size ?r = fv_size v \<and> (\<forall>i < fv_size v. fv_data ?r ! i = fv_data v ! i)"
    using assms by (auto simp: fv_shrink_to_fit_def nth_ArrayCopyConstruct fv_inv_def)
  show inv: "fv_inv ?r"
    using assms d by (auto simp: fv_inv_def fv_shrink_to_fit_def)
  show "elems ?r = elems v"
    using inv assms d by (intro elems_eqI) (simp_all add: length_elems nth_elems)
qed (use assms in \<open>auto simp: fv_shrink_to_fit_def fv_inv_def\<close>)

text \<open>The range insertion copies over the cells from pos on and adds count to the size: the
  elements after pos are overwritten and the last cells are the raw ones of the storage.  At
  the end of the vector it is an append.\<close>

lemma fv_insert_range_end:
  assumes "fv_inv v" "fv_inv w" "start < stop" "stop \<le> fv_size w"
    "fv_size v + (stop - start) \<le> fv_capacity v"
  shows "fst (fv_insert_range v (fv_size v) w start stop) = Inr ()"
    "fv_inv (snd (fv_insert_range v (fv_size v) w start stop))"
    "elems (snd (fv_insert_range v (fv_size v) w start stop)) =
       elems v @ take (stop - start) (drop start (elems w))"
proof -
  let ?r = "snd (fv_insert_range v (fv_size v) w start stop)" and ?n = "stop - start"
  have cnt: "size_sub stop start = ?n"
    using assms by (simp add: size_sub_ge fv_inv_def)
  have sm: "(fv_size v + ?n) mod 2 ^ 64 = fv_size v + ?n"
    using assms by (simp add: fv_inv_def)
  have r: "?r = v\<lparr>fv_data := ArrayCopyConstruct (fv_data v) (fv_size v) (fv_data w) start ?n,
                   fv_size := fv_size v + ?n\<rparr>"
    and f: "fst (fv_insert_range v (fv_size v) w start stop) = Inr ()"
    using assms cnt sm by (simp_all add: fv_insert_range_def Let_def)
  have d: "fv_data ?r ! i =
      (if i < fv_size v then fv_data v ! i else fv_data w ! (start + (i - fv_size v)))"
    if "i < fv_size v + ?n" for i
    using that assms by (auto simp: r nth_ArrayCopyConstruct fv_inv_def)
  show inv: "fv_inv ?r"
    using assms d by (auto simp: fv_inv_def r)
  show "elems ?r = elems v @ take ?n (drop start (elems w))"
    using inv assms d
    by (intro elems_eqI) (auto simp: r length_elems nth_elems nth_append)
  show "fst (fv_insert_range v (fv_size v) w start stop) = Inr ()" by (fact f)
qed

section \<open>The interface of a bounded sequence\<close>

text \<open>What the owners of a vector rely on: an element is appended while there is room, and an
  erasure removes exactly the element at the index.\<close>

locale bounded_seq =
  fixes inv :: "'v \<Rightarrow> bool"
    and view :: "'v \<Rightarrow> 'a list"
    and cap :: "'v \<Rightarrow> nat"
    and push :: "'v \<Rightarrow> 'a \<Rightarrow> (fv_error + unit) \<times> 'v"
    and del :: "'v \<Rightarrow> nat \<Rightarrow> (fv_error + unit) \<times> 'v"
  assumes bound: "inv v \<Longrightarrow> length (view v) \<le> cap v"
    and push_room: "inv v \<Longrightarrow> length (view v) < cap v \<Longrightarrow>
      fst (push v x) = Inr () \<and> inv (snd (push v x)) \<and> view (snd (push v x)) = view v @ [x] \<and>
      cap (snd (push v x)) = cap v"
    and push_full: "inv v \<Longrightarrow> length (view v) = cap v \<Longrightarrow> push v x = (Inl kContainerFull, v)"
    and del_in: "inv v \<Longrightarrow> i < length (view v) \<Longrightarrow>
      fst (del v i) = Inr () \<and> inv (snd (del v i)) \<and>
      view (snd (del v i)) = list_remove_at i (view v) \<and> cap (snd (del v i)) = cap v"
    and del_out: "inv v \<Longrightarrow> i \<ge> length (view v) \<Longrightarrow> del v i = (Inl kArgumentOutOfRange, v)"
begin

lemma push_inv: "inv v \<Longrightarrow> inv (snd (push v x))"
  using push_room [of v x] push_full [of v x] bound [of v]
  by (cases "length (view v) < cap v") auto

lemma del_inv: "inv v \<Longrightarrow> inv (snd (del v i))"
  using del_in [of v i] del_out [of v i] by (cases "i < length (view v)") auto

lemma push_del: "inv v \<Longrightarrow> length (view v) < cap v \<Longrightarrow>
  view (snd (del (snd (push v x)) (length (view v)))) = view v"
  using push_room [of v x] del_in [of "snd (push v x)" "length (view v)"]
  by (simp add: list_remove_at_def)

fun push_all :: "'v \<Rightarrow> 'a list \<Rightarrow> 'v" where
  "push_all v [] = v"
| "push_all v (x # xs) = push_all (snd (push v x)) xs"

lemma push_all_view:
  "inv v \<Longrightarrow> inv (push_all v xs) \<and> view (push_all v xs) = view v @ take (cap v - length (view v)) xs"
proof (induction xs arbitrary: v)
  case (Cons x xs)
  show ?case
  proof (cases "length (view v) < cap v")
    case True
    then have "cap v - length (view v) = Suc (cap v - Suc (length (view v)))" by simp
    then show ?thesis using Cons push_room [of v x] True by simp
  next
    case False
    then show ?thesis using Cons push_full [of v x] bound [of v] by simp
  qed
qed simp

end

interpretation fv: bounded_seq fv_inv elems fv_capacity fv_push_back fv_erase
proof unfold_locales
  fix v :: "'a FixedVector" and x :: 'a
  assume v: "fv_inv v"
  show "length (elems v) \<le> fv_capacity v"
    using v by (simp add: length_elems) (simp add: fv_inv_def)
  show "length (elems v) = fv_capacity v \<Longrightarrow> fv_push_back v x = (Inl kContainerFull, v)"
    using v by (simp add: length_elems fv_push_back_def fv_emplace_back_def fv_emplace_def fv_full_def)
qed (simp_all add: length_elems fv_push_back_ok fv_erase_ok fv_erase_error)


section \<open>Traces of operations\<close>

text \<open>The operations a client can call, their execution on the vector and on the list that
  specifies it.\<close>

datatype 'a fv_op =
  OpEmplace nat 'a | OpPushBack 'a | OpErase nat | OpPopBack | OpClear | OpResize nat 'a

fun fv_exec :: "'a fv_op \<Rightarrow> 'a FixedVector \<Rightarrow> (fv_error + unit) \<times> 'a FixedVector" where
  "fv_exec (OpEmplace i x) v = fv_emplace v i x"
| "fv_exec (OpPushBack x) v = fv_push_back v x"
| "fv_exec (OpErase i) v = fv_erase v i"
| "fv_exec OpPopBack v = fv_pop_back v"
| "fv_exec OpClear v = (Inr (), fv_clear v)"
| "fv_exec (OpResize n x) v = fv_resize v n x"

fun spec_exec :: "nat \<Rightarrow> 'a fv_op \<Rightarrow> 'a list \<Rightarrow> (fv_error + unit) \<times> 'a list" where
  "spec_exec c (OpEmplace i x) xs =
     (if i > length xs then (Inl kArgumentOutOfRange, xs)
      else if length xs = c then (Inl kContainerFull, xs)
      else (Inr (), list_insert_at i x xs))"
| "spec_exec c (OpPushBack x) xs =
     (if length xs = c then (Inl kContainerFull, xs) else (Inr (), xs @ [x]))"
| "spec_exec c (OpErase i) xs =
     (if i \<ge> length xs then (Inl kArgumentOutOfRange, xs) else (Inr (), list_remove_at i xs))"
| "spec_exec c OpPopBack xs =
     (if xs = [] then (Inl kArgumentOutOfRange, xs) else (Inr (), butlast xs))"
| "spec_exec c OpClear xs = (Inr (), [])"
| "spec_exec c (OpResize n x) xs =
     (if n > c then (Inl kArgumentOutOfRange, xs)
      else (Inr (), take n xs @ replicate (n - length xs) x))"

fun fv_run :: "'a fv_op list \<Rightarrow> 'a FixedVector \<Rightarrow> (fv_error + unit) list \<times> 'a FixedVector" where
  "fv_run [] v = ([], v)"
| "fv_run (p # ps) v = (let (r, v1) = fv_exec p v; (rs, v2) = fv_run ps v1 in (r # rs, v2))"

fun spec_run :: "nat \<Rightarrow> 'a fv_op list \<Rightarrow> 'a list \<Rightarrow> (fv_error + unit) list \<times> 'a list" where
  "spec_run c [] xs = ([], xs)"
| "spec_run c (p # ps) xs =
     (let (r, xs1) = spec_exec c p xs; (rs, xs2) = spec_run c ps xs1 in (r # rs, xs2))"

lemma fv_exec_refines:
  assumes "fv_inv v"
  shows "fv_inv (snd (fv_exec p v)) \<and> fv_capacity (snd (fv_exec p v)) = fv_capacity v \<and>
    (fst (fv_exec p v), elems (snd (fv_exec p v))) = spec_exec (fv_capacity v) p (elems v)"
proof -
  have le: "fv_size v \<le> fv_capacity v" using assms by (simp add: fv_inv_def)
  show ?thesis
  proof (cases p)
    case (OpEmplace i x)
    then show ?thesis
      using assms le fv_emplace_ok [of v i x]
      by (cases "i > fv_size v"; cases "fv_full v") (auto simp: length_elems fv_full_def fv_emplace_error)
  next
    case (OpPushBack x)
    then show ?thesis
      using assms le fv.push_full [OF assms, of x] by (auto simp: fv_push_back_ok length_elems)
  next
    case (OpErase i)
    then show ?thesis
      using assms by (auto simp: fv_erase_ok fv_erase_error length_elems)
  next
    case OpPopBack
    then show ?thesis
      using assms length_elems [OF assms] fv_pop_back_ok [OF assms]
      by (cases "fv_size v = 0") (auto simp: fv_pop_back_cases [OF assms] simp del: fv_erase_error)
  next
    case OpClear
    then show ?thesis using assms by (simp add: fv_clear_ok)
  next
    case (OpResize n x)
    then show ?thesis
      using assms fv_resize_ok [of v n x]
      by (cases "n > fv_capacity v") (auto simp: fv_resize_def length_elems)
  qed
qed

text \<open>C3: Every sequence of emplace, push_back, erase, pop_back, clear and resize calls on a
  vector returns the result codes, and leaves the elements, of the same sequence on a list
  bounded by the capacity: insertions and removals shift the tail, errors leave the elements
  unchanged.\<close>

theorem fv_trace_refines_list:
  assumes "fv_inv v"
  shows "fst (fv_run ps v) = fst (spec_run (fv_capacity v) ps (elems v)) \<and>
    elems (snd (fv_run ps v)) = snd (spec_run (fv_capacity v) ps (elems v)) \<and>
    fv_inv (snd (fv_run ps v))"
  using assms
proof (induction ps arbitrary: v)
  case (Cons p ps)
  obtain r v1 where v1: "fv_exec p v = (r, v1)" by fastforce
  have "fv_inv v1" "fv_capacity v1 = fv_capacity v"
    "spec_exec (fv_capacity v) p (elems v) = (r, elems v1)"
    using fv_exec_refines [OF Cons.prems, of p] v1 by auto
  then show ?case using Cons.IH [of v1] v1 by (auto simp: split_beta Let_def)
qed simp

theorem fv_trace_refines_list_witness:
  "elems (snd (fv_run [OpPushBack (1::nat), OpEmplace 0 2, OpErase 1, OpPopBack, OpPopBack]
     (fv_stack 2))) = []"
  using fv_trace_refines_list [OF fv_inv_stack [of 2],
      of "[OpPushBack (1::nat), OpEmplace 0 2, OpErase 1, OpPopBack, OpPopBack]"]
  by (simp add: elems_stack fv_capacity_stack list_insert_at_def list_remove_at_def)

text \<open>Range insertion anywhere but at the end is not an insertion: the elements from the
  position on are overwritten by the range, none is shifted, and the cells added at the end
  are whatever the storage held, raw cells in particular.\<close>

theorem fv_insert_range_overwrites:
  assumes "fv_inv v" "start < stop" "stop \<le> fv_size w" "fv_inv w"
    "pos + (stop - start) \<le> fv_size v"
    "fv_size v + (stop - start) \<le> fv_capacity v"
    "\<forall>i. fv_size v \<le> i \<and> i < fv_capacity v \<longrightarrow> fv_data v ! i = None"
  shows "fst (fv_insert_range v pos w start stop) = Inr () \<and>
    fv_size (snd (fv_insert_range v pos w start stop)) = fv_size v + (stop - start) \<and>
    fv_data (snd (fv_insert_range v pos w start stop)) ! fv_size v = None \<and>
    \<not> fv_inv (snd (fv_insert_range v pos w start stop))"
proof -
  let ?n = "stop - start" and ?r = "snd (fv_insert_range v pos w start stop)"
  have cnt: "size_sub stop start = ?n" using assms by (simp add: size_sub_ge fv_inv_def)
  have "fv_size v < 2 ^ 63" using assms(1) by (simp add: fv_inv_def)
  have le: "pos \<le> fv_size v" "pos + ?n \<le> fv_capacity v" using assms(1,5) by (simp_all add: fv_inv_def)
  have "pos + ?n < 2 ^ 64" using \<open>fv_size v < 2 ^ 63\<close> assms(5) by simp
  then have sm: "(pos + ?n) mod 2 ^ 64 = pos + ?n" by simp
  have r: "?r = v\<lparr>fv_data := ArrayCopyConstruct (fv_data v) pos (fv_data w) start ?n,
                   fv_size := fv_size v + ?n\<rparr>"
    and f: "fst (fv_insert_range v pos w start stop) = Inr ()"
    using assms cnt sm le by (simp_all add: fv_insert_range_def Let_def)
  have none: "fv_data ?r ! fv_size v = None"
    using assms by (auto simp: r nth_ArrayCopyConstruct fv_inv_def)
  moreover have "fv_size v < fv_size ?r" using assms by (simp add: r)
  ultimately have "\<not> fv_inv ?r" unfolding fv_inv_def by blast
  then show ?thesis using f none by (simp add: r)
qed

text \<open>A concrete case: inserting [9] at the front of [1, 2] gives 9, 2 and a raw cell instead of
  9, 1, 2.\<close>

lemma fv_insert_range_front_example:
  "fv_data (snd (fv_insert_range \<lparr>fv_data = [Some 1, Some (2::nat), None], fv_capacity = 3, fv_size = 2\<rparr>
     0 \<lparr>fv_data = [Some 9], fv_capacity = 1, fv_size = 1\<rparr> 0 1)) = [Some 9, Some 2, None]"
  by (simp add: fv_insert_range_def size_sub_def Let_def)

end
