(* ===== verification/Unique_Index_Map.thy ===== *)
theory Unique_Index_Map
  imports Prelude
begin

text \<open>
  common/unique_index_map.hpp: a table of objects named by 64-bit uids, version in the upper
  and slot index in the lower 32 bits.  Free slots form an implicit list through uids_, whose
  head is next_.  The two arrays are lists; nullptr is the empty list.  A data_ cell is None
  while no object lives in it.
\<close>

unbundle bit_operations_syntax

section \<open>Uids\<close>

definition kIndexSize :: nat where "kIndexSize = 32"
definition kVersionSize :: nat where "kVersionSize = 32"
definition kIndexMask :: uint64 where "kIndexMask = push_bit kIndexSize 1 - 1"

definition GetVersion :: "uint64 \<Rightarrow> uint64" where "GetVersion uid = drop_bit kIndexSize uid"
definition GetIndex :: "uint64 \<Rightarrow> uint64" where "GetIndex uid = uid AND kIndexMask"

abbreviation ix :: "uint64 \<Rightarrow> nat" where "ix u \<equiv> unat (GetIndex u)"

lemma kIndexMask_mask: "kIndexMask = mask 32"
  by (simp add: kIndexMask_def kIndexSize_def mask_eq_exp_minus_1)

lemma unat_GetIndex: "ix u = unat u mod 2 ^ 32"
  by (simp add: GetIndex_def kIndexMask_mask flip: take_bit_eq_mask)
    (simp add: take_bit_eq_mod unat_mod_distrib)

lemma unat_GetVersion: "unat (GetVersion u) = unat u div 2 ^ 32"
  by (simp add: GetVersion_def kIndexSize_def drop_bit_eq_div unat_div_distrib)

lemma ix_less: "ix u < 2 ^ 32"
  by (simp add: unat_GetIndex)

lemma GetIndex_eq_iff: "GetIndex u = GetIndex v \<longleftrightarrow> ix u = ix v"
  by (simp add: word_unat_eq_iff)

text \<open>The successor version of a uid: same index, larger uid, unless the version wraps.\<close>

lemma ix_next_version: "ix (u + 2 ^ 32) = ix u"
  by (simp add: unat_GetIndex unat_word_ariths mod_mod_cancel)

lemma unat_next_version:
  "unat (GetVersion u) \<noteq> 2 ^ 32 - 1 \<Longrightarrow> unat (u + 2 ^ 32) = unat u + 2 ^ 32"
proof -
  assume "unat (GetVersion u) \<noteq> 2 ^ 32 - 1"
  moreover have "unat u < 2 ^ 64" using unsigned_less [of u] by simp
  ultimately have "unat u + 2 ^ 32 < 2 ^ 64" unfolding unat_GetVersion by simp
  then show ?thesis by (simp add: unat_word_ariths)
qed

section \<open>State and operations\<close>

datatype uim_error = UimArgumentInvalid | UimOutOfMemory | UimContainerFull | UimNotFound

record 'a UniqueIndexMap =
  uim_uids :: "uint64 list"
  uim_data :: "'a option list"
  uim_capacity :: uint64
  uim_size :: uint64
  uim_next :: uint64

definition uim_reset_values :: "'a UniqueIndexMap" where
  "uim_reset_values =
     \<lparr>uim_uids = [], uim_data = [], uim_capacity = 0, uim_size = 0, uim_next = 0\<rparr>"

text \<open>initialize; alloc_ok is the outcome of the two allocations.  On failure the capacity has
  already been set.\<close>

definition uim_initialize ::
  "bool \<Rightarrow> uint64 \<Rightarrow> 'a UniqueIndexMap \<Rightarrow> (uim_error + unit) \<times> 'a UniqueIndexMap" where
  "uim_initialize alloc_ok max_capacity m =
     (if max_capacity > push_bit kIndexSize 1 then (Unexpected UimArgumentInvalid, m)
      else if \<not> alloc_ok
      then (Unexpected UimOutOfMemory, m\<lparr>uim_capacity := max_capacity, uim_uids := [], uim_data := []\<rparr>)
      else (Inr (), m\<lparr>uim_capacity := max_capacity,
                      uim_uids := map (\<lambda>i. of_nat (i + 1)) [0..<unat max_capacity],
                      uim_data := replicate (unat max_capacity) None\<rparr>))"

definition uim_valid :: "'a UniqueIndexMap \<Rightarrow> uint64 \<Rightarrow> bool" where
  "uim_valid m uid =
     (let idx = GetIndex uid in idx < uim_capacity m \<and> uim_uids m ! unat idx = uid)"

definition uim_emplace ::
  "'a \<Rightarrow> 'a UniqueIndexMap \<Rightarrow> (uim_error + uint64) \<times> 'a UniqueIndexMap" where
  "uim_emplace x m =
     (if uim_size m = uim_capacity m then (Unexpected UimOutOfMemory, m)
      else if GetVersion (uim_next m) = push_bit kVersionSize 1 - 1
      then (Unexpected UimContainerFull, m)
      else let idx = unat (GetIndex (uim_next m));
               temp = uim_next m;
               uid = temp + push_bit kIndexSize 1
           in (Inr uid, m\<lparr>uim_next := uim_uids m ! idx,
                          uim_uids := (uim_uids m)[idx := uid],
                          uim_data := (uim_data m)[idx := Some x],
                          uim_size := uim_size m + 1\<rparr>))"

definition uim_insert ::
  "'a \<Rightarrow> 'a UniqueIndexMap \<Rightarrow> (uim_error + uint64) \<times> 'a UniqueIndexMap" where
  "uim_insert obj m = uim_emplace obj m"

definition uim_erase ::
  "uint64 \<Rightarrow> 'a UniqueIndexMap \<Rightarrow> (uim_error + unit) \<times> 'a UniqueIndexMap" where
  "uim_erase uid m =
     (if \<not> uim_valid m uid then (Unexpected UimNotFound, m)
      else let idx = unat (GetIndex uid)
           in (Inr (), m\<lparr>uim_uids := (uim_uids m)[idx := uim_next m], uim_next := uid,
                         uim_size := uim_size m - 1, uim_data := (uim_data m)[idx := None]\<rparr>))"

definition uim_try_get :: "uint64 \<Rightarrow> 'a UniqueIndexMap \<Rightarrow> uim_error + 'a option" where
  "uim_try_get uid m =
     (if \<not> uim_valid m uid then Unexpected UimNotFound
      else Inr (uim_data m ! unat (GetIndex uid)))"

fun uim_find_loop :: "'a \<Rightarrow> 'a UniqueIndexMap \<Rightarrow> nat \<Rightarrow> nat \<Rightarrow> uim_error + uint64" where
  "uim_find_loop x m i 0 = Unexpected UimNotFound"
| "uim_find_loop x m i (Suc n) =
     (if uim_valid m (uim_uids m ! i) \<and> uim_data m ! i = Some x then Inr (uim_uids m ! i)
      else uim_find_loop x m (Suc i) n)"

definition uim_find :: "'a \<Rightarrow> 'a UniqueIndexMap \<Rightarrow> uim_error + uint64" where
  "uim_find x m = uim_find_loop x m 0 (unat (uim_capacity m))"

text \<open>deinitialize returns the cells whose destructor it runs, in order; None is the
  dereference of the null array after a failed allocation.\<close>

definition uim_deinitialize ::
  "'a UniqueIndexMap \<Rightarrow> ('a option list \<times> 'a UniqueIndexMap) option" where
  "uim_deinitialize m =
     (if length (uim_uids m) < unat (uim_capacity m) then None
      else Some (map (\<lambda>i. uim_data m ! i)
                   (filter (\<lambda>i. ix (uim_uids m ! i) = i) [0..<unat (uim_capacity m)]),
                 uim_reset_values))"

section \<open>Invariant\<close>

text \<open>The free list as the list of the uids that name its slots, from next_ on: each uid's
  slot holds the following uid, the last slot holds the index after the table.\<close>

fun free_chain :: "uint64 list \<Rightarrow> uint64 \<Rightarrow> uint64 list \<Rightarrow> bool" where
  "free_chain us u [] \<longleftrightarrow> ix u = length us"
| "free_chain us u (v # vs) \<longleftrightarrow> v = u \<and> ix u < length us \<and> free_chain us (us ! ix u) vs"

definition uim_free :: "uint64 list \<Rightarrow> nat set" where "uim_free vs = ix ` set vs"

text \<open>hist is the set of all uids issued so far; the slot of each now carries a uid that is
  not smaller, either live in the slot or waiting in the free list.\<close>

definition uim_wf :: "'a UniqueIndexMap \<Rightarrow> uint64 list \<Rightarrow> uint64 set \<Rightarrow> bool" where
  "uim_wf m vs hist \<longleftrightarrow>
     length (uim_uids m) = unat (uim_capacity m) \<and>
     length (uim_data m) = unat (uim_capacity m) \<and>
     unat (uim_capacity m) < 2 ^ 32 \<and>
     free_chain (uim_uids m) (uim_next m) vs \<and> distinct (map ix vs) \<and>
     unat (uim_size m) + length vs = unat (uim_capacity m) \<and>
     (\<forall>i < unat (uim_capacity m). i \<in> uim_free vs \<longleftrightarrow> uim_data m ! i = None) \<and>
     (\<forall>i < unat (uim_capacity m). i \<notin> uim_free vs \<longrightarrow> ix (uim_uids m ! i) = i) \<and>
     (\<forall>h \<in> hist. (\<exists>v \<in> set vs. ix v = ix h \<and> unat h \<le> unat v) \<or>
        ix h < unat (uim_capacity m) \<and> ix h \<notin> uim_free vs \<and> unat h \<le> unat (uim_uids m ! ix h))"

definition uim_inv :: "'a UniqueIndexMap \<Rightarrow> uint64 set \<Rightarrow> bool" where
  "uim_inv m hist \<longleftrightarrow> (\<exists>vs. uim_wf m vs hist)"

text \<open>The abstraction: the partial map from uids to objects.\<close>

definition uim_abs :: "'a UniqueIndexMap \<Rightarrow> uint64 \<Rightarrow> 'a option" where
  "uim_abs m uid = (if uim_valid m uid then uim_data m ! ix uid else None)"

lemma free_chain_range: "free_chain us u vs \<Longrightarrow> v \<in> set vs \<Longrightarrow> ix v < length us"
  by (induction vs arbitrary: u) auto

lemma free_chain_update:
  "free_chain us u vs \<Longrightarrow> i \<notin> ix ` set vs \<Longrightarrow> free_chain (us[i := x]) u vs"
  by (induction vs arbitrary: u) (auto simp: nth_list_update)

lemma free_chain_not_self:
  "free_chain us u vs \<Longrightarrow> distinct (map ix vs) \<Longrightarrow> v \<in> set vs \<Longrightarrow> ix (us ! ix v) \<noteq> ix v"
proof (induction vs arbitrary: u)
  case (Cons w vs)
  show ?case
  proof (cases "v = w")
    case True
    then show ?thesis using Cons.prems by (cases vs) auto
  next
    case False
    then show ?thesis using Cons by auto
  qed
qed simp

lemma free_chain_initial:
  assumes "n < 2 ^ 32" "k \<le> n"
  shows "free_chain (map (\<lambda>i. of_nat (i + 1)) [0..<n]) (of_nat k) (map of_nat [k..<n])"
  using assms(2)
proof (induction rule: inc_induct)
  case base
  then show ?case using assms by (simp add: unat_GetIndex unat_of_nat)
next
  case (step k)
  have "ix (of_nat k :: uint64) = k"
    using step.hyps assms by (simp add: unat_GetIndex unat_of_nat)
  moreover have "map (\<lambda>i. of_nat (i + 1) :: uint64) [0..<n] ! k = of_nat (Suc k)"
    using step.hyps by simp
  ultimately show ?case using step
    by (simp only: upt_conv_Cons list.map free_chain.simps length_map length_upt simp_thms) simp
qed

lemma uim_wf_initialize:
  assumes "unat n < 2 ^ 32" "m = snd (uim_initialize True n uim_reset_values)"
  shows "uim_wf m (map of_nat [0..<unat n]) {}"
proof -
  have ixk: "ix (of_nat k :: uint64) = k" if "k < unat n" for k
    using that assms by (simp add: unat_GetIndex unat_of_nat)
  have le: "\<not> push_bit kIndexSize 1 < n"
    using assms by (simp add: word_less_nat_alt kIndexSize_def)
  have dist: "map (ix \<circ> of_nat) [0..<unat n] = [0..<unat n]"
    using ixk by (intro map_idI) simp
  have free: "uim_free (map of_nat [0..<unat n]) = {0..<unat n}"
    using dist by (metis uim_free_def list.map_comp atLeastLessThan_upt set_map)
  show ?thesis
    using assms le free_chain_initial [of "unat n" 0] dist free
    by (simp add: uim_wf_def uim_initialize_def uim_reset_values_def)
qed


section \<open>Operations against the abstraction\<close>

lemma uim_valid_iff:
  "uim_wf m vs H \<Longrightarrow> uim_valid m uid \<longleftrightarrow>
     ix uid < unat (uim_capacity m) \<and> ix uid \<notin> uim_free vs \<and> uim_uids m ! ix uid = uid"
proof -
  assume wf: "uim_wf m vs H"
  then have chain: "free_chain (uim_uids m) (uim_next m) vs" "distinct (map ix vs)"
    by (simp_all add: uim_wf_def)
  have "uim_uids m ! ix uid \<noteq> uid" if free: "ix uid \<in> uim_free vs"
  proof -
    obtain v where "v \<in> set vs" "ix v = ix uid" using free by (auto simp: uim_free_def)
    then have "ix (uim_uids m ! ix uid) \<noteq> ix uid" using free_chain_not_self [OF chain] by metis
    then show ?thesis by auto
  qed
  then show ?thesis by (auto simp: uim_valid_def word_less_nat_alt Let_def)
qed

lemma uim_emplace_full: "uim_size m = uim_capacity m \<Longrightarrow> uim_emplace x m = (Inl UimOutOfMemory, m)"
  by (simp add: uim_emplace_def)

lemma uim_emplace_version:
  "uim_size m \<noteq> uim_capacity m \<Longrightarrow> unat (GetVersion (uim_next m)) = 2 ^ 32 - 1 \<Longrightarrow>
   uim_emplace x m = (Inl UimContainerFull, m)"
  by (simp add: uim_emplace_def kVersionSize_def word_unat_eq_iff)

lemma uim_emplace_ok:
  fixes x :: 'a and m :: "'a UniqueIndexMap"
  assumes wf: "uim_wf m vs H" and room: "uim_size m \<noteq> uim_capacity m"
    and ver: "unat (GetVersion (uim_next m)) \<noteq> 2 ^ 32 - 1"
  defines "uid \<equiv> uim_next m + 2 ^ 32" and "m' \<equiv> snd (uim_emplace x m)"
  shows "fst (uim_emplace x m) = Inr uid" "uid \<notin> H" "uim_wf m' (tl vs) (insert uid H)"
    "uim_abs m uid = None" "uim_abs m' = (uim_abs m)(uid \<mapsto> x)"
    "unat (uim_size m') = unat (uim_size m) + 1" "uim_capacity m' = uim_capacity m"
proof -
  let ?c = "unat (uim_capacity m)" and ?u = "uim_next m"
  have sz: "unat (uim_size m) + length vs = ?c" using wf by (simp add: uim_wf_def)
  with room have "vs \<noteq> []" by (auto simp: word_unat_eq_iff)
  then obtain ws where vs: "vs = ?u # ws" and iu: "ix ?u < ?c"
    and ch: "free_chain (uim_uids m) (uim_uids m ! ix ?u) ws"
    using wf by (cases vs) (auto simp: uim_wf_def)
  have dist: "ix ?u \<notin> ix ` set ws" "distinct (map ix ws)" using wf vs by (auto simp: uim_wf_def)
  have ixuid: "ix uid = ix ?u" unfolding uid_def by (rule ix_next_version)
  have big: "unat uid = unat ?u + 2 ^ 32" unfolding uid_def by (rule unat_next_version [OF ver])
  have m': "m' = m\<lparr>uim_next := uim_uids m ! ix ?u, uim_uids := (uim_uids m)[ix ?u := uid],
      uim_data := (uim_data m)[ix ?u := Some x], uim_size := uim_size m + 1\<rparr>"
    and res: "fst (uim_emplace x m) = Inr uid"
    using room ver by (simp_all add: m'_def uim_emplace_def uid_def Let_def kIndexSize_def
        kVersionSize_def word_unat_eq_iff)
  show "fst (uim_emplace x m) = Inr uid" by (fact res)
  have sz1: "unat (uim_size m + 1) = unat (uim_size m) + 1"
    using sz \<open>vs \<noteq> []\<close> wf by (auto simp: uim_wf_def unat_word_ariths)
  show "unat (uim_size m') = unat (uim_size m) + 1" "uim_capacity m' = uim_capacity m"
    by (simp_all add: m' sz1)
  show fresh: "uid \<notin> H"
  proof
    assume "uid \<in> H"
    then have "\<exists>v \<in> set vs. ix v = ix ?u \<and> unat uid \<le> unat v"
      using wf vs by (auto simp: uim_wf_def uim_free_def ixuid)
    then obtain v where v: "v \<in> set vs" "ix v = ix ?u" "unat uid \<le> unat v" by blast
    moreover have "v = ?u" using v dist vs by (auto intro: rev_image_eqI)
    ultimately show False using big by simp
  qed
  have fr: "uim_free vs = insert (ix ?u) (uim_free ws)" by (simp add: vs uim_free_def)
  have hist: "(\<exists>v \<in> set ws. ix v = ix h \<and> unat h \<le> unat v) \<or>
      ix h < ?c \<and> ix h \<notin> uim_free ws \<and> unat h \<le> unat ((uim_uids m)[ix ?u := uid] ! ix h)"
    if "h \<in> insert uid H" for h
  proof (cases "ix h = ix ?u")
    case True
    have "unat h \<le> unat uid"
    proof (cases "h = uid")
      case False
      then have "\<exists>v \<in> set vs. ix v = ix ?u \<and> unat h \<le> unat v"
        using that wf vs True by (auto simp: uim_wf_def uim_free_def)
      then obtain v where v: "v \<in> set vs" "ix v = ix ?u" "unat h \<le> unat v" by blast
      moreover have "v = ?u" using v dist vs by (auto intro: rev_image_eqI)
      ultimately show ?thesis using big by simp
    qed simp
    then show ?thesis using True iu dist wf by (simp add: uim_wf_def uim_free_def)
  next
    case False
    with that ixuid have h: "h \<in> H" by auto
    have "(\<exists>v \<in> set vs. ix v = ix h \<and> unat h \<le> unat v) \<or>
        ix h < ?c \<and> ix h \<notin> uim_free vs \<and> unat h \<le> unat (uim_uids m ! ix h)"
      using wf h by (simp add: uim_wf_def)
    then show ?thesis using False by (auto simp: vs uim_free_def)
  qed
  have upd: "free_chain ((uim_uids m)[ix ?u := uid]) (uim_uids m ! ix ?u) ws"
    using ch dist by (intro free_chain_update)
  have len: "length (uim_uids m) = ?c" "length (uim_data m) = ?c"
    and old: "\<forall>i < ?c. i \<in> uim_free vs \<longleftrightarrow> uim_data m ! i = None"
      "\<forall>i < ?c. i \<notin> uim_free vs \<longrightarrow> ix (uim_uids m ! i) = i"
    using wf by (simp_all add: uim_wf_def)
  have nu: "ix ?u \<notin> uim_free ws" using dist by (simp add: uim_free_def)
  have data: "\<forall>i < ?c. i \<in> uim_free ws \<longleftrightarrow> (uim_data m)[ix ?u := Some x] ! i = None"
    using old nu iu by (auto simp: len nth_list_update fr)
  have ids: "\<forall>i < ?c. i \<notin> uim_free ws \<longrightarrow> ix ((uim_uids m)[ix ?u := uid] ! i) = i"
    using old nu iu ixuid by (auto simp: len nth_list_update fr)
  show wf': "uim_wf m' (tl vs) (insert uid H)"
    using wf upd data ids hist dist sz sz1 by (simp add: uim_wf_def m' vs)
  have free_uid: "ix uid \<in> uim_free vs" by (simp add: ixuid vs uim_free_def)
  then show "uim_abs m uid = None" using uim_valid_iff [OF wf] by (simp add: uim_abs_def)
  have nv: "\<not> uim_valid m h" if "ix h = ix ?u" for h
    using that free_uid ixuid uim_valid_iff [OF wf] by simp
  show "uim_abs m' = (uim_abs m)(uid \<mapsto> x)"
  proof
    fix h
    have "uim_valid m' h = (if ix h = ix ?u then h = uid else uim_valid m h)"
      using wf iu by (auto simp: uim_valid_def m' word_less_nat_alt uim_wf_def)
    then show "uim_abs m' h = ((uim_abs m)(uid \<mapsto> x)) h"
      using ixuid iu wf nv [of h] by (auto simp: uim_abs_def m' uim_wf_def)
  qed
qed

lemma uim_erase_invalid: "\<not> uim_valid m uid \<Longrightarrow> uim_erase uid m = (Inl UimNotFound, m)"
  by (simp add: uim_erase_def)

lemma uim_erase_ok:
  assumes wf: "uim_wf m vs H" and v: "uim_valid m uid"
  defines "m' \<equiv> snd (uim_erase uid m)"
  shows "fst (uim_erase uid m) = Inr ()" "uim_wf m' (uid # vs) H"
    "uim_abs m' = (uim_abs m)(uid := None)" "uim_capacity m' = uim_capacity m"
proof -
  let ?c = "unat (uim_capacity m)" and ?i = "ix uid"
  have val: "?i < ?c" "?i \<notin> uim_free vs" "uim_uids m ! ?i = uid"
    using v uim_valid_iff [OF wf] by auto
  have m': "m' = m\<lparr>uim_uids := (uim_uids m)[?i := uim_next m], uim_next := uid,
      uim_size := uim_size m - 1, uim_data := (uim_data m)[?i := None]\<rparr>"
    using v by (simp add: m'_def uim_erase_def Let_def)
  show "fst (uim_erase uid m) = Inr ()" "uim_capacity m' = uim_capacity m"
    using v by (simp_all add: uim_erase_def Let_def m')
  have sub: "uim_free vs \<subseteq> {0..<?c}"
    using wf free_chain_range by (fastforce simp: uim_wf_def uim_free_def)
  have "card (uim_free vs) = length vs"
    using wf by (metis uim_wf_def uim_free_def distinct_card length_map set_map)
  moreover have "card (insert ?i (uim_free vs)) \<le> ?c"
    using sub val by (metis atLeastLessThan_iff card_atLeastLessThan card_mono diff_zero
        finite_atLeastLessThan insert_subset zero_le)
  moreover have "finite (uim_free vs)" by (simp add: uim_free_def)
  ultimately have len: "length vs < ?c" using val by simp
  have sz: "unat (uim_size m) + length vs = ?c" using wf by (simp add: uim_wf_def)
  then have pos: "0 < unat (uim_size m)" using len by simp
  then have "uim_size m \<noteq> 0" by auto
  then have sz1: "unat (uim_size m - 1) = unat (uim_size m) - 1" by (rule unat_minus_one)
  have "free_chain ((uim_uids m)[?i := uim_next m]) (uim_next m) vs"
    using wf val by (intro free_chain_update) (auto simp: uim_wf_def uim_free_def)
  then have ch: "free_chain ((uim_uids m)[?i := uim_next m]) uid (uid # vs)"
    using wf val by (simp add: uim_wf_def)
  have fr: "uim_free (uid # vs) = insert ?i (uim_free vs)" by (simp add: uim_free_def)
  have hist: "(\<exists>v \<in> set (uid # vs). ix v = ix h \<and> unat h \<le> unat v) \<or>
      ix h < ?c \<and> ix h \<notin> uim_free (uid # vs) \<and>
      unat h \<le> unat ((uim_uids m)[?i := uim_next m] ! ix h)" if "h \<in> H" for h
  proof -
    have old: "(\<exists>v \<in> set vs. ix v = ix h \<and> unat h \<le> unat v) \<or>
        ix h < ?c \<and> ix h \<notin> uim_free vs \<and> unat h \<le> unat (uim_uids m ! ix h)"
      using wf that by (simp add: uim_wf_def)
    then show ?thesis using val by (cases "ix h = ?i") (auto simp: fr)
  qed
  have data: "\<forall>i < ?c. i \<in> uim_free (uid # vs) \<longleftrightarrow> (uim_data m)[?i := None] ! i = None"
    and ids: "\<forall>i < ?c. i \<notin> uim_free (uid # vs) \<longrightarrow> ix ((uim_uids m)[?i := uim_next m] ! i) = i"
    using wf val by (auto simp: fr uim_wf_def nth_list_update)
  have dist: "distinct (map ix (uid # vs))" using wf val by (auto simp: uim_wf_def uim_free_def)
  show wf': "uim_wf m' (uid # vs) H"
    using wf ch data ids hist dist sz sz1 pos by (simp add: uim_wf_def m' del: free_chain.simps)
  show "uim_abs m' = (uim_abs m)(uid := None)"
  proof
    fix h
    have a: "uim_valid m' h \<longleftrightarrow> ix h < ?c \<and> ix h \<notin> uim_free (uid # vs) \<and> uim_uids m' ! ix h = h"
      using uim_valid_iff [OF wf'] by (simp add: m')
    show "uim_abs m' h = ((uim_abs m)(uid := None)) h"
    proof (cases "ix h = ?i")
      case True
      then have "\<not> uim_valid m' h" using a by (simp add: fr)
      moreover have "uim_valid m h \<Longrightarrow> h = uid" using True val uim_valid_iff [OF wf, of h] by auto
      ultimately show ?thesis by (auto simp: uim_abs_def)
    next
      case False
      then have "uim_valid m' h \<longleftrightarrow> uim_valid m h"
        unfolding a uim_valid_iff [OF wf] by (simp add: fr m')
      then show ?thesis using False by (auto simp: uim_abs_def m')
    qed
  qed
qed

lemma uim_try_get_abs:
  assumes "uim_wf m vs H"
  shows "uim_try_get uid m = (case uim_abs m uid of None \<Rightarrow> Inl UimNotFound | Some x \<Rightarrow> Inr (Some x))"
  using assms uim_valid_iff [OF assms, of uid]
  by (auto simp: uim_try_get_def uim_abs_def uim_wf_def split: option.splits)


lemma uim_inv_emplace:
  assumes "uim_inv m H"
  shows "case uim_emplace x m of
      (Inr uid, m') \<Rightarrow> uid \<notin> H \<and> uim_inv m' (insert uid H) \<and> uim_abs m uid = None \<and>
        uim_abs m' = (uim_abs m)(uid \<mapsto> x) \<and> uim_capacity m' = uim_capacity m
    | (Inl e, m') \<Rightarrow> m' = m"
proof -
  obtain vs where wf: "uim_wf m vs H" using assms by (auto simp: uim_inv_def)
  consider (full) "uim_size m = uim_capacity m"
    | (ver) "uim_size m \<noteq> uim_capacity m" "unat (GetVersion (uim_next m)) = 2 ^ 32 - 1"
    | (fine) "uim_size m \<noteq> uim_capacity m" "unat (GetVersion (uim_next m)) \<noteq> 2 ^ 32 - 1" by blast
  then show ?thesis
  proof cases
    case fine
    obtain r m' where e: "uim_emplace x m = (r, m')" by fastforce
    show ?thesis
      using uim_emplace_ok(1,3,5,7) [OF wf fine, of x] uim_emplace_ok(2,4) [OF wf fine]
      by (auto simp: e uim_inv_def)
  qed (simp_all add: uim_emplace_full uim_emplace_version)
qed

lemma uim_inv_erase:
  assumes "uim_inv m H"
  shows "uim_inv (snd (uim_erase uid m)) H \<and>
    uim_capacity (snd (uim_erase uid m)) = uim_capacity m \<and>
    uim_abs (snd (uim_erase uid m)) = (uim_abs m)(uid := None) \<and>
    (fst (uim_erase uid m) = Inr () \<longleftrightarrow> uim_abs m uid \<noteq> None)"
proof -
  obtain vs where wf: "uim_wf m vs H" using assms by (auto simp: uim_inv_def)
  show ?thesis
  proof (cases "uim_valid m uid")
    case True
    moreover have "uim_data m ! ix uid \<noteq> None"
      using True wf uim_valid_iff [OF wf, of uid] unfolding uim_wf_def by blast
    ultimately have "uim_abs m uid \<noteq> None" by (simp add: uim_abs_def)
    then show ?thesis using uim_erase_ok [OF wf True] by (auto simp: uim_inv_def)
  next
    case False
    then have "uim_abs m uid = None" by (simp add: uim_abs_def)
    then show ?thesis using False assms by (simp add: uim_erase_invalid fun_upd_idem)
  qed
qed

lemma uim_inv_initialize:
  assumes n: "unat n < 2 ^ 32"
  shows "uim_inv (snd (uim_initialize True n uim_reset_values) :: 'a UniqueIndexMap) {}"
    "uim_abs (snd (uim_initialize True n uim_reset_values) :: 'a UniqueIndexMap) = Map.empty"
proof -
  let ?m = "snd (uim_initialize True n uim_reset_values) :: 'a UniqueIndexMap"
  have wf: "uim_wf ?m (map of_nat [0..<unat n]) {}" using uim_wf_initialize [OF n] by simp
  then show "uim_inv ?m {}" by (auto simp: uim_inv_def)
  have "\<not> n > push_bit kIndexSize 1" using n by (simp add: word_less_nat_alt kIndexSize_def)
  then have "uim_data ?m = replicate (unat n) None" "uim_capacity ?m = n"
    by (simp_all add: uim_initialize_def)
  then show "uim_abs ?m = Map.empty"
    by (intro ext) (auto simp: uim_abs_def uim_valid_def word_less_nat_alt Let_def)
qed

section \<open>Runs\<close>

datatype 'a uim_op = UEmplace 'a | UErase uint64

text \<open>uim_run returns the uids issued, in order, and the final map.\<close>

fun uim_run :: "'a uim_op list \<Rightarrow> 'a UniqueIndexMap \<Rightarrow> uint64 list \<times> 'a UniqueIndexMap" where
  "uim_run [] m = ([], m)"
| "uim_run (UEmplace x # ps) m =
     (case uim_emplace x m of
        (Inr uid, m1) \<Rightarrow> (let (us, m2) = uim_run ps m1 in (uid # us, m2))
      | (Inl e, m1) \<Rightarrow> uim_run ps m1)"
| "uim_run (UErase uid # ps) m = uim_run ps (snd (uim_erase uid m))"

lemma uim_run_inv:
  "uim_inv m H \<Longrightarrow> uim_inv (snd (uim_run ps m)) (H \<union> set (fst (uim_run ps m))) \<and>
     distinct (fst (uim_run ps m)) \<and> set (fst (uim_run ps m)) \<inter> H = {}"
proof (induction ps m arbitrary: H rule: uim_run.induct)
  case (2 x ps m)
  show ?case
  proof (cases "uim_emplace x m")
    case (Pair r m1)
    show ?thesis
    proof (cases r)
      case (Inr uid)
      then have "uid \<notin> H" "uim_inv m1 (insert uid H)"
        using uim_inv_emplace [OF 2(3), of x] Pair by auto
      then show ?thesis
        using 2(2) [OF Pair [symmetric] Inr, of "insert uid H"] Pair Inr by (auto simp: split_beta)
    next
      case (Inl e)
      then have "m1 = m" using uim_inv_emplace [OF 2(3), of x] Pair by auto
      then show ?thesis using 2(1) [OF Pair [symmetric] Inl, of H] 2(3) Pair Inl by simp
    qed
  qed
next
  case (3 uid ps m)
  then show ?case using 3(1) [of H] uim_inv_erase [of m H uid] by auto
qed simp

text \<open>C1: A uid is never issued twice.  Over any sequence of insertions and erasures on a map
  initialized with a capacity below 2 ^ 32 the uids returned are pairwise distinct, although
  slots are reused; hence a stale uid never names a younger object.\<close>

theorem uim_uids_unique:
  assumes "unat n < 2 ^ 32"
  shows "distinct (fst (uim_run ps (snd (uim_initialize True n uim_reset_values))))"
  using uim_run_inv [OF uim_inv_initialize(1) [OF assms]] by blast

theorem uim_uids_unique_witness:
  "fst (uim_run [UEmplace (7::nat), UEmplace 8, UErase (2 ^ 32), UEmplace 9]
     (snd (uim_initialize True 2 uim_reset_values))) = [2 ^ 32, 2 ^ 32 + 1, 2 * 2 ^ 32] \<and>
   distinct (fst (uim_run [UEmplace (7::nat), UEmplace 8, UErase (2 ^ 32), UEmplace 9]
     (snd (uim_initialize True 2 uim_reset_values))))"
proof
  show "fst (uim_run [UEmplace (7::nat), UEmplace 8, UErase (2 ^ 32), UEmplace 9]
     (snd (uim_initialize True 2 uim_reset_values))) = [2 ^ 32, 2 ^ 32 + 1, 2 * 2 ^ 32]"
    by code_simp
qed (rule uim_uids_unique, simp)

text \<open>C2: The map refines a partial map from uids to objects: a successful emplace binds a uid
  that was unbound, erase unbinds exactly its uid and fails on an unbound one, try_get reads
  the binding; a failing operation changes nothing.\<close>

theorem uim_refines_partial_map:
  assumes "uim_inv m H"
  shows "(case uim_emplace x m of
      (Inr uid, m') \<Rightarrow> uim_abs m uid = None \<and> uim_abs m' = (uim_abs m)(uid \<mapsto> x) \<and>
                        uim_try_get uid m' = Inr (Some x)
    | (Inl e, m') \<Rightarrow> m' = m) \<and>
    (case uim_erase uid0 m of
      (Inr u, m') \<Rightarrow> uim_abs m uid0 \<noteq> None \<and> uim_abs m' = (uim_abs m)(uid0 := None) \<and>
                      uim_try_get uid0 m' = Inl UimNotFound
    | (Inl e, m') \<Rightarrow> uim_abs m uid0 = None \<and> m' = m)"
proof
  have get: "uim_try_get u m1 = (case uim_abs m1 u of None \<Rightarrow> Inl UimNotFound | Some y \<Rightarrow> Inr (Some y))"
    if "uim_inv m1 H1" for m1 :: "'a UniqueIndexMap" and u H1
    using that uim_try_get_abs by (auto simp: uim_inv_def)
  show "case uim_emplace x m of
      (Inr uid, m') \<Rightarrow> uim_abs m uid = None \<and> uim_abs m' = (uim_abs m)(uid \<mapsto> x) \<and>
                        uim_try_get uid m' = Inr (Some x)
    | (Inl e, m') \<Rightarrow> m' = m"
    using uim_inv_emplace [OF assms, of x] by (auto split: prod.splits sum.splits simp: get)
  show "case uim_erase uid0 m of
      (Inr u, m') \<Rightarrow> uim_abs m uid0 \<noteq> None \<and> uim_abs m' = (uim_abs m)(uid0 := None) \<and>
                      uim_try_get uid0 m' = Inl UimNotFound
    | (Inl e, m') \<Rightarrow> uim_abs m uid0 = None \<and> m' = m"
    using uim_inv_erase [OF assms, of uid0] uim_erase_invalid [of m uid0]
    by (auto split: prod.splits sum.splits simp: get) (simp_all add: uim_erase_def Let_def split: if_splits)
qed

theorem uim_refines_partial_map_witness:
  "let m = snd (uim_initialize True 3 uim_reset_values) :: nat UniqueIndexMap
   in case uim_emplace 5 m of (Inr uid, m') \<Rightarrow> uim_try_get uid m' = Inr (Some 5) | _ \<Rightarrow> True"
  using uim_refines_partial_map [OF uim_inv_initialize(1) [of 3], of "5::nat" 0]
  by (auto simp: Let_def split: prod.splits sum.splits)

section \<open>The capacity 2 ^ 32\<close>

text \<open>initialize accepts a capacity of exactly 2 ^ 32.  The end marker of the free list is then
  2 ^ 32, the first uid issued for slot 0: on the full map its erasure leaves it valid.\<close>

lemma uim_emplace_initial:
  fixes xs :: "'a list"
  assumes n: "n \<le> 2 ^ 32" and k: "k \<le> n"
  shows "\<exists>m. (fold (\<lambda>x m. snd (uim_emplace x m)) (replicate k x)
           (snd (uim_initialize True (of_nat n) uim_reset_values)) = m \<and>
      uim_next m = of_nat k \<and> uim_size m = of_nat k \<and> uim_capacity m = of_nat n \<and>
      uim_uids m = map (\<lambda>i. if i < k then of_nat i + 2 ^ 32 else of_nat (i + 1)) [0..<n])"
  using k
proof (induction k)
  case 0
  have n64: "n < 2 ^ 64" using n by simp
  then have le: "\<not> (2 :: uint64) ^ kIndexSize < of_nat n"
    using n by (simp add: word_less_nat_alt kIndexSize_def unat_of_nat)
  show ?case using n64 by (simp add: uim_initialize_def uim_reset_values_def le unat_of_nat)
next
  case (Suc k)
  then obtain m where m: "fold (\<lambda>x m. snd (uim_emplace x m)) (replicate k x)
           (snd (uim_initialize True (of_nat n) uim_reset_values)) = m"
    "uim_next m = of_nat k" "uim_size m = of_nat k" "uim_capacity m = of_nat n"
    "uim_uids m = map (\<lambda>i. if i < k then of_nat i + 2 ^ 32 else of_nat (i + 1)) [0..<n]"
    by auto
  have un: "unat (of_nat k :: uint64) = k" "unat (of_nat n :: uint64) = n"
    using Suc.prems n by (simp_all add: unat_of_nat)
  have neq: "uim_size m \<noteq> uim_capacity m"
    using Suc.prems un by (auto simp: m word_unat_eq_iff)
  have ver: "unat (GetVersion (uim_next m)) \<noteq> 2 ^ 32 - 1"
    using Suc.prems n un by (simp add: m unat_GetVersion)
  have ik: "ix (of_nat k) = k" using Suc.prems n un by (simp add: unat_GetIndex)
  have e: "snd (uim_emplace x m) = m\<lparr>uim_next := uim_uids m ! k,
      uim_uids := (uim_uids m)[k := of_nat k + 2 ^ 32],
      uim_data := (uim_data m)[k := Some x], uim_size := uim_size m + 1\<rparr>"
    using neq ver by (simp add: uim_emplace_def kVersionSize_def word_unat_eq_iff Let_def m(2) ik
        kIndexSize_def)
  have rep: "replicate (Suc k) x = replicate k x @ [x]" by (simp add: replicate_append_same)
  have f: "fold (\<lambda>x m. snd (uim_emplace x m)) (replicate (Suc k) x)
           (snd (uim_initialize True (of_nat n) uim_reset_values)) = snd (uim_emplace x m)"
    unfolding rep fold_append comp_def m(1) by simp
  show ?case
    unfolding f e using Suc.prems
    by (auto simp: m nth_list_update intro!: nth_equalityI)
qed

text \<open>After 2 ^ 32 insertions the erasure of the first uid reports success and the uid is still
  valid.\<close>

theorem uim_full_capacity_stale_uid:
  fixes x :: 'a
  defines "m \<equiv> fold (\<lambda>x m. snd (uim_emplace x m)) (replicate (2 ^ 32) x)
           (snd (uim_initialize True (2 ^ 32) uim_reset_values))"
  shows "fst (uim_erase (2 ^ 32) m) = Inr () \<and> uim_valid (snd (uim_erase (2 ^ 32) m)) (2 ^ 32)"
proof -
  have of32: "(of_nat (2 ^ 32) :: uint64) = 2 ^ 32" by simp
  have m: "uim_next m = 2 ^ 32" "uim_capacity m = 2 ^ 32"
    "uim_uids m = map (\<lambda>i. if i < 2 ^ 32 then of_nat i + 2 ^ 32 else of_nat (i + 1)) [0..<2 ^ 32]"
    using uim_emplace_initial [of "2 ^ 32" "2 ^ 32" x]
    unfolding of32 m_def by auto
  have i0: "ix (2 ^ 32) = 0" by (simp add: unat_GetIndex)
  then have g0: "GetIndex 4294967296 = 0" by (simp add: word_unat_eq_iff)
  have nth: "uim_uids m ! 0 = 2 ^ 32" "length (uim_uids m) = 2 ^ 32"
    unfolding m(3) by (simp_all add: nth_append del: upt_Suc)
  have v: "uim_valid m (2 ^ 32)" using nth by (simp add: uim_valid_def g0 m(2) Let_def)
  have "uim_valid (snd (uim_erase (2 ^ 32) m)) (2 ^ 32)"
    using v nth by (simp add: uim_erase_def uim_valid_def g0 m(1,2) Let_def)
  moreover have "fst (uim_erase (2 ^ 32) m) = Inr ()" using v by (simp add: uim_erase_def Let_def)
  ultimately show ?thesis by blast
qed


section \<open>find and deinitialize\<close>

lemma uim_find_loop_sound:
  "uim_find_loop x m i n = Inr uid \<Longrightarrow>
   \<exists>k. i \<le> k \<and> k < i + n \<and> uid = uim_uids m ! k \<and> uim_valid m uid \<and> uim_data m ! k = Some x"
proof (induction n arbitrary: i)
  case (Suc n)
  show ?case
  proof (cases "uim_valid m (uim_uids m ! i) \<and> uim_data m ! i = Some x")
    case True
    then show ?thesis using Suc.prems by auto
  next
    case False
    then show ?thesis using Suc.IH [of "Suc i"] Suc.prems by fastforce
  qed
qed simp

lemma uim_find_loop_complete:
  "uim_find_loop x m i n = Inl e \<Longrightarrow> i \<le> k \<Longrightarrow> k < i + n \<Longrightarrow>
   \<not> (uim_valid m (uim_uids m ! k) \<and> uim_data m ! k = Some x)"
proof (induction n arbitrary: i)
  case (Suc n)
  then show ?case by (cases "k = i") (auto split: if_splits)
qed simp

text \<open>A uid found holds the object searched for; when none is found no bound uid holds it.  A
  data cell of a free slot is dead memory: the search tests the uid before the cell.\<close>

lemma uim_find_abs:
  assumes "uim_inv m H"
  shows "(uim_find x m = Inr uid \<longrightarrow> uim_abs m uid = Some x) \<and>
    (uim_find x m = Inl e \<longrightarrow> (\<forall>u. uim_abs m u \<noteq> Some x))"
proof -
  obtain vs where wf: "uim_wf m vs H" using assms by (auto simp: uim_inv_def)
  have "uim_abs m uid = Some x" if f: "uim_find x m = Inr uid"
  proof -
    from f obtain k where k: "k < unat (uim_capacity m)" "uid = uim_uids m ! k" "uim_valid m uid"
      "uim_data m ! k = Some x"
      using uim_find_loop_sound [of x m 0] by (auto simp: uim_find_def)
    then have "k \<notin> uim_free vs" using wf by (auto simp: uim_wf_def)
    then have "ix uid = k" using wf k by (auto simp: uim_wf_def)
    then show ?thesis using k by (simp add: uim_abs_def)
  qed
  moreover have "uim_abs m u \<noteq> Some x" if f: "uim_find x m = Inl e" for u
  proof
    assume "uim_abs m u = Some x"
    then have v: "uim_valid m u" "uim_data m ! ix u = Some x"
      by (auto simp: uim_abs_def split: if_splits)
    then have "uim_uids m ! ix u = u" "ix u < unat (uim_capacity m)"
      using uim_valid_iff [OF wf, of u] by auto
    then show False
      using uim_find_loop_complete [of x m 0 "unat (uim_capacity m)" e "ix u"] f v
      by (simp add: uim_find_def)
  qed
  ultimately show ?thesis by blast
qed

text \<open>deinitialize destroys exactly the live cells, each once and none of the free ones.\<close>

lemma uim_deinitialize_live:
  assumes "uim_inv m H"
  shows "uim_deinitialize m =
    Some (filter (\<lambda>c. c \<noteq> None) (uim_data m), uim_reset_values)"
proof -
  obtain vs where wf: "uim_wf m vs H" using assms by (auto simp: uim_inv_def)
  have len: "length (uim_uids m) = unat (uim_capacity m)" "length (uim_data m) = unat (uim_capacity m)"
    using wf by (simp_all add: uim_wf_def)
  have "ix (uim_uids m ! i) = i \<longleftrightarrow> uim_data m ! i \<noteq> None" if "i < unat (uim_capacity m)" for i
  proof (cases "i \<in> uim_free vs")
    case True
    then have "ix (uim_uids m ! i) \<noteq> i"
      using wf free_chain_not_self [of "uim_uids m" "uim_next m" vs]
      by (auto simp: uim_wf_def uim_free_def)
    then show ?thesis using True wf that by (auto simp: uim_wf_def)
  next
    case False
    then show ?thesis using wf that by (auto simp: uim_wf_def)
  qed
  then have "filter (\<lambda>i. ix (uim_uids m ! i) = i) [0..<unat (uim_capacity m)] =
      filter (\<lambda>i. uim_data m ! i \<noteq> None) [0..<unat (uim_capacity m)]"
    by (intro filter_cong) auto
  moreover have "map (\<lambda>i. uim_data m ! i) (filter (\<lambda>i. uim_data m ! i \<noteq> None) [0..<length (uim_data m)]) =
      filter (\<lambda>c. c \<noteq> None) (map ((!) (uim_data m)) [0..<length (uim_data m)])"
    by (simp add: filter_map comp_def)
  moreover have "map ((!) (uim_data m)) [0..<unat (uim_capacity m)] = uim_data m"
    by (metis map_nth len(2))
  ultimately show ?thesis
    unfolding uim_deinitialize_def len by simp
qed

text \<open>After a failed initialize the capacity is set while the arrays are null; deinitialize,
  which the destructor calls, dereferences them.\<close>

lemma uim_failed_initialize_deinitialize:
  "0 < n \<Longrightarrow> n \<le> 2 ^ 32 \<Longrightarrow>
   uim_deinitialize (snd (uim_initialize False n uim_reset_values)) = None"
  by (simp add: uim_initialize_def uim_deinitialize_def kIndexSize_def not_less [symmetric]
      word_less_nat_alt unat_gt_0)

section \<open>The interface of a store of handles\<close>

locale handle_store =
  fixes inv :: "'s \<Rightarrow> bool"
    and view :: "'s \<Rightarrow> 'h \<Rightarrow> 'a option"
    and alloc :: "'a \<Rightarrow> 's \<Rightarrow> ('e + 'h) \<times> 's"
    and release :: "'h \<Rightarrow> 's \<Rightarrow> ('f + unit) \<times> 's"
  assumes alloc_ok: "inv s \<Longrightarrow> alloc x s = (Inr h, s') \<Longrightarrow>
      inv s' \<and> view s h = None \<and> view s' = (view s)(h \<mapsto> x)"
    and alloc_fail: "inv s \<Longrightarrow> alloc x s = (Inl e, s') \<Longrightarrow> s' = s"
    and release_view: "inv s \<Longrightarrow>
      inv (snd (release h s)) \<and> view (snd (release h s)) = (view s)(h := None)"
begin

lemma alloc_other: "inv s \<Longrightarrow> alloc x s = (Inr h, s') \<Longrightarrow> view s k = Some y \<Longrightarrow> view s' k = Some y"
  using alloc_ok [of s x h s'] by auto

lemma alloc_release: "inv s \<Longrightarrow> alloc x s = (Inr h, s') \<Longrightarrow> view (snd (release h s')) = view s"
  using alloc_ok [of s x h s'] release_view [of s' h] by auto

fun release_all :: "'h list \<Rightarrow> 's \<Rightarrow> 's" where
  "release_all [] s = s"
| "release_all (h # hs) s = release_all hs (snd (release h s))"

lemma release_all_view:
  "inv s \<Longrightarrow> inv (release_all hs s) \<and> view (release_all hs s) = (view s) |` (- set hs)"
proof (induction hs arbitrary: s)
  case (Cons h hs)
  then have "inv (snd (release h s))" "view (snd (release h s)) = (view s)(h := None)"
    using release_view by blast+
  moreover have "((view s)(h := None)) |` (- set hs) = (view s) |` (- set (h # hs))"
    by (auto simp: restrict_map_def fun_eq_iff)
  ultimately show ?case using Cons.IH [of "snd (release h s)"] by (simp only: release_all.simps)
qed (simp add: restrict_map_def)

end

interpretation uim: handle_store "\<lambda>m. \<exists>H. uim_inv m H" uim_abs uim_emplace uim_erase
proof unfold_locales
  fix s s' :: "'a UniqueIndexMap" and x uid
  assume inv: "\<exists>H. uim_inv s H" and e: "uim_emplace x s = (Inr uid, s')"
  then show "(\<exists>H. uim_inv s' H) \<and> uim_abs s uid = None \<and> uim_abs s' = (uim_abs s)(uid \<mapsto> x)"
    using uim_inv_emplace [of s _ x] by fastforce
next
  fix s s' :: "'a UniqueIndexMap" and x and err
  assume inv: "\<exists>H. uim_inv s H" and e: "uim_emplace x s = (Inl err, s')"
  then show "s' = s" using uim_inv_emplace [of s _ x] by fastforce
next
  fix s :: "'a UniqueIndexMap" and uid
  assume "\<exists>H. uim_inv s H"
  then show "(\<exists>H. uim_inv (snd (uim_erase uid s)) H) \<and>
      uim_abs (snd (uim_erase uid s)) = (uim_abs s)(uid := None)"
    using uim_inv_erase [of s _ uid] by blast
qed

end
