(* ===== verification/Fixed_Map.thy ===== *)
theory Fixed_Map
  imports Prelude
begin

text \<open>
  common/fixed_map.hpp: an open-addressing hash map with linear probing.  Hash (the template
  argument) is the parameter hf; a bucket whose value is None is raw or destroyed memory.
  The map refines a partial map as long as nothing is erased: erase leaves no tombstone, and
  the last section shows a key that becomes unreachable.
\<close>

section \<open>Buckets and probing\<close>

datatype fm_error = FmOutOfMemory | FmInvalidKey | FmDuplicateKey | FmContainerFull | FmInvalidIterator

record ('k, 'v) Bucket =
  b_value :: "('k \<times> 'v) option"
  b_occupied :: bool

record ('k, 'v) FixedMap =
  fm_data :: "('k, 'v) Bucket list"
  fm_capacity :: nat
  fm_size :: nat

definition b_key :: "('k, 'v) Bucket \<Rightarrow> 'k" where "b_key b = fst (the (b_value b))"
definition b_val :: "('k, 'v) Bucket \<Rightarrow> 'v" where "b_val b = snd (the (b_value b))"

definition raw_bucket :: "('k, 'v) Bucket" where
  "raw_bucket = \<lparr>b_value = None, b_occupied = False\<rparr>"

lemma raw_bucket_free [simp]: "\<not> b_occupied raw_bucket"
  by (simp add: raw_bucket_def)

definition fm_new :: "('k, 'v) FixedMap" where
  "fm_new = \<lparr>fm_data = [], fm_capacity = 0, fm_size = 0\<rparr>"

definition fm_hash :: "('k \<Rightarrow> nat) \<Rightarrow> ('k, 'v) FixedMap \<Rightarrow> 'k \<Rightarrow> nat" where
  "fm_hash hf m key = hf key mod fm_capacity m"

text \<open>The loops return nullptr when the index is back at start, after capacity steps: the fuel.\<close>

fun fm_match_loop :: "('k, 'v) Bucket list \<Rightarrow> nat \<Rightarrow> 'k \<Rightarrow> nat \<Rightarrow> nat \<Rightarrow> nat \<Rightarrow> nat option" where
  "fm_match_loop d c key start index 0 = None"
| "fm_match_loop d c key start index (Suc fuel) =
     (if b_occupied (d ! index)
      then if b_key (d ! index) = key then Some index
           else let index' = (index + 1) mod c
                in if index' = start then None else fm_match_loop d c key start index' fuel
      else None)"

definition findMatchingBucket :: "('k \<Rightarrow> nat) \<Rightarrow> ('k, 'v) FixedMap \<Rightarrow> 'k \<Rightarrow> nat option" where
  "findMatchingBucket hf m key =
     (if fm_capacity m = 0 then None
      else let index = fm_hash hf m key
           in fm_match_loop (fm_data m) (fm_capacity m) key index index (fm_capacity m))"

fun fm_empty_loop :: "('k, 'v) Bucket list \<Rightarrow> nat \<Rightarrow> nat \<Rightarrow> nat \<Rightarrow> nat \<Rightarrow> nat option" where
  "fm_empty_loop d c start index 0 = None"
| "fm_empty_loop d c start index (Suc fuel) =
     (if b_occupied (d ! index)
      then let index' = (index + 1) mod c
           in if index' = start then None else fm_empty_loop d c start index' fuel
      else Some index)"

definition findEmptyBucket :: "('k \<Rightarrow> nat) \<Rightarrow> ('k, 'v) FixedMap \<Rightarrow> 'k \<Rightarrow> nat option" where
  "findEmptyBucket hf m key =
     (if fm_capacity m = 0 then None
      else let index = fm_hash hf m key
           in fm_empty_loop (fm_data m) (fm_capacity m) index index (fm_capacity m))"

section \<open>Operations\<close>

fun fm_eq_loop :: "('k, 'v) Bucket list \<Rightarrow> ('k, 'v) Bucket list \<Rightarrow> nat \<Rightarrow> nat \<Rightarrow> bool" where
  "fm_eq_loop d e i 0 = True"
| "fm_eq_loop d e i (Suc n) =
     (if b_occupied (d ! i) \<and> (\<not> b_occupied (e ! i) \<or> b_value (d ! i) \<noteq> b_value (e ! i)) then False
      else fm_eq_loop d e (Suc i) n)"

definition fm_equal :: "('k, 'v) FixedMap \<Rightarrow> ('k, 'v) FixedMap \<Rightarrow> bool" where
  "fm_equal m n =
     (if fm_capacity m \<noteq> fm_capacity n \<or> fm_size m \<noteq> fm_size n then False
      else fm_eq_loop (fm_data m) (fm_data n) 0 (fm_capacity m))"

definition fm_contains :: "('k \<Rightarrow> nat) \<Rightarrow> ('k, 'v) FixedMap \<Rightarrow> 'k \<Rightarrow> bool" where
  "fm_contains hf m key = (findMatchingBucket hf m key \<noteq> None)"

definition fm_at :: "('k \<Rightarrow> nat) \<Rightarrow> ('k, 'v) FixedMap \<Rightarrow> 'k \<Rightarrow> fm_error + 'v" where
  "fm_at hf m key = (case findMatchingBucket hf m key of
       None \<Rightarrow> Unexpected FmInvalidKey
     | Some i \<Rightarrow> Inr (b_val (fm_data m ! i)))"

definition fm_set_value :: "('k, 'v) FixedMap \<Rightarrow> nat \<Rightarrow> 'v \<Rightarrow> ('k, 'v) FixedMap" where
  "fm_set_value m i v = m\<lparr>fm_data := (fm_data m)
     [i := (fm_data m ! i)\<lparr>b_value := Some (b_key (fm_data m ! i), v)\<rparr>]\<rparr>"

definition fm_update ::
  "('k \<Rightarrow> nat) \<Rightarrow> ('k, 'v) FixedMap \<Rightarrow> 'k \<Rightarrow> 'v \<Rightarrow> (fm_error + unit) \<times> ('k, 'v) FixedMap" where
  "fm_update hf m key v = (case findMatchingBucket hf m key of
       None \<Rightarrow> (Unexpected FmInvalidKey, m)
     | Some i \<Rightarrow> (Inr (), fm_set_value m i v))"

definition fm_emplace ::
  "('k \<Rightarrow> nat) \<Rightarrow> ('k, 'v) FixedMap \<Rightarrow> 'k \<Rightarrow> 'v \<Rightarrow> (fm_error + unit) \<times> ('k, 'v) FixedMap" where
  "fm_emplace hf m key v =
     (if findMatchingBucket hf m key \<noteq> None then (Unexpected FmDuplicateKey, m)
      else case findEmptyBucket hf m key of
        None \<Rightarrow> (Unexpected FmContainerFull, m)
      | Some i \<Rightarrow> (Inr (), m\<lparr>fm_data := (fm_data m)[i := \<lparr>b_value = Some (key, v), b_occupied = True\<rparr>],
                            fm_size := fm_size m + 1\<rparr>))"

definition fm_insert_or_assign ::
  "('k \<Rightarrow> nat) \<Rightarrow> ('k, 'v) FixedMap \<Rightarrow> 'k \<Rightarrow> 'v \<Rightarrow> (fm_error + unit) \<times> ('k, 'v) FixedMap" where
  "fm_insert_or_assign hf m key v = (case findMatchingBucket hf m key of
       Some i \<Rightarrow> (Inr (), fm_set_value m i v)
     | None \<Rightarrow> fm_emplace hf m key v)"

text \<open>operator[] with the default value of mapped_type(); it returns the index of the bucket
  whose value it refers to.\<close>

definition fm_index ::
  "('k \<Rightarrow> nat) \<Rightarrow> 'v \<Rightarrow> ('k, 'v) FixedMap \<Rightarrow> 'k \<Rightarrow> (fm_error + nat) \<times> ('k, 'v) FixedMap" where
  "fm_index hf dflt m key = (case findMatchingBucket hf m key of
       Some i \<Rightarrow> (Inr i, m)
     | None \<Rightarrow> (case fm_emplace hf m key dflt of
           (Inl e, m') \<Rightarrow> (Unexpected e, m')
         | (Inr _, m') \<Rightarrow> (case findMatchingBucket hf m' key of
               None \<Rightarrow> (Unexpected FmInvalidKey, m')
             | Some i \<Rightarrow> (Inr i, m'))))"

definition fm_erase ::
  "('k \<Rightarrow> nat) \<Rightarrow> ('k, 'v) FixedMap \<Rightarrow> 'k \<Rightarrow> (fm_error + unit) \<times> ('k, 'v) FixedMap" where
  "fm_erase hf m key = (case findMatchingBucket hf m key of
       None \<Rightarrow> (Unexpected FmInvalidKey, m)
     | Some i \<Rightarrow> (Inr (), m\<lparr>fm_data := (fm_data m)[i := raw_bucket], fm_size := fm_size m - 1\<rparr>))"

definition fm_clear :: "('k, 'v) FixedMap \<Rightarrow> ('k, 'v) FixedMap" where
  "fm_clear m = m\<lparr>fm_data := map (\<lambda>b. if b_occupied b then raw_bucket else b) (fm_data m), fm_size := 0\<rparr>"

fun fm_emplace_buckets ::
  "('k \<Rightarrow> nat) \<Rightarrow> ('k, 'v) FixedMap \<Rightarrow> ('k, 'v) Bucket list \<Rightarrow> (fm_error + unit) \<times> ('k, 'v) FixedMap"
where
  "fm_emplace_buckets hf m [] = (Inr (), m)"
| "fm_emplace_buckets hf m (b # bs) =
     (if b_occupied b
      then case fm_emplace hf m (b_key b) (b_val b) of
             (Inl e, m') \<Rightarrow> (Unexpected e, m')
           | (Inr _, m') \<Rightarrow> fm_emplace_buckets hf m' bs
      else fm_emplace_buckets hf m bs)"

definition fm_reserve ::
  "('k \<Rightarrow> nat) \<Rightarrow> bool \<Rightarrow> ('k, 'v) FixedMap \<Rightarrow> nat \<Rightarrow> (fm_error + unit) \<times> ('k, 'v) FixedMap" where
  "fm_reserve hf alloc_ok m capacity =
     (if capacity > fm_capacity m
      then if \<not> alloc_ok then (Unexpected FmOutOfMemory, m)
           else fm_emplace_buckets hf
                  \<lparr>fm_data = replicate capacity raw_bucket, fm_capacity = capacity, fm_size = 0\<rparr>
                  (fm_data m)
      else (Inr (), m))"

definition fm_copy_from ::
  "('k \<Rightarrow> nat) \<Rightarrow> ('k, 'v) FixedMap \<Rightarrow> ('k, 'v) FixedMap \<Rightarrow> (fm_error + unit) \<times> ('k, 'v) FixedMap" where
  "fm_copy_from hf m other =
     (if fm_size other > fm_capacity m then (Unexpected FmContainerFull, m)
      else fm_emplace_buckets hf (fm_clear m) (fm_data other))"

section \<open>The probe sequence\<close>

definition probes :: "nat \<Rightarrow> nat \<Rightarrow> nat list" where
  "probes c h = map (\<lambda>j. (h + j) mod c) [0..<c]"

lemma distinct_probes: "distinct (probes c h)"
proof -
  have "inj_on (\<lambda>j. (h + j) mod c) {0..<c}"
  proof (rule inj_onI)
    fix i j assume "i \<in> {0..<c}" "j \<in> {0..<c}" "(h + i) mod c = (h + j) mod c"
    then show "i = j" using mod_shift_inj [of i j c h] mod_shift_inj [of j i c h]
      by (cases "i \<le> j") auto
  qed
  then show ?thesis by (simp add: probes_def distinct_map)
qed

lemma length_probes [simp]: "length (probes c h) = c"
  by (simp add: probes_def)

lemma set_probes: "0 < c \<Longrightarrow> set (probes c h) = {0..<c}"
proof (rule card_subset_eq)
  show "card (set (probes c h)) = card {0..<c}"
    using distinct_card [OF distinct_probes] by simp
qed (auto simp: probes_def)

lemma drop_probes: "j < c \<Longrightarrow> drop j (probes c h) = (h + j) mod c # drop (Suc j) (probes c h)"
  by (simp add: probes_def Cons_nth_drop_Suc [symmetric])

lemma next_index:
  assumes "start < c" "j < c"
  shows "((start + j) mod c + 1) mod c = (start + Suc j) mod c"
    "(start + Suc j) mod c = start \<longleftrightarrow> Suc j = c"
proof -
  show "((start + j) mod c + 1) mod c = (start + Suc j) mod c" by (simp add: mod_Suc_eq)
  show "(start + Suc j) mod c = start \<longleftrightarrow> Suc j = c"
  proof
    assume e: "(start + Suc j) mod c = start"
    show "Suc j = c"
    proof (rule ccontr)
      assume "Suc j \<noteq> c"
      then have "Suc j < c" using assms by simp
      then have "0 = Suc j" using mod_shift_inj [of 0 "Suc j" c start] e assms by simp
      then show False by simp
    qed
  qed (use assms in simp)
qed

definition first_match :: "('k, 'v) Bucket list \<Rightarrow> 'k \<Rightarrow> nat list \<Rightarrow> nat option" where
  "first_match d key ps = (case dropWhile (\<lambda>i. b_occupied (d ! i) \<and> b_key (d ! i) \<noteq> key) ps of
       [] \<Rightarrow> None | i # _ \<Rightarrow> if b_occupied (d ! i) then Some i else None)"

definition first_empty :: "('k, 'v) Bucket list \<Rightarrow> nat list \<Rightarrow> nat option" where
  "first_empty d ps = (case dropWhile (\<lambda>i. b_occupied (d ! i)) ps of [] \<Rightarrow> None | i # _ \<Rightarrow> Some i)"

lemma fm_match_loop_probes:
  assumes "start < c" "j + fuel = c"
  shows "fm_match_loop d c key start ((start + j) mod c) fuel = first_match d key (drop j (probes c start))"
  using assms(2)
proof (induction fuel arbitrary: j)
  case 0
  then show ?case by (simp add: first_match_def)
next
  case (Suc fuel)
  then have j: "j < c" by simp
  have IH: "fm_match_loop d c key start ((start + Suc j) mod c) fuel =
      first_match d key (drop (Suc j) (probes c start))"
    using Suc.IH [of "Suc j"] Suc.prems by simp
  show ?case
  proof (cases "Suc j = c")
    case True
    then have "drop (Suc j) (probes c start) = []" by simp
    then show ?thesis
      using next_index [OF assms(1) j] True by (simp add: drop_probes [OF j] first_match_def Let_def)
  next
    case False
    then show ?thesis
      using next_index [OF assms(1) j] IH by (simp add: drop_probes [OF j] first_match_def Let_def)
  qed
qed

lemma fm_empty_loop_probes:
  assumes "start < c" "j + fuel = c"
  shows "fm_empty_loop d c start ((start + j) mod c) fuel = first_empty d (drop j (probes c start))"
  using assms(2)
proof (induction fuel arbitrary: j)
  case 0
  then show ?case by (simp add: first_empty_def)
next
  case (Suc fuel)
  then have j: "j < c" by simp
  have IH: "fm_empty_loop d c start ((start + Suc j) mod c) fuel =
      first_empty d (drop (Suc j) (probes c start))"
    using Suc.IH [of "Suc j"] Suc.prems by simp
  show ?case
  proof (cases "Suc j = c")
    case True
    then have "drop (Suc j) (probes c start) = []" by simp
    then show ?thesis
      using next_index [OF assms(1) j] True by (simp add: drop_probes [OF j] first_empty_def Let_def)
  next
    case False
    then show ?thesis
      using next_index [OF assms(1) j] IH by (simp add: drop_probes [OF j] first_empty_def Let_def)
  qed
qed

lemma findMatchingBucket_probes:
  "findMatchingBucket hf m key = (if fm_capacity m = 0 then None
     else first_match (fm_data m) key (probes (fm_capacity m) (fm_hash hf m key)))"
  using fm_match_loop_probes [of "fm_hash hf m key" "fm_capacity m" 0 "fm_capacity m" "fm_data m" key]
  by (simp add: findMatchingBucket_def fm_hash_def Let_def)

lemma findEmptyBucket_probes:
  "findEmptyBucket hf m key = (if fm_capacity m = 0 then None
     else first_empty (fm_data m) (probes (fm_capacity m) (fm_hash hf m key)))"
  using fm_empty_loop_probes [of "fm_hash hf m key" "fm_capacity m" 0 "fm_capacity m" "fm_data m"]
  by (simp add: findEmptyBucket_def fm_hash_def Let_def)

section \<open>Invariant and abstraction\<close>

text \<open>Keys are distinct, and from the home position of a stored key to its bucket every bucket
  is occupied.\<close>

abbreviation occ :: "('k, 'v) FixedMap \<Rightarrow> nat \<Rightarrow> bool" where "occ m i \<equiv> b_occupied (fm_data m ! i)"
abbreviation keyat :: "('k, 'v) FixedMap \<Rightarrow> nat \<Rightarrow> 'k" where "keyat m i \<equiv> b_key (fm_data m ! i)"

definition fm_chain :: "('k \<Rightarrow> nat) \<Rightarrow> ('k, 'v) FixedMap \<Rightarrow> nat \<Rightarrow> bool" where
  "fm_chain hf m i \<longleftrightarrow>
     (\<forall>j \<in> set (takeWhile (\<lambda>j. j \<noteq> i) (probes (fm_capacity m) (fm_hash hf m (keyat m i)))). occ m j)"

definition fm_inv :: "('k \<Rightarrow> nat) \<Rightarrow> ('k, 'v) FixedMap \<Rightarrow> bool" where
  "fm_inv hf m \<longleftrightarrow> length (fm_data m) = fm_capacity m \<and>
     fm_size m = length (filter b_occupied (fm_data m)) \<and>
     (\<forall>i < fm_capacity m. occ m i \<longrightarrow> b_value (fm_data m ! i) \<noteq> None \<and> fm_chain hf m i) \<and>
     (\<forall>i < fm_capacity m. \<forall>j < fm_capacity m. occ m i \<and> occ m j \<and> keyat m i = keyat m j \<longrightarrow> i = j)"

definition fm_abs :: "('k, 'v) FixedMap \<Rightarrow> 'k \<Rightarrow> 'v option" where
  "fm_abs m = map_of (map (\<lambda>b. (b_key b, b_val b)) (filter b_occupied (fm_data m)))"

lemma dropWhile_takeWhile_split:
  assumes "i \<in> set ps" "\<forall>j \<in> set (takeWhile (\<lambda>j. j \<noteq> i) ps). P j" "\<not> P i"
  shows "\<exists>qs. dropWhile P ps = i # qs"
  using assms by (induction ps) (auto split: if_splits)

lemma findMatchingBucket_iff:
  assumes "fm_inv hf m"
  shows "findMatchingBucket hf m key = Some i \<longleftrightarrow> i < fm_capacity m \<and> occ m i \<and> keyat m i = key"
proof (cases "fm_capacity m = 0")
  case False
  let ?P = "\<lambda>i. occ m i \<and> keyat m i \<noteq> key"
  let ?ps = "probes (fm_capacity m) (fm_hash hf m key)"
  have fm: "findMatchingBucket hf m key = first_match (fm_data m) key ?ps"
    using False by (simp add: findMatchingBucket_probes)
  have ps: "set ?ps = {0..<fm_capacity m}" using False by (simp add: set_probes)
  show ?thesis
  proof
    assume "findMatchingBucket hf m key = Some i"
    then obtain qs where d: "dropWhile ?P ?ps = i # qs" and "occ m i"
      by (auto simp: fm first_match_def split: list.splits if_splits)
    have "\<not> ?P i" using hd_dropWhile [of ?P ?ps] d by simp
    moreover have "i \<in> set ?ps" using set_dropWhileD [of i ?P ?ps] d by simp
    ultimately show "i < fm_capacity m \<and> occ m i \<and> keyat m i = key" using \<open>occ m i\<close> ps by auto
  next
    assume r: "i < fm_capacity m \<and> occ m i \<and> keyat m i = key"
    have "?P j" if j: "j \<in> set (takeWhile (\<lambda>j. j \<noteq> i) ?ps)" for j
    proof -
      have "occ m j" using assms r j by (auto simp: fm_inv_def fm_chain_def)
      moreover have "j < fm_capacity m" "j \<noteq> i" using j ps by (auto dest: set_takeWhileD)
      ultimately show ?thesis using assms r unfolding fm_inv_def by blast
    qed
    moreover have "i \<in> set ?ps" using r ps by simp
    ultimately obtain qs where "dropWhile ?P ?ps = i # qs"
      using dropWhile_takeWhile_split [of i ?ps ?P] r by blast
    then show "findMatchingBucket hf m key = Some i" using r by (simp add: fm first_match_def)
  qed
qed (simp add: findMatchingBucket_probes)

lemma fm_entries_distinct:
  assumes "fm_inv hf m"
  shows "distinct (map fst (map (\<lambda>b. (b_key b, b_val b)) (filter b_occupied (fm_data m))))"
proof -
  have "distinct (map b_key (filter b_occupied xs))"
    if "\<forall>i < length xs. \<forall>j < length xs. b_occupied (xs ! i) \<and> b_occupied (xs ! j) \<and>
          b_key (xs ! i) = b_key (xs ! j) \<longrightarrow> i = j" for xs :: "('a, 'b) Bucket list"
    using that
  proof (induction xs)
    case (Cons x xs)
    have tl: "distinct (map b_key (filter b_occupied xs))"
    proof (rule Cons.IH, intro allI impI)
      fix i j assume "i < length xs" "j < length xs"
        "b_occupied (xs ! i) \<and> b_occupied (xs ! j) \<and> b_key (xs ! i) = b_key (xs ! j)"
      then show "i = j" using Cons.prems [rule_format, of "Suc i" "Suc j"] by simp
    qed
    have "b_key x \<noteq> b_key y" if "y \<in> set xs" "b_occupied y" "b_occupied x" for y
    proof
      assume e: "b_key x = b_key y"
      obtain j where "j < length xs" "xs ! j = y" using \<open>y \<in> set xs\<close> by (auto simp: in_set_conv_nth)
      then show False using Cons.prems [rule_format, of 0 "Suc j"] that e by simp
    qed
    then show ?case using tl by auto
  qed simp
  then show ?thesis using assms by (simp add: fm_inv_def comp_def)
qed

lemma fm_abs_Some:
  assumes "fm_inv hf m"
  shows "fm_abs m key = Some v \<longleftrightarrow>
    (\<exists>i < fm_capacity m. occ m i \<and> keyat m i = key \<and> b_val (fm_data m ! i) = v)"
proof -
  have "fm_abs m key = Some v \<longleftrightarrow>
      (key, v) \<in> set (map (\<lambda>b. (b_key b, b_val b)) (filter b_occupied (fm_data m)))"
    unfolding fm_abs_def using fm_entries_distinct [OF assms] by (intro map_of_eq_Some_iff)
  also have "\<dots> \<longleftrightarrow> (\<exists>i < fm_capacity m. occ m i \<and> keyat m i = key \<and> b_val (fm_data m ! i) = v)"
    using assms by (auto simp: fm_inv_def in_set_conv_nth)
  finally show ?thesis .
qed

lemma fm_abs_find:
  assumes "fm_inv hf m"
  shows "fm_abs m key = map_option (\<lambda>i. b_val (fm_data m ! i)) (findMatchingBucket hf m key)"
proof (cases "findMatchingBucket hf m key")
  case None
  then have "\<nexists>i. i < fm_capacity m \<and> occ m i \<and> keyat m i = key"
    using findMatchingBucket_iff [OF assms] by (metis option.distinct(1))
  then have "fm_abs m key \<noteq> Some v" for v using fm_abs_Some [OF assms] by blast
  then show ?thesis using None by (cases "fm_abs m key") auto
next
  case (Some i)
  then have "fm_abs m key = Some (b_val (fm_data m ! i))"
    using findMatchingBucket_iff [OF assms] fm_abs_Some [OF assms] by blast
  then show ?thesis using Some by simp
qed


section \<open>Preservation\<close>

lemma filter_length_update:
  assumes "i < length xs"
  shows "length (filter P (xs[i := x])) + (if P (xs ! i) then 1 else 0) =
    length (filter P xs) + (if P x then 1 else 0)"
proof -
  let ?a = "take i xs" and ?b = "drop (Suc i) xs"
  have xs: "xs = ?a @ xs ! i # ?b" using assms by (rule id_take_nth_drop)
  have "filter P xs = filter P ?a @ (if P (xs ! i) then [xs ! i] else []) @ filter P ?b"
    by (subst xs) (simp only: filter_append filter.simps, simp)
  moreover have "xs[i := x] = ?a @ x # ?b" using assms by (simp add: upd_conv_take_nth_drop)
  ultimately show ?thesis by simp
qed

lemma findEmptyBucket_Some:
  assumes "findEmptyBucket hf m key = Some i"
  shows "i < fm_capacity m" "\<not> occ m i"
    "\<forall>j \<in> set (takeWhile (\<lambda>j. j \<noteq> i) (probes (fm_capacity m) (fm_hash hf m key))). occ m j"
proof -
  let ?ps = "probes (fm_capacity m) (fm_hash hf m key)"
  obtain qs where c: "fm_capacity m \<noteq> 0" and d: "dropWhile (occ m) ?ps = i # qs"
    using assms by (auto simp: findEmptyBucket_probes first_empty_def split: list.splits if_splits)
  show n: "\<not> occ m i" using hd_dropWhile [of "occ m" ?ps] d by simp
  have "i \<in> set ?ps" using set_dropWhileD [of i "occ m" ?ps] d by simp
  then show "i < fm_capacity m" using c by (simp add: set_probes)
  have ps: "?ps = takeWhile (occ m) ?ps @ i # qs" using d by (metis takeWhile_dropWhile_id)
  have "i \<notin> set (takeWhile (occ m) ?ps)" using n by (auto dest: set_takeWhileD)
  then have "takeWhile (\<lambda>j. j \<noteq> i) (takeWhile (occ m) ?ps @ i # qs) = takeWhile (occ m) ?ps"
    by (subst takeWhile_append2) auto
  then have "takeWhile (\<lambda>j. j \<noteq> i) ?ps = takeWhile (occ m) ?ps" using ps by simp
  then show "\<forall>j \<in> set (takeWhile (\<lambda>j. j \<noteq> i) ?ps). occ m j" by (auto dest: set_takeWhileD)
qed

lemma findEmptyBucket_None:
  assumes "0 < fm_capacity m"
  shows "findEmptyBucket hf m key = None \<longleftrightarrow> (\<forall>i < fm_capacity m. occ m i)"
proof -
  let ?ps = "probes (fm_capacity m) (fm_hash hf m key)"
  have "findEmptyBucket hf m key = None \<longleftrightarrow> dropWhile (occ m) ?ps = []"
    unfolding findEmptyBucket_probes first_empty_def using assms
    by (cases "dropWhile (occ m) ?ps") (simp_all del: dropWhile_eq_Nil_conv)
  also have "\<dots> \<longleftrightarrow> (\<forall>i \<in> set ?ps. occ m i)" by (simp add: dropWhile_eq_Nil_conv)
  finally show ?thesis using assms by (auto simp: set_probes)
qed

lemma fm_full_iff:
  assumes "fm_inv hf m"
  shows "(\<forall>i < fm_capacity m. occ m i) \<longleftrightarrow> fm_size m = fm_capacity m"
proof -
  have "length (filter b_occupied xs) = length xs \<longleftrightarrow> (\<forall>i < length xs. b_occupied (xs ! i))"
    for xs :: "('a, 'b) Bucket list"
  proof -
    have "length (filter b_occupied xs) = length xs \<longleftrightarrow> (\<forall>x \<in> set xs. b_occupied x)"
      using length_filter_less [of _ xs b_occupied] filter_True [of xs b_occupied] by fastforce
    then show ?thesis by (simp add: all_set_conv_all_nth)
  qed
  from this [of "fm_data m"] show ?thesis using assms by (simp add: fm_inv_def)
qed

text \<open>Writing an occupied bucket for a key at an index that its probe sequence reaches.\<close>

lemma fm_inv_put:
  assumes inv: "fm_inv hf m" and i: "i < fm_capacity m" and k: "b_key b = key"
    and b: "b_occupied b" "b_value b \<noteq> None"
    and chain: "\<forall>j \<in> set (takeWhile (\<lambda>j. j \<noteq> i) (probes (fm_capacity m) (fm_hash hf m key))). occ m j"
    and only: "\<forall>j < fm_capacity m. occ m j \<and> keyat m j = key \<longrightarrow> j = i"
    and old: "occ m i \<longrightarrow> keyat m i = key"
  defines "m' \<equiv> m\<lparr>fm_data := (fm_data m)[i := b],
                   fm_size := fm_size m + (if occ m i then 0 else 1)\<rparr>"
  shows "fm_inv hf m'" "fm_abs m' = (fm_abs m)(key \<mapsto> b_val b)"
proof -
  have len: "length (fm_data m) = fm_capacity m" using inv by (simp add: fm_inv_def)
  have nth: "fm_data m' ! j = (if j = i then b else fm_data m ! j)" for j
    using i by (simp add: m'_def len nth_list_update)
  have c': "fm_capacity m' = fm_capacity m" by (simp add: m'_def)
  have h': "fm_hash hf m' = fm_hash hf m" by (simp add: fun_eq_iff fm_hash_def m'_def)
  have mono: "occ m j \<Longrightarrow> occ m' j" for j using b by (simp add: nth)
  have sz: "fm_size m' = length (filter b_occupied (fm_data m'))"
    using inv filter_length_update [of i "fm_data m" b_occupied b] i b
    by (simp add: m'_def fm_inv_def split: if_splits)
  have chain': "fm_chain hf m' j" if j: "j < fm_capacity m" "occ m' j" for j
  proof (cases "j = i")
    case True
    then show ?thesis using chain mono k by (simp add: fm_chain_def c' h' nth)
  next
    case False
    then have "fm_chain hf m j" using inv j by (simp add: nth fm_inv_def)
    then show ?thesis using mono False by (simp add: fm_chain_def c' h' nth)
  qed
  have uniq: "p = q" if "p < fm_capacity m" "q < fm_capacity m" "occ m' p" "occ m' q"
      "keyat m' p = keyat m' q" for p q
  proof -
    have "p \<noteq> i \<Longrightarrow> q \<noteq> i \<Longrightarrow> p = q" using that inv unfolding fm_inv_def by (simp add: nth)
    moreover have "p = i \<Longrightarrow> q \<noteq> i \<Longrightarrow> p = q"
      using only [rule_format, of q] that k by (simp add: nth)
    moreover have "p \<noteq> i \<Longrightarrow> q = i \<Longrightarrow> p = q"
      using only [rule_format, of p] that k by (simp add: nth)
    ultimately show ?thesis by blast
  qed
  have val: "b_value (fm_data m' ! j) \<noteq> None" if "j < fm_capacity m" "occ m' j" for j
    using that inv b by (cases "j = i") (auto simp: nth fm_inv_def)
  show inv': "fm_inv hf m'"
    unfolding fm_inv_def using sz chain' uniq val by (simp add: c') (simp add: m'_def len)
  show "fm_abs m' = (fm_abs m)(key \<mapsto> b_val b)"
  proof
    fix k'
    have "fm_abs m' k' = Some v \<longleftrightarrow> ((fm_abs m)(key \<mapsto> b_val b)) k' = Some v" for v
    proof (cases "k' = key")
      case True
      have at_i: "occ m' i \<and> keyat m' i = key \<and> b_val (fm_data m' ! i) = b_val b"
        using i k b by (simp add: nth)
      have "j = i" if "j < fm_capacity m" "occ m' j" "keyat m' j = key" for j
      proof (rule ccontr)
        assume "j \<noteq> i"
        then show False using that only [rule_format, of j] by (simp add: nth)
      qed
      then have "(\<exists>j < fm_capacity m. occ m' j \<and> keyat m' j = key \<and> b_val (fm_data m' ! j) = v) \<longleftrightarrow>
          b_val b = v" using at_i i by (intro iffI) (elim exE conjE, metis, metis)
      then show ?thesis unfolding fm_abs_Some [OF inv'] c' True by simp
    next
      case False
      have "occ m' j \<and> keyat m' j = k' \<and> b_val (fm_data m' ! j) = v \<longleftrightarrow>
          occ m j \<and> keyat m j = k' \<and> b_val (fm_data m ! j) = v" for j
        using old k False by (cases "j = i") (auto simp: nth)
      then show ?thesis
        unfolding fm_abs_Some [OF inv'] fun_upd_other [OF False] fm_abs_Some [OF inv] c' by simp
    qed
    then show "fm_abs m' k' = ((fm_abs m)(key \<mapsto> b_val b)) k'"
      by (metis not_None_eq)
  qed
qed

lemma fm_set_value_ok:
  assumes inv: "fm_inv hf m" and f: "findMatchingBucket hf m key = Some i"
  shows "fm_inv hf (fm_set_value m i v) \<and> fm_abs (fm_set_value m i v) = (fm_abs m)(key \<mapsto> v)"
proof -
  have i: "i < fm_capacity m" "occ m i" "keyat m i = key"
    using findMatchingBucket_iff [OF inv, of key i] f by simp_all
  let ?b = "(fm_data m ! i)\<lparr>b_value := Some (keyat m i, v)\<rparr>"
  have only: "\<forall>j < fm_capacity m. occ m j \<and> keyat m j = key \<longrightarrow> j = i"
  proof (intro allI impI)
    fix j assume "j < fm_capacity m" "occ m j \<and> keyat m j = key"
    then show "j = i" using findMatchingBucket_iff [OF inv, of key j] f by simp
  qed
  have chain: "\<forall>j \<in> set (takeWhile (\<lambda>j. j \<noteq> i) (probes (fm_capacity m) (fm_hash hf m key))). occ m j"
    using inv i by (auto simp: fm_inv_def fm_chain_def)
  have e: "fm_set_value m i v = m\<lparr>fm_data := (fm_data m)[i := ?b],
      fm_size := fm_size m + (if occ m i then 0 else 1)\<rparr>"
    using i by (simp add: fm_set_value_def)
  have b: "b_key ?b = key" "b_occupied ?b" "b_value ?b \<noteq> None" "b_val ?b = v"
    using i by (simp_all add: b_key_def b_val_def)
  have old: "occ m i \<longrightarrow> keyat m i = key" using i by simp
  show ?thesis
    unfolding e using fm_inv_put [OF inv i(1) b(1,2,3) chain only old] b(4) by simp
qed

lemma fm_emplace_ok:
  assumes inv: "fm_inv hf m"
  shows "fm_abs m key \<noteq> None \<Longrightarrow> fm_emplace hf m key v = (Inl FmDuplicateKey, m)"
    and "fm_abs m key = None \<Longrightarrow> fm_size m = fm_capacity m \<Longrightarrow>
      fm_emplace hf m key v = (Inl FmContainerFull, m)"
    and "fm_abs m key = None \<Longrightarrow> fm_size m \<noteq> fm_capacity m \<Longrightarrow>
      fst (fm_emplace hf m key v) = Inr () \<and> fm_inv hf (snd (fm_emplace hf m key v)) \<and>
      fm_abs (snd (fm_emplace hf m key v)) = (fm_abs m)(key \<mapsto> v) \<and>
      fm_size (snd (fm_emplace hf m key v)) = fm_size m + 1 \<and>
      fm_capacity (snd (fm_emplace hf m key v)) = fm_capacity m"
proof -
  have find: "findMatchingBucket hf m key = None \<longleftrightarrow> fm_abs m key = None"
    using fm_abs_find [OF inv, of key] by (cases "findMatchingBucket hf m key") auto
  have empty: "findEmptyBucket hf m key = None \<longleftrightarrow> fm_size m = fm_capacity m"
  proof (cases "fm_capacity m = 0")
    case True
    then show ?thesis using inv by (simp add: findEmptyBucket_def fm_inv_def)
  next
    case False
    then show ?thesis using findEmptyBucket_None [of m hf key] fm_full_iff [OF inv] by simp
  qed
  show "fm_abs m key \<noteq> None \<Longrightarrow> fm_emplace hf m key v = (Inl FmDuplicateKey, m)"
    using find by (simp add: fm_emplace_def)
  show "fm_abs m key = None \<Longrightarrow> fm_size m = fm_capacity m \<Longrightarrow>
      fm_emplace hf m key v = (Inl FmContainerFull, m)"
    using find empty by (simp add: fm_emplace_def)
  assume new: "fm_abs m key = None" and room: "fm_size m \<noteq> fm_capacity m"
  then obtain i where i: "findEmptyBucket hf m key = Some i" using empty by auto
  note ei = findEmptyBucket_Some [OF i]
  let ?b = "\<lparr>b_value = Some (key, v), b_occupied = True\<rparr>"
  have only: "\<forall>j < fm_capacity m. occ m j \<and> keyat m j = key \<longrightarrow> j = i"
    using find new findMatchingBucket_iff [OF inv, of key] by auto
  have b: "b_key ?b = key" "b_occupied ?b" "b_value ?b \<noteq> None" "b_val ?b = v"
    by (simp_all add: b_key_def b_val_def)
  have old: "occ m i \<longrightarrow> keyat m i = key" using ei by simp
  have e: "snd (fm_emplace hf m key v) = m\<lparr>fm_data := (fm_data m)[i := ?b],
      fm_size := fm_size m + (if occ m i then 0 else 1)\<rparr>"
    using find new i ei by (simp add: fm_emplace_def)
  have "fst (fm_emplace hf m key v) = Inr ()" using find new i by (simp add: fm_emplace_def)
  then show "fst (fm_emplace hf m key v) = Inr () \<and> fm_inv hf (snd (fm_emplace hf m key v)) \<and>
      fm_abs (snd (fm_emplace hf m key v)) = (fm_abs m)(key \<mapsto> v) \<and>
      fm_size (snd (fm_emplace hf m key v)) = fm_size m + 1 \<and>
      fm_capacity (snd (fm_emplace hf m key v)) = fm_capacity m"
    unfolding e using fm_inv_put [OF inv ei(1) b(1,2,3) ei(3) only old] b(4) ei(2) by simp
qed


lemma fm_at_abs:
  "fm_inv hf m \<Longrightarrow>
   fm_at hf m key = (case fm_abs m key of None \<Rightarrow> Inl FmInvalidKey | Some v \<Rightarrow> Inr v)"
  by (simp add: fm_at_def fm_abs_find split: option.splits)

lemma fm_contains_abs: "fm_inv hf m \<Longrightarrow> fm_contains hf m key \<longleftrightarrow> fm_abs m key \<noteq> None"
  by (simp add: fm_contains_def fm_abs_find)

lemma fm_update_abs:
  assumes "fm_inv hf m"
  shows "fm_inv hf (snd (fm_update hf m key v)) \<and>
    (if fm_abs m key = None then fm_update hf m key v = (Inl FmInvalidKey, m)
     else fst (fm_update hf m key v) = Inr () \<and>
          fm_abs (snd (fm_update hf m key v)) = (fm_abs m)(key \<mapsto> v))"
  using assms fm_set_value_ok [OF assms, of key _ v]
  by (cases "findMatchingBucket hf m key") (auto simp: fm_update_def fm_abs_find)

lemma fm_insert_or_assign_abs:
  assumes "fm_inv hf m"
  shows "fm_inv hf (snd (fm_insert_or_assign hf m key v)) \<and>
    (if fm_abs m key = None \<and> fm_size m = fm_capacity m
     then fm_insert_or_assign hf m key v = (Inl FmContainerFull, m)
     else fst (fm_insert_or_assign hf m key v) = Inr () \<and>
          fm_abs (snd (fm_insert_or_assign hf m key v)) = (fm_abs m)(key \<mapsto> v))"
proof (cases "findMatchingBucket hf m key")
  case None
  then have "fm_abs m key = None" by (simp add: fm_abs_find [OF assms])
  then show ?thesis
    using None fm_emplace_ok [OF assms, of key v] assms
    by (cases "fm_size m = fm_capacity m") (simp_all add: fm_insert_or_assign_def)
next
  case (Some i)
  then show ?thesis using fm_set_value_ok [OF assms Some, of v]
    by (simp add: fm_insert_or_assign_def fm_abs_find [OF assms])
qed

lemma fm_inv_clear:
  assumes "length (fm_data m) = fm_capacity m"
  shows "fm_inv hf (fm_clear m)" "fm_abs (fm_clear m) = Map.empty"
    "fm_capacity (fm_clear m) = fm_capacity m" "fm_size (fm_clear m) = 0"
proof -
  have no: "filter b_occupied (fm_data (fm_clear m)) = []"
    by (auto simp: fm_clear_def filter_empty_conv)
  have len: "length (fm_data (fm_clear m)) = fm_capacity m" using assms by (simp add: fm_clear_def)
  have "\<not> occ (fm_clear m) i" if i: "i < fm_capacity m" for i
  proof -
    have "fm_data (fm_clear m) ! i \<in> set (fm_data (fm_clear m))" using i len by simp
    then show ?thesis using no unfolding filter_empty_conv by blast
  qed
  then show "fm_inv hf (fm_clear m)"
    using assms no by (simp add: fm_inv_def) (simp add: fm_clear_def)
  show "fm_abs (fm_clear m) = Map.empty" using no by (simp add: fm_abs_def)
qed (simp_all add: fm_clear_def)

lemma fm_inv_fresh:
  "fm_inv hf \<lparr>fm_data = replicate n raw_bucket, fm_capacity = n, fm_size = 0\<rparr>"
  "fm_abs \<lparr>fm_data = replicate n raw_bucket, fm_capacity = n, fm_size = 0\<rparr> = Map.empty"
  "fm_inv hf fm_new" "fm_abs fm_new = Map.empty"
  by (simp_all add: fm_inv_def fm_abs_def raw_bucket_def fm_new_def)

lemma fm_capacity_new: "fm_capacity fm_new = 0"
  by (simp add: fm_new_def)

text \<open>Emplacing the occupied buckets of another table, as reserve and copy_from do, succeeds when
  they fit and their keys are new and distinct.\<close>

lemma fm_emplace_buckets_ok:
  assumes "fm_inv hf m" "distinct (map b_key (filter b_occupied bs))"
    "\<forall>b \<in> set (filter b_occupied bs). fm_abs m (b_key b) = None"
    "fm_size m + length (filter b_occupied bs) \<le> fm_capacity m"
  shows "fst (fm_emplace_buckets hf m bs) = Inr () \<and> fm_inv hf (snd (fm_emplace_buckets hf m bs)) \<and>
    fm_capacity (snd (fm_emplace_buckets hf m bs)) = fm_capacity m \<and>
    fm_abs (snd (fm_emplace_buckets hf m bs)) =
      fm_abs m ++ map_of (map (\<lambda>b. (b_key b, b_val b)) (filter b_occupied bs))"
  using assms
proof (induction bs arbitrary: m)
  case (Cons b bs)
  show ?case
  proof (cases "b_occupied b")
    case True
    have new: "fm_abs m (b_key b) = None" "fm_size m \<noteq> fm_capacity m" using Cons.prems True by auto
    note e = fm_emplace_ok [OF Cons.prems(1), of "b_key b" "b_val b"]
    have new': "b_key b' \<noteq> b_key b" if "b' \<in> set bs" "b_occupied b'" for b'
      using Cons.prems(2) True that by (auto simp: image_iff)
    obtain m1 where m1: "fm_emplace hf m (b_key b) (b_val b) = (Inr (), m1)"
      using e(3) [OF new] by (cases "fm_emplace hf m (b_key b) (b_val b)") auto
    have e2: "fm_inv hf m1" "fm_abs m1 = (fm_abs m)(b_key b \<mapsto> b_val b)" "fm_size m1 = fm_size m + 1"
      "fm_capacity m1 = fm_capacity m" using e(3) [OF new] m1 by auto
    have "fst (fm_emplace_buckets hf m1 bs) = Inr () \<and>
        fm_inv hf (snd (fm_emplace_buckets hf m1 bs)) \<and>
        fm_capacity (snd (fm_emplace_buckets hf m1 bs)) = fm_capacity m1 \<and>
        fm_abs (snd (fm_emplace_buckets hf m1 bs)) =
        fm_abs m1 ++ map_of (map (\<lambda>b. (b_key b, b_val b)) (filter b_occupied bs))"
      using e2 Cons.prems True new' by (intro Cons.IH) simp_all
    moreover have "fm_emplace_buckets hf m (b # bs) = fm_emplace_buckets hf m1 bs"
      using True m1 by simp
    moreover have "(fm_abs m)(b_key b \<mapsto> b_val b) ++ map_of (map (\<lambda>b. (b_key b, b_val b)) (filter b_occupied bs)) =
        fm_abs m ++ map_of (map (\<lambda>b. (b_key b, b_val b)) (filter b_occupied (b # bs)))"
    proof -
      have "b_key b \<notin> dom (map_of (map (\<lambda>b. (b_key b, b_val b)) (filter b_occupied bs)))"
        using Cons.prems True by (simp add: dom_map_of_conv_image_fst image_image)
      then show ?thesis using True by (simp add: map_add_upd_left)
    qed
    ultimately show ?thesis using e2 by simp
  next
    case False
    then show ?thesis using Cons by simp
  qed
qed simp

lemma fm_buckets_of_inv:
  assumes "fm_inv hf m"
  shows "distinct (map b_key (filter b_occupied (fm_data m)))"
    "length (filter b_occupied (fm_data m)) = fm_size m" "fm_size m \<le> fm_capacity m"
  using fm_entries_distinct [OF assms] assms
  by (simp_all add: comp_def fm_inv_def) (metis length_filter_le)

lemma fm_reserve_abs:
  assumes "fm_inv hf m"
  shows "fst (fm_reserve hf True m n) = Inr () \<and> fm_inv hf (snd (fm_reserve hf True m n)) \<and>
    fm_abs (snd (fm_reserve hf True m n)) = fm_abs m \<and>
    fm_capacity (snd (fm_reserve hf True m n)) = max n (fm_capacity m)"
proof (cases "n > fm_capacity m")
  case True
  let ?m0 = "\<lparr>fm_data = replicate n raw_bucket, fm_capacity = n, fm_size = 0\<rparr>"
  show ?thesis
    using fm_emplace_buckets_ok [OF fm_inv_fresh(1) [where hf = hf and n = n], where bs = "fm_data m"]
      fm_buckets_of_inv [OF assms] True
    by (simp add: fm_reserve_def fm_inv_fresh fm_abs_def [of m] max_def)
qed (use assms in \<open>simp add: fm_reserve_def max_def\<close>)

lemma fm_copy_from_abs:
  assumes "fm_inv hf m" "fm_inv hf w" "fm_size w \<le> fm_capacity m"
  shows "fst (fm_copy_from hf m w) = Inr () \<and> fm_inv hf (snd (fm_copy_from hf m w)) \<and>
    fm_abs (snd (fm_copy_from hf m w)) = fm_abs w"
proof -
  have len: "length (fm_data m) = fm_capacity m" using assms by (simp add: fm_inv_def)
  show ?thesis
    using fm_emplace_buckets_ok [OF fm_inv_clear(1) [OF len], where hf = hf and bs = "fm_data w"]
      fm_buckets_of_inv [OF assms(2)] assms(3)
    by (simp add: fm_copy_from_def fm_inv_clear [OF len] fm_abs_def [of w])
qed

lemma fm_size_card:
  assumes "fm_inv hf m"
  shows "fm_size m = card (dom (fm_abs m))"
proof -
  let ?es = "map (\<lambda>b. (b_key b, b_val b)) (filter b_occupied (fm_data m))"
  have "card (dom (fm_abs m)) = card (set (map fst ?es))"
    by (simp only: fm_abs_def dom_map_of_conv_image_fst list.set_map)
  also have "\<dots> = length ?es" using distinct_card [OF fm_entries_distinct [OF assms]] by simp
  finally show ?thesis using assms by (simp add: fm_inv_def)
qed

section \<open>Traces without erasure\<close>

datatype ('k, 'v) fm_op =
  FEmplace 'k 'v | FUpdate 'k 'v | FAssign 'k 'v | FAt 'k | FClear | FReserve nat

text \<open>The observable outcome: success, with the value read where one is, or the error.\<close>

fun fm_exec :: "('k \<Rightarrow> nat) \<Rightarrow> ('k, 'v) fm_op \<Rightarrow> ('k, 'v) FixedMap \<Rightarrow>
    (fm_error + 'v option) \<times> ('k, 'v) FixedMap" where
  "fm_exec hf (FEmplace k v) m = (let (r, m') = fm_emplace hf m k v in (map_sum id Map.empty r, m'))"
| "fm_exec hf (FUpdate k v) m = (let (r, m') = fm_update hf m k v in (map_sum id Map.empty r, m'))"
| "fm_exec hf (FAssign k v) m =
     (let (r, m') = fm_insert_or_assign hf m k v in (map_sum id Map.empty r, m'))"
| "fm_exec hf (FAt k) m = (map_sum id Some (fm_at hf m k), m)"
| "fm_exec hf FClear m = (Inr None, fm_clear m)"
| "fm_exec hf (FReserve n) m =
     (let (r, m') = fm_reserve hf True m n in (map_sum id Map.empty r, m'))"

fun map_exec :: "('k, 'v) fm_op \<Rightarrow> nat \<times> ('k \<Rightarrow> 'v option) \<Rightarrow>
    (fm_error + 'v option) \<times> nat \<times> ('k \<Rightarrow> 'v option)" where
  "map_exec (FEmplace k v) (c, f) =
     (if f k \<noteq> None then (Inl FmDuplicateKey, c, f)
      else if card (dom f) = c then (Inl FmContainerFull, c, f)
      else (Inr None, c, f(k \<mapsto> v)))"
| "map_exec (FUpdate k v) (c, f) =
     (if f k = None then (Inl FmInvalidKey, c, f) else (Inr None, c, f(k \<mapsto> v)))"
| "map_exec (FAssign k v) (c, f) =
     (if f k = None \<and> card (dom f) = c then (Inl FmContainerFull, c, f)
      else (Inr None, c, f(k \<mapsto> v)))"
| "map_exec (FAt k) (c, f) =
     (case f k of None \<Rightarrow> (Inl FmInvalidKey, c, f) | Some v \<Rightarrow> (Inr (Some v), c, f))"
| "map_exec FClear (c, f) = (Inr None, c, Map.empty)"
| "map_exec (FReserve n) (c, f) = (Inr None, max n c, f)"

lemma fm_capacity_simps:
  "fm_capacity (snd (fm_update hf m k v)) = fm_capacity m"
  "fm_capacity (snd (fm_emplace hf m k v)) = fm_capacity m"
  "fm_capacity (snd (fm_insert_or_assign hf m k v)) = fm_capacity m"
  by (simp_all add: fm_update_def fm_emplace_def fm_insert_or_assign_def fm_set_value_def
      split: option.splits)

lemma fm_exec_refines:
  assumes inv: "fm_inv hf m"
  shows "fm_inv hf (snd (fm_exec hf p m)) \<and>
    (fst (fm_exec hf p m), fm_capacity (snd (fm_exec hf p m)), fm_abs (snd (fm_exec hf p m))) =
      map_exec p (fm_capacity m, fm_abs m)"
proof (cases p)
  case (FEmplace k v)
  then show ?thesis
    using inv fm_emplace_ok [OF inv, of k v] fm_size_card [OF inv]
    by (cases "fm_emplace hf m k v") (auto split: if_splits)
next
  case (FUpdate k v)
  then show ?thesis
    using inv fm_update_abs [OF inv, of k v] fm_capacity_simps(1) [of hf m k v]
    by (cases "fm_update hf m k v") (auto split: if_splits)
next
  case (FAssign k v)
  obtain r m' where e: "fm_insert_or_assign hf m k v = (r, m')" by fastforce
  have c: "fm_capacity m' = fm_capacity m" using fm_capacity_simps(3) [of hf m k v] e by simp
  show ?thesis
    using inv fm_insert_or_assign_abs [OF inv, of k v] fm_size_card [OF inv] c
    by (cases "fm_abs m k = None \<and> fm_size m = fm_capacity m") (auto simp add: FAssign e)
next
  case (FAt k)
  then show ?thesis using inv by (simp add: fm_at_abs [OF inv] split: option.splits)
next
  case FClear
  then show ?thesis using inv by (simp add: fm_inv_clear fm_inv_def [of hf m])
next
  case (FReserve n)
  then show ?thesis
    using fm_reserve_abs [OF inv, of n] by (cases "fm_reserve hf True m n") auto
qed

fun fm_run :: "('k \<Rightarrow> nat) \<Rightarrow> ('k, 'v) fm_op list \<Rightarrow> ('k, 'v) FixedMap \<Rightarrow>
    (fm_error + 'v option) list \<times> ('k, 'v) FixedMap" where
  "fm_run hf [] m = ([], m)"
| "fm_run hf (p # ps) m = (let (r, m1) = fm_exec hf p m; (rs, m2) = fm_run hf ps m1 in (r # rs, m2))"

fun map_run :: "('k, 'v) fm_op list \<Rightarrow> nat \<times> ('k \<Rightarrow> 'v option) \<Rightarrow>
    (fm_error + 'v option) list \<times> nat \<times> ('k \<Rightarrow> 'v option)" where
  "map_run [] s = ([], s)"
| "map_run (p # ps) s = (let (r, s1) = map_exec p s; (rs, s2) = map_run ps s1 in (r # rs, s2))"

text \<open>C6: As long as nothing is erased the hash map is a partial map of bounded size: for every
  hash function and every sequence of emplace, update, insert_or_assign, at, clear and reserve
  calls, the results and the final bindings are those of the partial map, collisions and
  wrap-around of the probing included.\<close>

theorem fm_trace_refines_map:
  assumes "fm_inv hf m"
  shows "fst (fm_run hf ps m) = fst (map_run ps (fm_capacity m, fm_abs m)) \<and>
    (fm_capacity (snd (fm_run hf ps m)), fm_abs (snd (fm_run hf ps m))) =
      snd (map_run ps (fm_capacity m, fm_abs m)) \<and> fm_inv hf (snd (fm_run hf ps m))"
  using assms
proof (induction ps arbitrary: m)
  case (Cons p ps)
  obtain r m1 where m1: "fm_exec hf p m = (r, m1)" by fastforce
  have "fm_inv hf m1" "map_exec p (fm_capacity m, fm_abs m) = (r, fm_capacity m1, fm_abs m1)"
    using fm_exec_refines [OF Cons.prems, of p] m1 by auto
  then show ?case using Cons.IH [of m1] m1 by (auto simp: split_beta Let_def)
qed simp

theorem fm_trace_refines_map_witness:
  "fst (fm_run (\<lambda>_. 7) [FReserve 2, FEmplace (1::nat) (10::nat), FEmplace 2 20, FEmplace 3 30, FAt 2]
     fm_new) = [Inr None, Inr None, Inr None, Inl FmContainerFull, Inr (Some 20)]"
  using fm_trace_refines_map [OF fm_inv_fresh(3),
      of "\<lambda>_. 7" "[FReserve 2, FEmplace (1::nat) (10::nat), FEmplace 2 20, FEmplace 3 30, FAt 2]"]
  by (simp add: fm_inv_fresh fm_capacity_new)

section \<open>Erasure\<close>

text \<open>An erasure is harmless when the bucket after the erased one is free: no probe sequence
  then continues through it.\<close>

lemma probe_after:
  assumes "i \<in> set (takeWhile (\<lambda>j. j \<noteq> t) (probes c h))" "t \<in> set (probes c h)"
  shows "(i + 1) mod c = t \<or> (i + 1) mod c \<in> set (takeWhile (\<lambda>j. j \<noteq> t) (probes c h))"
proof -
  let ?ps = "probes c h" and ?w = "takeWhile (\<lambda>j. j \<noteq> t) (probes c h)"
  obtain ys zs where "?ps = ys @ t # zs" "t \<notin> set ys"
    using split_list_first [OF assms(2)] by blast
  note ps = this
  have "takeWhile (\<lambda>j. j \<noteq> t) (ys @ t # zs) = ys"
    using ps by (subst takeWhile_append2) auto
  then have "?w = ys" by (simp add: ps)
  then have w: "length ?w < c" "?ps ! length ?w = t"
    using length_probes [of c h] by (simp_all add: ps del: length_probes)
  obtain l where l: "l < length ?w" "?w ! l = i" using assms(1) by (auto simp: in_set_conv_nth)
  then have i: "i = (h + l) mod c" using w by (simp add: takeWhile_nth probes_def)
  then have n: "(i + 1) mod c = ?ps ! Suc l" using l w by (simp add: probes_def mod_Suc_eq)
  show ?thesis
  proof (cases "Suc l = length ?w")
    case True
    then show ?thesis using n w by simp
  next
    case False
    then have "Suc l < length ?w" using l by simp
    then have "?w ! Suc l = ?ps ! Suc l" "?w ! Suc l \<in> set ?w"
      by (rule takeWhile_nth, rule nth_mem)
    then show ?thesis using n by simp
  qed
qed


lemma fm_erase_safe:
  assumes inv: "fm_inv hf m" and f: "findMatchingBucket hf m key = Some i"
    and free: "\<not> occ m ((i + 1) mod fm_capacity m)"
  shows "fst (fm_erase hf m key) = Inr () \<and> fm_inv hf (snd (fm_erase hf m key)) \<and>
    fm_abs (snd (fm_erase hf m key)) = (fm_abs m)(key := None)"
proof -
  let ?c = "fm_capacity m"
  have i: "i < ?c" "occ m i" "keyat m i = key"
    using findMatchingBucket_iff [OF inv, of key i] f by simp_all
  define m' where "m' = m\<lparr>fm_data := (fm_data m)[i := raw_bucket], fm_size := fm_size m - 1\<rparr>"
  have e: "fm_erase hf m key = (Inr (), m')" using f by (simp add: fm_erase_def m'_def)
  have len: "length (fm_data m) = ?c" using inv by (simp add: fm_inv_def)
  have nth: "fm_data m' ! j = (if j = i then raw_bucket else fm_data m ! j)" for j
    using i by (simp add: m'_def len nth_list_update)
  have c': "fm_capacity m' = ?c" by (simp add: m'_def)
  have h': "fm_hash hf m' = fm_hash hf m" by (simp add: fun_eq_iff fm_hash_def m'_def)
  have sz: "fm_size m' = length (filter b_occupied (fm_data m'))"
    using inv filter_length_update [of i "fm_data m" b_occupied raw_bucket] i
    by (simp add: m'_def fm_inv_def)
  have occ': "occ m j \<and> j \<noteq> i" if "occ m' j" for j
    using that by (cases "j = i") (simp_all add: nth)
  have chain': "fm_chain hf m' j" if j: "j < ?c" "occ m' j" for j
  proof -
    let ?ps = "probes ?c (fm_hash hf m (keyat m j))"
    have ch: "fm_chain hf m j" and "j \<noteq> i" using inv j occ' [OF j(2)] by (simp_all add: fm_inv_def)
    have "i \<notin> set (takeWhile (\<lambda>l. l \<noteq> j) ?ps)"
    proof
      assume "i \<in> set (takeWhile (\<lambda>l. l \<noteq> j) ?ps)"
      then have "(i + 1) mod ?c = j \<or> (i + 1) mod ?c \<in> set (takeWhile (\<lambda>l. l \<noteq> j) ?ps)"
        using j by (intro probe_after) (simp_all add: set_probes)
      then show False using ch free occ' [OF j(2)] by (auto simp: fm_chain_def)
    qed
    then show ?thesis using ch \<open>j \<noteq> i\<close> by (auto simp: fm_chain_def c' h' nth)
  qed
  have uniq: "p = q" if "p < ?c" "q < ?c" "occ m' p" "occ m' q" "keyat m' p = keyat m' q" for p q
    using that occ' [OF that(3)] occ' [OF that(4)] inv unfolding fm_inv_def by (simp add: nth)
  have val: "b_value (fm_data m' ! j) \<noteq> None" if "j < ?c" "occ m' j" for j
    using that inv occ' [OF that(2)] by (simp add: nth fm_inv_def)
  have inv': "fm_inv hf m'"
    unfolding fm_inv_def using sz chain' uniq val by (simp add: c') (simp add: m'_def len)
  have "fm_abs m' k = Some v \<longleftrightarrow> ((fm_abs m)(key := None)) k = Some v" for k v
  proof -
    show ?thesis
    proof (cases "k = key")
      case True
      have "\<not> (j < ?c \<and> occ m' j \<and> keyat m' j = key)" for j
        using findMatchingBucket_iff [OF inv, of key j] f by (cases "j = i") (simp_all add: nth)
      then show ?thesis unfolding fm_abs_Some [OF inv'] c' True by auto
    next
      case False
      have "occ m' j \<and> keyat m' j = k \<and> b_val (fm_data m' ! j) = v \<longleftrightarrow>
          occ m j \<and> keyat m j = k \<and> b_val (fm_data m ! j) = v" for j
        using i False by (cases "j = i") (auto simp: nth)
      then show ?thesis
        unfolding fm_abs_Some [OF inv'] fun_upd_other [OF False] fm_abs_Some [OF inv] c' by simp
    qed
  qed
  then have "fm_abs m' = (fm_abs m)(key := None)" by (metis ext not_None_eq)
  then show ?thesis using e inv' by simp
qed

text \<open>Evaluation on a table of three buckets.\<close>

lemma table_3:
  "fm_match_loop d c key st i 3 =
     (if b_occupied (d ! i) then if b_key (d ! i) = key then Some i
      else if (i + 1) mod c = st then None else fm_match_loop d c key st ((i + 1) mod c) 2 else None)"
  "fm_match_loop d c key st i 2 =
     (if b_occupied (d ! i) then if b_key (d ! i) = key then Some i
      else if (i + 1) mod c = st then None else fm_match_loop d c key st ((i + 1) mod c) 1 else None)"
  "fm_match_loop d c key st i 1 =
     (if b_occupied (d ! i) then if b_key (d ! i) = key then Some i
      else None else None)"
  "fm_empty_loop d c st i 3 =
     (if b_occupied (d ! i)
      then if (i + 1) mod c = st then None else fm_empty_loop d c st ((i + 1) mod c) 2 else Some i)"
  "fm_empty_loop d c st i 2 =
     (if b_occupied (d ! i)
      then if (i + 1) mod c = st then None else fm_empty_loop d c st ((i + 1) mod c) 1 else Some i)"
  "fm_empty_loop d c st i 1 = (if b_occupied (d ! i) then None else Some i)"
  "replicate 3 x = [x, x, x]"
  "[a, b, e][0 := x] = [x, b, e]" "[a, b, e][Suc 0 := x] = [a, x, e]" "[a, b, e][2 := x] = [a, b, x]"
  by (simp_all add: numeral_3_eq_3 numeral_2_eq_2 Let_def)

definition stored :: "'k \<Rightarrow> 'v \<Rightarrow> ('k, 'v) Bucket" where
  "stored k v = \<lparr>b_value = Some (k, v), b_occupied = True\<rparr>"

lemma bucket_simps [simp]:
  "b_occupied (stored k v)" "b_key (stored k v) = k" "b_val (stored k v) = v"
  "b_value (stored k v) = Some (k, v)"
  by (simp_all add: stored_def b_key_def b_val_def)

lemmas table_eval = table_3 fm_emplace_def findMatchingBucket_def findEmptyBucket_def fm_hash_def
  Let_def stored_def [symmetric]

lemma fm_two_colliding:
  assumes "hf k1 mod 3 = h" "hf k2 mod 3 = h" "k1 \<noteq> k2" "h < 3"
  shows "fm_run hf [FReserve 3, FEmplace k1 v1, FEmplace k2 (v2 :: 'b)] (fm_new :: ('a, 'b) FixedMap) =
    ([Inr None, Inr None, Inr None],
     \<lparr>fm_data = [raw_bucket, raw_bucket, raw_bucket][h := stored k1 v1, (h + 1) mod 3 := stored k2 v2],
      fm_capacity = 3, fm_size = 2\<rparr>)"
proof -
  let ?t = "[raw_bucket, raw_bucket, raw_bucket] :: ('a, 'b) Bucket list"
  have r: "fm_reserve hf True fm_new 3 = (Inr (), \<lparr>fm_data = ?t, fm_capacity = 3, fm_size = 0\<rparr>)"
    by (simp add: fm_reserve_def fm_new_def table_3)
  have h3: "h = 0 \<or> h = 1 \<or> h = 2" using assms(4) by linarith
  then have e1: "fm_emplace hf \<lparr>fm_data = ?t, fm_capacity = 3, fm_size = 0\<rparr> k1 v1 =
      (Inr (), \<lparr>fm_data = ?t[h := stored k1 v1], fm_capacity = 3, fm_size = 1\<rparr>)"
    using assms(1) by (elim disjE) (simp_all add: table_eval)
  have e2: "fm_emplace hf \<lparr>fm_data = ?t[h := stored k1 v1], fm_capacity = 3, fm_size = 1\<rparr> k2 v2 =
      (Inr (), \<lparr>fm_data = ?t[h := stored k1 v1, (h + 1) mod 3 := stored k2 v2], fm_capacity = 3, fm_size = 2\<rparr>)"
    using assms(2,3) h3 by (elim disjE) (simp_all add: table_eval)
  show ?thesis by (simp add: r e1 e2 del: list_update.simps One_nat_def)
qed

lemma fm_two_colliding_erase:
  fixes v1 v2 :: 'v
  assumes "hf k1 mod 3 = h" "hf k2 mod 3 = h" "k1 \<noteq> k2" "h < 3"
  defines "m \<equiv> \<lparr>fm_data = [raw_bucket, raw_bucket, raw_bucket]
      [h := stored k1 v1, (h + 1) mod 3 := stored k2 v2], fm_capacity = 3, fm_size = 2\<rparr>"
  shows "fm_at hf m k2 = Inr v2"
    "fm_erase hf m k1 = (Inr (), \<lparr>fm_data = [raw_bucket, raw_bucket, raw_bucket]
      [(h + 1) mod 3 := stored k2 v2], fm_capacity = 3, fm_size = 1\<rparr>)"
proof -
  consider "h = 0" | "h = 1" | "h = 2" using assms(4) by linarith
  then show "fm_at hf m k2 = Inr v2"
    using assms(1-3) by cases (simp_all add: m_def fm_at_def table_eval)
  consider "h = 0" | "h = 1" | "h = 2" using assms(4) by linarith
  then show "fm_erase hf m k1 = (Inr (), \<lparr>fm_data = [raw_bucket, raw_bucket, raw_bucket]
      [(h + 1) mod 3 := stored k2 v2], fm_capacity = 3, fm_size = 1\<rparr>)"
    using assms(1-3) by cases (simp_all add: m_def fm_erase_def table_eval)
qed

text \<open>erase leaves no tombstone.  When two keys collide and the one stored first is erased,
  the other is still stored, and was never erased, but is no longer found; a second emplace
  of it succeeds, and two buckets then hold the same key.\<close>

theorem fm_erase_loses_key:
  assumes "hf k1 mod 3 = hf k2 mod 3" "k1 \<noteq> k2"
  shows "let m = snd (fm_run hf [FReserve 3, FEmplace k1 v1, FEmplace k2 v2] fm_new);
             m1 = snd (fm_erase hf m k1);
             m2 = snd (fm_emplace hf m1 k2 v3)
    in fm_at hf m k2 = Inr v2 \<and>
       \<not> fm_contains hf m1 k2 \<and> Some (k2, v2) \<in> b_value ` set (filter b_occupied (fm_data m1)) \<and>
       length (filter (\<lambda>b. b_occupied b \<and> b_key b = k2) (fm_data m2)) = 2"
proof -
  define h where "h = hf k2 mod 3"
  have h: "hf k1 mod 3 = h" "hf k2 mod 3 = h" "h < 3" using assms by (simp_all add: h_def)
  define m1 where "m1 = \<lparr>fm_data = [raw_bucket, raw_bucket, raw_bucket]
      [(h + 1) mod 3 := stored k2 v2], fm_capacity = 3, fm_size = 1\<rparr>"
  consider "h = 0" | "h = 1" | "h = 2" using h by linarith
  then have "\<not> fm_contains hf m1 k2 \<and> Some (k2, v2) \<in> b_value ` set (filter b_occupied (fm_data m1)) \<and>
      length (filter (\<lambda>b. b_occupied b \<and> b_key b = k2) (fm_data (snd (fm_emplace hf m1 k2 v3)))) = 2"
    using h assms(2) by cases (simp_all add: m1_def fm_contains_def table_eval)
  moreover have "fm_at hf (snd (fm_run hf [FReserve 3, FEmplace k1 v1, FEmplace k2 v2] fm_new)) k2 = Inr v2"
    "snd (fm_erase hf (snd (fm_run hf [FReserve 3, FEmplace k1 v1, FEmplace k2 v2] fm_new)) k1) = m1"
    unfolding fm_two_colliding [OF h(1,2) assms(2) h(3)] snd_conv
      fm_two_colliding_erase [OF h(1,2) assms(2) h(3)] m1_def by (rule refl)+
  ultimately show ?thesis by (simp only: Let_def simp_thms)
qed

theorem fm_erase_loses_key_witness:
  "\<not> fm_contains (\<lambda>_. 0) (snd (fm_erase (\<lambda>_. 0) (snd (fm_run (\<lambda>_. 0)
     [FReserve 3, FEmplace (1::nat) (10::nat), FEmplace 2 20] fm_new)) 1)) 2"
  using fm_erase_loses_key [of "\<lambda>_. 0" "1::nat" 2 "10::nat" 20 0] by (simp add: Let_def)

end
