(* ===== verification/Staging_Queue.thy ===== *)
theory Staging_Queue
  imports Prelude
begin

text \<open>
  gxf/std/gems/staging_queue/staging_queue.hpp: the double-buffered queue in a ring buffer of
  twice the capacity.  New items go to the back stage; sync moves the back stage to the main
  stage.  The refinement relation sq_rep says that the ring, read from begin_, is the main
  stage, the back stage and then empty slots holding null.
\<close>

section \<open>State and operations\<close>

datatype OverflowBehavior = kPop | kReject | kFault | kInvalid

record 'a StagingQueue =
  sq_capacity :: nat
  overflow_behavior :: OverflowBehavior
  sq_null :: 'a
  sq_items :: "'a list"
  sq_begin :: nat
  num_mainstage :: nat
  num_backstage :: nat

definition sq_new :: "nat \<Rightarrow> OverflowBehavior \<Rightarrow> 'a \<Rightarrow> 'a StagingQueue" where
  "sq_new capacity policy nul =
     \<lparr>sq_capacity = capacity, overflow_behavior = policy, sq_null = nul,
      sq_items = replicate (2 * capacity) nul, sq_begin = 0, num_mainstage = 0, num_backstage = 0\<rparr>"

definition sq_default :: "'a \<Rightarrow> 'a StagingQueue" where
  "sq_default nul = sq_new 0 kFault nul"

definition ring_at :: "'a list \<Rightarrow> nat \<Rightarrow> 'a" where
  "ring_at items index = items ! (index mod length items)"

definition ring_put :: "'a list \<Rightarrow> nat \<Rightarrow> 'a \<Rightarrow> 'a list" where
  "ring_put items index x = items[index mod length items := x]"

definition sq_empty :: "'a StagingQueue \<Rightarrow> bool" where "sq_empty q = (num_mainstage q = 0)"
definition sq_size :: "'a StagingQueue \<Rightarrow> nat" where "sq_size q = num_mainstage q"
definition sq_back_size :: "'a StagingQueue \<Rightarrow> nat" where "sq_back_size q = num_backstage q"

definition sq_peek :: "'a StagingQueue \<Rightarrow> nat \<Rightarrow> 'a" where
  "sq_peek q index =
     (if index < num_mainstage q then ring_at (sq_items q) (sq_begin q + index) else sq_null q)"

definition sq_peek_backstage :: "'a StagingQueue \<Rightarrow> nat \<Rightarrow> 'a" where
  "sq_peek_backstage q index =
     (if index < num_backstage q
      then let begin_backstage = sq_begin q + num_mainstage q
           in ring_at (sq_items q) (begin_backstage + index)
      else sq_null q)"

definition sq_latest :: "'a StagingQueue \<Rightarrow> nat \<Rightarrow> 'a" where
  "sq_latest q index =
     (if index < num_mainstage q
      then ring_at (sq_items q) (sq_begin q + num_mainstage q - index - 1) else sq_null q)"

definition sq_pop :: "'a StagingQueue \<Rightarrow> 'a \<times> 'a StagingQueue" where
  "sq_pop q =
     (let (result, q1) =
        (if num_mainstage q > 0
         then (ring_at (sq_items q) (sq_begin q),
               q\<lparr>sq_items := ring_put (sq_items q) (sq_begin q) (sq_null q),
                 sq_begin := sq_begin q + 1, num_mainstage := num_mainstage q - 1\<rparr>)
         else (sq_null q, q))
      in (result, q1\<lparr>sq_begin := sq_begin q1 mod length (sq_items q1)\<rparr>))"

text \<open>The loop that overwrites count slots from index b with null.\<close>

fun null_loop :: "'a list \<Rightarrow> 'a \<Rightarrow> nat \<Rightarrow> nat \<Rightarrow> 'a list" where
  "null_loop items nul b 0 = items"
| "null_loop items nul b (Suc count) = null_loop (ring_put items b nul) nul (b + 1) count"

definition sq_popAll :: "'a StagingQueue \<Rightarrow> 'a StagingQueue" where
  "sq_popAll q =
     (let begin_backstage = sq_begin q + num_mainstage q;
          items = null_loop (sq_items q) (sq_null q) (sq_begin q) (begin_backstage - sq_begin q)
      in q\<lparr>sq_items := items, sq_begin := begin_backstage mod length items, num_mainstage := 0\<rparr>)"

text \<open>The loop of push under kPop: at(i - 1) = at(i) for i from start on, count times.\<close>

fun shift_loop :: "'a list \<Rightarrow> nat \<Rightarrow> nat \<Rightarrow> 'a list" where
  "shift_loop items i 0 = items"
| "shift_loop items i (Suc count) = shift_loop (ring_put items (i - 1) (ring_at items i)) (i + 1) count"

definition sq_push :: "'a StagingQueue \<Rightarrow> 'a \<Rightarrow> bool \<times> 'a StagingQueue" where
  "sq_push q item =
     (let begin_backstage = sq_begin q + num_mainstage q
      in if num_backstage q = sq_capacity q
         then (case overflow_behavior q of
             kPop \<Rightarrow>
               let backstage_end = begin_backstage + num_backstage q;
                   items = shift_loop (sq_items q) (begin_backstage + 1)
                             (backstage_end - (begin_backstage + 1))
               in (True, q\<lparr>sq_items := ring_put items (backstage_end - 1) item\<rparr>)
           | kReject \<Rightarrow> (True, q)
           | kFault \<Rightarrow> (False, q)
           | kInvalid \<Rightarrow> (False, q))
         else (True, q\<lparr>sq_items := ring_put (sq_items q) (begin_backstage + num_backstage q) item,
                       num_backstage := num_backstage q + 1\<rparr>))"

text \<open>The loop of sync under kReject: at(begin_ + --num_mainstage_) = null while the main stage is
  larger than the capacity, count times.\<close>

fun reject_loop :: "'a list \<Rightarrow> 'a \<Rightarrow> nat \<Rightarrow> nat \<Rightarrow> nat \<Rightarrow> 'a list" where
  "reject_loop items nul b num 0 = items"
| "reject_loop items nul b num (Suc count) =
     reject_loop (ring_put items (b + (num - 1)) nul) nul b (num - 1) count"

definition sq_sync :: "'a StagingQueue \<Rightarrow> bool \<times> 'a StagingQueue" where
  "sq_sync q =
     (let q1 = q\<lparr>num_mainstage := num_mainstage q + num_backstage q, num_backstage := 0\<rparr>;
          wrap = (\<lambda>r. r\<lparr>sq_begin := sq_begin r mod length (sq_items r)\<rparr>)
      in if num_mainstage q1 > sq_capacity q1
         then (case overflow_behavior q1 of
             kPop \<Rightarrow>
               let excess = num_mainstage q1 - sq_capacity q1
               in (True, wrap (q1\<lparr>sq_items := null_loop (sq_items q1) (sq_null q1) (sq_begin q1) excess,
                                  sq_begin := sq_begin q1 + excess,
                                  num_mainstage := sq_capacity q1\<rparr>))
           | kReject \<Rightarrow>
               (True, wrap (q1\<lparr>sq_items := reject_loop (sq_items q1) (sq_null q1) (sq_begin q1)
                                             (num_mainstage q1) (num_mainstage q1 - sq_capacity q1),
                               num_mainstage := sq_capacity q1\<rparr>))
           | kFault \<Rightarrow> (False, q1)
           | kInvalid \<Rightarrow> (False, q1))
         else (True, wrap q1))"

section \<open>The ring read from a position\<close>

lemma length_ring_put [simp]: "length (ring_put xs i x) = length xs"
  by (simp add: ring_put_def)

lemma length_loops [simp]:
  "length (null_loop xs nul b n) = length xs"
  "length (shift_loop xs i n) = length xs"
  "length (reject_loop xs nul b num n) = length xs"
proof -
  show "length (null_loop xs nul b n) = length xs" by (induction n arbitrary: xs b) simp_all
  show "length (shift_loop xs i n) = length xs" by (induction n arbitrary: xs i) simp_all
  show "length (reject_loop xs nul b num n) = length xs" by (induction n arbitrary: xs num) simp_all
qed

lemma rotate_nth: "j < length xs \<Longrightarrow> rotate b xs ! j = ring_at xs (b + j)"
  by (simp add: nth_rotate ring_at_def)

lemma rotate_put:
  assumes "j < length xs"
  shows "rotate b (ring_put xs (b + j) x) = (rotate b xs)[j := x]"
proof (rule nth_equalityI)
  fix i assume i: "i < length (rotate b (ring_put xs (b + j) x))"
  have "(b + i) mod length xs = (b + j) mod length xs \<longleftrightarrow> i = j"
    using mod_shift_inj [of i j "length xs" b] mod_shift_inj [of j i "length xs" b] assms i
    by (cases "i \<le> j") auto
  moreover have "(b + j) mod length xs < length xs" using assms by (intro mod_less_divisor) auto
  ultimately show "rotate b (ring_put xs (b + j) x) ! i = (rotate b xs)[j := x] ! i"
    using i assms by (auto simp: nth_rotate ring_put_def nth_list_update)
qed simp

lemma rotate_mod [simp]: "rotate (b mod length xs) xs = rotate b xs"
  by (simp flip: rotate_conv_mod)

lemma rotate_mod_length: "length xs = n \<Longrightarrow> rotate (b mod n) xs = rotate b xs"
  by auto

text \<open>Reading one position further.\<close>

lemma rotate_Suc_cons: "rotate b xs = y # ys \<Longrightarrow> rotate (b + 1) xs = ys @ [y]"
  by simp

lemma null_loop_rotate:
  assumes "rotate b xs = as @ ys" "length as = n"
  shows "rotate (b + n) (null_loop xs nul b n) = ys @ replicate n nul"
  using assms
proof (induction n arbitrary: xs b as ys)
  case (Suc n)
  then obtain a as' where as: "as = a # as'" "length as' = n" by (cases as) auto
  have "length xs = length (as @ ys)" using Suc.prems(1) by (metis length_rotate)
  then have "rotate b (ring_put xs b nul) = nul # as' @ ys"
    using rotate_put [of 0 xs b nul] Suc.prems(1) as by simp
  then have "rotate (b + 1) (ring_put xs b nul) = as' @ (ys @ [nul])" by simp
  from Suc.IH [OF this as(2)] show ?case by (simp add: replicate_append_same)
qed simp

lemma reject_loop_rotate:
  assumes "rotate b xs = ms @ as @ ys" "length as = n"
  shows "rotate b (reject_loop xs nul b (length ms + n) n) = ms @ replicate n nul @ ys"
  using assms
proof (induction n arbitrary: xs as ys)
  case (Suc n)
  then obtain as' a where as: "as = as' @ [a]" "length as' = n"
    by (metis length_Suc_conv_rev)
  have "length xs = length (ms @ as @ ys)" using Suc.prems(1) by (metis length_rotate)
  then have "rotate b (ring_put xs (b + (length ms + n)) nul) = (ms @ as @ ys)[length ms + n := nul]"
    using rotate_put [of "length ms + n" xs b nul] Suc.prems as by simp
  also have "\<dots> = ms @ as' @ (nul # ys)" using as by (simp add: list_update_append)
  finally show ?case using Suc.IH [OF _ as(2)] by (simp add: replicate_app_Cons_same)
qed simp

lemma shift_loop_rotate:
  assumes "rotate b xs = ms @ (a # as) @ ys" "length as = n"
  shows "rotate b (shift_loop xs (b + length ms + 1) n) = ms @ as @ last (a # as) # ys"
  using assms
proof (induction n arbitrary: xs ms a as)
  case (Suc n)
  then obtain c as' where as: "as = c # as'" "length as' = n" by (cases as) auto
  have len: "length xs = length (ms @ (a # as) @ ys)" using Suc.prems(1) by (metis length_rotate)
  have "ring_at xs (b + length ms + 1) = (ms @ (a # as) @ ys) ! (length ms + 1)"
    using rotate_nth [of "length ms + 1" xs b] len as Suc.prems(1) by (simp add: add.assoc)
  then have at: "ring_at xs (b + length ms + 1) = c" using as by (simp add: nth_append)
  have "rotate b (ring_put xs (b + length ms) c) = (ms @ (a # as) @ ys)[length ms := c]"
    using rotate_put [of "length ms" xs b c] len Suc.prems(1) by simp
  then have "rotate b (ring_put xs (b + length ms) c) = (ms @ [c]) @ (c # as') @ ys"
    using as by (simp add: list_update_append)
  from Suc.IH [OF this as(2)] show ?case using as at by simp
qed simp


section \<open>Refinement to a pair of lists\<close>

definition sq_rep :: "'a StagingQueue \<Rightarrow> 'a list \<Rightarrow> 'a list \<Rightarrow> bool" where
  "sq_rep q ms bs \<longleftrightarrow> length (sq_items q) = 2 * sq_capacity q \<and>
     rotate (sq_begin q) (sq_items q) =
       ms @ bs @ replicate (2 * sq_capacity q - length ms - length bs) (sq_null q) \<and>
     length ms = num_mainstage q \<and> length bs = num_backstage q \<and>
     length ms \<le> sq_capacity q \<and> length bs \<le> sq_capacity q \<and>
     sq_begin q \<le> 2 * sq_capacity q"

definition sq_inv :: "'a StagingQueue \<Rightarrow> bool" where "sq_inv q \<longleftrightarrow> (\<exists>ms bs. sq_rep q ms bs)"

definition mainstage :: "'a StagingQueue \<Rightarrow> 'a list" where
  "mainstage q = map (sq_peek q) [0..<num_mainstage q]"

definition backstage :: "'a StagingQueue \<Rightarrow> 'a list" where
  "backstage q = map (sq_peek_backstage q) [0..<num_backstage q]"

text \<open>What push and sync mean on the two lists.\<close>

fun spec_push :: "OverflowBehavior \<Rightarrow> nat \<Rightarrow> 'a \<Rightarrow> 'a list \<Rightarrow> bool \<times> 'a list" where
  "spec_push pol c x bs =
     (if length bs < c then (True, bs @ [x])
      else case pol of kPop \<Rightarrow> (True, tl bs @ [x]) | kReject \<Rightarrow> (True, bs) | _ \<Rightarrow> (False, bs))"

definition spec_sync :: "OverflowBehavior \<Rightarrow> nat \<Rightarrow> 'a list \<Rightarrow> 'a list \<Rightarrow> bool \<times> 'a list" where
  "spec_sync pol c ms bs =
     (if length ms + length bs \<le> c then (True, ms @ bs)
      else case pol of kPop \<Rightarrow> (True, drop (length ms + length bs - c) (ms @ bs))
                     | kReject \<Rightarrow> (True, take c (ms @ bs))
                     | _ \<Rightarrow> (False, ms @ bs))"

lemma sq_rep_peek:
  assumes "sq_rep q ms bs"
  shows "sq_peek q i = (if i < length ms then ms ! i else sq_null q)"
    "sq_peek_backstage q i = (if i < length bs then bs ! i else sq_null q)"
    "sq_latest q i = (if i < length ms then rev ms ! i else sq_null q)"
proof -
  let ?R = "rotate (sq_begin q) (sq_items q)"
  have len: "length ms + length bs \<le> length (sq_items q)" using assms by (simp add: sq_rep_def)
  have R: "?R = ms @ bs @ replicate (2 * sq_capacity q - length ms - length bs) (sq_null q)"
    and n: "num_mainstage q = length ms" "num_backstage q = length bs"
    using assms by (simp_all add: sq_rep_def)
  have at: "ring_at (sq_items q) (sq_begin q + j) = ?R ! j" if "j < length ms + length bs" for j
    using rotate_nth [of j "sq_items q" "sq_begin q"] that len by simp
  show "sq_peek q i = (if i < length ms then ms ! i else sq_null q)"
    using at [of i] by (simp add: sq_peek_def n R nth_append)
  show "sq_peek_backstage q i = (if i < length bs then bs ! i else sq_null q)"
    using at [of "length ms + i"] by (simp add: sq_peek_backstage_def n R nth_append Let_def add.assoc)
  show "sq_latest q i = (if i < length ms then rev ms ! i else sq_null q)"
  proof (cases "i < length ms")
    case True
    then have "sq_begin q + length ms - i - 1 = sq_begin q + (length ms - i - 1)"
      "length ms - Suc i < length ms" by simp_all
    then show ?thesis using True at [of "length ms - i - 1"]
      by (simp add: sq_latest_def n R nth_append rev_nth)
  qed (simp add: sq_latest_def n)
qed

lemma sq_rep_lists:
  assumes "sq_rep q ms bs"
  shows "mainstage q = ms" "backstage q = bs"
proof -
  have "num_mainstage q = length ms" "num_backstage q = length bs"
    using assms by (simp_all add: sq_rep_def)
  then show "mainstage q = ms" "backstage q = bs"
    using sq_rep_peek [OF assms]
    by (auto simp: mainstage_def backstage_def intro!: nth_equalityI)
qed

lemma sq_inv_iff: "sq_inv q \<longleftrightarrow> sq_rep q (mainstage q) (backstage q)"
  unfolding sq_inv_def using sq_rep_lists by metis

lemma sq_new_rep: "sq_rep (sq_new c pol nul) [] []"
  by (simp add: sq_rep_def sq_new_def)

lemma sq_pop_rep:
  assumes rep: "sq_rep q ms bs" and c: "0 < sq_capacity q"
  shows "fst (sq_pop q) = (case ms of [] \<Rightarrow> sq_null q | m # _ \<Rightarrow> m)"
    "sq_rep (snd (sq_pop q)) (tl ms) bs"
    "sq_capacity (snd (sq_pop q)) = sq_capacity q \<and> sq_null (snd (sq_pop q)) = sq_null q \<and>
     overflow_behavior (snd (sq_pop q)) = overflow_behavior q"
proof -
  let ?k = "2 * sq_capacity q - length ms - length bs"
  have len: "length (sq_items q) = 2 * sq_capacity q" and
    R: "rotate (sq_begin q) (sq_items q) = ms @ bs @ replicate ?k (sq_null q)"
    and n: "num_mainstage q = length ms" "num_backstage q = length bs"
    and le: "length ms \<le> sq_capacity q" "length bs \<le> sq_capacity q"
    using rep by (simp_all add: sq_rep_def)
  have pos: "0 < length (sq_items q)" using len c by simp
  show "fst (sq_pop q) = (case ms of [] \<Rightarrow> sq_null q | m # _ \<Rightarrow> m)"
    using rotate_nth [OF pos, of "sq_begin q"] R
    by (cases ms) (simp_all add: sq_pop_def n Let_def split_beta)
  show "sq_rep (snd (sq_pop q)) (tl ms) bs"
  proof (cases ms)
    case Nil
    then show ?thesis using R n le len pos
      by (simp add: sq_pop_def sq_rep_def Let_def less_imp_le rotate_mod_length)
  next
    case (Cons m ms')
    have "rotate (sq_begin q) (ring_put (sq_items q) (sq_begin q) (sq_null q)) =
        sq_null q # ms' @ bs @ replicate ?k (sq_null q)"
      using rotate_put [OF pos, of "sq_begin q" "sq_null q"] R Cons by simp
    then have "rotate (sq_begin q + 1) (ring_put (sq_items q) (sq_begin q) (sq_null q)) =
        ms' @ bs @ replicate ?k (sq_null q) @ [sq_null q]" by simp
    moreover have "replicate ?k (sq_null q) @ [sq_null q] =
        replicate (2 * sq_capacity q - length ms' - length bs) (sq_null q)"
      using Cons le by (simp add: replicate_append_same Suc_diff_Suc flip: replicate_Suc)
    moreover have "(sq_begin q + 1) mod length (sq_items q) \<le> 2 * sq_capacity q"
      using mod_less_divisor [OF pos, of "sq_begin q + 1"] len by linarith
    ultimately show ?thesis using Cons n le len
      by (simp add: sq_pop_def sq_rep_def Let_def rotate_mod_length del: rotate_Suc)
  qed
qed (simp add: sq_pop_def Let_def)


lemma sq_popAll_rep:
  assumes rep: "sq_rep q ms bs" and c: "0 < sq_capacity q"
  shows "sq_rep (sq_popAll q) [] bs"
    "sq_capacity (sq_popAll q) = sq_capacity q \<and> sq_null (sq_popAll q) = sq_null q \<and>
     overflow_behavior (sq_popAll q) = overflow_behavior q"
proof -
  let ?k = "2 * sq_capacity q - length ms - length bs"
  have len: "length (sq_items q) = 2 * sq_capacity q" and
    R: "rotate (sq_begin q) (sq_items q) = ms @ bs @ replicate ?k (sq_null q)"
    and n: "num_mainstage q = length ms" "num_backstage q = length bs"
    and le: "length ms \<le> sq_capacity q" "length bs \<le> sq_capacity q"
    using rep by (simp_all add: sq_rep_def)
  have "rotate (sq_begin q + length ms)
      (null_loop (sq_items q) (sq_null q) (sq_begin q) (length ms)) =
      bs @ replicate ?k (sq_null q) @ replicate (length ms) (sq_null q)"
    using null_loop_rotate [OF R refl] by simp
  moreover have "replicate ?k (sq_null q) @ replicate (length ms) (sq_null q) =
      replicate (2 * sq_capacity q - length bs) (sq_null q)"
    using le by (simp flip: replicate_add)
  moreover have "(sq_begin q + length ms) mod (2 * sq_capacity q) \<le> 2 * sq_capacity q"
    using c by (simp add: less_imp_le)
  ultimately show "sq_rep (sq_popAll q) [] bs"
    using n le len by (simp add: sq_popAll_def sq_rep_def Let_def rotate_mod_length)
qed (simp add: sq_popAll_def Let_def)

lemma sq_push_rep:
  assumes rep: "sq_rep q ms bs" and c: "0 < sq_capacity q"
  shows "fst (sq_push q x) = fst (spec_push (overflow_behavior q) (sq_capacity q) x bs)"
    "sq_rep (snd (sq_push q x)) ms (snd (spec_push (overflow_behavior q) (sq_capacity q) x bs))"
    "sq_capacity (snd (sq_push q x)) = sq_capacity q \<and> sq_null (snd (sq_push q x)) = sq_null q \<and>
     overflow_behavior (snd (sq_push q x)) = overflow_behavior q"
proof -
  let ?c = "sq_capacity q" and ?b = "sq_begin q"
  let ?k = "2 * ?c - length ms - length bs"
  have len: "length (sq_items q) = 2 * ?c" and
    R: "rotate ?b (sq_items q) = ms @ bs @ replicate ?k (sq_null q)"
    and n: "num_mainstage q = length ms" "num_backstage q = length bs"
    and le: "length ms \<le> ?c" "length bs \<le> ?c" "?b \<le> 2 * ?c"
    using rep by (simp_all add: sq_rep_def)
  have "fst (sq_push q x) = fst (spec_push (overflow_behavior q) ?c x bs) \<and>
    sq_rep (snd (sq_push q x)) ms (snd (spec_push (overflow_behavior q) ?c x bs))"
  proof (cases "length bs < ?c")
    case True
    have "?k = Suc (?k - 1)" using True le by simp
    then have "rotate ?b (sq_items q) = ms @ bs @ sq_null q # replicate (?k - 1) (sq_null q)"
      using R by (metis replicate_Suc)
    then have "rotate ?b (ring_put (sq_items q) (?b + (length ms + length bs)) x) =
        ms @ bs @ x # replicate (?k - 1) (sq_null q)"
      using rotate_put [of "length ms + length bs" "sq_items q" ?b x] True le len
      by (simp add: list_update_append)
    then show ?thesis using True n le len by (simp add: sq_push_def sq_rep_def Let_def add.assoc)
  next
    case full: False
    then have fb: "length bs = ?c" using le by simp
    show ?thesis
    proof (cases "overflow_behavior q")
      case kPop
      obtain a as where bs: "bs = a # as" using fb c by (cases bs) auto
      have "rotate ?b (shift_loop (sq_items q) (?b + length ms + 1) (length as)) =
          ms @ as @ last (a # as) # replicate ?k (sq_null q)"
        using shift_loop_rotate [of ?b "sq_items q" ms a as "replicate ?k (sq_null q)" "length as"] R bs
        by simp
      then have "rotate ?b (ring_put (shift_loop (sq_items q) (?b + length ms + 1) (length as))
            (?b + (length ms + length as)) x) = ms @ as @ x # replicate ?k (sq_null q)"
        using rotate_put [of "length ms + length as" "shift_loop (sq_items q) (?b + length ms + 1) (length as)" ?b x]
          le len bs fb by (simp add: list_update_append)
      moreover have "?c - Suc 0 = length as"
        "?b + (length ms + ?c) - Suc 0 = ?b + (length ms + length as)"
        "2 * ?c - Suc (length ms + length as) = ?c - length ms"
        using fb bs le by simp_all
      ultimately show ?thesis
        using kPop n le len bs fb by (simp add: sq_push_def sq_rep_def Let_def add.assoc)
    qed (use full fb n rep in \<open>simp_all add: sq_push_def Let_def\<close>)
  qed
  then show "fst (sq_push q x) = fst (spec_push (overflow_behavior q) ?c x bs)"
    "sq_rep (snd (sq_push q x)) ms (snd (spec_push (overflow_behavior q) ?c x bs))" by simp_all
qed (simp add: sq_push_def Let_def split: OverflowBehavior.splits)

lemma sq_sync_rep:
  assumes rep: "sq_rep q ms bs" and c: "0 < sq_capacity q"
  shows "fst (sq_sync q) = fst (spec_sync (overflow_behavior q) (sq_capacity q) ms bs)"
    "fst (sq_sync q) \<Longrightarrow>
     sq_rep (snd (sq_sync q)) (snd (spec_sync (overflow_behavior q) (sq_capacity q) ms bs)) []"
    "sq_capacity (snd (sq_sync q)) = sq_capacity q \<and> sq_null (snd (sq_sync q)) = sq_null q \<and>
     overflow_behavior (snd (sq_sync q)) = overflow_behavior q"
proof -
  let ?c = "sq_capacity q" and ?b = "sq_begin q" and ?nul = "sq_null q"
  let ?k = "2 * ?c - length ms - length bs" and ?x = "length ms + length bs - ?c"
  let ?pol = "overflow_behavior q"
  have len: "length (sq_items q) = 2 * ?c" and
    R: "rotate ?b (sq_items q) = (ms @ bs) @ replicate ?k ?nul"
    and n: "num_mainstage q = length ms" "num_backstage q = length bs"
    and le: "length ms \<le> ?c" "length bs \<le> ?c" "?b \<le> 2 * ?c"
    using rep by (simp_all add: sq_rep_def)
  have mle: "j mod (2 * ?c) \<le> 2 * ?c" for j using c by (simp add: less_imp_le)
  show fst_eq: "fst (sq_sync q) = fst (spec_sync ?pol ?c ms bs)"
    by (simp add: sq_sync_def spec_sync_def n Let_def split: OverflowBehavior.splits)
  show "sq_rep (snd (sq_sync q)) (snd (spec_sync ?pol ?c ms bs)) []" if s: "fst (sq_sync q)"
  proof (cases "length ms + length bs \<le> ?c")
    case True
    then show ?thesis using R n len mle
      by (simp add: sq_sync_def spec_sync_def sq_rep_def Let_def rotate_mod_length)
  next
    case over: False
    show ?thesis
    proof (cases ?pol)
      case kPop
      have split: "ms @ bs = take ?x (ms @ bs) @ drop ?x (ms @ bs)"
        by (simp only: append_take_drop_id)
      have tl: "length (take ?x (ms @ bs)) = ?x" by simp
      have "rotate ?b (sq_items q) =
          take ?x (ms @ bs) @ (drop ?x (ms @ bs) @ replicate ?k ?nul)"
        using R split by (metis append.assoc)
      from null_loop_rotate [OF this tl, of ?nul]
      have "rotate (?b + ?x) (null_loop (sq_items q) ?nul ?b ?x) =
          drop ?x (ms @ bs) @ replicate ?k ?nul @ replicate ?x ?nul" by simp
      moreover have "replicate ?k ?nul @ replicate ?x ?nul = replicate ?c ?nul"
        using over le by (simp flip: replicate_add)
      moreover have "length (drop ?x (ms @ bs)) = ?c" using over by simp
      ultimately show ?thesis
        using over kPop n len mle
        by (simp add: sq_sync_def spec_sync_def sq_rep_def Let_def rotate_mod_length del: drop_append)
    next
      case kReject
      have "rotate ?b (sq_items q) = take ?c (ms @ bs) @ drop ?c (ms @ bs) @ replicate ?k ?nul"
        using R by (metis append.assoc append_take_drop_id)
      from reject_loop_rotate [OF this, of ?x ?nul]
      have "rotate ?b (reject_loop (sq_items q) ?nul ?b (length (take ?c (ms @ bs)) + ?x) ?x) =
          take ?c (ms @ bs) @ replicate ?x ?nul @ replicate ?k ?nul" by simp
      moreover have "length (take ?c (ms @ bs)) = ?c" using over by simp
      moreover have "replicate ?x ?nul @ replicate ?k ?nul = replicate ?c ?nul"
        using over le by (simp flip: replicate_add)
      moreover have "?c + ?x = length ms + length bs" using over by simp
      ultimately show ?thesis
        using over kReject n len mle
        by (simp add: sq_sync_def spec_sync_def sq_rep_def Let_def rotate_mod_length del: take_append)
    qed (use s over n in \<open>simp_all add: sq_sync_def Let_def\<close>)
  qed
qed (simp add: sq_sync_def Let_def split: OverflowBehavior.splits)


section \<open>The interface of a staged queue\<close>

text \<open>What receivers, transmitters and the router rely on.  ctl collects the fixed attributes:
  capacity, policy and null.\<close>

locale staged_queue =
  fixes rep :: "'s \<Rightarrow> 'a list \<Rightarrow> 'a list \<Rightarrow> bool"
    and cap :: "'s \<Rightarrow> nat" and pol :: "'s \<Rightarrow> OverflowBehavior" and nul :: "'s \<Rightarrow> 'a"
    and push :: "'s \<Rightarrow> 'a \<Rightarrow> bool \<times> 's" and sync :: "'s \<Rightarrow> bool \<times> 's"
    and pop :: "'s \<Rightarrow> 'a \<times> 's" and clear :: "'s \<Rightarrow> 's"
  assumes bounds: "rep s ms bs \<Longrightarrow> length ms \<le> cap s \<and> length bs \<le> cap s"
    and push: "rep s ms bs \<Longrightarrow>
      fst (push s x) = fst (spec_push (pol s) (cap s) x bs) \<and>
      rep (snd (push s x)) ms (snd (spec_push (pol s) (cap s) x bs)) \<and>
      cap (snd (push s x)) = cap s \<and> pol (snd (push s x)) = pol s \<and> nul (snd (push s x)) = nul s"
    and sync: "rep s ms bs \<Longrightarrow>
      fst (sync s) = fst (spec_sync (pol s) (cap s) ms bs) \<and>
      (fst (sync s) \<longrightarrow> rep (snd (sync s)) (snd (spec_sync (pol s) (cap s) ms bs)) []) \<and>
      cap (snd (sync s)) = cap s \<and> pol (snd (sync s)) = pol s \<and> nul (snd (sync s)) = nul s"
    and pop: "rep s ms bs \<Longrightarrow>
      fst (pop s) = (case ms of [] \<Rightarrow> nul s | m # _ \<Rightarrow> m) \<and> rep (snd (pop s)) (tl ms) bs \<and>
      cap (snd (pop s)) = cap s \<and> pol (snd (pop s)) = pol s \<and> nul (snd (pop s)) = nul s"
    and clear: "rep s ms bs \<Longrightarrow> rep (clear s) [] bs \<and>
      cap (clear s) = cap s \<and> pol (clear s) = pol s \<and> nul (clear s) = nul s"
begin

fun push_all :: "'s \<Rightarrow> 'a list \<Rightarrow> 's" where
  "push_all s [] = s"
| "push_all s (x # xs) = push_all (snd (push s x)) xs"

fun pop_n :: "nat \<Rightarrow> 's \<Rightarrow> 'a list \<times> 's" where
  "pop_n 0 s = ([], s)"
| "pop_n (Suc n) s = (let (x, s1) = pop s; (xs, s2) = pop_n n s1 in (x # xs, s2))"

lemma push_all_room:
  "rep s ms bs \<Longrightarrow> length bs + length xs \<le> cap s \<Longrightarrow>
   rep (push_all s xs) ms (bs @ xs) \<and> cap (push_all s xs) = cap s"
proof (induction xs arbitrary: s bs)
  case (Cons x xs)
  have "rep (snd (push s x)) ms (bs @ [x]) \<and> cap (snd (push s x)) = cap s"
    using push [OF Cons.prems(1), of x] Cons.prems(2) by simp
  then show ?case using Cons.IH [of "snd (push s x)" "bs @ [x]"] Cons.prems(2) by simp
qed simp

lemma pop_n_main:
  "rep s ms bs \<Longrightarrow> n \<le> length ms \<Longrightarrow>
   fst (pop_n n s) = take n ms \<and> rep (snd (pop_n n s)) (drop n ms) bs"
proof (induction n arbitrary: s ms)
  case (Suc n)
  then obtain m ms' where ms: "ms = m # ms'" by (cases ms) auto
  then show ?case
    using pop [OF Suc.prems(1)] Suc.IH [of "snd (pop s)" ms'] Suc.prems(2)
    by (auto simp: split_beta Let_def)
qed simp

text \<open>First in, first out: what is pushed within the capacity and synced comes out in order.\<close>

lemma fifo:
  assumes "rep s ms bs" "length ms + length bs + length xs \<le> cap s"
  shows "fst (pop_n (length ms + length bs + length xs) (snd (sync (push_all s xs)))) = ms @ bs @ xs"
proof -
  note p = push_all_room [OF assms(1), of xs]
  then have "rep (snd (sync (push_all s xs))) (ms @ bs @ xs) []"
    using sync [of "push_all s xs" ms "bs @ xs"] assms(2) by (simp add: spec_sync_def)
  from pop_n_main [OF this, of "length ms + length bs + length xs"] show ?thesis by simp
qed

text \<open>Clearing, syncing and clearing again, as deinitialize does, leaves no item.\<close>

lemma drain:
  assumes "rep s ms bs"
  shows "fst (sync (clear s))" "rep (clear (snd (sync (clear s)))) [] []"
proof -
  note c = clear [OF assms]
  have le: "length bs \<le> cap (clear s)" using bounds [OF assms] c by simp
  show f: "fst (sync (clear s))" using sync [OF conjunct1 [OF c]] le by (simp add: spec_sync_def)
  show "rep (clear (snd (sync (clear s)))) [] []"
    using sync [OF conjunct1 [OF c]] f clear by blast
qed

end

interpretation sq: staged_queue "\<lambda>q ms bs. sq_rep q ms bs \<and> 0 < sq_capacity q" sq_capacity
    overflow_behavior sq_null sq_push sq_sync sq_pop sq_popAll
proof unfold_locales
  fix q :: "'a StagingQueue" and ms bs and x :: 'a
  assume rep: "sq_rep q ms bs \<and> 0 < sq_capacity q"
  show "length ms \<le> sq_capacity q \<and> length bs \<le> sq_capacity q"
    using rep by (simp add: sq_rep_def)
qed (metis sq_push_rep, metis sq_sync_rep, metis sq_pop_rep, metis sq_popAll_rep)

section \<open>Properties\<close>

datatype 'a sq_op = SqPush 'a | SqSync | SqPop | SqPopAll

fun sq_exec :: "'a sq_op \<Rightarrow> 'a StagingQueue \<Rightarrow> (bool + 'a) \<times> 'a StagingQueue" where
  "sq_exec (SqPush x) q = map_prod Inl id (sq_push q x)"
| "sq_exec SqSync q = map_prod Inl id (sq_sync q)"
| "sq_exec SqPop q = map_prod Inr id (sq_pop q)"
| "sq_exec SqPopAll q = (Inl True, sq_popAll q)"

fun lists_exec :: "OverflowBehavior \<Rightarrow> nat \<Rightarrow> 'a \<Rightarrow> 'a sq_op \<Rightarrow> 'a list \<times> 'a list \<Rightarrow>
    (bool + 'a) \<times> 'a list \<times> 'a list" where
  "lists_exec pol c nul (SqPush x) (ms, bs) =
     (Inl (fst (spec_push pol c x bs)), ms, snd (spec_push pol c x bs))"
| "lists_exec pol c nul SqSync (ms, bs) =
     (Inl (fst (spec_sync pol c ms bs)), snd (spec_sync pol c ms bs), [])"
| "lists_exec pol c nul SqPop (ms, bs) = (Inr (case ms of [] \<Rightarrow> nul | m # _ \<Rightarrow> m), tl ms, bs)"
| "lists_exec pol c nul SqPopAll (ms, bs) = (Inl True, [], bs)"

fun sq_run :: "'a sq_op list \<Rightarrow> 'a StagingQueue \<Rightarrow> (bool + 'a) list \<times> 'a StagingQueue" where
  "sq_run [] q = ([], q)"
| "sq_run (p # ps) q = (let (r, q1) = sq_exec p q; (rs, q2) = sq_run ps q1 in (r # rs, q2))"

fun lists_run :: "OverflowBehavior \<Rightarrow> nat \<Rightarrow> 'a \<Rightarrow> 'a sq_op list \<Rightarrow> 'a list \<times> 'a list \<Rightarrow>
    (bool + 'a) list \<times> 'a list \<times> 'a list" where
  "lists_run pol c nul [] l = ([], l)"
| "lists_run pol c nul (p # ps) l =
     (let (r, l1) = lists_exec pol c nul p l; (rs, l2) = lists_run pol c nul ps l1 in (r # rs, l2))"



lemma sq_run_append:
  "sq_run (ps @ rs) q =
     (fst (sq_run ps q) @ fst (sq_run rs (snd (sq_run ps q))), snd (sq_run rs (snd (sq_run ps q))))"
  by (induction ps arbitrary: q) (simp_all add: split_beta Let_def)

lemma sq_run_pushes: "snd (sq_run (map SqPush xs) q) = sq.push_all q xs"
  "length (fst (sq_run (map SqPush xs) q)) = length xs"
  by (induction xs arbitrary: q) (simp_all add: split_beta Let_def map_prod_def)

lemma sq_run_pops: "fst (sq_run (replicate n SqPop) q) = map Inr (fst (sq.pop_n n q))"
  by (induction n arbitrary: q) (simp_all add: split_beta Let_def map_prod_def)

text \<open>First in, first out: items pushed within the capacity leave the queue in the order of
  the pushes, after the items already there, whatever the overflow policy.\<close>

theorem sq_fifo:
  assumes "sq_rep q ms bs" "0 < sq_capacity q" "length ms + length bs + length xs \<le> sq_capacity q"
  shows "drop (length xs + 1) (fst (sq_run
      (map SqPush xs @ [SqSync] @ replicate (length ms + length bs + length xs) SqPop) q)) =
    map Inr (ms @ bs @ xs)"
  using sq.fifo [of q ms bs xs] assms
  by (simp add: sq_run_append sq_run_pushes sq_run_pops map_prod_def split_beta Let_def)

theorem sq_fifo_witness:
  "drop 3 (fst (sq_run [SqPush 5, SqPush 6, SqSync, SqPop, SqPop] (sq_new 2 kFault 0))) =
   [Inr 5, Inr (6::nat)]"
  using sq_fifo [OF sq_new_rep [of 2 kFault "0::nat"], of "[5, 6]"]
  by (simp add: sq_new_def numeral_2_eq_2 numeral_3_eq_3)

text \<open>Under the policy fault a sync that overflows reports failure but leaves the main stage
  larger than the capacity.  When both stages were full the ring is then full, and the next
  push, which still succeeds, overwrites the oldest unread item of the main stage.\<close>

theorem sq_fault_push_overwrites_oldest:
  assumes "sq_rep q ms bs" "overflow_behavior q = kFault" "0 < sq_capacity q"
    "length ms = sq_capacity q" "length bs = sq_capacity q"
  shows "\<not> fst (sq_sync q) \<and> sq_size (snd (sq_sync q)) = 2 * sq_capacity q \<and>
    sq_peek (snd (sq_sync q)) 0 = hd ms \<and>
    fst (sq_push (snd (sq_sync q)) x) \<and> sq_peek (snd (sq_push (snd (sq_sync q)) x)) 0 = x"
proof -
  let ?c = "sq_capacity q" and ?q = "snd (sq_sync q)"
  have n: "num_mainstage q = ?c" "num_backstage q = ?c" and len: "length (sq_items q) = 2 * ?c"
    using assms by (simp_all add: sq_rep_def)
  have s: "sq_sync q = (False, q\<lparr>num_mainstage := 2 * ?c, num_backstage := 0\<rparr>)"
    using assms by (simp add: sq_sync_def n Let_def)
  have "sq_peek q 0 = hd ms"
    using sq_rep_peek(1) [OF assms(1), of 0] assms by (cases ms) simp_all
  then have "sq_peek ?q 0 = hd ms" using assms n by (simp add: s sq_peek_def)
  moreover have "sq_push ?q x = (True, ?q\<lparr>sq_items := ring_put (sq_items q) (sq_begin q + 2 * ?c) x,
      num_backstage := 1\<rparr>)"
    using assms by (simp add: sq_push_def s)
  moreover have "ring_at (ring_put (sq_items q) (sq_begin q + 2 * ?c) x) (sq_begin q) = x"
    using assms len by (simp add: ring_at_def ring_put_def)
  ultimately show ?thesis using assms by (simp add: s sq_size_def sq_peek_def)
qed

theorem sq_fault_push_overwrites_oldest_witness:
  "let q = snd (sq_run [SqPush (1::nat), SqSync, SqPush 2] (sq_new 1 kFault 0));
       q1 = snd (sq_sync q); q2 = snd (sq_push q1 3)
   in \<not> fst (sq_sync q) \<and> sq_peek q1 0 = 1 \<and> fst (sq_push q1 3) \<and> sq_peek q2 0 = 3"
proof -
  let ?q = "snd (sq_run [SqPush (1::nat), SqSync, SqPush 2] (sq_new 1 kFault 0))"
  have rep: "sq_rep ?q [1] [2]"
    by (simp add: sq_rep_def sq_new_def sq_push_def sq_sync_def ring_put_def Let_def numeral_2_eq_2)
  have c: "overflow_behavior ?q = kFault" "sq_capacity ?q = 1"
    by (simp_all add: sq_new_def sq_push_def sq_sync_def)
  show ?thesis
    using sq_fault_push_overwrites_oldest [OF rep, of 3] c by (simp only: Let_def) simp
qed

end
