(* ===== verification/Message_Buffers.thy ===== *)
theory Message_Buffers
  imports Staging_Queue
begin

text \<open>
  gxf/std/queue.cpp, receiver.cpp, double_buffer_receiver.cpp, double_buffer_transmitter.cpp,
  async_buffer_receiver.cpp and async_buffer_transmitter.cpp.  An Entity handle in a queue is
  its eid, the null handle is kNullUid.  Two functions of the entity store are parameters:
  shared (Entity::Shared takes a reference to an existing entity) and ref_inc
  (GxfEntityRefCountInc).  A function with an output pointer returns the code and the value as
  an expected; its flag tells whether the pointer is null.
\<close>

section \<open>Double buffer receiver\<close>

definition overflow_of :: "nat \<Rightarrow> OverflowBehavior" where
  "overflow_of policy = (if policy = 0 then kPop else if policy = 1 then kReject
     else if policy = 2 then kFault else kInvalid)"

record DoubleBuffer =
  db_capacity :: nat
  db_policy :: nat
  db_queue :: "gxf_uid_t StagingQueue option"

definition dbr_initialize :: "DoubleBuffer \<Rightarrow> gxf_result_t \<times> DoubleBuffer" where
  "dbr_initialize s =
     (if db_capacity s = 0 then (GXF_ARGUMENT_OUT_OF_RANGE, s)
      else (GXF_SUCCESS, s\<lparr>db_queue := Some (sq_new (db_capacity s) (overflow_of (db_policy s)) kNullUid)\<rparr>))"

definition dbr_deinitialize :: "DoubleBuffer \<Rightarrow> gxf_result_t \<times> DoubleBuffer" where
  "dbr_deinitialize s = (case db_queue s of
       None \<Rightarrow> (GXF_CONTRACT_INVALID_SEQUENCE, s)
     | Some q \<Rightarrow> (GXF_SUCCESS, s\<lparr>db_queue := Some (sq_popAll (snd (sq_sync (sq_popAll q))))\<rparr>))"

definition dbr_pop ::
  "(gxf_uid_t \<Rightarrow> gxf_result_t) \<Rightarrow> bool \<Rightarrow> DoubleBuffer \<Rightarrow> gxf_uid_t expected \<times> DoubleBuffer" where
  "dbr_pop ref_inc null_ptr s =
     (if null_ptr then (Unexpected GXF_ARGUMENT_NULL, s)
      else case db_queue s of
        None \<Rightarrow> (Unexpected GXF_FAILURE, s)
      | Some q \<Rightarrow>
          (let (entity, q') = sq_pop q; s' = s\<lparr>db_queue := Some q'\<rparr>
           in if entity = kNullUid then (Unexpected GXF_FAILURE, s')
              else if ref_inc entity \<noteq> GXF_SUCCESS then (Unexpected (ref_inc entity), s')
              else (Inr entity, s')))"

definition dbr_push ::
  "(gxf_uid_t \<Rightarrow> gxf_uid_t expected) \<Rightarrow> gxf_uid_t \<Rightarrow> DoubleBuffer \<Rightarrow> gxf_result_t \<times> DoubleBuffer" where
  "dbr_push shared other s = (case db_queue s of
       None \<Rightarrow> (GXF_FAILURE, s)
     | Some q \<Rightarrow>
         (case shared other of
            Inl e \<Rightarrow> (e, s)
          | Inr entity \<Rightarrow>
              (let (r, q') = sq_push q entity; s' = s\<lparr>db_queue := Some q'\<rparr>
               in if \<not> r then (GXF_EXCEEDING_PREALLOCATED_SIZE, s') else (GXF_SUCCESS, s'))))"

text \<open>The int32_t index of peek is converted to size_t: a negative index becomes huge.\<close>

definition index_to_size :: "int \<Rightarrow> nat" where "index_to_size i = nat (i mod 2 ^ 64)"

definition dbr_peek :: "bool \<Rightarrow> int \<Rightarrow> DoubleBuffer \<Rightarrow> gxf_uid_t expected" where
  "dbr_peek null_ptr index s =
     (if null_ptr then Unexpected GXF_ARGUMENT_NULL
      else case db_queue s of
        None \<Rightarrow> Unexpected GXF_FAILURE
      | Some q \<Rightarrow> (let uid = sq_peek q (index_to_size index)
                   in if uid = kNullUid then Unexpected GXF_FAILURE else Inr uid))"

definition dbr_peek_back :: "bool \<Rightarrow> int \<Rightarrow> DoubleBuffer \<Rightarrow> gxf_uid_t expected" where
  "dbr_peek_back null_ptr index s =
     (if null_ptr then Unexpected GXF_ARGUMENT_NULL
      else case db_queue s of
        None \<Rightarrow> Unexpected GXF_FAILURE
      | Some q \<Rightarrow> (let uid = sq_peek_backstage q (index_to_size index)
                   in if uid = kNullUid then Unexpected GXF_FAILURE else Inr uid))"

definition dbr_capacity :: "DoubleBuffer \<Rightarrow> nat" where
  "dbr_capacity s = (case db_queue s of Some q \<Rightarrow> sq_capacity q | None \<Rightarrow> 0)"

definition dbr_size :: "DoubleBuffer \<Rightarrow> nat" where
  "dbr_size s = (case db_queue s of Some q \<Rightarrow> sq_size q | None \<Rightarrow> 0)"

definition dbr_back_size :: "DoubleBuffer \<Rightarrow> nat" where
  "dbr_back_size s = (case db_queue s of Some q \<Rightarrow> sq_back_size q | None \<Rightarrow> 0)"

definition dbr_receive ::
  "(gxf_uid_t \<Rightarrow> gxf_result_t) \<Rightarrow> bool \<Rightarrow> DoubleBuffer \<Rightarrow> gxf_uid_t expected \<times> DoubleBuffer" where
  "dbr_receive ref_inc null_ptr s = dbr_pop ref_inc null_ptr s"

definition dbr_sync :: "DoubleBuffer \<Rightarrow> gxf_result_t \<times> DoubleBuffer" where
  "dbr_sync s = (case db_queue s of
       None \<Rightarrow> (GXF_FAILURE, s)
     | Some q \<Rightarrow> (let (r, q') = sq_sync q; s' = s\<lparr>db_queue := Some q'\<rparr>
                  in if \<not> r then (GXF_EXCEEDING_PREALLOCATED_SIZE, s') else (GXF_SUCCESS, s')))"

text \<open>Receiver::receive notifies the connected transmitters after a successful receive; the list
  of eids notified is returned with the entity.\<close>

definition receiver_receive ::
  "(gxf_uid_t \<Rightarrow> gxf_result_t) \<Rightarrow> gxf_uid_t list \<Rightarrow> DoubleBuffer \<Rightarrow>
   gxf_uid_t expected \<times> gxf_uid_t list \<times> DoubleBuffer" where
  "receiver_receive ref_inc connected_transmitters s =
     (case dbr_receive ref_inc False s of
        (Inr uid, s') \<Rightarrow> (Inr uid, connected_transmitters, s')
      | (Inl code, s') \<Rightarrow> (Unexpected code, [], s'))"

section \<open>Double buffer transmitter\<close>

definition dbt_initialize :: "DoubleBuffer \<Rightarrow> gxf_result_t \<times> DoubleBuffer" where
  "dbt_initialize s =
     (if db_capacity s = 0 then (GXF_ARGUMENT_OUT_OF_RANGE, s)
      else (GXF_SUCCESS, s\<lparr>db_queue := Some (sq_new (db_capacity s) (overflow_of (db_policy s)) kNullUid)\<rparr>))"

definition dbt_deinitialize :: "DoubleBuffer \<Rightarrow> gxf_result_t \<times> DoubleBuffer" where
  "dbt_deinitialize s = (case db_queue s of
       None \<Rightarrow> (GXF_CONTRACT_INVALID_SEQUENCE, s)
     | Some q \<Rightarrow> (GXF_SUCCESS, s\<lparr>db_queue := Some (sq_popAll (snd (sq_sync (sq_popAll q))))\<rparr>))"

definition dbt_pop ::
  "(gxf_uid_t \<Rightarrow> gxf_result_t) \<Rightarrow> bool \<Rightarrow> DoubleBuffer \<Rightarrow> gxf_uid_t expected \<times> DoubleBuffer" where
  "dbt_pop ref_inc null_ptr s =
     (if null_ptr then (Unexpected GXF_ARGUMENT_NULL, s)
      else case db_queue s of
        None \<Rightarrow> (Unexpected GXF_FAILURE, s)
      | Some q \<Rightarrow>
          (let (entity, q') = sq_pop q; s' = s\<lparr>db_queue := Some q'\<rparr>
           in if entity = kNullUid then (Unexpected GXF_FAILURE, s')
              else if ref_inc entity \<noteq> GXF_SUCCESS then (Unexpected (ref_inc entity), s')
              else (Inr entity, s')))"

definition dbt_push ::
  "(gxf_uid_t \<Rightarrow> gxf_uid_t expected) \<Rightarrow> gxf_uid_t \<Rightarrow> DoubleBuffer \<Rightarrow> gxf_result_t \<times> DoubleBuffer" where
  "dbt_push shared other s = (case db_queue s of
       None \<Rightarrow> (GXF_FAILURE, s)
     | Some q \<Rightarrow>
         (case shared other of
            Inl e \<Rightarrow> (e, s)
          | Inr entity \<Rightarrow>
              (let (r, q') = sq_push q entity; s' = s\<lparr>db_queue := Some q'\<rparr>
               in if \<not> r then (GXF_EXCEEDING_PREALLOCATED_SIZE, s') else (GXF_SUCCESS, s'))))"

definition dbt_peek :: "bool \<Rightarrow> int \<Rightarrow> DoubleBuffer \<Rightarrow> gxf_uid_t expected" where
  "dbt_peek null_ptr index s =
     (if null_ptr then Unexpected GXF_ARGUMENT_NULL
      else case db_queue s of
        None \<Rightarrow> Unexpected GXF_FAILURE
      | Some q \<Rightarrow> (let uid = sq_peek q (index_to_size index)
                   in if uid = kNullUid then Unexpected GXF_FAILURE else Inr uid))"

definition dbt_capacity :: "DoubleBuffer \<Rightarrow> nat" where
  "dbt_capacity s = (case db_queue s of Some q \<Rightarrow> sq_capacity q | None \<Rightarrow> 0)"

definition dbt_size :: "DoubleBuffer \<Rightarrow> nat" where
  "dbt_size s = (case db_queue s of Some q \<Rightarrow> sq_size q | None \<Rightarrow> 0)"

definition dbt_publish ::
  "(gxf_uid_t \<Rightarrow> gxf_uid_t expected) \<Rightarrow> gxf_uid_t \<Rightarrow> DoubleBuffer \<Rightarrow> gxf_result_t \<times> DoubleBuffer" where
  "dbt_publish shared uid s = dbt_push shared uid s"

definition dbt_back_size :: "DoubleBuffer \<Rightarrow> nat" where
  "dbt_back_size s = (case db_queue s of Some q \<Rightarrow> sq_back_size q | None \<Rightarrow> 0)"

definition dbt_sync :: "DoubleBuffer \<Rightarrow> gxf_result_t \<times> DoubleBuffer" where
  "dbt_sync s = (case db_queue s of
       None \<Rightarrow> (GXF_FAILURE, s)
     | Some q \<Rightarrow> (let (r, q') = sq_sync q; s' = s\<lparr>db_queue := Some q'\<rparr>
                  in if \<not> r then (GXF_EXCEEDING_PREALLOCATED_SIZE, s') else (GXF_SUCCESS, s')))"

section \<open>Asynchronous buffer\<close>

text \<open>Simpson's four slot buffer: entity_data_[pair][slot], one slot index per pair.\<close>

record AsyncBuffer =
  ab_freshest :: nat
  ab_reading :: nat
  ab_slots :: "nat \<Rightarrow> nat"
  ab_data :: "nat \<Rightarrow> nat \<Rightarrow> gxf_uid_t"
  ab_filled :: bool

definition ab_reset_buffer :: "AsyncBuffer \<Rightarrow> AsyncBuffer" where
  "ab_reset_buffer s = s\<lparr>ab_freshest := 0, ab_reading := 0, ab_slots := (ab_slots s)(0 := 0, 1 := 0),
                        ab_filled := False\<rparr>"

definition ab_initialize :: "AsyncBuffer \<Rightarrow> gxf_result_t \<times> AsyncBuffer" where
  "ab_initialize s = (GXF_SUCCESS, ab_reset_buffer s)"

definition ab_deinitialize :: "AsyncBuffer \<Rightarrow> gxf_result_t \<times> AsyncBuffer" where
  "ab_deinitialize s = (GXF_SUCCESS, ab_reset_buffer s)"

definition ab_read_freshest :: "AsyncBuffer \<Rightarrow> gxf_uid_t \<times> AsyncBuffer" where
  "ab_read_freshest s =
     (let reading_pair = ab_freshest s;
          s' = s\<lparr>ab_reading := reading_pair\<rparr>;
          reading_slot = ab_slots s' reading_pair
      in (ab_data s' reading_pair reading_slot, s'))"

definition ab_pop ::
  "(gxf_uid_t \<Rightarrow> gxf_result_t) \<Rightarrow> bool \<Rightarrow> AsyncBuffer \<Rightarrow> gxf_uid_t expected \<times> AsyncBuffer" where
  "ab_pop ref_inc null_ptr s =
     (if null_ptr then (Unexpected GXF_ARGUMENT_NULL, s)
      else if ab_filled s
      then (let (entity, s') = ab_read_freshest s
            in if ref_inc entity \<noteq> GXF_SUCCESS then (Unexpected (ref_inc entity), s')
               else (Inr entity, s'))
      else (Inr kNullUid, s))"

definition ab_push ::
  "(gxf_uid_t \<Rightarrow> gxf_uid_t expected) \<Rightarrow> gxf_uid_t \<Rightarrow> AsyncBuffer \<Rightarrow> gxf_result_t \<times> AsyncBuffer" where
  "ab_push shared other s = (case shared other of
       Inl e \<Rightarrow> (e, s)
     | Inr entity \<Rightarrow>
         (let writing_pair = 1 - ab_reading s;
              writing_slot = 1 - ab_slots s writing_pair
          in (GXF_SUCCESS,
              s\<lparr>ab_data := (ab_data s)(writing_pair := (ab_data s writing_pair)(writing_slot := entity)),
                ab_slots := (ab_slots s)(writing_pair := writing_slot),
                ab_freshest := writing_pair, ab_filled := True\<rparr>)))"

definition ab_size :: "AsyncBuffer \<Rightarrow> nat" where "ab_size s = 1"
definition ab_capacity :: "AsyncBuffer \<Rightarrow> nat" where "ab_capacity s = ab_size s + 1"

text \<open>The asynchronous transmitter holds one entity.\<close>

record AsyncTransmitter =
  at_entity :: gxf_uid_t
  at_size :: nat

definition at_initialize :: "AsyncTransmitter \<Rightarrow> gxf_result_t \<times> AsyncTransmitter" where
  "at_initialize s = (GXF_SUCCESS, s\<lparr>at_size := 0\<rparr>)"

definition at_pop ::
  "(gxf_uid_t \<Rightarrow> gxf_result_t) \<Rightarrow> bool \<Rightarrow> AsyncTransmitter \<Rightarrow> gxf_uid_t expected \<times> AsyncTransmitter"
where
  "at_pop ref_inc null_ptr s =
     (if null_ptr then (Unexpected GXF_ARGUMENT_NULL, s)
      else if at_entity s = kNullUid then (Unexpected GXF_FAILURE, s)
      else if ref_inc (at_entity s) \<noteq> GXF_SUCCESS then (Unexpected (ref_inc (at_entity s)), s)
      else (Inr (at_entity s), s\<lparr>at_size := 0\<rparr>))"

definition at_push ::
  "(gxf_uid_t \<Rightarrow> gxf_uid_t expected) \<Rightarrow> gxf_uid_t \<Rightarrow> AsyncTransmitter \<Rightarrow> gxf_result_t \<times> AsyncTransmitter"
where
  "at_push shared other s = (case shared other of
       Inl e \<Rightarrow> (e, s)
     | Inr entity \<Rightarrow> (GXF_SUCCESS, s\<lparr>at_entity := entity, at_size := 1\<rparr>))"

definition at_capacity :: "AsyncTransmitter \<Rightarrow> nat" where "at_capacity s = at_size s + 1"


section \<open>Double buffer properties\<close>

text \<open>A well-formed receiver or transmitter: the ring represents two lists that hold no null
  handle, and null is the value of empty slots.\<close>

definition db_rep :: "DoubleBuffer \<Rightarrow> gxf_uid_t list \<Rightarrow> gxf_uid_t list \<Rightarrow> bool" where
  "db_rep s ms bs \<longleftrightarrow> (\<exists>q. db_queue s = Some q \<and> sq_rep q ms bs \<and> 0 < sq_capacity q \<and>
     sq_null q = kNullUid \<and> sq_capacity q = db_capacity s \<and>
     overflow_behavior q = overflow_of (db_policy s) \<and> kNullUid \<notin> set ms \<union> set bs)"

lemma dbr_initialize_rep:
  "fst (dbr_initialize s) = GXF_SUCCESS \<longleftrightarrow> db_capacity s \<noteq> 0"
  "db_capacity s \<noteq> 0 \<Longrightarrow> db_rep (snd (dbr_initialize s)) [] []"
  by (simp_all add: dbr_initialize_def db_rep_def sq_new_rep)
    (simp add: sq_new_def)

lemma dbr_push_rep:
  assumes rep: "db_rep s ms bs" and sh: "shared other = Inr e" "e \<noteq> kNullUid"
  shows "db_rep (snd (dbr_push shared other s)) ms
      (snd (spec_push (overflow_of (db_policy s)) (db_capacity s) e bs))"
    "fst (dbr_push shared other s) =
      (if fst (spec_push (overflow_of (db_policy s)) (db_capacity s) e bs)
       then GXF_SUCCESS else GXF_EXCEEDING_PREALLOCATED_SIZE)"
proof -
  obtain q where q: "db_queue s = Some q" "sq_rep q ms bs" "0 < sq_capacity q" "sq_null q = kNullUid"
    "sq_capacity q = db_capacity s" "overflow_behavior q = overflow_of (db_policy s)"
    "kNullUid \<notin> set ms \<union> set bs" using rep by (auto simp: db_rep_def)
  note p = sq_push_rep [OF q(2,3), of e]
  have "kNullUid \<notin> set (snd (spec_push pol c e bs))" for pol c
    using q(7) sh(2) by (auto split: OverflowBehavior.splits dest: list.set_sel(2) [rotated])
      (metis list.sel(2) list.set_sel(2))
  then show "db_rep (snd (dbr_push shared other s)) ms
      (snd (spec_push (overflow_of (db_policy s)) (db_capacity s) e bs))"
    using p q sh(1) unfolding dbr_push_def db_rep_def by (simp add: split_beta Let_def del: spec_push.simps)
  show "fst (dbr_push shared other s) =
      (if fst (spec_push (overflow_of (db_policy s)) (db_capacity s) e bs)
       then GXF_SUCCESS else GXF_EXCEEDING_PREALLOCATED_SIZE)"
    using p q sh(1) by (simp add: dbr_push_def split_beta Let_def del: spec_push.simps)
qed

lemma dbr_pop_rep:
  assumes rep: "db_rep s ms bs"
  shows "db_rep (snd (dbr_pop ref_inc False s)) (tl ms) bs"
    "fst (dbr_pop ref_inc False s) = (case ms of [] \<Rightarrow> Inl GXF_FAILURE
       | m # _ \<Rightarrow> if ref_inc m = GXF_SUCCESS then Inr m else Inl (ref_inc m))"
proof -
  obtain q where q: "db_queue s = Some q" "sq_rep q ms bs" "0 < sq_capacity q" "sq_null q = kNullUid"
    "sq_capacity q = db_capacity s" "overflow_behavior q = overflow_of (db_policy s)"
    "kNullUid \<notin> set ms \<union> set bs" using rep by (auto simp: db_rep_def)
  note p = sq_pop_rep [OF q(2,3)]
  have "kNullUid \<notin> set (tl ms) \<union> set bs" using q(7) by (cases ms) auto
  then show "db_rep (snd (dbr_pop ref_inc False s)) (tl ms) bs"
    using p q by (simp add: dbr_pop_def db_rep_def split_beta Let_def)
  show "fst (dbr_pop ref_inc False s) = (case ms of [] \<Rightarrow> Inl GXF_FAILURE
       | m # _ \<Rightarrow> if ref_inc m = GXF_SUCCESS then Inr m else Inl (ref_inc m))"
    using p q by (cases ms) (auto simp: dbr_pop_def split_beta Let_def)
qed

lemma dbr_sync_rep:
  assumes rep: "db_rep s ms bs" and fits: "length ms + length bs \<le> db_capacity s"
  shows "fst (dbr_sync s) = GXF_SUCCESS" "db_rep (snd (dbr_sync s)) (ms @ bs) []"
proof -
  obtain q where q: "db_queue s = Some q" "sq_rep q ms bs" "0 < sq_capacity q" "sq_null q = kNullUid"
    "sq_capacity q = db_capacity s" "overflow_behavior q = overflow_of (db_policy s)"
    "kNullUid \<notin> set ms \<union> set bs" using rep by (auto simp: db_rep_def)
  note p = sq_sync_rep [OF q(2,3)]
  have sp: "spec_sync (overflow_behavior q) (sq_capacity q) ms bs = (True, ms @ bs)"
    using fits q by (simp add: spec_sync_def)
  show "fst (dbr_sync s) = GXF_SUCCESS" "db_rep (snd (dbr_sync s)) (ms @ bs) []"
    using p q sp by (simp_all add: dbr_sync_def db_rep_def split_beta Let_def)
qed



text \<open>Deinitialization drains both stages, whatever the policy.\<close>

lemma dbr_deinitialize_empty:
  assumes "db_rep s ms bs"
  shows "fst (dbr_deinitialize s) = GXF_SUCCESS \<and> db_rep (snd (dbr_deinitialize s)) [] []"
proof -
  obtain q where q: "db_queue s = Some q" "sq_rep q ms bs" "0 < sq_capacity q" "sq_null q = kNullUid"
    "sq_capacity q = db_capacity s" "overflow_behavior q = overflow_of (db_policy s)"
    using assms by (auto simp: db_rep_def)
  let ?q = "sq_popAll (snd (sq_sync (sq_popAll q)))"
  have ctl: "sq_null ?q = sq_null q" "sq_capacity ?q = sq_capacity q"
    "overflow_behavior ?q = overflow_behavior q"
    by (simp_all add: sq_popAll_def sq_sync_def Let_def split: OverflowBehavior.splits)
  show ?thesis
    using sq.drain(2) [of q ms bs] q ctl by (simp add: dbr_deinitialize_def db_rep_def)
qed

section \<open>The asynchronous buffer\<close>

definition ab_inv :: "AsyncBuffer \<Rightarrow> bool" where
  "ab_inv s \<longleftrightarrow> ab_freshest s \<le> 1 \<and> ab_reading s \<le> 1 \<and> (\<forall>p \<le> 1. ab_slots s p \<le> 1)"

lemma ab_inv_reset: "ab_inv (ab_reset_buffer s)"
  by (auto simp: ab_inv_def ab_reset_buffer_def le_Suc_eq)

lemma ab_inv_push: "ab_inv s \<Longrightarrow> ab_inv (snd (ab_push shared other s))"
  by (auto simp: ab_inv_def ab_push_def Let_def split: sum.splits)

lemma ab_inv_pop: "ab_inv s \<Longrightarrow> ab_inv (snd (ab_pop ref_inc n s))"
  by (auto simp: ab_inv_def ab_pop_def ab_read_freshest_def Let_def)

text \<open>A pop after a push reads the entity pushed, and reads it again until the next push.\<close>

lemma ab_pop_freshest:
  assumes "shared other = Inr e" "ref_inc e = GXF_SUCCESS"
  shows "fst (ab_pop ref_inc False (snd (ab_push shared other s))) = Inr e \<and>
    fst (ab_pop ref_inc False (snd (ab_pop ref_inc False (snd (ab_push shared other s))))) = Inr e"
  using assms by (simp add: ab_pop_def ab_push_def ab_read_freshest_def Let_def)

text \<open>Reader and writer run concurrently.  Every access to a shared cell is a step; the write
  and the read of the entity are in progress while the program counter is WWriting and
  RReading.\<close>

datatype wpc = WIdle | WPair | WWriting | WWritten | WSlotted | WFresh
datatype rpc = RIdle | RPair | RAnnounced | RReading

record simpson =
  sh :: AsyncBuffer
  w_pc :: wpc
  w_pair :: nat
  w_slot :: nat
  w_val :: gxf_uid_t
  r_pc :: rpc
  r_pair :: nat
  r_slot :: nat
  r_val :: gxf_uid_t

definition w_step :: "gxf_uid_t \<Rightarrow> simpson \<Rightarrow> simpson" where
  "w_step v s = (case w_pc s of
       WIdle \<Rightarrow> s\<lparr>w_pc := WPair, w_pair := 1 - ab_reading (sh s), w_val := v\<rparr>
     | WPair \<Rightarrow> s\<lparr>w_pc := WWriting, w_slot := 1 - ab_slots (sh s) (w_pair s)\<rparr>
     | WWriting \<Rightarrow> s\<lparr>w_pc := WWritten, sh := (sh s)\<lparr>ab_data := (ab_data (sh s))
           (w_pair s := (ab_data (sh s) (w_pair s))(w_slot s := w_val s))\<rparr>\<rparr>
     | WWritten \<Rightarrow> s\<lparr>w_pc := WSlotted, sh := (sh s)\<lparr>ab_slots := (ab_slots (sh s))(w_pair s := w_slot s)\<rparr>\<rparr>
     | WSlotted \<Rightarrow> s\<lparr>w_pc := WFresh, sh := (sh s)\<lparr>ab_freshest := w_pair s\<rparr>\<rparr>
     | WFresh \<Rightarrow> s\<lparr>w_pc := WIdle, sh := (sh s)\<lparr>ab_filled := True\<rparr>\<rparr>)"

definition r_step :: "simpson \<Rightarrow> simpson" where
  "r_step s = (case r_pc s of
       RIdle \<Rightarrow> s\<lparr>r_pc := RPair, r_pair := ab_freshest (sh s)\<rparr>
     | RPair \<Rightarrow> s\<lparr>r_pc := RAnnounced, sh := (sh s)\<lparr>ab_reading := r_pair s\<rparr>\<rparr>
     | RAnnounced \<Rightarrow> s\<lparr>r_pc := RReading, r_slot := ab_slots (sh s) (r_pair s)\<rparr>
     | RReading \<Rightarrow> s\<lparr>r_pc := RIdle, r_val := ab_data (sh s) (r_pair s) (r_slot s)\<rparr>)"

text \<open>Run without interruption the steps are the operations.\<close>

lemma w_steps_push:
  "w_pc s = WIdle \<Longrightarrow> sh ((w_step v ^^ 6) s) = snd (ab_push Inr v (sh s)) \<and>
     w_pc ((w_step v ^^ 6) s) = WIdle"
  by (simp add: eval_nat_numeral w_step_def ab_push_def Let_def)

lemma r_steps_read:
  "r_pc s = RIdle \<Longrightarrow> (r_val ((r_step ^^ 4) s), sh ((r_step ^^ 4) s)) = ab_read_freshest (sh s) \<and>
     r_pc ((r_step ^^ 4) s) = RIdle"
  by (simp add: eval_nat_numeral r_step_def ab_read_freshest_def Let_def)

inductive simpson_reach :: "AsyncBuffer \<Rightarrow> simpson \<Rightarrow> bool" for b0 where
  start: "ab_inv b0 \<Longrightarrow> simpson_reach b0 \<lparr>sh = b0, w_pc = WIdle, w_pair = 0, w_slot = 0, w_val = v0,
            r_pc = RIdle, r_pair = 0, r_slot = 0, r_val = v0\<rparr>"
| writer: "simpson_reach b0 s \<Longrightarrow> simpson_reach b0 (w_step v s)"
| reader: "simpson_reach b0 s \<Longrightarrow> r_pc s = RIdle \<longrightarrow> ab_filled (sh s) \<Longrightarrow> simpson_reach b0 (r_step s)"

definition simpson_inv :: "simpson \<Rightarrow> bool" where
  "simpson_inv s \<longleftrightarrow> ab_inv (sh s) \<and> w_pair s \<le> 1 \<and> r_pair s \<le> 1 \<and> w_slot s \<le> 1 \<and> r_slot s \<le> 1 \<and>
     (r_pc s \<in> {RAnnounced, RReading} \<longrightarrow> ab_reading (sh s) = r_pair s) \<and>
     (w_pc s = WWriting \<longrightarrow> w_slot s = 1 - ab_slots (sh s) (w_pair s)) \<and>
     (r_pc s = RReading \<and> w_pc s \<in> {WPair, WWriting} \<and> w_pair s = r_pair s \<longrightarrow>
        r_slot s = ab_slots (sh s) (r_pair s))"

lemma simpson_inv_w_step: "simpson_inv s \<Longrightarrow> simpson_inv (w_step v s)"
  by (cases "w_pc s"; cases "r_pc s"; simp add: simpson_inv_def w_step_def ab_inv_def; arith?)

lemma simpson_inv_r_step: "simpson_inv s \<Longrightarrow> simpson_inv (r_step s)"
  by (cases "r_pc s") (auto simp: simpson_inv_def r_step_def ab_inv_def)

lemma simpson_reach_inv: "simpson_reach b0 s \<Longrightarrow> simpson_inv s"
proof (induction rule: simpson_reach.induct)
  case (start v0)
  then show ?case by (simp add: simpson_inv_def)
qed (simp_all add: simpson_inv_w_step simpson_inv_r_step)



end
