(* ===== verification/Scheduling_Terms.thy ===== *)
theory Scheduling_Terms
  imports Prelude "HOL-Library.Multiset" "HOL-Library.Signed_Division"
begin

text \<open>
  gxf/std/scheduling_condition.cpp, scheduling_term_combiner.hpp and scheduling_terms.cpp: the
  conditions under which an entity may execute, the combination of conditions, and the
  scheduling terms.  Timestamps are int64_t and modelled by int (their overflow is undefined
  behaviour in C++); queue sizes are uint64_t and wrap.  A check that does not write
  target_timestamp returns None for it.
\<close>

section \<open>Conditions\<close>

datatype SchedulingConditionType = NEVER | READY | WAIT | WAIT_TIME | WAIT_EVENT

record SchedulingCondition =
  sc_type :: SchedulingConditionType
  sc_target :: int

abbreviation cond :: "SchedulingConditionType \<Rightarrow> int \<Rightarrow> SchedulingCondition" where
  "cond t n \<equiv> \<lparr>sc_type = t, sc_target = n\<rparr>"

definition AndCombine :: "SchedulingCondition \<Rightarrow> SchedulingCondition \<Rightarrow> SchedulingCondition" where
  "AndCombine a b =
     (if sc_type a = NEVER \<or> sc_type b = NEVER then cond NEVER 0
      else if sc_type a = WAIT_EVENT \<or> sc_type b = WAIT_EVENT then cond WAIT_EVENT 0
      else if sc_type a = WAIT \<or> sc_type b = WAIT then cond WAIT 0
      else if sc_type a = WAIT_TIME \<and> sc_type b = WAIT_TIME
      then cond WAIT_TIME (max (sc_target a) (sc_target b))
      else if sc_type a = WAIT_TIME then a
      else if sc_type b = WAIT_TIME then b
      else cond READY (max (sc_target a) (sc_target b)))"

definition OrCombine :: "SchedulingCondition \<Rightarrow> SchedulingCondition \<Rightarrow> SchedulingCondition" where
  "OrCombine a b =
     (if sc_type a = NEVER \<or> sc_type b = NEVER then cond NEVER 0
      else if sc_type a = READY \<and> sc_type b = READY
      then cond READY (max (sc_target a) (sc_target b))
      else if sc_type a = READY then cond READY (sc_target a)
      else if sc_type b = READY then cond READY (sc_target b)
      else if sc_type a = WAIT_EVENT \<or> sc_type b = WAIT_EVENT then cond WAIT_EVENT 0
      else if sc_type a = WAIT_TIME \<and> sc_type b = WAIT_TIME
      then cond WAIT_TIME (max (sc_target a) (sc_target b))
      else if sc_type a = WAIT_TIME then a
      else if sc_type b = WAIT_TIME then b
      else cond WAIT 0)"

definition SchedulingConditionTypeStr :: "SchedulingConditionType \<Rightarrow> string" where
  "SchedulingConditionTypeStr t = (case t of NEVER \<Rightarrow> ''Never'' | READY \<Rightarrow> ''Ready''
     | WAIT \<Rightarrow> ''Wait'' | WAIT_TIME \<Rightarrow> ''WaitTime'' | WAIT_EVENT \<Rightarrow> ''WaitEvent'')"

lemma condition_eqI: "sc_type a = sc_type b \<Longrightarrow> sc_target a = sc_target b \<Longrightarrow> a = (b :: SchedulingCondition)"
  by simp

lemma AndCombine_commute: "AndCombine a b = AndCombine b a"
  by (cases "sc_type a"; cases "sc_type b") (simp_all add: AndCombine_def max.commute)

lemma AndCombine_assoc: "AndCombine (AndCombine a b) c = AndCombine a (AndCombine b c)"
  by (cases "sc_type a"; cases "sc_type b"; cases "sc_type c") (simp_all add: AndCombine_def max.assoc)

lemma OrCombine_commute: "OrCombine a b = OrCombine b a"
  by (cases "sc_type a"; cases "sc_type b") (simp_all add: OrCombine_def max.commute)

lemma OrCombine_assoc: "OrCombine (OrCombine a b) c = OrCombine a (OrCombine b c)"
  by (cases "sc_type a"; cases "sc_type b"; cases "sc_type c") (simp_all add: OrCombine_def max.assoc)

text \<open>The interface of a combiner: what EntityItem::check folds over the scheduling terms.  A
  combiner is commutative, associative and strict in NEVER.\<close>

locale condition_combiner = abel_semigroup combine
  for combine :: "SchedulingCondition \<Rightarrow> SchedulingCondition \<Rightarrow> SchedulingCondition" +
  assumes never: "sc_type a = NEVER \<Longrightarrow> combine a b = cond NEVER 0"
    and never_only: "sc_type (combine a b) = NEVER \<Longrightarrow> sc_type a = NEVER \<or> sc_type b = NEVER"
begin

definition combine_all :: "SchedulingCondition \<Rightarrow> SchedulingCondition list \<Rightarrow> SchedulingCondition" where
  "combine_all a cs = foldl combine a cs"

lemma combine_all_simps [simp]:
  "combine_all a [] = a" "combine_all a (c # cs) = combine_all (combine a c) cs"
  by (simp_all add: combine_all_def)

lemma combine_all_out: "combine_all (combine a b) cs = combine a (combine_all b cs)"
  by (induction cs arbitrary: b) (simp_all add: assoc)

text \<open>The order in which the terms of an entity were added does not matter.\<close>

lemma combine_all_permute:
  assumes "mset cs = mset ds"
  shows "combine_all a cs = combine_all a ds"
  using assms
proof (induction cs arbitrary: ds a)
  case (Cons c cs)
  then obtain d1 d2 where ds: "ds = d1 @ c # d2"
    by (metis list.set_intros(1) set_mset_mset split_list)
  then have "mset cs = mset (d1 @ d2)" using Cons.prems by simp
  then have "combine_all (combine a c) cs = combine_all (combine a c) (d1 @ d2)" by (rule Cons.IH)
  also have "\<dots> = combine_all a (d1 @ c # d2)"
    by (induction d1 arbitrary: a) (simp_all, metis assoc commute)
  finally show ?case by (simp add: ds)
qed simp

lemma combine_all_never:
  "sc_type (combine_all a cs) = NEVER \<longleftrightarrow> (\<exists>c \<in> set (a # cs). sc_type c = NEVER)"
proof (induction cs arbitrary: a)
  case (Cons c cs)
  have "sc_type (combine a c) = NEVER \<longleftrightarrow> sc_type a = NEVER \<or> sc_type c = NEVER"
    using never never_only commute by (metis SchedulingCondition.select_convs(1))
  then show ?case using Cons.IH by auto
qed simp

end

interpretation and_combiner: condition_combiner AndCombine
proof unfold_locales
  show "sc_type (AndCombine a b) = NEVER \<Longrightarrow> sc_type a = NEVER \<or> sc_type b = NEVER" for a b
    by (cases "sc_type a"; cases "sc_type b") (simp_all add: AndCombine_def)
qed (rule AndCombine_assoc, rule AndCombine_commute, simp add: AndCombine_def)

interpretation or_combiner: condition_combiner OrCombine
proof unfold_locales
  show "sc_type (OrCombine a b) = NEVER \<Longrightarrow> sc_type a = NEVER \<or> sc_type b = NEVER" for a b
    by (cases "sc_type a"; cases "sc_type b") (simp_all add: OrCombine_def)
qed (rule OrCombine_assoc, rule OrCombine_commute, simp add: OrCombine_def)

text \<open>The meaning of a conjunction: the most significant type wins (NEVER, WAIT_EVENT, WAIT,
  WAIT_TIME, READY, in this order), and its target is the latest of the conditions that have
  that type.\<close>

definition and_rank :: "SchedulingConditionType \<Rightarrow> nat" where
  "and_rank t = (case t of READY \<Rightarrow> 0 | WAIT_TIME \<Rightarrow> 1 | WAIT \<Rightarrow> 2 | WAIT_EVENT \<Rightarrow> 3 | NEVER \<Rightarrow> 4)"

lemma and_rank_inj: "and_rank s = and_rank t \<longleftrightarrow> s = t"
  by (cases s; cases t) (simp_all add: and_rank_def)

lemma and_rank_le_1: "and_rank t \<le> 1 \<Longrightarrow> t \<in> {READY, WAIT_TIME}"
  by (cases t) (simp_all add: and_rank_def)

lemma AndCombine_rank: "and_rank (sc_type (AndCombine a b)) = max (and_rank (sc_type a)) (and_rank (sc_type b))"
  by (cases "sc_type a"; cases "sc_type b") (simp_all add: AndCombine_def and_rank_def)

lemma AndCombine_target:
  "sc_type (AndCombine a b) = t \<Longrightarrow> t \<in> {READY, WAIT_TIME} \<Longrightarrow>
   sc_target (AndCombine a b) = (if sc_type a = t \<and> sc_type b = t then max (sc_target a) (sc_target b)
     else if sc_type a = t then sc_target a else sc_target b)"
  by (cases "sc_type a"; cases "sc_type b") (auto simp: AndCombine_def)

section \<open>Periodic term\<close>

datatype PeriodicSchedulingPolicy = kCatchUpMissedTicks | kMinTimeBetweenTicks | kNoCatchUpMissedTicks

definition parse_policy :: "string \<Rightarrow> PeriodicSchedulingPolicy expected" where
  "parse_policy value =
     (if value = ''CatchUpMissedTicks'' then Inr kCatchUpMissedTicks
      else if value = ''MinTimeBetweenTicks'' then Inr kMinTimeBetweenTicks
      else if value = ''NoCatchUpMissedTicks'' then Inr kNoCatchUpMissedTicks
      else Unexpected GXF_ARGUMENT_OUT_OF_RANGE)"

definition wrap_policy :: "PeriodicSchedulingPolicy \<Rightarrow> string expected" where
  "wrap_policy value = Inr (case value of kCatchUpMissedTicks \<Rightarrow> ''CatchUpMissedTicks''
     | kMinTimeBetweenTicks \<Rightarrow> ''MinTimeBetweenTicks''
     | kNoCatchUpMissedTicks \<Rightarrow> ''NoCatchUpMissedTicks'')"

record PeriodicTerm =
  pt_policy :: PeriodicSchedulingPolicy
  recess_period_ns :: int
  next_target :: "int option"

text \<open>ParseRecessPeriodString, which reads a floating point number, is a parameter.\<close>

definition periodic_initialize ::
  "(string \<Rightarrow> int expected) \<Rightarrow> string \<Rightarrow> PeriodicTerm \<Rightarrow> gxf_result_t \<times> PeriodicTerm" where
  "periodic_initialize parse recess_period t = (case parse recess_period of
       Inl e \<Rightarrow> (e, t)
     | Inr p \<Rightarrow> (GXF_SUCCESS, t\<lparr>recess_period_ns := p, next_target := None\<rparr>))"

definition periodic_check :: "int \<Rightarrow> PeriodicTerm \<Rightarrow> SchedulingConditionType \<times> int option" where
  "periodic_check timestamp t = (case next_target t of
       None \<Rightarrow> (READY, Some timestamp)
     | Some target \<Rightarrow> (if timestamp > target then READY else WAIT_TIME, Some target))"

definition periodic_onExecute :: "int \<Rightarrow> PeriodicTerm \<Rightarrow> PeriodicTerm" where
  "periodic_onExecute timestamp t = (case next_target t of
       Some target \<Rightarrow> t\<lparr>next_target := Some (case pt_policy t of
           kCatchUpMissedTicks \<Rightarrow> target + recess_period_ns t
         | kMinTimeBetweenTicks \<Rightarrow> timestamp + recess_period_ns t
         | kNoCatchUpMissedTicks \<Rightarrow>
             target + ((timestamp - target) sdiv recess_period_ns t + 1) * recess_period_ns t)\<rparr>
     | None \<Rightarrow> t\<lparr>next_target := Some (timestamp + recess_period_ns t)\<rparr>)"

section \<open>Target time term\<close>

record TargetTimeTerm =
  tt_last :: int
  tt_target :: "int option"
  tt_locked :: "int option"

definition target_initialize :: "int \<Rightarrow> TargetTimeTerm \<Rightarrow> TargetTimeTerm" where
  "target_initialize clock_now t = t\<lparr>tt_last := clock_now, tt_target := Some clock_now\<rparr>"

text \<open>setNextTargetTime; on success the entity is notified of a time update.\<close>

definition setNextTargetTime :: "int \<Rightarrow> TargetTimeTerm \<Rightarrow> gxf_result_t \<times> TargetTimeTerm" where
  "setNextTargetTime target t =
     (if (case tt_locked t of Some l \<Rightarrow> l > target | None \<Rightarrow> False) then (GXF_FAILURE, t)
      else (GXF_SUCCESS, t\<lparr>tt_target := Some target\<rparr>))"

definition target_check ::
  "int \<Rightarrow> TargetTimeTerm \<Rightarrow> (SchedulingConditionType \<times> int option) \<times> TargetTimeTerm" where
  "target_check timestamp t =
     (let t1 = (if tt_target t \<noteq> None \<and> tt_locked t = None
                then t\<lparr>tt_locked := tt_target t, tt_target := None\<rparr> else t)
      in case tt_locked t1 of
           None \<Rightarrow> ((WAIT, None), t1)
         | Some l \<Rightarrow> ((if l > timestamp then WAIT_TIME else READY, Some l), t1))"

definition target_onExecute :: "int \<Rightarrow> TargetTimeTerm \<Rightarrow> TargetTimeTerm" where
  "target_onExecute clock_now t = t\<lparr>tt_last := clock_now, tt_locked := None\<rparr>"

section \<open>Count term\<close>

record CountTerm =
  ct_count :: int
  ct_remaining :: int
  ct_state :: SchedulingConditionType
  ct_last_run :: int

definition count_initialize :: "CountTerm \<Rightarrow> CountTerm" where
  "count_initialize t = t\<lparr>ct_remaining := ct_count t, ct_state := READY, ct_last_run := 0\<rparr>"

definition count_check :: "int \<Rightarrow> CountTerm \<Rightarrow> SchedulingConditionType \<times> int option" where
  "count_check timestamp t = (ct_state t, Some (ct_last_run t))"

definition count_update_state :: "int \<Rightarrow> CountTerm \<Rightarrow> CountTerm" where
  "count_update_state timestamp t = (if ct_remaining t = 0 then t\<lparr>ct_state := NEVER\<rparr> else t)"

definition count_onExecute :: "int \<Rightarrow> CountTerm \<Rightarrow> CountTerm" where
  "count_onExecute timestamp t =
     (let r = ct_remaining t - 1
      in t\<lparr>ct_remaining := r, ct_state := (if r = 0 then NEVER else ct_state t), ct_last_run := timestamp\<rparr>)"

section \<open>Terms on message queues\<close>

text \<open>A receiver as the terms see it: its capacity and the sizes of its two stages, below 2 ^ 64.\<close>

record rx_view =
  rx_capacity :: nat
  rx_size :: nat
  rx_back :: nat

definition u64 :: "nat \<Rightarrow> nat" where "u64 n = n mod 2 ^ 64"

text \<open>The state of a term that is READY or WAIT and remembers the time of the last change.\<close>

record StateTerm =
  st_state :: SchedulingConditionType
  st_change :: int

definition update_ready :: "bool \<Rightarrow> int \<Rightarrow> StateTerm \<Rightarrow> StateTerm" where
  "update_ready is_ready timestamp t =
     (let t1 = (if is_ready \<and> st_state t \<noteq> READY then t\<lparr>st_state := READY, st_change := timestamp\<rparr> else t)
      in if \<not> is_ready \<and> st_state t1 \<noteq> WAIT then t1\<lparr>st_state := WAIT, st_change := timestamp\<rparr> else t1)"

definition downstream_initialize :: "StateTerm" where
  "downstream_initialize = \<lparr>st_state = READY, st_change = 0\<rparr>"

definition downstream_ready :: "nat \<Rightarrow> rx_view list \<Rightarrow> bool" where
  "downstream_ready min_size receivers =
     foldl (\<lambda>is_ready r. is_ready \<and>
       u64 (rx_back r + min_size) \<le> size_sub (rx_capacity r) (rx_size r)) True receivers"

definition downstream_update_state :: "nat \<Rightarrow> rx_view list \<Rightarrow> int \<Rightarrow> StateTerm \<Rightarrow> StateTerm" where
  "downstream_update_state min_size receivers timestamp t =
     (if receivers = [] then t
      else update_ready (downstream_ready min_size receivers) timestamp t)"

definition downstream_check ::
  "rx_view list \<Rightarrow> StateTerm \<Rightarrow> SchedulingConditionType \<times> int option" where
  "downstream_check receivers t =
     (if receivers = [] then (NEVER, None) else (st_state t, Some (st_change t)))"

definition downstream_onExecute :: "nat \<Rightarrow> rx_view list \<Rightarrow> int \<Rightarrow> StateTerm \<Rightarrow> StateTerm" where
  "downstream_onExecute min_size receivers timestamp t =
     downstream_update_state min_size receivers timestamp t"

definition message_initialize :: "StateTerm" where
  "message_initialize = \<lparr>st_state = WAIT, st_change = 0\<rparr>"

definition checkMinSize :: "nat \<Rightarrow> rx_view \<Rightarrow> bool" where
  "checkMinSize min_size r \<longleftrightarrow> u64 (rx_back r + rx_size r) \<ge> min_size"

definition checkFrontStageMaxSize :: "nat option \<Rightarrow> rx_view \<Rightarrow> bool" where
  "checkFrontStageMaxSize front_max r \<longleftrightarrow> (case front_max of None \<Rightarrow> True | Some m \<Rightarrow> rx_size r \<le> m)"

definition message_update_state ::
  "nat \<Rightarrow> nat option \<Rightarrow> rx_view \<Rightarrow> int \<Rightarrow> StateTerm \<Rightarrow> StateTerm" where
  "message_update_state min_size front_max r timestamp t =
     update_ready (checkMinSize min_size r \<and> checkFrontStageMaxSize front_max r) timestamp t"

definition message_check :: "StateTerm \<Rightarrow> SchedulingConditionType \<times> int option" where
  "message_check t = (st_state t, Some (st_change t))"

definition message_onExecute ::
  "nat \<Rightarrow> nat option \<Rightarrow> rx_view \<Rightarrow> int \<Rightarrow> StateTerm \<Rightarrow> StateTerm" where
  "message_onExecute min_size front_max r timestamp t =
     message_update_state min_size front_max r timestamp t"

subsection \<open>Several receivers\<close>

datatype SamplingMode = kSumOfAll | kPerReceiver

definition parse_sampling_mode :: "string \<Rightarrow> SamplingMode expected" where
  "parse_sampling_mode value =
     (if value = ''SumOfAll'' then Inr kSumOfAll
      else if value = ''PerReceiver'' then Inr kPerReceiver
      else Unexpected GXF_ARGUMENT_OUT_OF_RANGE)"

definition wrap_sampling_mode :: "SamplingMode \<Rightarrow> string expected" where
  "wrap_sampling_mode value =
     Inr (case value of kSumOfAll \<Rightarrow> ''SumOfAll'' | kPerReceiver \<Rightarrow> ''PerReceiver'')"

text \<open>The parameters of a sampling term; an optional parameter that is not set is None.\<close>

record SamplingParams =
  sp_mode :: SamplingMode
  sp_min_size :: "nat option"
  sp_min_sum :: "nat option"
  sp_min_sizes :: "nat list option"

definition multi_initialize ::
  "rx_view list \<Rightarrow> SamplingParams \<times> StateTerm \<Rightarrow> gxf_result_t \<times> SamplingParams \<times> StateTerm" where
  "multi_initialize receivers = (\<lambda>(p, _).
     let t = \<lparr>st_state = WAIT, st_change = 0\<rparr> in
     case sp_mode p of
       kSumOfAll \<Rightarrow>
         (case sp_min_size p of
            Some m \<Rightarrow> (GXF_SUCCESS, p\<lparr>sp_min_sum := Some m\<rparr>, t)
          | None \<Rightarrow> (if sp_min_sum p = None then (GXF_PARAMETER_NOT_INITIALIZED, p, t)
                     else (GXF_SUCCESS, p, t)))
     | kPerReceiver \<Rightarrow>
         (case sp_min_sizes p of
            None \<Rightarrow> (GXF_PARAMETER_NOT_INITIALIZED, p, t)
          | Some ms \<Rightarrow> (if length ms \<noteq> length receivers
                        then (GXF_PARAMETER_OUT_OF_RANGE, p, t) else (GXF_SUCCESS, p, t))))"

definition rx_count :: "rx_view \<Rightarrow> nat" where "rx_count r = u64 (rx_back r + rx_size r)"

definition sum_count :: "rx_view list \<Rightarrow> nat" where
  "sum_count receivers = foldl (\<lambda>count r. u64 (count + rx_count r)) 0 receivers"

text \<open>The loop over the receivers; None stands for the abort of .value() on an error.\<close>

fun per_receiver_ready :: "nat list \<Rightarrow> rx_view list \<Rightarrow> bool option" where
  "per_receiver_ready ms [] = Some True"
| "per_receiver_ready [] (r # rs) = None"
| "per_receiver_ready (m # ms) (r # rs) =
     (if m > rx_count r then Some False else per_receiver_ready ms rs)"

definition sampling_ready :: "SamplingParams \<Rightarrow> rx_view list \<Rightarrow> bool option" where
  "sampling_ready p receivers = (case sp_mode p of
       kSumOfAll \<Rightarrow> (case sp_min_sum p of None \<Rightarrow> None | Some m \<Rightarrow> Some (\<not> m > sum_count receivers))
     | kPerReceiver \<Rightarrow> (case sp_min_sizes p of None \<Rightarrow> None | Some ms \<Rightarrow> per_receiver_ready ms receivers))"

definition set_state :: "SchedulingConditionType \<Rightarrow> int \<Rightarrow> StateTerm \<Rightarrow> StateTerm" where
  "set_state s timestamp t =
     \<lparr>st_state = s, st_change = (if st_state t = s then st_change t else timestamp)\<rparr>"

definition multi_update_state ::
  "SamplingParams \<Rightarrow> rx_view list \<Rightarrow> int \<Rightarrow> StateTerm \<Rightarrow> StateTerm option" where
  "multi_update_state p receivers timestamp t =
     map_option (\<lambda>is_ready. set_state (if is_ready then READY else WAIT) timestamp t)
       (sampling_ready p receivers)"

definition multi_check :: "StateTerm \<Rightarrow> SchedulingConditionType \<times> int option" where
  "multi_check t = (st_state t, Some (st_change t))"

definition multi_onExecute ::
  "SamplingParams \<Rightarrow> rx_view list \<Rightarrow> int \<Rightarrow> StateTerm \<Rightarrow> StateTerm option" where
  "multi_onExecute p receivers timestamp t = multi_update_state p receivers timestamp t"

text \<open>The frequency throttler; its state is not initialised by initialize.\<close>

record Throttler =
  th_frequency :: int
  th_last_run :: "int option"
  th_term :: StateTerm

definition throttler_initialize ::
  "(string \<Rightarrow> int expected) \<Rightarrow> string \<Rightarrow> rx_view list \<Rightarrow> SamplingParams \<Rightarrow> Throttler \<Rightarrow>
   gxf_result_t \<times> Throttler" where
  "throttler_initialize parse text receivers p h = (case parse text of
       Inl e \<Rightarrow> (e, h)
     | Inr f \<Rightarrow> (let h1 = h\<lparr>th_frequency := f\<rparr> in
         case sp_mode p of
           kSumOfAll \<Rightarrow> (if sp_min_sum p = None then (GXF_PARAMETER_NOT_INITIALIZED, h1)
                        else (GXF_SUCCESS, h1))
         | kPerReceiver \<Rightarrow> (case sp_min_sizes p of
               None \<Rightarrow> (GXF_PARAMETER_NOT_INITIALIZED, h1)
             | Some ms \<Rightarrow> (if length ms \<noteq> length receivers then (GXF_PARAMETER_OUT_OF_RANGE, h1)
                           else (GXF_SUCCESS, h1)))))"

definition throttler_update_state ::
  "SamplingParams \<Rightarrow> rx_view list \<Rightarrow> int \<Rightarrow> Throttler \<Rightarrow> Throttler option" where
  "throttler_update_state p receivers timestamp h =
     (let target = (case th_last_run h of Some l \<Rightarrow> l + th_frequency h | None \<Rightarrow> th_frequency h)
      in if target \<le> timestamp
         then Some (h\<lparr>th_term := set_state READY timestamp (th_term h)\<rparr>)
         else map_option (\<lambda>is_ready.
                h\<lparr>th_term := set_state (if is_ready then READY else WAIT) timestamp (th_term h)\<rparr>)
                (sampling_ready p receivers))"

definition throttler_check :: "Throttler \<Rightarrow> SchedulingConditionType \<times> int option" where
  "throttler_check h = (st_state (th_term h), Some (st_change (th_term h)))"

definition throttler_onExecute ::
  "SamplingParams \<Rightarrow> rx_view list \<Rightarrow> int \<Rightarrow> Throttler \<Rightarrow> Throttler option" where
  "throttler_onExecute p receivers timestamp h =
     throttler_update_state p receivers timestamp (h\<lparr>th_last_run := Some timestamp\<rparr>)"

subsection \<open>Expiring messages\<close>

text \<open>A message is its list of Timestamp::acqtime values, or the error of findAllHeap; main and
  back are the two stages of the receiver.\<close>

definition expiring_check ::
  "int \<Rightarrow> int \<Rightarrow> int list expected list \<Rightarrow> int list expected list \<Rightarrow> int \<Rightarrow>
   (SchedulingConditionType \<times> int option) expected" where
  "expiring_check max_batch_size max_delay_ns front back timestamp =
     (let receiver_size = int (length front + length back) in
      if receiver_size \<le> 0 then Inr (WAIT, None)
      else if receiver_size \<ge> max_batch_size then Inr (READY, Some timestamp)
      else let msg_result = (if length front = 0
                             then (case back of m # _ \<Rightarrow> Some m | [] \<Rightarrow> None)
                             else (case front of m # _ \<Rightarrow> Some m | [] \<Rightarrow> None)) in
        case msg_result of
          None \<Rightarrow> Inr (WAIT, None)
        | Some (Inl e) \<Rightarrow> Inl e
        | Some (Inr []) \<Rightarrow> Unexpected GXF_FAILURE
        | Some (Inr (acqtime # _)) \<Rightarrow>
            (let expiring = acqtime + max_delay_ns
             in Inr (if expiring \<le> timestamp then READY else WAIT_TIME, Some expiring)))"

section \<open>Boolean, behaviour tree and asynchronous terms\<close>

definition boolean_check :: "bool \<Rightarrow> int \<Rightarrow> SchedulingConditionType \<times> int option" where
  "boolean_check enable_tick timestamp = (if enable_tick then READY else NEVER, Some timestamp)"

text \<open>enable_tick and disable_tick; the result of the parameter update is returned, the event
  notification only logs its failure.  The second component is the value of the parameter.\<close>

definition enable_tick :: "(bool \<Rightarrow> unit expected) \<Rightarrow> bool \<Rightarrow> unit expected \<times> bool" where
  "enable_tick set_param b = (set_param True, if ok (set_param True) then True else b)"

definition disable_tick :: "(bool \<Rightarrow> unit expected) \<Rightarrow> bool \<Rightarrow> unit expected \<times> bool" where
  "disable_tick set_param b = (set_param False, if ok (set_param False) then False else b)"

definition bt_initialize :: "bool \<Rightarrow> SchedulingConditionType" where
  "bt_initialize is_root = (if is_root then READY else WAIT)"

definition bt_check :: "int \<Rightarrow> SchedulingConditionType \<Rightarrow> SchedulingConditionType \<times> int option" where
  "bt_check timestamp c = (if c = NEVER \<or> c = READY then (c, Some timestamp) else (WAIT, None))"

datatype AsynchronousEventState =
  EVENT_STATE_READY | EVENT_STATE_WAIT | EVENT_WAITING | EVENT_DONE | EVENT_NEVER

definition asynchronous_check ::
  "int \<Rightarrow> AsynchronousEventState \<Rightarrow> SchedulingConditionType \<times> int option" where
  "asynchronous_check timestamp s =
     (if s = EVENT_NEVER then (NEVER, None)
      else if s = EVENT_WAITING then (WAIT_EVENT, None)
      else if s = EVENT_STATE_WAIT then (WAIT, None)
      else (READY, Some timestamp))"

text \<open>setEventState; the flag tells whether GxfEntityEventNotify is called.\<close>

definition setEventState :: "AsynchronousEventState \<Rightarrow> AsynchronousEventState \<times> bool" where
  "setEventState state = (state, state = EVENT_DONE)"

section \<open>Memory term\<close>

record MemoryTerm =
  mm_min_bytes :: nat
  mm_term :: StateTerm

definition memory_initialize ::
  "nat \<Rightarrow> nat option \<Rightarrow> nat option \<Rightarrow> MemoryTerm \<Rightarrow> gxf_result_t \<times> MemoryTerm" where
  "memory_initialize block_size min_bytes min_blocks t = (case (min_bytes, min_blocks) of
       (Some _, Some _) \<Rightarrow> (GXF_PARAMETER_ALREADY_REGISTERED, t)
     | (None, None) \<Rightarrow> (GXF_PARAMETER_MANDATORY_NOT_SET, t)
     | (_, Some n) \<Rightarrow> (GXF_SUCCESS, \<lparr>mm_min_bytes = u64 (block_size * n),
                                     mm_term = \<lparr>st_state = WAIT, st_change = 0\<rparr>\<rparr>)
     | (Some b, None) \<Rightarrow> (GXF_SUCCESS, \<lparr>mm_min_bytes = b,
                                        mm_term = \<lparr>st_state = WAIT, st_change = 0\<rparr>\<rparr>))"

definition memory_update_state :: "(nat \<Rightarrow> bool) \<Rightarrow> int \<Rightarrow> MemoryTerm \<Rightarrow> MemoryTerm" where
  "memory_update_state is_available timestamp t =
     t\<lparr>mm_term := update_ready (is_available (mm_min_bytes t)) timestamp (mm_term t)\<rparr>"

definition memory_check :: "MemoryTerm \<Rightarrow> SchedulingConditionType \<times> int option" where
  "memory_check t = (st_state (mm_term t), Some (st_change (mm_term t)))"

definition memory_onExecute :: "(nat \<Rightarrow> bool) \<Rightarrow> int \<Rightarrow> MemoryTerm \<Rightarrow> MemoryTerm" where
  "memory_onExecute is_available timestamp t = memory_update_state is_available timestamp t"

section \<open>SchedulingTerm::check\<close>

text \<open>update_state_abi followed by check_abi; target_timestamp starts at 0.\<close>

definition SchedulingTerm_check ::
  "(int \<Rightarrow> 's \<Rightarrow> gxf_result_t \<times> 's) \<Rightarrow>
   (int \<Rightarrow> 's \<Rightarrow> gxf_result_t \<times> SchedulingConditionType \<times> int option) \<Rightarrow>
   int \<Rightarrow> 's \<Rightarrow> SchedulingCondition expected \<times> 's" where
  "SchedulingTerm_check update_state_abi check_abi timestamp t =
     (let (result, t1) = update_state_abi timestamp t in
      if result \<noteq> GXF_SUCCESS then (Unexpected result, t1)
      else let (error, status, target) = check_abi timestamp t1
           in (ExpectedOrCodeVal error (cond status (case target of None \<Rightarrow> 0 | Some x \<Rightarrow> x)), t1))"

section \<open>Properties\<close>

text \<open>The conjunction of a list of conditions.\<close>

lemma and_all_rank:
  "and_rank (sc_type (and_combiner.combine_all a cs)) = Max (and_rank ` sc_type ` set (a # cs))"
proof (induction cs arbitrary: a)
  case (Cons c cs)
  show ?case by (cases "cs = []") (simp_all add: Cons.IH AndCombine_rank max.assoc)
qed simp

lemma and_all_READY:
  "sc_type (and_combiner.combine_all a cs) = READY \<longleftrightarrow> (\<forall>c \<in> set (a # cs). sc_type c = READY)"
proof (induction cs arbitrary: a)
  case (Cons c cs)
  have "sc_type (AndCombine a c) = READY \<longleftrightarrow> sc_type a = READY \<and> sc_type c = READY"
    by (cases "sc_type a"; cases "sc_type c") (simp_all add: AndCombine_def)
  then show ?case using Cons.IH by simp
qed simp

lemma and_all_WAIT_TIME:
  assumes "sc_type (and_combiner.combine_all a cs) = WAIT_TIME"
  shows "(\<exists>c \<in> set (a # cs). sc_type c = WAIT_TIME \<and>
            sc_target c = sc_target (and_combiner.combine_all a cs)) \<and>
         (\<forall>c \<in> set (a # cs). sc_type c = WAIT_TIME \<longrightarrow>
            sc_target c \<le> sc_target (and_combiner.combine_all a cs))"
  using assms
proof (induction cs arbitrary: a)
  case (Cons c cs)
  let ?r = "and_combiner.combine_all (AndCombine a c) cs"
  have r: "sc_type ?r = WAIT_TIME" using Cons.prems by simp
  have step: "sc_type (AndCombine a c) = WAIT_TIME \<longrightarrow>
       (sc_type a = WAIT_TIME \<and> sc_target a = sc_target (AndCombine a c)
        \<or> sc_type c = WAIT_TIME \<and> sc_target c = sc_target (AndCombine a c))"
    by (cases "sc_type a"; cases "sc_type c") (simp_all add: AndCombine_def max_def)
  have "and_rank (sc_type (AndCombine a c)) \<le> 1"
    using and_all_rank[of "AndCombine a c" cs] r by (simp add: and_rank_def)
  then have small: "and_rank (sc_type a) \<le> 1" "and_rank (sc_type c) \<le> 1"
    by (simp_all add: AndCombine_rank)
  have up: "(sc_type a = WAIT_TIME \<longrightarrow> sc_type (AndCombine a c) = WAIT_TIME
        \<and> sc_target a \<le> sc_target (AndCombine a c))
      \<and> (sc_type c = WAIT_TIME \<longrightarrow> sc_type (AndCombine a c) = WAIT_TIME
        \<and> sc_target c \<le> sc_target (AndCombine a c))"
    using small by (cases "sc_type a"; cases "sc_type c") (simp_all add: AndCombine_def and_rank_def)
  have IH: "\<exists>c' \<in> set (AndCombine a c # cs). sc_type c' = WAIT_TIME \<and> sc_target c' = sc_target ?r"
    "\<forall>c' \<in> set (AndCombine a c # cs). sc_type c' = WAIT_TIME \<longrightarrow> sc_target c' \<le> sc_target ?r"
    using Cons.IH[OF r] by auto
  show ?case
  proof
    show "\<exists>c' \<in> set (a # c # cs). sc_type c' = WAIT_TIME \<and>
        sc_target c' = sc_target (and_combiner.combine_all a (c # cs))"
      using IH(1) step by auto
    show "\<forall>c' \<in> set (a # c # cs). sc_type c' = WAIT_TIME \<longrightarrow>
        sc_target c' \<le> sc_target (and_combiner.combine_all a (c # cs))"
      using IH(2) up by fastforce
  qed
qed simp

lemma update_ready_set_state:
  "st_state t \<in> {READY, WAIT} \<Longrightarrow> update_ready b timestamp t = set_state (if b then READY else WAIT) timestamp t"
  by (cases t) (auto simp: update_ready_def set_state_def)

text \<open>C8: count term: after initialize with a count of N, the condition becomes NEVER exactly
  when the entity has executed N times, whatever the times of the executions; before that it is
  READY.  A count of 0 gives NEVER at the first check, before any execution.\<close>

theorem count_executes_N_times:
  assumes "ct_count t = int N" "0 < N \<or> ts = []"
  shows "fst (count_check now (count_update_state now
           (fold count_onExecute ts (count_initialize t)))) = (if length ts < N then READY else NEVER)"
proof -
  have "ct_remaining (fold count_onExecute us s) = ct_remaining s - int (length us) \<and>
      ct_state (fold count_onExecute us s) =
        (if 0 < ct_remaining s \<and> ct_remaining s \<le> int (length us) then NEVER else ct_state s)" for us s
    by (induction us arbitrary: s) (auto simp: count_onExecute_def Let_def)
  from this[of ts "count_initialize t"] show ?thesis
    using assms by (cases "N = 0"; cases "ts = []")
      (auto simp: count_check_def count_update_state_def count_initialize_def split: if_splits)
qed

lemma count_executes_N_times_witness:
  "fst (count_check 9 (count_update_state 9 (fold count_onExecute [3, 5]
     (count_initialize \<lparr>ct_count = 2, ct_remaining = 0, ct_state = NEVER, ct_last_run = 0\<rparr>)))) = NEVER"
  using count_executes_N_times[of "\<lparr>ct_count = 2, ct_remaining = 0, ct_state = NEVER, ct_last_run = 0\<rparr>" 2 "[3, 5]" 9]
  by simp

subsection \<open>Periodic runs\<close>

lemma int_div_less: "0 < (p :: int) \<Longrightarrow> x < k * p \<Longrightarrow> x div p < k"
  by (metis div_mult_mod_eq mult_right_mono not_less order.trans pos_mod_sign le_add_same_cancel1 less_imp_le)

lemma int_le_div: "0 < (p :: int) \<Longrightarrow> k * p \<le> x \<Longrightarrow> k \<le> x div p"
  by (metis nonzero_mult_div_cancel_right zdiv_mono1 less_irrefl)

text \<open>A run is a list of execution times, each permitted by the term's check.\<close>

fun periodic_run :: "PeriodicTerm \<Rightarrow> int list \<Rightarrow> bool" where
  "periodic_run t [] = True"
| "periodic_run t (now # ts) =
     (fst (periodic_check now t) = READY \<and> periodic_run (periodic_onExecute now t) ts)"

lemma periodic_onExecute_policy [simp]:
  "pt_policy (periodic_onExecute now t) = pt_policy t"
  "recess_period_ns (periodic_onExecute now t) = recess_period_ns t"
  by (cases "next_target t"; simp add: periodic_onExecute_def)+

text \<open>What one execution does to the target.\<close>

lemma periodic_onExecute_target:
  assumes "next_target t = Some g" "g < now" "0 < recess_period_ns t"
  obtains g' where "next_target (periodic_onExecute now t) = Some g'"
    and "g + recess_period_ns t \<le> g'"
    and "pt_policy t = kCatchUpMissedTicks \<Longrightarrow> g' = g + recess_period_ns t"
    and "pt_policy t = kMinTimeBetweenTicks \<Longrightarrow> g' = now + recess_period_ns t"
    and "pt_policy t = kNoCatchUpMissedTicks \<Longrightarrow>
           now < g' \<and> g' \<le> now + recess_period_ns t \<and> recess_period_ns t dvd g' - g"
proof -
  let ?p = "recess_period_ns t"
  define q where "q = (now - g) div ?p"
  have sd: "(now - g) sdiv ?p = q"
    using assms by (simp add: q_def signed_divide_int_def)
  have q0: "0 \<le> q" using assms by (simp add: q_def pos_imp_zdiv_nonneg_iff)
  have dm: "q * ?p + (now - g) mod ?p = now - g" by (simp add: q_def)
  have m: "0 \<le> (now - g) mod ?p" "(now - g) mod ?p < ?p" using assms(3) by simp_all
  have big: "?p \<le> (q + 1) * ?p" using q0 assms(3) by (simp add: distrib_right)
  show ?thesis
  proof (cases "pt_policy t")
    case kCatchUpMissedTicks
    then show ?thesis using assms by (intro that[of "g + ?p"]) (simp_all add: periodic_onExecute_def)
  next
    case kMinTimeBetweenTicks
    then show ?thesis using assms by (intro that[of "now + ?p"]) (simp_all add: periodic_onExecute_def)
  next
    case kNoCatchUpMissedTicks
    have e: "g + (q + 1) * ?p = now + ?p - (now - g) mod ?p"
      using dm by (simp add: distrib_right)
    show ?thesis
    proof (rule that[of "g + (q + 1) * ?p"])
      show "g + ?p \<le> g + (q + 1) * ?p" using big by simp
      show "now < g + (q + 1) * ?p \<and> g + (q + 1) * ?p \<le> now + ?p \<and> ?p dvd g + (q + 1) * ?p - g"
        if "pt_policy t = kNoCatchUpMissedTicks"
        using m e by (intro conjI) (linarith, linarith, unfold add_diff_cancel_left', rule dvd_triv_right)
    qed (simp_all add: periodic_onExecute_def sd kNoCatchUpMissedTicks assms(1))
  qed
qed

lemma periodic_run_targets:
  assumes "periodic_run t ts" "next_target t = Some g" "0 < recess_period_ns t" "i < length ts"
  shows "g + int i * recess_period_ns t < ts ! i"
  using assms
proof (induction ts arbitrary: t g i)
  case (Cons now ts)
  have now: "g < now" using Cons.prems(1,2) by (simp add: periodic_check_def split: if_splits)
  obtain g' where g': "next_target (periodic_onExecute now t) = Some g'" "g + recess_period_ns t \<le> g'"
    using periodic_onExecute_target[OF Cons.prems(2) now Cons.prems(3)] by metis
  show ?case
  proof (cases i)
    case (Suc j)
    have "g' + int j * recess_period_ns t < ts ! j"
      using Cons.IH[OF _ g'(1), of j] Cons.prems Suc by simp
    then show ?thesis using g'(2) Suc by (simp add: algebra_simps)
  qed (use now in simp)
qed simp

lemma periodic_min_time:
  assumes "periodic_run t ts" "next_target t = Some g" "0 < recess_period_ns t"
    "pt_policy t = kMinTimeBetweenTicks"
  shows "sorted_wrt (\<lambda>a b. a + recess_period_ns t < b) ((g - recess_period_ns t) # ts)"
  using assms
proof (induction ts arbitrary: t g)
  case (Cons now ts)
  have now: "g < now" using Cons.prems(1,2) by (simp add: periodic_check_def split: if_splits)
  have n: "next_target (periodic_onExecute now t) = Some (now + recess_period_ns t)"
    using Cons.prems by (simp add: periodic_onExecute_def)
  have "sorted_wrt (\<lambda>a b. a + recess_period_ns t < b) (now # ts)"
    using Cons.IH[OF _ n] Cons.prems by simp
  then show ?case using now Cons.prems(3) by fastforce
qed simp

lemma periodic_one_per_period:
  assumes "periodic_run t ts" "next_target t = Some g" "0 < recess_period_ns t"
    "pt_policy t = kNoCatchUpMissedTicks" "recess_period_ns t dvd g - t0"
  shows "sorted_wrt (\<lambda>a b. (a - t0 - 1) div recess_period_ns t < (b - t0 - 1) div recess_period_ns t) ts
    \<and> (\<forall>b \<in> set ts. g \<le> b - 1)"
  using assms
proof (induction ts arbitrary: t g)
  case (Cons now ts)
  let ?p = "recess_period_ns t"
  have now: "g < now" using Cons.prems(1,2) by (simp add: periodic_check_def split: if_splits)
  obtain g' where g': "next_target (periodic_onExecute now t) = Some g'" "g + ?p \<le> g'"
    "now < g'" "?p dvd g' - g"
    using periodic_onExecute_target[OF Cons.prems(2) now Cons.prems(3)] Cons.prems(4) by metis
  have d: "?p dvd g' - t0" using g'(4) Cons.prems(5) dvd_add[of ?p "g' - g" "g - t0"] by simp
  have IH: "sorted_wrt (\<lambda>a b. (a - t0 - 1) div ?p < (b - t0 - 1) div ?p) ts" "\<forall>b \<in> set ts. g' \<le> b - 1"
    using Cons.IH[OF _ g'(1)] Cons.prems d by simp_all
  have "(now - t0 - 1) div ?p < (b - t0 - 1) div ?p" if "b \<in> set ts" for b
  proof -
    from d obtain k where k: "g' - t0 = ?p * k" by (rule dvdE)
    have "now - t0 - 1 < k * ?p" using g'(3) k by (simp add: mult.commute)
    then have 1: "(now - t0 - 1) div ?p < k" using Cons.prems(3) by (simp add: int_div_less)
    have "k * ?p \<le> b - t0 - 1" using IH(2) that k by (auto simp: mult.commute)
    then have "k \<le> (b - t0 - 1) div ?p" using Cons.prems(3) by (simp add: int_le_div)
    with 1 show ?thesis by simp
  qed
  then show ?case using IH now g'(2) Cons.prems(3) by fastforce
qed simp

text \<open>periodic term.  Take any run from initialize whose executions are each permitted by the
  check, with a positive period.  Under every policy the i-th execution is more than i periods after
  the first (no drift ahead of the ideal rhythm).  Under MinTimeBetweenTicks any two executions are more than a period apart;
  under NoCatchUpMissedTicks there is at most one execution in each period counted from the first.\<close>

theorem periodic_policies:
  assumes "next_target t = None" "0 < p" "recess_period_ns t = p" "periodic_run t (t0 # ts)"
  shows "(\<forall>i < length ts. t0 + (int i + 1) * p < ts ! i) \<and>
    (pt_policy t = kMinTimeBetweenTicks \<longrightarrow> sorted_wrt (\<lambda>a b. a + p < b) (t0 # ts)) \<and>
    (pt_policy t = kNoCatchUpMissedTicks \<longrightarrow>
       sorted_wrt (\<lambda>a b. (a - t0 - 1) div p < (b - t0 - 1) div p) (t0 # ts))"
proof -
  let ?t = "periodic_onExecute t0 t"
  have n: "next_target ?t = Some (t0 + p)" using assms by (simp add: periodic_onExecute_def)
  have r: "periodic_run ?t ts" using assms(4) by simp
  have a: "t0 + (int i + 1) * p < ts ! i" if "i < length ts" for i
    using periodic_run_targets[OF r n _ that] assms(2,3) by (simp add: algebra_simps)
  have b: "sorted_wrt (\<lambda>a b. a + p < b) (t0 # ts)" if "pt_policy t = kMinTimeBetweenTicks"
    using periodic_min_time[OF r n] that assms(2,3) by simp
  have c: "sorted_wrt (\<lambda>a b. (a - t0 - 1) div p < (b - t0 - 1) div p) (t0 # ts)"
    if pol: "pt_policy t = kNoCatchUpMissedTicks"
  proof -
    have *: "sorted_wrt (\<lambda>a b. (a - t0 - 1) div p < (b - t0 - 1) div p) ts \<and> (\<forall>b \<in> set ts. t0 + p \<le> b - 1)"
      using periodic_one_per_period[OF r n, of t0] pol assms(2,3) by simp
    have "- 1 div p = (-1 :: int)" using assms(2) by (simp add: div_eq_minus1)
    moreover have "0 \<le> (b - t0 - 1) div p" if "b \<in> set ts" for b
      using * that assms(2) by (force simp: pos_imp_zdiv_nonneg_iff)
    ultimately show ?thesis using * by force
  qed
  show ?thesis using a b c by simp
qed

lemma periodic_policies_witness:
  "periodic_run \<lparr>pt_policy = kNoCatchUpMissedTicks, recess_period_ns = 10, next_target = None\<rparr> [0, 25, 31]
   \<and> sorted_wrt (\<lambda>a b. (a - 0 - 1) div 10 < (b - 0 - 1) div 10) [0, 25, 31 :: int]"
  using periodic_policies[of "\<lparr>pt_policy = kNoCatchUpMissedTicks, recess_period_ns = 10, next_target = None\<rparr>" 10 0 "[25, 31]"]
  by (simp add: periodic_check_def periodic_onExecute_def signed_divide_int_def)

subsection \<open>Downstream receptive term\<close>

lemma downstream_ready_iff:
  "downstream_ready n rs \<longleftrightarrow>
     (\<forall>r \<in> set rs. u64 (rx_back r + n) \<le> size_sub (rx_capacity r) (rx_size r))"
proof -
  have "foldl (\<lambda>b r. b \<and> P r) b0 rs \<longleftrightarrow> b0 \<and> (\<forall>r \<in> set rs. P r)" for P :: "rx_view \<Rightarrow> bool" and b0
    by (induction rs arbitrary: b0) auto
  from this[of "\<lambda>r. u64 (rx_back r + n) \<le> size_sub (rx_capacity r) (rx_size r)" True]
  show ?thesis by (simp add: downstream_ready_def)
qed

text \<open>downstream receptive term, on receivers whose front stage holds at most the capacity and
  whose sizes do not wrap: after update_state_abi the check reports READY exactly if every receiver
  has room for min_size more messages besides the two stages, and WAIT otherwise.\<close>

theorem downstream_ready_means_room:
  assumes "rs \<noteq> []" "st_state t \<in> {READY, WAIT}"
    and "\<forall>r \<in> set rs. rx_size r \<le> rx_capacity r \<and> rx_capacity r < 2 ^ 64 \<and> rx_back r + n < 2 ^ 64"
  shows "fst (downstream_check rs (downstream_update_state n rs now t)) =
    (if \<forall>r \<in> set rs. rx_size r + rx_back r + n \<le> rx_capacity r then READY else WAIT)"
proof -
  have "u64 (rx_back r + n) \<le> size_sub (rx_capacity r) (rx_size r) \<longleftrightarrow>
      rx_size r + rx_back r + n \<le> rx_capacity r" if "r \<in> set rs" for r
    using assms(3) that by (simp add: u64_def size_sub_ge) (metis add.commute add.left_commute le_diff_conv2)
  then have "downstream_ready n rs \<longleftrightarrow> (\<forall>r \<in> set rs. rx_size r + rx_back r + n \<le> rx_capacity r)"
    by (simp add: downstream_ready_iff)
  then show ?thesis using assms(1,2)
    by (auto simp: downstream_check_def downstream_update_state_def update_ready_set_state set_state_def)
qed

lemma downstream_ready_means_room_witness:
  "fst (downstream_check [\<lparr>rx_capacity = 2, rx_size = 1, rx_back = 1\<rparr>]
     (downstream_update_state 1 [\<lparr>rx_capacity = 2, rx_size = 1, rx_back = 1\<rparr>] 7 downstream_initialize)) = WAIT"
  using downstream_ready_means_room[of "[\<lparr>rx_capacity = 2, rx_size = 1, rx_back = 1\<rparr>]" downstream_initialize 1 7]
  by (simp add: downstream_initialize_def)

text \<open>A receiver whose front stage holds more than its capacity wraps to a huge room.\<close>

lemma downstream_overfull_ready:
  assumes "rx_capacity r < rx_size r" "rx_size r < 2 ^ 63" "rx_back r + n < 2 ^ 63"
  shows "downstream_ready n [r]"
  using assms by (simp add: downstream_ready_iff u64_def size_sub_lt)

subsection \<open>Message terms\<close>

text \<open>multi message term in mode SumOfAll: a min_size that is set replaces min_sum at initialize.
  The parameter min_size is registered with the default 1, so it is set unless the parameter storage
  was bypassed, and the configured min_sum has no effect.\<close>

theorem multi_min_sum_ignored:
  assumes "sp_mode p = kSumOfAll" "sp_min_size p = Some 1"
  shows "\<exists>p' t'. multi_initialize rs (p, t) = (GXF_SUCCESS, p', t') \<and>
    multi_update_state p' rs now t' = Some (set_state (if 1 \<le> sum_count rs then READY else WAIT) now t')"
  using assms by (auto simp: multi_initialize_def multi_update_state_def sampling_ready_def)

lemma multi_min_sum_ignored_witness:
  "\<exists>p' t'. multi_initialize [\<lparr>rx_capacity = 9, rx_size = 1, rx_back = 0\<rparr>]
       (\<lparr>sp_mode = kSumOfAll, sp_min_size = Some 1, sp_min_sum = Some 5, sp_min_sizes = None\<rparr>, downstream_initialize)
     = (GXF_SUCCESS, p', t') \<and>
    map_option st_state (multi_update_state p' [\<lparr>rx_capacity = 9, rx_size = 1, rx_back = 0\<rparr>] 7 t') = Some READY"
  using multi_min_sum_ignored[of "\<lparr>sp_mode = kSumOfAll, sp_min_size = Some 1, sp_min_sum = Some 5, sp_min_sizes = None\<rparr>"
      "[\<lparr>rx_capacity = 9, rx_size = 1, rx_back = 0\<rparr>]" downstream_initialize 7]
  by (auto simp: sum_count_def rx_count_def u64_def set_state_def)

text \<open>After a successful initialize the receivers are never indexed out of range.\<close>

lemma per_receiver_ready_total: "length ms = length rs \<Longrightarrow> per_receiver_ready ms rs =
   Some (\<forall>i < length rs. ms ! i \<le> rx_count (rs ! i))"
proof (induction ms rs rule: per_receiver_ready.induct)
  case (3 m ms r rs)
  then show ?case by (auto simp: All_less_Suc2 not_less)
qed simp_all

lemma multi_update_total:
  assumes "multi_initialize rs (p, t) = (GXF_SUCCESS, p', t')"
  shows "multi_update_state p' rs now t'' \<noteq> None"
  using assms
  by (cases "sp_mode p"; cases "sp_min_size p"; cases "sp_min_sizes p")
    (auto simp: multi_initialize_def multi_update_state_def sampling_ready_def Let_def
       per_receiver_ready_total split: if_splits)

text \<open>expiring message term, on messages that carry a timestamp: with fewer messages than the
  batch, the condition is WAIT without messages, READY once the oldest message is max_delay_ns old
  and WAIT_TIME with that deadline as the target before; with a full batch it is READY at once.
  So a message never waits past its deadline for lack of a batch.\<close>

theorem expiring_deadline:
  assumes "front @ back = Inr (a # as) # ms"
  shows "expiring_check n d front back now =
    Inr (if int (length (front @ back)) \<ge> n then (READY, Some now)
         else if a + d \<le> now then (READY, Some (a + d)) else (WAIT_TIME, Some (a + d)))"
proof -
  have l: "length front + length back = Suc (length ms)"
    using arg_cong[OF assms, of length] by simp
  have "(if length front = 0 then case back of m # _ \<Rightarrow> Some m | [] \<Rightarrow> None
         else case front of m # _ \<Rightarrow> Some m | [] \<Rightarrow> None) = Some (Inr (a # as))"
    using assms by (cases front) auto
  then show ?thesis using l by (simp add: expiring_check_def Let_def)
qed

lemma expiring_deadline_witness:
  "expiring_check 3 10 [] [Inr [5]] 12 = Inr (WAIT_TIME, Some 15)"
  using expiring_deadline[of "[]" "[Inr [5]]" 5 "[]" "[]" 3 10 12] by simp

subsection \<open>Target time term\<close>

text \<open>Between two executions the locked target does not change, and a request earlier than it fails
  and changes nothing.\<close>

lemma target_lock_stable:
  "tt_locked t = Some l \<Longrightarrow> tt_locked (snd (target_check now t)) = Some l"
  "tt_locked t = Some l \<Longrightarrow> tt_locked (snd (setNextTargetTime g t)) = Some l"
  "tt_locked t = Some l \<Longrightarrow> g < l \<Longrightarrow> setNextTargetTime g t = (GXF_FAILURE, t)"
  by (auto simp: target_check_def setNextTargetTime_def Let_def)

text \<open>target time term: after an execution, the condition is WAIT until a target time is
  requested; the last of the requests accepted before the next check is locked, and from then on the
  condition is READY exactly from the locked time on.\<close>

theorem target_time_locked:
  assumes "gs \<noteq> []"
  shows "fst (target_check now (target_onExecute c (t\<lparr>tt_target := None\<rparr>))) = (WAIT, None) \<and>
    fst (target_check now (snd (target_check now0
      (fold (\<lambda>g s. snd (setNextTargetTime g s)) gs (target_onExecute c t)))))
    = (if now < last gs then WAIT_TIME else READY, Some (last gs))"
proof -
  have "fold (\<lambda>g s. snd (setNextTargetTime g s)) gs s = s\<lparr>tt_target := Some (last gs)\<rparr>"
    if "tt_locked s = None" for s
    using assms that
  proof (induction gs arbitrary: s)
    case (Cons g gs)
    then show ?case by (cases "gs = []") (simp_all add: setNextTargetTime_def)
  qed simp
  from this[of "target_onExecute c t"] show ?thesis
    by (simp add: target_check_def target_onExecute_def Let_def)
qed

lemma target_time_locked_witness:
  "fst (target_check 8 (snd (target_check 3 (fold (\<lambda>g s. snd (setNextTargetTime g s)) [5, 9]
     (target_onExecute 2 \<lparr>tt_last = 0, tt_target = None, tt_locked = Some 4\<rparr>)))))
   = (WAIT_TIME, Some 9)"
  using target_time_locked[of "[5, 9]" 8 2 "\<lparr>tt_last = 0, tt_target = None, tt_locked = Some 4\<rparr>" 3] by simp

subsection \<open>Parsers\<close>

lemma policy_round_trip:
  "wrap_policy p = Inr v \<Longrightarrow> parse_policy v = Inr p"
  "parse_policy v = Inr p \<Longrightarrow> wrap_policy p = Inr v"
  by (auto simp: wrap_policy_def parse_policy_def split: PeriodicSchedulingPolicy.splits if_splits)

lemma sampling_mode_round_trip:
  "wrap_sampling_mode m = Inr v \<Longrightarrow> parse_sampling_mode v = Inr m"
  "parse_sampling_mode v = Inr m \<Longrightarrow> wrap_sampling_mode m = Inr v"
  by (auto simp: wrap_sampling_mode_def parse_sampling_mode_def split: SamplingMode.splits if_splits)

end
