(* ===== verification/Entity_Executor.thy ===== *)
theory Entity_Executor
  imports Prelude Scheduling_Terms "HOL-Library.Sublist"
begin

text \<open>
  gxf/std/entity_executor.cpp and codelet.cpp: the lifecycle of an entity and its execution.
  Codelets, scheduling terms, combiners, routers, controllers, statistics and monitors are
  components of other classes, reached through virtual calls; they are the fields of 'w Ext, which
  transform an arbitrary state 'w of the rest of the system.  The NVTX profiling calls are left out.
\<close>

section \<open>Status and codelet times\<close>

datatype gxf_entity_status_t =
  GXF_ENTITY_STATUS_NOT_STARTED | GXF_ENTITY_STATUS_START_PENDING | GXF_ENTITY_STATUS_STARTED
  | GXF_ENTITY_STATUS_TICK_PENDING | GXF_ENTITY_STATUS_TICKING | GXF_ENTITY_STATUS_IDLE
  | GXF_ENTITY_STATUS_STOP_PENDING

definition GxfEntityStatusStr :: "gxf_entity_status_t \<Rightarrow> string" where
  "GxfEntityStatusStr status = (case status of
       GXF_ENTITY_STATUS_NOT_STARTED \<Rightarrow> ''NotStarted''
     | GXF_ENTITY_STATUS_START_PENDING \<Rightarrow> ''StartPending''
     | GXF_ENTITY_STATUS_STARTED \<Rightarrow> ''Started''
     | GXF_ENTITY_STATUS_TICK_PENDING \<Rightarrow> ''TickPending''
     | GXF_ENTITY_STATUS_TICKING \<Rightarrow> ''Ticking''
     | GXF_ENTITY_STATUS_IDLE \<Rightarrow> ''Idle''
     | GXF_ENTITY_STATUS_STOP_PENDING \<Rightarrow> ''StopPending'')"

datatype entity_state_t =
  GXF_BEHAVIOR_INIT | GXF_BEHAVIOR_SUCCESS | GXF_BEHAVIOR_RUNNING | GXF_BEHAVIOR_FAILURE
  | GXF_BEHAVIOR_UNKNOWN

datatype gxf_execution_status_t =
  GXF_EXECUTE_SUCCESS | GXF_EXECUTE_FAILURE_REPEAT | GXF_EXECUTE_FAILURE_DEACTIVATE
  | GXF_EXECUTE_FAILURE

record gxf_controller_status_t =
  cs_behavior_status :: entity_state_t
  cs_exec_status :: gxf_execution_status_t

text \<open>The integer fields of Codelet; the two floating point fields are derived from them.\<close>

record CodeletTime =
  execution_count :: int
  previous_execution_timestamp :: int
  execution_timestamp :: int

definition beforeStart :: "int \<Rightarrow> CodeletTime \<Rightarrow> CodeletTime" where
  "beforeStart timestamp c = c\<lparr>execution_count := 0,
     previous_execution_timestamp := timestamp, execution_timestamp := timestamp\<rparr>"

definition beforeTick :: "int \<Rightarrow> CodeletTime \<Rightarrow> CodeletTime" where
  "beforeTick timestamp c = c\<lparr>execution_count := execution_count c + 1,
     previous_execution_timestamp := execution_timestamp c, execution_timestamp := timestamp\<rparr>"

definition beforeStop :: "CodeletTime \<Rightarrow> CodeletTime" where
  "beforeStop c = c\<lparr>execution_timestamp := previous_execution_timestamp c\<rparr>"

section \<open>The surroundings of the executor\<close>

datatype call =
    CallStart gxf_uid_t CodeletTime
  | CallTick gxf_uid_t CodeletTime
  | CallStop gxf_uid_t CodeletTime
  | CallOnExecute gxf_uid_t int
  | CallSyncInbox gxf_uid_t
  | CallSyncOutbox gxf_uid_t

datatype stat_event =
    PreJob gxf_uid_t
  | PostJob gxf_uid_t int
  | PostTermCheck gxf_uid_t gxf_uid_t string
  | OnLifecycleChange gxf_uid_t string
  | PreTick gxf_uid_t gxf_uid_t
  | PostTick gxf_uid_t gxf_uid_t

datatype kind = DownstreamReceptive | Term | Combiner | Codelet

record 'w Ext =
  x_call :: "call \<Rightarrow> 'w \<Rightarrow> gxf_result_t \<times> 'w"
  x_check :: "gxf_uid_t \<Rightarrow> int \<Rightarrow> 'w \<Rightarrow> SchedulingCondition expected \<times> 'w"
  x_combine :: "gxf_uid_t \<Rightarrow> SchedulingCondition \<Rightarrow> SchedulingCondition \<Rightarrow> SchedulingCondition"
  x_term_list :: "gxf_uid_t \<Rightarrow> gxf_uid_t list"
  x_uninitialised :: SchedulingCondition
  x_find_controller :: "gxf_uid_t \<Rightarrow> 'w \<Rightarrow> gxf_uid_t expected option"
  x_control :: "gxf_uid_t \<Rightarrow> gxf_uid_t \<Rightarrow> unit expected \<Rightarrow> 'w \<Rightarrow> gxf_controller_status_t \<times> 'w"
  x_stat :: "gxf_uid_t \<Rightarrow> stat_event \<Rightarrow> 'w \<Rightarrow> 'w"
  x_codelet_stat :: "gxf_uid_t \<Rightarrow> bool"
  x_monitor :: "gxf_uid_t \<Rightarrow> gxf_uid_t \<Rightarrow> int \<Rightarrow> gxf_result_t \<Rightarrow> 'w \<Rightarrow> 'w"
  x_shared :: "gxf_uid_t \<Rightarrow> 'w \<Rightarrow> unit expected"
  x_find_all :: "kind \<Rightarrow> gxf_uid_t \<Rightarrow> 'w \<Rightarrow> gxf_uid_t list expected"
  x_receivers :: "gxf_uid_t \<Rightarrow> 'w \<Rightarrow> gxf_uid_t list expected"
  x_set_receivers :: "gxf_uid_t \<Rightarrow> gxf_uid_t list \<Rightarrow> 'w \<Rightarrow> 'w"

section \<open>EntityItem\<close>

record EntityItem =
  ei_entity :: gxf_uid_t
  behavior_status :: entity_state_t
  controller :: "gxf_uid_t option"
  downstream_receptive_terms :: "gxf_uid_t list"
  terms :: "gxf_uid_t list"
  codelets :: "gxf_uid_t list"
  combiners :: "gxf_uid_t list"
  last_execution_timestamp :: int
  status :: gxf_entity_status_t
  codelet_time :: "gxf_uid_t \<Rightarrow> CodeletTime"

text \<open>Every statistics component gets the event.\<close>

definition each_stat :: "'w Ext \<Rightarrow> gxf_uid_t list \<Rightarrow> stat_event \<Rightarrow> 'w \<Rightarrow> 'w" where
  "each_stat x ss ev w = fold (\<lambda>s. x_stat x s ev) ss w"

definition setEntityStatus ::
  "'w Ext \<Rightarrow> gxf_uid_t list \<Rightarrow> gxf_entity_status_t \<Rightarrow> EntityItem \<times> 'w \<Rightarrow> EntityItem \<times> 'w" where
  "setEntityStatus x ss next_state = (\<lambda>(i, w).
     (i\<lparr>status := next_state\<rparr>,
      each_stat x ss (OnLifecycleChange (ei_entity i) (GxfEntityStatusStr next_state)) w))"

definition update_times ::
  "(CodeletTime \<Rightarrow> CodeletTime) \<Rightarrow> EntityItem \<Rightarrow> EntityItem" where
  "update_times f i =
     i\<lparr>codelet_time := fold (\<lambda>c t. t(c := f (t c))) (codelets i) (codelet_time i)\<rparr>"

definition startCodelet :: "'w Ext \<Rightarrow> EntityItem \<Rightarrow> gxf_uid_t \<Rightarrow> 'w \<Rightarrow> unit expected \<times> 'w" where
  "startCodelet x i c w = (let (r, w1) = x_call x (CallStart c (codelet_time i c)) w in (ExpectedOrCode r, w1))"

definition stopCodelet :: "'w Ext \<Rightarrow> EntityItem \<Rightarrow> gxf_uid_t \<Rightarrow> 'w \<Rightarrow> unit expected \<times> 'w" where
  "stopCodelet x i c w = (let (r, w1) = x_call x (CallStop c (codelet_time i c)) w in (ExpectedOrCode r, w1))"

definition tickCodelet ::
  "'w Ext \<Rightarrow> gxf_uid_t list \<Rightarrow> EntityItem \<Rightarrow> gxf_uid_t \<Rightarrow> 'w \<Rightarrow> unit expected \<times> 'w" where
  "tickCodelet x ss i c w =
     (if ss \<noteq> [] then
        let w1 = each_stat x (filter (x_codelet_stat x) ss) (PreTick (ei_entity i) c) w;
            (code, w2) = x_call x (CallTick c (codelet_time i c)) w1
        in if code \<noteq> GXF_SUCCESS then (ExpectedOrCode code, w2)
           else (Success, each_stat x (filter (x_codelet_stat x) ss) (PostTick (ei_entity i) c) w2)
      else let (r, w1) = x_call x (CallTick c (codelet_time i c)) w in (ExpectedOrCode r, w1))"

definition item_start ::
  "'w Ext \<Rightarrow> gxf_uid_t list \<Rightarrow> int \<Rightarrow> EntityItem \<times> 'w \<Rightarrow> unit expected \<times> EntityItem \<times> 'w" where
  "item_start x ss timestamp = (\<lambda>(i, w).
     if status i \<noteq> GXF_ENTITY_STATUS_NOT_STARTED
     then (Unexpected GXF_INVALID_LIFECYCLE_STAGE, i, w)
     else let (i1, w1) = setEntityStatus x ss GXF_ENTITY_STATUS_START_PENDING (i, w);
              i2 = update_times (beforeStart timestamp) i1
          in case each_until_error (startCodelet x i2) (codelets i2) w1 of
               (Inl e, w2) \<Rightarrow> (Inl e, i2, w2)
             | (Inr _, w2) \<Rightarrow>
                 (let (i3, w3) = setEntityStatus x ss GXF_ENTITY_STATUS_STARTED (i2, w2)
                  in (Success, i3\<lparr>last_execution_timestamp := timestamp\<rparr>, w3)))"

definition onExecute :: "'w Ext \<Rightarrow> int \<Rightarrow> gxf_uid_t \<Rightarrow> 'w \<Rightarrow> unit expected \<times> 'w" where
  "onExecute x timestamp t w = (let (r, w1) = x_call x (CallOnExecute t timestamp) w in (ExpectedOrCode r, w1))"

definition router_call :: "'w Ext \<Rightarrow> call \<Rightarrow> 'w \<Rightarrow> unit expected \<times> 'w" where
  "router_call x c w = (let (r, w1) = x_call x c w in (ExpectedOrCode r, w1))"

definition item_tick ::
  "'w Ext \<Rightarrow> gxf_uid_t list \<Rightarrow> int \<Rightarrow> EntityItem \<times> 'w \<Rightarrow> unit expected \<times> EntityItem \<times> 'w" where
  "item_tick x ss timestamp = (\<lambda>(i, w).
     if status i \<noteq> GXF_ENTITY_STATUS_TICK_PENDING
     then (Unexpected GXF_INVALID_LIFECYCLE_STAGE, i, w)
     else if timestamp < last_execution_timestamp i then (Unexpected GXF_FAILURE, i, w)
     else case router_call x (CallSyncInbox (ei_entity i)) w of
       (Inl e, w1) \<Rightarrow> (Inl e, i, w1)
     | (Inr _, w1) \<Rightarrow>
         (let i1 = update_times (beforeTick timestamp) i;
              (i2, w2) = setEntityStatus x ss GXF_ENTITY_STATUS_TICKING (i1, w1)
          in case each_until_error (tickCodelet x ss i2) (codelets i2) w2 of
               (Inl e, w3) \<Rightarrow> (ForwardError e, i2, w3)
             | (Inr _, w3) \<Rightarrow>
                 (case each_until_error (onExecute x timestamp) (terms i2) w3 of
                    (Inl e, w4) \<Rightarrow> (Inl e, i2, w4)
                  | (Inr _, w4) \<Rightarrow>
                      (case router_call x (CallSyncOutbox (ei_entity i2)) w4 of
                         (Inl e, w5) \<Rightarrow> (Inl e, i2, w5)
                       | (Inr _, w5) \<Rightarrow>
                           (let (i3, w6) = setEntityStatus x ss GXF_ENTITY_STATUS_IDLE (i2, w5)
                            in (Success, i3\<lparr>last_execution_timestamp := timestamp\<rparr>, w6))))))"

fun stop_loop :: "'w Ext \<Rightarrow> EntityItem \<Rightarrow> gxf_uid_t list \<Rightarrow> unit expected \<Rightarrow> 'w \<Rightarrow> unit expected \<times> 'w" where
  "stop_loop x i [] code w = (code, w)"
| "stop_loop x i (c # cs) code w =
     (let (r, w1) = stopCodelet x i c w in stop_loop x i cs (AndExpected code r) w1)"

definition item_stop ::
  "'w Ext \<Rightarrow> gxf_uid_t list \<Rightarrow> EntityItem \<times> 'w \<Rightarrow> unit expected \<times> EntityItem \<times> 'w" where
  "item_stop x ss = (\<lambda>(i, w).
     if status i \<noteq> GXF_ENTITY_STATUS_STARTED \<and> status i \<noteq> GXF_ENTITY_STATUS_IDLE \<and>
        status i \<noteq> GXF_ENTITY_STATUS_TICK_PENDING \<and> status i \<noteq> GXF_ENTITY_STATUS_TICKING
     then (Unexpected GXF_INVALID_LIFECYCLE_STAGE, i, w)
     else let (i1, w1) = setEntityStatus x ss GXF_ENTITY_STATUS_STOP_PENDING (i, w);
              i2 = update_times beforeStop i1;
              (code, w2) = stop_loop x i2 (codelets i2) Success w1;
              (i3, w3) = setEntityStatus x ss GXF_ENTITY_STATUS_NOT_STARTED (i2, w2)
          in (code, i3, w3))"

definition item_deactivate ::
  "'w Ext \<Rightarrow> gxf_uid_t list \<Rightarrow> EntityItem \<times> 'w \<Rightarrow> unit expected \<times> EntityItem \<times> 'w" where
  "item_deactivate x ss = (\<lambda>(i, w).
     if status i = GXF_ENTITY_STATUS_NOT_STARTED then (Success, i, w) else item_stop x ss (i, w))"

subsection \<open>check\<close>

text \<open>The check of one term: its condition, reported to the statistics.\<close>

definition check_term ::
  "'w Ext \<Rightarrow> gxf_uid_t list \<Rightarrow> gxf_uid_t \<Rightarrow> int \<Rightarrow> gxf_uid_t \<Rightarrow> 'w \<Rightarrow> SchedulingCondition expected \<times> 'w"
where
  "check_term x ss eid timestamp t w = (case x_check x t timestamp w of
     (Inl e, w1) \<Rightarrow> (Inl e, w1)
   | (Inr c, w1) \<Rightarrow>
       (Inr c, each_stat x ss (PostTermCheck eid t (SchedulingConditionTypeStr (sc_type c))) w1))"

text \<open>The inner loop of a combiner; the flag says that j is 0.\<close>

fun combiner_loop ::
  "'w Ext \<Rightarrow> gxf_uid_t list \<Rightarrow> gxf_uid_t \<Rightarrow> int \<Rightarrow> gxf_uid_t \<Rightarrow> bool \<Rightarrow> SchedulingCondition \<Rightarrow>
   gxf_uid_t list \<Rightarrow> 'w \<Rightarrow> SchedulingCondition expected \<times> 'w"
where
  "combiner_loop x ss eid timestamp cb first acc [] w = (Inr acc, w)"
| "combiner_loop x ss eid timestamp cb first acc (t # ts) w =
     (case check_term x ss eid timestamp t w of
        (Inl e, w1) \<Rightarrow> (Inl e, w1)
      | (Inr c, w1) \<Rightarrow> combiner_loop x ss eid timestamp cb False
                         (if first then c else x_combine x cb acc c) ts w1)"

fun combiners_loop ::
  "'w Ext \<Rightarrow> gxf_uid_t list \<Rightarrow> gxf_uid_t \<Rightarrow> int \<Rightarrow> SchedulingCondition \<Rightarrow> gxf_uid_t list \<Rightarrow> 'w \<Rightarrow>
   SchedulingCondition expected \<times> 'w"
where
  "combiners_loop x ss eid timestamp acc [] w = (Inr acc, w)"
| "combiners_loop x ss eid timestamp acc (cb # cbs) w =
     (case combiner_loop x ss eid timestamp cb True (x_uninitialised x) (x_term_list x cb) w of
        (Inl e, w1) \<Rightarrow> (Inl e, w1)
      | (Inr c, w1) \<Rightarrow> combiners_loop x ss eid timestamp (AndCombine acc c) cbs w1)"

fun terms_loop ::
  "'w Ext \<Rightarrow> gxf_uid_t list \<Rightarrow> gxf_uid_t \<Rightarrow> int \<Rightarrow> SchedulingCondition \<Rightarrow> gxf_uid_t list \<Rightarrow> 'w \<Rightarrow>
   SchedulingCondition expected \<times> 'w"
where
  "terms_loop x ss eid timestamp acc [] w = (Inr acc, w)"
| "terms_loop x ss eid timestamp acc (t # ts) w =
     (case check_term x ss eid timestamp t w of
        (Inl e, w1) \<Rightarrow> (ForwardError e, w1)
      | (Inr c, w1) \<Rightarrow> terms_loop x ss eid timestamp (AndCombine acc c) ts w1)"

definition item_check ::
  "'w Ext \<Rightarrow> gxf_uid_t list \<Rightarrow> int \<Rightarrow> EntityItem \<Rightarrow> 'w \<Rightarrow> SchedulingCondition expected \<times> 'w" where
  "item_check x ss timestamp i w =
     (case combiners_loop x ss (ei_entity i) timestamp (cond READY 0) (combiners i) w of
        (Inl e, w1) \<Rightarrow> (Inl e, w1)
      | (Inr combined, w1) \<Rightarrow> terms_loop x ss (ei_entity i) timestamp combined (terms i) w1)"

subsection \<open>activate\<close>

text \<open>The four findAll calls, chained by and_then; an item already holding lists keeps those that
  were not reached.\<close>

definition find_components :: "'w Ext \<Rightarrow> 'w \<Rightarrow> EntityItem \<Rightarrow> unit expected \<times> EntityItem" where
  "find_components x w i = (case x_find_all x DownstreamReceptive (ei_entity i) w of
     Inl e \<Rightarrow> (Inl e, i)
   | Inr ds \<Rightarrow> (let i1 = i\<lparr>downstream_receptive_terms := ds\<rparr> in
       case x_find_all x Term (ei_entity i1) w of
         Inl e \<Rightarrow> (Inl e, i1)
       | Inr ts \<Rightarrow> (let i2 = i1\<lparr>terms := ts\<rparr> in
           case x_find_all x Combiner (ei_entity i2) w of
             Inl e \<Rightarrow> (Inl e, i2)
           | Inr cbs \<Rightarrow> (let i3 = i2\<lparr>combiners := cbs\<rparr> in
               case x_find_all x Codelet (ei_entity i3) w of
                 Inl e \<Rightarrow> (Inl e, i3)
               | Inr cs \<Rightarrow> (Success, i3\<lparr>codelets := cs\<rparr>)))))"

text \<open>The loop that erases the terms of combiners.\<close>

fun erase_combined :: "gxf_uid_t set \<Rightarrow> gxf_uid_t list \<Rightarrow> gxf_uid_t list" where
  "erase_combined in_combiners [] = []"
| "erase_combined in_combiners (t # ts) =
     (if t \<in> in_combiners then erase_combined in_combiners ts
      else t # erase_combined in_combiners ts)"

definition terms_in_combiners :: "'w Ext \<Rightarrow> gxf_uid_t list \<Rightarrow> gxf_uid_t set" where
  "terms_in_combiners x cbs = set (concat (map (x_term_list x) cbs))"

fun connect_downstream :: "'w Ext \<Rightarrow> gxf_uid_t list \<Rightarrow> 'w \<Rightarrow> unit expected \<times> 'w" where
  "connect_downstream x [] w = (Success, w)"
| "connect_downstream x (t # ts) w = (case x_receivers x t w of
     Inl e \<Rightarrow> (ForwardError e, w)
   | Inr rs \<Rightarrow> connect_downstream x ts (if length rs = 0 then w else x_set_receivers x t rs w))"

definition item_activate ::
  "'w Ext \<Rightarrow> gxf_uid_t list \<Rightarrow> bool \<Rightarrow> gxf_uid_t \<Rightarrow> EntityItem \<times> 'w \<Rightarrow> bool expected \<times> EntityItem \<times> 'w"
where
  "item_activate x ss has_message_router other = (\<lambda>(i, w).
     if \<not> has_message_router then (Unexpected GXF_ARGUMENT_NULL, i, w)
     else let (i1, w1) = setEntityStatus x ss GXF_ENTITY_STATUS_NOT_STARTED (i\<lparr>ei_entity := other\<rparr>, w)
          in case find_components x w1 i1 of
               (Inl e, i2) \<Rightarrow> (ForwardError e, i2, w1)
             | (Inr _, i2) \<Rightarrow>
                 (let i3 = i2\<lparr>terms := erase_combined (terms_in_combiners x (combiners i2)) (terms i2)\<rparr>
                  in case connect_downstream x (downstream_receptive_terms i3) w1 of
                       (Inl e, w2) \<Rightarrow> (Inl e, i3, w2)
                     | (Inr _, w2) \<Rightarrow> (Inr (codelets i3 \<noteq> []), i3, w2)))"

subsection \<open>execute\<close>

text \<open>The part after the tick: the controller's policy, or the default one.  The search for the
  controller comes first when it is not known yet.\<close>

definition find_controller :: "'w Ext \<Rightarrow> EntityItem \<Rightarrow> 'w \<Rightarrow> unit expected \<times> EntityItem" where
  "find_controller x i w =
     (if controller i \<noteq> None then (Success, i)
      else case x_find_controller x (ei_entity i) w of
             None \<Rightarrow> (Success, i)
           | Some (Inl _) \<Rightarrow> (Unexpected GXF_FAILURE, i)
           | Some (Inr cid) \<Rightarrow> (Success, i\<lparr>controller := Some cid\<rparr>))"

definition controller_policy ::
  "'w Ext \<Rightarrow> gxf_uid_t list \<Rightarrow> int \<Rightarrow> gxf_uid_t \<Rightarrow> unit expected \<Rightarrow> EntityItem \<times> 'w \<Rightarrow>
   SchedulingCondition expected \<times> EntityItem \<times> 'w"
where
  "controller_policy x ss timestamp cid code = (\<lambda>(i, w).
     let (cs, w1) = x_control x cid (ei_entity i) code w;
         i1 = i\<lparr>behavior_status := cs_behavior_status cs\<rparr>
     in case cs_exec_status cs of
          GXF_EXECUTE_SUCCESS \<Rightarrow>
            (if behavior_status i1 = GXF_BEHAVIOR_RUNNING
             then (Inr (cond READY timestamp), setEntityStatus x ss GXF_ENTITY_STATUS_STARTED (i1, w1))
             else (Inr (cond NEVER 0), i1, w1))
        | GXF_EXECUTE_FAILURE_DEACTIVATE \<Rightarrow>
            (let (_, s) = item_stop x ss (setEntityStatus x ss GXF_ENTITY_STATUS_STARTED (i1, w1))
             in (Inr (cond NEVER 0), s))
        | GXF_EXECUTE_FAILURE_REPEAT \<Rightarrow>
            (Inr (cond READY timestamp), setEntityStatus x ss GXF_ENTITY_STATUS_STARTED (i1, w1))
        | GXF_EXECUTE_FAILURE \<Rightarrow> (Unexpected GXF_FAILURE, i1, w1))"

definition after_tick ::
  "'w Ext \<Rightarrow> gxf_uid_t list \<Rightarrow> int \<Rightarrow> SchedulingCondition \<Rightarrow> unit expected \<Rightarrow> EntityItem \<times> 'w \<Rightarrow>
   SchedulingCondition expected \<times> EntityItem \<times> 'w"
where
  "after_tick x ss timestamp condition code = (\<lambda>(i, w).
     case find_controller x i w of
       (Inl e, i1) \<Rightarrow> (Inl e, i1, w)
     | (Inr _, i1) \<Rightarrow>
         (case controller i1 of
            Some cid \<Rightarrow> controller_policy x ss timestamp cid code (i1, w)
          | None \<Rightarrow>
              (case code of
                 Inl e \<Rightarrow> (let (_, s) = item_stop x ss (i1, w) in (ForwardError e, s))
               | Inr _ \<Rightarrow> (Inr condition, i1, w))))"

definition run_condition ::
  "'w Ext \<Rightarrow> gxf_uid_t list \<Rightarrow> int \<Rightarrow> SchedulingCondition \<Rightarrow> EntityItem \<times> 'w \<Rightarrow>
   (SchedulingCondition expected \<times> int) \<times> EntityItem \<times> 'w"
where
  "run_condition x ss timestamp condition s =
     (case sc_type condition of
        READY \<Rightarrow>
          (let s1 = setEntityStatus x ss GXF_ENTITY_STATUS_TICK_PENDING s;
               (code, s2) = item_tick x ss timestamp s1;
               (r, s3) = after_tick x ss timestamp condition code s2
           in ((r, timestamp - sc_target condition), s3))
      | NEVER \<Rightarrow>
          (let (r, s1) = item_stop x ss s
           in ((case r of Inl e \<Rightarrow> Inl e | Inr _ \<Rightarrow> Inr condition, 0), s1))
      | WAIT \<Rightarrow> ((Inr condition, 0), s)
      | WAIT_EVENT \<Rightarrow> ((Inr condition, 0), s)
      | WAIT_TIME \<Rightarrow> ((Unexpected GXF_INVALID_ENUM, 0), s))"

definition item_execute ::
  "'w Ext \<Rightarrow> gxf_uid_t list \<Rightarrow> bool \<Rightarrow> int \<Rightarrow> EntityItem \<times> 'w \<Rightarrow>
   (SchedulingCondition expected \<times> int) \<times> EntityItem \<times> 'w"
where
  "item_execute x ss has_router timestamp = (\<lambda>(i, w).
     if \<not> has_router then ((Unexpected GXF_ARGUMENT_NULL, 0), i, w)
     else if status i = GXF_ENTITY_STATUS_START_PENDING
     then ((Unexpected GXF_INVALID_EXECUTION_SEQUENCE, 0), i, w)
     else if status i = GXF_ENTITY_STATUS_TICK_PENDING \<or> status i = GXF_ENTITY_STATUS_TICKING
     then ((Unexpected GXF_INVALID_EXECUTION_SEQUENCE, 0), i, w)
     else if status i = GXF_ENTITY_STATUS_STOP_PENDING
     then ((Unexpected GXF_INVALID_EXECUTION_SEQUENCE, 0), i, w)
     else if status i = GXF_ENTITY_STATUS_NOT_STARTED
     then (let (r, s1) = item_start x ss timestamp (i, w)
           in ((case r of Inl e \<Rightarrow> Inl e | Inr _ \<Rightarrow> Inr (cond READY timestamp), 0), s1))
     else case item_check x ss timestamp i w of
       (Inl e, w1) \<Rightarrow> (let (_, s1) = item_stop x ss (i, w1) in ((ForwardError e, 0), s1))
     | (Inr condition, w1) \<Rightarrow>
         (if sc_type condition = WAIT_TIME \<and> \<not> sc_target condition \<le> timestamp
          then ((Inr (cond WAIT_TIME (sc_target condition)), 0), i, w1)
          else run_condition x ss timestamp
                 (if sc_type condition = WAIT_TIME then cond READY (sc_target condition) else condition)
                 (i, w1)))"

section \<open>EntityExecutor\<close>

record EntityExecutor =
  items :: "(gxf_uid_t \<times> EntityItem) list"
  router :: "gxf_uid_t option"
  message_router :: "gxf_uid_t option"
  network_router :: "gxf_uid_t option"
  statistics :: "gxf_uid_t list"
  monitors :: "gxf_uid_t list"

definition kMaxComponents :: nat where "kMaxComponents = 1024"

text \<open>The fields of a new item that have no initialiser keep the values of fresh.\<close>

definition ee_initialize ::
  "gxf_uid_t option \<Rightarrow> gxf_uid_t option \<Rightarrow> gxf_uid_t option \<Rightarrow> EntityExecutor \<Rightarrow> gxf_result_t \<times> EntityExecutor"
where
  "ee_initialize rt mr nr ex =
     (if rt = None then (GXF_ARGUMENT_NULL, ex)
      else let ex1 = ex\<lparr>router := rt\<rparr> in
        if mr = None then (GXF_ARGUMENT_NULL, ex1)
        else let ex2 = ex1\<lparr>message_router := mr\<rparr> in
          if nr = None then (GXF_ARGUMENT_NULL, ex2)
          else (GXF_SUCCESS, ex2\<lparr>network_router := nr, statistics := []\<rparr>))"

definition ee_activate ::
  "'w Ext \<Rightarrow> EntityItem \<Rightarrow> gxf_uid_t \<Rightarrow> EntityExecutor \<times> 'w \<Rightarrow> gxf_result_t \<times> EntityExecutor \<times> 'w" where
  "ee_activate x fresh eid = (\<lambda>(ex, w).
     case x_shared x eid w of
       Inl e \<Rightarrow> (e, ex, w)
     | Inr _ \<Rightarrow>
         (case item_activate x (statistics ex) (message_router ex \<noteq> None) eid (fresh, w) of
            (Inl e, _, w1) \<Rightarrow> (e, ex, w1)
          | (Inr activatable, i, w1) \<Rightarrow>
              (if \<not> activatable then (GXF_SUCCESS, ex, w1)
               else (GXF_SUCCESS, ex\<lparr>items := map_emplace eid i (items ex)\<rparr>, w1))))"

definition ee_deactivate ::
  "'w Ext \<Rightarrow> gxf_uid_t \<Rightarrow> EntityExecutor \<times> 'w \<Rightarrow> gxf_result_t \<times> EntityExecutor \<times> 'w" where
  "ee_deactivate x eid = (\<lambda>(ex, w).
     case map_of (items ex) eid of
       None \<Rightarrow> (GXF_SUCCESS, ex, w)
     | Some i \<Rightarrow>
         (let ex1 = ex\<lparr>items := map_erase eid (items ex)\<rparr>;
              (_, _, w1) = item_deactivate x (statistics ex) (i, w)
          in (GXF_SUCCESS, ex1, w1)))"

fun deactivate_loop ::
  "'w Ext \<Rightarrow> gxf_uid_t list \<Rightarrow> (gxf_uid_t \<times> EntityItem) list \<Rightarrow> unit expected \<Rightarrow> 'w \<Rightarrow> unit expected \<times> 'w"
where
  "deactivate_loop x ss [] code w = (code, w)"
| "deactivate_loop x ss ((_, i) # its) code w =
     (let (r, _, w1) = item_deactivate x ss (i, w)
      in deactivate_loop x ss its (AccumulateError code r) w1)"

definition ee_deactivateAll ::
  "'w Ext \<Rightarrow> EntityExecutor \<times> 'w \<Rightarrow> gxf_result_t \<times> EntityExecutor \<times> 'w" where
  "ee_deactivateAll x = (\<lambda>(ex, w).
     let (code, w1) = deactivate_loop x (statistics ex) (items ex) Success w
     in (ToResultCode code, ex\<lparr>items := []\<rparr>, w1))"

definition ee_getEntities :: "nat \<Rightarrow> EntityExecutor \<Rightarrow> unit expected \<times> gxf_uid_t list" where
  "ee_getEntities capacity ex =
     (if length (items ex) > capacity
      then (Unexpected GXF_EXCEEDING_PREALLOCATED_SIZE, map fst (take capacity (items ex)))
      else (Success, map fst (items ex)))"

definition ee_setClock ::
  "gxf_uid_t option \<Rightarrow> unit expected \<Rightarrow> unit expected \<Rightarrow> gxf_result_t" where
  "ee_setClock clock router_result message_router_result =
     (if clock = None then GXF_ARGUMENT_NULL
      else ToResultCode (AndExpected (AndExpected Success router_result) message_router_result))"

definition ee_executeEntity ::
  "'w Ext \<Rightarrow> gxf_uid_t \<Rightarrow> int \<Rightarrow> EntityExecutor \<times> 'w \<Rightarrow>
   SchedulingCondition expected \<times> EntityExecutor \<times> 'w"
where
  "ee_executeEntity x eid timestamp = (\<lambda>(ex, w).
     case map_of (items ex) eid of
       None \<Rightarrow> (Unexpected GXF_ENTITY_NOT_FOUND, ex, w)
     | Some i \<Rightarrow>
         (let entity_started = (status i = GXF_ENTITY_STATUS_STARTED \<or> status i = GXF_ENTITY_STATUS_IDLE);
              w1 = (if entity_started then each_stat x (statistics ex) (PreJob eid) w else w);
              ((result, variation), i1, w2) =
                item_execute x (statistics ex) (router ex \<noteq> None) timestamp (i, w1);
              w3 = fold (\<lambda>m. x_monitor x m (ei_entity i1) timestamp (ToResultCode result)) (monitors ex) w2;
              w4 = (if entity_started \<and>
                       (case result of Inr c \<Rightarrow> sc_type c = READY | Inl _ \<Rightarrow> False)
                    then each_stat x (statistics ex) (PostJob eid variation) w3 else w3)
          in (result, ex\<lparr>items := map_put eid i1 (items ex)\<rparr>, w4)))"

definition ee_checkEntity ::
  "'w Ext \<Rightarrow> gxf_uid_t \<Rightarrow> int \<Rightarrow> EntityExecutor \<times> 'w \<Rightarrow> SchedulingCondition expected \<times> EntityExecutor \<times> 'w"
where
  "ee_checkEntity x eid timestamp = (\<lambda>(ex, w).
     case map_of (items ex) eid of
       None \<Rightarrow> (Unexpected GXF_ENTITY_NOT_FOUND, ex, w)
     | Some i \<Rightarrow> (let (r, w1) = item_check x (statistics ex) timestamp i w in (r, ex, w1)))"

definition ee_getEntityStatus :: "gxf_uid_t \<Rightarrow> EntityExecutor \<Rightarrow> gxf_entity_status_t expected" where
  "ee_getEntityStatus eid ex = (case map_of (items ex) eid of
     None \<Rightarrow> Unexpected GXF_ENTITY_NOT_FOUND | Some i \<Rightarrow> Inr (status i))"

text \<open>The error code is converted to bool; no error has the value 0.\<close>

definition ee_isEntityBusy :: "gxf_uid_t \<Rightarrow> EntityExecutor \<Rightarrow> bool" where
  "ee_isEntityBusy eid ex = (case ee_getEntityStatus eid ex of
     Inl e \<Rightarrow> e \<noteq> GXF_SUCCESS
   | Inr s \<Rightarrow> s = GXF_ENTITY_STATUS_START_PENDING \<or> s = GXF_ENTITY_STATUS_TICK_PENDING \<or>
             s = GXF_ENTITY_STATUS_TICKING)"

definition ee_getEntityBehaviorStatus :: "gxf_uid_t \<Rightarrow> EntityExecutor \<Rightarrow> entity_state_t expected" where
  "ee_getEntityBehaviorStatus eid ex = (case map_of (items ex) eid of
     None \<Rightarrow> Unexpected GXF_ENTITY_NOT_FOUND | Some i \<Rightarrow> Inr (behavior_status i))"

definition ee_addStatistics :: "gxf_uid_t \<Rightarrow> EntityExecutor \<Rightarrow> unit expected \<times> EntityExecutor" where
  "ee_addStatistics s ex =
     (if length (statistics ex) \<ge> kMaxComponents then (Unexpected GXF_EXCEEDING_PREALLOCATED_SIZE, ex)
      else (Success, ex\<lparr>statistics := statistics ex @ [s]\<rparr>))"

definition ee_removeStatistics :: "gxf_uid_t \<Rightarrow> EntityExecutor \<Rightarrow> unit expected \<times> EntityExecutor" where
  "ee_removeStatistics s ex =
     (if s \<in> set (statistics ex) then (Success, ex\<lparr>statistics := remove1 s (statistics ex)\<rparr>)
      else (Unexpected GXF_ENTITY_COMPONENT_NOT_FOUND, ex))"

definition ee_addMonitor :: "gxf_uid_t \<Rightarrow> EntityExecutor \<Rightarrow> unit expected \<times> EntityExecutor" where
  "ee_addMonitor m ex =
     (if length (monitors ex) \<ge> kMaxComponents then (Unexpected GXF_EXCEEDING_PREALLOCATED_SIZE, ex)
      else (Success, ex\<lparr>monitors := monitors ex @ [m]\<rparr>))"

definition ee_removeMonitor :: "gxf_uid_t \<Rightarrow> EntityExecutor \<Rightarrow> unit expected \<times> EntityExecutor" where
  "ee_removeMonitor m ex =
     (if m \<in> set (monitors ex) then (Success, ex\<lparr>monitors := remove1 m (monitors ex)\<rparr>)
      else (Unexpected GXF_ENTITY_COMPONENT_NOT_FOUND, ex))"

section \<open>The calls an operation makes\<close>

text \<open>An observer of the calls to codelets, terms and the router: every such call is appended to the
  log, nothing else changes it.\<close>

locale call_log =
  fixes x :: "'w Ext" and log :: "'w \<Rightarrow> call list"
  assumes log_call: "log (snd (x_call x c w)) = log w @ [c]"
    and log_check: "log (snd (x_check x t timestamp w)) = log w"
    and log_control: "log (snd (x_control x cid e code w)) = log w"
    and log_stat: "log (x_stat x s ev w) = log w"
begin

lemma log_callD: "x_call x c w = (r, w1) \<Longrightarrow> log w1 = log w @ [c]"
  using log_call[of c w] by simp

lemma log_checkD: "x_check x t timestamp w = (r, w1) \<Longrightarrow> log w1 = log w"
  using log_check[of t timestamp w] by simp

lemma log_controlD: "x_control x cid e code w = (r, w1) \<Longrightarrow> log w1 = log w"
  using log_control[of cid e code w] by simp

lemma log_each_stat [simp]: "log (each_stat x ss ev w) = log w"
  unfolding each_stat_def by (induction ss arbitrary: w) (simp_all add: log_stat)

lemma log_setEntityStatus: "setEntityStatus x ss n (i, w) = (i', w') \<Longrightarrow> log w' = log w"
  by (auto simp: setEntityStatus_def)

lemma log_startCodelet: "log (snd (startCodelet x i c w)) = log w @ [CallStart c (codelet_time i c)]"
  by (auto dest!: log_callD simp: startCodelet_def split: prod.splits)

lemma log_stopCodelet: "log (snd (stopCodelet x i c w)) = log w @ [CallStop c (codelet_time i c)]"
  by (auto dest!: log_callD simp: stopCodelet_def split: prod.splits)

lemma log_tickCodelet: "log (snd (tickCodelet x ss i c w)) = log w @ [CallTick c (codelet_time i c)]"
  by (auto dest!: log_callD simp: tickCodelet_def Let_def split: prod.splits)

lemma log_onExecute: "log (snd (onExecute x timestamp t w)) = log w @ [CallOnExecute t timestamp]"
  by (auto dest!: log_callD simp: onExecute_def split: prod.splits)

lemma log_router_call: "log (snd (router_call x c w)) = log w @ [c]"
  by (auto dest!: log_callD simp: router_call_def split: prod.splits)

lemma log_each_until_error:
  assumes "\<And>c w. log (snd (f c w)) = log w @ [g c]" "each_until_error f cs w = (r, w')"
  obtains n where "log w' = log w @ map g (take n cs)" "ok r \<Longrightarrow> n = length cs"
  using assms(2)
proof (induction cs arbitrary: w thesis)
  case Nil
  then show ?case by auto
next
  case (Cons c cs)
  obtain r1 w1 where f: "f c w = (r1, w1)" by fastforce
  then have l1: "log w1 = log w @ [g c]" using assms(1)[of c w] by simp
  show ?case
  proof (cases r1)
    case (Inl e)
    then show ?thesis using Cons.prems f l1 by (intro Cons.prems(1)[of 1]) auto
  next
    case (Inr u)
    then have e: "each_until_error f cs w1 = (r, w')" using Cons.prems(2) f by simp
    obtain n where "log w' = log w1 @ map g (take n cs)" "ok r \<Longrightarrow> n = length cs"
      using Cons.IH[OF _ e] by metis
    then show ?thesis using l1 by (intro Cons.prems(1)[of "Suc n"]) auto
  qed
qed

lemma log_stop_loop:
  "stop_loop x i cs code w = (r, w') \<Longrightarrow> log w' = log w @ map (\<lambda>c. CallStop c (codelet_time i c)) cs"
proof (induction cs arbitrary: code w)
  case (Cons c cs)
  then show ?case using log_stopCodelet[of i c w] by (auto split: prod.splits)
qed simp

lemma log_check_term: "log (snd (check_term x ss eid timestamp t w)) = log w"
  by (auto dest!: log_checkD simp: check_term_def split: prod.splits sum.splits)

lemma log_check_termD: "check_term x ss eid timestamp t w = (r, w1) \<Longrightarrow> log w1 = log w"
  using log_check_term[of ss eid timestamp t w] by simp

lemma log_combiner_loop:
  "log (snd (combiner_loop x ss eid timestamp cb first acc ts w)) = log w"
  by (induction ts arbitrary: first acc w) (auto dest!: log_check_termD split: prod.splits sum.splits)

lemma log_combiner_loopD:
  "combiner_loop x ss eid timestamp cb first acc ts w = (r, w1) \<Longrightarrow> log w1 = log w"
  using log_combiner_loop[of ss eid timestamp cb first acc ts w] by simp

lemma log_terms_loop: "log (snd (terms_loop x ss eid timestamp acc ts w)) = log w"
  by (induction ts arbitrary: acc w) (auto dest!: log_check_termD split: prod.splits sum.splits)

lemma log_combiners_loop: "log (snd (combiners_loop x ss eid timestamp acc cbs w)) = log w"
  by (induction cbs arbitrary: acc w) (auto dest!: log_combiner_loopD split: prod.splits sum.splits)

lemma log_item_check: "log (snd (item_check x ss timestamp i w)) = log w"
  using log_combiners_loop[of ss "ei_entity i" timestamp "cond READY 0" "combiners i" w]
  by (auto simp: item_check_def log_terms_loop split: prod.splits sum.splits)

end

text \<open>The calls of a complete start, tick and stop, in order.\<close>

definition start_calls :: "int \<Rightarrow> EntityItem \<Rightarrow> call list" where
  "start_calls timestamp i =
     map (\<lambda>c. CallStart c (codelet_time (update_times (beforeStart timestamp) i) c)) (codelets i)"

definition tick_calls :: "int \<Rightarrow> EntityItem \<Rightarrow> call list" where
  "tick_calls timestamp i = CallSyncInbox (ei_entity i)
     # map (\<lambda>c. CallTick c (codelet_time (update_times (beforeTick timestamp) i) c)) (codelets i)
     @ map (\<lambda>t. CallOnExecute t timestamp) (terms i) @ [CallSyncOutbox (ei_entity i)]"

definition stop_calls :: "EntityItem \<Rightarrow> call list" where
  "stop_calls i = map (\<lambda>c. CallStop c (codelet_time (update_times beforeStop i) c)) (codelets i)"

lemma update_times_select [simp]:
  "status (update_times f i) = status i" "codelets (update_times f i) = codelets i"
  "terms (update_times f i) = terms i" "combiners (update_times f i) = combiners i"
  "ei_entity (update_times f i) = ei_entity i" "controller (update_times f i) = controller i"
  "last_execution_timestamp (update_times f i) = last_execution_timestamp i"
  by (simp_all add: update_times_def)

lemma codelet_time_status [simp]:
  "codelet_time (update_times f (i\<lparr>status := n\<rparr>)) = codelet_time (update_times f i)"
  by (simp add: update_times_def)

text \<open>What never changes in an item once it is activated.\<close>

definition same_entity :: "EntityItem \<Rightarrow> EntityItem \<Rightarrow> bool" where
  "same_entity i j \<longleftrightarrow> ei_entity j = ei_entity i \<and> terms j = terms i \<and> codelets j = codelets i \<and>
     combiners j = combiners i \<and> downstream_receptive_terms j = downstream_receptive_terms i"

lemma same_entity_update [simp]:
  "same_entity i (update_times f j) = same_entity i j"
  "same_entity i (j\<lparr>status := s\<rparr>) = same_entity i j"
  "same_entity i (j\<lparr>last_execution_timestamp := n\<rparr>) = same_entity i j"
  "same_entity i (j\<lparr>behavior_status := b\<rparr>) = same_entity i j"
  "same_entity i (j\<lparr>controller := cc\<rparr>) = same_entity i j"
  "same_entity i i"
  by (simp_all add: same_entity_def update_times_def)

lemma same_entity_trans: "same_entity i j \<Longrightarrow> same_entity j k \<Longrightarrow> same_entity i k"
  by (simp add: same_entity_def)

lemma same_entity_start: "item_start x ss timestamp (i, w) = (r, i', w') \<Longrightarrow> same_entity i i'"
  by (auto simp: item_start_def setEntityStatus_def Let_def split: if_splits prod.splits sum.splits)

lemma same_entity_tick: "item_tick x ss timestamp (i, w) = (r, i', w') \<Longrightarrow> same_entity i i'"
  by (auto simp: item_tick_def Let_def setEntityStatus_def Let_def split: if_splits prod.splits sum.splits)

lemma same_entity_stop: "item_stop x ss (i, w) = (r, i', w') \<Longrightarrow> same_entity i i'"
  by (auto simp: item_stop_def setEntityStatus_def Let_def split: if_splits prod.splits sum.splits)

context call_log begin

lemma start_log:
  assumes "item_start x ss timestamp (i, w) = (r, i', w')"
  obtains calls where "log w' = log w @ calls" "prefix calls (start_calls timestamp i)"
    "ok r \<Longrightarrow> calls = start_calls timestamp i"
proof (cases "status i = GXF_ENTITY_STATUS_NOT_STARTED")
  case True
  let ?j = "update_times (beforeStart timestamp) (i\<lparr>status := GXF_ENTITY_STATUS_START_PENDING\<rparr>)"
  obtain w1 where w1: "setEntityStatus x ss GXF_ENTITY_STATUS_START_PENDING (i, w) =
      (i\<lparr>status := GXF_ENTITY_STATUS_START_PENDING\<rparr>, w1)" "log w1 = log w"
    by (simp add: setEntityStatus_def)
  obtain r2 w2 where e: "each_until_error (startCodelet x ?j) (codelets ?j) w1 = (r2, w2)" by fastforce
  obtain n where n: "log w2 = log w1 @ map (\<lambda>c. CallStart c (codelet_time ?j c)) (take n (codelets ?j))"
    "ok r2 \<Longrightarrow> n = length (codelets ?j)"
    using log_each_until_error[OF log_startCodelet e] by metis
  have "log w' = log w2" "ok r = ok r2"
    using assms True w1 e by (auto simp: item_start_def setEntityStatus_def Let_def split: sum.splits)
  then show ?thesis using n w1(2)
    by (intro that[of "map (\<lambda>c. CallStart c (codelet_time ?j c)) (take n (codelets ?j))"])
      (auto simp: start_calls_def take_map[symmetric] take_is_prefix)
next
  case False
  then show ?thesis using assms by (intro that[of "[]"]) (auto simp: item_start_def)
qed

lemma stop_log:
  assumes "item_stop x ss (i, w) = (r, i', w')"
  shows "log w' = log w \<or> log w' = log w @ stop_calls i"
  using assms
  by (auto simp: item_stop_def stop_calls_def setEntityStatus_def Let_def
      dest!: log_stop_loop split: if_splits prod.splits)

lemma tick_log:
  assumes "item_tick x ss timestamp (i, w) = (r, i', w')"
  obtains calls where "log w' = log w @ calls" "prefix calls (tick_calls timestamp i)"
    "ok r \<Longrightarrow> calls = tick_calls timestamp i"
    "ok r \<Longrightarrow> codelet_time i' = codelet_time (update_times (beforeTick timestamp) i)"
proof (cases "status i = GXF_ENTITY_STATUS_TICK_PENDING \<and> \<not> timestamp < last_execution_timestamp i")
  case False
  then show ?thesis using assms by (intro that[of "[]"]) (auto simp: item_tick_def Let_def split: if_splits)
next
  case True
  let ?j = "(update_times (beforeTick timestamp) i)\<lparr>status := GXF_ENTITY_STATUS_TICKING\<rparr>"
  let ?T = "map (\<lambda>c. CallTick c (codelet_time ?j c)) (codelets i)"
  let ?O = "map (\<lambda>t. CallOnExecute t timestamp) (terms i)"
  obtain r1 w1 where s1: "router_call x (CallSyncInbox (ei_entity i)) w = (r1, w1)" by fastforce
  have l1: "log w1 = log w @ [CallSyncInbox (ei_entity i)]"
    using log_router_call[of "CallSyncInbox (ei_entity i)" w] s1 by simp
  obtain w2 where s2: "setEntityStatus x ss GXF_ENTITY_STATUS_TICKING
      (update_times (beforeTick timestamp) i, w1) = (?j, w2)" "log w2 = log w1"
    by (simp add: setEntityStatus_def)
  obtain r3 w3 where s3: "each_until_error (tickCodelet x ss ?j) (codelets i) w2 = (r3, w3)" by fastforce
  obtain n where l3: "log w3 = log w2 @ map (\<lambda>c. CallTick c (codelet_time ?j c)) (take n (codelets i))"
    "ok r3 \<Longrightarrow> n = length (codelets i)"
    using log_each_until_error[OF log_tickCodelet s3] by metis
  obtain r4 w4 where s4: "each_until_error (onExecute x timestamp) (terms i) w3 = (r4, w4)" by fastforce
  obtain m where l4: "log w4 = log w3 @ map (\<lambda>t. CallOnExecute t timestamp) (take m (terms i))"
    "ok r4 \<Longrightarrow> m = length (terms i)"
    using log_each_until_error[OF log_onExecute s4] by metis
  obtain r5 w5 where s5: "router_call x (CallSyncOutbox (ei_entity i)) w4 = (r5, w5)" by fastforce
  have l5: "log w5 = log w4 @ [CallSyncOutbox (ei_entity i)]"
    using log_router_call[of "CallSyncOutbox (ei_entity i)" w4] s5 by simp
  note step = assms True s1 s2 s3 s4 s5
  have full: "tick_calls timestamp i = CallSyncInbox (ei_entity i) # ?T @ ?O @ [CallSyncOutbox (ei_entity i)]"
    by (simp add: tick_calls_def update_times_def)
  have pT: "map (\<lambda>c. CallTick c (codelet_time ?j c)) (take n (codelets i)) = take n ?T"
    and pO: "map (\<lambda>t. CallOnExecute t timestamp) (take m (terms i)) = take m ?O"
    by (simp_all add: take_map)
  consider "\<not> ok r1" | "ok r1" "\<not> ok r3" | "ok r1" "ok r3" "\<not> ok r4" | "ok r1" "ok r3" "ok r4"
    by blast
  then show ?thesis
  proof cases
    case 1
    then show ?thesis using step l1 full
      by (intro that[of "[CallSyncInbox (ei_entity i)]"]) (auto simp: item_tick_def Let_def split: sum.splits)
  next
    case 2
    then show ?thesis using step l1 l3 full pT
      by (intro that[of "CallSyncInbox (ei_entity i) # take n ?T"])
        (auto simp: item_tick_def Let_def ForwardError_def take_is_prefix prefix_prefix split: sum.splits)
  next
    case 3
    then have "log w4 = log w @ CallSyncInbox (ei_entity i) # ?T @ take m ?O"
      using l1 s2(2) l3 l4(1) pO by simp
    then show ?thesis using step 3 full
      by (intro that[of "CallSyncInbox (ei_entity i) # ?T @ take m ?O"])
        (auto simp: item_tick_def Let_def take_is_prefix prefix_prefix split: sum.splits)
  next
    case 4
    then have "log w5 = log w @ tick_calls timestamp i"
      using l1 s2(2) l3 l4 l5 full by simp
    then show ?thesis using step 4
      by (intro that[of "tick_calls timestamp i"])
        (auto simp: item_tick_def Let_def setEntityStatus_def split: sum.splits prod.splits)
  qed
qed

end

definition only_stops :: "call list \<Rightarrow> bool" where
  "only_stops cs \<longleftrightarrow> (\<forall>c \<in> set cs. \<exists>k t. c = CallStop k t)"

lemma only_stops_simps [simp]: "only_stops []" "only_stops (stop_calls i)"
  by (auto simp: only_stops_def stop_calls_def)

text \<open>The condition under which an item may tick.\<close>

definition permitted :: "SchedulingCondition \<Rightarrow> int \<Rightarrow> bool" where
  "permitted c timestamp \<longleftrightarrow> sc_type c = READY \<or> sc_type c = WAIT_TIME \<and> sc_target c \<le> timestamp"

context call_log begin

lemma stop_only_stops:
  assumes "item_stop x ss (i, w) = (r, i', w')"
  obtains b where "log w' = log w @ b" "only_stops b"
  using stop_log[OF assms] by (metis append_Nil2 only_stops_simps)

lemma after_tick_only_stops:
  assumes "after_tick x ss timestamp c code (i, w) = (r, i', w')"
  obtains b where "log w' = log w @ b" "only_stops b"
proof -
  obtain rf i1 where f: "find_controller x i w = (rf, i1)" by fastforce
  show ?thesis
  proof (cases rf)
    case (Inl e)
    then show ?thesis using assms f by (intro that[of "[]"]) (auto simp: after_tick_def)
  next
    case (Inr u)
    show ?thesis
    proof (cases "controller i1")
      case None
      show ?thesis
      proof (cases code)
        case (Inl e)
        obtain r2 i2 w2 where s: "item_stop x ss (i1, w) = (r2, i2, w2)" by (metis prod_cases3)
        have "w' = w2" using assms f Inr None Inl s by (auto simp: after_tick_def)
        then show ?thesis using stop_only_stops[OF s] that by metis
      next
        case (Inr u')
        then show ?thesis using assms f \<open>rf = Inr u\<close> None
          by (intro that[of "[]"]) (auto simp: after_tick_def)
      qed
    next
      case (Some cid)
      obtain cs w1 where c: "x_control x cid (ei_entity i1) code w = (cs, w1)" by fastforce
      have l1: "log w1 = log w" using c by (rule log_controlD)
      let ?i = "i1\<lparr>behavior_status := cs_behavior_status cs\<rparr>"
      obtain w2 where s: "setEntityStatus x ss GXF_ENTITY_STATUS_STARTED (?i, w1)
          = (?i\<lparr>status := GXF_ENTITY_STATUS_STARTED\<rparr>, w2)" "log w2 = log w1"
        by (simp add: setEntityStatus_def)
      obtain r3 i3 w3 where st: "item_stop x ss (?i\<lparr>status := GXF_ENTITY_STATUS_STARTED\<rparr>, w2) = (r3, i3, w3)"
        by (metis prod_cases3)
      have "w' = w1 \<or> w' = w2 \<or> w' = w3"
        using assms f Inr Some c s(1) st
        by (auto simp: after_tick_def controller_policy_def Let_def
            split: gxf_execution_status_t.splits if_splits)
      then show ?thesis
        using stop_only_stops[OF st] l1 s(2) that by (metis append_Nil2 only_stops_simps(1))
    qed
  qed
qed

lemma run_condition_log:
  assumes "run_condition x ss timestamp c (i, w) = ((r, v), i', w')"
  obtains a b where "log w' = log w @ a @ b" "only_stops b"
    "a = [] \<or> prefix a (tick_calls timestamp i) \<and> sc_type c = READY"
proof (cases "sc_type c = READY")
  case True
  let ?i = "i\<lparr>status := GXF_ENTITY_STATUS_TICK_PENDING\<rparr>"
  obtain w1 where s: "setEntityStatus x ss GXF_ENTITY_STATUS_TICK_PENDING (i, w) = (?i, w1)" "log w1 = log w"
    by (simp add: setEntityStatus_def)
  obtain code i2 w2 where t: "item_tick x ss timestamp (?i, w1) = (code, i2, w2)" by (metis prod_cases3)
  obtain calls where l2: "log w2 = log w1 @ calls" "prefix calls (tick_calls timestamp ?i)"
    using tick_log[OF t] by metis
  obtain r3 i3 w3 where a: "after_tick x ss timestamp c code (i2, w2) = (r3, i3, w3)" by (metis prod_cases3)
  obtain b where b: "log w3 = log w2 @ b" "only_stops b" using after_tick_only_stops[OF a] by metis
  have "w' = w3" using assms True s t a by (simp add: run_condition_def)
  moreover have "tick_calls timestamp ?i = tick_calls timestamp i" by (simp add: tick_calls_def)
  ultimately show ?thesis using l2 b s(2) True by (intro that[of calls b]) auto
next
  case False
  show ?thesis
  proof (cases "sc_type c = NEVER")
    case True
    obtain r1 i1 w1 where s: "item_stop x ss (i, w) = (r1, i1, w1)" by (metis prod_cases3)
    obtain b where "log w1 = log w @ b" "only_stops b" using stop_only_stops[OF s] by metis
    then show ?thesis using assms True s by (intro that[of "[]" b]) (auto simp: run_condition_def)
  next
    case F: False
    then show ?thesis using assms False
      by (intro that[of "[]" "[]"]) (auto simp: run_condition_def split: SchedulingConditionType.splits)
  qed
qed

lemma execute_log:
  assumes "item_execute x ss hr timestamp (i, w) = ((r, v), i', w')"
  obtains a b where "log w' = log w @ a @ b" "only_stops b"
    "a = [] \<or> (status i = GXF_ENTITY_STATUS_NOT_STARTED \<and> prefix a (start_calls timestamp i)) \<or>
     (status i \<in> {GXF_ENTITY_STATUS_STARTED, GXF_ENTITY_STATUS_IDLE} \<and> prefix a (tick_calls timestamp i) \<and>
      (\<exists>c w1. item_check x ss timestamp i w = (Inr c, w1) \<and> permitted c timestamp))"
proof -
  consider "\<not> hr \<or> status i \<in> {GXF_ENTITY_STATUS_START_PENDING, GXF_ENTITY_STATUS_TICK_PENDING,
      GXF_ENTITY_STATUS_TICKING, GXF_ENTITY_STATUS_STOP_PENDING}"
    | "hr" "status i = GXF_ENTITY_STATUS_NOT_STARTED"
    | "hr" "status i \<in> {GXF_ENTITY_STATUS_STARTED, GXF_ENTITY_STATUS_IDLE}"
    by (cases "status i") auto
  then show ?thesis
  proof cases
    case 1
    then show ?thesis using assms by (intro that[of "[]" "[]"]) (auto simp: item_execute_def split: if_splits)
  next
    case 2
    obtain r1 i1 w1 where s: "item_start x ss timestamp (i, w) = (r1, i1, w1)" by (metis prod_cases3)
    obtain a where "log w1 = log w @ a" "prefix a (start_calls timestamp i)"
      using start_log[OF s] by metis
    then show ?thesis using assms 2 s by (intro that[of a "[]"]) (auto simp: item_execute_def)
  next
    case 3
    obtain rc w1 where c: "item_check x ss timestamp i w = (rc, w1)" by fastforce
    have l1: "log w1 = log w" using log_item_check[of ss timestamp i w] c by simp
    have nn: "status i \<noteq> GXF_ENTITY_STATUS_START_PENDING" "status i \<noteq> GXF_ENTITY_STATUS_TICK_PENDING"
      "status i \<noteq> GXF_ENTITY_STATUS_TICKING" "status i \<noteq> GXF_ENTITY_STATUS_STOP_PENDING"
      "status i \<noteq> GXF_ENTITY_STATUS_NOT_STARTED" using 3 by auto
    show ?thesis
    proof (cases rc)
      case (Inl e)
      obtain r2 i2 w2 where s: "item_stop x ss (i, w1) = (r2, i2, w2)" by (metis prod_cases3)
      obtain b where "log w2 = log w1 @ b" "only_stops b" using stop_only_stops[OF s] by metis
      then show ?thesis using assms 3 nn c Inl s l1
        by (intro that[of "[]" b]) (auto simp: item_execute_def)
    next
      case (Inr cd)
      show ?thesis
      proof (cases "sc_type cd = WAIT_TIME \<and> \<not> sc_target cd \<le> timestamp")
        case True
        then show ?thesis using assms 3 nn c Inr l1
          by (intro that[of "[]" "[]"]) (auto simp: item_execute_def)
      next
        case False
        let ?c = "if sc_type cd = WAIT_TIME then cond READY (sc_target cd) else cd"
        have "run_condition x ss timestamp ?c (i, w1) = ((r, v), i', w')"
          using assms 3 nn c Inr False by (auto simp: item_execute_def)
        then obtain a b where "log w' = log w1 @ a @ b" "only_stops b"
          "a = [] \<or> prefix a (tick_calls timestamp i) \<and> sc_type ?c = READY"
          using run_condition_log by metis
        then show ?thesis using 3 l1 c Inr False
          by (intro that[of a b]) (auto simp: permitted_def split: if_splits)
      qed
    qed
  qed
qed

end

section \<open>The lifecycle of an entity\<close>

inductive lifecycle :: "gxf_entity_status_t \<Rightarrow> gxf_entity_status_t \<Rightarrow> bool" where
  lc_start: "lifecycle GXF_ENTITY_STATUS_NOT_STARTED GXF_ENTITY_STATUS_START_PENDING"
| lc_started: "lifecycle GXF_ENTITY_STATUS_START_PENDING GXF_ENTITY_STATUS_STARTED"
| lc_tick: "s \<in> {GXF_ENTITY_STATUS_STARTED, GXF_ENTITY_STATUS_IDLE} \<Longrightarrow>
    lifecycle s GXF_ENTITY_STATUS_TICK_PENDING"
| lc_ticking: "lifecycle GXF_ENTITY_STATUS_TICK_PENDING GXF_ENTITY_STATUS_TICKING"
| lc_idle: "lifecycle GXF_ENTITY_STATUS_TICKING GXF_ENTITY_STATUS_IDLE"
| lc_resume: "s \<in> {GXF_ENTITY_STATUS_TICK_PENDING, GXF_ENTITY_STATUS_TICKING, GXF_ENTITY_STATUS_IDLE} \<Longrightarrow>
    lifecycle s GXF_ENTITY_STATUS_STARTED"
| lc_stop: "s \<in> {GXF_ENTITY_STATUS_STARTED, GXF_ENTITY_STATUS_IDLE, GXF_ENTITY_STATUS_TICK_PENDING,
    GXF_ENTITY_STATUS_TICKING} \<Longrightarrow> lifecycle s GXF_ENTITY_STATUS_STOP_PENDING"
| lc_stopped: "lifecycle GXF_ENTITY_STATUS_STOP_PENDING GXF_ENTITY_STATUS_NOT_STARTED"

inductive_cases lifecycle_stuckE: "lifecycle GXF_ENTITY_STATUS_START_PENDING s"

lemmas lifecycle_intros = lc_start lc_started lc_tick lc_ticking lc_idle lc_resume lc_stop lc_stopped

text \<open>The only way out of START_PENDING is a start that succeeds.\<close>

lemma lifecycle_from_START_PENDING: "lifecycle GXF_ENTITY_STATUS_START_PENDING s \<Longrightarrow> s = GXF_ENTITY_STATUS_STARTED"
  by (erule lifecycle_stuckE) auto

lemma start_status:
  assumes "item_start x ss timestamp (i, w) = (r, i', w')"
  shows "if status i = GXF_ENTITY_STATUS_NOT_STARTED
    then status i' = (if ok r then GXF_ENTITY_STATUS_STARTED else GXF_ENTITY_STATUS_START_PENDING)
    else i' = i \<and> w' = w \<and> r = Inl GXF_INVALID_LIFECYCLE_STAGE"
  using assms
  by (auto simp: item_start_def setEntityStatus_def Let_def split: if_splits prod.splits sum.splits)

lemma tick_status:
  assumes "item_tick x ss timestamp (i, w) = (r, i', w')" "status i = GXF_ENTITY_STATUS_TICK_PENDING"
  shows "if ok r then status i' = GXF_ENTITY_STATUS_IDLE
    else status i' \<in> {GXF_ENTITY_STATUS_TICK_PENDING, GXF_ENTITY_STATUS_TICKING}"
  using assms
  by (auto simp: item_tick_def ForwardError_def setEntityStatus_def Let_def split: if_splits prod.splits sum.splits)

definition stoppable :: "gxf_entity_status_t set" where
  "stoppable = {GXF_ENTITY_STATUS_STARTED, GXF_ENTITY_STATUS_IDLE, GXF_ENTITY_STATUS_TICK_PENDING,
     GXF_ENTITY_STATUS_TICKING}"

lemma stop_status:
  assumes "item_stop x ss (i, w) = (r, i', w')"
  shows "if status i \<in> stoppable then status i' = GXF_ENTITY_STATUS_NOT_STARTED
    else i' = i \<and> w' = w \<and> r = Inl GXF_INVALID_LIFECYCLE_STAGE"
  using assms
  by (auto simp: item_stop_def stoppable_def setEntityStatus_def Let_def split: if_splits prod.splits)

lemma lifecycle_stop: "s \<in> stoppable \<Longrightarrow> lifecycle\<^sup>*\<^sup>* s GXF_ENTITY_STATUS_NOT_STARTED"
  unfolding stoppable_def by (rule converse_rtranclp_into_rtranclp, erule lc_stop) (rule r_into_rtranclp, rule lc_stopped)

text \<open>After the tick.\<close>

lemma after_tick_status:
  assumes "after_tick x ss timestamp c code (i, w) = (r, i', w')"
    "status i \<in> {GXF_ENTITY_STATUS_TICK_PENDING, GXF_ENTITY_STATUS_TICKING, GXF_ENTITY_STATUS_IDLE}"
    "ok code \<Longrightarrow> status i = GXF_ENTITY_STATUS_IDLE" "sc_type c = READY"
  shows "lifecycle\<^sup>*\<^sup>* (status i) (status i') \<and> same_entity i i' \<and>
    (\<forall>d. r = Inr d \<longrightarrow> sc_type d = READY \<and> status i' \<in> {GXF_ENTITY_STATUS_STARTED, GXF_ENTITY_STATUS_IDLE}
       \<or> sc_type d = NEVER \<and> controller i' \<noteq> None)"
proof -
  obtain rf i1 where f: "find_controller x i w = (rf, i1)" by fastforce
  have i1: "status i1 = status i" "same_entity i i1"
    using f by (auto simp: find_controller_def split: if_splits option.splits sum.splits)
  have stp: "status i1 \<in> stoppable" using i1 assms(2) by (auto simp: stoppable_def)
  have res: "lifecycle\<^sup>*\<^sup>* (status i) GXF_ENTITY_STATUS_STARTED"
    using assms(2) by (intro r_into_rtranclp lc_resume)
  show ?thesis
  proof (cases rf)
    case (Inl e)
    then have "rf = Inl GXF_FAILURE" using f
      by (auto simp: find_controller_def split: if_splits option.splits sum.splits)
    then show ?thesis using assms f i1 by (auto simp: after_tick_def)
  next
    case (Inr u)
    show ?thesis
    proof (cases "controller i1")
      case None
      show ?thesis
      proof (cases code)
        case (Inl e)
        obtain r2 i2 w2 where s: "item_stop x ss (i1, w) = (r2, i2, w2)" by (metis prod_cases3)
        have "i' = i2" "r = Inl e" using assms(1) f Inr None Inl s by (auto simp: after_tick_def ForwardError_def)
        then show ?thesis
          using stop_status[OF s] same_entity_stop[OF s] stp i1 lifecycle_stop same_entity_trans by fastforce
      next
        case (Inr u')
        then show ?thesis using assms f \<open>rf = Inr u\<close> None i1 by (auto simp: after_tick_def)
      qed
    next
      case (Some cid)
      obtain cs w1 where c: "x_control x cid (ei_entity i1) code w = (cs, w1)" by fastforce
      let ?i = "i1\<lparr>behavior_status := cs_behavior_status cs\<rparr>"
      obtain w2 where s: "setEntityStatus x ss GXF_ENTITY_STATUS_STARTED (?i, w1)
          = (?i\<lparr>status := GXF_ENTITY_STATUS_STARTED\<rparr>, w2)" by (simp add: setEntityStatus_def)
      obtain r3 i3 w3 where st: "item_stop x ss (?i\<lparr>status := GXF_ENTITY_STATUS_STARTED\<rparr>, w2) = (r3, i3, w3)"
        by (metis prod_cases3)
      have i3: "status i3 = GXF_ENTITY_STATUS_NOT_STARTED" "same_entity i1 i3"
        using stop_status[OF st] same_entity_stop[OF st]
        by (auto simp: stoppable_def same_entity_def)
      have c3: "controller i3 = Some cid"
        using st Some by (auto simp: item_stop_def setEntityStatus_def Let_def split: prod.splits if_splits)
      have l3: "lifecycle\<^sup>*\<^sup>* (status i) (status i3)"
        unfolding i3(1) using res lifecycle_stop[of GXF_ENTITY_STATUS_STARTED]
        by (auto simp: stoppable_def)
      show ?thesis
        using assms(1) f Inr Some c s st i1 i3 res c3 l3 same_entity_trans[OF i1(2) i3(2)]
        by (auto simp: after_tick_def controller_policy_def Let_def
            split: gxf_execution_status_t.splits if_splits)
    qed
  qed
qed

lemma run_condition_status:
  assumes "run_condition x ss timestamp c (i, w) = ((r, v), i', w')"
    "status i \<in> {GXF_ENTITY_STATUS_STARTED, GXF_ENTITY_STATUS_IDLE}"
  shows "lifecycle\<^sup>*\<^sup>* (status i) (status i') \<and> same_entity i i' \<and>
    (\<forall>d. r = Inr d \<longrightarrow> sc_type d = READY \<longrightarrow> status i' \<in> {GXF_ENTITY_STATUS_STARTED, GXF_ENTITY_STATUS_IDLE}) \<and>
    (\<forall>d. r = Inr d \<longrightarrow> sc_type d = NEVER \<longrightarrow> controller i' = None \<longrightarrow> status i' = GXF_ENTITY_STATUS_NOT_STARTED)"
proof -
  consider "sc_type c = READY" | "sc_type c = NEVER" | "sc_type c \<notin> {READY, NEVER}" by blast
  then show ?thesis
  proof cases
    case 1
    let ?i = "i\<lparr>status := GXF_ENTITY_STATUS_TICK_PENDING\<rparr>"
    obtain w1 where s: "setEntityStatus x ss GXF_ENTITY_STATUS_TICK_PENDING (i, w) = (?i, w1)"
      by (simp add: setEntityStatus_def)
    obtain code i2 w2 where t: "item_tick x ss timestamp (?i, w1) = (code, i2, w2)" by (metis prod_cases3)
    obtain r3 i3 w3 where a: "after_tick x ss timestamp c code (i2, w2) = (r3, i3, w3)" by (metis prod_cases3)
    have e: "i' = i3" "r = r3" using assms 1 s t a by (simp_all add: run_condition_def)
    have t2: "if ok code then status i2 = GXF_ENTITY_STATUS_IDLE
        else status i2 \<in> {GXF_ENTITY_STATUS_TICK_PENDING, GXF_ENTITY_STATUS_TICKING}"
      using tick_status[OF t] by simp
    have "lifecycle\<^sup>*\<^sup>* (status i) GXF_ENTITY_STATUS_TICK_PENDING" using assms(2) by (intro r_into_rtranclp lc_tick)
    moreover have "lifecycle\<^sup>*\<^sup>* GXF_ENTITY_STATUS_TICK_PENDING (status i2)"
      using t2 lc_ticking lc_idle
      by (cases "ok code") (auto intro: r_into_rtranclp converse_rtranclp_into_rtranclp)
    moreover have a2: "lifecycle\<^sup>*\<^sup>* (status i2) (status i3) \<and> same_entity i2 i3 \<and>
        (\<forall>d. r3 = Inr d \<longrightarrow> sc_type d = READY \<and> status i3 \<in> {GXF_ENTITY_STATUS_STARTED, GXF_ENTITY_STATUS_IDLE}
          \<or> sc_type d = NEVER \<and> controller i3 \<noteq> None)"
      using after_tick_status[OF a] t2 1 by (auto split: if_splits)
    moreover have "same_entity i i3"
      using same_entity_tick[OF t] a2 by (auto simp: same_entity_def)
    ultimately show ?thesis unfolding e by (metis SchedulingConditionType.distinct(1) rtranclp_trans)
  next
    case 2
    obtain r1 i1 w1 where s: "item_stop x ss (i, w) = (r1, i1, w1)" by (metis prod_cases3)
    have "status i \<in> stoppable" using assms(2) by (auto simp: stoppable_def)
    then show ?thesis using assms 2 s stop_status[OF s] same_entity_stop[OF s] lifecycle_stop
      by (auto simp: run_condition_def split: sum.splits)
  next
    case 3
    then show ?thesis using assms
      by (auto simp: run_condition_def split: SchedulingConditionType.splits)
  qed
qed

text \<open>An execution that ends READY and IDLE ticked completely.\<close>

lemma after_tick_idle:
  assumes "after_tick x ss timestamp c code (i, w) = (Inr d, i', w')" "sc_type d = READY"
    "status i' = GXF_ENTITY_STATUS_IDLE"
  shows "ok code \<and> w' = w"
proof -
  obtain rf i1 where f: "find_controller x i w = (rf, i1)" by fastforce
  obtain u where u: "rf = Inr u" using assms f by (cases rf) (auto simp: after_tick_def)
  show ?thesis
  proof (cases "controller i1")
    case None
    then show ?thesis using assms f u
      by (auto simp: after_tick_def ForwardError_def split: sum.splits prod.splits)
  next
    case (Some cid)
    obtain cs w1 where c: "x_control x cid (ei_entity i1) code w = (cs, w1)" by fastforce
    show ?thesis using assms f u Some c
      by (cases "cs_exec_status cs")
        (auto simp: after_tick_def controller_policy_def setEntityStatus_def Let_def
          split: if_splits prod.splits)
  qed
qed

context call_log begin

lemma execute_complete:
  assumes "item_execute x ss True timestamp (i, w) = ((Inr d, v), i', w')" "sc_type d = READY"
    "status i' = GXF_ENTITY_STATUS_IDLE"
  shows "log w' = log w @ tick_calls timestamp i"
proof -
  have nn: "status i \<noteq> GXF_ENTITY_STATUS_START_PENDING" "status i \<noteq> GXF_ENTITY_STATUS_TICK_PENDING"
    "status i \<noteq> GXF_ENTITY_STATUS_TICKING" "status i \<noteq> GXF_ENTITY_STATUS_STOP_PENDING"
    using assms(1) by (auto simp: item_execute_def)
  have ns: "status i \<noteq> GXF_ENTITY_STATUS_NOT_STARTED"
  proof
    assume n: "status i = GXF_ENTITY_STATUS_NOT_STARTED"
    obtain r1 i1 w1 where s: "item_start x ss timestamp (i, w) = (r1, i1, w1)" by (metis prod_cases3)
    show False using assms n s start_status[OF s] by (auto simp: item_execute_def split: sum.splits if_splits)
  qed
  obtain rc w1 where c: "item_check x ss timestamp i w = (rc, w1)" by fastforce
  have l1: "log w1 = log w" using log_item_check[of ss timestamp i w] c by simp
  obtain cd where cd: "rc = Inr cd" "\<not> (sc_type cd = WAIT_TIME \<and> \<not> sc_target cd \<le> timestamp)"
    using assms nn ns c by (cases rc) (auto simp: item_execute_def ForwardError_def split: prod.splits if_splits)
  let ?c = "if sc_type cd = WAIT_TIME then cond READY (sc_target cd) else cd"
  have run: "run_condition x ss timestamp ?c (i, w1) = ((Inr d, v), i', w')"
    using assms nn ns c cd by (auto simp: item_execute_def)
  have ready: "sc_type ?c = READY"
    using run assms(2) by (auto simp: run_condition_def split: SchedulingConditionType.splits prod.splits sum.splits if_splits)
  let ?i = "i\<lparr>status := GXF_ENTITY_STATUS_TICK_PENDING\<rparr>"
  obtain w2 where s: "setEntityStatus x ss GXF_ENTITY_STATUS_TICK_PENDING (i, w1) = (?i, w2)" "log w2 = log w1"
    by (simp add: setEntityStatus_def)
  obtain code i3 w3 where t: "item_tick x ss timestamp (?i, w2) = (code, i3, w3)" by (metis prod_cases3)
  obtain r4 i4 w4 where a: "after_tick x ss timestamp ?c code (i3, w3) = (r4, i4, w4)" by (metis prod_cases3)
  have e: "r4 = Inr d" "i4 = i'" "w4 = w'" using run ready s t a by (auto simp: run_condition_def)
  have "ok code" "w' = w3" using after_tick_idle[OF a[unfolded e] assms(2,3)] by auto
  moreover have "tick_calls timestamp ?i = tick_calls timestamp i" by (simp add: tick_calls_def)
  ultimately show ?thesis using tick_log[OF t] s(2) l1 by metis
qed

end

section \<open>Properties\<close>

text \<open>The surroundings extended with a log of the calls.\<close>

definition logged :: "'w Ext \<Rightarrow> ('w \<times> call list) Ext" where
  "logged x = \<lparr>
     x_call = (\<lambda>c (w, l). let (r, w1) = x_call x c w in (r, w1, l @ [c])),
     x_check = (\<lambda>t n (w, l). let (r, w1) = x_check x t n w in (r, w1, l)),
     x_combine = x_combine x, x_term_list = x_term_list x, x_uninitialised = x_uninitialised x,
     x_find_controller = (\<lambda>e (w, l). x_find_controller x e w),
     x_control = (\<lambda>cid e code (w, l). let (r, w1) = x_control x cid e code w in (r, w1, l)),
     x_stat = (\<lambda>s ev (w, l). (x_stat x s ev w, l)),
     x_codelet_stat = x_codelet_stat x,
     x_monitor = (\<lambda>m e n r (w, l). (x_monitor x m e n r w, l)),
     x_shared = (\<lambda>e (w, l). x_shared x e w),
     x_find_all = (\<lambda>k e (w, l). x_find_all x k e w),
     x_receivers = (\<lambda>t (w, l). x_receivers x t w),
     x_set_receivers = (\<lambda>t rs (w, l). (x_set_receivers x t rs w, l))\<rparr>"

interpretation logged: call_log "logged x" snd for x :: "'w Ext"
  by unfold_locales (simp_all add: logged_def Let_def split: prod.splits)

text \<open>Surroundings in which everything succeeds and every term is READY.\<close>

definition ext_ok :: "unit Ext" where
  "ext_ok = \<lparr>
     x_call = (\<lambda>c w. (GXF_SUCCESS, w)), x_check = (\<lambda>t n w. (Inr (cond READY 0), w)),
     x_combine = (\<lambda>_. OrCombine), x_term_list = (\<lambda>cb. if cb = 9 then [4] else []),
     x_uninitialised = cond NEVER 0, x_find_controller = (\<lambda>_ _. None),
     x_control = (\<lambda>_ _ _ w. (\<lparr>cs_behavior_status = GXF_BEHAVIOR_SUCCESS, cs_exec_status = GXF_EXECUTE_SUCCESS\<rparr>, w)),
     x_stat = (\<lambda>_ _ w. w), x_codelet_stat = (\<lambda>_. False), x_monitor = (\<lambda>_ _ _ _ w. w),
     x_shared = (\<lambda>_ _. Inr ()),
     x_find_all = (\<lambda>k _ _. Inr (case k of DownstreamReceptive \<Rightarrow> [] | Term \<Rightarrow> [3, 4] | Combiner \<Rightarrow> [9] | Codelet \<Rightarrow> [2])),
     x_receivers = (\<lambda>_ _. Inr []), x_set_receivers = (\<lambda>_ _ w. w)\<rparr>"

definition item_demo :: "gxf_entity_status_t \<Rightarrow> EntityItem" where
  "item_demo s = \<lparr>ei_entity = 1, behavior_status = GXF_BEHAVIOR_INIT, controller = None,
     downstream_receptive_terms = [], terms = [3], codelets = [2], combiners = [],
     last_execution_timestamp = 0, status = s, codelet_time = (\<lambda>_. \<lparr>execution_count = 0,
     previous_execution_timestamp = 0, execution_timestamp = 0\<rparr>)\<rparr>"

lemma demo_execute:
  "item_execute (logged ext_ok) [] True 5 (item_demo GXF_ENTITY_STATUS_IDLE, (), []) =
   ((Inr (cond READY 0), 5),
    (update_times (beforeTick 5) (item_demo GXF_ENTITY_STATUS_IDLE))\<lparr>last_execution_timestamp := 5\<rparr>, (),
    tick_calls 5 (item_demo GXF_ENTITY_STATUS_IDLE))"
  by (simp add: item_execute_def item_demo_def item_check_def check_term_def logged_def ext_ok_def
      each_stat_def AndCombine_def run_condition_def setEntityStatus_def item_tick_def router_call_def
      ExpectedOrCode_def update_times_def tickCodelet_def onExecute_def after_tick_def find_controller_def
      tick_calls_def Let_def)

lemma execute_status:
  assumes "item_execute x ss True timestamp (i, w) = ((r, v), i', w')"
  shows "lifecycle\<^sup>*\<^sup>* (status i) (status i') \<and> same_entity i i' \<and>
    (\<forall>d. r = Inr d \<longrightarrow> sc_type d = READY \<longrightarrow> status i' \<in> {GXF_ENTITY_STATUS_STARTED, GXF_ENTITY_STATUS_IDLE}) \<and>
    (\<forall>d. r = Inr d \<longrightarrow> sc_type d = NEVER \<longrightarrow> controller i' = None \<longrightarrow> status i' = GXF_ENTITY_STATUS_NOT_STARTED) \<and>
    (status i \<in> {GXF_ENTITY_STATUS_START_PENDING, GXF_ENTITY_STATUS_TICK_PENDING,
       GXF_ENTITY_STATUS_TICKING, GXF_ENTITY_STATUS_STOP_PENDING} \<longrightarrow>
       r = Inl GXF_INVALID_EXECUTION_SEQUENCE \<and> i' = i \<and> w' = w)"
proof -
  consider "status i \<in> {GXF_ENTITY_STATUS_START_PENDING, GXF_ENTITY_STATUS_TICK_PENDING,
      GXF_ENTITY_STATUS_TICKING, GXF_ENTITY_STATUS_STOP_PENDING}"
    | "status i = GXF_ENTITY_STATUS_NOT_STARTED"
    | "status i \<in> {GXF_ENTITY_STATUS_STARTED, GXF_ENTITY_STATUS_IDLE}"
    by (cases "status i") auto
  then show ?thesis
  proof cases
    case 1
    then show ?thesis using assms by (auto simp: item_execute_def)
  next
    case 2
    obtain r1 i1 w1 where s: "item_start x ss timestamp (i, w) = (r1, i1, w1)" by (metis prod_cases3)
    then show ?thesis using assms 2 start_status[OF s] same_entity_start[OF s] lc_start lc_started
      by (auto simp: item_execute_def split: sum.splits if_splits
          intro: converse_rtranclp_into_rtranclp)
  next
    case 3
    obtain rc w1 where c: "item_check x ss timestamp i w = (rc, w1)" by fastforce
    have stp: "status i \<in> stoppable" using 3 by (auto simp: stoppable_def)
    show ?thesis
    proof (cases rc)
      case (Inl e)
      obtain r2 i2 w2 where s: "item_stop x ss (i, w1) = (r2, i2, w2)" by (metis prod_cases3)
      then show ?thesis using assms 3 c Inl stop_status[OF s] same_entity_stop[OF s] stp lifecycle_stop
        by (auto simp: item_execute_def ForwardError_def)
    next
      case (Inr cd)
      show ?thesis
      proof (cases "sc_type cd = WAIT_TIME \<and> \<not> sc_target cd \<le> timestamp")
        case True
        then show ?thesis using assms 3 c Inr by (auto simp: item_execute_def)
      next
        case False
        then have "run_condition x ss timestamp
            (if sc_type cd = WAIT_TIME then cond READY (sc_target cd) else cd) (i, w1) = ((r, v), i', w')"
          using assms 3 c Inr by (auto simp: item_execute_def)
        then show ?thesis using run_condition_status 3 by fastforce
      qed
    qed
  qed
qed



lemma execute_new_calls:
  assumes "item_execute (logged x) ss True timestamp (i, w, l) = ((r, v), i', w', l')"
  shows "\<exists>calls. l' = l @ calls \<and>
    ((\<exists>c n. CallTick c n \<in> set calls) \<longrightarrow> status i \<in> {GXF_ENTITY_STATUS_STARTED, GXF_ENTITY_STATUS_IDLE} \<and>
       (\<exists>c w1. item_check (logged x) ss timestamp i (w, l) = (Inr c, w1) \<and> permitted c timestamp)) \<and>
    (\<forall>t n. CallOnExecute t n \<in> set calls \<longrightarrow> t \<in> set (terms i)) \<and>
    (\<forall>c n. CallTick c n \<in> set calls \<longrightarrow> c \<in> set (codelets i)) \<and>
    (\<forall>d. r = Inr d \<longrightarrow> sc_type d = READY \<longrightarrow> status i' = GXF_ENTITY_STATUS_IDLE \<longrightarrow>
       calls = tick_calls timestamp i)"
proof -
  have fin: "(\<forall>c \<in> set calls. c \<in> set (tick_calls timestamp i) \<or> c \<in> set (start_calls timestamp i) \<or> (\<exists>k t. c = CallStop k t)) \<Longrightarrow>
     (\<forall>t n. CallOnExecute t n \<in> set calls \<longrightarrow> t \<in> set (terms i)) \<and>
     (\<forall>c n. CallTick c n \<in> set calls \<longrightarrow> c \<in> set (codelets i))" for calls
    by (fastforce simp: tick_calls_def start_calls_def)
  from assms have "item_execute (logged x) ss True timestamp (i, (w, l)) = ((r, v), i', (w', l'))" by simp
  then show ?thesis
  proof (rule logged.execute_log)
    fix a b
    assume h: "snd (w', l') = snd (w, l) @ a @ b" "only_stops b"
      "a = [] \<or> (status i = GXF_ENTITY_STATUS_NOT_STARTED \<and> prefix a (start_calls timestamp i)) \<or>
     (status i \<in> {GXF_ENTITY_STATUS_STARTED, GXF_ENTITY_STATUS_IDLE} \<and> prefix a (tick_calls timestamp i) \<and>
      (\<exists>c w1. item_check (logged x) ss timestamp i (w, l) = (Inr c, w1) \<and> permitted c timestamp))"
    have nt: "\<not> (\<exists>c n. CallTick c n \<in> set b)" using h(2) by (auto simp: only_stops_def)
    have ns: "\<not> (\<exists>c n. CallTick c n \<in> set a)" if "prefix a (start_calls timestamp i)"
      using that by (auto simp: start_calls_def dest!: set_mono_prefix)
    have "\<forall>c \<in> set (a @ b). c \<in> set (tick_calls timestamp i) \<or> c \<in> set (start_calls timestamp i) \<or> (\<exists>k t. c = CallStop k t)"
      using h(2,3) by (auto simp: only_stops_def dest!: set_mono_prefix)
    moreover have "a @ b = tick_calls timestamp i"
      if "r = Inr d" "sc_type d = READY" "status i' = GXF_ENTITY_STATUS_IDLE" for d
      using logged.execute_complete[of x ss timestamp i "(w, l)" d v i' "(w', l')"] assms that h(1) by simp
    ultimately show ?thesis using fin[of "a @ b"] h nt ns by (intro exI[of _ "a @ b"]) auto
  qed
qed

text \<open>C10: what an execution calls.  Codelets tick only if the entity is STARTED or IDLE and its check
  permits it: READY, or WAIT_TIME with a target that has come.  When the execution ends READY and IDLE,
  it called exactly: the sync of the inbox, every codelet's tick in order, every term's onExecute in
  order, the sync of the outbox.  Terms that are not in the term list get no onExecute at all.\<close>

theorem execute_calls:
  assumes "item_execute (logged x) ss True timestamp (i, w, l) = ((r, v), i', w', l')"
  shows "\<exists>calls. l' = l @ calls \<and>
    ((\<exists>c n. CallTick c n \<in> set calls) \<longrightarrow> status i \<in> {GXF_ENTITY_STATUS_STARTED, GXF_ENTITY_STATUS_IDLE} \<and>
       (\<exists>c w1. item_check (logged x) ss timestamp i (w, l) = (Inr c, w1) \<and> permitted c timestamp)) \<and>
    (\<forall>t n. CallOnExecute t n \<in> set calls \<longrightarrow> t \<in> set (terms i)) \<and>
    (\<forall>c n. CallTick c n \<in> set calls \<longrightarrow> c \<in> set (codelets i)) \<and>
    (\<forall>d. r = Inr d \<longrightarrow> sc_type d = READY \<longrightarrow> status i' = GXF_ENTITY_STATUS_IDLE \<longrightarrow>
       calls = tick_calls timestamp i)"
  using assms by (rule execute_new_calls)

lemma execute_calls_witness:
  "\<exists>calls. tick_calls 5 (item_demo GXF_ENTITY_STATUS_IDLE) = [] @ calls \<and>
    (\<forall>t n. CallOnExecute t n \<in> set calls \<longrightarrow> t \<in> {3}) \<and>
    calls = [CallSyncInbox 1, CallTick 2 \<lparr>execution_count = 1, previous_execution_timestamp = 0,
      execution_timestamp = 5\<rparr>, CallOnExecute 3 5, CallSyncOutbox 1]"
  using execute_calls[OF demo_execute]
  by (auto simp: item_demo_def tick_calls_def update_times_def beforeTick_def)

text \<open>the condition of an entity without combiners is the conjunction of the conditions its terms
  reported: READY exactly if all are READY, NEVER exactly if one is NEVER, and if it waits for a time
  then no term reported anything stronger than WAIT_TIME and the target is the latest of theirs.\<close>

theorem check_meaning:
  assumes "item_check x ss timestamp i w = (Inr c, w')" "combiners i = []"
  shows "\<exists>cs. list_all2 (\<lambda>t d. \<exists>v v'. x_check x t timestamp v = (Inr d, v')) (terms i) cs \<and>
    (sc_type c = READY \<longleftrightarrow> (\<forall>d \<in> set cs. sc_type d = READY)) \<and>
    (sc_type c = NEVER \<longleftrightarrow> (\<exists>d \<in> set cs. sc_type d = NEVER)) \<and>
    (sc_type c = WAIT_TIME \<longrightarrow>
       (\<forall>d \<in> set cs. sc_type d \<in> {READY, WAIT_TIME}) \<and>
       sc_target c = Max (sc_target ` {d \<in> set cs. sc_type d = WAIT_TIME}))"
proof -
  have loop: "terms_loop x ss e timestamp acc ts v = (Inr c, v') \<Longrightarrow>
      \<exists>cs. list_all2 (\<lambda>t d. \<exists>v v'. x_check x t timestamp v = (Inr d, v')) ts cs \<and>
        c = and_combiner.combine_all acc cs" for e acc ts v v'
  proof (induction ts arbitrary: acc v)
    case (Cons t ts)
    then obtain d v1 where d: "check_term x ss e timestamp t v = (Inr d, v1)"
      "terms_loop x ss e timestamp (AndCombine acc d) ts v1 = (Inr c, v')"
      by (auto simp: ForwardError_def split: prod.splits sum.splits)
    from Cons.IH[OF d(2)] obtain cs where
      "list_all2 (\<lambda>t d. \<exists>v v'. x_check x t timestamp v = (Inr d, v')) ts cs"
      "c = and_combiner.combine_all (AndCombine acc d) cs" by blast
    moreover have "\<exists>v v'. x_check x t timestamp v = (Inr d, v')"
      using d(1) by (auto simp: check_term_def split: prod.splits sum.splits)
    ultimately show ?case by (intro exI[of _ "d # cs"]) simp
  qed simp
  obtain cs where cs: "list_all2 (\<lambda>t d. \<exists>v v'. x_check x t timestamp v = (Inr d, v')) (terms i) cs"
    "c = and_combiner.combine_all (cond READY 0) cs"
    using assms loop[of "ei_entity i" "cond READY 0" "terms i" w w'] by (auto simp: item_check_def)
  have wt: "(\<forall>d \<in> set cs. sc_type d \<in> {READY, WAIT_TIME}) \<and>
       sc_target c = Max (sc_target ` {d \<in> set cs. sc_type d = WAIT_TIME})" if w: "sc_type c = WAIT_TIME"
  proof
    have "and_rank (sc_type d) \<le> 1" if "d \<in> set cs" for d
      using and_all_rank[of "cond READY 0" cs] w that by (simp add: cs(2) and_rank_def)
    then show "\<forall>d \<in> set cs. sc_type d \<in> {READY, WAIT_TIME}"
      using and_rank_le_1 by blast
    show "sc_target c = Max (sc_target ` {d \<in> set cs. sc_type d = WAIT_TIME})"
      using and_all_WAIT_TIME[of "cond READY 0" cs] w
      by (intro Max_eqI[symmetric]) (auto simp: cs(2) image_iff)
  qed
  show ?thesis using cs(1) wt
    by (intro exI[of _ cs]) (auto simp: cs(2) and_all_READY and_combiner.combine_all_never)
qed

lemma check_meaning_witness:
  "\<exists>cs. list_all2 (\<lambda>t d. \<exists>v v'. x_check ext_ok t 5 v = (Inr d, v')) [3] cs \<and> (\<forall>d \<in> set cs. sc_type d = READY)"
  using check_meaning[of ext_ok "[]" 5 "item_demo GXF_ENTITY_STATUS_IDLE" "()" "cond READY 0" "()"]
  by (auto simp: item_check_def item_demo_def check_term_def ext_ok_def each_stat_def AndCombine_def)

text \<open>when the start of a codelet fails, the entity stays START_PENDING for good: every later
  execution and every deactivation returns an error and changes nothing, so the codelets that did start
  are never stopped.\<close>

theorem failed_start_is_final:
  assumes "status i = GXF_ENTITY_STATUS_NOT_STARTED" "fst (item_start x ss timestamp (i, w)) = Inl e"
    "snd (item_start x ss timestamp (i, w)) = (i', w')"
  shows "item_execute x ss True n (i', v) = ((Inl GXF_INVALID_EXECUTION_SEQUENCE, 0), i', v) \<and>
    item_deactivate x ss (i', v) = (Inl GXF_INVALID_LIFECYCLE_STAGE, i', v)"
proof -
  have "status i' = GXF_ENTITY_STATUS_START_PENDING"
    using start_status[of x ss timestamp i w "Inl e" i' w'] assms by (simp add: prod_eq_iff)
  then show ?thesis by (simp add: item_execute_def item_deactivate_def item_stop_def)
qed

definition ext_fail :: "unit Ext" where
  "ext_fail = ext_ok\<lparr>x_call := (\<lambda>c w. (GXF_FAILURE, w))\<rparr>"

lemma failed_start_is_final_witness:
  "item_deactivate ext_fail []
     (fst (snd (item_start ext_fail [] 5 (item_demo GXF_ENTITY_STATUS_NOT_STARTED, ()))), ())
   = (Inl GXF_INVALID_LIFECYCLE_STAGE,
      fst (snd (item_start ext_fail [] 5 (item_demo GXF_ENTITY_STATUS_NOT_STARTED, ()))), ())"
proof -
  have "fst (item_start ext_fail [] 5 (item_demo GXF_ENTITY_STATUS_NOT_STARTED, ())) = Inl GXF_FAILURE"
    by (simp add: item_demo_def item_start_def setEntityStatus_def each_stat_def update_times_def
        startCodelet_def ext_fail_def ext_ok_def ExpectedOrCode_def Let_def)
  from failed_start_is_final[OF _ this, of _ "()" 6 "()"] show ?thesis
    by (simp add: item_demo_def prod_eq_iff)
qed

fun execute_all :: "'w Ext \<Rightarrow> gxf_uid_t list \<Rightarrow> int list \<Rightarrow> EntityItem \<times> 'w \<Rightarrow> EntityItem \<times> 'w" where
  "execute_all x ss [] s = s"
| "execute_all x ss (n # ns) s = execute_all x ss ns (snd (item_execute x ss True n s))"

text \<open>the terms of a combiner are never told about executions.  Once an entity is activated, no
  execution calls onExecute on a term that belongs to one of its combiners, so a count or periodic term
  inside a combiner never advances.\<close>

theorem combiner_terms_never_executed:
  assumes "item_activate x ss True e (i0, w0) = (Inr b, i, w1)"
    "execute_all (logged y) ss ns (i, w, l) = (i', w', l')"
    "t \<in> terms_in_combiners x (combiners i)"
  shows "CallOnExecute t n \<in> set l' \<longrightarrow> CallOnExecute t n \<in> set l"
proof -
  have erase: "set (erase_combined S ts) = set ts - S" for S ts
    by (induction ts) auto
  have t: "t \<notin> set (terms i)"
    using assms(1,3)
    by (auto simp: item_activate_def setEntityStatus_def erase Let_def ForwardError_def split: if_splits prod.splits sum.splits)
  show ?thesis using assms(2) t
  proof (induction ns arbitrary: i w l)
    case (Cons k ns)
    obtain r v i1 w2 l2 where ex: "item_execute (logged y) ss True k (i, w, l) = ((r, v), i1, w2, l2)"
      by (metis prod.collapse)
    have "terms i1 = terms i"
      using execute_status[OF ex] by (simp add: same_entity_def)
    moreover have "CallOnExecute t n \<in> set l2 \<longrightarrow> CallOnExecute t n \<in> set l"
      using execute_new_calls[OF ex] Cons.prems(2) by (metis Un_iff set_append)
    ultimately show ?case using Cons.IH[of i1 w2 l2] Cons.prems ex by auto
  qed simp
qed


lemma combiner_terms_never_executed_witness:
  "CallOnExecute 4 7 \<notin> set (snd (snd (execute_all (logged ext_ok) [] [5, 6, 7]
     (fst (snd (item_activate ext_ok [] True 1 (item_demo GXF_ENTITY_STATUS_NOT_STARTED, ()))), (), []))))"
proof -
  let ?i = "fst (snd (item_activate ext_ok [] True 1 (item_demo GXF_ENTITY_STATUS_NOT_STARTED, ())))"
  have a: "item_activate ext_ok [] True 1 (item_demo GXF_ENTITY_STATUS_NOT_STARTED, ()) = (Inr True, ?i, ())"
    and b: "4 \<in> terms_in_combiners ext_ok (combiners ?i)"
    by (simp_all add: item_activate_def setEntityStatus_def each_stat_def find_components_def ext_ok_def
        terms_in_combiners_def item_demo_def)
  obtain i' w' l' where e: "execute_all (logged ext_ok) [] [5, 6, 7] (?i, (), []) = (i', w', l')"
    by (metis prod_cases3)
  show ?thesis using combiner_terms_never_executed[OF a e b, of 7] e by simp
qed

end
