(* ===== verification/Message_Router.thy ===== *)
theory Message_Router
  imports Prelude Message_Buffers
begin

text \<open>
  gxf/std/message_router.cpp, router_group.cpp, network_router.cpp and system_group.cpp: the routes
  between transmitters and receivers, and the movement of messages along them.  A handle is its
  component id and the null handle is kNullUid.  The queues behind a handle are reached by virtual
  calls: they are the fields of 'w Queues, and a locale states what the router relies on.  The
  while loop that empties a transmitter is a partial function, since nothing bounds it in general.
\<close>

section \<open>Routes\<close>

record MessageRouter =
  routes :: "gxf_uid_t \<rightharpoonup> gxf_uid_t list"
  routes_reversed :: "gxf_uid_t \<rightharpoonup> gxf_uid_t list"
  topic_and_transmitters :: "string \<rightharpoonup> gxf_uid_t list"
  topic_and_receivers :: "string \<rightharpoonup> gxf_uid_t list"
  receivers_of :: "gxf_uid_t \<rightharpoonup> gxf_uid_t list"
  transmitters_of :: "gxf_uid_t \<rightharpoonup> gxf_uid_t list"
  transmitter_and_topic :: "gxf_uid_t \<rightharpoonup> string"
  receiver_and_topic :: "gxf_uid_t \<rightharpoonup> string"
  transmitter_of_rx :: "gxf_uid_t \<Rightarrow> gxf_uid_t"

definition mr_connect :: "gxf_uid_t \<Rightarrow> gxf_uid_t \<Rightarrow> MessageRouter \<Rightarrow> unit expected \<times> MessageRouter" where
  "mr_connect tx rx m =
     (if tx = kNullUid \<or> rx = kNullUid then (Unexpected GXF_ARGUMENT_NULL, m)
      else (Success, m\<lparr>routes := set_add tx rx (routes m),
                       routes_reversed := set_add rx tx (routes_reversed m),
                       transmitter_of_rx := (transmitter_of_rx m)(rx := tx)\<rparr>))"

definition mr_disconnect :: "gxf_uid_t \<Rightarrow> gxf_uid_t \<Rightarrow> MessageRouter \<Rightarrow> unit expected \<times> MessageRouter" where
  "mr_disconnect tx rx m =
     (if tx = kNullUid \<or> rx = kNullUid then (Unexpected GXF_ARGUMENT_NULL, m)
      else case routes m tx of
        None \<Rightarrow> (Unexpected GXF_ENTITY_COMPONENT_NOT_FOUND, m)
      | Some rs \<Rightarrow>
          (if rx \<notin> set rs then (Unexpected GXF_ENTITY_COMPONENT_NOT_FOUND, m)
           else let m1 = m\<lparr>routes := (routes m)(tx \<mapsto> removeAll rx rs)\<rparr> in
             case routes_reversed m1 rx of
               None \<Rightarrow> (Unexpected GXF_ENTITY_COMPONENT_NOT_FOUND, m1)
             | Some ts \<Rightarrow>
                 (if tx \<notin> set ts then (Unexpected GXF_ENTITY_COMPONENT_NOT_FOUND, m1)
                  else (Success, m1\<lparr>routes_reversed := (routes_reversed m1)(rx \<mapsto> removeAll tx ts)\<rparr>))))"

definition mr_registerTransmitter ::
  "string \<Rightarrow> gxf_uid_t \<Rightarrow> MessageRouter \<Rightarrow> unit expected \<times> MessageRouter" where
  "mr_registerTransmitter topic_name tx m =
     (if tx = kNullUid then (Unexpected GXF_ARGUMENT_NULL, m)
      else (Success, m\<lparr>topic_and_transmitters := set_add topic_name tx (topic_and_transmitters m),
                       transmitter_and_topic := (transmitter_and_topic m)(tx \<mapsto> topic_name)\<rparr>))"

definition mr_deregisterTransmitter ::
  "string \<Rightarrow> gxf_uid_t \<Rightarrow> MessageRouter \<Rightarrow> unit expected \<times> MessageRouter" where
  "mr_deregisterTransmitter topic_name tx m =
     (if tx = kNullUid then (Unexpected GXF_ARGUMENT_NULL, m)
      else (Success, m\<lparr>topic_and_transmitters := set_del topic_name tx (topic_and_transmitters m),
                       transmitter_and_topic := (transmitter_and_topic m)(tx := None)\<rparr>))"

definition mr_registerReceiver ::
  "string \<Rightarrow> gxf_uid_t \<Rightarrow> MessageRouter \<Rightarrow> unit expected \<times> MessageRouter" where
  "mr_registerReceiver topic_name rx m =
     (if rx = kNullUid then (Unexpected GXF_ARGUMENT_NULL, m)
      else (Success, m\<lparr>topic_and_receivers := set_add topic_name rx (topic_and_receivers m),
                       receiver_and_topic := (receiver_and_topic m)(rx \<mapsto> topic_name)\<rparr>))"

definition mr_deregisterReceiver ::
  "string \<Rightarrow> gxf_uid_t \<Rightarrow> MessageRouter \<Rightarrow> unit expected \<times> MessageRouter" where
  "mr_deregisterReceiver topic_name rx m =
     (if rx = kNullUid then (Unexpected GXF_ARGUMENT_NULL, m)
      else (Success, m\<lparr>topic_and_receivers := set_del topic_name rx (topic_and_receivers m),
                       receiver_and_topic := (receiver_and_topic m)(rx := None)\<rparr>))"

definition mr_getConnectedReceivers :: "gxf_uid_t \<Rightarrow> MessageRouter \<Rightarrow> gxf_uid_t list expected" where
  "mr_getConnectedReceivers tx m =
     (if tx = kNullUid then Unexpected GXF_ARGUMENT_NULL
      else let rs1 = (case routes m tx of None \<Rightarrow> [] | Some rs \<Rightarrow> fold set_insert rs []);
               rs2 = (case transmitter_and_topic m tx of
                   None \<Rightarrow> rs1
                 | Some topic_name \<Rightarrow>
                     (case topic_and_receivers m topic_name of
                        None \<Rightarrow> rs1 | Some rs \<Rightarrow> fold set_insert rs rs1))
           in Inr rs2)"

definition mr_getConnectedTransmitters :: "gxf_uid_t \<Rightarrow> MessageRouter \<Rightarrow> gxf_uid_t list expected" where
  "mr_getConnectedTransmitters rx m =
     (if rx = kNullUid then Unexpected GXF_ARGUMENT_NULL
      else let ts1 = (case routes_reversed m rx of None \<Rightarrow> [] | Some ts \<Rightarrow> fold set_insert ts []);
               ts2 = (case receiver_and_topic m rx of
                   None \<Rightarrow> ts1
                 | Some topic_name \<Rightarrow>
                     (case topic_and_transmitters m topic_name of
                        None \<Rightarrow> ts1 | Some ts \<Rightarrow> fold set_insert ts ts1))
           in Inr ts2)"

definition mr_getRx :: "gxf_uid_t \<Rightarrow> MessageRouter \<Rightarrow> gxf_uid_t expected" where
  "mr_getRx tx m = (case mr_getConnectedReceivers tx m of
     Inl e \<Rightarrow> Inl e
   | Inr [] \<Rightarrow> Unexpected GXF_ARGUMENT_NULL
   | Inr [rx] \<Rightarrow> Inr rx
   | Inr (_ # _ # _) \<Rightarrow> Unexpected GXF_ARGUMENT_INVALID)"

text \<open>What the router finds in an entity; each handle may be an error of its own.\<close>

record EntityPorts =
  ep_eid :: gxf_uid_t
  ep_connections :: "(gxf_uid_t \<times> gxf_uid_t) expected list expected"
  ep_topics :: "(string \<times> gxf_uid_t list \<times> gxf_uid_t list) expected list expected"
  ep_receivers :: "gxf_uid_t expected list expected"
  ep_transmitters :: "gxf_uid_t expected list expected"

definition add_topic ::
  "string \<times> gxf_uid_t list \<times> gxf_uid_t list \<Rightarrow> MessageRouter \<Rightarrow> unit expected \<times> MessageRouter" where
  "add_topic = (\<lambda>(topic_name, txs, rxs) m.
     case each_until_error (mr_registerTransmitter topic_name) txs m of
       (Inl e, m1) \<Rightarrow> (Inl e, m1)
     | (Inr _, m1) \<Rightarrow> each_until_error (mr_registerReceiver topic_name) rxs m1)"

definition remove_topic ::
  "string \<times> gxf_uid_t list \<times> gxf_uid_t list \<Rightarrow> MessageRouter \<Rightarrow> unit expected \<times> MessageRouter" where
  "remove_topic = (\<lambda>(topic_name, txs, rxs) m.
     case each_until_error (mr_deregisterTransmitter topic_name) txs m of
       (Inl e, m1) \<Rightarrow> (Inl e, m1)
     | (Inr _, m1) \<Rightarrow> each_until_error (mr_deregisterReceiver topic_name) rxs m1)"

definition mr_addRoutes :: "EntityPorts \<Rightarrow> MessageRouter \<Rightarrow> unit expected \<times> MessageRouter" where
  "mr_addRoutes e m = (case ep_connections e of
     Inl c \<Rightarrow> (Inl c, m)
   | Inr conns \<Rightarrow>
     (case each_until_error (unwrap (\<lambda>(tx, rx). mr_connect tx rx)) conns m of
        (Inl c, m1) \<Rightarrow> (Inl c, m1)
      | (Inr _, m1) \<Rightarrow>
     (case ep_topics e of
        Inl c \<Rightarrow> (Inl c, m1)
      | Inr tps \<Rightarrow>
     (case each_until_error (unwrap add_topic) tps m1 of
        (Inl c, m2) \<Rightarrow> (Inl c, m2)
      | (Inr _, m2) \<Rightarrow>
     (case ep_receivers e of
        Inl c \<Rightarrow> (Inl c, m2)
      | Inr rxs \<Rightarrow>
     (case each_until_error (unwrap (\<lambda>rx m. (Success, m\<lparr>receivers_of := set_add (ep_eid e) rx (receivers_of m)\<rparr>))) rxs m2 of
        (Inl c, m3) \<Rightarrow> (Inl c, m3)
      | (Inr _, m3) \<Rightarrow>
     (case ep_transmitters e of
        Inl c \<Rightarrow> (Inl c, m3)
      | Inr txs \<Rightarrow>
        each_until_error (unwrap (\<lambda>tx m. (Success, m\<lparr>transmitters_of := set_add (ep_eid e) tx (transmitters_of m)\<rparr>))) txs m3)))))))"

definition mr_removeRoutes :: "EntityPorts \<Rightarrow> MessageRouter \<Rightarrow> unit expected \<times> MessageRouter" where
  "mr_removeRoutes e m = (case ep_connections e of
     Inl c \<Rightarrow> (Inl c, m)
   | Inr conns \<Rightarrow>
     (case each_until_error (unwrap (\<lambda>(tx, rx). mr_disconnect tx rx)) conns m of
        (Inl c, m1) \<Rightarrow> (Inl c, m1)
      | (Inr _, m1) \<Rightarrow>
     (case ep_topics e of
        Inl c \<Rightarrow> (Inl c, m1)
      | Inr tps \<Rightarrow> each_until_error (unwrap remove_topic) tps m1)))"

section \<open>Moving messages\<close>

record 'w Queues =
  q_tx_sync :: "gxf_uid_t \<Rightarrow> 'w \<Rightarrow> unit expected \<times> 'w"
  q_tx_size :: "gxf_uid_t \<Rightarrow> 'w \<Rightarrow> nat"
  q_tx_pop :: "gxf_uid_t \<Rightarrow> 'w \<Rightarrow> gxf_uid_t expected \<times> 'w"
  q_rx_sync :: "gxf_uid_t \<Rightarrow> 'w \<Rightarrow> unit expected \<times> 'w"
  q_rx_push :: "gxf_uid_t \<Rightarrow> gxf_uid_t \<Rightarrow> 'w \<Rightarrow> unit expected \<times> 'w"
  q_notify :: "gxf_uid_t \<Rightarrow> 'w \<Rightarrow> 'w"

definition mr_syncInbox :: "'w Queues \<Rightarrow> MessageRouter \<Rightarrow> gxf_uid_t \<Rightarrow> 'w \<Rightarrow> unit expected \<times> 'w" where
  "mr_syncInbox q m eid w = (case receivers_of m eid of
     None \<Rightarrow> (Success, w)
   | Some rxs \<Rightarrow> each_until_error (\<lambda>rx w.
       if rx = kNullUid then (Unexpected GXF_FAILURE, w) else q_rx_sync q rx w) rxs w)"

text \<open>The result of a push is ignored.\<close>

definition mr_distribute ::
  "'w Queues \<Rightarrow> gxf_uid_t \<Rightarrow> gxf_uid_t list \<Rightarrow> 'w \<Rightarrow> unit expected \<times> 'w" where
  "mr_distribute q message receivers w =
     (Success, fold (\<lambda>rx w. snd (q_rx_push q rx message w)) receivers w)"

partial_function (option) drain ::
  "'w Queues \<Rightarrow> gxf_uid_t \<Rightarrow> gxf_uid_t list \<Rightarrow> 'w \<Rightarrow> (unit expected \<times> 'w) option" where
  "drain q tx receivers w =
     (if q_tx_size q tx w > 0
      then (case q_tx_pop q tx w of
              (Inl e, w1) \<Rightarrow> Some (Inl e, w1)
            | (Inr message, w1) \<Rightarrow>
                (case mr_distribute q message receivers w1 of
                   (Inl e, w2) \<Rightarrow> Some (ForwardError e, w2)
                 | (Inr _, w2) \<Rightarrow> drain q tx receivers w2))
      else Some (Success, w))"

fun outbox_loop ::
  "'w Queues \<Rightarrow> MessageRouter \<Rightarrow> gxf_uid_t list \<Rightarrow> 'w \<Rightarrow> (unit expected \<times> 'w) option" where
  "outbox_loop q m [] w = Some (Success, w)"
| "outbox_loop q m (tx # txs) w =
     (if tx = kNullUid then Some (Unexpected GXF_FAILURE, w)
      else case q_tx_sync q tx w of
        (Inl e, w1) \<Rightarrow> Some (Inl e, w1)
      | (Inr _, w1) \<Rightarrow>
          (if q_tx_size q tx w1 > 0
           then (case mr_getConnectedReceivers tx m of
                   Inl e \<Rightarrow> Some (Inl e, w1)
                 | Inr receivers \<Rightarrow>
                     (case drain q tx receivers w1 of
                        None \<Rightarrow> None
                      | Some (Inl e, w2) \<Rightarrow> Some (Inl e, w2)
                      | Some (Inr _, w2) \<Rightarrow> outbox_loop q m txs (fold (q_notify q) receivers w2)))
           else outbox_loop q m txs w1))"

definition mr_syncOutbox ::
  "'w Queues \<Rightarrow> MessageRouter \<Rightarrow> gxf_uid_t \<Rightarrow> 'w \<Rightarrow> (unit expected \<times> 'w) option" where
  "mr_syncOutbox q m eid w = (case transmitters_of m eid of
     None \<Rightarrow> Some (Success, w) | Some txs \<Rightarrow> outbox_loop q m txs w)"

section \<open>Groups of routers and systems\<close>

text \<open>Every member is called; the first error is the result.\<close>

fun each_and :: "('a \<Rightarrow> 's \<Rightarrow> unit expected \<times> 's) \<Rightarrow> 'a list \<Rightarrow> unit expected \<Rightarrow> 's \<Rightarrow> unit expected \<times> 's" where
  "each_and f [] result s = (result, s)"
| "each_and f (a # as) result s = (let (r, s1) = f a s in each_and f as (AndExpected result r) s1)"

definition group_call :: "('a \<Rightarrow> 's \<Rightarrow> unit expected \<times> 's) \<Rightarrow> 'a list \<Rightarrow> 's \<Rightarrow> unit expected \<times> 's" where
  "group_call f members s = each_and f members Success s"

definition rg_syncInbox ::
  "('a \<Rightarrow> 's \<Rightarrow> unit expected \<times> 's) \<Rightarrow> ('a \<Rightarrow> 's \<Rightarrow> unit expected \<times> 's) \<Rightarrow> 'a list \<Rightarrow> 's \<Rightarrow> unit expected \<times> 's"
where
  "rg_syncInbox sync wait routers s =
     (let (r, s1) = each_and sync routers Success s in each_and wait routers r s1)"

definition rg_addRouter :: "nat \<Rightarrow> 'a \<Rightarrow> 'a list \<Rightarrow> unit expected \<times> 'a list" where
  "rg_addRouter capacity router routers =
     (if length routers \<ge> capacity then (Unexpected GXF_EXCEEDING_PREALLOCATED_SIZE, routers)
      else (Success, routers @ [router]))"

definition rg_removeRouter :: "'a \<Rightarrow> 'a list \<Rightarrow> unit expected \<times> 'a list" where
  "rg_removeRouter router routers =
     (if router \<in> set routers then (Success, remove1 router routers)
      else (Unexpected GXF_ENTITY_COMPONENT_NOT_FOUND, routers))"

definition rg_setClock ::
  "gxf_uid_t \<Rightarrow> ('a \<Rightarrow> 's \<Rightarrow> unit expected \<times> 's) \<Rightarrow> 'a list \<Rightarrow> 's \<Rightarrow> unit expected \<times> 's" where
  "rg_setClock clock set_clock routers s =
     (if clock = kNullUid then (Unexpected GXF_ARGUMENT_NULL, s) else each_and set_clock routers Success s)"

definition sg_call :: "('a \<Rightarrow> 's \<Rightarrow> gxf_result_t \<times> 's) \<Rightarrow> 'a list \<Rightarrow> 's \<Rightarrow> gxf_result_t \<times> 's" where
  "sg_call f systems s =
     (let (r, s1) = each_and (\<lambda>a s. let (c, s1) = f a s in (ExpectedOrCode c, s1)) systems Success s
      in (ToResultCode r, s1))"

fun sg_event_notify :: "('a \<Rightarrow> 's \<Rightarrow> gxf_result_t \<times> 's) \<Rightarrow> 'a list \<Rightarrow> 's \<Rightarrow> gxf_result_t \<times> 's" where
  "sg_event_notify f [] s = (GXF_SUCCESS, s)"
| "sg_event_notify f (a # as) s =
     (let (c, s1) = f a s in if c \<noteq> GXF_SUCCESS then (c, s1) else sg_event_notify f as s1)"

section \<open>Connections are symmetric\<close>

definition connected :: "MessageRouter \<Rightarrow> gxf_uid_t \<Rightarrow> gxf_uid_t \<Rightarrow> bool" where
  "connected m tx rx \<longleftrightarrow> rx \<in> set (set_at (routes m) tx) \<or>
     (\<exists>n. transmitter_and_topic m tx = Some n \<and> rx \<in> set (set_at (topic_and_receivers m) n))"

lemma set_fold_set_insert [simp]: "set (fold set_insert as bs) = set as \<union> set bs"
  by (induction as arbitrary: bs) auto

lemma getConnectedReceivers_set:
  "tx \<noteq> kNullUid \<Longrightarrow> \<exists>rs. mr_getConnectedReceivers tx m = Inr rs \<and> set rs = {rx. connected m tx rx}"
  by (auto simp: mr_getConnectedReceivers_def connected_def set_at_def Let_def split: option.splits)

lemma fold_set_insert_sorted:
  "sorted bs \<Longrightarrow> distinct bs \<Longrightarrow> sorted (fold set_insert as bs) \<and> distinct (fold set_insert as bs)"
  by (induction as arbitrary: bs) auto

lemma getConnectedReceivers_sorted:
  "mr_getConnectedReceivers tx m = Inr rs \<Longrightarrow> sorted rs \<and> distinct rs"
  by (auto simp: mr_getConnectedReceivers_def Let_def fold_set_insert_sorted split: option.splits if_splits)

definition router_inv :: "MessageRouter \<Rightarrow> bool" where
  "router_inv m \<longleftrightarrow>
     (\<forall>t r. r \<in> set (set_at (routes m) t) \<longleftrightarrow> t \<in> set (set_at (routes_reversed m) r)) \<and>
     (\<forall>n t. t \<in> set (set_at (topic_and_transmitters m) n) \<longleftrightarrow> transmitter_and_topic m t = Some n) \<and>
     (\<forall>n r. r \<in> set (set_at (topic_and_receivers m) n) \<longleftrightarrow> receiver_and_topic m r = Some n)"

lemma set_at_simps: "m k = None \<Longrightarrow> set_at m k = []" "m k = Some s \<Longrightarrow> set_at m k = s"
  by (simp_all add: set_at_def)

lemma getConnectedTransmitters_set:
  assumes "rx \<noteq> kNullUid" "router_inv m"
  shows "\<exists>ts. mr_getConnectedTransmitters rx m = Inr ts \<and> set ts = {tx. connected m tx rx}"
proof -
  let ?T = "case receiver_and_topic m rx of None \<Rightarrow> {} | Some n \<Rightarrow> set (set_at (topic_and_transmitters m) n)"
  obtain ts where ts: "mr_getConnectedTransmitters rx m = Inr ts" using assms(1) by (simp add: mr_getConnectedTransmitters_def Let_def)
  have e: "set ts = set (set_at (routes_reversed m) rx) \<union> ?T"
    using ts assms(1)
    by (cases "routes_reversed m rx"; cases "receiver_and_topic m rx"; cases "topic_and_transmitters m (the (receiver_and_topic m rx))")
      (auto simp: mr_getConnectedTransmitters_def set_at_simps)
  have "x \<in> set ts \<longleftrightarrow> connected m x rx" for x
  proof -
    have "x \<in> ?T \<longleftrightarrow> (\<exists>n. transmitter_and_topic m x = Some n \<and> receiver_and_topic m rx = Some n)"
      using assms(2) unfolding router_inv_def by (cases "receiver_and_topic m rx") auto
    then show ?thesis using assms(2) unfolding e router_inv_def connected_def by auto
  qed
  then show ?thesis using ts by blast
qed

definition empty_router :: MessageRouter where
  "empty_router = \<lparr>routes = Map.empty, routes_reversed = Map.empty, topic_and_transmitters = Map.empty,
     topic_and_receivers = Map.empty, receivers_of = Map.empty, transmitters_of = Map.empty,
     transmitter_and_topic = Map.empty, receiver_and_topic = Map.empty, transmitter_of_rx = (\<lambda>_. kNullUid)\<rparr>"

text \<open>The states of a router in which no handle is registered for two topics at a time.\<close>

inductive router_reach :: "MessageRouter \<Rightarrow> bool" where
  rr_empty: "router_reach empty_router"
| rr_connect: "router_reach m \<Longrightarrow> router_reach (snd (mr_connect tx rx m))"
| rr_disconnect: "router_reach m \<Longrightarrow> router_reach (snd (mr_disconnect tx rx m))"
| rr_registerTransmitter: "router_reach m \<Longrightarrow> transmitter_and_topic m tx \<in> {None, Some n} \<Longrightarrow>
    router_reach (snd (mr_registerTransmitter n tx m))"
| rr_registerReceiver: "router_reach m \<Longrightarrow> receiver_and_topic m rx \<in> {None, Some n} \<Longrightarrow>
    router_reach (snd (mr_registerReceiver n rx m))"
| rr_deregisterTransmitter: "router_reach m \<Longrightarrow> transmitter_and_topic m tx \<in> {None, Some n} \<Longrightarrow>
    router_reach (snd (mr_deregisterTransmitter n tx m))"
| rr_deregisterReceiver: "router_reach m \<Longrightarrow> receiver_and_topic m rx \<in> {None, Some n} \<Longrightarrow>
    router_reach (snd (mr_deregisterReceiver n rx m))"

lemma router_inv_empty: "router_inv empty_router"
  by (simp add: router_inv_def empty_router_def set_at_def)

lemma router_inv_connect: "router_inv m \<Longrightarrow> router_inv (snd (mr_connect tx rx m))"
  by (auto simp: router_inv_def mr_connect_def)

lemma set_at_upd: "set_at (m(k \<mapsto> s)) l = (if l = k then s else set_at m l)"
  by (simp add: set_at_def)

lemma router_inv_disconnect:
  assumes "router_inv m"
  shows "router_inv (snd (mr_disconnect tx rx m))"
proof (cases "tx = kNullUid \<or> rx = kNullUid")
  case False
  have sym: "rx \<in> set (set_at (routes m) tx) \<longleftrightarrow> tx \<in> set (set_at (routes_reversed m) rx)"
    using assms by (simp add: router_inv_def)
  show ?thesis
  proof (cases "rx \<in> set (set_at (routes m) tx)")
    case True
    then obtain rs ts where "routes m tx = Some rs" "rx \<in> set rs" "routes_reversed m rx = Some ts" "tx \<in> set ts"
      using sym by (cases "routes m tx"; cases "routes_reversed m rx") (auto simp: set_at_simps)
    then have "snd (mr_disconnect tx rx m) =
        m\<lparr>routes := set_del tx rx (routes m), routes_reversed := set_del rx tx (routes_reversed m)\<rparr>"
      using False by (simp add: mr_disconnect_def set_del_def set_at_def)
    then show ?thesis using assms by (auto simp: router_inv_def)
  next
    case F: False
    then have "snd (mr_disconnect tx rx m) = m"
      by (auto simp: mr_disconnect_def set_at_def split: option.splits)
    then show ?thesis using assms by simp
  qed
qed (use assms in \<open>simp add: mr_disconnect_def\<close>)

lemma router_reach_inv: "router_reach m \<Longrightarrow> router_inv m"
proof (induction rule: router_reach.induct)
  case (rr_registerTransmitter m tx n)
  then show ?case by (auto simp: router_inv_def mr_registerTransmitter_def)
next
  case (rr_registerReceiver m rx n)
  then show ?case by (auto simp: router_inv_def mr_registerReceiver_def)
next
  case (rr_deregisterTransmitter m tx n)
  then show ?case by (auto simp: router_inv_def mr_deregisterTransmitter_def)
next
  case (rr_deregisterReceiver m rx n)
  then show ?case by (auto simp: router_inv_def mr_deregisterReceiver_def)
qed (simp_all add: router_inv_empty router_inv_connect router_inv_disconnect)



text \<open>a transmitter that is registered for a second topic no longer reaches the receivers of the
  first one, although they still list it; and deregistering it from the second topic leaves it without
  any topic receiver at all.\<close>

theorem second_topic_hides_first:
  assumes "tx \<noteq> kNullUid" "rx \<noteq> kNullUid" "a \<noteq> b"
  shows "let m1 = snd (mr_registerReceiver a rx (snd (mr_registerTransmitter a tx empty_router)));
             m2 = snd (mr_registerTransmitter b tx m1);
             m3 = snd (mr_deregisterTransmitter b tx m2)
         in mr_getConnectedReceivers tx m1 = Inr [rx] \<and> mr_getConnectedReceivers tx m2 = Inr [] \<and>
            mr_getConnectedTransmitters rx m2 = Inr [tx] \<and> mr_getConnectedReceivers tx m3 = Inr []"
  using assms
  by (simp add: Let_def mr_registerReceiver_def mr_registerTransmitter_def mr_deregisterTransmitter_def
      mr_getConnectedReceivers_def mr_getConnectedTransmitters_def empty_router_def set_add_def set_del_def
      set_at_def set_insert_def insort_insert_key_def)

lemma second_topic_hides_first_witness:
  "mr_getConnectedReceivers 3 (snd (mr_registerTransmitter ''b'' 3
     (snd (mr_registerReceiver ''a'' 4 (snd (mr_registerTransmitter ''a'' 3 empty_router)))))) = Inr []"
  using second_topic_hides_first[of 3 4 "''a''" "''b''"] by (simp add: Let_def)

text \<open>removeRoutes leaves the caches of receivers and transmitters as they are.\<close>

lemma removeRoutes_keeps_caches:
  "receivers_of (snd (mr_removeRoutes e m)) = receivers_of m \<and>
   transmitters_of (snd (mr_removeRoutes e m)) = transmitters_of m"
proof -
  let ?P = "\<lambda>n. receivers_of n = receivers_of m \<and> transmitters_of n = transmitters_of m"
  have 1: "?P (snd (each_until_error (unwrap (\<lambda>(tx, rx). mr_disconnect tx rx)) as n))" if "?P n" for as n
    by (rule each_until_error_inv) (use that in \<open>auto simp: unwrap_def mr_disconnect_def Let_def
        split: sum.splits option.splits if_splits\<close>)
  have t: "?P (snd (each_until_error (mr_deregisterTransmitter nm) as n))" if "?P n" for as n nm
    by (rule each_until_error_inv) (use that in \<open>auto simp: mr_deregisterTransmitter_def\<close>)
  have r: "?P (snd (each_until_error (mr_deregisterReceiver nm) as n))" if "?P n" for as n nm
    by (rule each_until_error_inv) (use that in \<open>auto simp: mr_deregisterReceiver_def\<close>)
  have tp: "?P (snd (remove_topic tp n))" if "?P n" for tp n
    using t[OF that] r unfolding remove_topic_def
    by (cases tp) (auto split: prod.splits sum.splits simp: prod_eq_iff)
  have 2: "?P (snd (each_until_error (unwrap remove_topic) as n))" if "?P n" for as n
    by (rule each_until_error_inv) (use tp that in \<open>auto simp: unwrap_def split: sum.splits\<close>)
  show ?thesis unfolding mr_removeRoutes_def
    using 1 2 by (auto split: sum.splits prod.splits) (metis snd_conv)+
qed

section \<open>Delivery\<close>

text \<open>What the router relies on: queues that behave as two lists each.  txq and rxq give the main
  and the back stage; messages in the queues are live entities, so taking and storing references
  succeeds; a receiver applies its overflow policy to the back stage.\<close>

locale message_queues =
  fixes q :: "'w Queues" and wf :: "'w \<Rightarrow> bool"
    and txq rxq :: "'w \<Rightarrow> gxf_uid_t \<Rightarrow> gxf_uid_t list \<times> gxf_uid_t list"
    and live :: "'w \<Rightarrow> gxf_uid_t set"
    and cap :: "gxf_uid_t \<Rightarrow> nat" and pol :: "gxf_uid_t \<Rightarrow> OverflowBehavior"
  assumes tx_live: "wf w \<Longrightarrow> set (fst (txq w t)) \<union> set (snd (txq w t)) \<subseteq> live w"
    and tx_size: "wf w \<Longrightarrow> q_tx_size q t w = length (fst (txq w t))"
    and tx_sync: "wf w \<Longrightarrow> fst (txq w t) = [] \<Longrightarrow> \<exists>w'. q_tx_sync q t w = (Success, w') \<and> wf w' \<and>
      txq w' = (txq w)(t := (snd (txq w t), [])) \<and> rxq w' = rxq w \<and> live w' = live w"
    and tx_pop: "wf w \<Longrightarrow> txq w t = (m # ms, bs) \<Longrightarrow> \<exists>w'. q_tx_pop q t w = (Inr m, w') \<and> wf w' \<and>
      txq w' = (txq w)(t := (ms, bs)) \<and> rxq w' = rxq w \<and> live w' = live w"
    and rx_push: "wf w \<Longrightarrow> m \<in> live w \<Longrightarrow> \<exists>e w'. q_rx_push q r m w = (e, w') \<and> wf w' \<and> txq w' = txq w \<and>
      rxq w' = (rxq w)(r := (fst (rxq w r), snd (spec_push (pol r) (cap r) m (snd (rxq w r))))) \<and> live w' = live w"
    and notify: "wf w \<Longrightarrow> wf (q_notify q r w) \<and> txq (q_notify q r w) = txq w \<and> rxq (q_notify q r w) = rxq w \<and>
      live (q_notify q r w) = live w"
begin

definition pushed :: "gxf_uid_t \<Rightarrow> gxf_uid_t list \<Rightarrow> gxf_uid_t list \<times> gxf_uid_t list \<Rightarrow> gxf_uid_t list \<times> gxf_uid_t list" where
  "pushed r ms = (\<lambda>(front, back). (front, fold (\<lambda>m b. snd (spec_push (pol r) (cap r) m b)) ms back))"

lemma pushed_append: "pushed r (ms @ ns) p = pushed r ns (pushed r ms p)"
  by (cases p) (simp add: pushed_def)

lemma pushed_simps [simp]: "pushed r [] p = p"
  by (cases p) (simp add: pushed_def)

text \<open>A message that fits is appended.\<close>

lemma pushed_fits: "length bk + length ms \<le> cap r \<Longrightarrow> pushed r ms (fr, bk) = (fr, bk @ ms)"
proof (induction ms arbitrary: bk)
  case (Cons m ms)
  then show ?case using Cons.IH[of "bk @ [m]"] by (simp add: pushed_def)
qed (simp add: pushed_def)

lemma distribute_delivers:
  assumes "wf w" "m \<in> live w" "distinct rs"
  obtains w' where "mr_distribute q m rs w = (Success, w')" "wf w'" "txq w' = txq w" "live w' = live w"
    "rxq w' = (\<lambda>r. if r \<in> set rs then pushed r [m] (rxq w r) else rxq w r)"
  using assms
proof (induction rs arbitrary: w thesis)
  case (Cons r rs)
  obtain e w1 where p: "q_rx_push q r m w = (e, w1)" "wf w1" "txq w1 = txq w" "live w1 = live w"
    "rxq w1 = (rxq w)(r := (fst (rxq w r), snd (spec_push (pol r) (cap r) m (snd (rxq w r)))))"
    using rx_push[OF Cons.prems(2,3), of r] by auto
  obtain w' where w': "mr_distribute q m rs w1 = (Success, w')" "wf w'" "txq w' = txq w1" "live w' = live w1"
    "rxq w' = (\<lambda>x. if x \<in> set rs then pushed x [m] (rxq w1 x) else rxq w1 x)"
    using Cons.IH[of w1] Cons.prems p by auto
  have "rxq w' = (\<lambda>x. if x \<in> set (r # rs) then pushed x [m] (rxq w x) else rxq w x)"
    using w'(5) p(5) Cons.prems(4) by (auto simp: fun_eq_iff pushed_def split_beta simp del: spec_push.simps)
  then show ?case using w' p by (intro Cons.prems(1)[of w']) (simp_all add: mr_distribute_def)
qed (simp add: mr_distribute_def)

text \<open>The while loop ends, with the transmitter empty and every receiver served in order.\<close>

lemma drain_delivers:
  assumes "wf w" "txq w t = (ms, bs)" "distinct rs"
  obtains w' where "drain q t rs w = Some (Success, w')" "wf w'" "live w' = live w"
    "txq w' = (txq w)(t := ([], bs))"
    "rxq w' = (\<lambda>r. if r \<in> set rs then pushed r ms (rxq w r) else rxq w r)"
  using assms
proof (induction ms arbitrary: w thesis)
  case Nil
  then have "drain q t rs w = Some (Success, w)" by (subst drain.simps) (simp add: tx_size)
  moreover have "(txq w)(t := ([], bs)) = txq w" using Nil.prems(3) by auto
  ultimately show ?case using Nil.prems by (intro Nil.prems(1)[of w]) auto
next
  case (Cons m ms)
  obtain w1 where p: "q_tx_pop q t w = (Inr m, w1)" "wf w1" "txq w1 = (txq w)(t := (ms, bs))"
    "rxq w1 = rxq w" "live w1 = live w" using tx_pop[OF Cons.prems(2,3)] by auto
  have live: "m \<in> live w1" using tx_live[OF Cons.prems(2), of t] Cons.prems(3) p(5) by auto
  obtain w2 where d: "mr_distribute q m rs w1 = (Success, w2)" "wf w2" "txq w2 = txq w1" "live w2 = live w1"
    "rxq w2 = (\<lambda>r. if r \<in> set rs then pushed r [m] (rxq w1 r) else rxq w1 r)"
    by (rule distribute_delivers[OF p(2) live Cons.prems(4)])
  have "txq w2 t = (ms, bs)" using d p by simp
  obtain w' where w': "drain q t rs w2 = Some (Success, w')" "wf w'" "live w' = live w2"
    "txq w' = (txq w2)(t := ([], bs))"
    "rxq w' = (\<lambda>r. if r \<in> set rs then pushed r ms (rxq w2 r) else rxq w2 r)"
    by (rule Cons.IH[OF _ d(2) \<open>txq w2 t = (ms, bs)\<close> Cons.prems(4)])
  have "drain q t rs w = Some (Success, w')"
    using Cons.prems(2,3) p(1) d(1) w'(1) by (subst drain.simps) (simp add: tx_size)
  moreover have "txq w' = (txq w)(t := ([], bs))" using w'(4) d(3) p(3) by simp
  moreover have "rxq w' = (\<lambda>r. if r \<in> set rs then pushed r (m # ms) (rxq w r) else rxq w r)"
    using w'(5) d(5) p(4) pushed_append[of _ "[m]" ms] by (auto simp: fun_eq_iff)
  ultimately show ?case using Cons.prems w' d p by (intro Cons.prems(1)[of w']) auto
qed

lemma notify_all:
  assumes "wf w"
  shows "wf (fold (q_notify q) rs w) \<and> txq (fold (q_notify q) rs w) = txq w \<and>
    rxq (fold (q_notify q) rs w) = rxq w \<and> live (fold (q_notify q) rs w) = live w"
  using assms by (induction rs arbitrary: w) (simp_all add: notify)

text \<open>The outbox of an entity: every transmitter in turn.\<close>

lemma outbox_delivers:
  assumes "wf w" "kNullUid \<notin> set txs" "distinct txs" "\<forall>t \<in> set txs. fst (txq w t) = []"
  obtains w' where "outbox_loop q m txs w = Some (Success, w')" "wf w'"
    "txq w' = (\<lambda>t. if t \<in> set txs then ([], []) else txq w t)"
    "rxq w' = (\<lambda>r. pushed r (concat (map (\<lambda>t. if connected m t r then snd (txq w t) else []) txs)) (rxq w r))"
  using assms
proof (induction txs arbitrary: w thesis)
  case Nil
  then show ?case by auto
next
  case (Cons t txs)
  obtain w1 where s: "q_tx_sync q t w = (Success, w1)" "wf w1" "txq w1 = (txq w)(t := (snd (txq w t), []))"
    "rxq w1 = rxq w" using tx_sync[of w t] Cons.prems by auto
  obtain rs where rs: "mr_getConnectedReceivers t m = Inr rs" "set rs = {r. connected m t r}"
    using getConnectedReceivers_set[of t m] Cons.prems by auto
  have dist: "distinct rs" using getConnectedReceivers_sorted[OF rs(1)] by simp
  have t1: "txq w1 t = (snd (txq w t), [])" using s(3) by simp
  obtain w2 where d: "drain q t rs w1 = Some (Success, w2)" "wf w2" "live w2 = live w1"
    "txq w2 = (txq w1)(t := ([], []))"
    "rxq w2 = (\<lambda>r. if r \<in> set rs then pushed r (snd (txq w t)) (rxq w1 r) else rxq w1 r)"
    by (rule drain_delivers[OF s(2) t1 dist])
  define w3 where "w3 = (if snd (txq w t) = [] then w1 else fold (q_notify q) rs w2)"
  have w3: "wf w3" "txq w3 = (txq w)(t := ([], []))"
    "rxq w3 = (\<lambda>r. pushed r (if connected m t r then snd (txq w t) else []) (rxq w r))"
    using s d notify_all[OF d(2)] rs(2) by (auto simp: w3_def fun_eq_iff)
  have step: "outbox_loop q m (t # txs) w = outbox_loop q m txs w3"
    using Cons.prems s rs(1) d(1) tx_size[OF s(2), of t] by (simp add: w3_def)
  have "\<forall>x \<in> set txs. fst (txq w3 x) = []" using Cons.prems w3(2) by auto
  then obtain w' where w': "outbox_loop q m txs w3 = Some (Success, w')" "wf w'"
    "txq w' = (\<lambda>t. if t \<in> set txs then ([], []) else txq w3 t)"
    "rxq w' = (\<lambda>r. pushed r (concat (map (\<lambda>t. if connected m t r then snd (txq w3 t) else []) txs)) (rxq w3 r))"
    using Cons.IH[of w3] w3(1) Cons.prems by auto
  have same: "map (\<lambda>x. if connected m x r then snd (txq w3 x) else []) txs =
      map (\<lambda>x. if connected m x r then snd (txq w x) else []) txs" for r
    using Cons.prems(4) w3(2) by (auto intro!: map_cong)
  have "rxq w' = (\<lambda>r. pushed r (concat (map (\<lambda>t. if connected m t r then snd (txq w t) else []) (t # txs))) (rxq w r))"
    using w'(4) w3(3) same by (simp add: fun_eq_iff pushed_append)
  moreover have "txq w' = (\<lambda>x. if x \<in> set (t # txs) then ([], []) else txq w x)"
    using w'(3) w3(2) by auto
  ultimately show ?case using w' step by (intro Cons.prems(1)[of w']) simp_all
qed

end

subsection \<open>Double buffers as queues\<close>

text \<open>The store of the model: double-buffered transmitters and receivers, the set of live entities
  (what Entity::Shared and GxfEntityRefCountInc look up), the entity of each receiver and the
  notifications sent.\<close>

record Store =
  tx_buf :: "gxf_uid_t \<Rightarrow> DoubleBuffer"
  rx_buf :: "gxf_uid_t \<Rightarrow> DoubleBuffer"
  live_entities :: "gxf_uid_t set"
  owner :: "gxf_uid_t \<Rightarrow> gxf_uid_t"
  notified :: "gxf_uid_t list"

definition st_shared :: "Store \<Rightarrow> gxf_uid_t \<Rightarrow> gxf_uid_t expected" where
  "st_shared s m = (if m \<in> live_entities s then Inr m else Unexpected GXF_ENTITY_NOT_FOUND)"

definition st_ref_inc :: "Store \<Rightarrow> gxf_uid_t \<Rightarrow> gxf_result_t" where
  "st_ref_inc s m = (if m \<in> live_entities s then GXF_SUCCESS else GXF_ENTITY_NOT_FOUND)"

definition store_queues :: "Store Queues" where
  "store_queues = \<lparr>
     q_tx_sync = (\<lambda>t s. let (c, b) = dbt_sync (tx_buf s t) in (ExpectedOrCode c, s\<lparr>tx_buf := (tx_buf s)(t := b)\<rparr>)),
     q_tx_size = (\<lambda>t s. dbt_size (tx_buf s t)),
     q_tx_pop = (\<lambda>t s. let (r, b) = dbt_pop (st_ref_inc s) False (tx_buf s t) in (r, s\<lparr>tx_buf := (tx_buf s)(t := b)\<rparr>)),
     q_rx_sync = (\<lambda>r s. let (c, b) = dbr_sync (rx_buf s r) in (ExpectedOrCode c, s\<lparr>rx_buf := (rx_buf s)(r := b)\<rparr>)),
     q_rx_push = (\<lambda>r m s. let (c, b) = dbr_push (st_shared s) m (rx_buf s r)
                          in (ExpectedOrCode c, s\<lparr>rx_buf := (rx_buf s)(r := b)\<rparr>)),
     q_notify = (\<lambda>r s. s\<lparr>notified := notified s @ [owner s r]\<rparr>)\<rparr>"

definition db_lists :: "DoubleBuffer \<Rightarrow> gxf_uid_t list \<times> gxf_uid_t list" where
  "db_lists b = (case db_queue b of None \<Rightarrow> ([], []) | Some q \<Rightarrow> (mainstage q, backstage q))"

lemma db_lists_rep: "db_rep b ms bs \<Longrightarrow> db_lists b = (ms, bs)"
  by (auto simp: db_rep_def db_lists_def sq_rep_lists)

definition db_ok :: "gxf_uid_t set \<Rightarrow> DoubleBuffer \<Rightarrow> bool" where
  "db_ok L b \<longleftrightarrow> (\<exists>ms bs. db_rep b ms bs \<and> set ms \<union> set bs \<subseteq> L)"

lemma db_okI: "db_rep b ms bs \<Longrightarrow> set ms \<subseteq> L \<Longrightarrow> set bs \<subseteq> L \<Longrightarrow> db_ok L b"
  unfolding db_ok_def by blast

lemma db_okE:
  assumes "db_ok L b"
  obtains "db_rep b (fst (db_lists b)) (snd (db_lists b))" "set (fst (db_lists b)) \<union> set (snd (db_lists b)) \<subseteq> L"
  using assms db_lists_rep unfolding db_ok_def by fastforce

definition store_wf :: "(gxf_uid_t \<Rightarrow> nat) \<Rightarrow> (gxf_uid_t \<Rightarrow> OverflowBehavior) \<Rightarrow> Store \<Rightarrow> bool" where
  "store_wf cap pol s \<longleftrightarrow> kNullUid \<notin> live_entities s \<and>
     (\<forall>t. db_ok (live_entities s) (tx_buf s t)) \<and>
     (\<forall>r. db_ok (live_entities s) (rx_buf s r) \<and> db_capacity (rx_buf s r) = cap r \<and>
          overflow_of (db_policy (rx_buf s r)) = pol r)"

definition store_txq :: "Store \<Rightarrow> gxf_uid_t \<Rightarrow> gxf_uid_t list \<times> gxf_uid_t list" where
  "store_txq s t = db_lists (tx_buf s t)"

definition store_rxq :: "Store \<Rightarrow> gxf_uid_t \<Rightarrow> gxf_uid_t list \<times> gxf_uid_t list" where
  "store_rxq s r = db_lists (rx_buf s r)"

lemma dbt_eq_dbr: "dbt_sync = dbr_sync" "dbt_pop = dbr_pop" "dbt_size = dbr_size"
  by (auto simp: fun_eq_iff dbt_sync_def dbr_sync_def dbt_pop_def dbr_pop_def dbt_size_def dbr_size_def)

lemma dbr_params:
  "db_capacity (snd (dbr_push sf m b)) = db_capacity b" "db_policy (snd (dbr_push sf m b)) = db_policy b"
  "db_capacity (snd (dbr_sync b)) = db_capacity b" "db_policy (snd (dbr_sync b)) = db_policy b"
  by (auto simp: dbr_push_def dbr_sync_def split_beta Let_def split: option.splits sum.splits)

lemma db_size_rep: "db_rep b ms bs \<Longrightarrow> dbr_size b = length ms"
  by (auto simp: db_rep_def dbr_size_def sq_rep_def sq_size_def)

lemma db_rep_bounds: "db_rep b ms bs \<Longrightarrow> length ms \<le> db_capacity b \<and> length bs \<le> db_capacity b"
  by (auto simp: db_rep_def sq_rep_def)

lemma set_spec_push: "set (snd (spec_push p c m b)) \<subseteq> insert m (set b)"
  by (cases b; cases p) auto

lemma store_tx_sync:
  assumes "store_wf cap pol s" "fst (store_txq s t) = []"
  shows "\<exists>s'. q_tx_sync store_queues t s = (Success, s') \<and> store_wf cap pol s' \<and>
    store_txq s' = (store_txq s)(t := (snd (store_txq s t), [])) \<and> store_rxq s' = store_rxq s \<and>
    live_entities s' = live_entities s"
proof -
  let ?b = "tx_buf s t"
  obtain bs where r: "db_rep ?b [] bs" "set bs \<subseteq> live_entities s" "snd (store_txq s t) = bs"
    using assms db_okE[of "live_entities s" ?b] by (auto simp: store_wf_def store_txq_def)
  note sy = dbr_sync_rep[OF r(1)]
  have f: "length ([] :: gxf_uid_t list) + length bs \<le> db_capacity ?b" using db_rep_bounds[OF r(1)] by simp
  have ok: "db_ok (live_entities s) (snd (dbr_sync ?b))" using sy(2)[OF f] r(2) by (auto intro: db_okI)
  show ?thesis
    using assms(1) sy[OF f] r ok db_lists_rep[OF sy(2)[OF f]]
    by (auto simp: store_queues_def dbt_eq_dbr split_beta ExpectedOrCode_def store_wf_def store_txq_def
        store_rxq_def fun_eq_iff)
qed

lemma store_tx_pop:
  assumes "store_wf cap pol s" "store_txq s t = (m # ms, bs)"
  shows "\<exists>s'. q_tx_pop store_queues t s = (Inr m, s') \<and> store_wf cap pol s' \<and>
    store_txq s' = (store_txq s)(t := (ms, bs)) \<and> store_rxq s' = store_rxq s \<and>
    live_entities s' = live_entities s"
proof -
  let ?b = "tx_buf s t"
  have r: "db_rep ?b (m # ms) bs" "set (m # ms) \<union> set bs \<subseteq> live_entities s"
    using assms db_okE[of "live_entities s" ?b] by (auto simp: store_wf_def store_txq_def)
  have ref: "st_ref_inc s m = GXF_SUCCESS" using r(2) by (simp add: st_ref_inc_def)
  note p = dbr_pop_rep[OF r(1), of "st_ref_inc s"]
  have ok: "db_ok (live_entities s) (snd (dbr_pop (st_ref_inc s) False ?b))"
    using p(1) r(2) by (auto intro: db_okI)
  show ?thesis
    using assms(1) p ref ok db_lists_rep[OF p(1)]
    by (auto simp: store_queues_def dbt_eq_dbr split_beta store_wf_def store_txq_def store_rxq_def fun_eq_iff)
qed

lemma store_rx_push:
  assumes "store_wf cap pol s" "m \<in> live_entities s"
  shows "\<exists>e s'. q_rx_push store_queues r m s = (e, s') \<and> store_wf cap pol s' \<and> store_txq s' = store_txq s \<and>
    store_rxq s' = (store_rxq s)(r := (fst (store_rxq s r), snd (spec_push (pol r) (cap r) m (snd (store_rxq s r))))) \<and>
    live_entities s' = live_entities s"
proof -
  let ?b = "rx_buf s r" and ?b' = "snd (dbr_push (st_shared s) m (rx_buf s r))"
  obtain ms bs where rep: "db_rep ?b ms bs" "set ms \<union> set bs \<subseteq> live_entities s" "store_rxq s r = (ms, bs)"
    using assms(1) db_okE[of "live_entities s" ?b] by (auto simp: store_wf_def store_rxq_def prod_eq_iff)
  have par: "db_capacity ?b = cap r" "overflow_of (db_policy ?b) = pol r" using assms(1) by (simp_all add: store_wf_def)
  have shd: "st_shared s m = Inr m" "m \<noteq> kNullUid" using assms by (auto simp: st_shared_def store_wf_def)
  have rep': "db_rep ?b' ms (snd (spec_push (pol r) (cap r) m bs))"
    using dbr_push_rep(1)[OF rep(1), of "st_shared s" m m] shd par by (simp del: spec_push.simps)
  have ok: "db_ok (live_entities s) ?b'"
    using rep' rep(2) set_spec_push[of "pol r" "cap r" m bs] assms(2) unfolding db_ok_def by blast
  have "store_wf cap pol (s\<lparr>rx_buf := (rx_buf s)(r := ?b')\<rparr>)"
    using assms(1) ok par by (auto simp: store_wf_def dbr_params)
  then show ?thesis
    using db_lists_rep[OF rep'] rep(3)
    by (auto simp: store_queues_def split_beta store_txq_def store_rxq_def fun_eq_iff simp del: spec_push.simps)
qed

interpretation store: message_queues store_queues "store_wf cap pol" store_txq store_rxq live_entities cap pol
  for cap :: "gxf_uid_t \<Rightarrow> nat" and pol :: "gxf_uid_t \<Rightarrow> OverflowBehavior"
proof (unfold_locales, goal_cases)
  case (1 w t)
  then show ?case using db_okE[of "live_entities w" "tx_buf w t"] by (auto simp: store_wf_def store_txq_def)
next
  case (2 w t)
  then obtain "db_rep (tx_buf w t) (fst (db_lists (tx_buf w t))) (snd (db_lists (tx_buf w t)))"
    using db_okE[of "live_entities w" "tx_buf w t"] by (auto simp: store_wf_def)
  then show ?case by (simp add: store_queues_def dbt_eq_dbr store_txq_def db_size_rep)
next
  case (3 w t)
  then show ?case by (rule store_tx_sync)
next
  case (4 w t m ms bs)
  then show ?case by (rule store_tx_pop)
next
  case (5 w m r)
  then show ?case by (rule store_rx_push)
next
  case (6 w r)
  then show ?case by (simp add: store_queues_def store_wf_def store_txq_def store_rxq_def fun_eq_iff)
qed

text \<open>C11: the outbox of an entity on double buffers.  When the main stages of its transmitters are
  empty, syncOutbox returns, it returns success, the transmitters are empty afterwards, and every
  receiver that has room got the published messages of the transmitters connected to it, transmitter by
  transmitter and in the order of publication, behind what was waiting in its back stage.  No other
  receiver changes.\<close>

theorem outbox_delivers_in_order:
  assumes "store_wf cap pol s" "transmitters_of m eid = Some txs" "kNullUid \<notin> set txs" "distinct txs"
    "\<forall>t \<in> set txs. fst (store_txq s t) = []"
  shows "\<exists>s'. mr_syncOutbox store_queues m eid s = Some (Success, s') \<and> store_wf cap pol s' \<and>
    (\<forall>t \<in> set txs. store_txq s' t = ([], [])) \<and>
    (\<forall>r. let new = concat (map (\<lambda>t. if connected m t r then snd (store_txq s t) else []) txs)
         in length (snd (store_rxq s r)) + length new \<le> cap r \<longrightarrow>
              store_rxq s' r = (fst (store_rxq s r), snd (store_rxq s r) @ new))"
proof -
  obtain s' where s': "outbox_loop store_queues m txs s = Some (Success, s')" "store_wf cap pol s'"
    "store_txq s' = (\<lambda>t. if t \<in> set txs then ([], []) else store_txq s t)"
    "store_rxq s' = (\<lambda>r. store.pushed cap pol r
        (concat (map (\<lambda>t. if connected m t r then snd (store_txq s t) else []) txs)) (store_rxq s r))"
    by (rule store.outbox_delivers[OF assms(1,3-5)])
  have "store_rxq s' r = (fst (store_rxq s r), snd (store_rxq s r) @ new)"
    if "new = concat (map (\<lambda>t. if connected m t r then snd (store_txq s t) else []) txs)"
      "length (snd (store_rxq s r)) + length new \<le> cap r" for r new
    using store.pushed_fits[where bk = "snd (store_rxq s r)" and ms = new and cap = cap and r = r and fr = "fst (store_rxq s r)"]
      that s'(4) by simp
  then show ?thesis using s' assms(2) by (auto simp: mr_syncOutbox_def Let_def)
qed

text \<open>A small store: transmitter 3 of entity 1 holds two messages, receiver 4 belongs to entity 2.\<close>

definition demo_buffer :: DoubleBuffer where
  "demo_buffer = snd (dbr_initialize \<lparr>db_capacity = 2, db_policy = 2, db_queue = None\<rparr>)"

definition demo_store :: Store where
  "demo_store = \<lparr>tx_buf = (\<lambda>_. demo_buffer)(3 := snd (dbr_push (\<lambda>m. Inr m) 8 (snd (dbr_push (\<lambda>m. Inr m) 7 demo_buffer)))),
     rx_buf = (\<lambda>_. demo_buffer), live_entities = {7, 8}, owner = (\<lambda>_. 2), notified = []\<rparr>"

definition demo_router :: MessageRouter where
  "demo_router = (snd (mr_connect 3 4 empty_router))\<lparr>transmitters_of := [1 \<mapsto> [3]]\<rparr>"

lemma demo_buffer_rep: "db_rep demo_buffer [] []"
  by (simp add: demo_buffer_def dbr_initialize_rep)

lemma demo_store_rep:
  "db_rep (tx_buf demo_store 3) [] [7, 8]" "t \<noteq> 3 \<Longrightarrow> db_rep (tx_buf demo_store t) [] []"
  "db_rep (rx_buf demo_store r) [] []"
proof -
  have p: "db_capacity demo_buffer = 2" "overflow_of (db_policy demo_buffer) = kFault"
    by (simp_all add: demo_buffer_def dbr_initialize_def overflow_of_def)
  have 1: "db_rep (snd (dbr_push (\<lambda>m. Inr m) 7 demo_buffer)) [] [7]"
    using dbr_push_rep(1)[OF demo_buffer_rep, of "\<lambda>m. Inr m" 7 7] p by simp
  have "db_rep (snd (dbr_push (\<lambda>m. Inr m) 8 (snd (dbr_push (\<lambda>m. Inr m) 7 demo_buffer)))) [] [7, 8]"
    using dbr_push_rep(1)[OF 1, of "\<lambda>m. Inr m" 8 8] p by (simp add: dbr_params)
  then show "db_rep (tx_buf demo_store 3) [] [7, 8]" by (simp add: demo_store_def)
qed (simp_all add: demo_store_def demo_buffer_rep)

lemma demo_store_wf: "store_wf (\<lambda>_. 2) (\<lambda>_. kFault) demo_store"
proof -
  have "db_ok {7, 8} (tx_buf demo_store t)" for t
    using demo_store_rep(1) demo_store_rep(2)[of t] by (cases "t = 3") (auto intro: db_okI)
  moreover have "db_ok {7, 8} (rx_buf demo_store r)" for r by (rule db_okI[OF demo_store_rep(3)]) simp_all
  ultimately show ?thesis
    by (auto simp: store_wf_def) (simp_all add: demo_store_def demo_buffer_def dbr_initialize_def overflow_of_def)
qed

lemma outbox_delivers_in_order_witness:
  "\<exists>s'. mr_syncOutbox store_queues demo_router 1 demo_store = Some (Success, s') \<and>
    store_rxq s' 4 = ([], [7, 8])"
proof -
  have q: "store_txq demo_store 3 = ([], [7, 8])" "store_rxq demo_store r = ([], [])" for r
    using demo_store_rep by (simp_all add: store_txq_def store_rxq_def db_lists_rep)
  have c: "connected demo_router 3 4"
    by (simp add: connected_def demo_router_def mr_connect_def empty_router_def)
  show ?thesis
    using outbox_delivers_in_order[OF demo_store_wf, of demo_router 1 "[3]"] q c
    by (auto simp: Let_def demo_router_def dest: spec[of _ 4])
qed

end
