(* ===== verification/Type_Registry.thy ===== *)
theory Type_Registry
  imports Prelude
begin

text \<open>
  The registry of component types, gxf/core/type_registry.cpp, with the identifiers of types of
  gxf/core/gxf.h.  The registry keeps the name of every type, the type of every name and the direct
  bases of every type; the question whether a type derives from another is answered by a search along
  the bases.  The shared lock makes every operation one step; the recursion of is_base takes it again
  at every level.  The search need not end, since nothing keeps the bases free of cycles, so it is a
  partial function; the theorems below say when it ends and what it answers.
\<close>

section \<open>Identifiers of types\<close>

datatype gxf_tid_t = Tid (hash1: uint64) (hash2: uint64)

definition GxfTidNull :: gxf_tid_t where "GxfTidNull = Tid 0 0"

definition GxfTidIsNull :: "gxf_tid_t \<Rightarrow> bool" where
  "GxfTidIsNull t \<longleftrightarrow> hash1 t = 0 \<and> hash2 t = 0"

text \<open>The comparison of gxf.h is lexicographic; it is a linear order, which std::map needs.\<close>

instantiation gxf_tid_t :: linorder
begin

definition less_gxf_tid_t :: "gxf_tid_t \<Rightarrow> gxf_tid_t \<Rightarrow> bool" where
  "less_gxf_tid_t l r \<longleftrightarrow> hash1 l < hash1 r \<or> hash1 l = hash1 r \<and> hash2 l < hash2 r"

definition less_eq_gxf_tid_t :: "gxf_tid_t \<Rightarrow> gxf_tid_t \<Rightarrow> bool" where
  "less_eq_gxf_tid_t l r \<longleftrightarrow> l = r \<or> l < r"

instance
proof
  fix x y :: gxf_tid_t
  show "x \<le> y \<or> y \<le> x"
    by (cases x; cases y) (auto simp: less_gxf_tid_t_def less_eq_gxf_tid_t_def not_less order.order_iff_strict)
qed (auto simp: less_gxf_tid_t_def less_eq_gxf_tid_t_def)

end

lemma GxfTidIsNull_iff: "GxfTidIsNull t \<longleftrightarrow> t = GxfTidNull"
  by (cases t) (simp add: GxfTidIsNull_def GxfTidNull_def)

section \<open>The registry\<close>

record TypeRegistry =
  tr_names :: "gxf_tid_t \<rightharpoonup> string"
  tr_tids :: "string \<rightharpoonup> gxf_tid_t"
  tr_bases :: "gxf_tid_t \<rightharpoonup> gxf_tid_t list"

definition TypeRegistry_init :: TypeRegistry where
  "TypeRegistry_init = \<lparr>tr_names = Map.empty, tr_tids = Map.empty, tr_bases = Map.empty\<rparr>"

definition tr_add :: "gxf_tid_t \<Rightarrow> string \<Rightarrow> TypeRegistry \<Rightarrow> unit expected \<times> TypeRegistry" where
  "tr_add tid component_type_name reg =
     (if tr_tids reg component_type_name \<noteq> None then (Unexpected GXF_FACTORY_DUPLICATE_TID, reg)
      else if tr_names reg tid \<noteq> None then (Unexpected GXF_FACTORY_DUPLICATE_TID, reg)
      else (Success, reg\<lparr>tr_tids := (tr_tids reg)(component_type_name \<mapsto> tid),
                          tr_names := (tr_names reg)(tid \<mapsto> component_type_name)\<rparr>))"

definition id_from_name :: "TypeRegistry \<Rightarrow> string \<Rightarrow> gxf_tid_t expected" where
  "id_from_name reg component_type_name = (case tr_tids reg component_type_name of
     None \<Rightarrow> Unexpected GXF_FACTORY_UNKNOWN_CLASS_NAME | Some tid \<Rightarrow> Inr tid)"

definition tr_name :: "TypeRegistry \<Rightarrow> gxf_tid_t \<Rightarrow> string expected" where
  "tr_name reg tid = (case tr_names reg tid of
     None \<Rightarrow> Unexpected GXF_QUERY_NOT_FOUND | Some n \<Rightarrow> Inr n)"

definition add_base :: "string \<Rightarrow> string \<Rightarrow> TypeRegistry \<Rightarrow> unit expected \<times> TypeRegistry" where
  "add_base component_type_name base_type_name reg =
     (case id_from_name reg component_type_name of
        Inl e \<Rightarrow> (ForwardError e, reg)
      | Inr component_tid \<Rightarrow> (case id_from_name reg base_type_name of
          Inl e \<Rightarrow> (ForwardError e, reg)
        | Inr base_tid \<Rightarrow> (Success, reg\<lparr>tr_bases := set_add component_tid base_tid (tr_bases reg)\<rparr>)))"

text \<open>The loop of is_base over the bases of a type: the first error and the first success return.\<close>

primrec any_base :: "('a \<Rightarrow> bool expected option) \<Rightarrow> 'a list \<Rightarrow> bool expected option" where
  "any_base f [] = Some (Inr False)"
| "any_base f (middle # ms) = Option.bind (f middle) (\<lambda>base_result. case base_result of
     Inl e \<Rightarrow> Some (ForwardError e)
   | Inr b \<Rightarrow> if b then Some (Inr True) else any_base f ms)"

lemma any_base_mono [partial_function_mono]:
  assumes "\<And>m. mono_option (\<lambda>F. f F m)"
  shows "mono_option (\<lambda>F. any_base (f F) ms)"
proof (induction ms)
  case (Cons m ms)
  have "mono_option (\<lambda>F. case r of Inl e \<Rightarrow> Some (ForwardError e)
      | Inr t \<Rightarrow> if t then Some (Inr True) else any_base (f F) ms)" for r :: "bool expected"
  proof (cases r)
    case (Inr t)
    then show ?thesis using Cons by (cases t) (auto simp: option.const_mono)
  qed (simp add: option.const_mono)
  then show ?case unfolding any_base.simps by (intro bind_mono assms)
qed (simp add: option.const_mono)

partial_function (option) is_base :: "TypeRegistry \<Rightarrow> gxf_tid_t \<Rightarrow> gxf_tid_t \<Rightarrow> bool expected option" where
  "is_base reg derived base =
     (if tr_names reg derived = None then Some (Unexpected GXF_QUERY_NOT_FOUND)
      else if tr_names reg base = None then Some (Unexpected GXF_QUERY_NOT_FOUND)
      else case tr_bases reg derived of
        None \<Rightarrow> Some (Inr False)
      | Some ms \<Rightarrow> if base \<in> set ms then Some (Inr True)
                   else any_base (\<lambda>middle. is_base reg middle base) ms)"

declare is_base.simps [code]

section \<open>Invariant\<close>

text \<open>Names and types are a bijection, and only registered types have bases and are bases.\<close>

definition tr_wf :: "TypeRegistry \<Rightarrow> bool" where [inv_defs]:
  "tr_wf reg \<longleftrightarrow>
     (\<forall>n t. tr_tids reg n = Some t \<longleftrightarrow> tr_names reg t = Some n) \<and>
     finite (dom (tr_names reg)) \<and>
     (\<forall>d ms. tr_bases reg d = Some ms \<longrightarrow> d \<in> dom (tr_names reg) \<and> set ms \<subseteq> dom (tr_names reg)) \<and>
     wf_sets (tr_bases reg)"

text \<open>The direct bases as a relation.\<close>

definition bases_rel :: "TypeRegistry \<Rightarrow> (gxf_tid_t \<times> gxf_tid_t) set" where
  "bases_rel reg = {(d, b). b \<in> set (set_at (tr_bases reg) d)}"

lemma bases_rel_simps [simp]:
  "(d, b) \<in> bases_rel reg \<longleftrightarrow> b \<in> set (set_at (tr_bases reg) d)"
  by (simp add: bases_rel_def)

lemma tr_wf_init [simp]: "tr_wf TypeRegistry_init"
  by (simp add: inv_defs TypeRegistry_init_def wf_sets_def set_at_def)

lemma bases_rel_init [simp]: "bases_rel TypeRegistry_init = {}"
  by (auto simp: bases_rel_def TypeRegistry_init_def set_at_def)

lemma bases_rel_registered:
  assumes "tr_wf reg" "(d, b) \<in> bases_rel reg"
  shows "d \<in> dom (tr_names reg)" "b \<in> dom (tr_names reg)"
proof -
  obtain ms where "tr_bases reg d = Some ms" "b \<in> set ms"
    using assms(2) by (cases "tr_bases reg d") (auto simp: set_at_def)
  then show "d \<in> dom (tr_names reg)" "b \<in> dom (tr_names reg)"
    using assms(1) unfolding tr_wf_def by blast+
qed

lemma bases_rel_subset: "tr_wf reg \<Longrightarrow> bases_rel reg \<subseteq> dom (tr_names reg) \<times> dom (tr_names reg)"
  by (meson SigmaI bases_rel_registered subrelI)

lemma finite_bases_rel: "tr_wf reg \<Longrightarrow> finite (bases_rel reg)"
  by (rule finite_subset [OF bases_rel_subset]) (auto simp: inv_defs)

lemma tr_wf_bij: "tr_wf reg \<Longrightarrow> tr_tids reg n = Some t \<longleftrightarrow> tr_names reg t = Some n"
  by (simp add: tr_wf_def)

lemma id_from_name_wf: "tr_wf reg \<Longrightarrow> id_from_name reg n = Inr t \<longleftrightarrow> tr_names reg t = Some n"
  using tr_wf_bij [of reg n t] by (cases "tr_tids reg n") (auto simp: id_from_name_def)

lemma tr_add_wf:
  assumes "tr_wf reg"
  shows "tr_wf (snd (tr_add t n reg))"
proof (cases "tr_tids reg n = None \<and> tr_names reg t = None")
  case True
  have "(\<forall>m u. ((tr_tids reg)(n \<mapsto> t)) m = Some u \<longleftrightarrow> ((tr_names reg)(t \<mapsto> n)) u = Some m)"
    using True tr_wf_bij [OF assms] by (metis fun_upd_apply option.distinct(1) option.inject)
  moreover have "dom (tr_names reg) \<subseteq> dom ((tr_names reg)(t \<mapsto> n))" by auto
  ultimately show ?thesis using True assms by (simp add: tr_add_def tr_wf_def) (meson insertI2 subset_eq)
qed (use assms in \<open>auto simp: tr_add_def\<close>)

lemma bases_rel_add [simp]: "bases_rel (snd (tr_add t n reg)) = bases_rel reg"
  by (simp add: tr_add_def bases_rel_def)

lemma add_base_cases:
  assumes "tr_wf reg"
  obtains (error) e where "add_base c b reg = (Inl e, reg)"
  | (added) t u where "tr_names reg t = Some c" "tr_names reg u = Some b"
      "add_base c b reg = (Success, reg\<lparr>tr_bases := set_add t u (tr_bases reg)\<rparr>)"
  using assms id_from_name_wf [OF assms]
  by (cases "id_from_name reg c"; cases "id_from_name reg b") (auto simp: add_base_def ForwardError_def)

lemma bases_rel_set_add [simp]:
  "bases_rel (reg\<lparr>tr_bases := set_add t u (tr_bases reg)\<rparr>) = insert (t, u) (bases_rel reg)"
  by (auto simp: bases_rel_def split: if_splits)

lemma add_base_wf:
  assumes "tr_wf reg"
  shows "tr_wf (snd (add_base c b reg))"
  using assms
proof (cases rule: add_base_cases [where c = c and b = b])
  case (added t u)
  have "set (set_at (tr_bases reg) t) \<subseteq> dom (tr_names reg)"
    using bases_rel_registered(2) [OF assms, of t] by auto
  then have "t \<in> dom (tr_names reg) \<and> u \<in> dom (tr_names reg) \<and>
      set (set_insert u (set_at (tr_bases reg) t)) \<subseteq> dom (tr_names reg)"
    using added by auto
  moreover have "wf_sets (set_add t u (tr_bases reg))" using assms by (simp add: inv_defs)
  ultimately show ?thesis
    using assms added(3) by (auto simp: tr_wf_def set_add_def split: if_splits)
qed (use assms in simp)

section \<open>The search along the bases\<close>

lemma any_base_total:
  "(\<And>m. m \<in> set ms \<Longrightarrow> f m = Some (Inr (P m))) \<Longrightarrow> any_base f ms = Some (Inr (\<exists>m\<in>set ms. P m))"
  by (induction ms) auto

lemma is_base_unregistered:
  "tr_names reg d = None \<or> tr_names reg b = None \<Longrightarrow> is_base reg d b = Some (Inl GXF_QUERY_NOT_FOUND)"
  by (subst is_base.simps) auto

lemma is_base_reachable:
  assumes wf: "tr_wf reg" and acyc: "acyclic (bases_rel reg)"
    and b: "b \<in> dom (tr_names reg)" and d: "d \<in> dom (tr_names reg)"
  shows "is_base reg d b = Some (Inr ((d, b) \<in> (bases_rel reg)\<^sup>+))"
proof -
  have "wf ((bases_rel reg)\<inverse>)"
    using finite_acyclic_wf_converse [OF finite_bases_rel [OF wf] acyc] .
  then show ?thesis using d
  proof (induction d rule: wf_induct_rule)
    case (less d)
    have step: "(d, b) \<in> (bases_rel reg)\<^sup>+ \<longleftrightarrow>
        (d, b) \<in> bases_rel reg \<or> (\<exists>m. (d, m) \<in> bases_rel reg \<and> (m, b) \<in> (bases_rel reg)\<^sup>+)"
      by (meson converse_tranclE r_into_trancl trancl_into_trancl2)
    show ?case
    proof (cases "tr_bases reg d")
      case None
      then show ?thesis using less.prems b step by (subst is_base.simps) (auto simp: set_at_def)
    next
      case (Some ms)
      then have ms: "set_at (tr_bases reg) d = ms" by (simp add: set_at_def)
      have "is_base reg m b = Some (Inr ((m, b) \<in> (bases_rel reg)\<^sup>+))" if m: "m \<in> set ms" for m
        using less.IH [of m] bases_rel_registered(2) [OF wf, of d m] m ms by auto
      then show ?thesis
        using less.prems b step ms Some by (subst is_base.simps) (auto simp: any_base_total)
    qed
  qed
qed

text \<open>A type that is its own only base makes the search endless, for every type but itself.\<close>

lemma is_base_self_loop:
  assumes "tr_names reg d \<noteq> None" "tr_names reg b \<noteq> None" "tr_bases reg d = Some [d]" "b \<noteq> d"
  shows "is_base reg d b = None"
proof -
  have "is_base reg' d' b' = Some r \<Longrightarrow> reg' = reg \<longrightarrow> d' = d \<longrightarrow> b' = b \<longrightarrow> False" for reg' d' b' r
  proof (induction reg' d' b' r rule: is_base.raw_induct [rotated, consumes 1])
    case (1 f reg' d' b' r)
    show ?case
    proof (intro impI)
      assume "reg' = reg" "d' = d" "b' = b"
      then have "f reg d b = Some r"
        using assms 1(2) by (cases "f reg d b") (auto simp: ForwardError_def split: sum.splits if_splits)
      then show False using 1(1) by blast
    qed
  qed
  then show ?thesis by fastforce
qed

end
