(* ===== verification/Entity_Warden.thy ===== *)
theory Entity_Warden
  imports Prelude Type_Registry
begin

text \<open>
  gxf/std/entity_warden.cpp and gxf/core/entity_item.hpp: the store of entities, their components,
  names, groups and reference counts.  The components and the factory are reached by virtual calls,
  modelled by a function of the call that transforms an arbitrary state 'w; a null pointer is 0.
  Hash maps are partial maps; the loops over a whole map get its iteration order as an argument.
  Each public operation holds its locks for the parts that touch the maps, so it is one step.
\<close>

section \<open>Stages\<close>

datatype Stage = kUninitialized | kInitializationInProgress | kInitialized
  | kDeinitializationInProgress | kDestructionInProgress | kDestroyed

fun stage_code :: "Stage \<Rightarrow> nat" where
  "stage_code kUninitialized = 0"
| "stage_code kInitializationInProgress = 1"
| "stage_code kInitialized = 2"
| "stage_code kDeinitializationInProgress = 3"
| "stage_code kDestructionInProgress = 4"
| "stage_code kDestroyed = 5"

lemma stage_code_inj: "stage_code s = stage_code t \<longleftrightarrow> s = t"
  by (cases s; cases t) simp_all

text \<open>The stages are ordered as their numbers in the code.\<close>

instantiation Stage :: linorder
begin

definition less_eq_Stage :: "Stage \<Rightarrow> Stage \<Rightarrow> bool" where
  "less_eq_Stage s t \<longleftrightarrow> stage_code s \<le> stage_code t"

definition less_Stage :: "Stage \<Rightarrow> Stage \<Rightarrow> bool" where
  "less_Stage s t \<longleftrightarrow> stage_code s < stage_code t"

instance
  by standard (auto simp: less_eq_Stage_def less_Stage_def stage_code_inj intro: antisym)

end

section \<open>State\<close>

record ComponentItem =
  ci_cid :: gxf_uid_t
  ci_tid :: gxf_tid_t
  ci_raw_pointer :: nat
  ci_component_pointer :: nat

abbreviation kUnspecifiedUid :: gxf_uid_t where "kUnspecifiedUid \<equiv> -1"

record WardenItem =
  wi_stage :: Stage
  wi_uid :: gxf_uid_t
  wi_components :: "ComponentItem list"
  wi_interface :: "string \<rightharpoonup> gxf_uid_t"
  wi_gid :: gxf_uid_t

record EntityGroupItem =
  eg_gid :: gxf_uid_t
  eg_name :: string
  eg_entities :: "gxf_uid_t list"
  eg_resources :: "gxf_uid_t list"

record EntityWarden =
  w_entities :: "gxf_uid_t \<rightharpoonup> WardenItem"
  w_groups :: "gxf_uid_t \<rightharpoonup> EntityGroupItem"
  w_components :: "gxf_uid_t \<rightharpoonup> gxf_uid_t \<times> gxf_tid_t"
  w_name_to_eid :: "string \<rightharpoonup> gxf_uid_t"
  w_eid_to_name :: "gxf_uid_t \<rightharpoonup> string"
  w_default_group :: gxf_uid_t
  w_ref_count :: "gxf_uid_t \<rightharpoonup> int"

text \<open>emplace and insert of a hash map keep an existing binding.\<close>

definition emplace :: "'k \<Rightarrow> 'v \<Rightarrow> ('k \<rightharpoonup> 'v) \<Rightarrow> ('k \<rightharpoonup> 'v)" where
  "emplace k v m = (if m k = None then m(k \<mapsto> v) else m)"

definition kWardenComponents :: nat where "kWardenComponents = 1024"

datatype ccall =
    CompInitialize gxf_uid_t
  | CompDeinitialize gxf_uid_t
  | Deallocate gxf_tid_t nat

type_synonym 'w calls = "ccall \<Rightarrow> 'w \<Rightarrow> gxf_result_t \<times> 'w"

section \<open>EntityItem\<close>

text \<open>deinitialize of the components initialised so far; errors are dropped.\<close>

fun undo_loop :: "'w calls \<Rightarrow> ComponentItem list \<Rightarrow> 'w \<Rightarrow> 'w" where
  "undo_loop f [] w = w"
| "undo_loop f (c # cs) w =
     undo_loop f cs (if ci_component_pointer c = 0 then w else snd (f (CompDeinitialize (ci_cid c)) w))"

fun init_loop ::
  "'w calls \<Rightarrow> ComponentItem list \<Rightarrow> ComponentItem list \<Rightarrow> 'w \<Rightarrow> gxf_result_t \<times> 'w" where
  "init_loop f done_cs [] w = (GXF_SUCCESS, w)"
| "init_loop f done_cs (c # cs) w =
     (if ci_component_pointer c = 0 then init_loop f (done_cs @ [c]) cs w
      else let (result, w1) = f (CompInitialize (ci_cid c)) w in
        if result \<noteq> GXF_SUCCESS then (result, undo_loop f done_cs w1)
        else init_loop f (done_cs @ [c]) cs w1)"

definition wi_initialize :: "'w calls \<Rightarrow> WardenItem \<times> 'w \<Rightarrow> gxf_result_t \<times> WardenItem \<times> 'w" where
  "wi_initialize f = (\<lambda>(i, w).
     if wi_stage i \<noteq> kInitializationInProgress then (GXF_INVALID_LIFECYCLE_STAGE, i, w)
     else let (result, w1) = init_loop f [] (wi_components i) w in
       if result \<noteq> GXF_SUCCESS then (result, i\<lparr>wi_stage := kUninitialized\<rparr>, w1)
       else (GXF_SUCCESS, i\<lparr>wi_stage := kInitialized\<rparr>, w1))"

fun deinit_loop :: "'w calls \<Rightarrow> ComponentItem list \<Rightarrow> gxf_result_t \<Rightarrow> 'w \<Rightarrow> gxf_result_t \<times> 'w" where
  "deinit_loop f [] code w = (code, w)"
| "deinit_loop f (c # cs) code w =
     (if ci_component_pointer c = 0 then deinit_loop f cs code w
      else let (result, w1) = f (CompDeinitialize (ci_cid c)) w
           in deinit_loop f cs (AccumulateErrorCode code result) w1)"

definition wi_deinitialize :: "'w calls \<Rightarrow> WardenItem \<times> 'w \<Rightarrow> gxf_result_t \<times> WardenItem \<times> 'w" where
  "wi_deinitialize f = (\<lambda>(i, w).
     if wi_stage i \<noteq> kDeinitializationInProgress then (GXF_INVALID_LIFECYCLE_STAGE, i, w)
     else let (code, w1) = deinit_loop f (rev (wi_components i)) GXF_SUCCESS w
          in (code, i\<lparr>wi_stage := kUninitialized\<rparr>, w1))"

fun deallocate_loop :: "'w calls \<Rightarrow> ComponentItem list \<Rightarrow> gxf_result_t \<Rightarrow> 'w \<Rightarrow> gxf_result_t \<times> 'w" where
  "deallocate_loop f [] result w = (result, w)"
| "deallocate_loop f (c # cs) result w =
     (let (code, w1) = f (Deallocate (ci_tid c) (ci_raw_pointer c)) w
      in deallocate_loop f cs (if code \<noteq> GXF_SUCCESS then code else result) w1)"

definition wi_destroy :: "bool \<Rightarrow> 'w calls \<Rightarrow> WardenItem \<times> 'w \<Rightarrow> gxf_result_t \<times> WardenItem \<times> 'w" where
  "wi_destroy has_factory f = (\<lambda>(i, w).
     if \<not> has_factory then (GXF_ARGUMENT_NULL, i, w)
     else if wi_stage i \<noteq> kDestructionInProgress then (GXF_INVALID_LIFECYCLE_STAGE, i, w)
     else let (result, w1) = deallocate_loop f (wi_components i) GXF_SUCCESS w
          in (result, i\<lparr>wi_components := [], wi_stage := kDestroyed\<rparr>, w1))"

section \<open>EntityWarden\<close>

definition ew_create :: "gxf_uid_t \<Rightarrow> string \<Rightarrow> EntityWarden \<Rightarrow> gxf_result_t \<times> EntityWarden" where
  "ew_create eid entity_name m =
     (GXF_SUCCESS,
      m\<lparr>w_eid_to_name := emplace eid entity_name (w_eid_to_name m),
        w_name_to_eid := emplace entity_name eid (w_name_to_eid m),
        w_entities := emplace eid \<lparr>wi_stage = kUninitialized, wi_uid = eid, wi_components = [],
          wi_interface = Map.empty, wi_gid = w_default_group m\<rparr> (w_entities m)\<rparr>)"

text \<open>isAvailable of the parameter storage is a parameter.\<close>

fun all_available :: "(gxf_uid_t \<Rightarrow> unit expected) \<Rightarrow> ComponentItem list \<Rightarrow> gxf_result_t" where
  "all_available available [] = GXF_SUCCESS"
| "all_available available (c # cs) = (case available (ci_cid c) of
     Inl e \<Rightarrow> e | Inr _ \<Rightarrow> all_available available cs)"

definition ew_findUninitialized ::
  "(gxf_uid_t \<Rightarrow> unit expected) \<Rightarrow> gxf_uid_t \<Rightarrow> EntityWarden \<Rightarrow> gxf_result_t" where
  "ew_findUninitialized available eid m = (case w_entities m eid of
     None \<Rightarrow> GXF_ENTITY_NOT_FOUND
   | Some item \<Rightarrow> all_available available (wi_components item))"

definition ew_initialize ::
  "'w calls \<Rightarrow> (gxf_uid_t \<Rightarrow> unit expected) \<Rightarrow> gxf_uid_t \<Rightarrow> EntityWarden \<times> 'w \<Rightarrow> gxf_result_t \<times> EntityWarden \<times> 'w"
where
  "ew_initialize f available eid = (\<lambda>(m, w).
     let find_result = ew_findUninitialized available eid m in
     if find_result \<noteq> GXF_SUCCESS then (find_result, m, w)
     else case w_entities m eid of
       None \<Rightarrow> (GXF_ENTITY_NOT_FOUND, m, w)
     | Some item \<Rightarrow>
         (if wi_stage item \<noteq> kUninitialized then (GXF_INVALID_LIFECYCLE_STAGE, m, w)
          else let (r, item', w1) = wi_initialize f (item\<lparr>wi_stage := kInitializationInProgress\<rparr>, w)
               in (r, m\<lparr>w_entities := (w_entities m)(eid \<mapsto> item')\<rparr>, w1)))"

definition ew_deinitialize ::
  "'w calls \<Rightarrow> gxf_uid_t \<Rightarrow> EntityWarden \<times> 'w \<Rightarrow> gxf_result_t \<times> EntityWarden \<times> 'w" where
  "ew_deinitialize f eid = (\<lambda>(m, w). case w_entities m eid of
     None \<Rightarrow> (GXF_ENTITY_NOT_FOUND, m, w)
   | Some item \<Rightarrow>
       (if wi_stage item = kUninitialized then (GXF_SUCCESS, m, w)
        else if wi_stage item \<noteq> kInitialized then (GXF_INVALID_LIFECYCLE_STAGE, m, w)
        else let (r, item', w1) = wi_deinitialize f (item\<lparr>wi_stage := kDeinitializationInProgress\<rparr>, w)
             in (r, m\<lparr>w_entities := (w_entities m)(eid \<mapsto> item')\<rparr>, w1)))"

text \<open>eid_to_name_[eid] of a missing eid is the empty string.\<close>

definition ew_destroy ::
  "bool \<Rightarrow> 'w calls \<Rightarrow> gxf_uid_t \<Rightarrow> EntityWarden \<times> 'w \<Rightarrow> gxf_result_t \<times> EntityWarden \<times> 'w" where
  "ew_destroy has_factory f eid = (\<lambda>(m, w). case w_entities m eid of
     None \<Rightarrow> (GXF_ENTITY_NOT_FOUND, m, w)
   | Some item \<Rightarrow>
       (let name = (case w_eid_to_name m eid of None \<Rightarrow> '''' | Some n \<Rightarrow> n);
            m1 = m\<lparr>w_entities := (w_entities m)(eid := None),
                   w_components := (w_components m) |` (- ci_cid ` set (wi_components item)),
                   w_name_to_eid := (w_name_to_eid m)(name := None),
                   w_eid_to_name := (w_eid_to_name m)(eid := None)\<rparr>
        in if wi_stage item \<noteq> kUninitialized then (GXF_INVALID_LIFECYCLE_STAGE, m1, w)
           else let (r, _, w1) = wi_destroy has_factory f (item\<lparr>wi_stage := kDestructionInProgress\<rparr>, w)
                in (r, m1, w1)))"

fun cleanup_deinit :: "'w calls \<Rightarrow> WardenItem list \<Rightarrow> gxf_result_t \<Rightarrow> 'w \<Rightarrow> gxf_result_t \<times> WardenItem list \<times> 'w" where
  "cleanup_deinit f [] code w = (code, [], w)"
| "cleanup_deinit f (i # is) code w =
     (let (code1, i1, w1) =
        (if wi_stage i = kInitialized
         then let (r, i1, w1) = wi_deinitialize f (i\<lparr>wi_stage := kDeinitializationInProgress\<rparr>, w)
              in (AccumulateErrorCode code r, i1, w1)
         else (code, i, w));
          (code2, is2, w2) = cleanup_deinit f is code1 w1
      in (code2, i1 # is2, w2))"

fun cleanup_destroy ::
  "bool \<Rightarrow> 'w calls \<Rightarrow> WardenItem list \<Rightarrow> gxf_result_t \<Rightarrow> 'w \<Rightarrow> gxf_result_t \<times> 'w" where
  "cleanup_destroy has_factory f [] code w = (code, w)"
| "cleanup_destroy has_factory f (i # is) code w =
     (if wi_stage i \<noteq> kUninitialized
      then cleanup_destroy has_factory f is GXF_INVALID_LIFECYCLE_STAGE w
      else let (r, _, w1) = wi_destroy has_factory f (i\<lparr>wi_stage := kDestructionInProgress\<rparr>, w)
           in cleanup_destroy has_factory f is (AccumulateErrorCode code r) w1)"

definition ew_cleanup ::
  "bool \<Rightarrow> 'w calls \<Rightarrow> gxf_uid_t list \<Rightarrow> EntityWarden \<times> 'w \<Rightarrow> gxf_result_t \<times> EntityWarden \<times> 'w" where
  "ew_cleanup has_factory f order = (\<lambda>(m, w).
     let tmp = List.map_filter (w_entities m) order;
         m1 = m\<lparr>w_entities := Map.empty, w_components := Map.empty,
                w_name_to_eid := Map.empty, w_eid_to_name := Map.empty\<rparr>;
         (code, tmp1, w1) = cleanup_deinit f tmp GXF_SUCCESS w;
         (code2, w2) = cleanup_destroy has_factory f tmp1 code w1
     in (code2, m1, w2))"

definition ew_isValid :: "gxf_uid_t \<Rightarrow> EntityWarden \<Rightarrow> gxf_result_t" where
  "ew_isValid eid m = (if w_entities m eid = None then GXF_ENTITY_NOT_FOUND else GXF_SUCCESS)"

definition ew_getAll :: "gxf_uid_t list \<Rightarrow> EntityWarden \<Rightarrow> gxf_uid_t list expected" where
  "ew_getAll order m =
     (let eids = map wi_uid (List.map_filter (w_entities m) order)
      in if length eids > kMaxEntities then Unexpected GXF_EXCEEDING_PREALLOCATED_SIZE else Inr eids)"

definition ew_getEntityComponents :: "gxf_uid_t \<Rightarrow> EntityWarden \<Rightarrow> gxf_uid_t list expected" where
  "ew_getEntityComponents eid m = (case w_entities m eid of
     None \<Rightarrow> Unexpected GXF_QUERY_NOT_FOUND
   | Some item \<Rightarrow> (if length (wi_components item) > kWardenComponents
                   then Unexpected GXF_EXCEEDING_PREALLOCATED_SIZE
                   else Inr (map ci_cid (wi_components item))))"

text \<open>find with non-null pointers: the code and the value written to eid.\<close>

definition ew_find :: "string \<Rightarrow> EntityWarden \<Rightarrow> gxf_result_t \<times> gxf_uid_t" where
  "ew_find name m =
     (if name = [] then (GXF_ENTITY_NOT_FOUND, kNullUid)
      else case w_name_to_eid m name of
        None \<Rightarrow> (GXF_ENTITY_NOT_FOUND, kNullUid) | Some eid \<Rightarrow> (GXF_SUCCESS, eid))"

fun remove_component_loop ::
  "'w calls \<Rightarrow> gxf_uid_t \<Rightarrow> ComponentItem list \<Rightarrow> 'w \<Rightarrow> gxf_result_t \<times> ComponentItem list \<times> 'w" where
  "remove_component_loop f cid [] w = (GXF_SUCCESS, [], w)"
| "remove_component_loop f cid (c # cs) w =
     (if cid = ci_cid c
      then let (code, w1) = f (Deallocate (ci_tid c) (ci_component_pointer c)) w
           in if code \<noteq> GXF_SUCCESS then (code, c # cs, w1) else (GXF_SUCCESS, cs, w1)
      else let (code, cs1, w1) = remove_component_loop f cid cs w in (code, c # cs1, w1))"

definition ew_removeComponent ::
  "bool \<Rightarrow> 'w calls \<Rightarrow> gxf_uid_t \<Rightarrow> gxf_uid_t \<Rightarrow> EntityWarden \<times> 'w \<Rightarrow> gxf_result_t \<times> EntityWarden \<times> 'w" where
  "ew_removeComponent has_factory f eid cid = (\<lambda>(m, w).
     if \<not> has_factory then (GXF_ARGUMENT_NULL, m, w)
     else if w_components m cid = None then (GXF_ENTITY_COMPONENT_NOT_FOUND, m, w)
     else let m1 = m\<lparr>w_components := (w_components m)(cid := None)\<rparr> in
       case w_entities m1 eid of
         None \<Rightarrow> (GXF_ENTITY_NOT_FOUND, m1, w)
       | Some item \<Rightarrow>
           (if wi_stage item \<noteq> kUninitialized
            then (GXF_ENTITY_CAN_NOT_REMOVE_COMPONENT_AFTER_INITIALIZATION, m1, w)
            else let (code, cs, w1) = remove_component_loop f cid (wi_components item) w
                 in (code, m1\<lparr>w_entities := (w_entities m1)(eid \<mapsto> item\<lparr>wi_components := cs\<rparr>)\<rparr>, w1)))"

definition ew_addComponent ::
  "gxf_uid_t \<Rightarrow> gxf_uid_t \<Rightarrow> gxf_tid_t \<Rightarrow> nat \<Rightarrow> nat \<Rightarrow> EntityWarden \<Rightarrow> gxf_result_t \<times> EntityWarden" where
  "ew_addComponent eid cid tid raw_pointer component m = (case w_entities m eid of
     None \<Rightarrow> (GXF_ENTITY_NOT_FOUND, m)
   | Some item \<Rightarrow>
       (let m1 = m\<lparr>w_components := (w_components m)(cid \<mapsto> (eid, tid))\<rparr> in
        if wi_stage item \<noteq> kUninitialized
        then (GXF_ENTITY_CAN_NOT_ADD_COMPONENT_AFTER_INITIALIZATION, m1)
        else if length (wi_components item) \<ge> kWardenComponents
        then (GXF_ENTITY_MAX_COMPONENTS_LIMIT_EXCEEDED, m1)
        else (GXF_SUCCESS, m1\<lparr>w_entities := (w_entities m1)(eid \<mapsto> item\<lparr>wi_components := wi_components item @
               [\<lparr>ci_cid = cid, ci_tid = tid, ci_raw_pointer = raw_pointer, ci_component_pointer = component\<rparr>]\<rparr>)\<rparr>)))"

definition ew_addComponentToInterface ::
  "gxf_uid_t \<Rightarrow> gxf_uid_t \<Rightarrow> string \<Rightarrow> EntityWarden \<Rightarrow> gxf_result_t \<times> EntityWarden" where
  "ew_addComponentToInterface eid cid name m = (case w_entities m eid of
     None \<Rightarrow> (GXF_ENTITY_NOT_FOUND, m)
   | Some item \<Rightarrow>
       (if wi_stage item \<noteq> kUninitialized
        then (GXF_ENTITY_CAN_NOT_ADD_COMPONENT_AFTER_INITIALIZATION, m)
        else (GXF_SUCCESS, m\<lparr>w_entities :=
               (w_entities m)(eid \<mapsto> item\<lparr>wi_interface := emplace name cid (wi_interface item)\<rparr>)\<rparr>)))"

section \<open>Look-ups\<close>

definition ew_getComponentEntity :: "gxf_uid_t \<Rightarrow> EntityWarden \<Rightarrow> gxf_uid_t expected" where
  "ew_getComponentEntity cid m = (case w_components m cid of
     Some (eid, _) \<Rightarrow> Inr eid | None \<Rightarrow> Unexpected GXF_ENTITY_NOT_FOUND)"

definition ew_getEntityPtr :: "gxf_uid_t \<Rightarrow> EntityWarden \<Rightarrow> WardenItem expected" where
  "ew_getEntityPtr eid m = (case w_entities m eid of
     Some i \<Rightarrow> Inr i | None \<Rightarrow> Unexpected GXF_ENTITY_NOT_FOUND)"

definition ew_getEntityName :: "gxf_uid_t \<Rightarrow> EntityWarden \<Rightarrow> string expected" where
  "ew_getEntityName eid m = (case w_eid_to_name m eid of
     Some n \<Rightarrow> Inr n | None \<Rightarrow> Unexpected GXF_ENTITY_NOT_FOUND)"

definition ew_getComponentType :: "gxf_uid_t \<Rightarrow> EntityWarden \<Rightarrow> gxf_tid_t expected" where
  "ew_getComponentType cid m = (case w_components m cid of
     Some (_, tid) \<Rightarrow> Inr tid | None \<Rightarrow> Unexpected GXF_ENTITY_COMPONENT_NOT_FOUND)"

text \<open>findComponent: is_base of the type registry, the name parameter of a component and
  GxfComponentPointer are parameters.  The result is the code, the value
  written to offset and the pair written to cid and comp_ptr.\<close>

definition component_matches ::
  "(gxf_tid_t \<Rightarrow> gxf_tid_t \<Rightarrow> bool expected) \<Rightarrow> (gxf_uid_t \<Rightarrow> string expected) \<Rightarrow> gxf_tid_t \<Rightarrow>
   string option \<Rightarrow> ComponentItem \<Rightarrow> bool"
where
  "component_matches derives name_of tid name c \<longleftrightarrow>
     (GxfTidIsNull tid \<or> ci_tid c = tid \<or> derives (ci_tid c) tid = Inr True) \<and>
     (case name of None \<Rightarrow> True | Some n \<Rightarrow> name_of (ci_cid c) = Inr n)"

definition ew_findComponent ::
  "(gxf_tid_t \<Rightarrow> gxf_tid_t \<Rightarrow> bool expected) \<Rightarrow> (gxf_uid_t \<Rightarrow> string expected) \<Rightarrow>
   (gxf_uid_t \<Rightarrow> gxf_tid_t \<Rightarrow> nat expected) \<Rightarrow> gxf_tid_t \<Rightarrow> string option \<Rightarrow> int option \<Rightarrow> WardenItem \<Rightarrow>
   gxf_result_t \<times> int option \<times> (gxf_uid_t \<times> nat) option"
where
  "ew_findComponent derives name_of pointer_of tid name offset item =
     (let cs = wi_components item in
      if (case offset of Some n \<Rightarrow> n < 0 | None \<Rightarrow> False) then (GXF_FAILURE, offset, None)
      else if (case offset of Some n \<Rightarrow> nat n \<ge> length cs | None \<Rightarrow> False)
      then (GXF_ENTITY_COMPONENT_NOT_FOUND, offset, None)
      else let start = (case offset of Some n \<Rightarrow> nat n | None \<Rightarrow> 0);
               jt = start + length (takeWhile (\<lambda>c. \<not> component_matches derives name_of tid name c) (drop start cs));
               offset1 = (if offset = None then None else Some (int jt))
           in if jt = length cs
              then (case name of
                      None \<Rightarrow> (GXF_ENTITY_COMPONENT_NOT_FOUND, offset1, None)
                    | Some n \<Rightarrow>
                        (case wi_interface item n of
                           None \<Rightarrow> (GXF_ENTITY_COMPONENT_NOT_FOUND, offset1, None)
                         | Some cid \<Rightarrow>
                             (case pointer_of cid tid of
                                Inr p \<Rightarrow> (GXF_SUCCESS, offset1, Some (cid, p))
                              | Inl _ \<Rightarrow> (GXF_ENTITY_COMPONENT_NOT_FOUND, offset1, None))))
              else (GXF_SUCCESS, offset1, Some (ci_cid (cs ! jt), ci_component_pointer (cs ! jt))))"

section \<open>Entity groups\<close>

definition kDefaultEntityGroupName :: string where "kDefaultEntityGroupName = ''default_entity_group''"

definition ew_createEntityGroup ::
  "gxf_uid_t \<Rightarrow> string option \<Rightarrow> EntityWarden \<Rightarrow> gxf_result_t \<times> EntityWarden" where
  "ew_createEntityGroup gid name m =
     (if w_groups m gid \<noteq> None then (GXF_FAILURE, m)
      else (GXF_SUCCESS, m\<lparr>w_groups := (w_groups m)(gid \<mapsto> \<lparr>eg_gid = gid,
              eg_name = (case name of None \<Rightarrow> '''' | Some n \<Rightarrow> n), eg_entities = [], eg_resources = []\<rparr>)\<rparr>))"

definition ew_createDefaultEntityGroup :: "gxf_uid_t \<Rightarrow> EntityWarden \<Rightarrow> gxf_result_t \<times> EntityWarden" where
  "ew_createDefaultEntityGroup gid m =
     (let (result, m1) = ew_createEntityGroup gid (Some kDefaultEntityGroupName) m
      in if result \<noteq> GXF_SUCCESS then (result, m1) else (GXF_SUCCESS, m1\<lparr>w_default_group := gid\<rparr>))"

text \<open>The loop that erases an entry at the current index and then advances the index.\<close>

fun erase_skip :: "'a \<Rightarrow> 'a list \<Rightarrow> 'a list" where
  "erase_skip x [] = []"
| "erase_skip x [e] = (if e = x then [] else [e])"
| "erase_skip x (e # e' # es) = (if e = x then e' # erase_skip x es else e # erase_skip x (e' # es))"

definition ew_entityGroupRemoveEntity :: "gxf_uid_t \<Rightarrow> EntityWarden \<Rightarrow> gxf_result_t \<times> EntityWarden" where
  "ew_entityGroupRemoveEntity eid m = (case w_entities m eid of
     None \<Rightarrow> (GXF_ENTITY_NOT_FOUND, m)
   | Some item \<Rightarrow>
       (let gid = wi_gid item in
        if gid = kUnspecifiedUid then (GXF_FAILURE, m)
        else case w_groups m gid of
          None \<Rightarrow> (GXF_ENTITY_GROUP_NOT_FOUND, m)
        | Some g \<Rightarrow>
            (GXF_SUCCESS, m\<lparr>w_groups := (w_groups m)(gid \<mapsto> g\<lparr>eg_entities := erase_skip eid (eg_entities g)\<rparr>),
                            w_entities := (w_entities m)(eid \<mapsto> item\<lparr>wi_gid := kUnspecifiedUid\<rparr>)\<rparr>)))"

definition ew_updateEntityGroup :: "gxf_uid_t \<Rightarrow> gxf_uid_t \<Rightarrow> EntityWarden \<Rightarrow> gxf_result_t \<times> EntityWarden" where
  "ew_updateEntityGroup gid eid m = (case w_groups m gid of
     None \<Rightarrow> (GXF_ENTITY_GROUP_NOT_FOUND, m)
   | Some _ \<Rightarrow>
     (case w_entities m eid of
        None \<Rightarrow> (GXF_ENTITY_NOT_FOUND, m)
      | Some item \<Rightarrow>
          (if wi_gid item = gid then (GXF_FAILURE, m)
           else if wi_gid item = kUnspecifiedUid then (GXF_FAILURE, m)
           else let (rm_result, m1) = ew_entityGroupRemoveEntity eid m in
             if rm_result \<noteq> GXF_SUCCESS then (rm_result, m1)
             else let m2 = m1\<lparr>w_entities := (w_entities m1)(eid := map_option (wi_gid_update (\<lambda>_. gid)) (w_entities m1 eid))\<rparr>
                  in case w_groups m2 gid of
                       None \<Rightarrow> (GXF_ENTITY_GROUP_NOT_FOUND, m2)
                     | Some g \<Rightarrow>
                         (if length (eg_entities g) \<ge> kMaxEntities then (GXF_OUT_OF_MEMORY, m2)
                          else (GXF_SUCCESS, m2\<lparr>w_groups :=
                                  (w_groups m2)(gid \<mapsto> g\<lparr>eg_entities := eg_entities g @ [eid]\<rparr>)\<rparr>)))))"

definition group_of :: "gxf_uid_t \<Rightarrow> EntityWarden \<Rightarrow> (gxf_uid_t \<times> EntityGroupItem) expected" where
  "group_of eid m = (case w_entities m eid of
     None \<Rightarrow> Unexpected GXF_ENTITY_NOT_FOUND
   | Some item \<Rightarrow> (case w_groups m (wi_gid item) of
       None \<Rightarrow> Unexpected GXF_ENTITY_GROUP_NOT_FOUND | Some g \<Rightarrow> Inr (wi_gid item, g)))"

definition ew_getEntityGroupResources :: "gxf_uid_t \<Rightarrow> EntityWarden \<Rightarrow> gxf_uid_t list expected" where
  "ew_getEntityGroupResources eid m = (case group_of eid m of
     Inl e \<Rightarrow> Inl e | Inr (_, g) \<Rightarrow> Inr (take kWardenComponents (eg_resources g)))"

text \<open>entityFindResources is a parameter; a push into the full list is ignored.\<close>

definition ew_populateResources ::
  "gxf_uid_t list expected \<Rightarrow> gxf_uid_t \<Rightarrow> EntityWarden \<Rightarrow> gxf_result_t \<times> EntityWarden" where
  "ew_populateResources maybe_resources eid m = (case maybe_resources of
     Inl e \<Rightarrow> (e, m)
   | Inr resources \<Rightarrow>
       (if resources = [] then (GXF_SUCCESS, m)
        else case group_of eid m of
          Inl e \<Rightarrow> (e, m)
        | Inr (gid, g) \<Rightarrow>
            (GXF_SUCCESS, m\<lparr>w_groups := (w_groups m)(gid \<mapsto> g\<lparr>eg_resources :=
               take (max kWardenComponents (length (eg_resources g))) (eg_resources g @ resources)\<rparr>)\<rparr>)))"

text \<open>The two nested loops over the resources of the group and of the entity.  None is the abort of
  at(i).value() when an erase at the end has left the index behind the list.\<close>

fun depopulate_inner :: "nat \<Rightarrow> gxf_uid_t list \<Rightarrow> gxf_uid_t list \<Rightarrow> gxf_uid_t list option" where
  "depopulate_inner i [] es = Some es"
| "depopulate_inner i (r # rs) es =
     (if i \<ge> length es then None
      else if es ! i = r then depopulate_inner i rs (list_remove_at i es) else depopulate_inner i rs es)"

lemma depopulate_inner_length: "depopulate_inner i rs es = Some es' \<Longrightarrow> length es' \<le> length es"
  by (induction i rs es rule: depopulate_inner.induct)
    (auto simp: list_remove_at_def split: if_splits)

function depopulate_outer :: "gxf_uid_t list \<Rightarrow> nat \<Rightarrow> gxf_uid_t list \<Rightarrow> gxf_uid_t list option" where
  "depopulate_outer rs i es =
     (if i < length es
      then (case depopulate_inner i rs es of None \<Rightarrow> None | Some es' \<Rightarrow> depopulate_outer rs (Suc i) es')
      else Some es)"
  by pat_completeness auto
termination
  by (relation "measure (\<lambda>(rs, i, es). length es - i)") (auto dest: depopulate_inner_length)

definition ew_depopulateResources ::
  "gxf_uid_t list expected \<Rightarrow> gxf_uid_t \<Rightarrow> EntityWarden \<Rightarrow> (gxf_result_t \<times> EntityWarden) option" where
  "ew_depopulateResources maybe_resources eid m = (case maybe_resources of
     Inl e \<Rightarrow> Some (e, m)
   | Inr resources \<Rightarrow>
       (if resources = [] then Some (GXF_SUCCESS, m)
        else case group_of eid m of
          Inl e \<Rightarrow> Some (e, m)
        | Inr (gid, g) \<Rightarrow> map_option (\<lambda>es. (GXF_SUCCESS,
            m\<lparr>w_groups := (w_groups m)(gid \<mapsto> g\<lparr>eg_resources := es\<rparr>)\<rparr>))
            (depopulate_outer resources 0 (eg_resources g))))"

definition ew_entityFindEntityGroupId :: "gxf_uid_t \<Rightarrow> EntityWarden \<Rightarrow> gxf_uid_t expected" where
  "ew_entityFindEntityGroupId eid m = (case w_entities m eid of
     None \<Rightarrow> Unexpected GXF_ENTITY_NOT_FOUND
   | Some item \<Rightarrow> (if wi_gid item = kUnspecifiedUid then Unexpected GXF_FAILURE else Inr (wi_gid item)))"

definition ew_entityFindEntityGroupName :: "gxf_uid_t \<Rightarrow> EntityWarden \<Rightarrow> string expected" where
  "ew_entityFindEntityGroupName eid m = (case ew_entityFindEntityGroupId eid m of
     Inl e \<Rightarrow> ForwardError e
   | Inr gid \<Rightarrow> (case w_groups m gid of
       None \<Rightarrow> Unexpected GXF_ENTITY_GROUP_NOT_FOUND | Some g \<Rightarrow> Inr (eg_name g)))"

section \<open>Reference counts\<close>

definition ew_getEntityRefCount :: "gxf_uid_t \<Rightarrow> EntityWarden \<Rightarrow> int expected" where
  "ew_getEntityRefCount eid m = (case w_ref_count m eid of
     Some n \<Rightarrow> Inr n | None \<Rightarrow> Unexpected GXF_PARAMETER_NOT_FOUND)"

text \<open>The code, the value written to the reference argument, and the state.\<close>

definition ew_decEntityRefCount :: "gxf_uid_t \<Rightarrow> EntityWarden \<Rightarrow> gxf_result_t \<times> int option \<times> EntityWarden" where
  "ew_decEntityRefCount eid m = (case w_ref_count m eid of
     None \<Rightarrow> (GXF_REF_COUNT_NEGATIVE, None, m)
   | Some n \<Rightarrow>
       (let v = n - 1; m1 = m\<lparr>w_ref_count := (w_ref_count m)(eid \<mapsto> v)\<rparr>
        in if v < 0 then (GXF_REF_COUNT_NEGATIVE, Some v, m1) else (GXF_SUCCESS, Some v, m1)))"

definition ew_incEntityRefCount :: "gxf_uid_t \<Rightarrow> EntityWarden \<Rightarrow> gxf_result_t \<times> EntityWarden" where
  "ew_incEntityRefCount eid m = (case w_ref_count m eid of
     Some n \<Rightarrow> (GXF_SUCCESS, m\<lparr>w_ref_count := (w_ref_count m)(eid \<mapsto> n + 1)\<rparr>)
   | None \<Rightarrow> (GXF_SUCCESS, m\<lparr>w_ref_count := emplace eid 1 (w_ref_count m)\<rparr>))"

definition ew_removeEntityRefCount :: "gxf_uid_t \<Rightarrow> EntityWarden \<Rightarrow> EntityWarden" where
  "ew_removeEntityRefCount eid m = m\<lparr>w_ref_count := (w_ref_count m)(eid := None)\<rparr>"

section \<open>Invariant of the store\<close>

text \<open>Between two operations every stored entity is at rest, knows its own id, and its components have
  distinct ids that the component map resolves to this entity.\<close>

definition wf_item :: "gxf_uid_t \<Rightarrow> WardenItem \<Rightarrow> EntityWarden \<Rightarrow> bool" where
  "wf_item eid i m \<longleftrightarrow> wi_stage i \<in> {kUninitialized, kInitialized} \<and> wi_uid i = eid \<and>
     distinct (map ci_cid (wi_components i)) \<and> length (wi_components i) \<le> kWardenComponents \<and>
     (\<forall>c \<in> set (wi_components i). w_components m (ci_cid c) = Some (eid, ci_tid c))"

definition ew_inv :: "EntityWarden \<Rightarrow> bool" where
  "ew_inv m \<longleftrightarrow> (\<forall>eid i. w_entities m eid = Some i \<longrightarrow> wf_item eid i m)"

text \<open>Initialisation and its undoing leave everything but the stage alone.\<close>

lemma wi_initialize_item:
  "wi_initialize f (i, w) = (r, i', w') \<Longrightarrow> wi_stage i = kInitializationInProgress \<Longrightarrow>
   i' = i\<lparr>wi_stage := (if r = GXF_SUCCESS then kInitialized else kUninitialized)\<rparr>"
  by (auto simp: wi_initialize_def split: prod.splits if_splits)

lemma wi_deinitialize_item:
  "wi_deinitialize f (i, w) = (r, i', w') \<Longrightarrow> wi_stage i = kDeinitializationInProgress \<Longrightarrow>
   i' = i\<lparr>wi_stage := kUninitialized\<rparr>"
  by (auto simp: wi_deinitialize_def split: prod.splits)

lemma wf_item_stage: "wf_item eid i m \<Longrightarrow> s \<in> {kUninitialized, kInitialized} \<Longrightarrow> wf_item eid (i\<lparr>wi_stage := s\<rparr>) m"
  by (simp add: wf_item_def)

lemma wf_item_frame: "w_components m' = w_components m \<Longrightarrow> wf_item eid i m' = wf_item eid i m"
  by (simp add: wf_item_def)

lemma ew_inv_update:
  assumes "ew_inv m" "wf_item eid i m"
  shows "ew_inv (m\<lparr>w_entities := (w_entities m)(eid \<mapsto> i)\<rparr>)"
  using assms by (auto simp: ew_inv_def wf_item_def)

lemma ew_inv_create: "ew_inv m \<Longrightarrow> ew_inv (snd (ew_create eid n m))"
  by (auto simp: ew_inv_def ew_create_def emplace_def wf_item_def)

lemma ew_inv_initialize:
  assumes "ew_inv m"
  shows "ew_inv (fst (snd (ew_initialize f av eid (m, w))))"
proof (cases "ew_findUninitialized av eid m = GXF_SUCCESS \<and>
    (\<exists>i. w_entities m eid = Some i \<and> wi_stage i = kUninitialized)")
  case True
  then obtain i where i: "ew_findUninitialized av eid m = GXF_SUCCESS" "w_entities m eid = Some i"
    "wi_stage i = kUninitialized" by blast
  obtain r i' w' where e: "wi_initialize f (i\<lparr>wi_stage := kInitializationInProgress\<rparr>, w) = (r, i', w')"
    by (metis prod_cases3)
  have "wf_item eid i' m"
    using wi_initialize_item[OF e] assms i(2) wf_item_stage[of eid i m] by (auto simp: ew_inv_def)
  then show ?thesis using i e ew_inv_update[OF assms] by (simp add: ew_initialize_def)
next
  case False
  then show ?thesis using assms by (auto simp: ew_initialize_def Let_def split: option.splits)
qed

lemma ew_inv_deinitialize:
  assumes "ew_inv m"
  shows "ew_inv (fst (snd (ew_deinitialize f eid (m, w))))"
proof (cases "\<exists>i. w_entities m eid = Some i \<and> wi_stage i = kInitialized")
  case True
  then obtain i where i: "w_entities m eid = Some i" "wi_stage i = kInitialized" by blast
  obtain r i' w' where e: "wi_deinitialize f (i\<lparr>wi_stage := kDeinitializationInProgress\<rparr>, w) = (r, i', w')"
    by (metis prod_cases3)
  have "wf_item eid i' m"
    using wi_deinitialize_item[OF e] assms i(1) wf_item_stage[of eid i m] by (auto simp: ew_inv_def)
  then show ?thesis using i e ew_inv_update[OF assms] by (simp add: ew_deinitialize_def)
next
  case False
  then show ?thesis using assms by (auto simp: ew_deinitialize_def split: option.splits)
qed

lemma ew_inv_destroy:
  assumes "ew_inv m"
  shows "ew_inv (fst (snd (ew_destroy hf f eid (m, w))))"
proof (cases "w_entities m eid")
  case (Some i)
  let ?m1 = "fst (snd (ew_destroy hf f eid (m, w)))"
  have e: "w_entities ?m1 = (w_entities m)(eid := None)"
    "w_components ?m1 = (w_components m) |` (- ci_cid ` set (wi_components i))"
    using Some by (auto simp: ew_destroy_def Let_def split: prod.splits)
  have "wf_item eid' j ?m1" if j: "w_entities m eid' = Some j" "eid' \<noteq> eid" for eid' j
  proof -
    have wi: "wf_item eid i m" and wj: "wf_item eid' j m" using assms Some j by (auto simp: ew_inv_def)
    have "ci_cid c \<notin> ci_cid ` set (wi_components i)" if "c \<in> set (wi_components j)" for c
      using wi wj that j(2) unfolding wf_item_def by (metis (no_types, lifting) imageE option.inject prod.inject)
    then show ?thesis using wj unfolding wf_item_def e(2) by simp
  qed
  then show ?thesis unfolding ew_inv_def e(1) by auto
qed (use assms in \<open>simp add: ew_destroy_def\<close>)

lemma ew_inv_addComponent:
  assumes "ew_inv m" "w_components m cid = None"
  shows "ew_inv (snd (ew_addComponent eid cid tid rp cp m))"
proof -
  let ?m1 = "m\<lparr>w_components := (w_components m)(cid \<mapsto> (eid, tid))\<rparr>"
  have keep: "wf_item e i ?m1" if "wf_item e i m" for e i
    using that assms(2) by (auto simp: wf_item_def)
  have inv1: "ew_inv ?m1" using assms(1) keep by (auto simp: ew_inv_def)
  show ?thesis
  proof (cases "\<exists>i. w_entities m eid = Some i \<and> wi_stage i = kUninitialized \<and> length (wi_components i) < kWardenComponents")
    case True
    then obtain i where i: "w_entities m eid = Some i" "wi_stage i = kUninitialized"
      "length (wi_components i) < kWardenComponents" by blast
    have w: "wf_item eid i m" using assms(1) i(1) by (simp add: ew_inv_def)
    have "cid \<notin> ci_cid ` set (wi_components i)" using w assms(2) by (auto simp: wf_item_def)
    then have "wf_item eid (i\<lparr>wi_components := wi_components i @
        [\<lparr>ci_cid = cid, ci_tid = tid, ci_raw_pointer = rp, ci_component_pointer = cp\<rparr>]\<rparr>) ?m1"
      using keep[OF w] i(3) by (auto simp: wf_item_def)
    from ew_inv_update[OF inv1 this] show ?thesis using i by (simp add: ew_addComponent_def Let_def)
  next
    case False
    then show ?thesis using assms(1) inv1
      by (auto simp: ew_addComponent_def Let_def not_less split: option.splits)
  qed
qed

lemma remove_component_loop_success:
  assumes "\<And>t p w. fst (f (Deallocate t p) w) = GXF_SUCCESS"
    "remove_component_loop f cid cs w = (r, cs', w')" "distinct (map ci_cid cs)"
  shows "cs' = filter (\<lambda>c. ci_cid c \<noteq> cid) cs"
  using assms(2,3)
proof (induction cs arbitrary: r cs' w')
  case (Cons c cs)
  show ?case
  proof (cases "cid = ci_cid c")
    case True
    have "\<forall>x \<in> set cs. ci_cid x \<noteq> cid" using Cons.prems(2) True by (metis distinct.simps(2) image_eqI list.simps(9) list.set_map)
    then have "filter (\<lambda>x. ci_cid x \<noteq> cid) (c # cs) = cs" using True by simp
    moreover have "cs' = cs"
      using Cons.prems(1) True assms(1)[of "ci_tid c" "ci_component_pointer c" w] by (auto split: prod.splits if_splits)
    ultimately show ?thesis by simp
  next
    case False
    obtain r1 cs1 w1 where e: "remove_component_loop f cid cs w = (r1, cs1, w1)" by (metis prod_cases3)
    then show ?thesis using Cons.IH[OF e] Cons.prems False by auto
  qed
qed simp

text \<open>Removal by the right owner; a deallocation that fails keeps the component in the list although its
  id is no longer resolved, so success is needed.\<close>

lemma ew_inv_removeComponent:
  assumes inv: "ew_inv m" and own: "w_components m cid = Some (eid, tid)"
    and un: "\<forall>i. w_entities m eid = Some i \<longrightarrow> wi_stage i = kUninitialized"
    and succ: "\<And>t p w. fst (f (Deallocate t p) w) = GXF_SUCCESS"
  shows "ew_inv (fst (snd (ew_removeComponent True f eid cid (m, w))))"
proof -
  let ?m1 = "m\<lparr>w_components := (w_components m)(cid := None)\<rparr>"
  have other: "wf_item e j ?m1" if "w_entities m e = Some j" "e \<noteq> eid" for e j
  proof -
    have "wf_item e j m" using inv that by (simp add: ew_inv_def)
    then show ?thesis using own that(2) by (auto simp: wf_item_def)
  qed
  show ?thesis
  proof (cases "w_entities m eid")
    case None
    then have "ew_inv ?m1" using other unfolding ew_inv_def
      by (metis EntityWarden.select_convs(1) EntityWarden.surjective EntityWarden.update_convs(3) option.distinct(1))
    then show ?thesis using own None by (simp add: ew_removeComponent_def)
  next
    case (Some i)
    have wi: "wf_item eid i m" using inv Some by (simp add: ew_inv_def)
    obtain r cs w1 where e: "remove_component_loop f cid (wi_components i) w = (r, cs, w1)" by (metis prod_cases3)
    have cs: "cs = filter (\<lambda>c. ci_cid c \<noteq> cid) (wi_components i)"
      by (rule remove_component_loop_success[OF succ e]) (use wi in \<open>simp add: wf_item_def\<close>)
    have "wf_item eid (i\<lparr>wi_components := cs\<rparr>) ?m1"
      using wi by (auto simp: wf_item_def cs distinct_map_filter intro: le_trans[OF length_filter_le])
    then have "ew_inv (?m1\<lparr>w_entities := (w_entities m)(eid \<mapsto> i\<lparr>wi_components := cs\<rparr>)\<rparr>)"
      using other by (auto simp: ew_inv_def wf_item_def)
    then show ?thesis using own un Some e by (simp add: ew_removeComponent_def)
  qed
qed

lemma ew_inv_group: "ew_inv m \<Longrightarrow> ew_inv (snd (ew_updateEntityGroup gid eid m))"
  by (auto simp: ew_updateEntityGroup_def ew_entityGroupRemoveEntity_def ew_inv_def wf_item_def Let_def
      split: option.splits if_splits)

text \<open>The states reachable by the operations, when component ids are fresh, components are removed from
  their owner before initialisation and the factory deallocates without error.\<close>

definition ew_empty :: EntityWarden where
  "ew_empty = \<lparr>w_entities = Map.empty, w_groups = Map.empty, w_components = Map.empty,
     w_name_to_eid = Map.empty, w_eid_to_name = Map.empty, w_default_group = kUnspecifiedUid,
     w_ref_count = Map.empty\<rparr>"

inductive warden_reach :: "'w calls \<Rightarrow> EntityWarden \<Rightarrow> bool" for f where
  wr_empty: "warden_reach f ew_empty"
| wr_create: "warden_reach f m \<Longrightarrow> warden_reach f (snd (ew_create eid n m))"
| wr_initialize: "warden_reach f m \<Longrightarrow> warden_reach f (fst (snd (ew_initialize f av eid (m, w))))"
| wr_deinitialize: "warden_reach f m \<Longrightarrow> warden_reach f (fst (snd (ew_deinitialize f eid (m, w))))"
| wr_destroy: "warden_reach f m \<Longrightarrow> warden_reach f (fst (snd (ew_destroy hf f eid (m, w))))"
| wr_add: "warden_reach f m \<Longrightarrow> w_components m cid = None \<Longrightarrow>
    warden_reach f (snd (ew_addComponent eid cid tid rp cp m))"
| wr_remove: "warden_reach f m \<Longrightarrow> w_components m cid = Some (eid, tid) \<Longrightarrow>
    (\<forall>i. w_entities m eid = Some i \<longrightarrow> wi_stage i = kUninitialized) \<Longrightarrow>
    warden_reach f (fst (snd (ew_removeComponent True f eid cid (m, w))))"
| wr_group: "warden_reach f m \<Longrightarrow> warden_reach f (snd (ew_updateEntityGroup gid eid m))"

lemma warden_reach_inv:
  assumes "warden_reach f m" "\<And>t p w. fst (f (Deallocate t p) w) = GXF_SUCCESS"
  shows "ew_inv m"
  using assms
proof (induction rule: warden_reach.induct)
  case wr_empty
  then show ?case by (simp add: ew_inv_def ew_empty_def)
next
  case (wr_remove m cid eid tid w)
  then show ?case using ew_inv_removeComponent[of m cid eid tid f w] by blast
qed (simp_all add: ew_inv_create ew_inv_initialize ew_inv_deinitialize ew_inv_destroy ew_inv_addComponent ew_inv_group)



section \<open>The calls of initialisation\<close>

definition logging :: "'w calls \<Rightarrow> ('w \<times> ccall list) calls" where
  "logging f c = (\<lambda>(w, l). let (r, w1) = f c w in (r, w1, l @ [c]))"

lemma logging_apply: "f c w = (r, w1) \<Longrightarrow> logging f c (w, l) = (r, w1, l @ [c])"
  by (simp add: logging_def)

definition live_cids :: "ComponentItem list \<Rightarrow> gxf_uid_t list" where
  "live_cids cs = map ci_cid (filter (\<lambda>c. ci_component_pointer c \<noteq> 0) cs)"

lemma undo_loop_log:
  "snd (undo_loop (logging f) cs (w, l)) = l @ map CompDeinitialize (live_cids cs)"
proof (induction cs arbitrary: w l)
  case (Cons c cs)
  obtain r w1 where "f (CompDeinitialize (ci_cid c)) w = (r, w1)" by fastforce
  then show ?case using Cons.IH by (simp add: logging_apply live_cids_def)
qed (simp add: live_cids_def)

lemma init_loop_log:
  assumes "init_loop (logging f) ds cs (w, l) = (r, w', l')"
  obtains "r = GXF_SUCCESS" "l' = l @ map CompInitialize (live_cids cs)"
  | as c bs where "r \<noteq> GXF_SUCCESS" "cs = as @ c # bs" "ci_component_pointer c \<noteq> 0"
      "l' = l @ map CompInitialize (live_cids (as @ [c])) @ map CompDeinitialize (live_cids (ds @ as))"
  using assms
proof (induction cs arbitrary: ds w l thesis)
  case Nil
  then show ?case by (simp add: live_cids_def)
next
  case (Cons c cs)
  show ?case
  proof (cases "ci_component_pointer c = 0")
    case True
    then have e: "init_loop (logging f) (ds @ [c]) cs (w, l) = (r, w', l')" using Cons.prems(3) by simp
    show ?thesis
    proof (rule Cons.IH[OF _ _ e])
      assume "r = GXF_SUCCESS" "l' = l @ map CompInitialize (live_cids cs)"
      then show ?thesis using True Cons.prems(1) by (simp add: live_cids_def)
    next
      fix as d bs
      assume "r \<noteq> GXF_SUCCESS" "cs = as @ d # bs" "ci_component_pointer d \<noteq> 0"
        "l' = l @ map CompInitialize (live_cids (as @ [d])) @ map CompDeinitialize (live_cids ((ds @ [c]) @ as))"
      then show ?thesis using True Cons.prems(2)[of "c # as" d bs] by (simp add: live_cids_def)
    qed
  next
    case False
    obtain r1 w1 where f: "f (CompInitialize (ci_cid c)) w = (r1, w1)" by fastforce
    show ?thesis
    proof (cases "r1 = GXF_SUCCESS")
      case True
      have e: "init_loop (logging f) (ds @ [c]) cs (w1, l @ [CompInitialize (ci_cid c)]) = (r, w', l')"
        using Cons.prems(3) False f True by (simp add: logging_apply)
      show ?thesis
      proof (rule Cons.IH[OF _ _ e])
        assume "r = GXF_SUCCESS" "l' = (l @ [CompInitialize (ci_cid c)]) @ map CompInitialize (live_cids cs)"
        then show ?thesis using False Cons.prems(1) by (simp add: live_cids_def)
      next
        fix as d bs
        assume "r \<noteq> GXF_SUCCESS" "cs = as @ d # bs" "ci_component_pointer d \<noteq> 0"
          "l' = (l @ [CompInitialize (ci_cid c)]) @ map CompInitialize (live_cids (as @ [d]))
              @ map CompDeinitialize (live_cids ((ds @ [c]) @ as))"
        then show ?thesis using False Cons.prems(2)[of "c # as" d bs] by (simp add: live_cids_def)
      qed
    next
      case fail: False
      have "r = r1" "l' = (l @ [CompInitialize (ci_cid c)]) @ map CompDeinitialize (live_cids ds)"
        using Cons.prems(3) False f fail undo_loop_log[of f ds w1 "l @ [CompInitialize (ci_cid c)]"]
        by (auto simp: logging_apply)
      then show ?thesis using fail False Cons.prems(2)[of "[]" c cs] by (simp add: live_cids_def)
    qed
  qed
qed

lemma deinit_loop_log:
  "snd (snd (deinit_loop (logging f) cs code (w, l))) = l @ map CompDeinitialize (live_cids cs)"
proof (induction cs arbitrary: code w l)
  case (Cons c cs)
  obtain r w1 where "f (CompDeinitialize (ci_cid c)) w = (r, w1)" by fastforce
  then show ?case using Cons.IH by (simp add: logging_apply live_cids_def)
qed (simp add: live_cids_def)

text \<open>C14: initialisation of an entity is all or nothing.  Either every component with an object was
  initialised, in order, and the entity is kInitialized; or the first failing component ends it: the
  components before it, and only those, are deinitialised again, the error is returned and the entity is
  as it was before.\<close>

theorem initialize_all_or_nothing:
  assumes "w_entities m eid = Some i" "wi_stage i = kUninitialized"
    "ew_findUninitialized av eid m = GXF_SUCCESS"
    "ew_initialize (logging f) av eid (m, w, l) = (r, m', w', l')"
  shows "(r = GXF_SUCCESS \<and> m' = m\<lparr>w_entities := (w_entities m)(eid \<mapsto> i\<lparr>wi_stage := kInitialized\<rparr>)\<rparr> \<and>
      l' = l @ map CompInitialize (live_cids (wi_components i))) \<or>
    (r \<noteq> GXF_SUCCESS \<and> m' = m \<and> (\<exists>as c bs. wi_components i = as @ c # bs \<and>
      l' = l @ map CompInitialize (live_cids as @ [ci_cid c]) @ map CompDeinitialize (live_cids as)))"
proof -
  obtain r1 w1 l1 where e: "init_loop (logging f) [] (wi_components i) (w, l) = (r1, w1, l1)" by (metis prod_cases3)
  have res: "r = r1" "l' = l1"
    "m' = m\<lparr>w_entities := (w_entities m)(eid \<mapsto> i\<lparr>wi_stage := (if r1 = GXF_SUCCESS then kInitialized else kUninitialized)\<rparr>)\<rparr>"
    using assms e by (auto simp: ew_initialize_def wi_initialize_def Let_def split: if_splits)
  have same: "i\<lparr>wi_stage := kUninitialized\<rparr> = i" using assms(2) by simp
  show ?thesis
  proof (rule init_loop_log[OF e])
    assume "r1 = GXF_SUCCESS" "l1 = l @ map CompInitialize (live_cids (wi_components i))"
    then show ?thesis using res by simp
  next
    fix as c bs
    assume h: "r1 \<noteq> GXF_SUCCESS" "wi_components i = as @ c # bs" "ci_component_pointer c \<noteq> 0"
      "l1 = l @ map CompInitialize (live_cids (as @ [c])) @ map CompDeinitialize (live_cids ([] @ as))"
    have "(w_entities m)(eid \<mapsto> i) = w_entities m" using assms(1) by auto
    then have "m' = m" using res(3) h(1) same by simp
    then show ?thesis using res h by (auto simp: live_cids_def)
  qed
qed

definition demo_item :: WardenItem where
  "demo_item = \<lparr>wi_stage = kUninitialized, wi_uid = 1, wi_components =
     [\<lparr>ci_cid = 7, ci_tid = Tid 5 5, ci_raw_pointer = 20, ci_component_pointer = 20\<rparr>,
      \<lparr>ci_cid = 8, ci_tid = Tid 5 5, ci_raw_pointer = 21, ci_component_pointer = 21\<rparr>],
     wi_interface = Map.empty, wi_gid = kUnspecifiedUid\<rparr>"

definition demo_warden :: EntityWarden where
  "demo_warden = ew_empty\<lparr>w_entities := [1 \<mapsto> demo_item], w_components := [7 \<mapsto> (1, Tid 5 5), 8 \<mapsto> (1, Tid 5 5)]\<rparr>"

lemma initialize_all_or_nothing_witness:
  "\<exists>w'. ew_initialize (logging (\<lambda>c w. (if c = CompInitialize 8 then GXF_FAILURE else GXF_SUCCESS, w)))
     (\<lambda>_. Success) 1 (demo_warden, (), []) =
    (GXF_FAILURE, demo_warden, w', [CompInitialize 7, CompInitialize 8, CompDeinitialize 7])"
proof -
  let ?f = "\<lambda>c (w :: unit). (if c = CompInitialize 8 then GXF_FAILURE else GXF_SUCCESS, w)"
  have e: "ew_initialize (logging ?f) (\<lambda>_. Success) 1 (demo_warden, (), []) =
    (GXF_FAILURE, demo_warden, (), [CompInitialize 7, CompInitialize 8, CompDeinitialize 7])"
    by (simp add: ew_initialize_def ew_findUninitialized_def demo_warden_def demo_item_def wi_initialize_def logging_def)
  show ?thesis
    using initialize_all_or_nothing[OF _ _ _ e, of demo_item] e
    by (simp add: demo_warden_def demo_item_def ew_findUninitialized_def)
qed

text \<open>Deinitialisation visits the same components in reverse order.\<close>

lemma deinitialize_reverse:
  assumes "w_entities m eid = Some i" "wi_stage i = kInitialized"
  shows "snd (snd (snd (ew_deinitialize (logging f) eid (m, w, l)))) =
    l @ map CompDeinitialize (rev (live_cids (wi_components i)))"
  using assms deinit_loop_log[of f "rev (wi_components i)" GXF_SUCCESS w l]
  by (simp add: ew_deinitialize_def wi_deinitialize_def live_cids_def rev_map rev_filter split_beta)

section \<open>Errors\<close>

text \<open>destroying an entity that is still initialised returns an error, but the entity, its name and
  its component ids are gone, and none of its components was deinitialised or deallocated.\<close>

theorem destroy_initialized_leaks:
  assumes "w_entities m eid = Some i" "wi_stage i \<noteq> kUninitialized"
  shows "\<exists>m'. ew_destroy True f eid (m, w) = (GXF_INVALID_LIFECYCLE_STAGE, m', w) \<and>
    ew_isValid eid m' = GXF_ENTITY_NOT_FOUND \<and> ew_getEntityName eid m' = Inl GXF_ENTITY_NOT_FOUND \<and>
    (\<forall>c \<in> set (wi_components i). ew_getComponentEntity (ci_cid c) m' = Inl GXF_ENTITY_NOT_FOUND)"
  using assms by (auto simp: ew_destroy_def Let_def ew_isValid_def ew_getEntityName_def ew_getComponentEntity_def)

lemma destroy_initialized_leaks_witness:
  "\<exists>m'. ew_destroy True (\<lambda>c w. (GXF_SUCCESS, w)) 1
     (demo_warden\<lparr>w_entities := [1 \<mapsto> demo_item\<lparr>wi_stage := kInitialized\<rparr>]\<rparr>, ()) = (GXF_INVALID_LIFECYCLE_STAGE, m', ())
   \<and> ew_isValid 1 m' = GXF_ENTITY_NOT_FOUND"
  using destroy_initialized_leaks[of "demo_warden\<lparr>w_entities := [1 \<mapsto> demo_item\<lparr>wi_stage := kInitialized\<rparr>]\<rparr>" 1
      "demo_item\<lparr>wi_stage := kInitialized\<rparr>" "\<lambda>c w. (GXF_SUCCESS, w)" "()"] by (auto simp: demo_item_def)

text \<open>two entities with one name: destroying the second takes the name away from the first, which
  can no longer be found although it is valid and still carries the name.\<close>

theorem duplicate_name_lost:
  assumes "n \<noteq> []" "e1 \<noteq> e2"
  shows "let m = fst (snd (ew_destroy True f e2 (snd (ew_create e2 n (snd (ew_create e1 n ew_empty))), w)))
    in ew_find n (snd (ew_create e2 n (snd (ew_create e1 n ew_empty)))) = (GXF_SUCCESS, e1) \<and>
       ew_isValid e1 m = GXF_SUCCESS \<and> ew_getEntityName e1 m = Inr n \<and>
       fst (ew_find n m) = GXF_ENTITY_NOT_FOUND"
  using assms
  by (simp add: Let_def ew_destroy_def ew_create_def ew_empty_def emplace_def wi_destroy_def ew_find_def
      ew_isValid_def ew_getEntityName_def)

lemma duplicate_name_lost_witness:
  "fst (ew_find ''a'' (fst (snd (ew_destroy True (\<lambda>c w. (GXF_SUCCESS, w)) 2
     (snd (ew_create 2 ''a'' (snd (ew_create 1 ''a'' ew_empty))), ()))))) = GXF_ENTITY_NOT_FOUND"
  using duplicate_name_lost[of "''a''" 1 2 "\<lambda>c w. (GXF_SUCCESS, w)" "()"] by (simp add: Let_def)

text \<open>A component that is refused stays in the component map.\<close>

lemma refused_component_registered:
  assumes "w_entities m eid = Some i" "wi_stage i \<noteq> kUninitialized"
  shows "fst (ew_addComponent eid cid tid rp cp m) = GXF_ENTITY_CAN_NOT_ADD_COMPONENT_AFTER_INITIALIZATION \<and>
    ew_getComponentEntity cid (snd (ew_addComponent eid cid tid rp cp m)) = Inr eid"
  using assms by (simp add: ew_addComponent_def Let_def ew_getComponentEntity_def)

definition ref_step :: "gxf_uid_t \<Rightarrow> bool \<Rightarrow> EntityWarden \<Rightarrow> EntityWarden" where
  "ref_step eid up m = (if up then snd (ew_incEntityRefCount eid m) else snd (snd (ew_decEntityRefCount eid m)))"

text \<open>reference counts.  After any sequence of increments (True) and decrements (False) that starts
  with an increment, the stored count is the number of increments less the number of decrements, and a
  decrement reports GXF_REF_COUNT_NEGATIVE exactly when it takes the count below zero.\<close>

theorem ref_count_exact:
  assumes "w_ref_count m eid = None"
    "m' = fold (ref_step eid) (True # ops) m" "n = int (count_list (True # ops) True) - int (count_list ops False)"
  shows "ew_getEntityRefCount eid m' = Inr n \<and>
    fst (ew_decEntityRefCount eid m') = (if n - 1 < 0 then GXF_REF_COUNT_NEGATIVE else GXF_SUCCESS)"
proof -
  have "w_ref_count s eid = Some k \<Longrightarrow> w_ref_count (fold (ref_step eid) us s) eid =
      Some (k + int (count_list us True) - int (count_list us False))" for us s k
  proof (induction us arbitrary: s k)
    case (Cons u us)
    show ?case
      using Cons.IH[of "ref_step eid u s" "if u then k + 1 else k - 1"] Cons.prems
      by (cases u) (simp_all add: ref_step_def ew_incEntityRefCount_def ew_decEntityRefCount_def Let_def)
  qed simp
  from this[of "ref_step eid True m" 1 ops] have "w_ref_count m' eid = Some n"
    using assms by (simp add: ref_step_def ew_incEntityRefCount_def emplace_def)
  then show ?thesis by (simp add: ew_getEntityRefCount_def ew_decEntityRefCount_def Let_def)
qed

lemma ref_count_exact_witness:
  "ew_getEntityRefCount 1 (fold (ref_step 1) [True, True, False] ew_empty) = Inr 1"
  using ref_count_exact[of ew_empty 1 "fold (ref_step 1) [True, True, False] ew_empty" "[True, False]" 1]
  by (simp add: ew_empty_def)

end
