(* ===== verification/Program_State.thy ===== *)
theory Program_State
  imports Entity_Warden "HOL-Library.Multiset"
begin

text \<open>
  The program of gxf/std/program.cpp: the list of entities of the graph, their activation in
  order, scheduling and unscheduling, the state machine of the graph, and the two functions of
  gxf/core/runtime.cpp through which the program and the entities meet (GxfEntityActivate and
  GxfEntityDeactivate).  The other components (warden, executor, groups of routers and systems)
  are behind calls on an arbitrary rest of the system, which does not touch the program itself.
\<close>

section \<open>State\<close>

datatype ProgramState = ORIGIN | ACTIVATING | ACTIVATED | STARTING | RUNNING | INTERRUPTING | DEINITALIZING

definition programStateStr :: "ProgramState \<Rightarrow> string" where
  "programStateStr s = (case s of ORIGIN \<Rightarrow> ''Origin'' | ACTIVATING \<Rightarrow> ''Activating''
     | ACTIVATED \<Rightarrow> ''Activated'' | STARTING \<Rightarrow> ''Starting'' | RUNNING \<Rightarrow> ''Running''
     | INTERRUPTING \<Rightarrow> ''Interrupting'' | DEINITALIZING \<Rightarrow> ''Deinitializing'')"

text \<open>p_groups: the program holds its system and router group entities; p_system_group: the
  handle of the system group was set once (it is never reset).\<close>

record Program =
  p_state :: ProgramState
  p_groups :: bool
  p_system_group :: bool
  p_unscheduled :: "gxf_uid_t list"
  p_scheduled :: "gxf_uid_t list"
  p_schedulers :: "gxf_uid_t list"

definition p_create :: Program where
  "p_create = \<lparr>p_state = ORIGIN, p_groups = False, p_system_group = False,
     p_unscheduled = [], p_scheduled = [], p_schedulers = []\<rparr>"

text \<open>emplace_back of an entity vector whose result is ignored.\<close>

definition push_eid :: "gxf_uid_t \<Rightarrow> gxf_uid_t list \<Rightarrow> gxf_uid_t list" where
  "push_eid e es = (if length es < kMaxEntities then es @ [e] else es)"

datatype pkind = KSystem | KConnection | KRouter | KNetworkContext | KScheduler | KMonitor | KJobStatistics | KIPCServer

datatype pcall =
    SystemTypeId
  | NewSystemGroupEntity | AddSystemGroup | NewRouterGroupEntity | AddRouterGroup
  | AddMessageRouter | JoinMessageRouter | AddNetworkRouter | JoinNetworkRouter
  | ReleaseGroups
  | AddRouter gxf_uid_t | RemoveRouter gxf_uid_t | AddNetworkContext gxf_uid_t
  | AddRoutes gxf_uid_t | RemoveRoutes gxf_uid_t
  | ExecutorInitialize
  | PopulateResources gxf_uid_t | DepopulateResources gxf_uid_t
  | WardenInitialize gxf_uid_t | WardenDeinitialize gxf_uid_t
  | ExecutorActivate gxf_uid_t | ExecutorDeactivate gxf_uid_t
  | AddSystem gxf_uid_t | RemoveSystem gxf_uid_t | PrepareScheduler gxf_uid_t
  | AddMonitor gxf_uid_t | RemoveMonitor gxf_uid_t
  | AddStatistics gxf_uid_t | RemoveStatistics gxf_uid_t
  | RegisterServices gxf_uid_t
  | SystemSchedule gxf_uid_t | SystemUnschedule gxf_uid_t
  | SystemRunAsync | SystemStop | SystemWait | SystemEventNotify gxf_uid_t int

record 'w Run =
  r_call :: "pcall \<Rightarrow> 'w \<Rightarrow> gxf_result_t \<times> 'w"
  r_shared :: "gxf_uid_t \<Rightarrow> 'w \<Rightarrow> unit expected"
  r_find :: "pkind \<Rightarrow> gxf_uid_t \<Rightarrow> 'w \<Rightarrow> gxf_uid_t expected list expected"

type_synonym 'w pop = "Program \<times> 'w \<Rightarrow> unit expected \<times> Program \<times> 'w"

text \<open>A call to another component whose result is an Expected.\<close>

definition do_call :: "'w Run \<Rightarrow> pcall \<Rightarrow> 'w pop" where
  "do_call r c = (\<lambda>(p, w). let (code, w1) = r_call r c w in (ExpectedOrCode code, p, w1))"

definition then_do :: "'w pop \<Rightarrow> 'w pop \<Rightarrow> 'w pop" where
  "then_do f g s = (case f s of (Inl e, s1) \<Rightarrow> (Inl e, s1) | (Inr _, s1) \<Rightarrow> g s1)"

text \<open>The loop over the components of a type: a search that fails ends the caller with its error,
  a bad handle with GXF_FAILURE.\<close>

definition on_handle :: "(gxf_uid_t \<Rightarrow> 'w pop) \<Rightarrow> gxf_uid_t expected \<Rightarrow> 'w pop" where
  "on_handle f h s = (case h of Inl _ \<Rightarrow> (Inl GXF_FAILURE, s) | Inr cid \<Rightarrow> f cid s)"

definition for_found :: "'w Run \<Rightarrow> pkind \<Rightarrow> gxf_uid_t \<Rightarrow> (gxf_uid_t \<Rightarrow> 'w pop) \<Rightarrow> 'w pop" where
  "for_found r k eid f = (\<lambda>(p, w). case r_find r k eid w of
     Inl e \<Rightarrow> (Inl e, p, w) | Inr hs \<Rightarrow> each_until_error (on_handle f) hs (p, w))"

section \<open>Set-up and the list of entities\<close>

definition p_setup :: "bool \<Rightarrow> bool \<Rightarrow> bool \<Rightarrow> unit expected" where
  "p_setup context warden executor =
     (if \<not> context then Inl GXF_ARGUMENT_NULL
      else if \<not> warden then Inl GXF_ARGUMENT_NULL
      else if \<not> executor then Inl GXF_ARGUMENT_NULL
      else Success)"

definition p_addEntity :: "'w Run \<Rightarrow> gxf_uid_t \<Rightarrow> 'w pop" where
  "p_addEntity r eid = (\<lambda>(p, w). case r_shared r eid w of
     Inl e \<Rightarrow> (Inl e, p, w)
   | Inr _ \<Rightarrow> (Success, p\<lparr>p_unscheduled := push_eid eid (p_unscheduled p)\<rparr>, w))"

definition p_destroy :: "Program \<Rightarrow> unit expected \<times> Program" where
  "p_destroy p = (Success, p\<lparr>p_unscheduled := [], p_scheduled := [], p_schedulers := []\<rparr>)"

definition release_groups :: "'w Run \<Rightarrow> Program \<times> 'w \<Rightarrow> Program \<times> 'w" where
  "release_groups r = (\<lambda>(p, w). (p\<lparr>p_groups := False\<rparr>, snd (r_call r ReleaseGroups w)))"

definition resetProgram :: "'w Run \<Rightarrow> Program \<times> 'w \<Rightarrow> Program \<times> 'w" where
  "resetProgram r s = (let (p, w) = release_groups r s in (p\<lparr>p_scheduled := [], p_unscheduled := []\<rparr>, w))"

section \<open>Scheduling\<close>

definition keep_scheduler :: "gxf_uid_t \<Rightarrow> Program \<Rightarrow> Program" where
  "keep_scheduler eid p = p\<lparr>p_schedulers := List.insert eid (p_schedulers p)\<rparr>"

definition offer_executor :: "'w Run \<Rightarrow> gxf_uid_t \<Rightarrow> 'w pop" where
  "offer_executor r eid = (\<lambda>(p, w). case r_find r KScheduler eid w of
     Inl e \<Rightarrow> (Inl e, p, w)
   | Inr hs \<Rightarrow> then_do (each_until_error (on_handle (\<lambda>c. do_call r (PrepareScheduler c))) hs)
       (\<lambda>(p, w). (Success, if hs \<noteq> [] then keep_scheduler eid p else p, w)) (p, w))"

text \<open>The services of IPC servers are registered without a look at the results; a failing search
  is skipped.\<close>

definition register_services :: "'w Run \<Rightarrow> gxf_uid_t \<Rightarrow> 'w \<Rightarrow> 'w" where
  "register_services r eid w = (case r_find r KIPCServer eid w of
     Inl _ \<Rightarrow> w
   | Inr hs \<Rightarrow> fold (\<lambda>h w. case h of Inl _ \<Rightarrow> w | Inr c \<Rightarrow> snd (r_call r (RegisterServices c) w)) hs w)"

definition enter_scheduled :: "'w Run \<Rightarrow> gxf_uid_t \<Rightarrow> 'w pop" where
  "enter_scheduled r eid = (\<lambda>(p, w).
     do_call r (SystemSchedule eid)
       (p\<lparr>p_scheduled := push_eid eid (p_scheduled p)\<rparr>, register_services r eid w))"

definition schedule_steps :: "'w Run \<Rightarrow> gxf_uid_t \<Rightarrow> 'w pop" where
  "schedule_steps r eid =
     then_do (for_found r KSystem eid (\<lambda>c. do_call r (AddSystem c)))
     (then_do (offer_executor r eid)
     (then_do (for_found r KMonitor eid (\<lambda>c. do_call r (AddMonitor c)))
     (then_do (for_found r KJobStatistics eid (\<lambda>c. do_call r (AddStatistics c)))
     (enter_scheduled r eid))))"

text \<open>The loop of the code erases the first occurrence of the entity.\<close>

definition p_scheduleEntity :: "'w Run \<Rightarrow> gxf_uid_t \<Rightarrow> 'w pop" where
  "p_scheduleEntity r eid = (\<lambda>(p, w).
     if p_state p = ORIGIN then (Inl GXF_INVALID_LIFECYCLE_STAGE, p, w)
     else case r_shared r eid w of
       Inl e \<Rightarrow> (Inl e, p, w)
     | Inr _ \<Rightarrow>
        (if eid \<in> set (p_unscheduled p)
         then schedule_steps r eid (p\<lparr>p_unscheduled := remove1 eid (p_unscheduled p)\<rparr>, w)
         else (Success, p, w)))"

definition leave_scheduled :: "'w Run \<Rightarrow> gxf_uid_t \<Rightarrow> 'w pop" where
  "leave_scheduled r eid = (\<lambda>(p, w).
     if eid \<in> set (p_scheduled p)
     then do_call r (SystemUnschedule eid)
       (p\<lparr>p_scheduled := remove1 eid (p_scheduled p), p_unscheduled := push_eid eid (p_unscheduled p)\<rparr>, w)
     else (Success, p, w))"

definition drop_scheduler :: "gxf_uid_t \<Rightarrow> 'w pop" where
  "drop_scheduler eid = (\<lambda>(p, w). (Success, p\<lparr>p_schedulers := removeAll eid (p_schedulers p)\<rparr>, w))"

definition p_unscheduleEntity :: "'w Run \<Rightarrow> gxf_uid_t \<Rightarrow> 'w pop" where
  "p_unscheduleEntity r eid = (\<lambda>(p, w). case r_shared r eid w of
     Inl e \<Rightarrow> (Inl e, p, w)
   | Inr _ \<Rightarrow>
      then_do (leave_scheduled r eid)
      (then_do (for_found r KJobStatistics eid (\<lambda>c. do_call r (RemoveStatistics c)))
      (then_do (for_found r KMonitor eid (\<lambda>c. do_call r (RemoveMonitor c)))
      (then_do (drop_scheduler eid)
      (then_do (do_call r (RemoveRoutes eid))
      (then_do (for_found r KRouter eid (\<lambda>c. do_call r (RemoveRouter c)))
      (for_found r KSystem eid (\<lambda>c. do_call r (RemoveSystem c)))))))) (p, w))"

section \<open>Activation and deactivation of one entity\<close>

definition GxfEntityActivate :: "'w Run \<Rightarrow> gxf_uid_t \<Rightarrow> 'w pop" where
  "GxfEntityActivate r eid = (\<lambda>(p, w). case r_shared r eid w of
     Inl e \<Rightarrow> (Inl e, p, w)
   | Inr _ \<Rightarrow> then_do (do_call r (WardenInitialize eid))
       (then_do (do_call r (ExecutorActivate eid)) (p_scheduleEntity r eid)) (p, w))"

definition GxfEntityDeactivate :: "'w Run \<Rightarrow> gxf_uid_t \<Rightarrow> 'w pop" where
  "GxfEntityDeactivate r eid = (\<lambda>(p, w). case r_shared r eid w of
     Inl e \<Rightarrow> (Inl e, p, w)
   | Inr _ \<Rightarrow> then_do (p_unscheduleEntity r eid)
       (then_do (do_call r (ExecutorDeactivate eid)) (do_call r (WardenDeinitialize eid))) (p, w))"

section \<open>Deactivation of the graph\<close>

definition graph_eids :: "Program \<Rightarrow> gxf_uid_t list" where
  "graph_eids p = filter (\<lambda>e. e \<notin> set (p_schedulers p)) (p_unscheduled p @ p_scheduled p)"

definition deactivate_graph :: "'w Run \<Rightarrow> 'w pop" where
  "deactivate_graph r = (\<lambda>(p, w).
     if length (graph_eids p) > kMaxEntities then (Inl GXF_EXCEEDING_PREALLOCATED_SIZE, p, w)
     else each_until_error (GxfEntityDeactivate r) (rev (graph_eids p)) (p, w))"

definition deactivate_schedulers :: "'w Run \<Rightarrow> 'w pop" where
  "deactivate_schedulers r = (\<lambda>(p, w).
     if length (p_schedulers p) > kMaxEntities then (Inl GXF_EXCEEDING_PREALLOCATED_SIZE, p, w)
     else each_until_error (GxfEntityDeactivate r) (p_schedulers p) (p, w))"

definition p_deactivate :: "'w Run \<Rightarrow> 'w pop" where
  "p_deactivate r = (\<lambda>(p, w).
     if p_state p = ORIGIN then (Success, p, w)
     else case then_do (deactivate_graph r) (deactivate_schedulers r) (p\<lparr>p_state := DEINITALIZING\<rparr>, w) of
       (Inl e, s) \<Rightarrow> (Inl e, resetProgram r s)
     | (Inr _, s) \<Rightarrow> (let (p1, w1) = release_groups r s in (Success, p1\<lparr>p_state := ORIGIN\<rparr>, w1)))"

text \<open>An error of a step deactivates the whole program; the error of the deactivation is only
  logged.\<close>

definition or_deactivate :: "'w Run \<Rightarrow> 'w pop \<Rightarrow> 'w pop" where
  "or_deactivate r f s = (case f s of (Inr _, s1) \<Rightarrow> (Success, s1)
     | (Inl e, s1) \<Rightarrow> (Inl e, snd (p_deactivate r s1)))"

definition activateEntities :: "'w Run \<Rightarrow> gxf_uid_t list \<Rightarrow> 'w pop" where
  "activateEntities r es = each_until_error (\<lambda>e. or_deactivate r (GxfEntityActivate r e)) es"

definition preActivateEntities :: "'w Run \<Rightarrow> gxf_uid_t list \<Rightarrow> 'w pop" where
  "preActivateEntities r es = each_until_error (\<lambda>e. or_deactivate r (do_call r (PopulateResources e))) es"

definition preDeactivateEntities :: "'w Run \<Rightarrow> gxf_uid_t list \<Rightarrow> 'w pop" where
  "preDeactivateEntities r es = each_until_error (\<lambda>e. do_call r (DepopulateResources e)) es"

section \<open>Activation of the graph\<close>

record Sorted =
  system_entities :: "gxf_uid_t list"
  router_entities :: "gxf_uid_t list"
  connection_entities :: "gxf_uid_t list"
  network_context_entities :: "gxf_uid_t list"
  graph_entities :: "gxf_uid_t list"

definition push_sorted :: "gxf_uid_t \<Rightarrow> gxf_uid_t list \<Rightarrow> (gxf_uid_t list \<Rightarrow> Sorted) \<Rightarrow> Sorted expected" where
  "push_sorted e es upd =
     (if length es < kMaxEntities then Inr (upd (es @ [e])) else Inl GXF_EXCEEDING_PREALLOCATED_SIZE)"

text \<open>The first kind that the entity has decides.\<close>

definition sort_entity :: "'w Run \<Rightarrow> 'w \<Rightarrow> gxf_uid_t \<Rightarrow> Sorted \<Rightarrow> Sorted expected" where
  "sort_entity r w e c = (case r_shared r e w of Inl x \<Rightarrow> Inl x | Inr _ \<Rightarrow>
     (case r_find r KSystem e w of Inl x \<Rightarrow> Inl x | Inr systems \<Rightarrow>
     (case r_find r KConnection e w of Inl x \<Rightarrow> Inl x | Inr connections \<Rightarrow>
     (case r_find r KRouter e w of Inl x \<Rightarrow> Inl x | Inr routers \<Rightarrow>
     (case r_find r KNetworkContext e w of Inl x \<Rightarrow> Inl x | Inr network_contexts \<Rightarrow>
       if systems \<noteq> [] then push_sorted e (system_entities c) (\<lambda>l. c\<lparr>system_entities := l\<rparr>)
       else if routers \<noteq> [] then push_sorted e (router_entities c) (\<lambda>l. c\<lparr>router_entities := l\<rparr>)
       else if connections \<noteq> [] then push_sorted e (connection_entities c) (\<lambda>l. c\<lparr>connection_entities := l\<rparr>)
       else if network_contexts \<noteq> []
         then push_sorted e (network_context_entities c) (\<lambda>l. c\<lparr>network_context_entities := l\<rparr>)
       else push_sorted e (graph_entities c) (\<lambda>l. c\<lparr>graph_entities := l\<rparr>))))))"

fun sort_entities :: "'w Run \<Rightarrow> 'w \<Rightarrow> gxf_uid_t list \<Rightarrow> Sorted \<Rightarrow> Sorted expected" where
  "sort_entities r w [] c = Inr c"
| "sort_entities r w (e # es) c = (case sort_entity r w e c of
     Inl x \<Rightarrow> Inl x | Inr c1 \<Rightarrow> sort_entities r w es c1)"

definition no_entities :: Sorted where
  "no_entities = \<lparr>system_entities = [], router_entities = [], connection_entities = [],
     network_context_entities = [], graph_entities = []\<rparr>"

definition activation_order :: "Sorted \<Rightarrow> gxf_uid_t list" where
  "activation_order c = system_entities c @ router_entities c @ connection_entities c @
     network_context_entities c @ graph_entities c"

text \<open>The entities of the groups and the two routers every program has.\<close>

definition set_group :: "(Program \<Rightarrow> Program) \<Rightarrow> 'w pop" where
  "set_group f = (\<lambda>(p, w). (Success, f p, w))"

definition create_groups :: "'w Run \<Rightarrow> 'w pop" where
  "create_groups r =
     then_do (do_call r NewSystemGroupEntity)
     (then_do (set_group (\<lambda>p. p\<lparr>p_groups := True\<rparr>))
     (then_do (do_call r AddSystemGroup)
     (then_do (set_group (\<lambda>p. p\<lparr>p_system_group := True\<rparr>))
     (each_until_error (do_call r) [NewRouterGroupEntity, AddRouterGroup, AddMessageRouter,
        JoinMessageRouter, AddNetworkRouter, JoinNetworkRouter]))))"

definition add_entity_routers :: "'w Run \<Rightarrow> gxf_uid_t list \<Rightarrow> 'w pop" where
  "add_entity_routers r es = each_until_error (\<lambda>e. for_found r KRouter e (\<lambda>c. do_call r (AddRouter c))) es"

text \<open>In the next two loops the error of Entity::Shared is computed but not returned, and the value
  of the failed result is then read, which aborts the process: None.\<close>

fun add_network_contexts :: "'w Run \<Rightarrow> gxf_uid_t list \<Rightarrow> 'w \<Rightarrow> 'w option" where
  "add_network_contexts r [] w = Some w"
| "add_network_contexts r (e # es) w = (case r_shared r e w of
     Inl _ \<Rightarrow> None
   | Inr _ \<Rightarrow> (case r_find r KNetworkContext e w of
       Inl _ \<Rightarrow> None
     | Inr hs \<Rightarrow> add_network_contexts r es
         (fold (\<lambda>h w. case h of Inl _ \<Rightarrow> w | Inr c \<Rightarrow> snd (r_call r (AddNetworkContext c) w)) hs w)))"

text \<open>When a route cannot be added the result is that of the deactivation.\<close>

fun p_addRoutes :: "'w Run \<Rightarrow> gxf_uid_t list \<Rightarrow> Program \<times> 'w \<Rightarrow> (unit expected \<times> Program \<times> 'w) option" where
  "p_addRoutes r [] s = Some (Success, s)"
| "p_addRoutes r (e # es) s = (case r_shared r e (snd s) of
     Inl _ \<Rightarrow> None
   | Inr _ \<Rightarrow> (case do_call r (AddRoutes e) s of
       (Inl _, s1) \<Rightarrow> Some (p_deactivate r s1)
     | (Inr _, s1) \<Rightarrow> p_addRoutes r es s1))"

definition activate_sorted :: "'w Run \<Rightarrow> Sorted \<Rightarrow> 'w pop" where
  "activate_sorted r c =
     then_do (activateEntities r (system_entities c))
     (then_do (activateEntities r (router_entities c))
     (then_do (activateEntities r (connection_entities c))
     (then_do (activateEntities r (network_context_entities c))
     (activateEntities r (graph_entities c)))))"

definition executor_initialize :: "'w Run \<Rightarrow> 'w pop" where
  "executor_initialize r = (\<lambda>(p, w). (Success, p, snd (r_call r ExecutorInitialize w)))"

definition become_activated :: "'w pop" where
  "become_activated = (\<lambda>(p, w). (Success, p\<lparr>p_state := ACTIVATED\<rparr>, w))"

definition finish_activate :: "'w Run \<Rightarrow> Sorted \<Rightarrow> 'w pop" where
  "finish_activate r c =
     then_do (executor_initialize r)
     (then_do (preActivateEntities r (graph_entities c))
     (then_do (activate_sorted r c) become_activated))"

definition p_activate :: "'w Run \<Rightarrow> Program \<times> 'w \<Rightarrow> (unit expected \<times> Program \<times> 'w) option" where
  "p_activate r = (\<lambda>(p, w).
     let (code, w1) = r_call r SystemTypeId w in
     if code \<noteq> GXF_SUCCESS then Some (Inl code, p, w1)
     else if p_state p \<noteq> ORIGIN then Some (Inl GXF_INVALID_EXECUTION_SEQUENCE, p, w1)
     else let p1 = p\<lparr>p_state := ACTIVATING\<rparr> in
       case sort_entities r w1 (p_unscheduled p1) no_entities of
         Inl e \<Rightarrow> Some (Inl e, p1, w1)
       | Inr c \<Rightarrow>
         (case then_do (create_groups r) (add_entity_routers r (router_entities c)) (p1, w1) of
            (Inl e, s2) \<Rightarrow> Some (Inl e, s2)
          | (Inr _, p2, w2) \<Rightarrow>
            (case add_network_contexts r (p_unscheduled p2) w2 of
               None \<Rightarrow> None
             | Some w3 \<Rightarrow>
               (case p_addRoutes r (p_unscheduled p2) (p2, w3) of
                  None \<Rightarrow> None
                | Some (Inl e, s4) \<Rightarrow> Some (Inl e, s4)
                | Some (Inr _, s4) \<Rightarrow> Some (finish_activate r c s4)))))"

section \<open>Running\<close>

definition p_runAsync :: "'w Run \<Rightarrow> 'w pop" where
  "p_runAsync r = (\<lambda>(p, w).
     if p_state p \<noteq> ACTIVATED then (Inl GXF_INVALID_EXECUTION_SEQUENCE, p, w)
     else case do_call r SystemRunAsync (p\<lparr>p_state := STARTING\<rparr>, w) of
       (Inl e, s1) \<Rightarrow> (Inl e, snd (p_deactivate r s1))
     | (Inr _, p1, w1) \<Rightarrow> (Success, p1\<lparr>p_state := RUNNING\<rparr>, w1))"

definition p_interrupt :: "'w Run \<Rightarrow> 'w pop" where
  "p_interrupt r = (\<lambda>(p, w).
     if p_state p \<noteq> RUNNING then (Inl GXF_INVALID_EXECUTION_SEQUENCE, p, w)
     else do_call r SystemStop (p\<lparr>p_state := INTERRUPTING\<rparr>, w))"

text \<open>other: what other threads do to the program while this one waits for the systems.\<close>

definition p_wait :: "'w Run \<Rightarrow> (Program \<times> 'w \<Rightarrow> Program \<times> 'w) \<Rightarrow> 'w pop" where
  "p_wait r other = (\<lambda>(p, w).
     if p_state p \<in> {ACTIVATED, ORIGIN, DEINITALIZING} then (Success, p, w)
     else if p_state p \<notin> {STARTING, RUNNING, INTERRUPTING} then (Inl GXF_INVALID_EXECUTION_SEQUENCE, p, w)
     else let (res, p1, w1) = do_call r SystemWait (p, w); (p2, w2) = other (p1, w1) in
       case res of
         Inl e \<Rightarrow> (Inl e, snd (p_deactivate r (p2, w2)))
       | Inr _ \<Rightarrow> (Success, if p_state p2 \<in> {RUNNING, INTERRUPTING} then p2\<lparr>p_state := ACTIVATED\<rparr> else p2, w2))"

definition p_entityEventNotify :: "'w Run \<Rightarrow> gxf_uid_t \<Rightarrow> int \<Rightarrow> 'w pop" where
  "p_entityEventNotify r eid event = (\<lambda>(p, w).
     if \<not> p_system_group p then (Success, p, w)
     else if p_state p \<in> {DEINITALIZING, ACTIVATING} then (Success, p, w)
     else if p_state p \<notin> {RUNNING, INTERRUPTING, STARTING} then (Inl GXF_INVALID_EXECUTION_SEQUENCE, p, w)
     else do_call r (SystemEventNotify eid event) (p, w))"

text \<open>GxfGraphRun of the runtime.\<close>

definition GxfGraphRun :: "'w Run \<Rightarrow> (Program \<times> 'w \<Rightarrow> Program \<times> 'w) \<Rightarrow> 'w pop" where
  "GxfGraphRun r other = then_do (p_runAsync r) (p_wait r other)"

section \<open>What an operation may do to the program\<close>

definition steps_in :: "(Program \<Rightarrow> Program \<Rightarrow> bool) \<Rightarrow> 'w pop \<Rightarrow> bool" where
  "steps_in Q f \<longleftrightarrow> (\<forall>p w. Q p (fst (snd (f (p, w)))))"

lemma then_do_Inr:
  "then_do f g s = (Inr u, s') \<longleftrightarrow> (\<exists>v s1. f s = (Inr v, s1) \<and> g s1 = (Inr u, s'))"
  by (auto simp: then_do_def split: prod.splits sum.splits)

lemma then_do_Inl:
  "then_do f g s = (Inl e, s') \<longleftrightarrow>
     f s = (Inl e, s') \<or> (\<exists>v s1. f s = (Inr v, s1) \<and> g s1 = (Inl e, s'))"
  by (auto simp: then_do_def split: prod.splits sum.splits)

lemma each_until_error_Inr_Cons:
  "each_until_error f (a # as) s = (Inr u, s') \<longleftrightarrow>
     (\<exists>v s1. f a s = (Inr v, s1) \<and> each_until_error f as s1 = (Inr u, s'))"
  by (auto split: prod.splits sum.splits)

lemma do_call_program [simp]: "fst (snd (do_call r c s)) = fst s"
  by (auto simp: do_call_def split: prod.splits)

text \<open>A reflexive and transitive relation between the program before and after is inherited by
  every composition of operations.\<close>

locale program_relation =
  fixes Q :: "Program \<Rightarrow> Program \<Rightarrow> bool"
  assumes refl_rel: "Q p p"
    and trans_rel: "Q p q \<Longrightarrow> Q q s \<Longrightarrow> Q p s"
begin

lemma sin_do_call: "steps_in Q (do_call r c)"
  by (simp add: steps_in_def refl_rel)

lemma sin_then_do:
  assumes "steps_in Q f" "steps_in Q g"
  shows "steps_in Q (then_do f g)"
  unfolding steps_in_def
proof (intro allI)
  fix p w
  obtain x p1 w1 where f: "f (p, w) = (x, p1, w1)" by (metis prod_cases3)
  have "Q p p1" "Q p1 (fst (snd (g (p1, w1))))" using assms f unfolding steps_in_def
    by (metis fst_conv snd_conv)+
  then show "Q p (fst (snd (then_do f g (p, w))))" using f trans_rel
    by (auto simp: then_do_def split: sum.splits)
qed

lemma sin_each_until_error:
  assumes "\<And>a. a \<in> set as \<Longrightarrow> steps_in Q (f a)"
  shows "steps_in Q (each_until_error f as)"
proof -
  have "Q p (fst (snd (each_until_error f as s)))" if "Q p (fst s)" for p s
    by (rule each_until_error_inv [where P = "\<lambda>s. Q p (fst s)"])
      (use assms that trans_rel in \<open>auto simp: steps_in_def\<close>)
  then show ?thesis by (simp add: steps_in_def refl_rel)
qed

lemma sin_on_handle: "(\<And>c. steps_in Q (f c)) \<Longrightarrow> steps_in Q (on_handle f h)"
  by (cases h) (auto simp: steps_in_def on_handle_def refl_rel)

lemma sin_for_found: "(\<And>c. steps_in Q (f c)) \<Longrightarrow> steps_in Q (for_found r k e f)"
  using sin_each_until_error [of _ "on_handle f"] sin_on_handle [of f]
  by (auto simp: steps_in_def for_found_def refl_rel split: sum.splits)

lemma sin_or_deactivate:
  assumes "steps_in Q f" "steps_in Q (p_deactivate r)"
  shows "steps_in Q (or_deactivate r f)"
  unfolding steps_in_def
proof (intro allI)
  fix p w
  obtain x p1 w1 where f: "f (p, w) = (x, p1, w1)" by (metis prod_cases3)
  have "Q p p1" "Q p1 (fst (snd (p_deactivate r (p1, w1))))" using assms f unfolding steps_in_def
    by (metis fst_conv snd_conv)+
  then show "Q p (fst (snd (or_deactivate r f (p, w))))" using f trans_rel
    by (auto simp: or_deactivate_def split: sum.splits)
qed

lemmas sin_rules = sin_do_call sin_then_do sin_each_until_error sin_for_found

text \<open>The steps of scheduling and unscheduling, from the four that touch the program.\<close>

lemma sin_schedule_steps:
  assumes "\<And>p. Q p (keep_scheduler e p)" "steps_in Q (enter_scheduled r e)"
  shows "steps_in Q (schedule_steps r e)"
proof -
  have "steps_in Q (\<lambda>(p, w). (Success, if hs \<noteq> [] then keep_scheduler e p else p, w))" for hs :: "gxf_uid_t expected list"
    using assms by (auto simp: steps_in_def refl_rel)
  then have "steps_in Q (then_do (each_until_error (on_handle (\<lambda>c. do_call r (PrepareScheduler c))) hs)
      (\<lambda>(p, w). (Success, if hs \<noteq> [] then keep_scheduler e p else p, w)))" for hs
    by (intro sin_then_do sin_each_until_error sin_on_handle sin_do_call)
  then have "steps_in Q (offer_executor r e)"
    by (auto simp: offer_executor_def steps_in_def refl_rel split: sum.splits)
  then show ?thesis unfolding schedule_steps_def
    by (intro sin_then_do sin_for_found sin_do_call assms)
qed

lemma sin_drop_scheduler:
  "(\<And>p. Q p (p\<lparr>p_schedulers := removeAll e (p_schedulers p)\<rparr>)) \<Longrightarrow> steps_in Q (drop_scheduler e)"
  by (simp add: steps_in_def drop_scheduler_def)

lemma sin_unscheduleEntity:
  assumes "steps_in Q (leave_scheduled r e)" "\<And>p. Q p (p\<lparr>p_schedulers := removeAll e (p_schedulers p)\<rparr>)"
  shows "steps_in Q (p_unscheduleEntity r e)"
proof -
  have "steps_in Q (then_do (leave_scheduled r e)
      (then_do (for_found r KJobStatistics e (\<lambda>c. do_call r (RemoveStatistics c)))
      (then_do (for_found r KMonitor e (\<lambda>c. do_call r (RemoveMonitor c)))
      (then_do (drop_scheduler e)
      (then_do (do_call r (RemoveRoutes e))
      (then_do (for_found r KRouter e (\<lambda>c. do_call r (RemoveRouter c)))
      (for_found r KSystem e (\<lambda>c. do_call r (RemoveSystem c)))))))))"
    by (intro sin_then_do sin_for_found sin_do_call sin_drop_scheduler assms)
  then show ?thesis
    by (auto simp: p_unscheduleEntity_def steps_in_def refl_rel split: sum.splits)
qed

lemma sin_GxfEntityDeactivate:
  assumes "steps_in Q (leave_scheduled r e)" "\<And>p. Q p (p\<lparr>p_schedulers := removeAll e (p_schedulers p)\<rparr>)"
  shows "steps_in Q (GxfEntityDeactivate r e)"
proof -
  have "steps_in Q (then_do (p_unscheduleEntity r e)
       (then_do (do_call r (ExecutorDeactivate e)) (do_call r (WardenDeinitialize e))))"
    by (intro sin_then_do sin_do_call sin_unscheduleEntity assms)
  then show ?thesis by (auto simp: GxfEntityDeactivate_def steps_in_def refl_rel split: sum.splits)
qed

lemma sin_GxfEntityActivate:
  assumes "steps_in Q (p_scheduleEntity r e)"
  shows "steps_in Q (GxfEntityActivate r e)"
proof -
  have "steps_in Q (then_do (do_call r (WardenInitialize e))
       (then_do (do_call r (ExecutorActivate e)) (p_scheduleEntity r e)))"
    by (intro sin_then_do sin_do_call assms)
  then show ?thesis by (auto simp: GxfEntityActivate_def steps_in_def refl_rel split: sum.splits)
qed

lemma sin_deactivate_lists:
  assumes "\<And>e. steps_in Q (leave_scheduled r e)" "\<And>e p. Q p (p\<lparr>p_schedulers := removeAll e (p_schedulers p)\<rparr>)"
  shows "steps_in Q (then_do (deactivate_graph r) (deactivate_schedulers r))"
proof (rule sin_then_do)
  have e: "steps_in Q (each_until_error (GxfEntityDeactivate r) es)" for es
    by (intro sin_each_until_error sin_GxfEntityDeactivate assms)
  show "steps_in Q (deactivate_graph r)" using e
    by (auto simp: deactivate_graph_def steps_in_def refl_rel)
  show "steps_in Q (deactivate_schedulers r)" using e
    by (auto simp: deactivate_schedulers_def steps_in_def refl_rel)
qed

lemma sin_create_groups:
  assumes "\<And>p. Q p (p\<lparr>p_groups := True\<rparr>)" "\<And>p. Q p (p\<lparr>p_system_group := True\<rparr>)"
  shows "steps_in Q (create_groups r)"
proof -
  have "steps_in Q (set_group (\<lambda>p. p\<lparr>p_groups := True\<rparr>))" "steps_in Q (set_group (\<lambda>p. p\<lparr>p_system_group := True\<rparr>))"
    using assms by (auto simp: steps_in_def set_group_def)
  then show ?thesis unfolding create_groups_def by (intro sin_then_do sin_each_until_error sin_do_call)
qed

lemma sin_add_entity_routers: "steps_in Q (add_entity_routers r es)"
  unfolding add_entity_routers_def by (intro sin_each_until_error sin_for_found sin_do_call)

end

text \<open>The relations used below: the program is the same; the state is the same; entities may only
  disappear.\<close>

interpretation same_program: program_relation "(=)"
  by unfold_locales auto

definition same_state :: "Program \<Rightarrow> Program \<Rightarrow> bool" where
  "same_state p q \<longleftrightarrow> p_state q = p_state p"

interpretation same_state: program_relation same_state
  by unfold_locales (auto simp: same_state_def)

definition members :: "Program \<Rightarrow> gxf_uid_t list" where
  "members p = p_unscheduled p @ p_scheduled p"

definition program_inv :: "Program \<Rightarrow> bool" where
  "program_inv p \<longleftrightarrow> distinct (members p) \<and> length (members p) \<le> kMaxEntities \<and> distinct (p_schedulers p)"

definition keeps_members :: "Program \<Rightarrow> Program \<Rightarrow> bool" where
  "keeps_members p q \<longleftrightarrow> (program_inv p \<longrightarrow> program_inv q \<and> set (members q) \<subseteq> set (members p))"

interpretation keeps_members: program_relation keeps_members
  by unfold_locales (auto simp: keeps_members_def)

section \<open>Invariant: every entity is in one of the two lists, at most once\<close>

lemma set_push_eid: "set (push_eid e es) \<subseteq> insert e (set es)"
  by (auto simp: push_eid_def)

lemma distinct_push_eid: "e \<notin> set es \<Longrightarrow> distinct es \<Longrightarrow> distinct (push_eid e es)"
  by (simp add: push_eid_def)

lemma length_push_eid: "length (push_eid e es) \<le> Suc (length es)"
  by (simp add: push_eid_def)

lemma Suc_length_remove1: "e \<in> set es \<Longrightarrow> Suc (length (remove1 e es)) = length es"
  by (induction es) auto

lemma keeps_members_schedulers:
  "keeps_members p (p\<lparr>p_schedulers := removeAll e (p_schedulers p)\<rparr>)"
  "keeps_members p (keep_scheduler e p)"
  by (auto simp: keeps_members_def program_inv_def members_def keep_scheduler_def distinct_removeAll)

lemma keeps_members_same: "members q = members p \<Longrightarrow> p_schedulers q = p_schedulers p \<Longrightarrow> keeps_members p q"
  by (auto simp: keeps_members_def program_inv_def)

lemma keeps_members_leave: "steps_in keeps_members (leave_scheduled r e)"
proof -
  have "keeps_members p (p\<lparr>p_scheduled := remove1 e (p_scheduled p), p_unscheduled := push_eid e (p_unscheduled p)\<rparr>)"
    if "e \<in> set (p_scheduled p)" for p
  proof -
    let ?q = "p\<lparr>p_scheduled := remove1 e (p_scheduled p), p_unscheduled := push_eid e (p_unscheduled p)\<rparr>"
    have "program_inv ?q \<and> set (members ?q) \<subseteq> set (members p)" if inv: "program_inv p"
    proof -
      have e: "e \<notin> set (p_unscheduled p)" and d: "distinct (p_unscheduled p)" "distinct (p_scheduled p)"
        "set (p_unscheduled p) \<inter> set (p_scheduled p) = {}"
        using inv \<open>e \<in> set (p_scheduled p)\<close> by (auto simp: program_inv_def members_def)
      have "length (p_unscheduled p) + length (p_scheduled p) \<le> kMaxEntities"
        using inv by (simp add: program_inv_def members_def)
      then have "length (members ?q) \<le> kMaxEntities"
        using length_push_eid [of e "p_unscheduled p"] Suc_length_remove1 [OF \<open>e \<in> set (p_scheduled p)\<close>]
        unfolding members_def by simp
      moreover have "set (members ?q) \<subseteq> set (members p)"
        using set_push_eid [of e "p_unscheduled p"] \<open>e \<in> set (p_scheduled p)\<close> set_remove1_subset [of e "p_scheduled p"]
        by (auto simp: members_def)
      moreover have "distinct (members ?q)"
        using d e distinct_push_eid [of e "p_unscheduled p"] set_push_eid [of e "p_unscheduled p"]
        by (auto simp: members_def)
      ultimately show ?thesis using inv by (auto simp: program_inv_def)
    qed
    then show ?thesis by (simp add: keeps_members_def)
  qed
  then show ?thesis
    by (auto simp: steps_in_def leave_scheduled_def keeps_members.refl_rel)
qed

text \<open>Scheduling first erases the entity from the one list and enters it into the other list at the
  end; in between it is in none, and the steps in between leave the two lists alone.\<close>

definition same_lists :: "Program \<Rightarrow> Program \<Rightarrow> bool" where
  "same_lists p q \<longleftrightarrow> p_unscheduled q = p_unscheduled p \<and> p_scheduled q = p_scheduled p \<and>
     p_state q = p_state p \<and> p_groups q = p_groups p \<and> p_system_group q = p_system_group p \<and>
     (distinct (p_schedulers p) \<longrightarrow> distinct (p_schedulers q))"

interpretation same_lists: program_relation same_lists
  by unfold_locales (auto simp: same_lists_def)

lemma same_lists_offer: "steps_in same_lists (offer_executor r e)"
proof -
  have "steps_in same_lists (\<lambda>(p, w). (Success, if hs \<noteq> [] then keep_scheduler e p else p, w))"
    for hs :: "gxf_uid_t expected list"
    by (auto simp: steps_in_def same_lists_def keep_scheduler_def)
  then have "steps_in same_lists (then_do (each_until_error (on_handle (\<lambda>c. do_call r (PrepareScheduler c))) hs)
      (\<lambda>(p, w). (Success, if hs \<noteq> [] then keep_scheduler e p else p, w)))" for hs
    by (intro same_lists.sin_then_do same_lists.sin_each_until_error same_lists.sin_on_handle same_lists.sin_do_call)
  then show ?thesis
    by (auto simp: offer_executor_def steps_in_def same_lists.refl_rel split: sum.splits)
qed

definition before_entering :: "'w Run \<Rightarrow> gxf_uid_t \<Rightarrow> 'w pop" where
  "before_entering r e =
     then_do (for_found r KSystem e (\<lambda>c. do_call r (AddSystem c)))
     (then_do (offer_executor r e)
     (then_do (for_found r KMonitor e (\<lambda>c. do_call r (AddMonitor c)))
     (for_found r KJobStatistics e (\<lambda>c. do_call r (AddStatistics c)))))"

lemma then_do_assoc: "then_do (then_do f g) h = then_do f (then_do g h)"
  by (auto simp: then_do_def fun_eq_iff split: prod.splits sum.splits)

lemma schedule_steps_split: "schedule_steps r e = then_do (before_entering r e) (enter_scheduled r e)"
  by (simp add: schedule_steps_def before_entering_def then_do_assoc)

lemma same_lists_before: "steps_in same_lists (before_entering r e)"
  unfolding before_entering_def
  by (intro same_lists.sin_then_do same_lists.sin_for_found same_lists.sin_do_call same_lists_offer)

lemma enter_scheduled_program:
  "fst (snd (enter_scheduled r e (p, w))) = p\<lparr>p_scheduled := push_eid e (p_scheduled p)\<rparr>"
  by (simp add: enter_scheduled_def)

lemma schedule_steps_cases:
  assumes "schedule_steps r e (p, w) = (x, q, w')"
  obtains p1 where "same_lists p p1" "\<exists>err. x = Inl err" "q = p1"
  | p1 where "same_lists p p1" "q = p1\<lparr>p_scheduled := push_eid e (p_scheduled p)\<rparr>"
proof -
  obtain y p1 w1 where b: "before_entering r e (p, w) = (y, p1, w1)" by (metis prod_cases3)
  have sl: "same_lists p p1" using same_lists_before [of r e] b unfolding steps_in_def
    by (metis fst_conv snd_conv)
  show ?thesis
  proof (cases y)
    case (Inl err)
    then show ?thesis using assms b sl that(1) by (auto simp: schedule_steps_split then_do_def)
  next
    case (Inr u)
    then have "q = fst (snd (enter_scheduled r e (p1, w1)))"
      using assms b by (auto simp: schedule_steps_split then_do_def)
    then show ?thesis using sl that(2) [of p1] by (simp add: enter_scheduled_program same_lists_def)
  qed
qed

lemma schedule_keeps:
  "steps_in keeps_members (p_scheduleEntity r e)" "steps_in same_state (p_scheduleEntity r e)"
proof -
  have "keeps_members p q \<and> same_state p q"
    if e: "e \<in> set (p_unscheduled p)"
      and sch: "schedule_steps r e (p\<lparr>p_unscheduled := remove1 e (p_unscheduled p)\<rparr>, w) = (x, q, w')" for p w x q w'
  proof -
    have cases: "p_unscheduled q = remove1 e (p_unscheduled p) \<and>
        (p_scheduled q = p_scheduled p \<or> p_scheduled q = push_eid e (p_scheduled p)) \<and> p_state q = p_state p \<and>
        (distinct (p_schedulers p) \<longrightarrow> distinct (p_schedulers q))"
      by (rule schedule_steps_cases [OF sch]) (auto simp: same_lists_def)
    have "program_inv q \<and> set (members q) \<subseteq> set (members p)" if inv: "program_inv p"
    proof -
      have d: "distinct (p_unscheduled p)" "distinct (p_scheduled p)" "set (p_unscheduled p) \<inter> set (p_scheduled p) = {}"
        "length (p_unscheduled p) + length (p_scheduled p) \<le> kMaxEntities"
        using inv by (auto simp: program_inv_def members_def)
      have e2: "e \<notin> set (p_scheduled p)" using e d by auto
      have "length (p_scheduled q) \<le> Suc (length (p_scheduled p))"
        using cases length_push_eid [of e "p_scheduled p"] by auto
      then have "length (members q) \<le> kMaxEntities"
        using cases d(4) Suc_length_remove1 [OF e] unfolding members_def by simp
      moreover have "set (members q) \<subseteq> set (members p)"
        using cases set_push_eid [of e "p_scheduled p"] e set_remove1_subset [of e "p_unscheduled p"]
        by (auto simp: members_def)
      moreover have "distinct (members q)"
        using cases d e2 distinct_push_eid [of e "p_scheduled p"] set_push_eid [of e "p_scheduled p"]
        by (auto simp: members_def)
      ultimately show ?thesis using cases inv by (auto simp: program_inv_def)
    qed
    then show ?thesis using cases by (simp add: keeps_members_def same_state_def)
  qed
  then show "steps_in keeps_members (p_scheduleEntity r e)" "steps_in same_state (p_scheduleEntity r e)"
    unfolding steps_in_def p_scheduleEntity_def
    by (auto simp: keeps_members.refl_rel same_state.refl_rel split: sum.splits) (metis prod.collapse)+
qed

lemma keeps_members_deactivate_lists:
  "steps_in keeps_members (then_do (deactivate_graph r) (deactivate_schedulers r))"
  by (intro keeps_members.sin_deactivate_lists keeps_members_leave keeps_members_schedulers)

lemma keeps_members_state: "keeps_members p (p\<lparr>p_state := s\<rparr>)"
  by (auto simp: keeps_members_def program_inv_def members_def)

lemma keeps_members_deactivate: "steps_in keeps_members (p_deactivate r)"
  unfolding steps_in_def
proof (intro allI)
  fix p :: Program and w
  let ?p0 = "p\<lparr>p_state := DEINITALIZING\<rparr>"
  obtain x p1 w1 where d: "then_do (deactivate_graph r) (deactivate_schedulers r) (?p0, w) = (x, p1, w1)"
    by (metis prod_cases3)
  have "keeps_members ?p0 p1" using keeps_members_deactivate_lists [of r] d unfolding steps_in_def
    by (metis fst_conv snd_conv)
  with keeps_members_state have k: "keeps_members p p1" by (rule keeps_members.trans_rel)
  have e: "keeps_members p1 (p1\<lparr>p_groups := False, p_scheduled := [], p_unscheduled := []\<rparr>)"
    "keeps_members p1 (p1\<lparr>p_groups := False, p_state := ORIGIN\<rparr>)"
    by (auto simp: keeps_members_def program_inv_def members_def)
  show "keeps_members p (fst (snd (p_deactivate r (p, w))))"
    using d keeps_members.trans_rel [OF k e(1)] keeps_members.trans_rel [OF k e(2)]
    by (auto simp: p_deactivate_def resetProgram_def release_groups_def keeps_members.refl_rel split: sum.splits)
qed

lemma keeps_members_activateEntities: "steps_in keeps_members (activateEntities r es)"
  unfolding activateEntities_def
  by (intro keeps_members.sin_each_until_error keeps_members.sin_or_deactivate
      keeps_members.sin_GxfEntityActivate schedule_keeps keeps_members_deactivate)

lemma keeps_members_preActivateEntities: "steps_in keeps_members (preActivateEntities r es)"
  unfolding preActivateEntities_def
  by (intro keeps_members.sin_each_until_error keeps_members.sin_or_deactivate
      keeps_members.sin_do_call keeps_members_deactivate)

lemma keeps_members_finish: "steps_in keeps_members (finish_activate r c)"
proof -
  have "steps_in keeps_members become_activated" "steps_in keeps_members (executor_initialize r)"
    by (auto simp: steps_in_def become_activated_def executor_initialize_def keeps_members_state keeps_members.refl_rel)
  then show ?thesis unfolding finish_activate_def activate_sorted_def
    by (intro keeps_members.sin_then_do keeps_members_activateEntities keeps_members_preActivateEntities)
qed

section \<open>The state machine\<close>

lemma same_state_deactivate_entity: "steps_in same_state (GxfEntityDeactivate r e)"
  by (rule same_state.sin_GxfEntityDeactivate) (auto simp: steps_in_def leave_scheduled_def same_state_def)

lemma same_state_activate_entity: "steps_in same_state (GxfEntityActivate r e)"
  by (rule same_state.sin_GxfEntityActivate [OF schedule_keeps(2)])

lemma steps_inD: "steps_in Q f \<Longrightarrow> f (p, w) = (x, q, w') \<Longrightarrow> Q p q"
  unfolding steps_in_def by (metis fst_conv snd_conv)

lemma steps_inD': "steps_in Q f \<Longrightarrow> f s = (x, s') \<Longrightarrow> Q (fst s) (fst s')"
  unfolding steps_in_def by (metis prod.collapse fst_conv snd_conv)

lemma p_deactivate_state:
  assumes "p_deactivate r s = (x, s')"
  shows "case x of Inr _ \<Rightarrow> p_state (fst s') = ORIGIN
    | Inl _ \<Rightarrow> p_state (fst s') = DEINITALIZING \<and> p_state (fst s) \<noteq> ORIGIN \<and> members (fst s') = []"
proof -
  obtain p w where s: "s = (p, w)" by (cases s)
  have "p_state p1 = DEINITALIZING"
    if "then_do (deactivate_graph r) (deactivate_schedulers r) (p\<lparr>p_state := DEINITALIZING\<rparr>, w) = (y, p1, w1)" for y p1 w1
  proof -
    have "steps_in same_state (then_do (deactivate_graph r) (deactivate_schedulers r))"
      by (rule same_state.sin_deactivate_lists) (auto simp: steps_in_def leave_scheduled_def same_state_def)
    from steps_inD [OF this that] show ?thesis by (simp add: same_state_def)
  qed
  then show ?thesis using assms s
    by (fastforce simp: p_deactivate_def resetProgram_def release_groups_def members_def split: if_splits sum.splits prod.splits)
qed

lemma p_deactivate_ORIGIN: "p_state (fst s) = ORIGIN \<Longrightarrow> p_deactivate r s = (Success, s)"
  by (cases s) (simp add: p_deactivate_def)

lemma or_deactivate_state:
  assumes "or_deactivate r f s = (x, s')" "steps_in same_state f"
  shows "case x of Inr _ \<Rightarrow> p_state (fst s') = p_state (fst s) \<and> f s = (Inr (), s')
    | Inl e \<Rightarrow> p_state (fst s') \<in> {ORIGIN, DEINITALIZING}"
proof -
  obtain y s1 where f: "f s = (y, s1)" by (metis prod.exhaust)
  obtain z s2 where d: "p_deactivate r s1 = (z, s2)" by (metis prod.exhaust)
  show ?thesis using assms(1) f d steps_inD' [OF assms(2) f] p_deactivate_state [OF d]
    by (auto simp: or_deactivate_def same_state_def split: sum.splits)
qed

lemma each_or_deactivate_state:
  assumes "\<And>e. steps_in same_state (f e)"
    "each_until_error (\<lambda>e. or_deactivate r (f e)) es s = (x, s')"
  shows "case x of Inr _ \<Rightarrow> p_state (fst s') = p_state (fst s) \<and> each_until_error f es s = (Inr (), s')
    | Inl e \<Rightarrow> p_state (fst s') \<in> {ORIGIN, DEINITALIZING}"
  using assms(2)
proof (induction es arbitrary: s)
  case (Cons e es)
  obtain y s1 where f: "or_deactivate r (f e) s = (y, s1)" by (metis prod.exhaust)
  note o = or_deactivate_state [OF f assms(1)]
  show ?case
  proof (cases y)
    case (Inl err)
    then show ?thesis using Cons.prems f o by auto
  next
    case (Inr u)
    then have "each_until_error (\<lambda>e. or_deactivate r (f e)) es s1 = (x, s')" using Cons.prems f by simp
    from Cons.IH [OF this] show ?thesis using o Inr by (auto split: sum.splits)
  qed
qed auto

lemma activateEntities_state:
  "activateEntities r es s = (x, s') \<Longrightarrow> case x of
     Inr _ \<Rightarrow> p_state (fst s') = p_state (fst s) \<and> each_until_error (GxfEntityActivate r) es s = (Inr (), s')
   | Inl e \<Rightarrow> p_state (fst s') \<in> {ORIGIN, DEINITALIZING}"
  unfolding activateEntities_def by (rule each_or_deactivate_state [OF same_state_activate_entity])

lemma preActivateEntities_state:
  "preActivateEntities r es s = (x, s') \<Longrightarrow> case x of
     Inr _ \<Rightarrow> p_state (fst s') = p_state (fst s) \<and> each_until_error (\<lambda>e. do_call r (PopulateResources e)) es s = (Inr (), s')
   | Inl e \<Rightarrow> p_state (fst s') \<in> {ORIGIN, DEINITALIZING}"
  unfolding preActivateEntities_def by (rule each_or_deactivate_state [OF same_state.sin_do_call])

lemma each_until_error_append:
  "each_until_error f (as @ bs) s = (case each_until_error f as s of
     (Inl e, s1) \<Rightarrow> (Inl e, s1) | (Inr _, s1) \<Rightarrow> each_until_error f bs s1)"
  by (induction as arbitrary: s) (auto split: prod.splits sum.splits)

text \<open>Activating the five lists one after the other is activating their concatenation.\<close>

lemma activate_sorted_order: "activate_sorted r c = activateEntities r (activation_order c)"
  unfolding activate_sorted_def activation_order_def activateEntities_def fun_eq_iff then_do_def
  by (simp add: each_until_error_append split: prod.splits sum.splits)

lemma finish_activate_state:
  assumes "finish_activate r c s = (x, s')"
  shows "case x of
     Inr _ \<Rightarrow> p_state (fst s') = ACTIVATED \<and>
       (\<exists>s1 s2. executor_initialize r s = (Inr (), s1) \<and>
          each_until_error (\<lambda>e. do_call r (PopulateResources e)) (graph_entities c) s1 = (Inr (), s2) \<and>
          (\<exists>s3. each_until_error (GxfEntityActivate r) (activation_order c) s2 = (Inr (), s3) \<and>
             s' = ((fst s3)\<lparr>p_state := ACTIVATED\<rparr>, snd s3)))
   | Inl e \<Rightarrow> p_state (fst s') \<in> {ORIGIN, DEINITALIZING}"
proof -
  obtain s1 where i: "executor_initialize r s = (Inr (), s1)" by (cases s) (simp add: executor_initialize_def)
  obtain y s2 where p: "preActivateEntities r (graph_entities c) s1 = (y, s2)" by (metis prod.exhaust)
  obtain z s3 where a: "activateEntities r (activation_order c) s2 = (z, s3)" by (metis prod.exhaust)
  show ?thesis using assms i p a preActivateEntities_state [OF p] activateEntities_state [OF a]
    by (cases s2; cases s3) (auto simp: finish_activate_def activate_sorted_order then_do_def become_activated_def split: sum.splits)
qed

section \<open>The order of activation\<close>

definition has_kind :: "'w Run \<Rightarrow> 'w \<Rightarrow> pkind \<Rightarrow> gxf_uid_t \<Rightarrow> bool" where
  "has_kind r w k e = (case r_find r k e w of Inl _ \<Rightarrow> False | Inr hs \<Rightarrow> hs \<noteq> [])"

definition entity_rank :: "'w Run \<Rightarrow> 'w \<Rightarrow> gxf_uid_t \<Rightarrow> nat" where
  "entity_rank r w e =
     (if has_kind r w KSystem e then 0 else if has_kind r w KRouter e then 1
      else if has_kind r w KConnection e then 2 else if has_kind r w KNetworkContext e then 3 else 4)"

fun of_rank :: "nat \<Rightarrow> Sorted \<Rightarrow> gxf_uid_t list" where
  "of_rank 0 c = system_entities c"
| "of_rank (Suc 0) c = router_entities c"
| "of_rank (Suc (Suc 0)) c = connection_entities c"
| "of_rank (Suc (Suc (Suc 0))) c = network_context_entities c"
| "of_rank (Suc (Suc (Suc (Suc k)))) c = (if k = 0 then graph_entities c else [])"

lemma sort_entity_rank:
  assumes "sort_entity r w e c = Inr d"
  shows "of_rank k d = of_rank k c @ (if k = entity_rank r w e then [e] else [])"
proof -
  have "k = 0 \<or> k = 1 \<or> k = 2 \<or> k = 3 \<or> (\<exists>j. k = Suc (Suc (Suc (Suc j))))"
    by presburger
  then show ?thesis using assms
    by (elim disjE exE)
      (auto simp: sort_entity_def push_sorted_def entity_rank_def has_kind_def numeral_2_eq_2 numeral_3_eq_3
        split: sum.splits if_splits)
qed

lemma sort_entities_rank:
  "sort_entities r w es c = Inr d \<Longrightarrow> of_rank k d = of_rank k c @ filter (\<lambda>e. entity_rank r w e = k) es"
proof (induction es arbitrary: c)
  case (Cons e es)
  then obtain c1 where "sort_entity r w e c = Inr c1" "sort_entities r w es c1 = Inr d"
    by (auto split: sum.splits)
  with Cons.IH [of c1] sort_entity_rank [of r w e c c1 k] show ?case by auto
qed simp

text \<open>Concatenating the classes in order is the stable sort by rank.\<close>

lemma sort_key_classes:
  fixes f :: "'a \<Rightarrow> nat"
  assumes "\<And>x. x \<in> set xs \<Longrightarrow> f x < n"
  shows "concat (map (\<lambda>k. filter (\<lambda>x. f x = k) xs) [0..<n]) = sort_key f xs"
proof -
  have eq: "filter (\<lambda>x. f x = k) (concat (map (\<lambda>k. filter (\<lambda>x. f x = k) xs) [0..<m])) =
      (if k < m then filter (\<lambda>x. f x = k) xs else [])" for k m
  proof (induction m)
    case (Suc m)
    have "filter (\<lambda>x. f x = k) (filter (\<lambda>x. f x = m) xs) = (if k = m then filter (\<lambda>x. f x = k) xs else [])"
      by (auto simp: filter_filter intro: filter_False)
    with Suc show ?case by auto
  qed simp
  let ?ys = "concat (map (\<lambda>k. filter (\<lambda>x. f x = k) xs) [0..<n])"
  have flt: "filter (\<lambda>x. f x = k) ?ys = filter (\<lambda>x. f x = k) xs" for k
    using eq [of k n] assms by (auto intro!: filter_False [symmetric])
  have "sorted (map f (concat (map (\<lambda>k. filter (\<lambda>x. f x = k) xs) [0..<m])))" for m
  proof (induction m)
    case (Suc m)
    have "sorted (map f (filter (\<lambda>x. f x = m) xs))" by (induction xs) auto
    with Suc show ?case by (auto simp: sorted_append)
  qed simp
  moreover have "mset ?ys = mset xs"
  proof (rule multiset_eqI)
    fix x
    have cnt: "count (mset zs) x = length (filter (\<lambda>y. y = x) (filter (\<lambda>y. f y = f x) zs))" for zs
      by (induction zs) auto
    show "count (mset ?ys) x = count (mset xs) x" unfolding cnt flt [of "f x"] ..
  qed
  moreover have "filter (\<lambda>x. f k = f x) ?ys = filter (\<lambda>x. f k = f x) xs" for k
    using flt [of "f k"] by (simp only: eq_commute [of "f k"])
  ultimately show ?thesis by (intro properties_for_sort_key [symmetric]) auto
qed

lemma activation_order_ranks: "activation_order c = concat (map (\<lambda>k. of_rank k c) [0..<5])"
  by (simp add: activation_order_def upt_rec numeral_2_eq_2 numeral_3_eq_3 eval_nat_numeral)

lemma activation_order_sort:
  assumes "sort_entities r w es no_entities = Inr c"
  shows "activation_order c = sort_key (entity_rank r w) es"
proof -
  have "of_rank k no_entities = []" for k
    by (cases "(k, no_entities)" rule: of_rank.cases) (auto simp: no_entities_def)
  then have "of_rank k c = filter (\<lambda>e. entity_rank r w e = k) es" for k
    using sort_entities_rank [OF assms] by simp
  then have "activation_order c = concat (map (\<lambda>k. filter (\<lambda>e. entity_rank r w e = k) es) [0..<5])"
    by (simp add: activation_order_ranks)
  also have "\<dots> = sort_key (entity_rank r w) es"
    by (rule sort_key_classes) (simp add: entity_rank_def)
  finally show ?thesis .
qed

lemma schedule_ok:
  assumes "p_scheduleEntity r e (p, w) = (Inr u, q, w')"
  shows "p_state p \<noteq> ORIGIN" "p_state q = p_state p"
    "e \<in> set (p_unscheduled p) \<Longrightarrow> p_unscheduled q = remove1 e (p_unscheduled p)"
    "e \<in> set (p_unscheduled p) \<Longrightarrow> p_scheduled q = push_eid e (p_scheduled p)"
proof -
  show "p_state p \<noteq> ORIGIN" using assms by (auto simp: p_scheduleEntity_def)
  show "p_state q = p_state p" using steps_inD [OF schedule_keeps(2) assms] by (simp add: same_state_def)
  show "p_unscheduled q = remove1 e (p_unscheduled p)" "p_scheduled q = push_eid e (p_scheduled p)"
    if "e \<in> set (p_unscheduled p)"
  proof -
    have s: "schedule_steps r e (p\<lparr>p_unscheduled := remove1 e (p_unscheduled p)\<rparr>, w) = (Inr u, q, w')"
      using assms that by (auto simp: p_scheduleEntity_def split: if_splits sum.splits)
    show "p_unscheduled q = remove1 e (p_unscheduled p)" "p_scheduled q = push_eid e (p_scheduled p)"
      by (rule schedule_steps_cases [OF s]; auto simp: same_lists_def)+
  qed
qed

lemma GxfEntityActivate_ok:
  assumes "GxfEntityActivate r e s = (Inr u, q, w')"
  shows "\<exists>w1. p_scheduleEntity r e (fst s, w1) = (Inr u, q, w')"
  using assms by (cases s) (auto simp: GxfEntityActivate_def then_do_Inr do_call_def split: sum.splits prod.splits)

lemma activate_all_ok:
  assumes "each_until_error (GxfEntityActivate r) es s = (Inr u, q, w')"
    "distinct es" "set es \<subseteq> set (p_unscheduled (fst s))" "length (p_scheduled (fst s)) + length es \<le> kMaxEntities"
    "distinct (p_unscheduled (fst s))"
  shows "p_scheduled q = p_scheduled (fst s) @ es \<and>
    p_unscheduled q = filter (\<lambda>e. e \<notin> set es) (p_unscheduled (fst s))"
  using assms
proof (induction es arbitrary: s)
  case (Cons e es)
  obtain v s1 where a: "GxfEntityActivate r e s = (Inr v, s1)"
    and rest: "each_until_error (GxfEntityActivate r) es s1 = (Inr u, q, w')"
    using Cons.prems(1) by (auto simp: each_until_error_Inr_Cons simp del: each_until_error.simps(2))
  obtain w1 where sch: "p_scheduleEntity r e (fst s, w1) = (Inr v, fst s1, snd s1)"
    using GxfEntityActivate_ok [of r e s v "fst s1" "snd s1"] a by auto
  have e: "e \<in> set (p_unscheduled (fst s))" using Cons.prems by simp
  have q1: "p_unscheduled (fst s1) = remove1 e (p_unscheduled (fst s))"
    "p_scheduled (fst s1) = p_scheduled (fst s) @ [e]"
    using schedule_ok(3,4) [OF sch e] Cons.prems(4) by (auto simp: push_eid_def)
  have "set es \<subseteq> set (p_unscheduled (fst s1))" "distinct (p_unscheduled (fst s1))"
    using Cons.prems(2,3,5) by (auto simp: q1)
  from Cons.IH [OF rest _ this(1) _ this(2)] Cons.prems q1 show ?case
    by (auto simp: distinct_remove1_removeAll removeAll_filter_not_eq intro: filter_cong)
qed simp

text \<open>In the state ORIGIN nothing can be activated, and deactivation does nothing.\<close>

lemma activate_ORIGIN:
  assumes "p_state (fst s) = ORIGIN" "es \<noteq> []" "each_until_error (GxfEntityActivate r) es s = (x, s')"
  shows "x \<noteq> Inr u"
proof
  assume "x = Inr u"
  then obtain v s1 where "GxfEntityActivate r (hd es) s = (Inr v, s1)"
    using assms(2,3) by (cases es) (auto simp: each_until_error_Inr_Cons simp del: each_until_error.simps(2))
  then obtain w1 where "p_scheduleEntity r (hd es) (fst s, w1) = (Inr v, fst s1, snd s1)"
    using GxfEntityActivate_ok [of r "hd es" s v "fst s1" "snd s1"] by auto
  from schedule_ok(1) [OF this] assms(1) show False by simp
qed

lemma finish_activate_ORIGIN:
  assumes "finish_activate r c s = (x, s')" "p_state (fst s) = ORIGIN" "activation_order c \<noteq> []"
  obtains err where "x = Inl err"
proof (cases x)
  case (Inr u)
  from finish_activate_state [OF assms(1)] obtain s1 s2 s3 where
    i: "executor_initialize r s = (Inr (), s1)"
    and p: "each_until_error (\<lambda>e. do_call r (PopulateResources e)) (graph_entities c) s1 = (Inr (), s2)"
    and a: "each_until_error (GxfEntityActivate r) (activation_order c) s2 = (Inr (), s3)"
    unfolding Inr by auto
  have "fst s1 = fst s" using i by (cases s) (auto simp: executor_initialize_def)
  moreover have "fst s2 = fst s1"
    using steps_inD' [OF same_program.sin_each_until_error [OF same_program.sin_do_call] p] by simp
  ultimately show ?thesis using activate_ORIGIN [OF _ assms(3) a] assms(2) by auto
qed (use that in auto)

lemma p_addRoutes_cases:
  assumes "p_addRoutes r es s = Some (x, s')"
  shows "(x = Inr () \<and> fst s' = fst s) \<or>
    (es \<noteq> [] \<and> (\<exists>w. p_deactivate r (fst s, w) = (x, s')))"
  using assms
proof (induction es arbitrary: s)
  case (Cons e es)
  obtain y s1 where c: "do_call r (AddRoutes e) s = (y, s1)" by (metis prod.exhaust)
  have "fst s1 = fst s" using do_call_program [of r "AddRoutes e" s] c by simp
  then obtain w1 where s1: "s1 = (fst s, w1)" by (metis prod.collapse)
  show ?case using Cons.prems Cons.IH [of s1] c by (auto simp: s1 split: sum.splits)
qed auto

text \<open>The part of activate before the entities are touched only creates the groups.\<close>

definition only_groups :: "Program \<Rightarrow> Program \<Rightarrow> bool" where
  "only_groups p q \<longleftrightarrow> members q = members p \<and> p_unscheduled q = p_unscheduled p \<and>
     p_schedulers q = p_schedulers p \<and> p_state q = p_state p"

interpretation only_groups: program_relation only_groups
  by unfold_locales (auto simp: only_groups_def)

lemma only_groups_create:
  "steps_in only_groups (then_do (create_groups r) (add_entity_routers r es))"
  by (intro only_groups.sin_then_do only_groups.sin_create_groups only_groups.sin_add_entity_routers)
    (auto simp: only_groups_def members_def)

lemma p_activate_cases:
  assumes "p_activate r (p, w) = Some (x, q, w')"
  obtains (refused) e where "x = Inl e" "q = p"
  | (stuck) e where "x = Inl e" "p_state p = ORIGIN" "p_state q = ACTIVATING" "members q = members p"
      "p_schedulers q = p_schedulers p"
  | (undone) s1 e p2 where "x = Inl e" "p_state p = ORIGIN" "only_groups (p\<lparr>p_state := ACTIVATING\<rparr>) p2"
      "p_deactivate r (p2, s1) = (x, q, w')"
  | (masked) s1 p2 c s2 where "p_state p = ORIGIN" "only_groups (p\<lparr>p_state := ACTIVATING\<rparr>) p2"
      "p_deactivate r (p2, s1) = (Inr (), s2)" "activation_order c \<noteq> []" "finish_activate r c s2 = (x, q, w')"
  | (finish) c p2 w2 where "p_state p = ORIGIN" "only_groups (p\<lparr>p_state := ACTIVATING\<rparr>) p2"
      "activation_order c = sort_key (entity_rank r (snd (r_call r SystemTypeId w))) (p_unscheduled p)"
      "finish_activate r c (p2, w2) = (x, q, w')"
proof -
  obtain code w1 where c1: "r_call r SystemTypeId w = (code, w1)" by (metis prod.exhaust)
  let ?p1 = "p\<lparr>p_state := ACTIVATING\<rparr>"
  show ?thesis
  proof (cases "code \<noteq> GXF_SUCCESS \<or> p_state p \<noteq> ORIGIN")
    case True
    then show ?thesis using assms c1 refused by (auto simp: p_activate_def split: if_splits)
  next
    case False
    then have o: "p_state p = ORIGIN" and succ: "code = GXF_SUCCESS" by auto
    show ?thesis
    proof (cases "sort_entities r w1 (p_unscheduled p) no_entities")
      case (Inl e)
      then show ?thesis using assms c1 o succ stuck by (auto simp: p_activate_def members_def)
    next
      case (Inr c)
      note order = activation_order_sort [OF Inr]
      obtain y p2 w2 where g: "then_do (create_groups r) (add_entity_routers r (router_entities c)) (?p1, w1) = (y, p2, w2)"
        by (metis prod_cases3)
      have og: "only_groups ?p1 p2" by (rule steps_inD [OF only_groups_create g])
      show ?thesis
      proof (cases y)
        case (Inl e)
        then show ?thesis using assms c1 o succ stuck Inr g og
          by (auto simp: p_activate_def only_groups_def members_def)
      next
        case (Inr u)
        then obtain w3 res s4 where w3: "add_network_contexts r (p_unscheduled p2) w2 = Some w3"
          and ar: "p_addRoutes r (p_unscheduled p2) (p2, w3) = Some (res, s4)"
          and fin: "case res of Inl e \<Rightarrow> (x, q, w') = (Inl e, s4) | Inr _ \<Rightarrow> (x, q, w') = finish_activate r c s4"
          using assms c1 o succ g \<open>sort_entities r w1 (p_unscheduled p) no_entities = Inr c\<close>
          by (auto simp: p_activate_def split: option.splits sum.splits)
        consider (same) "res = Inr ()" "fst s4 = p2"
          | (dis) w5 where "p_unscheduled p2 \<noteq> []" "p_deactivate r (p2, w5) = (res, s4)"
          using p_addRoutes_cases [OF ar] by auto
        then show ?thesis
        proof cases
          case same
          then show ?thesis using finish [OF o og, of c "snd s4"] fin order c1 by (cases s4) auto
        next
          case dis
          have ne: "activation_order c \<noteq> []"
            using dis(1) og order by (auto simp: only_groups_def dest: arg_cong [where f = length])
          show ?thesis
          proof (cases res)
            case (Inl e)
            then show ?thesis using undone [OF _ o og, of e w5] fin dis by auto
          next
            case (Inr u')
            then show ?thesis using masked [OF o og, of w5 s4 c] fin dis ne by auto
          qed
        qed
      qed
    qed
  qed
qed

section \<open>Operations of the API\<close>

datatype prog_op =
    OpAddEntity gxf_uid_t | OpActivateEntity gxf_uid_t | OpDeactivateEntity gxf_uid_t
  | OpActivate | OpRunAsync | OpInterrupt | OpWait bool | OpEventNotify gxf_uid_t int
  | OpDeactivate | OpDestroy

text \<open>OpWait True: another thread interrupts the program while this one waits.\<close>

fun p_exec :: "'w Run \<Rightarrow> prog_op \<Rightarrow> Program \<times> 'w \<Rightarrow> (unit expected \<times> Program \<times> 'w) option" where
  "p_exec r (OpAddEntity e) s = Some (p_addEntity r e s)"
| "p_exec r (OpActivateEntity e) s = Some (GxfEntityActivate r e s)"
| "p_exec r (OpDeactivateEntity e) s = Some (GxfEntityDeactivate r e s)"
| "p_exec r OpActivate s = p_activate r s"
| "p_exec r OpRunAsync s = Some (p_runAsync r s)"
| "p_exec r OpInterrupt s = Some (p_interrupt r s)"
| "p_exec r (OpWait interrupted) s = Some (p_wait r (\<lambda>s. if interrupted then snd (p_interrupt r s) else s) s)"
| "p_exec r (OpEventNotify e ev) s = Some (p_entityEventNotify r e ev s)"
| "p_exec r OpDeactivate s = Some (p_deactivate r s)"
| "p_exec r OpDestroy (p, w) = (let (x, q) = p_destroy p in Some (x, q, w))"

text \<open>The states in which an operation may end, by its success and the state in which it starts.\<close>

fun state_table :: "prog_op \<Rightarrow> bool \<Rightarrow> ProgramState \<Rightarrow> ProgramState set" where
  "state_table OpActivate True s = (if s = ORIGIN then {ACTIVATED} else {})"
| "state_table OpActivate False s = (if s = ORIGIN then {ORIGIN, ACTIVATING, DEINITALIZING} else {s})"
| "state_table OpRunAsync True s = (if s = ACTIVATED then {RUNNING} else {})"
| "state_table OpRunAsync False s = (if s = ACTIVATED then {ORIGIN, DEINITALIZING} else {s})"
| "state_table OpInterrupt True s = (if s = RUNNING then {INTERRUPTING} else {})"
| "state_table OpInterrupt False s = (if s = RUNNING then {INTERRUPTING} else {s})"
| "state_table (OpWait i) True s =
     (if s \<in> {RUNNING, INTERRUPTING} then {ACTIVATED} else if s = ACTIVATING then {} else {s})"
| "state_table (OpWait i) False s =
     (if s \<in> {STARTING, RUNNING, INTERRUPTING} then {ORIGIN, DEINITALIZING} else if s = ACTIVATING then {s} else {})"
| "state_table OpDeactivate True s = {ORIGIN}"
| "state_table OpDeactivate False s = (if s = ORIGIN then {} else {DEINITALIZING})"
| "state_table (OpActivateEntity e) True s = (if s = ORIGIN then {} else {s})"
| "state_table op b s = {s}"

lemma do_call_cases: "do_call r c s = (x, s') \<Longrightarrow> fst s' = fst s"
  using do_call_program [of r c s] by simp

lemma p_interrupt_program:
  "fst (snd (p_interrupt r (p, w))) = (if p_state p = RUNNING then p\<lparr>p_state := INTERRUPTING\<rparr> else p)"
  by (simp add: p_interrupt_def)

lemma activate_table:
  assumes "p_activate r (p, w) = Some (x, q, w')"
  shows "p_state q \<in> state_table OpActivate (ok x) (p_state p)"
  using assms
proof (cases rule: p_activate_cases)
  case (undone s1 e p2)
  then show ?thesis using p_deactivate_state [OF undone(4)] by (auto simp: only_groups_def)
next
  case (masked s1 p2 c s2)
  have o: "p_state (fst s2) = ORIGIN" using p_deactivate_state [OF masked(3)] by simp
  obtain err where "x = Inl err" by (rule finish_activate_ORIGIN [OF masked(5) o masked(4)])
  then show ?thesis using finish_activate_state [OF masked(5)] masked by auto
next
  case (finish c p2 w2)
  then show ?thesis using finish_activate_state [OF finish(4)] by (cases x) auto
qed auto


section \<open>The entities of the program over any run\<close>

text \<open>Entities are added with a fresh uid while there is room; everything else is arbitrary.\<close>

definition may_exec :: "prog_op \<Rightarrow> Program \<Rightarrow> bool" where
  "may_exec op p = (case op of
     OpAddEntity e \<Rightarrow> e \<notin> set (members p) \<and> length (members p) < kMaxEntities | _ \<Rightarrow> True)"

inductive p_reach :: "'w Run \<Rightarrow> Program \<times> 'w \<Rightarrow> bool" for r where
  start: "p_reach r (p_create, w)"
| step: "p_reach r (p, w) \<Longrightarrow> may_exec op p \<Longrightarrow> p_exec r op (p, w) = Some (x, s) \<Longrightarrow> p_reach r s"

lemma keeps_members_only_groups:
  "only_groups (p\<lparr>p_state := st\<rparr>) p2 \<Longrightarrow> keeps_members p p2"
  by (rule keeps_members_same) (auto simp: only_groups_def members_def)

lemma keeps_members_activate:
  assumes "p_activate r (p, w) = Some (x, q, w')"
  shows "keeps_members p q"
  using assms
proof (cases rule: p_activate_cases)
  case (undone s1 e p2)
  show ?thesis using keeps_members.trans_rel [OF keeps_members_only_groups [OF undone(3)]]
      steps_inD [OF keeps_members_deactivate undone(4)] by blast
next
  case (masked s1 p2 c s2)
  obtain q2 w2 where s2: "s2 = (q2, w2)" by (cases s2)
  have "keeps_members p2 q2" "keeps_members q2 q"
    using steps_inD [OF keeps_members_deactivate masked(3) [unfolded s2]]
      steps_inD [OF keeps_members_finish masked(5) [unfolded s2]] by auto
  then show ?thesis using keeps_members.trans_rel keeps_members_only_groups [OF masked(2)] by blast
next
  case (finish c p2 w2)
  show ?thesis using keeps_members.trans_rel [OF keeps_members_only_groups [OF finish(2)]]
      steps_inD [OF keeps_members_finish finish(4)] by blast
qed (auto intro: keeps_members.refl_rel keeps_members_same)

lemma keeps_members_run:
  "steps_in keeps_members (p_runAsync r)" "steps_in keeps_members (p_interrupt r)"
  "steps_in keeps_members (p_wait r (\<lambda>s. if i then snd (p_interrupt r s) else s))"
proof -
  have d: "keeps_members p (fst (snd (p_deactivate r (p\<lparr>p_state := st\<rparr>, w))))" for p st w
    using keeps_members.trans_rel [OF keeps_members_state [of p st]] keeps_members_deactivate [of r]
    by (auto simp: steps_in_def)
  have d2: "do_call r c (p, w) = (y, s1) \<Longrightarrow> s1 = (p, snd s1)" for c y s1 p w
    using do_call_cases [of r c "(p, w)" y s1] by (cases s1) simp
  show "steps_in keeps_members (p_runAsync r)"
    unfolding steps_in_def p_runAsync_def
    using d by (auto simp: keeps_members.refl_rel keeps_members_state split: sum.splits prod.splits dest!: d2)
  show i: "steps_in keeps_members (p_interrupt r)"
    by (auto simp: steps_in_def p_interrupt_program keeps_members.refl_rel keeps_members_state)
  show "steps_in keeps_members (p_wait r (\<lambda>s. if i then snd (p_interrupt r s) else s))"
    unfolding steps_in_def
  proof (intro allI)
    fix p w
    let ?other = "\<lambda>s. if i then snd (p_interrupt r s) else s"
    obtain y p1 w1 where c: "do_call r SystemWait (p, w) = (y, p1, w1)" by (metis prod_cases3)
    obtain p2 w2 where o: "?other (p1, w1) = (p2, w2)" by (metis prod.exhaust)
    have p2: "p2 = p1 \<or> p2 = p1\<lparr>p_state := INTERRUPTING\<rparr>"
      using arg_cong [where f = fst, OF o] p_interrupt_program [of r p1 w1] by (auto split: if_splits)
    have "keeps_members p p2" using p2 do_call_cases [OF c] keeps_members_state keeps_members.refl_rel by auto
    then have k: "keeps_members p p2" "keeps_members p (p2\<lparr>p_state := ACTIVATED\<rparr>)"
      "keeps_members p (fst (snd (p_deactivate r (p2, w2))))"
      using keeps_members.trans_rel keeps_members_state keeps_members_deactivate [of r]
      by (auto simp: steps_in_def)
    then show "keeps_members p (fst (snd (p_wait r ?other (p, w))))"
      using c o by (auto simp: p_wait_def keeps_members.refl_rel split: sum.splits)
  qed
qed

lemma keeps_members_entity:
  "steps_in keeps_members (GxfEntityActivate r e)" "steps_in keeps_members (GxfEntityDeactivate r e)"
  by (intro keeps_members.sin_GxfEntityActivate schedule_keeps)
    (intro keeps_members.sin_GxfEntityDeactivate keeps_members_leave keeps_members_schedulers)

lemma keeps_members_exec:
  assumes "p_exec r op (p, w) = Some (x, q, w')" "\<And>e. op \<noteq> OpAddEntity e"
  shows "keeps_members p q"
proof (cases op)
  case (OpEventNotify e ev)
  then have "q = p" using assms
    by (auto simp: p_entityEventNotify_def dest: do_call_cases split: if_splits)
  then show ?thesis by (simp add: keeps_members.refl_rel)
next
  case OpDestroy
  then show ?thesis using assms by (auto simp: p_destroy_def keeps_members_def program_inv_def members_def)
qed (use assms keeps_members_activate steps_inD [OF keeps_members_entity(1), of r _ p w x q w']
    steps_inD [OF keeps_members_entity(2), of r _ p w x q w'] steps_inD [OF keeps_members_run(1), of r p w x q w']
    steps_inD [OF keeps_members_run(2), of r p w x q w'] steps_inD [OF keeps_members_run(3), of r _ p w x q w']
    steps_inD [OF keeps_members_deactivate, of r p w x q w'] in auto)


text \<open>C17: A successful activation leaves the state ACTIVATED, no entity unscheduled, and has
  activated and scheduled all entities in the order of their kind (systems, routers, connections,
  network contexts, the rest), entities of a kind in the order in which they were added: the
  stable sort of the list by kind.\<close>
theorem activate_schedules_in_order:
  assumes act: "p_activate r (p, w) = Some (Inr u, q, w')"
    and once: "distinct (p_unscheduled p)" "length (p_unscheduled p) + length (p_scheduled p) \<le> kMaxEntities"
  shows "p_state p = ORIGIN \<and> p_state q = ACTIVATED \<and> p_unscheduled q = [] \<and>
    p_scheduled q = p_scheduled p @ sort_key (entity_rank r (snd (r_call r SystemTypeId w))) (p_unscheduled p)"
  using act
proof (cases rule: p_activate_cases)
  case (masked s1 p2 c s2)
  have "p_state (fst s2) = ORIGIN" using p_deactivate_state [OF masked(3)] by simp
  then show ?thesis using finish_activate_ORIGIN [OF masked(5) _ masked(4)] by auto
next
  case (finish c p2 w2)
  have l2: "p_unscheduled p2 = p_unscheduled p" "p_scheduled p2 = p_scheduled p"
    using finish(2) by (auto simp: only_groups_def members_def)
  from finish_activate_state [OF finish(4)] obtain s1 s2 s3 where
    i: "executor_initialize r (p2, w2) = (Inr (), s1)"
    and p: "each_until_error (\<lambda>e. do_call r (PopulateResources e)) (graph_entities c) s1 = (Inr (), s2)"
    and a: "each_until_error (GxfEntityActivate r) (activation_order c) s2 = (Inr (), s3)"
    and q: "q = (fst s3)\<lparr>p_state := ACTIVATED\<rparr>"
    by auto
  have s1: "fst s1 = p2" using i by (auto simp: executor_initialize_def)
  have s2: "fst s2 = p2"
    using steps_inD' [OF same_program.sin_each_until_error [OF same_program.sin_do_call] p] s1 by simp
  have "p_scheduled (fst s3) = p_scheduled p2 @ activation_order c \<and>
      p_unscheduled (fst s3) = filter (\<lambda>e. e \<notin> set (activation_order c)) (p_unscheduled p2)"
    using activate_all_ok [of r "activation_order c" s2 "()" "fst s3" "snd s3"] a once l2 finish(3) s2
    by (simp add: sort_key_simps distinct_sort)
  then show ?thesis using q finish(1,3) l2 by simp
qed auto

section \<open>The order of deactivation\<close>

text \<open>A log of the calls beside the state of the other components.\<close>

definition logged_run :: "'w Run \<Rightarrow> ('w \<times> pcall list) Run" where
  "logged_run r = \<lparr>
     r_call = (\<lambda>c (w, l). let (code, w1) = r_call r c w in (code, w1, l @ [c])),
     r_shared = (\<lambda>e (w, l). r_shared r e w),
     r_find = (\<lambda>k e (w, l). r_find r k e w)\<rparr>"

fun deinitialized :: "pcall list \<Rightarrow> gxf_uid_t list" where
  "deinitialized [] = []"
| "deinitialized (WardenDeinitialize e # l) = e # deinitialized l"
| "deinitialized (c # l) = deinitialized l"

lemma deinitialized_append: "deinitialized (l @ m) = deinitialized l @ deinitialized m"
  by (induction l rule: deinitialized.induct) auto

definition log_of :: "Program \<times> 'w \<times> pcall list \<Rightarrow> gxf_uid_t list" where
  "log_of s = deinitialized (snd (snd s))"

definition quiet :: "('w \<times> pcall list) pop \<Rightarrow> bool" where
  "quiet f \<longleftrightarrow> (\<forall>s. log_of (snd (f s)) = log_of s)"

lemma log_do_call: "log_of (snd (do_call (logged_run r) c s)) = log_of s @ deinitialized [c]"
  by (cases s) (auto simp: do_call_def logged_run_def log_of_def deinitialized_append split: prod.splits)

lemma quiet_do_call: "deinitialized [c] = [] \<Longrightarrow> quiet (do_call (logged_run r) c)"
  by (simp add: quiet_def log_do_call)

lemma quiet_then_do: "quiet f \<Longrightarrow> quiet g \<Longrightarrow> quiet (then_do f g)"
  by (auto simp: quiet_def then_do_def split: prod.splits sum.splits) (metis snd_conv)+

lemma quiet_each: "(\<And>a. quiet (f a)) \<Longrightarrow> quiet (each_until_error f as)"
  unfolding quiet_def using each_until_error_inv [where P = "\<lambda>s. log_of s = log_of t" for t] by metis

lemma quiet_on_handle: "(\<And>c. quiet (f c)) \<Longrightarrow> quiet (on_handle f h)"
  by (cases h) (auto simp: quiet_def on_handle_def)

lemma quiet_for_found: "(\<And>c. quiet (f c)) \<Longrightarrow> quiet (for_found (logged_run r) k e f)"
  using quiet_each [of "on_handle f"] quiet_on_handle [of f]
  by (auto simp: quiet_def for_found_def split: sum.splits)

lemma quiet_leave: "quiet (leave_scheduled (logged_run r) e)"
  using quiet_do_call [of "SystemUnschedule e" r]
  by (auto simp: quiet_def leave_scheduled_def log_of_def)

lemma quiet_drop: "quiet (drop_scheduler e)"
  by (auto simp: quiet_def drop_scheduler_def log_of_def)

lemma quiet_unschedule: "quiet (p_unscheduleEntity (logged_run r) e)"
proof -
  let ?r = "logged_run r"
  have "quiet (then_do (leave_scheduled ?r e)
      (then_do (for_found ?r KJobStatistics e (\<lambda>c. do_call ?r (RemoveStatistics c)))
      (then_do (for_found ?r KMonitor e (\<lambda>c. do_call ?r (RemoveMonitor c)))
      (then_do (drop_scheduler e)
      (then_do (do_call ?r (RemoveRoutes e))
      (then_do (for_found ?r KRouter e (\<lambda>c. do_call ?r (RemoveRouter c)))
      (for_found ?r KSystem e (\<lambda>c. do_call ?r (RemoveSystem c)))))))))"
    by (intro quiet_then_do quiet_for_found quiet_do_call quiet_leave quiet_drop) simp_all
  then show ?thesis by (auto simp: quiet_def p_unscheduleEntity_def split: sum.splits)
qed

lemma quietD: "quiet f \<Longrightarrow> f s = (x, s1) \<Longrightarrow> log_of s1 = log_of s"
  unfolding quiet_def by (metis snd_conv)

lemma log_deactivate_entity:
  assumes "GxfEntityDeactivate (logged_run r) e s = (Inr u, s')"
  shows "log_of s' = log_of s @ [e]"
proof -
  obtain s1 s2 where u: "p_unscheduleEntity (logged_run r) e s = (Inr (), s1)"
    and x: "do_call (logged_run r) (ExecutorDeactivate e) s1 = (Inr (), s2)"
    and d: "do_call (logged_run r) (WardenDeinitialize e) s2 = (Inr u, s')"
    using assms by (cases s) (auto simp: GxfEntityDeactivate_def then_do_Inr split: sum.splits)
  have "log_of s' = log_of s2 @ [e]" using log_do_call [of r "WardenDeinitialize e" s2] d by simp
  moreover have "log_of s2 = log_of s1" using log_do_call [of r "ExecutorDeactivate e" s1] x by simp
  ultimately show ?thesis using quietD [OF quiet_unschedule u] by simp
qed

lemma log_deactivate_each:
  assumes "each_until_error (GxfEntityDeactivate (logged_run r)) es s = (Inr u, s')"
  shows "log_of s' = log_of s @ es"
  using assms
proof (induction es arbitrary: s)
  case (Cons e es)
  then obtain v s1 where "GxfEntityDeactivate (logged_run r) e s = (Inr v, s1)"
    "each_until_error (GxfEntityDeactivate (logged_run r)) es s1 = (Inr u, s')"
    by (auto simp: each_until_error_Inr_Cons simp del: each_until_error.simps(2))
  with Cons.IH [of s1] log_deactivate_entity show ?case by fastforce
qed simp

text \<open>Deactivating entities that hold no scheduler keeps the list of schedulers.\<close>

definition keeps_schedulers :: "gxf_uid_t set \<Rightarrow> Program \<Rightarrow> Program \<Rightarrow> bool" where
  "keeps_schedulers E p q \<longleftrightarrow> (set (p_schedulers p) \<inter> E = {} \<longrightarrow> p_schedulers q = p_schedulers p)"

interpretation keeps_schedulers: program_relation "keeps_schedulers E" for E
  by unfold_locales (auto simp: keeps_schedulers_def)

lemma keeps_schedulers_each: "steps_in (keeps_schedulers (set es)) (each_until_error (GxfEntityDeactivate r) es)"
  by (intro keeps_schedulers.sin_each_until_error keeps_schedulers.sin_GxfEntityDeactivate)
    (auto simp: steps_in_def leave_scheduled_def keeps_schedulers_def intro!: removeAll_id)

text \<open>C18: A successful deactivation returns to the state ORIGIN and deinitialises every entity of
  the graph exactly once, in the reverse order of the unscheduled entities followed by the scheduled
  ones, and after all of them the entities that hold schedulers.\<close>
theorem deactivate_reverse_order:
  assumes "p_deactivate (logged_run r) (p, w, l) = (Inr u, q, w', l')" "p_state p \<noteq> ORIGIN"
  shows "p_state q = ORIGIN \<and> deinitialized l' = deinitialized l @
    rev (filter (\<lambda>e. e \<notin> set (p_schedulers p)) (p_unscheduled p @ p_scheduled p)) @ p_schedulers p"
proof -
  let ?r = "logged_run r" and ?p0 = "p\<lparr>p_state := DEINITALIZING\<rparr>"
  have g0: "graph_eids ?p0 = graph_eids p" by (simp add: graph_eids_def)
  obtain s1 s2 p2 where a: "deactivate_graph ?r (?p0, w, l) = (Inr (), s1)"
    and b: "deactivate_schedulers ?r s1 = (Inr (), s2)"
    and c: "release_groups ?r s2 = (p2, w', l')" and q: "q = p2\<lparr>p_state := ORIGIN\<rparr>"
    using assms by (auto simp: p_deactivate_def then_do_Inr split: sum.splits prod.splits)
  have ga: "each_until_error (GxfEntityDeactivate ?r) (rev (graph_eids p)) (?p0, w, l) = (Inr (), s1)"
    using a g0 by (auto simp: deactivate_graph_def split: if_splits)
  have gb: "each_until_error (GxfEntityDeactivate ?r) (p_schedulers (fst s1)) s1 = (Inr (), s2)"
    using b by (cases s1) (auto simp: deactivate_schedulers_def split: if_splits)
  have "p_schedulers (fst s1) = p_schedulers p"
    using steps_inD' [OF keeps_schedulers_each ga] by (auto simp: keeps_schedulers_def graph_eids_def)
  then have "log_of s2 = deinitialized l @ rev (graph_eids p) @ p_schedulers p"
    using log_deactivate_each [OF ga] log_deactivate_each [OF gb] by (simp add: log_of_def)
  moreover have "deinitialized l' = log_of s2"
    using c by (cases s2) (auto simp: release_groups_def logged_run_def log_of_def deinitialized_append split: prod.splits)
  ultimately show ?thesis using q by (simp add: graph_eids_def)
qed

section \<open>Failures\<close>

text \<open>After a deactivation that failed the program has forgotten all its entities and stays in
  the state DEINITALIZING: a new activation is refused with GXF_INVALID_EXECUTION_SEQUENCE.\<close>
theorem failed_deactivation_strands:
  assumes "p_deactivate r (p, w) = (Inl e, q, w')" "fst (r_call r SystemTypeId w') = GXF_SUCCESS"
  shows "p_state q = DEINITALIZING \<and> p_unscheduled q @ p_scheduled q = [] \<and>
    (\<exists>w2. p_activate r (q, w') = Some (Inl GXF_INVALID_EXECUTION_SEQUENCE, q, w2))"
  using p_deactivate_state [OF assms(1)] assms(2)
  by (auto simp: p_activate_def members_def split: prod.splits)

text \<open>When the route of an entity cannot be added and the deactivation that follows succeeds,
  the loop reports success and the activation goes on, now in the state ORIGIN.  It then initialises
  the first entity of the order, fails with GXF_INVALID_LIFECYCLE_STAGE instead of the error of the
  route, and leaves that entity initialised, since the deactivation does nothing in this state.\<close>
theorem route_error_is_masked:
  assumes fail: "do_call (logged_run r) (AddRoutes a) s = (Inl err, s1)"
    and deact: "p_deactivate (logged_run r) s1 = (Inr (), s2)"
    and order: "activation_order c = e # rest"
    and calls: "\<And>k w. k \<in> {WardenInitialize e, ExecutorActivate e} \<union> range PopulateResources \<Longrightarrow>
      fst (r_call r k w) = GXF_SUCCESS"
    and shared: "\<And>x w. r_shared r x w = Inr ()"
  shows "p_addRoutes (logged_run r) (a # as) s = Some (Inr (), s2) \<and> p_state (fst s2) = ORIGIN \<and>
    (\<exists>w' l'. finish_activate (logged_run r) c s2 = (Inl GXF_INVALID_LIFECYCLE_STAGE, fst s2, w', l') \<and>
       WardenInitialize e \<in> set l' \<and> deinitialized l' = log_of s2)"
proof -
  let ?r = "logged_run r"
  have o: "p_state (fst s2) = ORIGIN" using p_deactivate_state [OF deact] by simp
  have call: "\<exists>w1. do_call ?r k (p, w, l) = (Inr (), p, w1, l @ [k])"
    if "k \<in> {WardenInitialize e, ExecutorActivate e} \<union> range PopulateResources" for k p w l
    using calls [OF that, of w]
    by (auto simp: do_call_def logged_run_def ExpectedOrCode_def split: prod.splits)
  have pre: "\<exists>w1 l1. preActivateEntities ?r es (p, w, l) = (Inr (), p, w1, l1) \<and> deinitialized l1 = deinitialized l"
    for es p w l
  proof (induction es arbitrary: w l)
    case (Cons x es)
    obtain w1 where c: "do_call ?r (PopulateResources x) (p, w, l) = (Inr (), p, w1, l @ [PopulateResources x])"
      using call by blast
    obtain w2 l2 where "preActivateEntities ?r es (p, w1, l @ [PopulateResources x]) = (Inr (), p, w2, l2)"
      "deinitialized l2 = deinitialized (l @ [PopulateResources x])"
      using Cons.IH by blast
    then show ?case using c by (auto simp: preActivateEntities_def or_deactivate_def deinitialized_append)
  qed (simp add: preActivateEntities_def)
  obtain p w l where s2: "s2 = (p, w, l)" by (metis prod_cases3)
  have "executor_initialize ?r s2 = (Inr (), p, snd (r_call r ExecutorInitialize w), l @ [ExecutorInitialize])"
    by (simp add: s2 executor_initialize_def logged_run_def split: prod.splits)
  then obtain w1 l1 where i: "executor_initialize ?r s2 = (Inr (), p, w1, l1)" "deinitialized l1 = deinitialized l"
    by (auto simp: deinitialized_append)
  obtain w2 l2 where p: "preActivateEntities ?r (graph_entities c) (p, w1, l1) = (Inr (), p, w2, l2)"
    "deinitialized l2 = deinitialized l1" using pre by blast
  obtain w3 where c3: "do_call ?r (WardenInitialize e) (p, w2, l2) = (Inr (), p, w3, l2 @ [WardenInitialize e])"
    using call by blast
  obtain w4 where c4: "do_call ?r (ExecutorActivate e) (p, w3, l2 @ [WardenInitialize e]) =
      (Inr (), p, w4, l2 @ [WardenInitialize e, ExecutorActivate e])"
    using call [of "ExecutorActivate e" p w3 "l2 @ [WardenInitialize e]"] by auto
  have sh: "r_shared ?r x v = Inr ()" for x v by (cases v) (simp add: logged_run_def shared)
  have "GxfEntityActivate ?r e (p, w2, l2) =
      (Inl GXF_INVALID_LIFECYCLE_STAGE, p, w4, l2 @ [WardenInitialize e, ExecutorActivate e])"
    using c3 c4 sh o s2 by (simp add: GxfEntityActivate_def then_do_def p_scheduleEntity_def)
  then have "finish_activate ?r c s2 =
      (Inl GXF_INVALID_LIFECYCLE_STAGE, p, w4, l2 @ [WardenInitialize e, ExecutorActivate e])"
    using i(1) p(1) o s2 order
    by (simp add: finish_activate_def activate_sorted_order activateEntities_def then_do_def or_deactivate_def p_deactivate_def)
  moreover have "p_addRoutes ?r (a # as) s = Some (Inr (), s2)" using fail deact sh by simp
  ultimately show ?thesis using o p(2) i(2) s2 by (simp add: log_of_def deinitialized_append)
qed

text \<open>Scheduling erases an entity from the list of unscheduled entities before the steps that can
  fail.  When one of them fails the entity is in neither list: no later deactivation of the graph
  reaches it, although the runtime has initialised and activated it before.\<close>
theorem failed_schedule_loses_entity:
  assumes "p_state p \<noteq> ORIGIN" "r_shared r e w = Inr ()" "e \<in> set (p_unscheduled p)" "program_inv p"
    and "before_entering r e (p\<lparr>p_unscheduled := remove1 e (p_unscheduled p)\<rparr>, w) = (Inl err, q, w')"
  shows "p_scheduleEntity r e (p, w) = (Inl err, q, w') \<and> e \<notin> set (members q) \<and> e \<notin> set (graph_eids q)"
proof -
  have "same_lists (p\<lparr>p_unscheduled := remove1 e (p_unscheduled p)\<rparr>) q"
    by (rule steps_inD [OF same_lists_before assms(5)])
  then have "members q = remove1 e (p_unscheduled p) @ p_scheduled p" by (simp add: same_lists_def members_def)
  moreover have "distinct (p_unscheduled p)" "e \<notin> set (p_scheduled p)"
    using assms(3,4) by (auto simp: program_inv_def members_def)
  ultimately have "e \<notin> set (members q)" by simp
  then show ?thesis using assms(1,2,3,5)
    by (simp add: p_scheduleEntity_def schedule_steps_split then_do_def graph_eids_def members_def)
qed

section \<open>Examples\<close>

text \<open>Entity 1 is a plain one, entity 2 holds a system that is a scheduler, entity 3 a router; the
  calls in the set bad fail.\<close>

definition demo_run :: "pcall list \<Rightarrow> unit Run" where
  "demo_run bad = \<lparr>
     r_call = (\<lambda>c w. (if c \<in> set bad then GXF_FAILURE else GXF_SUCCESS, w)),
     r_shared = (\<lambda>e w. Success),
     r_find = (\<lambda>k e w. Inr (if (k, e) \<in> {(KSystem, 2), (KScheduler, 2), (KRouter, 3)} then [Inr (10 * e)] else []))\<rparr>"

definition demo_program :: Program where
  "demo_program = \<lparr>p_state = ORIGIN, p_groups = False, p_system_group = False,
     p_unscheduled = [1, 2, 3], p_scheduled = [], p_schedulers = []\<rparr>"

definition demo_active :: Program where
  "demo_active = \<lparr>p_state = ACTIVATED, p_groups = True, p_system_group = True,
     p_unscheduled = [], p_scheduled = [2, 3, 1], p_schedulers = [2]\<rparr>"

lemmas demo_simps = demo_run_def demo_program_def demo_active_def p_activate_def sort_entity_def push_sorted_def
  no_entities_def kMaxEntities_def create_groups_def set_group_def then_do_def do_call_def ExpectedOrCode_def
  add_entity_routers_def for_found_def on_handle_def finish_activate_def executor_initialize_def
  preActivateEntities_def or_deactivate_def activate_sorted_def activateEntities_def GxfEntityActivate_def
  p_scheduleEntity_def schedule_steps_def offer_executor_def keep_scheduler_def enter_scheduled_def
  register_services_def push_eid_def become_activated_def

lemma demo_activate: "p_activate (demo_run []) (demo_program, ()) = Some (Inr (), demo_active, ())"
  by (simp add: demo_simps)


lemma demo_reach: "p_reach (demo_run []) (demo_active, ())"
proof -
  let ?r = "demo_run []"
  let ?p = "\<lambda>us. \<lparr>p_state = ORIGIN, p_groups = False, p_system_group = False,
    p_unscheduled = us, p_scheduled = [], p_schedulers = []\<rparr>"
  have add: "p_reach ?r (?p (us @ [e]), ())" if "p_reach ?r (?p us, ())" "e \<notin> set us" "length us < 3" for us e
    by (rule p_reach.step [OF that(1), of "OpAddEntity e" "Inr ()"])
      (use that in \<open>auto simp: may_exec_def members_def p_addEntity_def demo_run_def push_eid_def kMaxEntities_def\<close>)
  have "p_reach ?r (?p [], ())" using p_reach.start [of ?r "()"] by (simp add: p_create_def)
  from add [OF this, of 1] have "p_reach ?r (?p [1], ())" by simp
  from add [OF this, of 2] have "p_reach ?r (?p [1, 2], ())" by simp
  from add [OF this, of 3] have "p_reach ?r (demo_program, ())" by (simp add: demo_program_def)
  from p_reach.step [OF this, of OpActivate "Inr ()" "(demo_active, ())"] show ?thesis
    by (simp add: may_exec_def demo_activate)
qed


theorem activate_schedules_in_order_witness:
  "p_scheduled demo_active = sort_key (entity_rank (demo_run []) ()) [1, 2, 3]"
  using activate_schedules_in_order [OF demo_activate]
  by (simp add: demo_program_def kMaxEntities_def)

lemmas demo_deactivate_simps = p_deactivate_def deactivate_graph_def deactivate_schedulers_def graph_eids_def
  GxfEntityDeactivate_def p_unscheduleEntity_def leave_scheduled_def drop_scheduler_def release_groups_def
  logged_run_def resetProgram_def

lemma demo_deactivate: "\<exists>q l. p_deactivate (logged_run (demo_run [])) (demo_active, (), []) = (Inr (), q, (), l)"
  by (simp add: demo_simps demo_deactivate_simps)

theorem deactivate_reverse_order_witness:
  "\<exists>q l. p_deactivate (logged_run (demo_run [])) (demo_active, (), []) = (Inr (), q, (), l) \<and>
     deinitialized l = [1, 3, 2]"
proof -
  obtain q l where d: "p_deactivate (logged_run (demo_run [])) (demo_active, (), []) = (Inr (), q, (), l)"
    using demo_deactivate by blast
  from deactivate_reverse_order [OF d] have "deinitialized l = [1, 3, 2]" by (simp add: demo_active_def)
  with d show ?thesis by blast
qed

theorem failed_deactivation_strands_witness:
  "\<exists>q w2. p_deactivate (demo_run [RemoveRoutes 1]) (demo_active, ()) = (Inl GXF_FAILURE, q, ()) \<and>
     p_activate (demo_run [RemoveRoutes 1]) (q, ()) = Some (Inl GXF_INVALID_EXECUTION_SEQUENCE, q, w2)"
proof -
  have "\<exists>q. p_deactivate (demo_run [RemoveRoutes 1]) (demo_active, ()) = (Inl GXF_FAILURE, q, ())"
    by (simp add: demo_simps demo_deactivate_simps)
  then obtain q where d: "p_deactivate (demo_run [RemoveRoutes 1]) (demo_active, ()) = (Inl GXF_FAILURE, q, ())" ..
  from failed_deactivation_strands [OF d] d show ?thesis by (auto simp: demo_run_def)
qed

definition demo_activating :: Program where
  "demo_activating = \<lparr>p_state = ACTIVATING, p_groups = True, p_system_group = True,
     p_unscheduled = [1], p_scheduled = [], p_schedulers = []\<rparr>"

theorem route_error_is_masked_witness:
  "\<exists>s2. p_addRoutes (logged_run (demo_run [AddRoutes 1])) [1] (demo_activating, (), []) = Some (Inr (), s2) \<and>
     fst (finish_activate (logged_run (demo_run [AddRoutes 1])) (no_entities\<lparr>graph_entities := [1]\<rparr>) s2)
       = Inl GXF_INVALID_LIFECYCLE_STAGE"
proof -
  let ?r = "demo_run [AddRoutes 1]"
  have f: "do_call (logged_run ?r) (AddRoutes 1) (demo_activating, (), []) =
      (Inl GXF_FAILURE, demo_activating, (), [AddRoutes 1])"
    by (simp add: do_call_def logged_run_def demo_run_def ExpectedOrCode_def)
  have "\<exists>s2. p_deactivate (logged_run ?r) (demo_activating, (), [AddRoutes 1]) = (Inr (), s2)"
    by (simp add: demo_activating_def demo_simps demo_deactivate_simps)
  then obtain s2 where d: "p_deactivate (logged_run ?r) (demo_activating, (), [AddRoutes 1]) = (Inr (), s2)" ..
  have o: "activation_order (no_entities\<lparr>graph_entities := [1]\<rparr>) = 1 # []"
    by (simp add: activation_order_def no_entities_def)
  have calls: "fst (r_call ?r k w) = GXF_SUCCESS" if "k \<in> {WardenInitialize 1, ExecutorActivate 1} \<union> range PopulateResources" for k w
    using that by (auto simp: demo_run_def)
  have "r_shared ?r x w = Inr ()" for x w by (simp add: demo_run_def)
  from route_error_is_masked [OF f d o calls this, of "[]"] show ?thesis by (metis fst_conv)
qed

theorem failed_schedule_loses_entity_witness:
  "\<exists>q. p_scheduleEntity (demo_run [AddSystem 20]) 2 (demo_program\<lparr>p_state := ACTIVATING\<rparr>, ()) = (Inl GXF_FAILURE, q, ()) \<and>
     2 \<notin> set (graph_eids q)"
proof -
  let ?r = "demo_run [AddSystem 20]" and ?p = "demo_program\<lparr>p_state := ACTIVATING\<rparr>"
  have b: "before_entering ?r 2 (?p\<lparr>p_unscheduled := remove1 2 (p_unscheduled ?p)\<rparr>, ()) =
      (Inl GXF_FAILURE, ?p\<lparr>p_unscheduled := [1, 3]\<rparr>, ())"
    by (simp add: before_entering_def demo_simps)
  have "program_inv ?p" by (simp add: program_inv_def members_def demo_program_def kMaxEntities_def)
  from failed_schedule_loses_entity [OF _ _ _ this b] show ?thesis by (auto simp: demo_simps)
qed

end
