(* ===== verification/Tensor_Layout.thy ===== *)
theory Tensor_Layout
  imports Prelude "HOL-Library.Multiset"
begin

text \<open>
  Shapes, strides and element types of gxf/std/tensor.hpp and tensor.cpp.  Dimensions are 32-bit
  signed integers and are kept as int, strides and sizes are 64-bit words.  A shape is the list of
  its dimensions; the entries of the stride array behind the rank are never read and are left out.
  None as a result is an access outside of an array or the abort of the process.
\<close>

section \<open>Element types\<close>

datatype PrimitiveType =
    kCustom | kInt8 | kUnsigned8 | kInt16 | kUnsigned16 | kInt32 | kUnsigned32 | kInt64
  | kUnsigned64 | kFloat32 | kFloat64 | kComplex64 | kComplex128 | kFloat16

definition PrimitiveTypeSize :: "PrimitiveType \<Rightarrow> uint64" where
  "PrimitiveTypeSize p = (case p of
     kInt8 \<Rightarrow> 1 | kUnsigned8 \<Rightarrow> 1 | kInt16 \<Rightarrow> 2 | kUnsigned16 \<Rightarrow> 2 | kInt32 \<Rightarrow> 4 | kUnsigned32 \<Rightarrow> 4
   | kInt64 \<Rightarrow> 8 | kUnsigned64 \<Rightarrow> 8 | kFloat16 \<Rightarrow> 2 | kFloat32 \<Rightarrow> 4 | kFloat64 \<Rightarrow> 8
   | kComplex64 \<Rightarrow> 8 | kComplex128 \<Rightarrow> 16 | kCustom \<Rightarrow> 0)"

section \<open>Shapes\<close>

type_synonym Shape = "int list"

definition kMaxRank :: nat where "kMaxRank = 8"

text \<open>The conversions of the code from int32_t to uint64_t, and from wider integers to int32_t.\<close>

definition u64_of :: "int \<Rightarrow> uint64" where "u64_of d = word_of_int d"
definition to_i32 :: "int \<Rightarrow> int" where "to_i32 x = sint (word_of_int x :: 32 word)"

definition mk_shape :: "int list \<Rightarrow> Shape" where "mk_shape dims = take kMaxRank dims"

definition shape_size :: "Shape \<Rightarrow> uint64" where
  "shape_size sh = (if length sh = 0 then 0 else foldl (\<lambda>c d. c * u64_of d) 1 sh)"

definition dimension :: "Shape \<Rightarrow> nat \<Rightarrow> int" where
  "dimension sh index = (if length sh = 0 then 0 else if index \<ge> length sh then 1 else sh ! index)"

definition shape_equal :: "Shape \<Rightarrow> Shape \<Rightarrow> bool" where
  "shape_equal a b = (length a = length b \<and> list_all (\<lambda>(x, y). x = y) (zip a b))"

definition shape_valid :: "Shape \<Rightarrow> bool" where
  "shape_valid sh = list_all (\<lambda>d. \<not> d \<le> 0) sh"

section \<open>Strides\<close>

definition kTrivialStrideSteps :: "uint64 list" where
  "kTrivialStrideSteps = [1, 1, 1, 1, 1, 1, 1, 1]"

text \<open>The loop of ComputeStrides from the last dimension to the first; a step of 0, which divides
  by zero in the code, is outside of the model.\<close>

fun stride_loop :: "int list \<Rightarrow> uint64 list \<Rightarrow> uint64 list" where
  "stride_loop [] steps = []"
| "stride_loop [d] steps = [hd steps]"
| "stride_loop (d # dl # ds) steps =
     (let lower = stride_loop (dl # ds) (tl steps); rank_step = hd steps
      in (hd lower * u64_of dl + rank_step - 1) div rank_step * rank_step # lower)"

definition ComputeStrides :: "Shape \<Rightarrow> uint64 list \<Rightarrow> uint64 list" where
  "ComputeStrides sh stride_steps = stride_loop sh stride_steps"

text \<open>bytes_per_element is narrowed to 32 bits.\<close>

definition ComputeTrivialStrides :: "Shape \<Rightarrow> uint64 \<Rightarrow> uint64 list" where
  "ComputeTrivialStrides sh bytes_per_element =
     (if length sh = 0 then []
      else ComputeStrides sh (kTrivialStrideSteps[length sh - 1 := take_bit 32 bytes_per_element]))"

definition ComputeRowStrides :: "Shape \<Rightarrow> uint64 \<Rightarrow> uint64 \<Rightarrow> uint64 list expected" where
  "ComputeRowStrides sh row_step_size bytes_per_element =
     (if length sh < 3 \<or> row_step_size = 0 then Inl GXF_ARGUMENT_INVALID
      else Inr (ComputeStrides sh
        ((kTrivialStrideSteps[length sh - 3 := row_step_size])[length sh - 1 := bytes_per_element])))"

section \<open>Tensors\<close>

record Tensor =
  t_shape :: Shape
  t_element_count :: uint64
  t_element_type :: PrimitiveType
  t_bytes_per_element :: uint64
  t_strides :: "uint64 list"

definition t_stride :: "Tensor \<Rightarrow> nat \<Rightarrow> uint64" where
  "t_stride t index = (if index \<ge> length (t_shape t) then 0 else t_strides t ! index)"

definition t_bytes_size :: "Tensor \<Rightarrow> uint64" where
  "t_bytes_size t = u64_of (dimension (t_shape t) 0) * t_strides t ! 0"

text \<open>The layout part of reshapeCustom, wrapMemory and wrapMemoryBuffer.\<close>

definition t_set_layout ::
  "Shape \<Rightarrow> PrimitiveType \<Rightarrow> uint64 \<Rightarrow> uint64 list expected \<Rightarrow> Tensor \<Rightarrow> Tensor" where
  "t_set_layout sh element_type bytes_per_element strides t =
     t\<lparr>t_shape := sh, t_element_count := shape_size sh, t_element_type := element_type,
       t_bytes_per_element := bytes_per_element,
       t_strides := (case strides of Inr s \<Rightarrow> s | Inl _ \<Rightarrow> ComputeTrivialStrides sh bytes_per_element)\<rparr>"

text \<open>permute only logs an axis that is out of range or listed twice; the former then indexes outside
  of the arrays.\<close>

definition permute :: "int list \<Rightarrow> Tensor \<Rightarrow> (unit expected \<times> Tensor) option" where
  "permute axes t =
     (let rank = length (t_shape t) in
      if rank < 2 then Some (Inl GXF_INVALID_DATA_FORMAT, t)
      else if rank \<noteq> length axes then Some (Inl GXF_INVALID_DATA_FORMAT, t)
      else if list_ex (\<lambda>a. a < 0 \<or> int rank \<le> a) axes then None
      else Some (Success, t\<lparr>t_shape := mk_shape (map (\<lambda>a. dimension (t_shape t) (nat a)) axes),
                           t_strides := map (\<lambda>a. t_stride t (nat a)) axes\<rparr>))"

definition insertSingletonDim :: "nat \<Rightarrow> Tensor \<Rightarrow> (unit expected \<times> Tensor) option" where
  "insertSingletonDim k t =
     (let rank = length (t_shape t) in
      if k > rank then Some (Inl GXF_INVALID_DATA_FORMAT, t)
      else if rank + 1 > kMaxRank then None
      else let dims = map (dimension (t_shape t)) [0..<rank]; strides = map (t_stride t) [0..<rank];
               s = (if k < rank then u64_of (dims ! k) * strides ! k else 4)
           in Some (Success, t\<lparr>t_shape := mk_shape (list_insert_at k 1 dims),
                              t_strides := list_insert_at k s strides\<rparr>))"

fun contiguous_loop :: "uint64 \<Rightarrow> (uint64 \<times> uint64) list \<Rightarrow> bool" where
  "contiguous_loop x [] = True"
| "contiguous_loop x ((s, d) # sds) = (if s \<noteq> x then False else contiguous_loop (x * d) sds)"

definition isContiguous :: "Tensor \<Rightarrow> bool" where
  "isContiguous t = contiguous_loop (t_bytes_per_element t)
     (rev (map (\<lambda>i. (t_stride t i, u64_of (dimension (t_shape t) i))) [0..<length (t_shape t)]))"

section \<open>noCopyReshape\<close>

text \<open>The inner loop multiplies the smaller of the two products by its next dimension.\<close>

function match_dims ::
  "int list \<Rightarrow> int list \<Rightarrow> uint64 \<Rightarrow> uint64 \<Rightarrow> nat \<Rightarrow> nat \<Rightarrow> (nat \<times> nat) option" where
  "match_dims new_dims old_dims nd od nj oj =
     (if nd = od then Some (nj, oj)
      else if nd < od
      then (if nj < length new_dims then match_dims new_dims old_dims (nd * u64_of (new_dims ! nj)) od (nj + 1) oj
            else None)
      else (if oj < length old_dims then match_dims new_dims old_dims nd (od * u64_of (old_dims ! oj)) nj (oj + 1)
            else None))"
  by pat_completeness auto
termination
  by (relation "measure (\<lambda>(new, old, nd, od, nj, oj). (length new - nj) + (length old - oj))") auto

declare match_dims.simps [simp del]

lemma match_dims_ge:
  "match_dims new_dims old_dims nd od nj oj = Some (nj', oj') \<Longrightarrow> nj \<le> nj' \<and> oj \<le> oj'"
proof (induction new_dims old_dims nd od nj oj rule: match_dims.induct)
  case (1 new_dims old_dims nd od nj oj)
  show ?case using 1(3) 1(1,2)
    by (subst (asm) match_dims.simps) (auto split: if_splits dest: Suc_leD)
qed

definition combinable :: "int list \<Rightarrow> uint64 list \<Rightarrow> nat \<Rightarrow> nat \<Rightarrow> bool" where
  "combinable old_dims old_strides oi oj =
     list_all (\<lambda>ok. old_strides ! ok = u64_of (old_dims ! (ok + 1)) * old_strides ! (ok + 1)) [oi..<oj - 1]"

text \<open>for (nk = nj - 1; nk > ni; nk--)\<close>

fun fill_strides :: "int list \<Rightarrow> nat \<Rightarrow> nat \<Rightarrow> uint64 list \<Rightarrow> uint64 list" where
  "fill_strides new_dims ni 0 ns = ns"
| "fill_strides new_dims ni (Suc nk) ns =
     (if Suc nk > ni then fill_strides new_dims ni nk (ns[nk := ns ! Suc nk * u64_of (new_dims ! Suc nk)]) else ns)"

text \<open>The outer loop; nj = ni + 1 and oj = oi + 1 at its head.\<close>

function reshape_loop ::
  "int list \<Rightarrow> int list \<Rightarrow> uint64 list \<Rightarrow> nat \<Rightarrow> nat \<Rightarrow> nat \<Rightarrow> uint64 list \<Rightarrow> (nat \<times> uint64 list) expected option"
where
  "reshape_loop new_dims old_dims old_strides squeezed ni oi ns =
     (if ni < length new_dims \<and> oi < squeezed
      then (case match_dims new_dims old_dims (u64_of (new_dims ! ni)) (u64_of (old_dims ! oi)) (ni + 1) (oi + 1) of
              None \<Rightarrow> None
            | Some (nj, oj) \<Rightarrow>
                (if \<not> combinable old_dims old_strides oi oj then Some (Inl GXF_ARGUMENT_NULL)
                 else reshape_loop new_dims old_dims old_strides squeezed nj oj
                        (fill_strides new_dims ni (nj - 1) (ns[nj - 1 := old_strides ! (oj - 1)]))))
      else Some (Inr (ni, ns)))"
  by pat_completeness auto
termination
  by (relation "measure (\<lambda>(new, old, os, sq, ni, oi, ns). length new - ni)")
    (auto dest: match_dims_ge)

declare reshape_loop.simps [simp del]

definition squeeze :: "Shape \<Rightarrow> (int \<times> uint64) list \<Rightarrow> (int \<times> uint64) list" where
  "squeeze sh = filter (\<lambda>(d, s). d \<noteq> 1)"

definition noCopyReshape :: "int list \<Rightarrow> Tensor \<Rightarrow> (unit expected \<times> Tensor) option" where
  "noCopyReshape new_dims t =
     (let numel_new_shape = foldl (\<lambda>c d. to_i32 (c * d)) 1 new_dims in
      if to_i32 (uint (t_element_count t)) \<noteq> numel_new_shape then Some (Inl GXF_INVALID_DATA_FORMAT, t)
      else let rank = length (t_shape t);
               kept = squeeze (t_shape t) (map (\<lambda>i. (dimension (t_shape t) i, t_stride t i)) [0..<rank]);
               old_dims = map fst kept @ replicate (rank - length kept) 0;
               old_strides = map snd kept @ replicate (kMaxRank - length kept) 1
           in case reshape_loop new_dims old_dims old_strides (length kept) 0 0 (replicate (length new_dims) 0) of
                None \<Rightarrow> None
              | Some (Inl e) \<Rightarrow> Some (Inl e, t)
              | Some (Inr (ni, ns)) \<Rightarrow>
                  (let last_stride = (if ni \<ge> 1 then ns ! (ni - 1) else t_bytes_per_element t);
                       ns1 = take ni ns @ replicate (length new_dims - ni) last_stride
                   in if length new_dims > kMaxRank then None
                      else Some (Success, t\<lparr>t_shape := mk_shape new_dims, t_strides := ns1\<rparr>)))"

section \<open>DLPack\<close>

datatype DLDataTypeCode = kDLInt | kDLUInt | kDLFloat | kDLOpaqueHandle | kDLComplex | kDLOther

record DLDataType =
  dt_code :: DLDataTypeCode
  dt_bits :: "8 word"
  dt_lanes :: "16 word"

datatype DLDeviceType = kDLCPU | kDLCUDA | kDLCUDAHost | kDLOtherDevice
datatype MemoryStorageType = kHost | kDevice | kSystem

record DLTensor =
  dl_shape :: "int list"
  dl_strides :: "int list option"
  dl_dtype :: DLDataType
  dl_device :: DLDeviceType

definition ShapeFromDLTensor :: "DLTensor \<Rightarrow> Shape expected" where
  "ShapeFromDLTensor d =
     (if length (dl_shape d) > kMaxRank then Inl GXF_INVALID_DATA_FORMAT else Inr (map to_i32 (dl_shape d)))"

definition StridesFromDLTensor :: "DLTensor \<Rightarrow> uint64 list expected" where
  "StridesFromDLTensor d =
     (let bytes_per_element = unat (dt_bits (dl_dtype d)) div 8 in
      case dl_strides d of
        None \<Rightarrow> (case ShapeFromDLTensor d of Inl e \<Rightarrow> Inl e
                | Inr sh \<Rightarrow> Inr (ComputeTrivialStrides sh (of_nat bytes_per_element)))
      | Some strides \<Rightarrow>
          (if length (dl_shape d) > kMaxRank then Inl GXF_INVALID_DATA_FORMAT
           else Inr (map (\<lambda>s. word_of_int (s * int bytes_per_element)) strides)))"

definition MemoryStorageTypeFromDLTensor :: "DLDeviceType \<Rightarrow> MemoryStorageType expected" where
  "MemoryStorageTypeFromDLTensor device_type = (case device_type of
     kDLCUDAHost \<Rightarrow> Inr kHost | kDLCUDA \<Rightarrow> Inr kDevice | kDLCPU \<Rightarrow> Inr kSystem
   | kDLOtherDevice \<Rightarrow> Inl GXF_INVALID_DATA_FORMAT)"

definition PrimitiveTypeFromDLDataType :: "DLDataType \<Rightarrow> PrimitiveType expected" where
  "PrimitiveTypeFromDLDataType dtype = (case dt_code dtype of
     kDLInt \<Rightarrow>
       (if dt_bits dtype = 8 then Inr kInt8 else if dt_bits dtype = 16 then Inr kInt16
        else if dt_bits dtype = 32 then Inr kInt32 else if dt_bits dtype = 64 then Inr kInt64
        else Inl GXF_INVALID_DATA_FORMAT)
   | kDLUInt \<Rightarrow>
       (if dt_bits dtype = 8 then Inr kUnsigned8 else if dt_bits dtype = 16 then Inr kUnsigned16
        else if dt_bits dtype = 32 then Inr kUnsigned32 else if dt_bits dtype = 64 then Inr kUnsigned64
        else Inl GXF_INVALID_DATA_FORMAT)
   | kDLFloat \<Rightarrow>
       (if dt_bits dtype = 16 then Inr kFloat16 else if dt_bits dtype = 32 then Inr kFloat32
        else if dt_bits dtype = 64 then Inr kFloat64 else Inl GXF_INVALID_DATA_FORMAT)
   | kDLComplex \<Rightarrow>
       (if dt_bits dtype = 64 then Inr kComplex64 else if dt_bits dtype = 128 then Inr kComplex128
        else Inl GXF_INVALID_DATA_FORMAT)
   | kDLOpaqueHandle \<Rightarrow> Inr kCustom
   | kDLOther \<Rightarrow> Inl GXF_INVALID_DATA_FORMAT)"

definition PrimitiveTypeToDLDataType :: "PrimitiveType \<Rightarrow> 16 word \<Rightarrow> DLDataType expected" where
  "PrimitiveTypeToDLDataType element_type lanes =
     (if lanes < 1 then Inl GXF_INVALID_DATA_FORMAT
      else let code = (case element_type of
             kInt8 \<Rightarrow> kDLInt | kInt16 \<Rightarrow> kDLInt | kInt32 \<Rightarrow> kDLInt | kInt64 \<Rightarrow> kDLInt
           | kUnsigned8 \<Rightarrow> kDLUInt | kUnsigned16 \<Rightarrow> kDLUInt | kUnsigned32 \<Rightarrow> kDLUInt | kUnsigned64 \<Rightarrow> kDLUInt
           | kFloat16 \<Rightarrow> kDLFloat | kFloat32 \<Rightarrow> kDLFloat | kFloat64 \<Rightarrow> kDLFloat
           | kComplex64 \<Rightarrow> kDLComplex | kComplex128 \<Rightarrow> kDLComplex | kCustom \<Rightarrow> kDLOpaqueHandle)
      in Inr \<lparr>dt_code = code, dt_bits = ucast (PrimitiveTypeSize element_type * 8), dt_lanes = lanes\<rparr>)"

text \<open>The DLTensor that initializeDLContext fills in; None when the conversion of the type fails and
  the missing value is read, or when a size of 0 divides.\<close>

definition t_lanes :: "Tensor \<Rightarrow> 16 word" where
  "t_lanes t =
     ucast (t_bytes_per_element t div
       (if t_element_type t = kCustom then t_bytes_per_element t else PrimitiveTypeSize (t_element_type t)))"

text \<open>The device of pinned and device memory is asked from the pointer.\<close>

definition t_device :: "MemoryStorageType \<Rightarrow> DLDeviceType expected \<Rightarrow> DLDeviceType expected" where
  "t_device storage from_pointer = (case storage of kSystem \<Rightarrow> Inr kDLCPU | kHost \<Rightarrow> from_pointer | kDevice \<Rightarrow> from_pointer)"

definition initializeDLContext :: "DLDeviceType expected \<Rightarrow> Tensor \<Rightarrow> DLTensor option" where
  "initializeDLContext device t =
     (if t_bytes_per_element t = 0 then None
      else case (PrimitiveTypeToDLDataType (t_element_type t) (t_lanes t), device) of
        (Inr dtype, Inr dev) \<Rightarrow> Some
          \<lparr>dl_shape = map (dimension (t_shape t)) [0..<length (t_shape t)],
           dl_strides = Some (map (\<lambda>i. sint (t_stride t i div t_bytes_per_element t)) [0..<length (t_shape t)]),
           dl_dtype = dtype, dl_device = dev\<rparr>
      | _ \<Rightarrow> None)"

text \<open>wrapDLPack, without the memory.\<close>

definition wrapDLPack :: "DLTensor \<Rightarrow> Tensor \<Rightarrow> unit expected \<times> Tensor" where
  "wrapDLPack d t = (case ShapeFromDLTensor d of Inl e \<Rightarrow> (Inl e, t) | Inr sh \<Rightarrow>
     (case StridesFromDLTensor d of Inl e \<Rightarrow> (Inl e, t) | Inr strides \<Rightarrow>
     (case MemoryStorageTypeFromDLTensor (dl_device d) of Inl e \<Rightarrow> (Inl e, t) | Inr storage \<Rightarrow>
     (case PrimitiveTypeFromDLDataType (dl_dtype d) of Inl e \<Rightarrow> (Inl e, t) | Inr element_type \<Rightarrow>
       (Success, t_set_layout sh element_type
          (ucast (dt_lanes (dl_dtype d)) * PrimitiveTypeSize element_type) (Inr strides) t)))))"

section \<open>The elements of a tensor lie in its memory and do not overlap\<close>

text \<open>The strides as natural numbers, and the condition that the words do not overflow.\<close>

definition round_up :: "nat \<Rightarrow> nat \<Rightarrow> nat" where
  "round_up n step = (n + step - 1) div step * step"

fun nat_strides :: "nat list \<Rightarrow> nat list \<Rightarrow> nat list" where
  "nat_strides [] steps = []"
| "nat_strides [d] steps = [hd steps]"
| "nat_strides (d # dl # ds) steps =
     (let lower = nat_strides (dl # ds) (tl steps) in round_up (hd lower * dl) (hd steps) # lower)"

fun strides_fit :: "nat list \<Rightarrow> nat list \<Rightarrow> bool" where
  "strides_fit [] steps = True"
| "strides_fit [d] steps = True"
| "strides_fit (d # dl # ds) steps =
     (hd (nat_strides (dl # ds) (tl steps)) * dl + hd steps < 2 ^ 64 \<and> strides_fit (dl # ds) (tl steps))"

definition offset :: "nat list \<Rightarrow> nat list \<Rightarrow> nat" where
  "offset strides idx = sum_list (map2 (*) strides idx)"

lemma offset_Cons [simp]: "offset (s # ss) (i # ix) = s * i + offset ss ix"
  by (simp add: offset_def)

lemma offset_Nil [simp]: "offset [] ix = 0" "offset ss [] = 0"
  by (simp_all add: offset_def)

lemma round_up_ge: "0 < step \<Longrightarrow> n \<le> round_up n step"
proof -
  assume "0 < step"
  then have "(n + step - 1) mod step \<le> step - 1" using mod_less_divisor [of step "n + step - 1"] by linarith
  then show ?thesis using div_mult_mod_eq [of "n + step - 1" step] \<open>0 < step\<close> unfolding round_up_def by linarith
qed

lemma round_up_mod: "round_up n step mod step = 0"
  by (simp add: round_up_def)

lemma round_up_exact: "round_up n 1 = n"
  by (simp add: round_up_def)

lemma nat_strides_nonempty: "ds \<noteq> [] \<Longrightarrow> nat_strides ds steps \<noteq> []"
  by (cases "(ds, steps)" rule: nat_strides.cases) (auto simp: Let_def)

lemma length_nat_strides [simp]: "length (nat_strides ds steps) = length ds"
  by (induction ds steps rule: nat_strides.induct) (auto simp: Let_def)

text \<open>An index is below the dimensions in every component.\<close>

abbreviation in_shape :: "nat list \<Rightarrow> nat list \<Rightarrow> bool" where
  "in_shape ix ds \<equiv> list_all2 (<) ix ds"

lemma step_le: "i < d \<Longrightarrow> i * (n :: nat) + n \<le> n * d"
  by (metis Suc_leI add.commute mult.commute mult_Suc mult_le_mono2)

lemma offset_bound:
  "in_shape ix ds \<Longrightarrow> ds \<noteq> [] \<Longrightarrow> length ds \<le> length steps \<Longrightarrow> list_all ((<) 0) steps \<Longrightarrow>
   offset (nat_strides ds steps) ix + steps ! (length ds - 1) \<le> hd (nat_strides ds steps) * hd ds"
proof (induction ds steps arbitrary: ix rule: nat_strides.induct)
  case (2 d steps)
  then obtain i s st where "ix = [i]" "i < d" "steps = s # st"
    by (cases steps) (auto simp: list_all2_Cons2)
  then show ?case using step_le [of i d s] by (simp add: mult.commute)
next
  case (3 d dl ds steps)
  obtain i js s st where ix: "ix = i # js" "i < d" "in_shape js (dl # ds)" and st: "steps = s # st" "0 < s"
    using 3(2,4,5) by (cases steps) (auto simp: list_all2_Cons2)
  let ?L = "nat_strides (dl # ds) st"
  have "offset ?L js + st ! (length (dl # ds) - 1) \<le> hd ?L * dl"
    using 3(1)[of js] ix st 3(4,5) by simp
  also have "\<dots> \<le> round_up (hd ?L * dl) s" using st round_up_ge by blast
  finally have "offset ?L js + st ! length ds \<le> round_up (hd ?L * dl) s" by simp
  then have "i * round_up (hd ?L * dl) s + offset ?L js + st ! length ds \<le> round_up (hd ?L * dl) s * d"
    using step_le [OF ix(2), of "round_up (hd ?L * dl) s"] by linarith
  then show ?case using ix st by (simp add: Let_def mult.commute)
qed auto

lemma offset_disjoint:
  "in_shape ix ds \<Longrightarrow> in_shape js ds \<Longrightarrow> ix \<noteq> js \<Longrightarrow> length ds \<le> length steps \<Longrightarrow> list_all ((<) 0) steps \<Longrightarrow>
   offset (nat_strides ds steps) ix + steps ! (length ds - 1) \<le> offset (nat_strides ds steps) js \<or>
   offset (nat_strides ds steps) js + steps ! (length ds - 1) \<le> offset (nat_strides ds steps) ix"
proof (induction ds steps arbitrary: ix js rule: nat_strides.induct)
  case (2 d steps)
  then obtain i j s st where "ix = [i]" "js = [j]" "i \<noteq> j" "steps = s # st"
    by (cases steps) (auto simp: list_all2_Cons2)
  then show ?case using step_le [of i j s] step_le [of j i s] by (auto simp: mult.commute linorder_neq_iff)
next
  case (3 d dl ds steps)
  obtain i js1 j js2 s st where ix: "ix = i # js1" "in_shape js1 (dl # ds)" and js: "js = j # js2" "in_shape js2 (dl # ds)"
    and st: "steps = s # st" "0 < s" "length (dl # ds) \<le> length st" "list_all ((<) 0) st"
    using 3(2,3,5,6) by (cases steps) (auto simp: list_all2_Cons2)
  let ?L = "nat_strides (dl # ds) st" and ?S = "round_up (hd (nat_strides (dl # ds) st) * dl) s"
  have low: "offset ?L ks + st ! length ds \<le> ?S" if "in_shape ks (dl # ds)" for ks
    using offset_bound [OF that _ st(3,4)] round_up_ge [OF st(2)] order_trans by fastforce
  show ?case
  proof (cases "i = j")
    case True
    then show ?thesis using 3(1)[of js1 js2] ix js st 3(4) by (auto simp: Let_def)
  next
    case False
    then have "i * ?S + ?S \<le> j * ?S \<or> j * ?S + ?S \<le> i * ?S"
      using step_le [of i j ?S] step_le [of j i ?S] by (metis linorder_neqE_nat mult.commute)
    then show ?thesis using low [OF ix(2)] low [OF js(2)] ix(1) js(1) st(1) by (auto simp: Let_def mult.commute)
  qed
qed auto

lemma unat_mult_fit: "unat x * unat y < 2 ^ 64 \<Longrightarrow> unat (x * y :: uint64) = unat x * unat y"
  by (simp add: unat_word_ariths)

lemma unat_u64_of: "0 \<le> d \<Longrightarrow> d < 2 ^ 64 \<Longrightarrow> unat (u64_of d) = nat d"
  by (simp add: u64_of_def unsigned_of_int take_bit_int_eq_self)

definition nat_shape :: "Shape \<Rightarrow> nat list" where
  "nat_shape sh = map nat sh"

text \<open>int32_t values that shape_valid accepts.\<close>

definition wf_shape :: "Shape \<Rightarrow> bool" where
  "wf_shape sh \<longleftrightarrow> shape_valid sh \<and> list_all (\<lambda>d. d < 2 ^ 31) sh \<and> length sh \<le> kMaxRank"

lemma unat_stride_loop:
  "list_all (\<lambda>d. 0 < d \<and> d < 2 ^ 31) sh \<Longrightarrow> length sh \<le> length steps \<Longrightarrow> list_all ((<) 0) steps \<Longrightarrow>
   strides_fit (map nat sh) (map unat steps) \<Longrightarrow>
   map unat (stride_loop sh steps) = nat_strides (map nat sh) (map unat steps)"
proof (induction sh steps rule: stride_loop.induct)
  case (2 d steps)
  then show ?case by (cases steps) auto
next
  case (3 d dl ds steps)
  obtain s st where st: "steps = s # st" using 3(3) by (cases steps) auto
  let ?L = "stride_loop (dl # ds) st"
  have IH: "map unat ?L = nat_strides (map nat (dl # ds)) (map unat st)"
    using 3 st by simp
  have ne: "?L \<noteq> []" using IH nat_strides_nonempty [of "map nat (dl # ds)"] by (metis list.map_disc_iff list.simps(3) list.simps(8))
  then have hd: "unat (hd ?L) = hd (nat_strides (nat dl # map nat ds) (map unat st))"
    using IH by (metis hd_map list.simps(9))
  have fit: "unat (hd ?L) * nat dl + unat s < 2 ^ 64" using 3(5) st hd by simp
  have dl: "unat (u64_of dl) = nat dl" using 3(2) by (intro unat_u64_of) auto
  have s0: "0 < unat s" using 3(4) st by (simp add: word_less_nat_alt)
  have m: "unat (hd ?L * u64_of dl) = unat (hd ?L) * nat dl"
    using unat_mult_fit [of "hd ?L" "u64_of dl"] fit dl by simp
  have a: "unat (hd ?L * u64_of dl + s) = unat (hd ?L) * nat dl + unat s"
    using fit m by (subst unat_add_lem [THEN iffD1]) auto
  have "1 \<le> hd ?L * u64_of dl + s" using a s0 by (simp add: word_le_nat_alt)
  then have b: "unat (hd ?L * u64_of dl + s - 1) = unat (hd ?L) * nat dl + unat s - 1"
    using a by (simp add: unat_sub)
  have "unat ((hd ?L * u64_of dl + s - 1) div s) * unat s \<le> unat (hd ?L * u64_of dl + s - 1)"
    by (simp add: unat_div)
  also have "\<dots> < 2 ^ 64" using fit b by linarith
  finally have "unat ((hd ?L * u64_of dl + s - 1) div s * s) = round_up (unat (hd ?L) * nat dl) (unat s)"
    using unat_mult_fit [of "(hd ?L * u64_of dl + s - 1) div s" s]
    by (simp only: unat_div round_up_def b)
  then show ?case using st IH hd by (simp add: Let_def)
qed auto



section \<open>Permutation of the axes\<close>

text \<open>A tensor whose stride array holds the entries of its rank.\<close>

definition wf_tensor :: "Tensor \<Rightarrow> bool" where
  "wf_tensor t \<longleftrightarrow> length (t_strides t) = length (t_shape t) \<and> length (t_shape t) \<le> kMaxRank"

definition address :: "Tensor \<Rightarrow> nat list \<Rightarrow> nat" where
  "address t ix = offset (map unat (t_strides t)) ix"

lemma offset_nth: "length ss = length ix \<Longrightarrow> offset ss ix = sum_list (map (\<lambda>i. ss ! i * ix ! i) [0..<length ix])"
proof -
  assume "length ss = length ix"
  then have "map2 (*) ss ix = map (\<lambda>i. ss ! i * ix ! i) [0..<length ix]"
    by (intro nth_equalityI) auto
  then show ?thesis by (simp add: offset_def)
qed

lemma permute_apply:
  assumes "wf_tensor t" "2 \<le> length (t_shape t)" "length axes = length (t_shape t)"
    "list_all (\<lambda>a. 0 \<le> a \<and> a < int (length (t_shape t))) axes"
  shows "permute axes t = Some (Success, t\<lparr>t_shape := map (\<lambda>a. t_shape t ! nat a) axes,
    t_strides := map (\<lambda>a. t_strides t ! nat a) axes\<rparr>)"
proof -
  have "mk_shape (map (\<lambda>a. dimension (t_shape t) (nat a)) axes) = map (\<lambda>a. t_shape t ! nat a) axes"
    using assms by (auto simp: mk_shape_def wf_tensor_def dimension_def list_all_iff nat_less_iff)
  moreover have "map (\<lambda>a. t_stride t (nat a)) axes = map (\<lambda>a. t_strides t ! nat a) axes"
    using assms by (auto simp: t_stride_def list_all_iff)
  moreover have "\<not> list_ex (\<lambda>a. a < 0 \<or> int (length (t_shape t)) \<le> a) axes"
    using assms(4) by (auto simp: list_all_iff list_ex_iff)
  ultimately show ?thesis using assms(2,3) by (simp add: permute_def)
qed

text \<open>C20: Permuting a tensor by a permutation of its axes keeps the address of every element (the index
  is permuted in the same way), and the inverse permutation restores the tensor.\<close>
theorem permute_roundtrip:
  assumes t: "wf_tensor t" "2 \<le> length (t_shape t)"
    and axes: "mset axes = mset (map int [0..<length (t_shape t)])"
    and inv: "map (\<lambda>a. axes ! nat a) inv_axes = map int [0..<length (t_shape t)]"
      "list_all (\<lambda>a. 0 \<le> a \<and> a < int (length (t_shape t))) inv_axes"
  shows "\<exists>u. permute axes t = Some (Success, u) \<and> permute inv_axes u = Some (Success, t) \<and>
    (\<forall>ix. length ix = length (t_shape t) \<longrightarrow> address u (map (\<lambda>a. ix ! nat a) axes) = address t ix)"
proof -
  let ?n = "length (t_shape t)"
  let ?u = "t\<lparr>t_shape := map (\<lambda>a. t_shape t ! nat a) axes, t_strides := map (\<lambda>a. t_strides t ! nat a) axes\<rparr>"
  have len: "length axes = ?n" using arg_cong [OF axes, of size] by simp
  have set: "set axes = int ` {0..<?n}" using arg_cong [OF axes, of set_mset] by simp
  have u: "permute axes t = Some (Success, ?u)"
    by (rule permute_apply [OF t len]) (auto simp: list_all_iff set)
  have leni: "length inv_axes = ?n" using arg_cong [OF inv(1), of length] by simp
  have wfu: "wf_tensor ?u" using t len by (simp add: wf_tensor_def)
  have back_map: "map (\<lambda>a. map (\<lambda>a. xs ! nat a) axes ! nat a) inv_axes = xs" if "length xs = ?n" for xs :: "'b list"
  proof -
    have "map (\<lambda>a. map (\<lambda>a. xs ! nat a) axes ! nat a) inv_axes = map (\<lambda>a. xs ! nat a) (map (\<lambda>a. axes ! nat a) inv_axes)"
      using inv(2) len by (auto simp: list_all_iff nat_less_iff)
    also have "\<dots> = map (\<lambda>i. xs ! i) [0..<?n]" by (simp add: inv(1))
    finally show ?thesis using that map_nth [of xs] by simp
  qed
  have "permute inv_axes ?u = Some (Success, ?u\<lparr>t_shape := map (\<lambda>a. t_shape ?u ! nat a) inv_axes,
      t_strides := map (\<lambda>a. t_strides ?u ! nat a) inv_axes\<rparr>)"
    by (rule permute_apply [OF wfu]) (use t len leni inv(2) in auto)
  also have "?u\<lparr>t_shape := map (\<lambda>a. t_shape ?u ! nat a) inv_axes, t_strides := map (\<lambda>a. t_strides ?u ! nat a) inv_axes\<rparr> = t"
    using back_map [of "t_shape t"] back_map [of "t_strides t"] t(1) by (simp add: wf_tensor_def)
  finally have r: "permute inv_axes ?u = Some (Success, t)" .
  have "address ?u (map (\<lambda>a. ix ! nat a) axes) = address t ix" if ix: "length ix = ?n" for ix
  proof -
    let ?f = "\<lambda>i. unat (t_strides t ! i) * ix ! i"
    have "address ?u (map (\<lambda>a. ix ! nat a) axes) = sum_list (map (\<lambda>a. ?f (nat a)) axes)"
      by (simp add: address_def offset_def map2_map_map o_def)
    also have "\<dots> = sum_list (map (\<lambda>a. ?f (nat a)) (map int [0..<?n]))"
      unfolding sum_mset_sum_list [symmetric] mset_map [of _ axes] mset_map [of _ "map int [0..<?n]"] axes ..
    also have "\<dots> = address t ix"
      using t(1) ix by (auto simp: address_def offset_nth wf_tensor_def o_def intro!: arg_cong [where f = sum_list] map_cong)
    finally show ?thesis .
  qed
  then show ?thesis using u r by blast
qed

definition demo_tensor :: Tensor where
  "demo_tensor = \<lparr>t_shape = [2, 3, 5], t_element_count = 30, t_element_type = kFloat32,
     t_bytes_per_element = 4, t_strides = [60, 20, 4]\<rparr>"

theorem permute_roundtrip_witness:
  "\<exists>u. permute [2, 0, 1] demo_tensor = Some (Success, u) \<and> permute [1, 2, 0] u = Some (Success, demo_tensor)"
  using permute_roundtrip [of demo_tensor "[2, 0, 1]" "[1, 2, 0]"]
  by (auto simp: demo_tensor_def wf_tensor_def kMaxRank_def upt_rec numeral_2_eq_2 numeral_3_eq_3)

section \<open>DLPack round trip\<close>

lemma PrimitiveType_roundtrip:
  assumes "1 \<le> lanes"
  shows "\<exists>d. PrimitiveTypeToDLDataType p lanes = Inr d \<and> PrimitiveTypeFromDLDataType d = Inr p \<and> dt_lanes d = lanes \<and>
    dt_bits d = ucast (PrimitiveTypeSize p * 8)"
  using assms
  by (cases p) (auto simp: PrimitiveTypeToDLDataType_def PrimitiveTypeFromDLDataType_def PrimitiveTypeSize_def not_less)

lemma to_i32_id: "- (2 ^ 31) \<le> d \<Longrightarrow> d < 2 ^ 31 \<Longrightarrow> to_i32 d = d"
  by (simp add: to_i32_def signed_of_int signed_take_bit_int_eq_self)

lemma sint_small: "unat w < 2 ^ 63 \<Longrightarrow> sint (w :: uint64) = int (unat w)"
proof -
  assume "unat w < 2 ^ 63"
  then have "int (unat w) < int (2 ^ 63)" by (simp only: of_nat_less_iff)
  then have "int (unat w) < 2 ^ 63" by simp
  then have "uint w < 2 ^ 63" by simp
  moreover have "- (2 ^ 63) \<le> uint w" by (rule order_trans [of _ 0]) simp_all
  ultimately have "signed_take_bit 63 (uint w) = uint w" by (intro signed_take_bit_int_eq_self)
  then show ?thesis by (simp add: sint_uint)
qed

lemma stride_back:
  assumes "s mod b = 0" "unat s < 2 ^ 63"
  shows "word_of_int (sint (s div b) * int (unat b)) = (s :: uint64)"
proof -
  have "unat (s div b) < 2 ^ 63" 
    using le_less_trans [OF div_le_dividend assms(2)] by (simp add: unat_div)
  then have "sint (s div b) * int (unat b) = int (unat s div unat b * unat b)"
    by (simp only: sint_small unat_div of_nat_mult)
  also have "unat s div unat b * unat b = unat s"
    using arg_cong [where f = unat, OF assms(1)] by (simp add: unat_mod mod_0_imp_dvd)
  finally show ?thesis by (simp only: uint_nat [symmetric] word_of_int_uint)
qed

lemma bits_size: "p \<noteq> kCustom \<Longrightarrow>
  of_nat (unat (ucast (PrimitiveTypeSize p * 8) :: 8 word) div 8) = PrimitiveTypeSize p \<and>
  unat (ucast (PrimitiveTypeSize p * 8) :: 8 word) div 8 = unat (PrimitiveTypeSize p) \<and> PrimitiveTypeSize p \<noteq> 0"
  by (cases p) (simp_all add: PrimitiveTypeSize_def)

text \<open>A tensor with one lane per element goes through DLPack and back unchanged: shape, element
  type, element size and strides in bytes, when the strides are multiples of the element size.\<close>
theorem dlpack_roundtrip:
  assumes t: "wf_tensor t" "list_all (\<lambda>d. - (2 ^ 31) \<le> d \<and> d < 2 ^ 31) (t_shape t)"
    and ty: "t_element_type t \<noteq> kCustom" "t_bytes_per_element t = PrimitiveTypeSize (t_element_type t)"
    and st: "list_all (\<lambda>s. s mod t_bytes_per_element t = 0 \<and> unat s < 2 ^ 63) (t_strides t)"
    and cnt: "t_element_count t = shape_size (t_shape t)"
    and dev: "device = Inr d" "d \<noteq> kDLOtherDevice"
  shows "\<exists>dl. initializeDLContext device t = Some dl \<and> wrapDLPack dl t = (Success, t)"
proof -
  let ?b = "PrimitiveTypeSize (t_element_type t)"
  note sz = bits_size [OF ty(1)]
  have lanes: "t_lanes t = 1" using ty
    by (cases "t_element_type t") (simp_all add: t_lanes_def PrimitiveTypeSize_def)
  obtain dt where dt: "PrimitiveTypeToDLDataType (t_element_type t) 1 = Inr dt"
    "PrimitiveTypeFromDLDataType dt = Inr (t_element_type t)" "dt_lanes dt = 1" "dt_bits dt = ucast (?b * 8)"
    using PrimitiveType_roundtrip [of 1 "t_element_type t"] by auto
  let ?n = "length (t_shape t)"
  have dims: "map (dimension (t_shape t)) [0..<?n] = t_shape t"
    by (rule nth_equalityI) (auto simp: dimension_def)
  have strd: "map (t_stride t) [0..<?n] = t_strides t"
    by (rule nth_equalityI) (use t(1) in \<open>auto simp: t_stride_def wf_tensor_def\<close>)
  let ?dl = "\<lparr>dl_shape = t_shape t, dl_strides = Some (map (\<lambda>s. sint (s div ?b)) (t_strides t)),
    dl_dtype = dt, dl_device = d\<rparr>"
  have "map (\<lambda>i. sint (t_stride t i div ?b)) [0..<?n] = map (\<lambda>s. sint (s div ?b)) (t_strides t)"
    by (simp add: strd [symmetric])
  then have "initializeDLContext device t = Some ?dl"
    using sz ty lanes dt dev dims by (simp add: initializeDLContext_def)
  moreover have "ShapeFromDLTensor ?dl = Inr (t_shape t)"
    using t by (auto simp: ShapeFromDLTensor_def wf_tensor_def list_all_iff to_i32_id intro!: map_idI)
  moreover have "StridesFromDLTensor ?dl = Inr (t_strides t)"
    using t(1) st sz dt(4) ty(2) stride_back
    by (auto simp: StridesFromDLTensor_def wf_tensor_def list_all_iff intro!: map_idI)
  moreover have "\<exists>ms. MemoryStorageTypeFromDLTensor d = Inr ms"
    using dev(2) by (cases d) (auto simp: MemoryStorageTypeFromDLTensor_def)
  ultimately show ?thesis using dt cnt ty by (auto simp: wrapDLPack_def t_set_layout_def)
qed

theorem dlpack_roundtrip_witness:
  "\<exists>dl. initializeDLContext (Inr kDLCPU) demo_tensor = Some dl \<and> wrapDLPack dl demo_tensor = (Success, demo_tensor)"
  using dlpack_roundtrip [of demo_tensor "Inr kDLCPU" kDLCPU]
  by (simp add: demo_tensor_def wf_tensor_def kMaxRank_def PrimitiveTypeSize_def shape_size_def u64_of_def)

text \<open>With several lanes the strides come back divided by the number of lanes: StridesFromDLTensor
  multiplies by the size of one lane, where initializeDLContext divided by the size of the element.\<close>

definition lanes_tensor :: Tensor where
  "lanes_tensor = \<lparr>t_shape = [2, 4], t_element_count = 8, t_element_type = kUnsigned8,
     t_bytes_per_element = 3, t_strides = [12, 3]\<rparr>"

lemma dlpack_lanes_lose_strides:
  "\<exists>dl u. initializeDLContext (Inr kDLCPU) lanes_tensor = Some dl \<and> wrapDLPack dl lanes_tensor = (Success, u) \<and>
     t_strides lanes_tensor = [12, 3] \<and> t_strides u = [4, 1]"
  by (simp add: lanes_tensor_def initializeDLContext_def t_lanes_def PrimitiveTypeSize_def PrimitiveTypeToDLDataType_def
      wrapDLPack_def ShapeFromDLTensor_def StridesFromDLTensor_def MemoryStorageTypeFromDLTensor_def
      PrimitiveTypeFromDLDataType_def t_set_layout_def kMaxRank_def t_stride_def dimension_def)

section \<open>Reshaping without a copy\<close>

text \<open>The strides of a dense tensor in row-major order.\<close>

fun row_strides :: "nat \<Rightarrow> nat list \<Rightarrow> nat list" where
  "row_strides b [] = []"
| "row_strides b (d # ds) = b * prod_list ds # row_strides b ds"

definition positive :: "nat list \<Rightarrow> bool" where
  "positive ds \<longleftrightarrow> (\<forall>d\<in>set ds. 0 < d)"

lemma length_row_strides [simp]: "length (row_strides b ds) = length ds"
  by (induction ds) auto

lemma nth_row_strides: "k < length ds \<Longrightarrow> row_strides b ds ! k = b * prod_list (drop (Suc k) ds)"
  by (induction ds arbitrary: k) (auto simp: nth_Cons' drop_Cons')

lemma positive_drop: "positive ds \<Longrightarrow> positive (drop k ds)"
  by (auto simp: positive_def dest: in_set_dropD)

lemma positive_prod: "positive ds \<Longrightarrow> 0 < prod_list ds"
  by (induction ds) (auto simp: positive_def)

lemma prod_drop_pos: "positive ds \<Longrightarrow> 0 < prod_list (drop k ds)"
  by (rule positive_prod [OF positive_drop])

lemma prod_drop_Suc: "k < length ds \<Longrightarrow> prod_list (drop k ds) = ds ! k * prod_list (drop (Suc k) ds)"
  by (simp add: Cons_nth_drop_Suc [symmetric])

lemma prod_drop_le: "positive ds \<Longrightarrow> j \<le> k \<Longrightarrow> prod_list (drop k ds) \<le> prod_list (drop j ds)"
proof -
  assume p: "positive ds" and "j \<le> k"
  have "drop j ds = take (k - j) (drop j ds) @ drop k ds"
    using append_take_drop_id [of "k - j" "drop j ds"] \<open>j \<le> k\<close> by simp
  then have "prod_list (drop j ds) = prod_list (take (k - j) (drop j ds)) * prod_list (drop k ds)"
    by (metis prod_list.append)
  moreover have "positive (take (k - j) (drop j ds))"
    using p by (auto simp: positive_def dest: in_set_takeD in_set_dropD)
  ultimately show ?thesis using positive_prod [of "take (k - j) (drop j ds)"] by simp
qed

text \<open>The lists of int32_t dimensions and their natural numbers.\<close>

definition dims_rel :: "int list \<Rightarrow> nat list \<Rightarrow> bool" where
  "dims_rel xs ns \<longleftrightarrow> xs = map int ns \<and> (\<forall>n\<in>set ns. n < 2 ^ 31)"

lemma dims_rel_nth: "dims_rel xs ns \<Longrightarrow> k < length ns \<Longrightarrow> unat (u64_of (xs ! k)) = ns ! k"
proof -
  assume r: "dims_rel xs ns" and k: "k < length ns"
  then have "ns ! k < 2 ^ 31" by (auto simp: dims_rel_def)
  then have "int (ns ! k) < 2 ^ 64" by simp
  then show ?thesis using r k by (simp add: dims_rel_def unat_u64_of)
qed

lemma match_dims_ok:
  assumes "dims_rel new ns" "dims_rel old os" "positive ns" "positive os"
    "unat nd * prod_list (drop nj ns) = T" "unat od * prod_list (drop oj os) = T" "0 < T" "T < 2 ^ 64"
    "nj \<le> length ns" "oj \<le> length os"
  shows "\<exists>nj' oj'. match_dims new (old @ z) nd od nj oj = Some (nj', oj') \<and> nj \<le> nj' \<and> nj' \<le> length ns \<and>
    oj \<le> oj' \<and> oj' \<le> length os \<and> prod_list (drop nj' ns) = prod_list (drop oj' os)"
  using assms
proof (induction new "old @ z" nd od nj oj rule: match_dims.induct)
  case (1 new nd od nj oj)
  have len: "length new = length ns" "length old = length os" using 1(3,4) by (auto simp: dims_rel_def)
  have step: "unat (x * u64_of d) = unat x * k" "unat x * k * prod_list (drop (Suc j) ks) = T"
    if "unat (u64_of d) = k" "ks ! j = k" "j < length ks" "positive ks" "unat x * prod_list (drop j ks) = T" for x d k j ks
  proof -
    show e: "unat x * k * prod_list (drop (Suc j) ks) = T"
      using that by (simp add: prod_drop_Suc mult.assoc)
    have "unat x * k * 1 \<le> unat x * k * prod_list (drop (Suc j) ks)"
      using prod_drop_pos [OF that(4), of "Suc j"] by (intro mult_le_mono2) simp
    then have "unat x * k \<le> T" using e by linarith
    then show "unat (x * u64_of d) = unat x * k" using unat_mult_fit [of x "u64_of d"] that(1) 1(10) by simp
  qed
  consider (eq) "nd = od" | (lt) "nd < od" | (gt) "od < nd" by (metis linorder_neqE)
  then show ?case
  proof cases
    case eq
    then have "unat nd * prod_list (drop nj ns) = unat nd * prod_list (drop oj os)" using 1(7,8) by simp
    moreover have "0 < unat nd" using 1(7,9) by (cases "unat nd") auto
    ultimately have "prod_list (drop nj ns) = prod_list (drop oj os)" by simp
    then show ?thesis using eq 1(11,12) by (subst match_dims.simps) auto
  next
    case lt
    have "nj < length ns"
    proof (rule ccontr)
      assume "\<not> nj < length ns"
      then have "unat nd = T" using 1(7,11) by simp
      moreover have "unat od * 1 \<le> unat od * prod_list (drop oj os)"
        using prod_drop_pos [OF 1(6), of oj] by (intro mult_le_mono2) simp
      ultimately show False using lt 1(8) by (simp add: word_less_nat_alt)
    qed
    note st = step [OF dims_rel_nth [OF 1(3) this] refl this 1(5,7)]
    have "\<exists>nj' oj'. match_dims new (old @ z) (nd * u64_of (new ! nj)) od (nj + 1) oj = Some (nj', oj') \<and> nj + 1 \<le> nj' \<and>
      nj' \<le> length ns \<and> oj \<le> oj' \<and> oj' \<le> length os \<and> prod_list (drop nj' ns) = prod_list (drop oj' os)"
      using lt \<open>nj < length ns\<close> st len(1) 1(3-12) by (intro 1(1)) auto
    then show ?thesis using lt \<open>nj < length ns\<close> len by (subst match_dims.simps) auto
  next
    case gt
    have "oj < length os"
    proof (rule ccontr)
      assume "\<not> oj < length os"
      then have "unat od = T" using 1(8,12) by simp
      moreover have "unat nd * 1 \<le> unat nd * prod_list (drop nj ns)"
        using prod_drop_pos [OF 1(5), of nj] by (intro mult_le_mono2) simp
      ultimately show False using gt 1(7) by (simp add: word_less_nat_alt)
    qed
    note st = step [OF dims_rel_nth [OF 1(4) this] refl this 1(6,8)]
    have nth: "(old @ z) ! oj = old ! oj" using \<open>oj < length os\<close> len by (simp add: nth_append)
    have "\<exists>nj' oj'. match_dims new (old @ z) nd (od * u64_of ((old @ z) ! oj)) nj (oj + 1) = Some (nj', oj') \<and> nj \<le> nj' \<and>
      nj' \<le> length ns \<and> oj + 1 \<le> oj' \<and> oj' \<le> length os \<and> prod_list (drop nj' ns) = prod_list (drop oj' os)"
      using gt \<open>oj < length os\<close> st len(2) nth 1(3-12) by (intro 1(2)) auto
    then show ?thesis using gt \<open>oj < length os\<close> len by (subst match_dims.simps) auto
  qed
qed

lemma unat_stride_step:
  assumes "unat (u64_of d) = ds ! k" "k < length ds" "unat s = b * prod_list (drop (Suc k) ds)"
    "b * prod_list ds < 2 ^ 64" "positive ds"
  shows "unat (s * u64_of d) = b * prod_list (drop k ds)" "unat (u64_of d * s) = b * prod_list (drop k ds)"
proof -
  have "b * prod_list (drop k ds) \<le> b * prod_list ds"
    using prod_drop_le [OF assms(5), of 0 k] by (intro mult_le_mono2) simp
  then have lt: "b * prod_list (drop k ds) < 2 ^ 64" by (rule le_less_trans [OF _ assms(4)])
  moreover have "unat s * unat (u64_of d) = b * prod_list (drop k ds)"
    using assms(1,2,3) by (simp add: prod_drop_Suc)
  ultimately show "unat (s * u64_of d) = b * prod_list (drop k ds)" using unat_mult_fit [of s "u64_of d"] by simp
  then show "unat (u64_of d * s) = b * prod_list (drop k ds)" by (simp add: mult.commute)
qed

lemma fill_strides_ok:
  assumes "dims_rel new ns" "positive ns" "b * prod_list ns < 2 ^ 64" "length xs = length ns"
    "ni \<le> nk" "nk < length ns" "unat (xs ! nk) = b * prod_list (drop (Suc nk) ns)"
  shows "length (fill_strides new ni nk xs) = length ns \<and>
    (\<forall>k. ni \<le> k \<and> k \<le> nk \<longrightarrow> unat (fill_strides new ni nk xs ! k) = b * prod_list (drop (Suc k) ns)) \<and>
    (\<forall>k. k < ni \<or> nk < k \<longrightarrow> fill_strides new ni nk xs ! k = xs ! k)"
  using assms
proof (induction new ni nk xs rule: fill_strides.induct)
  case (2 new ni nk xs)
  show ?case
  proof (cases "Suc nk > ni")
    case True
    let ?ys = "xs[nk := xs ! Suc nk * u64_of (new ! Suc nk)]"
    have y: "unat (?ys ! nk) = b * prod_list (drop (Suc nk) ns)"
      using unat_stride_step(1) [OF dims_rel_nth [OF 2(2) 2(7)] 2(7) 2(8) 2(4) 2(3)] 2(5,7) by simp
    have IH: "length (fill_strides new ni nk ?ys) = length ns \<and>
      (\<forall>k. ni \<le> k \<and> k \<le> nk \<longrightarrow> unat (fill_strides new ni nk ?ys ! k) = b * prod_list (drop (Suc k) ns)) \<and>
      (\<forall>k. k < ni \<or> nk < k \<longrightarrow> fill_strides new ni nk ?ys ! k = ?ys ! k)"
      using 2(1) [OF True 2(2,3,4)] 2(5,6,7) True y by simp
    then show ?thesis using True 2(8) by (auto simp: le_Suc_eq)
  next
    case False
    then show ?thesis using 2 by (auto simp: le_Suc_eq)
  qed
qed auto

definition dense :: "nat \<Rightarrow> nat list \<Rightarrow> uint64 list \<Rightarrow> bool" where
  "dense b ds ss \<longleftrightarrow> (\<forall>k < length ds. unat (ss ! k) = b * prod_list (drop (Suc k) ds))"

lemma combinable_dense:
  assumes "dims_rel old os" "positive os" "b * prod_list os < 2 ^ 64" "dense b os ss" "oj \<le> length os"
  shows "combinable (old @ z) ss oi oj"
proof -
  have len: "length old = length os" using assms(1) by (simp add: dims_rel_def)
  have "ss ! k = u64_of ((old @ z) ! Suc k) * ss ! Suc k" if "k < oj - 1" for k
  proof -
    have k: "Suc k < length os" using that assms(5) by linarith
    have "unat (u64_of (old ! Suc k) * ss ! Suc k) = b * prod_list (drop (Suc k) os)"
      using assms(4) k unat_stride_step(2) [OF dims_rel_nth [OF assms(1) k] k _ assms(3,2)] by (simp add: dense_def)
    moreover have "unat (ss ! k) = b * prod_list (drop (Suc k) os)" using assms(4) k by (simp add: dense_def)
    ultimately show ?thesis using k len by (simp add: nth_append word_unat_eq_iff)
  qed
  then show ?thesis by (simp add: combinable_def list_all_iff)
qed

lemma reshape_loop_ok:
  assumes "dims_rel new ns" "dims_rel old os" "positive ns" "positive os" "b * prod_list ns < 2 ^ 64"
    "prod_list ns = prod_list os" "0 < b" "dense b os ss"
    "prod_list (drop ni ns) = prod_list (drop oi os)" "ni \<le> length ns" "oi \<le> length os" "length xs = length ns"
    "\<forall>k<ni. unat (xs ! k) = b * prod_list (drop (Suc k) ns)"
  shows "\<exists>nf ys. reshape_loop new (old @ z) ss (length os) ni oi xs = Some (Inr (nf, ys)) \<and> nf \<le> length ns \<and>
    length ys = length ns \<and> (\<forall>k<nf. unat (ys ! k) = b * prod_list (drop (Suc k) ns)) \<and>
    (nf = length ns \<or> prod_list (drop nf ns) = 1)"
  using assms
proof (induction new "old @ z" ss "length os" ni oi xs rule: reshape_loop.induct)
  case (1 new ss ni oi xs)
  have len: "length new = length ns" "length old = length os" using 1(2,3) by (auto simp: dims_rel_def)
  show ?case
  proof (cases "ni < length new \<and> oi < length os")
    case True
    have ni: "ni < length ns" and oi: "oi < length os" using True len by auto
    have od: "(old @ z) ! oi = old ! oi" using oi len by (simp add: nth_append)
    have T: "unat (u64_of (new ! ni)) * prod_list (drop (Suc ni) ns) = prod_list (drop ni ns)"
      "unat (u64_of (old ! oi)) * prod_list (drop (Suc oi) os) = prod_list (drop ni ns)"
      using dims_rel_nth [OF 1(2) ni] dims_rel_nth [OF 1(3) oi] prod_drop_Suc [OF ni] prod_drop_Suc [OF oi] 1(10) by auto
    have "1 * prod_list (drop ni ns) \<le> b * prod_list (drop 0 ns)"
      using 1(8) by (intro mult_le_mono prod_drop_le 1(4)) auto
    then have T64: "prod_list (drop ni ns) < 2 ^ 64" using 1(6) by simp
    obtain nj oj where m: "match_dims new (old @ z) (u64_of (new ! ni)) (u64_of (old ! oi)) (Suc ni) (Suc oi) = Some (nj, oj)"
      and nj: "Suc ni \<le> nj" "nj \<le> length ns" and oj: "Suc oi \<le> oj" "oj \<le> length os"
      and eq: "prod_list (drop nj ns) = prod_list (drop oj os)"
      using match_dims_ok [OF 1(2,3,4,5) T prod_drop_pos [OF 1(4)] T64, of z] ni oi by auto
    have comb: "combinable (old @ z) ss oi oj"
      using combinable_dense [OF 1(3,5) _ 1(9) oj(2)] 1(6,7) by simp
    let ?xs = "xs[nj - 1 := ss ! (oj - 1)]"
    have last: "unat (?xs ! (nj - 1)) = b * prod_list (drop (Suc (nj - 1)) ns)"
    proof -
      have "unat (ss ! (oj - 1)) = b * prod_list (drop oj os)" using 1(9) oj by (auto simp: dense_def)
      then show ?thesis using nj 1(13) eq by simp
    qed
    have fill: "length (fill_strides new ni (nj - 1) ?xs) = length ns \<and>
      (\<forall>k. ni \<le> k \<and> k \<le> nj - 1 \<longrightarrow> unat (fill_strides new ni (nj - 1) ?xs ! k) = b * prod_list (drop (Suc k) ns)) \<and>
      (\<forall>k. k < ni \<or> nj - 1 < k \<longrightarrow> fill_strides new ni (nj - 1) ?xs ! k = ?xs ! k)"
      by (rule fill_strides_ok [OF 1(2,4,6)]) (use 1(13) nj last in auto)
    have pre: "\<forall>k<nj. unat (fill_strides new ni (nj - 1) ?xs ! k) = b * prod_list (drop (Suc k) ns)"
    proof (intro allI impI)
      fix k assume "k < nj"
      show "unat (fill_strides new ni (nj - 1) ?xs ! k) = b * prod_list (drop (Suc k) ns)"
      proof (cases "k < ni")
        case True
        then show ?thesis using fill 1(14) nj by simp
      next
        case False
        then have "ni \<le> k \<and> k \<le> nj - 1" using \<open>k < nj\<close> by linarith
        then show ?thesis using fill by blast
      qed
    qed
    have "\<exists>nf ys. reshape_loop new (old @ z) ss (length os) nj oj (fill_strides new ni (nj - 1) ?xs) = Some (Inr (nf, ys)) \<and>
      nf \<le> length ns \<and> length ys = length ns \<and> (\<forall>k<nf. unat (ys ! k) = b * prod_list (drop (Suc k) ns)) \<and>
      (nf = length ns \<or> prod_list (drop nf ns) = 1)"
      using m comb fill pre nj oj eq True 1(2-9)
      by (intro 1(1) [of "(nj, oj)" nj oj]) (auto simp: od)
    then show ?thesis using True m comb od by (subst reshape_loop.simps) simp
  next
    case False
    then have "ni = length ns \<or> oi = length os" using len 1(11,12) by auto
    then show ?thesis using False 1(10,11,13,14) by (subst reshape_loop.simps) auto
  qed
qed

lemma dense_row_strides: "length ss = length ds \<Longrightarrow> dense b ds ss \<longleftrightarrow> map unat ss = row_strides b ds"
  by (auto simp: dense_def list_eq_iff_nth_eq nth_row_strides)

lemma dense_append: "length ss = length ds \<Longrightarrow> dense b ds (ss @ zs) = dense b ds ss"
  by (simp add: dense_def nth_append)

text \<open>Removing dimensions of 1 keeps a tensor dense.\<close>

lemma prod_filter_1: "prod_list (filter (\<lambda>d. d \<noteq> 1) ds) = prod_list (ds :: nat list)"
  by (induction ds) auto

lemma squeeze_dense:
  "map unat ss = row_strides b ns \<Longrightarrow>
   map fst (filter (\<lambda>(d, s). d \<noteq> 1) (zip (map int ns) ss)) = map int (filter (\<lambda>d. d \<noteq> 1) ns) \<and>
   map unat (map snd (filter (\<lambda>(d, s). d \<noteq> 1) (zip (map int ns) ss))) = row_strides b (filter (\<lambda>d. d \<noteq> 1) ns)"
proof (induction ns arbitrary: ss)
  case (Cons n ns)
  then obtain x xs where ss: "ss = x # xs" "unat x = b * prod_list ns" "map unat xs = row_strides b ns"
    by (cases ss) auto
  have "prod_list (filter (\<lambda>d. d \<noteq> Suc 0) ns) = prod_list ns" using prod_filter_1 [of ns] by simp
  then show ?case using Cons.IH [OF ss(3)] ss by (simp add: split_beta)
qed simp

lemma numel_product:
  "dims_rel xs ns \<Longrightarrow> positive ns \<Longrightarrow> 0 < c \<Longrightarrow> c * prod_list ns < 2 ^ 31 \<Longrightarrow>
   foldl (\<lambda>c d. to_i32 (c * d)) (int c) xs = int (c * prod_list ns)"
proof (induction ns arbitrary: xs c)
  case (Cons n ns)
  obtain ys where xs: "xs = int n # ys" "dims_rel ys ns" using Cons.prems(1) by (auto simp: dims_rel_def)
  have p: "0 < n" "positive ns" using Cons.prems(2) by (auto simp: positive_def)
  have lt: "c * n * prod_list ns < 2 ^ 31" using Cons.prems(4) by (simp add: mult.assoc)
  have "c * n * 1 \<le> c * n * prod_list ns" using positive_prod [OF p(2)] by (intro mult_le_mono2) simp
  then have "c * n < 2 ^ 31" using lt by linarith
  then have "int (c * n) < int (2 ^ 31)" by (simp only: of_nat_less_iff)
  then have "int (c * n) < 2 ^ 31" by simp
  then have "to_i32 (int c * int n) = int (c * n)" 
    using to_i32_id [of "int (c * n)"] order_trans [of "- (2 ^ 31)" 0 "int (c * n)"] by simp
  then show ?case using Cons.IH [OF xs(2) p(2) _ lt] Cons.prems(3) p(1) xs(1) by (simp add: mult.assoc)
qed (simp add: dims_rel_def)

lemma unat_shape_product:
  "dims_rel xs ns \<Longrightarrow> positive ns \<Longrightarrow> unat c * prod_list ns < 2 ^ 64 \<Longrightarrow>
   unat (foldl (\<lambda>c d. c * u64_of d) c xs) = unat c * prod_list ns"
proof (induction ns arbitrary: xs c)
  case (Cons n ns)
  obtain ys where xs: "xs = int n # ys" "dims_rel ys ns" using Cons.prems(1) by (auto simp: dims_rel_def)
  have p: "positive ns" using Cons.prems(2) by (auto simp: positive_def)
  have u: "unat (u64_of (int n)) = n" using dims_rel_nth [OF Cons.prems(1), of 0] xs by simp
  have lt: "unat c * n * prod_list ns < 2 ^ 64" using Cons.prems(3) by (simp add: mult.assoc)
  have "unat c * n * 1 \<le> unat c * n * prod_list ns" using positive_prod [OF p] by (intro mult_le_mono2) simp
  then have "unat c * n < 2 ^ 64" using lt by linarith
  then have "unat (c * u64_of (int n)) = unat c * n" using unat_mult_fit [of c "u64_of (int n)"] u by simp
  then show ?case using Cons.IH [OF xs(2) p, of "c * u64_of (int n)"] lt xs(1) by (simp add: mult.assoc)
qed (simp add: dims_rel_def)

lemma wf_shape_dims:
  assumes "wf_shape sh" shows "dims_rel sh (nat_shape sh)" "positive (nat_shape sh)" "sh = map int (nat_shape sh)"
  using assms
  by (auto simp: wf_shape_def shape_valid_def list_all_iff dims_rel_def nat_shape_def positive_def not_le
      intro!: map_idI [symmetric])

lemma dense_contiguous_loop:
  assumes "dims_rel sh ns" "positive ns" "b * prod_list ns < 2 ^ 64" "dense b ns ss" "m \<le> length ns"
    "unat x = b * prod_list (drop m ns)"
  shows "contiguous_loop x (rev (map (\<lambda>i. (ss ! i, u64_of (sh ! i))) [0..<m]))"
  using assms(5,6)
proof (induction m arbitrary: x)
  case (Suc m)
  have m: "m < length ns" using Suc.prems by simp
  have "ss ! m = x" using assms(4) m Suc.prems(2) by (simp add: dense_def word_unat_eq_iff)
  moreover have "unat (x * u64_of (sh ! m)) = b * prod_list (drop m ns)"
    by (rule unat_stride_step(1) [OF dims_rel_nth [OF assms(1) m] m Suc.prems(2) assms(3,2)])
  ultimately show ?case using Suc.IH [of "x * u64_of (sh ! m)"] m by simp
qed simp

lemma dense_isContiguous:
  assumes "wf_shape (t_shape t)" "dense (unat (t_bytes_per_element t)) (nat_shape (t_shape t)) (t_strides t)"
    "unat (t_bytes_per_element t) * prod_list (nat_shape (t_shape t)) < 2 ^ 64"
  shows "isContiguous t"
proof -
  let ?n = "length (t_shape t)"
  have "contiguous_loop (t_bytes_per_element t) (rev (map (\<lambda>i. (t_strides t ! i, u64_of (t_shape t ! i))) [0..<?n]))"
    by (rule dense_contiguous_loop [OF wf_shape_dims(1,2) [OF assms(1)] assms(3,2)]) (simp_all add: nat_shape_def)
  moreover have "map (\<lambda>i. (t_stride t i, u64_of (dimension (t_shape t) i))) [0..<?n] =
      map (\<lambda>i. (t_strides t ! i, u64_of (t_shape t ! i))) [0..<?n]"
    by (auto simp: t_stride_def dimension_def)
  ultimately show ?thesis unfolding isContiguous_def by (simp only:)
qed

text \<open>C21: A dense tensor can be reshaped without a copy to every shape with the same number of elements:
  the loops end within their arrays, and the result is the dense tensor of the new shape.\<close>
theorem no_copy_reshape_dense:
  assumes t: "wf_tensor t" "wf_shape (t_shape t)" "t_shape t \<noteq> []" "t_element_count t = shape_size (t_shape t)"
    and b: "b = unat (t_bytes_per_element t)" "0 < b" "b * prod_list (nat_shape (t_shape t)) < 2 ^ 64"
    and d: "dense b (nat_shape (t_shape t)) (t_strides t)" "prod_list (nat_shape (t_shape t)) < 2 ^ 31"
    and new: "wf_shape new" "prod_list (nat_shape new) = prod_list (nat_shape (t_shape t))"
  shows "\<exists>u. noCopyReshape new t = Some (Success, u) \<and> t_shape u = new \<and>
    map unat (t_strides u) = row_strides b (nat_shape new) \<and> isContiguous u"
proof -
  let ?sh = "t_shape t" and ?ns = "nat_shape (t_shape t)" and ?ms = "nat_shape new"
  let ?os = "filter (\<lambda>d. d \<noteq> 1) ?ns"
  note ws = wf_shape_dims [OF t(2)] and wn = wf_shape_dims [OF new(1)]
  have len: "length ?sh = length (t_strides t)" "length ?ns = length ?sh" "length ?ms = length new"
    using t(1) by (simp_all add: wf_tensor_def nat_shape_def)
  define kept where "kept = squeeze ?sh (map (\<lambda>i. (dimension ?sh i, t_stride t i)) [0..<length ?sh])"
  have z: "map (\<lambda>i. (dimension ?sh i, t_stride t i)) [0..<length ?sh] = zip ?sh (t_strides t)"
    using len by (auto intro!: nth_equalityI simp: dimension_def t_stride_def)
  have kz: "kept = filter (\<lambda>(d, s). d \<noteq> 1) (zip (map int ?ns) (t_strides t))"
    using z ws(3) by (simp add: kept_def squeeze_def)
  have st: "map unat (t_strides t) = row_strides b ?ns" using d(1) len dense_row_strides by metis
  note k = squeeze_dense [OF st, folded kz]
  have kl: "length (map snd kept) = length ?os" using arg_cong [OF conjunct1 [OF k], of length] by simp
  have os: "dims_rel (map fst kept) ?os" "positive ?os" "prod_list ?os = prod_list ?ms"
    using k ws(1,2) new(2) prod_filter_1 [of ?ns] by (auto simp: dims_rel_def positive_def)
  have dn: "dense b ?os (map snd kept @ replicate (kMaxRank - length kept) 1)"
    using k kl by (simp add: dense_append dense_row_strides)
  have bp: "b * prod_list ?ms < 2 ^ 64" using b(3) new(2) by simp
  have "\<exists>nf ys. reshape_loop new (map fst kept @ replicate (length ?sh - length kept) 0)
      (map snd kept @ replicate (kMaxRank - length kept) 1) (length ?os) 0 0 (replicate (length new) 0) = Some (Inr (nf, ys)) \<and>
      nf \<le> length ?ms \<and> length ys = length ?ms \<and> (\<forall>k<nf. unat (ys ! k) = b * prod_list (drop (Suc k) ?ms)) \<and>
      (nf = length ?ms \<or> prod_list (drop nf ?ms) = 1)"
    by (rule reshape_loop_ok [OF wn(1) os(1) wn(2) os(2) bp _ b(2) dn]) (use os(3) len in auto)
  then obtain nf ys where loop: "reshape_loop new (map fst kept @ replicate (length ?sh - length kept) 0)
      (map snd kept @ replicate (kMaxRank - length kept) 1) (length kept) 0 0 (replicate (length new) 0) = Some (Inr (nf, ys))"
    and nf: "nf \<le> length new" "length ys = length new" "\<forall>k<nf. unat (ys ! k) = b * prod_list (drop (Suc k) ?ms)"
      "nf = length new \<or> prod_list (drop nf ?ms) = 1"
    using kl len by auto
  let ?last = "if nf \<ge> 1 then ys ! (nf - 1) else t_bytes_per_element t"
  let ?ss = "take nf ys @ replicate (length new - nf) ?last"
  have drop1: "prod_list (drop k ?ms) = 1" if "nf \<le> k" for k
  proof -
    have "prod_list (drop nf ?ms) = 1" using nf(4) len(3) by auto
    then show ?thesis using prod_drop_le [OF wn(2) that] prod_drop_pos [OF wn(2), of k] by simp
  qed
  have "unat ?last = b" using nf(3) drop1 [of nf] b(1) by (auto dest: spec [of _ "nf - 1"])
  then have dense: "dense b ?ms ?ss"
    using nf drop1 len(3) by (auto simp: dense_def nth_append)
  have rs: "map unat ?ss = row_strides b ?ms"
    using dense_row_strides [of ?ss ?ms b] dense nf len(3) by simp
  have cnt: "unat (t_element_count t) = prod_list ?ns"
    using unat_shape_product [OF ws(1,2), of 1] d(2) t(3,4) by (simp add: shape_size_def)
  have "to_i32 (uint (t_element_count t)) = int (prod_list ?ns)"
  proof -
    have "uint (t_element_count t) = int (prod_list ?ns)" using cnt uint_nat by metis
    moreover have "int (prod_list ?ns) < 2 ^ 31" using d(2) by simp
    ultimately show ?thesis using to_i32_id [of "int (prod_list ?ns)"] by simp
  qed
  moreover have "foldl (\<lambda>c d. to_i32 (c * d)) 1 new = int (prod_list ?ms)"
    using numel_product [OF wn(1,2), of 1] d(2) new(2) by simp
  ultimately have numel: "to_i32 (uint (t_element_count t)) = foldl (\<lambda>c d. to_i32 (c * d)) 1 new"
    using new(2) by simp
  have shape: "mk_shape new = new" "\<not> length new > kMaxRank" using new(1) by (auto simp: mk_shape_def wf_shape_def)
  let ?u = "t\<lparr>t_shape := new, t_strides := ?ss\<rparr>"
  have "noCopyReshape new t = Some (Success, ?u)"
    using numel loop shape by (simp add: noCopyReshape_def kept_def [symmetric] Let_def)
  moreover have "isContiguous ?u"
    by (rule dense_isContiguous) (use new(1) dense b bp in simp_all)
  ultimately show ?thesis using rs by (intro exI [of _ ?u]) simp
qed

theorem no_copy_reshape_dense_witness:
  "\<exists>u. noCopyReshape [5, 1, 6] demo_tensor = Some (Success, u) \<and> map unat (t_strides u) = [24, 24, 4] \<and> isContiguous u"
  using no_copy_reshape_dense [of demo_tensor 4 "[5, 1, 6]"]
  by (fastforce simp: demo_tensor_def wf_tensor_def wf_shape_def shape_valid_def kMaxRank_def shape_size_def u64_of_def
      nat_shape_def dense_def less_Suc_eq numeral_3_eq_3)

section \<open>Singleton dimensions\<close>

text \<open>A dimension of 1 may have any stride: the index 0 is inserted and no address changes.\<close>

lemma offset_insert_zero:
  "length ss = length ix \<Longrightarrow> k \<le> length ss \<Longrightarrow> offset (list_insert_at k s ss) (list_insert_at k 0 ix) = offset ss ix"
proof -
  assume l: "length ss = length ix" "k \<le> length ss"
  have "zip ss ix = zip (take k ss) (take k ix) @ zip (drop k ss) (drop k ix)"
    using zip_append [of "take k ss" "take k ix" "drop k ss" "drop k ix"] l by simp
  then show ?thesis using l by (simp add: offset_def list_insert_at_def)
qed

lemma insertSingletonDim_address:
  assumes "wf_tensor t" "k \<le> length (t_shape t)" "length (t_shape t) < kMaxRank" "length ix = length (t_shape t)"
  shows "\<exists>u. insertSingletonDim k t = Some (Success, u) \<and> address u (list_insert_at k 0 ix) = address t ix"
proof -
  have str: "map (t_stride t) [0..<length (t_shape t)] = t_strides t"
    using assms(1) by (intro nth_equalityI) (auto simp: t_stride_def wf_tensor_def)
  have m: "map unat (list_insert_at k s (t_strides t)) = list_insert_at k (unat s) (map unat (t_strides t))" for s
    by (simp add: list_insert_at_def take_map drop_map)
  show ?thesis using assms str offset_insert_zero [of "map unat (t_strides t)" ix k]
    by (auto simp: insertSingletonDim_def Let_def address_def m wf_tensor_def)
qed

text \<open>Behind the last dimension the new stride is 4 whatever the size of an element, so that a
  contiguous tensor of bytes is no longer reported as contiguous; at the maximal rank the stride array
  is written out of bounds.\<close>

lemma singleton_at_end_not_contiguous:
  "\<exists>u. insertSingletonDim 2 \<lparr>t_shape = [2, 3], t_element_count = 6, t_element_type = kUnsigned8,
      t_bytes_per_element = 1, t_strides = [3, 1]\<rparr> = Some (Success, u) \<and> \<not> isContiguous u"
  by (simp add: insertSingletonDim_def kMaxRank_def list_insert_at_def t_stride_def dimension_def mk_shape_def
      isContiguous_def upt_rec)

lemma singleton_overflow: "length (t_shape t) = kMaxRank \<Longrightarrow> k \<le> kMaxRank \<Longrightarrow> insertSingletonDim k t = None"
  by (simp add: insertSingletonDim_def)

end
