(* ===== verification/Memory_Pools.thy ===== *)
theory Memory_Pools
  imports Tensor_Layout
begin

text \<open>
  The fixed pool of indices (gxf/std/gems/pool/fixed_pool_uint64.hpp), the block memory pool on top
  of it (gxf/std/block_memory_pool.cpp), memory buffers that own a block of an allocator
  (gxf/std/memory_buffer.hpp) and the memory of a tensor (gxf/std/tensor.cpp).  Memory is a range
  of addresses; the null pointer is 0.  What a client may rely on is the locale block_allocator,
  which the block memory pool provides.
\<close>

section \<open>The pool of indices\<close>

datatype pool_error = kUnderflow | kOverflow | kInvalidUid | kPoolOutOfMemory

record FixedPool =
  fp_size :: nat
  fp_next :: nat
  fp_available :: "nat list"
  fp_indices :: "nat list"

definition fp_empty :: FixedPool where
  "fp_empty = \<lparr>fp_size = 0, fp_next = 0, fp_available = [], fp_indices = []\<rparr>"

text \<open>alloc_ok: both arrays could be allocated.\<close>

definition fp_allocate :: "bool \<Rightarrow> nat \<Rightarrow> FixedPool \<Rightarrow> (pool_error + unit) \<times> FixedPool" where
  "fp_allocate alloc_ok n p =
     (if n > 0 \<and> \<not> alloc_ok then (Inl kPoolOutOfMemory, p\<lparr>fp_size := 0, fp_next := 0\<rparr>)
      else (Inr (), \<lparr>fp_size = n, fp_next = 0, fp_available = [0..<n], fp_indices = [0..<n]\<rparr>))"

definition fp_is_available :: "FixedPool \<Rightarrow> bool" where
  "fp_is_available p = (fp_next p < fp_size p)"

definition fp_capacity :: "FixedPool \<Rightarrow> nat" where
  "fp_capacity p = fp_size p"

definition fp_free_count :: "FixedPool \<Rightarrow> nat" where
  "fp_free_count p = size_sub (fp_size p) (fp_next p)"

definition fp_pop :: "FixedPool \<Rightarrow> (pool_error + nat) \<times> FixedPool" where
  "fp_pop p =
     (if fp_next p = fp_size p then (Inl kUnderflow, p)
      else (Inr (fp_available p ! fp_next p), p\<lparr>fp_next := fp_next p + 1\<rparr>))"

definition swap_at :: "nat \<Rightarrow> nat \<Rightarrow> 'a list \<Rightarrow> 'a list" where
  "swap_at i j xs = xs[i := xs ! j, j := xs ! i]"

definition fp_push :: "nat \<Rightarrow> FixedPool \<Rightarrow> (pool_error + unit) \<times> FixedPool" where
  "fp_push item p =
     (if item \<ge> fp_size p then (Inl kOverflow, p)
      else let item_index = fp_indices p ! item in
        if item_index \<ge> fp_next p then (Inl kInvalidUid, p)
        else let next = fp_next p - 1; other = fp_available p ! next
             in (Inr (), p\<lparr>fp_next := next,
                           fp_available := swap_at item_index next (fp_available p),
                           fp_indices := swap_at item other (fp_indices p)\<rparr>))"

text \<open>The two arrays are inverse permutations; the items before next are in use.\<close>

definition inverse_arrays :: "nat \<Rightarrow> nat list \<Rightarrow> nat list \<Rightarrow> bool" where
  "inverse_arrays n av ix \<longleftrightarrow> length av = n \<and> length ix = n \<and>
     (\<forall>i < n. av ! i < n \<and> ix ! (av ! i) = i) \<and> (\<forall>x < n. ix ! x < n \<and> av ! (ix ! x) = x)"

lemma inverse_arraysD:
  assumes "inverse_arrays n av ix" "k < n"
  shows "av ! k < n" "ix ! (av ! k) = k" "ix ! k < n" "av ! (ix ! k) = k"
  using assms unfolding inverse_arrays_def by blast+

lemma inverse_arrays_lengths: "inverse_arrays n av ix \<Longrightarrow> length av = n \<and> length ix = n"
  by (simp add: inverse_arrays_def)

definition fp_inv :: "FixedPool \<Rightarrow> bool" where
  "fp_inv p \<longleftrightarrow> inverse_arrays (fp_size p) (fp_available p) (fp_indices p) \<and> fp_next p \<le> fp_size p"

definition fp_used :: "FixedPool \<Rightarrow> nat set" where
  "fp_used p = {x. x < fp_size p \<and> fp_indices p ! x < fp_next p}"

lemma fp_inv_allocate: "fp_allocate True n p = (r, q) \<Longrightarrow> fp_inv q \<and> fp_used q = {} \<and> fp_size q = n"
  by (auto simp: fp_allocate_def fp_inv_def fp_used_def inverse_arrays_def)

lemma fp_pop_spec:
  assumes inv: "fp_inv p"
  shows "case fp_pop p of
     (Inl e, q) \<Rightarrow> q = p \<and> fp_used p = {x. x < fp_size p}
   | (Inr x, q) \<Rightarrow> fp_inv q \<and> fp_size q = fp_size p \<and> x < fp_size p \<and> x \<notin> fp_used p \<and> fp_used q = insert x (fp_used p)"
proof -
  have perm: "inverse_arrays (fp_size p) (fp_available p) (fp_indices p)" using inv by (simp add: fp_inv_def)
  note D = inverse_arraysD [OF perm]
  show ?thesis
  proof (cases "fp_next p = fp_size p")
    case True
    then show ?thesis using D(3) by (auto simp: fp_pop_def fp_used_def)
  next
    case False
    then have n: "fp_next p < fp_size p" using inv by (simp add: fp_inv_def)
    let ?x = "fp_available p ! fp_next p"
    have "y \<in> {y. y < fp_size p \<and> fp_indices p ! y < Suc (fp_next p)} \<longleftrightarrow> y \<in> insert ?x (fp_used p)" for y
    proof (cases "y = ?x")
      case True
      then show ?thesis using D(1,2) [OF n] by simp
    next
      case False
      then have "y < fp_size p \<Longrightarrow> fp_indices p ! y \<noteq> fp_next p" using D(4) [of y] by metis
      then show ?thesis using False by (auto simp: fp_used_def less_Suc_eq)
    qed
    then have "{y. y < fp_size p \<and> fp_indices p ! y < Suc (fp_next p)} = insert ?x (fp_used p)" by blast
    then show ?thesis using inv n D(1,2) [OF n] False by (simp add: fp_pop_def fp_used_def fp_inv_def)
  qed
qed

lemma nth_swap_at:
  "i < length xs \<Longrightarrow> j < length xs \<Longrightarrow> k < length xs \<Longrightarrow>
   swap_at i j xs ! k = (if k = j then xs ! i else if k = i then xs ! j else xs ! k)"
  by (auto simp: swap_at_def)

lemma length_swap_at [simp]: "length (swap_at i j xs) = length xs"
  by (simp add: swap_at_def)

lemma fp_push_spec:
  assumes inv: "fp_inv p"
  shows "case fp_push x p of
     (Inl e, q) \<Rightarrow> q = p \<and> x \<notin> fp_used p
   | (Inr _, q) \<Rightarrow> fp_inv q \<and> fp_size q = fp_size p \<and> x \<in> fp_used p \<and> fp_used q = fp_used p - {x}"
proof (cases "x < fp_size p \<and> fp_indices p ! x < fp_next p")
  case False
  then show ?thesis by (auto simp: fp_push_def fp_used_def Let_def)
next
  case True
  let ?i = "fp_indices p ! x" and ?n = "fp_next p - 1" and ?o = "fp_available p ! (fp_next p - 1)"
  let ?A = "swap_at ?i ?n (fp_available p)" and ?I = "swap_at x ?o (fp_indices p)"
  have perm: "inverse_arrays (fp_size p) (fp_available p) (fp_indices p)" "fp_next p \<le> fp_size p"
    using inv by (simp_all add: fp_inv_def)
  note av = inverse_arraysD(1,2) [OF perm(1)] and ix = inverse_arraysD(3,4) [OF perm(1)]
  have b: "x < fp_size p" "?i < fp_next p" "?n < fp_size p" "?i < fp_size p" "?i \<le> ?n"
    using True perm(2) by linarith+
  have len: "length (fp_available p) = fp_size p" "length (fp_indices p) = fp_size p"
    using inverse_arrays_lengths [OF perm(1)] by simp_all
  have o: "?o < fp_size p" "fp_indices p ! ?o = ?n" using av [OF b(3)] by simp_all
  have A: "?A ! k = (if k = ?n then x else if k = ?i then ?o else fp_available p ! k)" if "k < fp_size p" for k
    using nth_swap_at [of ?i "fp_available p" ?n k] that b(3,4) len(1) ix(2) [OF b(1)] by simp
  have I: "?I ! y = (if y = ?o then ?i else if y = x then ?n else fp_indices p ! y)" if "y < fp_size p" for y
    using nth_swap_at [of x "fp_indices p" ?o y] that b(1) len(2) o by simp
  have inj: "k = l" if "fp_available p ! k = fp_available p ! l" "k < fp_size p" "l < fp_size p" for k l
    using av(2) [OF that(2)] av(2) [OF that(3)] that(1) by metis
  have injI: "y = z" if "fp_indices p ! y = fp_indices p ! z" "y < fp_size p" "z < fp_size p" for y z
    using ix(2) [OF that(2)] ix(2) [OF that(3)] that(1) by metis
  let ?q = "p\<lparr>fp_next := ?n, fp_available := ?A, fp_indices := ?I\<rparr>"
  have xo: "x = ?o \<longleftrightarrow> ?i = ?n" 
  proof
    assume "x = ?o"
    then show "?i = ?n" using o(2) by simp
  next
    assume "?i = ?n"
    then show "x = ?o" using ix(2) [OF b(1)] by simp
  qed
  have c1: "?A ! k < fp_size p \<and> ?I ! (?A ! k) = k" if k: "k < fp_size p" for k
  proof -
    consider "k = ?n" | "k \<noteq> ?n" "k = ?i" | "k \<noteq> ?n" "k \<noteq> ?i" by blast
    then show ?thesis
    proof cases
      case 1
      then have "?A ! k = x" using A [OF k] by simp
      then show ?thesis using I [OF b(1)] b(1) xo 1 by simp
    next
      case 2
      then have "?A ! k = ?o" using A [OF k] by simp
      then show ?thesis using I [OF o(1)] o(1) 2 by simp
    next
      case 3
      then have a: "?A ! k = fp_available p ! k" using A [OF k] by simp
      have "fp_available p ! k \<noteq> x" using av(2) [OF k] 3 by metis
      moreover have "fp_available p ! k \<noteq> ?o" using inj [OF _ k b(3)] 3 by blast
      ultimately show ?thesis using a I [OF av(1) [OF k]] av [OF k] by simp
    qed
  qed
  have c2: "?I ! y < fp_size p \<and> ?A ! (?I ! y) = y" if y: "y < fp_size p" for y
  proof -
    consider "y = ?o" | "y \<noteq> ?o" "y = x" | "y \<noteq> ?o" "y \<noteq> x" by blast
    then show ?thesis
    proof cases
      case 1
      then have "?I ! y = ?i" using I [OF y] by simp
      then show ?thesis using A [OF b(4)] b(4) xo 1 by simp
    next
      case 2
      then have "?I ! y = ?n" using I [OF y] by simp
      then show ?thesis using A [OF b(3)] b(3) 2 by simp
    next
      case 3
      then have a: "?I ! y = fp_indices p ! y" using I [OF y] by simp
      have "fp_indices p ! y \<noteq> ?n" using ix(2) [OF y] 3 by metis
      moreover have "fp_indices p ! y \<noteq> ?i" using injI [OF _ y b(1)] 3 by blast
      ultimately show ?thesis using a A [OF ix(1) [OF y]] ix [OF y] by simp
    qed
  qed
  have "inverse_arrays (fp_size p) ?A ?I" unfolding inverse_arrays_def using c1 c2 len by simp
  then have q: "fp_inv ?q" using b(3) by (simp add: fp_inv_def)
  have "fp_used ?q = fp_used p - {x}"
  proof (intro set_eqI)
    fix y
    show "y \<in> fp_used ?q \<longleftrightarrow> y \<in> fp_used p - {x}"
    proof (cases "y < fp_size p")
      case True
      have "fp_indices p ! y = ?n \<longleftrightarrow> y = ?o" using injI [OF _ True o(1)] o(2) by metis
      moreover have "?i < ?n \<longleftrightarrow> x \<noteq> ?o" using xo b(5) by linarith
      ultimately show ?thesis using I [OF True] b o True by (auto simp: fp_used_def) linarith+
    qed (simp add: fp_used_def)
  qed
  then show ?thesis using q True b by (auto simp: fp_push_def fp_used_def Let_def)
qed

section \<open>The block memory pool\<close>

datatype AllocatorStage = kUninitializedStage | kInitializationInProgressStage | kInitializedStage | kDeinitializationInProgressStage

record BlockMemoryPool =
  bp_stage :: AllocatorStage
  bp_storage_type :: int
  bp_block_size :: nat
  bp_num_blocks :: nat
  bp_pointer :: nat
  bp_stack :: "FixedPool option"

definition storage_number :: "MemoryStorageType \<Rightarrow> int" where
  "storage_number t = (case t of kHost \<Rightarrow> 0 | kDevice \<Rightarrow> 1 | kSystem \<Rightarrow> 2)"

text \<open>malloc: where memory of the given size is placed, None when there is none; pool_ok: the arrays
  of the pool of indices could be allocated.  The product of the two 64-bit parameters wraps.  For heap
  memory operator new throws instead of returning null, so malloc never is None there.\<close>

definition bp_initialize :: "(nat \<Rightarrow> nat option) \<Rightarrow> bool \<Rightarrow> BlockMemoryPool \<Rightarrow> gxf_result_t \<times> BlockMemoryPool" where
  "bp_initialize malloc pool_ok p =
     (let total_size = (bp_num_blocks p * bp_block_size p) mod 2 ^ 64 in
      if bp_storage_type p \<notin> {0, 1, 2} then (GXF_PARAMETER_OUT_OF_RANGE, p)
      else case malloc total_size of
        None \<Rightarrow> (GXF_OUT_OF_MEMORY, p)
      | Some a \<Rightarrow>
          (case fp_allocate pool_ok (bp_num_blocks p) fp_empty of
             (Inl _, q) \<Rightarrow> (GXF_FAILURE, p\<lparr>bp_pointer := a, bp_stack := Some q\<rparr>)
           | (Inr _, q) \<Rightarrow> (GXF_SUCCESS, p\<lparr>bp_pointer := a, bp_stack := Some q, bp_stage := kInitializedStage\<rparr>)))"

text \<open>The initialised stage implies that the stack is there.\<close>

definition bp_is_available :: "nat \<Rightarrow> BlockMemoryPool \<Rightarrow> gxf_result_t" where
  "bp_is_available n p =
     (if bp_stage p \<noteq> kInitializedStage then GXF_INVALID_LIFECYCLE_STAGE
      else if n \<le> (bp_block_size p * (case bp_stack p of Some q \<Rightarrow> fp_free_count q | None \<Rightarrow> 0)) mod 2 ^ 64
      then GXF_SUCCESS else GXF_FAILURE)"

definition bp_allocate :: "nat \<Rightarrow> int \<Rightarrow> bool \<Rightarrow> BlockMemoryPool \<Rightarrow> nat expected \<times> BlockMemoryPool" where
  "bp_allocate n type out p =
     (if bp_stage p \<noteq> kInitializedStage then (Inl GXF_INVALID_LIFECYCLE_STAGE, p)
      else if \<not> out then (Inl GXF_ARGUMENT_NULL, p)
      else if type \<noteq> bp_storage_type p then (Inl GXF_ARGUMENT_INVALID, p)
      else if n > bp_block_size p then (Inl GXF_ARGUMENT_INVALID, p)
      else case bp_stack p of
        None \<Rightarrow> (Inl GXF_CONTRACT_INVALID_SEQUENCE, p)
      | Some q \<Rightarrow>
          (if bp_is_available n p \<noteq> GXF_SUCCESS then (Inl GXF_EXCEEDING_PREALLOCATED_SIZE, p)
           else case fp_pop q of
             (Inl _, q1) \<Rightarrow> (Inl GXF_FAILURE, p)
           | (Inr index, q1) \<Rightarrow> (Inr (bp_pointer p + index * bp_block_size p), p\<lparr>bp_stack := Some q1\<rparr>)))"

definition bp_free :: "nat \<Rightarrow> BlockMemoryPool \<Rightarrow> gxf_result_t \<times> BlockMemoryPool" where
  "bp_free pointer p =
     (if pointer < bp_pointer p then (GXF_ARGUMENT_OUT_OF_RANGE, p)
      else case bp_stack p of
        None \<Rightarrow> (GXF_CONTRACT_INVALID_SEQUENCE, p)
      | Some q \<Rightarrow>
          (let delta = pointer - bp_pointer p; index = delta div bp_block_size p in
           if index * bp_block_size p \<noteq> delta then (GXF_ARGUMENT_INVALID, p)
           else if index \<ge> fp_capacity q then (GXF_ARGUMENT_OUT_OF_RANGE, p)
           else case fp_push index q of
             (Inl _, q1) \<Rightarrow> (GXF_FAILURE, p)
           | (Inr _, q1) \<Rightarrow> (GXF_SUCCESS, p\<lparr>bp_stack := Some q1\<rparr>)))"

definition bp_deinitialize :: "bool \<Rightarrow> BlockMemoryPool \<Rightarrow> gxf_result_t \<times> BlockMemoryPool" where
  "bp_deinitialize free_ok p =
     (let p1 = p\<lparr>bp_stack := None\<rparr> in
      if bp_storage_type p \<notin> {0, 1, 2} then (GXF_PARAMETER_OUT_OF_RANGE, p1)
      else if bp_storage_type p \<noteq> 2 \<and> \<not> free_ok then (GXF_FAILURE, p1)
      else (GXF_SUCCESS, p1\<lparr>bp_stage := kUninitializedStage\<rparr>))"

text \<open>Allocator::allocate and Allocator::free.\<close>

definition al_allocate :: "nat \<Rightarrow> MemoryStorageType \<Rightarrow> BlockMemoryPool \<Rightarrow> nat expected \<times> BlockMemoryPool" where
  "al_allocate n type p = bp_allocate n (storage_number type) True p"

definition al_free :: "nat \<Rightarrow> BlockMemoryPool \<Rightarrow> unit expected \<times> BlockMemoryPool" where
  "al_free pointer p = (let (code, p1) = bp_free pointer p in (ExpectedOrCode code, p1))"

section \<open>What a client of an allocator may rely on\<close>

locale block_allocator =
  fixes allocate :: "nat \<Rightarrow> MemoryStorageType \<Rightarrow> 's \<Rightarrow> nat expected \<times> 's"
    and release :: "nat \<Rightarrow> 's \<Rightarrow> unit expected \<times> 's"
    and live :: "'s \<Rightarrow> nat set"
    and inv_s :: "'s \<Rightarrow> bool"
  assumes allocate_ok: "inv_s s \<Longrightarrow> allocate n k s = (Inr a, s') \<Longrightarrow>
      inv_s s' \<and> a \<noteq> 0 \<and> a \<notin> live s \<and> live s' = insert a (live s)"
    and allocate_error: "inv_s s \<Longrightarrow> allocate n k s = (Inl e, s') \<Longrightarrow> s' = s"
    and release_ok: "inv_s s \<Longrightarrow> a \<in> live s \<Longrightarrow> release a s = (r, s') \<Longrightarrow>
      r = Success \<and> inv_s s' \<and> live s' = live s - {a}"
    and release_error: "inv_s s \<Longrightarrow> a \<notin> live s \<Longrightarrow> release a s = (r, s') \<Longrightarrow> s' = s \<and> (\<exists>e. r = Inl e)"

text \<open>The pool as an allocator: its memory does not wrap around the address space, and its live blocks
  are those of the indices in use.\<close>

definition bp_inv :: "BlockMemoryPool \<Rightarrow> bool" where
  "bp_inv p \<longleftrightarrow> bp_stage p = kInitializedStage \<and> 0 < bp_block_size p \<and> 0 < bp_pointer p \<and>
     bp_pointer p + bp_num_blocks p * bp_block_size p \<le> 2 ^ 64 \<and>
     (\<exists>q. bp_stack p = Some q \<and> fp_inv q \<and> fp_size q = bp_num_blocks p)"

definition bp_address :: "BlockMemoryPool \<Rightarrow> nat \<Rightarrow> nat" where
  "bp_address p i = bp_pointer p + i * bp_block_size p"

definition bp_live :: "BlockMemoryPool \<Rightarrow> nat set" where
  "bp_live p = (case bp_stack p of None \<Rightarrow> {} | Some q \<Rightarrow> bp_address p ` fp_used q)"

lemma bp_address_inj: "0 < bp_block_size p \<Longrightarrow> bp_address p i = bp_address p j \<longleftrightarrow> i = j"
  by (auto simp: bp_address_def)

lemma bp_initialize_inv:
  assumes "bp_initialize malloc True p = (GXF_SUCCESS, q)" "0 < bp_block_size p" "bp_num_blocks p * bp_block_size p < 2 ^ 64"
    "\<And>n a. malloc n = Some a \<Longrightarrow> 0 < a \<and> a + n \<le> 2 ^ 64"
  shows "bp_inv q \<and> bp_live q = {}"
proof -
  obtain a where a: "malloc (bp_num_blocks p * bp_block_size p) = Some a"
    using assms(1,3) by (auto simp: bp_initialize_def Let_def split: if_splits option.splits)
  obtain r f where f: "fp_allocate True (bp_num_blocks p) fp_empty = (r, f)" by (metis prod.exhaust)
  have r: "r = Inr ()" using f by (auto simp: fp_allocate_def)
  have q: "q = p\<lparr>bp_pointer := a, bp_stack := Some f, bp_stage := kInitializedStage\<rparr>"
    using assms(1,3) a f r by (auto simp: bp_initialize_def Let_def split: if_splits)
  show ?thesis using fp_inv_allocate [OF f] assms(2) assms(4) [OF a] by (simp add: q bp_inv_def bp_live_def)
qed

lemma bp_initialize_frame:
  "bp_initialize malloc b p = (GXF_SUCCESS, q) \<Longrightarrow> bp_num_blocks q = bp_num_blocks p \<and> bp_block_size q = bp_block_size p"
  by (auto simp: bp_initialize_def Let_def split: if_splits option.splits sum.splits prod.splits)

lemma bp_allocate_inv:
  assumes inv: "bp_inv p" and al: "bp_allocate n ty out p = (Inr a, p')"
  shows "bp_inv p' \<and> a \<notin> bp_live p \<and> bp_live p' = insert a (bp_live p) \<and> n \<le> bp_block_size p \<and>
    bp_block_size p' = bp_block_size p \<and> bp_pointer p' = bp_pointer p \<and> bp_num_blocks p' = bp_num_blocks p \<and>
    (\<exists>i < bp_num_blocks p. a = bp_address p i)"
proof -
  obtain q where q: "bp_stack p = Some q" "fp_inv q" "fp_size q = bp_num_blocks p" using inv by (auto simp: bp_inv_def)
  obtain i q1 where pop: "fp_pop q = (Inr i, q1)" and a: "a = bp_address p i" and p': "p' = p\<lparr>bp_stack := Some q1\<rparr>"
    and n: "n \<le> bp_block_size p"
    using al q by (auto simp: bp_allocate_def bp_address_def split: if_splits sum.splits prod.splits)
  note spec = fp_pop_spec [OF q(2), unfolded pop, simplified]
  have "a \<notin> bp_live p" using spec a bp_address_inj inv q by (auto simp: bp_live_def bp_inv_def)
  moreover have "bp_live p' = insert a (bp_live p)"
    using spec a p' q by (auto simp: bp_live_def bp_address_def)
  ultimately show ?thesis using spec inv q p' a n by (auto simp: bp_inv_def)
qed

lemma bp_free_inv:
  assumes inv: "bp_inv p" and fr: "bp_free a p = (r, p')"
  shows "if a \<in> bp_live p then r = GXF_SUCCESS \<and> bp_inv p' \<and> bp_live p' = bp_live p - {a}
    else r \<noteq> GXF_SUCCESS \<and> p' = p"
proof -
  obtain q where q: "bp_stack p = Some q" "fp_inv q" "fp_size q = bp_num_blocks p" using inv by (auto simp: bp_inv_def)
  have b: "0 < bp_block_size p" using inv by (simp add: bp_inv_def)
  let ?i = "(a - bp_pointer p) div bp_block_size p"
  show ?thesis
  proof (cases "bp_pointer p \<le> a \<and> ?i * bp_block_size p = a - bp_pointer p")
    case True
    then have a: "a = bp_address p ?i" by (simp add: bp_address_def)
    have live: "a \<in> bp_live p \<longleftrightarrow> ?i \<in> fp_used q"
      using bp_address_inj [OF b] a q(1) unfolding bp_live_def by (metis image_iff option.simps(5))
    obtain x q1 where push: "fp_push ?i q = (x, q1)" by (metis prod.exhaust)
    note spec = fp_push_spec [OF q(2), of ?i, unfolded push, simplified]
    show ?thesis
    proof (cases x)
      case (Inl e)
      then have "?i \<notin> fp_used q" using spec by simp
      then show ?thesis using fr True q(1) push Inl live
        by (auto simp: bp_free_def fp_capacity_def Let_def split: if_splits)
    next
      case (Inr u)
      then have s: "fp_inv q1" "fp_size q1 = fp_size q" "?i \<in> fp_used q" "fp_used q1 = fp_used q - {?i}" using spec by auto
      have cap: "?i < fp_capacity q" using s(3) by (simp add: fp_used_def fp_capacity_def)
      have p': "r = GXF_SUCCESS" "p' = p\<lparr>bp_stack := Some q1\<rparr>"
        using fr True q(1) push Inr cap by (auto simp: bp_free_def Let_def split: if_splits)
      have adr: "bp_address p' = bp_address p" by (rule ext) (simp add: p'(2) bp_address_def)
      have "bp_live p' = bp_address p ` (fp_used q - {?i})" using s(4) adr by (simp add: bp_live_def p'(2))
      also have "\<dots> = bp_live p - {a}" using bp_address_inj [OF b] a q(1) by (auto simp: bp_live_def)
      finally show ?thesis using p' inv q s live by (simp add: bp_inv_def)
    qed
  next
    case False
    have "a \<notin> bp_live p"
    proof
      assume "a \<in> bp_live p"
      then obtain i where "a = bp_pointer p + i * bp_block_size p" using q(1) by (auto simp: bp_live_def bp_address_def)
      with False b show False by simp
    qed
    then show ?thesis using fr False q(1) by (auto simp: bp_free_def Let_def split: if_splits)
  qed
qed

interpretation block_pool: block_allocator al_allocate al_free bp_live bp_inv
proof unfold_locales
  fix s :: BlockMemoryPool and n k a s'
  assume inv: "bp_inv s"
  { assume "al_allocate n k s = (Inr a, s')"
    then show "bp_inv s' \<and> a \<noteq> 0 \<and> a \<notin> bp_live s \<and> bp_live s' = insert a (bp_live s)"
      using bp_allocate_inv [OF inv, of n "storage_number k" True a s'] inv
      by (auto simp: al_allocate_def bp_inv_def bp_address_def) }
  { fix e assume "al_allocate n k s = (Inl e, s')"
    then show "s' = s" by (auto simp: al_allocate_def bp_allocate_def split: if_splits option.splits sum.splits prod.splits) }
next
  fix s a r s'
  assume inv: "bp_inv s" and r: "al_free a s = (r, s')"
  obtain c where c: "bp_free a s = (c, s')" "r = ExpectedOrCode c" using r by (auto simp: al_free_def split: prod.splits)
  note spec = bp_free_inv [OF inv c(1)]
  { assume "a \<in> bp_live s"
    then show "r = Success \<and> bp_inv s' \<and> bp_live s' = bp_live s - {a}" using spec c(2) by (simp add: ExpectedOrCode_def) }
  { assume "a \<notin> bp_live s"
    then show "s' = s \<and> (\<exists>e. r = Inl e)" using spec c(2) by (simp add: ExpectedOrCode_def) }
qed

text \<open>Any sequence of allocations and frees by clients, with arbitrary sizes and pointers; L is what the
  clients know: the addresses that were handed out and not yet freed with success.\<close>

inductive bp_reach :: "BlockMemoryPool \<Rightarrow> nat set \<Rightarrow> BlockMemoryPool \<Rightarrow> bool" for p0 where
  start: "bp_reach p0 {} p0"
| alloc_ok: "bp_reach p0 L p \<Longrightarrow> bp_allocate n ty out p = (Inr a, p') \<Longrightarrow> bp_reach p0 (insert a L) p'"
| alloc_error: "bp_reach p0 L p \<Longrightarrow> bp_allocate n ty out p = (Inl e, p') \<Longrightarrow> bp_reach p0 L p'"
| free_ok: "bp_reach p0 L p \<Longrightarrow> bp_free a p = (GXF_SUCCESS, p') \<Longrightarrow> bp_reach p0 (L - {a}) p'"
| free_error: "bp_reach p0 L p \<Longrightarrow> bp_free a p = (e, p') \<Longrightarrow> e \<noteq> GXF_SUCCESS \<Longrightarrow> bp_reach p0 L p'"

lemma bp_allocate_error: "bp_allocate n ty out p = (Inl e, p') \<Longrightarrow> p' = p"
  by (auto simp: bp_allocate_def split: if_splits option.splits sum.splits prod.splits)

lemma bp_free_frame:
  "bp_free a p = (r, p') \<Longrightarrow> bp_pointer p' = bp_pointer p \<and> bp_block_size p' = bp_block_size p \<and> bp_num_blocks p' = bp_num_blocks p"
  by (auto simp: bp_free_def Let_def split: if_splits option.splits sum.splits prod.splits)

lemma bp_reach_inv:
  assumes "bp_reach p0 L p" "bp_inv p0" "bp_live p0 = {}"
  shows "bp_inv p \<and> bp_live p = L \<and> bp_address p = bp_address p0 \<and> bp_block_size p = bp_block_size p0 \<and>
    bp_num_blocks p = bp_num_blocks p0"
  using assms(1)
proof (induction rule: bp_reach.induct)
  case start
  then show ?case using assms by simp
next
  case (alloc_ok L p n ty out a p')
  then show ?case using bp_allocate_inv [of p n ty out a p'] by (auto simp: fun_eq_iff bp_address_def)
next
  case (alloc_error L p n ty out e p')
  then show ?case using bp_allocate_error by blast
next
  case (free_ok L p a p')
  then show ?case using bp_free_inv [of p a GXF_SUCCESS p'] bp_free_frame [of a p GXF_SUCCESS p']
    by (auto simp: fun_eq_iff bp_address_def split: if_splits)
next
  case (free_error L p a e p')
  then show ?case using bp_free_inv [of p a e p'] by (auto split: if_splits)
qed

lemma bp_live_blocks:
  assumes "bp_inv p" "a \<in> bp_live p"
  obtains i where "i < bp_num_blocks p" "a = bp_address p i"
  using assms by (auto simp: bp_live_def bp_inv_def fp_used_def)

lemma bp_live_nonzero: "bp_inv p \<Longrightarrow> a \<in> bp_live p \<Longrightarrow> a \<noteq> 0"
  by (auto simp: bp_live_def bp_address_def bp_inv_def)

text \<open>C22: From the initialisation of a block pool, over any sequence of allocations and frees, successful
  or not, every block in the hands of a client lies inside the memory of the pool, two such blocks
  never overlap, and a new allocation never returns a block that somebody still holds.\<close>
theorem block_pool_never_overlaps:
  assumes init: "bp_initialize malloc True c = (GXF_SUCCESS, p0)" "0 < bp_block_size c"
      "bp_num_blocks c * bp_block_size c < 2 ^ 64" "\<And>n a. malloc n = Some a \<Longrightarrow> 0 < a \<and> a + n \<le> 2 ^ 64"
    and reach: "bp_reach p0 L p"
  shows "(\<forall>a\<in>L. bp_pointer p0 \<le> a \<and> a + bp_block_size p0 \<le> bp_pointer p0 + bp_num_blocks c * bp_block_size c) \<and>
    (\<forall>a\<in>L. \<forall>b\<in>L. a \<noteq> b \<longrightarrow> a + bp_block_size p0 \<le> b \<or> b + bp_block_size p0 \<le> a) \<and>
    (\<forall>n ty a. fst (bp_allocate n ty True p) = Inr a \<longrightarrow> a \<notin> L \<and> n \<le> bp_block_size p0)"
proof -
  have p0: "bp_inv p0" "bp_live p0 = {}" "bp_num_blocks p0 = bp_num_blocks c" "bp_block_size p0 = bp_block_size c"
    using bp_initialize_inv [OF init] bp_initialize_frame [OF init(1)] by auto
  have p: "bp_inv p" "bp_live p = L" "bp_address p = bp_address p0" "bp_block_size p = bp_block_size p0"
      "bp_num_blocks p = bp_num_blocks p0"
    using bp_reach_inv [OF reach p0(1,2)] by auto
  have step: "bp_address p0 i + bp_block_size p0 \<le> bp_address p0 j" if "i < j" for i j
  proof -
    have "i * bp_block_size p0 + bp_block_size p0 \<le> j * bp_block_size p0"
      using mult_le_mono1 [of "Suc i" j "bp_block_size p0"] that by simp
    then show ?thesis by (simp add: bp_address_def)
  qed
  have block: "\<exists>i < bp_num_blocks p0. a = bp_address p0 i" if "a \<in> L" for a
    using bp_live_blocks [OF p(1), of a] that p(2,3,5) by metis
  have "bp_pointer p0 \<le> a \<and> a + bp_block_size p0 \<le> bp_address p0 (bp_num_blocks c)" if a: "a \<in> L" for a
  proof -
    obtain i where i: "i < bp_num_blocks p0" "a = bp_address p0 i" using block [OF a] by blast
    then show ?thesis using step [OF i(1)] p0(3) by (simp add: bp_address_def)
  qed
  moreover have "a + bp_block_size p0 \<le> b \<or> b + bp_block_size p0 \<le> a" if ab: "a \<in> L" "b \<in> L" "a \<noteq> b" for a b
  proof -
    obtain i j where ij: "a = bp_address p0 i" "b = bp_address p0 j" using block ab(1,2) by blast
    then have "i \<noteq> j" using ab(3) by auto
    then show ?thesis using step [of i j] step [of j i] ij by (auto simp: linorder_neq_iff)
  qed
  moreover have "a \<notin> L \<and> n \<le> bp_block_size p0" if "fst (bp_allocate n ty True p) = Inr a" for n ty a
    using bp_allocate_inv [OF p(1), of n ty True a "snd (bp_allocate n ty True p)"] that p(2,4) by (auto simp: prod_eq_iff)
  ultimately show ?thesis using p0(4) by (simp add: bp_address_def)
qed

definition demo_pool :: BlockMemoryPool where
  "demo_pool = \<lparr>bp_stage = kInitializedStage, bp_storage_type = 2, bp_block_size = 8, bp_num_blocks = 1, bp_pointer = 64,
     bp_stack = Some \<lparr>fp_size = 1, fp_next = 0, fp_available = [0], fp_indices = [0]\<rparr>\<rparr>"

lemma demo_pool_inv: "bp_inv demo_pool"
  by (simp add: demo_pool_def bp_inv_def fp_inv_def inverse_arrays_def)

definition demo_malloc :: "nat \<Rightarrow> nat option" where
  "demo_malloc n = (if n \<le> 8 then Some 64 else None)"

theorem block_pool_never_overlaps_witness:
  "bp_reach demo_pool {64} (snd (bp_allocate 5 2 True demo_pool)) \<and>
   bp_pointer demo_pool \<le> 64 \<and> 64 + bp_block_size demo_pool \<le> 72"
proof -
  have i: "bp_initialize demo_malloc True (demo_pool\<lparr>bp_stage := kUninitializedStage, bp_stack := None\<rparr>) = (GXF_SUCCESS, demo_pool)"
    by (simp add: demo_pool_def bp_initialize_def demo_malloc_def fp_allocate_def)
  have "fst (bp_allocate 5 2 True demo_pool) = Inr 64"
    by (simp add: demo_pool_def bp_allocate_def bp_is_available_def fp_free_count_def size_sub_def fp_pop_def)
  then have "bp_allocate 5 2 True demo_pool = (Inr 64, snd (bp_allocate 5 2 True demo_pool))" by (simp add: prod_eq_iff)
  from bp_reach.alloc_ok [OF bp_reach.start this]
  have r: "bp_reach demo_pool {64} (snd (bp_allocate 5 2 True demo_pool))" .
  have m: "0 < a \<and> a + n \<le> 2 ^ 64" if "demo_malloc n = Some a" for n a
    using that by (auto simp: demo_malloc_def split: if_splits)
  have "0 < bp_block_size (demo_pool\<lparr>bp_stage := kUninitializedStage, bp_stack := None\<rparr>)"
    "bp_num_blocks (demo_pool\<lparr>bp_stage := kUninitializedStage, bp_stack := None\<rparr>) *
     bp_block_size (demo_pool\<lparr>bp_stage := kUninitializedStage, bp_stack := None\<rparr>) < 2 ^ 64"
    by (simp_all add: demo_pool_def)
  from block_pool_never_overlaps [OF i this m r] r show ?thesis by (simp add: demo_pool_def)
qed

section \<open>Memory buffers\<close>

text \<open>The release function is stored in the buffer, as in the code.\<close>

record 's MemoryBuffer =
  mb_size :: nat
  mb_pointer :: nat
  mb_storage :: MemoryStorageType
  mb_release :: "(nat \<Rightarrow> 's \<Rightarrow> unit expected \<times> 's) option"

definition mb_empty :: "'s MemoryBuffer" where
  "mb_empty = \<lparr>mb_size = 0, mb_pointer = 0, mb_storage = kHost, mb_release = None\<rparr>"

definition mb_freeBuffer :: "'s MemoryBuffer \<times> 's \<Rightarrow> unit expected \<times> 's MemoryBuffer \<times> 's" where
  "mb_freeBuffer = (\<lambda>(b, s). case mb_release b of
     None \<Rightarrow> (Success, b, s)
   | Some f \<Rightarrow>
       (if mb_pointer b = 0 then (Success, b, s)
        else case f (mb_pointer b) s of
          (Inl e, s1) \<Rightarrow> (Inl e, b, s1)
        | (Inr _, s1) \<Rightarrow> (Success, b\<lparr>mb_release := None, mb_pointer := 0, mb_size := 0\<rparr>, s1)))"

definition mb_resize ::
  "(nat \<Rightarrow> MemoryStorageType \<Rightarrow> 's \<Rightarrow> nat expected \<times> 's) \<Rightarrow> (nat \<Rightarrow> 's \<Rightarrow> unit expected \<times> 's) \<Rightarrow>
   nat \<Rightarrow> MemoryStorageType \<Rightarrow> 's MemoryBuffer \<times> 's \<Rightarrow> unit expected \<times> 's MemoryBuffer \<times> 's" where
  "mb_resize allocate release n storage bs = (case mb_freeBuffer bs of
     (Inl e, bs1) \<Rightarrow> (Inl e, bs1)
   | (Inr _, b, s) \<Rightarrow>
       (case allocate n storage s of
          (Inl e, s1) \<Rightarrow> (Inl e, b, s1)
        | (Inr a, s1) \<Rightarrow>
            (Success, \<lparr>mb_size = n, mb_pointer = a, mb_storage = storage, mb_release = Some release\<rparr>, s1)))"

definition mb_wrapMemory ::
  "nat \<Rightarrow> nat \<Rightarrow> MemoryStorageType \<Rightarrow> (nat \<Rightarrow> 's \<Rightarrow> unit expected \<times> 's) option \<Rightarrow>
   's MemoryBuffer \<times> 's \<Rightarrow> unit expected \<times> 's MemoryBuffer \<times> 's" where
  "mb_wrapMemory pointer n storage release = (\<lambda>(b, s).
     let wrap = (\<lambda>b. b\<lparr>mb_storage := storage, mb_size := n, mb_release := release\<rparr>) in
     if pointer \<noteq> mb_pointer b
     then (case mb_freeBuffer (b, s) of
             (Inl e, bs1) \<Rightarrow> (Inl e, bs1)
           | (Inr _, b1, s1) \<Rightarrow> (Success, wrap (b1\<lparr>mb_pointer := pointer\<rparr>), s1))
     else (Success, wrap b, s))"

text \<open>Move assignment: the new target and the emptied source.  What the target held is overwritten
  without being freed.\<close>

definition mb_move :: "'s MemoryBuffer \<Rightarrow> 's MemoryBuffer \<Rightarrow> 's MemoryBuffer \<times> 's MemoryBuffer" where
  "mb_move target other =
     (target\<lparr>mb_size := mb_size other, mb_storage := mb_storage other, mb_pointer := mb_pointer other,
             mb_release := mb_release other\<rparr>,
      other\<lparr>mb_pointer := 0, mb_release := None\<rparr>)"

datatype buffer_op = BResize nat MemoryStorageType | BFree

fun buffer_run ::
  "(nat \<Rightarrow> MemoryStorageType \<Rightarrow> 's \<Rightarrow> nat expected \<times> 's) \<Rightarrow> (nat \<Rightarrow> 's \<Rightarrow> unit expected \<times> 's) \<Rightarrow>
   buffer_op list \<Rightarrow> 's MemoryBuffer \<times> 's \<Rightarrow> 's MemoryBuffer \<times> 's" where
  "buffer_run allocate release [] bs = bs"
| "buffer_run allocate release (BResize n k # ops) bs =
     buffer_run allocate release ops (snd (mb_resize allocate release n k bs))"
| "buffer_run allocate release (BFree # ops) bs = buffer_run allocate release ops (snd (mb_freeBuffer bs))"

context block_allocator
begin

text \<open>A buffer owns nothing, or exactly one live block beside the blocks of others.\<close>

definition owns :: "nat set \<Rightarrow> 's MemoryBuffer \<times> 's \<Rightarrow> bool" where
  "owns others = (\<lambda>(b, s). inv_s s \<and>
     (if mb_pointer b = 0 then live s = others
      else mb_release b = Some release \<and> mb_pointer b \<notin> others \<and> live s = insert (mb_pointer b) others))"

lemma owns_free:
  assumes "owns L bs"
  shows "fst (mb_freeBuffer bs) = Success \<and> owns L (snd (mb_freeBuffer bs)) \<and> mb_pointer (fst (snd (mb_freeBuffer bs))) = 0"
proof -
  obtain b s where bs: "bs = (b, s)" by (cases bs)
  show ?thesis
  proof (cases "mb_pointer b = 0")
    case True
    then show ?thesis using assms bs by (auto simp: owns_def mb_freeBuffer_def split: option.splits)
  next
    case False
    obtain r s1 where r: "release (mb_pointer b) s = (r, s1)" by (metis prod.exhaust)
    have "inv_s s" "mb_pointer b \<in> live s" "mb_release b = Some release" "live s - {mb_pointer b} = L"
      using assms bs False by (auto simp: owns_def)
    then show ?thesis using release_ok [OF _ _ r] r bs False by (auto simp: owns_def mb_freeBuffer_def)
  qed
qed

lemma owns_resize:
  assumes "owns L bs"
  shows "owns L (snd (mb_resize allocate release n k bs))"
proof -
  obtain b1 s1 where f: "mb_freeBuffer bs = (Success, b1, s1)" "owns L (b1, s1)" "mb_pointer b1 = 0"
    using owns_free [OF assms] by (metis prod.collapse fst_conv snd_conv)
  have s1: "inv_s s1" "live s1 = L" using f(2,3) by (auto simp: owns_def)
  obtain r s2 where a: "allocate n k s1 = (r, s2)" by (metis prod.exhaust)
  show ?thesis
  proof (cases r)
    case (Inl e)
    then show ?thesis using allocate_error [OF s1(1)] a f s1 by (auto simp: mb_resize_def owns_def)
  next
    case (Inr x)
    then show ?thesis using allocate_ok [OF s1(1)] a f s1 by (auto simp: mb_resize_def owns_def)
  qed
qed

lemma owns_run: "owns L bs \<Longrightarrow> owns L (buffer_run allocate release ops bs)"
proof (induction ops arbitrary: bs)
  case (Cons op ops)
  then show ?case by (cases op) (auto simp: owns_resize owns_free)
qed simp

lemma buffer_balanced:
  assumes "inv_s s"
  shows "live (snd (snd (mb_freeBuffer (buffer_run allocate release ops (mb_empty, s))))) = live s"
proof -
  have "owns (live s) (mb_empty, s)" using assms by (simp add: owns_def mb_empty_def)
  from owns_free [OF owns_run [OF this, of ops]] show ?thesis by (auto simp: owns_def split: prod.splits)
qed

end



text \<open>Move assignment to a buffer that owns a block leaks it.\<close>

lemma move_leaks: "mb_pointer (fst (mb_move target other)) = mb_pointer other \<and> mb_release (fst (mb_move target other)) = mb_release other"
  by (simp add: mb_move_def)

section \<open>The memory of a tensor\<close>

text \<open>After initializeDLContext the memory of a tensor is a buffer with two owners: the release function
  of the tensor's own buffer and the DLPack context.  tm_pointer is the pointer of the tensor's
  buffer.\<close>

record 's TensorMemory =
  tm_layout :: Tensor
  tm_pointer :: nat
  tm_shared :: "'s MemoryBuffer"
  tm_held_by_release :: bool
  tm_held_by_context :: bool

text \<open>The last owner destroys the shared buffer, which frees its memory; errors are dropped.\<close>

definition tm_drop :: "'s TensorMemory \<times> 's \<Rightarrow> 's TensorMemory \<times> 's" where
  "tm_drop = (\<lambda>(t, s).
     if tm_held_by_release t \<or> tm_held_by_context t then (t, s)
     else let (_, b, s1) = mb_freeBuffer (tm_shared t, s) in (t\<lparr>tm_shared := mb_empty\<rparr>, s1))"

definition tm_freeBuffer :: "'s TensorMemory \<times> 's \<Rightarrow> 's TensorMemory \<times> 's" where
  "tm_freeBuffer = (\<lambda>(t, s).
     if tm_held_by_release t \<and> tm_pointer t \<noteq> 0
     then tm_drop (t\<lparr>tm_pointer := 0, tm_held_by_release := False\<rparr>, s)
     else (t, s))"

definition tm_reshapeCustom ::
  "(nat \<Rightarrow> MemoryStorageType \<Rightarrow> 's \<Rightarrow> nat expected \<times> 's) \<Rightarrow> (nat \<Rightarrow> 's \<Rightarrow> unit expected \<times> 's) \<Rightarrow> bool \<Rightarrow>
   DLDeviceType expected \<Rightarrow> Shape \<Rightarrow> PrimitiveType \<Rightarrow> uint64 \<Rightarrow> uint64 list expected \<Rightarrow> MemoryStorageType \<Rightarrow>
   's TensorMemory \<times> 's \<Rightarrow> (unit expected \<times> 's TensorMemory \<times> 's) option" where
  "tm_reshapeCustom allocate release allocator_ok device sh element_type bytes_per_element strides storage ts =
     (if \<not> allocator_ok then Some (Inl GXF_ARGUMENT_NULL, ts)
      else let (t, s) = tm_freeBuffer ts;
               t1 = t\<lparr>tm_layout := t_set_layout sh element_type bytes_per_element strides (tm_layout t)\<rparr> in
        case mb_resize allocate release (unat (bytes_per_element * t_element_count (tm_layout t1))) storage (mb_empty, s) of
          (Inl e, _, s1) \<Rightarrow> Some (Inl e, t1, s1)
        | (Inr _, b, s1) \<Rightarrow>
            (case initializeDLContext (t_device storage device) (tm_layout t1) of
               None \<Rightarrow> None
             | Some _ \<Rightarrow>
                 (let (t2, s2) = tm_drop (t1\<lparr>tm_held_by_context := False\<rparr>, s1)
                  in Some (Success, t2\<lparr>tm_pointer := mb_pointer b, tm_shared := b, tm_held_by_release := True,
                                       tm_held_by_context := True\<rparr>, s2))))"

text \<open>Reshaping a tensor that owns memory of a pool with no free block fails, although the block of
  the tensor itself would be enough: the DLPack context keeps the old memory alive until the new memory
  has been allocated.  The tensor is left with the new shape and no memory, and the block stays in
  use.\<close>
theorem reshape_needs_second_block:
  assumes pool: "bp_inv s" "bp_stack s = Some q" "fp_next q = fp_size q" "bp_num_blocks s < 2 ^ 64"
    and t: "tm_held_by_release t" "tm_held_by_context t" "tm_pointer t \<in> bp_live s"
    and n: "0 < unat (bpe * shape_size sh)" "unat (bpe * shape_size sh) \<le> bp_block_size s"
      "storage_number storage = bp_storage_type s"
  shows "\<exists>t'. tm_reshapeCustom al_allocate al_free True device sh ty bpe strides storage (t, s) =
      Some (Inl GXF_EXCEEDING_PREALLOCATED_SIZE, t', s) \<and>
    t_shape (tm_layout t') = sh \<and> tm_pointer t' = 0 \<and> tm_pointer t \<in> bp_live s"
proof -
  have "tm_pointer t \<noteq> 0" by (rule bp_live_nonzero [OF pool(1) t(3)])
  moreover have "fp_free_count q = 0"
    using pool by (simp add: fp_free_count_def bp_inv_def size_sub_ge)
  then have "bp_is_available (unat (bpe * shape_size sh)) s = GXF_FAILURE"
    using pool n(1) by (auto simp: bp_is_available_def bp_inv_def)
  then have "al_allocate (unat (bpe * shape_size sh)) storage s = (Inl GXF_EXCEEDING_PREALLOCATED_SIZE, s)"
    using pool n by (auto simp: al_allocate_def bp_allocate_def bp_inv_def)
  ultimately show ?thesis using t
    by (simp add: tm_reshapeCustom_def tm_freeBuffer_def tm_drop_def t_set_layout_def mb_resize_def mb_freeBuffer_def
        mb_empty_def)
qed

definition full_pool :: BlockMemoryPool where
  "full_pool = demo_pool\<lparr>bp_stack := Some \<lparr>fp_size = 1, fp_next = 1, fp_available = [0], fp_indices = [0]\<rparr>\<rparr>"

theorem reshape_needs_second_block_witness:
  "\<exists>t'. tm_reshapeCustom al_allocate al_free True (Inr kDLCPU) [2] kUnsigned8 1 (Inl GXF_UNINITIALIZED_VALUE) kSystem
     (\<lparr>tm_layout = demo_tensor, tm_pointer = 64,
        tm_shared = \<lparr>mb_size = 8, mb_pointer = 64, mb_storage = kSystem, mb_release = Some al_free\<rparr>,
        tm_held_by_release = True, tm_held_by_context = True\<rparr>, full_pool) =
     Some (Inl GXF_EXCEEDING_PREALLOCATED_SIZE, t', full_pool) \<and> tm_pointer t' = 0"
proof -
  have "bp_inv full_pool" by (simp add: full_pool_def demo_pool_def bp_inv_def fp_inv_def inverse_arrays_def)
  moreover have "64 \<in> bp_live full_pool"
    by (auto simp: full_pool_def demo_pool_def bp_live_def fp_used_def bp_address_def)
  ultimately show ?thesis
    using reshape_needs_second_block [of full_pool "\<lparr>fp_size = 1, fp_next = 1, fp_available = [0], fp_indices = [0]\<rparr>"
      "\<lparr>tm_layout = demo_tensor, tm_pointer = 64,
        tm_shared = \<lparr>mb_size = 8, mb_pointer = 64, mb_storage = kSystem, mb_release = Some al_free\<rparr>,
        tm_held_by_release = True, tm_held_by_context = True\<rparr>" 1 "[2]" kSystem "Inr kDLCPU" kUnsigned8]
    by (auto simp: full_pool_def demo_pool_def shape_size_def u64_of_def storage_number_def)
qed

end
