(* ===== verification/First_Fit_Allocator.thy ===== *)
theory First_Fit_Allocator
  imports Prelude "HOL-Library.While_Combinator" "HOL-Library.Signed_Division"
begin

text \<open>
  gxf/std/gems/suballocators/first_fit_allocator_base.cpp and first_fit_allocator.hpp: an allocator
  of index ranges on a segment tree, and the allocator of chunks of a buffer on top of it.  The tree
  is an array whose node i has the children 2 i and 2 i + 1.  None as a result is undefined behaviour:
  an access outside of the array, the dereference of a null pointer or the overflow of an int32_t.
  The reference is a list of allocated blocks that is searched for the first gap.
\<close>

section \<open>Nodes of the tree\<close>

record Memory =
  m_left :: int
  m_right :: int
  m_max :: int
  m_size :: int

definition mem_update :: "Memory \<Rightarrow> Memory \<Rightarrow> Memory \<Rightarrow> Memory" where
  "mem_update left_child right_child m = m\<lparr>
     m_left := (if m_size left_child = m_left left_child then m_size left_child + m_left right_child
                else m_left left_child),
     m_right := (if m_size right_child = m_right right_child then m_size right_child + m_right left_child
                 else m_right right_child),
     m_max := max (m_left right_child + m_right left_child) (max (m_max right_child) (m_max left_child))\<rparr>"

definition mem_set :: "int \<Rightarrow> Memory \<Rightarrow> Memory" where
  "mem_set free m = m\<lparr>m_left := m_size m * free, m_right := m_size m * free, m_max := m_size m * free\<rparr>"

definition mem_leaf :: "int \<Rightarrow> Memory" where
  "mem_leaf v = \<lparr>m_left = v, m_right = v, m_max = v, m_size = v\<rparr>"

section \<open>The allocator of indices\<close>

datatype ff_error = kAlreadyInUse | kInvalidSize | kOutOfMemory | kBlockNotAllocated | kLogicError

record FirstFitAllocatorBase =
  ff_tree :: "Memory list option"
  ff_size :: int
  ff_first :: nat

definition ff_new :: FirstFitAllocatorBase where
  "ff_new = \<lparr>ff_tree = None, ff_size = 0, ff_first = 0\<rparr>"

text \<open>propagateToRoot recomputes a node and its ancestors.\<close>

definition recompute :: "nat \<Rightarrow> Memory list \<Rightarrow> Memory list" where
  "recompute idx t = t[idx := mem_update (t ! (2 * idx)) (t ! (2 * idx + 1)) (t ! idx)]"

fun propagateToRoot :: "Memory list \<Rightarrow> nat \<Rightarrow> Memory list option" where
  "propagateToRoot t idx =
     (if idx = 0 then Some t
      else if 2 * idx + 1 < length t then propagateToRoot (recompute idx t) (idx div 2)
      else None)"

declare propagateToRoot.simps [simp del]

definition touch :: "int \<Rightarrow> nat \<Rightarrow> Memory list \<Rightarrow> Memory list option" where
  "touch free i t =
     (if i < length t then propagateToRoot (t[i := mem_set free (t ! i)]) (i div 2) else None)"

text \<open>The loop of update.  Both ends move to the parent, after the subtree that sticks out has been
  marked.  It does not end for a left end of 0, hence the partial function.\<close>

partial_function (option) update_loop :: "int \<Rightarrow> Memory list \<Rightarrow> nat \<Rightarrow> nat \<Rightarrow> Memory list option" where
  "update_loop free t left right =
     (if right < left then Some t
      else Option.bind (if odd left then touch free left t else Some t) (\<lambda>t1.
           Option.bind (if even right then touch free right t1 else Some t1) (\<lambda>t2.
           update_loop free t2 (if odd left then (left + 1) div 2 else left div 2)
                       (if odd right then right div 2 else (right - 1) div 2))))"

text \<open>A right end below zero is below every left end, as zero is.\<close>

definition ff_update :: "nat \<Rightarrow> int \<Rightarrow> int \<Rightarrow> int \<Rightarrow> Memory list \<Rightarrow> Memory list option" where
  "ff_update first left right free t =
     update_loop free t (nat (left + int first)) (nat (right + int first - 1))"

text \<open>The smallest power of 2 that is not below the size.\<close>

definition last_layer :: "int \<Rightarrow> nat option" where
  "last_layer n = while_option (\<lambda>k. int k < n) (\<lambda>k. k * 2) 1"

text \<open>The tree of allocate: the leaves first, then the inner nodes backwards.  The array is not
  initialised before; every field but those of entry 0 is written, and entry 0 is never read.\<close>

definition build_node :: "nat \<Rightarrow> Memory list \<Rightarrow> Memory list" where
  "build_node idx t = recompute idx
     (t[idx := (t ! idx)\<lparr>m_size := m_size (t ! (2 * idx)) + m_size (t ! (2 * idx + 1))\<rparr>])"

definition build_tree :: "int \<Rightarrow> nat \<Rightarrow> Memory list" where
  "build_tree n first =
     fold build_node (rev [1..<first])
       (replicate first (mem_leaf 0) @ map (\<lambda>idx. if int idx < n then mem_leaf 1 else mem_leaf 0) [0..<first])"

text \<open>The flag tells whether operator new succeeds.  The number of nodes is an int32_t.\<close>

definition ff_allocate :: "int \<Rightarrow> bool \<Rightarrow> FirstFitAllocatorBase
    \<Rightarrow> ((ff_error + unit) \<times> FirstFitAllocatorBase) option" where
  "ff_allocate n mem m =
     (if (case ff_tree m of None \<Rightarrow> False | Some t \<Rightarrow> m_max (t ! 1) \<noteq> ff_size m) then Some (Inl kAlreadyInUse, m)
      else if n \<le> 0 \<or> n \<ge> 2 ^ 30 then Some (Inl kInvalidSize, m)
      else Option.bind (last_layer n) (\<lambda>first.
        if int first * 2 \<ge> 2 ^ 31 then None
        else if \<not> mem then Some (Inl kOutOfMemory, m\<lparr>ff_tree := None, ff_size := n, ff_first := first\<rparr>)
        else Some (Inr (), m\<lparr>ff_tree := Some (build_tree n first), ff_size := n, ff_first := first\<rparr>)))"

definition ff_release :: "int \<Rightarrow> FirstFitAllocatorBase \<Rightarrow> ((ff_error + unit) \<times> FirstFitAllocatorBase) option" where
  "ff_release index m =
     (if index < 0 \<or> index \<ge> ff_size m then Some (Inl kInvalidSize, m)
      else Option.bind (ff_tree m) (\<lambda>t. let leaf = ff_first m + nat index in
        if leaf \<ge> length t then None
        else if m_max (t ! leaf) \<noteq> -1 then Some (Inl kBlockNotAllocated, m)
        else let n = m_size (t ! leaf); t1 = t[leaf := (t ! leaf)\<lparr>m_size := 1, m_max := 1\<rparr>] in
          Option.bind (ff_update (ff_first m) index (index + n) 1 t1) (\<lambda>t2.
            Some (Inr (), m\<lparr>ff_tree := Some t2\<rparr>))))"

text \<open>The block found: it is marked as acquired, and its size is stored in the leaf of its start.\<close>

definition ff_take :: "nat \<Rightarrow> int \<Rightarrow> int \<Rightarrow> Memory list \<Rightarrow> ((ff_error + int) \<times> Memory list) option" where
  "ff_take first index n t =
     Option.bind (ff_update first index (index + n) 0 t) (\<lambda>t1. let leaf = first + nat index in
       if leaf \<ge> length t1 then None
       else Some (Inr index, t1[leaf := (t1 ! leaf)\<lparr>m_max := -1, m_size := n\<rparr>]))"

partial_function (option) acquire_loop
    :: "nat \<Rightarrow> int \<Rightarrow> Memory list \<Rightarrow> nat \<Rightarrow> int \<Rightarrow> ((ff_error + int) \<times> Memory list) option" where
  "acquire_loop first n t idx index =
     (if idx \<ge> 2 * first then Some (Inl kLogicError, t)
      else if idx \<ge> length t then None
      else if m_left (t ! idx) \<ge> n then ff_take first index n t
      else if 2 * idx + 1 \<ge> length t then None
      else if m_max (t ! (2 * idx)) \<ge> n then acquire_loop first n t (idx * 2) index
      else if m_right (t ! (2 * idx)) + m_left (t ! (2 * idx + 1)) \<ge> n
        then ff_take first (index + (m_size (t ! (2 * idx)) - m_right (t ! (2 * idx)))) n t
      else acquire_loop first n t (idx * 2 + 1) (index + m_size (t ! (2 * idx))))"

declare update_loop.simps [code] acquire_loop.simps [code]

definition ff_acquire :: "int \<Rightarrow> FirstFitAllocatorBase \<Rightarrow> ((ff_error + int) \<times> FirstFitAllocatorBase) option" where
  "ff_acquire n m = (case ff_tree m of
     None \<Rightarrow> Some (Inl kOutOfMemory, m)
   | Some t \<Rightarrow>
       if m_max (t ! 1) < n then Some (Inl kOutOfMemory, m)
       else Option.bind (acquire_loop (ff_first m) n t 1 0) (\<lambda>(r, t1).
         Some (r, m\<lparr>ff_tree := Some t1\<rparr>)))"

section \<open>Runs of free indices\<close>

text \<open>A list of flags tells which indices of a range are free.  The fields of a node are the free
  prefix, the free suffix and the longest run of its range.\<close>

definition prefix_free :: "bool list \<Rightarrow> nat" where
  "prefix_free xs = length (takeWhile id xs)"

definition suffix_free :: "bool list \<Rightarrow> nat" where
  "suffix_free xs = prefix_free (rev xs)"

fun max_run :: "bool list \<Rightarrow> nat" where
  "max_run [] = 0"
| "max_run (x # xs) = max (prefix_free (x # xs)) (max_run xs)"

text \<open>The least index from which n indices are free.\<close>

fun first_fit :: "nat \<Rightarrow> bool list \<Rightarrow> nat option" where
  "first_fit n xs =
     (if n \<le> prefix_free xs then Some 0
      else (case xs of [] \<Rightarrow> None | x # ys \<Rightarrow> map_option Suc (first_fit n ys)))"

declare first_fit.simps [simp del]

lemma prefix_free_simps [simp]:
  "prefix_free [] = 0" "prefix_free (x # xs) = (if x then Suc (prefix_free xs) else 0)"
  by (simp_all add: prefix_free_def)

lemma prefix_free_le: "prefix_free xs \<le> length xs"
  by (simp add: prefix_free_def length_takeWhile_le)

lemma prefix_free_full: "prefix_free xs = length xs \<longleftrightarrow> (\<forall>x\<in>set xs. x)"
proof (induction xs)
  case (Cons x xs)
  then show ?case using prefix_free_le [of xs] by auto
qed simp

lemma prefix_free_append:
  "prefix_free (xs @ ys) = (if prefix_free xs = length xs then length xs + prefix_free ys else prefix_free xs)"
  by (induction xs) auto

lemma suffix_free_append:
  "suffix_free (xs @ ys) = (if suffix_free ys = length ys then length ys + suffix_free xs else suffix_free ys)"
  by (simp add: suffix_free_def prefix_free_append)

lemma suffix_free_le: "suffix_free xs \<le> length xs"
  using prefix_free_le [of "rev xs"] by (simp add: suffix_free_def)

lemma suffix_free_Cons:
  "suffix_free (x # xs) = (if suffix_free xs = length xs \<and> x then Suc (length xs) else suffix_free xs)"
  using suffix_free_append [of "[x]" xs] by (simp add: suffix_free_def)

lemma suffix_free_full: "suffix_free xs = length xs \<longleftrightarrow> (\<forall>x\<in>set xs. x)"
  using prefix_free_full [of "rev xs"] by (simp add: suffix_free_def)

lemma max_run_ge_prefix: "prefix_free xs \<le> max_run xs"
  by (cases xs) auto

lemma max_run_le: "max_run xs \<le> length xs"
proof (induction xs)
  case (Cons x xs)
  then show ?case using prefix_free_le [of xs] by auto
qed simp

lemma max_run_append:
  "max_run (xs @ ys) = max (prefix_free ys + suffix_free xs) (max (max_run ys) (max_run xs))"
proof (induction xs)
  case Nil
  then show ?case using max_run_ge_prefix [of ys] by (simp add: suffix_free_def)
next
  case (Cons x xs)
  have "suffix_free xs = length xs \<longleftrightarrow> prefix_free xs = length xs"
    by (simp only: suffix_free_full prefix_free_full)
  then show ?case using Cons max_run_ge_prefix [of xs] prefix_free_le [of xs]
    by (auto simp: prefix_free_append suffix_free_Cons)
qed

lemma max_run_all: "(\<forall>x\<in>set xs. x) \<Longrightarrow> max_run xs = length xs"
  by (metis le_antisym max_run_ge_prefix max_run_le prefix_free_full)

lemma max_run_none: "(\<forall>x\<in>set xs. \<not> x) \<Longrightarrow> max_run xs = 0 \<and> prefix_free xs = 0"
  by (induction xs) auto

lemma suffix_free_none: "(\<forall>x\<in>set xs. \<not> x) \<Longrightarrow> suffix_free xs = 0"
  using max_run_none [of "rev xs"] by (simp add: suffix_free_def)

lemma max_run_full: "max_run xs = length xs \<longleftrightarrow> (\<forall>x\<in>set xs. x)"
proof
  assume m: "max_run xs = length xs"
  show "\<forall>x\<in>set xs. x"
  proof (cases xs)
    case (Cons y ys)
    then show ?thesis using m max_run_le [of ys] prefix_free_full [of xs] by (auto simp: max_def split: if_splits)
  qed simp
qed (rule max_run_all)

lemma first_fit_Some_iff: "(\<exists>k. first_fit n xs = Some k) \<longleftrightarrow> n \<le> max_run xs"
proof (induction xs)
  case (Cons x xs)
  then show ?case by (subst first_fit.simps) (auto simp: le_max_iff_disj)
qed (simp add: first_fit.simps)

lemma first_fit_prefix: "n \<le> prefix_free xs \<Longrightarrow> first_fit n xs = Some 0"
  by (subst first_fit.simps) simp

lemma first_fit_append_left: "n \<le> max_run xs \<Longrightarrow> first_fit n (xs @ ys) = first_fit n xs"
proof (induction xs)
  case Nil
  then show ?case by (simp add: first_fit.simps)
next
  case (Cons x xs)
  show ?case
  proof (cases "n \<le> prefix_free (x # xs)")
    case True
    then have "n \<le> prefix_free ((x # xs) @ ys)" using prefix_free_le [of "x # xs"]
      by (metis le_trans prefix_free_append le_add1)
    then show ?thesis using True by (simp only: first_fit_prefix)
  next
    case False
    then have m: "n \<le> max_run xs" using Cons.prems by auto
    have "\<not> n \<le> prefix_free ((x # xs) @ ys)"
    proof
      assume *: "n \<le> prefix_free ((x # xs) @ ys)"
      then have "prefix_free (x # xs) = length (x # xs)" using False by (metis prefix_free_append)
      then show False using False max_run_le [of xs] m by auto
    qed
    then show ?thesis using False Cons.IH [OF m] by (simp add: first_fit.simps [of n "x # _"])
  qed
qed

lemma first_fit_append_between:
  assumes "\<not> n \<le> max_run xs" "n \<le> suffix_free xs + prefix_free ys"
  shows "first_fit n (xs @ ys) = Some (length xs - suffix_free xs)"
  using assms
proof (induction xs)
  case Nil
  then show ?case by (simp add: suffix_free_def first_fit_prefix)
next
  case (Cons x xs)
  have m: "\<not> n \<le> max_run xs" "\<not> n \<le> prefix_free (x # xs)" using Cons.prems by auto
  show ?case
  proof (cases "suffix_free (x # xs) = Suc (length xs)")
    case True
    then have "prefix_free (x # xs) = length (x # xs)" by (metis length_Cons prefix_free_full suffix_free_full)
    then have "n \<le> prefix_free ((x # xs) @ ys)" using Cons.prems(2) True by (simp add: prefix_free_append del: append_Cons)
    then show ?thesis using True by (simp only: first_fit_prefix) simp
  next
    case False
    then have s: "suffix_free (x # xs) = suffix_free xs" by (simp add: suffix_free_Cons split: if_splits)
    have "prefix_free (x # xs) \<noteq> length (x # xs)"
      using False suffix_free_full [of "x # xs"] prefix_free_full [of "x # xs"] by simp
    then have "\<not> n \<le> prefix_free ((x # xs) @ ys)" using m(2) by (metis prefix_free_append)
    then show ?thesis using s Cons.IH [OF m(1)] Cons.prems(2) suffix_free_le [of xs]
      by (simp add: first_fit.simps [of n "x # _"] Suc_diff_le)
  qed
qed

lemma first_fit_append_right:
  assumes "\<not> n \<le> max_run xs" "\<not> n \<le> suffix_free xs + prefix_free ys"
  shows "first_fit n (xs @ ys) = map_option ((+) (length xs)) (first_fit n ys)"
  using assms
proof (induction xs)
  case Nil
  then show ?case by (simp add: option.map_ident)
next
  case (Cons x xs)
  have m: "\<not> n \<le> max_run xs" "\<not> n \<le> prefix_free (x # xs)" using Cons.prems by auto
  have "\<not> n \<le> suffix_free xs + prefix_free ys" using Cons.prems(2)
    by (auto simp: suffix_free_Cons split: if_splits)
  note IH = Cons.IH [OF m(1) this]
  have "\<not> n \<le> prefix_free ((x # xs) @ ys)"
  proof
    assume *: "n \<le> prefix_free ((x # xs) @ ys)"
    then have f: "prefix_free (x # xs) = length (x # xs)" using m(2) by (metis prefix_free_append)
    then have "suffix_free (x # xs) = length (x # xs)" by (simp only: suffix_free_full prefix_free_full)
    then show False using * Cons.prems(2) f by (simp add: prefix_free_append del: append_Cons prefix_free_simps)
  qed
  then show ?case using IH by (simp add: first_fit.simps [of n "x # _"] option.map_comp comp_def)
qed

text \<open>The reference really finds the first gap.\<close>

definition gap_at :: "nat \<Rightarrow> bool list \<Rightarrow> nat \<Rightarrow> bool" where
  "gap_at n xs k \<longleftrightarrow> k + n \<le> length xs \<and> (\<forall>i<n. xs ! (k + i))"

lemma prefix_free_ge: "n \<le> prefix_free xs \<longleftrightarrow> gap_at n xs 0"
proof (induction xs arbitrary: n)
  case (Cons x xs)
  then show ?case by (cases n) (auto simp: gap_at_def All_less_Suc2)
qed (auto simp: gap_at_def)

lemma gap_at_Suc: "gap_at n (x # xs) (Suc k) \<longleftrightarrow> gap_at n xs k"
  by (simp add: gap_at_def)

lemma first_fit_least: "first_fit n xs = Some k \<longleftrightarrow> gap_at n xs k \<and> (\<forall>j<k. \<not> gap_at n xs j)"
proof (induction xs arbitrary: k)
  case Nil
  then show ?case by (cases k) (auto simp: first_fit.simps prefix_free_ge gap_at_def)
next
  case (Cons x xs)
  then show ?case
    by (cases k) (auto simp: first_fit.simps [of n "x # _"] prefix_free_ge gap_at_Suc All_less_Suc2 Ball_def
      simp del: prefix_free_simps)
qed

lemma first_fit_None: "first_fit n xs = None \<longleftrightarrow> (\<forall>k. \<not> gap_at n xs k)"
proof -
  have "gap_at n xs k \<Longrightarrow> \<exists>l. first_fit n xs = Some l" for k
    using first_fit_least by (metis exists_least_iff)
  then show ?thesis using first_fit_least by (metis option.distinct(1) option.exhaust)
qed

section \<open>What the tree represents\<close>

text \<open>The tree has L leaves, of which the first sz stand for indices.  Node i at height h stands for
  the indices from i 2^h - L; f tells which indices are free.\<close>

definition wf_node :: "nat \<Rightarrow> nat \<Rightarrow> nat \<Rightarrow> bool" where
  "wf_node L i h \<longleftrightarrow> L \<le> i * 2 ^ h \<and> (i + 1) * 2 ^ h \<le> 2 * L"

definition node_range :: "nat \<Rightarrow> nat \<Rightarrow> nat \<Rightarrow> nat set" where
  "node_range L i h = {i * 2 ^ h - L ..< (i + 1) * 2 ^ h - L}"

definition seg :: "nat \<Rightarrow> nat \<Rightarrow> (nat \<Rightarrow> bool) \<Rightarrow> nat \<Rightarrow> nat \<Rightarrow> bool list" where
  "seg L sz f i h = map f [i * 2 ^ h - L ..< min ((i + 1) * 2 ^ h - L) sz]"

text \<open>A node holds the runs of its range.  The leaf of the start of an acquired block has the mark -1
  and the size of the block.  Below a node that a block has closed the tree is left as if all its indices
  were free, so that opening the node again makes the whole subtree right.\<close>

definition node_ok :: "nat \<Rightarrow> nat \<Rightarrow> Memory list \<Rightarrow> (nat \<rightharpoonup> nat) \<Rightarrow> (nat \<Rightarrow> bool) \<Rightarrow> nat \<Rightarrow> nat \<Rightarrow> bool" where
  "node_ok L sz t M f i h \<longleftrightarrow> (let xs = seg L sz f i h; m = t ! i in
     m_left m = int (prefix_free xs) \<and> m_right m = int (suffix_free xs) \<and>
     (case (if h = 0 then M (i - L) else None) of
        Some n \<Rightarrow> m_max m = -1 \<and> m_size m = int n
      | None \<Rightarrow> m_max m = int (max_run xs) \<and> m_size m = int (length xs)))"

fun tree_ok :: "nat \<Rightarrow> nat \<Rightarrow> Memory list \<Rightarrow> (nat \<rightharpoonup> nat) \<Rightarrow> nat set \<Rightarrow> (nat \<Rightarrow> bool) \<Rightarrow> nat \<Rightarrow> nat \<Rightarrow> bool" where
  "tree_ok L sz t M D f i 0 = node_ok L sz t M f i 0"
| "tree_ok L sz t M D f i (Suc h) =
     (node_ok L sz t M f i (Suc h) \<and>
      (let g = (if i \<in> D then (\<lambda>_. True) else f) in
       tree_ok L sz t M D g (2 * i) h \<and> tree_ok L sz t M D g (2 * i + 1) h))"

lemma wf_node_children: "wf_node L i (Suc h) \<Longrightarrow> wf_node L (2 * i) h \<and> wf_node L (2 * i + 1) h"
  by (auto simp: wf_node_def algebra_simps)

lemma wf_node_child_conv: "2 * i * 2 ^ h = i * 2 ^ Suc h" for i :: nat
  by simp

lemma seg_children:
  assumes "wf_node L i (Suc h)"
  shows "seg L sz f i (Suc h) = seg L sz f (2 * i) h @ seg L sz f (2 * i + 1) h"
proof -
  let ?a = "i * 2 ^ Suc h - L" and ?b = "(2 * i + 1) * 2 ^ h - L" and ?c = "(i + 1) * 2 ^ Suc h - L"
  have le: "?a \<le> ?b" "?b \<le> ?c" by (simp_all add: algebra_simps diff_le_mono)
  have c: "(2 * i + 1 + 1) * 2 ^ h = (i + 1) * 2 ^ Suc h" by (simp add: algebra_simps)
  have "[?a ..< min ?c sz] = [?a ..< min ?b sz] @ [?b ..< min ?c sz]"
  proof (cases "sz \<le> ?b")
    case True
    then have "min ?c sz = sz" "min ?b sz = sz" using le by linarith+
    then show ?thesis using True by simp
  next
    case False
    then have "min ?b sz = ?b" "?b \<le> min ?c sz" using le by simp_all
    then show ?thesis using le(1) upt_add_eq_append [of ?a ?b "min ?c sz - ?b"] by simp
  qed
  then show ?thesis by (simp only: seg_def map_append c wf_node_child_conv)
qed

lemma seg_cong: "(\<And>x. x \<in> node_range L i h \<Longrightarrow> x < sz \<Longrightarrow> f x = g x) \<Longrightarrow> seg L sz f i h = seg L sz g i h"
  by (auto simp: seg_def node_range_def)

lemma set_seg: "set (seg L sz f i h) = f ` {x \<in> node_range L i h. x < sz}"
  by (auto simp: seg_def node_range_def)

lemma node_range_children:
  "wf_node L i (Suc h) \<Longrightarrow> node_range L i (Suc h) = node_range L (2 * i) h \<union> node_range L (2 * i + 1) h"
  by (auto simp: node_range_def algebra_simps)

lemma node_range_siblings: "wf_node L i (Suc h) \<Longrightarrow> node_range L (2 * i) h \<inter> node_range L (2 * i + 1) h = {}"
  by (auto simp: node_range_def algebra_simps)

lemma node_range_up: "node_range L c h \<subseteq> node_range L (c div 2 ^ e) (h + e)"
proof -
  have le: "c div 2 ^ e * 2 ^ e \<le> c" "c + 1 \<le> (c div 2 ^ e + 1) * 2 ^ e"
    using dividend_less_div_times [of "2 ^ e" c] by (simp_all add: Suc_le_eq add.commute)
  have eq: "d * 2 ^ (h + e) = d * 2 ^ e * 2 ^ h" for d :: nat by (simp add: power_add ac_simps)
  have "c div 2 ^ e * 2 ^ (h + e) \<le> c * 2 ^ h" "(c + 1) * 2 ^ h \<le> (c div 2 ^ e + 1) * 2 ^ (h + e)"
    unfolding eq using le by (auto intro: mult_le_mono1 simp del: add_mult_distrib mult_Suc)
  then show ?thesis unfolding node_range_def by (simp only: ivl_subset diff_le_mono simp_thms)
qed

text \<open>The height of a node is determined by its number.\<close>

lemma wf_node_height:
  assumes "wf_node L i h" "wf_node L i k" shows "h = k"
proof -
  have aux: False if "wf_node L i a" "wf_node L i b" "a < b" for a b
  proof -
    have "2 ^ Suc a \<le> (2 :: nat) ^ b" using that(3) by (intro power_increasing) auto
    then have "(i + 1) * (2 * 2 ^ a) \<le> (i + 1) * 2 ^ b" by (intro mult_le_mono2) simp
    then have "(i + 1) * (2 * 2 ^ a) \<le> 2 * L" using that by (simp add: wf_node_def)
    moreover have "L \<le> i * 2 ^ a" using that(1) by (simp add: wf_node_def)
    moreover have "(0 :: nat) < 2 ^ a" by simp
    ultimately show False by (simp add: algebra_simps)
  qed
  show ?thesis using aux assms by (metis linorder_neqE_nat)
qed

text \<open>A subtree depends on its own nodes, on the closed nodes in it and on the indices it stands for.\<close>

definition below :: "nat \<Rightarrow> nat \<Rightarrow> bool" where
  "below i j \<longleftrightarrow> (\<exists>k. j div 2 ^ k = i)"

lemma below_refl [simp]: "below i i"
  by (auto simp: below_def intro: exI [of _ 0])

lemma below_trans: "below i j \<Longrightarrow> below j k \<Longrightarrow> below i k"
  unfolding below_def by (metis div_mult2_eq power_add)

lemma below_child: "below (2 * i) j \<or> below (2 * i + 1) j \<Longrightarrow> below i j"
proof -
  have "below i (2 * i)" "below i (2 * i + 1)" by (auto simp: below_def intro: exI [of _ 1])
  then show "below (2 * i) j \<or> below (2 * i + 1) j \<Longrightarrow> below i j" by (metis below_trans)
qed

lemma tree_ok_cong:
  assumes "wf_node L i h" "tree_ok L sz t M D f i h"
    and "\<And>j. below i j \<Longrightarrow> t' ! j = t ! j" "\<And>j. below i j \<Longrightarrow> j \<in> D' \<longleftrightarrow> j \<in> D"
    and "\<And>x. x \<in> node_range L i h \<Longrightarrow> x < sz \<Longrightarrow> g x = f x"
  shows "tree_ok L sz t' M D' g i h"
  using assms
proof (induction h arbitrary: i f g)
  case 0
  have "seg L sz g i 0 = seg L sz f i 0" using 0 by (intro seg_cong) blast
  then show ?case using 0 by (simp add: node_ok_def)
next
  case (Suc h)
  have "seg L sz g i (Suc h) = seg L sz f i (Suc h)" using Suc.prems by (intro seg_cong) blast
  then have n: "node_ok L sz t' M g i (Suc h)" using Suc.prems by (simp add: node_ok_def)
  let ?f = "if i \<in> D then \<lambda>_. True else f" and ?g = "if i \<in> D' then \<lambda>_. True else g"
  have i: "i \<in> D' \<longleftrightarrow> i \<in> D" using Suc.prems by simp
  have ok: "tree_ok L sz t M D ?f (2 * i) h" "tree_ok L sz t M D ?f (2 * i + 1) h"
    using Suc.prems(2) by (simp_all add: Let_def)
  have w: "wf_node L (2 * i) h" "wf_node L (2 * i + 1) h" using wf_node_children Suc.prems(1) by blast+
  have r: "node_range L (2 * i) h \<subseteq> node_range L i (Suc h)" "node_range L (2 * i + 1) h \<subseteq> node_range L i (Suc h)"
    using node_range_children [OF Suc.prems(1)] by auto
  have b: "\<And>j. below (2 * i) j \<Longrightarrow> below i j" "\<And>j. below (2 * i + 1) j \<Longrightarrow> below i j" using below_child by blast+
  have "tree_ok L sz t' M D' ?g (2 * i) h"
    by (rule Suc.IH [OF w(1) ok(1)]) (use Suc.prems b(1) r(1) i in auto)
  moreover have "tree_ok L sz t' M D' ?g (2 * i + 1) h"
    by (rule Suc.IH [OF w(2) ok(2)]) (use Suc.prems b(2) r(2) i in auto)
  ultimately show ?case using n by (simp add: Let_def)
qed

text \<open>Marked indices are not free.\<close>

definition marks_ok :: "nat \<Rightarrow> (nat \<rightharpoonup> nat) \<Rightarrow> (nat \<Rightarrow> bool) \<Rightarrow> bool" where
  "marks_ok sz M f \<longleftrightarrow> (\<forall>s n. M s = Some n \<longrightarrow> 0 < n \<and> s < sz \<and> \<not> f s)"

lemma node_summary:
  assumes ok: "node_ok L sz t M f i h" and w: "wf_node L i h" and mk: "marks_ok sz M f"
  defines "xs \<equiv> seg L sz f i h" and "m \<equiv> t ! i"
  shows "m_left m = int (prefix_free xs)" "m_right m = int (suffix_free xs)"
    "m_size m = m_left m \<longleftrightarrow> prefix_free xs = length xs" "m_size m = m_right m \<longleftrightarrow> suffix_free xs = length xs"
    "prefix_free xs = length xs \<Longrightarrow> m_size m = int (length xs)" "max (m_max m) 0 = int (max_run xs)"
proof -
  show lr: "m_left m = int (prefix_free xs)" "m_right m = int (suffix_free xs)"
    using ok by (simp_all add: node_ok_def Let_def xs_def m_def)
  have "(m_size m = m_left m \<longleftrightarrow> prefix_free xs = length xs) \<and> (m_size m = m_right m \<longleftrightarrow> suffix_free xs = length xs) \<and>
    (prefix_free xs = length xs \<longrightarrow> m_size m = int (length xs)) \<and> max (m_max m) 0 = int (max_run xs)"
  proof (cases "if h = 0 then M (i - L) else None")
    case None
    then show ?thesis using ok by (auto simp: node_ok_def Let_def xs_def m_def)
  next
    case (Some n)
    then have h: "h = 0" "M (i - L) = Some n" by (auto split: if_splits)
    then have f: "0 < n" "i - L < sz" "\<not> f (i - L)" using mk by (auto simp: marks_ok_def)
    have "min (i + 1 - L) sz = Suc (i - L)" using w f h by (simp add: wf_node_def Suc_diff_le)
    then have "[i - L ..< min (i + 1 - L) sz] = [i - L]" by simp
    then have "xs = [False]" using f h by (simp add: xs_def seg_def)
    then show ?thesis using ok f h by (simp add: node_ok_def Let_def xs_def m_def suffix_free_def)
  qed
  then show "m_size m = m_left m \<longleftrightarrow> prefix_free xs = length xs" "m_size m = m_right m \<longleftrightarrow> suffix_free xs = length xs"
    "prefix_free xs = length xs \<Longrightarrow> m_size m = int (length xs)" "max (m_max m) 0 = int (max_run xs)" by auto
qed

lemma tree_ok_node: "tree_ok L sz t M D f i h \<Longrightarrow> node_ok L sz t M f i h"
  by (cases h) auto

lemma below_div: "below (i div 2 ^ k) i"
  by (auto simp: below_def)

lemma below_le: "below i j \<Longrightarrow> i \<le> j"
  by (auto simp: below_def)

lemma recompute_ok:
  assumes ok: "tree_ok L sz t M D f (2 * p) h" "tree_ok L sz t M D f (2 * p + 1) h"
    and w: "wf_node L p (Suc h)" and mk: "marks_ok sz M f"
    and p: "p \<notin> D" "0 < p" "p < length t" "m_size (t ! p) = int (length (seg L sz f p (Suc h)))"
  shows "tree_ok L sz (recompute p t) M D f p (Suc h)"
proof -
  let ?xs = "seg L sz f (2 * p) h" and ?ys = "seg L sz f (2 * p + 1) h"
  let ?l = "t ! (2 * p)" and ?r = "t ! (2 * p + 1)"
  note wc = wf_node_children [OF w]
  note l = node_summary [OF tree_ok_node [OF ok(1)] conjunct1 [OF wc] mk]
  note r = node_summary [OF tree_ok_node [OF ok(2)] conjunct2 [OF wc] mk]
  have eq: "(\<forall>x\<in>set ?xs. x) \<Longrightarrow> m_size ?l = int (length ?xs)" "(\<forall>x\<in>set ?ys. x) \<Longrightarrow> m_size ?r = int (length ?ys)"
    using l(5) r(5) by (simp_all add: prefix_free_full)
  have "recompute p t ! p = mem_update ?l ?r (t ! p)" using p by (simp add: recompute_def)
  moreover have "m_left (mem_update ?l ?r (t ! p)) = int (prefix_free (?xs @ ?ys))"
    using l(1,3,5) r(1) by (simp add: mem_update_def prefix_free_append)
  moreover have "m_right (mem_update ?l ?r (t ! p)) = int (suffix_free (?xs @ ?ys))"
    using l(2) r(2,4) eq(2) by (auto simp: mem_update_def suffix_free_append suffix_free_full)
  moreover have "m_max (mem_update ?l ?r (t ! p)) = int (max_run (?xs @ ?ys))"
  proof -
    have "m_max (mem_update ?l ?r (t ! p)) =
      max (m_left ?r + m_right ?l) (max (max (m_max ?r) 0) (max (m_max ?l) 0))"
      using r(1) l(2) by (simp add: mem_update_def max_def)
    then show ?thesis using l(2,6) r(1,6) by (simp add: max_run_append)
  qed
  moreover have "m_size (mem_update ?l ?r (t ! p)) = int (length (?xs @ ?ys))"
    using p(4) seg_children [OF w, of sz f] by (simp add: mem_update_def)
  ultimately have n: "node_ok L sz (recompute p t) M f p (Suc h)"
    using seg_children [OF w, of sz f] by (simp add: node_ok_def Let_def)
  have ne: "\<not> below (2 * p) p" "\<not> below (2 * p + 1) p" using below_le p(2) by fastforce+
  have same: "recompute p t ! j = t ! j" if "j \<noteq> p" for j using that by (simp add: recompute_def)
  have "tree_ok L sz (recompute p t) M D f (2 * p) h"
    by (rule tree_ok_cong [OF conjunct1 [OF wc] ok(1)]) (use ne same in metis)+
  moreover have "tree_ok L sz (recompute p t) M D f (2 * p + 1) h"
    by (rule tree_ok_cong [OF conjunct2 [OF wc] ok(2)]) (use ne same in metis)+
  ultimately show ?thesis using n p by simp
qed

lemma length_recompute [simp]: "length (recompute i t) = length t"
  by (simp add: recompute_def)

lemma length_fold_recompute [simp]: "length (fold recompute is t) = length t"
  by (induction "is" arbitrary: t) simp_all

lemma fold_recompute_other: "j \<notin> set is \<Longrightarrow> fold recompute is t ! j = t ! j"
  by (induction "is" arbitrary: t) (auto simp: recompute_def)

lemma fold_recompute_size: "m_size (fold recompute is t ! j) = m_size (t ! j)"
proof (induction "is" arbitrary: t)
  case (Cons i "is")
  have "m_size (recompute i t ! j) = m_size (t ! j)"
    by (cases "i < length t") (auto simp: recompute_def mem_update_def nth_list_update list_update_beyond)
  then show ?case using Cons by simp
qed simp

text \<open>propagateToRoot visits the ancestors of a node.\<close>

definition ancestors :: "nat \<Rightarrow> nat \<Rightarrow> nat list" where
  "ancestors d k = map (\<lambda>e. d div 2 ^ e) [1 ..< Suc k]"

lemma propagate_ancestors:
  assumes "d div 2 ^ k = 1" "d < length t" "even (length t)"
  shows "propagateToRoot t (d div 2) = Some (fold recompute (ancestors d k) t)"
proof -
  have "propagateToRoot t (d div 2 ^ j) = Some (fold recompute (map (\<lambda>e. d div 2 ^ e) [j ..< Suc k]) t)"
    if "1 \<le> j" "j \<le> Suc k" "d < length t" "even (length t)" for j t
    using that
  proof (induction "Suc k - j" arbitrary: j t)
    case 0
    then have "j = Suc k" by simp
    moreover have "d div 2 ^ Suc k = 0" using assms(1) by (simp only: power_Suc2 div_mult2_eq)
    ultimately show ?case by (simp add: propagateToRoot.simps)
  next
    case (Suc n)
    then have j: "j \<le> k" by simp
    let ?i = "d div 2 ^ j"
    have "2 ^ j \<le> (2 :: nat) ^ k" using j by simp
    then have "d div 2 ^ k \<le> ?i" by (simp add: div_le_mono2)
    then have pos: "0 < ?i" using assms(1) by simp
    have "2 * ?i \<le> d"
    proof -
      have "?i \<le> d div 2" using div_le_mono2 [of 2 "2 ^ j" d] Suc.prems(1)
        by (metis power_increasing power_one_right one_le_numeral zero_less_numeral)
      then show ?thesis by simp
    qed
    then have lt: "2 * ?i + 1 < length t" using Suc.prems by (metis Suc_eq_plus1 Suc_lessI dvd_triv_left even_Suc le_less_trans)
    have "?i div 2 = d div 2 ^ Suc j" by (simp only: power_Suc2 div_mult2_eq)
    then have "propagateToRoot t ?i = propagateToRoot (recompute ?i t) (d div 2 ^ Suc j)"
      using pos lt by (simp add: propagateToRoot.simps [of t ?i])
    also have "\<dots> = Some (fold recompute (map (\<lambda>e. d div 2 ^ e) [Suc j ..< Suc k]) (recompute ?i t))"
      using Suc.hyps(2) Suc.prems j by (intro Suc.hyps(1)) auto
    finally show ?case using upt_conv_Cons [of j "Suc k"] j by (simp del: upt_Suc)
  qed
  from this [of 1] show ?thesis using assms by (simp add: ancestors_def)
qed

lemma ancestors_Suc: "ancestors d (Suc k) = ancestors d k @ [d div 2 ^ Suc k]"
  by (simp add: ancestors_def)

lemma set_ancestors: "set (ancestors d k) = {d div 2 ^ e | e. 1 \<le> e \<and> e \<le> k}"
  by (auto simp: ancestors_def)

lemma ancestorsI: "1 \<le> e \<Longrightarrow> e \<le> k \<Longrightarrow> d div 2 ^ e \<in> set (ancestors d k)"
  by (auto simp: set_ancestors)

lemma half_cases: "(n :: nat) = 2 * (n div 2) \<or> n = 2 * (n div 2) + 1"
  by presburger

text \<open>From a node down to one of its descendants.\<close>

lemma tree_ok_descend:
  assumes "tree_ok L sz t M D f (c div 2 ^ k) (h + k)" "\<forall>a \<in> set (ancestors c k). a \<notin> D"
  shows "tree_ok L sz t M D f c h"
  using assms
proof (induction k)
  case (Suc k)
  let ?c = "c div 2 ^ k" and ?p = "c div 2 ^ Suc k"
  have p: "?p = ?c div 2" by (simp only: power_Suc2 div_mult2_eq)
  have "?p \<notin> D" using Suc.prems(2) ancestorsI [of "Suc k" "Suc k" c] by simp
  then have "tree_ok L sz t M D f (2 * ?p) (h + k)" "tree_ok L sz t M D f (2 * ?p + 1) (h + k)"
    using Suc.prems(1) by simp_all
  moreover have "?c = 2 * ?p \<or> ?c = 2 * ?p + 1" unfolding p by (rule half_cases)
  ultimately have "tree_ok L sz t M D f ?c (h + k)" by metis
  then show ?case using Suc by (simp add: ancestors_Suc)
qed simp

lemma wf_node_descend:
  "wf_node L (c div 2 ^ k) (h + k) \<Longrightarrow> wf_node L c h"
proof (induction k)
  case (Suc k)
  let ?c = "c div 2 ^ k" and ?p = "c div 2 ^ Suc k"
  have p: "?p = ?c div 2" by (simp only: power_Suc2 div_mult2_eq)
  have "wf_node L (2 * ?p) (h + k)" "wf_node L (2 * ?p + 1) (h + k)"
    using wf_node_children [of L ?p "h + k"] Suc.prems by simp_all
  moreover have "?c = 2 * ?p \<or> ?c = 2 * ?p + 1" unfolding p by (rule half_cases)
  ultimately have "wf_node L ?c (h + k)" by metis
  then show ?case by (rule Suc.IH)
qed simp

lemma below_antisym: "below i j \<Longrightarrow> below j i \<Longrightarrow> i = j"
  by (meson below_le le_antisym)

lemma sibling_not_below:
  assumes "below (2 * p) j" "below (2 * p + 1) j" "0 < p" shows False
proof -
  obtain a b where ab: "j div 2 ^ a = 2 * p" "j div 2 ^ b = 2 * p + 1" using assms by (auto simp: below_def)
  have aux: "x div 2 ^ c = y \<Longrightarrow> c \<le> d \<Longrightarrow> x div 2 ^ d = y div 2 ^ (d - c)" for x y c d :: nat
    by (metis div_mult2_eq le_add_diff_inverse power_add)
  show False
  proof (cases "a \<le> b")
    case True
    then have "2 * p + 1 = (2 * p) div 2 ^ (b - a)" using aux [OF ab(1) True] ab(2) by simp
    then show False by (metis Suc_eq_plus1 div_le_dividend not_less_eq_eq order_refl)
  next
    case False
    then have "2 * p = (2 * p + 1) div 2 ^ (a - b)" "0 < a - b" using aux [OF ab(2), of a] ab(1) by auto
    moreover have "(2 * p + 1) div 2 ^ (a - b) \<le> (2 * p + 1) div 2"
      using \<open>0 < a - b\<close> by (intro div_le_mono2) (auto simp: self_le_power)
    ultimately show False using assms(3) by simp
  qed
qed

lemma not_below_ancestors:
  assumes "0 < d" "x \<in> set (ancestors d k)" shows "\<not> below d x"
proof
  assume b: "below d x"
  obtain e where e: "x = d div 2 ^ e" "1 \<le> e" using assms(2) by (auto simp: set_ancestors)
  have "d div 2 ^ e \<le> d div 2" using e(2) by (intro div_le_mono2) (auto simp: self_le_power)
  then show False using below_le [OF b] e assms(1) by simp
qed

text \<open>A subtree that is right after its root has been changed makes the whole tree right once the change is
  propagated.  Node d at height q is k levels below the root.\<close>

lemma propagate_ok:
  assumes root: "d div 2 ^ k = 1" "wf_node L 1 (q + k)" "even (length t)" "d < length t"
    and ok: "tree_ok L sz t M D f 1 (q + k)" and anc: "\<forall>a \<in> set (ancestors d k). a \<notin> D"
    and sub: "tree_ok L sz (t[d := m]) M D' g d q"
    and D': "\<And>j. \<not> below d j \<Longrightarrow> j \<in> D' \<longleftrightarrow> j \<in> D"
    and g: "\<And>x. x \<notin> node_range L d q \<Longrightarrow> g x = f x" and mk: "marks_ok sz M g"
  shows "\<exists>t'. propagateToRoot (t[d := m]) (d div 2) = Some t' \<and> tree_ok L sz t' M D' g 1 (q + k) \<and>
    length t' = length t"
proof -
  let ?t = "t[d := m]"
  have d0: "0 < d" using root(1) by (cases d) auto
  have wd: "wf_node L (d div 2 ^ j) (q + j)" if "j \<le> k" for j
  proof (rule wf_node_descend [of L _ "k - j"])
    have "d div 2 ^ j div 2 ^ (k - j) = 1" using that root(1) by (metis div_mult2_eq le_add_diff_inverse power_add)
    then show "wf_node L (d div 2 ^ j div 2 ^ (k - j)) (q + j + (k - j))" using that root(2) by simp
  qed
  have okd: "tree_ok L sz t M D f (d div 2 ^ j) (q + j)" if "j \<le> k" for j
  proof (rule tree_ok_descend [of L sz t M D f _ "k - j"])
    have "d div 2 ^ j div 2 ^ (k - j) = 1" using that root(1) by (metis div_mult2_eq le_add_diff_inverse power_add)
    then show "tree_ok L sz t M D f (d div 2 ^ j div 2 ^ (k - j)) (q + j + (k - j))" using that ok by simp
    show "\<forall>a\<in>set (ancestors (d div 2 ^ j) (k - j)). a \<notin> D"
    proof
      fix a assume "a \<in> set (ancestors (d div 2 ^ j) (k - j))"
      then obtain e where "a = d div 2 ^ j div 2 ^ e" "1 \<le> e" "e \<le> k - j" by (auto simp: set_ancestors)
      then have "a = d div 2 ^ (j + e)" "1 \<le> j + e" "j + e \<le> k" using that by (auto simp: power_add div_mult2_eq)
      then show "a \<notin> D" using anc by (auto simp: set_ancestors)
    qed
  qed
  have "tree_ok L sz (fold recompute (ancestors d j) ?t) M D' g (d div 2 ^ j) (q + j)" if "j \<le> k" for j
    using that
  proof (induction j)
    case 0
    then show ?case using sub by (simp add: ancestors_def)
  next
    case (Suc j)
    let ?c = "d div 2 ^ j" and ?p = "d div 2 ^ Suc j" and ?u = "fold recompute (ancestors d j) ?t"
    have p: "?p = ?c div 2" by (simp only: power_Suc2 div_mult2_eq)
    have wp: "wf_node L ?p (Suc (q + j))" using wd [OF Suc.prems] by simp
    have pa: "?p \<in> set (ancestors d k)" using ancestorsI [OF _ Suc.prems] by simp
    then have pD: "?p \<notin> D" using anc by blast
    have pb: "\<not> below d ?p" by (rule not_below_ancestors [OF d0 pa])
    have pD': "?p \<notin> D'" using D' [OF pb] pD by simp
    have okp: "tree_ok L sz t M D f ?p (Suc (q + j))" using okd [OF Suc.prems] by simp
    have p0: "0 < ?p"
    proof -
      have "2 ^ Suc j \<le> (2 :: nat) ^ k" using Suc.prems by (intro power_increasing) auto
      then have "d div 2 ^ k \<le> ?p" by (rule div_le_mono2 [rotated]) (rule zero_less_power, simp)
      then show ?thesis using root(1) by simp
    qed
    have sib: "tree_ok L sz ?u M D' g s (q + j)"
      if s: "s = 2 * ?p \<or> s = 2 * ?p + 1" "s \<noteq> ?c" for s
    proof -
      have ws: "wf_node L s (q + j)" using wf_node_children [OF wp] s(1) by blast
      have os: "tree_ok L sz t M D f s (q + j)" using okp pD s(1) by (elim disjE) simp_all
      have nd: "\<not> below d x \<and> x \<noteq> d \<and> x \<notin> set (ancestors d j)" if x: "below s x" for x
      proof -
        have c: "?c = 2 * ?p \<or> ?c = 2 * ?p + 1" unfolding p by (rule half_cases)
        have nc: "\<not> below ?c x" using sibling_not_below [OF _ _ p0, of x] x s c by metis
        then have 1: "\<not> below d x" using below_trans below_div by blast
        then have 2: "x \<noteq> d" by auto
        have "x \<notin> set (ancestors d j)"
        proof
          assume "x \<in> set (ancestors d j)"
          then obtain e where e: "x = d div 2 ^ e" "1 \<le> e" "e \<le> j" by (auto simp: set_ancestors)
          have "?c = x div 2 ^ (j - e)" using e by (metis div_mult2_eq le_add_diff_inverse power_add)
          then show False using nc by (auto simp: below_def)
        qed
        then show ?thesis using 1 2 by simp
      qed
      have nr: "x \<notin> node_range L d q" if "x \<in> node_range L s (q + j)" for x
      proof -
        have c: "?c = 2 * ?p \<or> ?c = 2 * ?p + 1" unfolding p by (rule half_cases)
        have "node_range L s (q + j) \<inter> node_range L ?c (q + j) = {}"
          using node_range_siblings [OF wp] s c by (metis inf_commute)
        moreover have "node_range L d q \<subseteq> node_range L ?c (q + j)" by (rule node_range_up)
        ultimately show ?thesis using that by blast
      qed
      show ?thesis
      proof (rule tree_ok_cong [OF ws os])
        show "?u ! x = t ! x" if "below s x" for x using nd [OF that] by (simp add: fold_recompute_other)
        show "x \<in> D' \<longleftrightarrow> x \<in> D" if "below s x" for x using nd [OF that] D' by blast
        show "g x = f x" if "x \<in> node_range L s (q + j)" for x using nr [OF that] by (rule g)
      qed
    qed
    have c: "?c = 2 * ?p \<or> ?c = 2 * ?p + 1" unfolding p by (rule half_cases)
    have IH: "tree_ok L sz ?u M D' g ?c (q + j)" using Suc by simp
    have both: "tree_ok L sz ?u M D' g (2 * ?p) (q + j)" "tree_ok L sz ?u M D' g (2 * ?p + 1) (q + j)"
      using sib IH c by metis+
    have "?p \<noteq> d" using pb below_refl [of d] by metis
    then have "m_size (?u ! ?p) = m_size (t ! ?p)" by (simp only: fold_recompute_size nth_list_update_neq not_sym)
    also have "\<dots> = int (length (seg L sz g ?p (Suc (q + j))))"
      using tree_ok_node [OF okp] by (simp add: node_ok_def Let_def seg_def)
    finally have sz: "m_size (?u ! ?p) = int (length (seg L sz g ?p (Suc (q + j))))" .
    have "?p < length ?u" using le_less_trans [OF div_le_dividend [of d "2 ^ Suc j"] root(4)] by simp
    from recompute_ok [OF both wp mk pD' p0 this sz] show ?case by (simp add: ancestors_Suc)
  qed
  from this [of k] have fin: "tree_ok L sz (fold recompute (ancestors d k) ?t) M D' g 1 (q + k)" using root(1) by simp
  have "propagateToRoot ?t (d div 2) = Some (fold recompute (ancestors d k) ?t)"
    using propagate_ancestors [of d k ?t] root by simp
  then show ?thesis using fin by simp
qed

section \<open>Opening and closing nodes\<close>

text \<open>The nodes that update marks, in the order in which it does.\<close>

function update_nodes :: "nat \<Rightarrow> nat \<Rightarrow> nat list" where
  "update_nodes l r =
     (if r < l \<or> l = 0 then []
      else (if odd l then [l] else []) @ (if even r then [r] else []) @
           update_nodes (if odd l then (l + 1) div 2 else l div 2) (if odd r then r div 2 else (r - 1) div 2))"
  by pat_completeness auto
termination
  by (relation "measure (\<lambda>(l, r). r + 1 - l)") (auto elim!: oddE evenE)

declare update_nodes.simps [simp del]

definition touch_all :: "int \<Rightarrow> nat list \<Rightarrow> Memory list \<Rightarrow> Memory list option" where
  "touch_all free is t = fold (\<lambda>i r. Option.bind r (touch free i)) is (Some t)"

lemma touch_all_simps [simp]:
  "touch_all free [] t = Some t"
  "touch_all free (i # is) t = Option.bind (touch free i t) (touch_all free is)"
proof -
  have "fold (\<lambda>i r. Option.bind r (touch free i)) is None = None" for "is" by (induction "is") auto
  then show "touch_all free (i # is) t = Option.bind (touch free i t) (touch_all free is)"
    by (cases "touch free i t") (simp_all add: touch_all_def)
qed (simp add: touch_all_def)

lemma touch_all_append: "touch_all free (is @ js) t = Option.bind (touch_all free is t) (touch_all free js)"
proof (induction "is" arbitrary: t)
  case (Cons i "is")
  then show ?case by (cases "touch free i t") simp_all
qed simp

lemma update_loop_nodes: "0 < l \<Longrightarrow> update_loop free t l r = touch_all free (update_nodes l r) t"
proof (induction l r arbitrary: t rule: update_nodes.induct)
  case (1 l r)
  let ?l = "if odd l then (l + 1) div 2 else l div 2" and ?r = "if odd r then r div 2 else (r - 1) div 2"
  have l: "0 < ?l" using 1(2) by (auto elim!: evenE)
  show ?case
  proof (cases "r < l")
    case False
    then have IH: "update_loop free u ?l ?r = touch_all free (update_nodes ?l ?r) u" for u
      using 1(1) [OF _ l] 1(2) by simp
    have "update_loop free t l r = Option.bind (if odd l then touch free l t else Some t) (\<lambda>t1.
        Option.bind (if even r then touch free r t1 else Some t1) (touch_all free (update_nodes ?l ?r)))"
      using False by (subst update_loop.simps) (simp only: if_False IH)
    also have "\<dots> = touch_all free (update_nodes l r) t"
      using False 1(2) by (subst (2) update_nodes.simps) (auto simp: touch_all_append split: bind_split)
    finally show ?thesis .
  qed (simp add: update_loop.simps update_nodes.simps)
qed

text \<open>They stand for exactly the range of indices, and for different indices.\<close>

fun cover :: "nat \<Rightarrow> nat list \<Rightarrow> nat set \<Rightarrow> bool" where
  "cover L [] A \<longleftrightarrow> A = {}"
| "cover L (i # is) A \<longleftrightarrow> (\<exists>h. wf_node L i h \<and> node_range L i h \<subseteq> A \<and> cover L is (A - node_range L i h))"

lemma if_times: "(if P then a else b) * c = (if P then a * c else b * (c :: nat))"
  by simp

lemma interval_trim:
  assumes "L \<le> a" "a < a'" "b < (b' :: nat)" "a \<le> b" "p \<Longrightarrow> q \<Longrightarrow> a' \<le> b" "a' \<le> b'"
  shows "{(if p then a' else a) - L ..< (if q then b else b') - L} =
    {a - L ..< b' - L} - (if p then {a - L ..< a' - L} else {}) - (if q then {b - L ..< b' - L} else {})"
  using assms by (cases p; cases q) auto

lemma update_nodes_cover:
  assumes "L \<le> l * 2 ^ h" "(r + 1) * 2 ^ h \<le> 2 * L" "0 < L" "l \<le> r + 1"
  shows "cover L (update_nodes l r) {l * 2 ^ h - L ..< (r + 1) * 2 ^ h - L}"
  using assms
proof (induction l r arbitrary: h rule: update_nodes.induct)
  case (1 l r)
  let ?l = "if odd l then (l + 1) div 2 else l div 2" and ?r = "if odd r then r div 2 else (r - 1) div 2"
  let ?A = "{l * 2 ^ h - L ..< (r + 1) * 2 ^ h - L}"
  have l0: "0 < l" using 1 by (cases l) auto
  show ?case
  proof (cases "r < l")
    case True
    then have "r + 1 = l" using 1 by simp
    then show ?thesis using True by (simp add: update_nodes.simps)
  next
    case False
    then have lr: "l \<le> r" by simp
    let ?L = "if odd l then {l * 2 ^ h - L ..< (l + 1) * 2 ^ h - L} else {}"
    let ?R = "if even r then {r * 2 ^ h - L ..< (r + 1) * 2 ^ h - L} else {}"
    have "2 * ?l = (if odd l then l + 1 else l)" by presburger
    moreover have "?l * 2 ^ Suc h = 2 * ?l * 2 ^ h" by (simp only: power_Suc ac_simps)
    ultimately have l2: "?l * 2 ^ Suc h = (if odd l then (l + 1) * 2 ^ h else l * 2 ^ h)" by (simp only: if_times)
    have "2 * (?r + 1) = (if even r then r else r + 1)" using lr l0 by presburger
    moreover have "(?r + 1) * 2 ^ Suc h = 2 * (?r + 1) * 2 ^ h" by (simp only: power_Suc ac_simps)
    ultimately have r2: "(?r + 1) * 2 ^ Suc h = (if even r then r * 2 ^ h else (r + 1) * 2 ^ h)" by (simp only: if_times)
    have le: "?l \<le> ?r + 1" using lr l0 by presburger
    have a: "l * 2 ^ h < (l + 1) * 2 ^ h" "r * 2 ^ h < (r + 1) * 2 ^ h" "l * 2 ^ h \<le> r * 2 ^ h"
      using lr by simp_all
    have b: "(l + 1) * 2 ^ h \<le> r * 2 ^ h" if "odd l" "even r"
    proof -
      have "l + 1 \<le> r" using that lr by (cases "l = r") auto
      then show ?thesis by (rule mult_le_mono1)
    qed
    have rl: "?L = (if odd l then node_range L l h else {})" "?R = (if even r then node_range L r h else {})"
      by (simp_all add: node_range_def)
    have bl: "(l + 1) * 2 ^ h \<le> (r + 1) * 2 ^ h" using lr by simp
    have mid: "{?l * 2 ^ Suc h - L ..< (?r + 1) * 2 ^ Suc h - L} = ?A - ?L - ?R"
      unfolding l2 r2 by (rule interval_trim [OF "1.prems"(1) a b bl])
    have wl: "wf_node L l h" using "1.prems"(1) le_trans [OF bl "1.prems"(2)] by (simp only: wf_node_def)
    have sl: "node_range L l h \<subseteq> ?A" using diff_le_mono [OF bl, of L]
      by (simp only: node_range_def ivl_subset order_refl simp_thms)
    have wr: "wf_node L r h" using le_trans [OF "1.prems"(1) a(3)] "1.prems"(2) by (simp only: wf_node_def)
    have sr: "node_range L r h \<subseteq> ?A" using diff_le_mono [OF a(3), of L]
      by (simp only: node_range_def ivl_subset order_refl simp_thms)
    have dis: "node_range L l h \<inter> node_range L r h = {}" if "odd l" "even r"
      using b [OF that] by (auto simp: node_range_def)
    have "cover L (update_nodes ?l ?r) (?A - ?L - ?R)"
    proof -
      have "L \<le> ?l * 2 ^ Suc h" "(?r + 1) * 2 ^ Suc h \<le> 2 * L"
        unfolding l2 r2 using "1.prems" a by (cases "odd l"; cases "odd r"; simp)+
      from "1.IH" [OF _ this "1.prems"(3) le] lr l0 show ?thesis unfolding mid by simp
    qed
    then show ?thesis using lr l0 wl sl wr sr dis
      by (subst update_nodes.simps) (auto simp: rl split: if_splits intro!: exI [of _ h])
  qed
qed

text \<open>The invariant of the tree: closed nodes stand for different ranges, none of which is free.\<close>

definition closed_ok :: "nat \<Rightarrow> nat \<Rightarrow> nat set \<Rightarrow> (nat \<Rightarrow> bool) \<Rightarrow> bool" where
  "closed_ok L sz D f \<longleftrightarrow>
     (\<forall>d\<in>D. \<exists>h. wf_node L d h \<and> node_range L d h \<subseteq> {..<sz} \<and> (\<forall>x\<in>node_range L d h. \<not> f x)) \<and>
     (\<forall>d\<in>D. \<forall>e\<in>D. d \<noteq> e \<longrightarrow>
        (\<forall>h k. wf_node L d h \<longrightarrow> wf_node L e k \<longrightarrow> node_range L d h \<inter> node_range L e k = {}))"

definition tree_inv :: "nat \<Rightarrow> nat \<Rightarrow> nat \<Rightarrow> Memory list \<Rightarrow> (nat \<rightharpoonup> nat) \<Rightarrow> nat set \<Rightarrow> (nat \<Rightarrow> bool) \<Rightarrow> bool" where
  "tree_inv L H sz t M D f \<longleftrightarrow> L = 2 ^ H \<and> length t = 2 * L \<and> sz \<le> L \<and> tree_ok L sz t M D f 1 H \<and>
     marks_ok sz M f \<and> closed_ok L sz D f"

lemma wf_node_pos: "wf_node L i h \<Longrightarrow> 0 < L \<Longrightarrow> 0 < i"
  by (cases i) (auto simp: wf_node_def)

lemma wf_node_depth:
  assumes "wf_node (2 ^ H) i h" shows "h \<le> H" "i div 2 ^ (H - h) = 1"
proof -
  have i: "0 < i" using wf_node_pos [OF assms] by simp
  show h: "h \<le> H"
  proof (rule ccontr)
    assume "\<not> h \<le> H"
    then have "2 ^ Suc H \<le> (2 :: nat) ^ h" by (intro power_increasing) auto
    moreover have "2 * 2 ^ h \<le> (i + 1) * 2 ^ h" using i by (intro mult_le_mono1) simp
    moreover have "(i + 1) * 2 ^ h \<le> 2 * 2 ^ H" using assms by (simp only: wf_node_def)
    ultimately have "(2 :: nat) ^ h \<le> 0" by (simp only: power_Suc)
    then show False by simp
  qed
  have e: "(2 :: nat) ^ H = 2 ^ (H - h) * 2 ^ h" using h by (simp add: power_add [symmetric])
  have "2 ^ (H - h) * 2 ^ h \<le> i * 2 ^ h" using assms e by (simp add: wf_node_def)
  then have 1: "2 ^ (H - h) \<le> i" by simp
  have "(i + 1) * 2 ^ h \<le> (2 * 2 ^ (H - h)) * 2 ^ h" using assms e by (simp add: wf_node_def)
  then have "i + 1 \<le> 2 * 2 ^ (H - h)" by (metis mult_le_cancel2 zero_less_power zero_less_numeral)
  then show "i div 2 ^ (H - h) = 1" using 1 by (simp add: div_nat_eqI)
qed

lemma wf_node_root: "wf_node (2 ^ H) 1 H"
  by (simp add: wf_node_def)

lemma wf_node_less: "wf_node L i h \<Longrightarrow> 0 < L \<Longrightarrow> i < 2 * L"
proof -
  assume w: "wf_node L i h"
  have "(i + 1) * 1 \<le> (i + 1) * 2 ^ h" by (intro mult_le_mono2) simp
  then show ?thesis using w by (simp add: wf_node_def)
qed

lemma node_range_nonempty: "wf_node L i h \<Longrightarrow> node_range L i h \<noteq> {}"
proof -
  assume w: "wf_node L i h"
  have "i * 2 ^ h < (i + 1) * 2 ^ h" by simp
  then have "i * 2 ^ h - L < (i + 1) * 2 ^ h - L" using w unfolding wf_node_def by (intro diff_less_mono) auto
  then show ?thesis by (simp add: node_range_def)
qed

lemma wf_node_ancestor:
  assumes "wf_node L c h" "L = 2 ^ H" "h + e \<le> H"
  shows "wf_node L (c div 2 ^ e) (h + e)" "node_range L c h \<subseteq> node_range L (c div 2 ^ e) (h + e)"
proof -
  have d: "c div 2 ^ (H - h) = 1" "h \<le> H" using wf_node_depth assms by blast+
  have "c div 2 ^ e div 2 ^ (H - h - e) = 1" using d assms(3) by (simp only: div_mult2_eq [symmetric] power_add [symmetric]) simp
  then have "wf_node L (c div 2 ^ e div 2 ^ (H - h - e)) (h + e + (H - h - e))" using assms d wf_node_root by simp
  then show w: "wf_node L (c div 2 ^ e) (h + e)" by (rule wf_node_descend)
  show "node_range L c h \<subseteq> node_range L (c div 2 ^ e) (h + e)" by (rule node_range_up)
qed

text \<open>No node above a node that is free, or is closed itself, is closed.\<close>

lemma ancestors_open:
  assumes inv: "tree_inv L H sz t M D f" and w: "wf_node L i h"
    and i: "(\<forall>x\<in>node_range L i h. f x) \<or> i \<in> D" and a: "a \<in> set (ancestors i (H - h))"
  shows "a \<notin> D"
proof
  assume aD: "a \<in> D"
  have L: "L = 2 ^ H" "0 < L" and c: "closed_ok L sz D f" using inv by (auto simp: tree_inv_def)
  obtain e where e: "a = i div 2 ^ e" "1 \<le> e" "e \<le> H - h" using a by (auto simp: set_ancestors)
  have "h \<le> H" using wf_node_depth w L by blast
  then have he: "h + e \<le> H" using e by simp
  note wa = wf_node_ancestor [OF w L(1) he]
  obtain x where x: "x \<in> node_range L i h" using node_range_nonempty [OF w] by blast
  have wa': "wf_node L a (h + e)" using wa(1) e(1) by simp
  have xa: "x \<in> node_range L a (h + e)" using subsetD [OF wa(2) x] e(1) by simp
  obtain k where k: "wf_node L a k" "\<forall>x\<in>node_range L a k. \<not> f x" using c aD by (auto simp: closed_ok_def)
  have "k = h + e" by (rule wf_node_height [OF k(1) wa'])
  then have nf: "\<not> f x" using k xa by blast
  then have iD: "i \<in> D" using i x by blast
  have "a \<noteq> i"
  proof
    assume "a = i"
    then have "wf_node L i (h + e)" using wa' by simp
    then have "h = h + e" by (rule wf_node_height [OF w])
    then show False using e(2) by simp
  qed
  then have "node_range L a (h + e) \<inter> node_range L i h = {}"
    using c aD iD w wa' unfolding closed_ok_def by blast
  then show False using x xa by blast
qed

text \<open>A node whose indices are free is closed, and a closed node is opened.\<close>

lemma touch_Some: "i < length t \<Longrightarrow> touch free i t = propagateToRoot (t[i := mem_set free (t ! i)]) (i div 2)"
  by (simp add: touch_def)

lemma tree_inv_node:
  assumes inv: "tree_inv L H sz t M D f" and w: "wf_node L i h" and a: "\<forall>a \<in> set (ancestors i (H - h)). a \<notin> D"
  shows "tree_ok L sz t M D f i h"
proof -
  have d: "h \<le> H" "i div 2 ^ (H - h) = 1" using wf_node_depth w inv by (auto simp: tree_inv_def)
  have "tree_ok L sz t M D f 1 H" using inv unfolding tree_inv_def by blast
  then show ?thesis using tree_ok_descend [OF _ a, of L sz t M f h] d by simp
qed

lemma subtree_set:
  assumes ok: "tree_ok L sz t M D f i h" and w: "wf_node L i h" and i: "0 < i" "i < length t"
    and D': "\<And>j. j \<noteq> i \<Longrightarrow> j \<in> D' \<longleftrightarrow> j \<in> D"
    and g: "i \<in> D' \<longleftrightarrow> i \<notin> D" "\<forall>x\<in>node_range L i h. g x \<longleftrightarrow> i \<in> D" "i \<in> D \<or> (\<forall>x\<in>node_range L i h. f x)"
    and n: "node_ok L sz (t[i := m]) M g i h"
  shows "tree_ok L sz (t[i := m]) M D' g i h"
proof (cases h)
  case 0
  then show ?thesis using n by simp
next
  case (Suc k)
  let ?f = "if i \<in> D then \<lambda>_. True else f" and ?g = "if i \<in> D' then \<lambda>_. True else g"
  have ok': "tree_ok L sz t M D ?f (2 * i) k" "tree_ok L sz t M D ?f (2 * i + 1) k"
    using ok Suc by (simp_all add: Let_def)
  have w': "wf_node L (2 * i) k" "wf_node L (2 * i + 1) k" using w wf_node_children Suc by blast+
  have r: "node_range L (2 * i) k \<subseteq> node_range L i h" "node_range L (2 * i + 1) k \<subseteq> node_range L i h"
    using node_range_children [of L i k] w Suc by auto
  have fg: "?g x = ?f x" if "x \<in> node_range L i h" for x using that g by auto
  have nb: "j \<noteq> i" if "below (2 * i) j \<or> below (2 * i + 1) j" for j using that below_le i(1) by fastforce
  have same: "t[i := m] ! j = t ! j" "j \<in> D' \<longleftrightarrow> j \<in> D" if "below (2 * i) j \<or> below (2 * i + 1) j" for j
    using nb [OF that] D' by (metis nth_list_update_neq) (metis nb [OF that] D')
  have sub: "tree_ok L sz (t[i := m]) M D' ?g c k"
    if c: "c = 2 * i \<or> c = 2 * i + 1" and okc: "tree_ok L sz t M D ?f c k"
      and wc: "wf_node L c k" and rc: "node_range L c k \<subseteq> node_range L i h" for c
  proof (rule tree_ok_cong [OF wc okc])
    show "t[i := m] ! j = t ! j" if "below c j" for j using same(1) c that by blast
    show "j \<in> D' \<longleftrightarrow> j \<in> D" if "below c j" for j using same(2) c that by blast
    show "?g x = ?f x" if "x \<in> node_range L c k" for x using fg rc that by blast
  qed
  have "tree_ok L sz (t[i := m]) M D' ?g (2 * i) k" "tree_ok L sz (t[i := m]) M D' ?g (2 * i + 1) k"
    using sub ok' w' r by blast+
  then show ?thesis using n Suc by (simp add: Let_def)
qed

lemma touch_inv:
  assumes inv: "tree_inv L H sz t M D f" and w: "wf_node L i h"
    and D': "\<And>j. j \<noteq> i \<Longrightarrow> j \<in> D' \<longleftrightarrow> j \<in> D"
    and g: "i \<in> D' \<longleftrightarrow> i \<notin> D" "\<forall>x\<in>node_range L i h. g x \<longleftrightarrow> i \<in> D" "i \<in> D \<or> (\<forall>x\<in>node_range L i h. f x)"
      "\<And>x. x \<notin> node_range L i h \<Longrightarrow> g x = f x"
    and r: "node_range L i h \<subseteq> {..<sz}" "\<forall>x\<in>node_range L i h. M x = None"
    and free: "free = (if i \<in> D then 1 else 0)"
  shows "\<exists>t'. touch free i t = Some t' \<and> length t' = length t \<and> tree_ok L sz t' M D' g 1 H \<and> marks_ok sz M g"
proof -
  have L: "L = 2 ^ H" "0 < L" "length t = 2 * L" and mk: "marks_ok sz M f" using inv by (auto simp: tree_inv_def)
  have i: "0 < i" "i < length t" using wf_node_pos [OF w] wf_node_less [OF w] L by auto
  have d: "h \<le> H" "i div 2 ^ (H - h) = 1" using wf_node_depth w L by blast+
  have anc: "\<forall>a \<in> set (ancestors i (H - h)). a \<notin> D"
    using ancestors_open [OF inv w] g(3) by blast
  have ok: "tree_ok L sz t M D f i h" by (rule tree_inv_node [OF inv w anc])
  have mk': "marks_ok sz M g" unfolding marks_ok_def
  proof (intro allI impI)
    fix s n assume s: "M s = Some n"
    then have "s \<notin> node_range L i h" using r(2) by auto
    then show "0 < n \<and> s < sz \<and> \<not> g s" using mk s g(4) by (simp add: marks_ok_def)
  qed
  let ?xs = "seg L sz g i h"
  have le: "(i + 1) * 2 ^ h - L \<le> sz" using r(1) node_range_nonempty [OF w] unfolding node_range_def
    by (auto simp: lessThan_def subset_iff Suc_le_eq dest: spec [of _ "(i + 1) * 2 ^ h - L - 1"])
  have nm: "(if h = 0 then M (i - L) else None) = None"
  proof (cases h)
    case 0
    then have "i - L \<in> node_range L i h" using w by (simp add: node_range_def wf_node_def Suc_diff_le)
    then have "M (i - L) = None" using r(2) by blast
    then show ?thesis by simp
  qed simp
  have sz: "m_size (t ! i) = int (length ?xs)" using tree_ok_node [OF ok] nm by (simp add: node_ok_def Let_def seg_def)
  have "node_ok L sz (t[i := mem_set free (t ! i)]) M g i h"
  proof (cases "i \<in> D")
    case True
    then have "\<forall>x\<in>set ?xs. x" using g(2) by (auto simp: set_seg)
    then have "prefix_free ?xs = length ?xs" "suffix_free ?xs = length ?xs" "max_run ?xs = length ?xs"
      by (simp_all add: prefix_free_full suffix_free_full max_run_full)
    then show ?thesis using True free sz i nm by (simp add: node_ok_def Let_def mem_set_def)
  next
    case False
    then have "\<forall>x\<in>set ?xs. \<not> x" using g(2) by (auto simp: set_seg)
    then have "prefix_free ?xs = 0" "suffix_free ?xs = 0" "max_run ?xs = 0"
      using max_run_none suffix_free_none by blast+
    then show ?thesis using False free sz i nm by (simp add: node_ok_def Let_def mem_set_def)
  qed
  then have sub: "tree_ok L sz (t[i := mem_set free (t ! i)]) M D' g i h"
    using subtree_set [OF ok w i, of D' g] D' g(1,2,3) by blast
  have "\<exists>t'. propagateToRoot (t[i := mem_set free (t ! i)]) (i div 2) = Some t' \<and>
      tree_ok L sz t' M D' g 1 (h + (H - h)) \<and> length t' = length t"
  proof (rule propagate_ok [OF d(2) _ _ i(2) _ anc sub _ _ mk'])
    show "wf_node L 1 (h + (H - h))" using d(1) L wf_node_root by simp
    show "even (length t)" using L by simp
    have "tree_ok L sz t M D f 1 H" using inv unfolding tree_inv_def by blast
    then show "tree_ok L sz t M D f 1 (h + (H - h))" using d(1) by simp
    show "j \<in> D' \<longleftrightarrow> j \<in> D" if "\<not> below i j" for j using that D' below_refl by metis
    show "g x = f x" if "x \<notin> node_range L i h" for x using that by (rule g(4))
  qed
  then show ?thesis using d(1) mk' touch_Some [OF i(2)] by auto
qed

lemma close_node:
  assumes inv: "tree_inv L H sz t M D f" and w: "wf_node L i h"
    and r: "node_range L i h \<subseteq> {..<sz}" "\<forall>x\<in>node_range L i h. f x"
  shows "\<exists>t'. touch 0 i t = Some t' \<and>
    tree_inv L H sz t' M (insert i D) (\<lambda>x. f x \<and> x \<notin> node_range L i h)"
proof -
  let ?g = "\<lambda>x. f x \<and> x \<notin> node_range L i h"
  have mk: "marks_ok sz M f" and c: "closed_ok L sz D f" using inv by (auto simp: tree_inv_def)
  have iD: "i \<notin> D"
  proof
    assume "i \<in> D"
    then obtain k where k: "wf_node L i k" "\<forall>x\<in>node_range L i k. \<not> f x" using c by (auto simp: closed_ok_def)
    have "k = h" by (rule wf_node_height [OF k(1) w])
    then show False using k r(2) node_range_nonempty [OF w] by auto
  qed
  have M: "M x = None" if "x \<in> node_range L i h" for x
    using mk r(2) that by (cases "M x") (auto simp: marks_ok_def)
  obtain t' where t': "touch 0 i t = Some t'" "length t' = length t" "tree_ok L sz t' M (insert i D) ?g 1 H" "marks_ok sz M ?g"
    using touch_inv [OF inv w, of "insert i D" ?g 0] iD r M by auto
  have sep: "node_range L i h' \<inter> node_range L d k = {}" if d: "d \<in> D" "wf_node L i h'" "wf_node L d k" for d k h'
  proof -
    obtain l where l: "wf_node L d l" "\<forall>x\<in>node_range L d l. \<not> f x" using c d(1) unfolding closed_ok_def by blast
    have "l = k" "h' = h" using wf_node_height l(1) d w by blast+
    then show ?thesis using l r(2) by auto
  qed
  have "closed_ok L sz (insert i D) ?g" unfolding closed_ok_def
  proof (intro conjI ballI impI allI)
    fix d assume d: "d \<in> insert i D"
    show "\<exists>h. wf_node L d h \<and> node_range L d h \<subseteq> {..<sz} \<and> (\<forall>x\<in>node_range L d h. \<not> ?g x)"
    proof (cases "d = i")
      case True
      then show ?thesis using w r(1) by blast
    next
      case False
      then have "\<exists>h. wf_node L d h \<and> node_range L d h \<subseteq> {..<sz} \<and> (\<forall>x\<in>node_range L d h. \<not> f x)"
        using c d unfolding closed_ok_def by blast
      then show ?thesis by blast
    qed
  next
    fix d e k l assume "d \<in> insert i D" "e \<in> insert i D" "d \<noteq> e" "wf_node L d k" "wf_node L e l"
    then show "node_range L d k \<inter> node_range L e l = {}"
      using sep c unfolding closed_ok_def by (metis inf_commute insert_iff)
  qed
  then show ?thesis using t' inv by (auto simp: tree_inv_def)
qed

lemma open_node:
  assumes inv: "tree_inv L H sz t M D f" and w: "wf_node L i h"
    and i: "i \<in> D" "\<forall>x\<in>node_range L i h. M x = None"
  shows "\<exists>t'. touch 1 i t = Some t' \<and>
    tree_inv L H sz t' M (D - {i}) (\<lambda>x. f x \<or> x \<in> node_range L i h)"
proof -
  let ?g = "\<lambda>x. f x \<or> x \<in> node_range L i h"
  have c: "closed_ok L sz D f" using inv by (auto simp: tree_inv_def)
  obtain k where k: "wf_node L i k" "node_range L i k \<subseteq> {..<sz}" using c i(1) by (auto simp: closed_ok_def)
  have "k = h" by (rule wf_node_height [OF k(1) w])
  then have r: "node_range L i h \<subseteq> {..<sz}" using k by simp
  obtain t' where t': "touch 1 i t = Some t'" "length t' = length t" "tree_ok L sz t' M (D - {i}) ?g 1 H" "marks_ok sz M ?g"
    using touch_inv [OF inv w, of "D - {i}" ?g 1] i r by auto
  have "closed_ok L sz (D - {i}) ?g" unfolding closed_ok_def
  proof (intro conjI ballI impI allI)
    fix d assume d: "d \<in> D - {i}"
    then obtain k where k: "wf_node L d k" "node_range L d k \<subseteq> {..<sz}" "\<forall>x\<in>node_range L d k. \<not> f x"
      using c by (auto simp: closed_ok_def)
    have "node_range L d k \<inter> node_range L i h = {}" using c d i(1) k(1) w unfolding closed_ok_def by blast
    then show "\<exists>h. wf_node L d h \<and> node_range L d h \<subseteq> {..<sz} \<and> (\<forall>x\<in>node_range L d h. \<not> ?g x)"
      using k by blast
  next
    fix d e k l assume "d \<in> D - {i}" "e \<in> D - {i}" "d \<noteq> e" "wf_node L d k" "wf_node L e l"
    then show "node_range L d k \<inter> node_range L e l = {}" using c unfolding closed_ok_def by blast
  qed
  then show ?thesis using t' inv by (auto simp: tree_inv_def)
qed

lemma cover_node: "cover L is A \<Longrightarrow> i \<in> set is \<Longrightarrow> \<exists>h. wf_node L i h \<and> node_range L i h \<subseteq> A"
  by (induction "is" arbitrary: A) (auto, blast)

lemma cover_point: "cover L is A \<Longrightarrow> x \<in> A \<Longrightarrow> \<exists>i\<in>set is. \<exists>h. wf_node L i h \<and> x \<in> node_range L i h"
proof (induction "is" arbitrary: A)
  case (Cons i "is")
  then obtain h where h: "wf_node L i h" "node_range L i h \<subseteq> A" "cover L is (A - node_range L i h)" by auto
  show ?case
  proof (cases "x \<in> node_range L i h")
    case False
    then show ?thesis using Cons.IH [OF h(3)] Cons.prems(2) by auto
  qed (use h in auto)
qed simp

lemma close_all:
  assumes "cover L is A" "tree_inv L H sz t M D f" "A \<subseteq> {..<sz}" "\<forall>x\<in>A. f x"
  shows "\<exists>t'. touch_all 0 is t = Some t' \<and> tree_inv L H sz t' M (D \<union> set is) (\<lambda>x. f x \<and> x \<notin> A)"
  using assms
proof (induction "is" arbitrary: A t D f)
  case (Cons i "is")
  obtain h where h: "wf_node L i h" "node_range L i h \<subseteq> A" "cover L is (A - node_range L i h)" using Cons.prems(1) by auto
  have "node_range L i h \<subseteq> {..<sz}" "\<forall>x\<in>node_range L i h. f x" using Cons.prems h(2) by auto
  then obtain t1 where t1: "touch 0 i t = Some t1"
    "tree_inv L H sz t1 M (insert i D) (\<lambda>x. f x \<and> x \<notin> node_range L i h)" using close_node [OF Cons.prems(2) h(1)] by blast
  have "A - node_range L i h \<subseteq> {..<sz}" "\<forall>x\<in>A - node_range L i h. f x \<and> x \<notin> node_range L i h" using Cons.prems by auto
  from Cons.IH [OF h(3) t1(2) this] obtain t' where t': "touch_all 0 is t1 = Some t'"
    "tree_inv L H sz t' M (insert i D \<union> set is) (\<lambda>x. (f x \<and> x \<notin> node_range L i h) \<and> x \<notin> A - node_range L i h)" by blast
  moreover have "(\<lambda>x. (f x \<and> x \<notin> node_range L i h) \<and> x \<notin> A - node_range L i h) = (\<lambda>x. f x \<and> x \<notin> A)"
    using h(2) by auto
  ultimately show ?case using t1(1) by simp
qed simp

lemma open_all:
  assumes "cover L is A" "tree_inv L H sz t M D f" "set is \<subseteq> D" "\<forall>x\<in>A. M x = None"
  shows "\<exists>t'. touch_all 1 is t = Some t' \<and> tree_inv L H sz t' M (D - set is) (\<lambda>x. f x \<or> x \<in> A)"
  using assms
proof (induction "is" arbitrary: A t D f)
  case (Cons i "is")
  obtain h where h: "wf_node L i h" "node_range L i h \<subseteq> A" "cover L is (A - node_range L i h)" using Cons.prems(1) by auto
  have "i \<in> D" "\<forall>x\<in>node_range L i h. M x = None" using Cons.prems h(2) by auto
  then obtain t1 where t1: "touch 1 i t = Some t1"
    "tree_inv L H sz t1 M (D - {i}) (\<lambda>x. f x \<or> x \<in> node_range L i h)" using open_node [OF Cons.prems(2) h(1)] by blast
  have "i \<notin> set is"
  proof
    assume "i \<in> set is"
    then obtain k where k: "wf_node L i k" "node_range L i k \<subseteq> A - node_range L i h" using cover_node [OF h(3)] by blast
    have "k = h" by (rule wf_node_height [OF k(1) h(1)])
    then show False using k(2) node_range_nonempty [OF h(1)] by auto
  qed
  then have "set is \<subseteq> D - {i}" "\<forall>x\<in>A - node_range L i h. M x = None" using Cons.prems by auto
  from Cons.IH [OF h(3) t1(2) this] obtain t' where t': "touch_all 1 is t1 = Some t'"
    "tree_inv L H sz t' M (D - {i} - set is) (\<lambda>x. (f x \<or> x \<in> node_range L i h) \<or> x \<in> A - node_range L i h)" by blast
  moreover have "(\<lambda>x. (f x \<or> x \<in> node_range L i h) \<or> x \<in> A - node_range L i h) = (\<lambda>x. f x \<or> x \<in> A)"
    using h(2) by auto
  moreover have "D - {i} - set is = D - set (i # is)" by auto
  ultimately show ?case using t1(1) by simp
qed simp

text \<open>The leaf of an index.\<close>

lemma leaf_node:
  assumes "tree_ok L sz t M D f i h" "wf_node L i h" "s \<in> node_range L i h"
  shows "\<exists>g. (g = f \<or> g = (\<lambda>_. True)) \<and> node_ok L sz t M g (L + s) 0"
  using assms
proof (induction h arbitrary: i f)
  case 0
  then have "L + s = i" by (auto simp: node_range_def wf_node_def)
  then show ?case using 0 by auto
next
  case (Suc h)
  let ?g = "if i \<in> D then \<lambda>_. True else f"
  have "s \<in> node_range L (2 * i) h \<or> s \<in> node_range L (2 * i + 1) h" using node_range_children Suc.prems by blast
  moreover have "tree_ok L sz t M D ?g (2 * i) h" "tree_ok L sz t M D ?g (2 * i + 1) h"
    using Suc.prems by (simp_all add: Let_def)
  moreover have "wf_node L (2 * i) h" "wf_node L (2 * i + 1) h" using wf_node_children Suc.prems by blast+
  ultimately have "\<exists>g. (g = ?g \<or> g = (\<lambda>_. True)) \<and> node_ok L sz t M g (L + s) 0" using Suc.IH by blast
  then show ?case by (auto split: if_splits)
qed

text \<open>A change of one leaf.\<close>

lemma tree_ok_leaf:
  assumes "tree_ok L sz t M D f i h" "wf_node L i h" "s < L"
    and t': "\<And>j. j \<noteq> L + s \<Longrightarrow> t' ! j = t ! j" and M': "\<And>x. x \<noteq> s \<Longrightarrow> M' x = M x"
    and leaf: "\<And>g. g = f \<or> g = (\<lambda>_. True) \<Longrightarrow> node_ok L sz t M g (L + s) 0 \<Longrightarrow> node_ok L sz t' M' g (L + s) 0"
  shows "tree_ok L sz t' M' D f i h"
  using assms(1,2) leaf
proof (induction h arbitrary: i f)
  case 0
  show ?case
  proof (cases "i = L + s")
    case True
    then show ?thesis using 0 by simp
  next
    case False
    have "L \<le> i" using 0(2) by (simp add: wf_node_def)
    then have "i - L \<noteq> s" using False by auto
    then have M: "M' (i - L) = M (i - L)" by (rule M')
    have "node_ok L sz t M f i 0" using 0(1) by simp
    then show ?thesis using t' [OF False] M by (simp add: node_ok_def)
  qed
next
  case (Suc h)
  let ?g = "if i \<in> D then \<lambda>_. True else f"
  have ok: "tree_ok L sz t M D ?g (2 * i) h" "tree_ok L sz t M D ?g (2 * i + 1) h"
    using Suc.prems by (simp_all add: Let_def)
  have w: "wf_node L (2 * i) h" "wf_node L (2 * i + 1) h" using wf_node_children Suc.prems(2) by blast+
  have l: "node_ok L sz t' M' g (L + s) 0" if "g = ?g \<or> g = (\<lambda>_. True)" "node_ok L sz t M g (L + s) 0" for g
    using that Suc.prems(3) [of g] by (auto split: if_splits)
  have "tree_ok L sz t' M' D ?g (2 * i) h" "tree_ok L sz t' M' D ?g (2 * i + 1) h"
    using Suc.IH [OF ok(1) w(1) l] Suc.IH [OF ok(2) w(2) l] by blast+
  moreover have "node_ok L sz t' M' f i (Suc h)"
  proof -
    have "i \<noteq> L + s"
    proof
      assume "i = L + s"
      then have "wf_node L i 0" using assms(3) by (simp add: wf_node_def)
      then show False using wf_node_height [OF _ Suc.prems(2)] by blast
    qed
    then have "t' ! i = t ! i" by (rule t')
    moreover have "node_ok L sz t M f i (Suc h)" by (rule tree_ok_node [OF Suc.prems(1)])
    ultimately show ?thesis by (simp add: node_ok_def)
  qed
  ultimately show ?case by (simp add: Let_def)
qed

section \<open>Taking and giving back a block\<close>

text \<open>The reference: the list of the allocated blocks, each a start and a length.\<close>

definition free_in :: "(nat \<times> nat) list \<Rightarrow> nat \<Rightarrow> bool" where
  "free_in bs x \<longleftrightarrow> (\<forall>(s, n) \<in> set bs. \<not> (s \<le> x \<and> x < s + n))"

definition blocks_ok :: "nat \<Rightarrow> (nat \<times> nat) list \<Rightarrow> bool" where
  "blocks_ok sz bs \<longleftrightarrow> distinct (map fst bs) \<and> (\<forall>(s, n) \<in> set bs. 0 < n \<and> s + n \<le> sz) \<and>
     (\<forall>(s, n) \<in> set bs. \<forall>(s', n') \<in> set bs. s < s' \<longrightarrow> s + n \<le> s')"

definition block_nodes :: "nat \<Rightarrow> nat \<times> nat \<Rightarrow> nat set" where
  "block_nodes L = (\<lambda>(s, n). set (update_nodes (L + s) (L + s + n - 1)))"

definition blocks_inv :: "nat \<Rightarrow> nat \<Rightarrow> nat \<Rightarrow> Memory list \<Rightarrow> (nat \<times> nat) list \<Rightarrow> bool" where
  "blocks_inv L H sz t bs \<longleftrightarrow>
     tree_inv L H sz t (map_of bs) (\<Union> (block_nodes L ` set bs)) (free_in bs) \<and> blocks_ok sz bs"

lemma block_cover:
  assumes "s + n \<le> L" "0 < n"
  shows "cover L (update_nodes (L + s) (L + s + n - 1)) {s ..< s + n}"
  using update_nodes_cover [of L "L + s" 0 "L + s + n - 1"] assms by simp

lemma ff_update_block:
  assumes "0 < n" "0 < L"
  shows "ff_update L (int s) (int s + int n) free t = touch_all free (update_nodes (L + s) (L + s + n - 1)) t"
proof -
  have "nat (int s + int L) = L + s" "nat (int s + int n + int L - 1) = L + s + n - 1" using assms by linarith+
  then show ?thesis using assms by (simp add: ff_update_def update_loop_nodes)
qed

lemma free_inD: "free_in bs x \<Longrightarrow> (s, n) \<in> set bs \<Longrightarrow> x < s \<or> s + n \<le> x"
  by (force simp: free_in_def)

lemma free_in_Cons: "free_in ((s, n) # bs) x \<longleftrightarrow> free_in bs x \<and> x \<notin> {s ..< s + n}"
  by (auto simp: free_in_def)

lemma blocks_ok_Cons:
  assumes "blocks_ok sz bs" "s + n \<le> sz" "0 < n" "\<forall>x\<in>{s ..< s + n}. free_in bs x"
  shows "blocks_ok sz ((s, n) # bs)"
proof -
  have sep: "s + n \<le> s' \<or> s' + n' \<le> s" if "(s', n') \<in> set bs" for s' n'
  proof (rule ccontr)
    assume "\<not> (s + n \<le> s' \<or> s' + n' \<le> s)"
    then have x: "max s s' \<in> {s ..< s + n}" "s' \<le> max s s' \<and> max s s' < s' + n'" using assms(1,3) that
      by (auto simp: blocks_ok_def max_def)
    have "free_in bs (max s s')" using assms(4) x(1) by blast
    then show False using x(2) free_inD [OF _ that] by fastforce
  qed
  then have "s \<notin> fst ` set bs"
  proof (intro notI)
    assume "s \<in> fst ` set bs"
    then obtain n' where n': "(s, n') \<in> set bs" by auto
    then have "0 < n'" using assms(1) by (auto simp: blocks_ok_def)
    then show False using sep [OF n'] assms(3) by simp
  qed
  moreover have "\<forall>(s', n') \<in> set bs. (s < s' \<longrightarrow> s + n \<le> s') \<and> (s' < s \<longrightarrow> s' + n' \<le> s)"
  proof clarify
    fix s' n' assume "(s', n') \<in> set bs"
    moreover from this have "0 < n'" using assms(1) by (auto simp: blocks_ok_def)
    ultimately show "(s < s' \<longrightarrow> s + n \<le> s') \<and> (s' < s \<longrightarrow> s' + n' \<le> s)" using sep [of s' n'] assms(3) by auto
  qed
  ultimately show ?thesis using assms unfolding blocks_ok_def by auto
qed

lemma take_ok:
  assumes inv: "blocks_inv L H sz t bs" and n: "s + n \<le> sz" "0 < n" and fr: "\<forall>x\<in>{s ..< s + n}. free_in bs x"
  shows "\<exists>t'. ff_take L (int s) (int n) t = Some (Inr (int s), t') \<and> blocks_inv L H sz t' ((s, n) # bs)"
proof -
  let ?D = "\<Union> (block_nodes L ` set bs)" and ?ns = "update_nodes (L + s) (L + s + n - 1)"
  let ?f = "free_in ((s, n) # bs)" and ?M = "(map_of bs)(s \<mapsto> n)"
  have t: "tree_inv L H sz t (map_of bs) ?D (free_in bs)" and b: "blocks_ok sz bs" using inv by (auto simp: blocks_inv_def)
  have L: "L = 2 ^ H" "0 < L" "sz \<le> L" using t by (auto simp: tree_inv_def)
  have cov: "cover L ?ns {s ..< s + n}" using block_cover n L by simp
  have sub: "{s ..< s + n} \<subseteq> {..<sz}" using n by auto
  have feq: "(\<lambda>x. free_in bs x \<and> x \<notin> {s ..< s + n}) = ?f" by (auto simp: free_in_Cons)
  obtain t1 where t1: "touch_all 0 ?ns t = Some t1" "tree_inv L H sz t1 (map_of bs) (?D \<union> set ?ns) ?f"
    using close_all [OF cov t sub fr] unfolding feq by blast
  have len: "length t1 = 2 * L" and ok: "tree_ok L sz t1 (map_of bs) (?D \<union> set ?ns) ?f 1 H"
    using t1(2) unfolding tree_inv_def by blast+
  let ?t = "t1[L + s := (t1 ! (L + s))\<lparr>m_max := -1, m_size := int n\<rparr>]"
  have sL: "s < L" "L + s < length t1" using n L len by auto
  have "tree_ok L sz ?t ?M (?D \<union> set ?ns) ?f 1 H"
  proof (rule tree_ok_leaf [OF ok])
    show "wf_node L 1 H" using L wf_node_root by simp
    show "s < L" by (rule sL)
    show "?t ! j = t1 ! j" if "j \<noteq> L + s" for j using that by simp
    show "?M x = map_of bs x" if "x \<noteq> s" for x using that by simp
    show "node_ok L sz ?t ?M g (L + s) 0" if "node_ok L sz t1 (map_of bs) g (L + s) 0" for g
      using that sL by (simp add: node_ok_def Let_def)
  qed
  moreover have "marks_ok sz ?M ?f" "closed_ok L sz (?D \<union> set ?ns) ?f"
    using t1(2) n by (auto simp: tree_inv_def marks_ok_def free_in_Cons)
  ultimately have "tree_inv L H sz ?t ?M (?D \<union> set ?ns) ?f"
    using L len unfolding tree_inv_def by simp
  moreover have "(\<Union> (block_nodes L ` set ((s, n) # bs))) = ?D \<union> set ?ns" by (auto simp: block_nodes_def)
  moreover have "map_of ((s, n) # bs) = ?M" by simp
  ultimately have "blocks_inv L H sz ?t ((s, n) # bs)"
    using blocks_ok_Cons [OF b n fr] unfolding blocks_inv_def by metis
  moreover have "ff_take L (int s) (int n) t = Some (Inr (int s), ?t)"
    using t1(1) sL by (simp add: ff_take_def ff_update_block n L Let_def)
  ultimately show ?thesis by blast
qed

text \<open>The first node that update opens is the leaf of the start of a block, when it opens that leaf.\<close>

lemma update_nodes_mem:
  assumes "j \<in> set (update_nodes l r)"
  shows "l \<le> r \<and> 0 < l \<and> (odd l \<and> j = l \<or> even r \<and> j = r \<or>
    j \<in> set (update_nodes (if odd l then (l + 1) div 2 else l div 2) (if odd r then r div 2 else (r - 1) div 2)))"
proof -
  have "\<not> (r < l \<or> l = 0)"
  proof
    assume "r < l \<or> l = 0"
    then have "update_nodes l r = []" by (subst update_nodes.simps) (simp only: if_True)
    then show False using assms by simp
  qed
  moreover from this have "j \<in> set ((if odd l then [l] else []) @ (if even r then [r] else []) @
      update_nodes (if odd l then (l + 1) div 2 else l div 2) (if odd r then r div 2 else (r - 1) div 2))"
    using assms by (subst (asm) update_nodes.simps) (simp only: if_False)
  ultimately show ?thesis by (cases "odd l"; cases "even r") auto
qed

lemma update_nodes_le: "j \<in> set (update_nodes l r) \<Longrightarrow> j \<le> r"
proof (induction l r rule: update_nodes.induct)
  case (1 l r)
  have "(if odd r then r div 2 else (r - 1) div 2) \<le> r" by presburger
  then show ?case using update_nodes_mem [OF 1(2)] 1(1) by fastforce
qed

lemma update_nodes_first:
  assumes "L \<le> l" "r < 2 * L" "l \<in> set (update_nodes l r)"
  shows "\<exists>ns. update_nodes l r = l # ns"
proof -
  let ?l = "if odd l then (l + 1) div 2 else l div 2" and ?r = "if odd r then r div 2 else (r - 1) div 2"
  have "?r < L" using assms(2) by auto
  then have "l \<notin> set (update_nodes ?l ?r)" using update_nodes_le [of l ?l ?r] assms(1) by auto
  then have o: "odd l \<or> even r \<and> l = r" and le: "l \<le> r" "0 < l" using update_nodes_mem [OF assms(3)] by auto
  have "update_nodes l r = (if odd l then [l] else []) @ (if even r then [r] else []) @ update_nodes ?l ?r"
  proof -
    have "\<not> (r < l \<or> l = 0)" using le by auto
    then show ?thesis by (subst update_nodes.simps) (simp only: if_False)
  qed
  then show ?thesis using o by (cases "odd l") auto
qed

lemma touch_overwrites:
  "m_size a = m_size b \<Longrightarrow> touch free i (t[i := a]) = touch free i (t[i := b])"
  by (cases a; cases b) (simp add: touch_def mem_set_def)

text \<open>Below a closed node the leaves are as if they were free.\<close>

lemma stale_leaf:
  assumes "tree_inv L H sz t M D f" "d \<in> D" "wf_node L d h" "s \<in> node_range L d h" "d \<noteq> L + s"
  shows "node_ok L sz t M (\<lambda>_. True) (L + s) 0"
proof -
  have "\<forall>a \<in> set (ancestors d (H - h)). a \<notin> D" using ancestors_open [OF assms(1,3)] assms(2) by blast
  then have ok: "tree_ok L sz t M D f d h" using tree_inv_node [OF assms(1,3)] by blast
  show ?thesis
  proof (cases h)
    case 0
    then show ?thesis using assms by (auto simp: node_range_def wf_node_def)
  next
    case (Suc k)
    then have "tree_ok L sz t M D (\<lambda>_. True) (2 * d) k" "tree_ok L sz t M D (\<lambda>_. True) (2 * d + 1) k"
      using ok assms(2) by (simp_all add: Let_def)
    moreover have "wf_node L (2 * d) k" "wf_node L (2 * d + 1) k" using wf_node_children assms(3) Suc by blast+
    moreover have "s \<in> node_range L (2 * d) k \<or> s \<in> node_range L (2 * d + 1) k"
      using node_range_children assms(3,4) Suc by blast
    ultimately show ?thesis using leaf_node by blast
  qed
qed

lemma blocks_mark:
  assumes inv: "blocks_inv L H sz t bs" and s: "s < sz"
  shows "\<exists>g. (g = free_in bs \<or> g = (\<lambda>_. True)) \<and> node_ok L sz t (map_of bs) g (L + s) 0"
proof -
  let ?D = "\<Union> (block_nodes L ` set bs)"
  have t: "tree_inv L H sz t (map_of bs) ?D (free_in bs)" using inv by (auto simp: blocks_inv_def)
  then have "L = 2 ^ H" "sz \<le> L" by (auto simp: tree_inv_def)
  moreover have "tree_ok L sz t (map_of bs) ?D (free_in bs) 1 H" using t unfolding tree_inv_def by blast
  ultimately show ?thesis using leaf_node [of L sz t "map_of bs" ?D "free_in bs" 1 H s] s wf_node_root
    by (auto simp: node_range_def)
qed

lemma set_map_erase: "set (map_erase k m) = {b \<in> set m. fst b \<noteq> k}"
  by (auto simp: map_erase_def)

lemma blocks_apart:
  assumes "blocks_ok sz bs" "(s, n) \<in> set bs" "(s', n') \<in> set bs" "s' \<noteq> s"
  shows "{s ..< s + n} \<inter> {s' ..< s' + n'} = {}"
  using assms by (cases "s < s'") (fastforce simp: blocks_ok_def)+

lemma blocks_erase:
  assumes b: "blocks_ok sz bs" and s: "(s, n) \<in> set bs"
  shows "blocks_ok sz (map_erase s bs)" "free_in (map_erase s bs) = (\<lambda>x. free_in bs x \<or> x \<in> {s ..< s + n})"
proof -
  have "distinct (map fst (map_erase s bs))" using b
    by (auto simp: map_erase_def blocks_ok_def distinct_map inj_on_def)
  then show "blocks_ok sz (map_erase s bs)" using b by (auto simp: blocks_ok_def set_map_erase)
  have eq: "n' = n" if "(s, n') \<in> set bs" for n' using b s that by (metis blocks_ok_def eq_key_imp_eq_value)
  show "free_in (map_erase s bs) = (\<lambda>x. free_in bs x \<or> x \<in> {s ..< s + n})"
  proof
    fix x
    have "free_in (map_erase s bs) x" if "x \<in> {s ..< s + n}"
      using blocks_apart [OF b s] that by (fastforce simp: free_in_def set_map_erase)
    moreover have "free_in bs x" if "free_in (map_erase s bs) x" "x \<notin> {s ..< s + n}"
      using that eq by (fastforce simp: free_in_def set_map_erase)
    moreover have "free_in (map_erase s bs) x" if "free_in bs x" using that by (auto simp: free_in_def set_map_erase)
    ultimately show "free_in (map_erase s bs) x \<longleftrightarrow> free_in bs x \<or> x \<in> {s ..< s + n}" by blast
  qed
qed

lemma block_nodes_erase:
  assumes b: "blocks_ok sz bs" and s: "(s, n) \<in> set bs" and L: "sz \<le> L"
  shows "\<Union> (block_nodes L ` set (map_erase s bs)) =
    \<Union> (block_nodes L ` set bs) - set (update_nodes (L + s) (L + s + n - 1))"
proof -
  have cov: "cover L (update_nodes (L + s') (L + s' + n' - 1)) {s' ..< s' + n'}" if "(s', n') \<in> set bs" for s' n'
    using block_cover [of s' n' L] b that L by (fastforce simp: blocks_ok_def)
  have apart: "block_nodes L (s', n') \<inter> block_nodes L (s, n) = {}" if m: "(s', n') \<in> set bs" "s' \<noteq> s" for s' n'
  proof (rule equals0I)
    fix i assume i: "i \<in> block_nodes L (s', n') \<inter> block_nodes L (s, n)"
    obtain h where h: "wf_node L i h" "node_range L i h \<subseteq> {s' ..< s' + n'}"
      using cover_node [OF cov [OF m(1)]] i by (auto simp: block_nodes_def)
    obtain k where k: "wf_node L i k" "node_range L i k \<subseteq> {s ..< s + n}"
      using cover_node [OF cov [OF s]] i by (auto simp: block_nodes_def)
    have "h = k" by (rule wf_node_height [OF h(1) k(1)])
    then show False using h(2) k(2) node_range_nonempty [OF h(1)] blocks_apart [OF b s m] by blast
  qed
  have eq: "n' = n" if "(s, n') \<in> set bs" for n' using b s that by (metis blocks_ok_def eq_key_imp_eq_value)
  have ns: "set (update_nodes (L + s) (L + s + n - 1)) = block_nodes L (s, n)" by (simp add: block_nodes_def)
  show ?thesis unfolding ns
  proof (intro equalityI subsetI)
    fix i assume "i \<in> \<Union> (block_nodes L ` set (map_erase s bs))"
    then obtain s' n' where "(s', n') \<in> set bs" "s' \<noteq> s" "i \<in> block_nodes L (s', n')" by (auto simp: set_map_erase)
    then show "i \<in> \<Union> (block_nodes L ` set bs) - block_nodes L (s, n)" using apart by blast
  next
    fix i assume i: "i \<in> \<Union> (block_nodes L ` set bs) - block_nodes L (s, n)"
    then obtain s' n' where b': "(s', n') \<in> set bs" "i \<in> block_nodes L (s', n')" by auto
    then have "s' \<noteq> s" using eq i by blast
    then have "(s', n') \<in> set (map_erase s bs)" using b' by (simp add: set_map_erase)
    then show "i \<in> \<Union> (block_nodes L ` set (map_erase s bs))" using b'(2) by blast
  qed
qed

lemma give_back_ok:
  assumes inv: "blocks_inv L H sz t bs" and s: "map_of bs s = Some n"
  shows "\<exists>t'. ff_update L (int s) (int s + int n) 1 (t[L + s := (t ! (L + s))\<lparr>m_size := 1, m_max := 1\<rparr>]) = Some t' \<and>
    blocks_inv L H sz t' (map_erase s bs)"
proof -
  let ?D = "\<Union> (block_nodes L ` set bs)" and ?ns = "update_nodes (L + s) (L + s + n - 1)"
  let ?bs = "map_erase s bs" and ?f = "free_in bs" and ?M = "(map_of bs)(s := None)"
  let ?leaf = "t ! (L + s)"
  have t: "tree_inv L H sz t (map_of bs) ?D ?f" and b: "blocks_ok sz bs" using inv by (auto simp: blocks_inv_def)
  have L: "L = 2 ^ H" "0 < L" "sz \<le> L" "length t = 2 * L" using t by (auto simp: tree_inv_def)
  have sn: "(s, n) \<in> set bs" by (rule map_of_SomeD [OF s])
  then have n: "0 < n" "s + n \<le> sz" and sL: "s < L" "L + s < length t" using b L by (auto simp: blocks_ok_def)
  have cov: "cover L ?ns {s ..< s + n}" using block_cover n L by simp
  have ns: "set ?ns \<subseteq> ?D" using sn by (force simp: block_nodes_def)
  have nfree: "\<not> ?f s" using free_inD [OF _ sn, of s] n by auto
  txt \<open>The leaf with the maximum that its place in the tree asks for.\<close>
  let ?u = "t[L + s := ?leaf\<lparr>m_size := 1, m_max := m_left ?leaf\<rparr>]"
  have "tree_ok L sz ?u ?M ?D ?f 1 H"
  proof (rule tree_ok_leaf)
    show "tree_ok L sz t (map_of bs) ?D ?f 1 H" using t unfolding tree_inv_def by blast
    show "wf_node L 1 H" using L wf_node_root by simp
    show "s < L" by (rule sL)
    show "?u ! j = t ! j" if "j \<noteq> L + s" for j using that by simp
    show "?M x = map_of bs x" if "x \<noteq> s" for x using that by simp
    show "node_ok L sz ?u ?M g (L + s) 0" if "node_ok L sz t (map_of bs) g (L + s) 0" for g
    proof -
      have "seg L sz g (L + s) 0 = [g s]" using n by (simp add: seg_def)
      then show ?thesis using that sL by (simp add: node_ok_def Let_def)
    qed
  qed
  moreover have "marks_ok sz ?M ?f" using t by (auto simp: tree_inv_def marks_ok_def)
  moreover have "closed_ok L sz ?D ?f" using t unfolding tree_inv_def by blast
  ultimately have u: "tree_inv L H sz ?u ?M ?D ?f" using L unfolding tree_inv_def by simp
  have "\<forall>x\<in>{s ..< s + n}. ?M x = None"
  proof
    fix x assume x: "x \<in> {s ..< s + n}"
    show "?M x = None"
    proof (rule ccontr)
      assume "?M x \<noteq> None"
      then obtain m where "x \<noteq> s" "(x, m) \<in> set bs" by (auto dest: map_of_SomeD split: if_splits)
      then show False using b sn x by (fastforce simp: blocks_ok_def)
    qed
  qed
  then obtain t' where t': "touch_all 1 ?ns ?u = Some t'" "tree_inv L H sz t' ?M (?D - set ?ns) (\<lambda>x. ?f x \<or> x \<in> {s ..< s + n})"
    using open_all [OF cov u ns] by blast
  have same: "touch_all 1 ?ns (t[L + s := ?leaf\<lparr>m_size := 1, m_max := 1\<rparr>]) = touch_all 1 ?ns ?u"
  proof (cases "L + s \<in> set ?ns")
    case True
    have "L + s + n - 1 < 2 * L" using n L by linarith
    then obtain ks where "?ns = (L + s) # ks" using update_nodes_first [OF _ _ True, of L] by auto
    then show ?thesis using touch_overwrites [of "?leaf\<lparr>m_size := 1, m_max := 1\<rparr>" "?leaf\<lparr>m_size := 1, m_max := m_left ?leaf\<rparr>"]
      by simp
  next
    case False
    have "s \<in> {s ..< s + n}" using n by simp
    then obtain d h where d: "d \<in> set ?ns" "wf_node L d h" "s \<in> node_range L d h" using cover_point [OF cov] by blast
    have "node_ok L sz t (map_of bs) (\<lambda>_. True) (L + s) 0"
      by (rule stale_leaf [OF t _ d(2,3)]) (use d(1) ns False in auto)
    then have "m_left ?leaf = 1" using n by (simp add: node_ok_def Let_def seg_def)
    then show ?thesis by simp
  qed
  have "blocks_inv L H sz t' ?bs"
    using t'(2) blocks_erase [OF b sn] block_nodes_erase [OF b sn L(3)] by (simp add: blocks_inv_def map_of_map_erase)
  then show ?thesis using t'(1) same by (simp add: ff_update_block n L)
qed

section \<open>The search for a block\<close>

lemma closed_not_fit:
  assumes "tree_inv L H sz t M D f" "wf_node L i h" "i \<in> D" shows "max_run (seg L sz f i h) = 0"
proof -
  obtain k where k: "wf_node L i k" "\<forall>x\<in>node_range L i k. \<not> f x"
    using assms unfolding tree_inv_def closed_ok_def by blast
  have "k = h" by (rule wf_node_height [OF k(1) assms(2)])
  then have "\<forall>x\<in>set (seg L sz f i h). \<not> x" using k(2) by (auto simp: set_seg)
  then show ?thesis using max_run_none by blast
qed

text \<open>A marked leaf holds the size of its block, not its own; the search reads the size of a left child only
  when the block ends there.\<close>

lemma left_size:
  assumes b: "blocks_ok sz bs" and ok: "node_ok L sz t (map_of bs) (free_in bs) (2 * i) h"
    and w: "wf_node L i (Suc h)" and n: "0 < n"
    and fit: "n \<le> suffix_free (seg L sz (free_in bs) (2 * i) h) + prefix_free (seg L sz (free_in bs) (2 * i + 1) h)
      \<or> n \<le> max_run (seg L sz (free_in bs) (2 * i + 1) h)" and nf: "\<not> n \<le> max_run (seg L sz (free_in bs) (2 * i) h)"
  shows "m_size (t ! (2 * i)) = int (length (seg L sz (free_in bs) (2 * i) h))"
proof (cases "if h = 0 then map_of bs (2 * i - L) else None")
  case None
  then show ?thesis using ok by (simp add: node_ok_def Let_def)
next
  case (Some m)
  let ?s = "2 * i - L" and ?xs = "seg L sz (free_in bs) (2 * i) h" and ?ys = "seg L sz (free_in bs) (2 * i + 1) h"
  have h: "h = 0" "(?s, m) \<in> set bs" using Some by (auto split: if_splits dest: map_of_SomeD)
  have m: "0 < m" "?s + m \<le> sz" using b h by (auto simp: blocks_ok_def)
  have iL: "L \<le> 2 * i" using w h by (simp add: wf_node_def)
  have "\<not> free_in bs ?s" using free_inD [OF _ h(2), of ?s] m by auto
  moreover have "min (2 * i + 1 - L) sz = Suc ?s" using m iL by simp
  ultimately have xs: "?xs = [False]" using h by (simp add: seg_def)
  have "m = 1"
  proof (rule ccontr)
    assume "m \<noteq> 1"
    then have s1: "?s \<le> ?s + 1" "?s + 1 < ?s + m" using m by auto
    then have "\<not> free_in bs (?s + 1)" using free_inD [OF _ h(2), of "?s + 1"] by auto
    moreover have "Suc (2 * i) - L = ?s + 1" "min (Suc (Suc (2 * i)) - L) sz = ?s + 2" using iL s1 m by auto
    ultimately have "?ys = [False]" using h by (simp add: seg_def)
    then show False using fit xs n by (simp add: suffix_free_def)
  qed
  then show ?thesis using ok xs Some by (simp add: node_ok_def Let_def)
qed

lemma acquire_loop_finds:
  assumes inv: "blocks_inv L H sz t bs" and n: "0 < n"
  shows "tree_ok L sz t (map_of bs) (\<Union> (block_nodes L ` set bs)) (free_in bs) i h \<Longrightarrow> wf_node L i h \<Longrightarrow>
    n \<le> max_run (seg L sz (free_in bs) i h) \<Longrightarrow>
    \<exists>k. first_fit n (seg L sz (free_in bs) i h) = Some k \<and>
      acquire_loop L (int n) t i (int (i * 2 ^ h - L)) = ff_take L (int (i * 2 ^ h - L + k)) (int n) t"
proof (induction h arbitrary: i)
  have t: "tree_inv L H sz t (map_of bs) (\<Union> (block_nodes L ` set bs)) (free_in bs)" and b: "blocks_ok sz bs"
    using inv by (auto simp: blocks_inv_def)
  have L: "0 < L" "length t = 2 * L" and mk: "marks_ok sz (map_of bs) (free_in bs)" using t by (auto simp: tree_inv_def)
  {
    case 0
    let ?xs = "seg L sz (free_in bs) i 0"
    have i: "i < 2 * L" using wf_node_less [OF 0(2)] L by simp
    have "length ?xs \<le> 1" by (auto simp: seg_def)
    then have p: "n \<le> prefix_free ?xs" using 0(3) n by (cases ?xs rule: max_run.cases) (auto split: if_splits)
    then have "int n \<le> m_left (t ! i)" using tree_ok_node [OF 0(1)] by (simp add: node_ok_def Let_def)
    then show ?case using p i L by (subst acquire_loop.simps) (simp add: first_fit_prefix)
  next
    case (Suc h)
    let ?f = "free_in bs" and ?D = "\<Union> (block_nodes L ` set bs)"
    let ?xs = "seg L sz ?f (2 * i) h" and ?ys = "seg L sz ?f (2 * i + 1) h" and ?zs = "seg L sz ?f i (Suc h)"
    have zs: "?zs = ?xs @ ?ys" by (rule seg_children [OF Suc.prems(2)])
    have iD: "i \<notin> ?D" using closed_not_fit [OF t Suc.prems(2)] Suc.prems(3) n by auto
    have ok: "tree_ok L sz t (map_of bs) ?D ?f (2 * i) h" "tree_ok L sz t (map_of bs) ?D ?f (2 * i + 1) h"
      using Suc.prems(1) iD by (simp_all add: Let_def)
    have w: "wf_node L (2 * i) h" "wf_node L (2 * i + 1) h" using wf_node_children Suc.prems(2) by blast+
    have i: "i < 2 * L" "2 * i + 1 < 2 * L" using wf_node_less Suc.prems(2) w L by blast+
    note l = node_summary [OF tree_ok_node [OF ok(1)] w(1) mk] and r = node_summary [OF tree_ok_node [OF ok(2)] w(2) mk]
    have left: "int n \<le> m_left (t ! i) \<longleftrightarrow> n \<le> prefix_free ?zs"
      using tree_ok_node [OF Suc.prems(1)] by (simp add: node_ok_def Let_def)
    have lmax: "int n \<le> m_max (t ! (2 * i)) \<longleftrightarrow> n \<le> max_run ?xs" using l(6) n by (auto simp: max_def split: if_splits)
    have pos: "2 * i * 2 ^ h - L = i * 2 ^ Suc h - L" by simp
    show ?case
    proof (cases "n \<le> prefix_free ?zs")
      case True
      then show ?thesis using left i L by (subst acquire_loop.simps) (simp add: first_fit_prefix)
    next
      case nopre: False
      show ?thesis
      proof (cases "n \<le> max_run ?xs")
        case True
        then obtain k where k: "first_fit n ?xs = Some k"
          "acquire_loop L (int n) t (2 * i) (int (2 * i * 2 ^ h - L)) = ff_take L (int (2 * i * 2 ^ h - L + k)) (int n) t"
          using Suc.IH [OF ok(1) w(1)] by blast
        have "acquire_loop L (int n) t i (int (i * 2 ^ Suc h - L)) = acquire_loop L (int n) t (2 * i) (int (2 * i * 2 ^ h - L))"
          using nopre left lmax True i L by (subst acquire_loop.simps) (simp add: ac_simps)
        then show ?thesis using k first_fit_append_left [OF True] zs pos by simp
      next
        case nol: False
        have fits: "n \<le> suffix_free ?xs + prefix_free ?ys \<or> n \<le> max_run ?ys"
          using Suc.prems(3) nol unfolding zs max_run_append by auto
        have size: "m_size (t ! (2 * i)) = int (length ?xs)"
          by (rule left_size [OF b tree_ok_node [OF ok(1)] Suc.prems(2) n fits nol])
        show ?thesis
        proof (cases "n \<le> suffix_free ?xs + prefix_free ?ys")
          case True
          have "int (i * 2 ^ Suc h - L) + (m_size (t ! (2 * i)) - m_right (t ! (2 * i))) =
            int (i * 2 ^ Suc h - L + (length ?xs - suffix_free ?xs))"
            using size l(2) suffix_free_le [of ?xs] by simp
          moreover have "int n \<le> m_right (t ! (2 * i)) + m_left (t ! (2 * i + 1))" using True l(2) r(1) by simp
          ultimately have "acquire_loop L (int n) t i (int (i * 2 ^ Suc h - L)) =
            ff_take L (int (i * 2 ^ Suc h - L + (length ?xs - suffix_free ?xs))) (int n) t"
            using nopre left lmax nol i L by (subst acquire_loop.simps) (simp del: power_Suc)
          then show ?thesis using first_fit_append_between [OF nol True] zs by simp
        next
          case nob: False
          then have ry: "n \<le> max_run ?ys" using fits by simp
          then obtain k where k: "first_fit n ?ys = Some k"
            "acquire_loop L (int n) t (2 * i + 1) (int ((2 * i + 1) * 2 ^ h - L)) =
              ff_take L (int ((2 * i + 1) * 2 ^ h - L + k)) (int n) t"
            using Suc.IH [OF ok(2) w(2)] by blast
          have "?ys \<noteq> []" using ry n by auto
          then have "(2 * i + 1) * 2 ^ h - L < sz" by (auto simp: seg_def)
          then have "length ?xs = (2 * i + 1) * 2 ^ h - L - (2 * i * 2 ^ h - L)" by (simp add: seg_def)
          moreover have "2 * i * 2 ^ h - L \<le> (2 * i + 1) * 2 ^ h - L" by (intro diff_le_mono mult_le_mono1) simp
          ultimately have ps: "i * 2 ^ Suc h - L + length ?xs = (2 * i + 1) * 2 ^ h - L" using pos by linarith
          have "int (i * 2 ^ Suc h - L) + m_size (t ! (2 * i)) = int ((2 * i + 1) * 2 ^ h - L)"
            unfolding size ps [symmetric] by simp
          moreover have "\<not> int n \<le> m_right (t ! (2 * i)) + m_left (t ! (2 * i + 1))" using nob l(2) r(1) by simp
          ultimately have "acquire_loop L (int n) t i (int (i * 2 ^ Suc h - L)) =
            acquire_loop L (int n) t (2 * i + 1) (int ((2 * i + 1) * 2 ^ h - L))"
            using nopre left lmax nol i L by (subst acquire_loop.simps) (simp del: power_Suc add: ac_simps)
          moreover have "first_fit n ?zs = Some (length ?xs + k)"
            unfolding zs first_fit_append_right [OF nol nob] k(1) by simp
          moreover have "(2 * i + 1) * 2 ^ h - L + k = i * 2 ^ Suc h - L + (length ?xs + k)" using ps by linarith
          ultimately show ?thesis using k(2) by (intro exI [of _ "length ?xs + k"]) (simp only: simp_thms)
        qed
      qed
    qed
  }
qed

section \<open>The tree of allocate\<close>

lemma last_layer_from:
  "0 < k \<Longrightarrow> \<exists>H. while_option (\<lambda>k. int k < n) (\<lambda>k. k * 2) k = Some (k * 2 ^ H) \<and>
    n \<le> int (k * 2 ^ H) \<and> (H = 0 \<or> int (k * 2 ^ H) < 2 * n)"
proof (induction "nat (n - int k)" arbitrary: k rule: less_induct)
  case less
  show ?case
  proof (cases "int k < n")
    case True
    then have "nat (n - int (k * 2)) < nat (n - int k)" using less.prems by simp
    then obtain H where H: "while_option (\<lambda>k. int k < n) (\<lambda>k. k * 2) (k * 2) = Some (k * 2 * 2 ^ H)"
      "n \<le> int (k * 2 * 2 ^ H)" "H = 0 \<or> int (k * 2 * 2 ^ H) < 2 * n"
      using less.hyps [of "k * 2"] less.prems by auto
    then show ?thesis using True
      by (intro exI [of _ "Suc H"]) (auto simp: while_option_unfold [of _ _ k] ac_simps)
  next
    case False
    then show ?thesis by (intro exI [of _ 0]) (simp add: while_option_unfold [of _ _ k])
  qed
qed

lemma last_layer_ok:
  assumes "0 < n"
  shows "\<exists>H. last_layer n = Some (2 ^ H) \<and> n \<le> 2 ^ H \<and> (2 :: int) ^ H < 2 * n"
proof -
  obtain H where "last_layer n = Some (2 ^ H)" "n \<le> 2 ^ H" "H = 0 \<or> (2 :: int) ^ H < 2 * n"
    using last_layer_from [of 1 n] by (auto simp: last_layer_def)
  then show ?thesis using assms by (intro exI [of _ H]) auto
qed

lemma build_tree_ok:
  assumes "L = 2 ^ H" "0 < sz" "sz \<le> L"
  shows "blocks_inv L H sz (build_tree (int sz) L) []"
proof -
  let ?t0 = "replicate L (mem_leaf 0) @ map (\<lambda>idx. if int idx < int sz then mem_leaf 1 else mem_leaf 0) [0..<L]"
  let ?B = "\<lambda>j. fold build_node (rev [j..<L]) ?t0"
  have len: "length (fold build_node is t) = length t" for "is" t
    by (induction "is" arbitrary: t) (simp_all add: build_node_def)
  have L: "0 < L" using assms by simp
  have free: "free_in [] = (\<lambda>_. True)" by (auto simp: free_in_def)
  have B: "tree_ok L sz (?B j) Map.empty {} (\<lambda>_. True) i h"
    if "j \<le> L" "0 < j" "j \<le> i" "wf_node L i h" for j i h
    using that
  proof (induction "L - j" arbitrary: j i h)
    case 0
    then have j: "j = L" by simp
    have h: "h = 0"
    proof (rule ccontr)
      assume "h \<noteq> 0"
      then have "(2 :: nat) ^ 1 \<le> 2 ^ h" by (intro power_increasing) auto
      then have "(i + 1) * 2 \<le> (i + 1) * 2 ^ h" by (intro mult_le_mono2) simp
      then show False using 0 j by (simp add: wf_node_def)
    qed
    then have i: "L \<le> i" "i < 2 * L" using 0 j by (auto simp: wf_node_def)
    have "?t0 ! i = (if i - L < sz then mem_leaf 1 else mem_leaf 0)" using i by (simp add: nth_append)
    moreover have "seg L sz (\<lambda>_. True) i 0 = (if i - L < sz then [True] else [])"
    proof -
      have "min (Suc i - L) sz = (if i - L < sz then Suc (i - L) else sz)" using i by auto
      then show ?thesis by (simp add: seg_def)
    qed
    ultimately show ?case using h j by (simp add: node_ok_def mem_leaf_def suffix_free_def)
  next
    case (Suc n)
    then have j: "j < L" by simp
    have IH: "tree_ok L sz (?B (Suc j)) Map.empty {} (\<lambda>_. True) i h" if "Suc j \<le> i" "wf_node L i h" for i h
      using Suc.hyps(1) [of "Suc j"] Suc.hyps(2) j that by simp
    let ?u = "(?B (Suc j))[j := (?B (Suc j) ! j)\<lparr>m_size := m_size (?B (Suc j) ! (2 * j)) + m_size (?B (Suc j) ! (2 * j + 1))\<rparr>]"
    have Bj: "?B j = recompute j ?u" using j Suc.prems(2) by (simp add: upt_conv_Cons build_node_def nth_list_update)
    have other: "?B j ! k = ?B (Suc j) ! k" if "k \<noteq> j" for k
      unfolding Bj recompute_def using that by simp
    show ?case
    proof (cases "i = j")
      case False
      then have IHi: "tree_ok L sz (?B (Suc j)) Map.empty {} (\<lambda>_. True) i h" using IH Suc.prems by simp
      show ?thesis
      proof (rule tree_ok_cong [OF Suc.prems(4) IHi])
        show "?B j ! k = ?B (Suc j) ! k" if "below i k" for k
          using other [of k] below_le [OF that] False Suc.prems(3) by fastforce
      qed auto
    next
      case True
      obtain k where k: "h = Suc k"
      proof (cases h)
        case 0
        then show ?thesis using Suc.prems(4) True j by (simp add: wf_node_def)
      qed (rule that)
      have w: "wf_node L (2 * j) k" "wf_node L (2 * j + 1) k" using wf_node_children Suc.prems(4) True k by blast+
      have c: "tree_ok L sz (?B (Suc j)) Map.empty {} (\<lambda>_. True) i' k" if "i' = 2 * j \<or> i' = 2 * j + 1" for i'
        using IH [of i' k] w that Suc.prems(2) by auto
      have cu: "tree_ok L sz ?u Map.empty {} (\<lambda>_. True) i' k" if i': "i' = 2 * j \<or> i' = 2 * j + 1" for i'
      proof (rule tree_ok_cong [OF _ c [OF i']])
        show "wf_node L i' k" using w i' by blast
        show "?u ! m = ?B (Suc j) ! m" if "below i' m" for m
        proof -
          have "j \<noteq> m" using below_le [OF that] i' Suc.prems(2) by auto
          then show ?thesis by (rule nth_list_update_neq)
        qed
      qed auto
      have sz: "m_size (?u ! j) = int (length (seg L sz (\<lambda>_. True) j (Suc k)))"
      proof -
        have "m_size (?B (Suc j) ! i') = int (length (seg L sz (\<lambda>_. True) i' k))" if "i' = 2 * j \<or> i' = 2 * j + 1" for i'
          using tree_ok_node [OF c [OF that]] by (simp add: node_ok_def Let_def)
        then have "m_size (?B (Suc j) ! (2 * j)) + m_size (?B (Suc j) ! (2 * j + 1)) =
          int (length (seg L sz (\<lambda>_. True) j (Suc k)))"
          using seg_children [of L j k sz "\<lambda>_. True"] Suc.prems(4) True k by simp
        then show ?thesis using j len by simp
      qed
      have "tree_ok L sz (recompute j ?u) Map.empty {} (\<lambda>_. True) j (Suc k)"
        by (rule recompute_ok [OF cu cu _ _ _ Suc.prems(2) _ sz])
          (use True k Suc.prems(4) j len in \<open>auto simp: marks_ok_def\<close>)
      then show ?thesis unfolding Bj True k .
    qed
  qed
  have "tree_ok L sz (?B 1) Map.empty {} (\<lambda>_. True) 1 H" using B [of 1 1 H] L assms(1) wf_node_root by auto
  then have "tree_inv L H sz (build_tree (int sz) L) Map.empty {} (\<lambda>_. True)"
    using assms len [of "rev [1..<L]" ?t0] by (simp add: tree_inv_def build_tree_def marks_ok_def closed_ok_def)
  then show ?thesis by (simp add: blocks_inv_def blocks_ok_def free)
qed

section \<open>Equivalence with the reference\<close>

datatype ff_op = Op_allocate int | Op_acquire int | Op_release int

fun ff_exec :: "ff_op \<Rightarrow> FirstFitAllocatorBase \<Rightarrow> ((ff_error + int) \<times> FirstFitAllocatorBase) option" where
  "ff_exec (Op_allocate n) m = map_option (apfst (map_sum id (\<lambda>_. 0))) (ff_allocate n True m)"
| "ff_exec (Op_acquire n) m = ff_acquire n m"
| "ff_exec (Op_release i) m = map_option (apfst (map_sum id (\<lambda>_. 0))) (ff_release i m)"

fun ff_run :: "ff_op list \<Rightarrow> FirstFitAllocatorBase \<Rightarrow> ((ff_error + int) list \<times> FirstFitAllocatorBase) option" where
  "ff_run [] m = Some ([], m)"
| "ff_run (a # as) m = Option.bind (ff_exec a m) (\<lambda>(r, m1). map_option (apfst ((#) r)) (ff_run as m1))"

text \<open>The reference: the size and the blocks, once there is memory.\<close>

type_synonym blocks = "(nat \<times> (nat \<times> nat) list) option"

fun ref_exec :: "ff_op \<Rightarrow> blocks \<Rightarrow> (ff_error + int) \<times> blocks" where
  "ref_exec (Op_allocate n) r =
     (if (case r of Some (_, bs) \<Rightarrow> bs \<noteq> [] | None \<Rightarrow> False) then (Inl kAlreadyInUse, r)
      else if n \<le> 0 \<or> n \<ge> 2 ^ 30 then (Inl kInvalidSize, r) else (Inr 0, Some (nat n, [])))"
| "ref_exec (Op_acquire n) None = (Inl kOutOfMemory, None)"
| "ref_exec (Op_acquire n) (Some (sz, bs)) = (case first_fit (nat n) (map (free_in bs) [0..<sz]) of
     None \<Rightarrow> (Inl kOutOfMemory, Some (sz, bs))
   | Some k \<Rightarrow> (Inr (int k), Some (sz, (k, nat n) # bs)))"
| "ref_exec (Op_release i) None = (Inl kInvalidSize, None)"
| "ref_exec (Op_release i) (Some (sz, bs)) =
     (if i < 0 \<or> i \<ge> int sz then (Inl kInvalidSize, Some (sz, bs))
      else if map_of bs (nat i) = None then (Inl kBlockNotAllocated, Some (sz, bs))
      else (Inr 0, Some (sz, map_erase (nat i) bs)))"

fun ref_run :: "ff_op list \<Rightarrow> blocks \<Rightarrow> (ff_error + int) list \<times> blocks" where
  "ref_run [] r = ([], r)"
| "ref_run (a # as) r = (case ref_exec a r of (x, r1) \<Rightarrow> apfst ((#) x) (ref_run as r1))"

text \<open>A size above 2^29 overflows, and a size of zero or less is acquired without being checked.\<close>

fun ff_legal :: "ff_op \<Rightarrow> bool" where
  "ff_legal (Op_allocate n) \<longleftrightarrow> n \<le> 2 ^ 29 \<or> 2 ^ 30 \<le> n"
| "ff_legal (Op_acquire n) \<longleftrightarrow> 0 < n"
| "ff_legal (Op_release i) \<longleftrightarrow> True"

definition ff_rep :: "FirstFitAllocatorBase \<Rightarrow> blocks \<Rightarrow> bool" where
  "ff_rep m r \<longleftrightarrow> (case r of None \<Rightarrow> m = ff_new
     | Some (sz, bs) \<Rightarrow> \<exists>t H. m = \<lparr>ff_tree = Some t, ff_size = int sz, ff_first = 2 ^ H\<rparr> \<and> 0 < sz \<and>
         blocks_inv (2 ^ H) H sz t bs)"

lemma seg_root: "sz \<le> 2 ^ H \<Longrightarrow> seg (2 ^ H) sz f 1 H = map f [0..<sz]"
  by (simp add: seg_def min_def)

lemma root_max:
  assumes "blocks_inv (2 ^ H) H sz t bs"
  shows "max (m_max (t ! 1)) 0 = int (max_run (map (free_in bs) [0..<sz]))"
proof -
  have t: "tree_inv (2 ^ H) H sz t (map_of bs) (\<Union> (block_nodes (2 ^ H) ` set bs)) (free_in bs)"
    using assms by (auto simp: blocks_inv_def)
  then have "node_ok (2 ^ H) sz t (map_of bs) (free_in bs) 1 H" unfolding tree_inv_def using tree_ok_node by blast
  moreover have "marks_ok sz (map_of bs) (free_in bs)" "sz \<le> 2 ^ H" using t by (auto simp: tree_inv_def)
  ultimately show ?thesis using node_summary(6) [OF _ wf_node_root] by (metis seg_root)
qed

lemma blocks_all_free:
  assumes "blocks_ok sz bs"
  shows "max_run (map (free_in bs) [0..<sz]) = sz \<longleftrightarrow> bs = []"
proof
  assume m: "max_run (map (free_in bs) [0..<sz]) = sz"
  show "bs = []"
  proof (cases bs)
    case (Cons b cs)
    obtain s n where b: "b = (s, n)" by fastforce
    then have s: "(s, n) \<in> set bs" "0 < n" "s + n \<le> sz" using assms Cons by (auto simp: blocks_ok_def)
    have "\<forall>x\<in>set (map (free_in bs) [0..<sz]). x" using m max_run_full [of "map (free_in bs) [0..<sz]"] by simp
    then have "free_in bs s" using s by auto
    then show ?thesis using free_inD [OF _ s(1), of s] s(2) by auto
  qed
qed (use max_run_full [of "map (free_in bs) [0..<sz]"] in \<open>auto simp: free_in_def\<close>)

lemma tree_too_large: "int (2 ^ H) * 2 \<ge> 2 ^ 31 \<longleftrightarrow> 30 \<le> H"
proof -
  have "int (2 ^ H) * 2 = 2 ^ Suc H" by simp
  moreover have "(2 :: int) ^ 31 \<le> 2 ^ Suc H \<longleftrightarrow> 31 \<le> Suc H" by (rule power_increasing_iff) simp
  ultimately show ?thesis by simp
qed

lemma allocate_step:
  assumes rep: "ff_rep m r" and n: "n \<le> 2 ^ 29 \<or> 2 ^ 30 \<le> n"
  shows "\<exists>m'. ff_exec (Op_allocate n) m = Some (fst (ref_exec (Op_allocate n) r), m') \<and>
    ff_rep m' (snd (ref_exec (Op_allocate n) r))"
proof -
  have used: "(case ff_tree m of None \<Rightarrow> False | Some t \<Rightarrow> m_max (t ! 1) \<noteq> ff_size m) \<longleftrightarrow>
    (case r of Some (_, bs) \<Rightarrow> bs \<noteq> [] | None \<Rightarrow> False)"
  proof (cases r)
    case None
    then show ?thesis using rep by (simp add: ff_rep_def ff_new_def)
  next
    case (Some sb)
    obtain sz bs where sb: "sb = (sz, bs)" by fastforce
    obtain t H where m: "m = \<lparr>ff_tree = Some t, ff_size = int sz, ff_first = 2 ^ H\<rparr>" "0 < sz" "blocks_inv (2 ^ H) H sz t bs"
      using rep Some sb by (auto simp: ff_rep_def)
    have "m_max (t ! 1) = int sz \<longleftrightarrow> max_run (map (free_in bs) [0..<sz]) = sz"
      using root_max [OF m(3)] m(2) by (auto simp: max_def split: if_splits)
    also have "\<dots> \<longleftrightarrow> bs = []" using blocks_all_free m(3) by (simp add: blocks_inv_def)
    finally show ?thesis using Some sb m(1) by simp
  qed
  show ?thesis
  proof (cases "(case r of Some (_, bs) \<Rightarrow> bs \<noteq> [] | None \<Rightarrow> False) \<or> n \<le> 0 \<or> n \<ge> 2 ^ 30")
    case True
    then show ?thesis using used rep by (auto simp: ff_allocate_def)
  next
    case False
    then obtain H where H: "last_layer n = Some (2 ^ H)" "n \<le> 2 ^ H" "(2 :: int) ^ H < 2 * n"
      using last_layer_ok [of n] by auto
    have "(2 :: int) ^ H < 2 ^ 30" using H(3) n False by simp
    then have "H < 30" using power_increasing [of 30 H "2 :: int"] by (metis leI not_less one_le_numeral)
    then have small: "\<not> int (2 ^ H) * 2 \<ge> 2 ^ 31" unfolding tree_too_large by simp
    let ?m = "\<lparr>ff_tree = Some (build_tree n (2 ^ H)), ff_size = n, ff_first = 2 ^ H\<rparr>"
    have "ff_exec (Op_allocate n) m = Some (Inr 0, m\<lparr>ff_tree := Some (build_tree n (2 ^ H)), ff_size := n, ff_first := 2 ^ H\<rparr>)"
      using used False unfolding ff_exec.simps ff_allocate_def H(1) bind.bind_lunit if_not_P [OF small] by simp
    moreover have "m\<lparr>ff_tree := Some (build_tree n (2 ^ H)), ff_size := n, ff_first := 2 ^ H\<rparr> = ?m" by (cases m) simp
    moreover have "ff_rep ?m (Some (nat n, []))"
    proof -
      have "int (nat n) \<le> int (2 ^ H)" using False H(2) by simp
      then have "nat n \<le> 2 ^ H" by (simp only: of_nat_le_iff)
      moreover have "int (nat n) = n" using False by simp
      ultimately show ?thesis using build_tree_ok [of "2 ^ H" H "nat n"] False by (auto simp: ff_rep_def)
    qed
    ultimately show ?thesis using False by auto
  qed
qed

lemma acquire_step:
  assumes rep: "ff_rep m r" and n: "0 < n"
  shows "\<exists>m'. ff_exec (Op_acquire n) m = Some (fst (ref_exec (Op_acquire n) r), m') \<and>
    ff_rep m' (snd (ref_exec (Op_acquire n) r))"
proof (cases r)
  case None
  then show ?thesis using rep by (simp add: ff_rep_def ff_new_def ff_acquire_def)
next
  case (Some sb)
  obtain sz bs where sb: "sb = (sz, bs)" by fastforce
  obtain t H where m: "m = \<lparr>ff_tree = Some t, ff_size = int sz, ff_first = 2 ^ H\<rparr>" "0 < sz" "blocks_inv (2 ^ H) H sz t bs"
    using rep Some sb by (auto simp: ff_rep_def)
  let ?L = "2 ^ H :: nat" and ?xs = "map (free_in bs) [0..<sz]"
  have t: "tree_inv ?L H sz t (map_of bs) (\<Union> (block_nodes ?L ` set bs)) (free_in bs)" using m(3) by (auto simp: blocks_inv_def)
  then have ok: "tree_ok ?L sz t (map_of bs) (\<Union> (block_nodes ?L ` set bs)) (free_in bs) 1 H" and sz: "sz \<le> ?L"
    unfolding tree_inv_def by blast+
  have nn: "0 < nat n" "int (nat n) = n" using n by simp_all
  have fits: "n \<le> m_max (t ! 1) \<longleftrightarrow> nat n \<le> max_run ?xs"
    using root_max [OF m(3)] n by (auto simp: max_def split: if_splits)
  show ?thesis
  proof (cases "nat n \<le> max_run ?xs")
    case False
    then have "first_fit (nat n) ?xs = None" using first_fit_Some_iff by (metis not_Some_eq)
    then show ?thesis using False fits rep Some sb m(1) by (simp add: ff_acquire_def)
  next
    case True
    then obtain k where k: "first_fit (nat n) ?xs = Some k"
      "acquire_loop ?L n t 1 0 = ff_take ?L (int k) n t"
      using acquire_loop_finds [OF m(3) nn(1) ok wf_node_root] nn(2) seg_root [OF sz, of "free_in bs"] by auto
    have g: "gap_at (nat n) ?xs k" using k(1) first_fit_least by blast
    have "k + nat n \<le> sz" using g by (simp add: gap_at_def)
    moreover have "\<forall>x\<in>{k ..< k + nat n}. free_in bs x"
    proof
      fix x assume "x \<in> {k ..< k + nat n}"
      moreover from this obtain i where "x = k + i" "i < nat n" by (metis atLeastLessThan_iff add_less_cancel_left le_Suc_ex)
      ultimately show "free_in bs x" using g by (auto simp: gap_at_def)
    qed
    ultimately obtain t' where t': "ff_take ?L (int k) n t = Some (Inr (int k), t')" "blocks_inv ?L H sz t' ((k, nat n) # bs)"
      using take_ok [OF m(3), of k "nat n"] nn by auto
    have "\<not> m_max (t ! 1) < n" using True fits by simp
    then have "ff_acquire n m = Some (Inr (int k), m\<lparr>ff_tree := Some t'\<rparr>)"
      using m(1) k(2) t'(1) by (simp add: ff_acquire_def)
    moreover have "ff_rep (m\<lparr>ff_tree := Some t'\<rparr>) (Some (sz, (k, nat n) # bs))"
      using m t'(2) by (auto simp: ff_rep_def)
    ultimately show ?thesis using Some sb k(1) by simp
  qed
qed

lemma release_step:
  assumes rep: "ff_rep m r"
  shows "\<exists>m'. ff_exec (Op_release i) m = Some (fst (ref_exec (Op_release i) r), m') \<and>
    ff_rep m' (snd (ref_exec (Op_release i) r))"
proof (cases r)
  case None
  then show ?thesis using rep by (auto simp: ff_rep_def ff_new_def ff_release_def)
next
  case (Some sb)
  obtain sz bs where sb: "sb = (sz, bs)" by fastforce
  obtain t H where m: "m = \<lparr>ff_tree = Some t, ff_size = int sz, ff_first = 2 ^ H\<rparr>" "0 < sz" "blocks_inv (2 ^ H) H sz t bs"
    using rep Some sb by (auto simp: ff_rep_def)
  let ?L = "2 ^ H :: nat"
  have len: "length t = 2 * ?L" "sz \<le> ?L" using m(3) by (auto simp: blocks_inv_def tree_inv_def)
  show ?thesis
  proof (cases "i < 0 \<or> i \<ge> int sz")
    case True
    then show ?thesis using rep Some sb m(1) by (auto simp: ff_release_def)
  next
    case False
    let ?s = "nat i"
    have s: "?s < sz" "int ?s = i" using False by auto
    obtain g where g: "node_ok ?L sz t (map_of bs) g (?L + ?s) 0" using blocks_mark [OF m(3) s(1)] by blast
    have lt: "\<not> ?L + ?s \<ge> length t" using s(1) len by linarith
    show ?thesis
    proof (cases "map_of bs ?s")
      case None
      then have "m_max (t ! (?L + ?s)) \<noteq> -1" using g by (simp add: node_ok_def Let_def)
      then show ?thesis using rep Some sb m(1) False None lt by (auto simp: ff_release_def Let_def)
    next
      case (Some n)
      then have leaf: "m_max (t ! (?L + ?s)) = -1" "m_size (t ! (?L + ?s)) = int n"
        using g by (simp_all add: node_ok_def Let_def)
      obtain t' where t': "ff_update ?L i (i + int n) 1 (t[?L + ?s := (t ! (?L + ?s))\<lparr>m_size := 1, m_max := 1\<rparr>]) = Some t'"
        "blocks_inv ?L H sz t' (map_erase ?s bs)"
        using give_back_ok [OF m(3) Some] s(2) by auto
      have "ff_release i m = Some (Inr (), m\<lparr>ff_tree := Some t'\<rparr>)"
        using m(1) False lt leaf t'(1) by (simp add: ff_release_def Let_def)
      moreover have "ff_rep (m\<lparr>ff_tree := Some t'\<rparr>) (Some (sz, map_erase ?s bs))"
        using m t'(2) by (auto simp: ff_rep_def)
      ultimately show ?thesis using \<open>r = Some sb\<close> sb False Some by simp
    qed
  qed
qed

lemma ff_exec_refines:
  assumes "ff_rep m r" "ff_legal a"
  shows "\<exists>m'. ff_exec a m = Some (fst (ref_exec a r), m') \<and> ff_rep m' (snd (ref_exec a r))"
  using assms allocate_step acquire_step release_step by (cases a) auto

lemma ff_run_refines:
  "ff_rep m r \<Longrightarrow> list_all ff_legal as \<Longrightarrow>
   \<exists>m'. ff_run as m = Some (fst (ref_run as r), m') \<and> ff_rep m' (snd (ref_run as r))"
proof (induction as arbitrary: m r)
  case (Cons a as)
  then obtain m1 where m1: "ff_exec a m = Some (fst (ref_exec a r), m1)" "ff_rep m1 (snd (ref_exec a r))"
    using ff_exec_refines [of m r a] by auto
  obtain m' where "ff_run as m1 = Some (fst (ref_run as (snd (ref_exec a r))), m')"
    "ff_rep m' (snd (ref_run as (snd (ref_exec a r))))" using Cons m1(2) by auto
  then show ?case using m1(1) by (auto split: prod.splits)
qed simp

text \<open>C30: Over any sequence of allocate, acquire and release the segment tree gives exactly the answers of a
  list of blocks that is searched from the left for the first gap: every block is the leftmost that
  fits, a block is refused only when no gap is long enough, and only blocks that are in use can be released.
  No operation leaves the array or fails to end, the blocks in use never overlap and lie within the size.\<close>

theorem first_fit_equivalence:
  assumes "list_all ff_legal as"
  shows "\<exists>m. ff_run as ff_new = Some (fst (ref_run as None), m) \<and>
    (case snd (ref_run as None) of None \<Rightarrow> ff_tree m = None
     | Some (sz, bs) \<Rightarrow> ff_size m = int sz \<and> blocks_ok sz bs)"
proof -
  have "ff_rep ff_new None" by (simp add: ff_rep_def)
  from ff_run_refines [OF this assms] obtain m where
    m: "ff_run as ff_new = Some (fst (ref_run as None), m)" "ff_rep m (snd (ref_run as None))" by blast
  then show ?thesis by (auto simp: ff_rep_def ff_new_def blocks_inv_def split: option.splits)
qed

theorem first_fit_equivalence_witness:
  "let as = [Op_allocate 6, Op_acquire 2, Op_acquire 3, Op_release 0, Op_acquire 3, Op_acquire 1, Op_release 4] in
   \<exists>m. ff_run as ff_new = Some ([Inr 0, Inr 0, Inr 2, Inr 0, Inl kOutOfMemory, Inr 0, Inl kBlockNotAllocated], m) \<and>
     ff_size m = 6 \<and> blocks_ok 6 [(0, 1), (2, 3)]"
proof -
  let ?as = "[Op_allocate 6, Op_acquire 2, Op_acquire 3, Op_release 0, Op_acquire 3, Op_acquire 1, Op_release 4]"
  have legal: "list_all ff_legal ?as" by simp
  have run: "ref_run ?as None =
    ([Inr 0, Inr 0, Inr 2, Inr 0, Inl kOutOfMemory, Inr 0, Inl kBlockNotAllocated], Some (6, [(0, 1), (2, 3)]))"
    by code_simp
  show ?thesis using first_fit_equivalence [OF legal]
    unfolding run Let_def by (simp only: fst_conv snd_conv option.case prod.case of_nat_numeral)
qed

section \<open>What allocate and acquire do not check\<close>

text \<open>allocate rejects sizes from 2^30 on, but between 2^29 and 2^30 the number of the nodes does not fit into
  an int32_t.\<close>

theorem allocate_overflows:
  assumes "2 ^ 29 < n" "n < 2 ^ 30" shows "ff_allocate n mem ff_new = None"
proof -
  obtain H where H: "last_layer n = Some (2 ^ H)" "n \<le> 2 ^ H" using last_layer_ok [of n] assms by auto
  have "\<not> H \<le> 29"
  proof
    assume "H \<le> 29"
    then have "(2 :: int) ^ H \<le> 2 ^ 29" by (intro power_increasing) auto
    then show False using assms H by simp
  qed
  then have large: "int (2 ^ H) * 2 \<ge> 2 ^ 31" unfolding tree_too_large by simp
  show ?thesis using assms unfolding ff_allocate_def ff_new_def H(1) bind.bind_lunit if_P [OF large] by simp
qed

text \<open>After an allocate that runs out of memory the size is set and the tree is null, which release
  dereferences.\<close>

lemma release_after_failed_allocate:
  "Option.bind (ff_allocate 4 False ff_new) (\<lambda>(r, m). Some (r, ff_release 0 m)) = Some (Inl kOutOfMemory, None)"
  by code_simp

text \<open>An acquire of zero indices returns index 0 whatever is allocated there, and overwrites the size of the
  block that starts at 0: when that block is released its indices stay in use for ever.\<close>

lemma acquire_zero_leaks:
  "map_option fst (ff_run [Op_allocate 2, Op_acquire 2, Op_acquire 0, Op_release 0, Op_acquire 1, Op_release 0] ff_new) =
     Some [Inr 0, Inr 0, Inr 0, Inr 0, Inl kOutOfMemory, Inl kBlockNotAllocated]"
  by code_simp

section \<open>Chunks of a buffer\<close>

text \<open>FirstFitAllocator hands out pieces of a buffer, in multiples of a chunk.  A pointer into the buffer is its
  offset; the buffer is its length, None for the null pointer; the chunk size is uninitialised (None)
  before allocate.  Division truncates.\<close>

record FirstFitAllocator =
  fa_management :: FirstFitAllocatorBase
  fa_chunk_size :: "int option"
  fa_buffer :: "int option"

definition getNumberOfChunks :: "int \<Rightarrow> int \<Rightarrow> int option" where
  "getNumberOfChunks chunk n = (if n + chunk - 1 \<ge> 2 ^ 31 then None else Some ((n + chunk - 1) sdiv chunk))"

definition chunk_acquire :: "(int \<Rightarrow> 'm \<Rightarrow> ((ff_error + int) \<times> 'm) option) \<Rightarrow> int \<Rightarrow> int \<Rightarrow> 'm
    \<Rightarrow> ((ff_error + int \<times> int) \<times> 'm) option" where
  "chunk_acquire acq chunk n m = Option.bind (getNumberOfChunks chunk n) (\<lambda>k.
     map_option (apfst (map_sum id (\<lambda>i. (i * chunk, k * chunk)))) (acq k m))"

definition chunk_release :: "(int \<Rightarrow> 'm \<Rightarrow> ((ff_error + unit) \<times> 'm) option) \<Rightarrow> int \<Rightarrow> int \<Rightarrow> 'm
    \<Rightarrow> ((ff_error + unit) \<times> 'm) option" where
  "chunk_release rel chunk index m =
     (if index smod chunk \<noteq> 0 then Some (Inl kInvalidSize, m) else rel (index sdiv chunk) m)"

definition fa_new :: FirstFitAllocator where
  "fa_new = \<lparr>fa_management = ff_new, fa_chunk_size = None, fa_buffer = None\<rparr>"

text \<open>The flags tell whether the two allocations succeed.\<close>

definition fa_allocate :: "int \<Rightarrow> int \<Rightarrow> bool \<Rightarrow> bool \<Rightarrow> FirstFitAllocator
    \<Rightarrow> ((ff_error + int) \<times> FirstFitAllocator) option" where
  "fa_allocate n chunk mem_buffer mem_tree a =
     (if fa_buffer a \<noteq> None then Some (Inl kAlreadyInUse, a)
      else if n < 0 \<or> chunk \<le> 0 then Some (Inl kInvalidSize, a)
      else let a1 = a\<lparr>fa_chunk_size := Some chunk\<rparr> in
        Option.bind (getNumberOfChunks chunk n) (\<lambda>k.
          if \<not> mem_buffer then Some (Inl kOutOfMemory, a1)
          else map_option (\<lambda>(r, m). (map_sum id (\<lambda>_. n) r, a1\<lparr>fa_buffer := Some (k * chunk), fa_management := m\<rparr>))
            (ff_allocate k mem_tree (fa_management a1))))"

definition fa_acquire :: "int \<Rightarrow> FirstFitAllocator \<Rightarrow> ((ff_error + int \<times> int) \<times> FirstFitAllocator) option" where
  "fa_acquire n a = Option.bind (fa_chunk_size a) (\<lambda>chunk.
     map_option (apsnd (\<lambda>m. a\<lparr>fa_management := m\<rparr>)) (chunk_acquire ff_acquire chunk n (fa_management a)))"

definition fa_release :: "int \<Rightarrow> FirstFitAllocator \<Rightarrow> ((ff_error + unit) \<times> FirstFitAllocator) option" where
  "fa_release ptr a = Option.bind (fa_chunk_size a) (\<lambda>chunk.
     map_option (apsnd (\<lambda>m. a\<lparr>fa_management := m\<rparr>)) (chunk_release ff_release chunk ptr (fa_management a)))"

lemma sdiv_nat: "0 < c \<Longrightarrow> int x sdiv int c = int (x div c)"
  by (simp add: signed_divide_int_def zdiv_int sgn_if)

text \<open>What the chunks rely on: an allocator of index ranges.\<close>

locale index_allocator =
  fixes acq :: "int \<Rightarrow> 'm \<Rightarrow> ((ff_error + int) \<times> 'm) option"
    and rel :: "int \<Rightarrow> 'm \<Rightarrow> ((ff_error + unit) \<times> 'm) option"
    and rep :: "'m \<Rightarrow> nat \<Rightarrow> (nat \<times> nat) list \<Rightarrow> bool"
  assumes rep_ok: "rep m sz bs \<Longrightarrow> blocks_ok sz bs"
    and acq_spec: "rep m sz bs \<Longrightarrow> 0 < n \<Longrightarrow> \<exists>m'.
      acq (int n) m = Some (Inl kOutOfMemory, m') \<and> rep m' sz bs \<or>
      (\<exists>k. acq (int n) m = Some (Inr (int k), m') \<and> rep m' sz ((k, n) # bs))"
    and rel_spec: "rep m sz bs \<Longrightarrow> map_of bs s = Some n \<Longrightarrow>
      \<exists>m'. rel (int s) m = Some (Inr (), m') \<and> rep m' sz (map_erase s bs)"
begin

lemma chunks_of: "0 < n \<Longrightarrow> 0 < c \<Longrightarrow> int n + int c \<le> 2 ^ 31 \<Longrightarrow>
  \<exists>k. getNumberOfChunks (int c) (int n) = Some (int k) \<and> 0 < k \<and> n \<le> k * c \<and> k * c < n + c"
proof -
  assume n: "0 < n" "0 < c" "int n + int c \<le> 2 ^ 31"
  let ?k = "(n + c - 1) div c"
  have e: "int n + int c - 1 = int (n + c - 1)" using n by linarith
  have "int (n + c - 1) sdiv int c = int ?k" by (rule sdiv_nat [OF n(2)])
  moreover have "\<not> int n + int c - 1 \<ge> 2 ^ 31" using n(3) by linarith
  ultimately have "getNumberOfChunks (int c) (int n) = Some (int ?k)"
    by (simp only: getNumberOfChunks_def e if_False)
  moreover have k: "n \<le> ?k * c" "?k * c < n + c"
    using div_mult_mod_eq [of "n + c - 1" c] mod_less_divisor [OF n(2), of "n + c - 1"] n by linarith+
  moreover have "0 < ?k" using k(1) n(1) by (cases ?k) auto
  ultimately show ?thesis by blast
qed

lemma map_erase_fresh: "blocks_ok sz ((k, n) # bs) \<Longrightarrow> map_erase k ((k, n) # bs) = bs"
proof -
  assume "blocks_ok sz ((k, n) # bs)"
  then have "k \<notin> fst ` set bs" by (simp add: blocks_ok_def)
  then have "filter (\<lambda>(l, _). l \<noteq> k) bs = bs" by (intro filter_True) (auto intro: rev_image_eqI)
  then show ?thesis by (simp add: map_erase_def)
qed

lemma chunk_roundtrip:
  assumes "rep m sz bs" "0 < n" "0 < c" "int n + int c \<le> 2 ^ 31"
  shows "\<exists>m'. chunk_acquire acq (int c) (int n) m = Some (Inl kOutOfMemory, m') \<and> rep m' sz bs \<or>
    (\<exists>s l. chunk_acquire acq (int c) (int n) m = Some (Inr (int (s * c), int (l * c)), m') \<and>
       rep m' sz ((s, l) # bs) \<and> n \<le> l * c \<and> l * c < n + c \<and>
       (\<exists>m''. chunk_release rel (int c) (int (s * c)) m' = Some (Inr (), m'') \<and> rep m'' sz bs))"
proof -
  obtain l where l: "getNumberOfChunks (int c) (int n) = Some (int l)" "0 < l" "n \<le> l * c" "l * c < n + c"
    using chunks_of assms by blast
  from acq_spec [OF assms(1) l(2)] obtain m' where
    m': "acq (int l) m = Some (Inl kOutOfMemory, m') \<and> rep m' sz bs \<or>
      (\<exists>s. acq (int l) m = Some (Inr (int s), m') \<and> rep m' sz ((s, l) # bs))" by blast
  have r: "\<exists>m''. chunk_release rel (int c) (int (s * c)) m' = Some (Inr (), m'') \<and> rep m'' sz bs"
    if s: "rep m' sz ((s, l) # bs)" for s
  proof -
    obtain m'' where "rel (int s) m' = Some (Inr (), m'')" "rep m'' sz (map_erase s ((s, l) # bs))"
      using rel_spec [OF s, of s l] by auto
    moreover have "chunk_release rel (int c) (int (s * c)) m' = rel (int s) m'"
      using assms(3) by (simp add: chunk_release_def signed_modulo_int_def signed_divide_int_def sgn_if abs_mult)
    ultimately show ?thesis using map_erase_fresh [OF rep_ok [OF s]] by simp
  qed
  show ?thesis using m' r l by (intro exI [of _ m']) (auto simp: chunk_acquire_def)
qed

end

interpretation ff: index_allocator ff_acquire ff_release "\<lambda>m sz bs. ff_rep m (Some (sz, bs))"
proof
  show "blocks_ok sz bs" if "ff_rep m (Some (sz, bs))" for m sz bs
    using that by (auto simp: ff_rep_def blocks_inv_def)
  show "\<exists>m'. ff_acquire (int n) m = Some (Inl kOutOfMemory, m') \<and> ff_rep m' (Some (sz, bs)) \<or>
      (\<exists>k. ff_acquire (int n) m = Some (Inr (int k), m') \<and> ff_rep m' (Some (sz, (k, n) # bs)))"
    if "ff_rep m (Some (sz, bs))" "0 < n" for m sz bs n
    using acquire_step [OF that(1), of "int n"] that(2) by (auto split: option.splits)
  show "\<exists>m'. ff_release (int s) m = Some (Inr (), m') \<and> ff_rep m' (Some (sz, map_erase s bs))"
    if r: "ff_rep m (Some (sz, bs))" and s: "map_of bs s = Some n" for m sz bs s n
  proof -
    have "s < sz" using r map_of_SomeD [OF s] by (force simp: ff_rep_def blocks_inv_def blocks_ok_def)
    then have ref: "ref_exec (Op_release (int s)) (Some (sz, bs)) = (Inr 0, Some (sz, map_erase s bs))" using s by simp
    obtain m' where m': "ff_exec (Op_release (int s)) m = Some (Inr 0, m')" "ff_rep m' (Some (sz, map_erase s bs))"
      using release_step [OF r, of "int s"] unfolding ref by auto
    then obtain x where x: "ff_release (int s) m = Some (x, m')" "map_sum id (\<lambda>_. 0 :: int) x = Inr 0" by auto
    then have "x = Inr ()" by (cases x) auto
    then show ?thesis using x(1) m'(2) by blast
  qed
qed

text \<open>A piece of the buffer has the least number of whole chunks that is enough, it lies in the
  buffer apart from the pieces in use, and giving it back restores the allocator.\<close>

definition fa_rep :: "FirstFitAllocator \<Rightarrow> nat \<Rightarrow> nat \<Rightarrow> (nat \<times> nat) list \<Rightarrow> bool" where
  "fa_rep a c sz bs \<longleftrightarrow> ff_rep (fa_management a) (Some (sz, bs)) \<and> fa_chunk_size a = Some (int c) \<and> 0 < c \<and>
     fa_buffer a = Some (int (sz * c))"

theorem chunks_exact:
  assumes "fa_rep a c sz bs" "0 < n" "int n + int c \<le> 2 ^ 31"
  shows "\<exists>a'. fa_acquire (int n) a = Some (Inl kOutOfMemory, a') \<and> fa_rep a' c sz bs \<or>
    (\<exists>s l. fa_acquire (int n) a = Some (Inr (int (s * c), int (l * c)), a') \<and> fa_rep a' c sz ((s, l) # bs) \<and>
       n \<le> l * c \<and> l * c < n + c \<and> s * c + l * c \<le> sz * c \<and>
       (\<exists>a''. fa_release (int (s * c)) a' = Some (Inr (), a'') \<and> fa_rep a'' c sz bs))"
proof -
  let ?m = "fa_management a"
  have a: "ff_rep ?m (Some (sz, bs))" "fa_chunk_size a = Some (int c)" "0 < c" using assms(1) by (auto simp: fa_rep_def)
  from ff.chunk_roundtrip [OF a(1) assms(2) a(3) assms(3)] obtain m' where
    "chunk_acquire ff_acquire (int c) (int n) ?m = Some (Inl kOutOfMemory, m') \<and> ff_rep m' (Some (sz, bs)) \<or>
    (\<exists>s l. chunk_acquire ff_acquire (int c) (int n) ?m = Some (Inr (int (s * c), int (l * c)), m') \<and>
       ff_rep m' (Some (sz, (s, l) # bs)) \<and> n \<le> l * c \<and> l * c < n + c \<and>
       (\<exists>m''. chunk_release ff_release (int c) (int (s * c)) m' = Some (Inr (), m'') \<and> ff_rep m'' (Some (sz, bs))))" by blast
  then show ?thesis
  proof (elim disjE exE conjE, goal_cases)
    case 1
    then show ?thesis using assms(1) a by (intro exI [of _ "a\<lparr>fa_management := m'\<rparr>"]) (simp add: fa_acquire_def fa_rep_def)
  next
    case (2 s l m'')
    have "s + l \<le> sz" using ff.rep_ok [OF 2(2)] by (simp add: blocks_ok_def)
    then have le: "s * c + l * c \<le> sz * c" by (metis add_mult_distrib mult_le_mono1)
    have "fa_release (int (s * c)) (a\<lparr>fa_management := m'\<rparr>) = Some (Inr (), a\<lparr>fa_management := m''\<rparr>)"
      using 2(5) a by (simp add: fa_release_def)
    moreover have "fa_rep (a\<lparr>fa_management := m''\<rparr>) c sz bs" using 2(6) assms(1) by (simp add: fa_rep_def)
    ultimately show ?thesis using 2 le assms(1) a
      by (intro exI [of _ "a\<lparr>fa_management := m'\<rparr>"] disjI2 exI [of _ s] exI [of _ l]) (auto simp: fa_acquire_def fa_rep_def)
  qed
qed

text \<open>allocate keeps the buffer when the tree cannot be built: an allocate of size zero fails, and so does every
  later one.\<close>

theorem failed_allocate_final:
  assumes "0 < chunk" "chunk < 2 ^ 31"
  shows "\<exists>a. fa_allocate 0 chunk True mem fa_new = Some (Inl kInvalidSize, a) \<and>
    (\<forall>n c b t. fa_allocate n c b t a = Some (Inl kAlreadyInUse, a))"
proof -
  have "getNumberOfChunks chunk 0 = Some 0" using assms by (simp add: getNumberOfChunks_def signed_divide_int_def)
  then show ?thesis using assms by (simp add: fa_allocate_def fa_new_def ff_new_def ff_allocate_def)
qed

end
