(* ===== verification/Job_Lists.thy ===== *)
theory Job_Lists
  imports Prelude "HOL-Library.Multiset"
begin

text \<open>
  The thread-safe lists that the schedulers share: gxf/std/gems/event_list/event_list.hpp,
  unique_event_list.hpp and gxf/std/gems/timed_job_list/timed_job_list.hpp.  The mutex of a list
  makes each operation one step.  What the schedulers rely on is the locale event_list, which
  both event lists provide.
\<close>

section \<open>Event lists\<close>

definition el_pushEvent :: "'a \<Rightarrow> 'a list \<Rightarrow> 'a list" where
  "el_pushEvent x l = l @ [x]"

fun el_removeEvent :: "'a \<Rightarrow> 'a list \<Rightarrow> 'a list" where
  "el_removeEvent x [] = []"
| "el_removeEvent x (y # l) = (if y = x then el_removeEvent x l else y # el_removeEvent x l)"

fun el_popEvent :: "'a list \<Rightarrow> 'a expected \<times> 'a list" where
  "el_popEvent [] = (Inl GXF_FAILURE, [])"
| "el_popEvent (x # l) = (Inr x, l)"

fun el_hasEvent :: "'a \<Rightarrow> 'a list \<Rightarrow> bool" where
  "el_hasEvent x [] = False"
| "el_hasEvent x (y # l) = (if x = y then True else el_hasEvent x l)"

definition el_empty :: "'a list \<Rightarrow> bool" where
  "el_empty l = (l = [])"

lemma el_hasEvent_set [simp]: "el_hasEvent x l \<longleftrightarrow> x \<in> set l"
  by (induction l) auto

lemma el_removeEvent_removeAll [simp]: "el_removeEvent x l = removeAll x l"
  by (induction l) auto

section \<open>Unique event lists\<close>

text \<open>The list has nodes with an identity, and items_ maps an item to its node, as the stable
  iterators of std::list.\<close>

record 'a UniqueEventList =
  ul_list :: "(nat \<times> 'a) list"
  ul_items :: "'a \<rightharpoonup> nat"
  ul_fresh :: nat

definition ul_new :: "'a UniqueEventList" where
  "ul_new = \<lparr>ul_list = [], ul_items = Map.empty, ul_fresh = 0\<rparr>"

definition ul_pushEvent :: "'a \<Rightarrow> 'a UniqueEventList \<Rightarrow> bool \<times> 'a UniqueEventList" where
  "ul_pushEvent x q =
     (if ul_items q x \<noteq> None then (False, q)
      else (True, q\<lparr>ul_list := ul_list q @ [(ul_fresh q, x)], ul_items := (ul_items q)(x \<mapsto> ul_fresh q),
                     ul_fresh := Suc (ul_fresh q)\<rparr>))"

definition ul_removeEvent :: "'a \<Rightarrow> 'a UniqueEventList \<Rightarrow> 'a UniqueEventList" where
  "ul_removeEvent x q = (case ul_items q x of
     None \<Rightarrow> q
   | Some n \<Rightarrow> q\<lparr>ul_list := filter (\<lambda>(k, _). k \<noteq> n) (ul_list q), ul_items := (ul_items q)(x := None)\<rparr>)"

definition ul_popEvent :: "'a UniqueEventList \<Rightarrow> 'a expected \<times> 'a UniqueEventList" where
  "ul_popEvent q = (case ul_list q of
     [] \<Rightarrow> (Inl GXF_FAILURE, q)
   | (_, x) # l \<Rightarrow> (Inr x, q\<lparr>ul_list := l, ul_items := (ul_items q)(x := None)\<rparr>))"

definition ul_exportList :: "'a UniqueEventList \<Rightarrow> 'a list" where
  "ul_exportList q = map snd (ul_list q)"

definition ul_empty :: "'a UniqueEventList \<Rightarrow> bool" where
  "ul_empty q = (ul_list q = [])"

definition ul_hasEvent :: "'a \<Rightarrow> 'a UniqueEventList \<Rightarrow> bool" where
  "ul_hasEvent x q = (ul_items q x \<noteq> None)"

definition ul_clear :: "'a UniqueEventList \<Rightarrow> 'a UniqueEventList" where
  "ul_clear q = q\<lparr>ul_list := [], ul_items := Map.empty\<rparr>"

text \<open>The list and the map describe the same duplicate-free sequence.\<close>

definition ul_inv :: "'a UniqueEventList \<Rightarrow> bool" where
  "ul_inv q \<longleftrightarrow> distinct (map fst (ul_list q)) \<and> distinct (map snd (ul_list q)) \<and>
     (\<forall>(n, x) \<in> set (ul_list q). n < ul_fresh q) \<and>
     (\<forall>x n. ul_items q x = Some n \<longleftrightarrow> (n, x) \<in> set (ul_list q))"

lemma ul_inv_new [simp]: "ul_inv ul_new"
  by (simp add: ul_inv_def ul_new_def)

lemma ul_inv_clear [simp]: "ul_inv (ul_clear q)"
  by (simp add: ul_inv_def ul_clear_def)

lemma ul_items_None: "ul_inv q \<Longrightarrow> ul_items q x = None \<longleftrightarrow> x \<notin> set (ul_exportList q)"
  by (cases "ul_items q x") (force simp: ul_inv_def ul_exportList_def)+

lemma ul_hasEvent_set: "ul_inv q \<Longrightarrow> ul_hasEvent x q \<longleftrightarrow> x \<in> set (ul_exportList q)"
  using ul_items_None [of q x] by (auto simp: ul_hasEvent_def)

lemma ul_push_spec:
  assumes inv: "ul_inv q"
  shows "ul_inv (snd (ul_pushEvent x q)) \<and> fst (ul_pushEvent x q) = (x \<notin> set (ul_exportList q)) \<and>
    ul_exportList (snd (ul_pushEvent x q)) = (if x \<in> set (ul_exportList q) then ul_exportList q else ul_exportList q @ [x])"
proof (cases "ul_items q x = None")
  case True
  then have x: "x \<notin> set (ul_exportList q)" using ul_items_None [OF inv] by blast
  have "(n, y) \<in> set (ul_list q) \<Longrightarrow> n \<noteq> ul_fresh q" for n y using inv by (auto simp: ul_inv_def)
  then have "ul_inv (snd (ul_pushEvent x q))"
    using inv True x by (force simp: ul_inv_def ul_pushEvent_def ul_exportList_def)
  then show ?thesis using True x by (simp add: ul_pushEvent_def ul_exportList_def)
next
  case False
  then show ?thesis using inv ul_items_None [OF inv, of x] by (simp add: ul_pushEvent_def)
qed

lemma filter_node:
  assumes "distinct (map fst l)" "distinct (map snd l)" "(n, x) \<in> set l"
  shows "map snd (filter (\<lambda>(k, _). k \<noteq> n) l) = removeAll x (map snd l)"
  using assms
proof (induction l)
  case (Cons a l)
  obtain m y where a: "a = (m, y)" by (cases a)
  show ?case
  proof (cases "m = n")
    case True
    then have "y = x" using Cons.prems a by (auto simp: image_iff)
    moreover have "filter (\<lambda>(k, _). k \<noteq> n) l = l" using Cons.prems a True by (force simp: filter_id_conv image_iff)
    moreover have "x \<notin> set (map snd l)" using Cons.prems(2) a \<open>y = x\<close> by simp
    ultimately show ?thesis using a True by (simp add: removeAll_id)
  next
    case False
    then have "(n, x) \<in> set l" using Cons.prems a by simp
    moreover from this have "y \<noteq> x" using Cons.prems(2) a by (force simp: image_iff)
    ultimately show ?thesis using Cons a False by simp
  qed
qed simp

lemma ul_remove_spec:
  assumes inv: "ul_inv q"
  shows "ul_inv (ul_removeEvent x q) \<and> ul_exportList (ul_removeEvent x q) = removeAll x (ul_exportList q)"
proof (cases "ul_items q x")
  case None
  then show ?thesis using inv ul_items_None [OF inv, of x] by (simp add: ul_removeEvent_def)
next
  case (Some n)
  then have mem: "(n, x) \<in> set (ul_list q)" using inv by (simp add: ul_inv_def)
  have d: "distinct (map fst (ul_list q))" "distinct (map snd (ul_list q))" using inv by (simp_all add: ul_inv_def)
  have same: "k = n \<longleftrightarrow> y = x" if "(k, y) \<in> set (ul_list q)" for k y
    using d mem that by (metis eq_key_imp_eq_value inv option.inject ul_inv_def)
  have rem: "ul_removeEvent x q = q\<lparr>ul_list := filter (\<lambda>(k, _). k \<noteq> n) (ul_list q), ul_items := (ul_items q)(x := None)\<rparr>"
    using Some by (simp add: ul_removeEvent_def)
  have "((ul_items q)(x := None)) y = Some k \<longleftrightarrow> (k, y) \<in> set (filter (\<lambda>(k, _). k \<noteq> n) (ul_list q))" for y k
    using inv same [of k y] by (auto simp: ul_inv_def)
  then have "ul_inv (ul_removeEvent x q)"
    unfolding rem using inv d by (auto simp: ul_inv_def distinct_map_filter)
  then show ?thesis using filter_node [OF d mem] by (simp add: rem ul_exportList_def)
qed

lemma ul_pop_spec:
  assumes inv: "ul_inv q"
  shows "ul_inv (snd (ul_popEvent q)) \<and> fst (ul_popEvent q) = fst (el_popEvent (ul_exportList q)) \<and>
    ul_exportList (snd (ul_popEvent q)) = snd (el_popEvent (ul_exportList q))"
proof (cases "ul_list q")
  case Nil
  then show ?thesis using inv by (simp add: ul_popEvent_def ul_exportList_def)
next
  case (Cons a l)
  then show ?thesis using inv
    by (cases a) (force simp: ul_popEvent_def ul_exportList_def ul_inv_def)
qed

text \<open>Both lists are sets of pending events with an order.\<close>

locale event_list =
  fixes push :: "'a \<Rightarrow> 's \<Rightarrow> 's" and remove :: "'a \<Rightarrow> 's \<Rightarrow> 's" and has :: "'a \<Rightarrow> 's \<Rightarrow> bool"
    and export :: "'s \<Rightarrow> 'a list" and wf :: "'s \<Rightarrow> bool"
  assumes wf_push: "wf s \<Longrightarrow> wf (push x s)" and wf_remove: "wf s \<Longrightarrow> wf (remove x s)"
    and has_iff: "wf s \<Longrightarrow> has x s \<longleftrightarrow> x \<in> set (export s)"
    and export_push: "wf s \<Longrightarrow> set (export (push x s)) = insert x (set (export s))"
    and export_remove: "wf s \<Longrightarrow> export (remove x s) = removeAll x (export s)"

interpretation el: event_list el_pushEvent el_removeEvent el_hasEvent id "\<lambda>_. True"
  by unfold_locales (simp_all add: el_pushEvent_def)

interpretation ul: event_list "\<lambda>x q. snd (ul_pushEvent x q)" ul_removeEvent ul_hasEvent ul_exportList ul_inv
  by unfold_locales (auto simp: ul_push_spec ul_remove_spec ul_hasEvent_set)

text \<open>The loop that every scheduler runs over a copy of the notified events: an event that is waited
  for is taken out of both lists and handed on.\<close>

fun take_notified :: "('a \<Rightarrow> 's \<Rightarrow> bool) \<Rightarrow> ('a \<Rightarrow> 's \<Rightarrow> 's) \<Rightarrow> 'a list \<Rightarrow> 's \<times> 's \<Rightarrow> 'a list \<times> 's \<times> 's" where
  "take_notified has remove [] s = ([], s)"
| "take_notified has remove (e # es) (notified, waiting) =
     (if has e waiting
      then let (out, s) = take_notified has remove es (remove e notified, remove e waiting) in (e # out, s)
      else take_notified has remove es (notified, waiting))"

context event_list
begin

lemma take_notified_spec:
  assumes "take_notified has remove es (n, w) = (out, n', w')" "wf n" "wf w"
  shows "wf n' \<and> wf w' \<and> distinct out \<and> set out = set es \<inter> set (export w) \<and>
    set (export w') = set (export w) - set es \<and>
    set (export n') = set (export n) - set out"
  using assms
proof (induction es arbitrary: n w out)
  case (Cons e es)
  show ?case
  proof (cases "has e w")
    case True
    obtain o1 n1 w1 where r: "take_notified has remove es (remove e n, remove e w) = (o1, n1, w1)"
      by (metis prod_cases3)
    have "out = e # o1" "n' = n1" "w' = w1" using Cons.prems(1) True r by auto
    then show ?thesis
      using Cons.IH [of "remove e n" "remove e w" o1] r wf_remove [OF Cons.prems(2)] wf_remove [OF Cons.prems(3)] True
        has_iff [OF Cons.prems(3)] export_remove Cons.prems(2,3)
      by auto
  next
    case False
    then show ?thesis using Cons has_iff [OF Cons.prems(3)] by auto
  qed
qed auto

end

section \<open>The timed job list\<close>

record 'j Item =
  it_job :: 'j
  it_target :: int
  it_slack :: int
  it_priority :: int

definition kTimeFudge :: int where "kTimeFudge = 1"

text \<open>ItemPriorityCmp: b comes before a.\<close>

definition item_less :: "'j Item \<Rightarrow> 'j Item \<Rightarrow> bool" where
  "item_less a b =
     (let a_time = it_target a + it_slack a; b_time = it_target b + it_slack b in
      if \<bar>a_time - b_time\<bar> < kTimeFudge \<and> it_priority a \<noteq> it_priority b then it_priority a < it_priority b
      else a_time > b_time)"

text \<open>tj_queue is the priority queue as the sequence in which it would be popped.  Which of two equal
  elements comes first is up to the library and may change with every push, so a push is followed by
  a rearrangement that is a parameter.\<close>

record 'j TimedJobList =
  tj_queue :: "'j Item list"
  tj_items :: "'j set"
  tj_pending :: "'j Item list"
  tj_running :: bool

definition heap_ok :: "('j Item list \<Rightarrow> 'j Item list) \<Rightarrow> bool" where
  "heap_ok heap \<longleftrightarrow> (\<forall>q. mset (heap q) = mset q \<and> sorted_wrt (\<lambda>a b. \<not> item_less a b) (heap q))"

text \<open>Insertion sort is such a rearrangement.\<close>

fun item_insert :: "'j Item \<Rightarrow> 'j Item list \<Rightarrow> 'j Item list" where
  "item_insert x [] = [x]"
| "item_insert x (y # ys) = (if item_less x y then y # item_insert x ys else x # y # ys)"

definition item_sort :: "'j Item list \<Rightarrow> 'j Item list" where
  "item_sort q = foldr item_insert q []"

definition tj_new :: "'j TimedJobList" where
  "tj_new = \<lparr>tj_queue = [], tj_items = {}, tj_pending = [], tj_running = False\<rparr>"

definition tj_insert ::
  "('j Item list \<Rightarrow> 'j Item list) \<Rightarrow> 'j \<Rightarrow> int \<Rightarrow> int \<Rightarrow> int \<Rightarrow> 'j TimedJobList \<Rightarrow> bool \<times> 'j TimedJobList" where
  "tj_insert heap job target slack priority l =
     (if job \<in> tj_items l then (False, l)
      else (True, l\<lparr>tj_items := insert job (tj_items l),
                    tj_queue := heap (\<lparr>it_job = job, it_target = target, it_slack = slack, it_priority = priority\<rparr> # tj_queue l)\<rparr>))"

definition tj_start :: "'j TimedJobList \<Rightarrow> 'j TimedJobList" where
  "tj_start l = l\<lparr>tj_running := True\<rparr>"

definition tj_stop :: "'j TimedJobList \<Rightarrow> 'j TimedJobList" where
  "tj_stop l = l\<lparr>tj_running := False\<rparr>"

definition tj_getNextTargetTime :: "'j TimedJobList \<Rightarrow> int expected" where
  "tj_getNextTargetTime l = (case tj_queue l of [] \<Rightarrow> Inl GXF_QUERY_NOT_FOUND | x # _ \<Rightarrow> Inr (it_target x))"

definition tj_popFront :: "'j TimedJobList \<Rightarrow> 'j expected \<times> 'j TimedJobList" where
  "tj_popFront l = (case tj_pending l of
     x # ps \<Rightarrow> (Inr (it_job x), l\<lparr>tj_pending := ps\<rparr>)
   | [] \<Rightarrow>
       (case tj_queue l of
          [] \<Rightarrow> (Inl GXF_FAILURE, l)
        | x # q \<Rightarrow> (Inr (it_job x), l\<lparr>tj_queue := q, tj_items := tj_items l - {it_job x}\<rparr>)))"

definition tj_empty :: "'j TimedJobList \<Rightarrow> bool" where
  "tj_empty l = (tj_queue l = [] \<and> tj_pending l = [])"

text \<open>The inner loop of waitForJob: the jobs that are due, the others, and how long to wait.\<close>

fun due_jobs :: "int \<Rightarrow> 'j Item list \<Rightarrow> 'j Item list \<times> 'j Item list \<times> int" where
  "due_jobs now [] = ([], [], 0)"
| "due_jobs now (x # q) =
     (let eta = it_target x - now in
      if eta \<le> kTimeFudge then (let (moved, rest, duration) = due_jobs now q in (x # moved, rest, duration))
      else ([], x # q, max (eta - kTimeFudge) 0))"

datatype 'j wait_result = Stopped | Got 'j | Sleep "int option"

text \<open>One pass of the loop of waitForJob at the time now, which holds the lock: the thread ends with a
  job or without one, or sleeps and tries again, for at most the given time or until it is woken.\<close>

definition tj_wait_pass :: "int \<Rightarrow> 'j TimedJobList \<Rightarrow> 'j wait_result \<times> 'j TimedJobList" where
  "tj_wait_pass now l =
     (if \<not> tj_running l then (Stopped, l)
      else let (moved, rest, duration) = due_jobs now (tj_queue l); l1 = l\<lparr>tj_queue := rest\<rparr> in
        case tj_pending l @ moved of
          x # ps \<Rightarrow> (Got (it_job x), l1\<lparr>tj_pending := ps, tj_items := tj_items l - {it_job x}\<rparr>)
        | [] \<Rightarrow> (Sleep (if duration > 0 then Some duration else None), l1\<lparr>tj_pending := []\<rparr>))"

subsection \<open>Every job is in the list once\<close>

definition tj_jobs :: "'j TimedJobList \<Rightarrow> 'j list" where
  "tj_jobs l = map it_job (tj_pending l @ tj_queue l)"

definition tj_inv :: "'j TimedJobList \<Rightarrow> bool" where
  "tj_inv l \<longleftrightarrow> distinct (tj_jobs l) \<and> tj_items l = set (tj_jobs l) \<and>
     sorted_wrt (\<lambda>a b. \<not> item_less a b) (tj_queue l)"

lemma due_jobs_append:
  "due_jobs now q = (moved, rest, d) \<Longrightarrow> q = moved @ rest \<and> (\<forall>x\<in>set moved. it_target x \<le> now + kTimeFudge)"
  by (induction q arbitrary: moved rest d) (auto simp: Let_def split: if_splits prod.splits)

lemma due_jobs_wait:
  "due_jobs now q = (moved, rest, d) \<Longrightarrow>
   (if rest = [] then d = 0 else d = it_target (hd rest) - now - kTimeFudge \<and> 0 < d)"
  by (induction q arbitrary: moved rest d) (auto simp: Let_def kTimeFudge_def split: if_splits prod.splits)

lemma tj_inv_new [simp]: "tj_inv tj_new"
  by (simp add: tj_inv_def tj_new_def tj_jobs_def)

lemma tj_inv_start [simp]: "tj_inv (tj_start l) = tj_inv l" "tj_jobs (tj_start l) = tj_jobs l"
  by (simp_all add: tj_inv_def tj_start_def tj_jobs_def)

lemma tj_inv_stop [simp]: "tj_inv (tj_stop l) = tj_inv l" "tj_jobs (tj_stop l) = tj_jobs l"
  by (simp_all add: tj_inv_def tj_stop_def tj_jobs_def)

lemma tj_insert_spec:
  assumes "tj_inv l" "heap_ok heap" "tj_insert heap job target slack priority l = (r, l')"
  shows "tj_inv l' \<and> r = (job \<notin> set (tj_jobs l)) \<and> tj_running l' = tj_running l \<and>
    mset (tj_jobs l') = (if job \<in> set (tj_jobs l) then mset (tj_jobs l) else add_mset job (mset (tj_jobs l)))"
proof (cases "job \<in> set (tj_jobs l)")
  case True
  then show ?thesis using assms by (auto simp: tj_inv_def tj_insert_def)
next
  case False
  let ?x = "\<lparr>it_job = job, it_target = target, it_slack = slack, it_priority = priority\<rparr>"
  have h: "mset (heap (?x # tj_queue l)) = mset (?x # tj_queue l)"
      "sorted_wrt (\<lambda>a b. \<not> item_less a b) (heap (?x # tj_queue l))"
    using assms(2) unfolding heap_ok_def by blast+
  have l': "l' = l\<lparr>tj_items := insert job (tj_items l), tj_queue := heap (?x # tj_queue l)\<rparr>" "r"
    using assms(1,3) False by (auto simp: tj_inv_def tj_insert_def)
  have m: "mset (tj_jobs l') = add_mset job (mset (tj_jobs l))"
    using h(1) by (simp add: l' tj_jobs_def mset_map)
  then have "distinct (tj_jobs l')" "set (tj_jobs l') = insert job (set (tj_jobs l))"
    using False assms(1) by (metis distinct.simps(2) mset.simps(2) mset_eq_imp_distinct_iff tj_inv_def,
      metis list.simps(15) mset.simps(2) mset_eq_setD)
  then have "tj_inv l'" using assms(1) h(2) by (simp add: tj_inv_def l'(1))
  then show ?thesis using m False l' by simp
qed

lemma tj_wait_spec:
  assumes "tj_inv l" "tj_wait_pass now l = (r, l')"
  shows "tj_inv l' \<and> tj_running l' = tj_running l \<and>
    mset (tj_jobs l) = (case r of Got j \<Rightarrow> add_mset j (mset (tj_jobs l')) | _ \<Rightarrow> mset (tj_jobs l'))"
proof (cases "tj_running l")
  case False
  then show ?thesis using assms by (simp add: tj_wait_pass_def)
next
  case True
  obtain moved rest d where due: "due_jobs now (tj_queue l) = (moved, rest, d)" by (metis prod_cases3)
  note q = due_jobs_append [OF due]
  show ?thesis
  proof (cases "tj_pending l @ moved")
    case Nil
    then show ?thesis using assms True due q by (auto simp: tj_wait_pass_def tj_inv_def tj_jobs_def)
  next
    case (Cons x ps)
    have r: "r = Got (it_job x)" "l' = l\<lparr>tj_queue := rest, tj_pending := ps, tj_items := tj_items l - {it_job x}\<rparr>"
      using assms(2) True due Cons by (auto simp: tj_wait_pass_def)
    have jobs: "tj_jobs l = it_job x # tj_jobs l'"
      using q Cons by (simp add: tj_jobs_def r(2)) (metis append.assoc append_Cons list.simps(9) map_append)
    then show ?thesis using assms(1) r q by (auto simp: tj_inv_def sorted_wrt_append)
  qed
qed

text \<open>popFront keeps the name of a pending job in items_, so that this job can never be queued again.\<close>

lemma popFront_pending_blocks:
  "tj_inv l \<Longrightarrow> tj_pending l = x # ps \<Longrightarrow> tj_popFront l = (Inr (it_job x), l') \<Longrightarrow>
   tj_insert heap (it_job x) target slack priority l' = (False, l') \<and> it_job x \<notin> set (tj_jobs l')"
  by (auto simp: tj_popFront_def tj_insert_def tj_inv_def tj_jobs_def)

text \<open>The comparison is a strict weak order, as std::priority_queue requires; with a larger kTimeFudge it
  would not be.\<close>

lemma item_less_cases:
  "item_less a b \<longleftrightarrow> it_target b + it_slack b < it_target a + it_slack a \<or>
     it_target a + it_slack a = it_target b + it_slack b \<and> it_priority a < it_priority b"
  by (auto simp: item_less_def kTimeFudge_def Let_def)

lemma item_less_weak_order:
  "\<not> item_less a a" "item_less a b \<Longrightarrow> item_less b c \<Longrightarrow> item_less a c"
  "\<not> item_less a b \<Longrightarrow> \<not> item_less b c \<Longrightarrow> \<not> item_less a c"
  by (auto simp: item_less_cases)

lemma mset_item_insert [simp]: "mset (item_insert x q) = add_mset x (mset q)"
  by (induction q) auto

lemma item_insert_sorted:
  "sorted_wrt (\<lambda>a b. \<not> item_less a b) q \<Longrightarrow> sorted_wrt (\<lambda>a b. \<not> item_less a b) (item_insert x q)"
proof (induction q)
  case (Cons y q)
  have "set (item_insert x q) = insert x (set q)" by (metis mset_item_insert set_mset_add_mset_insert set_mset_mset)
  then show ?case using Cons by (auto simp: item_less_cases)
qed simp

lemma heap_ok_item_sort: "heap_ok item_sort"
proof -
  have "mset (foldr item_insert q []) = mset q \<and> sorted_wrt (\<lambda>a b. \<not> item_less a b) (foldr item_insert q [])" for q :: "'a Item list"
    by (induction q) (auto intro: item_insert_sorted)
  then show ?thesis by (simp add: heap_ok_def item_sort_def)
qed


definition demo_jobs :: "int TimedJobList" where
  "demo_jobs = \<lparr>tj_queue = [\<lparr>it_job = 7, it_target = 10, it_slack = 0, it_priority = 1\<rparr>], tj_items = {7},
     tj_pending = [], tj_running = True\<rparr>"


end
