(* ===== verification/Multi_Thread_Scheduler.thy ===== *)
theory Multi_Thread_Scheduler
  imports Job_Lists Scheduling_Terms
begin

text \<open>
  gxf/std/multi_thread_scheduler.cpp: the dispatcher thread, the worker threads and the thread for
  asynchronous events, which pass entities to each other through two timed job lists and an event
  list, while other threads schedule, unschedule, notify and stop.  Each operation on a shared
  list, each update of the conditions and each call of the executor is one step, and the steps of
  all threads interleave in any order.  The clock and the executor answer arbitrarily.
\<close>

section \<open>State\<close>

datatype mt_state = kNotStarted | kRunning | kStopping | kStopped

text \<open>Where each thread is in its loop.  The thread works on an entity e; c is the condition that the
  dispatcher found at the time now.\<close>

datatype dispatcher_pc =
    DNotStarted | DIdle | DWait | DGot gxf_uid_t
  | DDecided gxf_uid_t SchedulingCondition int | DUpdated gxf_uid_t SchedulingCondition int
  | DDrain gxf_uid_t SchedulingCondition int | DWaitWorkers gxf_uid_t SchedulingCondition int
  | DDuration gxf_uid_t SchedulingCondition int | DPut gxf_uid_t SchedulingCondition int
  | DLeave | DDone

datatype worker_pc =
    WNotStarted | WIdle | WGot gxf_uid_t | WUnschedule gxf_uid_t | WExecute gxf_uid_t int
  | WDone gxf_uid_t | WExit

datatype async_pc =
    ANotStarted | AIdle | AScan "gxf_uid_t list" | AMove gxf_uid_t "gxf_uid_t list"
  | AInsert gxf_uid_t "gxf_uid_t list" | AWait | AExit

text \<open>A thread pool is a number, 0 the default pool; a worker is the pool and number of its thread and
  where it is.\<close>

record MultiThreadScheduler =
  m_conditions :: "gxf_uid_t \<rightharpoonup> SchedulingCondition"
  m_ready :: int
  m_wait_time :: int
  m_wait_event :: int
  m_wait :: int
  m_check :: "gxf_uid_t TimedJobList"
  m_worker :: "gxf_uid_t TimedJobList"
  m_unschedule :: "gxf_uid_t list"
  m_notified :: "gxf_uid_t list"
  m_waiting :: "gxf_uid_t list"
  m_state :: mt_state
  m_error :: gxf_result_t
  m_last_no_stop :: int
  m_start :: int
  m_resources :: "gxf_uid_t \<rightharpoonup> nat \<times> int"
  m_dispatcher :: dispatcher_pc
  m_workers :: "(nat \<times> int \<times> worker_pc) list"
  m_async :: async_pc

text \<open>The parameters: stop_on_deadlock, the sum of stop_on_deadlock_timeout and the recession period
  in milliseconds, max_duration in milliseconds, the recession period in nanoseconds, and
  strict_job_thread_pinning.\<close>

record mt_config =
  c_stop_on_deadlock :: bool
  c_timeout :: int
  c_max_duration :: "int option"
  c_recession :: int
  c_strict :: bool

definition kMaxSlipNs :: int where "kMaxSlipNs = 1000000"

type_synonym mt_heap = "gxf_uid_t Item list \<Rightarrow> gxf_uid_t Item list"

definition insert_check :: "mt_heap \<Rightarrow> gxf_uid_t \<Rightarrow> int \<Rightarrow> MultiThreadScheduler \<Rightarrow> MultiThreadScheduler" where
  "insert_check heap eid target m = m\<lparr>m_check := snd (tj_insert heap eid target kMaxSlipNs 0 (m_check m))\<rparr>"

definition insert_worker :: "mt_heap \<Rightarrow> gxf_uid_t \<Rightarrow> int \<Rightarrow> MultiThreadScheduler \<Rightarrow> MultiThreadScheduler" where
  "insert_worker heap eid target m = m\<lparr>m_worker := snd (tj_insert heap eid target kMaxSlipNs 1 (m_worker m))\<rparr>"

section \<open>Set-up\<close>

definition count_type :: "SchedulingConditionType \<Rightarrow> (gxf_uid_t \<rightharpoonup> SchedulingCondition) \<Rightarrow> int" where
  "count_type t cs = int (card {e. \<exists>c. cs e = Some c \<and> sc_type c = t})"

text \<open>wait_count_ is not computed again.\<close>

definition mt_initialize :: "int \<Rightarrow> (nat \<times> int) list \<Rightarrow> MultiThreadScheduler \<Rightarrow> gxf_result_t \<times> MultiThreadScheduler" where
  "mt_initialize worker_threads added m =
     (GXF_SUCCESS, m\<lparr>m_ready := count_type READY (m_conditions m),
        m_wait_time := count_type WAIT_TIME (m_conditions m),
        m_wait_event := count_type WAIT_EVENT (m_conditions m),
        m_worker := tj_new, m_check := tj_new, m_waiting := [], m_notified := [], m_unschedule := [],
        m_error := GXF_SUCCESS,
        m_workers := map (\<lambda>(p, t). (p, t, WNotStarted)) (map (\<lambda>i. (0, i)) [0..worker_threads - 1] @ added)\<rparr>)"

definition mt_deinitialize :: "MultiThreadScheduler \<Rightarrow> gxf_result_t \<times> MultiThreadScheduler" where
  "mt_deinitialize m =
     (m_error m, m\<lparr>m_conditions := Map.empty, m_ready := 0, m_wait_time := 0, m_wait_event := 0,
        m_worker := tj_new, m_check := tj_new, m_waiting := [], m_notified := [], m_workers := []\<rparr>)"

section \<open>Conditions\<close>

definition type_change :: "SchedulingConditionType \<Rightarrow> SchedulingCondition \<Rightarrow> SchedulingCondition \<Rightarrow> int \<Rightarrow> int" where
  "type_change t prev next n =
     (let n1 = if sc_type prev = t then n - 1 else n in if sc_type next = t then n1 + 1 else n1)"

definition mt_updateCondition ::
  "mt_heap \<Rightarrow> int \<Rightarrow> gxf_uid_t \<Rightarrow> SchedulingCondition \<Rightarrow> MultiThreadScheduler \<Rightarrow> MultiThreadScheduler" where
  "mt_updateCondition heap now eid next m = (case m_conditions m eid of
     None \<Rightarrow> insert_check heap eid now
       (m\<lparr>m_conditions := (m_conditions m)(eid \<mapsto> next), m_ready := m_ready m + 1\<rparr>)
   | Some prev \<Rightarrow>
       (let m1 = (if sc_type next \<noteq> sc_type prev
                  then m\<lparr>m_ready := type_change READY prev next (m_ready m),
                         m_wait_time := type_change WAIT_TIME prev next (m_wait_time m),
                         m_wait_event := type_change WAIT_EVENT prev next (m_wait_event m),
                         m_wait := type_change WAIT prev next (m_wait m)\<rparr>
                  else m)
        in if sc_type next = NEVER then m1\<lparr>m_conditions := (m_conditions m)(eid := None)\<rparr>
           else m1\<lparr>m_conditions := (m_conditions m)(eid \<mapsto> next)\<rparr>))"

definition mt_stopAllJobs :: "MultiThreadScheduler \<Rightarrow> MultiThreadScheduler" where
  "mt_stopAllJobs m = m\<lparr>m_state := kStopping, m_check := tj_stop (m_check m), m_worker := tj_stop (m_worker m),
     m_notified := [], m_waiting := [], m_unschedule := []\<rparr>"

definition mt_stop_on_deadlock_timeout ::
  "int \<Rightarrow> int \<Rightarrow> bool \<Rightarrow> MultiThreadScheduler \<Rightarrow> bool \<times> MultiThreadScheduler" where
  "mt_stop_on_deadlock_timeout timeout now should_stop m =
     (if timeout < 0 then (False, m)
      else if \<not> should_stop then (should_stop, m\<lparr>m_last_no_stop := now\<rparr>)
      else if (now - m_last_no_stop m) sdiv 1000000 \<le> timeout then (False, m)
      else (should_stop, m))"

definition mt_should_stop :: "mt_config \<Rightarrow> int \<Rightarrow> MultiThreadScheduler \<Rightarrow> bool \<times> MultiThreadScheduler" where
  "mt_should_stop cfg now m =
     (let idle = (c_stop_on_deadlock cfg \<and> m_ready m = 0 \<and> m_wait_time m = 0 \<and> m_wait_event m = 0);
          (stop, m1) = mt_stop_on_deadlock_timeout (c_timeout cfg) now idle m
      in if c_stop_on_deadlock cfg \<and> m_ready m = 0 \<and> m_wait_time m = 0 \<and> m_wait_event m = 0 \<and> m_wait m = 0
         then (True, m1) else (stop, m1))"

section \<open>Calls from outside\<close>

text \<open>thread_of: the pool of the entity and the thread it is pinned to in it, if any.\<close>

definition mt_prepareResourceMap ::
  "(nat \<times> int option) expected \<Rightarrow> gxf_uid_t \<Rightarrow> MultiThreadScheduler \<Rightarrow> MultiThreadScheduler" where
  "mt_prepareResourceMap thread_of eid m = (case thread_of of
     Inr (pool, Some t) \<Rightarrow>
       (if m_resources m eid = None then m\<lparr>m_resources := (m_resources m)(eid \<mapsto> (pool, t))\<rparr> else m)
   | _ \<Rightarrow> m)"

definition mt_prepareResourceMapStrict ::
  "(nat \<times> int option) expected \<Rightarrow> gxf_uid_t \<Rightarrow> MultiThreadScheduler \<Rightarrow> MultiThreadScheduler" where
  "mt_prepareResourceMapStrict thread_of eid m =
     (let r = (case thread_of of Inr (pool, Some t) \<Rightarrow> (pool, t) | _ \<Rightarrow> (0, - 1)) in
      if m_resources m eid = None then m\<lparr>m_resources := (m_resources m)(eid \<mapsto> r)\<rparr> else m)"

definition mt_prepare :: "mt_config \<Rightarrow> (nat \<times> int option) expected \<Rightarrow> gxf_uid_t \<Rightarrow> MultiThreadScheduler \<Rightarrow> MultiThreadScheduler" where
  "mt_prepare cfg = (if c_strict cfg then mt_prepareResourceMapStrict else mt_prepareResourceMap)"

text \<open>schedule up to updateCondition; the map of resources follows in a step of its own.\<close>

definition mt_schedule ::
  "mt_heap \<Rightarrow> unit expected \<Rightarrow> nat expected \<Rightarrow> int \<Rightarrow> gxf_uid_t \<Rightarrow> MultiThreadScheduler \<Rightarrow> gxf_result_t \<times> MultiThreadScheduler" where
  "mt_schedule heap shared codelets now eid m = (case shared of
     Inl e \<Rightarrow> (e, m)
   | Inr _ \<Rightarrow>
       (case codelets of
          Inl e \<Rightarrow> (e, m)
        | Inr n \<Rightarrow> (GXF_SUCCESS, if n = 0 then m else mt_updateCondition heap now eid (cond READY now) m)))"

definition mt_unschedule ::
  "unit expected \<Rightarrow> nat expected \<Rightarrow> gxf_uid_t \<Rightarrow> MultiThreadScheduler \<Rightarrow> gxf_result_t \<times> MultiThreadScheduler" where
  "mt_unschedule shared codelets eid m = (case shared of
     Inl e \<Rightarrow> (e, m)
   | Inr _ \<Rightarrow>
       (case codelets of
          Inl e \<Rightarrow> (e, m)
        | Inr n \<Rightarrow> (GXF_SUCCESS, if n = 0 then m else m\<lparr>m_unschedule := el_pushEvent eid (m_unschedule m)\<rparr>)))"

definition mt_event_notify :: "gxf_uid_t \<Rightarrow> int \<Rightarrow> MultiThreadScheduler \<Rightarrow> gxf_result_t \<times> MultiThreadScheduler" where
  "mt_event_notify eid event m =
     (if event \<noteq> GXF_EVENT_EXTERNAL then (GXF_SUCCESS, m)
      else (GXF_SUCCESS, m\<lparr>m_notified := el_pushEvent eid (m_notified m)\<rparr>))"

definition mt_runAsync :: "bool \<Rightarrow> bool \<Rightarrow> bool \<Rightarrow> int \<Rightarrow> int \<Rightarrow> MultiThreadScheduler \<Rightarrow> gxf_result_t \<times> MultiThreadScheduler" where
  "mt_runAsync clock started executor worker_threads now m =
     (if \<not> clock then (GXF_ARGUMENT_INVALID, m)
      else if started then (GXF_INVALID_LIFECYCLE_STAGE, m)
      else if \<not> executor then (GXF_ARGUMENT_NULL, m)
      else if worker_threads < 1 then (GXF_PARAMETER_OUT_OF_RANGE, m)
      else (GXF_SUCCESS, m\<lparr>m_start := now, m_state := kRunning, m_worker := tj_start (m_worker m),
              m_check := tj_start (m_check m), m_dispatcher := DIdle, m_async := AIdle,
              m_workers := map (\<lambda>(p, t, _). (p, t, WIdle)) (m_workers m)\<rparr>))"

section \<open>The dispatcher\<close>

definition dispatch_next :: "MultiThreadScheduler \<Rightarrow> MultiThreadScheduler" where
  "dispatch_next m = m\<lparr>m_dispatcher := (if m_state m = kRunning then DWait else DLeave)\<rparr>"

definition dispatch_wait :: "int \<Rightarrow> MultiThreadScheduler \<Rightarrow> MultiThreadScheduler" where
  "dispatch_wait now m = (case tj_wait_pass now (m_check m) of
     (Got e, l) \<Rightarrow> m\<lparr>m_check := l, m_dispatcher := DGot e\<rparr>
   | (Stopped, l) \<Rightarrow> m\<lparr>m_check := l, m_dispatcher := DLeave\<rparr>
   | (Sleep _, l) \<Rightarrow> m\<lparr>m_check := l\<rparr>)"

text \<open>answer: what checkEntity returns, if it is called.\<close>

definition dispatch_check ::
  "bool \<Rightarrow> SchedulingCondition expected \<Rightarrow> int \<Rightarrow> gxf_uid_t \<Rightarrow> MultiThreadScheduler \<Rightarrow> MultiThreadScheduler" where
  "dispatch_check not_started answer now e m =
     (if el_hasEvent e (m_unschedule m)
      then m\<lparr>m_unschedule := el_removeEvent e (m_unschedule m), m_dispatcher := DDecided e (cond NEVER 0) now\<rparr>
      else if not_started then m\<lparr>m_dispatcher := DDecided e (cond READY now) now\<rparr>
      else case answer of
        Inl err \<Rightarrow> (mt_stopAllJobs (m\<lparr>m_error := err\<rparr>))\<lparr>m_dispatcher := DLeave\<rparr>
      | Inr c \<Rightarrow> m\<lparr>m_dispatcher := DDecided e c now\<rparr>)"

definition dispatch_update ::
  "mt_heap \<Rightarrow> int \<Rightarrow> gxf_uid_t \<Rightarrow> SchedulingCondition \<Rightarrow> int \<Rightarrow> MultiThreadScheduler \<Rightarrow> MultiThreadScheduler" where
  "dispatch_update heap later e c now m =
     (mt_updateCondition heap later e c m)\<lparr>m_dispatcher := DUpdated e c now\<rparr>"

text \<open>checkEndingCriteria in its steps: the decision, the loop over the jobs that are still to be
  checked, the wait for the workers, and the maximum duration.\<close>

definition ending_decide ::
  "mt_config \<Rightarrow> int \<Rightarrow> gxf_uid_t \<Rightarrow> SchedulingCondition \<Rightarrow> int \<Rightarrow> MultiThreadScheduler \<Rightarrow> MultiThreadScheduler" where
  "ending_decide cfg later e c now m =
     (let (stop, m1) = mt_should_stop cfg later m in
      if stop then m1\<lparr>m_state := kStopping, m_dispatcher := DDrain e c now\<rparr>
      else m1\<lparr>m_dispatcher := DDuration e c now\<rparr>)"

definition ending_drain ::
  "mt_heap \<Rightarrow> SchedulingCondition expected \<Rightarrow> int \<Rightarrow> gxf_uid_t \<Rightarrow> SchedulingCondition \<Rightarrow> int \<Rightarrow> MultiThreadScheduler \<Rightarrow> MultiThreadScheduler" where
  "ending_drain heap answer later e c now m =
     (if tj_empty (m_check m) then m\<lparr>m_dispatcher := DWaitWorkers e c now\<rparr>
      else case tj_popFront (m_check m) of
        (Inl _, l) \<Rightarrow> m\<lparr>m_check := l, m_dispatcher := DWaitWorkers e c now\<rparr>
      | (Inr d, l) \<Rightarrow>
          (let m1 = m\<lparr>m_check := l\<rparr> in
           case answer of
             Inl err \<Rightarrow> m1\<lparr>m_error := err, m_dispatcher := DPut e c now\<rparr>
           | Inr a \<Rightarrow> if sc_type a = READY then insert_worker heap d later m1 else m1))"

definition ending_workers :: "gxf_uid_t \<Rightarrow> SchedulingCondition \<Rightarrow> int \<Rightarrow> MultiThreadScheduler \<Rightarrow> MultiThreadScheduler" where
  "ending_workers e c now m =
     (if tj_empty (m_worker m) then (mt_stopAllJobs m)\<lparr>m_dispatcher := DPut e c now\<rparr> else m)"

definition ending_duration ::
  "mt_config \<Rightarrow> int \<Rightarrow> gxf_uid_t \<Rightarrow> SchedulingCondition \<Rightarrow> int \<Rightarrow> MultiThreadScheduler \<Rightarrow> MultiThreadScheduler" where
  "ending_duration cfg later e c now m =
     (case c_max_duration cfg of
        Some d \<Rightarrow> (if later - m_start m > d * 1000000 then mt_stopAllJobs m else m)
      | None \<Rightarrow> m)\<lparr>m_dispatcher := DPut e c now\<rparr>"

definition dispatch_put ::
  "mt_config \<Rightarrow> mt_heap \<Rightarrow> gxf_uid_t \<Rightarrow> SchedulingCondition \<Rightarrow> int \<Rightarrow> MultiThreadScheduler \<Rightarrow> MultiThreadScheduler" where
  "dispatch_put cfg heap e c now m =
     (case sc_type c of
        READY \<Rightarrow> insert_worker heap e now m
      | WAIT_EVENT \<Rightarrow> m\<lparr>m_waiting := el_pushEvent e (m_waiting m)\<rparr>
      | WAIT_TIME \<Rightarrow> insert_worker heap e (sc_target c) m
      | WAIT \<Rightarrow> insert_check heap e (now + c_recession cfg) m
      | NEVER \<Rightarrow> m)\<lparr>m_dispatcher := DIdle\<rparr>"

text \<open>stopAllThreads: all threads have been joined.\<close>

definition dispatch_leave :: "MultiThreadScheduler \<Rightarrow> MultiThreadScheduler" where
  "dispatch_leave m =
     (if m_async m = AExit \<and> (\<forall>(_, _, pc) \<in> set (m_workers m). pc = WExit)
      then m\<lparr>m_state := kStopped, m_dispatcher := DDone\<rparr> else m)"

section \<open>The workers\<close>

definition isJobMatch :: "nat \<Rightarrow> int \<Rightarrow> gxf_uid_t \<Rightarrow> MultiThreadScheduler \<Rightarrow> bool" where
  "isJobMatch pool thread eid m = (case m_resources m eid of
     None \<Rightarrow> True
   | Some (job_pool, job_thread) \<Rightarrow> job_pool = pool \<and> job_thread = thread)"

definition isJobMatchStrict :: "nat \<Rightarrow> int \<Rightarrow> gxf_uid_t \<Rightarrow> MultiThreadScheduler \<Rightarrow> bool" where
  "isJobMatchStrict pool thread eid m = (case m_resources m eid of
     None \<Rightarrow> False
   | Some (job_pool, job_thread) \<Rightarrow>
       (if pool = 0 then job_pool = pool else job_pool = pool \<and> job_thread = thread))"

definition set_worker :: "nat \<Rightarrow> worker_pc \<Rightarrow> MultiThreadScheduler \<Rightarrow> MultiThreadScheduler" where
  "set_worker i pc m = m\<lparr>m_workers := (m_workers m)[i := (fst (m_workers m ! i), fst (snd (m_workers m ! i)), pc)]\<rparr>"

definition worker_wait :: "nat \<Rightarrow> int \<Rightarrow> MultiThreadScheduler \<Rightarrow> MultiThreadScheduler" where
  "worker_wait i now m = (case tj_wait_pass now (m_worker m) of
     (Got e, l) \<Rightarrow> set_worker i (WGot e) (m\<lparr>m_worker := l\<rparr>)
   | (Stopped, l) \<Rightarrow> set_worker i WExit (m\<lparr>m_worker := l\<rparr>)
   | (Sleep _, l) \<Rightarrow> m\<lparr>m_worker := l\<rparr>)"

definition worker_got :: "mt_config \<Rightarrow> nat \<Rightarrow> int \<Rightarrow> gxf_uid_t \<Rightarrow> MultiThreadScheduler \<Rightarrow> MultiThreadScheduler" where
  "worker_got cfg i now e m =
     (if el_hasEvent e (m_unschedule m)
      then set_worker i (WUnschedule e) (m\<lparr>m_unschedule := el_removeEvent e (m_unschedule m)\<rparr>)
      else let (pool, thread, _) = m_workers m ! i;
               execute = (if \<not> c_strict cfg then isJobMatch pool thread e m else isJobMatchStrict pool thread e m)
           in set_worker i (if execute then WExecute e now else WDone e) m)"

definition worker_unschedule :: "mt_heap \<Rightarrow> nat \<Rightarrow> int \<Rightarrow> gxf_uid_t \<Rightarrow> MultiThreadScheduler \<Rightarrow> MultiThreadScheduler" where
  "worker_unschedule heap i now e m = set_worker i WIdle (mt_updateCondition heap now e (cond NEVER 0) m)"

text \<open>answer: what executeEntity returns.\<close>

definition worker_executed :: "nat \<Rightarrow> SchedulingCondition expected \<Rightarrow> gxf_uid_t \<Rightarrow> MultiThreadScheduler \<Rightarrow> MultiThreadScheduler" where
  "worker_executed i answer e m = (case answer of
     Inl err \<Rightarrow> set_worker i WExit (mt_stopAllJobs (m\<lparr>m_error := err\<rparr>))
   | Inr _ \<Rightarrow> set_worker i (WDone e) m)"

definition worker_done :: "mt_heap \<Rightarrow> nat \<Rightarrow> int \<Rightarrow> gxf_uid_t \<Rightarrow> MultiThreadScheduler \<Rightarrow> MultiThreadScheduler" where
  "worker_done heap i now e m =
     set_worker i WIdle (if m_state m = kRunning then insert_check heap e now m else m)"

section \<open>The thread for asynchronous events\<close>

definition async_next :: "MultiThreadScheduler \<Rightarrow> MultiThreadScheduler" where
  "async_next m = m\<lparr>m_async := (if m_state m \<noteq> kRunning then AExit else AScan (m_notified m))\<rparr>"

fun async_scan :: "gxf_uid_t list \<Rightarrow> MultiThreadScheduler \<Rightarrow> MultiThreadScheduler" where
  "async_scan [] m = m\<lparr>m_async := AWait\<rparr>"
| "async_scan (e # es) m =
     (if el_hasEvent e (m_waiting m)
      then m\<lparr>m_waiting := el_removeEvent e (m_waiting m), m_async := AMove e es\<rparr>
      else m\<lparr>m_async := AScan es\<rparr>)"

definition async_move :: "gxf_uid_t \<Rightarrow> gxf_uid_t list \<Rightarrow> MultiThreadScheduler \<Rightarrow> MultiThreadScheduler" where
  "async_move e es m = m\<lparr>m_notified := el_removeEvent e (m_notified m), m_async := AInsert e es\<rparr>"

definition async_insert :: "mt_heap \<Rightarrow> int \<Rightarrow> gxf_uid_t \<Rightarrow> gxf_uid_t list \<Rightarrow> MultiThreadScheduler \<Rightarrow> MultiThreadScheduler" where
  "async_insert heap now e es m = (insert_check heap e now m)\<lparr>m_async := AScan es\<rparr>"

definition async_wake :: "MultiThreadScheduler \<Rightarrow> MultiThreadScheduler" where
  "async_wake m = (if \<not> el_empty (m_notified m) \<or> m_state m \<noteq> kRunning then m\<lparr>m_async := AIdle\<rparr> else m)"

section \<open>All threads together\<close>

inductive mt_step :: "mt_config \<Rightarrow> mt_heap \<Rightarrow> MultiThreadScheduler \<Rightarrow> MultiThreadScheduler \<Rightarrow> bool" for cfg heap where
  schedule: "mt_step cfg heap m (snd (mt_schedule heap shared codelets now eid m))"
| prepare: "mt_step cfg heap m (mt_prepare cfg thread_of eid m)"
| unschedule: "mt_step cfg heap m (snd (mt_unschedule shared codelets eid m))"
| notify: "mt_step cfg heap m (snd (mt_event_notify eid event m))"
| stop: "mt_step cfg heap m (mt_stopAllJobs m)"
| run: "m_dispatcher m = DNotStarted \<Longrightarrow> m_state m = kNotStarted \<Longrightarrow>
    mt_step cfg heap m (snd (mt_runAsync clock False executor worker_threads now m))"
| d_next: "m_dispatcher m = DIdle \<Longrightarrow> mt_step cfg heap m (dispatch_next m)"
| d_wait: "m_dispatcher m = DWait \<Longrightarrow> mt_step cfg heap m (dispatch_wait now m)"
| d_check: "m_dispatcher m = DGot e \<Longrightarrow> mt_step cfg heap m (dispatch_check not_started answer now e m)"
| d_update: "m_dispatcher m = DDecided e c now \<Longrightarrow> mt_step cfg heap m (dispatch_update heap later e c now m)"
| d_ending: "m_dispatcher m = DUpdated e c now \<Longrightarrow> mt_step cfg heap m (ending_decide cfg later e c now m)"
| d_drain: "m_dispatcher m = DDrain e c now \<Longrightarrow> mt_step cfg heap m (ending_drain heap answer later e c now m)"
| d_workers: "m_dispatcher m = DWaitWorkers e c now \<Longrightarrow> mt_step cfg heap m (ending_workers e c now m)"
| d_duration: "m_dispatcher m = DDuration e c now \<Longrightarrow> mt_step cfg heap m (ending_duration cfg later e c now m)"
| d_put: "m_dispatcher m = DPut e c now \<Longrightarrow> mt_step cfg heap m (dispatch_put cfg heap e c now m)"
| d_leave: "m_dispatcher m = DLeave \<Longrightarrow> mt_step cfg heap m (dispatch_leave m)"
| w_wait: "i < length (m_workers m) \<Longrightarrow> m_workers m ! i = (p, t, WIdle) \<Longrightarrow> mt_step cfg heap m (worker_wait i now m)"
| w_got: "i < length (m_workers m) \<Longrightarrow> m_workers m ! i = (p, t, WGot e) \<Longrightarrow>
    mt_step cfg heap m (worker_got cfg i now e m)"
| w_unschedule: "i < length (m_workers m) \<Longrightarrow> m_workers m ! i = (p, t, WUnschedule e) \<Longrightarrow>
    mt_step cfg heap m (worker_unschedule heap i now e m)"
| w_executed: "i < length (m_workers m) \<Longrightarrow> m_workers m ! i = (p, t, WExecute e now) \<Longrightarrow>
    mt_step cfg heap m (worker_executed i answer e m)"
| w_done: "i < length (m_workers m) \<Longrightarrow> m_workers m ! i = (p, t, WDone e) \<Longrightarrow>
    mt_step cfg heap m (worker_done heap i now e m)"
| a_next: "m_async m = AIdle \<Longrightarrow> mt_step cfg heap m (async_next m)"
| a_scan: "m_async m = AScan es \<Longrightarrow> mt_step cfg heap m (async_scan es m)"
| a_move: "m_async m = AMove e es \<Longrightarrow> mt_step cfg heap m (async_move e es m)"
| a_insert: "m_async m = AInsert e es \<Longrightarrow> mt_step cfg heap m (async_insert heap now e es m)"
| a_wake: "m_async m = AWait \<Longrightarrow> mt_step cfg heap m (async_wake m)"

text \<open>A scheduler after its initialisation: nothing scheduled, no thread running.\<close>

definition mt_fresh :: "int \<Rightarrow> (nat \<times> int) list \<Rightarrow> MultiThreadScheduler" where
  "mt_fresh worker_threads added = snd (mt_initialize worker_threads added
     \<lparr>m_conditions = Map.empty, m_ready = 0, m_wait_time = 0, m_wait_event = 0, m_wait = 0,
      m_check = tj_new, m_worker = tj_new, m_unschedule = [], m_notified = [], m_waiting = [],
      m_state = kNotStarted, m_error = GXF_SUCCESS, m_last_no_stop = 0, m_start = 0, m_resources = Map.empty,
      m_dispatcher = DNotStarted, m_workers = [], m_async = ANotStarted\<rparr>)"

definition mt_reach :: "mt_config \<Rightarrow> mt_heap \<Rightarrow> MultiThreadScheduler \<Rightarrow> MultiThreadScheduler \<Rightarrow> bool" where
  "mt_reach cfg heap = (mt_step cfg heap)\<^sup>*\<^sup>*"

section \<open>Where an entity is\<close>

fun d_holds :: "dispatcher_pc \<Rightarrow> gxf_uid_t multiset" where
  "d_holds (DGot e) = {#e#}"
| "d_holds (DDecided e c _) = {#e#}"
| "d_holds (DUpdated e c _) = (if sc_type c = NEVER then {#} else {#e#})"
| "d_holds (DDrain e c _) = (if sc_type c = NEVER then {#} else {#e#})"
| "d_holds (DWaitWorkers e c _) = (if sc_type c = NEVER then {#} else {#e#})"
| "d_holds (DDuration e c _) = (if sc_type c = NEVER then {#} else {#e#})"
| "d_holds (DPut e c _) = (if sc_type c = NEVER then {#} else {#e#})"
| "d_holds _ = {#}"

fun w_holds :: "worker_pc \<Rightarrow> gxf_uid_t multiset" where
  "w_holds (WGot e) = {#e#}"
| "w_holds (WUnschedule e) = {#e#}"
| "w_holds (WExecute e _) = {#e#}"
| "w_holds (WDone e) = {#e#}"
| "w_holds _ = {#}"

fun a_holds :: "async_pc \<Rightarrow> gxf_uid_t multiset" where
  "a_holds (AMove e _) = {#e#}"
| "a_holds (AInsert e _) = {#e#}"
| "a_holds _ = {#}"

definition ws_holds :: "(nat \<times> int \<times> worker_pc) list \<Rightarrow> gxf_uid_t multiset" where
  "ws_holds ws = sum_list (map (\<lambda>(_, _, pc). w_holds pc) ws)"

definition places :: "MultiThreadScheduler \<Rightarrow> gxf_uid_t multiset" where
  "places m = mset (tj_jobs (m_check m)) + mset (tj_jobs (m_worker m)) + mset (m_waiting m) +
     d_holds (m_dispatcher m) + ws_holds (m_workers m) + a_holds (m_async m)"

text \<open>A timed job list whose items_ may name jobs that were taken by popFront.\<close>

definition tj_weak :: "'j TimedJobList \<Rightarrow> bool" where
  "tj_weak l \<longleftrightarrow> distinct (tj_jobs l) \<and> set (tj_jobs l) \<subseteq> tj_items l"

definition live_state :: "mt_state \<Rightarrow> bool" where
  "live_state s = (s = kNotStarted \<or> s = kRunning)"

definition counters_ok :: "MultiThreadScheduler \<Rightarrow> bool" where
  "counters_ok m \<longleftrightarrow> finite (dom (m_conditions m)) \<and> (\<forall>e c. m_conditions m e = Some c \<longrightarrow> sc_type c \<noteq> NEVER) \<and>
     m_ready m = count_type READY (m_conditions m) \<and> m_wait_time m = count_type WAIT_TIME (m_conditions m) \<and>
     m_wait_event m = count_type WAIT_EVENT (m_conditions m) \<and> m_wait m = count_type WAIT (m_conditions m)"

definition mt_inv :: "MultiThreadScheduler \<Rightarrow> bool" where
  "mt_inv m \<longleftrightarrow> tj_weak (m_check m) \<and> tj_weak (m_worker m) \<and>
     (\<forall>e. count (places m) e \<le> 1) \<and> set_mset (places m) \<subseteq> dom (m_conditions m) \<and> counters_ok m \<and>
     (live_state (m_state m) \<longrightarrow> tj_items (m_check m) = set (tj_jobs (m_check m)) \<and>
        tj_items (m_worker m) = set (tj_jobs (m_worker m)) \<and> dom (m_conditions m) \<subseteq> set_mset (places m))"

lemma ws_holds_update:
  "i < length ws \<Longrightarrow> ws ! i = (p, t, pc) \<Longrightarrow>
   ws_holds (ws[i := (p, t, pc')]) + w_holds pc = ws_holds ws + w_holds pc'"
proof (induction ws arbitrary: i)
  case (Cons a ws)
  then show ?case by (cases i) (auto simp: ws_holds_def algebra_simps)
qed simp

subsection \<open>What the lists do to the places\<close>

lemma tj_weak_new [simp]: "tj_weak tj_new"
  by (simp add: tj_weak_def tj_new_def tj_jobs_def)

lemma tj_weak_start_stop [simp]:
  "tj_weak (tj_start l) = tj_weak l" "tj_weak (tj_stop l) = tj_weak l"
  "tj_items (tj_start l) = tj_items l" "tj_items (tj_stop l) = tj_items l"
  by (simp_all add: tj_weak_def) (simp_all add: tj_start_def tj_stop_def tj_jobs_def)

lemma tj_insert_weak:
  assumes "tj_weak l" "heap_ok heap"
  shows "tj_weak (snd (tj_insert heap j target slack priority l)) \<and>
    tj_items (snd (tj_insert heap j target slack priority l)) = insert j (tj_items l) \<and>
    mset (tj_jobs (snd (tj_insert heap j target slack priority l))) =
      (if j \<in> tj_items l then mset (tj_jobs l) else add_mset j (mset (tj_jobs l)))"
proof (cases "j \<in> tj_items l")
  case True
  then show ?thesis using assms by (auto simp: tj_insert_def)
next
  case False
  let ?x = "\<lparr>it_job = j, it_target = target, it_slack = slack, it_priority = priority\<rparr>"
  let ?l = "snd (tj_insert heap j target slack priority l)"
  have h: "mset (heap (?x # tj_queue l)) = mset (?x # tj_queue l)" using assms(2) unfolding heap_ok_def by blast
  have m: "mset (tj_jobs ?l) = add_mset j (mset (tj_jobs l))"
    using h False by (simp add: tj_insert_def tj_jobs_def mset_map)
  have "j \<notin> set (tj_jobs l)" "distinct (tj_jobs l)" using assms(1) False by (auto simp: tj_weak_def)
  then have "distinct (tj_jobs ?l)" using m by (metis distinct.simps(2) mset.simps(2) mset_eq_imp_distinct_iff)
  moreover have "set (tj_jobs ?l) = insert j (set (tj_jobs l))" using m by (metis list.simps(15) mset.simps(2) mset_eq_setD)
  ultimately show ?thesis using m False assms(1) by (auto simp: tj_weak_def tj_insert_def)
qed

lemma tj_pass_weak:
  assumes "tj_weak l" "tj_wait_pass now l = (r, l')"
  shows "tj_weak l' \<and> (case r of
     Got j \<Rightarrow> mset (tj_jobs l) = add_mset j (mset (tj_jobs l')) \<and> tj_items l' = tj_items l - {j}
   | _ \<Rightarrow> mset (tj_jobs l') = mset (tj_jobs l) \<and> tj_items l' = tj_items l)"
proof (cases "tj_running l")
  case False
  then show ?thesis using assms by (simp add: tj_wait_pass_def)
next
  case True
  obtain moved rest d where due: "due_jobs now (tj_queue l) = (moved, rest, d)" by (metis prod_cases3)
  note q = due_jobs_append [OF due]
  show ?thesis
  proof (cases "tj_pending l @ moved")
    case Nil
    then show ?thesis using assms True due q by (auto simp: tj_wait_pass_def tj_weak_def tj_jobs_def image_subset_iff)
  next
    case (Cons x ps)
    have r: "r = Got (it_job x)" "l' = l\<lparr>tj_queue := rest, tj_pending := ps, tj_items := tj_items l - {it_job x}\<rparr>"
      using assms(2) True due Cons by (auto simp: tj_wait_pass_def)
    have jobs: "tj_jobs l = it_job x # tj_jobs l'"
      using q Cons by (simp add: tj_jobs_def r(2)) (metis append.assoc append_Cons list.simps(9) map_append)
    then show ?thesis using assms(1) r by (auto simp: tj_weak_def)
  qed
qed

lemma tj_popFront_weak:
  "tj_weak l \<Longrightarrow> tj_popFront l = (r, l') \<Longrightarrow>
   tj_weak l' \<and> (case r of Inr j \<Rightarrow> mset (tj_jobs l) = add_mset j (mset (tj_jobs l')) | Inl _ \<Rightarrow> l' = l)"
  by (auto simp: tj_popFront_def tj_weak_def tj_jobs_def image_subset_iff split: list.splits)
    (metis disjoint_iff image_eqI)+

text \<open>The invariant depends on these parts only.\<close>

lemma insert_check_sel [simp]:
  "m_conditions (insert_check heap e t m) = m_conditions m" "m_ready (insert_check heap e t m) = m_ready m"
  "m_wait_time (insert_check heap e t m) = m_wait_time m" "m_wait_event (insert_check heap e t m) = m_wait_event m"
  "m_wait (insert_check heap e t m) = m_wait m" "m_worker (insert_check heap e t m) = m_worker m"
  "m_waiting (insert_check heap e t m) = m_waiting m" "m_state (insert_check heap e t m) = m_state m"
  "m_dispatcher (insert_check heap e t m) = m_dispatcher m" "m_workers (insert_check heap e t m) = m_workers m"
  "m_async (insert_check heap e t m) = m_async m"
  "m_check (insert_check heap e t m) = snd (tj_insert heap e t kMaxSlipNs 0 (m_check m))"
  by (simp_all add: insert_check_def)

lemma insert_worker_sel [simp]:
  "m_conditions (insert_worker heap e t m) = m_conditions m" "m_ready (insert_worker heap e t m) = m_ready m"
  "m_wait_time (insert_worker heap e t m) = m_wait_time m" "m_wait_event (insert_worker heap e t m) = m_wait_event m"
  "m_wait (insert_worker heap e t m) = m_wait m" "m_check (insert_worker heap e t m) = m_check m"
  "m_waiting (insert_worker heap e t m) = m_waiting m" "m_state (insert_worker heap e t m) = m_state m"
  "m_dispatcher (insert_worker heap e t m) = m_dispatcher m" "m_workers (insert_worker heap e t m) = m_workers m"
  "m_async (insert_worker heap e t m) = m_async m"
  "m_worker (insert_worker heap e t m) = snd (tj_insert heap e t kMaxSlipNs 1 (m_worker m))"
  by (simp_all add: insert_worker_def)

lemma set_worker_sel [simp]:
  "m_conditions (set_worker i pc m) = m_conditions m" "m_ready (set_worker i pc m) = m_ready m"
  "m_wait_time (set_worker i pc m) = m_wait_time m" "m_wait_event (set_worker i pc m) = m_wait_event m"
  "m_wait (set_worker i pc m) = m_wait m" "m_check (set_worker i pc m) = m_check m"
  "m_worker (set_worker i pc m) = m_worker m" "m_waiting (set_worker i pc m) = m_waiting m"
  "m_state (set_worker i pc m) = m_state m" "m_dispatcher (set_worker i pc m) = m_dispatcher m"
  "m_async (set_worker i pc m) = m_async m"
  by (simp_all add: set_worker_def)

definition same_counts :: "MultiThreadScheduler \<Rightarrow> MultiThreadScheduler \<Rightarrow> bool" where
  "same_counts m m' \<longleftrightarrow> m_conditions m' = m_conditions m \<and> m_ready m' = m_ready m \<and>
     m_wait_time m' = m_wait_time m \<and> m_wait_event m' = m_wait_event m \<and> m_wait m' = m_wait m"

definition exact_lists :: "MultiThreadScheduler \<Rightarrow> bool" where
  "exact_lists m \<longleftrightarrow> tj_items (m_check m) = set (tj_jobs (m_check m)) \<and> tj_items (m_worker m) = set (tj_jobs (m_worker m))"

lemma mt_inv_move:
  assumes inv: "mt_inv m" and c: "same_counts m m'"
    and lists: "tj_weak (m_check m')" "tj_weak (m_worker m')" and le: "places m' \<subseteq># places m"
    and live: "live_state (m_state m') \<Longrightarrow> live_state (m_state m) \<and> exact_lists m' \<and> places m' = places m"
  shows "mt_inv m'"
proof -
  have "count (places m') e \<le> 1" for e
    using inv le unfolding mt_inv_def by (meson le_trans mset_subset_eq_count)
  moreover have "set_mset (places m') \<subseteq> dom (m_conditions m')"
    using inv c set_mset_mono [OF le] by (auto simp: mt_inv_def same_counts_def)
  ultimately show ?thesis
    using inv c lists live by (auto simp: mt_inv_def same_counts_def counters_ok_def exact_lists_def)
qed

lemma count_type_upd:
  assumes "finite (dom cs)"
  shows "count_type t (cs(e := x)) = count_type t cs -
    (case cs e of Some c \<Rightarrow> (if sc_type c = t then 1 else 0) | None \<Rightarrow> 0) +
    (case x of Some c \<Rightarrow> (if sc_type c = t then 1 else 0) | None \<Rightarrow> 0)"
proof -
  let ?S = "\<lambda>cs. {e. \<exists>c. cs e = Some c \<and> sc_type c = t}"
  have fin: "finite (?S cs)" by (rule finite_subset [OF _ assms]) auto
  have e1: "int (card (?S cs)) = int (card (?S cs - {e})) +
      (case cs e of Some c \<Rightarrow> (if sc_type c = t then 1 else 0) | None \<Rightarrow> 0)"
  proof (cases "e \<in> ?S cs")
    case True
    then show ?thesis using fin card_Suc_Diff1 [OF fin True] by (auto simp del: card_Diff_insert)
  next
    case False
    then show ?thesis by (auto split: option.splits)
  qed
  have "?S (cs(e := x)) = (case x of Some c \<Rightarrow> (if sc_type c = t then insert e (?S cs - {e}) else ?S cs - {e}) | None \<Rightarrow> ?S cs - {e})"
    by (auto split: option.splits if_splits)
  then have "int (card (?S (cs(e := x)))) = int (card (?S cs - {e})) +
      (case x of Some c \<Rightarrow> (if sc_type c = t then 1 else 0) | None \<Rightarrow> 0)"
    using fin by (auto simp: card.insert_remove split: option.splits)
  then show ?thesis using e1 by (simp add: count_type_def)
qed

lemma count_type_change:
  assumes "finite (dom cs)" "cs e = Some prev" "t \<noteq> NEVER"
  shows "count_type t (cs(e := (if sc_type next = NEVER then None else Some next))) =
    (if sc_type next = sc_type prev then count_type t cs else type_change t prev next (count_type t cs))"
  using count_type_upd [OF assms(1), of t e "if sc_type next = NEVER then None else Some next"] assms(2,3)
  by (auto simp: type_change_def)

lemma update_known:
  assumes inv: "counters_ok m" and e: "m_conditions m e = Some prev"
  shows "counters_ok (mt_updateCondition heap now e next m)"
    "m_conditions (mt_updateCondition heap now e next m) =
       (m_conditions m)(e := (if sc_type next = NEVER then None else Some next))"
    "places (mt_updateCondition heap now e next m) = places m"
    "m_check (mt_updateCondition heap now e next m) = m_check m"
    "m_worker (mt_updateCondition heap now e next m) = m_worker m"
    "m_state (mt_updateCondition heap now e next m) = m_state m"
    "m_dispatcher (mt_updateCondition heap now e next m) = m_dispatcher m"
    "m_workers (mt_updateCondition heap now e next m) = m_workers m"
    "m_waiting (mt_updateCondition heap now e next m) = m_waiting m"
    "m_async (mt_updateCondition heap now e next m) = m_async m"
proof -
  have fin: "finite (dom (m_conditions m))" using inv by (simp add: counters_ok_def)
  note ch = count_type_change [OF fin e, of _ "next"]
  show c: "m_conditions (mt_updateCondition heap now e next m) =
       (m_conditions m)(e := (if sc_type next = NEVER then None else Some next))"
    using e by (simp add: mt_updateCondition_def Let_def)
  show "places (mt_updateCondition heap now e next m) = places m"
    "m_check (mt_updateCondition heap now e next m) = m_check m"
    "m_worker (mt_updateCondition heap now e next m) = m_worker m"
    "m_state (mt_updateCondition heap now e next m) = m_state m"
    "m_dispatcher (mt_updateCondition heap now e next m) = m_dispatcher m"
    "m_workers (mt_updateCondition heap now e next m) = m_workers m"
    "m_waiting (mt_updateCondition heap now e next m) = m_waiting m"
    "m_async (mt_updateCondition heap now e next m) = m_async m"
    using e by (simp_all add: mt_updateCondition_def Let_def places_def)
  have k: "m_ready (mt_updateCondition heap now e next m) = count_type READY (m_conditions (mt_updateCondition heap now e next m))"
    "m_wait_time (mt_updateCondition heap now e next m) = count_type WAIT_TIME (m_conditions (mt_updateCondition heap now e next m))"
    "m_wait_event (mt_updateCondition heap now e next m) = count_type WAIT_EVENT (m_conditions (mt_updateCondition heap now e next m))"
    "m_wait (mt_updateCondition heap now e next m) = count_type WAIT (m_conditions (mt_updateCondition heap now e next m))"
    unfolding c using inv e ch [of READY] ch [of WAIT_TIME] ch [of WAIT_EVENT] ch [of WAIT]
    by (auto simp: counters_ok_def mt_updateCondition_def Let_def)
  have "finite (dom (m_conditions (mt_updateCondition heap now e next m)))" unfolding c using fin by auto
  moreover have "\<forall>f d. m_conditions (mt_updateCondition heap now e next m) f = Some d \<longrightarrow> sc_type d \<noteq> NEVER"
    unfolding c using inv by (auto simp: counters_ok_def)
  ultimately show "counters_ok (mt_updateCondition heap now e next m)" using k unfolding counters_ok_def by blast
qed

subsection \<open>Every step keeps the invariant\<close>

lemma mt_inv_fresh: "mt_inv (mt_fresh n added)"
proof -
  have "ws_holds (map (\<lambda>(p, t). (p, t, WNotStarted)) ws) = {#}" for ws :: "(nat \<times> int) list"
    by (induction ws) (auto simp: ws_holds_def)
  then show ?thesis
    by (simp add: mt_inv_def mt_fresh_def mt_initialize_def places_def counters_ok_def count_type_def tj_new_def tj_jobs_def
        tj_weak_def del: map_append)
qed

text \<open>An insertion into a list of an entity that is at no place moves it there.\<close>

lemma exact_insert:
  assumes "tj_weak l" "heap_ok heap" "tj_items l = set (tj_jobs l)" "e \<notin> set (tj_jobs l)"
  shows "mset (tj_jobs (snd (tj_insert heap e t s p l))) = add_mset e (mset (tj_jobs l))"
    "tj_items (snd (tj_insert heap e t s p l)) = set (tj_jobs (snd (tj_insert heap e t s p l)))"
  using tj_insert_weak [OF assms(1,2), of e t s p] assms(3,4)
  by (simp, metis (no_types, lifting) list.simps(15) mset.simps(2) mset_eq_setD)

lemma insert_sub:
  assumes "tj_weak l" "heap_ok heap"
  shows "mset (tj_jobs (snd (tj_insert heap e t s p l))) \<subseteq># add_mset e (mset (tj_jobs l))"
  using tj_insert_weak [OF assms, of e t s p] by simp

lemma once_not_in:
  assumes "\<forall>e. count (places m) e \<le> 1" "places m = add_mset e A"
  shows "e \<notin># A"
proof
  assume "e \<in># A"
  then have "2 \<le> count (places m) e" using assms(2) by (simp add: count_greater_zero_iff [symmetric] Suc_leI del: count_greater_zero_iff)
  then show False using assms(1) by (metis not_numeral_le_zero numeral_le_one_iff one_le_numeral order_trans semiring_norm(69))
qed

lemma inv_schedule:
  assumes inv: "mt_inv m" and heap: "heap_ok heap"
  shows "mt_inv (snd (mt_schedule heap shared codelets now eid m))"
proof (cases "ok shared \<and> (\<exists>n. codelets = Inr n \<and> n \<noteq> 0)")
  case False
  then show ?thesis using inv by (auto simp: mt_schedule_def split: sum.splits)
next
  case True
  then have s: "snd (mt_schedule heap shared codelets now eid m) = mt_updateCondition heap now eid (cond READY now) m" (is "_ = ?m")
    by (auto simp: mt_schedule_def split: sum.splits)
  have cnt: "counters_ok m" using inv by (simp add: mt_inv_def)
  show ?thesis
  proof (cases "m_conditions m eid")
    case (Some prev)
    note u = update_known [OF cnt Some, of heap now "cond READY now"]
    have "dom (m_conditions ?m) = dom (m_conditions m)" using Some u(2) by auto
    then show ?thesis using inv u unfolding s by (simp add: mt_inv_def)
  next
    case None
    have new: "?m = insert_check heap eid now (m\<lparr>m_conditions := (m_conditions m)(eid \<mapsto> cond READY now), m_ready := m_ready m + 1\<rparr>)"
      using None by (simp add: mt_updateCondition_def)
    have w: "tj_weak (m_check m)" "tj_weak (m_worker m)" using inv by (simp_all add: mt_inv_def)
    have nin: "eid \<notin># places m" using inv None by (auto simp: mt_inv_def)
    have le: "places ?m \<subseteq># add_mset eid (places m)"
      using insert_sub [OF w(1) heap, of eid now kMaxSlipNs 0]
      by (auto simp: new places_def intro: subset_mset.add_mono)
    have "count (places ?m) e \<le> 1" for e
    proof -
      have "count (places ?m) e \<le> count (add_mset eid (places m)) e" using le by (rule mset_subset_eq_count)
      also have "\<dots> \<le> 1" using inv nin by (auto simp: mt_inv_def not_in_iff)
      finally show ?thesis .
    qed
    moreover have "counters_ok ?m"
      using cnt None count_type_upd [of "m_conditions m" _ eid "Some (cond READY now)"]
      by (auto simp: new counters_ok_def)
    moreover have "set_mset (places ?m) \<subseteq> dom (m_conditions ?m)"
      using set_mset_mono [OF le] inv by (auto simp: new mt_inv_def)
    moreover have "exact_lists ?m \<and> places ?m = add_mset eid (places m)" if "live_state (m_state m)"
    proof -
      have ex: "tj_items (m_check m) = set (tj_jobs (m_check m))" "tj_items (m_worker m) = set (tj_jobs (m_worker m))"
        using inv that by (simp_all add: mt_inv_def)
      have "eid \<notin> set (tj_jobs (m_check m))" using nin by (simp add: places_def)
      then show ?thesis using exact_insert [OF w(1) heap ex(1)] ex(2) by (simp add: new exact_lists_def places_def)
    qed
    ultimately show ?thesis using inv w tj_insert_weak [OF w(1) heap, of eid now kMaxSlipNs 0] unfolding s
      by (auto simp: mt_inv_def new exact_lists_def)
  qed
qed

lemma inv_stop:
  assumes "mt_inv m" "same_counts m m'" "m_check m' = m_check m" "m_worker m' = m_worker m"
    "places (mt_stopAllJobs m') \<subseteq># places m"
  shows "mt_inv (mt_stopAllJobs m')"
  using assms by (intro mt_inv_move [OF assms(1)]) (auto simp: mt_stopAllJobs_def same_counts_def live_state_def mt_inv_def)

lemma places_stop: "places (mt_stopAllJobs m) \<subseteq># places m"
proof -
  have "tj_jobs (tj_stop l) = tj_jobs l" for l :: "gxf_uid_t TimedJobList" by (simp add: tj_stop_def tj_jobs_def)
  then show ?thesis by (auto simp: places_def mt_stopAllJobs_def intro!: subset_mset.add_mono)
qed

text \<open>Changes of the program counters and of fields that the invariant does not mention.\<close>

lemma inv_same:
  assumes "mt_inv m" "same_counts m m'" "m_check m' = m_check m" "m_worker m' = m_worker m" "places m' = places m"
    "live_state (m_state m') \<Longrightarrow> live_state (m_state m)"
  shows "mt_inv m'"
  using assms by (intro mt_inv_move [OF assms(1)]) (auto simp: mt_inv_def exact_lists_def)

lemma inv_pass_check:
  assumes inv: "mt_inv m" and l: "tj_wait_pass now (m_check m) = (r, l)" and c: "same_counts m m'"
    and m': "m_check m' = l" "m_worker m' = m_worker m" "m_state m' = m_state m"
    and p: "places m' = places m"
  shows "mt_inv m'"
proof -
  have w: "tj_weak (m_check m)" "tj_weak (m_worker m)" using inv by (simp_all add: mt_inv_def)
  note pass = tj_pass_weak [OF w(1) l]
  have "tj_items l = set (tj_jobs l)" if "tj_items (m_check m) = set (tj_jobs (m_check m))"
  proof (cases r)
    case (Got j)
    then have "mset (tj_jobs (m_check m)) = mset (j # tj_jobs l)" using pass by simp
    then have "set (tj_jobs (m_check m)) = insert j (set (tj_jobs l))" "j \<notin> set (tj_jobs l)"
      using w(1) by (metis list.simps(15) mset_eq_setD, metis distinct.simps(2) mset_eq_imp_distinct_iff tj_weak_def)
    then show ?thesis using pass that Got by simp
  qed (use pass that in \<open>auto dest!: mset_eq_setD\<close>)
  then show ?thesis using inv pass m' p w by (intro mt_inv_move [OF inv c]) (auto simp: mt_inv_def exact_lists_def)
qed

lemma inv_pass_worker:
  assumes inv: "mt_inv m" and l: "tj_wait_pass now (m_worker m) = (r, l)" and c: "same_counts m m'"
    and m': "m_worker m' = l" "m_check m' = m_check m" "m_state m' = m_state m"
    and p: "places m' = places m"
  shows "mt_inv m'"
proof -
  have w: "tj_weak (m_check m)" "tj_weak (m_worker m)" using inv by (simp_all add: mt_inv_def)
  note pass = tj_pass_weak [OF w(2) l]
  have "tj_items l = set (tj_jobs l)" if "tj_items (m_worker m) = set (tj_jobs (m_worker m))"
  proof (cases r)
    case (Got j)
    then have "mset (tj_jobs (m_worker m)) = mset (j # tj_jobs l)" using pass by simp
    then have "set (tj_jobs (m_worker m)) = insert j (set (tj_jobs l))" "j \<notin> set (tj_jobs l)"
      using w(2) by (metis list.simps(15) mset_eq_setD, metis distinct.simps(2) mset_eq_imp_distinct_iff tj_weak_def)
    then show ?thesis using pass that Got by simp
  qed (use pass that in \<open>auto dest!: mset_eq_setD\<close>)
  then show ?thesis using inv pass m' p w by (intro mt_inv_move [OF inv c]) (auto simp: mt_inv_def exact_lists_def)
qed

text \<open>An entity that a thread holds goes into one of the lists; r is the rest of the places.\<close>

lemma inv_put_check:
  assumes inv: "mt_inv m" and heap: "heap_ok heap" and c: "same_counts m m'"
    and m': "m_check m' = snd (tj_insert heap e t s p (m_check m))" "m_worker m' = m_worker m" "m_state m' = m_state m"
    and pl: "places m = add_mset e (mset (tj_jobs (m_check m)) + r)" "places m' = mset (tj_jobs (m_check m')) + r"
  shows "mt_inv m'"
proof -
  have w: "tj_weak (m_check m)" "tj_weak (m_worker m)" using inv by (simp_all add: mt_inv_def)
  have "e \<notin># mset (tj_jobs (m_check m)) + r" using once_not_in [OF _ pl(1)] inv by (simp add: mt_inv_def)
  then have "e \<notin> set (tj_jobs (m_check m))" by simp
  note ex = exact_insert [OF w(1) heap _ this, of t s p]
  have "places m' \<subseteq># places m" using insert_sub [OF w(1) heap, of e t s p] pl m'
    by (metis add_mset_add_single subset_mset.add_right_mono union_mset_add_mset_left)
  then show ?thesis using inv m' w tj_insert_weak [OF w(1) heap, of e t s p] ex pl
    by (intro mt_inv_move [OF inv c]) (auto simp: mt_inv_def exact_lists_def)
qed

lemma inv_put_worker:
  assumes inv: "mt_inv m" and heap: "heap_ok heap" and c: "same_counts m m'"
    and m': "m_worker m' = snd (tj_insert heap e t s p (m_worker m))" "m_check m' = m_check m" "m_state m' = m_state m"
    and pl: "places m = add_mset e (mset (tj_jobs (m_worker m)) + r)" "places m' = mset (tj_jobs (m_worker m')) + r"
  shows "mt_inv m'"
proof -
  have w: "tj_weak (m_check m)" "tj_weak (m_worker m)" using inv by (simp_all add: mt_inv_def)
  have "e \<notin># mset (tj_jobs (m_worker m)) + r" using once_not_in [OF _ pl(1)] inv by (simp add: mt_inv_def)
  then have "e \<notin> set (tj_jobs (m_worker m))" by simp
  note ex = exact_insert [OF w(2) heap _ this, of t s p]
  have "places m' \<subseteq># places m" using insert_sub [OF w(2) heap, of e t s p] pl m'
    by (metis add_mset_add_single subset_mset.add_right_mono union_mset_add_mset_left)
  then show ?thesis using inv m' w tj_insert_weak [OF w(2) heap, of e t s p] ex pl
    by (intro mt_inv_move [OF inv c]) (auto simp: mt_inv_def exact_lists_def)
qed

text \<open>The condition of an entity that a thread holds is updated.\<close>

lemma inv_update:
  assumes inv: "mt_inv m" and e: "e \<in># places m" and c: "same_counts (mt_updateCondition heap now e next m) m'"
    and m': "m_check m' = m_check m" "m_worker m' = m_worker m" "m_state m' = m_state m"
    and pl: "if sc_type next = NEVER then places m = add_mset e (places m') else places m' = places m"
  shows "mt_inv m'"
proof -
  have cnt: "counters_ok m" "set_mset (places m) \<subseteq> dom (m_conditions m)" using inv by (simp_all add: mt_inv_def)
  then obtain prev where prev: "m_conditions m e = Some prev" using e by auto
  note u = update_known [OF cnt(1) prev, of heap now "next"]
  have "counters_ok m'" using u(1) c unfolding same_counts_def counters_ok_def by simp
  moreover have cs: "m_conditions m' = (m_conditions m)(e := (if sc_type next = NEVER then None else Some next))"
    using c u(2) by (simp add: same_counts_def)
  moreover have "places m' \<subseteq># places m" using pl by (auto split: if_splits)
  then have once: "count (places m') f \<le> 1" for f
    using inv unfolding mt_inv_def by (meson le_trans mset_subset_eq_count)
  moreover have "sc_type next = NEVER \<Longrightarrow> e \<notin># places m'"
    using once_not_in [of m e "places m'"] inv pl by (simp add: mt_inv_def)
  ultimately have facts: "counters_ok m'" "\<forall>f. count (places m') f \<le> 1"
    "m_conditions m' = (m_conditions m)(e := (if sc_type next = NEVER then None else Some next))"
    "sc_type next = NEVER \<Longrightarrow> e \<notin># places m'" by blast+
  have d: "dom (m_conditions m') = (if sc_type next = NEVER then dom (m_conditions m) - {e} else dom (m_conditions m))"
    using prev by (auto simp: facts(3))
  have s: "set_mset (places m') = (if sc_type next = NEVER then set_mset (places m) - {e} else set_mset (places m))"
    using pl facts(4) by (auto split: if_splits)
  have "set_mset (places m') \<subseteq> dom (m_conditions m')" using cnt(2) unfolding d s by auto
  moreover have "dom (m_conditions m') \<subseteq> set_mset (places m')" if "dom (m_conditions m) \<subseteq> set_mset (places m)"
    using that unfolding d s by auto
  ultimately show ?thesis using inv m' facts(1,2) unfolding mt_inv_def by simp
qed

text \<open>Which program counters go together with which state of the scheduler.\<close>

definition mt_pcs :: "MultiThreadScheduler \<Rightarrow> bool" where
  "mt_pcs m \<longleftrightarrow> (m_state m = kNotStarted \<longrightarrow> m_dispatcher m = DNotStarted) \<and> (case m_dispatcher m of
     DNotStarted \<Rightarrow> m_async m = ANotStarted \<and> (\<forall>(_, _, pc) \<in> set (m_workers m). pc = WNotStarted)
   | DDrain _ _ _ \<Rightarrow> \<not> live_state (m_state m)
   | DWaitWorkers _ _ _ \<Rightarrow> \<not> live_state (m_state m)
   | _ \<Rightarrow> True)"

lemma worker_started: "mt_pcs m \<Longrightarrow> i < length (m_workers m) \<Longrightarrow> m_workers m ! i = (p, t, pc) \<Longrightarrow>
  pc \<noteq> WNotStarted \<Longrightarrow> m_dispatcher m \<noteq> DNotStarted"
  using nth_mem [of i "m_workers m"] by (auto simp: mt_pcs_def)

lemma pcs_worker:
  "mt_pcs m \<Longrightarrow> m_dispatcher m \<noteq> DNotStarted \<Longrightarrow> m_dispatcher m' = m_dispatcher m \<Longrightarrow>
   (live_state (m_state m') \<Longrightarrow> m_state m' = m_state m) \<Longrightarrow> mt_pcs m'"
  by (auto simp: mt_pcs_def live_state_def split: dispatcher_pc.splits)

lemma ws_holds_mem: "i < length ws \<Longrightarrow> ws ! i = (p, t, pc) \<Longrightarrow> \<exists>r. ws_holds ws = w_holds pc + r"
proof (induction ws arbitrary: i)
  case (Cons a ws)
  show ?case
  proof (cases i)
    case 0
    then show ?thesis using Cons.prems by (auto simp: ws_holds_def)
  next
    case (Suc j)
    then obtain r where "ws_holds ws = w_holds pc + r" using Cons by auto
    then have "ws_holds (a # ws) = w_holds pc + (r + (case a of (_, _, q) \<Rightarrow> w_holds q))"
      by (cases a) (simp add: ws_holds_def algebra_simps)
    then show ?thesis by blast
  qed
qed simp

text \<open>What a worker that moves on does to the places.\<close>

lemma set_worker_holds:
  assumes "i < length (m_workers m)" "m_workers m ! i = (p, t, pc)"
  shows "ws_holds (m_workers (set_worker i pc' m)) + w_holds pc = ws_holds (m_workers m) + w_holds pc'"
  using ws_holds_update [OF assms, of pc'] assms by (simp add: set_worker_def)

lemma set_worker_same:
  "i < length (m_workers m) \<Longrightarrow> m_workers m ! i = (p, t, pc) \<Longrightarrow> w_holds pc' = w_holds pc \<Longrightarrow>
   places (set_worker i pc' m) = places m"
  using set_worker_holds [of i m p t pc pc'] by (simp add: places_def)

lemma removeAll_once: "e \<in> set l \<Longrightarrow> count (mset l) e \<le> 1 \<Longrightarrow> mset l = add_mset e (mset (removeAll e l))"
proof (rule multiset_eqI)
  fix x
  assume l: "e \<in> set l" "count (mset l) e \<le> 1"
  then have "0 < count (mset l) e" by (simp only: count_greater_zero_iff set_mset_mset)
  with l(2) have "count (mset l) e = 1" by linarith
  then show "count (mset l) x = count (add_mset e (mset (removeAll e l))) x"
    by (auto simp: removeAll_filter_not_eq mset_filter count_filter_mset)
qed

lemma should_stop_frame: "mt_should_stop cfg now m = (b, m') \<Longrightarrow> m' = m\<lparr>m_last_no_stop := m_last_no_stop m'\<rparr>"
  by (auto simp: mt_should_stop_def mt_stop_on_deadlock_timeout_def Let_def split: if_splits)

lemma prepare_frame:
  "mt_prepare cfg thread_of e m = m\<lparr>m_resources := m_resources (mt_prepare cfg thread_of e m)\<rparr>"
  by (auto simp: mt_prepare_def mt_prepareResourceMap_def mt_prepareResourceMapStrict_def Let_def
      split: sum.splits option.splits)

lemma inv_frame:
  assumes "mt_inv m" "m' = m\<lparr>m_last_no_stop := a, m_start := b, m_resources := c, m_error := d, m_unschedule := f, m_notified := g\<rparr>"
  shows "mt_inv m'"
  by (rule inv_same [OF assms(1)]) (simp_all add: assms(2) same_counts_def places_def)

lemma inv_run:
  assumes inv: "mt_inv m" and pcs: "mt_pcs m" and d: "m_dispatcher m = DNotStarted"
    and n: "m_state m = kNotStarted"
  shows "mt_inv (snd (mt_runAsync clock started executor k now m))"
proof -
  have a: "m_async m = ANotStarted" "\<forall>(_, _, pc) \<in> set (m_workers m). pc = WNotStarted"
    using pcs d by (auto simp: mt_pcs_def)
  have "ws_holds ws = {#} \<and> ws_holds (map (\<lambda>(p, t, _). (p, t, WIdle)) ws) = {#}"
    if "\<forall>(_, _, pc) \<in> set ws. pc = WNotStarted" for ws
    using that by (induction ws) (auto simp: ws_holds_def)
  note w = this [OF a(2)]
  let ?m = "m\<lparr>m_start := now, m_state := kRunning, m_worker := tj_start (m_worker m),
              m_check := tj_start (m_check m), m_dispatcher := DIdle, m_async := AIdle,
              m_workers := map (\<lambda>(p, t, _). (p, t, WIdle)) (m_workers m)\<rparr>"
  have "mt_inv ?m"
  proof (rule mt_inv_move [OF inv])
    show "same_counts m ?m" by (simp add: same_counts_def)
    show "tj_weak (m_check ?m)" "tj_weak (m_worker ?m)" using inv by (simp_all add: mt_inv_def)
    show "places ?m \<subseteq># places m" using w a(1) d by (simp add: places_def tj_start_def tj_jobs_def)
    show "live_state (m_state m) \<and> exact_lists ?m \<and> places ?m = places m"
      using inv w a(1) d n by (simp add: places_def live_state_def mt_inv_def exact_lists_def tj_start_def tj_jobs_def)
  qed
  then show ?thesis using inv by (simp add: mt_runAsync_def)
qed

lemma inv_dispatch_wait:
  assumes inv: "mt_inv m" and d: "m_dispatcher m = DWait"
  shows "mt_inv (dispatch_wait now m)"
proof -
  obtain r l where l: "tj_wait_pass now (m_check m) = (r, l)" by (metis prod.exhaust)
  have "tj_weak (m_check m)" using inv by (simp add: mt_inv_def)
  note pass = tj_pass_weak [OF this l]
  show ?thesis by (rule inv_pass_check [OF inv l])
    (use pass l d in \<open>auto simp: dispatch_wait_def same_counts_def places_def split: wait_result.splits\<close>)
qed

lemma inv_dispatch_check:
  assumes inv: "mt_inv m" and d: "m_dispatcher m = DGot e"
  shows "mt_inv (dispatch_check not_started answer now e m)"
proof (cases "\<not> el_hasEvent e (m_unschedule m) \<and> \<not> not_started \<and> (\<exists>err. answer = Inl err)")
  case True
  then obtain err where r: "dispatch_check not_started answer now e m =
      (mt_stopAllJobs (m\<lparr>m_error := err\<rparr>))\<lparr>m_dispatcher := DLeave\<rparr>"
    by (auto simp: dispatch_check_def)
  have eq: "(mt_stopAllJobs (m\<lparr>m_error := err\<rparr>))\<lparr>m_dispatcher := DLeave\<rparr> = mt_stopAllJobs (m\<lparr>m_error := err, m_dispatcher := DLeave\<rparr>)"
    by (simp add: mt_stopAllJobs_def)
  have le: "places (m\<lparr>m_error := err, m_dispatcher := DLeave\<rparr>) \<subseteq># places m" by (simp add: places_def)
  show ?thesis unfolding r eq
    by (rule inv_stop [OF inv _ _ _ subset_mset.order_trans [OF places_stop le]]) (simp_all add: same_counts_def)
next
  case False
  let ?m = "dispatch_check not_started answer now e m"
  have "?m = m\<lparr>m_unschedule := m_unschedule ?m, m_dispatcher := m_dispatcher ?m\<rparr> \<and> d_holds (m_dispatcher ?m) = {#e#}"
    using False by (auto simp: dispatch_check_def split: sum.splits)
  then obtain u d' where m': "?m = m\<lparr>m_unschedule := u, m_dispatcher := d'\<rparr>" "d_holds d' = {#e#}" by metis
  show ?thesis unfolding m'(1) by (rule inv_same [OF inv]) (simp_all add: d m'(2) same_counts_def places_def)
qed

lemma inv_dispatch_update:
  assumes inv: "mt_inv m" and d: "m_dispatcher m = DDecided e c now"
  shows "mt_inv (dispatch_update heap later e c now m)"
proof -
  have e: "e \<in># places m" using d by (simp add: places_def)
  then obtain prev where prev: "m_conditions m e = Some prev" using inv by (auto simp: mt_inv_def)
  have "counters_ok m" using inv by (simp add: mt_inv_def)
  note u = update_known [OF this prev, of heap later c]
  have "places (dispatch_update heap later e c now m) + d_holds (DDecided e c now) = places m + d_holds (DUpdated e c now)"
    using d by (simp add: dispatch_update_def places_def u(4-10))
  then show ?thesis using u
    by (intro inv_update [OF inv e, of heap later c]) (auto simp: dispatch_update_def same_counts_def)
qed

lemma inv_ending_decide:
  assumes inv: "mt_inv m" and d: "m_dispatcher m = DUpdated e c now"
  shows "mt_inv (ending_decide cfg later e c now m)"
proof -
  obtain b m1 where s: "mt_should_stop cfg later m = (b, m1)" by (metis prod.exhaust)
  have "m1 = m\<lparr>m_last_no_stop := m_last_no_stop m1\<rparr>" by (rule should_stop_frame [OF s])
  then obtain x where m1: "m1 = m\<lparr>m_last_no_stop := x\<rparr>" by blast
  show ?thesis unfolding ending_decide_def s m1
    by (rule inv_same [OF inv]; cases b) (auto simp: d same_counts_def places_def live_state_def)
qed

lemma inv_ending_drain:
  assumes inv: "mt_inv m" and pcs: "mt_pcs m" and heap: "heap_ok heap" and d: "m_dispatcher m = DDrain e c now"
  shows "mt_inv (ending_drain heap answer later e c now m)"
proof -
  have dead: "\<not> live_state (m_state m)" using pcs d by (simp add: mt_pcs_def)
  have w: "tj_weak (m_check m)" "tj_weak (m_worker m)" using inv by (simp_all add: mt_inv_def)
  obtain r l where p: "tj_popFront (m_check m) = (r, l)" by (metis prod.exhaust)
  note pop = tj_popFront_weak [OF w(1) p]
  consider "tj_empty (m_check m) \<or> (\<exists>x. r = Inl x)"
    | j where "\<not> tj_empty (m_check m)" "r = Inr j" "(\<exists>err. answer = Inl err) \<or> (\<exists>a. answer = Inr a \<and> sc_type a \<noteq> READY)"
    | j a where "\<not> tj_empty (m_check m)" "r = Inr j" "answer = Inr a" "sc_type a = READY"
    by (cases r; cases answer) auto
  then show ?thesis
  proof cases
    case 1
    then have m': "ending_drain heap answer later e c now m = m\<lparr>m_dispatcher := DWaitWorkers e c now\<rparr>"
      using p pop by (auto simp: ending_drain_def)
    show ?thesis unfolding m' by (rule inv_same [OF inv]) (simp_all add: d same_counts_def places_def)
  next
    case 2
    let ?m = "ending_drain heap answer later e c now m"
    have "?m = m\<lparr>m_check := l, m_error := m_error ?m, m_dispatcher := m_dispatcher ?m\<rparr> \<and>
        (m_dispatcher ?m = m_dispatcher m \<or> m_dispatcher ?m = DPut e c now)"
      using p 2 by (auto simp: ending_drain_def)
    then obtain err d' where m': "?m = m\<lparr>m_check := l, m_error := err, m_dispatcher := d'\<rparr>"
        "d_holds d' = d_holds (DDrain e c now)"
      using d by (metis d_holds.simps(4,7))
    show ?thesis unfolding m'(1) using pop w dead 2(2)
      by (intro mt_inv_move [OF inv]) (simp_all add: d m'(2) same_counts_def places_def)
  next
    case 3
    then have m': "ending_drain heap answer later e c now m = insert_worker heap j later (m\<lparr>m_check := l\<rparr>)"
      using p by (simp add: ending_drain_def)
    have "places (insert_worker heap j later (m\<lparr>m_check := l\<rparr>)) \<subseteq># places m"
      using insert_sub [OF w(2) heap, of j later kMaxSlipNs 1] pop 3(2)
      by (simp add: places_def)
    then show ?thesis unfolding m' using pop w dead tj_insert_weak [OF w(2) heap, of j later kMaxSlipNs 1] 3(2)
      by (intro mt_inv_move [OF inv]) (simp_all add: same_counts_def)
  qed
qed

lemma inv_ending_workers:
  assumes inv: "mt_inv m" and d: "m_dispatcher m = DWaitWorkers e c now"
  shows "mt_inv (ending_workers e c now m)"
proof -
  have "mt_inv ((mt_stopAllJobs m)\<lparr>m_dispatcher := DPut e c now\<rparr>)"
  proof -
    have eq: "(mt_stopAllJobs m)\<lparr>m_dispatcher := DPut e c now\<rparr> = mt_stopAllJobs (m\<lparr>m_dispatcher := DPut e c now\<rparr>)"
      by (simp add: mt_stopAllJobs_def)
    have "places (m\<lparr>m_dispatcher := DPut e c now\<rparr>) = places m" by (simp add: places_def d)
    then show ?thesis unfolding eq
      using places_stop [of "m\<lparr>m_dispatcher := DPut e c now\<rparr>"] by (intro inv_stop [OF inv]) (simp_all add: same_counts_def)
  qed
  then show ?thesis using inv by (simp add: ending_workers_def)
qed

lemma inv_ending_duration:
  assumes inv: "mt_inv m" and d: "m_dispatcher m = DDuration e c now"
  shows "mt_inv (ending_duration cfg later e c now m)"
proof -
  have pl: "places (m\<lparr>m_dispatcher := DPut e c now\<rparr>) = places m" by (simp add: places_def d)
  have "mt_inv (m\<lparr>m_dispatcher := DPut e c now\<rparr>)"
    by (rule inv_same [OF inv]) (simp_all add: same_counts_def pl)
  moreover have "mt_inv ((mt_stopAllJobs m)\<lparr>m_dispatcher := DPut e c now\<rparr>)"
  proof -
    have eq: "(mt_stopAllJobs m)\<lparr>m_dispatcher := DPut e c now\<rparr> = mt_stopAllJobs (m\<lparr>m_dispatcher := DPut e c now\<rparr>)"
      by (simp add: mt_stopAllJobs_def)
    show ?thesis unfolding eq using places_stop [of "m\<lparr>m_dispatcher := DPut e c now\<rparr>"] pl
      by (intro inv_stop [OF inv]) (simp_all add: same_counts_def)
  qed
  ultimately show ?thesis by (simp add: ending_duration_def split: option.splits)
qed

lemma inv_dispatch_put:
  assumes inv: "mt_inv m" and heap: "heap_ok heap" and d: "m_dispatcher m = DPut e c now"
  shows "mt_inv (dispatch_put cfg heap e c now m)"
proof -
  let ?r = "mset (m_waiting m) + ws_holds (m_workers m) + a_holds (m_async m)"
  have worker: "mt_inv ((insert_worker heap e t m)\<lparr>m_dispatcher := DIdle\<rparr>)" if "sc_type c \<noteq> NEVER" for t
    by (rule inv_put_worker [OF inv heap, where r = "mset (tj_jobs (m_check m)) + ?r"])
      (use that in \<open>simp_all add: d same_counts_def places_def\<close>)
  have check: "mt_inv ((insert_check heap e t m)\<lparr>m_dispatcher := DIdle\<rparr>)" if "sc_type c \<noteq> NEVER" for t
    by (rule inv_put_check [OF inv heap, where r = "mset (tj_jobs (m_worker m)) + ?r"])
      (use that in \<open>simp_all add: d same_counts_def places_def\<close>)
  have waiting: "mt_inv (m\<lparr>m_waiting := el_pushEvent e (m_waiting m), m_dispatcher := DIdle\<rparr>)" if "sc_type c \<noteq> NEVER"
    by (rule inv_same [OF inv]) (use that in \<open>simp_all add: d same_counts_def places_def el_pushEvent_def\<close>)
  have never: "mt_inv (m\<lparr>m_dispatcher := DIdle\<rparr>)" if "sc_type c = NEVER"
    by (rule inv_same [OF inv]) (use that in \<open>simp_all add: d same_counts_def places_def\<close>)
  show ?thesis using worker check waiting never
    by (cases "sc_type c") (simp_all add: dispatch_put_def)
qed

lemma inv_worker_wait:
  assumes inv: "mt_inv m" and i: "i < length (m_workers m)" "m_workers m ! i = (p, t, WIdle)"
  shows "mt_inv (worker_wait i now m)"
proof -
  obtain r l where l: "tj_wait_pass now (m_worker m) = (r, l)" by (metis prod.exhaust)
  have "tj_weak (m_worker m)" using inv by (simp add: mt_inv_def)
  note pass = tj_pass_weak [OF this l]
  have w: "ws_holds (m_workers (set_worker i pc (m\<lparr>m_worker := l\<rparr>))) = ws_holds (m_workers m) + w_holds pc" for pc
    using set_worker_holds [of i "m\<lparr>m_worker := l\<rparr>" p t WIdle pc] i by simp
  show ?thesis by (rule inv_pass_worker [OF inv l])
    (use pass l w in \<open>auto simp: worker_wait_def same_counts_def places_def split: wait_result.splits\<close>)
qed

lemma inv_set_worker:
  assumes inv: "mt_inv m" and i: "i < length (m_workers m)" "m_workers m ! i = (p, t, pc)" "w_holds pc' = w_holds pc"
  shows "mt_inv (set_worker i pc' m)"
  by (rule inv_same [OF inv]) (simp_all add: same_counts_def set_worker_same [OF i])

lemma inv_worker_got:
  assumes inv: "mt_inv m" and i: "i < length (m_workers m)" "m_workers m ! i = (p, t, WGot e)"
  shows "mt_inv (worker_got cfg i now e m)"
proof -
  have "mt_inv (m\<lparr>m_unschedule := u\<rparr>)" for u by (rule inv_same [OF inv]) (simp_all add: same_counts_def places_def)
  then have "mt_inv (set_worker i (WUnschedule e) (m\<lparr>m_unschedule := u\<rparr>))" for u
    using i by (intro inv_set_worker [of _ i p t "WGot e"]) simp_all
  moreover have "mt_inv (set_worker i (WExecute e now) m)" "mt_inv (set_worker i (WDone e) m)"
    using i by (auto intro: inv_set_worker [OF inv])
  ultimately show ?thesis using i by (simp add: worker_got_def Let_def)
qed

lemma inv_worker_unschedule:
  assumes inv: "mt_inv m" and i: "i < length (m_workers m)" "m_workers m ! i = (p, t, WUnschedule e)"
  shows "mt_inv (worker_unschedule heap i now e m)"
proof -
  obtain r where "ws_holds (m_workers m) = {#e#} + r" using ws_holds_mem [OF i] by auto
  then have e: "e \<in># places m" by (simp add: places_def)
  then obtain prev where prev: "m_conditions m e = Some prev" using inv by (auto simp: mt_inv_def)
  have "counters_ok m" using inv by (simp add: mt_inv_def)
  note u = update_known [OF this prev, of heap now "cond NEVER 0"]
  have "ws_holds (m_workers (worker_unschedule heap i now e m)) + {#e#} = ws_holds (m_workers m)"
    using set_worker_holds [of i "mt_updateCondition heap now e (cond NEVER 0) m" p t "WUnschedule e" WIdle] i u(8)
    by (simp add: worker_unschedule_def)
  then have "places m = add_mset e (places (worker_unschedule heap i now e m))"
    by (simp add: places_def worker_unschedule_def u(4-10))
  then show ?thesis using u
    by (intro inv_update [OF inv e, of heap now "cond NEVER 0"]) (auto simp: worker_unschedule_def same_counts_def)
qed

lemma inv_worker_executed:
  assumes inv: "mt_inv m" and i: "i < length (m_workers m)" "m_workers m ! i = (p, t, WExecute e now)"
  shows "mt_inv (worker_executed i answer e m)"
proof (cases answer)
  case (Inl err)
  have eq: "worker_executed i answer e m = mt_stopAllJobs (set_worker i WExit (m\<lparr>m_error := err\<rparr>))"
    by (simp add: worker_executed_def Inl mt_stopAllJobs_def set_worker_def)
  have "ws_holds (m_workers m) = add_mset e (ws_holds (m_workers (set_worker i WExit (m\<lparr>m_error := err\<rparr>))))"
    using set_worker_holds [of i "m\<lparr>m_error := err\<rparr>" p t "WExecute e now" WExit] i by simp
  then have "places (set_worker i WExit (m\<lparr>m_error := err\<rparr>)) \<subseteq># places m"
    by (simp add: places_def)
  from subset_mset.order_trans [OF places_stop this] show ?thesis unfolding eq
    by (intro inv_stop [OF inv]) (simp_all add: same_counts_def)
next
  case (Inr c)
  then show ?thesis using inv_set_worker [OF inv i, of "WDone e"] by (simp add: worker_executed_def)
qed

lemma inv_worker_done:
  assumes inv: "mt_inv m" and pcs: "mt_pcs m" and heap: "heap_ok heap"
    and i: "i < length (m_workers m)" "m_workers m ! i = (p, t, WDone e)"
  shows "mt_inv (worker_done heap i now e m)"
proof -
  have w: "ws_holds (m_workers m) = add_mset e (ws_holds (m_workers (set_worker i WIdle m')))"
    if "m_workers m' = m_workers m" for m'
    using set_worker_holds [of i m' p t "WDone e" WIdle] i that by simp
  show ?thesis
  proof (cases "m_state m = kRunning")
    case True
    have "mt_inv (set_worker i WIdle (insert_check heap e now m))"
      by (rule inv_put_check [OF inv heap, where r = "mset (tj_jobs (m_worker m)) + mset (m_waiting m) + d_holds (m_dispatcher m) +
          ws_holds (m_workers (set_worker i WIdle (insert_check heap e now m))) + a_holds (m_async m)"])
        (simp_all add: same_counts_def places_def w [of "insert_check heap e now m"])
    then show ?thesis using True by (simp add: worker_done_def)
  next
    case False
    have "places (set_worker i WIdle m) \<subseteq># places m" by (simp add: places_def w [of m])
    moreover have "tj_weak (m_check m)" "tj_weak (m_worker m)" using inv by (simp_all add: mt_inv_def)
    moreover have "m_dispatcher m \<noteq> DNotStarted" by (rule worker_started [OF pcs i]) simp
    then have "\<not> live_state (m_state m)" using pcs False by (simp add: mt_pcs_def live_state_def)
    ultimately have "mt_inv (set_worker i WIdle m)"
      by (intro mt_inv_move [OF inv]) (simp_all add: same_counts_def)
    then show ?thesis using False by (simp add: worker_done_def)
  qed
qed

lemma inv_async:
  assumes inv: "mt_inv m" and heap: "heap_ok heap"
  shows "m_async m = AIdle \<Longrightarrow> mt_inv (async_next m)"
    "m_async m = AScan es \<Longrightarrow> mt_inv (async_scan es m)"
    "m_async m = AMove e es \<Longrightarrow> mt_inv (async_move e es m)"
    "m_async m = AInsert e es \<Longrightarrow> mt_inv (async_insert heap now e es m)"
    "m_async m = AWait \<Longrightarrow> mt_inv (async_wake m)"
proof -
  have same: "mt_inv (m\<lparr>m_notified := n, m_async := a\<rparr>)" if "a_holds a = a_holds (m_async m)" for a n
    by (rule inv_same [OF inv]) (simp_all add: same_counts_def places_def that)
  show "m_async m = AIdle \<Longrightarrow> mt_inv (async_next m)"
    using same [of "if m_state m \<noteq> kRunning then AExit else AScan (m_notified m)" "m_notified m"] by (simp add: async_next_def)
  show "m_async m = AMove e es \<Longrightarrow> mt_inv (async_move e es m)"
    using same [of "AInsert e es"] by (simp add: async_move_def)
  show "m_async m = AWait \<Longrightarrow> mt_inv (async_wake m)"
    using inv same [of AIdle "m_notified m"] by (simp add: async_wake_def)
  show "mt_inv (async_insert heap now e es m)" if "m_async m = AInsert e es"
    unfolding async_insert_def
    by (rule inv_put_check [OF inv heap, where r = "mset (tj_jobs (m_worker m)) + mset (m_waiting m) +
        d_holds (m_dispatcher m) + ws_holds (m_workers m)"]) (use that in \<open>simp_all add: same_counts_def places_def\<close>)
  show "mt_inv (async_scan es m)" if a: "m_async m = AScan es"
  proof (cases es)
    case Nil
    then show ?thesis using same [of AWait "m_notified m"] a by simp
  next
    case (Cons f fs)
    show ?thesis
    proof (cases "f \<in> set (m_waiting m)")
      case True
      have "count (mset (m_waiting m)) f \<le> count (places m) f" by (simp add: places_def)
      then have "count (mset (m_waiting m)) f \<le> 1" using inv unfolding mt_inv_def by (meson order_trans)
      from removeAll_once [OF True this] have pl: "mset (m_waiting m) = add_mset f (mset (removeAll f (m_waiting m)))" .
      have "mt_inv (m\<lparr>m_waiting := removeAll f (m_waiting m), m_async := AMove f fs\<rparr>)"
        by (rule inv_same [OF inv]) (simp_all add: same_counts_def places_def a pl)
      then show ?thesis using Cons True by simp
    next
      case False
      then show ?thesis using Cons same [of "AScan fs" "m_notified m"] a by simp
    qed
  qed
qed

lemma inv_dispatch_rest:
  assumes inv: "mt_inv m"
  shows "m_dispatcher m = DIdle \<Longrightarrow> mt_inv (dispatch_next m)" "m_dispatcher m = DLeave \<Longrightarrow> mt_inv (dispatch_leave m)"
proof -
  show "m_dispatcher m = DIdle \<Longrightarrow> mt_inv (dispatch_next m)"
    by (rule inv_same [OF inv]) (simp_all add: dispatch_next_def same_counts_def places_def)
  have "mt_inv (m\<lparr>m_state := kStopped, m_dispatcher := DDone\<rparr>)" if "m_dispatcher m = DLeave"
    by (rule inv_same [OF inv]) (simp_all add: same_counts_def places_def live_state_def that)
  then show "m_dispatcher m = DLeave \<Longrightarrow> mt_inv (dispatch_leave m)" using inv by (simp add: dispatch_leave_def)
qed

lemma step_inv:
  assumes step: "mt_step cfg heap m m'" and inv: "mt_inv m" and pcs: "mt_pcs m" and heap: "heap_ok heap"
  shows "mt_inv m'"
  using step
proof cases
  case (schedule shared codelets now eid)
  then show ?thesis using inv_schedule [OF inv heap] by simp
next
  case (prepare thread_of eid)
  then have "m' = m\<lparr>m_resources := m_resources (mt_prepare cfg thread_of eid m)\<rparr>" using prepare_frame by simp
  then show ?thesis by (intro inv_same [OF inv]) (simp_all add: same_counts_def places_def)
next
  case (unschedule shared codelets eid)
  then have "m' = m\<lparr>m_unschedule := m_unschedule m'\<rparr>" by (auto simp: mt_unschedule_def split: sum.splits)
  then obtain u where "m' = m\<lparr>m_unschedule := u\<rparr>" by blast
  then show ?thesis by (intro inv_same [OF inv]) (simp_all add: same_counts_def places_def)
next
  case (notify eid event)
  then have "m' = m\<lparr>m_notified := m_notified m'\<rparr>" by (auto simp: mt_event_notify_def)
  then obtain u where "m' = m\<lparr>m_notified := u\<rparr>" by blast
  then show ?thesis by (intro inv_same [OF inv]) (simp_all add: same_counts_def places_def)
next
  case stop
  then show ?thesis using inv_stop [OF inv _ _ _ places_stop] by (simp add: same_counts_def)
qed (use inv inv_run [OF inv pcs] inv_dispatch_rest [OF inv] inv_dispatch_wait [OF inv] inv_dispatch_check [OF inv] inv_dispatch_update [OF inv]
    inv_ending_decide [OF inv] inv_ending_drain [OF inv pcs heap] inv_ending_workers [OF inv] inv_ending_duration [OF inv]
    inv_dispatch_put [OF inv heap] inv_worker_wait [OF inv] inv_worker_got [OF inv] inv_worker_unschedule [OF inv]
    inv_worker_executed [OF inv] inv_worker_done [OF inv pcs heap] inv_async [OF inv heap] in auto)

lemma updateCondition_sel [simp]:
  "m_state (mt_updateCondition heap now e c m) = m_state m"
  "m_dispatcher (mt_updateCondition heap now e c m) = m_dispatcher m"
  "m_workers (mt_updateCondition heap now e c m) = m_workers m"
  "m_async (mt_updateCondition heap now e c m) = m_async m"
  by (simp_all add: mt_updateCondition_def Let_def insert_check_def split: option.splits)

lemma step_pcs:
  assumes step: "mt_step cfg heap m m'" and pcs: "mt_pcs m"
  shows "mt_pcs m'"
proof -
  have w: "mt_pcs m2" if "i < length (m_workers m)" "m_workers m ! i = (p, t, pc)" "pc \<noteq> WNotStarted"
      "m_dispatcher m2 = m_dispatcher m" "live_state (m_state m2) \<Longrightarrow> m_state m2 = m_state m" for i p t pc m2
    by (rule pcs_worker [OF pcs worker_started [OF pcs that(1-3)] that(4,5)])
  have a: "mt_pcs m2" if "m_async m \<noteq> ANotStarted" "m_dispatcher m2 = m_dispatcher m" "m_state m2 = m_state m" for m2
    using pcs that by (auto simp: mt_pcs_def split: dispatcher_pc.splits)
  have same: "mt_pcs m2" if "m_dispatcher m2 = m_dispatcher m" "m_state m2 = m_state m" "m_async m2 = m_async m"
      "m_workers m2 = m_workers m" for m2
    using pcs that by (auto simp: mt_pcs_def split: dispatcher_pc.splits)
  from step show ?thesis
  proof cases
    case (schedule shared codelets now eid)
    then show ?thesis by (intro same) (simp_all add: mt_schedule_def split: sum.splits)
  next
    case (prepare thread_of eid)
    then have "m' = m\<lparr>m_resources := m_resources (mt_prepare cfg thread_of eid m)\<rparr>" using prepare_frame by simp
    then show ?thesis by (intro same) simp_all
  next
    case (unschedule shared codelets eid)
    then show ?thesis by (intro same) (simp_all add: mt_unschedule_def split: sum.splits)
  next
    case (notify eid event)
    then show ?thesis by (intro same) (simp_all add: mt_event_notify_def)
  next
    case stop
    then show ?thesis using pcs by (auto simp: mt_pcs_def mt_stopAllJobs_def live_state_def split: dispatcher_pc.splits)
  next
    case (run clock executor worker_threads now)
    then show ?thesis using pcs by (auto simp: mt_runAsync_def mt_pcs_def)
  next
    case (d_ending e c now later)
    obtain b m1 where s: "mt_should_stop cfg later m = (b, m1)" by (metis prod.exhaust)
    have "m_state m1 = m_state m" by (subst should_stop_frame [OF s]) simp
    then show ?thesis using d_ending pcs by (auto simp: mt_pcs_def ending_decide_def s live_state_def)
  next
    case (d_drain e c now answer later)
    then show ?thesis using pcs
      by (auto simp: mt_pcs_def ending_drain_def Let_def live_state_def split: sum.splits prod.splits)
  next
    case (w_wait i p t now)
    then show ?thesis by (intro w [of i p t WIdle]) (auto simp: worker_wait_def split: wait_result.splits prod.splits)
  next
    case (w_got i p t e now)
    then show ?thesis by (intro w [of i p t "WGot e"]) (auto simp: worker_got_def Let_def)
  next
    case (w_unschedule i p t e now)
    then show ?thesis by (intro w [of i p t "WUnschedule e"]) (auto simp: worker_unschedule_def)
  next
    case (w_executed i p t e now answer)
    then show ?thesis
      by (intro w [of i p t "WExecute e now"]) (auto simp: worker_executed_def mt_stopAllJobs_def live_state_def split: sum.splits)
  next
    case (w_done i p t e now)
    then show ?thesis by (intro w [of i p t "WDone e"]) (auto simp: worker_done_def)
  next
    case (a_scan es)
    then show ?thesis by (intro a) (cases es; auto)+
  next
    case (a_insert e es now)
    then show ?thesis by (intro a) (auto simp: async_insert_def)
  qed (use pcs in \<open>auto simp: mt_pcs_def dispatch_next_def dispatch_wait_def dispatch_check_def dispatch_update_def
      ending_workers_def ending_duration_def dispatch_put_def dispatch_leave_def async_next_def async_move_def async_wake_def
      mt_stopAllJobs_def live_state_def
      split: wait_result.splits sum.splits prod.splits option.splits SchedulingConditionType.splits dispatcher_pc.splits\<close>)
qed

lemma mt_reach_inv:
  assumes "mt_reach cfg heap (mt_fresh n added) m" "heap_ok heap"
  shows "mt_inv m \<and> mt_pcs m"
proof -
  have "mt_pcs (mt_fresh n added)" by (auto simp: mt_pcs_def mt_fresh_def mt_initialize_def)
  then have "mt_inv (mt_fresh n added) \<and> mt_pcs (mt_fresh n added)" using mt_inv_fresh by blast
  with assms(1) show ?thesis unfolding mt_reach_def
    by (induction rule: rtranclp_induct) (use step_inv step_pcs assms(2) in blast)+
qed

text \<open>Two workers, or a worker and another place, with the same entity.\<close>

lemma two_workers:
  assumes "i < length ws" "j < length ws" "i < j" "ws ! i = (p, t, a)" "ws ! j = (q, u, b)" "e \<in># w_holds a" "e \<in># w_holds b"
  shows "2 \<le> count (ws_holds ws) e"
  using assms
proof (induction ws arbitrary: i j)
  case (Cons w ws)
  show ?case
  proof (cases i)
    case 0
    obtain r where "ws_holds ws = w_holds b + r" using ws_holds_mem [of "j - 1" ws q u b] Cons.prems 0 by (cases j) auto
    then have "count (ws_holds (w # ws)) e = count (w_holds a) e + count (w_holds b) e + count r e"
      using Cons.prems(4) 0 by (simp add: ws_holds_def)
    moreover have "1 \<le> count (w_holds a) e" "1 \<le> count (w_holds b) e" using Cons.prems(6,7) by (simp_all add: Suc_le_eq)
    ultimately show ?thesis by linarith
  next
    case (Suc k)
    then have "2 \<le> count (ws_holds ws) e" using Cons.IH [of k "j - 1"] Cons.prems by (cases j) auto
    then show ?thesis by (cases w) (simp add: ws_holds_def)
  qed
qed simp

lemma once_workers:
  assumes inv: "mt_inv m" and i: "i < length (m_workers m)" "m_workers m ! i = (p, t, a)" "e \<in># w_holds a"
  shows "j < length (m_workers m) \<Longrightarrow> m_workers m ! j = (q, u, b) \<Longrightarrow> e \<in># w_holds b \<Longrightarrow> i = j"
    "e \<notin># mset (tj_jobs (m_check m)) + mset (tj_jobs (m_worker m)) + mset (m_waiting m) + d_holds (m_dispatcher m) + a_holds (m_async m)"
proof -
  have once: "count (places m) e \<le> 1" using inv by (simp add: mt_inv_def)
  have w: "count (ws_holds (m_workers m)) e \<le> count (places m) e" by (simp add: places_def)
  show "i = j" if j: "j < length (m_workers m)" "m_workers m ! j = (q, u, b)" "e \<in># w_holds b"
  proof (rule ccontr)
    assume "i \<noteq> j"
    then have "2 \<le> count (ws_holds (m_workers m)) e"
      using two_workers [OF i(1) j(1) _ i(2) j(2) i(3) j(3)] two_workers [OF j(1) i(1) _ j(2) i(2) j(3) i(3)]
      by (cases "i < j") auto
    then show False using once w by linarith
  qed
  obtain r where "ws_holds (m_workers m) = w_holds a + r" using ws_holds_mem [OF i(1,2)] by blast
  then have "count (ws_holds (m_workers m)) e = count (w_holds a) e + count r e" by simp
  moreover have "1 \<le> count (w_holds a) e" using i(3) by (simp add: Suc_le_eq)
  ultimately have "1 \<le> count (ws_holds (m_workers m)) e" by linarith
  moreover have "count (places m) e = count (ws_holds (m_workers m)) e + count (mset (tj_jobs (m_check m)) +
      mset (tj_jobs (m_worker m)) + mset (m_waiting m) + d_holds (m_dispatcher m) + a_holds (m_async m)) e"
    by (simp add: places_def)
  ultimately have "count (mset (tj_jobs (m_check m)) +
      mset (tj_jobs (m_worker m)) + mset (m_waiting m) + d_holds (m_dispatcher m) + a_holds (m_async m)) e = 0"
    using once by linarith
  then show "e \<notin># mset (tj_jobs (m_check m)) + mset (tj_jobs (m_worker m)) + mset (m_waiting m) + d_holds (m_dispatcher m) + a_holds (m_async m)"
    by (simp only: not_in_iff)
qed

text \<open>C25: In every interleaving of the dispatcher, the workers, the thread for events and calls from
  outside, an entity that a worker executes is with this worker only: no other worker executes it, the
  dispatcher does not check it, it is in none of the lists, and its condition is known.\<close>
theorem mts_no_double_execution:
  assumes reach: "mt_reach cfg heap (mt_fresh n added) m" and heap: "heap_ok heap"
    and i: "i < length (m_workers m)" "m_workers m ! i = (p, t, WExecute e k)"
  shows "(\<forall>j < length (m_workers m). \<forall>q u l. m_workers m ! j = (q, u, WExecute e l) \<longrightarrow> j = i) \<and>
    m_dispatcher m \<noteq> DGot e \<and> e \<notin> set (tj_jobs (m_check m)) \<and> e \<notin> set (tj_jobs (m_worker m)) \<and>
    e \<notin> set (m_waiting m) \<and> m_conditions m e \<noteq> None"
proof -
  have inv: "mt_inv m" using mt_reach_inv [OF reach heap] by blast
  have e: "e \<in># w_holds (WExecute e k)" by simp
  have "e \<in># places m" using ws_holds_mem [OF i] by (auto simp: places_def)
  then have "m_conditions m e \<noteq> None" using inv by (auto simp: mt_inv_def)
  moreover have "j = i" if "j < length (m_workers m)" "m_workers m ! j = (q, u, WExecute e l)" for j q u l
    using once_workers(1) [OF inv i e that] by simp
  ultimately show ?thesis using once_workers(2) [OF inv i e] by auto
qed


text \<open>A request to unschedule an entity that is not scheduled stays in the list: when the entity is
  scheduled later, the dispatcher drops it at its first check and it never executes.\<close>

lemma stale_unschedule_drops:
  assumes "m_conditions m e = None" "0 < n"
  shows "\<exists>m1. m_unschedule (snd (mt_schedule heap Success (Inr n) now e (snd (mt_unschedule Success (Inr n) e m)))) = m_unschedule m @ [e] \<and>
    dispatch_check not_started answer later e
      (snd (mt_schedule heap Success (Inr n) now e (snd (mt_unschedule Success (Inr n) e m)))) = m1 \<and>
    m_dispatcher m1 = DDecided e (cond NEVER 0) later \<and>
    m_conditions (dispatch_update heap later e (cond NEVER 0) later m1) e = None"
  using assms
  by (simp add: mt_schedule_def mt_unschedule_def mt_updateCondition_def insert_check_def el_pushEvent_def dispatch_check_def
      dispatch_update_def)

text \<open>An entity that was just scheduled can be handed to any worker until the map of resources has been
  prepared.\<close>

lemma unpinned_window:
  "m_resources m e = None \<Longrightarrow> isJobMatch pool thread e (snd (mt_schedule heap Success (Inr n) now e m))"
  by (auto simp: isJobMatch_def mt_schedule_def mt_updateCondition_def insert_check_def Let_def split: option.splits)

section \<open>A run\<close>

text \<open>One worker; the entity 5 is scheduled before the start, checked, handed to the worker and
  executed.\<close>

definition demo_config :: mt_config where
  "demo_config = \<lparr>c_stop_on_deadlock = True, c_timeout = 0, c_max_duration = None, c_recession = 0, c_strict = False\<rparr>"

definition demo_scheduled :: MultiThreadScheduler where
  "demo_scheduled = snd (mt_schedule item_sort Success (Inr 1) 0 5 (mt_fresh 1 []))"

definition demo_got :: MultiThreadScheduler where
  "demo_got = dispatch_wait 0 (dispatch_next (snd (mt_runAsync True False True 1 0 demo_scheduled)))"

definition demo_decided :: MultiThreadScheduler where
  "demo_decided = dispatch_update item_sort 0 5 (cond READY 0) 0 (dispatch_check True (Inr (cond WAIT 0)) 0 5 demo_got)"

definition demo_handed :: MultiThreadScheduler where
  "demo_handed = dispatch_put demo_config item_sort 5 (cond READY 0) 0
     (ending_duration demo_config 0 5 (cond READY 0) 0 (ending_decide demo_config 0 5 (cond READY 0) 0 demo_decided))"

definition demo_executing :: MultiThreadScheduler where
  "demo_executing = worker_got demo_config 0 0 5 (worker_wait 0 0 demo_handed)"

lemma demo_scheduled_eq:
  "demo_scheduled = \<lparr>m_conditions = [5 \<mapsto> cond READY 0], m_ready = 1, m_wait_time = 0, m_wait_event = 0, m_wait = 0,
     m_check = \<lparr>tj_queue = [\<lparr>it_job = 5, it_target = 0, it_slack = 1000000, it_priority = 0\<rparr>], tj_items = {5}, tj_pending = [], tj_running = False\<rparr>,
     m_worker = tj_new, m_unschedule = [], m_notified = [], m_waiting = [], m_state = kNotStarted, m_error = GXF_SUCCESS,
     m_last_no_stop = 0, m_start = 0, m_resources = Map.empty, m_dispatcher = DNotStarted, m_workers = [(0, 0, WNotStarted)],
     m_async = ANotStarted\<rparr>"
  by (simp add: demo_scheduled_def mt_fresh_def mt_initialize_def mt_schedule_def mt_updateCondition_def insert_check_def
      tj_insert_def tj_new_def item_sort_def kMaxSlipNs_def count_type_def)

lemma demo_got_eq:
  "demo_got = demo_scheduled\<lparr>m_check := tj_start tj_new, m_worker := tj_start tj_new, m_state := kRunning, m_dispatcher := DGot 5,
     m_async := AIdle, m_workers := [(0, 0, WIdle)]\<rparr>"
  by (simp add: demo_got_def demo_scheduled_eq mt_runAsync_def dispatch_next_def dispatch_wait_def tj_wait_pass_def tj_start_def
      tj_new_def kTimeFudge_def)

lemma demo_decided_eq: "demo_decided = demo_got\<lparr>m_dispatcher := DUpdated 5 (cond READY 0) 0\<rparr>"
  by (simp add: demo_decided_def demo_got_eq demo_scheduled_eq dispatch_check_def dispatch_update_def mt_updateCondition_def)

lemma demo_handed_eq: "demo_handed = demo_got\<lparr>m_dispatcher := DIdle, m_worker :=
    \<lparr>tj_queue = [\<lparr>it_job = 5, it_target = 0, it_slack = 1000000, it_priority = 1\<rparr>], tj_items = {5}, tj_pending = [], tj_running = True\<rparr>\<rparr>"
  by (simp add: demo_handed_def demo_decided_eq demo_got_eq demo_scheduled_eq ending_decide_def mt_should_stop_def
      mt_stop_on_deadlock_timeout_def demo_config_def ending_duration_def dispatch_put_def insert_worker_def tj_insert_def
      tj_start_def tj_new_def item_sort_def kMaxSlipNs_def)

lemma demo_executing_eq:
  "demo_executing = demo_got\<lparr>m_dispatcher := DIdle, m_workers := [(0, 0, WExecute 5 0)]\<rparr>"
  by (simp add: demo_executing_def demo_handed_eq demo_got_eq demo_scheduled_eq worker_wait_def worker_got_def tj_wait_pass_def
      kTimeFudge_def tj_start_def tj_new_def set_worker_def demo_config_def isJobMatch_def)

lemma mt_reach_step: "mt_reach cfg heap m0 m \<Longrightarrow> mt_step cfg heap m m' \<Longrightarrow> mt_reach cfg heap m0 m'"
  by (simp add: mt_reach_def)

lemma demo_mt_reach: "mt_reach demo_config item_sort (mt_fresh 1 []) demo_executing"
proof -
  note go = mt_reach_step [of demo_config item_sort "mt_fresh 1 []"]
  have "mt_reach demo_config item_sort (mt_fresh 1 []) (mt_fresh 1 [])" by (simp add: mt_reach_def)
  then have "mt_reach demo_config item_sort (mt_fresh 1 []) demo_scheduled"
    unfolding demo_scheduled_def by (rule go) (rule mt_step.schedule)
  then have "mt_reach demo_config item_sort (mt_fresh 1 []) (snd (mt_runAsync True False True 1 0 demo_scheduled))"
    by (rule go) (rule mt_step.run; simp add: demo_scheduled_eq)
  then have "mt_reach demo_config item_sort (mt_fresh 1 []) (dispatch_next (snd (mt_runAsync True False True 1 0 demo_scheduled)))"
    by (rule go) (rule mt_step.d_next; simp add: mt_runAsync_def)
  then have "mt_reach demo_config item_sort (mt_fresh 1 []) demo_got"
    unfolding demo_got_def by (rule go) (rule mt_step.d_wait; simp add: mt_runAsync_def dispatch_next_def)
  then have "mt_reach demo_config item_sort (mt_fresh 1 []) (dispatch_check True (Inr (cond WAIT 0)) 0 5 demo_got)"
    by (rule go) (rule mt_step.d_check; simp add: demo_got_eq)
  then have "mt_reach demo_config item_sort (mt_fresh 1 []) demo_decided"
    unfolding demo_decided_def by (rule go) (rule mt_step.d_update; simp add: dispatch_check_def demo_got_eq demo_scheduled_eq)
  then have "mt_reach demo_config item_sort (mt_fresh 1 []) (ending_decide demo_config 0 5 (cond READY 0) 0 demo_decided)"
    by (rule go) (rule mt_step.d_ending; simp add: demo_decided_eq)
  then have "mt_reach demo_config item_sort (mt_fresh 1 [])
      (ending_duration demo_config 0 5 (cond READY 0) 0 (ending_decide demo_config 0 5 (cond READY 0) 0 demo_decided))"
    by (rule go) (rule mt_step.d_duration; simp add: ending_decide_def mt_should_stop_def mt_stop_on_deadlock_timeout_def
      demo_decided_eq demo_got_eq demo_scheduled_eq demo_config_def)
  then have "mt_reach demo_config item_sort (mt_fresh 1 []) demo_handed"
    unfolding demo_handed_def by (rule go) (rule mt_step.d_put; simp add: ending_duration_def demo_config_def)
  then have "mt_reach demo_config item_sort (mt_fresh 1 []) (worker_wait 0 0 demo_handed)"
    by (rule go) (rule mt_step.w_wait; simp add: demo_handed_eq demo_got_eq)
  then show ?thesis
    unfolding demo_executing_def
    by (rule go) (rule mt_step.w_got; simp add: worker_wait_def demo_handed_eq demo_got_eq tj_wait_pass_def kTimeFudge_def set_worker_def)
qed

theorem mts_no_double_execution_witness:
  "m_workers demo_executing ! 0 = (0, 0, WExecute 5 0) \<and> m_dispatcher demo_executing \<noteq> DGot 5 \<and>
   5 \<notin> set (tj_jobs (m_check demo_executing)) \<and> m_conditions demo_executing 5 \<noteq> None"
proof -
  have w: "0 < length (m_workers demo_executing)" "m_workers demo_executing ! 0 = (0, 0, WExecute 5 0)"
    by (simp_all add: demo_executing_eq)
  from mts_no_double_execution [OF demo_mt_reach heap_ok_item_sort w] w(2) show ?thesis by blast
qed


text \<open>When the condition of a job that is still to be checked cannot be determined while the scheduler
  stops, checkEndingCriteria returns without stopping the lists: the workers wait for jobs for ever and
  the dispatcher, which waits for the workers, never ends, unless another thread calls stop.\<close>

definition stuck :: "MultiThreadScheduler \<Rightarrow> bool" where
  "stuck m \<longleftrightarrow> m_state m = kStopping \<and> tj_running (m_worker m) \<and> tj_empty (m_worker m) \<and> m_workers m \<noteq> [] \<and>
     (\<forall>(_, _, pc) \<in> set (m_workers m). pc = WIdle) \<and> m_dispatcher m = DLeave"

lemma drain_error_leaves:
  assumes "m_dispatcher m = DDrain e c now" "m_state m = kStopping" "\<not> tj_empty (m_check m)"
    "tj_running (m_worker m)" "tj_empty (m_worker m)" "m_workers m \<noteq> []" "\<forall>(_, _, pc) \<in> set (m_workers m). pc = WIdle"
    "sc_type c = NEVER"
  shows "stuck (dispatch_next (dispatch_put cfg heap e c now (ending_drain heap (Inl err) later e c now m)))"
proof -
  obtain d l where "tj_popFront (m_check m) = (Inr d, l)"
    using assms(3) by (cases "tj_pending (m_check m)"; cases "tj_queue (m_check m)") (auto simp: tj_popFront_def tj_empty_def)
  then show ?thesis using assms
    by (simp add: stuck_def dispatch_next_def dispatch_put_def ending_drain_def)
qed

lemma stuck_forever:
  assumes step: "mt_step cfg heap m m'" and st: "stuck m"
  shows "stuck m' \<or> m' = mt_stopAllJobs m"
proof -
  have same: "stuck m2" if "m_state m2 = m_state m" "m_worker m2 = m_worker m" "m_workers m2 = m_workers m"
      "m_dispatcher m2 = m_dispatcher m" for m2
    using st that by (simp add: stuck_def)
  have idle: "pc = WIdle" if "i < length (m_workers m)" "m_workers m ! i = (p, t, pc)" for i p t pc
    using st nth_mem [OF that(1)] that(2) by (auto simp: stuck_def)
  have d: "m_dispatcher m = DLeave" "\<exists>w\<in>set (m_workers m). snd (snd w) = WIdle"
    using st by (auto simp: stuck_def neq_Nil_conv)
  from step show ?thesis
  proof cases
    case (schedule shared codelets now eid)
    then show ?thesis
      by (intro disjI1 same) (simp_all add: mt_schedule_def mt_updateCondition_def Let_def split: sum.splits option.splits)
  next
    case (prepare thread_of eid)
    then have "m' = m\<lparr>m_resources := m_resources (mt_prepare cfg thread_of eid m)\<rparr>" using prepare_frame by simp
    then show ?thesis by (intro disjI1 same) simp_all
  next
    case (unschedule shared codelets eid)
    then show ?thesis by (intro disjI1 same) (simp_all add: mt_unschedule_def split: sum.splits)
  next
    case (notify eid event)
    then show ?thesis by (intro disjI1 same) (simp_all add: mt_event_notify_def)
  next
    case d_leave
    have "\<not> (\<forall>(_, _, pc) \<in> set (m_workers m). pc = WExit)" using d(2) by force
    then have "m' = m" using d_leave(1) unfolding dispatch_leave_def by presburger
    then show ?thesis using st by simp
  next
    case (w_wait i p t now)
    have "tj_wait_pass now (m_worker m) = (Sleep None, m_worker m)"
      using st by (simp add: stuck_def tj_wait_pass_def tj_empty_def)
    then show ?thesis using w_wait by (intro disjI1 same) (simp_all add: worker_wait_def)
  next
    case (a_scan es)
    then show ?thesis by (intro disjI1 same) (cases es; simp)+
  qed (use d idle in \<open>auto intro!: same simp: async_next_def async_move_def async_insert_def async_wake_def\<close>)
qed

end
