(* ===== verification/Greedy_Scheduler.thy ===== *)
theory Greedy_Scheduler
  imports Job_Lists Scheduling_Terms
begin

text \<open>
  gxf/std/greedy_scheduler.cpp: the single-threaded scheduler, which executes every active entity in
  every round of its loop, and the manual clock of gxf/std/clock.cpp.  The executor and the clock are
  calls on an arbitrary world.  Other threads, and the entities themselves, may call schedule,
  unschedule, event_notify and stop; such requests are taken from the world after each execution
  and while the scheduler waits for an event.
\<close>

section \<open>The manual clock\<close>

definition mc_initialize :: "int \<Rightarrow> gxf_result_t \<times> int" where
  "mc_initialize initial_timestamp = (GXF_SUCCESS, initial_timestamp)"

definition mc_timestamp :: "int \<Rightarrow> int" where
  "mc_timestamp current = current"

definition mc_sleepUntil :: "int \<Rightarrow> int \<Rightarrow> unit expected \<times> int" where
  "mc_sleepUntil target current = (if target < current then (Inl GXF_FAILURE, current) else (Success, target))"

definition mc_sleepFor :: "int \<Rightarrow> int \<Rightarrow> unit expected \<times> int" where
  "mc_sleepFor duration current = mc_sleepUntil (current + duration) current"

lemma mc_sleep_exact: "0 \<le> d \<Longrightarrow> mc_timestamp (snd (mc_sleepFor d c)) = mc_timestamp c + d"
  by (simp add: mc_sleepFor_def mc_sleepUntil_def mc_timestamp_def)

section \<open>State\<close>

text \<open>gs_mutexes: the entities with a mutex in entity_mutex_map_.\<close>

record GreedyScheduler =
  gs_active :: "gxf_uid_t list"
  gs_new :: "gxf_uid_t list"
  gs_unschedule :: "gxf_uid_t list"
  gs_notified :: "gxf_uid_t list"
  gs_waiting :: "gxf_uid_t list"
  gs_count_wait :: nat
  gs_mutexes :: "gxf_uid_t set"
  gs_stopping :: bool
  gs_error :: gxf_result_t
  gs_last_no_stop :: int

record greedy_config =
  gc_max_duration :: "int option"
  gc_stop_on_deadlock :: bool
  gc_recession :: int
  gc_timeout :: int

datatype request = Schedule gxf_uid_t | Unschedule gxf_uid_t | Notify gxf_uid_t | Stop

record 'w Host =
  h_execute :: "gxf_uid_t \<Rightarrow> int \<Rightarrow> 'w \<Rightarrow> SchedulingCondition expected \<times> 'w"
  h_deactivateAll :: "'w \<Rightarrow> gxf_result_t \<times> 'w"
  h_now :: "'w \<Rightarrow> int"
  h_sleep :: "int \<Rightarrow> 'w \<Rightarrow> 'w"
  h_requests :: "'w \<Rightarrow> request list \<times> 'w"

definition push_bounded :: "'a \<Rightarrow> 'a list \<Rightarrow> 'a list" where
  "push_bounded x xs = (if length xs < kMaxEntities then xs @ [x] else xs)"

definition gs_initialize :: "GreedyScheduler \<Rightarrow> gxf_result_t \<times> GreedyScheduler" where
  "gs_initialize g = (GXF_SUCCESS, g\<lparr>gs_waiting := [], gs_notified := [], gs_unschedule := []\<rparr>)"

definition gs_deinitialize :: "GreedyScheduler \<Rightarrow> gxf_result_t \<times> GreedyScheduler" where
  "gs_deinitialize g = (GXF_SUCCESS, g\<lparr>gs_waiting := [], gs_notified := [], gs_unschedule := [],
     gs_active := [], gs_new := [], gs_mutexes := {}\<rparr>)"

section \<open>Calls from outside\<close>

definition gs_schedule ::
  "unit expected \<Rightarrow> nat expected \<Rightarrow> gxf_uid_t \<Rightarrow> GreedyScheduler \<Rightarrow> gxf_result_t \<times> GreedyScheduler" where
  "gs_schedule shared codelets eid g = (case shared of
     Inl e \<Rightarrow> (e, g)
   | Inr _ \<Rightarrow>
       (case codelets of
          Inl e \<Rightarrow> (e, g)
        | Inr n \<Rightarrow>
            (if n = 0 then (GXF_SUCCESS, g)
             else if length (gs_new g) \<ge> kMaxEntities then (GXF_EXCEEDING_PREALLOCATED_SIZE, g)
             else (GXF_SUCCESS, g\<lparr>gs_new := gs_new g @ [eid], gs_mutexes := insert eid (gs_mutexes g)\<rparr>))))"

definition gs_unschedule_entity ::
  "unit expected \<Rightarrow> nat expected \<Rightarrow> gxf_uid_t \<Rightarrow> GreedyScheduler \<Rightarrow> gxf_result_t \<times> GreedyScheduler" where
  "gs_unschedule_entity shared codelets eid g = (case shared of
     Inl e \<Rightarrow> (e, g)
   | Inr _ \<Rightarrow>
       (case codelets of
          Inl e \<Rightarrow> (e, g)
        | Inr n \<Rightarrow>
            (if n = 0 then (GXF_SUCCESS, g)
             else if eid \<notin> gs_mutexes g then (GXF_SUCCESS, g)
             else (GXF_SUCCESS, g\<lparr>gs_unschedule := el_pushEvent eid (gs_unschedule g)\<rparr>))))"

definition gs_event_notify :: "gxf_uid_t \<Rightarrow> int \<Rightarrow> GreedyScheduler \<Rightarrow> gxf_result_t \<times> GreedyScheduler" where
  "gs_event_notify eid event g =
     (if event \<noteq> GXF_EVENT_EXTERNAL then (GXF_SUCCESS, g) else (GXF_SUCCESS, g\<lparr>gs_notified := el_pushEvent eid (gs_notified g)\<rparr>))"

definition gs_stop :: "GreedyScheduler \<Rightarrow> gxf_result_t \<times> GreedyScheduler" where
  "gs_stop g = (GXF_SUCCESS, g\<lparr>gs_stopping := True\<rparr>)"

text \<open>A request for an entity that exists and has a codelet.\<close>

fun serve :: "request \<Rightarrow> GreedyScheduler \<Rightarrow> GreedyScheduler" where
  "serve (Schedule e) g = snd (gs_schedule Success (Inr 1) e g)"
| "serve (Unschedule e) g = snd (gs_unschedule_entity Success (Inr 1) e g)"
| "serve (Notify e) g = snd (gs_event_notify e GXF_EVENT_EXTERNAL g)"
| "serve Stop g = snd (gs_stop g)"

definition absorb :: "'w Host \<Rightarrow> GreedyScheduler \<times> 'w \<Rightarrow> GreedyScheduler \<times> 'w" where
  "absorb h = (\<lambda>(g, w). let (rs, w1) = h_requests h w in (fold serve rs g, w1))"

section \<open>A round of the loop\<close>

datatype outcome = Continue | Leave | Blocked | Abort

definition load_new :: "GreedyScheduler \<Rightarrow> GreedyScheduler" where
  "load_new g = g\<lparr>gs_active := fold push_bounded (gs_new g) (gs_active g), gs_new := []\<rparr>"

definition give_up :: "'w Host \<Rightarrow> gxf_result_t \<Rightarrow> GreedyScheduler \<times> 'w \<Rightarrow> GreedyScheduler \<times> 'w" where
  "give_up h code = (\<lambda>(g, w). (g\<lparr>gs_error := code\<rparr>, snd (h_deactivateAll h w)))"

text \<open>What the loop over the active entities collects.\<close>

record visit =
  v_ready :: nat
  v_earliest :: "int option"
  v_remove :: "gxf_uid_t list"

definition visit0 :: visit where
  "visit0 = \<lparr>v_ready = 0, v_earliest = None, v_remove = []\<rparr>"

definition visit_remove ::
  "'w Host \<Rightarrow> gxf_uid_t \<Rightarrow> visit \<Rightarrow> GreedyScheduler \<times> 'w \<Rightarrow> outcome \<times> visit \<times> GreedyScheduler \<times> 'w" where
  "visit_remove h e v s =
     (if length (v_remove v) < kMaxEntities then (Continue, v\<lparr>v_remove := v_remove v @ [e]\<rparr>, s)
      else (Leave, v, give_up h GXF_EXCEEDING_PREALLOCATED_SIZE s))"

definition visit_condition ::
  "'w Host \<Rightarrow> gxf_uid_t \<Rightarrow> SchedulingCondition \<Rightarrow> visit \<Rightarrow> GreedyScheduler \<times> 'w \<Rightarrow> outcome \<times> visit \<times> GreedyScheduler \<times> 'w" where
  "visit_condition h e c v = (\<lambda>(g, w). case sc_type c of
     READY \<Rightarrow> (Continue, v\<lparr>v_ready := v_ready v + 1\<rparr>, g, w)
   | WAIT_TIME \<Rightarrow> (Continue, v\<lparr>v_earliest := Some (case v_earliest v of None \<Rightarrow> sc_target c | Some t \<Rightarrow> min t (sc_target c))\<rparr>, g, w)
   | WAIT \<Rightarrow> (Continue, v, g, w)
   | NEVER \<Rightarrow> visit_remove h e v (g, w)
   | WAIT_EVENT \<Rightarrow> visit_remove h e v
       (g\<lparr>gs_waiting := el_pushEvent e (gs_waiting g), gs_count_wait := gs_count_wait g + 1\<rparr>, w))"

definition visit_entity ::
  "'w Host \<Rightarrow> int \<Rightarrow> gxf_uid_t \<Rightarrow> visit \<Rightarrow> GreedyScheduler \<times> 'w \<Rightarrow> outcome \<times> visit \<times> GreedyScheduler \<times> 'w" where
  "visit_entity h now e v = (\<lambda>(g, w).
     if e \<notin> gs_mutexes g then (Abort, v, g, w)
     else if el_hasEvent e (gs_unschedule g) then visit_condition h e (cond NEVER 0) v (g, w)
     else case h_execute h e now w of
       (Inl err, w1) \<Rightarrow> (Leave, v, give_up h err (g, w1))
     | (Inr c, w1) \<Rightarrow> visit_condition h e c v (absorb h (g, w1)))"

fun visit_all ::
  "'w Host \<Rightarrow> int \<Rightarrow> gxf_uid_t list \<Rightarrow> visit \<Rightarrow> GreedyScheduler \<times> 'w \<Rightarrow> outcome \<times> visit \<times> GreedyScheduler \<times> 'w" where
  "visit_all h now [] v s = (Continue, v, s)"
| "visit_all h now (e # es) v s = (case visit_entity h now e v s of
     (Continue, v1, s1) \<Rightarrow> visit_all h now es v1 s1
   | r \<Rightarrow> r)"

text \<open>Erasing by index while the index advances: the element after an erased one is skipped.\<close>

fun gs_erase_skip :: "gxf_uid_t \<Rightarrow> gxf_uid_t list \<Rightarrow> gxf_uid_t list" where
  "gs_erase_skip e [] = []"
| "gs_erase_skip e (x # xs) =
     (if x = e then (case xs of [] \<Rightarrow> [] | y # ys \<Rightarrow> y # gs_erase_skip e ys) else x # gs_erase_skip e xs)"

fun drop_unscheduled :: "gxf_uid_t list \<Rightarrow> GreedyScheduler \<Rightarrow> GreedyScheduler" where
  "drop_unscheduled [] g = g\<lparr>gs_unschedule := []\<rparr>"
| "drop_unscheduled (e # es) g =
     drop_unscheduled es
       (g\<lparr>gs_active := gs_erase_skip e (gs_active g),
          gs_mutexes := (if e \<in> set (gs_active g) then gs_mutexes g - {e} else gs_mutexes g)\<rparr>)"

text \<open>The events that were notified; the result is None when the list of active entities is full.\<close>

fun wake_notified :: "gxf_uid_t list \<Rightarrow> nat \<Rightarrow> GreedyScheduler \<Rightarrow> nat option \<times> GreedyScheduler" where
  "wake_notified [] ready g = (Some ready, g)"
| "wake_notified (e # es) ready g =
     (if el_hasEvent e (gs_waiting g)
      then let g1 = g\<lparr>gs_notified := el_removeEvent e (gs_notified g), gs_waiting := el_removeEvent e (gs_waiting g)\<rparr> in
        if length (gs_active g1) \<ge> kMaxEntities then (None, g1)
        else wake_notified es (ready + 1)
          (g1\<lparr>gs_active := gs_active g1 @ [e], gs_count_wait := size_sub (gs_count_wait g1) 1\<rparr>)
      else wake_notified es ready g)"

definition gs_stop_on_deadlock_timeout :: "int \<Rightarrow> int \<Rightarrow> bool \<Rightarrow> GreedyScheduler \<Rightarrow> bool \<times> GreedyScheduler" where
  "gs_stop_on_deadlock_timeout timeout now should_stop g =
     (if timeout < 0 then (False, g)
      else if \<not> should_stop then (should_stop, g\<lparr>gs_last_no_stop := now\<rparr>)
      else if now - gs_last_no_stop g < timeout * 1000000 then (False, g)
      else (should_stop, g))"

text \<open>The end of a round in which no entity was ready.\<close>

definition check_deadlock :: "greedy_config \<Rightarrow> int \<Rightarrow> GreedyScheduler \<times> 'w \<Rightarrow> outcome \<times> GreedyScheduler \<times> 'w" where
  "check_deadlock cfg now = (\<lambda>(g, w).
     if gc_stop_on_deadlock cfg
     then (let (should_stop, g1) = gs_stop_on_deadlock_timeout (gc_timeout cfg) now True g
           in (if should_stop then Leave else Continue, g1, w))
     else (Continue, g, w))"

definition event_arrived :: "GreedyScheduler \<Rightarrow> bool" where
  "event_arrived g \<longleftrightarrow> \<not> el_empty (gs_notified g) \<or> gs_stopping g"

definition idle_round ::
  "greedy_config \<Rightarrow> 'w Host \<Rightarrow> int \<Rightarrow> int option \<Rightarrow> GreedyScheduler \<times> 'w \<Rightarrow> outcome \<times> GreedyScheduler \<times> 'w" where
  "idle_round cfg h now earliest = (\<lambda>(g, w).
     if (case earliest of Some t \<Rightarrow> t > now | None \<Rightarrow> False)
     then (Continue, g, h_sleep h (the earliest - now) w)
     else if gs_count_wait g > 0
     then (if event_arrived g then (Continue, g, w)
           else let (g1, w1) = absorb h (g, w) in (if event_arrived g1 then Continue else Blocked, g1, w1))
     else if gc_recession cfg > 0 then check_deadlock cfg now (g, h_sleep h (gc_recession cfg) w)
     else check_deadlock cfg now (g, w))"

definition end_round ::
  "greedy_config \<Rightarrow> 'w Host \<Rightarrow> int \<Rightarrow> visit \<Rightarrow> GreedyScheduler \<times> 'w \<Rightarrow> outcome \<times> GreedyScheduler \<times> 'w" where
  "end_round cfg h now v = (\<lambda>(g, w).
     let g1 = drop_unscheduled (gs_unschedule g) g in
     case wake_notified (gs_notified g1) (v_ready v) g1 of
       (None, g2) \<Rightarrow> (Leave, give_up h GXF_EXCEEDING_PREALLOCATED_SIZE (g2, w))
     | (Some ready, g2) \<Rightarrow>
         (let g3 = g2\<lparr>gs_active := fold remove1 (v_remove v) (gs_active g2)\<rparr> in
          if gs_active g3 = [] \<and> el_empty (gs_waiting g3) then (Leave, g3, w)
          else if ready = 0 then idle_round cfg h now (v_earliest v) (g3, w)
          else (Continue, g3\<lparr>gs_last_no_stop := now\<rparr>, w)))"

definition greedy_round ::
  "greedy_config \<Rightarrow> 'w Host \<Rightarrow> int \<Rightarrow> GreedyScheduler \<times> 'w \<Rightarrow> outcome \<times> GreedyScheduler \<times> 'w" where
  "greedy_round cfg h start = (\<lambda>(g, w).
     let now = h_now h w in
     if (case gc_max_duration cfg of Some d \<Rightarrow> now > start + d * 1000000 | None \<Rightarrow> False)
     then (let (code, w1) = h_deactivateAll h w in (Leave, g\<lparr>gs_error := code\<rparr>, w1))
     else let g1 = load_new g in
       case visit_all h now (gs_active g1) visit0 (g1, w) of
         (Continue, v, s) \<Rightarrow> end_round cfg h now v s
       | (out, _, s) \<Rightarrow> (out, s))"

text \<open>The loop need not end; then its value is None.\<close>

partial_function (option) greedy_loop ::
  "greedy_config \<Rightarrow> 'w Host \<Rightarrow> int \<Rightarrow> GreedyScheduler \<times> 'w \<Rightarrow> (outcome \<times> GreedyScheduler \<times> 'w) option" where
  "greedy_loop cfg h start s =
     (if gs_stopping (fst s) then Some (Leave, s)
      else case greedy_round cfg h start s of
        (Continue, s1) \<Rightarrow> greedy_loop cfg h start s1
      | (out, s1) \<Rightarrow> Some (out, s1))"

text \<open>The execution thread; stopping_ is cleared after the thread has started.\<close>

definition greedy_thread ::
  "greedy_config \<Rightarrow> 'w Host \<Rightarrow> GreedyScheduler \<times> 'w \<Rightarrow> (outcome \<times> GreedyScheduler \<times> 'w) option" where
  "greedy_thread cfg h = (\<lambda>(g, w).
     let g1 = load_new (g\<lparr>gs_error := GXF_SUCCESS\<rparr>) in
     if gs_active g1 = [] then Some (Leave, g1, w)
     else greedy_loop cfg h (h_now h w) (g1\<lparr>gs_stopping := False\<rparr>, w))"

section \<open>Every active entity is executed once in every round\<close>

text \<open>A host whose calls are recorded, and to which nobody else makes requests.\<close>

definition records_executions :: "'w Host \<Rightarrow> ('w \<Rightarrow> (gxf_uid_t \<times> int) list) \<Rightarrow> bool" where
  "records_executions h log \<longleftrightarrow>
     (\<forall>e t w. log (snd (h_execute h e t w)) = log w @ [(e, t)]) \<and> (\<forall>d w. log (h_sleep h d w) = log w) \<and>
     (\<forall>w. h_requests h w = ([], w))"

lemma records_executeD:
  "records_executions h log \<Longrightarrow> h_execute h e t w = (r, w') \<Longrightarrow> log w' = log w @ [(e, t)]"
  unfolding records_executions_def by (metis snd_conv)

lemma quiet_absorb: "records_executions h log \<Longrightarrow> absorb h s = s"
  by (cases s) (simp add: absorb_def records_executions_def)

lemma visit_condition_frame:
  "visit_condition h e c v (g, w) = (Continue, v', g', w') \<Longrightarrow> gs_unschedule g' = gs_unschedule g \<and> gs_active g' = gs_active g \<and> w' = w"
  by (cases "sc_type c") (auto simp: visit_condition_def visit_remove_def split: if_splits)

lemma visit_all_log:
  assumes "records_executions h log"
  shows "visit_all h now es v (g, w) = (Continue, v', g', w') \<Longrightarrow>
    log w' = log w @ map (\<lambda>e. (e, now)) (filter (\<lambda>e. e \<notin> set (gs_unschedule g)) es)"
proof (induction es arbitrary: v g w)
  case (Cons e es)
  obtain v1 g1 w1 where e: "visit_entity h now e v (g, w) = (Continue, v1, g1, w1)"
      "visit_all h now es v1 (g1, w1) = (Continue, v', g', w')"
    using Cons.prems by (auto split: prod.splits outcome.splits)
  show ?case
  proof (cases "e \<in> set (gs_unschedule g)")
    case True
    then have "visit_condition h e (cond NEVER 0) v (g, w) = (Continue, v1, g1, w1)"
      using e(1) by (auto simp: visit_entity_def split: if_splits)
    from visit_condition_frame [OF this] show ?thesis using Cons.IH [OF e(2)] True by simp
  next
    case False
    then obtain c w2 where x: "h_execute h e now w = (Inr c, w2)" "visit_condition h e c v (g, w2) = (Continue, v1, g1, w1)"
      using e(1) quiet_absorb [OF assms] by (auto simp: visit_entity_def split: if_splits sum.splits prod.splits)
    from visit_condition_frame [OF x(2)] show ?thesis
      using Cons.IH [OF e(2)] False records_executeD [OF assms x(1)] by simp
  qed
qed simp

lemma idle_round_log:
  assumes "records_executions h log" "idle_round cfg h now t (g, w) = (out, g', w')"
  shows "log w' = log w"
proof -
  have "log (h_sleep h d w) = log w" for d using assms(1) by (simp add: records_executions_def)
  then show ?thesis using assms(2) quiet_absorb [OF assms(1)]
    by (auto simp: idle_round_def check_deadlock_def Let_def split: if_splits prod.splits)
qed


section \<open>The loop ends\<close>

text \<open>A host with a finite amount of work: every execution that reports READY uses some of it up, no
  entity waits for events, sleeping lets time pass, and nobody else makes requests.\<close>

locale finite_work =
  fixes h :: "'w Host" and work :: "'w \<Rightarrow> nat" and good :: "'w \<Rightarrow> bool"
  assumes execute: "good w \<Longrightarrow> h_execute h e t w = (Inr c, w') \<Longrightarrow>
      good w' \<and> h_now h w \<le> h_now h w' \<and> sc_type c \<noteq> WAIT_EVENT \<and>
      work w' + (if sc_type c = READY then 1 else 0) \<le> work w"
    and sleep: "good w \<Longrightarrow> 0 \<le> d \<Longrightarrow>
      good (h_sleep h d w) \<and> h_now h w + d \<le> h_now h (h_sleep h d w) \<and> work (h_sleep h d w) \<le> work w"
    and quiet: "h_requests h w = ([], w)"
begin

lemma absorb_id: "absorb h s = s"
  by (cases s) (simp add: absorb_def quiet)

definition settled :: "GreedyScheduler \<times> 'w \<Rightarrow> bool" where
  "settled = (\<lambda>(g, w). good w \<and> gs_waiting g = [] \<and> gs_count_wait g = 0 \<and> gs_last_no_stop g \<le> h_now h w)"

lemma visit_entity_work:
  assumes "settled (g, w)" "visit_entity h now e v (g, w) = (Continue, v', g', w')"
  shows "settled (g', w') \<and> h_now h w \<le> h_now h w' \<and> work w' + v_ready v' \<le> work w + v_ready v \<and>
    gs_last_no_stop g' = gs_last_no_stop g"
proof (cases "e \<in> set (gs_unschedule g)")
  case True
  then show ?thesis using assms
    by (auto simp: visit_entity_def visit_condition_def visit_remove_def settled_def split: if_splits)
next
  case False
  then obtain c w1 where x: "h_execute h e now w = (Inr c, w1)" "visit_condition h e c v (g, w1) = (Continue, v', g', w')"
    using assms(2) absorb_id by (auto simp: visit_entity_def split: if_splits sum.splits prod.splits)
  have "good w" using assms(1) by (simp add: settled_def)
  note ex = execute [OF this x(1)]
  show ?thesis using x(2) ex assms(1)
    by (cases "sc_type c") (auto simp: visit_condition_def visit_remove_def settled_def split: if_splits)
qed

lemma visit_all_work:
  "settled (g, w) \<Longrightarrow> visit_all h now es v (g, w) = (Continue, v', g', w') \<Longrightarrow>
   settled (g', w') \<and> h_now h w \<le> h_now h w' \<and> work w' + v_ready v' \<le> work w + v_ready v \<and>
   gs_last_no_stop g' = gs_last_no_stop g"
proof (induction es arbitrary: v g w)
  case (Cons e es)
  obtain v1 g1 w1 where e: "visit_entity h now e v (g, w) = (Continue, v1, g1, w1)"
      "visit_all h now es v1 (g1, w1) = (Continue, v', g', w')"
    using Cons.prems(2) by (auto split: prod.splits outcome.splits)
  from visit_entity_work [OF Cons.prems(1) e(1)] Cons.IH [OF _ e(2)] show ?case by auto
qed simp

lemma visit_all_out: "visit_all h now es v s = (out, v', s') \<Longrightarrow> out \<noteq> Blocked"
proof (induction es arbitrary: v s)
  case (Cons e es)
  obtain g w where s: "s = (g, w)" by (cases s)
  have "visit_entity h now e v (g, w) = (o1, r) \<Longrightarrow> o1 \<noteq> Blocked" for o1 r
    by (auto simp: visit_entity_def visit_condition_def visit_remove_def split: if_splits sum.splits prod.splits SchedulingConditionType.splits)
  then show ?case using Cons s by (auto split: prod.splits outcome.splits)
qed simp

lemma drop_unscheduled_frame:
  "gs_waiting (drop_unscheduled es g) = gs_waiting g \<and> gs_count_wait (drop_unscheduled es g) = gs_count_wait g \<and>
   gs_last_no_stop (drop_unscheduled es g) = gs_last_no_stop g \<and> gs_stopping (drop_unscheduled es g) = gs_stopping g"
  by (induction es arbitrary: g) simp_all

lemma wake_none: "gs_waiting g = [] \<Longrightarrow> wake_notified es ready g = (Some ready, g)"
  by (induction es) simp_all

lemma round_progress:
  assumes s: "settled (g, w)" and r: "greedy_round cfg h start (g, w) = (out, g', w')"
    and cfg: "gc_max_duration cfg = Some d" "gc_stop_on_deadlock cfg" "gc_timeout cfg = 0"
  shows "out \<noteq> Blocked \<and> (out = Continue \<longrightarrow> settled (g', w') \<and>
    work w' + nat (start + d * 1000000 + 1 - h_now h w') < work w + nat (start + d * 1000000 + 1 - h_now h w))"
proof (cases "h_now h w > start + d * 1000000")
  case True
  then show ?thesis using r cfg by (auto simp: greedy_round_def Let_def split: prod.splits)
next
  case False
  let ?now = "h_now h w" and ?limit = "start + d * 1000000 + 1"
  have s1: "settled (load_new g, w)" using s by (simp add: settled_def load_new_def)
  obtain o1 v g1 w1 where va: "visit_all h ?now (gs_active (load_new g)) visit0 (load_new g, w) = (o1, v, g1, w1)"
    by (metis prod_cases4)
  show ?thesis
  proof (cases "o1 = Continue")
    case c: False
    then have "out = o1" using r va False cfg by (auto simp: greedy_round_def Let_def split: outcome.splits)
    then show ?thesis using visit_all_out [OF va] c by simp
  next
    case True
    note va = va [unfolded True]
    have er: "end_round cfg h ?now v (g1, w1) = (out, g', w')" using r va False cfg by (simp add: greedy_round_def Let_def)
    have w1: "settled (g1, w1)" "?now \<le> h_now h w1" "work w1 + v_ready v \<le> work w"
      using visit_all_work [OF s1 va] by (simp_all add: visit0_def)
    let ?g2 = "drop_unscheduled (gs_unschedule g1) g1"
    have g2: "gs_waiting ?g2 = []" "gs_count_wait ?g2 = 0" "gs_last_no_stop ?g2 = gs_last_no_stop g1"
      using drop_unscheduled_frame [of "gs_unschedule g1" g1] w1(1) by (simp_all add: settled_def)
    let ?g3 = "?g2\<lparr>gs_active := fold remove1 (v_remove v) (gs_active ?g2)\<rparr>"
    have last: "gs_last_no_stop g1 \<le> ?now"
    proof -
      have "gs_last_no_stop g1 = gs_last_no_stop g" using visit_all_work [OF s1 va] by (simp add: load_new_def)
      then show ?thesis using s by (simp add: settled_def)
    qed
    have e: "end_round cfg h ?now v (g1, w1) =
       (if gs_active ?g3 = [] then (Leave, ?g3, w1)
        else if v_ready v = 0 then idle_round cfg h ?now (v_earliest v) (?g3, w1)
        else (Continue, ?g3\<lparr>gs_last_no_stop := ?now\<rparr>, w1))"
      using wake_none [OF g2(1)] g2(1) by (simp add: end_round_def Let_def el_empty_def)
    consider "gs_active ?g3 = []" | "gs_active ?g3 \<noteq> []" "0 < v_ready v" | "gs_active ?g3 \<noteq> []" "v_ready v = 0" by blast
    then show ?thesis
    proof cases
      case 1
      then show ?thesis using e er by simp
    next
      case 2
      then have "out = Continue" "g' = ?g3\<lparr>gs_last_no_stop := ?now\<rparr>" "w' = w1" using e er by simp_all
      then show ?thesis using w1 g2 2(2) False by (auto simp: settled_def)
    next
      case 3
      then have i: "idle_round cfg h ?now (v_earliest v) (?g3, w1) = (out, g', w')" using e er by simp
      show ?thesis
      proof (cases "case v_earliest v of Some t \<Rightarrow> t > ?now | None \<Rightarrow> False")
        case True
        then obtain t where t: "v_earliest v = Some t" "t > ?now" by (auto split: option.splits)
        then have out: "out = Continue" "g' = ?g3" "w' = h_sleep h (t - ?now) w1" using i by (simp_all add: idle_round_def)
        have "good w1" using w1(1) by (simp add: settled_def)
        then have "good w'" "h_now h w1 + (t - ?now) \<le> h_now h w'" "work w' \<le> work w1"
          using sleep [of w1 "t - ?now"] t(2) out(3) by auto
        then show ?thesis using out g2 w1 t(2) False last by (auto simp: settled_def)
      next
        case f: False
        have "gs_stop_on_deadlock_timeout 0 ?now True ?g3 = (True, ?g3)"
          using last g2(3) by (simp add: gs_stop_on_deadlock_timeout_def)
        then have "out = Leave"
          using i f g2(2) cfg by (auto simp: idle_round_def check_deadlock_def Let_def split: if_splits)
        then show ?thesis by simp
      qed
    qed
  qed
qed

lemma loop_ends:
  assumes cfg: "gc_max_duration cfg = Some d" "gc_stop_on_deadlock cfg" "gc_timeout cfg = 0"
  shows "settled (g, w) \<Longrightarrow> \<exists>out s'. greedy_loop cfg h start (g, w) = Some (out, s') \<and> out \<in> {Leave, Abort}"
proof (induction "work w + nat (start + d * 1000000 + 1 - h_now h w)" arbitrary: g w rule: less_induct)
  case less
  obtain out g' w' where r: "greedy_round cfg h start (g, w) = (out, g', w')" by (metis prod_cases3)
  note p = round_progress [OF less.prems r cfg]
  show ?case
  proof (cases "gs_stopping g \<or> out \<noteq> Continue")
    case True
    then show ?thesis using p r by (subst greedy_loop.simps) (cases out; auto)
  next
    case False
    then have "\<exists>out s'. greedy_loop cfg h start (g', w') = Some (out, s') \<and> out \<in> {Leave, Abort}"
      using less.hyps [of w' g'] p by auto
    then show ?thesis using False r by (subst greedy_loop.simps) simp
  qed
qed

lemma thread_ends:
  assumes cfg: "gc_max_duration cfg = Some d" "gc_stop_on_deadlock cfg" "gc_timeout cfg = 0"
    and s: "settled (g, w)"
  shows "\<exists>out s'. greedy_thread cfg h (g, w) = Some (out, s') \<and> out \<in> {Leave, Abort}"
proof (cases "gs_active (load_new (g\<lparr>gs_error := GXF_SUCCESS\<rparr>)) = []")
  case True
  then show ?thesis by (simp add: greedy_thread_def Let_def)
next
  case False
  have "settled ((load_new (g\<lparr>gs_error := GXF_SUCCESS\<rparr>))\<lparr>gs_stopping := False\<rparr>, w)"
    using s by (simp add: settled_def load_new_def)
  from loop_ends [OF cfg this, of "h_now h w"] show ?thesis using False by (simp add: greedy_thread_def Let_def)
qed

end

subsection \<open>Entities with a period and a count on the manual clock\<close>

text \<open>Every entity has a count and a periodic term; the executor executes it when both permit it.\<close>

record counted_world =
  cw_clock :: int
  cw_entities :: "gxf_uid_t list"
  cw_terms :: "gxf_uid_t \<Rightarrow> CountTerm \<times> PeriodicTerm"

definition counted_execute :: "gxf_uid_t \<Rightarrow> int \<Rightarrow> counted_world \<Rightarrow> SchedulingCondition expected \<times> counted_world" where
  "counted_execute e now w =
     (if e \<notin> set (cw_entities w) then (Inl GXF_ENTITY_NOT_FOUND, w)
      else let (ct, pt) = cw_terms w e; t = count_update_state now ct;
               c = AndCombine (cond (fst (count_check now t)) (ct_last_run t))
                     (case periodic_check now pt of (k, target) \<Rightarrow> cond k (the target)) in
        if sc_type c = READY \<or> sc_type c = WAIT_TIME \<and> sc_target c \<le> now
        then (Inr (cond READY now), w\<lparr>cw_terms := (cw_terms w)(e := (count_onExecute now t, periodic_onExecute now pt))\<rparr>)
        else (Inr c, w\<lparr>cw_terms := (cw_terms w)(e := (t, pt))\<rparr>))"

definition counted_host :: "counted_world Host" where
  "counted_host = \<lparr>h_execute = counted_execute, h_deactivateAll = (\<lambda>w. (GXF_SUCCESS, w)),
     h_now = (\<lambda>w. mc_timestamp (cw_clock w)),
     h_sleep = (\<lambda>d w. w\<lparr>cw_clock := snd (mc_sleepFor d (cw_clock w))\<rparr>),
     h_requests = (\<lambda>w. ([], w))\<rparr>"

definition counted_work :: "counted_world \<Rightarrow> nat" where
  "counted_work w = sum_list (map (\<lambda>e. nat (ct_remaining (fst (cw_terms w e)))) (cw_entities w))"

definition counted_good :: "counted_world \<Rightarrow> bool" where
  "counted_good w \<longleftrightarrow> distinct (cw_entities w) \<and>
     (\<forall>e\<in>set (cw_entities w). ct_state (fst (cw_terms w e)) \<in> {READY, NEVER} \<and>
       (ct_state (fst (cw_terms w e)) = READY \<longrightarrow> 0 \<le> ct_remaining (fst (cw_terms w e))))"

lemma sum_list_upd:
  "distinct es \<Longrightarrow> e \<in> set es \<Longrightarrow>
   sum_list (map (\<lambda>x. F ((T(e := t)) x)) es) + F (T e) = sum_list (map (\<lambda>x. F (T x)) es) + (F t :: nat)"
proof (induction es)
  case (Cons a es)
  show ?case
  proof (cases "a = e")
    case True
    then have "map (\<lambda>x. F ((T(e := t)) x)) es = map (\<lambda>x. F (T x)) es" using Cons.prems by auto
    from arg_cong [where f = sum_list, OF this] show ?thesis using True by simp
  next
    case False
    then show ?thesis using Cons by simp
  qed
qed simp

lemma counted_execute_work:
  assumes "counted_good w" "counted_execute e now w = (Inr c, w')"
  shows "counted_good w' \<and> cw_clock w' = cw_clock w \<and> sc_type c \<noteq> WAIT_EVENT \<and>
    counted_work w' + (if sc_type c = READY then 1 else 0) \<le> counted_work w"
proof -
  have e: "e \<in> set (cw_entities w)" using assms(2) by (auto simp: counted_execute_def split: if_splits)
  obtain ct pt where terms: "cw_terms w e = (ct, pt)" by (metis prod.exhaust)
  let ?t = "count_update_state now ct"
  have g: "ct_state ct \<in> {READY, NEVER}" "ct_state ct = READY \<Longrightarrow> 0 \<le> ct_remaining ct"
    using assms(1) e terms by (auto simp: counted_good_def)
  have t: "ct_state ?t \<in> {READY, NEVER}" "ct_state ?t = READY \<Longrightarrow> 0 < ct_remaining ?t" "ct_remaining ?t = ct_remaining ct"
    using g by (auto simp: count_update_state_def)
  have p: "fst (periodic_check now pt) \<in> {READY, WAIT_TIME}" by (auto simp: periodic_check_def split: option.splits)
  obtain u pt' where w': "w' = w\<lparr>cw_terms := (cw_terms w)(e := (u, pt'))\<rparr>" "sc_type c \<noteq> WAIT_EVENT"
      "ct_state u \<in> {READY, NEVER}" "ct_state u = READY \<Longrightarrow> 0 \<le> ct_remaining u"
      "nat (ct_remaining u) + (if sc_type c = READY then 1 else 0) \<le> nat (ct_remaining ct)"
  proof (cases "ct_state ?t = READY \<and> c = cond READY now \<and>
      w' = w\<lparr>cw_terms := (cw_terms w)(e := (count_onExecute now ?t, periodic_onExecute now pt))\<rparr>")
    case True
    then show ?thesis using t that [of "count_onExecute now ?t" "periodic_onExecute now pt"]
      by (auto simp: count_onExecute_def Let_def)
  next
    case False
    then have "w' = w\<lparr>cw_terms := (cw_terms w)(e := (?t, pt))\<rparr>" "sc_type c \<noteq> READY" "sc_type c \<noteq> WAIT_EVENT"
      using assms(2) e terms t(1) p
      by (auto simp: counted_execute_def count_check_def Let_def AndCombine_def split: if_splits prod.splits)
    then show ?thesis using t that [of ?t pt] by auto
  qed
  have "distinct (cw_entities w)" using assms(1) by (simp add: counted_good_def)
  from sum_list_upd [OF this e, of "\<lambda>t. nat (ct_remaining (fst t))" "cw_terms w" "(u, pt')"]
  have "counted_work w' + nat (ct_remaining ct) = counted_work w + nat (ct_remaining u)"
    by (simp add: counted_work_def w'(1) terms)
  then show ?thesis using w' assms(1) by (auto simp: counted_good_def)
qed

interpretation counted: finite_work counted_host counted_work counted_good
proof unfold_locales
  fix w e t c w'
  assume "counted_good w" "h_execute counted_host e t w = (Inr c, w')"
  then show "counted_good w' \<and> h_now counted_host w \<le> h_now counted_host w' \<and> sc_type c \<noteq> WAIT_EVENT \<and>
      counted_work w' + (if sc_type c = READY then 1 else 0) \<le> counted_work w"
    using counted_execute_work [of w e t c w'] by (auto simp: counted_host_def mc_timestamp_def)
next
  fix w :: counted_world and d :: int
  assume "counted_good w" "0 \<le> d"
  then show "counted_good (h_sleep counted_host d w) \<and>
      h_now counted_host w + d \<le> h_now counted_host (h_sleep counted_host d w) \<and>
      counted_work (h_sleep counted_host d w) \<le> counted_work w"
    using mc_sleep_exact by (auto simp: counted_host_def counted_good_def counted_work_def)
qed (simp add: counted_host_def)


definition demo_greedy :: GreedyScheduler where
  "demo_greedy = \<lparr>gs_active = [], gs_new = [3, 4], gs_unschedule = [], gs_notified = [], gs_waiting = [], gs_count_wait = 0,
     gs_mutexes = {3, 4}, gs_stopping = True, gs_error = GXF_SUCCESS, gs_last_no_stop = 0\<rparr>"

definition demo_counted :: counted_world where
  "demo_counted = \<lparr>cw_clock = 7, cw_entities = [3, 4],
     cw_terms = (\<lambda>e. (count_initialize \<lparr>ct_count = e, ct_remaining = 0, ct_state = NEVER, ct_last_run = 0\<rparr>,
       \<lparr>pt_policy = kCatchUpMissedTicks, recess_period_ns = 100, next_target = None\<rparr>))\<rparr>"


definition logging_host :: "(gxf_uid_t \<times> int) list Host" where
  "logging_host = \<lparr>h_execute = (\<lambda>e t w. (Inr (cond READY t), w @ [(e, t)])), h_deactivateAll = (\<lambda>w. (GXF_SUCCESS, w)),
     h_now = (\<lambda>w. 7), h_sleep = (\<lambda>d w. w), h_requests = (\<lambda>w. ([], w))\<rparr>"


section \<open>Unscheduling\<close>

text \<open>An entity that waits for an event is not found among the active ones when it is unscheduled: the
  request is consumed, and the next event of the entity makes it active again.\<close>

lemma unscheduled_wakes:
  assumes "gs_active g = []" "gs_waiting g = [e]" "gs_unschedule g = []" "gs_notified g = []" "e \<in> gs_mutexes g"
  shows "gs_active (snd (wake_notified [e] 0 (serve (Notify e)
    (drop_unscheduled [e] (serve (Unschedule e) g))))) = [e]"
  using assms
  by (simp add: gs_unschedule_entity_def gs_event_notify_def el_pushEvent_def kMaxEntities_def Let_def)

text \<open>A stop request that comes before the thread has started is forgotten.\<close>

lemma early_stop_lost:
  "greedy_thread cfg h (snd (gs_stop g), w) = greedy_thread cfg h (g, w) \<or> gs_active (load_new g) = []"
  by (simp add: greedy_thread_def gs_stop_def Let_def load_new_def)

end
