(* ===== verification/Epoch_Scheduler.thy ===== *)
theory Epoch_Scheduler
  imports Greedy_Scheduler
begin

text \<open>
  gxf/std/epoch_scheduler.cpp: the scheduler that a thread of the application drives epoch by epoch.
  The host, the requests of other threads and the bounded vectors are those of the greedy scheduler.
\<close>

section \<open>State and calls from outside\<close>

record EpochScheduler =
  ep_active :: "gxf_uid_t list"
  ep_conditions :: "gxf_uid_t \<rightharpoonup> SchedulingCondition"
  ep_events :: "gxf_uid_t list"
  ep_stopping :: bool

definition ep_initialize :: "EpochScheduler \<Rightarrow> gxf_result_t \<times> EpochScheduler" where
  "ep_initialize g = (GXF_SUCCESS, g\<lparr>ep_conditions := Map.empty, ep_stopping := True\<rparr>)"

definition ep_deinitialize :: "EpochScheduler \<Rightarrow> gxf_result_t \<times> EpochScheduler" where
  "ep_deinitialize g = (GXF_SUCCESS, g\<lparr>ep_active := [], ep_events := [], ep_conditions := Map.empty\<rparr>)"

definition set_type :: "SchedulingConditionType \<Rightarrow> gxf_uid_t \<Rightarrow> EpochScheduler \<Rightarrow> EpochScheduler" where
  "set_type t eid g = g\<lparr>ep_conditions := (ep_conditions g)(eid \<mapsto>
     (case ep_conditions g eid of Some c \<Rightarrow> c\<lparr>sc_type := t\<rparr> | None \<Rightarrow> cond t 0))\<rparr>"

definition push_active :: "gxf_uid_t \<Rightarrow> EpochScheduler \<Rightarrow> gxf_result_t \<times> EpochScheduler" where
  "push_active eid g =
     (if length (ep_active g) \<ge> kMaxEntities then (GXF_FAILURE, g)
      else (GXF_SUCCESS, g\<lparr>ep_active := ep_active g @ [eid]\<rparr>))"

text \<open>The checks that schedule and unschedule begin with: the entity exists and has a codelet.\<close>

definition for_entity ::
  "unit expected \<Rightarrow> nat expected \<Rightarrow> (EpochScheduler \<Rightarrow> gxf_result_t \<times> EpochScheduler) \<Rightarrow> EpochScheduler \<Rightarrow> gxf_result_t \<times> EpochScheduler" where
  "for_entity shared codelets f g = (case shared of
     Inl e \<Rightarrow> (e, g)
   | Inr _ \<Rightarrow> (case codelets of Inl e \<Rightarrow> (e, g) | Inr n \<Rightarrow> if n = 0 then (GXF_SUCCESS, g) else f g))"

definition ep_schedule ::
  "unit expected \<Rightarrow> nat expected \<Rightarrow> gxf_uid_t \<Rightarrow> EpochScheduler \<Rightarrow> gxf_result_t \<times> EpochScheduler" where
  "ep_schedule shared codelets eid = for_entity shared codelets (\<lambda>g.
     case ep_conditions g eid of
       None \<Rightarrow> push_active eid (g\<lparr>ep_conditions := (ep_conditions g)(eid \<mapsto> cond READY 0)\<rparr>)
     | Some c \<Rightarrow>
         (if sc_type c \<noteq> NEVER then (GXF_FAILURE, g)
          else push_active eid (set_type READY eid g)))"

definition ep_unschedule ::
  "unit expected \<Rightarrow> nat expected \<Rightarrow> gxf_uid_t \<Rightarrow> EpochScheduler \<Rightarrow> gxf_result_t \<times> EpochScheduler" where
  "ep_unschedule shared codelets eid = for_entity shared codelets (\<lambda>g.
     if ep_conditions g eid = None then (GXF_FAILURE, g) else (GXF_SUCCESS, set_type NEVER eid g))"

definition ep_runAsync :: "bool \<Rightarrow> EpochScheduler \<Rightarrow> gxf_result_t \<times> EpochScheduler" where
  "ep_runAsync executor g =
     (if \<not> executor then (GXF_ARGUMENT_NULL, g)
      else if \<not> ep_stopping g then (GXF_SUCCESS, g)
      else (GXF_SUCCESS, g\<lparr>ep_stopping := False\<rparr>))"

definition ep_stop :: "EpochScheduler \<Rightarrow> gxf_result_t \<times> EpochScheduler" where
  "ep_stop g = (GXF_SUCCESS, g\<lparr>ep_stopping := True\<rparr>)"

definition ep_event_notify :: "gxf_uid_t \<Rightarrow> int \<Rightarrow> EpochScheduler \<Rightarrow> gxf_result_t \<times> EpochScheduler" where
  "ep_event_notify eid event g =
     (if event \<noteq> GXF_EVENT_EXTERNAL then (GXF_SUCCESS, g) else (GXF_SUCCESS, g\<lparr>ep_events := push_bounded eid (ep_events g)\<rparr>))"

fun ep_serve :: "request \<Rightarrow> EpochScheduler \<Rightarrow> EpochScheduler" where
  "ep_serve (Schedule e) g = snd (ep_schedule Success (Inr 1) e g)"
| "ep_serve (Unschedule e) g = snd (ep_unschedule Success (Inr 1) e g)"
| "ep_serve (Notify e) g = snd (ep_event_notify e GXF_EVENT_EXTERNAL g)"
| "ep_serve Stop g = snd (ep_stop g)"

definition ep_absorb :: "'w Host \<Rightarrow> EpochScheduler \<times> 'w \<Rightarrow> EpochScheduler \<times> 'w" where
  "ep_absorb h = (\<lambda>(g, w). let (rs, w1) = h_requests h w in (fold ep_serve rs g, w1))"

section \<open>An epoch\<close>

fun process_events :: "gxf_uid_t list \<Rightarrow> EpochScheduler \<Rightarrow> unit expected \<times> EpochScheduler" where
  "process_events [] g = (Success, g\<lparr>ep_events := []\<rparr>)"
| "process_events (e # es) g = (case ep_conditions g e of
     None \<Rightarrow> process_events es g
   | Some c \<Rightarrow>
       (if sc_type c = WAIT_EVENT
        then (case push_active e (set_type READY e g) of
                (GXF_SUCCESS, g1) \<Rightarrow> process_events es g1
              | (_, g1) \<Rightarrow> (Inl GXF_FAILURE, g1))
        else process_events es g))"

datatype visit_end = VDone | VError gxf_result_t | VUndefined

text \<open>The loop over the active entities, from index i on; the list may grow while it runs.  rm are the
  indices to remove.  An active entity without a condition is undefined behaviour.\<close>

partial_function (option) epoch_visit ::
  "'w Host \<Rightarrow> int \<Rightarrow> nat \<Rightarrow> nat list \<Rightarrow> nat \<Rightarrow> EpochScheduler \<Rightarrow> 'w \<Rightarrow>
   (visit_end \<times> nat list \<times> nat \<times> EpochScheduler \<times> 'w) option" where
  "epoch_visit h now i rm ready g w =
     (if length (ep_active g) \<le> i then Some (VDone, rm, ready, g, w)
      else let e = ep_active g ! i in
        case ep_conditions g e of
          None \<Rightarrow> Some (VUndefined, rm, ready, g, w)
        | Some c \<Rightarrow>
            (if sc_type c = NEVER then epoch_visit h now (i + 1) (push_bounded i rm) ready g w
             else case h_execute h e now w of
               (Inl err, w1) \<Rightarrow> Some (VError err, rm, ready, g, w1)
             | (Inr r, w1) \<Rightarrow>
                 (let (g1, w2) = ep_absorb h (g, w1); g2 = g1\<lparr>ep_conditions := (ep_conditions g1)(e \<mapsto> r)\<rparr> in
                  epoch_visit h now (i + 1)
                    (if sc_type r = WAIT_EVENT \<or> sc_type r = NEVER then push_bounded i rm else rm)
                    (if sc_type r = READY then ready + 1 else ready) g2 w2)))"

text \<open>The removed entities are overwritten by the last one, from the highest index down.\<close>

definition swap_remove :: "nat \<Rightarrow> 'a list \<Rightarrow> 'a list" where
  "swap_remove i xs = butlast (xs[i := last xs])"

definition swap_remove_all :: "nat list \<Rightarrow> 'a list \<Rightarrow> 'a list" where
  "swap_remove_all rm xs = foldr swap_remove rm xs"

text \<open>limit: the time after which no new round begins, None when no budget is given.  The result is
  None when the loop does not end.\<close>

partial_function (option) epoch_loop ::
  "'w Host \<Rightarrow> int option \<Rightarrow> bool \<Rightarrow> EpochScheduler \<Rightarrow> 'w \<Rightarrow> (gxf_result_t option \<times> EpochScheduler \<times> 'w) option" where
  "epoch_loop h limit covered g w =
     (if ep_stopping g then Some (Some GXF_SUCCESS, g, w)
      else let now = h_now h w in
        if (case limit of Some t \<Rightarrow> now > t | None \<Rightarrow> covered) then Some (Some GXF_SUCCESS, g, w)
        else case process_events (ep_events g) g of
          (Inl e, g1) \<Rightarrow> Some (Some e, g1, w)
        | (Inr _, g1) \<Rightarrow>
            (if ep_active g1 = [] then Some (Some GXF_SUCCESS, g1, w)
             else case epoch_visit h now 0 [] 0 g1 w of
               None \<Rightarrow> None
             | Some (VUndefined, rm, ready, g2, w2) \<Rightarrow> Some (None, g2, w2)
             | Some (VError e, rm, ready, g2, w2) \<Rightarrow> Some (Some e, g2, w2)
             | Some (VDone, rm, ready, g2, w2) \<Rightarrow>
                 (let g3 = g2\<lparr>ep_active := swap_remove_all rm (ep_active g2)\<rparr> in
                  if ready = 0 \<and> ep_events g3 = [] then Some (Some GXF_SUCCESS, g3, w2)
                  else epoch_loop h limit True g3 w2)))"

definition run_epoch ::
  "'w Host \<Rightarrow> int option \<Rightarrow> EpochScheduler \<times> 'w \<Rightarrow> (gxf_result_t option \<times> EpochScheduler \<times> 'w) option" where
  "run_epoch h limit = (\<lambda>(g, w). epoch_loop h limit False g w)"

section \<open>Removal by swapping\<close>

lemma swap_remove_mset:
  assumes "i < length xs"
  shows "mset (swap_remove i xs) = mset xs - {#xs ! i#}" "length (swap_remove i xs) = length xs - 1"
    "take i (swap_remove i xs) = take i xs"
proof -
  let ?ys = "xs[i := last xs]"
  have ne: "xs \<noteq> []" using assms by auto
  have "mset ?ys = mset xs - {#xs ! i#} + {#last xs#}"
    using assms by (simp add: mset_update)
  moreover have "?ys = butlast ?ys @ [last xs]"
    using ne by (metis append_butlast_last_id last_list_update list_update_nonempty)
  then have "mset ?ys = mset (butlast ?ys) + {#last xs#}" by (metis mset.simps mset_append)
  ultimately show "mset (swap_remove i xs) = mset xs - {#xs ! i#}" by (simp add: swap_remove_def)
  show "length (swap_remove i xs) = length xs - 1" by (simp add: swap_remove_def)
  have "take i (butlast (xs[i := last xs])) = take i (xs[i := last xs])"
    using assms by (simp add: take_butlast)
  then show "take i (swap_remove i xs) = take i xs" by (simp add: swap_remove_def)
qed

text \<open>Removing the indices from the highest down keeps the lower ones valid.\<close>

lemma swap_remove_all_mset:
  assumes "sorted_wrt (<) rm" "\<forall>i\<in>set rm. i < length xs"
  shows "mset (swap_remove_all rm xs) = mset xs - mset (map ((!) xs) rm) \<and>
    mset (map ((!) xs) rm) \<subseteq># mset xs \<and>
    (\<forall>k. (\<forall>i\<in>set rm. k \<le> i) \<longrightarrow> k \<le> length xs \<longrightarrow> k \<le> length (swap_remove_all rm xs) \<and> take k (swap_remove_all rm xs) = take k xs)"
  using assms
proof (induction rm)
  case Nil
  then show ?case by (simp add: swap_remove_all_def)
next
  case (Cons i rm)
  let ?ys = "swap_remove_all rm xs"
  have IH: "mset ?ys = mset xs - mset (map ((!) xs) rm)" "mset (map ((!) xs) rm) \<subseteq># mset xs"
      "\<And>k. \<forall>j\<in>set rm. k \<le> j \<Longrightarrow> k \<le> length xs \<Longrightarrow> k \<le> length ?ys \<and> take k ?ys = take k xs"
    using Cons by auto
  have i: "i < length xs" "\<forall>j\<in>set rm. Suc i \<le> j" using Cons.prems by auto
  have take: "Suc i \<le> length ?ys" "take (Suc i) ?ys = take (Suc i) xs" using IH(3) [of "Suc i"] i by auto
  then have nth: "?ys ! i = xs ! i" using i(1) by (metis lessI nth_take)
  have r: "swap_remove_all (i # rm) xs = swap_remove i ?ys" by (simp add: swap_remove_all_def)
  have il: "i < length ?ys" using take(1) by simp
  note sr = swap_remove_mset [OF il]
  have "xs ! i \<in># mset xs - mset (map ((!) xs) rm)" unfolding IH(1) [symmetric] using nth il by (metis nth_mem set_mset_mset)
  then have "mset (map ((!) xs) rm) + {#xs ! i#} \<subseteq># mset (map ((!) xs) rm) + (mset xs - mset (map ((!) xs) rm))"
    by (intro subset_mset.add_left_mono) simp
  also have "mset (map ((!) xs) rm) + (mset xs - mset (map ((!) xs) rm)) = mset xs" using IH(2) by simp
  finally have "add_mset (xs ! i) (mset (map ((!) xs) rm)) \<subseteq># mset xs" by simp
  moreover have "k \<le> length (swap_remove i ?ys) \<and> take k (swap_remove i ?ys) = take k xs"
    if k: "k \<le> i" "\<forall>j\<in>set rm. k \<le> j" for k
  proof -
    have "k \<le> length ?ys" "take k ?ys = take k xs" using IH(3) [OF k(2)] k(1) i(1) by auto
    moreover have "take k (swap_remove i ?ys) = take k (take i (swap_remove i ?ys))" using k(1) by (simp add: min_def)
    ultimately show ?thesis using sr k(1) il by (simp add: min_def)
  qed
  ultimately show ?case using sr(1) nth IH(1) unfolding r by simp
qed

lemma removed_are_filter:
  "map ((!) xs) (filter (\<lambda>i. P (xs ! i)) [0..<length xs]) = filter P xs"
  by (simp add: filter_map [symmetric, unfolded comp_def] map_nth)

lemma swap_remove_filter:
  "mset (swap_remove_all (filter (\<lambda>i. P (xs ! i)) [0..<length xs]) xs) = mset (filter (\<lambda>x. \<not> P x) xs)"
proof -
  have rm: "sorted_wrt (<) (filter (\<lambda>i. P (xs ! i)) [0..<length xs])"
      "\<forall>i\<in>set (filter (\<lambda>i. P (xs ! i)) [0..<length xs]). i < length xs"
    by (simp_all add: sorted_wrt_filter)
  have "mset (swap_remove_all (filter (\<lambda>i. P (xs ! i)) [0..<length xs]) xs) = mset xs - mset (filter P xs)"
    using conjunct1 [OF swap_remove_all_mset [OF rm]] by (simp only: removed_are_filter)
  moreover have "mset xs = mset (filter P xs) + mset (filter (\<lambda>x. \<not> P x) xs)"
    by (metis mset_filter multiset_partition)
  ultimately show ?thesis by (metis add_diff_cancel_left')
qed

section \<open>What an epoch without a budget does\<close>

abbreviation ctype :: "EpochScheduler \<Rightarrow> gxf_uid_t \<Rightarrow> SchedulingConditionType" where
  "ctype g e \<equiv> sc_type (the (ep_conditions g e))"

definition leaves :: "EpochScheduler \<Rightarrow> gxf_uid_t \<Rightarrow> bool" where
  "leaves g e \<longleftrightarrow> ctype g e = NEVER \<or> ctype g e = WAIT_EVENT"

text \<open>An entity from position i on is executed once, unless it has been unscheduled; its new condition
  decides whether its index is collected.\<close>

lemma epoch_visit_spec:
  assumes h: "records_executions h log"
  shows "distinct (ep_active g) \<Longrightarrow> set (ep_active g) \<subseteq> dom (ep_conditions g) \<Longrightarrow> length (ep_active g) \<le> kMaxEntities \<Longrightarrow>
    i \<le> length (ep_active g) \<Longrightarrow> length rm \<le> i \<Longrightarrow>
    \<exists>out rm' ready' g' w'. epoch_visit h now i rm ready g w = Some (out, rm', ready', g', w') \<and> out \<noteq> VUndefined \<and>
      (\<forall>e. out = VError e \<longrightarrow> (\<exists>d t v. fst (h_execute h d t v) = Inl e)) \<and>
      (out = VDone \<longrightarrow> ep_active g' = ep_active g \<and> ep_events g' = ep_events g \<and>
        log w' = log w @ map (\<lambda>e. (e, now)) (filter (\<lambda>e. ctype g e \<noteq> NEVER) (drop i (ep_active g))) \<and>
        (\<forall>e. e \<notin> set (drop i (ep_active g)) \<longrightarrow> ep_conditions g' e = ep_conditions g e) \<and>
        rm' = rm @ filter (\<lambda>j. leaves g' (ep_active g ! j)) [i..<length (ep_active g)])"
proof (induction "length (ep_active g) - i" arbitrary: i rm ready g w)
  case 0
  then show ?case by (subst epoch_visit.simps) simp
next
  case (Suc k)
  let ?xs = "ep_active g" and ?e = "ep_active g ! i"
  have i: "i < length ?xs" using Suc.hyps(2) by linarith
  then obtain c where c: "ep_conditions g ?e = Some c" using Suc.prems(2) nth_mem by blast
  have dr: "drop i ?xs = ?e # drop (Suc i) ?xs" using i by (simp add: Cons_nth_drop_Suc)
  have notin: "?e \<notin> set (drop (Suc i) ?xs)" using Suc.prems(1) dr by (metis distinct.simps(2) distinct_drop)
  have push: "push_bounded i rm = rm @ [i]" using Suc.prems(3,5) i by (simp add: push_bounded_def)
  have upt: "[i..<length ?xs] = i # [Suc i..<length ?xs]" using i by (simp add: upt_conv_Cons)
  have k: "k = length ?xs - Suc i" using Suc.hyps(2) by linarith
  show ?case
  proof (cases "sc_type c = NEVER")
    case True
    have eq: "epoch_visit h now i rm ready g w = epoch_visit h now (Suc i) (rm @ [i]) ready g w"
      using i c True push by (subst epoch_visit.simps) simp
    obtain out rm' ready' g' w' where v: "epoch_visit h now (Suc i) (rm @ [i]) ready g w = Some (out, rm', ready', g', w')"
        "out \<noteq> VUndefined" "\<forall>e. out = VError e \<longrightarrow> (\<exists>d t v. fst (h_execute h d t v) = Inl e)"
        "out = VDone \<Longrightarrow> ep_active g' = ?xs \<and> ep_events g' = ep_events g \<and>
           log w' = log w @ map (\<lambda>e. (e, now)) (filter (\<lambda>e. ctype g e \<noteq> NEVER) (drop (Suc i) ?xs)) \<and>
           (\<forall>e. e \<notin> set (drop (Suc i) ?xs) \<longrightarrow> ep_conditions g' e = ep_conditions g e) \<and>
           rm' = (rm @ [i]) @ filter (\<lambda>j. leaves g' (?xs ! j)) [Suc i..<length ?xs]"
      using Suc.hyps(1) [OF k Suc.prems(1-3), of "rm @ [i]" ready w] Suc.prems(5) i by auto
    have "leaves g' ?e" if "out = VDone" using v(4) [OF that] notin c True by (auto simp: leaves_def)
    then show ?thesis unfolding eq using v(1-3) v(4) dr notin c True upt by auto
  next
    case False
    obtain res w1 where x: "h_execute h ?e now w = (res, w1)" by (metis prod.exhaust)
    have log1: "log w1 = log w @ [(?e, now)]" by (rule records_executeD [OF h x])
    have quiet: "ep_absorb h s = s" for s using h by (cases s) (simp add: ep_absorb_def records_executions_def)
    show ?thesis
    proof (cases res)
      case (Inl err)
      then have "\<exists>d t v. fst (h_execute h d t v) = Inl err" using x by (metis fst_conv)
      then show ?thesis using i c False x Inl by (subst epoch_visit.simps) auto
    next
      case (Inr r)
      let ?g = "g\<lparr>ep_conditions := (ep_conditions g)(?e \<mapsto> r)\<rparr>"
      let ?rm = "if sc_type r = WAIT_EVENT \<or> sc_type r = NEVER then rm @ [i] else rm"
      let ?ready = "if sc_type r = READY then ready + 1 else ready"
      have eq: "epoch_visit h now i rm ready g w = epoch_visit h now (Suc i) ?rm ?ready ?g w1"
        using i c False x Inr quiet push by (subst epoch_visit.simps) (auto simp: Let_def)
      have sub: "set (ep_active ?g) \<subseteq> dom (ep_conditions ?g)" using Suc.prems(2) by auto
      have same: "filter (\<lambda>e. ctype ?g e \<noteq> NEVER) (drop (Suc i) ?xs) = filter (\<lambda>e. ctype g e \<noteq> NEVER) (drop (Suc i) ?xs)"
        using notin by (intro filter_cong) auto
      have prems: "k = length (ep_active ?g) - Suc i" "distinct (ep_active ?g)" "length (ep_active ?g) \<le> kMaxEntities"
          "Suc i \<le> length (ep_active ?g)" "length ?rm \<le> Suc i"
        using k Suc.prems i by simp_all
      obtain out rm' ready' g' w' where v: "epoch_visit h now (Suc i) ?rm ?ready ?g w1 = Some (out, rm', ready', g', w')"
          "out \<noteq> VUndefined" "\<forall>e. out = VError e \<longrightarrow> (\<exists>d t v. fst (h_execute h d t v) = Inl e)"
        and finished: "out = VDone \<longrightarrow> ep_active g' = ep_active ?g \<and> ep_events g' = ep_events ?g \<and>
             log w' = log w1 @ map (\<lambda>e. (e, now)) (filter (\<lambda>e. ctype ?g e \<noteq> NEVER) (drop (Suc i) (ep_active ?g))) \<and>
             (\<forall>e. e \<notin> set (drop (Suc i) (ep_active ?g)) \<longrightarrow> ep_conditions g' e = ep_conditions ?g e) \<and>
             rm' = ?rm @ filter (\<lambda>j. leaves g' (ep_active ?g ! j)) [Suc i..<length (ep_active ?g)]"
        using Suc.hyps(1) [OF prems(1,2) sub prems(3-5), of ?ready w1] by blast
      have v4: "ep_active g' = ?xs" "ep_events g' = ep_events g"
          "log w' = log w1 @ map (\<lambda>e. (e, now)) (filter (\<lambda>e. ctype g e \<noteq> NEVER) (drop (Suc i) ?xs))"
          "\<And>e. e \<notin> set (drop (Suc i) ?xs) \<Longrightarrow> ep_conditions g' e = (if e = ?e then Some r else ep_conditions g e)"
          "rm' = ?rm @ filter (\<lambda>j. leaves g' (?xs ! j)) [Suc i..<length ?xs]" if "out = VDone"
        using finished that same by (simp_all del: filter_append)
      have "leaves g' ?e = (sc_type r = WAIT_EVENT \<or> sc_type r = NEVER)" if "out = VDone"
        using v4(4) [OF that notin] by (auto simp: leaves_def)
      moreover have "ep_conditions g' e = ep_conditions g e" if "out = VDone" "e \<notin> set (drop i ?xs)" for e
        using v4(4) [OF that(1), of e] that(2) dr by auto
      ultimately show ?thesis unfolding eq using v v4(1-3,5) log1 dr c False upt by auto
    qed
  qed
qed


definition demo_epoch :: EpochScheduler where
  "demo_epoch = \<lparr>ep_active = [3, 4, 5], ep_conditions = [3 \<mapsto> cond READY 0, 4 \<mapsto> cond NEVER 0, 5 \<mapsto> cond WAIT 0],
     ep_events = [], ep_stopping = False\<rparr>"


text \<open>An entity that is unscheduled and scheduled again before the next epoch is in the list twice, and
  is executed twice in every epoch.\<close>

lemma rescheduled_twice:
  assumes "ep_active g = [e]" "ep_conditions g e = Some (cond READY 0)"
  shows "ep_active (ep_serve (Schedule e) (ep_serve (Unschedule e) g)) = [e, e]"
  using assms by (simp add: ep_schedule_def ep_unschedule_def for_entity_def set_type_def push_active_def kMaxEntities_def)

text \<open>When the list is full the entity stays marked as scheduled: it can never be scheduled again.\<close>

lemma refused_schedule_is_final:
  assumes "kMaxEntities \<le> length (ep_active g)" "ep_conditions g e = None"
  shows "fst (ep_schedule Success (Inr 1) e g) = GXF_FAILURE \<and>
    fst (ep_schedule Success (Inr 1) e ((snd (ep_schedule Success (Inr 1) e g))\<lparr>ep_active := []\<rparr>)) = GXF_FAILURE"
  using assms by (simp add: ep_schedule_def for_entity_def push_active_def)

end
