(* ===== verification/Behavior_Tree.thy ===== *)
theory Behavior_Tree
  imports Entity_Executor
begin

text \<open>
  gxf/behavior_tree: the codelets of behavior trees and the controller that repeats an entity after a
  failure.  A parent starts and stops its children by set_condition on their BTSchedulingTerm; these
  calls, and those on its own term, are kept as a log.  The answers of Entity::Shared and of
  GxfEntityGetState are the environment of a tick.  None as a result is an access outside of a
  vector or the value of an empty Expected.
\<close>

section \<open>Ticks\<close>

type_synonym bt_log = "(gxf_uid_t \<times> SchedulingConditionType) list"

record bt_env =
  be_shared :: "gxf_uid_t \<Rightarrow> unit expected"
  be_state :: "gxf_uid_t \<Rightarrow> entity_state_t expected"

text \<open>A child is its scheduling term and its entity.\<close>

record bt_node =
  bn_eid :: gxf_uid_t
  bn_term :: gxf_uid_t
  bn_children :: "(gxf_uid_t \<times> gxf_uid_t) list"
  bn_current :: nat

definition bt_set_condition :: "gxf_uid_t \<Rightarrow> SchedulingConditionType \<Rightarrow> bt_log \<Rightarrow> bt_log" where
  "bt_set_condition t c l = l @ [(t, c)]"

definition seq_initialize :: "gxf_uid_t \<Rightarrow> gxf_uid_t \<Rightarrow> (gxf_uid_t \<times> gxf_uid_t) list \<Rightarrow> gxf_result_t \<times> bt_node" where
  "seq_initialize e t cs = (GXF_SUCCESS, \<lparr>bn_eid = e, bn_term = t, bn_children = cs, bn_current = 0\<rparr>)"

definition startChild :: "bt_node \<Rightarrow> nat \<Rightarrow> bt_log \<Rightarrow> bt_log option" where
  "startChild n i l =
     (if i < length (bn_children n) then Some (bt_set_condition (fst (bn_children n ! i)) READY l) else None)"

definition GetChildStatus :: "bt_env \<Rightarrow> bt_node \<Rightarrow> nat \<Rightarrow> entity_state_t" where
  "GetChildStatus env n i =
     (if i \<ge> length (bn_children n) then GXF_BEHAVIOR_UNKNOWN
      else (case be_state env (snd (bn_children n ! i)) of Inl _ \<Rightarrow> GXF_BEHAVIOR_UNKNOWN | Inr s \<Rightarrow> s))"

text \<open>The guards that every tick begins with: the entity itself, and, after the first tick, a child.\<close>

definition guard_self :: "bt_env \<Rightarrow> bt_node \<Rightarrow> bt_log
    \<Rightarrow> (gxf_result_t \<times> bt_node \<times> bt_log) option \<Rightarrow> (gxf_result_t \<times> bt_node \<times> bt_log) option" where
  "guard_self env n l k = (case be_shared env (bn_eid n) of Inl e \<Rightarrow> Some (e, n, l) | Inr _ \<Rightarrow> k)"

definition guard_child :: "bt_env \<Rightarrow> bt_node \<Rightarrow> nat \<Rightarrow> bt_log
    \<Rightarrow> (gxf_result_t \<times> bt_node \<times> bt_log) option \<Rightarrow> (gxf_result_t \<times> bt_node \<times> bt_log) option" where
  "guard_child env n i l k =
     (if i \<ge> length (bn_children n) then None
      else case be_shared env (snd (bn_children n ! i)) of Inl e \<Rightarrow> Some (e, n, l) | Inr _ \<Rightarrow> k)"

text \<open>The end of a tick: a condition for the own term and a result.\<close>

definition finish_tick :: "SchedulingConditionType \<Rightarrow> gxf_result_t \<Rightarrow> bt_node \<Rightarrow> bt_log
    \<Rightarrow> (gxf_result_t \<times> bt_node \<times> bt_log) option" where
  "finish_tick c r n l = Some (r, n, bt_set_condition (bn_term n) c l)"

definition start_next :: "bt_node \<Rightarrow> nat \<Rightarrow> bt_log \<Rightarrow> (gxf_result_t \<times> bt_node \<times> bt_log) option" where
  "start_next n i l = map_option (\<lambda>l'. (GXF_NOT_FINISHED, n\<lparr>bn_current := i\<rparr>, l')) (startChild n i l)"

section \<open>Sequence and selector\<close>

definition sequence_tick :: "bt_env \<Rightarrow> bool \<Rightarrow> bt_node \<Rightarrow> bt_log \<Rightarrow> (gxf_result_t \<times> bt_node \<times> bt_log) option" where
  "sequence_tick env first n l = guard_self env n l
     (if first then
        (if bn_children n = [] then finish_tick NEVER GXF_SUCCESS n l else start_next n 0 l)
      else let i = bn_current n; s = GetChildStatus env n i in guard_child env n i l
        (case s of
           GXF_BEHAVIOR_SUCCESS \<Rightarrow>
             (let n' = n\<lparr>bn_current := i + 1\<rparr> in
              if i + 1 \<ge> length (bn_children n) then finish_tick NEVER GXF_SUCCESS n' l
              else start_next n' (i + 1) l)
         | GXF_BEHAVIOR_FAILURE \<Rightarrow> finish_tick NEVER GXF_FAILURE n l
         | GXF_BEHAVIOR_INIT \<Rightarrow> finish_tick READY GXF_NOT_FINISHED n l
         | GXF_BEHAVIOR_RUNNING \<Rightarrow> finish_tick READY GXF_NOT_FINISHED n l
         | GXF_BEHAVIOR_UNKNOWN \<Rightarrow> finish_tick NEVER GXF_QUERY_NOT_FOUND n l))"

definition selector_tick :: "bt_env \<Rightarrow> bool \<Rightarrow> bt_node \<Rightarrow> bt_log \<Rightarrow> (gxf_result_t \<times> bt_node \<times> bt_log) option" where
  "selector_tick env first n l = guard_self env n l
     (if first then
        (if bn_children n = [] then finish_tick NEVER GXF_FAILURE n l else start_next n 0 l)
      else let i = bn_current n; s = GetChildStatus env n i in guard_child env n i l
        (case s of
           GXF_BEHAVIOR_SUCCESS \<Rightarrow> finish_tick NEVER GXF_SUCCESS n l
         | GXF_BEHAVIOR_FAILURE \<Rightarrow>
             (let n' = n\<lparr>bn_current := i + 1\<rparr> in
              if i + 1 \<ge> length (bn_children n) then finish_tick NEVER GXF_FAILURE n' l
              else start_next n' (i + 1) l)
         | GXF_BEHAVIOR_INIT \<Rightarrow> Some (GXF_NOT_FINISHED, n, l)
         | GXF_BEHAVIOR_RUNNING \<Rightarrow> Some (GXF_NOT_FINISHED, n, l)
         | GXF_BEHAVIOR_UNKNOWN \<Rightarrow> finish_tick NEVER GXF_QUERY_NOT_FOUND n l))"

section \<open>Parallel\<close>

definition stopAllChild :: "bt_node \<Rightarrow> bt_log \<Rightarrow> bt_log" where
  "stopAllChild n l = foldl (\<lambda>l c. bt_set_condition (fst c) NEVER l) l (bn_children n)"

definition startAllChild :: "bt_node \<Rightarrow> bt_log \<Rightarrow> bt_log" where
  "startAllChild n l = foldl (\<lambda>l c. bt_set_condition (fst c) READY l) l (bn_children n)"

definition stop_parallel :: "gxf_result_t \<Rightarrow> bt_node \<Rightarrow> bt_log \<Rightarrow> (gxf_result_t \<times> bt_node \<times> bt_log) option" where
  "stop_parallel r n l = Some (r, n, stopAllChild n (bt_set_condition (bn_term n) NEVER l))"

text \<open>The loop that counts: an Inl ends the tick with the error of Entity::Shared, the middle case with an unknown
  status, otherwise the numbers of successes and failures.\<close>

datatype count_result = SharedError gxf_result_t | UnknownStatus | Counts nat nat

fun count_children :: "bt_env \<Rightarrow> bt_node \<Rightarrow> nat \<Rightarrow> nat \<Rightarrow> (gxf_uid_t \<times> gxf_uid_t) list \<Rightarrow> nat \<Rightarrow> count_result" where
  "count_children env n s f [] i = Counts s f"
| "count_children env n s f (c # cs) i =
     (let st = GetChildStatus env n i in
      case be_shared env (snd c) of Inl e \<Rightarrow> SharedError e
      | Inr _ \<Rightarrow> (case st of
          GXF_BEHAVIOR_INIT \<Rightarrow> count_children env n s f cs (i + 1)
        | GXF_BEHAVIOR_SUCCESS \<Rightarrow> count_children env n (s + 1) f cs (i + 1)
        | GXF_BEHAVIOR_FAILURE \<Rightarrow> count_children env n s (f + 1) cs (i + 1)
        | GXF_BEHAVIOR_RUNNING \<Rightarrow> count_children env n s f cs (i + 1)
        | GXF_BEHAVIOR_UNKNOWN \<Rightarrow> UnknownStatus))"

text \<open>The thresholds are parameters of type int64_t that are cast to int; -1 as a size_t is larger than any
  count.\<close>

definition reached :: "int \<Rightarrow> nat \<Rightarrow> nat \<Rightarrow> bool" where
  "reached threshold num cnt \<longleftrightarrow>
     threshold = -1 \<and> num = cnt \<or> num \<ge> unat (word_of_int threshold :: uint64)"

definition to_int :: "int \<Rightarrow> int" where
  "to_int x = sint (word_of_int x :: 32 word)"

definition parallel_tick :: "int \<Rightarrow> int \<Rightarrow> bt_env \<Rightarrow> bool \<Rightarrow> bt_node \<Rightarrow> bt_log
    \<Rightarrow> (gxf_result_t \<times> bt_node \<times> bt_log) option" where
  "parallel_tick success_threshold failure_threshold env first n l = guard_self env n l
     (if first then
        (if bn_children n = [] then finish_tick NEVER GXF_SUCCESS n l
         else Some (GXF_NOT_FINISHED, n, startAllChild n l))
      else case count_children env n 0 0 (bn_children n) 0 of
        SharedError e \<Rightarrow> Some (e, n, l)
      | UnknownStatus \<Rightarrow> stop_parallel GXF_QUERY_NOT_FOUND n l
      | Counts s f \<Rightarrow>
          let st = to_int success_threshold; ft = to_int failure_threshold; cnt = length (bn_children n) in
          if st < -1 then stop_parallel GXF_ARGUMENT_OUT_OF_RANGE n l
          else if reached st s cnt then stop_parallel GXF_SUCCESS n l
          else if ft < -1 then stop_parallel GXF_ARGUMENT_OUT_OF_RANGE n l
          else if reached ft f cnt then stop_parallel GXF_FAILURE n l
          else Some (GXF_NOT_FINISHED, n, l))"

section \<open>Switch, repeat, constant and timer\<close>

definition switch_tick :: "nat \<Rightarrow> bt_env \<Rightarrow> bool \<Rightarrow> bt_node \<Rightarrow> bt_log \<Rightarrow> (gxf_result_t \<times> bt_node \<times> bt_log) option" where
  "switch_tick desired_behavior env first n l = guard_self env n l
     (if first then
        (if bn_children n = [] then finish_tick NEVER GXF_SUCCESS n l else start_next n desired_behavior l)
      else let i = bn_current n; s = GetChildStatus env n i in guard_child env n i l
        (case s of
           GXF_BEHAVIOR_SUCCESS \<Rightarrow> finish_tick NEVER GXF_SUCCESS n l
         | GXF_BEHAVIOR_FAILURE \<Rightarrow> finish_tick NEVER GXF_FAILURE n l
         | GXF_BEHAVIOR_INIT \<Rightarrow> finish_tick READY GXF_NOT_FINISHED n l
         | GXF_BEHAVIOR_RUNNING \<Rightarrow> finish_tick READY GXF_NOT_FINISHED n l
         | GXF_BEHAVIOR_UNKNOWN \<Rightarrow> finish_tick NEVER GXF_QUERY_NOT_FOUND n l))"

definition repeat_tick :: "bool \<Rightarrow> bt_env \<Rightarrow> bool \<Rightarrow> bt_node \<Rightarrow> bt_log \<Rightarrow> (gxf_result_t \<times> bt_node \<times> bt_log) option" where
  "repeat_tick repeat_after_failure env first n l = guard_self env n l
     (if first then
        (if length (bn_children n) \<noteq> 1 then finish_tick NEVER GXF_SUCCESS n l
         else Option.bind (startChild n 0 l) (finish_tick READY GXF_NOT_FINISHED n))
      else let s = GetChildStatus env n 0 in guard_child env n 0 l
        (let restart = Option.bind (startChild n 0 (bt_set_condition (bn_term n) READY l))
                         (\<lambda>l'. Some (GXF_NOT_FINISHED, n, l')) in
         case s of
           GXF_BEHAVIOR_SUCCESS \<Rightarrow> restart
         | GXF_BEHAVIOR_FAILURE \<Rightarrow> (if repeat_after_failure then restart else finish_tick NEVER GXF_FAILURE n l)
         | GXF_BEHAVIOR_UNKNOWN \<Rightarrow> restart
         | GXF_BEHAVIOR_RUNNING \<Rightarrow> restart
         | GXF_BEHAVIOR_INIT \<Rightarrow> restart))"

definition constant_tick :: "nat \<Rightarrow> bt_env \<Rightarrow> bt_node \<Rightarrow> bt_log \<Rightarrow> (gxf_result_t \<times> bt_node \<times> bt_log) option" where
  "constant_tick constant_status env n l = guard_self env n l
     (if constant_status = 0 then finish_tick NEVER GXF_SUCCESS n l
      else finish_tick READY GXF_FAILURE n l)"

text \<open>The comparison of the waiting time with the delay is in floating point and is the parameter elapsed.\<close>

record TimerBehavior =
  tb_term :: gxf_uid_t
  is_first_tick :: bool
  last_switch_timestamp :: int

definition timer_initialize :: "TimerBehavior \<Rightarrow> gxf_result_t \<times> TimerBehavior" where
  "timer_initialize b = (GXF_SUCCESS, b\<lparr>is_first_tick := True, last_switch_timestamp := 0\<rparr>)"

definition timer_tick :: "(int \<Rightarrow> bool) \<Rightarrow> nat \<Rightarrow> int \<Rightarrow> TimerBehavior \<Rightarrow> bt_log \<Rightarrow> gxf_result_t \<times> TimerBehavior \<times> bt_log" where
  "timer_tick elapsed switch_status now b l =
     (let b1 = (if is_first_tick b then b\<lparr>last_switch_timestamp := now, is_first_tick := False\<rparr> else b) in
      if elapsed (now - last_switch_timestamp b1) then
        (let (c, r) = (if switch_status = 0 then (NEVER, GXF_SUCCESS)
                       else if switch_status = 1 then (NEVER, GXF_FAILURE)
                       else if switch_status = 2 then (READY, GXF_NOT_FINISHED)
                       else (NEVER, GXF_FAILURE)) in
         (r, b1\<lparr>last_switch_timestamp := now\<rparr>, bt_set_condition (tb_term b) c l))
      else (GXF_NOT_FINISHED, b1, bt_set_condition (tb_term b) READY l))"

section \<open>The controller that repeats after a failure\<close>

record RepeatController =
  rc_repeat_count :: nat
  rc_max_repeat_count :: nat
  rc_running_if_repeat :: bool

definition rc_initialize :: "RepeatController \<Rightarrow> gxf_result_t \<times> RepeatController" where
  "rc_initialize c = (GXF_SUCCESS, c\<lparr>rc_repeat_count := 0\<rparr>)"

definition rc_setBehaviorStatus :: "gxf_result_t \<Rightarrow> entity_state_t" where
  "rc_setBehaviorStatus r =
     (if r = GXF_SUCCESS then GXF_BEHAVIOR_SUCCESS
      else if r = GXF_NOT_FINISHED then GXF_BEHAVIOR_RUNNING else GXF_BEHAVIOR_FAILURE)"

text \<open>repeat_count_ is a size_t; the flag tells whether Entity::Shared succeeds.\<close>

definition rc_setExecStatus :: "bool \<Rightarrow> entity_state_t \<Rightarrow> RepeatController
    \<Rightarrow> gxf_execution_status_t \<times> entity_state_t \<times> RepeatController" where
  "rc_setExecStatus shared s c =
     (if \<not> shared then (GXF_EXECUTE_FAILURE, s, c)
      else case s of
        GXF_BEHAVIOR_INIT \<Rightarrow> (GXF_EXECUTE_FAILURE_REPEAT, s, c)
      | GXF_BEHAVIOR_RUNNING \<Rightarrow> (GXF_EXECUTE_SUCCESS, s, c)
      | GXF_BEHAVIOR_SUCCESS \<Rightarrow> (GXF_EXECUTE_SUCCESS, s, c)
      | GXF_BEHAVIOR_FAILURE \<Rightarrow>
          (let c1 = c\<lparr>rc_repeat_count := (rc_repeat_count c + 1) mod 2 ^ 64\<rparr> in
           if rc_repeat_count c1 \<le> rc_max_repeat_count c then
             (GXF_EXECUTE_FAILURE_REPEAT, (if rc_running_if_repeat c then GXF_BEHAVIOR_RUNNING else s), c1)
           else (GXF_EXECUTE_FAILURE_DEACTIVATE, s, c1))
      | GXF_BEHAVIOR_UNKNOWN \<Rightarrow> (GXF_EXECUTE_SUCCESS, s, c))"

definition rc_control :: "bool \<Rightarrow> unit expected \<Rightarrow> RepeatController \<Rightarrow> gxf_controller_status_t \<times> RepeatController" where
  "rc_control shared code c =
     (let (ex, s, c1) = rc_setExecStatus shared (rc_setBehaviorStatus (ToResultCode code)) c in
      (\<lparr>cs_behavior_status = s, cs_exec_status = ex\<rparr>, c1))"

section \<open>Runs\<close>

text \<open>A node is ticked until it returns something else than GXF_NOT_FINISHED.\<close>

fun bt_run :: "(bt_env \<Rightarrow> bool \<Rightarrow> bt_node \<Rightarrow> bt_log \<Rightarrow> (gxf_result_t \<times> bt_node \<times> bt_log) option)
    \<Rightarrow> bt_env list \<Rightarrow> bool \<Rightarrow> bt_node \<Rightarrow> bt_log \<Rightarrow> (gxf_result_t \<times> bt_node \<times> bt_log) option" where
  "bt_run tick [] first n l = Some (GXF_NOT_FINISHED, n, l)"
| "bt_run tick (e # es) first n l = Option.bind (tick e first n l) (\<lambda>(r, n', l').
     if r = GXF_NOT_FINISHED then bt_run tick es False n' l' else Some (r, n', l'))"

definition all_shared :: "bt_env \<Rightarrow> bool" where
  "all_shared env \<longleftrightarrow> (\<forall>x. ok (be_shared env x))"

definition reports :: "entity_state_t \<Rightarrow> gxf_uid_t \<times> gxf_uid_t \<Rightarrow> bt_env \<Rightarrow> bool" where
  "reports s c env \<longleftrightarrow> be_state env (snd c) = Inr s"

definition calls_of_others :: "gxf_uid_t \<Rightarrow> bt_log \<Rightarrow> bt_log" where
  "calls_of_others t l = filter (\<lambda>x. fst x \<noteq> t) l"

lemma calls_of_others_simps [simp]:
  "calls_of_others t [] = []" "calls_of_others t (l @ m) = calls_of_others t l @ calls_of_others t m"
  "calls_of_others t (x # l) = (if fst x = t then calls_of_others t l else x # calls_of_others t l)"
  by (auto simp: calls_of_others_def)

lemma guards_shared [simp]:
  "all_shared env \<Longrightarrow> guard_self env n l k = k"
  "all_shared env \<Longrightarrow> i < length (bn_children n) \<Longrightarrow> guard_child env n i l k = k"
  by (auto simp: guard_self_def guard_child_def all_shared_def split: sum.splits dest: spec)

lemma child_status: "i < length (bn_children n) \<Longrightarrow>
  GetChildStatus env n i = s \<Longrightarrow> s \<noteq> GXF_BEHAVIOR_UNKNOWN \<Longrightarrow> reports s (bn_children n ! i) env"
  by (auto simp: GetChildStatus_def reports_def split: sum.splits)

text \<open>The ticks at which the members of a list meet a predicate, one after the other.\<close>

fun in_order :: "('c \<Rightarrow> 'e \<Rightarrow> bool) \<Rightarrow> 'c list \<Rightarrow> 'e list \<Rightarrow> bool" where
  "in_order P [] es \<longleftrightarrow> True"
| "in_order P (c # cs) [] \<longleftrightarrow> False"
| "in_order P (c # cs) (e # es) \<longleftrightarrow> P c e \<and> in_order P cs es \<or> in_order P (c # cs) es"

lemma in_order_later: "in_order P cs es \<Longrightarrow> in_order P cs (e # es)"
  by (cases cs) auto

text \<open>What a run of a sequence does after the first tick, when child i is the current one.\<close>

definition sequence_run_spec :: "gxf_uid_t \<Rightarrow> (gxf_uid_t \<times> gxf_uid_t) list \<Rightarrow> nat \<Rightarrow> bt_env list
    \<Rightarrow> gxf_result_t \<Rightarrow> bt_log \<Rightarrow> bool" where
  "sequence_run_spec t cs i es r m \<longleftrightarrow> (\<exists>j. i + j < length cs \<and>
     calls_of_others t m = map (\<lambda>c. (fst c, READY)) (take j (drop (i + 1) cs)) \<and>
     in_order (reports GXF_BEHAVIOR_SUCCESS) (take j (drop i cs)) es \<and>
     (r = GXF_SUCCESS \<longrightarrow> i + j + 1 = length cs \<and> in_order (reports GXF_BEHAVIOR_SUCCESS) (drop i cs) es) \<and>
     (r = GXF_FAILURE \<longrightarrow> (\<exists>env\<in>set es. reports GXF_BEHAVIOR_FAILURE (cs ! (i + j)) env)) \<and>
     r \<in> {GXF_SUCCESS, GXF_FAILURE, GXF_NOT_FINISHED, GXF_QUERY_NOT_FOUND} \<and>
     (if r = GXF_NOT_FINISHED then (t, NEVER) \<notin> set m else m \<noteq> [] \<and> last m = (t, NEVER)))"

lemma sequence_run:
  assumes "list_all all_shared es" "bn_current n = i" "i < length (bn_children n)"
    "bn_term n \<notin> fst ` set (bn_children n)"
  shows "\<exists>r n' m. bt_run sequence_tick es False n l = Some (r, n', l @ m) \<and> sequence_run_spec (bn_term n) (bn_children n) i es r m"
  using assms
proof (induction es arbitrary: n i l)
  case Nil
  then show ?case by (auto simp: sequence_run_spec_def intro!: exI [of _ 0])
next
  case (Cons e es)
  let ?cs = "bn_children n"
  have sh: "all_shared e" and i: "i < length ?cs" "bn_current n = i" using Cons.prems by auto
  have drop: "drop i ?cs = ?cs ! i # drop (i + 1) ?cs" using i by (simp add: Cons_nth_drop_Suc)
  have waiting: ?case if w: "GetChildStatus e n i = GXF_BEHAVIOR_INIT \<or> GetChildStatus e n i = GXF_BEHAVIOR_RUNNING"
  proof -
    let ?s = "[(bn_term n, READY)]"
    obtain r n' m where m: "bt_run sequence_tick es False n (l @ ?s) = Some (r, n', (l @ ?s) @ m)" "sequence_run_spec (bn_term n) (bn_children n) i es r m"
      using Cons.IH [of n i "l @ ?s"] Cons.prems by auto
    have "sequence_run_spec (bn_term n) (bn_children n) i (e # es) r (?s @ m)" using m(2) unfolding sequence_run_spec_def
      by (elim exE, intro exI) (auto intro: in_order_later split: if_splits)
    moreover have "bt_run sequence_tick (e # es) False n l = Some (r, n', l @ ?s @ m)"
      using w sh i m(1) by (auto simp: sequence_tick_def Let_def finish_tick_def bt_set_condition_def)
    ultimately show ?thesis by blast
  qed
  show ?case
  proof (cases "GetChildStatus e n i")
    case GXF_BEHAVIOR_SUCCESS
    then have rep: "reports GXF_BEHAVIOR_SUCCESS (?cs ! i) e" using child_status i by blast
    show ?thesis
    proof (cases "i + 1 < length ?cs")
      case False
      let ?m = "[(bn_term n, NEVER)]"
      have "drop i ?cs = [?cs ! i]" using drop False i by simp
      then have "sequence_run_spec (bn_term n) (bn_children n) i (e # es) GXF_SUCCESS ?m"
        using rep False i unfolding sequence_run_spec_def by (intro exI [of _ 0]) auto
      moreover have "bt_run sequence_tick (e # es) False n l = Some (GXF_SUCCESS, n\<lparr>bn_current := i + 1\<rparr>, l @ ?m)"
        using GXF_BEHAVIOR_SUCCESS sh i False by (simp add: sequence_tick_def Let_def finish_tick_def bt_set_condition_def)
      ultimately show ?thesis by blast
    next
      case True
      let ?n = "n\<lparr>bn_current := i + 1\<rparr>" and ?s = "[(fst (?cs ! (i + 1)), READY)]"
      obtain r n' m where m: "bt_run sequence_tick es False ?n (l @ ?s) = Some (r, n', (l @ ?s) @ m)"
        "sequence_run_spec (bn_term n) ?cs (i + 1) es r m" using Cons.IH [of ?n "i + 1" "l @ ?s"] Cons.prems True by auto
      have own: "fst (?cs ! (i + 1)) \<noteq> bn_term n" using Cons.prems(4) True by (metis image_eqI nth_mem)
      obtain j where j: "i + 1 + j < length ?cs"
        "calls_of_others (bn_term n) m = map (\<lambda>c. (fst c, READY)) (take j (drop (i + 1 + 1) ?cs))"
        "in_order (reports GXF_BEHAVIOR_SUCCESS) (take j (drop (i + 1) ?cs)) es"
        "r = GXF_SUCCESS \<longrightarrow> i + 1 + j + 1 = length ?cs \<and> in_order (reports GXF_BEHAVIOR_SUCCESS) (drop (i + 1) ?cs) es"
        "r = GXF_FAILURE \<longrightarrow> (\<exists>env\<in>set es. reports GXF_BEHAVIOR_FAILURE (?cs ! (i + 1 + j)) env)"
        "r \<in> {GXF_SUCCESS, GXF_FAILURE, GXF_NOT_FINISHED, GXF_QUERY_NOT_FOUND}"
        "if r = GXF_NOT_FINISHED then (bn_term n, NEVER) \<notin> set m else m \<noteq> [] \<and> last m = (bn_term n, NEVER)"
        using m(2) unfolding sequence_run_spec_def by blast
      have nx: "drop (i + 1) ?cs = ?cs ! (i + 1) # drop (i + 1 + 1) ?cs" using True by (simp add: Cons_nth_drop_Suc)
      have "sequence_run_spec (bn_term n) (bn_children n) i (e # es) r (?s @ m)" unfolding sequence_run_spec_def
      proof (intro exI [of _ "j + 1"] conjI)
        show "calls_of_others (bn_term n) (?s @ m) = map (\<lambda>c. (fst c, READY)) (take (j + 1) (drop (i + 1) ?cs))"
          using j(2) nx own by simp
        show "in_order (reports GXF_BEHAVIOR_SUCCESS) (take (j + 1) (drop i ?cs)) (e # es)" using j(3) drop rep by simp
        show "r = GXF_SUCCESS \<longrightarrow> i + (j + 1) + 1 = length ?cs \<and> in_order (reports GXF_BEHAVIOR_SUCCESS) (drop i ?cs) (e # es)"
          using j(4) drop rep by auto
        show "r = GXF_FAILURE \<longrightarrow> (\<exists>env\<in>set (e # es). reports GXF_BEHAVIOR_FAILURE (?cs ! (i + (j + 1))) env)"
          using j(5) by auto
        show "if r = GXF_NOT_FINISHED then (bn_term n, NEVER) \<notin> set (?s @ m) else ?s @ m \<noteq> [] \<and> last (?s @ m) = (bn_term n, NEVER)"
          using j(7) own by auto
      qed (use j in auto)
      moreover have "bt_run sequence_tick (e # es) False n l = Some (r, n', l @ ?s @ m)"
        using GXF_BEHAVIOR_SUCCESS sh i True m(1)
        by (simp add: sequence_tick_def Let_def start_next_def startChild_def bt_set_condition_def)
      ultimately show ?thesis by blast
    qed
  next
    case GXF_BEHAVIOR_FAILURE
    then have "reports GXF_BEHAVIOR_FAILURE (?cs ! i) e" using child_status i by blast
    then have "sequence_run_spec (bn_term n) (bn_children n) i (e # es) GXF_FAILURE [(bn_term n, NEVER)]"
      using i unfolding sequence_run_spec_def by (intro exI [of _ 0]) auto
    moreover have "bt_run sequence_tick (e # es) False n l = Some (GXF_FAILURE, n, l @ [(bn_term n, NEVER)])"
      using GXF_BEHAVIOR_FAILURE sh i by (simp add: sequence_tick_def Let_def finish_tick_def bt_set_condition_def)
    ultimately show ?thesis by blast
  next
    case GXF_BEHAVIOR_UNKNOWN
    then have "sequence_run_spec (bn_term n) (bn_children n) i (e # es) GXF_QUERY_NOT_FOUND [(bn_term n, NEVER)]"
      using i unfolding sequence_run_spec_def by (intro exI [of _ 0]) auto
    moreover have "bt_run sequence_tick (e # es) False n l = Some (GXF_QUERY_NOT_FOUND, n, l @ [(bn_term n, NEVER)])"
      using GXF_BEHAVIOR_UNKNOWN sh i by (simp add: sequence_tick_def Let_def finish_tick_def bt_set_condition_def)
    ultimately show ?thesis by blast
  qed (use waiting in blast)+
qed

text \<open>When no child ever fails, the run succeeds exactly when the children succeed one after the other.\<close>

definition never_fails :: "(gxf_uid_t \<times> gxf_uid_t) list \<Rightarrow> bt_env \<Rightarrow> bool" where
  "never_fails cs env \<longleftrightarrow>
     (\<forall>c\<in>set cs. be_state env (snd c) \<in> {Inr GXF_BEHAVIOR_INIT, Inr GXF_BEHAVIOR_RUNNING, Inr GXF_BEHAVIOR_SUCCESS})"

lemma in_order_tl: "in_order P (c # cs) es \<Longrightarrow> in_order P cs es"
  by (induction es) (auto intro: in_order_later)

lemma in_order_step: "in_order P (c # cs) (e # es) \<Longrightarrow> in_order P (if P c e then cs else c # cs) es"
  by (auto dest: in_order_tl)

lemma sequence_completes:
  assumes "list_all all_shared es" "list_all (never_fails (bn_children n)) es" "bn_current n = i"
    "i < length (bn_children n)" "in_order (reports GXF_BEHAVIOR_SUCCESS) (drop i (bn_children n)) es"
  shows "\<exists>n' m. bt_run sequence_tick es False n l = Some (GXF_SUCCESS, n', m)"
  using assms
proof (induction es arbitrary: n i l)
  case Nil
  then show ?case by (auto simp: Cons_nth_drop_Suc [symmetric])
next
  case (Cons e es)
  let ?cs = "bn_children n"
  have sh: "all_shared e" and i: "i < length ?cs" "bn_current n = i" using Cons.prems by auto
  have drop: "drop i ?cs = ?cs ! i # drop (i + 1) ?cs" using i by (simp add: Cons_nth_drop_Suc)
  have st: "be_state e (snd (?cs ! i)) \<in> {Inr GXF_BEHAVIOR_INIT, Inr GXF_BEHAVIOR_RUNNING, Inr GXF_BEHAVIOR_SUCCESS}"
    using Cons.prems(2) i by (auto simp: never_fails_def)
  note next_in = in_order_step [OF Cons.prems(5) [unfolded drop]]
  show ?case
  proof (cases "reports GXF_BEHAVIOR_SUCCESS (?cs ! i) e")
    case True
    then have s: "GetChildStatus e n i = GXF_BEHAVIOR_SUCCESS" using i by (simp add: GetChildStatus_def reports_def)
    show ?thesis
    proof (cases "i + 1 < length ?cs")
      case False
      then show ?thesis using s sh i by (simp add: sequence_tick_def [of e] Let_def finish_tick_def)
    next
      case more: True
      let ?n = "n\<lparr>bn_current := i + 1\<rparr>"
      have "in_order (reports GXF_BEHAVIOR_SUCCESS) (drop (i + 1) ?cs) es" using next_in True by simp
      then obtain n' m where "bt_run sequence_tick es False ?n (l @ [(fst (?cs ! (i + 1)), READY)]) = Some (GXF_SUCCESS, n', m)"
        using Cons.IH [of ?n "i + 1" "l @ [(fst (?cs ! (i + 1)), READY)]"] Cons.prems more by auto
      then show ?thesis using s sh i more
        by (simp add: sequence_tick_def [of e] Let_def start_next_def startChild_def bt_set_condition_def)
    qed
  next
    case False
    then have s: "GetChildStatus e n i = GXF_BEHAVIOR_INIT \<or> GetChildStatus e n i = GXF_BEHAVIOR_RUNNING"
      using st i by (auto simp: GetChildStatus_def reports_def)
    have "in_order (reports GXF_BEHAVIOR_SUCCESS) (drop i ?cs) es" using next_in False drop by simp
    then obtain n' m where "bt_run sequence_tick es False n (l @ [(bn_term n, READY)]) = Some (GXF_SUCCESS, n', m)"
      using Cons.IH [of n i "l @ [(bn_term n, READY)]"] Cons.prems by auto
    then show ?thesis using s sh i by (auto simp: sequence_tick_def [of e] Let_def finish_tick_def bt_set_condition_def)
  qed
qed

text \<open>C31: A sequence starts its children in order, each once, and the next only after the one before has reported
  success.  It succeeds only after all children have, one after the other, and fails only on the failure of
  the child that is running; when it is over it disables its own term.  If no child fails it
  does succeed as soon as the children have succeeded one after the other.\<close>

theorem sequence_runs_in_order:
  assumes "list_all all_shared (e # es)" "bn_children n \<noteq> []" "bn_term n \<notin> fst ` set (bn_children n)"
  shows "\<exists>r n' m k. bt_run sequence_tick (e # es) True n [] = Some (r, n', m) \<and>
    0 < k \<and> k \<le> length (bn_children n) \<and>
    calls_of_others (bn_term n) m = map (\<lambda>c. (fst c, READY)) (take k (bn_children n)) \<and>
    in_order (reports GXF_BEHAVIOR_SUCCESS) (take (k - 1) (bn_children n)) es \<and>
    (r = GXF_SUCCESS \<longrightarrow> k = length (bn_children n) \<and> in_order (reports GXF_BEHAVIOR_SUCCESS) (bn_children n) es) \<and>
    (r = GXF_FAILURE \<longrightarrow> (\<exists>env\<in>set es. reports GXF_BEHAVIOR_FAILURE (bn_children n ! (k - 1)) env)) \<and>
    (r \<noteq> GXF_NOT_FINISHED \<longrightarrow> last m = (bn_term n, NEVER)) \<and>
    (list_all (never_fails (bn_children n)) es \<and> in_order (reports GXF_BEHAVIOR_SUCCESS) (bn_children n) es
      \<longrightarrow> r = GXF_SUCCESS)"
proof -
  let ?n = "n\<lparr>bn_current := 0\<rparr>" and ?cs = "bn_children n" and ?s = "[(fst (bn_children n ! 0), READY)]"
  have l: "0 < length ?cs" and sh: "all_shared e" "list_all all_shared es" using assms by auto
  obtain r n' m where m: "bt_run sequence_tick es False ?n ?s = Some (r, n', ?s @ m)"
    "sequence_run_spec (bn_term n) ?cs 0 es r m" using sequence_run [OF sh(2), of ?n 0 ?s] l assms(3) by auto
  have run: "bt_run sequence_tick (e # es) True n [] = Some (r, n', ?s @ m)"
    using m(1) sh l assms(2) by (simp add: sequence_tick_def start_next_def startChild_def bt_set_condition_def)
  have own: "fst (?cs ! 0) \<noteq> bn_term n" using assms(3) l by (metis image_eqI nth_mem)
  obtain c cs where cs: "?cs = c # cs" using assms(2) by (cases ?cs) auto
  obtain j where j: "j < length ?cs" "calls_of_others (bn_term n) m = map (\<lambda>c. (fst c, READY)) (take j (drop 1 ?cs))"
    "in_order (reports GXF_BEHAVIOR_SUCCESS) (take j ?cs) es"
    "r = GXF_SUCCESS \<longrightarrow> j + 1 = length ?cs \<and> in_order (reports GXF_BEHAVIOR_SUCCESS) ?cs es"
    "r = GXF_FAILURE \<longrightarrow> (\<exists>env\<in>set es. reports GXF_BEHAVIOR_FAILURE (?cs ! j) env)"
    "if r = GXF_NOT_FINISHED then (bn_term n, NEVER) \<notin> set m else m \<noteq> [] \<and> last m = (bn_term n, NEVER)"
    using m(2) by (auto simp: sequence_run_spec_def)
  have compl: "r = GXF_SUCCESS" if "list_all (never_fails ?cs) es" "in_order (reports GXF_BEHAVIOR_SUCCESS) ?cs es"
    using sequence_completes [OF sh(2), of ?n 0 ?s] that l m(1) by auto
  show ?thesis
    by (intro exI [of _ r] exI [of _ n'] exI [of _ "?s @ m"] exI [of _ "j + 1"])
       (use run j own cs compl in \<open>auto split: if_splits\<close>)
qed

definition demo_node :: bt_node where
  "demo_node = \<lparr>bn_eid = 1, bn_term = 100, bn_children = [(101, 11), (102, 12)], bn_current = 0\<rparr>"

definition demo_env :: "entity_state_t \<Rightarrow> entity_state_t \<Rightarrow> bt_env" where
  "demo_env s t = \<lparr>be_shared = (\<lambda>_. Success), be_state = (\<lambda>e. if e = 11 then Inr s else Inr t)\<rparr>"

lemma all_shared_demo [simp]: "all_shared (demo_env s t)"
  by (simp add: all_shared_def demo_env_def)

theorem sequence_runs_in_order_witness:
  "\<exists>n' m. bt_run sequence_tick [demo_env GXF_BEHAVIOR_INIT GXF_BEHAVIOR_INIT,
       demo_env GXF_BEHAVIOR_RUNNING GXF_BEHAVIOR_INIT, demo_env GXF_BEHAVIOR_SUCCESS GXF_BEHAVIOR_INIT,
       demo_env GXF_BEHAVIOR_SUCCESS GXF_BEHAVIOR_SUCCESS] True demo_node [] = Some (GXF_SUCCESS, n', m) \<and>
     calls_of_others 100 m = [(101, READY), (102, READY)] \<and> last m = (100, NEVER)"
proof -
  let ?es = "[demo_env GXF_BEHAVIOR_RUNNING GXF_BEHAVIOR_INIT, demo_env GXF_BEHAVIOR_SUCCESS GXF_BEHAVIOR_INIT,
       demo_env GXF_BEHAVIOR_SUCCESS GXF_BEHAVIOR_SUCCESS]"
  have l: "list_all all_shared (demo_env GXF_BEHAVIOR_INIT GXF_BEHAVIOR_INIT # ?es)" by simp
  have c: "bn_children demo_node \<noteq> []" "bn_term demo_node \<notin> fst ` set (bn_children demo_node)"
    by (simp_all add: demo_node_def)
  have s: "list_all (never_fails (bn_children demo_node)) ?es"
    "in_order (reports GXF_BEHAVIOR_SUCCESS) (bn_children demo_node) ?es"
    by (simp_all add: demo_node_def never_fails_def demo_env_def reports_def)
  from sequence_runs_in_order [OF l c] s obtain n' m where
    "bt_run sequence_tick (demo_env GXF_BEHAVIOR_INIT GXF_BEHAVIOR_INIT # ?es) True demo_node [] = Some (GXF_SUCCESS, n', m)"
    "calls_of_others (bn_term demo_node) m = map (\<lambda>c. (fst c, READY)) (take (length (bn_children demo_node)) (bn_children demo_node))"
    "last m = (bn_term demo_node, NEVER)" by force
  then show ?thesis by (simp add: demo_node_def)
qed

section \<open>The selector is the dual of the sequence\<close>

fun swap_state :: "entity_state_t \<Rightarrow> entity_state_t" where
  "swap_state GXF_BEHAVIOR_SUCCESS = GXF_BEHAVIOR_FAILURE"
| "swap_state GXF_BEHAVIOR_FAILURE = GXF_BEHAVIOR_SUCCESS"
| "swap_state s = s"

definition swap_result :: "gxf_result_t \<Rightarrow> gxf_result_t" where
  "swap_result r = (if r = GXF_SUCCESS then GXF_FAILURE else if r = GXF_FAILURE then GXF_SUCCESS else r)"

definition swap_env :: "bt_env \<Rightarrow> bt_env" where
  "swap_env env = env\<lparr>be_state := (\<lambda>e. map_sum id swap_state (be_state env e))\<rparr>"

text \<open>A sequence sets its own term to READY while it waits; a selector does not.\<close>

definition no_waiting :: "gxf_uid_t \<Rightarrow> bt_log \<Rightarrow> bt_log" where
  "no_waiting t l = filter (\<lambda>x. x \<noteq> (t, READY)) l"

lemma swap_env_sel [simp]: "be_shared (swap_env env) = be_shared env" "all_shared (swap_env env) = all_shared env"
  by (simp_all add: swap_env_def all_shared_def)

lemma GetChildStatus_swap: "GetChildStatus (swap_env env) n i = swap_state (GetChildStatus env n i)"
  by (simp add: GetChildStatus_def swap_env_def split: sum.splits)

lemma tick_dual:
  assumes "all_shared env" "bn_term n \<notin> fst ` set (bn_children n)"
  shows "selector_tick (swap_env env) first n (no_waiting (bn_term n) l) =
    map_option (\<lambda>(r, n', m). (swap_result r, n', no_waiting (bn_term n) m)) (sequence_tick env first n l)"
proof -
  have own: "fst (bn_children n ! i) \<noteq> bn_term n" if "i < length (bn_children n)" for i
    using assms(2) that by (metis image_eqI nth_mem)
  have sh: "all_shared (swap_env env)" using assms(1) by simp
  show ?thesis
  proof (cases "bn_current n < length (bn_children n)")
    case True
    then show ?thesis using assms(1) sh own
      by (cases "GetChildStatus env n (bn_current n)")
         (auto simp: selector_tick_def sequence_tick_def GetChildStatus_swap Let_def start_next_def startChild_def
            finish_tick_def bt_set_condition_def no_waiting_def swap_result_def)
  next
    case False
    then show ?thesis using assms(1) sh own
      by (auto simp: selector_tick_def sequence_tick_def guard_child_def Let_def start_next_def startChild_def
            finish_tick_def bt_set_condition_def no_waiting_def swap_result_def)
  qed
qed

lemma sequence_tick_frame:
  "sequence_tick env first n l = Some (r, n', l') \<Longrightarrow> bn_term n' = bn_term n \<and> bn_children n' = bn_children n"
  by (auto simp: sequence_tick_def guard_self_def guard_child_def Let_def start_next_def startChild_def finish_tick_def
      split: if_splits sum.splits entity_state_t.splits)

text \<open>The selector is the dual of the sequence: over any ticks, with the successes and failures of the children
  exchanged, it starts the same children at the same ticks and ends with the dual result.  The only
  difference is that a waiting sequence sets its own term to READY.\<close>

theorem selector_dual_sequence:
  assumes "list_all all_shared es" "bn_term n \<notin> fst ` set (bn_children n)"
  shows "bt_run selector_tick (map swap_env es) first n (no_waiting (bn_term n) l) =
    map_option (\<lambda>(r, n', m). (swap_result r, n', no_waiting (bn_term n) m)) (bt_run sequence_tick es first n l)"
  using assms
proof (induction es arbitrary: first n l)
  case (Cons e es)
  show ?case
  proof (cases "sequence_tick e first n l")
    case None
    then show ?thesis using tick_dual [of e n first l] Cons.prems by simp
  next
    case (Some x)
    obtain r n' l' where x: "x = (r, n', l')" by (rule prod_cases3)
    have f: "bn_term n' = bn_term n" "bn_children n' = bn_children n" using sequence_tick_frame Some x by blast+
    have "swap_result r = GXF_NOT_FINISHED \<longleftrightarrow> r = GXF_NOT_FINISHED" by (auto simp: swap_result_def)
    then show ?thesis using tick_dual [of e n first l] Cons.prems Some x f Cons.IH [of n' False l'] by simp
  qed
qed (simp add: swap_result_def)

theorem selector_dual_sequence_witness:
  "\<exists>n' m. bt_run selector_tick (map swap_env [demo_env GXF_BEHAVIOR_INIT GXF_BEHAVIOR_INIT,
       demo_env GXF_BEHAVIOR_SUCCESS GXF_BEHAVIOR_INIT, demo_env GXF_BEHAVIOR_SUCCESS GXF_BEHAVIOR_SUCCESS]) True
     demo_node [] = Some (GXF_FAILURE, n', m) \<and> m = [(101, READY), (102, READY), (100, NEVER)]"
proof -
  let ?es = "[demo_env GXF_BEHAVIOR_INIT GXF_BEHAVIOR_INIT,
       demo_env GXF_BEHAVIOR_SUCCESS GXF_BEHAVIOR_INIT, demo_env GXF_BEHAVIOR_SUCCESS GXF_BEHAVIOR_SUCCESS]"
  have run: "bt_run sequence_tick ?es True demo_node [] =
      Some (GXF_SUCCESS, demo_node\<lparr>bn_current := 2\<rparr>, [(101, READY), (102, READY), (100, NEVER)])"
    by (simp add: sequence_tick_def guard_self_def guard_child_def demo_node_def demo_env_def start_next_def
      startChild_def bt_set_condition_def GetChildStatus_def finish_tick_def Let_def)
  have c: "list_all all_shared ?es" "bn_term demo_node \<notin> fst ` set (bn_children demo_node)" by (simp_all add: demo_node_def)
  from selector_dual_sequence [OF c, of True "[]"] show ?thesis unfolding run
    by (simp add: no_waiting_def swap_result_def demo_node_def)
qed

section \<open>Parallel children\<close>

definition count_state :: "bt_env \<Rightarrow> entity_state_t \<Rightarrow> (gxf_uid_t \<times> gxf_uid_t) list \<Rightarrow> nat" where
  "count_state env s cs = length (filter (\<lambda>c. reports s c env) cs)"

lemma count_children_known:
  assumes "all_shared env" "list_all (\<lambda>c. \<exists>s. s \<noteq> GXF_BEHAVIOR_UNKNOWN \<and> reports s c env) cs"
    "cs = drop i (bn_children n)"
  shows "count_children env n s f cs i = Counts (s + count_state env GXF_BEHAVIOR_SUCCESS cs) (f + count_state env GXF_BEHAVIOR_FAILURE cs)"
  using assms
proof (induction cs arbitrary: s f i)
  case (Cons c cs)
  have i: "i < length (bn_children n)" "c = bn_children n ! i" "cs = drop (i + 1) (bn_children n)"
    using Cons.prems(3) by (metis drop_all linorder_not_le list.distinct(1), metis nth_via_drop, metis Suc_eq_plus1 drop_Suc tl_drop list.sel(3))
  obtain st where st: "st \<noteq> GXF_BEHAVIOR_UNKNOWN" "reports st c env" using Cons.prems(2) by auto
  have g: "GetChildStatus env n i = st" using st(2) i by (simp add: GetChildStatus_def reports_def)
  have sh: "be_shared env (snd c) = Inr ()" using Cons.prems(1) by (auto simp: all_shared_def split: sum.splits)
      (metis old.unit.exhaust sum.exhaust_sel)
  note IH = Cons.IH [OF Cons.prems(1) _ i(3)]
  show ?case using g sh st Cons.prems(2) IH by (cases st) (auto simp: count_state_def reports_def)
qed (simp add: count_state_def)

text \<open>The condition of the code for a threshold t, and what it means.\<close>

definition enough :: "int \<Rightarrow> nat \<Rightarrow> nat \<Rightarrow> bool" where
  "enough t num cnt \<longleftrightarrow> (if t = -1 then num = cnt else t \<le> int num)"

lemma reached_iff:
  assumes "-1 \<le> t" "t < 2 ^ 31" "num \<le> cnt" "cnt < 2 ^ 31"
  shows "reached t num cnt \<longleftrightarrow> enough t num cnt"
proof (cases "t = -1")
  case True
  have "unat (word_of_int (-1) :: uint64) = 2 ^ 64 - 1" by (simp add: unsigned_minus_1_eq_mask mask_eq_exp_minus_1)
  then show ?thesis using True assms by (simp add: reached_def enough_def)
next
  case False
  then have "unat (word_of_int t :: uint64) = nat t" using assms by (simp add: unsigned_of_int take_bit_int_eq_self)
  then show ?thesis using False assms by (auto simp: reached_def enough_def)
qed

lemma to_int_small: "-(2 ^ 31) \<le> t \<Longrightarrow> t < 2 ^ 31 \<Longrightarrow> to_int t = t"
  by (simp add: to_int_def signed_of_int signed_take_bit_int_eq_self)

lemma count_state_le: "count_state env s cs \<le> length cs"
  by (simp add: count_state_def)

lemma stopAllChild_map: "stopAllChild n l = l @ map (\<lambda>c. (fst c, NEVER)) (bn_children n)"
proof -
  have "foldl (\<lambda>l c. bt_set_condition (fst c) NEVER l) l cs = l @ map (\<lambda>c. (fst c, NEVER)) cs" for cs
    by (induction cs arbitrary: l) (simp_all add: bt_set_condition_def)
  then show ?thesis by (simp add: stopAllChild_def)
qed

text \<open>A parallel node ends a tick by its thresholds: it succeeds when at least the success threshold of its children
  report success (for -1: all of them), else it fails when the failure threshold is reached, else it goes on
  and touches no term.  When it ends, its own term and then every child are disabled, in order.\<close>

theorem parallel_decides:
  assumes "all_shared env" "list_all (\<lambda>c. \<exists>s. s \<noteq> GXF_BEHAVIOR_UNKNOWN \<and> reports s c env) (bn_children n)"
    and "-1 \<le> st" "st < 2 ^ 31" "-1 \<le> ft" "ft < 2 ^ 31" "length (bn_children n) < 2 ^ 31"
  shows "parallel_tick st ft env False n l =
    (let s = count_state env GXF_BEHAVIOR_SUCCESS (bn_children n); f = count_state env GXF_BEHAVIOR_FAILURE (bn_children n);
         cnt = length (bn_children n);
         stopped = l @ (bn_term n, NEVER) # map (\<lambda>c. (fst c, NEVER)) (bn_children n) in
     if enough st s cnt then Some (GXF_SUCCESS, n, stopped)
     else if enough ft f cnt then Some (GXF_FAILURE, n, stopped)
     else Some (GXF_NOT_FINISHED, n, l))"
proof -
  have c: "count_children env n 0 0 (bn_children n) 0 =
    Counts (count_state env GXF_BEHAVIOR_SUCCESS (bn_children n)) (count_state env GXF_BEHAVIOR_FAILURE (bn_children n))"
    using count_children_known [OF assms(1,2), of 0 n 0 0] by simp
  have t: "to_int st = st" "to_int ft = ft" using assms by (simp_all add: to_int_small)
  have r: "reached st (count_state env s (bn_children n)) (length (bn_children n)) \<longleftrightarrow>
      enough st (count_state env s (bn_children n)) (length (bn_children n))"
    "reached ft (count_state env s (bn_children n)) (length (bn_children n)) \<longleftrightarrow>
      enough ft (count_state env s (bn_children n)) (length (bn_children n))" for s
    using assms count_state_le by (simp_all add: reached_iff)
  show ?thesis using assms(1,3,5)
    by (simp add: parallel_tick_def c t r Let_def stop_parallel_def stopAllChild_map bt_set_condition_def)
qed

theorem parallel_decides_witness:
  "parallel_tick 1 (-1) (demo_env GXF_BEHAVIOR_RUNNING GXF_BEHAVIOR_SUCCESS) False demo_node [] =
     Some (GXF_SUCCESS, demo_node, [(100, NEVER), (101, NEVER), (102, NEVER)])"
proof -
  let ?env = "demo_env GXF_BEHAVIOR_RUNNING GXF_BEHAVIOR_SUCCESS"
  have k: "list_all (\<lambda>c. \<exists>s. s \<noteq> GXF_BEHAVIOR_UNKNOWN \<and> reports s c ?env) (bn_children demo_node)"
    by (simp add: demo_node_def reports_def demo_env_def)
  show ?thesis using parallel_decides [OF all_shared_demo k, of 1 "-1" "[]"]
    by (simp add: demo_node_def enough_def count_state_def reports_def demo_env_def Let_def)
qed

text \<open>With the thresholds -1 and -1 a parallel node whose children have all finished, some with success and some with
  failure, is never done.\<close>

theorem parallel_mixed_never_ends:
  assumes "list_all all_shared es" "length (bn_children n) < 2 ^ 31"
    and fin: "list_all (\<lambda>env. list_all (\<lambda>c. reports GXF_BEHAVIOR_SUCCESS c env \<or> reports GXF_BEHAVIOR_FAILURE c env) (bn_children n)) es"
    and mixed: "list_all (\<lambda>env. list_ex (\<lambda>c. reports GXF_BEHAVIOR_SUCCESS c env) (bn_children n) \<and>
      list_ex (\<lambda>c. reports GXF_BEHAVIOR_FAILURE c env) (bn_children n)) es"
  shows "bt_run (parallel_tick (-1) (-1)) es False n l = Some (GXF_NOT_FINISHED, n, l)"
  using assms
proof (induction es)
  case (Cons e es)
  have known: "list_all (\<lambda>c. \<exists>s. s \<noteq> GXF_BEHAVIOR_UNKNOWN \<and> reports s c e) (bn_children n)"
    using Cons.prems(3) by (auto simp: list_all_iff)
  have ne: "\<not> (reports GXF_BEHAVIOR_SUCCESS c e \<and> reports GXF_BEHAVIOR_FAILURE c e)" for c by (simp add: reports_def)
  have lt: "count_state e s (bn_children n) \<noteq> length (bn_children n)" if ex: "list_ex (\<lambda>c. \<not> reports s c e) (bn_children n)" for s
  proof -
    obtain c where c: "c \<in> set (bn_children n)" "\<not> reports s c e" using ex by (auto simp: list_ex_iff)
    have "length (filter (\<lambda>c. reports s c e) (bn_children n)) < length (bn_children n)"
      by (rule length_filter_less [OF c(1), of "\<lambda>c. reports s c e"]) (rule c(2))
    then show ?thesis by (simp add: count_state_def)
  qed
  have "\<exists>c\<in>set (bn_children n). \<not> reports GXF_BEHAVIOR_SUCCESS c e" "\<exists>c\<in>set (bn_children n). \<not> reports GXF_BEHAVIOR_FAILURE c e"
    using Cons.prems(4) ne by (auto simp: list_ex_iff)
  then have "\<not> enough (-1) (count_state e GXF_BEHAVIOR_SUCCESS (bn_children n)) (length (bn_children n))"
    "\<not> enough (-1) (count_state e GXF_BEHAVIOR_FAILURE (bn_children n)) (length (bn_children n))"
    using lt by (auto simp: enough_def list_ex_iff)
  then have "parallel_tick (-1) (-1) e False n l = Some (GXF_NOT_FINISHED, n, l)"
    using parallel_decides [OF _ known, of "-1" "-1" l] Cons.prems(1,2) by (simp add: Let_def)
  then show ?case using Cons by simp
qed simp

text \<open>A threshold is cast to int: 2^32 is 0, and the node succeeds at once.\<close>

lemma parallel_threshold_truncated:
  "parallel_tick (2 ^ 32) (-1) (demo_env GXF_BEHAVIOR_RUNNING GXF_BEHAVIOR_RUNNING) False demo_node [] =
     Some (GXF_SUCCESS, demo_node, [(100, NEVER), (101, NEVER), (102, NEVER)])"
proof -
  have "to_int (2 ^ 32) = 0" by (simp add: to_int_def signed_of_int)
  then show ?thesis
    by (simp add: parallel_tick_def guard_self_def demo_node_def demo_env_def GetChildStatus_def reached_def
      stop_parallel_def stopAllChild_def bt_set_condition_def Let_def)
qed

section \<open>Switch, repeat and the controller\<close>

text \<open>The index of the desired behaviour is not compared with the number of the children.\<close>

theorem switch_out_of_range:
  assumes "all_shared env" "bn_children n \<noteq> []" "length (bn_children n) \<le> d"
  shows "switch_tick d env True n l = None"
  using assms by (simp add: switch_tick_def start_next_def startChild_def)

text \<open>Once started, repeat ends only when its child fails and it is not to be repeated after a failure: it
  restarts the child in every other tick.\<close>

theorem repeat_ends_only_on_failure:
  assumes "list_all all_shared es" "bn_children n = [c]"
  shows "\<exists>r m. bt_run (repeat_tick again) es False n l = Some (r, n, m) \<and>
    (if list_ex (reports GXF_BEHAVIOR_FAILURE c) es \<and> \<not> again then r = GXF_FAILURE \<and> last m = (bn_term n, NEVER)
     else r = GXF_NOT_FINISHED \<and> m = l @ concat (replicate (length es) [(bn_term n, READY), (fst c, READY)]))"
  using assms
proof (induction es arbitrary: l)
  case (Cons e es)
  let ?m = "l @ [(bn_term n, READY), (fst c, READY)]"
  have sh: "all_shared e" using Cons.prems by simp
  show ?case
  proof (cases "reports GXF_BEHAVIOR_FAILURE c e \<and> \<not> again")
    case True
    then have "repeat_tick again e False n l = Some (GXF_FAILURE, n, l @ [(bn_term n, NEVER)])"
      using sh Cons.prems(2) by (simp add: repeat_tick_def GetChildStatus_def reports_def finish_tick_def bt_set_condition_def Let_def)
    then show ?thesis using True by simp
  next
    case False
    then have t: "repeat_tick again e False n l = Some (GXF_NOT_FINISHED, n, ?m)"
      using sh Cons.prems(2)
      by (auto simp: repeat_tick_def GetChildStatus_def reports_def startChild_def bt_set_condition_def Let_def
        split: sum.splits entity_state_t.splits)
    obtain r m where "bt_run (repeat_tick again) es False n ?m = Some (r, n, m)"
      "if list_ex (reports GXF_BEHAVIOR_FAILURE c) es \<and> \<not> again then r = GXF_FAILURE \<and> last m = (bn_term n, NEVER)
       else r = GXF_NOT_FINISHED \<and> m = ?m @ concat (replicate (length es) [(bn_term n, READY), (fst c, READY)])"
      using Cons.IH [of ?m] Cons.prems by auto
    then show ?thesis using t False by auto
  qed
qed simp

text \<open>The controller over the results of a sequence of executions.\<close>

fun rc_run :: "unit expected list \<Rightarrow> RepeatController \<Rightarrow> gxf_controller_status_t list \<times> RepeatController" where
  "rc_run [] c = ([], c)"
| "rc_run (x # xs) c = (let (s, c1) = rc_control True x c; (ss, c2) = rc_run xs c1 in (s # ss, c2))"

definition is_failure :: "unit expected \<Rightarrow> bool" where
  "is_failure x \<longleftrightarrow> ToResultCode x \<noteq> GXF_SUCCESS \<and> ToResultCode x \<noteq> GXF_NOT_FINISHED"

lemma rc_control_failure:
  "is_failure x \<Longrightarrow> rc_repeat_count c + 1 < 2 ^ 64 \<Longrightarrow>
   cs_exec_status (fst (rc_control True x c)) =
     (if rc_repeat_count c + 1 \<le> rc_max_repeat_count c then GXF_EXECUTE_FAILURE_REPEAT else GXF_EXECUTE_FAILURE_DEACTIVATE)
   \<and> snd (rc_control True x c) = c\<lparr>rc_repeat_count := rc_repeat_count c + 1\<rparr>"
  by (simp add: rc_control_def rc_setExecStatus_def rc_setBehaviorStatus_def is_failure_def Let_def)

lemma rc_control_other:
  "\<not> is_failure x \<Longrightarrow> cs_exec_status (fst (rc_control True x c)) = GXF_EXECUTE_SUCCESS \<and> snd (rc_control True x c) = c"
  by (auto simp: rc_control_def rc_setExecStatus_def rc_setBehaviorStatus_def is_failure_def)

text \<open>The controller counts the failures of an entity over its whole life: it asks for the deactivation of the entity
  exactly at the failures after the first max_repeat_count ones, whatever successes lie between them.\<close>

theorem controller_counts_failures:
  assumes "rc_repeat_count c = 0" "length xs < 2 ^ 64" "i < length xs"
  shows "cs_exec_status (fst (rc_run xs c) ! i) =
    (if \<not> is_failure (xs ! i) then GXF_EXECUTE_SUCCESS
     else if length (filter is_failure (take (i + 1) xs)) \<le> rc_max_repeat_count c then GXF_EXECUTE_FAILURE_REPEAT
     else GXF_EXECUTE_FAILURE_DEACTIVATE)"
proof -
  have "cs_exec_status (fst (rc_run xs c) ! i) =
    (if \<not> is_failure (xs ! i) then GXF_EXECUTE_SUCCESS
     else if rc_repeat_count c + length (filter is_failure (take (i + 1) xs)) \<le> rc_max_repeat_count c
     then GXF_EXECUTE_FAILURE_REPEAT else GXF_EXECUTE_FAILURE_DEACTIVATE)"
    if "rc_repeat_count c + length xs < 2 ^ 64" "i < length xs" for xs c i
    using that
  proof (induction xs arbitrary: c i)
    case (Cons x xs)
    obtain s c1 where c1: "rc_control True x c = (s, c1)" by fastforce
    obtain ss c2 where c2: "rc_run xs c1 = (ss, c2)" by fastforce
    have run: "fst (rc_run (x # xs) c) = s # ss" using c1 c2 by simp
    show ?case
    proof (cases "is_failure x")
      case True
      have "rc_repeat_count c + 1 < 2 ^ 64 \<or> xs = []" using Cons.prems by auto
      moreover have lt: "rc_repeat_count c + 1 < 2 ^ 64" using Cons.prems(1) by simp
      note s = rc_control_failure [OF True lt, unfolded c1, simplified]
      show ?thesis
      proof (cases i)
        case 0
        then show ?thesis using True s run by simp
      next
        case (Suc k)
        have "rc_repeat_count c1 + length xs < 2 ^ 64" "rc_max_repeat_count c1 = rc_max_repeat_count c"
          using s Cons.prems(1) by simp_all
        then show ?thesis using Cons.IH [of c1 k] Cons.prems(2) Suc True run s c2 by simp
      qed
    next
      case False
      note s = rc_control_other [OF False, of c, unfolded c1, simplified]
      have "rc_repeat_count c + length xs < 2 ^ 64" using Cons.prems(1) by simp
      then show ?thesis using Cons.IH [of c1 "i - 1"] Cons.prems(2) False run s c2 by (cases i) auto
    qed
  qed simp
  from this [of c xs i] assms show ?thesis by simp
qed

theorem controller_counts_failures_witness:
  "cs_exec_status (fst (rc_run [Inl GXF_FAILURE, Success, Inl GXF_FAILURE]
      \<lparr>rc_repeat_count = 0, rc_max_repeat_count = 1, rc_running_if_repeat = False\<rparr>) ! 2) = GXF_EXECUTE_FAILURE_DEACTIVATE"
proof -
  let ?c = "\<lparr>rc_repeat_count = 0, rc_max_repeat_count = 1, rc_running_if_repeat = False\<rparr>"
  have p: "rc_repeat_count ?c = 0" "length [Inl GXF_FAILURE, Success, Inl GXF_FAILURE] < 2 ^ 64"
    "2 < length [Inl GXF_FAILURE, Success, Inl GXF_FAILURE]" by simp_all
  from controller_counts_failures [OF p] show ?thesis by (simp add: is_failure_def ToResultCode_def)
qed

text \<open>A timer that switches to running goes on for ever, and every switch starts the delay anew.\<close>

lemma timer_switch:
  assumes "\<not> is_first_tick b" "elapsed (now - last_switch_timestamp b)"
  shows "timer_tick elapsed 2 now b l =
    (GXF_NOT_FINISHED, b\<lparr>last_switch_timestamp := now\<rparr>, l @ [(tb_term b, READY)])"
  using assms by (simp add: timer_tick_def bt_set_condition_def)

end
