(* ===== verification/Parameter_Storage.thy ===== *)
theory Parameter_Storage
  imports Prelude "HOL-Library.Char_ord" "HOL-Library.List_Lexorder"
begin

text \<open>
  Parameters of components: gxf/core/parameter.hpp, gxf/core/parameter_storage.hpp and
  parameter_storage.cpp, and the functions of gxf/core/runtime.cpp that set and get them.  The
  storage owns a backend for every key of every component; a component holds frontends, and the
  backend writes its value to the frontend it is connected to.  A backend of the class template
  ParameterBackend<T> is a record with the type T as a field; the dynamic casts of the storage compare
  it.  Frontends are objects at addresses, since the backends share them with the components.
  The YAML parser and wrapper of a type are parameters; the logs are left out.
\<close>

section \<open>Types and values\<close>

datatype cpp_int = INT8 | INT16 | INT32 | INT64 | UINT8 | UINT16 | UINT32 | UINT64

text \<open>Types that the storage never looks into: floating point, complex, and custom types by name.\<close>

datatype opaque_type = FLOAT32 | FLOAT64 | COMPLEX64 | COMPLEX128 | Named string

datatype cpp_type = TInt cpp_int | TBool | TString | TFilePath | TStrVector | THandle string
  | TOpaque opaque_type

text \<open>A handle is its context (0 the null context) and the uid of the component; these two are what
  the comparison of handles looks at.\<close>

datatype param_value = VInt cpp_int int | VBool bool | VString string | VFilePath string
  | VStrVector "string list" | VHandle string int gxf_uid_t | VOpaque opaque_type nat

fun type_of :: "param_value \<Rightarrow> cpp_type" where
  "type_of (VInt k n) = TInt k"
| "type_of (VBool b) = TBool"
| "type_of (VString s) = TString"
| "type_of (VFilePath s) = TFilePath"
| "type_of (VStrVector ss) = TStrVector"
| "type_of (VHandle t c i) = THandle t"
| "type_of (VOpaque t n) = TOpaque t"

fun bits_of :: "cpp_int \<Rightarrow> nat" where
  "bits_of INT8 = 8" | "bits_of INT16 = 16" | "bits_of INT32 = 32" | "bits_of INT64 = 64"
| "bits_of UINT8 = 8" | "bits_of UINT16 = 16" | "bits_of UINT32 = 32" | "bits_of UINT64 = 64"

definition is_signed :: "cpp_int \<Rightarrow> bool" where
  "is_signed k \<longleftrightarrow> k \<in> {INT8, INT16, INT32, INT64}"

definition fits :: "cpp_int \<Rightarrow> int \<Rightarrow> bool" where
  "fits k n \<longleftrightarrow> (if is_signed k then - (2 ^ (bits_of k - 1)) \<le> n \<and> n < 2 ^ (bits_of k - 1)
                 else 0 \<le> n \<and> n < 2 ^ bits_of k)"

text \<open>A value of its type: integers are in the range of their width.\<close>

fun wf_value :: "param_value \<Rightarrow> bool" where
  "wf_value (VInt k n) = fits k n"
| "wf_value v = True"

definition kUnspecifiedUid :: gxf_uid_t where "kUnspecifiedUid = -1"

definition Unspecified :: "string \<Rightarrow> param_value" where
  "Unspecified t = VHandle t 0 kUnspecifiedUid"

definition is_unspecified :: "param_value \<Rightarrow> bool" where
  "is_unspecified v = (case v of VHandle t c i \<Rightarrow> c = 0 \<and> i = kUnspecifiedUid | _ \<Rightarrow> False)"

section \<open>Backends\<close>

definition GXF_PARAMETER_FLAGS_NONE :: "32 word" where "GXF_PARAMETER_FLAGS_NONE = 0"
definition GXF_PARAMETER_FLAGS_OPTIONAL :: "32 word" where "GXF_PARAMETER_FLAGS_OPTIONAL = 1"
definition GXF_PARAMETER_FLAGS_DYNAMIC :: "32 word" where "GXF_PARAMETER_FLAGS_DYNAMIC = 2"

unbundle bit_operations_syntax

text \<open>be_validator is the std::function of the template; handles have none.  be_id tells a backend from
  the ones that had its key before, as its address does; a dynamic backend has 0, since no frontend
  points to it.\<close>

record ParameterBackend =
  be_id :: nat
  be_type :: cpp_type
  be_uid :: gxf_uid_t
  be_flags :: "32 word"
  be_is_dynamic :: bool
  be_key :: string
  be_headline :: string
  be_description :: string
  be_frontend :: "nat option"
  be_validator :: "(param_value \<Rightarrow> bool) option"
  be_value :: "param_value expected"

definition isMandatory :: "ParameterBackend \<Rightarrow> bool" where
  "isMandatory be \<longleftrightarrow> be_flags be AND GXF_PARAMETER_FLAGS_OPTIONAL = 0"

definition isConstant :: "ParameterBackend \<Rightarrow> bool" where
  "isConstant be \<longleftrightarrow> be_flags be AND GXF_PARAMETER_FLAGS_DYNAMIC = 0"

definition isImmutable :: "ParameterBackend \<Rightarrow> bool" where
  "isImmutable be = (if isConstant be then let is_active = False in (if is_active then True else False)
                     else False)"

definition is_handle :: "cpp_type \<Rightarrow> bool" where
  "is_handle t = (case t of THandle _ \<Rightarrow> True | _ \<Rightarrow> False)"

text \<open>ParameterBackend<T>::set and its specialisation for handles.\<close>

definition be_set_plain :: "param_value \<Rightarrow> ParameterBackend \<Rightarrow> unit expected \<times> ParameterBackend" where
  "be_set_plain v be =
     (if (case be_validator be of None \<Rightarrow> False | Some validator \<Rightarrow> \<not> validator v)
      then (Unexpected GXF_PARAMETER_OUT_OF_RANGE, be)
      else if isImmutable be then (Unexpected GXF_PARAMETER_CAN_NOT_MODIFY_CONSTANT, be)
      else (Success, be\<lparr>be_value := Inr v\<rparr>))"

definition be_set_handle :: "param_value \<Rightarrow> ParameterBackend \<Rightarrow> unit expected \<times> ParameterBackend" where
  "be_set_handle v be =
     (if isImmutable be then (Unexpected GXF_PARAMETER_CAN_NOT_MODIFY_CONSTANT, be)
      else (Success, be\<lparr>be_value := Inr v\<rparr>))"

definition be_set :: "param_value \<Rightarrow> ParameterBackend \<Rightarrow> unit expected \<times> ParameterBackend" where
  "be_set v be = (if is_handle (be_type be) then be_set_handle v be else be_set_plain v be)"

text \<open>Setting a handle by the uid of a component; create is Handle<T>::Create on the context.\<close>

definition be_set_cid :: "(string \<Rightarrow> gxf_uid_t \<Rightarrow> (int \<times> gxf_uid_t) expected) \<Rightarrow> gxf_uid_t \<Rightarrow>
    ParameterBackend \<Rightarrow> unit expected \<times> ParameterBackend" where
  "be_set_cid create cid be = (case be_type be of
     THandle t \<Rightarrow> (case create t cid of
         Inr (c, i) \<Rightarrow> (Success, be\<lparr>be_value := Inr (VHandle t c i)\<rparr>)
       | Inl e \<Rightarrow> (ForwardError e, be))
   | _ \<Rightarrow> (Unexpected GXF_PARAMETER_INVALID_TYPE, be))"

definition be_get_handle :: "ParameterBackend \<Rightarrow> gxf_uid_t expected" where
  "be_get_handle be = (case be_value be of
     Inl e \<Rightarrow> Unexpected GXF_PARAMETER_NOT_INITIALIZED
   | Inr v \<Rightarrow> if is_unspecified v then Unexpected GXF_PARAMETER_NOT_INITIALIZED
              else (case v of VHandle t c i \<Rightarrow> Inr i | _ \<Rightarrow> Unexpected GXF_PARAMETER_INVALID_TYPE))"

definition be_isAvailable_plain :: "ParameterBackend \<Rightarrow> bool" where
  "be_isAvailable_plain be = ok (be_value be)"

definition be_isAvailable_handle :: "ParameterBackend \<Rightarrow> bool" where
  "be_isAvailable_handle be = (case be_value be of Inl e \<Rightarrow> False | Inr v \<Rightarrow> \<not> is_unspecified v)"

definition be_isAvailable :: "ParameterBackend \<Rightarrow> bool" where
  "be_isAvailable be = (if is_handle (be_type be) then be_isAvailable_handle be
                        else be_isAvailable_plain be)"

definition be_try_get_handle :: "ParameterBackend \<Rightarrow> param_value expected" where
  "be_try_get_handle be = (case be_value be of Inl e \<Rightarrow> Inl e
     | Inr v \<Rightarrow> if is_unspecified v then Unexpected GXF_PARAMETER_NOT_INITIALIZED else Inr v)"

definition be_try_get :: "ParameterBackend \<Rightarrow> param_value expected" where
  "be_try_get be = (if is_handle (be_type be) then be_try_get_handle be else be_value be)"

section \<open>Frontends\<close>

text \<open>fe_backend points to the backend by its place in the storage and its identity.\<close>

record Parameter =
  fe_type :: cpp_type
  fe_value :: "param_value expected"
  fe_backend :: "(gxf_uid_t \<times> string \<times> nat) option"

definition Parameter_init :: "cpp_type \<Rightarrow> Parameter" where
  "Parameter_init t = \<lparr>fe_type = t, fe_value = Unexpected GXF_PARAMETER_NOT_INITIALIZED, fe_backend = None\<rparr>"

definition setWithoutPropagate :: "param_value \<Rightarrow> Parameter \<Rightarrow> Parameter" where
  "setWithoutPropagate v fe = fe\<lparr>fe_value := Inr v\<rparr>"

definition connect :: "gxf_uid_t \<times> string \<times> nat \<Rightarrow> Parameter \<Rightarrow> Parameter" where
  "connect backend fe = fe\<lparr>fe_backend := Some backend\<rparr>"

definition fe_try_get_handle :: "Parameter \<Rightarrow> param_value expected" where
  "fe_try_get_handle fe = (case fe_value fe of Inl e \<Rightarrow> Inl e
     | Inr v \<Rightarrow> if is_unspecified v then Unexpected GXF_PARAMETER_NOT_INITIALIZED else Inr v)"

definition fe_try_get :: "Parameter \<Rightarrow> param_value expected" where
  "fe_try_get fe = (if is_handle (fe_type fe) then fe_try_get_handle fe else fe_value fe)"

type_synonym frontends = "nat \<Rightarrow> Parameter"

definition writeToFrontend :: "ParameterBackend \<Rightarrow> frontends \<Rightarrow> frontends" where
  "writeToFrontend be fes = (case (be_frontend be, be_value be) of
     (Some p, Inr v) \<Rightarrow> fes(p := setWithoutPropagate v (fes p)) | _ \<Rightarrow> fes)"

section \<open>The storage\<close>

type_synonym component_parameters = "(string \<times> ParameterBackend) list"

record ParameterStorage =
  ps_parameters :: "(gxf_uid_t \<times> component_parameters) list"
  ps_frontends :: frontends
  ps_next :: nat

definition ParameterStorage_init :: "(nat \<Rightarrow> cpp_type) \<Rightarrow> ParameterStorage" where
  "ParameterStorage_init ts =
     \<lparr>ps_parameters = [], ps_frontends = (\<lambda>p. Parameter_init (ts p)), ps_next = 1\<rparr>"

text \<open>parameters_.find(uid), and the map that is inserted when there is none.\<close>

definition component_of :: "ParameterStorage \<Rightarrow> gxf_uid_t \<Rightarrow> component_parameters" where
  "component_of ps uid = (case map_of (ps_parameters ps) uid of None \<Rightarrow> [] | Some m \<Rightarrow> m)"

definition put_component :: "gxf_uid_t \<Rightarrow> component_parameters \<Rightarrow> ParameterStorage \<Rightarrow> ParameterStorage" where
  "put_component uid m ps = ps\<lparr>ps_parameters := map_put uid m (ps_parameters ps)\<rparr>"

definition backend_of :: "ParameterStorage \<Rightarrow> gxf_uid_t \<Rightarrow> string \<Rightarrow> ParameterBackend option" where
  "backend_of ps uid key = map_of (component_of ps uid) key"

definition put_backend :: "gxf_uid_t \<Rightarrow> string \<Rightarrow> ParameterBackend \<Rightarrow> ParameterStorage \<Rightarrow> ParameterStorage" where
  "put_backend uid key be ps = put_component uid (map_put key be (component_of ps uid)) ps"

definition write_frontend :: "ParameterBackend \<Rightarrow> ParameterStorage \<Rightarrow> ParameterStorage" where
  "write_frontend be ps = ps\<lparr>ps_frontends := writeToFrontend be (ps_frontends ps)\<rparr>"

text \<open>registerParameter<T>: a null argument is None, the template argument is t.\<close>

definition registerParameter :: "cpp_type \<Rightarrow> nat option \<Rightarrow> gxf_uid_t \<Rightarrow> string option \<Rightarrow> string option \<Rightarrow>
    string option \<Rightarrow> param_value expected \<Rightarrow> 32 word \<Rightarrow> ParameterStorage \<Rightarrow>
    unit expected \<times> ParameterStorage" where
  "registerParameter t frontend uid key headline description default_value flags ps =
     (case (frontend, key, headline, description) of
       (Some fe, Some k, Some hl, Some desc) \<Rightarrow>
         (let ps1 = put_component uid (component_of ps uid) ps in
          if map_of (component_of ps uid) k \<noteq> None then (Unexpected GXF_PARAMETER_ALREADY_REGISTERED, ps1)
          else
            let be = \<lparr>be_id = ps_next ps, be_type = t, be_uid = uid, be_flags = flags, be_is_dynamic = False, be_key = k,
                      be_headline = hl, be_description = desc, be_frontend = Some fe,
                      be_validator = None, be_value = Unexpected GXF_PARAMETER_NOT_INITIALIZED\<rparr>;
                ps2 = ps1\<lparr>ps_frontends := (ps_frontends ps1)(fe := connect (uid, k, ps_next ps) (ps_frontends ps1 fe)),
                          ps_next := ps_next ps + 1\<rparr>
            in case default_value of
                 Inl e \<Rightarrow> (Success, put_backend uid k be ps2)
               | Inr v \<Rightarrow> (case be_set v be of
                   (Inl e, _) \<Rightarrow> (ForwardError e, ps2)
                 | (Inr _, be1) \<Rightarrow> (Success, put_backend uid k be1 (write_frontend be1 ps2))))
     | _ \<Rightarrow> (Unexpected GXF_ARGUMENT_NULL, ps))"

definition dynamic_backend :: "cpp_type \<Rightarrow> gxf_uid_t \<Rightarrow> string \<Rightarrow> ParameterBackend" where
  "dynamic_backend t uid key =
     \<lparr>be_id = 0, be_type = t, be_uid = uid, be_flags = GXF_PARAMETER_FLAGS_OPTIONAL OR GXF_PARAMETER_FLAGS_DYNAMIC,
      be_is_dynamic = True, be_key = key, be_headline = key, be_description = ''N/A'',
      be_frontend = None, be_validator = None, be_value = Unexpected GXF_PARAMETER_NOT_INITIALIZED\<rparr>"

text \<open>The part that set and addGetInt64 share: find the backend, or insert a dynamic one.\<close>

definition ensure_backend :: "cpp_type \<Rightarrow> gxf_uid_t \<Rightarrow> string \<Rightarrow> ParameterStorage \<Rightarrow> ParameterBackend \<times> ParameterStorage" where
  "ensure_backend t uid key ps =
     (let ps1 = put_component uid (component_of ps uid) ps
      in case backend_of ps1 uid key of
           Some be \<Rightarrow> (be, ps1)
         | None \<Rightarrow> (dynamic_backend t uid key, put_backend uid key (dynamic_backend t uid key) ps1))"

definition ps_set :: "gxf_uid_t \<Rightarrow> string \<Rightarrow> param_value \<Rightarrow> ParameterStorage \<Rightarrow> unit expected \<times> ParameterStorage" where
  "ps_set uid key value ps =
     (case ensure_backend (type_of value) uid key ps of (be, ps1) \<Rightarrow>
        if be_type be \<noteq> type_of value then (Unexpected GXF_PARAMETER_INVALID_TYPE, ps1)
        else case be_set value be of
          (Inl e, _) \<Rightarrow> (ForwardError e, ps1)
        | (Inr _, be1) \<Rightarrow> (Success, write_frontend be1 (put_backend uid key be1 ps1)))"

text \<open>getBackendPointerImpl for a backend of type t, and for the base class of all handles.\<close>

definition getBackendPointerImpl :: "(cpp_type \<Rightarrow> bool) \<Rightarrow> ParameterStorage \<Rightarrow> gxf_uid_t \<Rightarrow> string \<Rightarrow>
    ParameterBackend expected" where
  "getBackendPointerImpl cast ps uid key = (case map_of (ps_parameters ps) uid of
     None \<Rightarrow> Unexpected GXF_PARAMETER_NOT_FOUND
   | Some m \<Rightarrow> (case map_of m key of
       None \<Rightarrow> Unexpected GXF_PARAMETER_NOT_FOUND
     | Some be \<Rightarrow> if cast (be_type be) then Inr be else Unexpected GXF_PARAMETER_INVALID_TYPE))"

definition getValuePointer :: "cpp_type \<Rightarrow> ParameterStorage \<Rightarrow> gxf_uid_t \<Rightarrow> string \<Rightarrow> param_value expected" where
  "getValuePointer t ps uid key = (case getBackendPointerImpl (\<lambda>u. u = t) ps uid key of
     Inl e \<Rightarrow> ForwardError e
   | Inr be \<Rightarrow> (case be_try_get be of Inl e \<Rightarrow> Unexpected GXF_PARAMETER_NOT_INITIALIZED | Inr v \<Rightarrow> Inr v))"

definition ps_get :: "cpp_type \<Rightarrow> ParameterStorage \<Rightarrow> gxf_uid_t \<Rightarrow> string \<Rightarrow> param_value expected" where
  "ps_get t ps uid key = (case getValuePointer t ps uid key of Inl e \<Rightarrow> Inl e | Inr v \<Rightarrow> Inr v)"

section \<open>Further operations of the storage\<close>

definition setStr :: "gxf_uid_t \<Rightarrow> string \<Rightarrow> string \<Rightarrow> ParameterStorage \<Rightarrow> unit expected \<times> ParameterStorage" where
  "setStr uid key value = ps_set uid key (VString value)"

definition getStr :: "ParameterStorage \<Rightarrow> gxf_uid_t \<Rightarrow> string \<Rightarrow> string expected" where
  "getStr ps uid key = (case getValuePointer TString ps uid key of
     Inr (VString s) \<Rightarrow> Inr s | Inr _ \<Rightarrow> Unexpected GXF_PARAMETER_INVALID_TYPE | Inl e \<Rightarrow> Inl e)"

definition setPath :: "gxf_uid_t \<Rightarrow> string \<Rightarrow> string \<Rightarrow> ParameterStorage \<Rightarrow> unit expected \<times> ParameterStorage" where
  "setPath uid key value = ps_set uid key (VFilePath value)"

definition getPath :: "ParameterStorage \<Rightarrow> gxf_uid_t \<Rightarrow> string \<Rightarrow> string expected" where
  "getPath ps uid key = (case getValuePointer TFilePath ps uid key of
     Inr (VFilePath s) \<Rightarrow> Inr s | Inr _ \<Rightarrow> Unexpected GXF_PARAMETER_INVALID_TYPE | Inl e \<Rightarrow> Inl e)"

definition setHandle :: "(string \<Rightarrow> gxf_uid_t \<Rightarrow> (int \<times> gxf_uid_t) expected) \<Rightarrow> gxf_uid_t \<Rightarrow> string \<Rightarrow> gxf_uid_t \<Rightarrow>
    ParameterStorage \<Rightarrow> unit expected \<times> ParameterStorage" where
  "setHandle create uid key value ps = (case getBackendPointerImpl is_handle ps uid key of
     Inl e \<Rightarrow> (ForwardError e, ps)
   | Inr be \<Rightarrow> (case be_set_cid create value be of
       (Inl e, _) \<Rightarrow> (Inl e, ps)
     | (Inr _, be1) \<Rightarrow> (Success, write_frontend be1 (put_backend uid key be1 ps))))"

definition getHandle :: "ParameterStorage \<Rightarrow> gxf_uid_t \<Rightarrow> string \<Rightarrow> gxf_uid_t expected" where
  "getHandle ps uid key = (case getBackendPointerImpl is_handle ps uid key of
     Inl e \<Rightarrow> Inl e | Inr be \<Rightarrow> be_get_handle be)"

text \<open>An array of strings that may be null, itself perhaps null; length is the length of the array.\<close>

fun copy_strings :: "string option list \<Rightarrow> string list \<Rightarrow> string list expected" where
  "copy_strings [] acc = Inr acc"
| "copy_strings (None # vs) acc = Unexpected GXF_ARGUMENT_NULL"
| "copy_strings (Some v # vs) acc = copy_strings vs (acc @ [v])"

definition setStrVector :: "gxf_uid_t \<Rightarrow> string \<Rightarrow> string option list option \<Rightarrow> ParameterStorage \<Rightarrow>
    unit expected \<times> ParameterStorage" where
  "setStrVector uid key value ps = (case value of
     None \<Rightarrow> (Unexpected GXF_ARGUMENT_NULL, ps)
   | Some vs \<Rightarrow> (case copy_strings vs [] of
       Inl e \<Rightarrow> (Inl e, ps) | Inr value_ \<Rightarrow> ps_set uid key (VStrVector value_) ps))"

text \<open>The sum is computed in int64_t; an overflow, which is undefined, is None.\<close>

definition addGetInt64 :: "gxf_uid_t \<Rightarrow> string \<Rightarrow> int \<Rightarrow> ParameterStorage \<Rightarrow>
    (int expected \<times> ParameterStorage) option" where
  "addGetInt64 uid key delta ps =
     (case ensure_backend (TInt INT64) uid key ps of (be, ps1) \<Rightarrow>
        if be_type be \<noteq> TInt INT64 then Some (Unexpected GXF_PARAMETER_INVALID_TYPE, ps1)
        else
          let n = (case be_try_get be of Inr (VInt _ m) \<Rightarrow> m | _ \<Rightarrow> 0) + delta in
          if \<not> fits INT64 n then None
          else case be_set (VInt INT64 n) be of
            (Inl e, _) \<Rightarrow> Some (ForwardError e, ps1)
          | (Inr _, be1) \<Rightarrow>
              (let ps2 = write_frontend be1 (put_backend uid key be1 ps1) in
               case be_try_get be1 of
                 Inr (VInt _ m) \<Rightarrow> Some (Inr m, ps2)
               | _ \<Rightarrow> Some (Unexpected GXF_PARAMETER_NOT_FOUND, ps2)))"

text \<open>parse and wrap go through the type of the backend, whose parser and wrapper are parameters.\<close>

definition be_parse :: "(cpp_type \<Rightarrow> 'n \<Rightarrow> string \<Rightarrow> param_value expected) \<Rightarrow> 'n \<Rightarrow> string \<Rightarrow>
    ParameterBackend \<Rightarrow> unit expected \<times> ParameterBackend" where
  "be_parse parser node prefix be = (case parser (be_type be) node prefix of
     Inl e \<Rightarrow> (Inl e, be) | Inr v \<Rightarrow> be_set v be)"

definition ps_parse :: "(cpp_type \<Rightarrow> 'n \<Rightarrow> string \<Rightarrow> param_value expected) \<Rightarrow> gxf_uid_t \<Rightarrow> string \<Rightarrow> 'n \<Rightarrow> string \<Rightarrow>
    ParameterStorage \<Rightarrow> unit expected \<times> ParameterStorage" where
  "ps_parse parser uid key node prefix ps = (case map_of (ps_parameters ps) uid of
     None \<Rightarrow> (Unexpected GXF_PARAMETER_NOT_FOUND, ps)
   | Some m \<Rightarrow> (case map_of m key of
       None \<Rightarrow> (Unexpected GXF_PARAMETER_NOT_FOUND, ps)
     | Some be \<Rightarrow> (case be_parse parser node prefix be of
         (Inl e, _) \<Rightarrow> (Inl e, ps)
       | (Inr _, be1) \<Rightarrow> (Success, write_frontend be1 (put_backend uid key be1 ps)))))"

definition be_wrap :: "(param_value \<Rightarrow> 'n expected) \<Rightarrow> ParameterBackend \<Rightarrow> 'n expected" where
  "be_wrap wrapper be = (case be_value be of
     Inl e \<Rightarrow> Unexpected GXF_PARAMETER_NOT_INITIALIZED
   | Inr v \<Rightarrow> if is_handle (be_type be) \<and> is_unspecified v then Unexpected GXF_PARAMETER_NOT_INITIALIZED
              else wrapper v)"

definition ps_wrap :: "(param_value \<Rightarrow> 'n expected) \<Rightarrow> ParameterStorage \<Rightarrow> gxf_uid_t \<Rightarrow> string \<Rightarrow> 'n expected" where
  "ps_wrap wrapper ps uid key = (case map_of (ps_parameters ps) uid of
     None \<Rightarrow> Unexpected GXF_PARAMETER_NOT_FOUND
   | Some m \<Rightarrow> (case map_of m key of
       None \<Rightarrow> Unexpected GXF_PARAMETER_NOT_FOUND | Some be \<Rightarrow> be_wrap wrapper be))"

text \<open>The loops of isAvailable return at the first mandatory parameter without a value.\<close>

fun available_in :: "component_parameters \<Rightarrow> unit expected" where
  "available_in [] = Success"
| "available_in ((key, be) # m) =
     (if isMandatory be \<and> \<not> be_isAvailable be then Unexpected GXF_PARAMETER_MANDATORY_NOT_SET
      else available_in m)"

definition isAvailable_uid :: "ParameterStorage \<Rightarrow> gxf_uid_t \<Rightarrow> unit expected" where
  "isAvailable_uid ps uid = (case map_of (ps_parameters ps) uid of
     None \<Rightarrow> Unexpected GXF_ENTITY_COMPONENT_NOT_FOUND | Some m \<Rightarrow> available_in m)"

fun available_all :: "(gxf_uid_t \<times> component_parameters) list \<Rightarrow> unit expected" where
  "available_all [] = Success"
| "available_all ((uid, m) # ms) = (case available_in m of Inl e \<Rightarrow> Inl e | Inr _ \<Rightarrow> available_all ms)"

definition isAvailable :: "ParameterStorage \<Rightarrow> unit expected" where
  "isAvailable ps = available_all (ps_parameters ps)"

definition clearEntityParameters :: "gxf_uid_t \<Rightarrow> ParameterStorage \<Rightarrow> unit expected \<times> ParameterStorage" where
  "clearEntityParameters eid ps = (Success, ps\<lparr>ps_parameters := map_erase eid (ps_parameters ps)\<rparr>)"

section \<open>Frontends and the C interface\<close>

text \<open>Parameter<T>::get asserts; None is the failed assertion.  A connection to a backend that has been
  erased dangles, and is None as well.\<close>

definition pointed :: "ParameterStorage \<Rightarrow> gxf_uid_t \<times> string \<times> nat \<Rightarrow> ParameterBackend option" where
  "pointed ps b = (case b of (uid, key, n) \<Rightarrow> (case backend_of ps uid key of
     None \<Rightarrow> None | Some be \<Rightarrow> if be_id be = n then Some be else None))"

definition fe_get :: "nat \<Rightarrow> ParameterStorage \<Rightarrow> param_value option" where
  "fe_get p ps = (let fe = ps_frontends ps p in case fe_backend fe of
     None \<Rightarrow> None
   | Some b \<Rightarrow> (case pointed ps b of
       None \<Rightarrow> None
     | Some be \<Rightarrow> if \<not> isMandatory be then None
       else (case fe_value fe of
         Inl e \<Rightarrow> None
       | Inr v \<Rightarrow> if is_handle (fe_type fe) \<and> is_unspecified v then None else Some v)))"

definition fe_set :: "nat \<Rightarrow> param_value \<Rightarrow> ParameterStorage \<Rightarrow> (unit expected \<times> ParameterStorage) option" where
  "fe_set p v ps = (case fe_backend (ps_frontends ps p) of
     None \<Rightarrow> None
   | Some (uid, key, n) \<Rightarrow> (case pointed ps (uid, key, n) of
       None \<Rightarrow> None
     | Some be \<Rightarrow> (case be_set v be of
         (Inl e, _) \<Rightarrow> Some (Inl e, ps)
       | (Inr _, be1) \<Rightarrow> Some (Success, (put_backend uid key be1 ps)
           \<lparr>ps_frontends := (ps_frontends ps)(p := (ps_frontends ps p)\<lparr>fe_value := Inr v\<rparr>)\<rparr>))))"

definition GxfParameterSet :: "gxf_uid_t \<Rightarrow> string \<Rightarrow> param_value \<Rightarrow> ParameterStorage \<Rightarrow> gxf_result_t \<times> ParameterStorage" where
  "GxfParameterSet uid key value ps = (case ps_set uid key value ps of (r, ps1) \<Rightarrow> (ToResultCode r, ps1))"

text \<open>The getters of numbers write through the pointer without a test; the value is returned here.\<close>

definition GxfParameterGet :: "cpp_type \<Rightarrow> ParameterStorage \<Rightarrow> gxf_uid_t \<Rightarrow> string \<Rightarrow> gxf_result_t \<times> param_value option" where
  "GxfParameterGet t ps uid key = (case ps_get t ps uid key of
     Inr v \<Rightarrow> (GXF_SUCCESS, Some v) | Inl e \<Rightarrow> (e, None))"

definition GxfParameterGetBool :: "bool \<Rightarrow> ParameterStorage \<Rightarrow> gxf_uid_t \<Rightarrow> string \<Rightarrow> gxf_result_t \<times> param_value option" where
  "GxfParameterGetBool value_null ps uid key =
     (if value_null then (GXF_ARGUMENT_NULL, None)
      else case ps_get TBool ps uid key of Inr v \<Rightarrow> (GXF_SUCCESS, Some v) | Inl e \<Rightarrow> (e, None))"

definition GxfParameterGetPath :: "bool \<Rightarrow> ParameterStorage \<Rightarrow> gxf_uid_t \<Rightarrow> string \<Rightarrow> gxf_result_t \<times> string option" where
  "GxfParameterGetPath value_null ps uid key =
     (if value_null then (GXF_ARGUMENT_NULL, None)
      else case getPath ps uid key of Inr v \<Rightarrow> (GXF_SUCCESS, Some v) | Inl e \<Rightarrow> (e, None))"

definition GxfParameterGetHandle :: "bool \<Rightarrow> ParameterStorage \<Rightarrow> gxf_uid_t \<Rightarrow> string \<Rightarrow> gxf_result_t \<times> gxf_uid_t option" where
  "GxfParameterGetHandle value_null ps uid key =
     (if value_null then (GXF_ARGUMENT_NULL, None)
      else case getHandle ps uid key of Inr v \<Rightarrow> (GXF_SUCCESS, Some v) | Inl e \<Rightarrow> (e, None))"

text \<open>A name that is not found as a parameter may be the name of an entity: entity_name is None when
  the uid is not a valid entity.\<close>

definition kInternalNameParameterKey :: string where "kInternalNameParameterKey = ''__name''"

definition GxfParameterGetStr :: "(gxf_uid_t \<Rightarrow> (gxf_result_t \<times> string option) option) \<Rightarrow> bool \<Rightarrow> ParameterStorage \<Rightarrow>
    gxf_uid_t \<Rightarrow> string \<Rightarrow> gxf_result_t \<times> string option" where
  "GxfParameterGetStr entity_name value_null ps uid key =
     (if value_null then (GXF_ARGUMENT_NULL, None)
      else case getStr ps uid key of
        Inr v \<Rightarrow> (GXF_SUCCESS, Some v)
      | Inl e \<Rightarrow>
          if key = kInternalNameParameterKey \<and> e = GXF_PARAMETER_NOT_FOUND then
            (case entity_name uid of Some r \<Rightarrow> r | None \<Rightarrow> (e, None))
          else (e, None))"

definition GxfParameterInt64Add :: "gxf_uid_t \<Rightarrow> string \<Rightarrow> int \<Rightarrow> ParameterStorage \<Rightarrow>
    ((gxf_result_t \<times> int option) \<times> ParameterStorage) option" where
  "GxfParameterInt64Add uid key delta ps = (case addGetInt64 uid key delta ps of
     None \<Rightarrow> None
   | Some (Inr v, ps1) \<Rightarrow> Some ((GXF_SUCCESS, Some v), ps1)
   | Some (Inl e, ps1) \<Rightarrow> Some ((e, None), ps1))"

text \<open>GxfParameterSet1DVectorString reads the first string for its log before anything else: an empty
  array is None.  GxfParameterGet1DStrVector takes the value of the result without a test.\<close>

definition GxfParameterSet1DVectorString :: "gxf_uid_t \<Rightarrow> string \<Rightarrow> string option list option \<Rightarrow> ParameterStorage \<Rightarrow>
    (gxf_result_t \<times> ParameterStorage) option" where
  "GxfParameterSet1DVectorString uid key value ps = (case value of
     None \<Rightarrow> Some (GXF_ARGUMENT_NULL, ps)
   | Some [] \<Rightarrow> None
   | Some vs \<Rightarrow> (case setStrVector uid key value ps of (r, ps1) \<Rightarrow> Some (ToResultCode r, ps1)))"

definition GxfParameterGet1DStrVector :: "ParameterStorage \<Rightarrow> gxf_uid_t \<Rightarrow> string \<Rightarrow> nat \<Rightarrow> nat \<Rightarrow>
    (gxf_result_t \<times> string list \<times> nat \<times> nat) option" where
  "GxfParameterGet1DStrVector ps uid key count min_length =
     (case ps_get TStrVector ps uid key of
        Inr (VStrVector ss) \<Rightarrow>
          (let result_count = length ss;
               result_max_length = fold (\<lambda>s m. if m < length s then length s else m) ss 0 in
           if result_count > count \<or> result_max_length > min_length
           then Some (GXF_ARGUMENT_OUT_OF_RANGE, [], result_count, result_max_length)
           else Some (GXF_SUCCESS, ss, result_count, result_max_length))
      | _ \<Rightarrow> None)"

section \<open>Facts on the maps\<close>

lemma isImmutable_False [simp]: "\<not> isImmutable be"
  by (simp add: isImmutable_def)

definition ps_sorted :: "ParameterStorage \<Rightarrow> bool" where
  "ps_sorted ps \<longleftrightarrow> sorted_map (ps_parameters ps) \<and>
     (\<forall>uid m. map_of (ps_parameters ps) uid = Some m \<longrightarrow> sorted_map m)"

lemma ps_sortedD [simp]: "ps_sorted ps \<Longrightarrow> sorted_map (ps_parameters ps)"
  by (simp add: ps_sorted_def)

lemma sorted_component [simp]: "ps_sorted ps \<Longrightarrow> sorted_map (component_of ps uid)"
  by (auto simp: ps_sorted_def component_of_def split: option.splits)

lemma ps_sorted_frontends [simp]:
  "ps_sorted (ps\<lparr>ps_frontends := f\<rparr>) = ps_sorted ps" "ps_sorted (ps\<lparr>ps_next := n\<rparr>) = ps_sorted ps"
  by (simp_all add: ps_sorted_def)

lemma backend_of_frontends [simp]:
  "backend_of (ps\<lparr>ps_frontends := f\<rparr>) = backend_of ps" "backend_of (ps\<lparr>ps_next := n\<rparr>) = backend_of ps"
  by (simp_all add: backend_of_def component_of_def fun_eq_iff)

lemma component_of_put [simp]:
  "ps_sorted ps \<Longrightarrow> component_of (put_component uid m ps) u = (if u = uid then m else component_of ps u)"
  by (simp add: component_of_def put_component_def map_of_map_put)

lemma ps_sorted_put_component [simp]:
  "ps_sorted ps \<Longrightarrow> sorted_map m \<Longrightarrow> ps_sorted (put_component uid m ps)"
  by (auto simp: ps_sorted_def put_component_def map_of_map_put)

lemma ps_frontends_put [simp]:
  "ps_frontends (put_component uid m ps) = ps_frontends ps"
  "ps_frontends (put_backend uid key be ps) = ps_frontends ps"
  "ps_next (put_component uid m ps) = ps_next ps"
  "ps_next (put_backend uid key be ps) = ps_next ps"
  by (simp_all add: put_component_def put_backend_def)

lemma ps_sorted_put_backend [simp]: "ps_sorted ps \<Longrightarrow> ps_sorted (put_backend uid key be ps)"
  by (simp add: put_backend_def)

lemma backend_of_put_backend [simp]:
  "ps_sorted ps \<Longrightarrow> backend_of (put_backend uid key be ps) u k =
     (if u = uid \<and> k = key then Some be else backend_of ps u k)"
  by (simp add: backend_of_def put_backend_def map_of_map_put)

lemma backend_of_put_same [simp]:
  "ps_sorted ps \<Longrightarrow> backend_of (put_component uid (component_of ps uid) ps) = backend_of ps"
  by (auto simp: backend_of_def fun_eq_iff)

lemma getBackendPointerImpl_eq:
  "getBackendPointerImpl cast ps uid key = (case backend_of ps uid key of
     None \<Rightarrow> Unexpected GXF_PARAMETER_NOT_FOUND
   | Some be \<Rightarrow> if cast (be_type be) then Inr be else Unexpected GXF_PARAMETER_INVALID_TYPE)"
  by (auto simp: getBackendPointerImpl_def backend_of_def component_of_def split: option.splits)

lemma ps_parse_eq:
  "ps_parse parser uid key node prefix ps = (case backend_of ps uid key of
     None \<Rightarrow> (Unexpected GXF_PARAMETER_NOT_FOUND, ps)
   | Some be \<Rightarrow> (case be_parse parser node prefix be of
       (Inl e, _) \<Rightarrow> (Inl e, ps)
     | (Inr _, be1) \<Rightarrow> (Success, write_frontend be1 (put_backend uid key be1 ps))))"
  by (auto simp: ps_parse_def backend_of_def component_of_def split: option.splits)

lemma ensure_backend_cases:
  assumes "ps_sorted ps"
  obtains (found) be ps1 where "backend_of ps uid key = Some be" "ensure_backend t uid key ps = (be, ps1)"
      "ps_sorted ps1" "backend_of ps1 = backend_of ps" "ps_frontends ps1 = ps_frontends ps" "ps_next ps1 = ps_next ps"
  | (fresh) ps1 where "backend_of ps uid key = None"
      "ensure_backend t uid key ps = (dynamic_backend t uid key, ps1)" "ps_sorted ps1"
      "\<And>u k. backend_of ps1 u k = (if u = uid \<and> k = key then Some (dynamic_backend t uid key) else backend_of ps u k)"
      "ps_frontends ps1 = ps_frontends ps" "ps_next ps1 = ps_next ps"
  using assms by (cases "backend_of ps uid key") (auto simp: ensure_backend_def Let_def)

lemma be_set_cases:
  obtains (refused) e where "be_set v be = (Inl e, be)"
  | (set) "be_set v be = (Success, be\<lparr>be_value := Inr v\<rparr>)"
proof (cases "be_set v be = (Success, be\<lparr>be_value := Inr v\<rparr>)")
  case False
  then have "be_set v be = (Inl GXF_PARAMETER_OUT_OF_RANGE, be)"
    by (simp add: be_set_def be_set_plain_def be_set_handle_def split: if_split_asm)
  then show ?thesis using refused by blast
qed (use set in blast)

lemma be_set_no_validator [simp]:
  "be_validator be = None \<Longrightarrow> be_set v be = (Success, be\<lparr>be_value := Inr v\<rparr>)"
  by (simp add: be_set_def be_set_plain_def be_set_handle_def)

section \<open>Invariant: types, and frontends that mirror their backends\<close>

text \<open>Every value has the type of its backend, and the frontend of a backend points to it, has its type
  and holds its value; so no two backends share a frontend.  A frontend points to its own backend, or
  to one that is gone.\<close>

definition be_wf :: "ParameterStorage \<Rightarrow> gxf_uid_t \<Rightarrow> string \<Rightarrow> ParameterBackend \<Rightarrow> bool" where
  "be_wf ps uid key be \<longleftrightarrow> be_id be < ps_next ps \<and>
     (\<forall>v. be_value be = Inr v \<longrightarrow> type_of v = be_type be \<and> wf_value v) \<and>
     (\<forall>p. be_frontend be = Some p \<longrightarrow> fe_backend (ps_frontends ps p) = Some (uid, key, be_id be) \<and>
          fe_type (ps_frontends ps p) = be_type be \<and> fe_value (ps_frontends ps p) = be_value be)"

definition pointer_wf :: "ParameterStorage \<Rightarrow> nat \<Rightarrow> gxf_uid_t \<times> string \<times> nat \<Rightarrow> bool" where
  "pointer_wf ps p b \<longleftrightarrow> 0 < snd (snd b) \<and> snd (snd b) < ps_next ps \<and>
     (\<forall>be. pointed ps b = Some be \<longrightarrow> be_frontend be = Some p)"

definition ps_wf :: "ParameterStorage \<Rightarrow> bool" where [inv_defs]:
  "ps_wf ps \<longleftrightarrow> ps_sorted ps \<and> 0 < ps_next ps \<and>
     (\<forall>uid key be. backend_of ps uid key = Some be \<longrightarrow> be_wf ps uid key be) \<and>
     (\<forall>p b. fe_backend (ps_frontends ps p) = Some b \<longrightarrow> pointer_wf ps p b)"

lemma ps_wfI:
  assumes "ps_sorted ps" "0 < ps_next ps" "\<And>uid key be. backend_of ps uid key = Some be \<Longrightarrow> be_wf ps uid key be"
    "\<And>p b. fe_backend (ps_frontends ps p) = Some b \<Longrightarrow> pointer_wf ps p b"
  shows "ps_wf ps"
  using assms by (simp add: ps_wf_def)

lemma ps_wfD:
  assumes "ps_wf ps"
  shows "ps_sorted ps" "0 < ps_next ps" "backend_of ps uid key = Some be \<Longrightarrow> be_wf ps uid key be"
    "fe_backend (ps_frontends ps p) = Some b \<Longrightarrow> pointer_wf ps p b"
  using assms unfolding ps_wf_def by blast+

lemma ps_wf_init [simp]: "ps_wf (ParameterStorage_init ts)"
  by (simp add: ps_wf_def ParameterStorage_init_def ps_sorted_def backend_of_def component_of_def Parameter_init_def)

lemma writeToFrontend_keeps [simp]:
  "fe_backend (writeToFrontend be fes p) = fe_backend (fes p)"
  "fe_type (writeToFrontend be fes p) = fe_type (fes p)"
  by (auto simp: writeToFrontend_def setWithoutPropagate_def split: option.splits sum.splits)

lemma writeToFrontend_other [simp]: "be_frontend be \<noteq> Some p \<Longrightarrow> writeToFrontend be fes p = fes p"
  by (auto simp: writeToFrontend_def split: option.splits sum.splits)

lemma write_frontend_simps [simp]:
  "ps_frontends (write_frontend be ps) = writeToFrontend be (ps_frontends ps)"
  "ps_next (write_frontend be ps) = ps_next ps"
  "ps_sorted (write_frontend be ps) = ps_sorted ps"
  "backend_of (write_frontend be ps) = backend_of ps"
  by (simp_all add: write_frontend_def)

text \<open>The step that all operations end with: a typed value is stored and written to the frontend.\<close>

lemma ps_wf_store:
  assumes wf: "ps_wf ps" and be: "backend_of ps uid key = Some be"
    and v: "type_of v = be_type be" "wf_value v"
  shows "ps_wf (write_frontend (be\<lparr>be_value := Inr v\<rparr>) (put_backend uid key (be\<lparr>be_value := Inr v\<rparr>) ps))"
    (is "ps_wf ?ps")
proof (rule ps_wfI)
  note so = ps_wfD(1) [OF wf]
  note bw = ps_wfD(3) [OF wf be]
  show "ps_sorted ?ps" "0 < ps_next ?ps" using ps_wfD(1,2) [OF wf] by simp_all
  show "be_wf ?ps u k be'" if b: "backend_of ?ps u k = Some be'" for u k be'
  proof (cases "u = uid \<and> k = key")
    case True
    then show ?thesis using bw v b so
      by (auto simp: be_wf_def writeToFrontend_def setWithoutPropagate_def split: option.splits)
  next
    case False
    then have old: "backend_of ps u k = Some be'" using b so by auto
    have "be_frontend be \<noteq> Some p" if "be_frontend be' = Some p" for p
      using ps_wfD(3) [OF wf old] bw False that by (auto simp: be_wf_def)
    then show ?thesis using ps_wfD(3) [OF wf old] by (simp add: be_wf_def)
  qed
  show "pointer_wf ?ps p b" if "fe_backend (ps_frontends ?ps p) = Some b" for p b
    using ps_wfD(4) [OF wf, of p b] that so be
    by (auto simp: pointer_wf_def pointed_def split: prod.splits option.splits if_splits)
qed

lemma ps_wf_cong:
  assumes "ps_wf ps" "ps_sorted ps1" "backend_of ps1 = backend_of ps" "ps_frontends ps1 = ps_frontends ps"
    "ps_next ps1 = ps_next ps"
  shows "ps_wf ps1"
proof -
  have "pointed ps1 = pointed ps" by (simp add: fun_eq_iff pointed_def assms(3))
  then have "pointer_wf ps1 = pointer_wf ps" by (simp add: fun_eq_iff pointer_wf_def assms(5))
  moreover have "be_wf ps1 = be_wf ps" by (simp add: fun_eq_iff be_wf_def assms(4,5))
  ultimately show ?thesis using assms by (intro ps_wfI) (simp_all add: ps_wfD)
qed

lemma ps_wf_ensure:
  assumes wf: "ps_wf ps" and e: "ensure_backend t uid key ps = (be, ps1)"
  shows "ps_wf ps1" "backend_of ps1 uid key = Some be"
proof -
  have "ps_wf ps1 \<and> backend_of ps1 uid key = Some be"
    using ps_wfD(1) [OF wf]
  proof (cases rule: ensure_backend_cases [where uid = uid and key = key and t = t])
    case (found be' ps1')
    then show ?thesis using e ps_wf_cong [OF wf, of ps1'] by simp
  next
    case (fresh ps1')
    then have eq: "ps1' = ps1" "be = dynamic_backend t uid key" using e by simp_all
    have "ps_wf ps1'"
    proof (rule ps_wfI)
      show "ps_sorted ps1'" "0 < ps_next ps1'" using fresh(3,6) ps_wfD(2) [OF wf] by simp_all
      show "be_wf ps1' u k be'" if "backend_of ps1' u k = Some be'" for u k be'
      proof (cases "u = uid \<and> k = key")
        case True
        then show ?thesis using that fresh(4,6) ps_wfD(2) [OF wf] by (auto simp: be_wf_def dynamic_backend_def)
      next
        case False
        then have "backend_of ps u k = Some be'" using that fresh(4) by auto
        from ps_wfD(3) [OF wf this] show ?thesis using fresh(5,6) by (simp add: be_wf_def)
      qed
      show "pointer_wf ps1' p b" if "fe_backend (ps_frontends ps1' p) = Some b" for p b
      proof -
        have old: "pointer_wf ps p b" using ps_wfD(4) [OF wf, of p b] that by (simp add: fresh(5))
        moreover have "pointed ps1' b = pointed ps b" if "0 < snd (snd b)"
          using that fresh(1) by (cases b) (simp add: pointed_def fresh(4) dynamic_backend_def)
        ultimately show ?thesis by (simp add: pointer_wf_def fresh(6))
      qed
    qed
    moreover have "backend_of ps1' uid key = Some (dynamic_backend t uid key)" by (simp add: fresh(4))
    ultimately show ?thesis using eq by blast
  qed
  then show "ps_wf ps1" "backend_of ps1 uid key = Some be" by simp_all
qed

lemma ps_wf_set:
  assumes wf: "ps_wf ps" and v: "wf_value v"
  shows "ps_wf (snd (ps_set uid key v ps))"
proof -
  obtain be ps1 where e: "ensure_backend (type_of v) uid key ps = (be, ps1)" by fastforce
  note w = ps_wf_ensure [OF wf e]
  show ?thesis
  proof (cases "be_type be = type_of v")
    case True
    show ?thesis
      by (cases rule: be_set_cases [of v be]) (use w e True v ps_wf_store [OF w, of v] in \<open>auto simp: ps_set_def\<close>)
  qed (use w e in \<open>auto simp: ps_set_def\<close>)
qed

lemma ps_wf_setHandle:
  assumes wf: "ps_wf ps"
  shows "ps_wf (snd (setHandle create uid key cid ps))"
proof (cases "backend_of ps uid key")
  case (Some be)
  show ?thesis
  proof (cases "be_type be")
    case (THandle t)
    show ?thesis
      using wf Some THandle ps_wf_store [OF wf Some, of "VHandle t _ _"]
      by (auto simp: setHandle_def getBackendPointerImpl_eq be_set_cid_def is_handle_def ForwardError_def
          split: sum.splits)
  qed (use wf Some in \<open>auto simp: setHandle_def getBackendPointerImpl_eq is_handle_def\<close>)
qed (use wf in \<open>simp add: setHandle_def getBackendPointerImpl_eq\<close>)

lemma ps_wf_setStrVector: "ps_wf ps \<Longrightarrow> ps_wf (snd (setStrVector uid key value ps))"
  by (auto simp: setStrVector_def ps_wf_set split: option.splits sum.splits)

lemma ps_wf_add:
  assumes wf: "ps_wf ps" and a: "addGetInt64 uid key delta ps = Some (r, ps')"
  shows "ps_wf ps'"
proof -
  obtain be ps1 where e: "ensure_backend (TInt INT64) uid key ps = (be, ps1)" by fastforce
  note w = ps_wf_ensure [OF wf e]
  define n where "n = (case be_try_get be of Inr (VInt _ m) \<Rightarrow> m | _ \<Rightarrow> 0) + delta"
  show ?thesis
  proof (cases "be_type be = TInt INT64 \<and> fits INT64 n")
    case True
    show ?thesis
      by (cases rule: be_set_cases [of "VInt INT64 n" be])
         (use a e True w ps_wf_store [OF w, of "VInt INT64 n"] in
           \<open>auto simp: addGetInt64_def Let_def n_def [symmetric] split: sum.splits param_value.splits if_splits\<close>)
  qed (use a e w in \<open>auto simp: addGetInt64_def Let_def n_def [symmetric] split: if_splits\<close>)
qed

definition parser_wf :: "(cpp_type \<Rightarrow> 'n \<Rightarrow> string \<Rightarrow> param_value expected) \<Rightarrow> bool" where
  "parser_wf parser \<longleftrightarrow>
     (\<forall>t node prefix v. parser t node prefix = Inr v \<longrightarrow> type_of v = t \<and> wf_value v)"

lemma ps_wf_parse:
  assumes wf: "ps_wf ps" and p: "parser_wf parser"
  shows "ps_wf (snd (ps_parse parser uid key node prefix ps))"
proof (cases "backend_of ps uid key")
  case (Some be)
  show ?thesis
  proof (cases "parser (be_type be) node prefix")
    case (Inr v)
    then have v: "type_of v = be_type be" "wf_value v" using p by (auto simp: parser_wf_def)
    show ?thesis
      by (cases rule: be_set_cases [of v be])
         (use wf Some Inr v ps_wf_store [OF wf Some v] in \<open>auto simp: ps_parse_eq be_parse_def\<close>)
  qed (use wf Some in \<open>simp add: ps_parse_eq be_parse_def\<close>)
qed (use wf in \<open>simp add: ps_parse_eq\<close>)

lemma clear_simps [simp]:
  "backend_of (snd (clearEntityParameters eid ps)) u k = (if u = eid then None else backend_of ps u k)"
  "ps_frontends (snd (clearEntityParameters eid ps)) = ps_frontends ps"
  "ps_next (snd (clearEntityParameters eid ps)) = ps_next ps"
  by (auto simp: clearEntityParameters_def backend_of_def component_of_def map_of_map_erase)

lemma ps_wf_clear:
  assumes wf: "ps_wf ps"
  shows "ps_wf (snd (clearEntityParameters eid ps))"
proof (rule ps_wfI)
  show "ps_sorted (snd (clearEntityParameters eid ps))"
    using ps_wfD(1) [OF wf]
    by (auto simp: clearEntityParameters_def ps_sorted_def map_of_map_erase split: if_splits)
  show "be_wf (snd (clearEntityParameters eid ps)) uid key be"
    if "backend_of (snd (clearEntityParameters eid ps)) uid key = Some be" for uid key be
    using ps_wfD(3) [OF wf, of uid key be] that by (auto simp: be_wf_def split: if_splits)
  show "pointer_wf (snd (clearEntityParameters eid ps)) p b"
    if "fe_backend (ps_frontends (snd (clearEntityParameters eid ps)) p) = Some b" for p b
    using ps_wfD(4) [OF wf, of p b] that
    by (auto simp: pointer_wf_def pointed_def split: prod.splits option.splits if_splits)
qed (use ps_wfD(2) [OF wf] in simp)

text \<open>A component registers its own frontend, which is connected to nothing yet.\<close>

definition fresh_frontend :: "cpp_type \<Rightarrow> nat \<Rightarrow> ParameterStorage \<Rightarrow> bool" where
  "fresh_frontend t p ps \<longleftrightarrow> ps_frontends ps p = Parameter_init t"

lemma ps_update_commute:
  "ps\<lparr>ps_next := n, ps_frontends := f\<rparr> = ps\<lparr>ps_frontends := f, ps_next := n\<rparr>"
  by (cases ps) simp

lemma registerParameter_cases:
  assumes so: "ps_sorted ps"
  obtains (refused) e ps1 where "registerParameter t fe uid key hl desc dflt flags ps = (Inl e, ps1)"
      "ps_sorted ps1" "backend_of ps1 = backend_of ps" "ps_frontends ps1 = ps_frontends ps" "ps_next ps1 = ps_next ps"
  | (registered) p k be ps1 where "fe = Some p" "key = Some k" "backend_of ps uid k = None"
      "registerParameter t fe uid key hl desc dflt flags ps = (Success, ps1)"
      "be_id be = ps_next ps" "be_type be = t" "be_frontend be = Some p" "be_flags be = flags"
      "be_value be = (case dflt of Inr v \<Rightarrow> Inr v | Inl e \<Rightarrow> Inl GXF_PARAMETER_NOT_INITIALIZED)"
      "ps_sorted ps1" "\<And>u k'. backend_of ps1 u k' = (if u = uid \<and> k' = k then Some be else backend_of ps u k')"
      "ps_frontends ps1 = (ps_frontends ps)(p := (ps_frontends ps p)\<lparr>fe_backend := Some (uid, k, ps_next ps),
         fe_value := (case dflt of Inr v \<Rightarrow> Inr v | Inl e \<Rightarrow> fe_value (ps_frontends ps p))\<rparr>)"
      "ps_next ps1 = ps_next ps + 1"
proof (cases "fe = None \<or> key = None \<or> hl = None \<or> desc = None")
  case True
  then have "registerParameter t fe uid key hl desc dflt flags ps = (Inl GXF_ARGUMENT_NULL, ps)"
    by (auto simp: registerParameter_def split: option.splits)
  then show ?thesis using refused so by blast
next
  case False
  then obtain p k h ds where a: "fe = Some p" "key = Some k" "hl = Some h" "desc = Some ds" by auto
  define ps1 where "ps1 = put_component uid (component_of ps uid) ps"
  have p1: "ps_sorted ps1" "backend_of ps1 = backend_of ps" "ps_frontends ps1 = ps_frontends ps" "ps_next ps1 = ps_next ps"
    using so by (simp_all add: ps1_def)
  show ?thesis
  proof (cases "backend_of ps uid k")
    case None
    then have n: "map_of (component_of ps uid) k = None" by (simp add: backend_of_def)
    define be where "be = \<lparr>be_id = ps_next ps, be_type = t, be_uid = uid, be_flags = flags,
        be_is_dynamic = False, be_key = k, be_headline = h, be_description = ds, be_frontend = Some p,
        be_validator = None,
        be_value = (case dflt of Inr v \<Rightarrow> Inr v | Inl e \<Rightarrow> Inl GXF_PARAMETER_NOT_INITIALIZED)\<rparr>"
    define ps2 where "ps2 = put_backend uid k be (write_frontend be (ps1\<lparr>ps_frontends :=
        (ps_frontends ps1)(p := connect (uid, k, ps_next ps) (ps_frontends ps1 p)), ps_next := ps_next ps + 1\<rparr>))"
    have r: "registerParameter t fe uid key hl desc dflt flags ps = (Success, ps2)"
      using a n p1(3) by (auto simp: registerParameter_def Let_def ps1_def [symmetric] ps2_def be_def
          write_frontend_def writeToFrontend_def ps_update_commute split: sum.splits)
    show ?thesis
      by (rule registered [of p k ps2 be, OF a(1,2) None r])
         (use p1 in \<open>auto simp: be_def ps2_def connect_def writeToFrontend_def setWithoutPropagate_def
            split: sum.splits\<close>)
  next
    case (Some be)
    then have "registerParameter t fe uid key hl desc dflt flags ps = (Inl GXF_PARAMETER_ALREADY_REGISTERED, ps1)"
      using a by (auto simp: registerParameter_def Let_def ps1_def backend_of_def)
    then show ?thesis using refused p1 by blast
  qed
qed

lemma ps_wf_register:
  assumes wf: "ps_wf ps" and f: "\<And>p. fe = Some p \<Longrightarrow> fresh_frontend t p ps"
    and d: "\<And>v. dflt = Inr v \<Longrightarrow> type_of v = t \<and> wf_value v"
  shows "ps_wf (snd (registerParameter t fe uid key hl desc dflt flags ps))"
  using ps_wfD(1) [OF wf]
proof (cases rule: registerParameter_cases [where t = t and fe = fe and uid = uid and key = key and hl = hl
      and desc = desc and dflt = dflt and flags = flags])
  case (refused e ps1)
  then show ?thesis using ps_wf_cong [OF wf, of ps1] by simp
next
  case (registered p k be ps1)
  have fr: "ps_frontends ps p = Parameter_init t" using f registered(1) by (simp add: fresh_frontend_def)
  then have unused: "fe_backend (ps_frontends ps p) = None" by (simp add: Parameter_init_def)
  have "ps_wf ps1"
  proof (rule ps_wfI)
    show "ps_sorted ps1" "0 < ps_next ps1" using registered by simp_all
    show "be_wf ps1 u k' be'" if "backend_of ps1 u k' = Some be'" for u k' be'
    proof (cases "u = uid \<and> k' = k")
      case True
      then have "be' = be" using that by (simp add: registered(11))
      then show ?thesis using True d fr
        by (auto simp: be_wf_def registered Parameter_init_def split: sum.splits)
    next
      case False
      then have "backend_of ps u k' = Some be'" using that by (auto simp: registered(11))
      from ps_wfD(3) [OF wf this] show ?thesis using unused
        by (auto simp: be_wf_def registered(12,13))
    qed
    show "pointer_wf ps1 p' b" if b: "fe_backend (ps_frontends ps1 p') = Some b" for p' b
    proof (cases "p' = p")
      case True
      then have "b = (uid, k, ps_next ps)" using b by (simp add: registered(12))
      then show ?thesis using True ps_wfD(2) [OF wf]
        by (simp add: pointer_wf_def pointed_def registered(5,7,11,13))
    next
      case False
      then have old: "pointer_wf ps p' b" using ps_wfD(4) [OF wf, of p' b] b by (simp add: registered(12))
      then have "pointed ps1 b = pointed ps b"
        by (cases b) (auto simp: pointer_wf_def pointed_def registered(3,5,11))
      then show ?thesis using old by (simp add: pointer_wf_def registered(13))
    qed
  qed
  then show ?thesis using registered(4) by simp
qed

lemma ps_wf_fe_set:
  assumes wf: "ps_wf ps" and s: "fe_set p v ps = Some (r, ps')"
    and v: "type_of v = fe_type (ps_frontends ps p)" "wf_value v"
  shows "ps_wf ps'"
proof -
  obtain uid key n be where b: "fe_backend (ps_frontends ps p) = Some (uid, key, n)" "pointed ps (uid, key, n) = Some be"
    using s by (auto simp: fe_set_def split: option.splits)
  have bo: "backend_of ps uid key = Some be" using b(2) by (auto simp: pointed_def split: option.splits if_splits)
  have bp: "be_frontend be = Some p" using ps_wfD(4) [OF wf b(1)] b(2) by (simp add: pointer_wf_def)
  have t: "type_of v = be_type be" using ps_wfD(3) [OF wf bo] bp v by (simp add: be_wf_def)
  show ?thesis
    by (cases rule: be_set_cases [of v be])
       (use wf s b bp v t ps_wf_store [OF wf bo t v(2)] in
         \<open>auto simp: fe_set_def write_frontend_def writeToFrontend_def setWithoutPropagate_def\<close>)
qed

section \<open>Runs of the storage\<close>

text \<open>The calls that change the storage, from any thread, in any order; the lock makes each a step.\<close>

datatype 'n ps_op =
    OpRegister cpp_type "nat option" gxf_uid_t "string option" "string option" "string option"
      "param_value expected" "32 word"
  | OpSet gxf_uid_t string param_value
  | OpSetHandle gxf_uid_t string gxf_uid_t
  | OpSetStrVector gxf_uid_t string "string option list option"
  | OpAddInt64 gxf_uid_t string int
  | OpParse gxf_uid_t string 'n string
  | OpClear gxf_uid_t
  | OpFrontendSet nat param_value

text \<open>What the C++ compiler and the callers see to: arguments have the types of the template, and a
  component registers frontends of its own.\<close>

fun ps_op_ok :: "'n ps_op \<Rightarrow> ParameterStorage \<Rightarrow> bool" where
  "ps_op_ok (OpRegister t fe uid key hl desc dflt flags) ps \<longleftrightarrow>
     (case fe of None \<Rightarrow> True | Some p \<Rightarrow> fresh_frontend t p ps) \<and>
     (case dflt of Inl e \<Rightarrow> True | Inr v \<Rightarrow> type_of v = t \<and> wf_value v)"
| "ps_op_ok (OpSet uid key v) ps \<longleftrightarrow> wf_value v"
| "ps_op_ok (OpFrontendSet p v) ps \<longleftrightarrow> type_of v = fe_type (ps_frontends ps p) \<and> wf_value v"
| "ps_op_ok _ ps \<longleftrightarrow> True"

fun ps_step :: "(cpp_type \<Rightarrow> 'n \<Rightarrow> string \<Rightarrow> param_value expected) \<Rightarrow>
    (string \<Rightarrow> gxf_uid_t \<Rightarrow> (int \<times> gxf_uid_t) expected) \<Rightarrow> 'n ps_op \<Rightarrow> ParameterStorage \<Rightarrow> ParameterStorage option" where
  "ps_step parser create (OpRegister t fe uid key hl desc dflt flags) ps =
     Some (snd (registerParameter t fe uid key hl desc dflt flags ps))"
| "ps_step parser create (OpSet uid key v) ps = Some (snd (ps_set uid key v ps))"
| "ps_step parser create (OpSetHandle uid key cid) ps = Some (snd (setHandle create uid key cid ps))"
| "ps_step parser create (OpSetStrVector uid key vs) ps = Some (snd (setStrVector uid key vs ps))"
| "ps_step parser create (OpAddInt64 uid key delta) ps = map_option snd (addGetInt64 uid key delta ps)"
| "ps_step parser create (OpParse uid key node prefix) ps = Some (snd (ps_parse parser uid key node prefix ps))"
| "ps_step parser create (OpClear uid) ps = Some (snd (clearEntityParameters uid ps))"
| "ps_step parser create (OpFrontendSet p v) ps = map_option snd (fe_set p v ps)"

inductive ps_reachable :: "(cpp_type \<Rightarrow> 'n \<Rightarrow> string \<Rightarrow> param_value expected) \<Rightarrow>
    (string \<Rightarrow> gxf_uid_t \<Rightarrow> (int \<times> gxf_uid_t) expected) \<Rightarrow> ParameterStorage \<Rightarrow> bool"
  for parser create where
  start: "ps_reachable parser create (ParameterStorage_init ts)"
| step: "ps_reachable parser create ps \<Longrightarrow> ps_op_ok oper ps \<Longrightarrow> ps_step parser create oper ps = Some ps' \<Longrightarrow>
    ps_reachable parser create ps'"

lemma ps_wf_step:
  assumes "ps_wf ps" "parser_wf parser" "ps_op_ok oper ps" "ps_step parser create oper ps = Some ps'"
  shows "ps_wf ps'"
proof (cases oper)
  case (OpRegister t fe uid key hl desc dflt flags)
  then show ?thesis
    using assms ps_wf_register [of ps fe t dflt uid key hl desc flags] by (auto split: option.splits sum.splits)
next
  case (OpAddInt64 uid key delta)
  then show ?thesis using assms ps_wf_add by auto
next
  case (OpFrontendSet p v)
  then show ?thesis using assms ps_wf_fe_set by auto
qed (use assms in \<open>auto simp: ps_wf_set ps_wf_setHandle ps_wf_setStrVector ps_wf_parse ps_wf_clear\<close>)

lemma ps_wf_reachable: "ps_reachable parser create ps \<Longrightarrow> parser_wf parser \<Longrightarrow> ps_wf ps"
  by (induction rule: ps_reachable.induct) (auto intro: ps_wf_step)

lemma be_try_get_value: "be_try_get be = Inr v \<Longrightarrow> be_value be = Inr v"
  by (auto simp: be_try_get_def be_try_get_handle_def split: if_splits sum.splits)

lemma ps_get_eq:
  "ps_get t ps uid key = (case backend_of ps uid key of
     None \<Rightarrow> Unexpected GXF_PARAMETER_NOT_FOUND
   | Some be \<Rightarrow> if be_type be \<noteq> t then Unexpected GXF_PARAMETER_INVALID_TYPE
       else (case be_try_get be of Inl e \<Rightarrow> Unexpected GXF_PARAMETER_NOT_INITIALIZED | Inr v \<Rightarrow> Inr v))"
  by (auto simp: ps_get_def getValuePointer_def getBackendPointerImpl_eq ForwardError_def
      split: option.splits sum.splits if_splits)

section \<open>Properties\<close>

text \<open>C32: Parameters are type safe: after any calls, in any order, what get<T> returns is a T, in the
  range of its width, whatever types the callers tried to set; and the frontend of a parameter, which
  a component reads without going through the storage, has the type of the backend and gives the same
  answer.\<close>

theorem parameters_stay_typed:
  assumes "parser_wf parser" "ps_reachable parser create ps"
  shows "(case ps_get t ps uid key of Inr v \<Rightarrow> type_of v = t \<and> wf_value v | Inl e \<Rightarrow> True) \<and>
    (case backend_of ps uid key of
       Some be \<Rightarrow> (case be_frontend be of
         Some p \<Rightarrow> fe_type (ps_frontends ps p) = be_type be \<and> fe_try_get (ps_frontends ps p) = be_try_get be
       | None \<Rightarrow> True)
     | None \<Rightarrow> True)"
proof (cases "backend_of ps uid key")
  case (Some be)
  have w: "be_wf ps uid key be" using ps_wfD(3) [OF ps_wf_reachable [OF assms(2,1)] Some] .
  have "case ps_get t ps uid key of Inr v \<Rightarrow> type_of v = t \<and> wf_value v | Inl e \<Rightarrow> True"
  proof (cases "be_try_get be")
    case (Inr v)
    then show ?thesis using w be_try_get_value [OF Inr] by (simp add: ps_get_eq Some be_wf_def)
  qed (simp add: ps_get_eq Some)
  moreover have "fe_type (ps_frontends ps p) = be_type be \<and> fe_try_get (ps_frontends ps p) = be_try_get be"
    if "be_frontend be = Some p" for p
    using w that by (simp add: be_wf_def fe_try_get_def be_try_get_def fe_try_get_handle_def be_try_get_handle_def)
  ultimately show ?thesis using Some by (simp split: option.split)
qed (simp add: ps_get_eq)

definition int_parser :: "cpp_type \<Rightarrow> int \<Rightarrow> string \<Rightarrow> param_value expected" where
  "int_parser t n prefix = (case t of
     TInt k \<Rightarrow> if fits k n then Inr (VInt k n) else Unexpected GXF_PARAMETER_OUT_OF_RANGE
   | _ \<Rightarrow> Unexpected GXF_PARAMETER_PARSER_ERROR)"

lemma parser_wf_int [simp]: "parser_wf int_parser"
  by (auto simp: parser_wf_def int_parser_def split: cpp_type.splits if_splits)

definition no_component :: "string \<Rightarrow> gxf_uid_t \<Rightarrow> (int \<times> gxf_uid_t) expected" where
  "no_component t cid = Unexpected GXF_ENTITY_COMPONENT_NOT_FOUND"

lemma parameters_stay_typed_witness:
  "\<exists>ps. ps_get (TInt INT64) ps 7 ''count'' = Inr (VInt INT64 (4::int)) \<and>
     (case ps_get (TInt INT64) ps 7 ''count'' of
        Inr v \<Rightarrow> type_of v = TInt INT64 \<and> wf_value v | Inl e \<Rightarrow> True)"
proof -
  let ?ps0 = "ParameterStorage_init (\<lambda>_. TInt INT64)"
  let ?op1 = "OpRegister (TInt INT64) (Some 0) 7 (Some ''count'') (Some ''Count'') (Some ''N/A'')
      (Inr (VInt INT64 1)) 0 :: int ps_op"
  let ?ps1 = "snd (registerParameter (TInt INT64) (Some 0) 7 (Some ''count'') (Some ''Count'') (Some ''N/A'')
      (Inr (VInt INT64 1)) 0 ?ps0)"
  let ?op2 = "OpParse 7 ''count'' 4 ''prefix'' :: int ps_op"
  let ?ps2 = "snd (ps_parse int_parser 7 ''count'' 4 ''prefix'' ?ps1)"
  have 1: "ps_reachable int_parser no_component ?ps1"
    by (rule ps_reachable.step [OF ps_reachable.start [of _ _ "\<lambda>_. TInt INT64"], of ?op1])
       (auto simp: fresh_frontend_def ParameterStorage_init_def fits_def is_signed_def)
  have 2: "ps_reachable int_parser no_component ?ps2"
    by (rule ps_reachable.step [of _ _ ?ps1 ?op2]) (auto intro: 1)
  have get: "ps_get (TInt INT64) ?ps2 7 ''count'' = Inr (VInt INT64 4)" by code_simp
  have typed: "case ps_get (TInt INT64) ?ps2 7 ''count'' of
      Inr v \<Rightarrow> type_of v = TInt INT64 \<and> wf_value v | Inl e \<Rightarrow> True"
    by (rule conjunct1 [OF parameters_stay_typed [OF parser_wf_int 2]])
  from get typed show ?thesis by blast
qed

text \<open>C33: A value that was set is read back: after set has succeeded, get with the type of the value
  returns it, unless it is the unspecified handle, and the frontend shows it; every other parameter
  and every frontend of another parameter is as before.\<close>

theorem set_then_get:
  assumes wf: "ps_wf ps" and s: "ps_set uid key v ps = (Success, ps')"
  shows "ps_get (type_of v) ps' uid key =
      (if is_unspecified v then Unexpected GXF_PARAMETER_NOT_INITIALIZED else Inr v) \<and>
    (\<exists>be. backend_of ps' uid key = Some be \<and>
       (\<forall>p. be_frontend be = Some p \<longrightarrow> fe_value (ps_frontends ps' p) = Inr v) \<and>
       (\<forall>p. be_frontend be \<noteq> Some p \<longrightarrow> ps_frontends ps' p = ps_frontends ps p)) \<and>
    (\<forall>u k. (u, k) \<noteq> (uid, key) \<longrightarrow> backend_of ps' u k = backend_of ps u k)"
proof -
  obtain be ps1 where e: "ensure_backend (type_of v) uid key ps = (be, ps1)" by fastforce
  note w = ps_wf_ensure [OF wf e]
  have f1: "ps_frontends ps1 = ps_frontends ps \<and> (\<forall>u k. (u, k) \<noteq> (uid, key) \<longrightarrow> backend_of ps1 u k = backend_of ps u k)"
    using ps_wfD(1) [OF wf]
    by (cases rule: ensure_backend_cases [where uid = uid and key = key and t = "type_of v"]) (use e in auto)
  have t: "be_type be = type_of v" using s e by (auto simp: ps_set_def split: if_splits)
  have be: "be_set v be = (Success, be\<lparr>be_value := Inr v\<rparr>)"
    using s e t by (cases rule: be_set_cases [of v be]) (auto simp: ps_set_def ForwardError_def)
  define be1 where "be1 = be\<lparr>be_value := Inr v\<rparr>"
  have ps': "ps' = write_frontend be1 (put_backend uid key be1 ps1)"
    using s e t be by (simp add: ps_set_def be1_def)
  note so = ps_wfD(1) [OF w(1)]
  have b': "backend_of ps' uid key = Some be1" using so by (simp add: ps')
  have hv: "is_unspecified v \<Longrightarrow> is_handle (type_of v)"
    by (cases v) (auto simp: is_unspecified_def is_handle_def)
  have "ps_get (type_of v) ps' uid key =
      (if is_unspecified v then Unexpected GXF_PARAMETER_NOT_INITIALIZED else Inr v)"
    using hv t by (auto simp: ps_get_eq b' be1_def be_try_get_def be_try_get_handle_def)
  moreover have "\<forall>p. be_frontend be1 = Some p \<longrightarrow> fe_value (ps_frontends ps' p) = Inr v"
    using f1 by (auto simp: ps' be1_def writeToFrontend_def setWithoutPropagate_def)
  moreover have "\<forall>p. be_frontend be1 \<noteq> Some p \<longrightarrow> ps_frontends ps' p = ps_frontends ps p"
    using f1 by (auto simp: ps')
  moreover have "\<forall>u k. (u, k) \<noteq> (uid, key) \<longrightarrow> backend_of ps' u k = backend_of ps u k"
    using f1 so by (auto simp: ps')
  ultimately show ?thesis using b' by blast
qed

lemma set_then_get_witness:
  "ps_get TBool (snd (ps_set 3 ''on'' (VBool True) (ParameterStorage_init (\<lambda>_. TBool)))) 3 ''on'' = Inr (VBool True)"
proof -
  have "ps_set 3 ''on'' (VBool True) (ParameterStorage_init (\<lambda>_. TBool)) =
      (Success, snd (ps_set 3 ''on'' (VBool True) (ParameterStorage_init (\<lambda>_. TBool))))"
    by (rule prod_eqI) (code_simp, rule snd_conv [symmetric])
  from set_then_get [OF ps_wf_init this] show ?thesis by (simp add: is_unspecified_def)
qed

text \<open>The loops of isAvailable visit all parameters.\<close>

lemma available_in_iff:
  "available_in m = Success \<longleftrightarrow> (\<forall>(key, be)\<in>set m. isMandatory be \<longrightarrow> be_isAvailable be)"
  by (induction m rule: available_in.induct) auto

lemma available_in_cases: "available_in m = Success \<or> available_in m = Inl GXF_PARAMETER_MANDATORY_NOT_SET"
  by (induction m rule: available_in.induct) auto

lemma available_all_iff: "available_all ms = Success \<longleftrightarrow> (\<forall>(uid, m)\<in>set ms. available_in m = Success)"
proof (induction ms rule: available_all.induct)
  case (2 uid m ms)
  then show ?case using available_in_cases [of m] by auto
qed simp

lemma available_backend:
  assumes "isAvailable_uid ps uid = Success" "backend_of ps uid key = Some be" "isMandatory be"
  shows "be_isAvailable be"
  using assms by (auto simp: isAvailable_uid_def backend_of_def component_of_def available_in_iff
      split: option.splits dest!: map_of_SomeD)

text \<open>C34: A component that is allowed to start can read its parameters: when isAvailable succeeds for a
  component, which the entity warden asks before it initialises it, the assertions of Parameter<T>::get
  hold for every mandatory parameter of the component, and get returns the value of the storage.\<close>

theorem available_gets_do_not_assert:
  assumes wf: "ps_wf ps" and av: "isAvailable_uid ps uid = Success"
    and be: "backend_of ps uid key = Some be" "isMandatory be" "be_frontend be = Some p"
  shows "\<exists>v. fe_get p ps = Some v \<and> ps_get (be_type be) ps uid key = Inr v"
proof -
  have a: "be_isAvailable be" using available_backend [OF av be(1,2)] .
  have w: "be_wf ps uid key be" using ps_wfD(3) [OF wf be(1)] .
  obtain v where v: "be_value be = Inr v"
    using a by (cases "be_value be")
      (auto simp: be_isAvailable_def be_isAvailable_handle_def be_isAvailable_plain_def split: if_splits)
  then have u: "is_handle (be_type be) \<Longrightarrow> \<not> is_unspecified v"
    using a by (simp add: be_isAvailable_def be_isAvailable_handle_def)
  have "fe_backend (ps_frontends ps p) = Some (uid, key, be_id be)" "fe_type (ps_frontends ps p) = be_type be"
      "fe_value (ps_frontends ps p) = Inr v"
    using w be(3) v by (simp_all add: be_wf_def)
  then have "fe_get p ps = Some v" using be u by (simp add: fe_get_def Let_def pointed_def)
  moreover have "ps_get (be_type be) ps uid key = Inr v"
    using be v u by (simp add: ps_get_eq be_try_get_def be_try_get_handle_def)
  ultimately show ?thesis by blast
qed

lemma available_gets_do_not_assert_witness:
  "\<exists>v. fe_get 0 (snd (registerParameter (TInt INT64) (Some 0) 7 (Some ''count'') (Some ''Count'') (Some ''N/A'')
      (Inr (VInt INT64 1)) 0 (ParameterStorage_init (\<lambda>_. TInt INT64)))) = Some v"
proof -
  let ?ps = "snd (registerParameter (TInt INT64) (Some 0) 7 (Some ''count'') (Some ''Count'') (Some ''N/A'')
      (Inr (VInt INT64 1)) 0 (ParameterStorage_init (\<lambda>_. TInt INT64)))"
  let ?be = "the (backend_of ?ps 7 ''count'')"
  have w: "ps_wf ?ps"
    by (rule ps_wf_register [OF ps_wf_init]) (auto simp: fresh_frontend_def ParameterStorage_init_def fits_def is_signed_def)
  have "isAvailable_uid ?ps 7 = Success" by code_simp
  moreover have "backend_of ?ps 7 ''count'' = Some ?be"
    by (simp add: registerParameter_def Let_def ParameterStorage_init_def component_of_def put_component_def
        put_backend_def write_frontend_def backend_of_def)
  moreover have "isMandatory ?be" by code_simp
  moreover have "be_frontend ?be = Some 0" by code_simp
  ultimately show ?thesis using available_gets_do_not_assert [OF w, of 7 "''count''" ?be 0] by blast
qed

section \<open>Further facts\<close>

text \<open>A set with another type fails and changes no parameter.\<close>

lemma set_wrong_type:
  assumes wf: "ps_wf ps" and be: "backend_of ps uid key = Some be" "be_type be \<noteq> type_of v"
  shows "fst (ps_set uid key v ps) = Inl GXF_PARAMETER_INVALID_TYPE"
    "backend_of (snd (ps_set uid key v ps)) = backend_of ps"
    "ps_frontends (snd (ps_set uid key v ps)) = ps_frontends ps"
  using ps_wfD(1) [OF wf] be
  by (cases rule: ensure_backend_cases [where uid = uid and key = key and t = "type_of v"]; simp add: ps_set_def)+

text \<open>The validators are never set, so that a set with the right type succeeds.\<close>

text \<open>The first addition makes the parameter, from 0; the sum is what a later get returns.\<close>

lemma add_fresh:
  assumes "backend_of ps uid key = None" "ps_wf ps" "fits INT64 delta"
  shows "\<exists>ps'. addGetInt64 uid key delta ps = Some (Inr delta, ps')"
  using ps_wfD(1) [OF assms(2)] assms
  by (cases rule: ensure_backend_cases [where uid = uid and key = key and t = "TInt INT64"])
     (auto simp: addGetInt64_def dynamic_backend_def be_try_get_def is_handle_def)

lemma add_overflow:
  assumes "backend_of ps uid key = Some be" "be_type be = TInt INT64" "be_value be = Inr (VInt INT64 n)"
    "ps_wf ps" "\<not> fits INT64 (n + delta)"
  shows "addGetInt64 uid key delta ps = None"
  using ps_wfD(1) [OF assms(4)] assms
  by (cases rule: ensure_backend_cases [where uid = uid and key = key and t = "TInt INT64"])
     (auto simp: addGetInt64_def be_try_get_def is_handle_def)

text \<open>A vector of strings that was never set makes its getter take the value of an error.\<close>

lemma get_str_vector_missing:
  "backend_of ps uid key = None \<Longrightarrow> GxfParameterGet1DStrVector ps uid key count min_length = None"
  by (simp add: GxfParameterGet1DStrVector_def ps_get_eq)

text \<open>A frontend that is registered twice is only connected to its last backend, but both write to it.\<close>

lemma shared_frontend_breaks:
  "\<exists>ps be. backend_of ps 7 ''a'' = Some be \<and> be_frontend be = Some 0 \<and>
     be_value be = Inr (VBool False) \<and> fe_value (ps_frontends ps 0) = Inr (VBool True)"
proof -
  let ?r = "\<lambda>k b. registerParameter TBool (Some 0) 7 (Some k) (Some k) (Some k) (Inr (VBool b)) 0"
  let ?ps = "snd (?r ''b'' True (snd (?r ''a'' False (ParameterStorage_init (\<lambda>_. TBool)))))"
  have "backend_of ?ps 7 ''a'' = Some (the (backend_of ?ps 7 ''a''))"
    by (simp add: registerParameter_def Let_def ParameterStorage_init_def component_of_def put_component_def
        put_backend_def write_frontend_def backend_of_def)
  moreover have "be_frontend (the (backend_of ?ps 7 ''a'')) = Some 0" by code_simp
  moreover have "be_value (the (backend_of ?ps 7 ''a'')) = Inr (VBool False)" by code_simp
  moreover have "fe_value (ps_frontends ?ps 0) = Inr (VBool True)" by code_simp
  ultimately show ?thesis by blast
qed

end
