(* ===== verification/Parameter_Registrar.thy ===== *)
theory Parameter_Registrar
  imports Type_Registry Parameter_Storage
begin

text \<open>
  The descriptions of parameters, gxf/core/parameter_registrar.hpp and parameter_registrar.cpp: for
  every component type the keys of its parameters in the order in which the type registered them, and
  for every key the information that a tool may ask for.  The map of the components is ordered, since
  the search for a type by name takes the first entry in the order of the type identifiers; the map of
  the parameters of a component is not visited in order.  Values keep the type they were registered
  with, as the type eraser of the code does.
\<close>

section \<open>Information on parameters\<close>

datatype (plugins only: code) gxf_parameter_type_t =
    GXF_PARAMETER_TYPE_CUSTOM | GXF_PARAMETER_TYPE_HANDLE | GXF_PARAMETER_TYPE_STRING
  | GXF_PARAMETER_TYPE_INT64 | GXF_PARAMETER_TYPE_UINT64 | GXF_PARAMETER_TYPE_FLOAT64
  | GXF_PARAMETER_TYPE_BOOL | GXF_PARAMETER_TYPE_INT32 | GXF_PARAMETER_TYPE_FILE
  | GXF_PARAMETER_TYPE_INT8 | GXF_PARAMETER_TYPE_INT16 | GXF_PARAMETER_TYPE_UINT8
  | GXF_PARAMETER_TYPE_UINT16 | GXF_PARAMETER_TYPE_UINT32 | GXF_PARAMETER_TYPE_FLOAT32
  | GXF_PARAMETER_TYPE_COMPLEX64 | GXF_PARAMETER_TYPE_COMPLEX128

fun int_type :: "cpp_int \<Rightarrow> gxf_parameter_type_t" where
  "int_type INT8 = GXF_PARAMETER_TYPE_INT8" | "int_type INT16 = GXF_PARAMETER_TYPE_INT16"
| "int_type INT32 = GXF_PARAMETER_TYPE_INT32" | "int_type INT64 = GXF_PARAMETER_TYPE_INT64"
| "int_type UINT8 = GXF_PARAMETER_TYPE_UINT8" | "int_type UINT16 = GXF_PARAMETER_TYPE_UINT16"
| "int_type UINT32 = GXF_PARAMETER_TYPE_UINT32" | "int_type UINT64 = GXF_PARAMETER_TYPE_UINT64"

fun opaque_trait :: "opaque_type \<Rightarrow> gxf_parameter_type_t" where
  "opaque_trait FLOAT32 = GXF_PARAMETER_TYPE_FLOAT32" | "opaque_trait FLOAT64 = GXF_PARAMETER_TYPE_FLOAT64"
| "opaque_trait COMPLEX64 = GXF_PARAMETER_TYPE_COMPLEX64"
| "opaque_trait COMPLEX128 = GXF_PARAMETER_TYPE_COMPLEX128"
| "opaque_trait (Named s) = GXF_PARAMETER_TYPE_CUSTOM"

text \<open>ParameterTypeTrait<T>::type and ::is_arithmetic.\<close>

fun trait_type :: "cpp_type \<Rightarrow> gxf_parameter_type_t" where
  "trait_type (TInt k) = int_type k"
| "trait_type TBool = GXF_PARAMETER_TYPE_BOOL"
| "trait_type TString = GXF_PARAMETER_TYPE_STRING"
| "trait_type TFilePath = GXF_PARAMETER_TYPE_FILE"
| "trait_type TStrVector = GXF_PARAMETER_TYPE_CUSTOM"
| "trait_type (THandle t) = GXF_PARAMETER_TYPE_HANDLE"
| "trait_type (TOpaque t) = opaque_trait t"

fun trait_is_arithmetic :: "cpp_type \<Rightarrow> bool" where
  "trait_is_arithmetic (TInt k) = True"
| "trait_is_arithmetic (TOpaque (Named s)) = False"
| "trait_is_arithmetic (TOpaque t) = True"
| "trait_is_arithmetic t = False"

definition kMaxParameterRank :: int where "kMaxParameterRank = 8"

text \<open>What a component gives, a null pointer being None, and what the registrar keeps.\<close>

record ParameterInfo =
  pi_type :: cpp_type
  pi_key :: "string option"
  pi_headline :: "string option"
  pi_description :: "string option"
  pi_platform_information :: "string option"
  pi_value_default :: "param_value expected"
  pi_value_range :: "(param_value \<times> param_value \<times> param_value) expected"
  pi_flags :: "32 word"
  pi_rank :: int
  pi_shape :: "int list"

record ComponentParameterInfo =
  ci_key :: string
  ci_headline :: string
  ci_description :: string
  ci_platform_information :: string
  ci_type :: gxf_parameter_type_t
  ci_handle_tid :: gxf_tid_t
  ci_is_arithmetic :: bool
  ci_flags :: "32 word"
  ci_default_value :: "param_value option"
  ci_value_range :: "(param_value \<times> param_value \<times> param_value) option"
  ci_rank :: int
  ci_shape :: "int list"

record ComponentInfo =
  co_type_name :: string
  co_parameter_keys :: "string list"
  co_parameters :: "string \<rightharpoonup> ComponentParameterInfo"

definition ComponentInfo_init :: ComponentInfo where
  "ComponentInfo_init = \<lparr>co_type_name = '''', co_parameter_keys = [], co_parameters = Map.empty\<rparr>"

type_synonym ParameterRegistrar = "(gxf_tid_t \<times> ComponentInfo) list"

section \<open>Operations\<close>

definition addParameterlessType :: "gxf_tid_t \<Rightarrow> string \<Rightarrow> ParameterRegistrar \<Rightarrow> ParameterRegistrar" where
  "addParameterlessType tid type_name pr = map_put tid (ComponentInfo_init\<lparr>co_type_name := type_name\<rparr>) pr"

definition pr_hasComponent :: "ParameterRegistrar \<Rightarrow> gxf_tid_t \<Rightarrow> bool" where
  "pr_hasComponent pr tid = (map_of pr tid \<noteq> None)"

definition componentParameterCount :: "ParameterRegistrar \<Rightarrow> gxf_tid_t \<Rightarrow> nat" where
  "componentParameterCount pr tid = (case map_of pr tid of None \<Rightarrow> 0 | Some c \<Rightarrow> length (co_parameter_keys c))"

text \<open>The keys and the count that are written through the arguments are returned.\<close>

definition getParameterKeys :: "ParameterRegistrar \<Rightarrow> gxf_tid_t \<Rightarrow> nat \<Rightarrow> unit expected \<times> string list \<times> nat" where
  "getParameterKeys pr tid count = (case map_of pr tid of
     None \<Rightarrow> (Success, [], 0)
   | Some c \<Rightarrow>
       if count < length (co_parameter_keys c)
       then (Unexpected GXF_RESULT_ARRAY_TOO_SMALL, [], length (co_parameter_keys c))
       else (Success, co_parameter_keys c, length (co_parameter_keys c)))"

definition componentHasParameter :: "ParameterRegistrar \<Rightarrow> gxf_tid_t \<Rightarrow> string \<Rightarrow> bool expected" where
  "componentHasParameter pr tid key = (case map_of pr tid of
     None \<Rightarrow> Unexpected GXF_ENTITY_COMPONENT_NOT_FOUND
   | Some c \<Rightarrow> (case co_parameters c key of None \<Rightarrow> Unexpected GXF_PARAMETER_NOT_FOUND | Some i \<Rightarrow> Inr True))"

definition getComponentParameterInfoPtr :: "ParameterRegistrar \<Rightarrow> gxf_tid_t \<Rightarrow> string \<Rightarrow> ComponentParameterInfo expected" where
  "getComponentParameterInfoPtr pr tid key = (case componentHasParameter pr tid key of
     Inl e \<Rightarrow> ForwardError e
   | Inr _ \<Rightarrow> (case map_of pr tid of
       Some c \<Rightarrow> (case co_parameters c key of Some i \<Rightarrow> Inr i | None \<Rightarrow> Unexpected GXF_PARAMETER_NOT_FOUND)
     | None \<Rightarrow> Unexpected GXF_ENTITY_COMPONENT_NOT_FOUND))"

text \<open>The default value by the kind of the parameter; a null pointer is None.\<close>

definition getDefaultValue :: "ParameterRegistrar \<Rightarrow> gxf_tid_t \<Rightarrow> string \<Rightarrow> param_value option expected" where
  "getDefaultValue pr tid key = (case getComponentParameterInfoPtr pr tid key of
     Inl e \<Rightarrow> ForwardError e
   | Inr pinfo \<Rightarrow> (case ci_default_value pinfo of
       None \<Rightarrow> Inr None
     | Some v \<Rightarrow> if ci_type pinfo \<in> {GXF_PARAMETER_TYPE_CUSTOM, GXF_PARAMETER_TYPE_HANDLE} then Inr None
                else Inr (Some v)))"

text \<open>The three values that getNumericRangeImpl writes, and whether it was called.\<close>

definition getNumericRange :: "ParameterRegistrar \<Rightarrow> gxf_tid_t \<Rightarrow> string \<Rightarrow>
    (bool \<times> (param_value \<times> param_value \<times> param_value) option) expected" where
  "getNumericRange pr tid key = (case getComponentParameterInfoPtr pr tid key of
     Inl e \<Rightarrow> ForwardError e
   | Inr ptr \<Rightarrow>
       if \<not> ci_is_arithmetic ptr then Unexpected GXF_PARAMETER_NOT_NUMERIC
       else if ci_type ptr \<in> {GXF_PARAMETER_TYPE_INT8, GXF_PARAMETER_TYPE_INT16, GXF_PARAMETER_TYPE_INT32,
           GXF_PARAMETER_TYPE_INT64, GXF_PARAMETER_TYPE_UINT8, GXF_PARAMETER_TYPE_UINT16,
           GXF_PARAMETER_TYPE_UINT32, GXF_PARAMETER_TYPE_UINT64, GXF_PARAMETER_TYPE_FLOAT32,
           GXF_PARAMETER_TYPE_FLOAT64, GXF_PARAMETER_TYPE_COMPLEX64, GXF_PARAMETER_TYPE_COMPLEX128}
       then Inr (True, ci_value_range ptr) else Inr (False, None))"

record gxf_parameter_info_t =
  gi_key :: string
  gi_headline :: string
  gi_description :: string
  gi_flags :: "32 word"
  gi_platform_information :: string
  gi_type :: gxf_parameter_type_t
  gi_handle_tid :: gxf_tid_t
  gi_rank :: int
  gi_shape :: "int list"
  gi_default_value :: "param_value option"
  gi_numeric_range :: "(param_value \<times> param_value \<times> param_value) option"

definition getParameterInfo :: "ParameterRegistrar \<Rightarrow> gxf_tid_t \<Rightarrow> string \<Rightarrow> gxf_parameter_info_t expected" where
  "getParameterInfo pr tid key = (case getComponentParameterInfoPtr pr tid key of
     Inl e \<Rightarrow> ForwardError e
   | Inr pinfo \<Rightarrow> (case getDefaultValue pr tid key of
       Inl e \<Rightarrow> ForwardError e
     | Inr default_value \<Rightarrow>
         let info = \<lparr>gi_key = ci_key pinfo, gi_headline = ci_headline pinfo,
               gi_description = ci_description pinfo, gi_flags = ci_flags pinfo,
               gi_platform_information = ci_platform_information pinfo, gi_type = ci_type pinfo,
               gi_handle_tid = ci_handle_tid pinfo, gi_rank = ci_rank pinfo,
               gi_shape = take (nat (ci_rank pinfo)) (ci_shape pinfo),
               gi_default_value = default_value, gi_numeric_range = None\<rparr>
         in if ci_is_arithmetic pinfo then (case getNumericRange pr tid key of
              Inl e \<Rightarrow> ForwardError e
            | Inr (_, rg) \<Rightarrow> Inr (info\<lparr>gi_numeric_range := rg\<rparr>))
            else Inr info))"

text \<open>The first component of that name in the order of the type identifiers.\<close>

fun tidFromTypename :: "ParameterRegistrar \<Rightarrow> string \<Rightarrow> gxf_tid_t expected" where
  "tidFromTypename [] type_name = Unexpected GXF_ENTITY_COMPONENT_NOT_FOUND"
| "tidFromTypename ((tid, c) # pr) type_name =
     (if co_type_name c = type_name then Inr tid else tidFromTypename pr type_name)"

text \<open>ParameterInfoOverride<T>::apply, with its specialisation for handles.\<close>

definition apply_override :: "ParameterRegistrar \<Rightarrow> cpp_type \<Rightarrow> ComponentParameterInfo \<Rightarrow> ComponentParameterInfo expected" where
  "apply_override pr t info = (case t of
     THandle s \<Rightarrow> (case tidFromTypename pr s of
         Inl e \<Rightarrow> ForwardError e
       | Inr h \<Rightarrow> Inr (info\<lparr>ci_type := GXF_PARAMETER_TYPE_HANDLE, ci_is_arithmetic := False, ci_handle_tid := h\<rparr>))
   | _ \<Rightarrow> Inr (info\<lparr>ci_type := trait_type t, ci_is_arithmetic := trait_is_arithmetic t,
                      ci_handle_tid := GxfTidNull\<rparr>))"

definition registerComponentParameterImpl :: "gxf_tid_t \<Rightarrow> string \<Rightarrow> ComponentParameterInfo \<Rightarrow> ParameterRegistrar \<Rightarrow>
    unit expected \<times> ParameterRegistrar" where
  "registerComponentParameterImpl tid type_name info pr =
     (let pr1 = map_emplace tid ComponentInfo_init pr;
          c = (case map_of pr tid of None \<Rightarrow> ComponentInfo_init | Some c \<Rightarrow> c) in
      if co_parameters c (ci_key info) \<noteq> None then (Unexpected GXF_PARAMETER_ALREADY_REGISTERED, pr1)
      else (Success, map_put tid (c\<lparr>co_parameter_keys := co_parameter_keys c @ [ci_key info],
              co_parameters := (co_parameters c)(ci_key info \<mapsto> info), co_type_name := type_name\<rparr>) pr1))"

text \<open>The rest of the shape is filled with ones, from the rank on: a negative rank, which is not
  refused, writes before the array (None).\<close>

definition fill_shape :: "int \<Rightarrow> int list \<Rightarrow> int list option" where
  "fill_shape rank shape =
     (if rank < 0 then None else Some (take (nat rank) shape @ replicate (nat (kMaxParameterRank - rank)) 1))"

definition registerComponentParameter :: "gxf_tid_t \<Rightarrow> string \<Rightarrow> ParameterInfo \<Rightarrow> ParameterRegistrar \<Rightarrow>
    (unit expected \<times> ParameterRegistrar) option" where
  "registerComponentParameter tid type_name ri pr =
     (case (pi_key ri, pi_headline ri, pi_description ri) of
       (Some key, Some headline, Some description) \<Rightarrow>
         if pi_rank ri > kMaxParameterRank then Some (Unexpected GXF_ARGUMENT_OUT_OF_RANGE, pr)
         else (case fill_shape (pi_rank ri) (pi_shape ri) of
           None \<Rightarrow> None
         | Some shape \<Rightarrow>
             let info = \<lparr>ci_key = key, ci_headline = headline, ci_description = description,
                   ci_platform_information = (case pi_platform_information ri of None \<Rightarrow> '''' | Some s \<Rightarrow> s),
                   ci_type = GXF_PARAMETER_TYPE_CUSTOM, ci_handle_tid = GxfTidNull, ci_is_arithmetic = False,
                   ci_flags = pi_flags ri,
                   ci_default_value = (case pi_value_default ri of Inr v \<Rightarrow> Some v | Inl e \<Rightarrow> None),
                   ci_value_range = (case pi_value_range ri of Inr v \<Rightarrow> Some v | Inl e \<Rightarrow> None),
                   ci_rank = pi_rank ri, ci_shape = shape\<rparr>
             in case apply_override pr (pi_type ri) info of
                  Inl e \<Rightarrow> Some (Inl e, pr)
                | Inr info1 \<Rightarrow> Some (registerComponentParameterImpl tid type_name info1 pr))
     | _ \<Rightarrow> Some (Unexpected GXF_ARGUMENT_NULL, pr))"

text \<open>Registrar::parameterImpl of gxf/core/registrar.hpp: a parameter is described for its type when
  there is a registrar, and is made in the storage in any case; the storage may be missing.\<close>

definition parameterImpl :: "gxf_tid_t \<Rightarrow> string \<Rightarrow> gxf_uid_t \<Rightarrow> nat \<Rightarrow> ParameterInfo \<Rightarrow>
    ParameterRegistrar option \<Rightarrow> ParameterStorage option \<Rightarrow>
    (unit expected \<times> ParameterRegistrar option \<times> ParameterStorage option) option" where
  "parameterImpl tid type_name cid parameter info registrar storage =
     (case (case registrar of
              None \<Rightarrow> Some (Success, None)
            | Some pr \<Rightarrow> map_option (\<lambda>(r, pr1). (r, Some pr1)) (registerComponentParameter tid type_name info pr)) of
        None \<Rightarrow> None
      | Some (Inl e, reg1) \<Rightarrow> Some (ForwardError e, reg1, storage)
      | Some (Inr _, reg1) \<Rightarrow> (case storage of
          None \<Rightarrow> Some (Unexpected GXF_CONTEXT_INVALID, reg1, None)
        | Some ps \<Rightarrow> (case registerParameter (pi_type info) (Some parameter) cid (pi_key info) (pi_headline info)
              (pi_description info) (pi_value_default info) (pi_flags info) ps of
            (r, ps1) \<Rightarrow> Some (r, reg1, Some ps1))))"

section \<open>Invariant\<close>

text \<open>The keys of a component are those of its parameters, each once, and an entry has the key it is
  under, a shape of full length and a rank in bounds.\<close>

definition co_wf :: "ComponentInfo \<Rightarrow> bool" where
  "co_wf c \<longleftrightarrow> distinct (co_parameter_keys c) \<and> set (co_parameter_keys c) = dom (co_parameters c) \<and>
     (\<forall>k i. co_parameters c k = Some i \<longrightarrow> ci_key i = k \<and> 0 \<le> ci_rank i \<and> ci_rank i \<le> kMaxParameterRank)"

definition pr_wf :: "ParameterRegistrar \<Rightarrow> bool" where [inv_defs]:
  "pr_wf pr \<longleftrightarrow> sorted_map pr \<and> (\<forall>tid c. map_of pr tid = Some c \<longrightarrow> co_wf c)"

lemma co_wf_init [simp]: "co_wf ComponentInfo_init" "co_wf (ComponentInfo_init\<lparr>co_type_name := n\<rparr>)"
  by (simp_all add: co_wf_def ComponentInfo_init_def)

lemma pr_wf_Nil [simp]: "pr_wf []"
  by (simp add: pr_wf_def)

lemma pr_wf_put: "pr_wf pr \<Longrightarrow> co_wf c \<Longrightarrow> pr_wf (map_put tid c pr)"
  by (simp add: pr_wf_def map_of_map_put)

lemma pr_wf_addParameterless: "pr_wf pr \<Longrightarrow> pr_wf (addParameterlessType tid n pr)"
  by (simp add: addParameterlessType_def pr_wf_put)

lemma pr_wf_impl:
  assumes "pr_wf pr" "0 \<le> ci_rank info" "ci_rank info \<le> kMaxParameterRank"
  shows "pr_wf (snd (registerComponentParameterImpl tid n info pr))"
proof -
  define c where "c = (case map_of pr tid of None \<Rightarrow> ComponentInfo_init | Some c \<Rightarrow> c)"
  have c: "co_wf c" using assms(1) by (auto simp: c_def pr_wf_def split: option.splits)
  have e: "pr_wf (map_emplace tid ComponentInfo_init pr)"
    using assms(1) by (simp add: map_emplace_def pr_wf_put)
  show ?thesis
  proof (cases "co_parameters c (ci_key info)")
    case None
    then have "co_wf (c\<lparr>co_parameter_keys := co_parameter_keys c @ [ci_key info],
        co_parameters := (co_parameters c)(ci_key info \<mapsto> info), co_type_name := n\<rparr>)"
      using c assms by (auto simp: co_wf_def)
    then show ?thesis using None e
      by (simp add: registerComponentParameterImpl_def c_def [symmetric] pr_wf_put)
  qed (use e in \<open>simp add: registerComponentParameterImpl_def c_def [symmetric]\<close>)
qed

lemma pr_wf_impl':
  "registerComponentParameterImpl tid n info pr = (r, pr1) \<Longrightarrow> pr_wf pr \<Longrightarrow> 0 \<le> ci_rank info \<Longrightarrow>
   ci_rank info \<le> kMaxParameterRank \<Longrightarrow> pr_wf pr1"
  using pr_wf_impl [of pr info tid n] by simp

lemma apply_override_rank: "apply_override pr t info = Inr info1 \<Longrightarrow> ci_rank info1 = ci_rank info"
  by (auto simp: apply_override_def ForwardError_def split: cpp_type.splits sum.splits)

lemma pr_wf_register:
  assumes "pr_wf pr" "registerComponentParameter tid n ri pr = Some (r, pr1)"
  shows "pr_wf pr1"
  using assms
  by (auto simp: registerComponentParameter_def fill_shape_def Let_def split: option.splits if_splits sum.splits
      dest!: apply_override_rank elim!: pr_wf_impl')

text \<open>A negative rank is the one argument that is not survived.\<close>

lemma negative_rank_undefined:
  assumes "pi_key ri = Some k" "pi_headline ri = Some h" "pi_description ri = Some d"
  shows "registerComponentParameter tid n ri pr = None \<longleftrightarrow> pi_rank ri < 0"
  using assms by (auto simp: registerComponentParameter_def fill_shape_def kMaxParameterRank_def Let_def
      split: sum.splits option.splits)

text \<open>What is registered is found again, with the type, the defaults and the shape of the parameter.\<close>

lemma apply_override_fields:
  assumes "apply_override pr t info = Inr info1"
  shows "ci_key info1 = ci_key info" "ci_type info1 = trait_type t" "ci_is_arithmetic info1 = trait_is_arithmetic t"
    "ci_default_value info1 = ci_default_value info" "ci_rank info1 = ci_rank info" "ci_shape info1 = ci_shape info"
  using assms by (auto simp: apply_override_def ForwardError_def split: cpp_type.splits sum.splits)

lemma registerComponentParameter_Success:
  assumes "registerComponentParameter tid n ri pr = Some (Success, pr1)"
  obtains key info info1 where "pi_key ri = Some key" "0 \<le> pi_rank ri" "pi_rank ri \<le> kMaxParameterRank"
    "ci_key info = key" "ci_rank info = pi_rank ri"
    "ci_shape info = take (nat (pi_rank ri)) (pi_shape ri) @ replicate (nat (kMaxParameterRank - pi_rank ri)) 1"
    "apply_override pr (pi_type ri) info = Inr info1"
    "registerComponentParameterImpl tid n info1 pr = (Success, pr1)"
proof -
  obtain key hl d where k: "pi_key ri = Some key" "pi_headline ri = Some hl" "pi_description ri = Some d"
    using assms by (auto simp: registerComponentParameter_def split: option.splits)
  have rank: "0 \<le> pi_rank ri" "pi_rank ri \<le> kMaxParameterRank"
    using assms k by (auto simp: registerComponentParameter_def fill_shape_def split: if_splits)
  define info where "info = \<lparr>ci_key = key, ci_headline = hl, ci_description = d,
    ci_platform_information = (case pi_platform_information ri of None \<Rightarrow> '''' | Some s \<Rightarrow> s),
    ci_type = GXF_PARAMETER_TYPE_CUSTOM, ci_handle_tid = GxfTidNull, ci_is_arithmetic = False,
    ci_flags = pi_flags ri,
    ci_default_value = (case pi_value_default ri of Inr v \<Rightarrow> Some v | Inl e \<Rightarrow> None),
    ci_value_range = (case pi_value_range ri of Inr v \<Rightarrow> Some v | Inl e \<Rightarrow> None),
    ci_rank = pi_rank ri,
    ci_shape = take (nat (pi_rank ri)) (pi_shape ri) @ replicate (nat (kMaxParameterRank - pi_rank ri)) 1\<rparr>"
  have "(case apply_override pr (pi_type ri) info of Inl e \<Rightarrow> Some (Inl e, pr)
      | Inr info1 \<Rightarrow> Some (registerComponentParameterImpl tid n info1 pr)) = Some (Success, pr1)"
    using assms k rank by (simp add: registerComponentParameter_def fill_shape_def info_def Let_def)
  then obtain info1 where "apply_override pr (pi_type ri) info = Inr info1"
      "registerComponentParameterImpl tid n info1 pr = (Success, pr1)"
    by (cases "apply_override pr (pi_type ri) info") auto
  then show ?thesis using that [of key info info1] k rank by (simp add: info_def)
qed

lemma register_then_info:
  assumes wf: "pr_wf pr" and r: "registerComponentParameter tid n ri pr = Some (Success, pr1)"
    and len: "length (pi_shape ri) = nat kMaxParameterRank"
  shows "\<exists>key i. pi_key ri = Some key \<and> getParameterInfo pr1 tid key = Inr i \<and>
    gi_type i = trait_type (pi_type ri) \<and> gi_rank i = pi_rank ri \<and>
    gi_shape i = take (nat (pi_rank ri)) (pi_shape ri)"
proof -
  have so: "sorted_map (map_emplace tid ComponentInfo_init pr)" using wf by (simp add: pr_wf_def)
  obtain key info info1 where k: "pi_key ri = Some key" "0 \<le> pi_rank ri" "pi_rank ri \<le> kMaxParameterRank"
    "ci_key info = key" "ci_rank info = pi_rank ri"
    "ci_shape info = take (nat (pi_rank ri)) (pi_shape ri) @ replicate (nat (kMaxParameterRank - pi_rank ri)) 1"
    "apply_override pr (pi_type ri) info = Inr info1"
    "registerComponentParameterImpl tid n info1 pr = (Success, pr1)"
    using registerComponentParameter_Success [OF r] by metis
  note o = apply_override_fields [OF k(7)]
  have p: "getComponentParameterInfoPtr pr1 tid key = Inr info1"
    using k(4,8) o(1) so by (auto simp: registerComponentParameterImpl_def Let_def getComponentParameterInfoPtr_def
        componentHasParameter_def map_of_map_put split: if_splits)
  have "\<exists>v. getDefaultValue pr1 tid key = Inr v"
    by (cases "ci_default_value info1") (simp_all add: getDefaultValue_def p)
  then obtain v where v: "getDefaultValue pr1 tid key = Inr v" ..
  obtain rg where "getParameterInfo pr1 tid key = Inr \<lparr>gi_key = ci_key info1, gi_headline = ci_headline info1,
      gi_description = ci_description info1, gi_flags = ci_flags info1,
      gi_platform_information = ci_platform_information info1, gi_type = ci_type info1,
      gi_handle_tid = ci_handle_tid info1, gi_rank = ci_rank info1,
      gi_shape = take (nat (ci_rank info1)) (ci_shape info1), gi_default_value = v, gi_numeric_range = rg\<rparr>"
  proof (cases "ci_is_arithmetic info1")
    case True
    have "isl (getNumericRange pr1 tid key) \<longleftrightarrow> False" using True by (simp add: getNumericRange_def p)
    then obtain b rg where "getNumericRange pr1 tid key = Inr (b, rg)"
      by (cases "getNumericRange pr1 tid key") auto
    then show ?thesis using that True by (simp add: getParameterInfo_def p v)
  qed (use that in \<open>simp add: getParameterInfo_def p v\<close>)
  moreover have "take (nat (ci_rank info1)) (ci_shape info1) = take (nat (pi_rank ri)) (pi_shape ri)"
    using k(2,3,5,6) o(5,6) len by (simp add: nat_mono)
  ultimately show ?thesis using k(1,5) o(2,5) by simp
qed

text \<open>Adding a type as parameterless a second time loses the parameters it had registered.\<close>

lemma parameterless_forgets:
  "sorted_map pr \<Longrightarrow> getComponentParameterInfoPtr (addParameterlessType tid n pr) tid key = Inl GXF_PARAMETER_NOT_FOUND"
  by (simp add: getComponentParameterInfoPtr_def componentHasParameter_def addParameterlessType_def map_of_map_put
      ComponentInfo_init_def ForwardError_def)

text \<open>The types of values decide their kind, and numbers are exactly the arithmetic kinds.\<close>

lemma trait_arithmetic_iff:
  "trait_is_arithmetic t \<longleftrightarrow> trait_type t \<notin> {GXF_PARAMETER_TYPE_CUSTOM, GXF_PARAMETER_TYPE_HANDLE,
     GXF_PARAMETER_TYPE_STRING, GXF_PARAMETER_TYPE_BOOL, GXF_PARAMETER_TYPE_FILE}"
proof (cases t)
  case (TInt k)
  then show ?thesis by (cases k) simp_all
next
  case (TOpaque q)
  then show ?thesis by (cases q) simp_all
qed simp_all

end
