(* ===== verification/Extension_Loader.thy ===== *)
theory Extension_Loader
  imports Parameter_Registrar
begin

text \<open>
  Extensions and their types: gxf/std/default_extension.{hpp,cpp}, gxf/std/extension_loader.{hpp,cpp}
  and the registration of types in gxf/core/runtime.cpp.  An extension is a list of component types,
  each with an allocator unless it is abstract.  The loader enters the types of an extension into its
  table of factories, and lets the extension register them with the runtime, which enters them into
  the type registry, and makes and destroys one object of every component type to learn its
  parameters.  Extensions are at addresses; the objects that allocators make are at addresses with the
  name of their C++ type.  What a component registers as its interface is a parameter.  None is
  undefined behaviour, or a search that does not end.
\<close>

section \<open>Objects\<close>

record Objects =
  ob_type :: "nat \<rightharpoonup> string"
  ob_next :: nat

definition new_object :: "string \<Rightarrow> Objects \<Rightarrow> nat \<times> Objects" where
  "new_object t ob = (ob_next ob, ob\<lparr>ob_type := (ob_type ob)(ob_next ob \<mapsto> t), ob_next := ob_next ob + 1\<rparr>)"

text \<open>NewComponentAllocator<T>; deleting what is not a T is undefined.\<close>

definition nca_allocate :: "string \<Rightarrow> Objects \<Rightarrow> (gxf_result_t \<times> nat) \<times> Objects" where
  "nca_allocate t ob = (case new_object t ob of (p, ob1) \<Rightarrow>
     if p = 0 then ((GXF_OUT_OF_MEMORY, p), ob1) else ((GXF_SUCCESS, p), ob1))"

definition nca_deallocate :: "string \<Rightarrow> nat \<Rightarrow> Objects \<Rightarrow> (gxf_result_t \<times> Objects) option" where
  "nca_deallocate t p ob =
     (if p = 0 then Some (GXF_ARGUMENT_NULL, ob)
      else if ob_type ob p = Some t then Some (GXF_SUCCESS, ob\<lparr>ob_type := (ob_type ob)(p := None)\<rparr>)
      else None)"

section \<open>DefaultExtension\<close>

text \<open>en_allocator tells whether there is an allocator; its type is the type of the entry.\<close>

record Entry =
  en_tid :: gxf_tid_t
  en_name :: string
  en_base :: string
  en_description :: string
  en_display_name :: string
  en_brief :: string
  en_allocator :: bool

record DefaultExtension =
  de_entries :: "Entry list"
  de_tid :: gxf_tid_t
  de_name :: string
  de_description :: string
  de_author :: string
  de_extension_version :: string
  de_gxf_core_version :: string
  de_license :: string
  de_display_name :: string
  de_category :: string
  de_brief :: string

definition kMaxComponents :: nat where "kMaxComponents = 1024"

definition kGxfCoreVersion :: string where "kGxfCoreVersion = ''4.1.0''"

definition DefaultExtension_init :: DefaultExtension where
  "DefaultExtension_init = \<lparr>de_entries = [], de_tid = GxfTidNull, de_name = '''', de_description = '''',
     de_author = '''', de_extension_version = '''', de_gxf_core_version = kGxfCoreVersion, de_license = '''',
     de_display_name = '''', de_category = '''', de_brief = ''''\<rparr>"

definition setInfo_abi :: "gxf_tid_t \<Rightarrow> string \<Rightarrow> string \<Rightarrow> string \<Rightarrow> string \<Rightarrow> string \<Rightarrow> DefaultExtension \<Rightarrow>
    gxf_result_t \<times> DefaultExtension" where
  "setInfo_abi tid name desc author version license de =
     (if length desc > 256 then (GXF_ARGUMENT_OUT_OF_RANGE, de)
      else if length author > 64 then (GXF_ARGUMENT_OUT_OF_RANGE, de)
      else if length license > 64 then (GXF_ARGUMENT_OUT_OF_RANGE, de)
      else (GXF_SUCCESS, de\<lparr>de_tid := tid, de_extension_version := version, de_name := name,
              de_description := desc, de_author := author, de_license := license\<rparr>))"

definition setDisplayInfo_abi :: "string \<Rightarrow> string \<Rightarrow> string \<Rightarrow> DefaultExtension \<Rightarrow> gxf_result_t \<times> DefaultExtension" where
  "setDisplayInfo_abi display_name category brief de =
     (if length display_name > 30 then (GXF_ARGUMENT_OUT_OF_RANGE, de)
      else if length category > 30 then (GXF_ARGUMENT_OUT_OF_RANGE, de)
      else if length brief > 50 then (GXF_ARGUMENT_OUT_OF_RANGE, de)
      else (GXF_SUCCESS, de\<lparr>de_display_name := display_name, de_category := category, de_brief := brief\<rparr>))"

text \<open>An info argument is in and out: the capacity and the array that the caller gives, None a null
  pointer, and the answer.\<close>

record gxf_extension_info_t =
  xi_id :: gxf_tid_t
  xi_version :: string
  xi_runtime_version :: string
  xi_name :: string
  xi_description :: string
  xi_author :: string
  xi_license :: string
  xi_display_name :: string
  xi_category :: string
  xi_brief :: string
  xi_num_components :: nat
  xi_components :: "gxf_tid_t list option"

definition getInfo_abi :: "DefaultExtension \<Rightarrow> gxf_extension_info_t option \<Rightarrow> gxf_result_t \<times> gxf_extension_info_t option" where
  "getInfo_abi de info =
     (if GxfTidIsNull (de_tid de) then (GXF_FACTORY_INVALID_INFO, info)
      else case info of None \<Rightarrow> (GXF_ARGUMENT_INVALID, info)
      | Some i \<Rightarrow> (GXF_SUCCESS, Some \<lparr>xi_id = de_tid de, xi_version = de_extension_version de,
          xi_runtime_version = de_gxf_core_version de, xi_name = de_name de,
          xi_description = de_description de, xi_author = de_author de, xi_license = de_license de,
          xi_display_name = de_display_name de, xi_category = de_category de, xi_brief = de_brief de,
          xi_num_components = length (de_entries de),
          xi_components = (case xi_components i of
             Some arr \<Rightarrow> if xi_num_components i \<ge> length (de_entries de)
               then Some (map en_tid (de_entries de) @ drop (length (de_entries de)) arr) else Some arr
           | None \<Rightarrow> None)\<rparr>))"

definition checkInfo_abi :: "DefaultExtension \<Rightarrow> gxf_result_t" where
  "checkInfo_abi de = (if GxfTidIsNull (de_tid de) \<or> de_extension_version de = [] \<or> de_gxf_core_version de = []
     then GXF_FACTORY_INVALID_INFO else GXF_SUCCESS)"

fun find_entry :: "Entry list \<Rightarrow> gxf_tid_t \<Rightarrow> Entry expected" where
  "find_entry [] tid = Unexpected GXF_QUERY_NOT_FOUND"
| "find_entry (entry # es) tid = (if en_tid entry = tid then Inr entry else find_entry es tid)"

record gxf_component_info_t =
  mi_cid :: gxf_tid_t
  mi_type_name :: string
  mi_base_name :: "string option"
  mi_is_abstract :: bool
  mi_description :: string
  mi_display_name :: string
  mi_brief :: string

definition getComponentInfo_abi :: "DefaultExtension \<Rightarrow> gxf_tid_t \<Rightarrow> bool \<Rightarrow> gxf_result_t \<times> gxf_component_info_t option" where
  "getComponentInfo_abi de tid info_null =
     (if info_null then (GXF_ARGUMENT_INVALID, None)
      else case find_entry (de_entries de) tid of
        Inl e \<Rightarrow> (GXF_ENTITY_COMPONENT_NOT_FOUND, None)
      | Inr entry \<Rightarrow> (GXF_SUCCESS, Some \<lparr>mi_cid = tid, mi_type_name = en_name entry,
          mi_base_name = (if en_base entry \<noteq> [] then Some (en_base entry) else None),
          mi_is_abstract = (\<not> en_allocator entry), mi_description = en_description entry,
          mi_display_name = en_display_name entry, mi_brief = en_brief entry\<rparr>))"

definition hasComponent_abi :: "DefaultExtension \<Rightarrow> gxf_tid_t \<Rightarrow> gxf_result_t" where
  "hasComponent_abi de tid = ToResultCode (find_entry (de_entries de) tid)"

text \<open>The capacity and the identifiers that are written.\<close>

definition getComponentTypes_abi :: "DefaultExtension \<Rightarrow> bool \<Rightarrow> nat option \<Rightarrow> gxf_result_t \<times> gxf_tid_t list \<times> nat option" where
  "getComponentTypes_abi de pointer_null cap =
     (if pointer_null then (GXF_ARGUMENT_NULL, [], cap)
      else case cap of None \<Rightarrow> (GXF_ARGUMENT_NULL, [], cap)
      | Some n \<Rightarrow>
          if n < length (de_entries de) then (GXF_RESULT_ARRAY_TOO_SMALL, [], Some (length (de_entries de)))
          else (GXF_SUCCESS, map en_tid (de_entries de), Some (length (de_entries de))))"

definition de_allocate_abi :: "DefaultExtension \<Rightarrow> gxf_tid_t \<Rightarrow> Objects \<Rightarrow> (gxf_result_t \<times> nat) \<times> Objects" where
  "de_allocate_abi de tid ob = (case find_entry (de_entries de) tid of
     Inl e \<Rightarrow> ((GXF_FACTORY_UNKNOWN_TID, 0), ob)
   | Inr entry \<Rightarrow> if \<not> en_allocator entry then ((GXF_FACTORY_ABSTRACT_CLASS, 0), ob)
       else nca_allocate (en_name entry) ob)"

text \<open>There is no test for the allocator of an abstract type here.\<close>

definition de_deallocate_abi :: "DefaultExtension \<Rightarrow> gxf_tid_t \<Rightarrow> nat \<Rightarrow> Objects \<Rightarrow> (gxf_result_t \<times> Objects) option" where
  "de_deallocate_abi de tid p ob = (case find_entry (de_entries de) tid of
     Inl e \<Rightarrow> Some (GXF_FACTORY_UNKNOWN_TID, ob)
   | Inr entry \<Rightarrow> if \<not> en_allocator entry then None else nca_deallocate (en_name entry) p ob)"

text \<open>add<T, Base>: the names of the types, and whether T is abstract, come from the compiler.\<close>

definition de_add :: "string \<Rightarrow> string \<Rightarrow> bool \<Rightarrow> gxf_tid_t \<Rightarrow> string \<Rightarrow> string \<Rightarrow> string \<Rightarrow> DefaultExtension \<Rightarrow>
    unit expected \<times> DefaultExtension" where
  "de_add type_name base_name is_abstract tid description display_name brief de =
     (if ok (find_entry (de_entries de) tid) then (Unexpected GXF_FACTORY_DUPLICATE_TID, de)
      else if length display_name > 50 then (Unexpected GXF_ARGUMENT_OUT_OF_RANGE, de)
      else if length brief > 128 then (Unexpected GXF_ARGUMENT_OUT_OF_RANGE, de)
      else if length description > 1026 then (Unexpected GXF_ARGUMENT_OUT_OF_RANGE, de)
      else if length (de_entries de) \<ge> kMaxComponents then (Unexpected GXF_EXCEEDING_PREALLOCATED_SIZE, de)
      else (Success, de\<lparr>de_entries := de_entries de @ [\<lparr>en_tid = tid, en_name = type_name, en_base = base_name,
              en_description = description, en_display_name = display_name, en_brief = brief,
              en_allocator = (\<not> is_abstract)\<rparr>]\<rparr>))"

section \<open>ExtensionLoader\<close>

record ExtensionLoader =
  el_component_factory :: "(gxf_tid_t \<times> nat) list"
  el_factories :: "nat list"
  el_capacity :: nat
  el_extension_factory :: "(gxf_tid_t \<times> nat) list"
  el_handles :: "nat list"

definition ExtensionLoader_init :: ExtensionLoader where
  "ExtensionLoader_init = \<lparr>el_component_factory = [], el_factories = [], el_capacity = 0,
     el_extension_factory = [], el_handles = []\<rparr>"

definition kMaxExtensions :: nat where "kMaxExtensions = 1024"

definition el_initialize :: "bool \<Rightarrow> ExtensionLoader \<Rightarrow> unit expected \<times> ExtensionLoader" where
  "el_initialize memory_available el =
     (if memory_available then (Success, el\<lparr>el_capacity := kMaxExtensions\<rparr>)
      else (Unexpected GXF_OUT_OF_MEMORY, el))"

type_synonym extensions = "nat \<Rightarrow> DefaultExtension"

definition el_allocate_abi :: "extensions \<Rightarrow> ExtensionLoader \<Rightarrow> gxf_tid_t \<Rightarrow> Objects \<Rightarrow> (gxf_result_t \<times> nat) \<times> Objects" where
  "el_allocate_abi exts el tid ob = (case map_of (el_component_factory el) tid of
     None \<Rightarrow> ((GXF_FACTORY_UNKNOWN_TID, 0), ob)
   | Some x \<Rightarrow> de_allocate_abi (exts x) tid ob)"

definition el_deallocate_abi :: "extensions \<Rightarrow> ExtensionLoader \<Rightarrow> gxf_tid_t \<Rightarrow> nat \<Rightarrow> Objects \<Rightarrow> (gxf_result_t \<times> Objects) option" where
  "el_deallocate_abi exts el tid p ob = (case map_of (el_component_factory el) tid of
     None \<Rightarrow> Some (GXF_FACTORY_UNKNOWN_TID, ob)
   | Some x \<Rightarrow> de_deallocate_abi (exts x) tid p ob)"

text \<open>ComponentFactory::allocate.\<close>

definition cf_allocate :: "extensions \<Rightarrow> ExtensionLoader \<Rightarrow> gxf_tid_t \<Rightarrow> Objects \<Rightarrow> nat expected \<times> Objects" where
  "cf_allocate exts el tid ob = (case el_allocate_abi exts el tid ob of ((code, p), ob1) \<Rightarrow>
     (ExpectedOrCodeVal code p, ob1))"

text \<open>The numbers in a version string, as the regular expression of the code finds them; fewer than
  two of them make isCompatible read out of range.\<close>

definition is_digit :: "char \<Rightarrow> bool" where
  "is_digit c \<longleftrightarrow> c \<in> set ''0123456789''"

fun digit_tokens :: "string \<Rightarrow> string \<Rightarrow> string list" where
  "digit_tokens [] cur = (if cur = [] then [] else [rev cur])"
| "digit_tokens (c # cs) cur =
     (if is_digit c then digit_tokens cs (c # cur)
      else if cur = [] then digit_tokens cs [] else rev cur # digit_tokens cs [])"

definition isCompatible :: "string \<Rightarrow> string \<Rightarrow> bool option" where
  "isCompatible ver1 ver2 =
     (let t1 = digit_tokens ver1 []; t2 = digit_tokens ver2 [] in
      if length t1 < 2 \<or> length t2 < 2 then None
      else Some (length t1 = 3 \<and> length t2 = 3 \<and> t1 ! 0 = t2 ! 0 \<and> t1 ! 1 = t2 ! 1))"

definition registerRuntimeComponent :: "extensions \<Rightarrow> gxf_tid_t \<Rightarrow> gxf_tid_t \<Rightarrow> ExtensionLoader \<Rightarrow>
    unit expected \<times> ExtensionLoader" where
  "registerRuntimeComponent exts component_tid ext_id el = (case map_of (el_extension_factory el) ext_id of
     None \<Rightarrow> (Unexpected GXF_EXTENSION_NOT_FOUND, el)
   | Some x \<Rightarrow>
       if hasComponent_abi (exts x) component_tid \<noteq> GXF_SUCCESS then (Unexpected GXF_ENTITY_COMPONENT_NOT_FOUND, el)
       else if map_of (el_component_factory el) component_tid \<noteq> None then (Unexpected GXF_FACTORY_DUPLICATE_TID, el)
       else (Success, el\<lparr>el_component_factory := map_put component_tid x (el_component_factory el)\<rparr>))"

text \<open>The loop of load that enters the types: it stops at a duplicate, and what it has entered stays.\<close>

fun enter_types :: "nat \<Rightarrow> gxf_tid_t list \<Rightarrow> ExtensionLoader \<Rightarrow> unit expected \<times> ExtensionLoader" where
  "enter_types x [] el = (Success, el)"
| "enter_types x (tid # tids) el =
     (if map_of (el_component_factory el) tid \<noteq> None then (Unexpected GXF_FACTORY_DUPLICATE_TID, el)
      else enter_types x tids (el\<lparr>el_component_factory := map_put tid x (el_component_factory el)\<rparr>))"

definition el_getComponentTypes :: "ExtensionLoader \<Rightarrow> bool \<Rightarrow> nat option \<Rightarrow> unit expected \<times> gxf_tid_t list \<times> nat option" where
  "el_getComponentTypes el pointer_null cap =
     (if pointer_null then (Unexpected GXF_ARGUMENT_NULL, [], cap)
      else case cap of None \<Rightarrow> (Unexpected GXF_ARGUMENT_NULL, [], cap)
      | Some n \<Rightarrow>
          if n < length (el_component_factory el) then (Unexpected GXF_RESULT_ARRAY_TOO_SMALL, [], cap)
          else (Success, map fst (el_component_factory el), Some (length (el_component_factory el))))"

definition unloadAll :: "ExtensionLoader \<Rightarrow> unit expected \<times> ExtensionLoader" where
  "unloadAll el = (Success, el\<lparr>el_extension_factory := [], el_component_factory := [], el_handles := [],
     el_factories := []\<rparr>)"

text \<open>The loop of getExtensions over the extensions.\<close>

fun extension_ids :: "extensions \<Rightarrow> nat list \<Rightarrow> gxf_tid_t list expected" where
  "extension_ids exts [] = Inr []"
| "extension_ids exts (x # xs) =
     (if GxfTidIsNull (de_tid (exts x)) then Unexpected GXF_FACTORY_INVALID_INFO
      else (case extension_ids exts xs of Inl e \<Rightarrow> Inl e | Inr ids \<Rightarrow> Inr (de_tid (exts x) # ids)))"

definition getExtensions :: "extensions \<Rightarrow> ExtensionLoader \<Rightarrow> nat option \<Rightarrow> gxf_tid_t list expected \<times> nat option" where
  "getExtensions exts el extension_count = (case extension_count of
     None \<Rightarrow> (Unexpected GXF_ARGUMENT_NULL, None)
   | Some array_size \<Rightarrow>
       let ext_num = length (el_factories el) in
       if array_size < ext_num then (Unexpected GXF_RESULT_ARRAY_TOO_SMALL, Some ext_num)
       else if ext_num = 0 then (Inr [], Some ext_num)
       else (extension_ids exts (el_factories el), Some ext_num))"

definition getExtensionInfo :: "extensions \<Rightarrow> ExtensionLoader \<Rightarrow> gxf_tid_t \<Rightarrow> gxf_extension_info_t option \<Rightarrow>
    unit expected \<times> gxf_extension_info_t option" where
  "getExtensionInfo exts el eid info = (case map_of (el_extension_factory el) eid of
     None \<Rightarrow> (Unexpected GXF_EXTENSION_NOT_FOUND, info)
   | Some x \<Rightarrow> (case getInfo_abi (exts x) info of (code, i) \<Rightarrow> (ExpectedOrCode code, i)))"

definition el_getComponentInfo :: "extensions \<Rightarrow> ExtensionLoader \<Rightarrow> gxf_tid_t \<Rightarrow> bool \<Rightarrow> gxf_component_info_t expected" where
  "el_getComponentInfo exts el tid info_null = (case map_of (el_component_factory el) tid of
     None \<Rightarrow> Unexpected GXF_ENTITY_COMPONENT_NOT_FOUND
   | Some x \<Rightarrow> (case getComponentInfo_abi (exts x) tid info_null of
       (code, Some i) \<Rightarrow> Inr i | (code, None) \<Rightarrow> Unexpected code))"

section \<open>Registration of types with the runtime\<close>

text \<open>The parts of the runtime that the registration changes, and the interface that a component type
  registers: it may read and change the registrar of parameters.\<close>

record TypeWorld =
  tw_loader :: ExtensionLoader
  tw_registry :: TypeRegistry
  tw_params :: ParameterRegistrar
  tw_objects :: Objects

type_synonym interfaces = "gxf_tid_t \<Rightarrow> string \<Rightarrow> ParameterRegistrar \<Rightarrow> gxf_result_t \<times> ParameterRegistrar"

definition kComponentTid :: gxf_tid_t where "kComponentTid = Tid 0x75bf23d5199843b7 0xbaaf16853d783bd1"

text \<open>The last part of GxfRegisterComponent, for a type that derives from Component.\<close>

definition register_interface :: "extensions \<Rightarrow> interfaces \<Rightarrow> gxf_tid_t \<Rightarrow> string \<Rightarrow> TypeWorld \<Rightarrow>
    (gxf_result_t \<times> TypeWorld) option" where
  "register_interface exts iface tid name w =
     (case cf_allocate exts (tw_loader w) tid (tw_objects w) of (raw_pointer, ob1) \<Rightarrow>
        let w1 = w\<lparr>tw_objects := ob1\<rparr> in
        (case raw_pointer of
           Inl e \<Rightarrow>
             if e = GXF_FACTORY_ABSTRACT_CLASS
             then Some (GXF_SUCCESS, w1\<lparr>tw_params := addParameterlessType tid name (tw_params w1)\<rparr>)
             else Some (GXF_FAILURE, w1)
         | Inr component \<Rightarrow>
             (case iface tid name (tw_params w1) of (registration_result, pr) \<Rightarrow>
               (case el_deallocate_abi exts (tw_loader w) tid component ob1 of
                  None \<Rightarrow> None
                | Some (result, ob2) \<Rightarrow>
                    let w2 = w1\<lparr>tw_params := pr, tw_objects := ob2\<rparr> in
                    if registration_result \<noteq> GXF_SUCCESS then Some (registration_result, w2)
                    else if result \<noteq> GXF_SUCCESS then Some (result, w2)
                    else Some (GXF_SUCCESS, w2)))))"

definition GxfRegisterComponent :: "extensions \<Rightarrow> interfaces \<Rightarrow> gxf_tid_t \<Rightarrow> string \<Rightarrow> string option \<Rightarrow> TypeWorld \<Rightarrow>
    (gxf_result_t \<times> TypeWorld) option" where
  "GxfRegisterComponent exts iface tid name base w =
     (case tr_add tid name (tw_registry w) of
        (Inl e, _) \<Rightarrow> Some (e, w)
      | (Inr _, reg1) \<Rightarrow>
          let w1 = w\<lparr>tw_registry := reg1\<rparr> in
          (case base of
             None \<Rightarrow> Some (GXF_SUCCESS, w1\<lparr>tw_params := addParameterlessType tid name (tw_params w1)\<rparr>)
           | Some b \<Rightarrow>
               if b = [] then Some (GXF_SUCCESS, w1\<lparr>tw_params := addParameterlessType tid name (tw_params w1)\<rparr>)
               else (case add_base name b reg1 of
                   (Inl e, _) \<Rightarrow> Some (e, w1)
                 | (Inr _, reg2) \<Rightarrow>
                     let w2 = w1\<lparr>tw_registry := reg2\<rparr> in
                     (case is_base reg2 tid kComponentTid of
                        None \<Rightarrow> None
                      | Some (Inl e) \<Rightarrow> Some (e, w2)
                      | Some (Inr False) \<Rightarrow>
                          Some (GXF_SUCCESS, w2\<lparr>tw_params := addParameterlessType tid name (tw_params w2)\<rparr>)
                      | Some (Inr True) \<Rightarrow> register_interface exts iface tid name w2))))"

text \<open>registerComponents_abi of an extension.\<close>

fun registerComponents_abi :: "extensions \<Rightarrow> interfaces \<Rightarrow> Entry list \<Rightarrow> TypeWorld \<Rightarrow> (gxf_result_t \<times> TypeWorld) option" where
  "registerComponents_abi exts iface [] w = Some (GXF_SUCCESS, w)"
| "registerComponents_abi exts iface (entry # es) w =
     (case GxfRegisterComponent exts iface (en_tid entry) (en_name entry) (Some (en_base entry)) w of
        None \<Rightarrow> None
      | Some (result, w1) \<Rightarrow> if result \<noteq> GXF_SUCCESS then Some (result, w1)
          else registerComponents_abi exts iface es w1)"

text \<open>load: check, enter the types, register them, and only then list the extension.\<close>

definition el_load :: "extensions \<Rightarrow> interfaces \<Rightarrow> nat \<Rightarrow> nat option \<Rightarrow> TypeWorld \<Rightarrow> (unit expected \<times> TypeWorld) option" where
  "el_load exts iface x handle w =
     (let de = exts x in
      if checkInfo_abi de \<noteq> GXF_SUCCESS then Some (Unexpected (checkInfo_abi de), w)
      else if GxfTidIsNull (de_tid de) then Some (Unexpected GXF_FACTORY_INVALID_INFO, w)
      else (case isCompatible (de_gxf_core_version de) kGxfCoreVersion of
        None \<Rightarrow> None
      | Some compatible \<Rightarrow>
          if \<not> compatible then Some (Unexpected GXF_FACTORY_INCOMPATIBLE, w)
          else (case getComponentTypes_abi de False (Some kMaxComponents) of (code, tids, count) \<Rightarrow>
            if code \<noteq> GXF_SUCCESS then Some (Unexpected code, w)
            else (case enter_types x tids (tw_loader w) of
              (Inl e, el1) \<Rightarrow> Some (Unexpected e, w\<lparr>tw_loader := el1\<rparr>)
            | (Inr _, el1) \<Rightarrow>
                (case registerComponents_abi exts iface (de_entries de) (w\<lparr>tw_loader := el1\<rparr>) of
                   None \<Rightarrow> None
                 | Some (result, w1) \<Rightarrow>
                     if result \<noteq> GXF_SUCCESS then Some (Unexpected result, w1)
                     else
                       let el2 = tw_loader w1 in
                       if length (el_factories el2) \<ge> el_capacity el2
                       then Some (Unexpected GXF_EXCEEDING_PREALLOCATED_SIZE, w1)
                       else Some (Success, w1\<lparr>tw_loader := el2\<lparr>
                          el_factories := el_factories el2 @ [x],
                          el_extension_factory := map_put (de_tid de) x (el_extension_factory el2),
                          el_handles := (case handle of None \<Rightarrow> el_handles el2
                             | Some h \<Rightarrow> set_insert h (el_handles el2))\<rparr>\<rparr>))))))"

text \<open>load of a file: dlopen and the factory function of the library are parameters.\<close>

definition el_load_file :: "extensions \<Rightarrow> interfaces \<Rightarrow> (string \<Rightarrow> nat option) \<Rightarrow> (nat \<Rightarrow> (gxf_result_t \<times> nat) option) \<Rightarrow>
    string option \<Rightarrow> TypeWorld \<Rightarrow> (unit expected \<times> TypeWorld) option" where
  "el_load_file exts iface dlopen factory filename w = (case filename of
     None \<Rightarrow> Some (Unexpected GXF_NULL_POINTER, w)
   | Some f \<Rightarrow> (case dlopen f of
       None \<Rightarrow> Some (Unexpected GXF_EXTENSION_FILE_NOT_FOUND, w)
     | Some handle \<Rightarrow> (case factory handle of
         None \<Rightarrow> Some (Unexpected GXF_EXTENSION_NO_FACTORY, w)
       | Some (code, x) \<Rightarrow> if code \<noteq> GXF_SUCCESS then Some (Unexpected code, w)
           else el_load exts iface x (Some handle) w)))"

definition GxfLoadExtensionFromPointer :: "extensions \<Rightarrow> interfaces \<Rightarrow> nat option \<Rightarrow> TypeWorld \<Rightarrow>
    (gxf_result_t \<times> TypeWorld) option" where
  "GxfLoadExtensionFromPointer exts iface extension w = (case extension of
     None \<Rightarrow> Some (GXF_ARGUMENT_NULL, w)
   | Some x \<Rightarrow> map_option (\<lambda>(r, w1). (ToResultCode r, w1)) (el_load exts iface x None w))"

definition GxfRegisterComponentInExtension :: "extensions \<Rightarrow> interfaces \<Rightarrow> gxf_tid_t \<Rightarrow> gxf_tid_t \<Rightarrow> TypeWorld \<Rightarrow>
    (gxf_result_t \<times> TypeWorld) option" where
  "GxfRegisterComponentInExtension exts iface component_tid extension_tid w =
     (case registerRuntimeComponent exts component_tid extension_tid (tw_loader w) of
        (Inl e, el1) \<Rightarrow> Some (e, w\<lparr>tw_loader := el1\<rparr>)
      | (Inr _, el1) \<Rightarrow> (case el_getComponentInfo exts el1 component_tid False of
          Inl e \<Rightarrow> Some (e, w\<lparr>tw_loader := el1\<rparr>)
        | Inr info \<Rightarrow> GxfRegisterComponent exts iface component_tid (mi_type_name info) (mi_base_name info)
            (w\<lparr>tw_loader := el1\<rparr>)))"

definition GxfComponentIsBase :: "TypeWorld \<Rightarrow> gxf_tid_t \<Rightarrow> gxf_tid_t \<Rightarrow> (gxf_result_t \<times> bool option) option" where
  "GxfComponentIsBase w derived base = (case is_base (tw_registry w) derived base of
     None \<Rightarrow> None | Some (Inl e) \<Rightarrow> Some (e, None) | Some (Inr b) \<Rightarrow> Some (GXF_SUCCESS, Some b))"

text \<open>The pointers that these functions write to are given.\<close>

definition GxfComponentTypeName :: "TypeWorld \<Rightarrow> gxf_tid_t \<Rightarrow> gxf_result_t \<times> string option" where
  "GxfComponentTypeName w tid = (case tr_name (tw_registry w) tid of
     Inr n \<Rightarrow> (GXF_SUCCESS, Some n) | Inl e \<Rightarrow> (e, None))"

definition GxfComponentTypeId :: "TypeWorld \<Rightarrow> string \<Rightarrow> gxf_result_t \<times> gxf_tid_t option" where
  "GxfComponentTypeId w name = (case id_from_name (tw_registry w) name of
     Inr t \<Rightarrow> (GXF_SUCCESS, Some t) | Inl e \<Rightarrow> (e, None))"

text \<open>Runtime::create: the loader is initialised and the root type is registered.\<close>

definition runtime_create :: "extensions \<Rightarrow> interfaces \<Rightarrow> (gxf_result_t \<times> TypeWorld) option" where
  "runtime_create exts iface = GxfRegisterComponent exts iface kComponentTid ''nvidia::gxf::Component'' (Some [])
     \<lparr>tw_loader = snd (el_initialize True ExtensionLoader_init), tw_registry = TypeRegistry_init, tw_params = [],
      tw_objects = \<lparr>ob_type = Map.empty, ob_next = 1\<rparr>\<rparr>"

section \<open>Invariant\<close>

definition types_wf :: "extensions \<Rightarrow> TypeWorld \<Rightarrow> bool" where [inv_defs]:
  "types_wf exts w \<longleftrightarrow> tr_wf (tw_registry w) \<and> acyclic (bases_rel (tw_registry w)) \<and>
     kComponentTid \<in> dom (tr_names (tw_registry w)) \<and>
     sorted_map (el_component_factory (tw_loader w)) \<and>
     (\<forall>t x. map_of (el_component_factory (tw_loader w)) t = Some x \<longrightarrow> ok (find_entry (de_entries (exts x)) t)) \<and>
     0 < ob_next (tw_objects w) \<and> (\<forall>p \<ge> ob_next (tw_objects w). ob_type (tw_objects w) p = None)"

lemma find_entry_SomeD: "find_entry es t = Inr e \<Longrightarrow> e \<in> set es \<and> en_tid e = t"
  by (induction es) (auto split: if_splits)

lemma find_entry_in: "t \<in> en_tid ` set es \<Longrightarrow> ok (find_entry es t)"
  by (induction es) auto

text \<open>A fresh type has no edges, so a base other than itself does not close a cycle.\<close>

lemma acyclic_fresh_edge:
  assumes "acyclic r" "b \<noteq> t" "\<And>a. (a, t) \<notin> r"
  shows "acyclic (insert (t, b) r)"
proof -
  have "(b, t) \<notin> r\<^sup>*" using assms(2,3) by (metis rtranclE)
  then show ?thesis using assms(1) by (simp add: acyclic_insert)
qed

lemma tr_add_cases:
  obtains (duplicate) e where "tr_add t n reg = (Inl e, reg)"
  | (added) reg1 where "tr_add t n reg = (Success, reg1)" "tr_names reg t = None" "tr_tids reg n = None"
      "tr_names reg1 = (tr_names reg)(t \<mapsto> n)" "tr_tids reg1 = (tr_tids reg)(n \<mapsto> t)" "tr_bases reg1 = tr_bases reg"
proof (cases "tr_tids reg n = None \<and> tr_names reg t = None")
  case True
  then show ?thesis
    using added [of "reg\<lparr>tr_tids := (tr_tids reg)(n \<mapsto> t), tr_names := (tr_names reg)(t \<mapsto> n)\<rparr>"]
    by (simp add: tr_add_def)
next
  case False
  then have "tr_add t n reg = (Inl GXF_FACTORY_DUPLICATE_TID, reg)" by (auto simp: tr_add_def)
  then show ?thesis by (rule duplicate)
qed

text \<open>The object that is made to learn the parameters of a type is always destroyed.\<close>

lemma register_interface_frees:
  assumes wf: "types_wf exts w"
  shows "\<exists>r pr q. register_interface exts iface tid name w =
    Some (r, w\<lparr>tw_params := pr, tw_objects := (tw_objects w)\<lparr>ob_next := q\<rparr>\<rparr>) \<and> ob_next (tw_objects w) \<le> q"
proof -
  let ?ob = "tw_objects w"
  have ob: "0 < ob_next ?ob" "ob_type ?ob (ob_next ?ob) = None" using wf by (simp_all add: types_wf_def)
  show ?thesis
  proof (cases "map_of (el_component_factory (tw_loader w)) tid")
    case None
    then show ?thesis
      by (auto simp: register_interface_def cf_allocate_def el_allocate_abi_def ExpectedOrCodeVal_def
          intro!: exI [of _ "tw_params w"] exI [of _ "ob_next ?ob"])
  next
    case (Some x)
    have "ok (find_entry (de_entries (exts x)) tid)" using wf Some unfolding types_wf_def by blast
    then obtain e where e: "find_entry (de_entries (exts x)) tid = Inr e" by (auto simp: ok_Inr_iff)
    show ?thesis
    proof (cases "en_allocator e")
      case True
      obtain rr pr where i: "iface tid name (tw_params w) = (rr, pr)" by fastforce
      have freed: "(ob_type ?ob)(ob_next ?ob := None) = ob_type ?ob" using ob(2) by auto
      show ?thesis using True Some e ob i freed
        by (intro exI [of _ rr] exI [of _ pr] exI [of _ "Suc (ob_next ?ob)"])
          (simp add: register_interface_def cf_allocate_def el_allocate_abi_def de_allocate_abi_def
            nca_allocate_def new_object_def ExpectedOrCodeVal_def el_deallocate_abi_def de_deallocate_abi_def
            nca_deallocate_def Let_def)
    next
      case False
      then show ?thesis using Some e
        by (auto simp: register_interface_def cf_allocate_def el_allocate_abi_def de_allocate_abi_def
            ExpectedOrCodeVal_def intro!: exI [of _ "ob_next ?ob"])
    qed
  qed
qed

section \<open>Registration keeps the invariant and returns\<close>

definition base_ok :: "string \<Rightarrow> string option \<Rightarrow> bool" where
  "base_ok name base \<longleftrightarrow> base = None \<or> base = Some [] \<or> base \<noteq> Some name"

text \<open>What a registration may change: types and bases are added, objects are as before.\<close>

definition grows :: "TypeWorld \<Rightarrow> TypeWorld \<Rightarrow> bool" where
  "grows w w1 \<longleftrightarrow> tr_names (tw_registry w) \<subseteq>\<^sub>m tr_names (tw_registry w1) \<and>
     bases_rel (tw_registry w) \<subseteq> bases_rel (tw_registry w1) \<and>
     ob_type (tw_objects w1) = ob_type (tw_objects w)"

lemma grows_refl [simp]: "grows w w"
  by (simp add: grows_def)

lemma grows_trans: "grows w w1 \<Longrightarrow> grows w1 w2 \<Longrightarrow> grows w w2"
  by (auto simp: grows_def intro: map_le_trans)

definition registered :: "TypeWorld \<Rightarrow> gxf_tid_t \<Rightarrow> string \<Rightarrow> string option \<Rightarrow> bool" where
  "registered w tid name base \<longleftrightarrow> tr_names (tw_registry w) tid = Some name \<and>
     (base \<noteq> None \<and> base \<noteq> Some [] \<longrightarrow>
       (\<exists>u. tr_names (tw_registry w) u = base \<and> (tid, u) \<in> bases_rel (tw_registry w)))"

lemma registered_grows: "registered w tid name base \<Longrightarrow> grows w w1 \<Longrightarrow> registered w1 tid name base"
proof -
  assume r: "registered w tid name base" and g: "grows w w1"
  have n: "tr_names (tw_registry w1) t = Some m" if "tr_names (tw_registry w) t = Some m" for t m
    using g that unfolding grows_def map_le_def by (metis domI)
  have "\<exists>u. tr_names (tw_registry w1) u = base \<and> (tid, u) \<in> bases_rel (tw_registry w1)"
    if base: "base \<noteq> None \<and> base \<noteq> Some []"
  proof -
    obtain u where u: "tr_names (tw_registry w) u = base" "(tid, u) \<in> bases_rel (tw_registry w)"
      using r base unfolding registered_def by blast
    moreover have "(tid, u) \<in> bases_rel (tw_registry w1)" using u(2) g unfolding grows_def by blast
    ultimately show ?thesis using base n [of u] by (metis option.exhaust)
  qed
  then show ?thesis using r n unfolding registered_def by blast
qed

text \<open>An outcome of a registration, and the shape of the states in which it ends.\<close>

definition registration :: "extensions \<Rightarrow> TypeWorld \<Rightarrow> gxf_tid_t \<Rightarrow> string \<Rightarrow> string option \<Rightarrow>
    gxf_result_t \<times> TypeWorld \<Rightarrow> bool" where
  "registration exts w tid name base rw \<longleftrightarrow> types_wf exts (snd rw) \<and> grows w (snd rw) \<and>
     tw_loader (snd rw) = tw_loader w \<and> (fst rw = GXF_SUCCESS \<longrightarrow> registered (snd rw) tid name base)"

lemma types_wf_params [simp]:
  "types_wf exts (w\<lparr>tw_params := pr\<rparr>) = types_wf exts w" "grows w (w1\<lparr>tw_params := pr\<rparr>) = grows w w1"
  "registered (w\<lparr>tw_params := pr\<rparr>) t n b = registered w t n b"
  by (simp_all add: types_wf_def grows_def registered_def)

lemma add_base_error: "add_base c b reg = (Inl e, reg1) \<Longrightarrow> e = GXF_FACTORY_UNKNOWN_CLASS_NAME"
  by (auto simp: add_base_def id_from_name_def ForwardError_def split: option.splits)

lemma GxfRegisterComponent_returns:
  assumes wf: "types_wf exts w" and b: "base_ok name base"
  shows "\<exists>rw. GxfRegisterComponent exts iface tid name base w = Some rw \<and> registration exts w tid name base rw"
proof (cases rule: tr_add_cases [of tid name "tw_registry w"])
  case (duplicate e)
  then have "e \<noteq> GXF_SUCCESS" by (auto simp: tr_add_def split: if_splits)
  then show ?thesis using duplicate wf by (simp add: GxfRegisterComponent_def registration_def)
next
  case (added reg1)
  let ?w1 = "w\<lparr>tw_registry := reg1\<rparr>"
  have reg: "tr_wf (tw_registry w)" using wf by (simp add: types_wf_def)
  have reg1: "tr_wf reg1" using tr_add_wf [OF reg, of tid name] added(1) by simp
  have br: "bases_rel reg1 = bases_rel (tw_registry w)" by (simp add: bases_rel_def added(6))
  have le: "tr_names (tw_registry w) \<subseteq>\<^sub>m tr_names reg1"
    using added(2,4) by (auto simp: map_le_def)
  have w1: "types_wf exts ?w1" using wf reg1 br added(4) by (auto simp: types_wf_def)
  have g1: "grows w ?w1" using le br by (simp add: grows_def)
  show ?thesis
  proof (cases "base = None \<or> base = Some []")
    case True
    then have "GxfRegisterComponent exts iface tid name base w =
        Some (GXF_SUCCESS, ?w1\<lparr>tw_params := addParameterlessType tid name (tw_params w)\<rparr>)"
      using added(1) by (auto simp: GxfRegisterComponent_def)
    moreover have "registered ?w1 tid name base" using True added(4) by (auto simp: registered_def)
    ultimately show ?thesis using w1 g1 by (simp add: registration_def)
  next
    case False
    then obtain c where c: "base = Some c" "c \<noteq> []" "c \<noteq> name" using b by (cases base) (auto simp: base_ok_def)
    from reg1 show ?thesis
    proof (cases rule: add_base_cases [where c = name and b = c])
      case (error e)
      then have "e \<noteq> GXF_SUCCESS" using add_base_error by fastforce
      then show ?thesis using error added(1) c w1 g1
        by (simp add: GxfRegisterComponent_def registration_def)
    next
      case (added t u)
      note ab = this
      have t: "t = tid" using ab(1) \<open>tr_names reg1 = _\<close> tr_wf_bij [OF reg1, of name]
        by (metis fun_upd_same option.inject)
      define reg2 where "reg2 = reg1\<lparr>tr_bases := set_add t u (tr_bases reg1)\<rparr>"
      let ?w2 = "w\<lparr>tw_registry := reg2\<rparr>"
      have reg2: "tr_wf reg2" using add_base_wf [OF reg1, of name c] ab(3) by (simp add: reg2_def)
      have br2: "bases_rel reg2 = insert (tid, u) (bases_rel (tw_registry w))"
        by (simp add: reg2_def t br)
      have "(a, tid) \<notin> bases_rel (tw_registry w)" for a
        using bases_rel_registered(2) [OF reg, of a tid] \<open>tr_names (tw_registry w) tid = None\<close> by auto
      moreover have "u \<noteq> tid" using ab(2) c(3) \<open>tr_names reg1 = _\<close> by auto
      ultimately have acyc: "acyclic (bases_rel reg2)"
        using acyclic_fresh_edge [of "bases_rel (tw_registry w)" u tid] wf by (simp add: br2 types_wf_def)
      have n2: "tr_names reg2 = tr_names reg1" by (simp add: reg2_def)
      have w2: "types_wf exts ?w2" using wf reg2 acyc n2 \<open>tr_names reg1 = _\<close> by (auto simp: types_wf_def)
      have g2: "grows w ?w2" using le br2 n2 by (auto simp: grows_def)
      have "(tid, u) \<in> bases_rel reg2" unfolding br2 by blast
      moreover have "tr_names reg2 tid = Some name" "tr_names reg2 u = base"
        using ab(2) c(1) n2 \<open>tr_names reg1 = _\<close> by simp_all
      moreover have reg2': "tw_registry ?w2 = reg2" by simp
      ultimately have r2: "registered ?w2 tid name base" unfolding registered_def reg2' by blast
      have start: "GxfRegisterComponent exts iface tid name base w = (case is_base reg2 tid kComponentTid of
          None \<Rightarrow> None | Some (Inl e) \<Rightarrow> Some (e, ?w2)
        | Some (Inr False) \<Rightarrow> Some (GXF_SUCCESS, ?w2\<lparr>tw_params := addParameterlessType tid name (tw_params ?w2)\<rparr>)
        | Some (Inr True) \<Rightarrow> register_interface exts iface tid name ?w2)"
        using \<open>tr_add tid name (tw_registry w) = _\<close> ab(3) c by (simp add: GxfRegisterComponent_def reg2_def [symmetric] Let_def)
      have ib: "is_base reg2 tid kComponentTid = Some (Inr ((tid, kComponentTid) \<in> (bases_rel reg2)\<^sup>+))"
        using is_base_reachable [OF reg2 acyc] w2 n2 \<open>tr_names reg1 = _\<close> by (auto simp: types_wf_def)
      show ?thesis
      proof (cases "(tid, kComponentTid) \<in> (bases_rel reg2)\<^sup>+")
        case True
        obtain r pr q where "register_interface exts iface tid name ?w2 =
            Some (r, ?w2\<lparr>tw_params := pr, tw_objects := (tw_objects ?w2)\<lparr>ob_next := q\<rparr>\<rparr>)"
            "ob_next (tw_objects ?w2) \<le> q"
          using register_interface_frees [OF w2] by blast
        moreover have "types_wf exts (?w2\<lparr>tw_params := pr, tw_objects := (tw_objects ?w2)\<lparr>ob_next := q\<rparr>\<rparr>)"
          using w2 calculation(2) by (auto simp: types_wf_def)
        ultimately show ?thesis using start ib True g2 r2
          by (auto simp: registration_def grows_def registered_def)
      qed (use start ib w2 g2 r2 in \<open>simp add: registration_def\<close>)
    qed
  qed
qed

lemma registerComponents_returns:
  assumes "types_wf exts w" "\<forall>e\<in>set es. base_ok (en_name e) (Some (en_base e))"
  shows "\<exists>r w1. registerComponents_abi exts iface es w = Some (r, w1) \<and> types_wf exts w1 \<and> grows w w1 \<and>
    tw_loader w1 = tw_loader w \<and>
    (r = GXF_SUCCESS \<longrightarrow> (\<forall>e\<in>set es. registered w1 (en_tid e) (en_name e) (Some (en_base e))))"
  using assms
proof (induction es arbitrary: w)
  case (Cons e es)
  obtain r w1 where g: "GxfRegisterComponent exts iface (en_tid e) (en_name e) (Some (en_base e)) w = Some (r, w1)"
      "registration exts w (en_tid e) (en_name e) (Some (en_base e)) (r, w1)"
    using GxfRegisterComponent_returns [OF Cons.prems(1)] Cons.prems(2) by (metis list.set_intros(1) prod.exhaust)
  show ?case
  proof (cases "r = GXF_SUCCESS")
    case True
    obtain r2 w2 where n: "registerComponents_abi exts iface es w1 = Some (r2, w2)" "types_wf exts w2" "grows w1 w2"
        "tw_loader w2 = tw_loader w1"
        "r2 = GXF_SUCCESS \<longrightarrow> (\<forall>e\<in>set es. registered w2 (en_tid e) (en_name e) (Some (en_base e)))"
      using Cons.IH [of w1] Cons.prems g(2) by (auto simp: registration_def)
    have "registered w2 (en_tid e) (en_name e) (Some (en_base e))"
      using registered_grows [OF _ n(3)] g(2) True by (simp add: registration_def)
    moreover have "grows w w2" using g(2) n(3) grows_trans by (auto simp: registration_def)
    ultimately show ?thesis using True g n by (auto simp: registration_def)
  qed (use g in \<open>auto simp: registration_def\<close>)
qed simp

text \<open>What enter_types does to the table of factories.\<close>

lemma enter_types_other:
  "el_factories (snd (enter_types x ts el)) = el_factories el"
  "el_capacity (snd (enter_types x ts el)) = el_capacity el"
  "el_extension_factory (snd (enter_types x ts el)) = el_extension_factory el"
  by (induction x ts el rule: enter_types.induct) auto

lemma enter_types_sorted:
  "sorted_map (el_component_factory el) \<Longrightarrow> sorted_map (el_component_factory (snd (enter_types x ts el)))"
  by (induction x ts el rule: enter_types.induct) auto

lemma enter_types_old:
  "sorted_map (el_component_factory el) \<Longrightarrow> map_of (el_component_factory el) t = Some y \<Longrightarrow>
   map_of (el_component_factory (snd (enter_types x ts el))) t = Some y"
proof (induction x ts el rule: enter_types.induct)
  case (2 x u us el)
  show ?case
  proof (cases "map_of (el_component_factory el) u")
    case None
    then have "u \<noteq> t" using 2 by auto
    then show ?thesis using 2 None by (simp add: map_of_map_put)
  qed (use 2 in simp)
qed simp

lemma enter_types_new:
  "sorted_map (el_component_factory el) \<Longrightarrow>
   map_of (el_component_factory (snd (enter_types x ts el))) t = Some y \<Longrightarrow>
   map_of (el_component_factory el) t = Some y \<or> t \<in> set ts \<and> y = x"
proof (induction x ts el rule: enter_types.induct)
  case (2 x u us el)
  show ?case
  proof (cases "map_of (el_component_factory el) u")
    case None
    then show ?thesis using 2 by (cases "t = u") (auto simp: map_of_map_put)
  qed (use 2 in simp)
qed simp

lemma enter_types_blocked:
  "t \<in> set ts \<Longrightarrow> map_of (el_component_factory el) t \<noteq> None \<Longrightarrow> sorted_map (el_component_factory el) \<Longrightarrow>
   fst (enter_types x ts el) = Inl GXF_FACTORY_DUPLICATE_TID"
proof (induction x ts el rule: enter_types.induct)
  case (2 x u us el)
  show ?case
  proof (cases "map_of (el_component_factory el) u")
    case None
    then have "u \<noteq> t" using 2 by auto
    then show ?thesis using 2 None by (simp add: map_of_map_put)
  qed simp
qed simp

lemma enter_types_Success:
  assumes "sorted_map (el_component_factory el)" "fst (enter_types x ts el) = Success"
  shows "distinct ts \<and> (\<forall>t\<in>set ts. map_of (el_component_factory (snd (enter_types x ts el))) t = Some x)"
  using assms
proof (induction x ts el rule: enter_types.induct)
  case (2 x t ts el)
  let ?el = "el\<lparr>el_component_factory := map_put t x (el_component_factory el)\<rparr>"
  have n: "map_of (el_component_factory el) t = None" using 2 by (auto split: if_splits)
  have s: "sorted_map (el_component_factory ?el)" using 2 by simp
  have t: "map_of (el_component_factory ?el) t = Some x" using 2 by (simp add: map_of_map_put)
  have "t \<notin> set ts" using enter_types_blocked [of t ts ?el x] 2 n s t by auto
  moreover have "map_of (el_component_factory (snd (enter_types x ts ?el))) t = Some x"
    using enter_types_old [OF s t] .
  ultimately show ?case using 2 n s by auto
qed simp

lemma find_entry_distinct: "distinct (map en_tid es) \<Longrightarrow> e \<in> set es \<Longrightarrow> find_entry es (en_tid e) = Inr e"
  by (induction es) auto

lemma types_wf_enter:
  assumes "types_wf exts w" "ts = map en_tid (de_entries (exts x))"
  shows "types_wf exts (w\<lparr>tw_loader := snd (enter_types x ts (tw_loader w))\<rparr>)"
proof -
  have s: "sorted_map (el_component_factory (tw_loader w))" using assms(1) by (simp add: types_wf_def)
  have "ok (find_entry (de_entries (exts y)) t)"
    if new: "map_of (el_component_factory (snd (enter_types x ts (tw_loader w)))) t = Some y" for t y
  proof -
    consider "map_of (el_component_factory (tw_loader w)) t = Some y" | "t \<in> set ts" "y = x"
      using enter_types_new [OF s new] by blast
    then show ?thesis
    proof cases
      case 1
      then show ?thesis using assms(1) unfolding types_wf_def by blast
    next
      case 2
      then show ?thesis using find_entry_in [of t "de_entries (exts x)"] assms(2) by simp
    qed
  qed
  then show ?thesis using assms(1) enter_types_sorted [OF s] by (simp add: types_wf_def)
qed

text \<open>What the classes of the extensions guarantee: add keeps to the capacity, and a base is another type.\<close>

definition exts_wf :: "extensions \<Rightarrow> bool" where
  "exts_wf exts \<longleftrightarrow> (\<forall>x. de_gxf_core_version (exts x) = kGxfCoreVersion \<and>
     length (de_entries (exts x)) \<le> kMaxComponents \<and>
     (\<forall>e\<in>set (de_entries (exts x)). base_ok (en_name e) (Some (en_base e))))"

lemma isCompatible_self [simp]: "isCompatible kGxfCoreVersion kGxfCoreVersion = Some True"
  by code_simp

lemma types_wf_list [simp]:
  "types_wf exts (w\<lparr>tw_loader := el\<lparr>el_factories := fs, el_extension_factory := ef, el_handles := hs\<rparr>\<rparr>) =
   types_wf exts (w\<lparr>tw_loader := el\<rparr>)"
  by (simp add: types_wf_def)

text \<open>A load returns, and keeps the invariant; when it succeeds its types are all there.\<close>

lemma el_load_returns:
  assumes wf: "types_wf exts w" and ex: "exts_wf exts"
  shows "\<exists>r w1. el_load exts iface x handle w = Some (r, w1) \<and> types_wf exts w1 \<and> grows w w1 \<and>
    (r = Success \<longrightarrow> distinct (map en_tid (de_entries (exts x))) \<and>
       (\<forall>e\<in>set (de_entries (exts x)). registered w1 (en_tid e) (en_name e) (Some (en_base e)) \<and>
          map_of (el_component_factory (tw_loader w1)) (en_tid e) = Some x) \<and>
       x \<in> set (el_factories (tw_loader w1)))"
proof -
  let ?de = "exts x"
  let ?ts = "map en_tid (de_entries ?de)"
  have e: "de_gxf_core_version ?de = kGxfCoreVersion" "length (de_entries ?de) \<le> kMaxComponents"
    "\<forall>e\<in>set (de_entries ?de). base_ok (en_name e) (Some (en_base e))"
    using ex by (auto simp: exts_wf_def)
  have types: "getComponentTypes_abi ?de False (Some kMaxComponents) = (GXF_SUCCESS, ?ts, Some (length (de_entries ?de)))"
    using e(2) by (simp add: getComponentTypes_abi_def)
  obtain r0 el1 where et: "enter_types x ?ts (tw_loader w) = (r0, el1)" by fastforce
  let ?w1 = "w\<lparr>tw_loader := el1\<rparr>"
  have w1: "types_wf exts ?w1" using types_wf_enter [OF wf refl, of x] et by simp
  have g1: "grows w ?w1" by (simp add: grows_def)
  show ?thesis
  proof (cases "checkInfo_abi ?de = GXF_SUCCESS \<and> \<not> GxfTidIsNull (de_tid ?de) \<and> r0 = Success")
    case False
    then show ?thesis using wf w1 g1 types et e(1)
      by (cases r0) (auto simp: el_load_def Let_def)
  next
    case True
    obtain r w2 where rc: "registerComponents_abi exts iface (de_entries ?de) ?w1 = Some (r, w2)" "types_wf exts w2"
        "grows ?w1 w2" "tw_loader w2 = el1"
        "r = GXF_SUCCESS \<longrightarrow> (\<forall>e\<in>set (de_entries ?de). registered w2 (en_tid e) (en_name e) (Some (en_base e)))"
      using registerComponents_returns [OF w1 e(3)] by (metis TypeWorld.select_convs(1) TypeWorld.surjective TypeWorld.update_convs(1))
    have g2: "grows w w2" using grows_trans [OF g1 rc(3)] .
    show ?thesis
    proof (cases "r = GXF_SUCCESS \<and> \<not> length (el_factories el1) \<ge> el_capacity el1")
      case False
      then show ?thesis using True types et e(1) rc g2 by (auto simp: el_load_def Let_def)
    next
      case ok: True
      let ?el = "el1\<lparr>el_factories := el_factories el1 @ [x],
          el_extension_factory := map_put (de_tid ?de) x (el_extension_factory el1),
          el_handles := (case handle of None \<Rightarrow> el_handles el1 | Some h \<Rightarrow> set_insert h (el_handles el1))\<rparr>"
      have l: "el_load exts iface x handle w = Some (Success, w2\<lparr>tw_loader := ?el\<rparr>)"
        using True types et e(1) rc ok by (cases handle) (simp_all add: el_load_def Let_def)
      have so: "sorted_map (el_component_factory (tw_loader w))" using wf by (simp add: types_wf_def)
      have d: "distinct ?ts" "\<forall>t\<in>set ?ts. map_of (el_component_factory el1) t = Some x"
        using enter_types_Success [OF so, of x ?ts] et True by simp_all
      have "types_wf exts (w2\<lparr>tw_loader := ?el\<rparr>)" using rc(2,4) by (simp add: types_wf_def)
      moreover have "grows w (w2\<lparr>tw_loader := ?el\<rparr>)" using g2 by (simp add: grows_def)
      moreover have "\<forall>e\<in>set (de_entries ?de). registered (w2\<lparr>tw_loader := ?el\<rparr>) (en_tid e) (en_name e) (Some (en_base e))"
        using rc(5) ok by (simp add: registered_def)
      ultimately show ?thesis using l d by auto
    qed
  qed
qed

section \<open>Runs\<close>

text \<open>Any sequence of loads and registrations after the creation of the runtime, failed ones included;
  the callers keep to bases that are other types.\<close>

inductive rt_reachable :: "extensions \<Rightarrow> interfaces \<Rightarrow> TypeWorld \<Rightarrow> bool" for exts iface where
  created: "runtime_create exts iface = Some (r, w) \<Longrightarrow> rt_reachable exts iface w"
| loaded: "rt_reachable exts iface w \<Longrightarrow> el_load exts iface x handle w = Some (res, w1) \<Longrightarrow> rt_reachable exts iface w1"
| registered: "rt_reachable exts iface w \<Longrightarrow> base_ok name base \<Longrightarrow>
    GxfRegisterComponent exts iface tid name base w = Some (r, w1) \<Longrightarrow> rt_reachable exts iface w1"
| registered_in: "rt_reachable exts iface w \<Longrightarrow>
    GxfRegisterComponentInExtension exts iface component_tid extension_tid w = Some (r, w1) \<Longrightarrow>
    rt_reachable exts iface w1"

lemma types_wf_create:
  assumes "runtime_create exts iface = Some (r, w)"
  shows "types_wf exts w"
proof -
  define reg where "reg = snd (tr_add kComponentTid ''nvidia::gxf::Component'' TypeRegistry_init)"
  have add: "tr_add kComponentTid ''nvidia::gxf::Component'' TypeRegistry_init = (Success, reg)"
    by (simp add: tr_add_def TypeRegistry_init_def reg_def)
  have "tr_wf reg" unfolding reg_def by (rule tr_add_wf [OF tr_wf_init])
  moreover have "acyclic (bases_rel reg)" by (simp add: reg_def acyclic_def)
  moreover have "kComponentTid \<in> dom (tr_names reg)" by (simp add: reg_def tr_add_def TypeRegistry_init_def)
  moreover have "w = \<lparr>tw_loader = snd (el_initialize True ExtensionLoader_init), tw_registry = reg,
      tw_params = addParameterlessType kComponentTid ''nvidia::gxf::Component'' [],
      tw_objects = \<lparr>ob_type = Map.empty, ob_next = 1\<rparr>\<rparr>"
    using assms by (simp add: runtime_create_def GxfRegisterComponent_def add)
  ultimately show ?thesis by (simp add: types_wf_def el_initialize_def ExtensionLoader_init_def)
qed

lemma mi_base_name_ok:
  assumes "getComponentInfo_abi de tid False = (code, Some info)"
    "\<forall>e\<in>set (de_entries de). base_ok (en_name e) (Some (en_base e))"
  shows "base_ok (mi_type_name info) (mi_base_name info)"
  using assms find_entry_SomeD [of "de_entries de" tid]
  by (auto simp: getComponentInfo_abi_def base_ok_def split: sum.splits if_splits)

lemma find_entry_error: "find_entry es t = Inl e \<Longrightarrow> e = GXF_QUERY_NOT_FOUND"
  by (induction es) (auto split: if_splits)

lemma hasComponent_iff: "hasComponent_abi de t = GXF_SUCCESS \<longleftrightarrow> ok (find_entry (de_entries de) t)"
  using find_entry_error [of "de_entries de" t]
  by (cases "find_entry (de_entries de) t") (auto simp: hasComponent_abi_def ToResultCode_def)

lemma types_wf_registerRuntime:
  assumes "types_wf exts w" "registerRuntimeComponent exts c x (tw_loader w) = (r, el1)"
  shows "types_wf exts (w\<lparr>tw_loader := el1\<rparr>)"
  using assms
  by (auto simp: registerRuntimeComponent_def types_wf_def map_of_map_put hasComponent_iff
      split: option.splits if_splits)

lemma types_wf_registerIn:
  assumes wf: "types_wf exts w" and ex: "exts_wf exts"
    and r: "GxfRegisterComponentInExtension exts iface c x w = Some (r, w1)"
  shows "types_wf exts w1"
proof -
  obtain r0 el1 where reg: "registerRuntimeComponent exts c x (tw_loader w) = (r0, el1)" by fastforce
  note w1 = types_wf_registerRuntime [OF wf reg]
  show ?thesis
  proof (cases "ok r0 \<and> ok (el_getComponentInfo exts el1 c False)")
    case True
    then obtain info where info: "el_getComponentInfo exts el1 c False = Inr info" by (auto simp: ok_Inr_iff)
    obtain y code where y: "getComponentInfo_abi (exts y) c False = (code, Some info)"
      using info by (auto simp: el_getComponentInfo_def split: option.splits prod.splits)
    have "base_ok (mi_type_name info) (mi_base_name info)"
      using mi_base_name_ok [OF y] ex by (auto simp: exts_wf_def)
    from GxfRegisterComponent_returns [OF w1 this, of iface c]
    obtain rw where "GxfRegisterComponent exts iface c (mi_type_name info) (mi_base_name info)
        (w\<lparr>tw_loader := el1\<rparr>) = Some rw" "types_wf exts (snd rw)"
      unfolding registration_def by blast
    then show ?thesis
      using r reg True info by (auto simp: GxfRegisterComponentInExtension_def split: sum.splits)
  qed (use r reg w1 in \<open>auto simp: GxfRegisterComponentInExtension_def split: sum.splits\<close>)
qed

lemma types_wf_reachable: "rt_reachable exts iface w \<Longrightarrow> exts_wf exts \<Longrightarrow> types_wf exts w"
proof (induction rule: rt_reachable.induct)
  case (loaded w x handle res w1)
  then show ?case using el_load_returns [of exts w iface x handle] by auto
next
  case (registered w name base tid r w1)
  then show ?case using GxfRegisterComponent_returns [of exts w name base iface tid] by (auto simp: registration_def)
next
  case (registered_in w c x r w1)
  then show ?case using types_wf_registerIn by blast
qed (simp add: types_wf_create)

section \<open>An example\<close>

definition example_entry :: "gxf_tid_t \<Rightarrow> string \<Rightarrow> string \<Rightarrow> bool \<Rightarrow> Entry" where
  "example_entry t n b a = \<lparr>en_tid = t, en_name = n, en_base = b, en_description = [], en_display_name = [],
     en_brief = [], en_allocator = a\<rparr>"

text \<open>An abstract codelet and a codelet that derives from it.\<close>

definition example_extension :: DefaultExtension where
  "example_extension = DefaultExtension_init\<lparr>de_tid := Tid 1 1, de_extension_version := ''1.0.0'',
     de_entries := [example_entry (Tid 2 2) ''Codelet'' ''nvidia::gxf::Component'' False,
                    example_entry (Tid 3 3) ''Ping'' ''Codelet'' True]\<rparr>"

definition example_exts :: extensions where "example_exts x = example_extension"

definition example_iface :: interfaces where "example_iface tid name pr = (GXF_SUCCESS, pr)"

definition example_start :: TypeWorld where
  "example_start = snd (the (runtime_create example_exts example_iface))"

definition example_loaded :: TypeWorld where
  "example_loaded = snd (the (el_load example_exts example_iface 0 None example_start))"

lemma exts_wf_example: "exts_wf example_exts"
  by (simp add: exts_wf_def example_exts_def example_extension_def DefaultExtension_init_def kMaxComponents_def
      example_entry_def base_ok_def)

lemma example_start_reachable: "rt_reachable example_exts example_iface example_start"
proof (rule rt_reachable.created)
  show "runtime_create example_exts example_iface =
      Some (fst (the (runtime_create example_exts example_iface)), example_start)"
    by (simp add: example_start_def runtime_create_def GxfRegisterComponent_def tr_add_def TypeRegistry_init_def)
qed

lemma example_load: "el_load example_exts example_iface 0 None example_start = Some (Success, example_loaded)"
proof -
  have "map_option fst (el_load example_exts example_iface 0 None example_start) = Some Success" by code_simp
  then show ?thesis unfolding example_loaded_def
    by (cases "el_load example_exts example_iface 0 None example_start") (auto simp: prod_eq_iff)
qed

lemma example_loaded_reachable: "rt_reachable example_exts example_iface example_loaded"
  by (rule rt_reachable.loaded [OF example_start_reachable example_load])

section \<open>Properties\<close>

text \<open>C35: The search for a base type answers the question it is asked: after any loads and
  registrations, successful or not, GxfComponentIsBase returns for any two registered types, and says
  yes exactly when the second can be reached from the first along one or more base relations.\<close>

theorem type_search_transitive:
  assumes "rt_reachable exts iface w" "exts_wf exts"
    and "GxfComponentTypeName w d = (GXF_SUCCESS, Some dn)" "GxfComponentTypeName w b = (GXF_SUCCESS, Some bn)"
  shows "GxfComponentIsBase w d b = Some (GXF_SUCCESS, Some ((d, b) \<in> (bases_rel (tw_registry w))\<^sup>+))"
proof -
  have w: "types_wf exts w" using types_wf_reachable assms(1,2) .
  have "d \<in> dom (tr_names (tw_registry w))" "b \<in> dom (tr_names (tw_registry w))"
    using assms(3,4) by (auto simp: GxfComponentTypeName_def tr_name_def split: option.splits)
  then show ?thesis using is_base_reachable [of "tw_registry w" b d] w
    by (simp add: GxfComponentIsBase_def types_wf_def)
qed

lemma type_search_transitive_witness:
  "GxfComponentIsBase example_loaded (Tid 3 3) kComponentTid = Some (GXF_SUCCESS, Some True) \<and>
   (Tid 3 3, kComponentTid) \<in> (bases_rel (tw_registry example_loaded))\<^sup>+"
proof -
  have "GxfComponentTypeName example_loaded (Tid 3 3) = (GXF_SUCCESS, Some ''Ping'')"
    "GxfComponentTypeName example_loaded kComponentTid = (GXF_SUCCESS, Some ''nvidia::gxf::Component'')"
    by code_simp+
  from type_search_transitive [OF example_loaded_reachable exts_wf_example this]
  have eq: "GxfComponentIsBase example_loaded (Tid 3 3) kComponentTid =
      Some (GXF_SUCCESS, Some ((Tid 3 3, kComponentTid) \<in> (bases_rel (tw_registry example_loaded))\<^sup>+))" .
  have "GxfComponentIsBase example_loaded (Tid 3 3) kComponentTid = Some (GXF_SUCCESS, Some True)" by code_simp
  then show ?thesis using eq by simp
qed

text \<open>C36: A successful load makes the types of the extension available: each is found by its name and by
  its identifier and has its base, the loader makes an object of exactly that C++ type for it, refusing
  the abstract ones, and the objects that the load itself made for learning the parameters are gone.\<close>

theorem load_makes_types_available:
  assumes reach: "rt_reachable exts iface w" and ex: "exts_wf exts"
    and l: "el_load exts iface x handle w = Some (Success, w1)" and e: "e \<in> set (de_entries (exts x))"
  shows "GxfComponentTypeId w1 (en_name e) = (GXF_SUCCESS, Some (en_tid e)) \<and>
    GxfComponentTypeName w1 (en_tid e) = (GXF_SUCCESS, Some (en_name e)) \<and>
    (en_base e = [] \<or> (\<exists>u. GxfComponentTypeId w1 (en_base e) = (GXF_SUCCESS, Some u) \<and>
       GxfComponentIsBase w1 (en_tid e) u = Some (GXF_SUCCESS, Some True))) \<and>
    ob_type (tw_objects w1) = ob_type (tw_objects w) \<and>
    (case cf_allocate exts (tw_loader w1) (en_tid e) (tw_objects w1) of
       (Inr p, ob1) \<Rightarrow> en_allocator e \<and> ob_type ob1 = (ob_type (tw_objects w))(p \<mapsto> en_name e) \<and>
         ob_type (tw_objects w) p = None
     | (Inl err, ob1) \<Rightarrow> \<not> en_allocator e \<and> err = GXF_FACTORY_ABSTRACT_CLASS)"
proof -
  have w: "types_wf exts w" using types_wf_reachable [OF reach ex] .
  obtain g: "types_wf exts w1" "grows w w1" "distinct (map en_tid (de_entries (exts x)))"
      "registered w1 (en_tid e) (en_name e) (Some (en_base e))"
      "map_of (el_component_factory (tw_loader w1)) (en_tid e) = Some x"
    using el_load_returns [OF w ex, of iface x handle] l e by auto
  let ?reg = "tw_registry w1"
  have reg: "tr_wf ?reg" using g(1) by (simp add: types_wf_def)
  have n: "tr_names ?reg (en_tid e) = Some (en_name e)" using g(4) by (simp add: registered_def)
  have id: "GxfComponentTypeId w1 m = (GXF_SUCCESS, Some t)" if "tr_names ?reg t = Some m" for t m
    using that id_from_name_wf [OF reg, of m t] by (simp add: GxfComponentTypeId_def)
  have base: "en_base e = [] \<or> (\<exists>u. GxfComponentTypeId w1 (en_base e) = (GXF_SUCCESS, Some u) \<and>
       GxfComponentIsBase w1 (en_tid e) u = Some (GXF_SUCCESS, Some True))"
  proof (cases "en_base e = []")
    case False
    then obtain u where u: "tr_names ?reg u = Some (en_base e)" "(en_tid e, u) \<in> bases_rel ?reg"
      using g(4) unfolding registered_def by blast
    have "is_base ?reg (en_tid e) u = Some (Inr True)"
      using is_base_reachable [OF reg, of u "en_tid e"] g(1) u n r_into_trancl [OF u(2)]
      by (auto simp: types_wf_def simp del: bases_rel_simps)
    then show ?thesis using id [OF u(1)] by (auto simp: GxfComponentIsBase_def)
  qed simp
  have ob: "ob_type (tw_objects w1) = ob_type (tw_objects w)" using g(2) by (simp add: grows_def)
  have fresh: "0 < ob_next (tw_objects w1)" "ob_type (tw_objects w1) (ob_next (tw_objects w1)) = None"
    using g(1) by (simp_all add: types_wf_def)
  have "find_entry (de_entries (exts x)) (en_tid e) = Inr e" using find_entry_distinct [OF g(3) e] .
  then have "case cf_allocate exts (tw_loader w1) (en_tid e) (tw_objects w1) of
       (Inr p, ob1) \<Rightarrow> en_allocator e \<and> ob_type ob1 = (ob_type (tw_objects w))(p \<mapsto> en_name e) \<and>
         ob_type (tw_objects w) p = None
     | (Inl err, ob1) \<Rightarrow> \<not> en_allocator e \<and> err = GXF_FACTORY_ABSTRACT_CLASS"
    using g(5) fresh ob by (simp add: cf_allocate_def el_allocate_abi_def de_allocate_abi_def nca_allocate_def
        new_object_def ExpectedOrCodeVal_def)
  then show ?thesis using id [OF n] base ob n by (simp add: GxfComponentTypeName_def tr_name_def)
qed

lemma load_makes_types_available_witness:
  "GxfComponentTypeId example_loaded ''Ping'' = (GXF_SUCCESS, Some (Tid 3 3)) \<and>
   GxfComponentTypeName example_loaded (Tid 3 3) = (GXF_SUCCESS, Some ''Ping'')"
proof -
  have "example_entry (Tid 3 3) ''Ping'' ''Codelet'' True \<in> set (de_entries (example_exts 0))"
    by (simp add: example_exts_def example_extension_def)
  from load_makes_types_available [OF example_start_reachable exts_wf_example example_load this]
  show ?thesis by (simp add: example_entry_def)
qed



section \<open>What does not return, and what stays behind\<close>

text \<open>A type that names itself as its base is registered, and the search that follows never ends.\<close>

lemma self_base_diverges:
  assumes wf: "types_wf exts w" and new: "tr_names (tw_registry w) tid = None" "tr_tids (tw_registry w) n = None"
    and n: "n \<noteq> []" "tid \<noteq> kComponentTid"
  shows "GxfRegisterComponent exts iface tid n (Some n) w = None"
proof -
  define reg1 where "reg1 = snd (tr_add tid n (tw_registry w))"
  have add: "tr_add tid n (tw_registry w) = (Success, reg1)" using new by (simp add: tr_add_def reg1_def)
  have nobase: "tr_bases (tw_registry w) tid = None"
    using wf new(1) by (cases "tr_bases (tw_registry w) tid") (auto simp: types_wf_def tr_wf_def)
  define reg2 where "reg2 = reg1\<lparr>tr_bases := set_add tid tid (tr_bases reg1)\<rparr>"
  have r1: "tr_tids reg1 n = Some tid" "tr_names reg1 = (tr_names (tw_registry w))(tid \<mapsto> n)"
      "tr_bases reg1 = tr_bases (tw_registry w)"
    using new by (simp_all add: reg1_def tr_add_def)
  have ab: "add_base n n reg1 = (Success, reg2)" using r1 by (simp add: add_base_def id_from_name_def reg2_def)
  have "is_base reg2 tid kComponentTid = None"
  proof (rule is_base_self_loop)
    show "tr_bases reg2 tid = Some [tid]"
      using nobase r1 by (simp add: reg2_def set_add_def set_at_def set_insert_def insort_insert_key_def)
    show "tr_names reg2 kComponentTid \<noteq> None" using wf r1 by (auto simp: reg2_def types_wf_def)
  qed (use r1 n in \<open>auto simp: reg2_def\<close>)
  then show ?thesis using add ab n by (simp add: GxfRegisterComponent_def Let_def)
qed

text \<open>The types that a failed load entered are not taken out: every later load of that extension, even
  one that would succeed otherwise, is refused as a duplicate.\<close>

lemma failed_load_is_final:
  assumes wf: "types_wf exts w" and ex: "exts_wf exts"
    and t: "t \<in> set (map en_tid (de_entries (exts x)))" "map_of (el_component_factory (tw_loader w)) t \<noteq> None"
    and info: "checkInfo_abi (exts x) = GXF_SUCCESS" "\<not> GxfTidIsNull (de_tid (exts x))"
  shows "\<exists>w1. el_load exts iface x handle w = Some (Unexpected GXF_FACTORY_DUPLICATE_TID, w1)"
proof -
  have "sorted_map (el_component_factory (tw_loader w))" using wf by (simp add: types_wf_def)
  then obtain el1 where "enter_types x (map en_tid (de_entries (exts x))) (tw_loader w) =
      (Inl GXF_FACTORY_DUPLICATE_TID, el1)"
    using enter_types_blocked [OF t, of x] by (metis prod.collapse)
  then show ?thesis using info ex
    by (simp add: el_load_def Let_def exts_wf_def getComponentTypes_abi_def not_less)
qed

text \<open>A load that fails in the registration, since a base is missing, leaves its types in the table.\<close>

lemma failed_load_leaves_types:
  "\<exists>w. rt_reachable (\<lambda>x. example_extension\<lparr>de_entries := [example_entry (Tid 3 3) ''Ping'' ''Codelet'' True]\<rparr>)
      example_iface w \<and> el_factories (tw_loader w) = [] \<and>
     map_of (el_component_factory (tw_loader w)) (Tid 3 3) = Some 0"
proof -
  let ?x = "\<lambda>x::nat. example_extension\<lparr>de_entries := [example_entry (Tid 3 3) ''Ping'' ''Codelet'' True]\<rparr>"
  let ?w0 = "snd (the (runtime_create ?x example_iface))"
  let ?w1 = "snd (the (el_load ?x example_iface 0 None ?w0))"
  have 0: "rt_reachable ?x example_iface ?w0"
    by (rule rt_reachable.created [of _ _ "fst (the (runtime_create ?x example_iface))"])
       (simp add: runtime_create_def GxfRegisterComponent_def tr_add_def TypeRegistry_init_def)
  have "map_option fst (el_load ?x example_iface 0 None ?w0) = Some (Inl GXF_FACTORY_UNKNOWN_CLASS_NAME)" by code_simp
  then have "el_load ?x example_iface 0 None ?w0 = Some (Inl GXF_FACTORY_UNKNOWN_CLASS_NAME, ?w1)"
    by (cases "el_load ?x example_iface 0 None ?w0") (auto simp: prod_eq_iff)
  then have "rt_reachable ?x example_iface ?w1" by (rule rt_reachable.loaded [OF 0])
  moreover have "el_factories (tw_loader ?w1) = []" by code_simp
  moreover have "map_of (el_component_factory (tw_loader ?w1)) (Tid 3 3) = Some 0" by code_simp
  ultimately show ?thesis by blast
qed

text \<open>Deallocating an abstract type dereferences a null pointer.\<close>

lemma deallocate_abstract_undefined:
  "find_entry (de_entries de) t = Inr e \<Longrightarrow> \<not> en_allocator e \<Longrightarrow> de_deallocate_abi de t p ob = None"
  by (simp add: de_deallocate_abi_def)

text \<open>A version without two numbers is read out of range.\<close>

lemma version_out_of_range: "isCompatible ''4'' kGxfCoreVersion = None"
  by code_simp

end
