(* ===== verification/Runtime_Entities.thy ===== *)
theory Runtime_Entities
  imports Extension_Loader Program_State
begin

text \<open>
  Entities and components in the runtime: the functions of gxf/core/runtime.cpp that create, find and
  destroy them, and the handles of gxf/core/entity.hpp and gxf/core/handle.hpp.  Here the parts of the
  runtime meet: the entity warden, the type registry, the extension loader that makes and destroys the
  objects of components, and the parameter storage that holds their names.  The code of the components
  is given: what a component registers as its parameters, and its initialize and deinitialize, which
  act on a state of their own and do not call back into the runtime.  None is undefined behaviour, the
  deletion of an object that is not of the type that the factory expects, or a search that does not
  end.
\<close>

section \<open>State\<close>

record 'u Env =
  ev_exts :: extensions
  ev_interface :: "gxf_tid_t \<Rightarrow> gxf_uid_t \<Rightarrow> ParameterStorage \<Rightarrow> gxf_result_t \<times> ParameterStorage"
  ev_call :: "bool \<Rightarrow> gxf_uid_t \<Rightarrow> 'u \<Rightarrow> gxf_result_t \<times> 'u"

text \<open>rt_registrar tells whether the registrar has its parameter and resource registrars; rt_objects is
  the map of pointers of the shared context; rt_program lists the entities that the program holds.\<close>

record 'u Runtime =
  rt_types :: TypeWorld
  rt_warden :: EntityWarden
  rt_parameters :: ParameterStorage
  rt_objects :: "gxf_uid_t \<rightharpoonup> nat"
  rt_next_id :: gxf_uid_t
  rt_program :: "gxf_uid_t list"
  rt_registrar :: bool
  rt_user :: 'u

definition set_heap :: "Objects \<Rightarrow> 'u Runtime \<Rightarrow> 'u Runtime" where
  "set_heap ob rt = rt\<lparr>rt_types := (rt_types rt)\<lparr>tw_objects := ob\<rparr>\<rparr>"

definition getNextId :: "'u Runtime \<Rightarrow> gxf_uid_t \<times> 'u Runtime" where
  "getNextId rt = (rt_next_id rt, rt\<lparr>rt_next_id := rt_next_id rt + 1\<rparr>)"

text \<open>The calls of the warden: initialize and deinitialize are the components' code, deallocation is done
  by the extension loader.  The heap is None after undefined behaviour.\<close>

fun rt_calls :: "'u Env \<Rightarrow> ExtensionLoader \<Rightarrow> ccall \<Rightarrow> Objects option \<times> 'u \<Rightarrow> gxf_result_t \<times> Objects option \<times> 'u" where
  "rt_calls env el (CompInitialize cid) (ob, u) = (case ev_call env True cid u of (code, u1) \<Rightarrow> (code, ob, u1))"
| "rt_calls env el (CompDeinitialize cid) (ob, u) = (case ev_call env False cid u of (code, u1) \<Rightarrow> (code, ob, u1))"
| "rt_calls env el (Deallocate tid p) (None, u) = (GXF_FAILURE, None, u)"
| "rt_calls env el (Deallocate tid p) (Some ob, u) = (case el_deallocate_abi (ev_exts env) el tid p ob of
     None \<Rightarrow> (GXF_FAILURE, None, u) | Some (code, ob1) \<Rightarrow> (code, Some ob1, u))"

definition warden_call ::
  "'u Env \<Rightarrow> ((Objects option \<times> 'u) calls \<Rightarrow> EntityWarden \<times> Objects option \<times> 'u \<Rightarrow>
     gxf_result_t \<times> EntityWarden \<times> Objects option \<times> 'u) \<Rightarrow> 'u Runtime \<Rightarrow> (gxf_result_t \<times> 'u Runtime) option" where
  "warden_call env operation rt =
     (case operation (rt_calls env (tw_loader (rt_types rt)))
             (rt_warden rt, Some (tw_objects (rt_types rt)), rt_user rt) of
        (code, m, None, u) \<Rightarrow> None
      | (code, m, Some ob, u) \<Rightarrow> Some (code, set_heap ob (rt\<lparr>rt_warden := m, rt_user := u\<rparr>)))"

section \<open>Look-ups\<close>

definition GxfEntityFind :: "'u Runtime \<Rightarrow> string \<Rightarrow> gxf_result_t \<times> gxf_uid_t" where
  "GxfEntityFind rt name = ew_find name (rt_warden rt)"

definition GxfEntityIsValid :: "'u Runtime \<Rightarrow> gxf_uid_t \<Rightarrow> bool" where
  "GxfEntityIsValid rt eid \<longleftrightarrow> ew_isValid eid (rt_warden rt) = GXF_SUCCESS"

text \<open>Functions that copy a list into a buffer of the caller: the code, what is written, and the size
  that is reported.\<close>

definition copy_out :: "'a list expected \<Rightarrow> nat \<Rightarrow> gxf_result_t \<times> 'a list option \<times> nat" where
  "copy_out r capacity = (case r of
     Inl e \<Rightarrow> (e, None, capacity)
   | Inr xs \<Rightarrow> if capacity < length xs then (GXF_QUERY_NOT_ENOUGH_CAPACITY, None, length xs)
       else (GXF_SUCCESS, Some xs, length xs))"

definition GxfEntityFindAll :: "gxf_uid_t list \<Rightarrow> 'u Runtime \<Rightarrow> nat \<Rightarrow> gxf_result_t \<times> gxf_uid_t list option \<times> nat" where
  "GxfEntityFindAll order rt num_entities =
     (case ew_getAll order (rt_warden rt) of
        Inl _ \<Rightarrow> (GXF_FAILURE, None, num_entities)
      | Inr es \<Rightarrow> copy_out (Inr es) num_entities)"

text \<open>A null buffer, or a null size, is None.\<close>

definition GxfComponentFindAll :: "'u Runtime \<Rightarrow> gxf_uid_t \<Rightarrow> nat option \<Rightarrow> gxf_result_t \<times> gxf_uid_t list option \<times> nat" where
  "GxfComponentFindAll rt eid capacity = (case capacity of
     None \<Rightarrow> (GXF_ARGUMENT_NULL, None, 0)
   | Some n \<Rightarrow> copy_out (ew_getEntityComponents eid (rt_warden rt)) n)"

definition GxfEntityGroupFindResources :: "'u Runtime \<Rightarrow> gxf_uid_t \<Rightarrow> nat option \<Rightarrow>
    gxf_result_t \<times> gxf_uid_t list option \<times> nat" where
  "GxfEntityGroupFindResources rt eid capacity = (case capacity of
     None \<Rightarrow> (GXF_ARGUMENT_NULL, None, 0)
   | Some n \<Rightarrow> copy_out (ew_getEntityGroupResources eid (rt_warden rt)) n)"

text \<open>Functions that write one value.\<close>

definition value_out :: "'a expected \<Rightarrow> gxf_result_t \<times> 'a option" where
  "value_out r = (case r of Inr v \<Rightarrow> (GXF_SUCCESS, Some v) | Inl e \<Rightarrow> (e, None))"

definition GxfEntityGetName :: "'u Runtime \<Rightarrow> gxf_uid_t \<Rightarrow> gxf_result_t \<times> string option" where
  "GxfEntityGetName rt eid = value_out (ew_getEntityName eid (rt_warden rt))"

definition GxfComponentType :: "'u Runtime \<Rightarrow> gxf_uid_t \<Rightarrow> gxf_result_t \<times> gxf_tid_t option" where
  "GxfComponentType rt cid = value_out (ew_getComponentType cid (rt_warden rt))"

definition GxfComponentEntity :: "'u Runtime \<Rightarrow> gxf_uid_t \<Rightarrow> gxf_result_t \<times> gxf_uid_t option" where
  "GxfComponentEntity rt cid = value_out (ew_getComponentEntity cid (rt_warden rt))"

definition GxfEntityGetItemPtr :: "'u Runtime \<Rightarrow> gxf_uid_t \<Rightarrow> gxf_result_t \<times> WardenItem option" where
  "GxfEntityGetItemPtr rt eid = value_out (ew_getEntityPtr eid (rt_warden rt))"

definition GxfEntityGroupId :: "'u Runtime \<Rightarrow> gxf_uid_t \<Rightarrow> gxf_result_t \<times> gxf_uid_t option" where
  "GxfEntityGroupId rt eid = value_out (ew_entityFindEntityGroupId eid (rt_warden rt))"

definition GxfEntityGroupName :: "bool \<Rightarrow> 'u Runtime \<Rightarrow> gxf_uid_t \<Rightarrow> gxf_result_t \<times> string option" where
  "GxfEntityGroupName name_null rt eid =
     (if name_null then (GXF_NULL_POINTER, None) else value_out (ew_entityFindEntityGroupName eid (rt_warden rt)))"

definition GxfEntityGetRefCount :: "bool \<Rightarrow> 'u Runtime \<Rightarrow> gxf_uid_t \<Rightarrow> gxf_result_t \<times> int option" where
  "GxfEntityGetRefCount count_null rt eid =
     (if count_null then (GXF_ARGUMENT_NULL, None) else value_out (ew_getEntityRefCount eid (rt_warden rt)))"

definition GxfComponentName :: "'u Runtime \<Rightarrow> gxf_uid_t \<Rightarrow> gxf_result_t \<times> string option" where
  "GxfComponentName rt cid =
     GxfParameterGetStr (\<lambda>uid. Some (GxfEntityGetName rt uid)) False (rt_parameters rt) cid kInternalNameParameterKey"

definition GxfComponentTypeNameFromUID :: "'u Runtime \<Rightarrow> gxf_uid_t \<Rightarrow> gxf_result_t \<times> string option" where
  "GxfComponentTypeNameFromUID rt cid = (case GxfComponentType rt cid of
     (code, Some tid) \<Rightarrow> GxfComponentTypeName (rt_types rt) tid
   | (code, None) \<Rightarrow> (code, None))"

definition findComponentPointer :: "'u Runtime \<Rightarrow> gxf_uid_t \<Rightarrow> gxf_result_t \<times> nat" where
  "findComponentPointer rt uid = (case rt_objects rt uid of
     Some p \<Rightarrow> (GXF_SUCCESS, p)
   | None \<Rightarrow> (case GxfComponentEntity rt uid of
       (code, None) \<Rightarrow> (code, 0)
     | (code, Some eid) \<Rightarrow> (case GxfEntityGetItemPtr rt eid of
         (code, None) \<Rightarrow> (code, 0)
       | (code, Some item) \<Rightarrow> (case find (\<lambda>c. uid = ci_cid c) (wi_components item) of
           Some c \<Rightarrow> (GXF_SUCCESS, ci_raw_pointer c)
         | None \<Rightarrow> (GXF_ENTITY_COMPONENT_NOT_FOUND, 0)))))"

definition GxfComponentPointer :: "'u Runtime \<Rightarrow> gxf_uid_t \<Rightarrow> gxf_tid_t \<Rightarrow> nat expected" where
  "GxfComponentPointer rt uid tid = (case findComponentPointer rt uid of (code, p) \<Rightarrow> ExpectedOrCodeVal code p)"

text \<open>The search for a base ends in the states that the runtime reaches; elsewhere a type that does not
  answer does not match.\<close>

definition GxfComponentFind :: "'u Runtime \<Rightarrow> gxf_uid_t \<Rightarrow> gxf_tid_t \<Rightarrow> string option \<Rightarrow> int option \<Rightarrow>
    gxf_result_t \<times> int option \<times> (gxf_uid_t \<times> nat) option" where
  "GxfComponentFind rt eid tid name offset = (case ew_getEntityPtr eid (rt_warden rt) of
     Inl e \<Rightarrow> (e, offset, None)
   | Inr item \<Rightarrow> ew_findComponent
       (\<lambda>derived base. case is_base (tw_registry (rt_types rt)) derived base of
          Some r \<Rightarrow> r | None \<Rightarrow> Unexpected GXF_FAILURE)
       (\<lambda>cid. case GxfComponentName rt cid of (c, Some n) \<Rightarrow> Inr n | (c, None) \<Rightarrow> Unexpected c)
       (GxfComponentPointer rt) tid name offset item)"

section \<open>Creation of entities\<close>

text \<open>std::to_string of a positive identifier.\<close>

fun digits :: "nat \<Rightarrow> string" where
  "digits n = (if n < 10 then [char_of (48 + n)] else digits (n div 10) @ [char_of (48 + n mod 10)])"

declare digits.simps [simp del]

definition to_string :: "int \<Rightarrow> string" where "to_string n = digits (nat n)"

definition double_underscore :: "string \<Rightarrow> bool" where
  "double_underscore n \<longleftrightarrow> (case n of a # b # _ \<Rightarrow> a = CHR ''_'' \<and> b = CHR ''_'' | _ \<Rightarrow> False)"

text \<open>The part of GxfCreateEntity that makes the entity.  The value written to the identifier is returned
  also where the call fails after that.\<close>

definition create_entity :: "string option \<Rightarrow> 'u Runtime \<Rightarrow> (gxf_result_t \<times> gxf_uid_t option) \<times> 'u Runtime" where
  "create_entity entity_name rt =
     (if (case entity_name of Some n \<Rightarrow> fst (GxfEntityFind rt n) = GXF_SUCCESS | None \<Rightarrow> False)
      then ((GXF_ARGUMENT_INVALID, None), rt)
      else case getNextId rt of (eid, rt1) \<Rightarrow>
        if (case entity_name of Some n \<Rightarrow> double_underscore n | None \<Rightarrow> False)
        then ((GXF_ARGUMENT_INVALID, Some eid), rt1)
        else
          let name = (case entity_name of None \<Rightarrow> ''__entity_'' @ to_string eid
                      | Some n \<Rightarrow> if n = [] then ''__entity_'' @ to_string eid else n) in
          (case ew_create eid name (rt_warden rt1) of (result_1, m1) \<Rightarrow>
             ((result_1, Some eid), rt1\<lparr>rt_warden := m1\<rparr>)))"

definition GxfCreateEntityGroup :: "string option \<Rightarrow> 'u Runtime \<Rightarrow> (gxf_result_t \<times> gxf_uid_t) \<times> 'u Runtime" where
  "GxfCreateEntityGroup name rt = (case getNextId rt of (gid, rt1) \<Rightarrow>
     (case ew_createEntityGroup gid name (rt_warden rt1) of (result, m) \<Rightarrow> ((result, gid), rt1\<lparr>rt_warden := m\<rparr>)))"

definition GxfUpdateEntityGroup :: "gxf_uid_t \<Rightarrow> gxf_uid_t \<Rightarrow> 'u Runtime \<Rightarrow> gxf_result_t \<times> 'u Runtime" where
  "GxfUpdateEntityGroup gid eid rt =
     (case ew_updateEntityGroup gid eid (rt_warden rt) of (result, m) \<Rightarrow> (result, rt\<lparr>rt_warden := m\<rparr>))"

section \<open>Components\<close>

definition kCodeletName :: string where "kCodeletName = ''nvidia::gxf::Codelet''"

definition kMaxComponentNameSize :: nat where "kMaxComponentNameSize = 256"

text \<open>A type derived from Component registers its parameters; while it does the registrar has neither a
  parameter registrar nor a resource registrar, and when it fails they are not restored.\<close>

definition register_component :: "'u Env \<Rightarrow> gxf_tid_t \<Rightarrow> gxf_uid_t \<Rightarrow> 'u Runtime \<Rightarrow> gxf_result_t \<times> 'u Runtime" where
  "register_component env tid cid rt =
     (case ev_interface env tid cid (rt_parameters rt) of (registration_result, ps) \<Rightarrow>
        let rt1 = rt\<lparr>rt_registrar := False, rt_parameters := ps\<rparr> in
        if registration_result \<noteq> GXF_SUCCESS then (registration_result, rt1)
        else (GXF_SUCCESS, rt1\<lparr>rt_registrar := True\<rparr>))"

definition name_too_long :: "string option \<Rightarrow> bool" where
  "name_too_long name \<longleftrightarrow> (case name of Some n \<Rightarrow> length n \<ge> kMaxComponentNameSize | None \<Rightarrow> False)"

text \<open>The part of GxfComponentAdd that follows the allocation.\<close>

definition finish_add :: "'u Env \<Rightarrow> gxf_uid_t \<Rightarrow> gxf_tid_t \<Rightarrow> string option \<Rightarrow> nat \<Rightarrow> 'u Runtime \<Rightarrow>
    ((gxf_uid_t \<times> nat) expected \<times> 'u Runtime) option" where
  "finish_add env eid tid name raw_pointer rt = (case getNextId rt of (cid, rt2) \<Rightarrow>
     (case tr_name (tw_registry (rt_types rt2)) tid of
        Inl e \<Rightarrow> Some (Unexpected e, rt2)
      | Inr type_name \<Rightarrow>
          (case is_base (tw_registry (rt_types rt2)) tid kComponentTid of
             None \<Rightarrow> None
           | Some (Inl e) \<Rightarrow> Some (Unexpected e, rt2)
           | Some (Inr base_result) \<Rightarrow>
               (case (if base_result then register_component env tid cid rt2 else (GXF_SUCCESS, rt2)) of
                  (registration_result, rt3) \<Rightarrow>
                  if registration_result \<noteq> GXF_SUCCESS then Some (Unexpected registration_result, rt3)
                  else if name_too_long name
                  then Some (Unexpected GXF_ENTITY_COMPONENT_NAME_EXCEEDS_LIMIT, rt3)
                  else
                    let rt4 = rt3\<lparr>rt_parameters := snd (setStr cid kInternalNameParameterKey
                          (case name of Some n \<Rightarrow> n | None \<Rightarrow> '''') (rt_parameters rt3))\<rparr> in
                    (case ew_addComponent eid cid tid raw_pointer (if base_result then raw_pointer else 0)
                            (rt_warden rt4) of (code, m) \<Rightarrow>
                       let rt5 = rt4\<lparr>rt_warden := m\<rparr> in
                       if code \<noteq> GXF_SUCCESS then Some (Unexpected code, rt5)
                       else Some (Inr (cid, raw_pointer), rt5))))))"

definition GxfComponentAdd :: "'u Env \<Rightarrow> gxf_uid_t \<Rightarrow> gxf_tid_t \<Rightarrow> string option \<Rightarrow> 'u Runtime \<Rightarrow>
    ((gxf_uid_t \<times> nat) expected \<times> 'u Runtime) option" where
  "GxfComponentAdd env eid tid name rt =
     (case id_from_name (tw_registry (rt_types rt)) kCodeletName of
        Inl static_code \<Rightarrow> Some (Unexpected static_code, rt)
      | Inr _ \<Rightarrow>
          if ew_isValid eid (rt_warden rt) \<noteq> GXF_SUCCESS then Some (Unexpected (ew_isValid eid (rt_warden rt)), rt)
          else (case cf_allocate (ev_exts env) (tw_loader (rt_types rt)) tid (tw_objects (rt_types rt)) of
            (Inl e, ob1) \<Rightarrow> Some (Unexpected e, set_heap ob1 rt)
          | (Inr raw_pointer, ob1) \<Rightarrow> finish_add env eid tid name raw_pointer (set_heap ob1 rt)))"

definition GxfComponentAddWithItem :: "'u Env \<Rightarrow> WardenItem \<Rightarrow> gxf_tid_t \<Rightarrow> string option \<Rightarrow> 'u Runtime \<Rightarrow>
    ((gxf_uid_t \<times> nat) expected \<times> 'u Runtime) option" where
  "GxfComponentAddWithItem env item tid name rt = GxfComponentAdd env (wi_uid item) tid name rt"

definition GxfComponentRemove :: "'u Env \<Rightarrow> gxf_uid_t \<Rightarrow> 'u Runtime \<Rightarrow> (gxf_result_t \<times> 'u Runtime) option" where
  "GxfComponentRemove env cid rt =
     (case id_from_name (tw_registry (rt_types rt)) kCodeletName of
        Inl static_code \<Rightarrow> Some (static_code, rt)
      | Inr _ \<Rightarrow>
          if cid = kNullUid \<or> cid = kUnspecifiedUid then Some (GXF_ARGUMENT_INVALID, rt)
          else (case ew_getComponentEntity cid (rt_warden rt) of
            Inl e \<Rightarrow> Some (e, rt)
          | Inr eid \<Rightarrow>
              (case warden_call env (\<lambda>f. ew_removeComponent True f eid cid) rt of
                 None \<Rightarrow> None
               | Some (result, rt1) \<Rightarrow>
                   if result \<noteq> GXF_SUCCESS then Some (result, rt1)
                   else (case clearEntityParameters cid (rt_parameters rt1) of (code, ps) \<Rightarrow>
                     let rt2 = rt1\<lparr>rt_objects := (rt_objects rt1)(cid := None), rt_parameters := ps\<rparr> in
                     (case code of Inl e \<Rightarrow> Some (e, rt2) | Inr _ \<Rightarrow> Some (GXF_SUCCESS, rt2))))))"

text \<open>The variant with a type and a name of the component.\<close>

definition GxfComponentRemoveNamed :: "'u Env \<Rightarrow> gxf_uid_t \<Rightarrow> gxf_tid_t \<Rightarrow> string option \<Rightarrow> 'u Runtime \<Rightarrow>
    (gxf_result_t \<times> 'u Runtime) option" where
  "GxfComponentRemoveNamed env eid tid name rt = (case GxfComponentFind rt eid tid name None of
     (result, _, Some (cid, _)) \<Rightarrow>
       if result \<noteq> GXF_SUCCESS \<or> cid = kNullUid then Some (result, rt) else GxfComponentRemove env cid rt
   | (result, _, None) \<Rightarrow> Some (result, rt))"

definition GxfComponentAddToInterface :: "gxf_uid_t \<Rightarrow> gxf_uid_t \<Rightarrow> string \<Rightarrow> 'u Runtime \<Rightarrow> gxf_result_t \<times> 'u Runtime" where
  "GxfComponentAddToInterface eid cid name rt =
     (if ew_isValid eid (rt_warden rt) \<noteq> GXF_SUCCESS then (ew_isValid eid (rt_warden rt), rt)
      else case ew_addComponentToInterface eid cid name (rt_warden rt) of (code, m) \<Rightarrow> (code, rt\<lparr>rt_warden := m\<rparr>))"

section \<open>Destruction and reference counts\<close>

text \<open>The loop that clears the parameters of the components.\<close>

fun clear_loop :: "gxf_uid_t list \<Rightarrow> ParameterStorage \<Rightarrow> unit expected \<times> ParameterStorage" where
  "clear_loop [] ps = (Success, ps)"
| "clear_loop (cid # cids) ps = (case clearEntityParameters cid ps of
     (Inl e, ps1) \<Rightarrow> (Inl e, ps1) | (Inr _, ps1) \<Rightarrow> clear_loop cids ps1)"

definition GxfEntityDestroyImpl :: "'u Env \<Rightarrow> gxf_uid_t \<Rightarrow> 'u Runtime \<Rightarrow> (gxf_result_t \<times> 'u Runtime) option" where
  "GxfEntityDestroyImpl env eid rt = (case ew_getEntityComponents eid (rt_warden rt) of
     Inl e \<Rightarrow> Some (e, rt)
   | Inr cids \<Rightarrow>
       (case warden_call env (\<lambda>f. ew_deinitialize f eid) rt of
          None \<Rightarrow> None
        | Some (code, rt1) \<Rightarrow>
            if code \<noteq> GXF_SUCCESS then Some (code, rt1)
            else
              let rt2 = rt1\<lparr>rt_objects := (rt_objects rt1) |` (- set cids)\<rparr> in
              (case warden_call env (\<lambda>f. ew_destroy True f eid) rt2 of
                 None \<Rightarrow> None
               | Some (code, rt3) \<Rightarrow>
                   if code \<noteq> GXF_SUCCESS then Some (code, rt3)
                   else (case clear_loop cids (rt_parameters rt3) of
                     (Inl e, ps) \<Rightarrow> Some (e, rt3\<lparr>rt_parameters := ps\<rparr>)
                   | (Inr _, ps) \<Rightarrow> (case clearEntityParameters eid ps of (result, ps1) \<Rightarrow>
                       Some (ToResultCode result, rt3\<lparr>rt_parameters := ps1,
                         rt_warden := ew_removeEntityRefCount eid (rt_warden rt3)\<rparr>))))))"

definition GxfEntityDestroy :: "'u Env \<Rightarrow> gxf_uid_t \<Rightarrow> 'u Runtime \<Rightarrow> (gxf_result_t \<times> 'u Runtime) option" where
  "GxfEntityDestroy env eid rt =
     (case GxfEntityGetRefCount False rt eid of (code, v) \<Rightarrow>
        if code = GXF_PARAMETER_NOT_FOUND then GxfEntityDestroyImpl env eid rt
        else if code \<noteq> GXF_SUCCESS then Some (code, rt)
        else if v \<noteq> Some 0 then Some (GXF_FAILURE, rt)
        else GxfEntityDestroyImpl env eid rt)"

definition GxfEntityRefCountInc :: "gxf_uid_t \<Rightarrow> 'u Runtime \<Rightarrow> gxf_result_t \<times> 'u Runtime" where
  "GxfEntityRefCountInc eid rt =
     (case ew_incEntityRefCount eid (rt_warden rt) of (code, m) \<Rightarrow> (code, rt\<lparr>rt_warden := m\<rparr>))"

definition GxfEntityRefCountDec :: "'u Env \<Rightarrow> gxf_uid_t \<Rightarrow> 'u Runtime \<Rightarrow> (gxf_result_t \<times> 'u Runtime) option" where
  "GxfEntityRefCountDec env eid rt = (case ew_decEntityRefCount eid (rt_warden rt) of (code, v, m) \<Rightarrow>
     let rt1 = rt\<lparr>rt_warden := m\<rparr> in
     if code \<noteq> GXF_SUCCESS then Some (code, rt1)
     else if v = Some 0 then GxfEntityDestroyImpl env eid rt1
     else Some (GXF_SUCCESS, rt1))"

section \<open>Entities of the program\<close>

text \<open>Program::addEntity: the program holds a handle of the entity; when its list is full the handle is
  dropped again, with the count it holds, and the error is not seen.\<close>

definition program_addEntity :: "'u Env \<Rightarrow> gxf_uid_t \<Rightarrow> 'u Runtime \<Rightarrow> (unit expected \<times> 'u Runtime) option" where
  "program_addEntity env eid rt = (case GxfEntityRefCountInc eid rt of (code, rt1) \<Rightarrow>
     if code \<noteq> GXF_SUCCESS then Some (Unexpected code, rt1)
     else if length (rt_program rt1) < kMaxEntities then Some (Success, rt1\<lparr>rt_program := rt_program rt1 @ [eid]\<rparr>)
     else map_option (\<lambda>(_, rt2). (Success, rt2)) (GxfEntityRefCountDec env eid rt1))"

definition GxfCreateEntity :: "'u Env \<Rightarrow> string option \<Rightarrow> bool \<Rightarrow> 'u Runtime \<Rightarrow>
    ((gxf_result_t \<times> gxf_uid_t option) \<times> 'u Runtime) option" where
  "GxfCreateEntity env entity_name program_bit rt = (case create_entity entity_name rt of
     ((code, Some eid), rt1) \<Rightarrow>
       if code \<noteq> GXF_SUCCESS then Some ((code, Some eid), rt1)
       else if program_bit
       then map_option (\<lambda>(result_3, rt2). ((ToResultCode result_3, Some eid), rt2)) (program_addEntity env eid rt1)
       else Some ((GXF_SUCCESS, Some eid), rt1)
   | ((code, None), rt1) \<Rightarrow> Some ((code, None), rt1))"

section \<open>Handles\<close>

text \<open>An Entity holds an identifier, 0 when it is null; entities are held in numbered variables.  The
  pointer to the entity item that a handle caches stays valid while the entity exists.\<close>

type_synonym handles = "nat \<Rightarrow> gxf_uid_t"

definition Entity_release :: "'u Env \<Rightarrow> gxf_uid_t \<Rightarrow> 'u Runtime \<Rightarrow> 'u Runtime option" where
  "Entity_release env eid rt = (if eid = kNullUid then Some rt
     else map_option snd (GxfEntityRefCountDec env eid rt))"

definition Entity_Shared :: "gxf_uid_t \<Rightarrow> 'u Runtime \<Rightarrow> gxf_uid_t expected \<times> 'u Runtime" where
  "Entity_Shared eid rt = (case GxfEntityRefCountInc eid rt of (code, rt1) \<Rightarrow>
     if code \<noteq> GXF_SUCCESS then (Unexpected code, rt1) else (Inr eid, rt1))"

text \<open>Entity::New has an argument for a name, which it does not use.\<close>

definition Entity_New :: "'u Env \<Rightarrow> string option \<Rightarrow> 'u Runtime \<Rightarrow> (gxf_uid_t expected \<times> 'u Runtime) option" where
  "Entity_New env name rt = map_option (\<lambda>r. case r of
     ((code, Some eid), rt1) \<Rightarrow> if code \<noteq> GXF_SUCCESS then (Unexpected code, rt1) else Entity_Shared eid rt1
   | ((code, None), rt1) \<Rightarrow> (Unexpected code, rt1)) (GxfCreateEntity env None False rt)"

definition Entity_copy :: "'u Env \<Rightarrow> nat \<Rightarrow> nat \<Rightarrow> handles \<times> 'u Runtime \<Rightarrow> (handles \<times> 'u Runtime) option" where
  "Entity_copy env v w = (\<lambda>(h, rt).
     if h v = h w then Some (h, rt)
     else (case Entity_release env (h v) rt of
       None \<Rightarrow> None
     | Some rt1 \<Rightarrow> Some (h(v := h w), if h w = kNullUid then rt1 else snd (GxfEntityRefCountInc (h w) rt1))))"

definition Entity_move :: "'u Env \<Rightarrow> nat \<Rightarrow> nat \<Rightarrow> handles \<times> 'u Runtime \<Rightarrow> (handles \<times> 'u Runtime) option" where
  "Entity_move env v w = (\<lambda>(h, rt).
     if v = w then Some (h, rt)
     else map_option (\<lambda>rt1. (h(v := h w, w := kNullUid), rt1)) (Entity_release env (h v) rt))"

definition Entity_drop :: "'u Env \<Rightarrow> nat \<Rightarrow> handles \<times> 'u Runtime \<Rightarrow> (handles \<times> 'u Runtime) option" where
  "Entity_drop env v = (\<lambda>(h, rt). map_option (\<lambda>rt1. (h(v := kNullUid), rt1)) (Entity_release env (h v) rt))"

text \<open>The calls that an Entity forwards.\<close>

definition Entity_add :: "'u Env \<Rightarrow> gxf_uid_t \<Rightarrow> gxf_tid_t \<Rightarrow> string option \<Rightarrow> 'u Runtime \<Rightarrow>
    ((gxf_uid_t \<times> nat) expected \<times> 'u Runtime) option" where
  "Entity_add env eid tid name rt = (case ew_getEntityPtr eid (rt_warden rt) of
     Inl e \<Rightarrow> Some (Unexpected e, rt)
   | Inr item \<Rightarrow> GxfComponentAddWithItem env item tid name rt)"

definition Entity_name :: "'u Runtime \<Rightarrow> gxf_uid_t \<Rightarrow> string" where
  "Entity_name rt eid = (case GxfEntityGetName rt eid of (_, Some n) \<Rightarrow> n | (_, None) \<Rightarrow> '''')"

text \<open>Handles of components: UntypedHandle and Handle.\<close>

record UntypedHandle =
  uh_cid :: gxf_uid_t
  uh_tid :: gxf_tid_t
  uh_pointer :: nat

definition UntypedHandle_Create :: "'u Runtime \<Rightarrow> gxf_uid_t \<Rightarrow> UntypedHandle expected" where
  "UntypedHandle_Create rt cid = (case GxfComponentType rt cid of
     (code, None) \<Rightarrow> Unexpected code
   | (code, Some tid) \<Rightarrow> (case GxfComponentPointer rt cid tid of
       Inl e \<Rightarrow> ForwardError e
     | Inr p \<Rightarrow> Inr \<lparr>uh_cid = cid, uh_tid = tid, uh_pointer = p\<rparr>))"

definition uh_name :: "'u Runtime \<Rightarrow> UntypedHandle \<Rightarrow> string" where
  "uh_name rt u = (case GxfComponentName rt (uh_cid u) of (_, Some n) \<Rightarrow> n | (_, None) \<Rightarrow> '''')"

definition verifyPointer :: "'u Runtime \<Rightarrow> UntypedHandle \<Rightarrow> unit expected" where
  "verifyPointer rt u =
     (if uh_pointer u = 0 then Unexpected GXF_FAILURE
      else case GxfComponentPointer rt (uh_cid u) (uh_tid u) of
        Inl e \<Rightarrow> Unexpected e
      | Inr p \<Rightarrow> if p \<noteq> uh_pointer u then Unexpected GXF_FAILURE else Success)"

text \<open>The loop of Entity::findAll; the vector has the capacity of the buffer.\<close>

fun create_handles :: "'u Runtime \<Rightarrow> gxf_uid_t list \<Rightarrow> UntypedHandle list expected" where
  "create_handles rt [] = Inr []"
| "create_handles rt (cid # cids) = (case UntypedHandle_Create rt cid of
     Inl e \<Rightarrow> ForwardError e
   | Inr u \<Rightarrow> (case create_handles rt cids of Inl e \<Rightarrow> Inl e | Inr us \<Rightarrow> Inr (u # us)))"

definition Entity_findAll :: "'u Runtime \<Rightarrow> gxf_uid_t \<Rightarrow> UntypedHandle list expected" where
  "Entity_findAll rt eid = (case GxfComponentFindAll rt eid (Some kWardenComponents) of
     (code, Some cids, _) \<Rightarrow> create_handles rt cids
   | (code, None, _) \<Rightarrow> Unexpected code)"

definition Handle_Create_type :: "'u Runtime \<Rightarrow> string \<Rightarrow> gxf_uid_t \<Rightarrow> UntypedHandle expected" where
  "Handle_Create_type rt type_name cid = (case GxfComponentTypeId (rt_types rt) type_name of
     (code, None) \<Rightarrow> Unexpected code
   | (code, Some tid) \<Rightarrow> (case GxfComponentPointer rt cid tid of
       Inl e \<Rightarrow> ForwardError e
     | Inr p \<Rightarrow> Inr \<lparr>uh_cid = cid, uh_tid = tid, uh_pointer = p\<rparr>))"

definition Handle_Create :: "'u Runtime \<Rightarrow> string \<Rightarrow> gxf_uid_t \<Rightarrow> gxf_tid_t \<Rightarrow> nat \<Rightarrow> UntypedHandle expected" where
  "Handle_Create rt type_name cid tid p =
     (if GxfTidIsNull tid \<or> p = 0 then Handle_Create_type rt type_name cid
      else Inr \<lparr>uh_cid = cid, uh_tid = tid, uh_pointer = p\<rparr>)"

definition Entity_get :: "'u Runtime \<Rightarrow> gxf_uid_t \<Rightarrow> string \<Rightarrow> string option \<Rightarrow> UntypedHandle expected" where
  "Entity_get rt eid type_name name = (case ew_getEntityPtr eid (rt_warden rt) of
     Inl e \<Rightarrow> Unexpected e
   | Inr _ \<Rightarrow> (case GxfComponentTypeId (rt_types rt) type_name of
       (code, None) \<Rightarrow> Unexpected code
     | (code, Some tid) \<Rightarrow> (case GxfComponentFind rt eid tid name None of
         (result, _, Some (cid, p)) \<Rightarrow>
           if result \<noteq> GXF_SUCCESS then Unexpected result else Handle_Create rt type_name cid tid p
       | (result, _, None) \<Rightarrow> Unexpected result)))"

text \<open>CreateHandleFromString: a tag is entity/component, or the name of a component of the entity that the
  component belongs to.\<close>

definition CreateHandleFromString :: "'u Runtime \<Rightarrow> string \<Rightarrow> gxf_uid_t \<Rightarrow> string \<Rightarrow> UntypedHandle expected" where
  "CreateHandleFromString rt type_name cid tag =
     (let entity_name = takeWhile (\<lambda>c. c \<noteq> CHR ''/'') tag; rest = dropWhile (\<lambda>c. c \<noteq> CHR ''/'') tag in
      case (if rest = [] then GxfComponentEntity rt cid
            else (case GxfEntityFind rt entity_name of (code, e) \<Rightarrow>
              (code, if code = GXF_SUCCESS then Some e else None))) of
        (code, None) \<Rightarrow> Unexpected code
      | (code, Some eid) \<Rightarrow> (case GxfComponentTypeId (rt_types rt) type_name of
          (code, None) \<Rightarrow> Unexpected code
        | (code, Some tid) \<Rightarrow>
            (case GxfComponentFind rt eid tid (Some (if rest = [] then tag else List.tl rest)) None of
               (result, _, Some (cid2, p)) \<Rightarrow>
                 if result \<noteq> GXF_SUCCESS then Unexpected result else Handle_Create_type rt type_name cid2
             | (result, _, None) \<Rightarrow> Unexpected result)))"

section \<open>Invariant\<close>

text \<open>The name of the C++ type that the factory makes for a component type, None when it makes none.\<close>

definition factory_type :: "extensions \<Rightarrow> ExtensionLoader \<Rightarrow> gxf_tid_t \<Rightarrow> string option" where
  "factory_type exts el tid = (case map_of (el_component_factory el) tid of
     None \<Rightarrow> None
   | Some x \<Rightarrow> (case find_entry (de_entries (exts x)) tid of
       Inr e \<Rightarrow> if en_allocator e then Some (en_name e) else None | Inl _ \<Rightarrow> None))"

definition comps_of :: "EntityWarden \<Rightarrow> gxf_uid_t \<Rightarrow> ComponentItem list" where
  "comps_of m eid = (case w_entities m eid of None \<Rightarrow> [] | Some i \<Rightarrow> wi_components i)"

text \<open>A component is backed by an object of the type that its factory will delete.\<close>

definition backed :: "extensions \<Rightarrow> TypeWorld \<Rightarrow> ComponentItem \<Rightarrow> bool" where
  "backed exts ty c \<longleftrightarrow> ci_raw_pointer c \<noteq> 0 \<and> ob_type (tw_objects ty) (ci_raw_pointer c) \<noteq> None \<and>
     ob_type (tw_objects ty) (ci_raw_pointer c) = factory_type exts (tw_loader ty) (ci_tid c) \<and>
     ci_component_pointer c \<in> {0, ci_raw_pointer c}"

text \<open>The lists of components of the entities: distinct identifiers below the next one, distinct objects,
  and look-ups that do not point to another entity.\<close>

definition comps_wf :: "extensions \<Rightarrow> TypeWorld \<Rightarrow> gxf_uid_t \<Rightarrow> (gxf_uid_t \<Rightarrow> ComponentItem list) \<Rightarrow>
    (gxf_uid_t \<rightharpoonup> gxf_uid_t \<times> gxf_tid_t) \<Rightarrow> bool" where
  "comps_wf exts ty next_id comps lookup \<longleftrightarrow>
     (\<forall>eid. length (comps eid) \<le> kWardenComponents \<and> distinct (map ci_cid (comps eid)) \<and>
        distinct (map ci_raw_pointer (comps eid))) \<and>
     (\<forall>eid. \<forall>c\<in>set (comps eid). 0 < ci_cid c \<and> ci_cid c < next_id \<and> backed exts ty c \<and>
        lookup (ci_cid c) \<in> {None, Some (eid, ci_tid c)}) \<and>
     (\<forall>e1 e2. \<forall>c1\<in>set (comps e1). \<forall>c2\<in>set (comps e2). e1 \<noteq> e2 \<longrightarrow>
        ci_raw_pointer c1 \<noteq> ci_raw_pointer c2 \<and> ci_cid c1 \<noteq> ci_cid c2) \<and>
     (\<forall>cid. lookup cid \<noteq> None \<longrightarrow> cid < next_id)"

definition items_wf :: "gxf_uid_t \<Rightarrow> (gxf_uid_t \<rightharpoonup> WardenItem) \<Rightarrow> bool" where
  "items_wf next_id es \<longleftrightarrow> (\<forall>eid i. es eid = Some i \<longrightarrow>
     wi_uid i = eid \<and> 0 < eid \<and> eid < next_id \<and> wi_stage i \<in> {kUninitialized, kInitialized})"

definition rt_wf :: "extensions \<Rightarrow> 'u Runtime \<Rightarrow> bool" where [inv_defs]:
  "rt_wf exts rt \<longleftrightarrow> types_wf exts (rt_types rt) \<and> ob_type (tw_objects (rt_types rt)) 0 = None \<and>
     0 < rt_next_id rt \<and> rt_objects rt = Map.empty \<and> items_wf (rt_next_id rt) (w_entities (rt_warden rt)) \<and>
     comps_wf exts (rt_types rt) (rt_next_id rt) (comps_of (rt_warden rt)) (w_components (rt_warden rt))"

lemma rt_wfD:
  assumes "rt_wf exts rt"
  shows "types_wf exts (rt_types rt)" "ob_type (tw_objects (rt_types rt)) 0 = None" "0 < rt_next_id rt"
    "rt_objects rt = Map.empty" "items_wf (rt_next_id rt) (w_entities (rt_warden rt))"
    "comps_wf exts (rt_types rt) (rt_next_id rt) (comps_of (rt_warden rt)) (w_components (rt_warden rt))"
  using assms by (simp_all add: rt_wf_def)

lemma rt_wfI:
  assumes "types_wf exts (rt_types rt)" "ob_type (tw_objects (rt_types rt)) 0 = None" "0 < rt_next_id rt"
    "rt_objects rt = Map.empty" "items_wf (rt_next_id rt) (w_entities (rt_warden rt))"
    "comps_wf exts (rt_types rt) (rt_next_id rt) (comps_of (rt_warden rt)) (w_components (rt_warden rt))"
  shows "rt_wf exts rt"
  using assms by (simp add: rt_wf_def)

lemma comps_wfD:
  assumes "comps_wf exts ty n comps lookup"
  shows "length (comps eid) \<le> kWardenComponents" "distinct (map ci_cid (comps eid))"
    "distinct (map ci_raw_pointer (comps eid))"
    "c \<in> set (comps eid) \<Longrightarrow> 0 < ci_cid c" "c \<in> set (comps eid) \<Longrightarrow> ci_cid c < n"
    "c \<in> set (comps eid) \<Longrightarrow> backed exts ty c"
    "c \<in> set (comps eid) \<Longrightarrow> lookup (ci_cid c) = None \<or> lookup (ci_cid c) = Some (eid, ci_tid c)"
    "c \<in> set (comps eid) \<Longrightarrow> c' \<in> set (comps e') \<Longrightarrow> eid \<noteq> e' \<Longrightarrow> ci_raw_pointer c \<noteq> ci_raw_pointer c'"
    "c \<in> set (comps eid) \<Longrightarrow> c' \<in> set (comps e') \<Longrightarrow> eid \<noteq> e' \<Longrightarrow> ci_cid c \<noteq> ci_cid c'"
    "lookup cid \<noteq> None \<Longrightarrow> cid < n"
  using assms unfolding comps_wf_def by blast+

text \<open>The heap may grow, and lose the objects that no component has.\<close>

definition heap_wf :: "Objects \<Rightarrow> bool" where
  "heap_wf ob \<longleftrightarrow> 0 < ob_next ob \<and> ob_type ob 0 = None \<and> (\<forall>p \<ge> ob_next ob. ob_type ob p = None)"

lemma types_wf_heap:
  "types_wf exts ty \<Longrightarrow> heap_wf ob \<Longrightarrow> types_wf exts (ty\<lparr>tw_objects := ob\<rparr>)"
  by (simp add: types_wf_def heap_wf_def)

lemma rt_wf_heap: "rt_wf exts rt \<Longrightarrow> heap_wf (tw_objects (rt_types rt))"
  by (auto simp: rt_wf_def types_wf_def heap_wf_def)

lemma set_heap_simps [simp]:
  "rt_types (set_heap ob rt) = (rt_types rt)\<lparr>tw_objects := ob\<rparr>" "rt_warden (set_heap ob rt) = rt_warden rt"
  "rt_parameters (set_heap ob rt) = rt_parameters rt" "rt_objects (set_heap ob rt) = rt_objects rt"
  "rt_next_id (set_heap ob rt) = rt_next_id rt" "rt_program (set_heap ob rt) = rt_program rt"
  "rt_user (set_heap ob rt) = rt_user rt"
  by (simp_all add: set_heap_def)

lemma backed_heap:
  "backed exts ty c \<Longrightarrow> ob_type ob (ci_raw_pointer c) = ob_type (tw_objects ty) (ci_raw_pointer c) \<Longrightarrow>
   backed exts (ty\<lparr>tw_objects := ob\<rparr>) c"
  unfolding backed_def by auto

lemma comps_wf_heap:
  assumes "comps_wf exts ty n comps lookup"
    "\<And>eid c. c \<in> set (comps eid) \<Longrightarrow> ob_type ob (ci_raw_pointer c) = ob_type (tw_objects ty) (ci_raw_pointer c)"
  shows "comps_wf exts (ty\<lparr>tw_objects := ob\<rparr>) n comps lookup"
  using assms(1) backed_heap [of exts ty _ ob] assms(2) unfolding comps_wf_def by blast

lemma comps_wf_next: "comps_wf exts ty n comps lookup \<Longrightarrow> n \<le> n' \<Longrightarrow> comps_wf exts ty n' comps lookup"
  unfolding comps_wf_def by (meson order_less_le_trans)

lemma items_wf_next: "items_wf n es \<Longrightarrow> n \<le> n' \<Longrightarrow> items_wf n' es"
  unfolding items_wf_def by (meson order_less_le_trans)

lemma comps_wf_sub:
  assumes "comps_wf exts ty n comps lookup" "\<And>eid. \<exists>P. comps' eid = filter P (comps eid)"
    "\<And>cid. lookup' cid \<in> {None, lookup cid}"
  shows "comps_wf exts ty n comps' lookup'"
proof -
  have sub: "set (comps' eid) \<subseteq> set (comps eid)" for eid using assms(2) [of eid] by auto
  have "length (comps' eid) \<le> kWardenComponents \<and> distinct (map ci_cid (comps' eid)) \<and>
      distinct (map ci_raw_pointer (comps' eid))" for eid
    using assms(2) [of eid] comps_wfD(1-3) [OF assms(1), of eid] le_trans [OF length_filter_le]
    by (metis distinct_map_filter)
  moreover have "lookup' (ci_cid c) \<in> {None, Some (eid, ci_tid c)}" if "c \<in> set (comps' eid)" for eid c
    using comps_wfD(7) [OF assms(1), of c eid] sub [of eid] that assms(3) [of "ci_cid c"] by auto
  moreover have "cid < n" if "lookup' cid \<noteq> None" for cid
    using comps_wfD(10) [OF assms(1), of cid] assms(3) [of cid] that by auto
  ultimately show ?thesis using comps_wfD(4-6,8,9) [OF assms(1)] sub unfolding comps_wf_def by (meson subsetD)
qed

section \<open>Objects are made and deleted as their types\<close>

lemma el_deallocate_backed:
  assumes "backed exts ty c"
  shows "el_deallocate_abi exts (tw_loader ty) (ci_tid c) (ci_raw_pointer c) (tw_objects ty) =
    Some (GXF_SUCCESS, (tw_objects ty)\<lparr>ob_type := (ob_type (tw_objects ty))(ci_raw_pointer c := None)\<rparr>)"
proof -
  obtain n where n: "ob_type (tw_objects ty) (ci_raw_pointer c) = Some n"
      "factory_type exts (tw_loader ty) (ci_tid c) = Some n"
    using assms unfolding backed_def by (metis option.exhaust)
  then obtain x e where "map_of (el_component_factory (tw_loader ty)) (ci_tid c) = Some x"
      "find_entry (de_entries (exts x)) (ci_tid c) = Inr e" "en_allocator e" "en_name e = n"
    unfolding factory_type_def by (auto split: option.splits sum.splits if_splits)
  then show ?thesis using n assms
    by (simp add: el_deallocate_abi_def de_deallocate_abi_def nca_deallocate_def backed_def)
qed

lemma cf_allocate_cases:
  assumes "heap_wf ob"
  obtains (made) n where "cf_allocate exts el tid ob = (Inr (ob_next ob),
      ob\<lparr>ob_type := (ob_type ob)(ob_next ob \<mapsto> n), ob_next := ob_next ob + 1\<rparr>)" "factory_type exts el tid = Some n"
  | (failed) e where "cf_allocate exts el tid ob = (Inl e, ob)"
proof (cases "map_of (el_component_factory el) tid")
  case None
  then show ?thesis using failed [of GXF_FACTORY_UNKNOWN_TID]
    by (simp add: cf_allocate_def el_allocate_abi_def ExpectedOrCodeVal_def)
next
  case (Some x)
  show ?thesis
  proof (cases "find_entry (de_entries (exts x)) tid")
    case (Inl e)
    then show ?thesis using failed [of GXF_FACTORY_UNKNOWN_TID] Some
      by (simp add: cf_allocate_def el_allocate_abi_def de_allocate_abi_def ExpectedOrCodeVal_def)
  next
    case (Inr e)
    show ?thesis
    proof (cases "en_allocator e")
      case True
      then show ?thesis using made [of "en_name e"] Some Inr assms
        by (simp add: cf_allocate_def el_allocate_abi_def de_allocate_abi_def nca_allocate_def new_object_def
            ExpectedOrCodeVal_def factory_type_def heap_wf_def)
    next
      case False
      then show ?thesis using failed [of GXF_FACTORY_ABSTRACT_CLASS] Some Inr
        by (simp add: cf_allocate_def el_allocate_abi_def de_allocate_abi_def ExpectedOrCodeVal_def)
    qed
  qed
qed

text \<open>The loop of destroy deletes exactly the objects of the components.\<close>

lemma deallocate_loop_backed:
  assumes "\<And>c. c \<in> set cs \<Longrightarrow> backed exts ty c" "distinct (map ci_raw_pointer cs)" "ev_exts env = exts"
  shows "deallocate_loop (rt_calls env (tw_loader ty)) cs r (Some (tw_objects ty), u) =
    (r, Some ((tw_objects ty)\<lparr>ob_type := (ob_type (tw_objects ty)) |` (- ci_raw_pointer ` set cs)\<rparr>), u)"
  using assms
proof (induction cs arbitrary: ty)
  case (Cons c cs)
  let ?ob = "(tw_objects ty)\<lparr>ob_type := (ob_type (tw_objects ty))(ci_raw_pointer c := None)\<rparr>"
  let ?ty = "ty\<lparr>tw_objects := ?ob\<rparr>"
  have "backed exts ?ty d" if "d \<in> set cs" for d
  proof (rule backed_heap)
    show "backed exts ty d" using Cons.prems(1) that by simp
    have "ci_raw_pointer d \<noteq> ci_raw_pointer c" using Cons.prems(2) that by (auto simp: image_iff)
    then show "ob_type ?ob (ci_raw_pointer d) = ob_type (tw_objects ty) (ci_raw_pointer d)" by simp
  qed
  moreover have "distinct (map ci_raw_pointer cs)" using Cons.prems(2) by simp
  ultimately have ih: "deallocate_loop (rt_calls env (tw_loader ?ty)) cs r (Some (tw_objects ?ty), u) =
      (r, Some ((tw_objects ?ty)\<lparr>ob_type := (ob_type (tw_objects ?ty)) |` (- ci_raw_pointer ` set cs)\<rparr>), u)"
    using Cons.prems(3) by (rule Cons.IH)
  have step: "deallocate_loop (rt_calls env (tw_loader ty)) (c # cs) r (Some (tw_objects ty), u) =
      deallocate_loop (rt_calls env (tw_loader ?ty)) cs r (Some (tw_objects ?ty), u)"
    using el_deallocate_backed [of exts ty c] Cons.prems by simp
  have "(tw_objects ?ty)\<lparr>ob_type := (ob_type (tw_objects ?ty)) |` (- ci_raw_pointer ` set cs)\<rparr> =
      (tw_objects ty)\<lparr>ob_type := (ob_type (tw_objects ty)) |` (- ci_raw_pointer ` set (c # cs))\<rparr>"
    by (rule Objects.equality) (auto simp: restrict_map_def)
  then show ?case unfolding step ih by (rule arg_cong)
qed (simp add: restrict_map_def)

section \<open>Every operation keeps the invariant\<close>

lemma rt_wf_frame [simp]:
  "rt_wf exts (rt\<lparr>rt_parameters := ps\<rparr>) = rt_wf exts rt"
  "rt_wf exts (rt\<lparr>rt_program := es\<rparr>) = rt_wf exts rt"
  "rt_wf exts (rt\<lparr>rt_registrar := b\<rparr>) = rt_wf exts rt"
  "rt_wf exts (rt\<lparr>rt_user := u\<rparr>) = rt_wf exts rt"
  by (simp_all add: rt_wf_def)

lemma rt_wf_warden:
  "w_entities m = w_entities (rt_warden rt) \<Longrightarrow> w_components m = w_components (rt_warden rt) \<Longrightarrow>
   rt_wf exts (rt\<lparr>rt_warden := m\<rparr>) = rt_wf exts rt"
  by (simp add: rt_wf_def comps_of_def [abs_def])

lemma set_heap_same [simp]: "set_heap (tw_objects (rt_types rt)) rt = rt"
  by (simp add: set_heap_def)

lemma rt_wf_next: "rt_wf exts rt \<Longrightarrow> rt_wf exts (rt\<lparr>rt_next_id := rt_next_id rt + 1\<rparr>)"
  by (rule rt_wfI) (auto dest: rt_wfD intro: comps_wf_next [of _ _ "rt_next_id rt"] items_wf_next [of "rt_next_id rt"])

lemma ew_inc_eq: "ew_incEntityRefCount eid m = (GXF_SUCCESS, m\<lparr>w_ref_count := (w_ref_count m)(eid \<mapsto>
    (case w_ref_count m eid of None \<Rightarrow> 1 | Some n \<Rightarrow> n + 1))\<rparr>)"
  by (simp add: ew_incEntityRefCount_def emplace_def split: option.splits)

text \<open>The states that a creation ends in.\<close>

definition created :: "'u Runtime \<Rightarrow> string \<Rightarrow> 'u Runtime" where
  "created rt n = rt\<lparr>rt_next_id := rt_next_id rt + 1, rt_warden := snd (ew_create (rt_next_id rt) n (rt_warden rt))\<rparr>"

lemma create_entity_cases:
  obtains (known) n where "name = Some n" "create_entity name rt = ((GXF_ARGUMENT_INVALID, None), rt)"
  | (reserved) n where "name = Some n" "double_underscore n" "create_entity name rt =
      ((GXF_ARGUMENT_INVALID, Some (rt_next_id rt)), rt\<lparr>rt_next_id := rt_next_id rt + 1\<rparr>)"
  | (made) n where "n = (if name = None \<or> name = Some [] then ''__entity_'' @ to_string (rt_next_id rt) else the name)"
      "name \<noteq> None \<Longrightarrow> fst (GxfEntityFind rt (the name)) \<noteq> GXF_SUCCESS"
      "\<And>m. name = Some m \<Longrightarrow> \<not> double_underscore m"
      "create_entity name rt = ((GXF_SUCCESS, Some (rt_next_id rt)), created rt n)"
proof -
  let ?n = "if name = None \<or> name = Some [] then ''__entity_'' @ to_string (rt_next_id rt) else the name"
  consider (k) n where "name = Some n" "fst (GxfEntityFind rt n) = GXF_SUCCESS"
    | (u) n where "name = Some n" "fst (GxfEntityFind rt n) \<noteq> GXF_SUCCESS" "double_underscore n"
    | (o) "name = None" | (p) n where "name = Some n" "fst (GxfEntityFind rt n) \<noteq> GXF_SUCCESS" "\<not> double_underscore n"
    by (cases name) auto
  then show ?thesis
  proof cases
    case k
    then show ?thesis using known by (simp add: create_entity_def)
  next
    case u
    then show ?thesis using reserved by (simp add: create_entity_def getNextId_def)
  next
    case o
    then show ?thesis
      using made [of ?n] by (simp add: create_entity_def getNextId_def Let_def created_def ew_create_def)
  next
    case (p n)
    then show ?thesis using made [of ?n]
      by (simp add: create_entity_def getNextId_def Let_def created_def ew_create_def)
  qed
qed

text \<open>A new entity has a fresh identifier and no components.\<close>

lemma rt_wf_create:
  assumes "rt_wf exts rt"
  shows "rt_wf exts (snd (create_entity name rt))"
proof -
  let ?eid = "rt_next_id rt"
  let ?rt1 = "rt\<lparr>rt_next_id := ?eid + 1\<rparr>"
  have wf1: "rt_wf exts ?rt1" by (rule rt_wf_next [OF assms])
  have fresh: "w_entities (rt_warden rt) ?eid = None"
    using rt_wfD(5) [OF assms] unfolding items_wf_def by (metis less_irrefl option.exhaust)
  have new: "rt_wf exts (?rt1\<lparr>rt_warden := snd (ew_create ?eid n (rt_warden rt))\<rparr>)" for n
  proof (rule rt_wfI)
    show "items_wf (rt_next_id (?rt1\<lparr>rt_warden := snd (ew_create ?eid n (rt_warden rt))\<rparr>))
        (w_entities (rt_warden (?rt1\<lparr>rt_warden := snd (ew_create ?eid n (rt_warden rt))\<rparr>)))"
      using rt_wfD(5) [OF wf1] fresh rt_wfD(3) [OF assms]
      by (auto simp: items_wf_def ew_create_def emplace_def)
    have c: "comps_of (snd (ew_create ?eid n (rt_warden rt))) = comps_of (rt_warden rt)"
      using fresh by (auto simp: comps_of_def ew_create_def emplace_def)
    have w: "w_components (snd (ew_create ?eid n (rt_warden rt))) = w_components (rt_warden rt)"
      by (simp add: ew_create_def)
    show "comps_wf exts (rt_types (?rt1\<lparr>rt_warden := snd (ew_create ?eid n (rt_warden rt))\<rparr>))
        (rt_next_id (?rt1\<lparr>rt_warden := snd (ew_create ?eid n (rt_warden rt))\<rparr>))
        (comps_of (rt_warden (?rt1\<lparr>rt_warden := snd (ew_create ?eid n (rt_warden rt))\<rparr>)))
        (w_components (rt_warden (?rt1\<lparr>rt_warden := snd (ew_create ?eid n (rt_warden rt))\<rparr>)))"
      using rt_wfD(6) [OF wf1] by (simp add: c w)
  qed (use rt_wfD [OF wf1] in simp_all)
  show ?thesis
  proof (cases rule: create_entity_cases [of name rt])
    case (made n)
    then show ?thesis using new [of n] by (simp add: created_def)
  qed (use assms wf1 in simp_all)
qed

text \<open>Initialisation and deinitialisation change the stage of one entity, and the components' state.\<close>

definition restaged :: "EntityWarden \<Rightarrow> EntityWarden \<Rightarrow> bool" where
  "restaged m m' \<longleftrightarrow> m' = m \<or> (\<exists>eid i s. w_entities m eid = Some i \<and> s \<in> {kUninitialized, kInitialized} \<and>
     m' = m\<lparr>w_entities := (w_entities m)(eid \<mapsto> i\<lparr>wi_stage := s\<rparr>)\<rparr>)"

lemma rt_wf_restaged:
  assumes "rt_wf exts rt" "restaged (rt_warden rt) m"
  shows "rt_wf exts (rt\<lparr>rt_warden := m, rt_user := u\<rparr>)"
proof (cases "m = rt_warden rt")
  case False
  then obtain eid i s where e: "w_entities (rt_warden rt) eid = Some i" "s \<in> {kUninitialized, kInitialized}"
      "m = (rt_warden rt)\<lparr>w_entities := (w_entities (rt_warden rt))(eid \<mapsto> i\<lparr>wi_stage := s\<rparr>)\<rparr>"
    using assms(2) unfolding restaged_def by blast
  have "items_wf (rt_next_id rt) (w_entities m)"
    using rt_wfD(5) [OF assms(1)] e by (auto simp: items_wf_def)
  moreover have "comps_of m = comps_of (rt_warden rt)" using e by (auto simp: comps_of_def)
  moreover have "w_components m = w_components (rt_warden rt)" using e by simp
  ultimately show ?thesis using rt_wfD [OF assms(1)] by (intro rt_wfI) simp_all
qed (use assms in simp)

lemma undo_loop_heap: "fst (undo_loop (rt_calls env el) cs (ob, u)) = ob"
  by (induction cs arbitrary: u) (auto split: prod.splits)

lemma init_loop_heap: "fst (snd (init_loop (rt_calls env el) ds cs (ob, u))) = ob"
  by (induction cs arbitrary: ds u) (auto simp: undo_loop_heap split: prod.splits)

lemma deinit_loop_heap: "fst (snd (deinit_loop (rt_calls env el) cs r (ob, u))) = ob"
  by (induction cs arbitrary: r u) (auto split: prod.splits)

lemma ew_initialize_restages:
  "\<exists>r m' u'. ew_initialize (rt_calls env el) available eid (m, ob, u) = (r, m', ob, u') \<and> restaged m m'"
proof (cases "ew_findUninitialized available eid m = GXF_SUCCESS \<and>
    (\<exists>i. w_entities m eid = Some i \<and> wi_stage i = kUninitialized)")
  case True
  then obtain i where i: "w_entities m eid = Some i" "wi_stage i = kUninitialized" by blast
  obtain r ob' u' where l: "init_loop (rt_calls env el) [] (wi_components i) (ob, u) = (r, ob', u')"
    by (metis prod_cases3)
  have "ob' = ob" using init_loop_heap [of env el "[]" "wi_components i" ob u] l by simp
  moreover have "restaged m (m\<lparr>w_entities := (w_entities m)(eid \<mapsto> i\<lparr>wi_stage := s\<rparr>)\<rparr>)"
    if "s \<in> {kUninitialized, kInitialized}" for s using i(1) that unfolding restaged_def by blast
  ultimately show ?thesis using True i l by (auto simp: ew_initialize_def wi_initialize_def)
next
  case False
  then have "ew_initialize (rt_calls env el) available eid (m, ob, u) \<in> (\<lambda>r. (r, m, ob, u)) ` UNIV"
    by (auto simp: ew_initialize_def Let_def split: option.splits)
  then show ?thesis by (auto simp: restaged_def)
qed

lemma ew_deinitialize_restages:
  "\<exists>r m' u'. ew_deinitialize (rt_calls env el) eid (m, ob, u) = (r, m', ob, u') \<and> restaged m m' \<and>
     (\<forall>i. w_entities m' eid = Some i \<longrightarrow> w_entities m eid \<noteq> None \<and>
        (wi_stage (the (w_entities m eid)) \<in> {kUninitialized, kInitialized} \<longrightarrow> wi_stage i = kUninitialized))"
proof (cases "\<exists>i. w_entities m eid = Some i \<and> wi_stage i = kInitialized")
  case True
  then obtain i where i: "w_entities m eid = Some i" "wi_stage i = kInitialized" by blast
  obtain r ob' u' where l: "deinit_loop (rt_calls env el) (rev (wi_components i)) GXF_SUCCESS (ob, u) = (r, ob', u')"
    by (metis prod_cases3)
  have "ob' = ob" using deinit_loop_heap [of env el "rev (wi_components i)" GXF_SUCCESS ob u] l by simp
  moreover have "restaged m (m\<lparr>w_entities := (w_entities m)(eid \<mapsto> i\<lparr>wi_stage := kUninitialized\<rparr>)\<rparr>)"
    using i(1) unfolding restaged_def by blast
  ultimately show ?thesis using i l by (auto simp: ew_deinitialize_def wi_deinitialize_def)
next
  case False
  then have "ew_deinitialize (rt_calls env el) eid (m, ob, u) \<in> (\<lambda>r. (r, m, ob, u)) ` UNIV"
    by (auto simp: ew_deinitialize_def split: option.splits)
  then show ?thesis using False by (auto simp: restaged_def)
qed

text \<open>Adding a component whose identifier and object are not in use.\<close>

lemma comps_of_upd: "comps_of (m\<lparr>w_entities := (w_entities m)(eid \<mapsto> i)\<rparr>) = (comps_of m)(eid := wi_components i)"
  by (auto simp: comps_of_def)

lemma comps_wf_append:
  assumes wf: "comps_wf exts ty n comps lookup"
    and cid: "0 < ci_cid c" "ci_cid c < n" "\<And>e d. d \<in> set (comps e) \<Longrightarrow> ci_cid d \<noteq> ci_cid c"
    and p: "backed exts ty c" "\<And>e d. d \<in> set (comps e) \<Longrightarrow> ci_raw_pointer d \<noteq> ci_raw_pointer c"
    and len: "length (comps eid) < kWardenComponents"
  shows "comps_wf exts ty n (comps(eid := comps eid @ [c])) (lookup(ci_cid c \<mapsto> (eid, ci_tid c)))"
proof -
  let ?comps = "comps(eid := comps eid @ [c])"
  have mem: "d \<in> set (?comps e) \<longleftrightarrow> d \<in> set (comps e) \<or> e = eid \<and> d = c" for d e by auto
  note D = comps_wfD [OF wf]
  show ?thesis unfolding comps_wf_def
  proof (intro conjI allI ballI impI)
    fix e
    show "length (?comps e) \<le> kWardenComponents" using D(1) len by simp
    show "distinct (map ci_cid (?comps e))" using D(2) [of e] by (auto simp: image_iff dest: cid(3))
    show "distinct (map ci_raw_pointer (?comps e))" using D(3) [of e] by (auto simp: image_iff dest: p(2))
  next
    fix e d assume "d \<in> set (?comps e)"
    then consider (old) "d \<in> set (comps e)" | (new) "e = eid" "d = c" unfolding mem by blast
    note cases = this
    from cases show "0 < ci_cid d" "ci_cid d < n" "backed exts ty d"
      using D(4-6) cid(1,2) p(1) by (cases; blast)+
    from cases show "(lookup(ci_cid c \<mapsto> (eid, ci_tid c))) (ci_cid d) \<in> {None, Some (e, ci_tid d)}"
    proof cases
      case old
      then show ?thesis using D(7) [OF old] cid(3) [OF old] by auto
    qed simp
  next
    fix e1 e2 c1 c2 assume "c1 \<in> set (?comps e1)" "c2 \<in> set (?comps e2)" "e1 \<noteq> e2"
    then show "ci_raw_pointer c1 \<noteq> ci_raw_pointer c2" "ci_cid c1 \<noteq> ci_cid c2"
      unfolding mem using D(8,9) cid(3) p(2) by metis+
  next
    fix cid assume "(lookup(ci_cid c \<mapsto> (eid, ci_tid c))) cid \<noteq> None"
    then show "cid < n" using D(10) cid(2) by (auto split: if_splits)
  qed
qed

lemma comps_wf_lookup:
  assumes "comps_wf exts ty n comps lookup" "cid < n" "\<And>e d. d \<in> set (comps e) \<Longrightarrow> ci_cid d \<noteq> cid"
  shows "comps_wf exts ty n comps (lookup(cid \<mapsto> x))"
proof -
  note D = comps_wfD [OF assms(1)]
  have "(lookup(cid \<mapsto> x)) (ci_cid c) \<in> {None, Some (eid, ci_tid c)}" if "c \<in> set (comps eid)" for eid c
    using D(7) [OF that] assms(3) [OF that] by auto
  moreover have "k < n" if "(lookup(cid \<mapsto> x)) k \<noteq> None" for k
    using D(10) [of k] assms(2) that by (auto split: if_splits)
  ultimately show ?thesis using D(1-6,8,9) unfolding comps_wf_def by meson
qed

lemma rt_wf_addComponent:
  assumes wf: "rt_wf exts rt" and cid: "0 < cid" "cid < rt_next_id rt"
    and fresh: "\<And>e d. d \<in> set (comps_of (rt_warden rt) e) \<Longrightarrow> ci_cid d \<noteq> cid \<and> ci_raw_pointer d \<noteq> p"
    and b: "backed exts (rt_types rt) \<lparr>ci_cid = cid, ci_tid = tid, ci_raw_pointer = p, ci_component_pointer = cp\<rparr>"
  shows "rt_wf exts (rt\<lparr>rt_warden := snd (ew_addComponent eid cid tid p cp (rt_warden rt))\<rparr>)"
proof (cases "w_entities (rt_warden rt) eid")
  case None
  then show ?thesis using wf by (simp add: ew_addComponent_def)
next
  case (Some i)
  let ?m = "rt_warden rt" and ?c = "\<lparr>ci_cid = cid, ci_tid = tid, ci_raw_pointer = p, ci_component_pointer = cp\<rparr>"
  let ?m1 = "?m\<lparr>w_components := (w_components ?m)(cid \<mapsto> (eid, tid))\<rparr>"
  have cs: "wi_components i = comps_of ?m eid" using Some by (simp add: comps_of_def)
  note D = rt_wfD [OF wf]
  show ?thesis
  proof (cases "wi_stage i \<noteq> kUninitialized \<or> length (wi_components i) \<ge> kWardenComponents")
    case True
    then have e: "snd (ew_addComponent eid cid tid p cp ?m) = ?m1" using Some by (auto simp: ew_addComponent_def Let_def)
    have "comps_wf exts (rt_types rt) (rt_next_id rt) (comps_of ?m1) (w_components ?m1)"
      using comps_wf_lookup [OF D(6) cid(2), of "(eid, tid)"] fresh by (simp add: comps_of_def [abs_def])
    then show ?thesis unfolding e using D by (intro rt_wfI) simp_all
  next
    case False
    let ?m2 = "?m1\<lparr>w_entities := (w_entities ?m1)(eid \<mapsto> i\<lparr>wi_components := wi_components i @ [?c]\<rparr>)\<rparr>"
    have e: "snd (ew_addComponent eid cid tid p cp ?m) = ?m2" using Some False by (auto simp: ew_addComponent_def Let_def)
    have "length (comps_of ?m eid) < kWardenComponents" using False cs by simp
    then have "comps_wf exts (rt_types rt) (rt_next_id rt) ((comps_of ?m)(eid := comps_of ?m eid @ [?c]))
        ((w_components ?m)(ci_cid ?c \<mapsto> (eid, ci_tid ?c)))"
      by (intro comps_wf_append D(6) b) (use cid fresh in auto)
    moreover have "comps_of ?m2 = (comps_of ?m)(eid := comps_of ?m eid @ [?c])"
      by (auto simp: comps_of_def cs)
    ultimately have "comps_wf exts (rt_types rt) (rt_next_id rt) (comps_of ?m2) (w_components ?m2)" by simp
    moreover have "items_wf (rt_next_id rt) (w_entities ?m2)" using D(5) Some by (auto simp: items_wf_def)
    ultimately show ?thesis unfolding e using D by (intro rt_wfI) simp_all
  qed
qed

text \<open>What an operation on components leaves alone: which entities there are, and their counts.\<close>

definition same_entities :: "'u Runtime \<Rightarrow> 'u Runtime \<Rightarrow> bool" where
  "same_entities rt rt' \<longleftrightarrow> dom (w_entities (rt_warden rt')) = dom (w_entities (rt_warden rt)) \<and>
     w_ref_count (rt_warden rt') = w_ref_count (rt_warden rt)"

lemma same_entities_refl [simp]: "same_entities rt rt"
  by (simp add: same_entities_def)

lemma same_entities_addComponent:
  "same_entities rt (rt'\<lparr>rt_warden := snd (ew_addComponent eid cid tid p cp (rt_warden rt))\<rparr>)"
  by (auto simp: same_entities_def ew_addComponent_def Let_def split: option.splits)

lemma fresh_object:
  assumes wf: "rt_wf exts rt" and d: "d \<in> set (comps_of (rt_warden rt) e)"
  shows "ci_raw_pointer d \<noteq> ob_next (tw_objects (rt_types rt))"
  using comps_wfD(6) [OF rt_wfD(6) [OF wf] d] rt_wf_heap [OF wf] by (auto simp: backed_def heap_wf_def)

lemma rt_wf_alloc:
  assumes wf: "rt_wf exts rt" and ob: "ob = tw_objects (rt_types rt)"
  shows "rt_wf exts (set_heap (ob\<lparr>ob_type := (ob_type ob)(ob_next ob \<mapsto> n), ob_next := ob_next ob + 1\<rparr>) rt)"
proof -
  let ?ob1 = "ob\<lparr>ob_type := (ob_type ob)(ob_next ob \<mapsto> n), ob_next := ob_next ob + 1\<rparr>"
  note D = rt_wfD [OF wf]
  have h: "heap_wf ob" using rt_wf_heap [OF wf] ob by simp
  then have h1: "heap_wf ?ob1" by (auto simp: heap_wf_def)
  have "comps_wf exts ((rt_types rt)\<lparr>tw_objects := ?ob1\<rparr>) (rt_next_id rt) (comps_of (rt_warden rt))
      (w_components (rt_warden rt))"
    by (rule comps_wf_heap [OF D(6)]) (use fresh_object [OF wf] ob in simp)
  moreover have "ob_type ?ob1 0 = None" using h by (simp add: heap_wf_def)
  ultimately show ?thesis
    using D types_wf_heap [OF D(1) h1] by (intro rt_wfI) simp_all
qed

lemma rt_wf_finish_add:
  assumes wf: "rt_wf (ev_exts env) rt"
    and p: "\<And>e d. d \<in> set (comps_of (rt_warden rt) e) \<Longrightarrow> ci_raw_pointer d \<noteq> p"
    and t: "p \<noteq> 0" "ob_type (tw_objects (rt_types rt)) p \<noteq> None"
      "ob_type (tw_objects (rt_types rt)) p = factory_type (ev_exts env) (tw_loader (rt_types rt)) tid"
  shows "\<exists>r rt'. finish_add env eid tid name p rt = Some (r, rt') \<and> rt_wf (ev_exts env) rt' \<and> same_entities rt rt'"
proof -
  note D = rt_wfD [OF wf]
  define rt2 where "rt2 = rt\<lparr>rt_next_id := rt_next_id rt + 1\<rparr>"
  have wf2: "rt_wf (ev_exts env) rt2" and same2: "same_entities rt rt2"
    using rt_wf_next [OF wf] by (simp_all add: rt2_def same_entities_def)
  have start: "getNextId rt = (rt_next_id rt, rt2)" by (simp add: getNextId_def rt2_def)
  show ?thesis
  proof (cases "tr_names (tw_registry (rt_types rt)) tid")
    case None
    then show ?thesis using start wf2 same2 by (simp add: finish_add_def rt2_def tr_name_def)
  next
    case (Some tn)
    define b where "b = ((tid, kComponentTid) \<in> (bases_rel (tw_registry (rt_types rt)))\<^sup>+)"
    have "is_base (tw_registry (rt_types rt)) tid kComponentTid = Some (Inr b)"
      unfolding b_def by (rule is_base_reachable) (use D(1) Some in \<open>auto simp: types_wf_def\<close>)
    then have ib: "tr_name (tw_registry (rt_types rt2)) tid = Inr tn"
        "is_base (tw_registry (rt_types rt2)) tid kComponentTid = Some (Inr b)"
      using Some by (simp_all add: rt2_def tr_name_def)
    obtain rr rt3 where r: "(if b then register_component env tid (rt_next_id rt) rt2 else (GXF_SUCCESS, rt2)) = (rr, rt3)"
      by fastforce
    have r3: "rt_warden rt3 = rt_warden rt2" "rt_types rt3 = rt_types rt2" "rt_next_id rt3 = rt_next_id rt2"
      and wf3: "rt_wf (ev_exts env) rt3"
      using r wf2 by (auto simp: register_component_def Let_def split: if_splits prod.splits)
    have same3: "same_entities rt rt3" using same2 by (simp add: r3 same_entities_def)
    show ?thesis
    proof (cases "rr \<noteq> GXF_SUCCESS \<or> name_too_long name")
      case True
      then show ?thesis using start ib r wf3 same3 by (auto simp: finish_add_def)
    next
      case False
      define rt4 where "rt4 = rt3\<lparr>rt_parameters := snd (setStr (rt_next_id rt) kInternalNameParameterKey
           (case name of Some n \<Rightarrow> n | None \<Rightarrow> '''') (rt_parameters rt3))\<rparr>"
      have w4: "rt_warden rt4 = rt_warden rt" "rt_types rt4 = rt_types rt" "rt_next_id rt4 = rt_next_id rt + 1"
        by (simp_all add: rt4_def r3 rt2_def)
      have wf4: "rt_wf (ev_exts env) rt4" using wf3 by (simp add: rt4_def)
      obtain code m where a: "ew_addComponent eid (rt_next_id rt) tid p (if b then p else 0) (rt_warden rt4) = (code, m)"
        by fastforce
      have "rt_wf (ev_exts env) (rt4\<lparr>rt_warden := snd (ew_addComponent eid (rt_next_id rt) tid p (if b then p else 0) (rt_warden rt4))\<rparr>)"
      proof (rule rt_wf_addComponent [OF wf4])
        show "ci_cid d \<noteq> rt_next_id rt \<and> ci_raw_pointer d \<noteq> p" if "d \<in> set (comps_of (rt_warden rt4) e)" for e d
          using that comps_wfD(5) [OF D(6)] p unfolding w4 by fastforce
        show "backed (ev_exts env) (rt_types rt4) \<lparr>ci_cid = rt_next_id rt, ci_tid = tid, ci_raw_pointer = p,
            ci_component_pointer = (if b then p else 0)\<rparr>"
          using t by (simp add: backed_def w4)
      qed (use D(3) w4 in auto)
      then have "rt_wf (ev_exts env) (rt4\<lparr>rt_warden := m\<rparr>)" using a by simp
      moreover have "same_entities rt (rt4\<lparr>rt_warden := m\<rparr>)"
        using same_entities_addComponent [where rt = rt and rt' = rt4 and eid = eid and cid = "rt_next_id rt" and tid = tid
            and p = p and cp = "if b then p else 0"] a w4(1) by simp
      moreover have "finish_add env eid tid name p rt = Some (if code \<noteq> GXF_SUCCESS then Unexpected code
          else Inr (rt_next_id rt, p), rt4\<lparr>rt_warden := m\<rparr>)"
        using start ib r False a unfolding rt4_def by (cases b) (simp_all add: finish_add_def Let_def)
      ultimately show ?thesis by blast
    qed
  qed
qed

lemma rt_wf_add:
  assumes wf: "rt_wf (ev_exts env) rt"
  shows "\<exists>r rt'. GxfComponentAdd env eid tid name rt = Some (r, rt') \<and> rt_wf (ev_exts env) rt' \<and> same_entities rt rt'"
proof (cases "(\<exists>t. id_from_name (tw_registry (rt_types rt)) kCodeletName = Inr t) \<and> ew_isValid eid (rt_warden rt) = GXF_SUCCESS")
  case False
  then show ?thesis using wf by (auto simp: GxfComponentAdd_def split: sum.splits)
next
  case True
  then obtain t0 where t0: "id_from_name (tw_registry (rt_types rt)) kCodeletName = Inr t0"
      "ew_isValid eid (rt_warden rt) = GXF_SUCCESS" by blast
  from rt_wf_heap [OF wf] show ?thesis
  proof (cases rule: cf_allocate_cases [where exts = "ev_exts env" and el = "tw_loader (rt_types rt)" and tid = tid])
    case (failed e)
    then show ?thesis using t0 wf by (simp add: GxfComponentAdd_def)
  next
    case (made n)
    let ?ob = "tw_objects (rt_types rt)"
    let ?rt1 = "set_heap (?ob\<lparr>ob_type := (ob_type ?ob)(ob_next ?ob \<mapsto> n), ob_next := ob_next ?ob + 1\<rparr>) rt"
    have "\<exists>r rt'. finish_add env eid tid name (ob_next ?ob) ?rt1 = Some (r, rt') \<and> rt_wf (ev_exts env) rt' \<and>
        same_entities ?rt1 rt'"
      by (rule rt_wf_finish_add [OF rt_wf_alloc [OF wf refl]])
        (use fresh_object [OF wf] rt_wf_heap [OF wf] made(2) in \<open>auto simp: heap_wf_def\<close>)
    then show ?thesis using t0 made(1) by (auto simp: GxfComponentAdd_def same_entities_def)
  qed
qed

text \<open>Deleting the objects of components that leave their lists.\<close>

lemma comps_wf_delete:
  assumes wf: "comps_wf exts ty n comps lookup" and sub: "\<And>eid. \<exists>Q. comps' eid = filter Q (comps eid)"
    "\<And>cid. lookup' cid \<in> {None, lookup cid}" and gone: "\<And>e d. d \<in> set (comps' e) \<Longrightarrow> ci_raw_pointer d \<notin> P"
  shows "comps_wf exts (ty\<lparr>tw_objects := (tw_objects ty)\<lparr>ob_type := (ob_type (tw_objects ty)) |` (- P)\<rparr>\<rparr>) n comps' lookup'"
  by (rule comps_wf_heap [OF comps_wf_sub [OF wf sub]]) (simp add: gone)

lemma heap_wf_delete: "heap_wf ob \<Longrightarrow> heap_wf (ob\<lparr>ob_type := (ob_type ob) |` (- P)\<rparr>)"
  by (auto simp: heap_wf_def restrict_map_def)

lemma rt_wf_delete:
  assumes wf: "rt_wf exts rt" and sub: "\<And>eid. \<exists>Q. comps_of m eid = filter Q (comps_of (rt_warden rt) eid)"
    "\<And>cid. w_components m cid \<in> {None, w_components (rt_warden rt) cid}"
    and gone: "\<And>e d. d \<in> set (comps_of m e) \<Longrightarrow> ci_raw_pointer d \<notin> P"
    and items: "items_wf (rt_next_id rt) (w_entities m)"
    and ob: "ob = (tw_objects (rt_types rt))\<lparr>ob_type := (ob_type (tw_objects (rt_types rt))) |` (- P)\<rparr>"
  shows "rt_wf exts (set_heap ob (rt\<lparr>rt_warden := m, rt_user := u\<rparr>))"
proof -
  note D = rt_wfD [OF wf]
  have h: "heap_wf ob" using heap_wf_delete [OF rt_wf_heap [OF wf], of P] by (simp add: ob)
  show ?thesis
    using D types_wf_heap [OF D(1) h] comps_wf_delete [OF D(6) sub gone] items h
    by (intro rt_wfI) (simp_all add: ob heap_wf_def)
qed

lemma remove_loop_backed:
  assumes "\<And>c. c \<in> set cs \<Longrightarrow> backed (ev_exts env) ty c" "distinct (map ci_cid cs)"
  shows "\<exists>r cs' P. remove_component_loop (rt_calls env (tw_loader ty)) cid cs (Some (tw_objects ty), u) =
      (r, cs', Some ((tw_objects ty)\<lparr>ob_type := (ob_type (tw_objects ty)) |` (- P)\<rparr>), u) \<and>
    (cs' = cs \<and> P = {} \<or> (\<exists>c\<in>set cs. ci_cid c = cid \<and> P = {ci_raw_pointer c} \<and> cs' = filter (\<lambda>d. ci_cid d \<noteq> cid) cs))"
  using assms
proof (induction cs)
  case Nil
  then show ?case by (simp add: restrict_map_def)
next
  case (Cons c cs)
  show ?case
  proof (cases "cid = ci_cid c")
    case True
    have b: "backed (ev_exts env) ty c" using Cons.prems(1) by simp
    have rest: "filter (\<lambda>d. ci_cid d \<noteq> cid) cs = cs" using Cons.prems(2) True by (auto simp: filter_id_conv image_iff)
    show ?thesis
    proof (cases "ci_component_pointer c = 0")
      case True
      obtain n where "factory_type (ev_exts env) (tw_loader ty) (ci_tid c) = Some n"
        using b unfolding backed_def by fastforce
      then have "el_deallocate_abi (ev_exts env) (tw_loader ty) (ci_tid c) 0 (tw_objects ty) =
          Some (GXF_ARGUMENT_NULL, tw_objects ty)"
        by (auto simp: factory_type_def el_deallocate_abi_def de_deallocate_abi_def nca_deallocate_def
            split: option.splits sum.splits if_splits)
      then show ?thesis using True \<open>cid = ci_cid c\<close>
        by (intro exI [of _ GXF_ARGUMENT_NULL] exI [of _ "c # cs"] exI [of _ "{}"]) (simp add: restrict_map_def)
    next
      case False
      then have p: "ci_component_pointer c = ci_raw_pointer c" using b by (simp add: backed_def)
      have "(ob_type (tw_objects ty))(ci_raw_pointer c := None) = (ob_type (tw_objects ty)) |` (- {ci_raw_pointer c})"
        by (auto simp: restrict_map_def)
      then have "remove_component_loop (rt_calls env (tw_loader ty)) cid (c # cs) (Some (tw_objects ty), u) =
          (GXF_SUCCESS, cs, Some ((tw_objects ty)\<lparr>ob_type := (ob_type (tw_objects ty)) |` (- {ci_raw_pointer c})\<rparr>), u)"
        using \<open>cid = ci_cid c\<close> el_deallocate_backed [OF b] p by simp
      moreover have "cs = filter (\<lambda>d. ci_cid d \<noteq> cid) (c # cs)" using rest \<open>cid = ci_cid c\<close> by simp
      ultimately show ?thesis using \<open>cid = ci_cid c\<close> by fastforce
    qed
  next
    case False
    obtain r cs' P where ih: "remove_component_loop (rt_calls env (tw_loader ty)) cid cs (Some (tw_objects ty), u) =
        (r, cs', Some ((tw_objects ty)\<lparr>ob_type := (ob_type (tw_objects ty)) |` (- P)\<rparr>), u)"
      "cs' = cs \<and> P = {} \<or> (\<exists>c\<in>set cs. ci_cid c = cid \<and> P = {ci_raw_pointer c} \<and> cs' = filter (\<lambda>d. ci_cid d \<noteq> cid) cs)"
      using Cons.IH Cons.prems by auto
    from False ih(1) have "remove_component_loop (rt_calls env (tw_loader ty)) cid (c # cs) (Some (tw_objects ty), u) =
        (r, c # cs', Some ((tw_objects ty)\<lparr>ob_type := (ob_type (tw_objects ty)) |` (- P)\<rparr>), u)" by simp
    moreover have "c # cs' = c # cs \<and> P = {} \<or> (\<exists>d\<in>set (c # cs). ci_cid d = cid \<and> P = {ci_raw_pointer d} \<and>
        c # cs' = filter (\<lambda>d. ci_cid d \<noteq> cid) (c # cs))" using ih(2) False by auto
    ultimately show ?thesis by blast
  qed
qed

lemma rt_wf_remove:
  assumes wf: "rt_wf (ev_exts env) rt"
  shows "\<exists>r rt'. GxfComponentRemove env cid rt = Some (r, rt') \<and> rt_wf (ev_exts env) rt' \<and> same_entities rt rt'"
proof (cases "(\<exists>t. id_from_name (tw_registry (rt_types rt)) kCodeletName = Inr t) \<and> cid \<noteq> kNullUid \<and> cid \<noteq> kUnspecifiedUid \<and>
    w_components (rt_warden rt) cid \<noteq> None")
  case False
  then show ?thesis using wf
    by (auto simp: GxfComponentRemove_def ew_getComponentEntity_def split: sum.splits option.splits)
next
  case True
  then obtain t0 eid tid where t0: "id_from_name (tw_registry (rt_types rt)) kCodeletName = Inr t0"
      and c: "w_components (rt_warden rt) cid = Some (eid, tid)" by auto
  let ?m = "rt_warden rt" and ?ob = "tw_objects (rt_types rt)"
  let ?m1 = "?m\<lparr>w_components := (w_components ?m)(cid := None)\<rparr>"
  let ?f = "rt_calls env (tw_loader (rt_types rt))"
  note D = rt_wfD [OF wf]
  have nochange: "rt_wf (ev_exts env) (rt\<lparr>rt_warden := ?m1\<rparr>)"
  proof -
    have "comps_of ?m1 = comps_of ?m" by (simp add: comps_of_def [abs_def])
    moreover have "\<exists>Q. comps_of ?m e = filter Q (comps_of ?m e)" for e by (rule exI [of _ "\<lambda>_. True"]) simp
    ultimately have "comps_wf (ev_exts env) (rt_types rt) (rt_next_id rt) (comps_of ?m1) (w_components ?m1)"
      using comps_wf_sub [OF D(6), of "comps_of ?m" "w_components ?m1"] by simp
    then show ?thesis using D by (intro rt_wfI) simp_all
  qed
  have "\<exists>r rt1. warden_call env (\<lambda>f. ew_removeComponent True f eid cid) rt = Some (r, rt1) \<and>
      rt_wf (ev_exts env) rt1 \<and> same_entities rt rt1"
  proof (cases "\<exists>i. w_entities ?m eid = Some i \<and> wi_stage i = kUninitialized")
    case False
    then have "\<exists>r. warden_call env (\<lambda>f. ew_removeComponent True f eid cid) rt = Some (r, rt\<lparr>rt_warden := ?m1\<rparr>)"
      using c by (cases "w_entities ?m eid") (auto simp: warden_call_def ew_removeComponent_def set_heap_def)
    then show ?thesis using nochange by (auto simp: same_entities_def)
  next
    case True
    then obtain i where i: "w_entities ?m eid = Some i" "wi_stage i = kUninitialized" by blast
    have cs: "comps_of ?m eid = wi_components i" using i by (simp add: comps_of_def)
    have b: "backed (ev_exts env) (rt_types rt) c" if "c \<in> set (wi_components i)" for c
      using comps_wfD(6) [OF D(6), of c eid] that cs by simp
    have dist: "distinct (map ci_cid (wi_components i))" using comps_wfD(2) [OF D(6), of eid] cs by simp
    obtain r cs' P where l: "remove_component_loop ?f cid (wi_components i) (Some ?ob, rt_user rt) =
        (r, cs', Some (?ob\<lparr>ob_type := (ob_type ?ob) |` (- P)\<rparr>), rt_user rt)"
      "cs' = wi_components i \<and> P = {} \<or> (\<exists>c\<in>set (wi_components i). ci_cid c = cid \<and> P = {ci_raw_pointer c} \<and>
         cs' = filter (\<lambda>d. ci_cid d \<noteq> cid) (wi_components i))"
      using remove_loop_backed [OF b dist, of cid "rt_user rt"] by blast
    let ?m2 = "?m1\<lparr>w_entities := (w_entities ?m)(eid \<mapsto> i\<lparr>wi_components := cs'\<rparr>)\<rparr>"
    have filt: "\<exists>Q. cs' = filter Q (wi_components i)"
    proof (cases "cs' = wi_components i")
      case True
      then show ?thesis by (intro exI [of _ "\<lambda>_. True"]) simp
    next
      case False
      then show ?thesis using l(2) by blast
    qed
    have wf2: "rt_wf (ev_exts env) (set_heap (?ob\<lparr>ob_type := (ob_type ?ob) |` (- P)\<rparr>) (rt\<lparr>rt_warden := ?m2, rt_user := rt_user rt\<rparr>))"
    proof (rule rt_wf_delete [OF wf])
      show "\<exists>Q. comps_of ?m2 e = filter Q (comps_of ?m e)" for e
        using filt cs by (cases "e = eid") (auto simp: comps_of_def intro: exI [of _ "\<lambda>_. True"])
      show "ci_raw_pointer d \<notin> P" if d: "d \<in> set (comps_of ?m2 e)" for e d
      proof (cases "P = {}")
        case False
        then obtain c0 where c0: "c0 \<in> set (comps_of ?m eid)" "ci_cid c0 = cid" "P = {ci_raw_pointer c0}"
            "cs' = filter (\<lambda>d. ci_cid d \<noteq> cid) (wi_components i)" using l(2) cs by auto
        show ?thesis
        proof (cases "e = eid")
          case True
          then have "d \<in> set (comps_of ?m eid)" "d \<noteq> c0" using d c0 cs by (auto simp: comps_of_def)
          then show ?thesis using comps_wfD(3) [OF D(6), of eid] c0 by (auto simp: distinct_map inj_on_def)
        next
          case False
          then have "d \<in> set (comps_of ?m e)" using d by (simp add: comps_of_def)
          then show ?thesis using comps_wfD(8) [OF D(6) c0(1), of d e] False c0(3) by auto
        qed
      qed simp
      show "items_wf (rt_next_id rt) (w_entities ?m2)" using D(5) i(1) by (auto simp: items_wf_def)
    qed (simp_all)
    have "warden_call env (\<lambda>f. ew_removeComponent True f eid cid) rt = Some (r, set_heap (?ob\<lparr>ob_type := (ob_type ?ob) |` (- P)\<rparr>)
        (rt\<lparr>rt_warden := ?m2, rt_user := rt_user rt\<rparr>))"
      using c i l(1) by (simp add: warden_call_def ew_removeComponent_def)
    moreover have "same_entities rt (set_heap (?ob\<lparr>ob_type := (ob_type ?ob) |` (- P)\<rparr>) (rt\<lparr>rt_warden := ?m2, rt_user := rt_user rt\<rparr>))"
      using i(1) by (auto simp: same_entities_def)
    ultimately show ?thesis using wf2 by blast
  qed
  then obtain r rt1 where w: "warden_call env (\<lambda>f. ew_removeComponent True f eid cid) rt = Some (r, rt1)"
      "rt_wf (ev_exts env) rt1" "same_entities rt rt1" by blast
  have "(rt_objects rt1)(cid := None) = rt_objects rt1" using rt_wfD(4) [OF w(2)] by simp
  then have "rt_wf (ev_exts env) (rt1\<lparr>rt_objects := (rt_objects rt1)(cid := None), rt_parameters := ps\<rparr>)" for ps
    using w(2) by simp
  moreover have "same_entities rt (rt1\<lparr>rt_objects := (rt_objects rt1)(cid := None), rt_parameters := ps\<rparr>)" for ps
    using w(3) by (simp add: same_entities_def)
  ultimately show ?thesis using w True t0 c
    by (auto simp: GxfComponentRemove_def ew_getComponentEntity_def clearEntityParameters_def Let_def)
qed

text \<open>Destruction: the entity is gone with its count, unless a component fails to deinitialize.\<close>

definition destroyed :: "gxf_uid_t \<Rightarrow> 'u Runtime \<Rightarrow> 'u Runtime \<Rightarrow> bool" where
  "destroyed eid rt rt' \<longleftrightarrow> dom (w_entities (rt_warden rt')) = dom (w_entities (rt_warden rt)) - {eid} \<and>
     w_ref_count (rt_warden rt') = (w_ref_count (rt_warden rt))(eid := None)"

lemma same_entities_restaged:
  "restaged (rt_warden rt) m \<Longrightarrow> same_entities rt (rt\<lparr>rt_warden := m, rt_user := u\<rparr>)"
  by (auto simp: restaged_def same_entities_def split: if_splits)

lemma clear_loop_Success: "\<exists>ps'. clear_loop cids ps = (Success, ps')"
  by (induction cids arbitrary: ps) (auto simp: clearEntityParameters_def)

lemma rt_wf_destroy_call:
  assumes wf: "rt_wf (ev_exts env) rt" and i: "w_entities (rt_warden rt) eid = Some i" "wi_stage i = kUninitialized"
  shows "\<exists>rt'. warden_call env (\<lambda>f. ew_destroy True f eid) rt = Some (GXF_SUCCESS, rt') \<and> rt_wf (ev_exts env) rt' \<and>
    w_entities (rt_warden rt') = (w_entities (rt_warden rt))(eid := None) \<and>
    w_ref_count (rt_warden rt') = w_ref_count (rt_warden rt)"
proof -
  let ?m = "rt_warden rt" and ?ob = "tw_objects (rt_types rt)" and ?P = "ci_raw_pointer ` set (wi_components i)"
  define m1 where "m1 = ?m\<lparr>w_entities := (w_entities ?m)(eid := None),
      w_components := (w_components ?m) |` (- ci_cid ` set (wi_components i)),
      w_name_to_eid := (w_name_to_eid ?m)((case w_eid_to_name ?m eid of None \<Rightarrow> '''' | Some n \<Rightarrow> n) := None),
      w_eid_to_name := (w_eid_to_name ?m)(eid := None)\<rparr>"
  let ?ob1 = "?ob\<lparr>ob_type := (ob_type ?ob) |` (- ?P)\<rparr>"
  note D = rt_wfD [OF wf]
  have cs: "comps_of ?m eid = wi_components i" using i by (simp add: comps_of_def)
  have b: "backed (ev_exts env) (rt_types rt) c" if "c \<in> set (wi_components i)" for c
    using comps_wfD(6) [OF D(6), of c eid] that cs by simp
  have dist: "distinct (map ci_raw_pointer (wi_components i))" using comps_wfD(3) [OF D(6), of eid] cs by simp
  have "ew_destroy True (rt_calls env (tw_loader (rt_types rt))) eid (?m, Some ?ob, rt_user rt) =
      (GXF_SUCCESS, m1, Some ?ob1, rt_user rt)"
    using i deallocate_loop_backed [OF b dist refl, of GXF_SUCCESS "rt_user rt"]
    by (simp add: ew_destroy_def wi_destroy_def Let_def m1_def)
  then have call: "warden_call env (\<lambda>f. ew_destroy True f eid) rt =
      Some (GXF_SUCCESS, set_heap ?ob1 (rt\<lparr>rt_warden := m1, rt_user := rt_user rt\<rparr>))"
    by (simp add: warden_call_def)
  have c1: "comps_of m1 = (comps_of ?m)(eid := [])" by (auto simp: comps_of_def m1_def)
  have "rt_wf (ev_exts env) (set_heap ?ob1 (rt\<lparr>rt_warden := m1, rt_user := rt_user rt\<rparr>))"
  proof (rule rt_wf_delete [OF wf])
    show "\<exists>Q. comps_of m1 e = filter Q (comps_of ?m e)" for e
    proof (cases "e = eid")
      case True
      then show ?thesis unfolding c1 by (intro exI [of _ "\<lambda>_. False"]) simp
    next
      case False
      then show ?thesis unfolding c1 by (intro exI [of _ "\<lambda>_. True"]) simp
    qed
    show "w_components m1 cid \<in> {None, w_components ?m cid}" for cid by (simp add: m1_def restrict_map_def)
    show "ci_raw_pointer d \<notin> ?P" if "d \<in> set (comps_of m1 e)" for e d
    proof -
      have "e \<noteq> eid" "d \<in> set (comps_of ?m e)" using that by (auto simp: c1 split: if_splits)
      then show ?thesis using comps_wfD(8) [OF D(6), of d e _ eid] cs by auto
    qed
    show "items_wf (rt_next_id rt) (w_entities m1)" using D(5) by (auto simp: items_wf_def m1_def)
  qed simp
  then show ?thesis using call by (simp add: m1_def)
qed

lemma rt_wf_destroy:
  assumes wf: "rt_wf (ev_exts env) rt"
  shows "\<exists>r rt'. GxfEntityDestroyImpl env eid rt = Some (r, rt') \<and> rt_wf (ev_exts env) rt' \<and>
    (if r = GXF_SUCCESS then destroyed eid rt rt' else same_entities rt rt') \<and>
    ((\<forall>cid u. fst (ev_call env False cid u) = GXF_SUCCESS) \<and> w_entities (rt_warden rt) eid \<noteq> None \<longrightarrow> r = GXF_SUCCESS)"
proof (cases "w_entities (rt_warden rt) eid")
  case None
  then show ?thesis using wf by (simp add: GxfEntityDestroyImpl_def ew_getEntityComponents_def)
next
  case (Some i)
  let ?f = "rt_calls env (tw_loader (rt_types rt))"
  note D = rt_wfD [OF wf]
  have cids: "ew_getEntityComponents eid (rt_warden rt) = Inr (map ci_cid (wi_components i))"
    using Some comps_wfD(1) [OF D(6), of eid] by (simp add: ew_getEntityComponents_def comps_of_def)
  obtain r m1 u1 where d: "ew_deinitialize ?f eid (rt_warden rt, Some (tw_objects (rt_types rt)), rt_user rt) =
      (r, m1, Some (tw_objects (rt_types rt)), u1)" "restaged (rt_warden rt) m1"
    "\<And>i. w_entities m1 eid = Some i \<Longrightarrow>
        wi_stage (the (w_entities (rt_warden rt) eid)) \<in> {kUninitialized, kInitialized} \<longrightarrow> wi_stage i = kUninitialized"
    using ew_deinitialize_restages [of env "tw_loader (rt_types rt)" eid "rt_warden rt" "Some (tw_objects (rt_types rt))" "rt_user rt"]
    by metis
  define rt1 where "rt1 = rt\<lparr>rt_warden := m1, rt_user := u1\<rparr>"
  have call1: "warden_call env (\<lambda>f. ew_deinitialize f eid) rt = Some (r, rt1)"
    using d(1) by (simp add: warden_call_def rt1_def set_heap_def)
  have wf1: "rt_wf (ev_exts env) rt1" unfolding rt1_def by (rule rt_wf_restaged [OF wf d(2)])
  have same1: "same_entities rt rt1" unfolding rt1_def by (rule same_entities_restaged [OF d(2)])
  have succ: "r = GXF_SUCCESS" if ok: "\<forall>cid u. fst (ev_call env False cid u) = GXF_SUCCESS"
  proof -
    have "fst (deinit_loop ?f cs GXF_SUCCESS w) = GXF_SUCCESS" for cs w
    proof (induction cs arbitrary: w)
      case (Cons c cs)
      obtain ob u where w: "w = (ob, u)" by (cases w)
      have "fst (?f (CompDeinitialize (ci_cid c)) w) = GXF_SUCCESS" using ok w by (simp split: prod.splits) (metis fst_conv)
      then show ?case using Cons.IH by (auto simp: AccumulateErrorCode_def split: prod.splits)
    qed simp
    moreover have "wi_stage i \<in> {kUninitialized, kInitialized}" using D(5) Some by (auto simp: items_wf_def)
    ultimately show ?thesis using d(1) Some
      by (auto simp: ew_deinitialize_def wi_deinitialize_def split: if_splits prod.splits) (metis fst_conv)
  qed
  show ?thesis
  proof (cases "r = GXF_SUCCESS")
    case False
    then show ?thesis using cids call1 wf1 same1 succ by (auto simp: GxfEntityDestroyImpl_def)
  next
    case True
    let ?rt2 = "rt1\<lparr>rt_objects := (rt_objects rt1) |` (- set (map ci_cid (wi_components i)))\<rparr>"
    have rt2: "?rt2 = rt1" using rt_wfD(4) [OF wf1] by simp
    have "eid \<in> dom (w_entities (rt_warden rt1))" using same1 Some by (auto simp: same_entities_def)
    then obtain i1 where i1: "w_entities (rt_warden rt1) eid = Some i1" by blast
    have "wi_stage i \<in> {kUninitialized, kInitialized}" using D(5) Some by (auto simp: items_wf_def)
    then have st: "wi_stage i1 = kUninitialized" using d(3) [of i1] i1 Some by (simp add: rt1_def)
    obtain rt3 where c3: "warden_call env (\<lambda>f. ew_destroy True f eid) rt1 = Some (GXF_SUCCESS, rt3)"
        "rt_wf (ev_exts env) rt3" "w_entities (rt_warden rt3) = (w_entities (rt_warden rt1))(eid := None)"
        "w_ref_count (rt_warden rt3) = w_ref_count (rt_warden rt1)"
      using rt_wf_destroy_call [OF wf1 i1 st] by blast
    obtain ps where ps: "clear_loop (map ci_cid (wi_components i)) (rt_parameters rt3) = (Success, ps)"
      using clear_loop_Success by blast
    let ?rt4 = "rt3\<lparr>rt_parameters := snd (clearEntityParameters eid ps),
        rt_warden := ew_removeEntityRefCount eid (rt_warden rt3)\<rparr>"
    have r: "GxfEntityDestroyImpl env eid rt = Some (GXF_SUCCESS, ?rt4)"
      using cids call1 True rt2 c3(1) ps
      by (simp add: GxfEntityDestroyImpl_def Let_def clearEntityParameters_def ToResultCode_def)
    have "rt_wf (ev_exts env) (rt3\<lparr>rt_parameters := snd (clearEntityParameters eid ps)\<rparr>)" using c3(2) by simp
    then have "rt_wf (ev_exts env) ?rt4"
      using rt_wf_warden [of "ew_removeEntityRefCount eid (rt_warden rt3)"
          "rt3\<lparr>rt_parameters := snd (clearEntityParameters eid ps)\<rparr>" "ev_exts env"]
      by (simp add: ew_removeEntityRefCount_def)
    moreover have "destroyed eid rt ?rt4"
      using c3(3,4) same1 by (auto simp: destroyed_def ew_removeEntityRefCount_def same_entities_def)
    ultimately show ?thesis using r by auto
  qed
qed

section \<open>Reference counts are the numbers of handles\<close>

text \<open>The handles of an entity: the variables that hold it and the entries of the program.\<close>

definition refs :: "handles \<Rightarrow> gxf_uid_t list \<Rightarrow> gxf_uid_t \<Rightarrow> nat" where
  "refs h ps eid = card {v. h v = eid} + count_list ps eid"

definition counts_wf :: "handles \<Rightarrow> 'u Runtime \<Rightarrow> bool" where
  "counts_wf h rt \<longleftrightarrow> finite {v. h v \<noteq> kNullUid} \<and> kNullUid \<notin> set (rt_program rt) \<and>
     (\<forall>eid. eid \<noteq> kNullUid \<longrightarrow> w_ref_count (rt_warden rt) eid =
        (if refs h (rt_program rt) eid = 0 then None else Some (int (refs h (rt_program rt) eid)))) \<and>
     (\<forall>eid. eid \<in> dom (w_entities (rt_warden rt)) \<longleftrightarrow> eid \<noteq> kNullUid \<and> refs h (rt_program rt) eid \<noteq> 0)"

lemma counts_wfD:
  assumes "counts_wf h rt"
  shows "finite {v. h v \<noteq> kNullUid}" "kNullUid \<notin> set (rt_program rt)"
    "eid \<noteq> kNullUid \<Longrightarrow> w_ref_count (rt_warden rt) eid =
        (if refs h (rt_program rt) eid = 0 then None else Some (int (refs h (rt_program rt) eid)))"
    "eid \<in> dom (w_entities (rt_warden rt)) \<longleftrightarrow> eid \<noteq> kNullUid \<and> refs h (rt_program rt) eid \<noteq> 0"
  using assms unfolding counts_wf_def by blast+

lemma counts_same:
  assumes "counts_wf h rt" "same_entities rt rt'" "rt_program rt' = rt_program rt"
  shows "counts_wf h rt'"
  using assms unfolding counts_wf_def same_entities_def by metis

lemma finite_handles: "finite {v. h v \<noteq> kNullUid} \<Longrightarrow> eid \<noteq> kNullUid \<Longrightarrow> finite {v. (h :: handles) v = eid}"
  by (rule finite_subset [of _ "{v. h v \<noteq> kNullUid}"]) auto

lemma refs_set:
  assumes "finite {v. h v \<noteq> kNullUid}" "h v = kNullUid" "e \<noteq> kNullUid"
  shows "refs (h(v := eid)) ps e = refs h ps e + (if e = eid then 1 else 0)"
proof (cases "e = eid")
  case True
  have "{w. (h(v := eid)) w = e} = insert v {w. h w = e}" using assms True by auto
  moreover have "v \<notin> {w. h w = e}" using assms by auto
  ultimately show ?thesis using finite_handles [OF assms(1,3)] True by (simp add: refs_def)
next
  case False
  then have "{w. (h(v := eid)) w = e} = {w. h w = e}" using assms by auto
  then show ?thesis using False by (simp add: refs_def)
qed

lemma refs_clear:
  assumes "finite {v. h v \<noteq> kNullUid}" "h v = eid" "eid \<noteq> kNullUid" "e \<noteq> kNullUid"
  shows "refs h ps e = refs (h(v := kNullUid)) ps e + (if e = eid then 1 else 0)"
proof -
  have fin: "finite {w. (h(v := kNullUid)) w \<noteq> kNullUid}"
    by (rule finite_subset [OF _ assms(1)]) auto
  have eq: "(h(v := kNullUid))(v := eid) = h" using assms(2) by auto
  have "(h(v := kNullUid)) v = kNullUid" by simp
  from refs_set [OF fin this assms(4), of eid ps] show ?thesis unfolding eq .
qed

lemma finite_upd: "finite {v. (h :: handles) v \<noteq> kNullUid} \<Longrightarrow> finite {w. (h(v := x)) w \<noteq> kNullUid}"
  by (rule finite_subset [of _ "insert v {v. h v \<noteq> kNullUid}"]) auto

text \<open>Sharing adds a handle.\<close>

lemma counts_inc:
  assumes c: "counts_wf h rt" and v: "h v = kNullUid" and eid: "eid \<in> dom (w_entities (rt_warden rt))"
  shows "counts_wf (h(v := eid)) (snd (GxfEntityRefCountInc eid rt))"
proof -
  note D = counts_wfD [OF c]
  have eid0: "eid \<noteq> kNullUid" "refs h (rt_program rt) eid \<noteq> 0" using D(4) eid by blast+
  note r = refs_set [OF D(1) v]
  show ?thesis unfolding counts_wf_def
  proof (intro conjI allI impI)
    show "finite {w. (h(v := eid)) w \<noteq> kNullUid}" by (rule finite_upd [OF D(1)])
    show "w_ref_count (rt_warden (snd (GxfEntityRefCountInc eid rt))) e =
       (if refs (h(v := eid)) (rt_program (snd (GxfEntityRefCountInc eid rt))) e = 0 then None
        else Some (int (refs (h(v := eid)) (rt_program (snd (GxfEntityRefCountInc eid rt))) e)))" if "e \<noteq> kNullUid" for e
      using D(3) [OF that] r [OF that, of eid "rt_program rt"] eid0 D(3) [OF eid0(1)]
      by (cases "e = eid") (simp_all add: GxfEntityRefCountInc_def ew_inc_eq split: option.splits)
    show "e \<in> dom (w_entities (rt_warden (snd (GxfEntityRefCountInc eid rt)))) \<longleftrightarrow>
       e \<noteq> kNullUid \<and> refs (h(v := eid)) (rt_program (snd (GxfEntityRefCountInc eid rt))) e \<noteq> 0" for e
      using D(4) [of e] r [of e eid "rt_program rt"] eid0
      by (cases "e = eid") (auto simp: GxfEntityRefCountInc_def ew_inc_eq)
  qed (use D(2) in \<open>simp add: GxfEntityRefCountInc_def ew_inc_eq\<close>)
qed

lemma rt_wf_inc: "rt_wf exts rt \<Longrightarrow> rt_wf exts (snd (GxfEntityRefCountInc eid rt))"
  using rt_wf_warden [of "snd (ew_incEntityRefCount eid (rt_warden rt))" rt exts]
  by (simp add: GxfEntityRefCountInc_def ew_inc_eq)

text \<open>The counts after a decrement, given the numbers of handles that are left.\<close>

lemma dec_returns:
  assumes wf: "rt_wf (ev_exts env) rt" and ok: "\<forall>cid u. fst (ev_call env False cid u) = GXF_SUCCESS"
    and fin: "finite {v. h v \<noteq> kNullUid}" and prog: "kNullUid \<notin> set (rt_program rt)" and eid: "eid \<noteq> kNullUid"
    and cnt: "\<And>e. e \<noteq> kNullUid \<Longrightarrow> w_ref_count (rt_warden rt) e = (let n = refs h (rt_program rt) e + (if e = eid then 1 else 0)
        in if n = 0 then None else Some (int n))"
    and ent: "\<And>e. e \<in> dom (w_entities (rt_warden rt)) \<longleftrightarrow> e \<noteq> kNullUid \<and>
        refs h (rt_program rt) e + (if e = eid then 1 else 0) \<noteq> 0"
  shows "\<exists>r rt'. GxfEntityRefCountDec env eid rt = Some (r, rt') \<and> rt_wf (ev_exts env) rt' \<and> counts_wf h rt' \<and>
    rt_program rt' = rt_program rt"
proof -
  let ?n = "refs h (rt_program rt) eid"
  define m where "m = (rt_warden rt)\<lparr>w_ref_count := (w_ref_count (rt_warden rt))(eid \<mapsto> int ?n)\<rparr>"
  let ?rt1 = "rt\<lparr>rt_warden := m\<rparr>"
  have dec: "ew_decEntityRefCount eid (rt_warden rt) = (GXF_SUCCESS, Some (int ?n), m)"
    using cnt [OF eid] by (simp add: ew_decEntityRefCount_def m_def Let_def)
  have wf1: "rt_wf (ev_exts env) ?rt1" using wf rt_wf_warden [of m rt "ev_exts env"] by (simp add: m_def)
  show ?thesis
  proof (cases "?n = 0")
    case False
    then have "GxfEntityRefCountDec env eid rt = Some (GXF_SUCCESS, ?rt1)" using dec by (simp add: GxfEntityRefCountDec_def)
    moreover have "counts_wf h ?rt1" unfolding counts_wf_def
      using fin prog cnt ent False by (auto simp: m_def)
    ultimately show ?thesis using wf1 by simp
  next
    case True
    have ex: "w_entities (rt_warden ?rt1) eid \<noteq> None" using ent [of eid] eid by (auto simp: m_def)
    obtain r rt' where d: "GxfEntityDestroyImpl env eid ?rt1 = Some (r, rt')" "rt_wf (ev_exts env) rt'"
        "destroyed eid ?rt1 rt'"
      using rt_wf_destroy [OF wf1, of eid] ex ok by auto
    have p: "rt_program rt' = rt_program rt"
      using d(1) by (auto simp: GxfEntityDestroyImpl_def warden_call_def Let_def set_heap_def
          split: sum.splits option.splits prod.splits if_splits)
    have "counts_wf h rt'" unfolding counts_wf_def p
    proof (intro conjI allI impI fin prog)
      show "w_ref_count (rt_warden rt') e = (if refs h (rt_program rt) e = 0 then None
          else Some (int (refs h (rt_program rt) e)))" if "e \<noteq> kNullUid" for e
        using d(3) cnt [OF that] True by (auto simp: destroyed_def m_def)
      show "e \<in> dom (w_entities (rt_warden rt')) \<longleftrightarrow> e \<noteq> kNullUid \<and> refs h (rt_program rt) e \<noteq> 0" for e
        using d(3) ent [of e] True by (auto simp: destroyed_def m_def)
    qed
    then show ?thesis using d dec True p by (simp add: GxfEntityRefCountDec_def)
  qed
qed

text \<open>Releasing a handle.\<close>

lemma release_returns:
  assumes wf: "rt_wf (ev_exts env) rt" and c: "counts_wf h rt"
    and ok: "\<forall>cid u. fst (ev_call env False cid u) = GXF_SUCCESS"
  shows "\<exists>rt'. Entity_release env (h v) rt = Some rt' \<and> rt_wf (ev_exts env) rt' \<and> counts_wf (h(v := kNullUid)) rt' \<and>
    rt_program rt' = rt_program rt"
proof (cases "h v = kNullUid")
  case True
  then have "h(v := kNullUid) = h" by auto
  then show ?thesis using True wf c by (simp add: Entity_release_def)
next
  case False
  note D = counts_wfD [OF c]
  note r = refs_clear [OF D(1) refl False, of _ "rt_program rt"]
  have "\<exists>r rt'. GxfEntityRefCountDec env (h v) rt = Some (r, rt') \<and> rt_wf (ev_exts env) rt' \<and>
      counts_wf (h(v := kNullUid)) rt' \<and> rt_program rt' = rt_program rt"
  proof (rule dec_returns [OF wf ok finite_upd [OF D(1)] D(2) False])
    show "w_ref_count (rt_warden rt) e = (let n = refs (h(v := kNullUid)) (rt_program rt) e + (if e = h v then 1 else 0)
        in if n = 0 then None else Some (int n))" if "e \<noteq> kNullUid" for e
      using D(3) [OF that] r [OF that] by (simp add: Let_def)
    show "e \<in> dom (w_entities (rt_warden rt)) \<longleftrightarrow> e \<noteq> kNullUid \<and>
        refs (h(v := kNullUid)) (rt_program rt) e + (if e = h v then 1 else 0) \<noteq> 0" for e
      using D(4) [of e] r [of e] by (cases "e = kNullUid") simp_all
  qed
  then show ?thesis using False by (auto simp: Entity_release_def)
qed

section \<open>Runs\<close>

text \<open>The warden parts of GxfEntityActivate and GxfEntityDeactivate.\<close>

definition rt_initialize :: "'u Env \<Rightarrow> gxf_uid_t \<Rightarrow> 'u Runtime \<Rightarrow> (gxf_result_t \<times> 'u Runtime) option" where
  "rt_initialize env eid rt = warden_call env (\<lambda>f. ew_initialize f (isAvailable_uid (rt_parameters rt)) eid) rt"

definition rt_deinitialize :: "'u Env \<Rightarrow> gxf_uid_t \<Rightarrow> 'u Runtime \<Rightarrow> (gxf_result_t \<times> 'u Runtime) option" where
  "rt_deinitialize env eid rt = warden_call env (\<lambda>f. ew_deinitialize f eid) rt"

datatype rt_op =
    RtNew nat | RtProgram "string option" | RtCopy nat nat | RtMove nat nat | RtDrop nat
  | RtAdd nat gxf_tid_t "string option" | RtRemove gxf_uid_t | RtInitialize nat | RtDeinitialize nat
  | RtSetStr gxf_uid_t string string

fun rt_step :: "'u Env \<Rightarrow> rt_op \<Rightarrow> handles \<times> 'u Runtime \<Rightarrow> (handles \<times> 'u Runtime) option" where
  "rt_step env (RtNew v) (h, rt) = (case Entity_New env None rt of
     None \<Rightarrow> None
   | Some (Inl e, rt1) \<Rightarrow> Some (h, rt1)
   | Some (Inr eid, rt1) \<Rightarrow> map_option (\<lambda>rt2. (h(v := eid), rt2)) (Entity_release env (h v) rt1))"
| "rt_step env (RtProgram name) (h, rt) = map_option (\<lambda>(_, rt1). (h, rt1)) (GxfCreateEntity env name True rt)"
| "rt_step env (RtCopy v w) (h, rt) = Entity_copy env v w (h, rt)"
| "rt_step env (RtMove v w) (h, rt) = Entity_move env v w (h, rt)"
| "rt_step env (RtDrop v) (h, rt) = Entity_drop env v (h, rt)"
| "rt_step env (RtAdd v tid name) (h, rt) = map_option (\<lambda>(_, rt1). (h, rt1)) (Entity_add env (h v) tid name rt)"
| "rt_step env (RtRemove cid) (h, rt) = map_option (\<lambda>(_, rt1). (h, rt1)) (GxfComponentRemove env cid rt)"
| "rt_step env (RtInitialize v) (h, rt) = map_option (\<lambda>(_, rt1). (h, rt1)) (rt_initialize env (h v) rt)"
| "rt_step env (RtDeinitialize v) (h, rt) = map_option (\<lambda>(_, rt1). (h, rt1)) (rt_deinitialize env (h v) rt)"
| "rt_step env (RtSetStr uid key value) (h, rt) = Some (h, rt\<lparr>rt_parameters := snd (setStr uid key value (rt_parameters rt))\<rparr>)"

text \<open>The runtime starts with the default group and with the types that extensions have registered.\<close>

definition Runtime_start :: "TypeWorld \<Rightarrow> (nat \<Rightarrow> cpp_type) \<Rightarrow> 'u \<Rightarrow> 'u Runtime" where
  "Runtime_start ty frontends u = \<lparr>rt_types = ty, rt_warden = snd (ew_createDefaultEntityGroup 1 ew_empty),
     rt_parameters = ParameterStorage_init frontends, rt_objects = Map.empty, rt_next_id = 2, rt_program = [],
     rt_registrar = True, rt_user = u\<rparr>"

inductive rt_run :: "'u Env \<Rightarrow> interfaces \<Rightarrow> handles \<times> 'u Runtime \<Rightarrow> bool" for env iface where
  start: "rt_reachable (ev_exts env) iface ty \<Longrightarrow> rt_run env iface (\<lambda>_. kNullUid, Runtime_start ty frontends u)"
| step: "rt_run env iface s \<Longrightarrow> rt_step env operation s = Some s' \<Longrightarrow> rt_run env iface s'"

lemma registerIn_heap:
  assumes wf: "types_wf exts w" and ex: "exts_wf exts"
    and r: "GxfRegisterComponentInExtension exts iface c x w = Some (r, w1)"
  shows "ob_type (tw_objects w1) = ob_type (tw_objects w)"
proof -
  obtain r0 el1 where reg: "registerRuntimeComponent exts c x (tw_loader w) = (r0, el1)" by fastforce
  note w1 = types_wf_registerRuntime [OF wf reg]
  show ?thesis
  proof (cases "ok r0 \<and> ok (el_getComponentInfo exts el1 c False)")
    case True
    then obtain info where info: "el_getComponentInfo exts el1 c False = Inr info" by (auto simp: ok_Inr_iff)
    obtain y code where y: "getComponentInfo_abi (exts y) c False = (code, Some info)"
      using info by (auto simp: el_getComponentInfo_def split: option.splits prod.splits)
    have "base_ok (mi_type_name info) (mi_base_name info)"
      using mi_base_name_ok [OF y] ex by (auto simp: exts_wf_def)
    from GxfRegisterComponent_returns [OF w1 this, of iface c]
    obtain rw where "GxfRegisterComponent exts iface c (mi_type_name info) (mi_base_name info)
        (w\<lparr>tw_loader := el1\<rparr>) = Some rw" "grows (w\<lparr>tw_loader := el1\<rparr>) (snd rw)"
      unfolding registration_def by blast
    then show ?thesis
      using r reg True info by (auto simp: GxfRegisterComponentInExtension_def grows_def split: sum.splits)
  qed (use r reg in \<open>auto simp: GxfRegisterComponentInExtension_def split: sum.splits\<close>)
qed

lemma rt_reachable_heap:
  assumes "rt_reachable exts iface w" "exts_wf exts"
  shows "ob_type (tw_objects w) = Map.empty"
  using assms(1)
proof (induction rule: rt_reachable.induct)
  case (created r w)
  define reg where "reg = snd (tr_add kComponentTid ''nvidia::gxf::Component'' TypeRegistry_init)"
  have "tr_add kComponentTid ''nvidia::gxf::Component'' TypeRegistry_init = (Success, reg)"
    by (simp add: reg_def tr_add_def TypeRegistry_init_def)
  then show ?case using created by (auto simp: runtime_create_def GxfRegisterComponent_def Let_def)
next
  case (loaded w x handle res w1)
  then show ?case
    using el_load_returns [OF types_wf_reachable [OF loaded(1) assms(2)] assms(2), of iface x handle] by (auto simp: grows_def)
next
  case (registered w name base tid r w1)
  then show ?case
    using GxfRegisterComponent_returns [OF types_wf_reachable [OF registered(1) assms(2)] registered(2), of iface tid]
    by (auto simp: registration_def grows_def)
next
  case (registered_in w component_tid extension_tid r w1)
  then show ?case
    using registerIn_heap [OF types_wf_reachable [OF registered_in(1) assms(2)] assms(2)] by simp
qed

lemma Runtime_start_wf:
  assumes "rt_reachable exts iface ty" "exts_wf exts"
  shows "rt_wf exts (Runtime_start ty frontends u)" "counts_wf (\<lambda>_. kNullUid) (Runtime_start ty frontends u)"
proof -
  have w: "types_wf exts ty" by (rule types_wf_reachable [OF assms])
  have e: "w_entities (snd (ew_createDefaultEntityGroup 1 ew_empty)) = Map.empty"
      "w_components (snd (ew_createDefaultEntityGroup 1 ew_empty)) = Map.empty"
      "w_ref_count (snd (ew_createDefaultEntityGroup 1 ew_empty)) = Map.empty"
    by (simp_all add: ew_createDefaultEntityGroup_def ew_createEntityGroup_def ew_empty_def)
  show "rt_wf exts (Runtime_start ty frontends u)"
    using w rt_reachable_heap [OF assms] e
    by (simp add: rt_wf_def Runtime_start_def items_wf_def comps_wf_def comps_of_def)
  show "counts_wf (\<lambda>_. kNullUid) (Runtime_start ty frontends u)"
    using e by (auto simp: counts_wf_def Runtime_start_def refs_def)
qed

lemma rt_wf_program [simp]: "rt_wf exts (rt\<lparr>rt_program := es\<rparr>) = rt_wf exts rt"
  by (simp add: rt_wf_def)

lemma dec_wf:
  assumes wf: "rt_wf (ev_exts env) rt"
  shows "\<exists>r rt'. GxfEntityRefCountDec env eid rt = Some (r, rt') \<and> rt_wf (ev_exts env) rt'"
proof -
  obtain code v m where d: "ew_decEntityRefCount eid (rt_warden rt) = (code, v, m)" by (metis prod_cases3)
  have "w_entities m = w_entities (rt_warden rt) \<and> w_components m = w_components (rt_warden rt)"
    using d by (auto simp: ew_decEntityRefCount_def Let_def split: option.splits if_splits)
  then have "rt_wf (ev_exts env) (rt\<lparr>rt_warden := m\<rparr>)" using wf rt_wf_warden [of m rt "ev_exts env"] by simp
  then obtain r rt' where "GxfEntityDestroyImpl env eid (rt\<lparr>rt_warden := m\<rparr>) = Some (r, rt')" "rt_wf (ev_exts env) rt'"
    using rt_wf_destroy by blast
  then show ?thesis using d \<open>rt_wf (ev_exts env) (rt\<lparr>rt_warden := m\<rparr>)\<close> by (simp add: GxfEntityRefCountDec_def Let_def)
qed

lemma release_wf: "rt_wf (ev_exts env) rt \<Longrightarrow> \<exists>rt'. Entity_release env eid rt = Some rt' \<and> rt_wf (ev_exts env) rt'"
  using dec_wf [of env rt eid] by (auto simp: Entity_release_def)

lemma program_wf:
  assumes "rt_wf (ev_exts env) rt"
  shows "\<exists>r rt'. program_addEntity env eid rt = Some (r, rt') \<and> rt_wf (ev_exts env) rt'"
proof -
  define rt1 where "rt1 = snd (GxfEntityRefCountInc eid rt)"
  have inc: "GxfEntityRefCountInc eid rt = (GXF_SUCCESS, rt1)" by (simp add: rt1_def GxfEntityRefCountInc_def ew_inc_eq)
  have wf1: "rt_wf (ev_exts env) rt1" unfolding rt1_def by (rule rt_wf_inc [OF assms])
  then show ?thesis using dec_wf [OF wf1, of eid] inc by (auto simp: program_addEntity_def)
qed

lemma create_wf:
  assumes "rt_wf (ev_exts env) rt"
  shows "\<exists>r rt'. GxfCreateEntity env name pb rt = Some (r, rt') \<and> rt_wf (ev_exts env) rt'"
proof -
  note w = rt_wf_create [OF assms, of name]
  show ?thesis
  proof (cases rule: create_entity_cases [of name rt])
    case (made n)
    then have "rt_wf (ev_exts env) (created rt n)" using w by simp
    then show ?thesis using program_wf [of env "created rt n" "rt_next_id rt"] made
      by (auto simp: GxfCreateEntity_def)
  qed (use w assms in \<open>auto simp: GxfCreateEntity_def\<close>)
qed

lemma New_eq: "Entity_New env None rt =
    Some (Inr (rt_next_id rt), snd (GxfEntityRefCountInc (rt_next_id rt) (created rt (''__entity_'' @ to_string (rt_next_id rt)))))"
proof (cases rule: create_entity_cases [of None rt])
  case (made n)
  then show ?thesis by (simp add: Entity_New_def GxfCreateEntity_def Entity_Shared_def GxfEntityRefCountInc_def ew_inc_eq)
qed simp_all

lemma created_wf: "rt_wf exts rt \<Longrightarrow> rt_wf exts (created rt (''__entity_'' @ to_string (rt_next_id rt)))"
  using rt_wf_create [of exts rt None]
  by (cases rule: create_entity_cases [of None rt]) auto

lemma initialize_wf:
  assumes "rt_wf (ev_exts env) rt"
  shows "\<exists>r rt'. rt_initialize env eid rt = Some (r, rt') \<and> rt_wf (ev_exts env) rt' \<and> same_entities rt rt' \<and>
      rt_program rt' = rt_program rt"
    "\<exists>r rt'. rt_deinitialize env eid rt = Some (r, rt') \<and> rt_wf (ev_exts env) rt' \<and> same_entities rt rt' \<and>
      rt_program rt' = rt_program rt"
proof -
  obtain r m u where i: "ew_initialize (rt_calls env (tw_loader (rt_types rt))) (isAvailable_uid (rt_parameters rt)) eid
      (rt_warden rt, Some (tw_objects (rt_types rt)), rt_user rt) = (r, m, Some (tw_objects (rt_types rt)), u)"
      "restaged (rt_warden rt) m"
    using ew_initialize_restages by metis
  have "rt_initialize env eid rt = Some (r, rt\<lparr>rt_warden := m, rt_user := u\<rparr>)"
    using i(1) by (simp add: rt_initialize_def warden_call_def set_heap_def)
  then show "\<exists>r rt'. rt_initialize env eid rt = Some (r, rt') \<and> rt_wf (ev_exts env) rt' \<and> same_entities rt rt' \<and>
      rt_program rt' = rt_program rt"
    using rt_wf_restaged [OF assms i(2)] same_entities_restaged [OF i(2)] by auto
  obtain r m u where d: "ew_deinitialize (rt_calls env (tw_loader (rt_types rt))) eid
      (rt_warden rt, Some (tw_objects (rt_types rt)), rt_user rt) = (r, m, Some (tw_objects (rt_types rt)), u)"
      "restaged (rt_warden rt) m"
    using ew_deinitialize_restages by metis
  have "rt_deinitialize env eid rt = Some (r, rt\<lparr>rt_warden := m, rt_user := u\<rparr>)"
    using d(1) by (simp add: rt_deinitialize_def warden_call_def set_heap_def)
  then show "\<exists>r rt'. rt_deinitialize env eid rt = Some (r, rt') \<and> rt_wf (ev_exts env) rt' \<and> same_entities rt rt' \<and>
      rt_program rt' = rt_program rt"
    using rt_wf_restaged [OF assms d(2)] same_entities_restaged [OF d(2)] by auto
qed

lemma add_wf:
  assumes "rt_wf (ev_exts env) rt"
  shows "\<exists>r rt'. Entity_add env eid tid name rt = Some (r, rt') \<and> rt_wf (ev_exts env) rt' \<and> same_entities rt rt'"
  using rt_wf_add [OF assms] assms by (auto simp: Entity_add_def GxfComponentAddWithItem_def split: sum.splits)

lemma step_wf:
  assumes wf: "rt_wf (ev_exts env) rt"
  shows "\<exists>h' rt'. rt_step env operation (h, rt) = Some (h', rt') \<and> rt_wf (ev_exts env) rt'"
proof (cases operation)
  case (RtNew v)
  have "rt_wf (ev_exts env) (snd (GxfEntityRefCountInc (rt_next_id rt) (created rt (''__entity_'' @ to_string (rt_next_id rt)))))"
    by (rule rt_wf_inc [OF created_wf [OF wf]])
  then show ?thesis using release_wf RtNew by (fastforce simp: New_eq)
next
  case (RtProgram name)
  then show ?thesis using create_wf [OF wf, of name True] by auto
next
  case (RtCopy v w)
  obtain rt1 where "Entity_release env (h v) rt = Some rt1" "rt_wf (ev_exts env) rt1" using release_wf [OF wf] by blast
  then show ?thesis using wf RtCopy rt_wf_inc [of "ev_exts env" rt1 "h w"] by (auto simp: Entity_copy_def)
next
  case (RtMove v w)
  then show ?thesis using wf release_wf [OF wf, of "h v"] by (auto simp: Entity_move_def)
next
  case (RtDrop v)
  then show ?thesis using release_wf [OF wf, of "h v"] by (auto simp: Entity_drop_def)
next
  case (RtAdd v tid name)
  then show ?thesis using add_wf [OF wf, of "h v" tid name] by auto
next
  case (RtRemove cid)
  then show ?thesis using rt_wf_remove [OF wf, of cid] by auto
next
  case (RtInitialize v)
  then show ?thesis using initialize_wf(1) [OF wf, of "h v"] by auto
next
  case (RtDeinitialize v)
  then show ?thesis using initialize_wf(2) [OF wf, of "h v"] by auto
qed (use wf in simp)

lemma rt_run_wf:
  assumes "rt_run env iface s" "exts_wf (ev_exts env)"
  shows "rt_wf (ev_exts env) (snd s)"
  using assms(1)
proof (induction rule: rt_run.induct)
  case (start ty frontends u)
  then show ?case using Runtime_start_wf(1) [OF _ assms(2)] by simp
next
  case (step s operation s')
  then show ?case using step_wf [of env "snd s" operation "fst s"] by auto
qed

text \<open>A new entity with its first handle, wherever that is kept.\<close>

lemma after_new:
  assumes wf: "rt_wf exts rt" and c: "counts_wf h rt"
    and rt1: "rt1 = snd (GxfEntityRefCountInc (rt_next_id rt) (created rt n))"
  shows "e \<noteq> kNullUid \<Longrightarrow> w_ref_count (rt_warden rt1) e = (let k = refs h (rt_program rt) e + (if e = rt_next_id rt then 1 else 0)
      in if k = 0 then None else Some (int k))"
    "e \<in> dom (w_entities (rt_warden rt1)) \<longleftrightarrow> e \<noteq> kNullUid \<and> refs h (rt_program rt) e + (if e = rt_next_id rt then 1 else 0) \<noteq> 0"
    "rt_program rt1 = rt_program rt" "rt_next_id rt \<noteq> kNullUid"
proof -
  note D = counts_wfD [OF c]
  have fresh: "rt_next_id rt \<notin> dom (w_entities (rt_warden rt))"
    using rt_wfD(5) [OF wf] unfolding items_wf_def by fastforce
  show n0: "rt_next_id rt \<noteq> kNullUid" using rt_wfD(3) [OF wf] by simp
  have r0: "refs h (rt_program rt) (rt_next_id rt) = 0" using D(4) [of "rt_next_id rt"] fresh n0 by blast
  have w: "w_ref_count (rt_warden (created rt n)) = w_ref_count (rt_warden rt)"
      "dom (w_entities (rt_warden (created rt n))) = insert (rt_next_id rt) (dom (w_entities (rt_warden rt)))"
    by (auto simp: created_def ew_create_def emplace_def split: if_splits)
  show "rt_program rt1 = rt_program rt" by (simp add: rt1 GxfEntityRefCountInc_def ew_inc_eq created_def)
  show "w_ref_count (rt_warden rt1) e = (let k = refs h (rt_program rt) e + (if e = rt_next_id rt then 1 else 0)
      in if k = 0 then None else Some (int k))" if "e \<noteq> kNullUid"
    using D(3) [OF that] D(3) [OF n0] r0 w(1)
    by (cases "e = rt_next_id rt") (simp_all add: rt1 GxfEntityRefCountInc_def ew_inc_eq Let_def)
  show "e \<in> dom (w_entities (rt_warden rt1)) \<longleftrightarrow> e \<noteq> kNullUid \<and> refs h (rt_program rt) e + (if e = rt_next_id rt then 1 else 0) \<noteq> 0"
  proof -
    have "dom (w_entities (rt_warden rt1)) = insert (rt_next_id rt) (dom (w_entities (rt_warden rt)))"
      unfolding w(2) [symmetric] by (simp add: rt1 GxfEntityRefCountInc_def ew_inc_eq)
    then show ?thesis using D(4) [of e] n0 by auto
  qed
qed

lemma counts_new:
  assumes wf: "rt_wf exts rt" and c: "counts_wf h rt" and t: "h t = kNullUid"
  shows "counts_wf (h(t := rt_next_id rt)) (snd (GxfEntityRefCountInc (rt_next_id rt) (created rt n)))"
proof -
  note D = counts_wfD [OF c]
  define rt1 where "rt1 = snd (GxfEntityRefCountInc (rt_next_id rt) (created rt n))"
  note N = after_new [OF wf c rt1_def]
  note r = refs_set [OF D(1) t]
  show ?thesis unfolding counts_wf_def rt1_def [symmetric] N(3)
  proof (intro conjI allI impI)
    show "w_ref_count (rt_warden rt1) e =
        (if refs (h(t := rt_next_id rt)) (rt_program rt) e = 0 then None
         else Some (int (refs (h(t := rt_next_id rt)) (rt_program rt) e)))" if "e \<noteq> kNullUid" for e
      using N(1) [OF that] r [OF that, of "rt_next_id rt" "rt_program rt"] by (simp add: Let_def)
    show "e \<in> dom (w_entities (rt_warden rt1)) \<longleftrightarrow>
        e \<noteq> kNullUid \<and> refs (h(t := rt_next_id rt)) (rt_program rt) e \<noteq> 0" for e
      using N(2) [of e] r [of e "rt_next_id rt" "rt_program rt"] by (cases "e = kNullUid") simp_all
  qed (use D(2) finite_upd [OF D(1)] in simp_all)
qed

lemma refs_append: "refs h (ps @ [eid]) e = refs h ps e + (if e = eid then 1 else 0)"
  by (simp add: refs_def)

lemma counts_program:
  assumes wf: "rt_wf (ev_exts env) rt" and c: "counts_wf h rt"
    and ok: "\<forall>cid u. fst (ev_call env False cid u) = GXF_SUCCESS"
    and r: "GxfCreateEntity env name True rt = Some (res, rt')"
  shows "counts_wf h rt'"
proof (cases rule: create_entity_cases [of name rt])
  case (known n)
  then show ?thesis using r c by (simp add: GxfCreateEntity_def)
next
  case (reserved n)
  then have "rt' = rt\<lparr>rt_next_id := rt_next_id rt + 1\<rparr>" using r by (simp add: GxfCreateEntity_def)
  then show ?thesis using counts_same [OF c, of rt'] by (simp add: same_entities_def)
next
  case (made n)
  let ?eid = "rt_next_id rt"
  define rt1 where "rt1 = snd (GxfEntityRefCountInc ?eid (created rt n))"
  note D = counts_wfD [OF c]
  note N = after_new [OF wf c rt1_def]
  have wf1: "rt_wf (ev_exts env) rt1"
    using rt_wf_inc rt_wf_create [OF wf, of name] made(4) by (simp add: rt1_def)
  have inc: "GxfEntityRefCountInc ?eid (created rt n) = (GXF_SUCCESS, rt1)"
    by (simp add: rt1_def GxfEntityRefCountInc_def ew_inc_eq)
  have eq: "map_option snd (program_addEntity env ?eid (created rt n)) = Some rt'"
    using r made(4) by (auto simp: GxfCreateEntity_def)
  show ?thesis
  proof (cases "length (rt_program rt1) < kMaxEntities")
    case True
    then have "rt' = rt1\<lparr>rt_program := rt_program rt @ [?eid]\<rparr>"
      using eq inc N(3) by (simp add: program_addEntity_def)
    moreover have "counts_wf h (rt1\<lparr>rt_program := rt_program rt @ [?eid]\<rparr>)" unfolding counts_wf_def
    proof (intro conjI allI impI)
      show "w_ref_count (rt_warden (rt1\<lparr>rt_program := rt_program rt @ [?eid]\<rparr>)) e =
         (if refs h (rt_program (rt1\<lparr>rt_program := rt_program rt @ [?eid]\<rparr>)) e = 0 then None
          else Some (int (refs h (rt_program (rt1\<lparr>rt_program := rt_program rt @ [?eid]\<rparr>)) e)))" if "e \<noteq> kNullUid" for e
        using N(1) [OF that] by (simp add: refs_append Let_def)
      show "e \<in> dom (w_entities (rt_warden (rt1\<lparr>rt_program := rt_program rt @ [?eid]\<rparr>))) \<longleftrightarrow>
          e \<noteq> kNullUid \<and> refs h (rt_program (rt1\<lparr>rt_program := rt_program rt @ [?eid]\<rparr>)) e \<noteq> 0" for e
        using N(2) [of e] by (simp add: refs_append)
    qed (use D(1,2) N(4) in simp_all)
    ultimately show ?thesis by simp
  next
    case False
    obtain r2 rt2 where "GxfEntityRefCountDec env ?eid rt1 = Some (r2, rt2)" "counts_wf h rt2"
      using dec_returns [OF wf1 ok D(1), of ?eid] D(2) N by (auto simp: Let_def)
    then show ?thesis using False eq inc by (simp add: program_addEntity_def)
  qed
qed

lemma add_program: "Entity_add env eid tid name rt = Some (r, rt') \<Longrightarrow> rt_program rt' = rt_program rt"
  by (auto simp: Entity_add_def GxfComponentAddWithItem_def GxfComponentAdd_def finish_add_def register_component_def
      getNextId_def Let_def split: sum.splits prod.splits option.splits if_splits)

lemma remove_program: "GxfComponentRemove env cid rt = Some (r, rt') \<Longrightarrow> rt_program rt' = rt_program rt"
  by (auto simp: GxfComponentRemove_def warden_call_def Let_def
      split: sum.splits prod.splits option.splits if_splits)

text \<open>Moving a handle; the source is emptied.\<close>

lemma counts_move:
  assumes wf: "rt_wf (ev_exts env) rt" and c: "counts_wf h rt" and vw: "v \<noteq> w"
    and ok: "\<forall>cid u. fst (ev_call env False cid u) = GXF_SUCCESS"
    and r: "Entity_release env (h v) rt = Some rt1"
  shows "counts_wf (h(v := h w, w := kNullUid)) rt1"
proof -
  have c1: "counts_wf (h(v := kNullUid)) rt1" using release_returns [OF wf c ok, of v] r by simp
  note D = counts_wfD [OF c1]
  let ?h1 = "h(v := kNullUid)"
  have "refs (h(v := h w, w := kNullUid)) ps e = refs ?h1 ps e" if e: "e \<noteq> kNullUid" for e ps
  proof (cases "h w = kNullUid")
    case True
    then have "h(v := h w, w := kNullUid) = ?h1" using vw by auto
    then show ?thesis by simp
  next
    case False
    have "refs ?h1 ps e = refs (?h1(w := kNullUid)) ps e + (if e = h w then 1 else 0)"
      by (rule refs_clear [OF D(1) _ False e]) (use vw in simp)
    moreover have "refs ((?h1(w := kNullUid))(v := h w)) ps e = refs (?h1(w := kNullUid)) ps e + (if e = h w then 1 else 0)"
      by (rule refs_set [OF finite_upd [OF D(1)] _ e]) simp
    moreover have "(?h1(w := kNullUid))(v := h w) = h(v := h w, w := kNullUid)" using vw by auto
    ultimately show ?thesis by simp
  qed
  moreover have "finite {x. (h(v := h w, w := kNullUid)) x \<noteq> kNullUid}"
    by (rule finite_upd [OF finite_upd [OF counts_wfD(1) [OF c]]])
  ultimately show ?thesis using c1 unfolding counts_wf_def by (metis (no_types, lifting))
qed

lemma map_keep_handles: "map_option (\<lambda>(_, r). (h, r)) x = Some (h', rt') \<Longrightarrow> h' = h \<and> (\<exists>c. x = Some (c, rt'))"
  by (cases x) auto

lemma step_counts:
  assumes wf: "rt_wf (ev_exts env) rt" and c: "counts_wf h rt"
    and ok: "\<forall>cid u. fst (ev_call env False cid u) = GXF_SUCCESS"
    and s: "rt_step env operation (h, rt) = Some (h', rt')"
  shows "counts_wf h' rt'"
proof (cases operation)
  case (RtNew v)
  note D = counts_wfD [OF c]
  let ?eid = "rt_next_id rt"
  define rt1 where "rt1 = snd (GxfEntityRefCountInc ?eid (created rt (''__entity_'' @ to_string ?eid)))"
  have wf1: "rt_wf (ev_exts env) rt1" unfolding rt1_def by (rule rt_wf_inc [OF created_wf [OF wf]])
  have "finite (insert v {x. h x \<noteq> kNullUid})" using D(1) by simp
  then obtain t where "t \<notin> insert v {x. h x \<noteq> kNullUid}" using ex_new_if_finite infinite_UNIV_nat by blast
  then have t: "h t = kNullUid" "v \<noteq> t" by auto
  have c1: "counts_wf (h(t := ?eid)) rt1" unfolding rt1_def by (rule counts_new [OF wf c t(1)])
  obtain rt2 where r: "Entity_release env (h v) rt1 = Some rt2" using release_wf [OF wf1] by blast
  then have "Entity_release env ((h(t := ?eid)) v) rt1 = Some rt2" using t by simp
  from counts_move [OF wf1 c1 t(2) ok this]
  have "counts_wf ((h(t := ?eid))(v := (h(t := ?eid)) t, t := kNullUid)) rt2" .
  moreover have "(h(t := ?eid))(v := (h(t := ?eid)) t, t := kNullUid) = h(v := ?eid)"
    by (rule ext) (use t in auto)
  ultimately have "counts_wf (h(v := ?eid)) rt2" by simp
  moreover have "rt_step env (RtNew v) (h, rt) = Some (h(v := ?eid), rt2)"
    using r unfolding rt1_def by (simp add: New_eq)
  ultimately show ?thesis using s RtNew by simp
next
  case (RtProgram name)
  then show ?thesis using s counts_program [OF wf c ok] by auto
next
  case (RtCopy v w)
  show ?thesis
  proof (cases "h v = h w")
    case True
    then show ?thesis using s RtCopy c by (simp add: Entity_copy_def)
  next
    case False
    obtain rt1 where r: "Entity_release env (h v) rt = Some rt1" "counts_wf (h(v := kNullUid)) rt1"
      using release_returns [OF wf c ok, of v] by blast
    show ?thesis
    proof (cases "h w = kNullUid")
      case True
      then show ?thesis using s RtCopy False r by (auto simp: Entity_copy_def)
    next
      case nz: False
      have "v \<noteq> w" using False by auto
      then have "card {x. (h(v := kNullUid)) x = h w} \<noteq> 0"
        using finite_handles [OF counts_wfD(1) [OF r(2)] nz] by (auto simp: card_eq_0_iff)
      then have "h w \<in> dom (w_entities (rt_warden rt1))" using counts_wfD(4) [OF r(2), of "h w"] nz by (simp add: refs_def)
      from counts_inc [OF r(2) _ this, of v] have "counts_wf (h(v := h w)) (snd (GxfEntityRefCountInc (h w) rt1))" by simp
      then show ?thesis using s RtCopy False r(1) nz by (auto simp: Entity_copy_def)
    qed
  qed
next
  case (RtMove v w)
  show ?thesis
  proof (cases "v = w")
    case True
    then show ?thesis using s RtMove c by (simp add: Entity_move_def)
  next
    case False
    then show ?thesis using s RtMove counts_move [OF wf c False ok] by (auto simp: Entity_move_def)
  qed
next
  case (RtDrop v)
  then show ?thesis using s release_returns [OF wf c ok, of v] by (auto simp: Entity_drop_def)
next
  case (RtAdd v tid name)
  obtain r where r: "Entity_add env (h v) tid name rt = Some (r, rt')" "h' = h"
    using map_keep_handles [OF s [unfolded RtAdd rt_step.simps]] by blast
  then have "same_entities rt rt'" using add_wf [OF wf, of "h v" tid name] by simp
  then show ?thesis using counts_same [OF c _ add_program [OF r(1)]] r(2) by simp
next
  case (RtRemove cid)
  obtain r where r: "GxfComponentRemove env cid rt = Some (r, rt')" "h' = h"
    using map_keep_handles [OF s [unfolded RtRemove rt_step.simps]] by blast
  then have "same_entities rt rt'" using rt_wf_remove [OF wf, of cid] by simp
  then show ?thesis using counts_same [OF c _ remove_program [OF r(1)]] r(2) by simp
next
  case (RtInitialize v)
  obtain r where r: "rt_initialize env (h v) rt = Some (r, rt')" "h' = h"
    using map_keep_handles [OF s [unfolded RtInitialize rt_step.simps]] by blast
  then have "same_entities rt rt'" "rt_program rt' = rt_program rt" using initialize_wf(1) [OF wf, of "h v"] by simp_all
  then show ?thesis using counts_same [OF c] r(2) by simp
next
  case (RtDeinitialize v)
  obtain r where r: "rt_deinitialize env (h v) rt = Some (r, rt')" "h' = h"
    using map_keep_handles [OF s [unfolded RtDeinitialize rt_step.simps]] by blast
  then have "same_entities rt rt'" "rt_program rt' = rt_program rt" using initialize_wf(2) [OF wf, of "h v"] by simp_all
  then show ?thesis using counts_same [OF c] r(2) by simp
next
  case (RtSetStr uid key val)
  then show ?thesis using s counts_same [OF c, of rt'] by (auto simp: same_entities_def)
qed

lemma rt_run_counts:
  assumes "rt_run env iface s" "exts_wf (ev_exts env)" "\<forall>cid u. fst (ev_call env False cid u) = GXF_SUCCESS"
  shows "counts_wf (fst s) (snd s)"
  using assms(1)
proof (induction rule: rt_run.induct)
  case (start ty frontends u)
  then show ?case using Runtime_start_wf(2) [OF _ assms(2)] by simp
next
  case (step s operation s')
  then show ?case
    using step_counts [OF rt_run_wf [OF step(1) assms(2)] step.IH assms(3), of operation "fst s'" "snd s'"] by simp
qed

section \<open>Properties\<close>

text \<open>C38: In every state that the runtime reaches, by whatever sequence of creations, copies, moves and
  drops of handles, additions and removals of components, initialisations and deinitialisations, failed
  ones included, the next operation returns without undefined behaviour, and every component of a stored
  entity has an object of its own, of the very type that the factory of the component will delete it as:
  no object is deleted twice or as another type.\<close>

theorem objects_never_mistyped:
  assumes "rt_run env iface (h, rt)" "exts_wf (ev_exts env)"
  shows "(\<exists>s. rt_step env operation (h, rt) = Some s) \<and>
    (\<forall>eid i c. w_entities (rt_warden rt) eid = Some i \<and> c \<in> set (wi_components i) \<longrightarrow>
       (\<exists>t. ob_type (tw_objects (rt_types rt)) (ci_raw_pointer c) = Some t \<and>
          factory_type (ev_exts env) (tw_loader (rt_types rt)) (ci_tid c) = Some t)) \<and>
    (\<forall>eid i c eid' i' c'. w_entities (rt_warden rt) eid = Some i \<and> c \<in> set (wi_components i) \<and>
       w_entities (rt_warden rt) eid' = Some i' \<and> c' \<in> set (wi_components i') \<and>
       ci_raw_pointer c = ci_raw_pointer c' \<longrightarrow> eid = eid' \<and> c = c')"
proof (intro conjI allI impI)
  have wf: "rt_wf (ev_exts env) rt" using rt_run_wf [OF assms] by simp
  note D = comps_wfD [OF rt_wfD(6) [OF wf]]
  show "\<exists>s. rt_step env operation (h, rt) = Some s" using step_wf [OF wf] by blast
  have mem: "c \<in> set (comps_of (rt_warden rt) eid)" if "w_entities (rt_warden rt) eid = Some i \<and> c \<in> set (wi_components i)"
    for eid i c using that by (simp add: comps_of_def)
  show "\<exists>t. ob_type (tw_objects (rt_types rt)) (ci_raw_pointer c) = Some t \<and>
      factory_type (ev_exts env) (tw_loader (rt_types rt)) (ci_tid c) = Some t"
    if "w_entities (rt_warden rt) eid = Some i \<and> c \<in> set (wi_components i)" for eid i c
    using D(6) [OF mem [OF that]] unfolding backed_def by (metis option.exhaust)
  fix eid i c eid' i' c'
  assume a: "w_entities (rt_warden rt) eid = Some i \<and> c \<in> set (wi_components i) \<and>
       w_entities (rt_warden rt) eid' = Some i' \<and> c' \<in> set (wi_components i') \<and> ci_raw_pointer c = ci_raw_pointer c'"
  then have m: "c \<in> set (comps_of (rt_warden rt) eid)" "c' \<in> set (comps_of (rt_warden rt) eid')" using mem by blast+
  then show e: "eid = eid'" using D(8) a by blast
  show "c = c'" using D(3) [of eid] m a e by (auto simp: distinct_map inj_on_def)
qed


text \<open>An example: an abstract codelet, a codelet, and a plain type.\<close>

definition demo_exts :: extensions where
  "demo_exts x = DefaultExtension_init\<lparr>de_tid := Tid 1 1, de_extension_version := ''1.0.0'',
     de_entries := [example_entry (Tid 2 2) ''nvidia::gxf::Codelet'' ''nvidia::gxf::Component'' False,
                    example_entry (Tid 3 3) ''Ping'' ''nvidia::gxf::Codelet'' True,
                    example_entry (Tid 4 4) ''Plain'' '''' True]\<rparr>"

definition demo_env :: "nat Env" where
  "demo_env = \<lparr>ev_exts = demo_exts, ev_interface = (\<lambda>tid cid ps. (GXF_SUCCESS, ps)),
     ev_call = (\<lambda>i cid n. (GXF_SUCCESS, n + 1))\<rparr>"

definition demo_types :: TypeWorld where
  "demo_types = snd (the (el_load demo_exts example_iface 0 None (snd (the (runtime_create demo_exts example_iface)))))"

definition demo_run :: "rt_op list \<Rightarrow> handles \<times> nat Runtime" where
  "demo_run ops = foldl (\<lambda>s operation. the (rt_step demo_env operation s))
     (\<lambda>_. kNullUid, Runtime_start demo_types (\<lambda>_. TBool) 0) ops"

lemma exts_wf_demo: "exts_wf (ev_exts demo_env)"
  by (simp add: exts_wf_def demo_env_def demo_exts_def DefaultExtension_init_def kMaxComponents_def
      example_entry_def base_ok_def)

lemma demo_types_reachable: "rt_reachable (ev_exts demo_env) example_iface demo_types"
proof -
  let ?w = "snd (the (runtime_create demo_exts example_iface))"
  have x: "exts_wf demo_exts" using exts_wf_demo by (simp add: demo_env_def)
  have "rt_reachable demo_exts example_iface ?w"
    by (rule rt_reachable.created [of _ _ "fst (the (runtime_create demo_exts example_iface))"])
      (simp add: runtime_create_def GxfRegisterComponent_def tr_add_def TypeRegistry_init_def)
  moreover obtain r w1 where "el_load demo_exts example_iface 0 None ?w = Some (r, w1)"
    using el_load_returns [OF types_wf_reachable [OF calculation x] x] by blast
  ultimately show ?thesis
    using rt_reachable.loaded [of demo_exts example_iface ?w 0 None r w1] by (simp add: demo_types_def demo_env_def)
qed

lemma demo_run_reachable: "rt_run demo_env example_iface (demo_run ops)"
proof (induction ops rule: rev_induct)
  case Nil
  then show ?case using rt_run.start [OF demo_types_reachable] by (simp add: demo_run_def)
next
  case (snoc x xs)
  obtain h rt where s: "demo_run xs = (h, rt)" by fastforce
  have "rt_wf (ev_exts demo_env) rt" using rt_run_wf [OF snoc exts_wf_demo] s by simp
  from step_wf [OF this, of x h] obtain s' where "rt_step demo_env x (demo_run xs) = Some s'" unfolding s by blast
  then show ?case using rt_run.step [OF snoc, of x s'] by (simp add: demo_run_def)
qed

theorem objects_never_mistyped_witness:
  "\<exists>s. rt_step demo_env (RtDrop 0) (demo_run [RtNew 0, RtAdd 0 (Tid 3 3) (Some ''ping''), RtInitialize 0]) = Some s"
  using objects_never_mistyped [OF _ exts_wf_demo, of example_iface
      "fst (demo_run [RtNew 0, RtAdd 0 (Tid 3 3) (Some ''ping''), RtInitialize 0])"
      "snd (demo_run [RtNew 0, RtAdd 0 (Tid 3 3) (Some ''ping''), RtInitialize 0])" "RtDrop 0"] demo_run_reachable
  by simp


section \<open>What fails, and what stays behind\<close>

text \<open>The load of the example succeeds, and its codelet can be added, found and looked up.\<close>

lemma demo_add:
  "GxfComponentFindAll (snd (demo_run [RtNew 0, RtAdd 0 (Tid 3 3) (Some ''ping'')])) 2 (Some 4) = (GXF_SUCCESS, Some [3], 1)"
  "GxfComponentName (snd (demo_run [RtNew 0, RtAdd 0 (Tid 3 3) (Some ''ping'')])) 3 = (GXF_SUCCESS, Some ''ping'')"
  by code_simp+

text \<open>A component whose name is too long is refused only after its object has been made: the object stays,
  and no entity has it.\<close>

lemma long_name_leaks:
  assumes wf: "rt_wf (ev_exts env) rt" and n: "name_too_long name"
    and r: "GxfComponentAdd env eid tid name rt = Some (Inl GXF_ENTITY_COMPONENT_NAME_EXCEEDS_LIMIT, rt')"
    and code: "\<And>cid ps. fst (ev_interface env tid cid ps) = GXF_SUCCESS"
      "fst (cf_allocate (ev_exts env) (tw_loader (rt_types rt)) tid (tw_objects (rt_types rt))) = Inr p"
      "id_from_name (tw_registry (rt_types rt)) kCodeletName = Inr t0" "ew_isValid eid (rt_warden rt) = GXF_SUCCESS"
  shows "ob_type (tw_objects (rt_types rt')) p \<noteq> None \<and> rt_warden rt' = rt_warden rt \<and>
    (\<forall>e. \<forall>c\<in>set (comps_of (rt_warden rt') e). ci_raw_pointer c \<noteq> p)"
proof -
  from rt_wf_heap [OF wf] show ?thesis
  proof (cases rule: cf_allocate_cases [where exts = "ev_exts env" and el = "tw_loader (rt_types rt)" and tid = tid])
    case (failed e)
    then show ?thesis using code by simp
  next
    case (made t)
    let ?ob = "tw_objects (rt_types rt)"
    let ?ob1 = "?ob\<lparr>ob_type := (ob_type ?ob)(ob_next ?ob \<mapsto> t), ob_next := ob_next ?ob + 1\<rparr>"
    have p: "p = ob_next ?ob" using made code by simp
    have "finish_add env eid tid name p (set_heap ?ob1 rt) = Some (Inl GXF_ENTITY_COMPONENT_NAME_EXCEEDS_LIMIT, rt')"
      using r made code p by (simp add: GxfComponentAdd_def)
    then have "rt_warden rt' = rt_warden rt \<and> tw_objects (rt_types rt') = ?ob1" using n code(1)
      by (auto simp: finish_add_def getNextId_def register_component_def Let_def
          split: sum.splits option.splits if_splits prod.splits)
    then show ?thesis using fresh_object [OF wf] p by auto
  qed
qed

text \<open>After a component has failed to register its interface the registrar has no registrars.\<close>

lemma failed_interface_unsets_registrar:
  assumes "fst (ev_interface env tid cid (rt_parameters rt)) \<noteq> GXF_SUCCESS"
  shows "\<not> rt_registrar (snd (register_component env tid cid rt))"
  using assms by (auto simp: register_component_def Let_def split: prod.splits)

text \<open>Removing a component that does not derive from Component fails, since its component pointer is null,
  and the look-up of its identifier is gone while the entity still lists it; from then on findAll fails
  for the entity.\<close>

lemma remove_plain_component:
  "fst (the (GxfComponentRemove demo_env 3 (snd (demo_run [RtNew 0, RtAdd 0 (Tid 4 4) None])))) = GXF_ARGUMENT_NULL"
  "(case snd (the (GxfComponentRemove demo_env 3 (snd (demo_run [RtNew 0, RtAdd 0 (Tid 4 4) None])))) of rt \<Rightarrow>
     GxfComponentFindAll rt 2 (Some 4) = (GXF_SUCCESS, Some [3], 1) \<and>
     fst (GxfComponentType rt 3) = GXF_ENTITY_COMPONENT_NOT_FOUND \<and>
     map_sum (\<lambda>e. e) length (Entity_findAll rt 2) = Inl GXF_ENTITY_COMPONENT_NOT_FOUND)"
  by code_simp+

text \<open>The entity that does not fit into the program is destroyed, and its creation reports success.\<close>

lemma program_full:
  assumes wf: "rt_wf (ev_exts env) rt" and c: "counts_wf h rt" and full: "length (rt_program rt) \<ge> kMaxEntities"
    and ok: "\<forall>cid u. fst (ev_call env False cid u) = GXF_SUCCESS"
  shows "\<exists>rt'. GxfCreateEntity env None True rt = Some ((GXF_SUCCESS, Some (rt_next_id rt)), rt') \<and>
    \<not> GxfEntityIsValid rt' (rt_next_id rt)"
proof (cases rule: create_entity_cases [of None rt])
  case (made n)
  let ?eid = "rt_next_id rt"
  define rt1 where "rt1 = snd (GxfEntityRefCountInc ?eid (created rt n))"
  note D = counts_wfD [OF c]
  note N = after_new [OF wf c rt1_def]
  have wf1: "rt_wf (ev_exts env) rt1" using rt_wf_inc rt_wf_create [OF wf, of None] made(4) by (simp add: rt1_def)
  have inc: "GxfEntityRefCountInc ?eid (created rt n) = (GXF_SUCCESS, rt1)"
    by (simp add: rt1_def GxfEntityRefCountInc_def ew_inc_eq)
  obtain r2 rt2 where d: "GxfEntityRefCountDec env ?eid rt1 = Some (r2, rt2)" "counts_wf h rt2" "rt_program rt2 = rt_program rt"
    using dec_returns [OF wf1 ok D(1), of ?eid] D(2) N by (auto simp: Let_def)
  have "rt_next_id rt \<notin> dom (w_entities (rt_warden rt))" using rt_wfD(5) [OF wf] unfolding items_wf_def by fastforce
  then have "refs h (rt_program rt) ?eid = 0" using D(4) [of ?eid] N(4) by blast
  then have "?eid \<notin> dom (w_entities (rt_warden rt2))" using counts_wfD(4) [OF d(2), of ?eid] d(3) by simp
  then have "\<not> GxfEntityIsValid rt2 ?eid" by (auto simp: GxfEntityIsValid_def ew_isValid_def)
  moreover have "GxfCreateEntity env None True rt = Some ((GXF_SUCCESS, Some ?eid), rt2)"
    using made(4) inc d(1) full N(3) by (simp add: GxfCreateEntity_def program_addEntity_def ToResultCode_def)
  ultimately show ?thesis by blast
qed simp_all

text \<open>An entity with a component that fails to deinitialize is not destroyed when its last handle goes: it
  stays in the warden with the count 0.\<close>

lemma failed_deinitialize_keeps_entity:
  assumes wf: "rt_wf (ev_exts env) rt" and n: "w_ref_count (rt_warden rt) eid = Some 1"
    and r: "GxfEntityRefCountDec env eid rt = Some (code, rt')" "code \<noteq> GXF_SUCCESS"
    and ex: "GxfEntityIsValid rt eid"
  shows "GxfEntityIsValid rt' eid \<and> GxfEntityGetRefCount False rt' eid = (GXF_SUCCESS, Some 0)"
proof -
  let ?m = "(rt_warden rt)\<lparr>w_ref_count := (w_ref_count (rt_warden rt))(eid \<mapsto> 0)\<rparr>"
  have wf1: "rt_wf (ev_exts env) (rt\<lparr>rt_warden := ?m\<rparr>)" using wf rt_wf_warden [of ?m rt "ev_exts env"] by simp
  have "GxfEntityDestroyImpl env eid (rt\<lparr>rt_warden := ?m\<rparr>) = Some (code, rt')"
    using r(1) n by (simp add: GxfEntityRefCountDec_def ew_decEntityRefCount_def Let_def)
  then have "same_entities (rt\<lparr>rt_warden := ?m\<rparr>) rt'" using rt_wf_destroy [OF wf1, of eid] r(2) by auto
  moreover have "eid \<in> dom (w_entities ?m)" using ex by (auto simp: GxfEntityIsValid_def ew_isValid_def split: if_splits)
  ultimately show ?thesis
    by (auto simp: same_entities_def GxfEntityIsValid_def ew_isValid_def GxfEntityGetRefCount_def
        ew_getEntityRefCount_def value_out_def)
qed

text \<open>A handle of an identifier that has no entity is given out, and makes a count for it.\<close>

lemma share_unknown_entity:
  "w_ref_count (rt_warden rt) eid = None \<Longrightarrow> fst (Entity_Shared eid rt) = Inr eid \<and>
   w_ref_count (rt_warden (snd (Entity_Shared eid rt))) eid = Some 1"
  by (simp add: Entity_Shared_def GxfEntityRefCountInc_def ew_inc_eq)

end
