(* ===== verification/Endpoints.thy ===== *)
theory Endpoints
  imports Memory_Pools
begin

text \<open>
  Endpoints, which the serializers write bytes to and read them from: gxf/serialization/endpoint.hpp,
  the buffer (serialization_buffer.cpp), the pair of file streams (file_stream.cpp) and the file of the
  C library (file.cpp), with the byte order of common/endian.hpp.  The reads and writes of an endpoint
  are the abi functions of the class; the locales sink and source state what a serializer relies on.
  Files are a map from paths to contents.  What a stream has written is in the file at once: its buffer
  is not modelled.  The C++ and C libraries are modelled as documented.
\<close>

type_synonym byte = "8 word"

section \<open>Byte order\<close>

text \<open>The bytes of a number, the lowest first, and the number of a list of bytes.\<close>

fun le_bytes :: "nat \<Rightarrow> nat \<Rightarrow> byte list" where
  "le_bytes 0 x = []"
| "le_bytes (Suc n) x = of_nat x # le_bytes n (x div 256)"

fun of_le :: "byte list \<Rightarrow> nat" where
  "of_le [] = 0"
| "of_le (b # bs) = unat b + 256 * of_le bs"

text \<open>An unsigned integer of n bytes in the memory of a machine, big-endian when be.\<close>

definition to_mem :: "bool \<Rightarrow> nat \<Rightarrow> nat \<Rightarrow> byte list" where
  "to_mem be n x = (if be then rev (le_bytes n x) else le_bytes n x)"

definition of_mem :: "bool \<Rightarrow> byte list \<Rightarrow> nat" where
  "of_mem be bs = of_le (if be then rev bs else bs)"

text \<open>htole64 and its kin reverse the bytes on a big-endian machine; le64toh is the same function.\<close>

definition htole :: "bool \<Rightarrow> nat \<Rightarrow> nat \<Rightarrow> nat" where
  "htole be n x = (if be then of_le (rev (le_bytes n x)) else x)"

definition htobe :: "bool \<Rightarrow> nat \<Rightarrow> nat \<Rightarrow> nat" where
  "htobe be n x = htole (\<not> be) n x"

definition IsLittleEndian :: "bool \<Rightarrow> bool" where
  "IsLittleEndian be \<longleftrightarrow> hd (to_mem be 2 0x0102) = 0x02"

definition IsBigEndian :: "bool \<Rightarrow> bool" where
  "IsBigEndian be \<longleftrightarrow> hd (to_mem be 2 0x0102) = 0x01"

text \<open>A signed integer is converted through the unsigned integer with the same bits.\<close>

definition EncodeLittleEndian :: "bool \<Rightarrow> nat \<Rightarrow> nat \<Rightarrow> nat" where
  "EncodeLittleEndian be n value = (if n = 1 then value else htole be n value)"

definition DecodeLittleEndian :: "bool \<Rightarrow> nat \<Rightarrow> nat \<Rightarrow> nat" where
  "DecodeLittleEndian be n value = (if n = 1 then value else htole be n value)"

definition EncodeBigEndian :: "bool \<Rightarrow> nat \<Rightarrow> nat \<Rightarrow> nat" where
  "EncodeBigEndian be n value = (if n = 1 then value else htobe be n value)"

definition DecodeBigEndian :: "bool \<Rightarrow> nat \<Rightarrow> nat \<Rightarrow> nat" where
  "DecodeBigEndian be n value = (if n = 1 then value else htobe be n value)"

lemma length_le_bytes [simp]: "length (le_bytes n x) = n"
  by (induction n x rule: le_bytes.induct) auto

lemma of_le_bytes [simp]: "of_le (le_bytes n x) = x mod 256 ^ n"
proof (induction n x rule: le_bytes.induct)
  case (2 n x)
  have "unat (of_nat x :: byte) = x mod 256" by (simp add: unat_of_nat)
  then show ?case using 2 by (simp add: mod_mult2_eq [of x 256 "256 ^ n"])
qed simp

lemma of_le_less: "of_le bs < 256 ^ length bs"
proof (induction bs)
  case (Cons b bs)
  have "unat b < 256" using unsigned_less [of b, where 'a = nat] by simp
  then have "unat b + 256 * of_le bs < 256 + 256 * of_le bs" by simp
  also have "\<dots> \<le> 256 * 256 ^ length bs" using Cons by (metis Suc_leI mult_Suc_right mult_le_mono2)
  finally show ?case by simp
qed simp

lemma le_bytes_of_le [simp]: "le_bytes (length bs) (of_le bs) = bs"
proof (induction bs)
  case (Cons b bs)
  have b: "unat b < 256" using unsigned_less [of b, where 'a = nat] by simp
  have "(of_nat (unat b + 256 * of_le bs) :: byte) = b"
  proof -
    have "(of_nat (256 * of_le bs) :: byte) = 0" by (simp only: word_of_nat_eq_0_iff) simp
    then show ?thesis by simp
  qed
  moreover have "(unat b + 256 * of_le bs) div 256 = of_le bs" using b by simp
  ultimately show ?case using Cons by simp
qed simp

lemma le_bytes_of_le_n: "length bs = n \<Longrightarrow> le_bytes n (of_le bs) = bs"
  using le_bytes_of_le by blast

lemma length_to_mem [simp]: "length (to_mem be n x) = n"
  by (simp add: to_mem_def)

text \<open>What is stored after the conversion is the same on every machine, and is read back.\<close>

lemma to_mem_htole: "to_mem be n (htole be n x) = le_bytes n x"
  using le_bytes_of_le_n [of "rev (le_bytes n x)" n] by (simp add: to_mem_def htole_def)

lemma of_mem_htole: "length bs = n \<Longrightarrow> htole be n (of_mem be bs) = of_le bs"
  using le_bytes_of_le_n [of "rev bs" n] by (simp add: of_mem_def htole_def)

lemma of_mem_to_mem: "x < 256 ^ n \<Longrightarrow> of_mem be (to_mem be n x) = x"
  by (simp add: of_mem_def to_mem_def)

lemma le_bytes_0102: "le_bytes 2 0x0102 = [2, 1]"
  by code_simp

lemma endian_queries [simp]: "IsLittleEndian be \<longleftrightarrow> \<not> be" "IsBigEndian be \<longleftrightarrow> be"
  unfolding IsLittleEndian_def IsBigEndian_def to_mem_def le_bytes_0102 by simp_all

lemma encode_decode: "x < 256 ^ n \<Longrightarrow> DecodeLittleEndian be' n (of_mem be' (to_mem be n (EncodeLittleEndian be n x))) = x"
proof (cases "n = 1")
  case True
  assume "x < 256 ^ n"
  then show ?thesis using True
    by (simp add: DecodeLittleEndian_def EncodeLittleEndian_def to_mem_def of_mem_def unat_of_nat)
next
  case False
  assume "x < 256 ^ n"
  then show ?thesis using False
    by (simp add: DecodeLittleEndian_def EncodeLittleEndian_def to_mem_htole of_mem_htole)
qed

text \<open>Characters of strings.\<close>

definition bytes_of :: "string \<Rightarrow> byte list" where
  "bytes_of s = map (\<lambda>c. of_nat (of_char c)) s"

definition string_of :: "byte list \<Rightarrow> string" where
  "string_of bs = map (\<lambda>b. char_of (unat b)) bs"

lemma string_of_bytes [simp]: "string_of (bytes_of s) = s"
proof -
  have "unat (of_nat (of_char c :: nat) :: byte) = of_char c" for c
    using nat_of_char_less_256 [of c] by (simp add: unat_of_nat)
  then show ?thesis by (simp add: string_of_def bytes_of_def comp_def)
qed

lemma length_bytes_of [simp]: "length (bytes_of s) = length s"
  by (simp add: bytes_of_def)

text \<open>The part of a string that a C string function sees.\<close>

definition c_str :: "string \<Rightarrow> string" where
  "c_str s = takeWhile (\<lambda>c. c \<noteq> CHR 0x00) s"

lemma c_str_idem [simp]: "c_str (c_str s) = c_str s"
  by (simp add: c_str_def takeWhile_eq_all_conv [THEN iffD2] takeWhile_idem)

section \<open>The interface\<close>

text \<open>The abi functions.  A null pointer to the data is None, or True in a read; a read returns the bytes
  that it has stored, also when it fails.  None as a result is undefined behaviour.\<close>

record 'e Endpoint =
  ep_write :: "byte list option \<Rightarrow> 'e \<Rightarrow> (gxf_result_t \<times> nat \<times> 'e) option"
  ep_read :: "bool \<Rightarrow> nat \<Rightarrow> 'e \<Rightarrow> (gxf_result_t \<times> byte list \<times> 'e) option"

definition Endpoint_write :: "'e Endpoint \<Rightarrow> byte list option \<Rightarrow> 'e \<Rightarrow> (nat expected \<times> 'e) option" where
  "Endpoint_write ep data e = map_option (\<lambda>(code, n, e1). (ExpectedOrCodeVal code n, e1)) (ep_write ep data e)"

text \<open>The number of bytes that a read reports is the number of bytes stored.\<close>

definition Endpoint_read :: "'e Endpoint \<Rightarrow> bool \<Rightarrow> nat \<Rightarrow> 'e \<Rightarrow> (nat expected \<times> byte list \<times> 'e) option" where
  "Endpoint_read ep data_null n e = map_option (\<lambda>(code, bs, e1). (ExpectedOrCodeVal code (length bs), bs, e1)) (ep_read ep data_null n e)"

text \<open>What a serializer relies on: a write appends, and succeeds while there is room; a read takes from the
  front of what is pending.\<close>

locale sink =
  fixes ep :: "'e Endpoint" and written :: "'e \<Rightarrow> byte list" and wr_inv :: "'e \<Rightarrow> bool" and room :: "'e \<Rightarrow> nat \<Rightarrow> bool"
  assumes write_total: "wr_inv e \<Longrightarrow> \<exists>code n e1. ep_write ep (Some bs) e = Some (code, n, e1) \<and> wr_inv e1"
    and write_ok: "wr_inv e \<Longrightarrow> ep_write ep (Some bs) e = Some (GXF_SUCCESS, n, e1) \<Longrightarrow>
      n = length bs \<and> written e1 = written e @ bs"
    and write_room: "wr_inv e \<Longrightarrow> room e (length bs + k) \<Longrightarrow>
      \<exists>n e1. ep_write ep (Some bs) e = Some (GXF_SUCCESS, n, e1) \<and> room e1 k"

locale source =
  fixes ep :: "'e Endpoint" and pending :: "'e \<Rightarrow> byte list" and rd_inv :: "'e \<Rightarrow> bool"
  assumes read_ok: "rd_inv e \<Longrightarrow> n \<le> length (pending e) \<Longrightarrow>
      \<exists>e1. ep_read ep False n e = Some (GXF_SUCCESS, take n (pending e), e1) \<and> pending e1 = drop n (pending e) \<and> rd_inv e1"

context sink
begin

lemma write_cases:
  assumes "wr_inv e"
  obtains (ok) e1 where "Endpoint_write ep (Some bs) e = Some (Inr (length bs), e1)" "written e1 = written e @ bs" "wr_inv e1"
  | (error) code e1 where "Endpoint_write ep (Some bs) e = Some (Inl code, e1)" "wr_inv e1"
proof -
  obtain code n e1 where w: "ep_write ep (Some bs) e = Some (code, n, e1)" "wr_inv e1" using write_total [OF assms] by blast
  show ?thesis
  proof (cases "code = GXF_SUCCESS")
    case True
    then show ?thesis using ok [of e1] w write_ok [OF assms, of bs n e1]
      by (auto simp: Endpoint_write_def ExpectedOrCodeVal_def)
  next
    case False
    then show ?thesis using error [of code e1] w by (auto simp: Endpoint_write_def ExpectedOrCodeVal_def)
  qed
qed

lemma Endpoint_write_ok:
  assumes "wr_inv e" "room e (length bs + k)"
  shows "\<exists>e1. Endpoint_write ep (Some bs) e = Some (Inr (length bs), e1) \<and> written e1 = written e @ bs \<and> wr_inv e1 \<and> room e1 k"
proof -
  obtain n e1 where w: "ep_write ep (Some bs) e = Some (GXF_SUCCESS, n, e1)" "room e1 k" using write_room [OF assms] by blast
  then have "wr_inv e1" using write_total [OF assms(1), of bs] by auto
  then show ?thesis using w write_ok [OF assms(1) w(1)] by (auto simp: Endpoint_write_def ExpectedOrCodeVal_def)
qed

end

context source
begin

lemma Endpoint_read_ok:
  assumes "rd_inv e" "pending e = bs @ rest" "length bs = n"
  shows "\<exists>e1. Endpoint_read ep False n e = Some (Inr n, bs, e1) \<and> pending e1 = rest \<and> rd_inv e1"
  using read_ok [OF assms(1), of n] assms(2,3) by (auto simp: Endpoint_read_def ExpectedOrCodeVal_def)

end

section \<open>SerializationBuffer\<close>

text \<open>The contents of the block of memory are beside the buffer that owns it.  The block is memory of the
  host; a buffer of device memory cannot be written with memcpy.\<close>

record 's SerializationBuffer =
  sb_buffer :: "'s MemoryBuffer"
  sb_data :: "byte list"
  sb_write_offset :: nat
  sb_read_offset :: nat

text \<open>memcpy to and from the block; outside of it the behaviour is undefined.\<close>

definition mem_store :: "nat \<Rightarrow> byte list \<Rightarrow> byte list \<Rightarrow> byte list option" where
  "mem_store at bs data = (if at + length bs > length data then None
     else Some (take at data @ bs @ drop (at + length bs) data))"

definition mem_load :: "nat \<Rightarrow> nat \<Rightarrow> byte list \<Rightarrow> byte list option" where
  "mem_load at n data = (if at + n > length data then None else Some (take n (drop at data)))"

definition sb_write_abi :: "byte list option \<Rightarrow> 's SerializationBuffer \<Rightarrow> (gxf_result_t \<times> nat \<times> 's SerializationBuffer) option" where
  "sb_write_abi data b = (case data of
     None \<Rightarrow> Some (GXF_ARGUMENT_NULL, 0, b)
   | Some bs \<Rightarrow>
       (if length bs > size_sub (mb_size (sb_buffer b)) (sb_write_offset b) then Some (GXF_EXCEEDING_PREALLOCATED_SIZE, 0, b)
        else (case mem_store (sb_write_offset b) bs (sb_data b) of
          None \<Rightarrow> None
        | Some data1 \<Rightarrow> Some (GXF_SUCCESS, length bs, b\<lparr>sb_data := data1, sb_write_offset := sb_write_offset b + length bs\<rparr>))))"

definition sb_read_abi :: "bool \<Rightarrow> nat \<Rightarrow> 's SerializationBuffer \<Rightarrow> (gxf_result_t \<times> byte list \<times> 's SerializationBuffer) option" where
  "sb_read_abi data_null n b =
     (if data_null then Some (GXF_ARGUMENT_NULL, [], b)
      else if n > size_sub (mb_size (sb_buffer b)) (sb_read_offset b) then Some (GXF_EXCEEDING_PREALLOCATED_SIZE, [], b)
      else (case mem_load (sb_read_offset b) n (sb_data b) of
        None \<Rightarrow> None
      | Some bs \<Rightarrow> Some (GXF_SUCCESS, bs, b\<lparr>sb_read_offset := sb_read_offset b + n\<rparr>)))"

definition sb_endpoint :: "'s SerializationBuffer Endpoint" where
  "sb_endpoint = \<lparr>ep_write = sb_write_abi, ep_read = sb_read_abi\<rparr>"

text \<open>New memory holds what the allocator left in it.\<close>

definition sb_resize ::
  "(nat \<Rightarrow> MemoryStorageType \<Rightarrow> 's \<Rightarrow> nat expected \<times> 's) \<Rightarrow> (nat \<Rightarrow> 's \<Rightarrow> unit expected \<times> 's) \<Rightarrow> (nat \<Rightarrow> byte) \<Rightarrow>
   nat \<Rightarrow> MemoryStorageType \<Rightarrow> 's SerializationBuffer \<times> 's \<Rightarrow> unit expected \<times> 's SerializationBuffer \<times> 's" where
  "sb_resize allocate release old n storage = (\<lambda>(b, s).
     (case mb_resize allocate release n storage (sb_buffer b, s) of (r, mb, s1) \<Rightarrow>
        (r, b\<lparr>sb_buffer := mb, sb_write_offset := 0, sb_read_offset := 0,
              sb_data := (if ok r then map old [0..<n] else if mb_size mb = 0 then [] else sb_data b)\<rparr>, s1)))"

definition sb_wrapMemory ::
  "nat \<Rightarrow> byte list \<Rightarrow> MemoryStorageType \<Rightarrow> (nat \<Rightarrow> 's \<Rightarrow> unit expected \<times> 's) option \<Rightarrow>
   's SerializationBuffer \<times> 's \<Rightarrow> unit expected \<times> 's SerializationBuffer \<times> 's" where
  "sb_wrapMemory pointer data storage release_func = (\<lambda>(b, s).
     (case mb_wrapMemory pointer (length data) storage release_func (sb_buffer b, s) of (r, mb, s1) \<Rightarrow>
        (r, b\<lparr>sb_buffer := mb, sb_write_offset := 0, sb_read_offset := 0,
              sb_data := (if ok r then data else sb_data b)\<rparr>, s1)))"

definition sb_initialize ::
  "(nat \<Rightarrow> MemoryStorageType \<Rightarrow> 's \<Rightarrow> nat expected \<times> 's) \<Rightarrow> (nat \<Rightarrow> 's \<Rightarrow> unit expected \<times> 's) \<Rightarrow> (nat \<Rightarrow> byte) \<Rightarrow>
   nat \<Rightarrow> MemoryStorageType \<Rightarrow> 's SerializationBuffer \<times> 's \<Rightarrow> gxf_result_t \<times> 's SerializationBuffer \<times> 's" where
  "sb_initialize allocate release old buffer_size storage_type bs =
     (case sb_resize allocate release old buffer_size storage_type bs of (r, bs1) \<Rightarrow> (ToResultCode r, bs1))"

definition sb_deinitialize :: "'s SerializationBuffer \<times> 's \<Rightarrow> gxf_result_t \<times> 's SerializationBuffer \<times> 's" where
  "sb_deinitialize = (\<lambda>(b, s). case mb_freeBuffer (sb_buffer b, s) of (r, mb, s1) \<Rightarrow>
     (ToResultCode r, b\<lparr>sb_buffer := mb, sb_data := (if mb_size mb = 0 then [] else sb_data b)\<rparr>, s1))"

definition sb_size :: "'s SerializationBuffer \<Rightarrow> nat" where "sb_size b = sb_write_offset b"

definition sb_capacity :: "'s SerializationBuffer \<Rightarrow> nat" where "sb_capacity b = mb_size (sb_buffer b)"

definition sb_reset :: "'s SerializationBuffer \<Rightarrow> 's SerializationBuffer" where
  "sb_reset b = b\<lparr>sb_write_offset := 0, sb_read_offset := 0\<rparr>"

text \<open>The offsets stay inside of the block, so that the subtraction does not wrap.\<close>

definition sb_wf :: "'s SerializationBuffer \<Rightarrow> bool" where [inv_defs]:
  "sb_wf b \<longleftrightarrow> length (sb_data b) = mb_size (sb_buffer b) \<and> mb_size (sb_buffer b) < 2 ^ 64 \<and>
     sb_write_offset b \<le> mb_size (sb_buffer b) \<and> sb_read_offset b \<le> mb_size (sb_buffer b)"

definition sb_written :: "'s SerializationBuffer \<Rightarrow> byte list" where
  "sb_written b = take (sb_write_offset b) (sb_data b)"

definition sb_pending :: "'s SerializationBuffer \<Rightarrow> byte list" where
  "sb_pending b = drop (sb_read_offset b) (sb_data b)"

lemma sb_write_cases:
  assumes "sb_wf b"
  shows "sb_write_abi (Some bs) b =
    (if length bs > mb_size (sb_buffer b) - sb_write_offset b then Some (GXF_EXCEEDING_PREALLOCATED_SIZE, 0, b)
     else Some (GXF_SUCCESS, length bs, b\<lparr>sb_data := sb_written b @ bs @ drop (sb_write_offset b + length bs) (sb_data b),
       sb_write_offset := sb_write_offset b + length bs\<rparr>))"
  using assms by (auto simp: sb_write_abi_def sb_wf_def size_sub_ge mem_store_def sb_written_def)

lemma sb_read_cases:
  assumes "sb_wf b"
  shows "sb_read_abi False n b =
    (if n > length (sb_pending b) then Some (GXF_EXCEEDING_PREALLOCATED_SIZE, [], b)
     else Some (GXF_SUCCESS, take n (sb_pending b), b\<lparr>sb_read_offset := sb_read_offset b + n\<rparr>))"
  using assms by (auto simp: sb_read_abi_def sb_wf_def size_sub_ge mem_load_def sb_pending_def)

definition sb_room :: "'s SerializationBuffer \<Rightarrow> nat \<Rightarrow> bool" where
  "sb_room b n \<longleftrightarrow> n \<le> mb_size (sb_buffer b) - sb_write_offset b"

interpretation sb_sink: sink sb_endpoint sb_written sb_wf sb_room
proof
  show "\<exists>n e1. ep_write sb_endpoint (Some bs) e = Some (GXF_SUCCESS, n, e1) \<and> sb_room e1 k"
    if "sb_wf e" "sb_room e (length bs + k)" for e :: "'s SerializationBuffer" and bs k
    using that by (auto simp: sb_endpoint_def sb_write_cases sb_room_def)
  fix e :: "'s SerializationBuffer" and bs n e1
  assume e: "sb_wf e"
  then show "\<exists>code n e1. ep_write sb_endpoint (Some bs) e = Some (code, n, e1) \<and> sb_wf e1"
    by (auto simp: sb_endpoint_def sb_write_cases) (auto simp: sb_wf_def sb_written_def)
  assume "ep_write sb_endpoint (Some bs) e = Some (GXF_SUCCESS, n, e1)"
  then show "n = length bs \<and> sb_written e1 = sb_written e @ bs" using e
    by (auto simp: sb_endpoint_def sb_write_cases split: if_splits) (auto simp: sb_wf_def sb_written_def)
qed

interpretation sb_source: source sb_endpoint sb_pending sb_wf
proof
  fix e :: "'s SerializationBuffer" and n
  assume e: "sb_wf e" "n \<le> length (sb_pending e)"
  then show "\<exists>e1. ep_read sb_endpoint False n e = Some (GXF_SUCCESS, take n (sb_pending e), e1) \<and>
      sb_pending e1 = drop n (sb_pending e) \<and> sb_wf e1"
    by (auto simp: sb_endpoint_def sb_read_cases) (auto simp: sb_wf_def sb_pending_def add.commute)
qed

text \<open>The bytes behind the write offset can be read: a read does not look at what has been written.\<close>

lemma sb_reads_unwritten:
  assumes "sb_wf b" "sb_read_offset b = sb_write_offset b" "0 < n" "n \<le> mb_size (sb_buffer b) - sb_write_offset b"
  shows "\<exists>b1. sb_read_abi False n b = Some (GXF_SUCCESS, take n (drop (sb_write_offset b) (sb_data b)), b1)"
  using assms by (auto simp: sb_read_cases sb_pending_def sb_wf_def)

text \<open>deinitialize leaves the offsets, so that the capacity that is left wraps: a write after it goes to
  memory that is not the buffer's.\<close>

lemma sb_write_after_deinitialize:
  assumes "sb_wf b" "0 < sb_write_offset b" "mb_release (sb_buffer b) = Some f" "mb_pointer (sb_buffer b) \<noteq> 0"
    "f (mb_pointer (sb_buffer b)) s = (Success, s1)"
  shows "sb_write_abi (Some [x]) (fst (snd (sb_deinitialize (b, s)))) = None"
proof -
  have d: "fst (snd (sb_deinitialize (b, s))) = b\<lparr>sb_buffer := (sb_buffer b)\<lparr>mb_release := None, mb_pointer := 0, mb_size := 0\<rparr>,
      sb_data := []\<rparr>"
    using assms by (simp add: sb_deinitialize_def mb_freeBuffer_def)
  have "size_sub 0 (sb_write_offset b) \<ge> 1"
    using assms(1,2) size_sub_lt [of 0 "sb_write_offset b"] by (auto simp: sb_wf_def)
  then show ?thesis unfolding d by (simp add: sb_write_abi_def mem_store_def)
qed

section \<open>FileStream\<close>

type_synonym files = "string \<rightharpoonup> byte list"

text \<open>std::ifstream and std::ofstream: the path while the file is open, the position, and the flags eofbit
  and failbit or badbit.\<close>

record stream =
  st_path :: "string option"
  st_pos :: nat
  st_eof :: bool
  st_fail :: bool

definition stream_init :: stream where
  "stream_init = \<lparr>st_path = None, st_pos = 0, st_eof = False, st_fail = False\<rparr>"

definition ifstream_open :: "string \<Rightarrow> files \<Rightarrow> stream \<Rightarrow> stream" where
  "ifstream_open path fs st = (if st_path st \<noteq> None \<or> fs path = None then st\<lparr>st_fail := True\<rparr>
     else \<lparr>st_path = Some path, st_pos = 0, st_eof = False, st_fail = False\<rparr>)"

text \<open>Opening for output creates or empties the file, where the file system allows it.\<close>

definition ofstream_open :: "(string \<Rightarrow> bool) \<Rightarrow> string \<Rightarrow> files \<Rightarrow> stream \<Rightarrow> stream \<times> files" where
  "ofstream_open writable path fs st = (if st_path st \<noteq> None \<or> \<not> writable path then (st\<lparr>st_fail := True\<rparr>, fs)
     else (\<lparr>st_path = Some path, st_pos = 0, st_eof = False, st_fail = False\<rparr>, fs(path \<mapsto> [])))"

definition stream_close :: "stream \<Rightarrow> stream" where
  "stream_close st = (if st_path st = None then st\<lparr>st_fail := True\<rparr> else st\<lparr>st_path := None\<rparr>)"

definition stream_clear :: "stream \<Rightarrow> stream" where
  "stream_clear st = st\<lparr>st_eof := False, st_fail := False\<rparr>"

text \<open>Bytes written behind the end fill the gap with zeros.\<close>

definition write_at :: "nat \<Rightarrow> byte list \<Rightarrow> byte list \<Rightarrow> byte list" where
  "write_at pos bs data = take pos (data @ replicate (pos - length data) 0) @ bs @ drop (pos + length bs) data"

definition ofstream_write :: "byte list \<Rightarrow> files \<Rightarrow> stream \<Rightarrow> stream \<times> files" where
  "ofstream_write bs fs st = (if st_fail st \<or> st_eof st then (st\<lparr>st_fail := True\<rparr>, fs)
     else case st_path st of
       None \<Rightarrow> (st\<lparr>st_fail := bs \<noteq> []\<rparr>, fs)
     | Some p \<Rightarrow> (st\<lparr>st_pos := st_pos st + length bs\<rparr>,
         fs(p \<mapsto> write_at (st_pos st) bs (case fs p of None \<Rightarrow> [] | Some d \<Rightarrow> d))))"

definition ifstream_read :: "nat \<Rightarrow> files \<Rightarrow> stream \<Rightarrow> byte list \<times> stream" where
  "ifstream_read n fs st = (if st_fail st \<or> st_eof st then ([], st\<lparr>st_fail := True\<rparr>)
     else let data = (case st_path st of None \<Rightarrow> [] | Some p \<Rightarrow> (case fs p of None \<Rightarrow> [] | Some d \<Rightarrow> d));
              bs = take n (drop (st_pos st) data);
              short = length bs < n in
       (bs, st\<lparr>st_pos := st_pos st + length bs, st_eof := short, st_fail := short\<rparr>))"

text \<open>A position can be set while the stream has not failed; seekg takes back eofbit.  The position of a
  file that is not open is -1, in size_t the largest number.\<close>

definition stream_seek :: "bool \<Rightarrow> nat \<Rightarrow> stream \<Rightarrow> stream" where
  "stream_seek input pos st = (let st1 = (if input then st\<lparr>st_eof := False\<rparr> else st) in
     if st_fail st1 then st1 else if st_path st1 = None then st1\<lparr>st_fail := True\<rparr> else st1\<lparr>st_pos := pos\<rparr>)"

definition stream_tell :: "bool \<Rightarrow> stream \<Rightarrow> nat \<times> stream" where
  "stream_tell input st = (let st1 = (if input \<and> st_eof st then st\<lparr>st_fail := True\<rparr> else st) in
     (if st_fail st1 \<or> st_path st1 = None then 2 ^ 64 - 1 else st_pos st1, st1))"

record FileStream =
  fs_input_path :: string
  fs_output_path :: string
  fs_in :: stream
  fs_out :: stream

definition FileStream_init :: "string \<Rightarrow> string \<Rightarrow> FileStream" where
  "FileStream_init input_file output_file =
     \<lparr>fs_input_path = input_file, fs_output_path = output_file, fs_in = stream_init, fs_out = stream_init\<rparr>"

definition fs_result :: "FileStream \<Rightarrow> unit expected" where
  "fs_result f = (if \<not> st_fail (fs_in f) \<and> \<not> st_fail (fs_out f) then Success else Unexpected GXF_FAILURE)"

definition fs_open :: "(string \<Rightarrow> bool) \<Rightarrow> FileStream \<times> files \<Rightarrow> unit expected \<times> FileStream \<times> files" where
  "fs_open writable = (\<lambda>(f, fs).
     let (out, fs1) = (if fs_output_path f \<noteq> [] then ofstream_open writable (fs_output_path f) fs (fs_out f) else (fs_out f, fs));
         f1 = f\<lparr>fs_out := out, fs_in := (if fs_input_path f \<noteq> [] then ifstream_open (fs_input_path f) fs1 (fs_in f) else fs_in f)\<rparr>
     in (fs_result f1, f1, fs1))"

definition fs_close :: "FileStream \<Rightarrow> unit expected \<times> FileStream" where
  "fs_close f = (let f1 = f\<lparr>fs_in := (if st_path (fs_in f) \<noteq> None then stream_close (fs_in f) else fs_in f),
                            fs_out := (if st_path (fs_out f) \<noteq> None then stream_close (fs_out f) else fs_out f)\<rparr>
     in (fs_result f1, f1))"

definition fs_write_abi :: "byte list option \<Rightarrow> FileStream \<times> files \<Rightarrow> (gxf_result_t \<times> nat \<times> FileStream \<times> files) option" where
  "fs_write_abi data = (\<lambda>(f, fs). case data of
     None \<Rightarrow> Some (GXF_ARGUMENT_NULL, 0, f, fs)
   | Some bs \<Rightarrow> (case ofstream_write bs fs (fs_out f) of (out, fs1) \<Rightarrow>
       Some (if st_fail out then GXF_FAILURE else GXF_SUCCESS, length bs, f\<lparr>fs_out := out\<rparr>, fs1)))"

definition fs_read_abi :: "bool \<Rightarrow> nat \<Rightarrow> FileStream \<times> files \<Rightarrow> (gxf_result_t \<times> byte list \<times> FileStream \<times> files) option" where
  "fs_read_abi data_null n = (\<lambda>(f, fs).
     if data_null then Some (GXF_ARGUMENT_NULL, [], f, fs)
     else (case ifstream_read n fs (fs_in f) of (bs, inp) \<Rightarrow>
       Some (if st_fail inp then GXF_FAILURE else GXF_SUCCESS, bs, f\<lparr>fs_in := inp\<rparr>, fs)))"

definition fs_endpoint :: "(FileStream \<times> files) Endpoint" where
  "fs_endpoint = \<lparr>ep_write = fs_write_abi, ep_read = fs_read_abi\<rparr>"

definition fs_clear :: "FileStream \<Rightarrow> FileStream" where
  "fs_clear f = f\<lparr>fs_in := stream_clear (fs_in f), fs_out := stream_clear (fs_out f)\<rparr>"

definition fs_flush :: "FileStream \<Rightarrow> unit expected" where
  "fs_flush f = (if st_fail (fs_out f) then Unexpected GXF_FAILURE else Success)"

definition setWriteOffset :: "nat \<Rightarrow> FileStream \<Rightarrow> unit expected \<times> FileStream" where
  "setWriteOffset index f = (let out = stream_seek False index (fs_out f)
     in (if st_fail out then Unexpected GXF_FAILURE else Success, f\<lparr>fs_out := out\<rparr>))"

definition getWriteOffset :: "FileStream \<Rightarrow> nat expected \<times> FileStream" where
  "getWriteOffset f = (case stream_tell False (fs_out f) of (index, out) \<Rightarrow>
     (if st_fail out then Unexpected GXF_FAILURE else Inr index, f\<lparr>fs_out := out\<rparr>))"

definition setReadOffset :: "nat \<Rightarrow> FileStream \<Rightarrow> unit expected \<times> FileStream" where
  "setReadOffset index f = (let inp = stream_seek True index (fs_in f)
     in (if st_fail inp then Unexpected GXF_FAILURE else Success, f\<lparr>fs_in := inp\<rparr>))"

definition getReadOffset :: "FileStream \<Rightarrow> nat expected \<times> FileStream" where
  "getReadOffset f = (case stream_tell True (fs_in f) of (index, inp) \<Rightarrow>
     (if st_fail inp then Unexpected GXF_FAILURE else Inr index, f\<lparr>fs_in := inp\<rparr>))"

text \<open>A stream that is open for output stands at the end of its file; one that is open for input inside of
  its file.\<close>

definition fs_out_wf :: "FileStream \<times> files \<Rightarrow> bool" where
  "fs_out_wf = (\<lambda>(f, fs). \<not> st_fail (fs_out f) \<and> \<not> st_eof (fs_out f) \<and>
     (\<exists>p d. st_path (fs_out f) = Some p \<and> fs p = Some d \<and> st_pos (fs_out f) = length d))"

definition fs_written :: "FileStream \<times> files \<Rightarrow> byte list" where
  "fs_written = (\<lambda>(f, fs). the (fs (the (st_path (fs_out f)))))"

definition fs_in_wf :: "FileStream \<times> files \<Rightarrow> bool" where
  "fs_in_wf = (\<lambda>(f, fs). \<not> st_fail (fs_in f) \<and> \<not> st_eof (fs_in f) \<and>
     (\<exists>p d. st_path (fs_in f) = Some p \<and> fs p = Some d \<and> st_pos (fs_in f) \<le> length d))"

definition fs_pending :: "FileStream \<times> files \<Rightarrow> byte list" where
  "fs_pending = (\<lambda>(f, fs). drop (st_pos (fs_in f)) (the (fs (the (st_path (fs_in f))))))"

lemma fs_write_ok:
  assumes "fs_out_wf e"
  shows "\<exists>e1. fs_write_abi (Some bs) e = Some (GXF_SUCCESS, length bs, e1) \<and> fs_out_wf e1 \<and> fs_written e1 = fs_written e @ bs"
proof -
  obtain f fs where e: "e = (f, fs)" by fastforce
  then obtain p d where p: "st_path (fs_out f) = Some p" "fs p = Some d" "st_pos (fs_out f) = length d"
      "\<not> st_fail (fs_out f)" "\<not> st_eof (fs_out f)" using assms by (auto simp: fs_out_wf_def)
  have "write_at (length d) bs d = d @ bs" by (simp add: write_at_def)
  then show ?thesis using p by (simp add: e fs_write_abi_def ofstream_write_def fs_out_wf_def fs_written_def)
qed

interpretation fs_sink: sink fs_endpoint fs_written fs_out_wf "\<lambda>_ _. True"
proof
  show "\<exists>n e1. ep_write fs_endpoint (Some bs) e = Some (GXF_SUCCESS, n, e1) \<and> True" if "fs_out_wf e" for e bs
    using fs_write_ok [OF that, of bs] by (auto simp: fs_endpoint_def)
  fix e :: "FileStream \<times> files" and bs n e1
  assume e: "fs_out_wf e"
  obtain e2 where w: "fs_write_abi (Some bs) e = Some (GXF_SUCCESS, length bs, e2)" "fs_out_wf e2"
      "fs_written e2 = fs_written e @ bs" using fs_write_ok [OF e] by blast
  then show "\<exists>code n e1. ep_write fs_endpoint (Some bs) e = Some (code, n, e1) \<and> fs_out_wf e1"
    by (simp add: fs_endpoint_def)
  assume "ep_write fs_endpoint (Some bs) e = Some (GXF_SUCCESS, n, e1)"
  then show "n = length bs \<and> fs_written e1 = fs_written e @ bs" using w by (simp add: fs_endpoint_def)
qed

interpretation fs_source: source fs_endpoint fs_pending fs_in_wf
proof
  fix e :: "FileStream \<times> files" and n
  assume e: "fs_in_wf e" "n \<le> length (fs_pending e)"
  obtain f fs where [simp]: "e = (f, fs)" by fastforce
  obtain p d where p: "st_path (fs_in f) = Some p" "fs p = Some d" "st_pos (fs_in f) \<le> length d"
      "\<not> st_fail (fs_in f)" "\<not> st_eof (fs_in f)" using e by (auto simp: fs_in_wf_def)
  show "\<exists>e1. ep_read fs_endpoint False n e = Some (GXF_SUCCESS, take n (fs_pending e), e1) \<and>
      fs_pending e1 = drop n (fs_pending e) \<and> fs_in_wf e1"
    using p e(2) by (auto simp: fs_endpoint_def fs_read_abi_def ifstream_read_def fs_pending_def fs_in_wf_def Let_def add.commute)
qed

text \<open>A read past the end of the file fails, and so does every read after it until clear is called, and
  close, though it closes the file.\<close>

lemma fs_read_past_end:
  assumes "fs_in_wf (f, fs)" "length (fs_pending (f, fs)) < n"
  shows "\<exists>bs f1. fs_read_abi False n (f, fs) = Some (GXF_FAILURE, bs, f1, fs) \<and>
    (\<forall>m. \<exists>f2. fs_read_abi False m (f1, fs) = Some (GXF_FAILURE, [], f2, fs)) \<and>
    fst (fs_close f1) = Inl GXF_FAILURE \<and> st_path (fs_in (snd (fs_close f1))) = None"
  using assms by (auto simp: fs_read_abi_def ifstream_read_def fs_in_wf_def fs_pending_def Let_def fs_close_def
      stream_close_def fs_result_def)

text \<open>The position of a stream that was never opened is reported as the largest number, without an
  error.\<close>

lemma offset_of_unopened: "fst (getWriteOffset (FileStream_init inp out)) = Inr (2 ^ 64 - 1)"
  by (simp add: getWriteOffset_def FileStream_init_def stream_tell_def stream_init_def)

text \<open>What was written to a file is read back once it is opened for input.\<close>

lemma fs_reopen:
  assumes "fs_out_wf (f, fs)" "st_path (fs_out f) = Some p" "p \<noteq> []"
  shows "\<exists>g. fs_open writable (FileStream_init p [], fs) = (Success, g, fs) \<and> fs_in_wf (g, fs) \<and>
    fs_pending (g, fs) = fs_written (f, fs)"
  using assms by (auto simp: fs_open_def FileStream_init_def stream_init_def ifstream_open_def fs_result_def fs_in_wf_def
      fs_pending_def fs_written_def fs_out_wf_def)

section \<open>File\<close>

text \<open>FILE of the C library; the mode has been taken apart.  A limit on the size of files stands for a full
  device.\<close>

record FILE =
  fi_path :: string
  fi_pos :: nat
  fi_read :: bool
  fi_write :: bool
  fi_append :: bool
  fi_eof :: bool
  fi_error :: bool

record FileSystem =
  sys_files :: files
  sys_writable :: "string \<Rightarrow> bool"
  sys_limit :: nat

definition fopen :: "string \<Rightarrow> string \<Rightarrow> FileSystem \<Rightarrow> FILE option \<times> FileSystem" where
  "fopen path mode sys = (case mode of
     [] \<Rightarrow> (None, sys)
   | c # rest \<Rightarrow>
       let plus = CHR ''+'' \<in> set rest;
           file = \<lparr>fi_path = path, fi_pos = 0, fi_read = (c = CHR ''r'' \<or> plus), fi_write = (c \<noteq> CHR ''r'' \<or> plus),
                   fi_append = (c = CHR ''a''), fi_eof = False, fi_error = False\<rparr> in
       if c = CHR ''r'' then
         (if sys_files sys path = None \<or> plus \<and> \<not> sys_writable sys path then (None, sys) else (Some file, sys))
       else if c \<noteq> CHR ''w'' \<and> c \<noteq> CHR ''a'' \<or> \<not> sys_writable sys path then (None, sys)
       else if c = CHR ''w'' \<or> sys_files sys path = None
       then (Some file, sys\<lparr>sys_files := (sys_files sys)(path \<mapsto> [])\<rparr>)
       else (Some file, sys))"

definition contents :: "FileSystem \<Rightarrow> FILE \<Rightarrow> byte list" where
  "contents sys f = (case sys_files sys (fi_path f) of None \<Rightarrow> [] | Some d \<Rightarrow> d)"

text \<open>fwrite writes what still fits, and sets the error indicator when that is not all.\<close>

definition fwrite :: "byte list \<Rightarrow> FILE \<times> FileSystem \<Rightarrow> nat \<times> FILE \<times> FileSystem" where
  "fwrite bs = (\<lambda>(f, sys).
     if \<not> fi_write f then (0, f\<lparr>fi_error := bs \<noteq> [] \<or> fi_error f\<rparr>, sys)
     else let pos = (if fi_append f then length (contents sys f) else fi_pos f);
              out = take (sys_limit sys - pos) bs in
       (length out, f\<lparr>fi_pos := pos + length out, fi_error := fi_error f \<or> length out < length bs\<rparr>,
        sys\<lparr>sys_files := (sys_files sys)(fi_path f \<mapsto> write_at pos out (contents sys f))\<rparr>))"

definition fread :: "nat \<Rightarrow> FILE \<times> FileSystem \<Rightarrow> byte list \<times> FILE" where
  "fread n = (\<lambda>(f, sys).
     if \<not> fi_read f then ([], f\<lparr>fi_error := n \<noteq> 0 \<or> fi_error f\<rparr>)
     else let bs = take n (drop (fi_pos f) (contents sys f)) in
       (bs, f\<lparr>fi_pos := fi_pos f + length bs, fi_eof := fi_eof f \<or> length bs < n\<rparr>))"

datatype whence = SEEK_SET | SEEK_CUR | SEEK_END

definition fseek :: "int \<Rightarrow> whence \<Rightarrow> FILE \<times> FileSystem \<Rightarrow> bool \<times> FILE" where
  "fseek off position = (\<lambda>(f, sys).
     let pos = off + (case position of SEEK_SET \<Rightarrow> 0 | SEEK_CUR \<Rightarrow> int (fi_pos f) | SEEK_END \<Rightarrow> int (length (contents sys f)))
     in if pos < 0 then (False, f) else (True, f\<lparr>fi_pos := nat pos, fi_eof := False\<rparr>))"

record 's File =
  fl_path :: string
  fl_mode :: string
  fl_file :: "FILE option"
  fl_buffer :: "'s MemoryBuffer"

definition fl_write_abi :: "byte list option \<Rightarrow> 's File \<times> FileSystem \<Rightarrow> (gxf_result_t \<times> nat \<times> 's File \<times> FileSystem) option" where
  "fl_write_abi data = (\<lambda>(fl, sys). case data of
     None \<Rightarrow> Some (GXF_ARGUMENT_NULL, 0, fl, sys)
   | Some bs \<Rightarrow> (case fl_file fl of
       None \<Rightarrow> Some (GXF_NULL_POINTER, 0, fl, sys)
     | Some f \<Rightarrow> (case fwrite bs (f, sys) of (result, f1, sys1) \<Rightarrow>
         Some (if fi_error f1 then GXF_FAILURE else GXF_SUCCESS, result, fl\<lparr>fl_file := Some f1\<rparr>, sys1))))"

definition fl_read_abi :: "bool \<Rightarrow> nat \<Rightarrow> 's File \<times> FileSystem \<Rightarrow> (gxf_result_t \<times> byte list \<times> 's File \<times> FileSystem) option" where
  "fl_read_abi data_null n = (\<lambda>(fl, sys).
     if data_null then Some (GXF_ARGUMENT_NULL, [], fl, sys)
     else (case fl_file fl of
       None \<Rightarrow> Some (GXF_NULL_POINTER, [], fl, sys)
     | Some f \<Rightarrow> (case fread n (f, sys) of (bs, f1) \<Rightarrow>
         Some (if fi_error f1 then GXF_FAILURE else GXF_SUCCESS, bs, fl\<lparr>fl_file := Some f1\<rparr>, sys))))"

definition fl_endpoint :: "('s File \<times> FileSystem) Endpoint" where
  "fl_endpoint = \<lparr>ep_write = fl_write_abi, ep_read = fl_read_abi\<rparr>"

text \<open>setvbuf succeeds on a file that has just been opened.\<close>

definition fl_open :: "string option \<Rightarrow> string option \<Rightarrow> 's File \<times> FileSystem \<Rightarrow> unit expected \<times> 's File \<times> FileSystem" where
  "fl_open path mode = (\<lambda>(fl, sys).
     if fl_file fl \<noteq> None then (Unexpected GXF_FAILURE, fl, sys)
     else let fl1 = fl\<lparr>fl_path := (case path of Some p \<Rightarrow> p | None \<Rightarrow> fl_path fl),
                       fl_mode := (case mode of Some m \<Rightarrow> m | None \<Rightarrow> fl_mode fl)\<rparr> in
       if fl_path fl1 = [] then (Unexpected GXF_FAILURE, fl1, sys)
       else (case fopen (fl_path fl1) (fl_mode fl1) sys of
         (None, sys1) \<Rightarrow> (Unexpected GXF_FAILURE, fl1, sys1)
       | (Some f, sys1) \<Rightarrow> (Success, fl1\<lparr>fl_file := Some f\<rparr>, sys1)))"

definition fl_close :: "'s File \<Rightarrow> unit expected \<times> 's File" where
  "fl_close fl = (if fl_file fl = None then (Unexpected GXF_FAILURE, fl) else (Success, fl\<lparr>fl_file := None\<rparr>))"

definition fl_initialize ::
  "(nat \<Rightarrow> MemoryStorageType \<Rightarrow> 's \<Rightarrow> nat expected \<times> 's) \<Rightarrow> (nat \<Rightarrow> 's \<Rightarrow> unit expected \<times> 's) \<Rightarrow> nat \<Rightarrow>
   ('s File \<times> FileSystem) \<times> 's \<Rightarrow> gxf_result_t \<times> ('s File \<times> FileSystem) \<times> 's" where
  "fl_initialize allocate release buffer_size = (\<lambda>((fl, sys), s).
     case mb_resize allocate release buffer_size kSystem (fl_buffer fl, s) of
       (Inl e, mb, s1) \<Rightarrow> (e, (fl\<lparr>fl_buffer := mb\<rparr>, sys), s1)
     | (Inr _, mb, s1) \<Rightarrow>
         (let fl1 = fl\<lparr>fl_buffer := mb\<rparr> in
          if fl_path fl1 \<noteq> [] then (case fl_open None None (fl1, sys) of (r, x) \<Rightarrow> (ToResultCode r, x, s1))
          else (GXF_SUCCESS, (fl1, sys), s1)))"

definition fl_deinitialize :: "'s File \<times> 's \<Rightarrow> gxf_result_t \<times> 's File \<times> 's" where
  "fl_deinitialize = (\<lambda>(fl, s).
     case (if fl_file fl \<noteq> None then fl_close fl else (Success, fl)) of
       (Inl e, fl1) \<Rightarrow> (e, fl1, s)
     | (Inr _, fl1) \<Rightarrow> (case mb_freeBuffer (fl_buffer fl1, s) of (r, mb, s1) \<Rightarrow> (ToResultCode r, fl1\<lparr>fl_buffer := mb\<rparr>, s1)))"

text \<open>clear, eof and error pass the pointer to the C library without looking at it; None is a null
  pointer.\<close>

definition fl_clear :: "'s File \<Rightarrow> 's File option" where
  "fl_clear fl = map_option (\<lambda>f. fl\<lparr>fl_file := Some (f\<lparr>fi_eof := False, fi_error := False\<rparr>)\<rparr>) (fl_file fl)"

definition fl_eof :: "'s File \<Rightarrow> bool option" where "fl_eof fl = map_option fi_eof (fl_file fl)"

definition fl_error :: "'s File \<Rightarrow> bool option" where "fl_error fl = map_option fi_error (fl_file fl)"

definition fl_flush :: "'s File \<Rightarrow> unit expected" where
  "fl_flush fl = (case fl_file fl of None \<Rightarrow> Unexpected GXF_NULL_POINTER | Some _ \<Rightarrow> Success)"

definition fl_seek :: "int \<Rightarrow> whence \<Rightarrow> 's File \<times> FileSystem \<Rightarrow> unit expected \<times> 's File" where
  "fl_seek off position = (\<lambda>(fl, sys). case fl_file fl of
     None \<Rightarrow> (Unexpected GXF_NULL_POINTER, fl)
   | Some f \<Rightarrow> (case fseek off position (f, sys) of (result, f1) \<Rightarrow>
       (if result then Success else Unexpected GXF_FAILURE, fl\<lparr>fl_file := Some f1\<rparr>)))"

definition fl_tell :: "'s File \<Rightarrow> nat expected" where
  "fl_tell fl = (case fl_file fl of None \<Rightarrow> Unexpected GXF_NULL_POINTER | Some f \<Rightarrow> Inr (fi_pos f))"

definition fl_isOpen :: "'s File \<Rightarrow> bool" where "fl_isOpen fl \<longleftrightarrow> fl_file fl \<noteq> None"

text \<open>A file that is open stays open under its new name.\<close>

definition fl_rename :: "string \<Rightarrow> 's File \<times> FileSystem \<Rightarrow> unit expected \<times> 's File \<times> FileSystem" where
  "fl_rename path = (\<lambda>(fl, sys). case sys_files sys (fl_path fl) of
     None \<Rightarrow> (Unexpected GXF_FAILURE, fl, sys)
   | Some d \<Rightarrow>
       (if \<not> sys_writable sys path then (Unexpected GXF_FAILURE, fl, sys)
        else (Success, fl\<lparr>fl_path := path, fl_file := map_option (\<lambda>f. if fi_path f = fl_path fl then f\<lparr>fi_path := path\<rparr> else f) (fl_file fl)\<rparr>,
              sys\<lparr>sys_files := (sys_files sys)(fl_path fl := None, path \<mapsto> d)\<rparr>)))"

text \<open>A file that appends, or stands at its end.\<close>

definition fl_out_wf :: "'s File \<times> FileSystem \<Rightarrow> bool" where
  "fl_out_wf = (\<lambda>(fl, sys). \<exists>f. fl_file fl = Some f \<and> fi_write f \<and>
     (fi_append f \<or> fi_pos f = length (contents sys f) \<or> fi_error f))"

definition fl_written :: "'s File \<times> FileSystem \<Rightarrow> byte list" where
  "fl_written = (\<lambda>(fl, sys). contents sys (the (fl_file fl)))"

definition fl_in_wf :: "'s File \<times> FileSystem \<Rightarrow> bool" where
  "fl_in_wf = (\<lambda>(fl, sys). \<exists>f. fl_file fl = Some f \<and> fi_read f \<and> \<not> fi_error f)"

definition fl_pending :: "'s File \<times> FileSystem \<Rightarrow> byte list" where
  "fl_pending = (\<lambda>(fl, sys). drop (fi_pos (the (fl_file fl))) (contents sys (the (fl_file fl))))"

lemma write_at_end: "write_at (length d) bs d = d @ bs"
  by (simp add: write_at_def)

lemma fwrite_error: "fwrite bs (f, sys) = (n, f1, sys1) \<Longrightarrow> fi_error f \<Longrightarrow> fi_error f1"
  by (auto simp: fwrite_def Let_def split: if_splits)

lemma fwrite_wf:
  assumes "fwrite bs (f, sys) = (n, f1, sys1)" "fi_write f" "fi_append f \<or> fi_pos f = length (contents sys f) \<or> fi_error f"
  shows "fi_write f1 \<and> (fi_append f1 \<or> fi_pos f1 = length (contents sys1 f1) \<or> fi_error f1) \<and>
    (\<not> fi_error f1 \<longrightarrow> n = length bs \<and> contents sys1 f1 = contents sys f @ bs)"
proof (cases "fi_append f \<or> fi_pos f = length (contents sys f)")
  case True
  let ?pos = "if fi_append f then length (contents sys f) else fi_pos f"
  have p: "?pos = length (contents sys f)" using True by auto
  let ?out = "take (sys_limit sys - length (contents sys f)) bs"
  have "fwrite bs (f, sys) = (length ?out, f\<lparr>fi_pos := length (contents sys f) + length ?out,
      fi_error := fi_error f \<or> length ?out < length bs\<rparr>,
      sys\<lparr>sys_files := (sys_files sys)(fi_path f \<mapsto> contents sys f @ ?out)\<rparr>)"
    using assms(2) by (simp only: fwrite_def prod.case Let_def p if_True simp_thms write_at_end if_not_P)
  then show ?thesis using assms(1,2) True by (auto simp: contents_def)
next
  case False
  then show ?thesis using assms fwrite_error [OF assms(1)] by (auto simp: fwrite_def Let_def split: if_splits)
qed

definition fl_room :: "'s File \<times> FileSystem \<Rightarrow> nat \<Rightarrow> bool" where
  "fl_room = (\<lambda>(fl, sys) n. length (fl_written (fl, sys)) + n \<le> sys_limit sys \<and> \<not> fi_error (the (fl_file fl)))"

interpretation fl_sink: sink fl_endpoint fl_written fl_out_wf fl_room
proof
  show "\<exists>n e1. ep_write fl_endpoint (Some bs) e = Some (GXF_SUCCESS, n, e1) \<and> fl_room e1 k"
    if t: "fl_out_wf e" "fl_room e (length bs + k)" for e :: "'s File \<times> FileSystem" and bs k
  proof -
    obtain fl sys f where f: "e = (fl, sys)" "fl_file fl = Some f" "fi_write f" "\<not> fi_error f"
        "length (contents sys f) + (length bs + k) \<le> sys_limit sys"
        "fi_append f \<or> fi_pos f = length (contents sys f)"
      using t by (cases e) (auto simp: fl_out_wf_def fl_room_def fl_written_def)
    then have p: "(if fi_append f then length (contents sys f) else fi_pos f) = length (contents sys f)" by auto
    have "fwrite bs (f, sys) = (length bs, f\<lparr>fi_pos := length (contents sys f) + length bs, fi_error := False\<rparr>,
        sys\<lparr>sys_files := (sys_files sys)(fi_path f \<mapsto> contents sys f @ bs)\<rparr>)"
      using f(3-5) by (simp add: fwrite_def p write_at_end Let_def)
    then show ?thesis using f by (simp add: fl_endpoint_def fl_write_abi_def fl_room_def fl_written_def contents_def)
  qed
  fix e :: "'s File \<times> FileSystem" and bs n e1
  assume e: "fl_out_wf e"
  obtain fl sys f where f: "e = (fl, sys)" "fl_file fl = Some f" "fi_write f"
      "fi_append f \<or> fi_pos f = length (contents sys f) \<or> fi_error f"
    using e by (cases e) (auto simp: fl_out_wf_def)
  obtain m f1 sys1 where w: "fwrite bs (f, sys) = (m, f1, sys1)" by (metis prod.exhaust)
  note W = fwrite_wf [OF w f(3,4)]
  show "\<exists>code n e1. ep_write fl_endpoint (Some bs) e = Some (code, n, e1) \<and> fl_out_wf e1"
    using W f w by (auto simp: fl_endpoint_def fl_write_abi_def fl_out_wf_def)
  assume "ep_write fl_endpoint (Some bs) e = Some (GXF_SUCCESS, n, e1)"
  then show "n = length bs \<and> fl_written e1 = fl_written e @ bs" using W f w
    by (auto simp: fl_endpoint_def fl_write_abi_def fl_written_def split: if_splits)
qed

interpretation fl_source: source fl_endpoint fl_pending fl_in_wf
proof
  fix e :: "'s File \<times> FileSystem" and n
  assume e: "fl_in_wf e" "n \<le> length (fl_pending e)"
  obtain fl sys where [simp]: "e = (fl, sys)" by fastforce
  show "\<exists>e1. ep_read fl_endpoint False n e = Some (GXF_SUCCESS, take n (fl_pending e), e1) \<and>
      fl_pending e1 = drop n (fl_pending e) \<and> fl_in_wf e1"
    using e by (auto simp: fl_endpoint_def fl_read_abi_def fread_def fl_pending_def fl_in_wf_def Let_def contents_def
        add.commute min_def)
qed

text \<open>At the end of the file a read reports success with fewer bytes than asked for.\<close>

lemma fl_short_read:
  assumes "fl_in_wf e" "length (fl_pending e) < n"
  shows "\<exists>e1. fl_read_abi False n e = Some (GXF_SUCCESS, fl_pending e, e1)"
  using assms by (cases e) (auto simp: fl_in_wf_def fl_pending_def fl_read_abi_def fread_def Let_def)

lemma eof_of_closed_file: "fl_file fl = None \<Longrightarrow> fl_eof fl = None \<and> fl_error fl = None \<and> fl_clear fl = None"
  by (simp add: fl_eof_def fl_error_def fl_clear_def)

end
