(* ===== verification/Entity_Serialization.thy ===== *)
theory Entity_Serialization
  imports Endpoints Runtime_Entities
begin

text \<open>
  Serialization of entities: the headers and loops of gxf/serialization/std_entity_serializer.cpp, the
  tables of component_serializer.cpp, the serializers of std_component_serializer.cpp, and the serializer
  of identifiers (std_entity_id_serializer.cpp).  The runtime is that of Runtime_Entities; an endpoint is
  any pair of functions for writing and reading bytes.  The contents of the components are a state of
  their own, which the functions of the component serializers read and write at the pointer of a
  component.  The copies of an Entity that are made and destroyed inside of one call of the serializer
  are left out, since they add to the count and take it back; the first and the last release are kept.
\<close>

section \<open>Sessions\<close>

text \<open>What a serializer works with: the runtime, the contents of components, the endpoint, the cache of
  serializers by type, and the two sequence numbers.\<close>

record ('u, 'w, 'e) Session =
  se_rt :: "'u Runtime"
  se_objects :: 'w
  se_ep :: 'e
  se_cache :: "gxf_tid_t \<rightharpoonup> nat"
  se_outgoing :: uint64
  se_incoming :: uint64

type_synonym ('s, 'a) step = "'s \<Rightarrow> ('a expected \<times> 's) option"

text \<open>and_then and map of Expected: the next function is called when there is a value.\<close>

definition and_then :: "('s, 'a) step \<Rightarrow> ('a \<Rightarrow> ('s, 'b) step) \<Rightarrow> ('s, 'b) step" where
  "and_then m f s = (case m s of
     None \<Rightarrow> None | Some (Inl e, s1) \<Rightarrow> Some (Inl e, s1) | Some (Inr a, s1) \<Rightarrow> f a s1)"

definition value_of :: "'a \<Rightarrow> ('s, 'a) step" where
  "value_of a s = Some (Inr a, s)"

text \<open>A table of serializers; a function takes the pointer of a component.  None stands for nullptr.\<close>

type_synonym ('w, 'e) Serializer = "nat \<Rightarrow> ('w \<times> 'e, nat) step"
type_synonym ('w, 'e) Deserializer = "nat \<Rightarrow> ('w \<times> 'e, unit) step"

record ('w, 'e) SerializerFunctions =
  sf_serializer :: "('w, 'e) Serializer option"
  sf_deserializer :: "('w, 'e) Deserializer option"

type_synonym ('w, 'e) ComponentSerializer = "gxf_tid_t \<rightharpoonup> ('w, 'e) SerializerFunctions"

text \<open>cf_construct is what the constructor of a type does to the contents, cf_stack what a local variable
  of that size holds before it is written, cf_max_string the longest string that can be made.\<close>

record ('u, 'w, 'e) Config =
  cf_env :: "'u Env"
  cf_endpoint :: "'e Endpoint"
  cf_serializers :: "('w, 'e) ComponentSerializer list"
  cf_big_endian :: bool
  cf_construct :: "gxf_tid_t \<Rightarrow> nat \<Rightarrow> 'w \<Rightarrow> 'w"
  cf_stack :: "nat \<Rightarrow> byte list"
  cf_max_string :: nat

section \<open>Tables of serializers\<close>

definition getSerializer :: "('w, 'e) ComponentSerializer \<Rightarrow> gxf_tid_t \<Rightarrow> ('w, 'e) Serializer expected" where
  "getSerializer m tid = (case m tid of
     None \<Rightarrow> Unexpected GXF_FAILURE
   | Some fs \<Rightarrow> (case sf_serializer fs of None \<Rightarrow> Unexpected GXF_FAILURE | Some f \<Rightarrow> Inr f))"

definition getDeserializer :: "('w, 'e) ComponentSerializer \<Rightarrow> gxf_tid_t \<Rightarrow> ('w, 'e) Deserializer expected" where
  "getDeserializer m tid = (case m tid of
     None \<Rightarrow> Unexpected GXF_FAILURE
   | Some fs \<Rightarrow> (case sf_deserializer fs of None \<Rightarrow> Unexpected GXF_FAILURE | Some f \<Rightarrow> Inr f))"

definition setSerializer :: "gxf_tid_t \<Rightarrow> ('w, 'e) Serializer option \<Rightarrow> ('w, 'e) ComponentSerializer \<Rightarrow>
    unit expected \<times> ('w, 'e) ComponentSerializer" where
  "setSerializer tid f m = (case m tid of
     None \<Rightarrow> (Success, m(tid \<mapsto> \<lparr>sf_serializer = f, sf_deserializer = None\<rparr>))
   | Some fs \<Rightarrow>
       (if sf_serializer fs \<noteq> None then (Unexpected GXF_FAILURE, m)
        else (Success, m(tid \<mapsto> fs\<lparr>sf_serializer := f\<rparr>))))"

definition setDeserializer :: "gxf_tid_t \<Rightarrow> ('w, 'e) Deserializer option \<Rightarrow> ('w, 'e) ComponentSerializer \<Rightarrow>
    unit expected \<times> ('w, 'e) ComponentSerializer" where
  "setDeserializer tid f m = (case m tid of
     None \<Rightarrow> (Success, m(tid \<mapsto> \<lparr>sf_serializer = None, sf_deserializer = f\<rparr>))
   | Some fs \<Rightarrow>
       (if sf_deserializer fs \<noteq> None then (Unexpected GXF_FAILURE, m)
        else (Success, m(tid \<mapsto> fs\<lparr>sf_deserializer := f\<rparr>))))"

definition clearSerializer :: "gxf_tid_t \<Rightarrow> ('w, 'e) ComponentSerializer \<Rightarrow> unit expected \<times> ('w, 'e) ComponentSerializer" where
  "clearSerializer tid = setSerializer tid None"

definition clearDeserializer :: "gxf_tid_t \<Rightarrow> ('w, 'e) ComponentSerializer \<Rightarrow> unit expected \<times> ('w, 'e) ComponentSerializer" where
  "clearDeserializer tid = setDeserializer tid None"

definition isSupported :: "('w, 'e) ComponentSerializer \<Rightarrow> gxf_tid_t \<Rightarrow> bool" where
  "isSupported m tid \<longleftrightarrow> ok (getSerializer m tid)"

text \<open>A serializer that is set cannot be cleared: clearSerializer sets the null function, and setSerializer
  refuses to replace a serializer.\<close>

lemma clear_refused:
  "getSerializer m tid = Inr f \<Longrightarrow> clearSerializer tid m = (Inl GXF_FAILURE, m)"
  "getDeserializer m tid = Inr g \<Longrightarrow> clearDeserializer tid m = (Inl GXF_FAILURE, m)"
  by (auto simp: getSerializer_def getDeserializer_def clearSerializer_def clearDeserializer_def setSerializer_def
      setDeserializer_def split: option.splits)

text \<open>The serialization of one component, found by its identifier.\<close>

definition on_objects :: "('w \<times> 'e, 'a) step \<Rightarrow> (('u, 'w, 'e) Session, 'a) step" where
  "on_objects f s = map_option (\<lambda>(r, w, e). (r, s\<lparr>se_objects := w, se_ep := e\<rparr>)) (f (se_objects s, se_ep s))"

definition component_at :: "'u Runtime \<Rightarrow> gxf_uid_t \<Rightarrow> (gxf_tid_t \<times> nat) expected" where
  "component_at rt cid = (case GxfComponentType rt cid of
     (code, None) \<Rightarrow> Unexpected code
   | (code, Some tid) \<Rightarrow> (case GxfComponentPointer rt cid tid of Inl e \<Rightarrow> Unexpected e | Inr p \<Rightarrow> Inr (tid, p)))"

definition serializeComponent :: "('w, 'e) ComponentSerializer \<Rightarrow> gxf_uid_t \<Rightarrow> (('u, 'w, 'e) Session, nat) step" where
  "serializeComponent m cid s = (case component_at (se_rt s) cid of
     Inl e \<Rightarrow> Some (Unexpected e, s)
   | Inr (tid, p) \<Rightarrow> (case getSerializer m tid of Inl e \<Rightarrow> Some (Unexpected e, s) | Inr f \<Rightarrow> on_objects (f p) s))"

definition deserializeComponent :: "('w, 'e) ComponentSerializer \<Rightarrow> gxf_uid_t \<Rightarrow> (('u, 'w, 'e) Session, unit) step" where
  "deserializeComponent m cid s = (case component_at (se_rt s) cid of
     Inl e \<Rightarrow> Some (Unexpected e, s)
   | Inr (tid, p) \<Rightarrow> (case getDeserializer m tid of Inl e \<Rightarrow> Some (Unexpected e, s) | Inr f \<Rightarrow> on_objects (f p) s))"

section \<open>Headers\<close>

record EntityHeader =
  eh_serialized_size :: uint64
  eh_checksum :: "32 word"
  eh_sequence_number :: uint64
  eh_flags :: "32 word"
  eh_component_count :: uint64
  eh_reserved :: uint64

record ComponentHeader =
  ch_serialized_size :: uint64
  ch_tid :: gxf_tid_t
  ch_name_size :: uint64

definition htole64 :: "bool \<Rightarrow> uint64 \<Rightarrow> uint64" where "htole64 be x = of_nat (htole be 8 (unat x))"
definition htole32 :: "bool \<Rightarrow> 32 word \<Rightarrow> 32 word" where "htole32 be x = of_nat (htole be 4 (unat x))"

text \<open>The packed structures in memory.\<close>

definition entity_header_mem :: "bool \<Rightarrow> EntityHeader \<Rightarrow> byte list" where
  "entity_header_mem be h = to_mem be 8 (unat (eh_serialized_size h)) @ to_mem be 4 (unat (eh_checksum h)) @
     to_mem be 8 (unat (eh_sequence_number h)) @ to_mem be 4 (unat (eh_flags h)) @
     to_mem be 8 (unat (eh_component_count h)) @ to_mem be 8 (unat (eh_reserved h))"

definition entity_header_of :: "bool \<Rightarrow> byte list \<Rightarrow> EntityHeader" where
  "entity_header_of be bs = \<lparr>eh_serialized_size = of_nat (of_mem be (take 8 bs)),
     eh_checksum = of_nat (of_mem be (take 4 (drop 8 bs))), eh_sequence_number = of_nat (of_mem be (take 8 (drop 12 bs))),
     eh_flags = of_nat (of_mem be (take 4 (drop 20 bs))), eh_component_count = of_nat (of_mem be (take 8 (drop 24 bs))),
     eh_reserved = of_nat (of_mem be (take 8 (drop 32 bs)))\<rparr>"

definition component_header_mem :: "bool \<Rightarrow> ComponentHeader \<Rightarrow> byte list" where
  "component_header_mem be h = to_mem be 8 (unat (ch_serialized_size h)) @ to_mem be 8 (unat (hash1 (ch_tid h))) @
     to_mem be 8 (unat (hash2 (ch_tid h))) @ to_mem be 8 (unat (ch_name_size h))"

definition component_header_of :: "bool \<Rightarrow> byte list \<Rightarrow> ComponentHeader" where
  "component_header_of be bs = \<lparr>ch_serialized_size = of_nat (of_mem be (take 8 bs)),
     ch_tid = Tid (of_nat (of_mem be (take 8 (drop 8 bs)))) (of_nat (of_mem be (take 8 (drop 16 bs)))),
     ch_name_size = of_nat (of_mem be (take 8 (drop 24 bs)))\<rparr>"

text \<open>Writing to and reading from the endpoint.  A local variable that is read keeps what it held where the
  read stores nothing.\<close>

definition se_write :: "('u, 'w, 'e) Config \<Rightarrow> byte list \<Rightarrow> (('u, 'w, 'e) Session, nat) step" where
  "se_write cf bs s = map_option (\<lambda>(r, e). (r, s\<lparr>se_ep := e\<rparr>)) (Endpoint_write (cf_endpoint cf) (Some bs) (se_ep s))"

definition se_read :: "('u, 'w, 'e) Config \<Rightarrow> byte list \<Rightarrow> (('u, 'w, 'e) Session, byte list) step" where
  "se_read cf old s = map_option
     (\<lambda>(r, bs, e). (map_sum (\<lambda>c. c) (\<lambda>_. bs @ drop (length bs) old) r, s\<lparr>se_ep := e\<rparr>))
     (Endpoint_read (cf_endpoint cf) False (length old) (se_ep s))"

definition SerializeEntityHeader :: "('u, 'w, 'e) Config \<Rightarrow> EntityHeader \<Rightarrow> (('u, 'w, 'e) Session, nat) step" where
  "SerializeEntityHeader cf h = (let be = cf_big_endian cf;
       header = h\<lparr>eh_serialized_size := htole64 be (eh_serialized_size h), eh_checksum := htole32 be (eh_checksum h),
         eh_sequence_number := htole64 be (eh_sequence_number h), eh_flags := htole32 be (eh_flags h),
         eh_component_count := htole64 be (eh_component_count h), eh_reserved := htole64 be (eh_reserved h)\<rparr>
     in and_then (se_write cf (entity_header_mem be header)) (\<lambda>_. value_of 40))"

definition DeserializeEntityHeader :: "('u, 'w, 'e) Config \<Rightarrow> (('u, 'w, 'e) Session, EntityHeader) step" where
  "DeserializeEntityHeader cf = and_then (se_read cf (cf_stack cf 40)) (\<lambda>bs.
     let be = cf_big_endian cf; h = entity_header_of be bs
     in value_of (h\<lparr>eh_serialized_size := htole64 be (eh_serialized_size h), eh_checksum := htole32 be (eh_checksum h),
         eh_sequence_number := htole64 be (eh_sequence_number h), eh_flags := htole32 be (eh_flags h),
         eh_component_count := htole64 be (eh_component_count h), eh_reserved := htole64 be (eh_reserved h)\<rparr>))"

definition SerializeComponentHeader :: "('u, 'w, 'e) Config \<Rightarrow> ComponentHeader \<Rightarrow> (('u, 'w, 'e) Session, nat) step" where
  "SerializeComponentHeader cf h = (let be = cf_big_endian cf;
       header = h\<lparr>ch_serialized_size := htole64 be (ch_serialized_size h),
         ch_tid := Tid (htole64 be (hash1 (ch_tid h))) (htole64 be (hash2 (ch_tid h))),
         ch_name_size := htole64 be (ch_name_size h)\<rparr>
     in and_then (se_write cf (component_header_mem be header)) (\<lambda>_. value_of 32))"

definition DeserializeComponentHeader :: "('u, 'w, 'e) Config \<Rightarrow> (('u, 'w, 'e) Session, ComponentHeader) step" where
  "DeserializeComponentHeader cf = and_then (se_read cf (cf_stack cf 32)) (\<lambda>bs.
     let be = cf_big_endian cf; h = component_header_of be bs
     in value_of (h\<lparr>ch_serialized_size := htole64 be (ch_serialized_size h),
         ch_tid := Tid (htole64 be (hash1 (ch_tid h))) (htole64 be (hash2 (ch_tid h))),
         ch_name_size := htole64 be (ch_name_size h)\<rparr>))"

section \<open>StdEntitySerializer\<close>

record ComponentEntry =
  ce_header :: ComponentHeader
  ce_component :: UntypedHandle
  ce_serializer :: nat

definition es_initialize :: "('u, 'w, 'e) Session \<Rightarrow> gxf_result_t \<times> ('u, 'w, 'e) Session" where
  "es_initialize s = (GXF_SUCCESS, s\<lparr>se_cache := Map.empty, se_outgoing := 0, se_incoming := 0\<rparr>)"

text \<open>The first serializer of the list that supports the type, which is then cached.\<close>

fun first_supporting :: "gxf_tid_t \<Rightarrow> nat \<Rightarrow> ('w, 'e) ComponentSerializer list \<Rightarrow> nat expected" where
  "first_supporting tid i [] = Unexpected GXF_QUERY_NOT_FOUND"
| "first_supporting tid i (m # ms) = (if isSupported m tid then Inr i else first_supporting tid (i + 1) ms)"

definition findComponentSerializer :: "('u, 'w, 'e) Config \<Rightarrow> gxf_tid_t \<Rightarrow> ('u, 'w, 'e) Session \<Rightarrow>
    nat expected \<times> ('u, 'w, 'e) Session" where
  "findComponentSerializer cf tid s = (case se_cache s tid of
     Some i \<Rightarrow> (Inr i, s)
   | None \<Rightarrow> (case first_supporting tid 0 (cf_serializers cf) of
       Inl e \<Rightarrow> (Unexpected e, s) | Inr i \<Rightarrow> (Inr i, s\<lparr>se_cache := (se_cache s)(tid \<mapsto> i)\<rparr>)))"

fun createComponentEntries :: "('u, 'w, 'e) Config \<Rightarrow> UntypedHandle list \<Rightarrow> ('u, 'w, 'e) Session \<Rightarrow>
    ComponentEntry list \<times> ('u, 'w, 'e) Session" where
  "createComponentEntries cf [] s = ([], s)"
| "createComponentEntries cf (u # us) s = (case findComponentSerializer cf (uh_tid u) s of
     (Inl _, s1) \<Rightarrow> createComponentEntries cf us s1
   | (Inr i, s1) \<Rightarrow> (case createComponentEntries cf us s1 of (es, s2) \<Rightarrow>
       (\<lparr>ce_header = \<lparr>ch_serialized_size = 0, ch_tid = uh_tid u,
           ch_name_size = of_nat (length (c_str (uh_name (se_rt s1) u)))\<rparr>,
         ce_component = u, ce_serializer = i\<rparr> # es, s2)))"

fun serializeComponents :: "('u, 'w, 'e) Config \<Rightarrow> ComponentEntry list \<Rightarrow> nat \<Rightarrow> (('u, 'w, 'e) Session, nat) step" where
  "serializeComponents cf [] sz = value_of sz"
| "serializeComponents cf (c # cs) sz =
     and_then (SerializeComponentHeader cf (ce_header c)) (\<lambda>component_header_size.
     and_then (\<lambda>s. se_write cf (bytes_of (take (unat (ch_name_size (ce_header c))) (uh_name (se_rt s) (ce_component c)))) s) (\<lambda>_.
     and_then (serializeComponent (cf_serializers cf ! ce_serializer c) (uh_cid (ce_component c))) (\<lambda>component_size.
       serializeComponents cf cs (sz + component_header_size + unat (ch_name_size (ce_header c)) + component_size))))"

text \<open>The entity is released when its components have been listed: the value that holds it is moved into
  the first function of the chain.\<close>

definition serialize_entity_abi :: "('u, 'w, 'e) Config \<Rightarrow> gxf_uid_t \<Rightarrow> (('u, 'w, 'e) Session, nat) step" where
  "serialize_entity_abi cf eid s = (case Entity_Shared eid (se_rt s) of
     (Inl e, rt1) \<Rightarrow> Some (Inl e, s\<lparr>se_rt := rt1\<rparr>)
   | (Inr _, rt1) \<Rightarrow>
       (case Entity_release (cf_env cf) eid rt1 of
          None \<Rightarrow> None
        | Some rt2 \<Rightarrow>
            (let s1 = s\<lparr>se_rt := rt2\<rparr> in
             case Entity_findAll rt1 eid of
               Inl e \<Rightarrow> Some (Inl e, s1)
             | Inr us \<Rightarrow> (case createComponentEntries cf us s1 of (entries, s2) \<Rightarrow>
                 and_then (SerializeEntityHeader cf \<lparr>eh_serialized_size = 0, eh_checksum = 0,
                     eh_sequence_number = se_outgoing s2, eh_flags = 0, eh_component_count = of_nat (length entries),
                     eh_reserved = 0\<rparr>)
                   (\<lambda>sz. serializeComponents cf entries sz)
                   (s2\<lparr>se_outgoing := se_outgoing s2 + 1\<rparr>)))))"

text \<open>The name of a component is read into a string of the size in its header; Entity::add takes it as a C
  string.\<close>

definition read_name :: "('u, 'w, 'e) Config \<Rightarrow> uint64 \<Rightarrow> (('u, 'w, 'e) Session, string) step" where
  "read_name cf n s = (if unat n > cf_max_string cf then Some (Unexpected GXF_OUT_OF_MEMORY, s)
     else and_then (se_read cf (replicate (unat n) 0)) (\<lambda>bs. value_of (string_of bs)) s)"

definition add_component :: "('u, 'w, 'e) Config \<Rightarrow> gxf_uid_t \<Rightarrow> gxf_tid_t \<Rightarrow> string \<Rightarrow> (('u, 'w, 'e) Session, gxf_uid_t) step" where
  "add_component cf eid tid name s = map_option
     (\<lambda>(r, rt1). case r of Inl e \<Rightarrow> (Inl e, s\<lparr>se_rt := rt1\<rparr>)
        | Inr (cid, p) \<Rightarrow> (Inr cid, s\<lparr>se_rt := rt1, se_objects := cf_construct cf tid p (se_objects s)\<rparr>))
     (Entity_add (cf_env cf) eid tid (Some (c_str name)) (se_rt s))"

fun deserializeComponents :: "('u, 'w, 'e) Config \<Rightarrow> nat \<Rightarrow> gxf_uid_t \<Rightarrow> (('u, 'w, 'e) Session, unit) step" where
  "deserializeComponents cf 0 eid = value_of ()"
| "deserializeComponents cf (Suc n) eid =
     and_then (DeserializeComponentHeader cf) (\<lambda>h.
     and_then (\<lambda>s. Some (findComponentSerializer cf (ch_tid h) s)) (\<lambda>i.
     and_then (read_name cf (ch_name_size h)) (\<lambda>name.
     and_then (add_component cf eid (ch_tid h) name) (\<lambda>cid.
     and_then (deserializeComponent (cf_serializers cf ! i) cid) (\<lambda>_.
       deserializeComponents cf n eid)))))"

text \<open>The part that both ways of deserializing share: a sequence number that is not the expected one is
  taken over.\<close>

definition deserialize_into :: "('u, 'w, 'e) Config \<Rightarrow> gxf_uid_t \<Rightarrow> (('u, 'w, 'e) Session, unit) step" where
  "deserialize_into cf eid = and_then (DeserializeEntityHeader cf) (\<lambda>h s.
     let s1 = (if eh_sequence_number h \<noteq> se_incoming s then s\<lparr>se_incoming := eh_sequence_number h\<rparr> else s) in
     deserializeComponents cf (unat (eh_component_count h)) eid (s1\<lparr>se_incoming := se_incoming s1 + 1\<rparr>))"

definition deserialize_entity_header_abi :: "('u, 'w, 'e) Config \<Rightarrow> (('u, 'w, 'e) Session, gxf_uid_t) step" where
  "deserialize_entity_header_abi cf s = (case Entity_New (cf_env cf) None (se_rt s) of
     None \<Rightarrow> None
   | Some (Inl e, rt1) \<Rightarrow> Some (Inl e, s\<lparr>se_rt := rt1\<rparr>)
   | Some (Inr eid, rt1) \<Rightarrow> (case deserialize_into cf eid (s\<lparr>se_rt := rt1\<rparr>) of
       None \<Rightarrow> None
     | Some (Inr _, s1) \<Rightarrow> Some (Inr eid, s1)
     | Some (Inl e, s1) \<Rightarrow> map_option (\<lambda>rt2. (Inl e, s1\<lparr>se_rt := rt2\<rparr>)) (Entity_release (cf_env cf) eid (se_rt s1))))"

definition deserialize_entity_abi :: "('u, 'w, 'e) Config \<Rightarrow> gxf_uid_t \<Rightarrow> (('u, 'w, 'e) Session, unit) step" where
  "deserialize_entity_abi cf eid s = (case Entity_Shared eid (se_rt s) of
     (Inl e, rt1) \<Rightarrow> Some (Inl e, s\<lparr>se_rt := rt1\<rparr>)
   | (Inr _, rt1) \<Rightarrow> (case deserialize_into cf eid (s\<lparr>se_rt := rt1\<rparr>) of
       None \<Rightarrow> None
     | Some (r, s1) \<Rightarrow> map_option (\<lambda>rt2. (r, s1\<lparr>se_rt := rt2\<rparr>)) (Entity_release (cf_env cf) eid (se_rt s1))))"

section \<open>StdEntityIdSerializer\<close>

text \<open>Serializing takes a count for the receiver, which deserializing gives back.  The sequence number is not
  converted when it is read, and is only compared for a log.  A header that cannot be read is used
  all the same, which ends the program.\<close>

definition id_serialize_entity_abi :: "('u, 'w, 'e) Config \<Rightarrow> gxf_uid_t \<Rightarrow> (('u, 'w, 'e) Session, nat) step" where
  "id_serialize_entity_abi cf eid s = (let be = cf_big_endian cf; rt1 = snd (GxfEntityRefCountInc eid (se_rt s)) in
     and_then (se_write cf (to_mem be 8 (htole be 8 (nat (eid mod 2 ^ 64))) @ to_mem be 8 (htole be 8 (unat (se_outgoing s)))))
       (\<lambda>_. value_of 16) (s\<lparr>se_rt := rt1, se_outgoing := se_outgoing s + 1\<rparr>))"

definition id_deserialize_entity_header_abi :: "('u, 'w, 'e) Config \<Rightarrow> (('u, 'w, 'e) Session, gxf_uid_t) step" where
  "id_deserialize_entity_header_abi cf s = (case se_read cf (cf_stack cf 16) s of
     None \<Rightarrow> None
   | Some (Inl e, s1) \<Rightarrow> None
   | Some (Inr bs, s1) \<Rightarrow>
       (let be = cf_big_endian cf; eid = sint (of_nat (htole be 8 (of_mem be (take 8 bs))) :: 64 word);
            s2 = s1\<lparr>se_incoming := se_incoming s1 + 1\<rparr> in
        case Entity_Shared eid (se_rt s2) of (maybe_entity, rt1) \<Rightarrow>
          (case GxfEntityRefCountDec (cf_env cf) eid rt1 of
             None \<Rightarrow> None | Some (_, rt2) \<Rightarrow> Some (maybe_entity, s2\<lparr>se_rt := rt2\<rparr>))))"

section \<open>The format on the wire\<close>

text \<open>Headers are little-endian on the wire, whatever the machine.\<close>

lemma htole_less: "x < 256 ^ n \<Longrightarrow> htole be n x < 256 ^ n"
  using of_le_less [of "rev (le_bytes n x)"] by (simp add: htole_def)

lemma of_mem_less: "length bs = n \<Longrightarrow> of_mem be bs < 256 ^ n"
  using of_le_less [of "if be then rev bs else bs"] by (auto simp: of_mem_def)

lemma unat_less_256: "unat (x :: uint64) < 256 ^ 8" "unat (y :: 32 word) < 256 ^ 4"
  using unsigned_less [of x, where 'a = nat] unsigned_less [of y, where 'a = nat] by simp_all

lemma unat_of_nat_256: "k < 256 ^ 8 \<Longrightarrow> unat (of_nat k :: uint64) = k" "k < 256 ^ 4 \<Longrightarrow> unat (of_nat k :: 32 word) = k"
  by (simp_all add: unat_of_nat)

lemma le_bytes_small: "x < 256 ^ n \<Longrightarrow> of_le (le_bytes n x) = x"
  by simp

lemma mem_htole [simp]:
  "to_mem be 8 (unat (htole64 be x)) = le_bytes 8 (unat x)" "to_mem be 4 (unat (htole32 be y)) = le_bytes 4 (unat y)"
  using htole_less [OF unat_less_256(1), of be x] htole_less [OF unat_less_256(2), of be y]
  by (simp_all only: htole64_def htole32_def unat_of_nat_256 to_mem_htole)

lemma htole_mem:
  "length bs = 8 \<Longrightarrow> htole64 be (of_nat (of_mem be bs)) = of_nat (of_le bs)"
  "length bs = 4 \<Longrightarrow> htole32 be (of_nat (of_mem be bs)) = of_nat (of_le bs)"
  using of_mem_less [of bs 8 be] of_mem_less [of bs 4 be]
  by (simp_all only: htole64_def htole32_def unat_of_nat_256 of_mem_htole)

lemma of_le_unat [simp]:
  "(of_nat (of_le (le_bytes 8 (unat x))) :: uint64) = x" "(of_nat (of_le (le_bytes 4 (unat y))) :: 32 word) = y"
  by (simp_all only: le_bytes_small [OF unat_less_256(1)] le_bytes_small [OF unat_less_256(2)] of_nat_unat ucast_id)

lemma unat_mod_64 [simp]: "unat (x :: uint64) mod 18446744073709551616 = unat x"
  using unat_less_256(1) [of x] by simp

definition wire_entity_header :: "uint64 \<Rightarrow> uint64 \<Rightarrow> byte list" where
  "wire_entity_header seq n = le_bytes 8 0 @ le_bytes 4 0 @ le_bytes 8 (unat seq) @ le_bytes 4 0 @ le_bytes 8 (unat n) @ le_bytes 8 0"

definition wire_component_header :: "gxf_tid_t \<Rightarrow> nat \<Rightarrow> byte list" where
  "wire_component_header tid n = le_bytes 8 0 @ le_bytes 8 (unat (hash1 tid)) @ le_bytes 8 (unat (hash2 tid)) @ le_bytes 8 n"

text \<open>An entity on the wire: the types, names and contents of its components.\<close>

type_synonym wire_component = "gxf_tid_t \<times> string \<times> byte list"

definition wire_component :: "wire_component \<Rightarrow> byte list" where
  "wire_component = (\<lambda>(tid, name, v). wire_component_header tid (length name) @ bytes_of name @ v)"

definition wire_entity :: "uint64 \<Rightarrow> wire_component list \<Rightarrow> byte list" where
  "wire_entity seq cs = wire_entity_header seq (of_nat (length cs)) @ concat (map wire_component cs)"

lemma length_wire_headers [simp]: "length (wire_entity_header seq n) = 40" "length (wire_component_header tid k) = 32"
  by (simp_all add: wire_entity_header_def wire_component_header_def)

lemma and_then_simps [simp]:
  "m s = None \<Longrightarrow> and_then m f s = None" "m s = Some (Inl e, s1) \<Longrightarrow> and_then m f s = Some (Inl e, s1)"
  "m s = Some (Inr a, s1) \<Longrightarrow> and_then m f s = f a s1"
  by (simp_all add: and_then_def)

lemma take_append_exact: "length xs = n \<Longrightarrow> take n (xs @ ys) = xs" "length xs = n \<Longrightarrow> drop n (xs @ ys) = ys"
  by simp_all

lemma entity_header_of_wire:
  "entity_header_of be (wire_entity_header seq n) = \<lparr>eh_serialized_size = of_nat (of_mem be (le_bytes 8 0)),
     eh_checksum = of_nat (of_mem be (le_bytes 4 0)), eh_sequence_number = of_nat (of_mem be (le_bytes 8 (unat seq))),
     eh_flags = of_nat (of_mem be (le_bytes 4 0)), eh_component_count = of_nat (of_mem be (le_bytes 8 (unat n))),
     eh_reserved = of_nat (of_mem be (le_bytes 8 0))\<rparr>"
  by (simp add: entity_header_of_def wire_entity_header_def)

lemma component_header_of_wire:
  "component_header_of be (wire_component_header tid n) = \<lparr>ch_serialized_size = of_nat (of_mem be (le_bytes 8 0)),
     ch_tid = Tid (of_nat (of_mem be (le_bytes 8 (unat (hash1 tid))))) (of_nat (of_mem be (le_bytes 8 (unat (hash2 tid))))),
     ch_name_size = of_nat (of_mem be (le_bytes 8 n))\<rparr>"
  by (simp add: component_header_of_def wire_component_header_def)

context sink
begin

lemma se_write_ok:
  assumes "cf_endpoint cf = ep" "wr_inv (se_ep s)" "room (se_ep s) (length bs + k)"
  shows "\<exists>e1. se_write cf bs s = Some (Inr (length bs), s\<lparr>se_ep := e1\<rparr>) \<and> written e1 = written (se_ep s) @ bs \<and>
    wr_inv e1 \<and> room e1 k"
  using Endpoint_write_ok [OF assms(2,3)] assms(1) by (auto simp: se_write_def)

lemma SerializeEntityHeader_ok:
  assumes "cf_endpoint cf = ep" "wr_inv (se_ep s)" "room (se_ep s) (40 + k)"
  shows "\<exists>e1. SerializeEntityHeader cf \<lparr>eh_serialized_size = 0, eh_checksum = 0, eh_sequence_number = seq, eh_flags = 0,
      eh_component_count = n, eh_reserved = 0\<rparr> s = Some (Inr 40, s\<lparr>se_ep := e1\<rparr>) \<and>
    written e1 = written (se_ep s) @ wire_entity_header seq n \<and> wr_inv e1 \<and> room e1 k"
  using se_write_ok [OF assms(1,2), of "wire_entity_header seq n" k] assms(3)
  by (auto simp: SerializeEntityHeader_def Let_def entity_header_mem_def wire_entity_header_def value_of_def)

lemma SerializeComponentHeader_ok:
  assumes "cf_endpoint cf = ep" "wr_inv (se_ep s)" "room (se_ep s) (32 + k)" "n < 2 ^ 64"
  shows "\<exists>e1. SerializeComponentHeader cf \<lparr>ch_serialized_size = 0, ch_tid = tid, ch_name_size = of_nat n\<rparr> s =
      Some (Inr 32, s\<lparr>se_ep := e1\<rparr>) \<and>
    written e1 = written (se_ep s) @ wire_component_header tid n \<and> wr_inv e1 \<and> room e1 k"
  using se_write_ok [OF assms(1,2), of "wire_component_header tid n" k] assms(3,4)
  by (auto simp: SerializeComponentHeader_def Let_def component_header_mem_def wire_component_header_def value_of_def
      unat_of_nat)

end

context source
begin

lemma se_read_ok:
  assumes "cf_endpoint cf = ep" "rd_inv (se_ep s)" "pending (se_ep s) = bs @ rest" "length old = length bs"
  shows "\<exists>e1. se_read cf old s = Some (Inr bs, s\<lparr>se_ep := e1\<rparr>) \<and> pending e1 = rest \<and> rd_inv e1"
  using Endpoint_read_ok [OF assms(2,3), of "length old"] assms(1,4) by (auto simp: se_read_def)

lemma DeserializeEntityHeader_ok:
  assumes "cf_endpoint cf = ep" "rd_inv (se_ep s)" "pending (se_ep s) = wire_entity_header seq n @ rest"
    "length (cf_stack cf 40) = 40"
  shows "\<exists>h e1. DeserializeEntityHeader cf s = Some (Inr h, s\<lparr>se_ep := e1\<rparr>) \<and> eh_sequence_number h = seq \<and>
    eh_component_count h = n \<and> pending e1 = rest \<and> rd_inv e1"
  using se_read_ok [OF assms(1-3), of "cf_stack cf 40"] assms(4)
  by (fastforce simp: DeserializeEntityHeader_def entity_header_of_wire Let_def value_of_def htole_mem)

lemma DeserializeComponentHeader_ok:
  assumes "cf_endpoint cf = ep" "rd_inv (se_ep s)" "pending (se_ep s) = wire_component_header tid n @ rest"
    "length (cf_stack cf 32) = 32" "n < 2 ^ 64"
  shows "\<exists>h e1. DeserializeComponentHeader cf s = Some (Inr h, s\<lparr>se_ep := e1\<rparr>) \<and> ch_tid h = tid \<and>
    ch_name_size h = of_nat n \<and> pending e1 = rest \<and> rd_inv e1"
  using se_read_ok [OF assms(1-3), of "cf_stack cf 32"] assms(4,5)
  by (fastforce simp: DeserializeComponentHeader_def component_header_of_wire Let_def value_of_def htole_mem)

lemma read_name_ok:
  assumes "cf_endpoint cf = ep" "rd_inv (se_ep s)" "pending (se_ep s) = bytes_of name @ rest"
    "length name \<le> cf_max_string cf" "length name < 2 ^ 64"
  shows "\<exists>e1. read_name cf (of_nat (length name)) s = Some (Inr name, s\<lparr>se_ep := e1\<rparr>) \<and> pending e1 = rest \<and> rd_inv e1"
  using se_read_ok [OF assms(1-3), of "replicate (length name) 0"] assms(4,5)
  by (auto simp: read_name_def value_of_def unat_of_nat)

end

section \<open>The components of an entity\<close>

definition component_name :: "'u Runtime \<Rightarrow> gxf_uid_t \<Rightarrow> string" where
  "component_name rt cid = (case GxfComponentName rt cid of (_, Some n) \<Rightarrow> n | (_, None) \<Rightarrow> '''')"

definition handle_of :: "ComponentItem \<Rightarrow> UntypedHandle" where
  "handle_of c = \<lparr>uh_cid = ci_cid c, uh_tid = ci_tid c, uh_pointer = ci_raw_pointer c\<rparr>"

lemma uh_name_handle [simp]: "uh_name rt (handle_of c) = component_name rt (ci_cid c)"
  by (simp add: uh_name_def handle_of_def component_name_def)

definition supported :: "('u, 'w, 'e) Config \<Rightarrow> gxf_tid_t \<Rightarrow> bool" where
  "supported cf tid \<longleftrightarrow> (\<exists>m\<in>set (cf_serializers cf). isSupported m tid)"

text \<open>What an entity holds that a serializer supports: type, name and the bytes that stand for the
  contents.\<close>

definition described :: "('u, 'w, 'e) Config \<Rightarrow> (gxf_tid_t \<Rightarrow> nat \<Rightarrow> 'w \<Rightarrow> byte list) \<Rightarrow> 'u Runtime \<Rightarrow> 'w \<Rightarrow> gxf_uid_t \<Rightarrow>
    wire_component list" where
  "described cf content rt w eid =
     map (\<lambda>c. (ci_tid c, c_str (component_name rt (ci_cid c)), content (ci_tid c) (ci_raw_pointer c) w))
       (filter (\<lambda>c. supported cf (ci_tid c)) (comps_of (rt_warden rt) eid))"

text \<open>Every component of the entity can be looked up, which holds unless a removal has failed.\<close>

definition looked_up :: "'u Runtime \<Rightarrow> gxf_uid_t \<Rightarrow> bool" where
  "looked_up rt eid \<longleftrightarrow> (\<forall>c\<in>set (comps_of (rt_warden rt) eid). w_components (rt_warden rt) (ci_cid c) = Some (eid, ci_tid c))"

lemma find_cid: "distinct (map ci_cid cs) \<Longrightarrow> c \<in> set cs \<Longrightarrow> find (\<lambda>d. ci_cid c = ci_cid d) cs = Some c"
  by (induction cs) (auto, metis image_eqI)

lemma component_pointer:
  assumes "rt_wf exts rt" "looked_up rt eid" "c \<in> set (comps_of (rt_warden rt) eid)"
  shows "GxfComponentType rt (ci_cid c) = (GXF_SUCCESS, Some (ci_tid c))"
    "GxfComponentPointer rt (ci_cid c) tid = Inr (ci_raw_pointer c)"
proof -
  have l: "w_components (rt_warden rt) (ci_cid c) = Some (eid, ci_tid c)" using assms(2,3) by (simp add: looked_up_def)
  obtain i where i: "w_entities (rt_warden rt) eid = Some i" "c \<in> set (wi_components i)" "comps_of (rt_warden rt) eid = wi_components i"
    using assms(3) by (cases "w_entities (rt_warden rt) eid") (auto simp: comps_of_def)
  have "distinct (map ci_cid (wi_components i))" using comps_wfD(2) [OF rt_wfD(6) [OF assms(1)], of eid] i(3) by simp
  from find_cid [OF this i(2)] have f: "find (\<lambda>d. ci_cid c = ci_cid d) (wi_components i) = Some c" .
  show "GxfComponentType rt (ci_cid c) = (GXF_SUCCESS, Some (ci_tid c))"
    using l by (simp add: GxfComponentType_def ew_getComponentType_def value_out_def)
  show "GxfComponentPointer rt (ci_cid c) tid = Inr (ci_raw_pointer c)"
    using l f i(1) rt_wfD(4) [OF assms(1)]
    by (simp add: GxfComponentPointer_def findComponentPointer_def GxfComponentEntity_def ew_getComponentEntity_def value_out_def
        GxfEntityGetItemPtr_def ew_getEntityPtr_def ExpectedOrCodeVal_def)
qed

lemma component_at_ok:
  "rt_wf exts rt \<Longrightarrow> looked_up rt eid \<Longrightarrow> c \<in> set (comps_of (rt_warden rt) eid) \<Longrightarrow>
   component_at rt (ci_cid c) = Inr (ci_tid c, ci_raw_pointer c)"
  by (simp add: component_at_def component_pointer)

lemma create_handles_ok:
  assumes "rt_wf exts rt" "looked_up rt eid" "set cs \<subseteq> set (comps_of (rt_warden rt) eid)"
  shows "create_handles rt (map ci_cid cs) = Inr (map handle_of cs)"
  using assms(3)
proof (induction cs)
  case (Cons c cs)
  then have "c \<in> set (comps_of (rt_warden rt) eid)" by simp
  from component_pointer [OF assms(1,2) this] Cons show ?case
    by (simp add: UntypedHandle_Create_def handle_of_def)
qed simp

lemma findAll_ok:
  assumes "rt_wf exts rt" "looked_up rt eid" "eid \<in> dom (w_entities (rt_warden rt))"
  shows "Entity_findAll rt eid = Inr (map handle_of (comps_of (rt_warden rt) eid))"
proof -
  obtain i where i: "w_entities (rt_warden rt) eid = Some i" using assms(3) by blast
  then have c: "comps_of (rt_warden rt) eid = wi_components i" by (simp add: comps_of_def)
  have "length (wi_components i) \<le> kWardenComponents" using comps_wfD(1) [OF rt_wfD(6) [OF assms(1)], of eid] c by simp
  then have "GxfComponentFindAll rt eid (Some kWardenComponents) =
      (GXF_SUCCESS, Some (map ci_cid (wi_components i)), length (wi_components i))"
    using i by (simp add: GxfComponentFindAll_def ew_getEntityComponents_def copy_out_def)
  then show ?thesis using create_handles_ok [OF assms(1,2) order_refl] c by (simp add: Entity_findAll_def)
qed

text \<open>A count that is taken and given back leaves no trace while another holder remains.\<close>

lemma share_and_release:
  assumes "w_ref_count (rt_warden rt) eid = Some n" "0 < n" "eid \<noteq> kNullUid"
  shows "\<exists>rt1. Entity_Shared eid rt = (Inr eid, rt1) \<and> Entity_release env eid rt1 = Some rt \<and>
    rt1 = rt\<lparr>rt_warden := (rt_warden rt)\<lparr>w_ref_count := (w_ref_count (rt_warden rt))(eid \<mapsto> n + 1)\<rparr>\<rparr>"
proof -
  let ?c = "w_ref_count (rt_warden rt)"
  have "?c(eid \<mapsto> n) = ?c" using assms(1) by (simp add: fun_upd_idem)
  then show ?thesis using assms
    by (simp add: Entity_Shared_def GxfEntityRefCountInc_def ew_inc_eq Entity_release_def GxfEntityRefCountDec_def
        ew_decEntityRefCount_def Let_def)
qed

section \<open>Finding serializers\<close>

text \<open>The cache holds serializers that support the type.\<close>

definition cache_wf :: "('u, 'w, 'e) Config \<Rightarrow> ('u, 'w, 'e) Session \<Rightarrow> bool" where [inv_defs]:
  "cache_wf cf s \<longleftrightarrow> (\<forall>tid i. se_cache s tid = Some i \<longrightarrow>
     i < length (cf_serializers cf) \<and> isSupported (cf_serializers cf ! i) tid)"

lemma first_supporting_cases:
  "first_supporting tid i ms = (if \<exists>m\<in>set ms. isSupported m tid then Inr (i + (LEAST k. k < length ms \<and> isSupported (ms ! k) tid))
     else Inl GXF_QUERY_NOT_FOUND)"
proof (induction ms arbitrary: i)
  case (Cons m ms)
  let ?P = "\<lambda>k. k < length (m # ms) \<and> isSupported ((m # ms) ! k) tid"
  show ?case
  proof (cases "isSupported m tid")
    case True
    then have "(LEAST k. ?P k) = 0" by (intro Least_equality) auto
    then show ?thesis using True by simp
  next
    case False
    show ?thesis
    proof (cases "\<exists>m\<in>set ms. isSupported m tid")
      case True
      then obtain k where "?P (Suc k)" by (auto simp: in_set_conv_nth)
      moreover have "\<not> ?P 0" using False by simp
      ultimately have "(LEAST k. ?P k) = Suc (LEAST k. ?P (Suc k))" by (rule Least_Suc)
      then show ?thesis using Cons False True by simp
    qed (use Cons False in simp)
  qed
qed simp

lemma first_supporting_found:
  assumes "\<exists>m\<in>set ms. isSupported m tid"
  shows "\<exists>i < length ms. first_supporting tid 0 ms = Inr i \<and> isSupported (ms ! i) tid"
proof -
  have "\<exists>k. k < length ms \<and> isSupported (ms ! k) tid" using assms by (auto simp: in_set_conv_nth)
  from LeastI_ex [OF this] show ?thesis using assms by (auto simp: first_supporting_cases)
qed

lemma findComponentSerializer_cases:
  assumes "cache_wf cf s"
  obtains (found) i c where "supported cf tid" "findComponentSerializer cf tid s = (Inr i, s\<lparr>se_cache := c\<rparr>)"
      "i < length (cf_serializers cf)" "isSupported (cf_serializers cf ! i) tid" "cache_wf cf (s\<lparr>se_cache := c\<rparr>)"
  | (missing) "\<not> supported cf tid" "findComponentSerializer cf tid s = (Inl GXF_QUERY_NOT_FOUND, s)"
proof (cases "se_cache s tid")
  case (Some i)
  then have i: "i < length (cf_serializers cf)" "isSupported (cf_serializers cf ! i) tid" using assms by (auto simp: cache_wf_def)
  then have "supported cf tid" unfolding supported_def using nth_mem by blast
  then show ?thesis using found [of i "se_cache s"] Some assms i by (simp add: findComponentSerializer_def)
next
  case None
  show ?thesis
  proof (cases "supported cf tid")
    case True
    then obtain i where "i < length (cf_serializers cf)" "first_supporting tid 0 (cf_serializers cf) = Inr i"
        "isSupported (cf_serializers cf ! i) tid" using first_supporting_found unfolding supported_def by blast
    then show ?thesis using found [of i "(se_cache s)(tid \<mapsto> i)"] None True assms
      by (simp add: findComponentSerializer_def cache_wf_def)
  next
    case False
    then show ?thesis using missing None by (simp add: findComponentSerializer_def first_supporting_cases supported_def)
  qed
qed

definition entry_ok :: "('u, 'w, 'e) Config \<Rightarrow> ComponentEntry \<Rightarrow> bool" where
  "entry_ok cf e \<longleftrightarrow> ce_serializer e < length (cf_serializers cf) \<and>
     isSupported (cf_serializers cf ! ce_serializer e) (uh_tid (ce_component e))"

definition header_of :: "'u Runtime \<Rightarrow> UntypedHandle \<Rightarrow> ComponentHeader" where
  "header_of rt u = \<lparr>ch_serialized_size = 0, ch_tid = uh_tid u, ch_name_size = of_nat (length (c_str (uh_name rt u)))\<rparr>"

lemma createComponentEntries_ok:
  assumes "cache_wf cf s"
  shows "\<exists>es c. createComponentEntries cf us s = (es, s\<lparr>se_cache := c\<rparr>) \<and> cache_wf cf (s\<lparr>se_cache := c\<rparr>) \<and>
    map ce_component es = filter (\<lambda>u. supported cf (uh_tid u)) us \<and>
    (\<forall>e\<in>set es. entry_ok cf e \<and> ce_header e = header_of (se_rt s) (ce_component e))"
  using assms
proof (induction us arbitrary: s)
  case Nil
  then show ?case by (auto intro: exI [of _ "se_cache s"])
next
  case (Cons u us)
  from Cons.prems show ?case
  proof (cases rule: findComponentSerializer_cases [where tid = "uh_tid u"])
    case (found i c)
    from Cons.IH [OF found(5)] obtain es c1 where "createComponentEntries cf us (s\<lparr>se_cache := c\<rparr>) = (es, s\<lparr>se_cache := c1\<rparr>)"
        "cache_wf cf (s\<lparr>se_cache := c1\<rparr>)" "map ce_component es = filter (\<lambda>u. supported cf (uh_tid u)) us"
        "\<forall>e\<in>set es. entry_ok cf e \<and> ce_header e = header_of (se_rt s) (ce_component e)" by auto
    then show ?thesis using found by (auto simp: entry_ok_def header_of_def)
  next
    case missing
    then show ?thesis using Cons by auto
  qed
qed

section \<open>What serializing writes\<close>

text \<open>A serializer appends the bytes of the component and leaves the contents alone; obj_ok says that the
  memory at the pointer is a component of the type.\<close>

locale component_writer = sink ep written wr_inv room
  for ep :: "'e Endpoint" and written :: "'e \<Rightarrow> byte list" and wr_inv :: "'e \<Rightarrow> bool" and room :: "'e \<Rightarrow> nat \<Rightarrow> bool" +
  fixes ms :: "('w, 'e) ComponentSerializer list" and content :: "gxf_tid_t \<Rightarrow> nat \<Rightarrow> 'w \<Rightarrow> byte list"
    and obj_ok :: "gxf_tid_t \<Rightarrow> nat \<Rightarrow> 'w \<Rightarrow> bool"
  assumes serializer_ok: "m \<in> set ms \<Longrightarrow> getSerializer m tid = Inr f \<Longrightarrow> obj_ok tid p w \<Longrightarrow> wr_inv e \<Longrightarrow>
      room e (length (content tid p w) + k) \<Longrightarrow>
      \<exists>e1. f p (w, e) = Some (Inr (length (content tid p w)), w, e1) \<and> written e1 = written e @ content tid p w \<and>
        wr_inv e1 \<and> room e1 k"
begin

lemma serializeComponent_ok:
  assumes "m \<in> set ms" "isSupported m tid" "component_at (se_rt s) cid = Inr (tid, p)" "obj_ok tid p (se_objects s)"
    "wr_inv (se_ep s)" "room (se_ep s) (length (content tid p (se_objects s)) + k)"
  shows "\<exists>e1. serializeComponent m cid s = Some (Inr (length (content tid p (se_objects s))), s\<lparr>se_ep := e1\<rparr>) \<and>
    written e1 = written (se_ep s) @ content tid p (se_objects s) \<and> wr_inv e1 \<and> room e1 k"
proof -
  obtain f where f: "getSerializer m tid = Inr f" using assms(2) by (auto simp: isSupported_def ok_Inr_iff)
  from serializer_ok [OF assms(1) f assms(4-6)] show ?thesis using f assms(3)
    by (auto simp: serializeComponent_def on_objects_def)
qed

text \<open>What stands for a handle on the wire.\<close>

definition wire_of :: "'u Runtime \<Rightarrow> 'w \<Rightarrow> UntypedHandle \<Rightarrow> wire_component" where
  "wire_of rt w u = (uh_tid u, c_str (uh_name rt u), content (uh_tid u) (uh_pointer u) w)"

lemma serializeComponents_ok:
  assumes "cf_endpoint cf = ep" "cf_serializers cf = ms"
    "\<And>e. e \<in> set es \<Longrightarrow> entry_ok cf e \<and> ce_header e = header_of (se_rt s) (ce_component e) \<and>
       component_at (se_rt s) (uh_cid (ce_component e)) = Inr (uh_tid (ce_component e), uh_pointer (ce_component e)) \<and>
       obj_ok (uh_tid (ce_component e)) (uh_pointer (ce_component e)) (se_objects s) \<and>
       length (c_str (uh_name (se_rt s) (ce_component e))) < 2 ^ 64"
    "wr_inv (se_ep s)" "room (se_ep s) (length (concat (map (\<lambda>e. wire_component (wire_of (se_rt s) (se_objects s) (ce_component e))) es)) + k)"
  shows "\<exists>e1. serializeComponents cf es sz s =
      Some (Inr (sz + length (concat (map (\<lambda>e. wire_component (wire_of (se_rt s) (se_objects s) (ce_component e))) es))), s\<lparr>se_ep := e1\<rparr>) \<and>
    written e1 = written (se_ep s) @ concat (map (\<lambda>e. wire_component (wire_of (se_rt s) (se_objects s) (ce_component e))) es) \<and>
    wr_inv e1 \<and> room e1 k"
  using assms(3-5)
proof (induction es arbitrary: s sz)
  case (Cons c cs)
  let ?u = "ce_component c" and ?rt = "se_rt s" and ?w = "se_objects s"
  let ?name = "c_str (uh_name ?rt ?u)" and ?v = "content (uh_tid ?u) (uh_pointer ?u) ?w"
  let ?rest = "concat (map (\<lambda>e. wire_component (wire_of ?rt ?w (ce_component e))) cs)"
  have c: "entry_ok cf c" "ce_header c = header_of ?rt ?u" "component_at ?rt (uh_cid ?u) = Inr (uh_tid ?u, uh_pointer ?u)"
      "obj_ok (uh_tid ?u) (uh_pointer ?u) ?w" "length ?name < 2 ^ 64" using Cons.prems(1) [of c] by simp_all
  have name: "take (length ?name) (uh_name ?rt ?u) = ?name"
    unfolding c_str_def by (rule takeWhile_eq_take [symmetric])
  have n: "unat (ch_name_size (ce_header c)) = length ?name" using c(2,5) by (simp add: header_of_def unat_of_nat)
  have wire: "wire_component (wire_of ?rt ?w ?u) = wire_component_header (uh_tid ?u) (length ?name) @ bytes_of ?name @ ?v"
    by (simp add: wire_component_def wire_of_def)
  have "room (se_ep s) (32 + (length ?name + (length ?v + (length ?rest + k))))"
    using Cons.prems(3) by (simp add: wire add.assoc)
  from SerializeComponentHeader_ok [OF assms(1) Cons.prems(2) this c(5), of "uh_tid ?u"]
  obtain e1 where e1: "SerializeComponentHeader cf (ce_header c) s = Some (Inr 32, s\<lparr>se_ep := e1\<rparr>)"
      "written e1 = written (se_ep s) @ wire_component_header (uh_tid ?u) (length ?name)" "wr_inv e1"
      "room e1 (length ?name + (length ?v + (length ?rest + k)))"
    unfolding c(2) header_of_def by auto
  from se_write_ok [OF assms(1), of "s\<lparr>se_ep := e1\<rparr>" "bytes_of ?name" "length ?v + (length ?rest + k)"] e1(3,4)
  obtain e2 where e2: "se_write cf (bytes_of ?name) (s\<lparr>se_ep := e1\<rparr>) = Some (Inr (length ?name), s\<lparr>se_ep := e2\<rparr>)"
      "written e2 = written e1 @ bytes_of ?name" "wr_inv e2" "room e2 (length ?v + (length ?rest + k))" by auto
  from c(1) have m: "cf_serializers cf ! ce_serializer c \<in> set ms"
      "isSupported (cf_serializers cf ! ce_serializer c) (uh_tid ?u)" using assms(2) by (auto simp: entry_ok_def)
  from serializeComponent_ok [OF m, of "s\<lparr>se_ep := e2\<rparr>" "uh_cid ?u" "uh_pointer ?u" "length ?rest + k"] c(3,4) e2(3,4)
  obtain e3 where e3: "serializeComponent (cf_serializers cf ! ce_serializer c) (uh_cid ?u) (s\<lparr>se_ep := e2\<rparr>) =
        Some (Inr (length ?v), s\<lparr>se_ep := e3\<rparr>)" "written e3 = written e2 @ ?v" "wr_inv e3" "room e3 (length ?rest + k)" by auto
  from Cons.IH [of "s\<lparr>se_ep := e3\<rparr>" "sz + 32 + length ?name + length ?v"] Cons.prems(1) e3(3,4)
  obtain e4 where e4: "serializeComponents cf cs (sz + 32 + length ?name + length ?v) (s\<lparr>se_ep := e3\<rparr>) =
        Some (Inr (sz + 32 + length ?name + length ?v + length ?rest), s\<lparr>se_ep := e4\<rparr>)"
      "written e4 = written e3 @ ?rest" "wr_inv e4" "room e4 k" by auto
  show ?case
    by (rule exI [of _ e4]) (use e1 e2 e3 e4 in \<open>simp add: and_then_def n name wire\<close>)
next
  case Nil
  then show ?case by (intro exI [of _ "se_ep s"]) (simp add: value_of_def)
qed

lemma described_handles:
  "described cf content rt w eid =
     map (wire_of rt w) (filter (\<lambda>u. supported cf (uh_tid u)) (map handle_of (comps_of (rt_warden rt) eid)))"
proof -
  have "map (wire_of rt w) (filter (\<lambda>u. supported cf (uh_tid u)) (map handle_of cs)) =
      map (\<lambda>c. (ci_tid c, c_str (component_name rt (ci_cid c)), content (ci_tid c) (ci_raw_pointer c) w))
        (filter (\<lambda>c. supported cf (ci_tid c)) cs)" for cs
  proof (induction cs)
    case (Cons c cs)
    have "wire_of rt w (handle_of c) = (ci_tid c, c_str (component_name rt (ci_cid c)), content (ci_tid c) (ci_raw_pointer c) w)"
      by (simp add: wire_of_def) (simp add: handle_of_def)
    moreover have "uh_tid (handle_of c) = ci_tid c" by (simp add: handle_of_def)
    ultimately show ?case using Cons by simp
  qed simp
  then show ?thesis by (simp add: described_def)
qed

lemma serialize_entity_ok:
  assumes cf: "cf_endpoint cf = ep" "cf_serializers cf = ms" and cache: "cache_wf cf s"
    and rt: "rt_wf exts (se_rt s)" "looked_up (se_rt s) eid" "eid \<in> dom (w_entities (rt_warden (se_rt s)))"
    and held: "w_ref_count (rt_warden (se_rt s)) eid = Some n" "0 < n" "eid \<noteq> kNullUid"
    and obj: "\<And>c. c \<in> set (comps_of (rt_warden (se_rt s)) eid) \<Longrightarrow> supported cf (ci_tid c) \<Longrightarrow>
      obj_ok (ci_tid c) (ci_raw_pointer c) (se_objects s) \<and> length (c_str (component_name (se_rt s) (ci_cid c))) < 2 ^ 64"
    and e: "wr_inv (se_ep s)"
      "room (se_ep s) (length (wire_entity (se_outgoing s) (described cf content (se_rt s) (se_objects s) eid)) + k)"
  shows "\<exists>s'. serialize_entity_abi cf eid s =
      Some (Inr (length (wire_entity (se_outgoing s) (described cf content (se_rt s) (se_objects s) eid))), s') \<and>
    written (se_ep s') = written (se_ep s) @ wire_entity (se_outgoing s) (described cf content (se_rt s) (se_objects s) eid) \<and>
    se_rt s' = se_rt s \<and> se_objects s' = se_objects s \<and> se_outgoing s' = se_outgoing s + 1 \<and> cache_wf cf s' \<and>
    wr_inv (se_ep s') \<and> room (se_ep s') k"
proof -
  let ?rt = "se_rt s" and ?w = "se_objects s" and ?cs = "comps_of (rt_warden (se_rt s)) eid" and ?seq = "se_outgoing s"
  let ?us = "filter (\<lambda>u. supported cf (uh_tid u)) (map handle_of ?cs)"
  obtain rt1 where sh: "Entity_Shared eid ?rt = (Inr eid, rt1)" "Entity_release (cf_env cf) eid rt1 = Some ?rt"
      "rt1 = ?rt\<lparr>rt_warden := (rt_warden ?rt)\<lparr>w_ref_count := (w_ref_count (rt_warden ?rt))(eid \<mapsto> n + 1)\<rparr>\<rparr>"
    using share_and_release [OF held] by blast
  have "rt_wf exts rt1" "looked_up rt1 eid" "eid \<in> dom (w_entities (rt_warden rt1))" and c1: "comps_of (rt_warden rt1) eid = ?cs"
    using rt sh(3) rt_wf_warden [of "rt_warden rt1" ?rt exts] by (auto simp: looked_up_def comps_of_def)
  then have fa: "Entity_findAll rt1 eid = Inr (map handle_of ?cs)" using findAll_ok by fastforce
  obtain es c where en: "createComponentEntries cf (map handle_of ?cs) s = (es, s\<lparr>se_cache := c\<rparr>)"
      "cache_wf cf (s\<lparr>se_cache := c\<rparr>)" "map ce_component es = ?us"
      "\<forall>e\<in>set es. entry_ok cf e \<and> ce_header e = header_of ?rt (ce_component e)"
    using createComponentEntries_ok [OF cache] by metis
  have d: "described cf content ?rt ?w eid = map (\<lambda>e. wire_of ?rt ?w (ce_component e)) es"
    unfolding described_handles en(3) [symmetric] by (simp add: comp_def)
  have len: "length (described cf content ?rt ?w eid) = length es" by (simp add: d)
  let ?body = "concat (map (\<lambda>e. wire_component (wire_of ?rt ?w (ce_component e))) es)"
  have wire: "wire_entity ?seq (described cf content ?rt ?w eid) = wire_entity_header ?seq (of_nat (length es)) @ ?body"
    by (simp add: wire_entity_def d comp_def)
  have ent: "entry_ok cf e \<and> ce_header e = header_of ?rt (ce_component e) \<and>
       component_at ?rt (uh_cid (ce_component e)) = Inr (uh_tid (ce_component e), uh_pointer (ce_component e)) \<and>
       obj_ok (uh_tid (ce_component e)) (uh_pointer (ce_component e)) ?w \<and>
       length (c_str (uh_name ?rt (ce_component e))) < 2 ^ 64" if e: "e \<in> set es" for e
  proof -
    have "ce_component e \<in> set ?us" using e unfolding en(3) [symmetric] by simp
    then obtain c where c: "c \<in> set ?cs" "ce_component e = handle_of c" "supported cf (ci_tid c)"
      by (auto simp: handle_of_def)
    have h: "uh_cid (handle_of c) = ci_cid c" "uh_tid (handle_of c) = ci_tid c" "uh_pointer (handle_of c) = ci_raw_pointer c"
      by (simp_all add: handle_of_def)
    show ?thesis using bspec [OF en(4) e] obj [OF c(1,3)] component_at_ok [OF rt(1,2) c(1)]
      unfolding c(2) h uh_name_handle by simp
  qed
  let ?s2 = "s\<lparr>se_cache := c, se_outgoing := ?seq + 1\<rparr>"
  from SerializeEntityHeader_ok [OF cf(1), of ?s2 "length ?body + k" ?seq "of_nat (length es)"] e
  obtain e1 where e1: "SerializeEntityHeader cf \<lparr>eh_serialized_size = 0, eh_checksum = 0, eh_sequence_number = ?seq, eh_flags = 0,
        eh_component_count = of_nat (length es), eh_reserved = 0\<rparr> ?s2 = Some (Inr 40, ?s2\<lparr>se_ep := e1\<rparr>)"
      "written e1 = written (se_ep s) @ wire_entity_header ?seq (of_nat (length es))" "wr_inv e1" "room e1 (length ?body + k)"
    unfolding wire by (auto simp: add.assoc)
  from serializeComponents_ok [OF cf, of es "?s2\<lparr>se_ep := e1\<rparr>" k 40] ent e1(3,4)
  obtain e2 where e2: "serializeComponents cf es 40 (?s2\<lparr>se_ep := e1\<rparr>) = Some (Inr (40 + length ?body), ?s2\<lparr>se_ep := e2\<rparr>)"
      "written e2 = written e1 @ ?body" "wr_inv e2" "room e2 k" by auto
  have "serialize_entity_abi cf eid s = Some (Inr (40 + length ?body), ?s2\<lparr>se_ep := e2\<rparr>)"
    using sh(1,2) fa en(1) e1(1) e2(1) by (simp add: serialize_entity_abi_def Let_def)
  moreover have "cache_wf cf (?s2\<lparr>se_ep := e2\<rparr>)" using en(2) by (simp add: cache_wf_def)
  ultimately show ?thesis using e1 e2 unfolding wire by (intro exI [of _ "?s2\<lparr>se_ep := e2\<rparr>"]) simp
qed

end

section \<open>Names of new components\<close>

text \<open>No identifier that is still to come has a name already.\<close>

definition names_wf :: "gxf_uid_t \<Rightarrow> ParameterStorage \<Rightarrow> bool" where [inv_defs]:
  "names_wf next_id ps \<longleftrightarrow> ps_sorted ps \<and> (\<forall>uid\<ge>next_id. backend_of ps uid kInternalNameParameterKey = None)"

text \<open>The components register parameters of their own only.\<close>

definition names_kept :: "'u Env \<Rightarrow> bool" where
  "names_kept env \<longleftrightarrow> (\<forall>tid cid ps. ps_sorted ps \<longrightarrow> ps_sorted (snd (ev_interface env tid cid ps)) \<and>
     (\<forall>uid. backend_of (snd (ev_interface env tid cid ps)) uid kInternalNameParameterKey =
        backend_of ps uid kInternalNameParameterKey))"

lemma getStr_cong: "backend_of ps u k = backend_of ps' u k \<Longrightarrow> getStr ps u k = getStr ps' u k"
  by (simp add: getStr_def getValuePointer_def getBackendPointerImpl_eq)

lemma setStr_new:
  assumes "ps_sorted ps" "backend_of ps uid key = None"
  shows "ps_sorted (snd (setStr uid key v ps))" "getStr (snd (setStr uid key v ps)) uid key = Inr v"
    "u \<noteq> uid \<Longrightarrow> backend_of (snd (setStr uid key v ps)) u k = backend_of ps u k"
proof -
  let ?be = "(dynamic_backend TString uid key)\<lparr>be_value := Inr (VString v)\<rparr>"
  obtain ps1 where ps1: "ensure_backend TString uid key ps = (dynamic_backend TString uid key, ps1)" "ps_sorted ps1"
      "\<And>u k. backend_of ps1 u k = (if u = uid \<and> k = key then Some (dynamic_backend TString uid key) else backend_of ps u k)"
  proof (cases rule: ensure_backend_cases [OF assms(1), of uid key TString])
    case (2 ps1)
    then show ?thesis using that [of ps1] by simp
  qed (use assms(2) in simp)
  have "snd (setStr uid key v ps) = write_frontend ?be (put_backend uid key ?be ps1)"
    using ps1(1) by (simp add: setStr_def ps_set_def) (simp add: dynamic_backend_def)
  then have e: "ps_sorted (snd (setStr uid key v ps))" "\<And>u k. backend_of (snd (setStr uid key v ps)) u k =
      (if u = uid \<and> k = key then Some ?be else backend_of ps u k)"
    using ps1(2,3) by (simp_all add: write_frontend_def)
  show "ps_sorted (snd (setStr uid key v ps))" by (rule e(1))
  show "u \<noteq> uid \<Longrightarrow> backend_of (snd (setStr uid key v ps)) u k = backend_of ps u k" using e(2) by simp
  show "getStr (snd (setStr uid key v ps)) uid key = Inr v"
    by (simp add: getStr_def getValuePointer_def getBackendPointerImpl_eq e(2) be_try_get_def)
      (simp add: dynamic_backend_def is_handle_def)
qed

section \<open>What adding a component does\<close>

text \<open>The runtime knows the type, can make it, and its components register without error.\<close>

definition accepts :: "'u Env \<Rightarrow> 'u Runtime \<Rightarrow> gxf_tid_t \<Rightarrow> bool" where
  "accepts env rt tid \<longleftrightarrow> ok (id_from_name (tw_registry (rt_types rt)) kCodeletName) \<and>
     factory_type (ev_exts env) (tw_loader (rt_types rt)) tid \<noteq> None \<and> tr_names (tw_registry (rt_types rt)) tid \<noteq> None \<and>
     (\<forall>cid ps. fst (ev_interface env tid cid ps) = GXF_SUCCESS)"

lemma register_component_ok:
  assumes "\<forall>cid ps. fst (ev_interface env tid cid ps) = GXF_SUCCESS"
  shows "register_component env tid cid rt =
    (GXF_SUCCESS, rt\<lparr>rt_registrar := True, rt_parameters := snd (ev_interface env tid cid (rt_parameters rt))\<rparr>)"
  using assms by (auto simp: register_component_def Let_def split: prod.splits) (metis fst_conv)

lemma finish_add_exact:
  assumes wf: "rt_wf (ev_exts env) rt" and nm: "names_wf (rt_next_id rt) (rt_parameters rt)" "names_kept env"
    and i: "w_entities (rt_warden rt) eid = Some i" "wi_stage i = kUninitialized" "length (wi_components i) < kWardenComponents"
    and t: "tr_names (tw_registry (rt_types rt)) tid \<noteq> None" "\<forall>cid ps. fst (ev_interface env tid cid ps) = GXF_SUCCESS"
    and n: "length name < kMaxComponentNameSize"
  obtains rt' cp where "finish_add env eid tid (Some name) p rt = Some (Inr (rt_next_id rt, p), rt')"
    "rt_next_id rt' = rt_next_id rt + 1" "rt_types rt' = rt_types rt"
    "w_entities (rt_warden rt') = (w_entities (rt_warden rt))(eid \<mapsto> i\<lparr>wi_components := wi_components i @
       [\<lparr>ci_cid = rt_next_id rt, ci_tid = tid, ci_raw_pointer = p, ci_component_pointer = cp\<rparr>]\<rparr>)"
    "w_components (rt_warden rt') = (w_components (rt_warden rt))(rt_next_id rt \<mapsto> (eid, tid))"
    "w_ref_count (rt_warden rt') = w_ref_count (rt_warden rt)"
    "names_wf (rt_next_id rt + 1) (rt_parameters rt')"
    "getStr (rt_parameters rt') (rt_next_id rt) kInternalNameParameterKey = Inr name"
    "\<And>u. u \<noteq> rt_next_id rt \<Longrightarrow> backend_of (rt_parameters rt') u kInternalNameParameterKey =
       backend_of (rt_parameters rt) u kInternalNameParameterKey"
proof -
  let ?cid = "rt_next_id rt" and ?key = kInternalNameParameterKey
  obtain tn where tn: "tr_names (tw_registry (rt_types rt)) tid = Some tn" using t(1) by blast
  obtain b where b: "is_base (tw_registry (rt_types rt)) tid kComponentTid = Some (Inr b)"
    using is_base_reachable [of "tw_registry (rt_types rt)" kComponentTid tid] rt_wfD(1) [OF wf] tn
    by (auto simp: types_wf_def)
  define ps1 where "ps1 = (if b then snd (ev_interface env tid ?cid (rt_parameters rt)) else rt_parameters rt)"
  have ps1: "ps_sorted ps1" "backend_of ps1 u ?key = backend_of (rt_parameters rt) u ?key" for u
    using nm by (auto simp: ps1_def names_wf_def names_kept_def)
  define ps2 where "ps2 = snd (setStr ?cid ?key name ps1)"
  have new: "backend_of ps1 ?cid ?key = None" using ps1(2) nm(1) by (simp add: names_wf_def)
  note S = setStr_new [OF ps1(1) new, where v = name, folded ps2_def]
  let ?cp = "if b then p else 0"
  define m where "m = snd (ew_addComponent eid ?cid tid p ?cp (rt_warden rt))"
  have m: "ew_addComponent eid ?cid tid p ?cp (rt_warden rt) = (GXF_SUCCESS, m)"
    using i by (simp add: m_def ew_addComponent_def Let_def)
  define rt' where "rt' = rt\<lparr>rt_next_id := ?cid + 1, rt_registrar := b \<or> rt_registrar rt, rt_parameters := ps2, rt_warden := m\<rparr>"
  have f: "finish_add env eid tid (Some name) p rt = Some (Inr (?cid, p), rt')"
    using tn b n m by (cases b) (simp_all add: finish_add_def getNextId_def tr_name_def register_component_ok [OF t(2)]
        name_too_long_def Let_def rt'_def ps2_def ps1_def)
  show ?thesis
  proof (rule that [OF f])
    show "w_entities (rt_warden rt') = (w_entities (rt_warden rt))(eid \<mapsto> i\<lparr>wi_components := wi_components i @
       [\<lparr>ci_cid = ?cid, ci_tid = tid, ci_raw_pointer = p, ci_component_pointer = ?cp\<rparr>]\<rparr>)"
      "w_components (rt_warden rt') = (w_components (rt_warden rt))(?cid \<mapsto> (eid, tid))"
      "w_ref_count (rt_warden rt') = w_ref_count (rt_warden rt)"
      using i by (simp_all add: rt'_def m_def ew_addComponent_def Let_def)
    show "names_wf (?cid + 1) (rt_parameters rt')" using S nm(1) ps1(2) by (simp add: rt'_def names_wf_def)
    show "getStr (rt_parameters rt') ?cid ?key = Inr name" using S(2) by (simp add: rt'_def)
    show "backend_of (rt_parameters rt') u ?key = backend_of (rt_parameters rt) u ?key" if "u \<noteq> ?cid" for u
      using S(3) [OF that, where k = ?key] ps1(2) by (simp add: rt'_def)
  qed (simp_all add: rt'_def)
qed

lemma Entity_add_exact:
  assumes wf: "rt_wf (ev_exts env) rt" and nm: "names_wf (rt_next_id rt) (rt_parameters rt)" "names_kept env"
    and i: "w_entities (rt_warden rt) eid = Some i" "wi_stage i = kUninitialized" "length (wi_components i) < kWardenComponents"
    and t: "accepts env rt tid" and n: "length name < kMaxComponentNameSize"
  obtains p rt' cp where "Entity_add env eid tid (Some name) rt = Some (Inr (rt_next_id rt, p), rt')" "rt_wf (ev_exts env) rt'"
    "rt_next_id rt' = rt_next_id rt + 1" "\<And>t. accepts env rt' t \<longleftrightarrow> accepts env rt t"
    "w_entities (rt_warden rt') = (w_entities (rt_warden rt))(eid \<mapsto> i\<lparr>wi_components := wi_components i @
       [\<lparr>ci_cid = rt_next_id rt, ci_tid = tid, ci_raw_pointer = p, ci_component_pointer = cp\<rparr>]\<rparr>)"
    "w_components (rt_warden rt') = (w_components (rt_warden rt))(rt_next_id rt \<mapsto> (eid, tid))"
    "w_ref_count (rt_warden rt') = w_ref_count (rt_warden rt)"
    "names_wf (rt_next_id rt + 1) (rt_parameters rt')"
    "getStr (rt_parameters rt') (rt_next_id rt) kInternalNameParameterKey = Inr name"
    "\<And>u. u \<noteq> rt_next_id rt \<Longrightarrow> backend_of (rt_parameters rt') u kInternalNameParameterKey =
       backend_of (rt_parameters rt) u kInternalNameParameterKey"
    "\<And>e d. d \<in> set (comps_of (rt_warden rt) e) \<Longrightarrow> ci_raw_pointer d \<noteq> p"
proof -
  let ?ob = "tw_objects (rt_types rt)"
  obtain nt where nt: "factory_type (ev_exts env) (tw_loader (rt_types rt)) tid = Some nt"
    using t by (auto simp: accepts_def)
  let ?ob1 = "?ob\<lparr>ob_type := (ob_type ?ob)(ob_next ?ob \<mapsto> nt), ob_next := ob_next ?ob + 1\<rparr>"
  have alloc: "cf_allocate (ev_exts env) (tw_loader (rt_types rt)) tid ?ob = (Inr (ob_next ?ob), ?ob1)"
    using nt by (auto simp: factory_type_def cf_allocate_def el_allocate_abi_def de_allocate_abi_def nca_allocate_def
        new_object_def ExpectedOrCodeVal_def split: option.splits sum.splits if_splits)
      (use rt_wf_heap [OF wf] in \<open>auto simp: heap_wf_def\<close>)
  let ?rt1 = "set_heap ?ob1 rt"
  have wf1: "rt_wf (ev_exts env) ?rt1" by (rule rt_wf_alloc [OF wf refl])
  have u: "wi_uid i = eid" using rt_wfD(5) [OF wf] i(1) by (auto simp: items_wf_def)
  have h: "rt_warden ?rt1 = rt_warden rt" "rt_next_id ?rt1 = rt_next_id rt" "rt_parameters ?rt1 = rt_parameters rt"
      "tw_registry (rt_types ?rt1) = tw_registry (rt_types rt)" "tw_loader (rt_types ?rt1) = tw_loader (rt_types rt)"
    by (simp_all add: set_heap_def)
  have "tr_names (tw_registry (rt_types ?rt1)) tid \<noteq> None" "\<forall>cid ps. fst (ev_interface env tid cid ps) = GXF_SUCCESS"
    using t by (simp_all add: accepts_def h)
  from finish_add_exact [OF wf1 _ nm(2) _ i(2,3) this n, unfolded h, OF nm(1) i(1), of "ob_next ?ob"]
  obtain rt' cp where f: "finish_add env eid tid (Some name) (ob_next ?ob) ?rt1 = Some (Inr (rt_next_id rt, ob_next ?ob), rt')"
    "rt_next_id rt' = rt_next_id rt + 1" "rt_types rt' = rt_types ?rt1"
    "w_entities (rt_warden rt') = (w_entities (rt_warden rt))(eid \<mapsto> i\<lparr>wi_components := wi_components i @
       [\<lparr>ci_cid = rt_next_id rt, ci_tid = tid, ci_raw_pointer = ob_next ?ob, ci_component_pointer = cp\<rparr>]\<rparr>)"
    "w_components (rt_warden rt') = (w_components (rt_warden rt))(rt_next_id rt \<mapsto> (eid, tid))"
    "w_ref_count (rt_warden rt') = w_ref_count (rt_warden rt)"
    "names_wf (rt_next_id rt + 1) (rt_parameters rt')"
    "getStr (rt_parameters rt') (rt_next_id rt) kInternalNameParameterKey = Inr name"
    "\<And>u. u \<noteq> rt_next_id rt \<Longrightarrow> backend_of (rt_parameters rt') u kInternalNameParameterKey =
       backend_of (rt_parameters rt) u kInternalNameParameterKey"
    by blast
  obtain t0 where "id_from_name (tw_registry (rt_types rt)) kCodeletName = Inr t0" using t by (auto simp: accepts_def ok_Inr_iff)
  then have a: "Entity_add env eid tid (Some name) rt = Some (Inr (rt_next_id rt, ob_next ?ob), rt')"
    using i(1) u alloc f(1) by (simp add: Entity_add_def ew_getEntityPtr_def GxfComponentAddWithItem_def GxfComponentAdd_def ew_isValid_def)
  then have "GxfComponentAdd env eid tid (Some name) rt = Some (Inr (rt_next_id rt, ob_next ?ob), rt')"
    using i(1) u by (simp add: Entity_add_def ew_getEntityPtr_def GxfComponentAddWithItem_def)
  then have "rt_wf (ev_exts env) rt'" using rt_wf_add [OF wf, of eid tid "Some name"] by auto
  moreover have "accepts env rt' t \<longleftrightarrow> accepts env rt t" for t using f(3) by (simp add: accepts_def h)
  ultimately show ?thesis using that [OF a _ f(2) _ f(4-9)] fresh_object [OF wf] by blast
qed

section \<open>What deserializing makes\<close>

text \<open>A deserializer takes the bytes of a component and stores its contents; wire_ok are the bytes that it
  understands.\<close>

locale component_reader = source ep pending rd_inv
  for ep :: "'e Endpoint" and pending :: "'e \<Rightarrow> byte list" and rd_inv :: "'e \<Rightarrow> bool" +
  fixes ms :: "('w, 'e) ComponentSerializer list" and content :: "gxf_tid_t \<Rightarrow> nat \<Rightarrow> 'w \<Rightarrow> byte list"
    and wire_ok :: "gxf_tid_t \<Rightarrow> byte list \<Rightarrow> bool"
  assumes deserializer_ok: "m \<in> set ms \<Longrightarrow> isSupported m tid \<Longrightarrow> wire_ok tid v \<Longrightarrow> rd_inv e \<Longrightarrow> pending e = v @ rest \<Longrightarrow>
      \<exists>f w1 e1. getDeserializer m tid = Inr f \<and> f p (w, e) = Some (Inr (), w1, e1) \<and> rd_inv e1 \<and> pending e1 = rest \<and>
        content tid p w1 = v \<and> (\<forall>q t. q \<noteq> p \<longrightarrow> content t q w1 = content t q w)"
begin

text \<open>The types, names and contents of the components that an entity has so far.\<close>

definition so_far :: "'u Runtime \<Rightarrow> 'w \<Rightarrow> gxf_uid_t \<Rightarrow> (gxf_tid_t \<times> string expected \<times> byte list) list" where
  "so_far rt w eid = map (\<lambda>c. (ci_tid c, getStr (rt_parameters rt) (ci_cid c) kInternalNameParameterKey,
     content (ci_tid c) (ci_raw_pointer c) w)) (comps_of (rt_warden rt) eid)"

definition building :: "('u, 'w, 'e) Config \<Rightarrow> gxf_uid_t \<Rightarrow> wire_component list \<Rightarrow> ('u, 'w, 'e) Session \<Rightarrow> bool" where
  "building cf eid cs s \<longleftrightarrow> rt_wf (ev_exts (cf_env cf)) (se_rt s) \<and> names_wf (rt_next_id (se_rt s)) (rt_parameters (se_rt s)) \<and>
     (\<exists>i. w_entities (rt_warden (se_rt s)) eid = Some i \<and> wi_stage i = kUninitialized) \<and> looked_up (se_rt s) eid \<and>
     so_far (se_rt s) (se_objects s) eid = map (\<lambda>(t, n, v). (t, Inr n, v)) cs"

lemma building_length: "building cf eid cs s \<Longrightarrow> length (comps_of (rt_warden (se_rt s)) eid) = length cs"
  by (auto simp: building_def so_far_def dest: map_eq_imp_length_eq)

definition component_acceptable :: "('u, 'w, 'e) Config \<Rightarrow> 'u Runtime \<Rightarrow> wire_component \<Rightarrow> bool" where
  "component_acceptable cf rt = (\<lambda>(tid, name, v). supported cf tid \<and> accepts (cf_env cf) rt tid \<and> wire_ok tid v \<and>
     c_str name = name \<and> length name < kMaxComponentNameSize \<and> length name \<le> cf_max_string cf)"

lemma deserialize_one:
  assumes cf: "cf_endpoint cf = ep" "cf_serializers cf = ms" "length (cf_stack cf 32) = 32" "names_kept (cf_env cf)"
      "\<And>tid p w t q. q \<noteq> p \<Longrightarrow> content t q (cf_construct cf tid p w) = content t q w"
    and b: "building cf eid cs s" "length cs < kWardenComponents" and cache: "cache_wf cf s"
    and acc: "component_acceptable cf (se_rt s) (tid, name, v)"
    and e: "rd_inv (se_ep s)" "pending (se_ep s) = wire_component (tid, name, v) @ rest"
  obtains s' where "deserializeComponents cf (Suc n) eid s = deserializeComponents cf n eid s'"
    "building cf eid (cs @ [(tid, name, v)]) s'" "cache_wf cf s'" "rd_inv (se_ep s')" "pending (se_ep s') = rest"
    "\<And>t. accepts (cf_env cf) (se_rt s') t \<longleftrightarrow> accepts (cf_env cf) (se_rt s) t"
    "w_ref_count (rt_warden (se_rt s')) = w_ref_count (rt_warden (se_rt s))" "se_incoming s' = se_incoming s"
proof -
  let ?env = "cf_env cf" and ?rt = "se_rt s" and ?key = kInternalNameParameterKey
  have A: "supported cf tid" "accepts ?env ?rt tid" "wire_ok tid v" "c_str name = name" "length name < kMaxComponentNameSize"
      "length name \<le> cf_max_string cf" "length name < 2 ^ 64"
    using acc by (simp_all add: component_acceptable_def kMaxComponentNameSize_def)
  have "pending (se_ep s) = wire_component_header tid (length name) @ (bytes_of name @ v @ rest)"
    using e(2) by (simp add: wire_component_def)
  from DeserializeComponentHeader_ok [OF cf(1) e(1) this cf(3) A(7)]
  obtain h e1 where h: "DeserializeComponentHeader cf s = Some (Inr h, s\<lparr>se_ep := e1\<rparr>)" "ch_tid h = tid"
      "ch_name_size h = of_nat (length name)" "pending e1 = bytes_of name @ v @ rest" "rd_inv e1" by blast
  have "cache_wf cf (s\<lparr>se_ep := e1\<rparr>)" using cache by (simp add: cache_wf_def)
  then obtain j c where fs: "findComponentSerializer cf tid (s\<lparr>se_ep := e1\<rparr>) = (Inr j, s\<lparr>se_ep := e1, se_cache := c\<rparr>)"
      "j < length (cf_serializers cf)" "isSupported (cf_serializers cf ! j) tid"
      "cache_wf cf (s\<lparr>se_ep := e1, se_cache := c\<rparr>)"
    using A(1) by (cases rule: findComponentSerializer_cases [of cf _ tid]) auto
  let ?s1 = "s\<lparr>se_ep := e1, se_cache := c\<rparr>"
  from read_name_ok [OF cf(1), of ?s1 name "v @ rest"] h(4,5) A(6,7)
  obtain e2 where e2: "read_name cf (of_nat (length name)) ?s1 = Some (Inr name, ?s1\<lparr>se_ep := e2\<rparr>)" "pending e2 = v @ rest"
      "rd_inv e2" by auto
  obtain i where B: "rt_wf (ev_exts ?env) ?rt" "names_wf (rt_next_id ?rt) (rt_parameters ?rt)" "w_entities (rt_warden ?rt) eid = Some i"
      "wi_stage i = kUninitialized" "looked_up ?rt eid"
      "so_far ?rt (se_objects s) eid = map (\<lambda>(t, n, v). (t, Inr n, v)) cs" using b(1) by (auto simp: building_def)
  have comps: "comps_of (rt_warden ?rt) eid = wi_components i" using B(3) by (simp add: comps_of_def)
  have room: "length (wi_components i) < kWardenComponents" using building_length [OF b(1)] b(2) comps by simp
  obtain p rt' cp where add: "Entity_add ?env eid tid (Some name) ?rt = Some (Inr (rt_next_id ?rt, p), rt')" "rt_wf (ev_exts ?env) rt'"
    "rt_next_id rt' = rt_next_id ?rt + 1" "\<And>t. accepts ?env rt' t \<longleftrightarrow> accepts ?env ?rt t"
    "w_entities (rt_warden rt') = (w_entities (rt_warden ?rt))(eid \<mapsto> i\<lparr>wi_components := wi_components i @
       [\<lparr>ci_cid = rt_next_id ?rt, ci_tid = tid, ci_raw_pointer = p, ci_component_pointer = cp\<rparr>]\<rparr>)"
    "w_components (rt_warden rt') = (w_components (rt_warden ?rt))(rt_next_id ?rt \<mapsto> (eid, tid))"
    "w_ref_count (rt_warden rt') = w_ref_count (rt_warden ?rt)"
    "names_wf (rt_next_id ?rt + 1) (rt_parameters rt')"
    "getStr (rt_parameters rt') (rt_next_id ?rt) ?key = Inr name"
    "\<And>u. u \<noteq> rt_next_id ?rt \<Longrightarrow> backend_of (rt_parameters rt') u ?key = backend_of (rt_parameters ?rt) u ?key"
    "\<And>e d. d \<in> set (comps_of (rt_warden ?rt) e) \<Longrightarrow> ci_raw_pointer d \<noteq> p"
    by (rule Entity_add_exact [OF B(1,2) cf(4) B(3,4) room A(2,5)]) (rule that, assumption+)
  let ?new = "\<lparr>ci_cid = rt_next_id ?rt, ci_tid = tid, ci_raw_pointer = p, ci_component_pointer = cp\<rparr>"
  have comps': "comps_of (rt_warden rt') eid = wi_components i @ [?new]" using add(5) by (simp add: comps_of_def)
  have old: "ci_cid d < rt_next_id ?rt" "ci_raw_pointer d \<noteq> p" if "d \<in> set (wi_components i)" for d
    using comps_wfD(5) [OF rt_wfD(6) [OF B(1)], of d eid] add(11) [of d eid] that comps by auto
  have look: "looked_up rt' eid"
    using B(5) old(1) add(6) unfolding looked_up_def comps' comps by fastforce
  let ?w1 = "cf_construct cf tid p (se_objects s)"
  let ?s2 = "?s1\<lparr>se_ep := e2, se_rt := rt', se_objects := ?w1\<rparr>"
  have ac: "add_component cf eid tid name (?s1\<lparr>se_ep := e2\<rparr>) = Some (Inr (rt_next_id ?rt), ?s2)"
    using add(1) A(4) by (simp add: add_component_def)
  have at: "component_at rt' (rt_next_id ?rt) = Inr (tid, p)"
    using component_at_ok [OF add(2) look, of ?new] comps' by simp
  have ms: "cf_serializers cf ! j \<in> set ms" using nth_mem [OF fs(2)] cf(2) by simp
  obtain f w2 e3 where f: "getDeserializer (cf_serializers cf ! j) tid = Inr f" "f p (?w1, e2) = Some (Inr (), w2, e3)" "rd_inv e3"
      "pending e3 = rest" "content tid p w2 = v" "\<forall>q t. q \<noteq> p \<longrightarrow> content t q w2 = content t q ?w1"
    using deserializer_ok [OF ms fs(3) A(3) e2(3,2), of p ?w1] by blast
  let ?s3 = "?s2\<lparr>se_objects := w2, se_ep := e3\<rparr>"
  have ds: "deserializeComponent (cf_serializers cf ! j) (rt_next_id ?rt) ?s2 = Some (Inr (), ?s3)"
    using at f(1,2) by (simp add: deserializeComponent_def on_objects_def)
  have "so_far rt' w2 eid = map (\<lambda>(t, n, v). (t, Inr n, v)) (cs @ [(tid, name, v)])"
  proof -
    have "getStr (rt_parameters rt') (ci_cid d) ?key = getStr (rt_parameters ?rt) (ci_cid d) ?key \<and>
        content (ci_tid d) (ci_raw_pointer d) w2 = content (ci_tid d) (ci_raw_pointer d) (se_objects s)"
      if d: "d \<in> set (wi_components i)" for d
      using old [OF d] getStr_cong [OF add(10) [of "ci_cid d"]] f(6) cf(5) by auto
    then have "so_far rt' w2 eid = so_far ?rt (se_objects s) eid @ [(tid, Inr name, v)]"
      unfolding so_far_def comps' comps using add(9) f(5) by simp
    then show ?thesis using B(6) by simp
  qed
  then have "building cf eid (cs @ [(tid, name, v)]) ?s3"
    using add(2,3,5,8) look B(4) by (simp add: building_def)
  moreover have "cache_wf cf ?s3" using fs(4) by (simp add: cache_wf_def)
  moreover have "deserializeComponents cf (Suc n) eid s = deserializeComponents cf n eid ?s3"
    using h(1-3) fs(1) e2(1) ac ds by (simp add: and_then_def)
  ultimately show ?thesis using that [of ?s3] f(3,4) add(4,7) by simp
qed

lemma deserializeComponents_ok:
  assumes cf: "cf_endpoint cf = ep" "cf_serializers cf = ms" "length (cf_stack cf 32) = 32" "names_kept (cf_env cf)"
      "\<And>tid p w t q. q \<noteq> p \<Longrightarrow> content t q (cf_construct cf tid p w) = content t q w"
    and "building cf eid cs s" "length cs + length ds \<le> kWardenComponents" "cache_wf cf s"
      "\<forall>d\<in>set ds. component_acceptable cf (se_rt s) d" "rd_inv (se_ep s)" "pending (se_ep s) = concat (map wire_component ds) @ rest"
  shows "\<exists>s'. deserializeComponents cf (length ds) eid s = Some (Inr (), s') \<and> building cf eid (cs @ ds) s' \<and> cache_wf cf s' \<and>
    rd_inv (se_ep s') \<and> pending (se_ep s') = rest \<and> se_incoming s' = se_incoming s \<and>
    w_ref_count (rt_warden (se_rt s')) = w_ref_count (rt_warden (se_rt s))"
  using assms(6-)
proof (induction ds arbitrary: s cs)
  case Nil
  then show ?case by (simp add: value_of_def)
next
  case (Cons d ds)
  obtain tid name v where d: "d = (tid, name, v)" by (cases d)
  have pend: "pending (se_ep s) = wire_component (tid, name, v) @ (concat (map wire_component ds) @ rest)"
    using Cons.prems(6) d by simp
  have k: "length cs < kWardenComponents" and acc: "component_acceptable cf (se_rt s) (tid, name, v)"
    using Cons.prems(2,4) d by simp_all
  obtain s' where s': "deserializeComponents cf (Suc (length ds)) eid s = deserializeComponents cf (length ds) eid s'"
    "building cf eid (cs @ [(tid, name, v)]) s'" "cache_wf cf s'" "rd_inv (se_ep s')"
    "pending (se_ep s') = concat (map wire_component ds) @ rest" "\<And>t. accepts (cf_env cf) (se_rt s') t \<longleftrightarrow> accepts (cf_env cf) (se_rt s) t"
    "w_ref_count (rt_warden (se_rt s')) = w_ref_count (rt_warden (se_rt s))" "se_incoming s' = se_incoming s"
    by (rule deserialize_one [OF cf Cons.prems(1) k Cons.prems(3) acc Cons.prems(5) pend, of "length ds"]) (assumption, rule that, assumption+)
  have "\<forall>d\<in>set ds. component_acceptable cf (se_rt s') d" using Cons.prems(4) s'(6) by (auto simp: component_acceptable_def)
  from Cons.IH [OF s'(2) _ s'(3) this s'(4,5)] show ?case
    using Cons.prems(2) s'(1,7,8) d by (auto simp del: deserializeComponents.simps)
qed

end

context component_reader
begin

lemma component_name_getStr: "getStr (rt_parameters rt) cid kInternalNameParameterKey = Inr n \<Longrightarrow> component_name rt cid = n"
  by (simp add: component_name_def GxfComponentName_def GxfParameterGetStr_def)

lemma described_so_far:
  assumes "so_far rt w eid = map (\<lambda>(t, n, v). (t, Inr n, v)) cs" "\<forall>(t, n, v)\<in>set cs. supported cf t \<and> c_str n = n"
  shows "described cf content rt w eid = cs"
proof -
  have "map (\<lambda>c. (ci_tid c, c_str (component_name rt (ci_cid c)), content (ci_tid c) (ci_raw_pointer c) w))
      (filter (\<lambda>c. supported cf (ci_tid c)) xs) = cs"
    if "map (\<lambda>c. (ci_tid c, getStr (rt_parameters rt) (ci_cid c) kInternalNameParameterKey, content (ci_tid c) (ci_raw_pointer c) w)) xs =
      map (\<lambda>(t, n, v). (t, Inr n, v)) cs" "\<forall>(t, n, v)\<in>set cs. supported cf t \<and> c_str n = n" for xs
    using that
  proof (induction xs arbitrary: cs)
    case (Cons c xs)
    then obtain t n v ds where cs: "cs = (t, n, v) # ds" "ci_tid c = t"
        "getStr (rt_parameters rt) (ci_cid c) kInternalNameParameterKey = Inr n" "content (ci_tid c) (ci_raw_pointer c) w = v"
        "map (\<lambda>c. (ci_tid c, getStr (rt_parameters rt) (ci_cid c) kInternalNameParameterKey, content (ci_tid c) (ci_raw_pointer c) w)) xs =
          map (\<lambda>(t, n, v). (t, Inr n, v)) ds" by (cases cs) auto
    then show ?case using Cons.IH [OF cs(5)] Cons.prems(2) component_name_getStr [OF cs(3)] by simp
  qed simp
  then show ?thesis using assms by (simp add: described_def so_far_def)
qed

lemma deserialize_entity_ok:
  assumes cf: "cf_endpoint cf = ep" "cf_serializers cf = ms" "length (cf_stack cf 32) = 32" "names_kept (cf_env cf)"
      "\<And>tid p w t q. q \<noteq> p \<Longrightarrow> content t q (cf_construct cf tid p w) = content t q w"
    and stack: "length (cf_stack cf 40) = 40" and cache: "cache_wf cf s"
    and rt: "rt_wf (ev_exts (cf_env cf)) (se_rt s)" "names_wf (rt_next_id (se_rt s)) (rt_parameters (se_rt s))"
      "w_ref_count (rt_warden (se_rt s)) (rt_next_id (se_rt s)) = None"
    and acc: "\<forall>d\<in>set cs. component_acceptable cf (se_rt s) d" "length cs \<le> kWardenComponents"
    and e: "rd_inv (se_ep s)" "pending (se_ep s) = wire_entity seq cs @ rest"
  shows "\<exists>s'. deserialize_entity_header_abi cf s = Some (Inr (rt_next_id (se_rt s)), s') \<and>
    described cf content (se_rt s') (se_objects s') (rt_next_id (se_rt s)) = cs \<and> pending (se_ep s') = rest \<and>
    rd_inv (se_ep s') \<and> cache_wf cf s' \<and> se_incoming s' = seq + 1 \<and> rt_wf (ev_exts (cf_env cf)) (se_rt s') \<and>
    w_ref_count (rt_warden (se_rt s')) (rt_next_id (se_rt s)) = Some 1"
proof -
  let ?rt = "se_rt s" and ?eid = "rt_next_id (se_rt s)"
  define rt1 where "rt1 = snd (GxfEntityRefCountInc ?eid (created ?rt (''__entity_'' @ to_string ?eid)))"
  have new: "Entity_New (cf_env cf) None ?rt = Some (Inr ?eid, rt1)" by (simp add: New_eq rt1_def)
  have wf1: "rt_wf (ev_exts (cf_env cf)) rt1" unfolding rt1_def by (rule rt_wf_inc [OF created_wf [OF rt(1)]])
  have fresh: "w_entities (rt_warden ?rt) ?eid = None" using rt_wfD(5) [OF rt(1)] unfolding items_wf_def by (metis less_irrefl option.exhaust)
  have r1: "rt_types rt1 = rt_types ?rt" "rt_parameters rt1 = rt_parameters ?rt" "rt_next_id rt1 = ?eid + 1"
    "w_ref_count (rt_warden rt1) ?eid = Some 1"
    "w_entities (rt_warden rt1) ?eid = Some \<lparr>wi_stage = kUninitialized, wi_uid = ?eid, wi_components = [],
       wi_interface = Map.empty, wi_gid = w_default_group (rt_warden ?rt)\<rparr>"
    using rt(3) fresh by (simp_all add: rt1_def GxfEntityRefCountInc_def ew_inc_eq created_def ew_create_def emplace_def)
  have build: "building cf ?eid [] (s\<lparr>se_rt := rt1\<rparr>)"
    using wf1 r1 rt(2) by (simp add: building_def names_wf_def looked_up_def so_far_def comps_of_def)
  have n: "unat (of_nat (length cs) :: uint64) = length cs" using acc(2) by (simp add: unat_of_nat kWardenComponents_def)
  let ?s1 = "s\<lparr>se_rt := rt1\<rparr>"
  have "pending (se_ep ?s1) = wire_entity_header seq (of_nat (length cs)) @ (concat (map wire_component cs) @ rest)"
    using e(2) by (simp add: wire_entity_def)
  from DeserializeEntityHeader_ok [OF cf(1) _ this stack] e(1)
  obtain h e1 where h: "DeserializeEntityHeader cf ?s1 = Some (Inr h, ?s1\<lparr>se_ep := e1\<rparr>)" "eh_sequence_number h = seq"
      "eh_component_count h = of_nat (length cs)" "pending e1 = concat (map wire_component cs) @ rest" "rd_inv e1" by auto
  let ?s2 = "?s1\<lparr>se_ep := e1, se_incoming := seq + 1\<rparr>"
  have "building cf ?eid [] ?s2" using build by (simp add: building_def)
  moreover have "cache_wf cf ?s2" using cache by (simp add: cache_wf_def)
  moreover have "\<forall>d\<in>set cs. component_acceptable cf (se_rt ?s2) d"
    using acc(1) r1(1) by (auto simp: component_acceptable_def accepts_def)
  ultimately obtain s' where s': "deserializeComponents cf (length cs) ?eid ?s2 = Some (Inr (), s')" "building cf ?eid cs s'"
      "cache_wf cf s'" "rd_inv (se_ep s')" "pending (se_ep s') = rest" "se_incoming s' = seq + 1"
      "w_ref_count (rt_warden (se_rt s')) = w_ref_count (rt_warden rt1)"
    using deserializeComponents_ok [OF cf, of ?eid "[]" ?s2 cs rest] acc(2) h(4,5) by auto
  have "deserialize_into cf ?eid ?s1 = Some (Inr (), s')"
    using h(1-3) s'(1) n by (auto simp: deserialize_into_def Let_def)
  then have "deserialize_entity_header_abi cf s = Some (Inr ?eid, s')"
    using new by (simp add: deserialize_entity_header_abi_def)
  moreover have "described cf content (se_rt s') (se_objects s') ?eid = cs"
    using s'(2) acc(1) by (intro described_so_far) (auto simp: building_def component_acceptable_def)
  ultimately show ?thesis using s' r1(4) by (auto simp: building_def)
qed

end

section \<open>StdComponentSerializer\<close>

text \<open>The types that it serializes, with the width of an integer.\<close>

datatype std_type = Timestamp_t | Tensor_t | Integer_t bool nat | Float_t | Double_t | Bool_t

definition std_types :: "std_type list" where
  "std_types = [Timestamp_t, Tensor_t, Integer_t True 1, Integer_t False 1, Integer_t True 2, Integer_t False 2,
     Integer_t True 4, Integer_t False 4, Integer_t True 8, Integer_t False 8, Float_t, Double_t, Bool_t]"

fun std_size :: "std_type \<Rightarrow> nat" where
  "std_size Timestamp_t = 16"
| "std_size (Integer_t s n) = n"
| "std_size Float_t = 4"
| "std_size Double_t = 8"
| "std_size Bool_t = 1"
| "std_size Tensor_t = 0"

text \<open>The contents of components: the bytes of those of simple type, the tensors, and beside them the
  memory that tensors point to and the state of its allocator.\<close>

record 's Contents =
  co_bytes :: "nat \<Rightarrow> byte list"
  co_tensor :: "nat \<Rightarrow> 's TensorMemory"
  co_memory :: "nat \<Rightarrow> byte"
  co_allocator :: 's

text \<open>cudaMemcpy is given as a function on the memory; None is an error of it.\<close>

record 's StdConfig =
  sd_big_endian :: bool
  sd_stack :: "nat \<Rightarrow> byte list"
  sd_allocate :: "nat \<Rightarrow> MemoryStorageType \<Rightarrow> 's \<Rightarrow> nat expected \<times> 's"
  sd_release :: "nat \<Rightarrow> 's \<Rightarrow> unit expected \<times> 's"
  sd_device :: "DLDeviceType expected"
  sd_cuda_copy :: "nat \<Rightarrow> nat \<Rightarrow> nat \<Rightarrow> (nat \<Rightarrow> byte) \<Rightarrow> (nat \<Rightarrow> byte) option"

definition ep_write_bytes :: "'e Endpoint \<Rightarrow> byte list option \<Rightarrow> ('w \<times> 'e, nat) step" where
  "ep_write_bytes ep data = (\<lambda>(w, e). map_option (\<lambda>(r, e1). (r, w, e1)) (Endpoint_write ep data e))"

text \<open>A read whose bytes are stored by a function, also when it fails.\<close>

definition ep_read_into :: "'e Endpoint \<Rightarrow> bool \<Rightarrow> nat \<Rightarrow> (byte list \<Rightarrow> 'w \<Rightarrow> 'w) \<Rightarrow> ('w \<times> 'e, nat) step" where
  "ep_read_into ep data_null n store = (\<lambda>(w, e). map_option (\<lambda>(r, bs, e1). (r, store bs w, e1)) (Endpoint_read ep data_null n e))"

text \<open>A read into a local variable.\<close>

definition ep_read_local :: "'e Endpoint \<Rightarrow> byte list \<Rightarrow> ('w \<times> 'e, byte list) step" where
  "ep_read_local ep old = (\<lambda>(w, e). map_option
     (\<lambda>(r, bs, e1). (map_sum (\<lambda>c. c) (\<lambda>_. bs @ drop (length bs) old) r, w, e1)) (Endpoint_read ep False (length old) e))"

definition put_bytes :: "nat \<Rightarrow> byte list \<Rightarrow> 's Contents \<Rightarrow> 's Contents" where
  "put_bytes p bs w = w\<lparr>co_bytes := (co_bytes w)(p := bs)\<rparr>"

definition store_bytes :: "nat \<Rightarrow> ('s Contents \<times> 'e, byte list) step \<Rightarrow> ('s Contents \<times> 'e, unit) step" where
  "store_bytes p m = and_then m (\<lambda>bs (w, e). Some (Inr (), put_bytes p bs w, e))"

definition serializeTimestamp :: "'e Endpoint \<Rightarrow> ('s Contents, 'e) Serializer" where
  "serializeTimestamp ep p = (\<lambda>(w, e). ep_write_bytes ep (Some (co_bytes w p)) (w, e))"

definition deserializeTimestamp :: "'s StdConfig \<Rightarrow> 'e Endpoint \<Rightarrow> ('s Contents \<times> 'e, byte list) step" where
  "deserializeTimestamp sd ep = ep_read_local ep (sd_stack sd 16)"

definition serializeInteger :: "'s StdConfig \<Rightarrow> 'e Endpoint \<Rightarrow> nat \<Rightarrow> ('s Contents, 'e) Serializer" where
  "serializeInteger sd ep n p = (\<lambda>(w, e). let be = sd_big_endian sd in
     ep_write_bytes ep (Some (to_mem be n (EncodeLittleEndian be n (of_mem be (co_bytes w p))))) (w, e))"

definition deserializeInteger :: "'s StdConfig \<Rightarrow> 'e Endpoint \<Rightarrow> nat \<Rightarrow> ('s Contents \<times> 'e, byte list) step" where
  "deserializeInteger sd ep n = (let be = sd_big_endian sd in
     and_then (ep_read_local ep (sd_stack sd n)) (\<lambda>bs. value_of (to_mem be n (DecodeLittleEndian be n (of_mem be bs)))))"

subsection \<open>Tensors\<close>

definition storage_mem :: "bool \<Rightarrow> MemoryStorageType \<Rightarrow> byte list" where
  "storage_mem be k = to_mem be 4 (case k of kHost \<Rightarrow> 0 | kDevice \<Rightarrow> 1 | kSystem \<Rightarrow> 2)"

definition storage_of :: "nat \<Rightarrow> MemoryStorageType option" where
  "storage_of n = (if n = 0 then Some kHost else if n = 1 then Some kDevice else if n = 2 then Some kSystem else None)"

definition primitive_types :: "PrimitiveType list" where
  "primitive_types = [kCustom, kInt8, kUnsigned8, kInt16, kUnsigned16, kInt32, kUnsigned32, kInt64, kUnsigned64,
     kFloat32, kFloat64, kComplex64, kComplex128, kFloat16]"

definition primitive_number :: "PrimitiveType \<Rightarrow> nat" where
  "primitive_number p = length (takeWhile (\<lambda>q. q \<noteq> p) primitive_types)"

definition i32_bits :: "int \<Rightarrow> nat" where "i32_bits d = nat (d mod 2 ^ 32)"

text \<open>TensorHeader, packed, in the byte order of the machine.\<close>

definition tensor_header_mem :: "bool \<Rightarrow> MemoryStorageType \<Rightarrow> Tensor \<Rightarrow> byte list" where
  "tensor_header_mem be storage t = storage_mem be storage @ to_mem be 4 (primitive_number (t_element_type t)) @
     to_mem be 8 (unat (t_bytes_per_element t)) @ to_mem be 4 (length (t_shape t)) @
     concat (map (\<lambda>i. to_mem be 4 (i32_bits (dimension (t_shape t) i))) [0..<kMaxRank]) @
     concat (map (\<lambda>i. to_mem be 8 (unat (t_stride t i))) [0..<kMaxRank])"

definition memory_bytes :: "(nat \<Rightarrow> byte) \<Rightarrow> nat \<Rightarrow> nat \<Rightarrow> byte list" where
  "memory_bytes m p n = map m [p..<p + n]"

definition put_memory :: "nat \<Rightarrow> byte list \<Rightarrow> 's Contents \<Rightarrow> 's Contents" where
  "put_memory p bs w = w\<lparr>co_memory := (\<lambda>a. if p \<le> a \<and> a < p + length bs then bs ! (a - p) else co_memory w a)\<rparr>"

definition tensor_size :: "Tensor \<Rightarrow> nat" where
  "tensor_size t = unat (t_element_count t * t_bytes_per_element t)"

text \<open>A device tensor goes through a buffer of the allocator.\<close>

definition with_buffer :: "'s StdConfig \<Rightarrow> nat \<Rightarrow> (nat \<Rightarrow> ('s Contents \<times> 'e, unit) step) \<Rightarrow> ('s Contents \<times> 'e, unit) step" where
  "with_buffer sd n body = (\<lambda>(w, e). case sd_allocate sd n kHost (co_allocator w) of
     (Inl code, a) \<Rightarrow> Some (Inl code, w\<lparr>co_allocator := a\<rparr>, e)
   | (Inr b, a) \<Rightarrow> and_then (body b) (\<lambda>_ (w1, e1). case sd_release sd b (co_allocator w1) of
       (Inl code, a1) \<Rightarrow> Some (Inl code, w1\<lparr>co_allocator := a1\<rparr>, e1)
     | (Inr _, a1) \<Rightarrow> Some (Inr (), w1\<lparr>co_allocator := a1\<rparr>, e1)) (w\<lparr>co_allocator := a\<rparr>, e))"

definition cuda_copy :: "'s StdConfig \<Rightarrow> nat \<Rightarrow> nat \<Rightarrow> nat \<Rightarrow> ('s Contents \<times> 'e, unit) step" where
  "cuda_copy sd dst src n = (\<lambda>(w, e). case sd_cuda_copy sd dst src n (co_memory w) of
     None \<Rightarrow> Some (Inl GXF_FAILURE, w, e) | Some m \<Rightarrow> Some (Inr (), w\<lparr>co_memory := m\<rparr>, e))"

definition write_memory :: "'e Endpoint \<Rightarrow> nat \<Rightarrow> nat \<Rightarrow> ('s Contents \<times> 'e, unit) step" where
  "write_memory ep p n = (\<lambda>(w, e). and_then (ep_write_bytes ep (if p = 0 then None else Some (memory_bytes (co_memory w) p n)))
     (\<lambda>_. value_of ()) (w, e))"

definition read_memory :: "'e Endpoint \<Rightarrow> nat \<Rightarrow> nat \<Rightarrow> ('s Contents \<times> 'e, unit) step" where
  "read_memory ep p n = and_then (ep_read_into ep (p = 0) n (put_memory p)) (\<lambda>_. value_of ())"

definition serializeTensor :: "'s StdConfig \<Rightarrow> 'e Endpoint \<Rightarrow> ('s Contents, 'e) Serializer" where
  "serializeTensor sd ep p = (\<lambda>(w, e).
     let t = co_tensor w p; layout = tm_layout t; storage = mb_storage (tm_shared t); n = tensor_size layout in
     and_then (ep_write_bytes ep (Some (tensor_header_mem (sd_big_endian sd) storage layout)))
       (\<lambda>_. and_then (if storage = kDevice
            then with_buffer sd n (\<lambda>b. and_then (cuda_copy sd b (tm_pointer t) n) (\<lambda>_. write_memory ep b n))
            else write_memory ep (tm_pointer t) n)
         (\<lambda>_. value_of (116 + n))) (w, e))"

definition Tensor_init :: "'s TensorMemory" where
  "Tensor_init = \<lparr>tm_layout = \<lparr>t_shape = [], t_element_count = 0, t_element_type = kCustom, t_bytes_per_element = 1,
       t_strides = replicate kMaxRank 0\<rparr>,
     tm_pointer = 0, tm_shared = mb_empty, tm_held_by_release = False, tm_held_by_context = False\<rparr>"

text \<open>The end of the life of a local tensor.\<close>

definition tensor_destroy :: "'s TensorMemory \<Rightarrow> 's \<Rightarrow> 's" where
  "tensor_destroy t s = snd (tm_drop (t\<lparr>tm_held_by_release := False, tm_held_by_context := False\<rparr>, s))"

text \<open>The number of elements is computed from the rank of the header, which is not compared with the
  length of the arrays; a rank above it, and a number that is no enumerator, are None.\<close>

definition deserializeTensor :: "'s StdConfig \<Rightarrow> 'e Endpoint \<Rightarrow> ('s Contents \<times> 'e, 's TensorMemory) step" where
  "deserializeTensor sd ep = and_then (ep_read_local ep (sd_stack sd 116)) (\<lambda>bs (w, e).
     let be = sd_big_endian sd;
         field = (\<lambda>at n. of_mem be (take n (drop at bs)));
         rank = field 16 4;
         dims = map (\<lambda>i. sint (of_nat (field (20 + 4 * i) 4) :: 32 word)) [0..<kMaxRank];
         strides = map (\<lambda>i. of_nat (field (52 + 8 * i) 8)) [0..<kMaxRank] in
     if rank > kMaxRank \<or> field 4 4 \<ge> length primitive_types then None
     else case storage_of (field 0 4) of
       None \<Rightarrow> None
     | Some storage \<Rightarrow>
         (case tm_reshapeCustom (sd_allocate sd) (sd_release sd) True (sd_device sd) (take rank dims)
                 (primitive_types ! field 4 4) (of_nat (field 8 8)) (Inr strides) storage (Tensor_init, co_allocator w) of
            None \<Rightarrow> None
          | Some (Inl code, t, a) \<Rightarrow> Some (Inl code, w\<lparr>co_allocator := tensor_destroy t a\<rparr>, e)
          | Some (Inr _, t, a) \<Rightarrow>
              (let n = tensor_size (tm_layout t) in
               case (if storage = kDevice
                     then with_buffer sd n (\<lambda>b. and_then (read_memory ep b n) (\<lambda>_. cuda_copy sd (tm_pointer t) b n))
                     else read_memory ep (tm_pointer t) n) (w\<lparr>co_allocator := a\<rparr>, e) of
                 None \<Rightarrow> None
               | Some (Inl code, w1, e1) \<Rightarrow> Some (Inl code, w1\<lparr>co_allocator := tensor_destroy t (co_allocator w1)\<rparr>, e1)
               | Some (Inr _, w1, e1) \<Rightarrow> Some (Inr t, w1, e1))))"

subsection \<open>The table\<close>

definition std_serializer :: "'s StdConfig \<Rightarrow> 'e Endpoint \<Rightarrow> std_type \<Rightarrow> ('s Contents, 'e) Serializer" where
  "std_serializer sd ep t = (case t of
     Timestamp_t \<Rightarrow> serializeTimestamp ep
   | Tensor_t \<Rightarrow> serializeTensor sd ep
   | Integer_t s n \<Rightarrow> serializeInteger sd ep n
   | _ \<Rightarrow> (\<lambda>p (w, e). ep_write_bytes ep (Some (co_bytes w p)) (w, e)))"

definition std_deserializer :: "'s StdConfig \<Rightarrow> 'e Endpoint \<Rightarrow> std_type \<Rightarrow> ('s Contents, 'e) Deserializer" where
  "std_deserializer sd ep t = (case t of
     Timestamp_t \<Rightarrow> (\<lambda>p. store_bytes p (deserializeTimestamp sd ep))
   | Tensor_t \<Rightarrow> (\<lambda>p. and_then (deserializeTensor sd ep)
       (\<lambda>v (w, e). Some (Inr (), w\<lparr>co_tensor := (co_tensor w)(p := v)\<rparr>, e)))
   | Integer_t s n \<Rightarrow> (\<lambda>p. store_bytes p (deserializeInteger sd ep n))
   | _ \<Rightarrow> (\<lambda>p (w, e). and_then (ep_read_into ep False (std_size t)
       (\<lambda>bs w. put_bytes p (take (std_size t) (bs @ drop (length bs) (co_bytes w p))) w)) (\<lambda>_. value_of ()) (w, e)))"

text \<open>The loops over the types, which go on after an error and keep the first; the identifier of a type is
  found by its name.\<close>

fun configure :: "(std_type \<Rightarrow> gxf_tid_t expected) \<Rightarrow> (gxf_tid_t \<Rightarrow> std_type \<Rightarrow> 'm \<Rightarrow> unit expected \<times> 'm) \<Rightarrow>
    std_type list \<Rightarrow> unit expected \<times> 'm \<Rightarrow> unit expected \<times> 'm" where
  "configure tid_of set_it [] rm = rm"
| "configure tid_of set_it (t # ts) (result, m) = (case tid_of t of
     Inl e \<Rightarrow> configure tid_of set_it ts (AndExpected result (Unexpected e), m)
   | Inr tid \<Rightarrow> (case set_it tid t m of (r, m1) \<Rightarrow> configure tid_of set_it ts (AndExpected result r, m1)))"

definition configureSerializers :: "'s StdConfig \<Rightarrow> 'e Endpoint \<Rightarrow> (std_type \<Rightarrow> gxf_tid_t expected) \<Rightarrow>
    ('s Contents, 'e) ComponentSerializer \<Rightarrow> unit expected \<times> ('s Contents, 'e) ComponentSerializer" where
  "configureSerializers sd ep tid_of m =
     configure tid_of (\<lambda>tid t. setSerializer tid (Some (std_serializer sd ep t))) std_types (Success, m)"

definition configureDeserializers :: "'s StdConfig \<Rightarrow> 'e Endpoint \<Rightarrow> (std_type \<Rightarrow> gxf_tid_t expected) \<Rightarrow>
    ('s Contents, 'e) ComponentSerializer \<Rightarrow> unit expected \<times> ('s Contents, 'e) ComponentSerializer" where
  "configureDeserializers sd ep tid_of m =
     configure tid_of (\<lambda>tid t. setDeserializer tid (Some (std_deserializer sd ep t))) std_types (Success, m)"

definition std_initialize :: "'s StdConfig \<Rightarrow> 'e Endpoint \<Rightarrow> (std_type \<Rightarrow> gxf_tid_t expected) \<Rightarrow>
    ('s Contents, 'e) ComponentSerializer \<Rightarrow> gxf_result_t \<times> ('s Contents, 'e) ComponentSerializer" where
  "std_initialize sd ep tid_of m =
     (if \<not> IsLittleEndian (sd_big_endian sd) then (GXF_NOT_IMPLEMENTED, m)
      else case configureSerializers sd ep tid_of m of (r1, m1) \<Rightarrow>
        (case configureDeserializers sd ep tid_of m1 of (r2, m2) \<Rightarrow> (ToResultCode (AndExpected r1 r2), m2)))"

section \<open>The table of StdComponentSerializer\<close>

lemma getSerializer_set:
  "getSerializer (snd (setSerializer tid0 (Some f) m)) tid =
     (if tid = tid0 \<and> \<not> ok (getSerializer m tid) then Inr f else getSerializer m tid)"
  "getDeserializer (snd (setSerializer tid0 (Some f) m)) tid = getDeserializer m tid"
  by (auto simp: getSerializer_def getDeserializer_def setSerializer_def split: option.splits)

lemma getDeserializer_set:
  "getDeserializer (snd (setDeserializer tid0 (Some g) m)) tid =
     (if tid = tid0 \<and> \<not> ok (getDeserializer m tid) then Inr g else getDeserializer m tid)"
  "getSerializer (snd (setDeserializer tid0 (Some g) m)) tid = getSerializer m tid"
  by (auto simp: getSerializer_def getDeserializer_def setDeserializer_def split: option.splits)

definition first_kind :: "(std_type \<Rightarrow> gxf_tid_t expected) \<Rightarrow> std_type list \<Rightarrow> gxf_tid_t \<Rightarrow> std_type option" where
  "first_kind tid_of ts tid = find (\<lambda>t. tid_of t = Inr tid) ts"

lemma configure_serializers:
  "getSerializer (snd (configure tid_of (\<lambda>tid t. setSerializer tid (Some (F t))) ts (r, m))) tid =
     (if ok (getSerializer m tid) then getSerializer m tid
      else case first_kind tid_of ts tid of None \<Rightarrow> getSerializer m tid | Some t \<Rightarrow> Inr (F t))"
  "getDeserializer (snd (configure tid_of (\<lambda>tid t. setSerializer tid (Some (F t))) ts (r, m))) tid = getDeserializer m tid"
proof (induction ts arbitrary: r m)
  case (Cons t ts)
  { case 1
    show ?case
    proof (cases "tid_of t")
      case (Inr tid0)
      obtain r1 m1 where s: "setSerializer tid0 (Some (F t)) m = (r1, m1)" by fastforce
      show ?thesis using getSerializer_set(1) [of tid0 "F t" m tid] Cons(1) [of "AndExpected r r1" m1] Inr
        by (auto simp: s first_kind_def split: option.split)
    qed (use Cons(1) in \<open>simp add: first_kind_def\<close>)
  next
    case 2
    show ?case
    proof (cases "tid_of t")
      case (Inr tid0)
      obtain r1 m1 where s: "setSerializer tid0 (Some (F t)) m = (r1, m1)" by fastforce
      show ?thesis using getSerializer_set(2) [of tid0 "F t" m tid] Cons(2) [of "AndExpected r r1" m1] Inr by (simp add: s)
    qed (use Cons(2) in simp)
  }
qed (simp_all add: first_kind_def)

lemma configure_deserializers:
  "getDeserializer (snd (configure tid_of (\<lambda>tid t. setDeserializer tid (Some (G t))) ts (r, m))) tid =
     (if ok (getDeserializer m tid) then getDeserializer m tid
      else case first_kind tid_of ts tid of None \<Rightarrow> getDeserializer m tid | Some t \<Rightarrow> Inr (G t))"
  "getSerializer (snd (configure tid_of (\<lambda>tid t. setDeserializer tid (Some (G t))) ts (r, m))) tid = getSerializer m tid"
proof (induction ts arbitrary: r m)
  case (Cons t ts)
  { case 1
    show ?case
    proof (cases "tid_of t")
      case (Inr tid0)
      obtain r1 m1 where s: "setDeserializer tid0 (Some (G t)) m = (r1, m1)" by fastforce
      show ?thesis using getDeserializer_set(1) [of tid0 "G t" m tid] Cons(1) [of "AndExpected r r1" m1] Inr
        by (auto simp: s first_kind_def split: option.split)
    qed (use Cons(1) in \<open>simp add: first_kind_def\<close>)
  next
    case 2
    show ?case
    proof (cases "tid_of t")
      case (Inr tid0)
      obtain r1 m1 where s: "setDeserializer tid0 (Some (G t)) m = (r1, m1)" by fastforce
      show ?thesis using getDeserializer_set(2) [of tid0 "G t" m tid] Cons(2) [of "AndExpected r r1" m1] Inr by (simp add: s)
    qed (use Cons(2) in simp)
  }
qed (simp_all add: first_kind_def)

text \<open>The table after initialize; on a big-endian machine it stays empty.\<close>

definition std_table :: "'s StdConfig \<Rightarrow> 'e Endpoint \<Rightarrow> (std_type \<Rightarrow> gxf_tid_t expected) \<Rightarrow> ('s Contents, 'e) ComponentSerializer" where
  "std_table sd ep tid_of = snd (std_initialize sd ep tid_of Map.empty)"

definition kind_of :: "'s StdConfig \<Rightarrow> (std_type \<Rightarrow> gxf_tid_t expected) \<Rightarrow> gxf_tid_t \<Rightarrow> std_type option" where
  "kind_of sd tid_of tid = (if sd_big_endian sd then None else first_kind tid_of std_types tid)"

lemma get_empty [simp]: "getSerializer (\<lambda>_. None) tid = Inl GXF_FAILURE" "getDeserializer (\<lambda>_. None) tid = Inl GXF_FAILURE"
  by (simp_all add: getSerializer_def getDeserializer_def)

lemma std_table_get:
  "getSerializer (std_table sd ep tid_of) tid =
     (case kind_of sd tid_of tid of None \<Rightarrow> Inl GXF_FAILURE | Some t \<Rightarrow> Inr (std_serializer sd ep t))"
  "getDeserializer (std_table sd ep tid_of) tid =
     (case kind_of sd tid_of tid of None \<Rightarrow> Inl GXF_FAILURE | Some t \<Rightarrow> Inr (std_deserializer sd ep t))"
proof -
  obtain r1 m1 where c1: "configureSerializers sd ep tid_of Map.empty = (r1, m1)" by fastforce
  obtain r2 m2 where c2: "configureDeserializers sd ep tid_of m1 = (r2, m2)" by fastforce
  have m1: "getSerializer m1 tid = (case first_kind tid_of std_types tid of None \<Rightarrow> Inl GXF_FAILURE | Some t \<Rightarrow> Inr (std_serializer sd ep t))"
    "getDeserializer m1 tid = Inl GXF_FAILURE" for tid
    using configure_serializers [of tid_of "std_serializer sd ep" std_types Success Map.empty tid] c1
    by (simp_all add: configureSerializers_def split: option.split)
  have m2: "getDeserializer m2 tid = (case first_kind tid_of std_types tid of None \<Rightarrow> Inl GXF_FAILURE | Some t \<Rightarrow> Inr (std_deserializer sd ep t))"
    "getSerializer m2 tid = getSerializer m1 tid" for tid
    using configure_deserializers [of tid_of "std_deserializer sd ep" std_types Success m1 tid] c2 m1
    by (simp_all add: configureDeserializers_def split: option.split)
  have t: "std_table sd ep tid_of = (if sd_big_endian sd then Map.empty else m2)"
    using c1 c2 by (simp add: std_table_def std_initialize_def)
  show "getSerializer (std_table sd ep tid_of) tid =
      (case kind_of sd tid_of tid of None \<Rightarrow> Inl GXF_FAILURE | Some t \<Rightarrow> Inr (std_serializer sd ep t))"
    unfolding t kind_of_def using m1 m2 by simp
  show "getDeserializer (std_table sd ep tid_of) tid =
      (case kind_of sd tid_of tid of None \<Rightarrow> Inl GXF_FAILURE | Some t \<Rightarrow> Inr (std_deserializer sd ep t))"
    unfolding t kind_of_def using m1 m2 by simp
qed

text \<open>The bytes of a component of a simple type.\<close>

definition simple_kind :: "'s StdConfig \<Rightarrow> (std_type \<Rightarrow> gxf_tid_t expected) \<Rightarrow> gxf_tid_t \<Rightarrow> nat option" where
  "simple_kind sd tid_of tid = (case kind_of sd tid_of tid of
     Some t \<Rightarrow> (if t = Tensor_t then None else Some (std_size t)) | None \<Rightarrow> None)"

definition simple_object :: "'s StdConfig \<Rightarrow> (std_type \<Rightarrow> gxf_tid_t expected) \<Rightarrow> gxf_tid_t \<Rightarrow> nat \<Rightarrow> 's Contents \<Rightarrow> bool" where
  "simple_object sd tid_of tid p w \<longleftrightarrow> simple_kind sd tid_of tid = Some (length (co_bytes w p))"

definition simple_bytes :: "'s StdConfig \<Rightarrow> (std_type \<Rightarrow> gxf_tid_t expected) \<Rightarrow> gxf_tid_t \<Rightarrow> byte list \<Rightarrow> bool" where
  "simple_bytes sd tid_of tid v \<longleftrightarrow> simple_kind sd tid_of tid = Some (length v) \<and> length (sd_stack sd (length v)) = length v"

definition bytes_at :: "gxf_tid_t \<Rightarrow> nat \<Rightarrow> 's Contents \<Rightarrow> byte list" where
  "bytes_at tid p w = co_bytes w p"

context sink
begin

lemma ep_write_bytes_ok:
  assumes "wr_inv e" "room e (length bs + k)"
  shows "\<exists>e1. ep_write_bytes ep (Some bs) (w, e) = Some (Inr (length bs), w, e1) \<and> written e1 = written e @ bs \<and> wr_inv e1 \<and> room e1 k"
  using Endpoint_write_ok [OF assms] by (auto simp: ep_write_bytes_def)

lemma std_serializer_ok:
  assumes "getSerializer (std_table sd ep tid_of) tid = Inr f" "simple_object sd tid_of tid p w" "wr_inv e"
    "room e (length (co_bytes w p) + k)"
  shows "\<exists>e1. f p (w, e) = Some (Inr (length (co_bytes w p)), w, e1) \<and> written e1 = written e @ co_bytes w p \<and> wr_inv e1 \<and> room e1 k"
proof -
  obtain t where t: "kind_of sd tid_of tid = Some t" "f = std_serializer sd ep t" "t \<noteq> Tensor_t" "length (co_bytes w p) = std_size t"
    using assms(1,2) by (auto simp: std_table_get simple_object_def simple_kind_def split: option.splits if_splits)
  then have be: "\<not> sd_big_endian sd" by (auto simp: kind_of_def split: if_splits)
  have "std_serializer sd ep t p (w, e) = ep_write_bytes ep (Some (co_bytes w p)) (w, e)"
    using t(3,4) be
    by (cases t) (auto simp: std_serializer_def serializeTimestamp_def serializeInteger_def EncodeLittleEndian_def htole_def
        to_mem_def of_mem_def le_bytes_of_le_n simp del: le_bytes.simps)
  then show ?thesis using ep_write_bytes_ok [OF assms(3,4)] t(2) by simp
qed

end

context source
begin

lemma std_deserializer_ok:
  assumes "isSupported (std_table sd ep tid_of) tid" "simple_bytes sd tid_of tid v" "rd_inv e" "pending e = v @ rest"
  shows "\<exists>f w1 e1. getDeserializer (std_table sd ep tid_of) tid = Inr f \<and> f p (w, e) = Some (Inr (), w1, e1) \<and> rd_inv e1 \<and>
    pending e1 = rest \<and> co_bytes w1 p = v \<and> (\<forall>q. q \<noteq> p \<longrightarrow> co_bytes w1 q = co_bytes w q)"
proof -
  obtain t where t: "kind_of sd tid_of tid = Some t" "getDeserializer (std_table sd ep tid_of) tid = Inr (std_deserializer sd ep t)"
      "t \<noteq> Tensor_t" "length v = std_size t" "length (sd_stack sd (std_size t)) = std_size t"
    using assms(1,2) by (auto simp: isSupported_def std_table_get simple_bytes_def simple_kind_def split: option.splits if_splits)
  then have be: "\<not> sd_big_endian sd" by (auto simp: kind_of_def split: if_splits)
  obtain e1 where e1: "Endpoint_read ep False (std_size t) e = Some (Inr (std_size t), v, e1)" "pending e1 = rest" "rd_inv e1"
    using Endpoint_read_ok [OF assms(3,4) t(4)] by blast
  have "std_deserializer sd ep t p (w, e) = Some (Inr (), put_bytes p v w, e1)"
    using t(3-5) be e1(1)
    by (cases t) (auto simp: std_deserializer_def deserializeTimestamp_def deserializeInteger_def DecodeLittleEndian_def htole_def
        to_mem_def of_mem_def store_bytes_def and_then_def ep_read_local_def ep_read_into_def value_of_def
        le_bytes_of_le_n simp del: le_bytes.simps)
  then show ?thesis using t(2) e1(2,3) by (auto simp: put_bytes_def)
qed

end

interpretation std_writer: component_writer sb_endpoint sb_written sb_wf sb_room "[std_table sd sb_endpoint tid_of]" bytes_at
  "simple_object sd tid_of" for sd :: "'s StdConfig" and tid_of
  by unfold_locales (use sb_sink.std_serializer_ok in \<open>simp add: bytes_at_def\<close>)

interpretation std_reader: component_reader sb_endpoint sb_pending sb_wf "[std_table sd sb_endpoint tid_of]" bytes_at
  "simple_bytes sd tid_of" for sd :: "'s StdConfig" and tid_of
  by unfold_locales (use sb_source.std_deserializer_ok in \<open>fastforce simp: bytes_at_def\<close>)

section \<open>From one program to another\<close>

text \<open>The sender holds the entity, its components are found, and those that a serializer supports are
  components of a simple type; the message goes to a SerializationBuffer.\<close>

definition can_send :: "'s StdConfig \<Rightarrow> (std_type \<Rightarrow> gxf_tid_t expected) \<Rightarrow>
    ('u, 's Contents, 'b SerializationBuffer) Config \<Rightarrow> gxf_uid_t \<Rightarrow> ('u, 's Contents, 'b SerializationBuffer) Session \<Rightarrow> bool" where
  "can_send sd tid_of cf eid s \<longleftrightarrow> cf_endpoint cf = sb_endpoint \<and> cf_serializers cf = [std_table sd sb_endpoint tid_of] \<and>
     cache_wf cf s \<and> rt_wf (ev_exts (cf_env cf)) (se_rt s) \<and> looked_up (se_rt s) eid \<and>
     eid \<in> dom (w_entities (rt_warden (se_rt s))) \<and> (\<exists>n>0. w_ref_count (rt_warden (se_rt s)) eid = Some n) \<and> eid \<noteq> kNullUid \<and>
     (\<forall>c\<in>set (comps_of (rt_warden (se_rt s)) eid). supported cf (ci_tid c) \<longrightarrow>
        simple_object sd tid_of (ci_tid c) (ci_raw_pointer c) (se_objects s) \<and>
        length (c_str (component_name (se_rt s) (ci_cid c))) < 2 ^ 64) \<and>
     sb_wf (se_ep s)"

text \<open>The receiver knows the types in the message, can make objects of them and has serializers for them;
  its next identifier is new.\<close>

definition can_receive :: "'s StdConfig \<Rightarrow> (std_type \<Rightarrow> gxf_tid_t expected) \<Rightarrow>
    ('u, 's Contents, 'b SerializationBuffer) Config \<Rightarrow> wire_component list \<Rightarrow>
    ('u, 's Contents, 'b SerializationBuffer) Session \<Rightarrow> bool" where
  "can_receive sd tid_of cf cs s \<longleftrightarrow> cf_endpoint cf = sb_endpoint \<and> cf_serializers cf = [std_table sd sb_endpoint tid_of] \<and>
     length (cf_stack cf 32) = 32 \<and> length (cf_stack cf 40) = 40 \<and> names_kept (cf_env cf) \<and>
     (\<forall>tid p w q. q \<noteq> p \<longrightarrow> co_bytes (cf_construct cf tid p w) q = co_bytes w q) \<and> cache_wf cf s \<and>
     rt_wf (ev_exts (cf_env cf)) (se_rt s) \<and> names_wf (rt_next_id (se_rt s)) (rt_parameters (se_rt s)) \<and>
     w_ref_count (rt_warden (se_rt s)) (rt_next_id (se_rt s)) = None \<and> length cs \<le> kWardenComponents \<and>
     (\<forall>(tid, name, v)\<in>set cs. supported cf tid \<and> accepts (cf_env cf) (se_rt s) tid \<and> simple_bytes sd tid_of tid v \<and>
        c_str name = name \<and> length name < kMaxComponentNameSize \<and> length name \<le> cf_max_string cf) \<and>
     sb_wf (se_ep s)"

lemma send_ok:
  assumes "can_send sd tid_of cf eid s"
    "sb_room (se_ep s) (length (wire_entity (se_outgoing s) (described cf bytes_at (se_rt s) (se_objects s) eid)))"
  shows "\<exists>s'. serialize_entity_abi cf eid s =
      Some (Inr (length (wire_entity (se_outgoing s) (described cf bytes_at (se_rt s) (se_objects s) eid))), s') \<and>
    sb_written (se_ep s') = sb_written (se_ep s) @ wire_entity (se_outgoing s) (described cf bytes_at (se_rt s) (se_objects s) eid) \<and>
    se_rt s' = se_rt s \<and> se_objects s' = se_objects s \<and> se_outgoing s' = se_outgoing s + 1"
proof -
  have C: "cf_endpoint cf = sb_endpoint" "cf_serializers cf = [std_table sd sb_endpoint tid_of]" "cache_wf cf s"
      "rt_wf (ev_exts (cf_env cf)) (se_rt s)" "looked_up (se_rt s) eid" "eid \<in> dom (w_entities (rt_warden (se_rt s)))"
      "eid \<noteq> kNullUid" "sb_wf (se_ep s)"
    and O: "\<And>c. c \<in> set (comps_of (rt_warden (se_rt s)) eid) \<Longrightarrow> supported cf (ci_tid c) \<Longrightarrow>
        simple_object sd tid_of (ci_tid c) (ci_raw_pointer c) (se_objects s) \<and>
        length (c_str (component_name (se_rt s) (ci_cid c))) < 2 ^ 64"
    using assms(1) by (simp_all add: can_send_def)
  obtain n where n: "w_ref_count (rt_warden (se_rt s)) eid = Some n" "0 < n" using assms(1) by (auto simp: can_send_def)
  from std_writer.serialize_entity_ok [OF C(1-6) n C(7) O C(8), of 0] assms(2) show ?thesis by auto
qed

lemma receive_ok:
  assumes "can_receive sd tid_of cf cs s" "sb_pending (se_ep s) = wire_entity seq cs @ rest"
  shows "\<exists>s'. deserialize_entity_header_abi cf s = Some (Inr (rt_next_id (se_rt s)), s') \<and>
    described cf bytes_at (se_rt s') (se_objects s') (rt_next_id (se_rt s)) = cs \<and> sb_pending (se_ep s') = rest \<and>
    se_incoming s' = seq + 1 \<and> w_ref_count (rt_warden (se_rt s')) (rt_next_id (se_rt s)) = Some 1"
proof -
  have C: "cf_endpoint cf = sb_endpoint" "cf_serializers cf = [std_table sd sb_endpoint tid_of]" "length (cf_stack cf 32) = 32"
      "names_kept (cf_env cf)"
    and L: "\<And>tid p w t q. q \<noteq> p \<Longrightarrow> bytes_at t q (cf_construct cf tid p w) = bytes_at t q w"
    and S: "length (cf_stack cf 40) = 40" "cache_wf cf s" "rt_wf (ev_exts (cf_env cf)) (se_rt s)"
      "names_wf (rt_next_id (se_rt s)) (rt_parameters (se_rt s))" "w_ref_count (rt_warden (se_rt s)) (rt_next_id (se_rt s)) = None"
    and A: "\<forall>d\<in>set cs. std_reader.component_acceptable sd tid_of cf (se_rt s) d" "length cs \<le> kWardenComponents"
    and E: "sb_wf (se_ep s)"
    using assms(1) by (simp_all add: can_receive_def bytes_at_def std_reader.component_acceptable_def)
  from std_reader.deserialize_entity_ok [OF C L S A E assms(2)] show ?thesis by blast
qed

text \<open>C40: an entity whose components are of simple types crosses from one program to another.  Serializing
  succeeds, appends the wire format of the components that a serializer supports, and leaves the runtime
  as it was; deserializing those bytes in another runtime succeeds, makes a new entity that one holder
  keeps, with components of the same types, names and contents in the same order, and consumes exactly the
  message.\<close>

theorem entity_roundtrip:
  assumes "can_send sd tid_of cf eid s" "cs = described cf bytes_at (se_rt s) (se_objects s) eid"
    "sb_room (se_ep s) (length (wire_entity (se_outgoing s) cs))" "can_receive sd' tid_of' cf' cs r"
    "sb_pending (se_ep r) = wire_entity (se_outgoing s) cs @ rest"
  shows "\<exists>s' eid' r'. serialize_entity_abi cf eid s = Some (Inr (length (wire_entity (se_outgoing s) cs)), s') \<and>
    sb_written (se_ep s') = sb_written (se_ep s) @ wire_entity (se_outgoing s) cs \<and> se_rt s' = se_rt s \<and>
    deserialize_entity_header_abi cf' r = Some (Inr eid', r') \<and>
    described cf' bytes_at (se_rt r') (se_objects r') eid' = cs \<and> sb_pending (se_ep r') = rest \<and>
    w_entities (rt_warden (se_rt r)) eid' = None \<and> w_ref_count (rt_warden (se_rt r')) eid' = Some 1"
proof -
  have "rt_wf (ev_exts (cf_env cf')) (se_rt r)" using assms(4) by (simp add: can_receive_def)
  then have "w_entities (rt_warden (se_rt r)) (rt_next_id (se_rt r)) = None"
    using rt_wfD(5) unfolding items_wf_def by (metis less_irrefl option.exhaust)
  moreover obtain s' where "serialize_entity_abi cf eid s = Some (Inr (length (wire_entity (se_outgoing s) cs)), s')"
      "sb_written (se_ep s') = sb_written (se_ep s) @ wire_entity (se_outgoing s) cs" "se_rt s' = se_rt s"
    using send_ok [OF assms(1)] assms(3) unfolding assms(2) by blast
  moreover obtain r' where "deserialize_entity_header_abi cf' r = Some (Inr (rt_next_id (se_rt r)), r')"
      "described cf' bytes_at (se_rt r') (se_objects r') (rt_next_id (se_rt r)) = cs" "sb_pending (se_ep r') = rest"
      "w_ref_count (rt_warden (se_rt r')) (rt_next_id (se_rt r)) = Some 1"
    using receive_ok [OF assms(4,5)] by blast
  ultimately show ?thesis by blast
qed

text \<open>An example: a codelet whose contents are a time stamp.\<close>

definition demo_tid_of :: "std_type \<Rightarrow> gxf_tid_t expected" where
  "demo_tid_of t = (if t = Timestamp_t then Inr (Tid 3 3) else Inl GXF_FACTORY_UNKNOWN_CLASS_NAME)"

definition demo_sd :: "unit StdConfig" where
  "demo_sd = \<lparr>sd_big_endian = False, sd_stack = (\<lambda>n. replicate n 0xcc), sd_allocate = (\<lambda>n k s. (Inl GXF_OUT_OF_MEMORY, s)),
     sd_release = (\<lambda>p s. (Success, s)), sd_device = Inl GXF_FAILURE, sd_cuda_copy = (\<lambda>d s n m. None)\<rparr>"

definition demo_config :: "(nat, unit Contents, unit SerializationBuffer) Config" where
  "demo_config = \<lparr>cf_env = demo_env, cf_endpoint = sb_endpoint, cf_serializers = [std_table demo_sd sb_endpoint demo_tid_of],
     cf_big_endian = False, cf_construct = (\<lambda>tid p. put_bytes p (replicate 16 0)), cf_stack = (\<lambda>n. replicate n 0xcc),
     cf_max_string = 1000\<rparr>"

definition demo_entity :: "nat Runtime" where
  "demo_entity = snd (demo_run [RtNew 0, RtAdd 0 (Tid 3 3) (Some ''ping'')])"

definition demo_session :: "nat Runtime \<Rightarrow> byte list \<Rightarrow> (nat, unit Contents, unit SerializationBuffer) Session" where
  "demo_session rt data = \<lparr>se_rt = rt,
     se_objects = \<lparr>co_bytes = (\<lambda>p. map of_nat [1..<17]), co_tensor = (\<lambda>p. Tensor_init), co_memory = (\<lambda>p. 0), co_allocator = ()\<rparr>,
     se_ep = \<lparr>sb_buffer = mb_empty\<lparr>mb_size := length data\<rparr>, sb_data = data, sb_write_offset = 0, sb_read_offset = 0\<rparr>,
     se_cache = Map.empty, se_outgoing = 7, se_incoming = 0\<rparr>"

lemma demo_entity_facts:
  "map (\<lambda>c. (ci_cid c, ci_tid c)) (comps_of (rt_warden demo_entity) 2) = [(3, Tid 3 3)]"
  "w_components (rt_warden demo_entity) 3 = Some (2, Tid 3 3)"
  "w_ref_count (rt_warden demo_entity) 2 = Some 1"
  "\<not> Option.is_none (w_entities (rt_warden demo_entity) 2)"
  "component_name demo_entity 3 = ''ping''"
  by code_simp+

lemma demo_start_facts:
  "rt_next_id (snd (demo_run [])) = 2"
  "w_ref_count (rt_warden (snd (demo_run []))) 2 = None"
  "factory_type demo_exts (tw_loader (rt_types (snd (demo_run [])))) (Tid 3 3) \<noteq> None"
  "tr_names (tw_registry (rt_types (snd (demo_run [])))) (Tid 3 3) \<noteq> None"
  "ok (id_from_name (tw_registry (rt_types (snd (demo_run [])))) kCodeletName)"
  by code_simp+

lemma demo_run_wf: "rt_wf (ev_exts demo_env) (snd (demo_run ops))"
  using rt_run_wf [OF demo_run_reachable exts_wf_demo] by simp

lemma demo_names_wf: "names_wf 2 (rt_parameters (snd (demo_run [])))"
  by (simp add: demo_run_def Runtime_start_def names_wf_def ps_sorted_def ParameterStorage_init_def backend_of_def component_of_def)

lemma demo_kind: "kind_of demo_sd demo_tid_of tid = (if tid = Tid 3 3 then Some Timestamp_t else None)"
  by (auto simp: kind_of_def demo_sd_def first_kind_def std_types_def demo_tid_of_def)

lemma demo_supported: "supported demo_config tid \<longleftrightarrow> tid = Tid 3 3"
  by (simp add: supported_def demo_config_def isSupported_def std_table_get demo_kind)

lemma demo_described:
  "described demo_config bytes_at demo_entity (se_objects (demo_session demo_entity bs)) 2 =
     [(Tid 3 3, ''ping'', map of_nat [1..<17])]"
proof -
  obtain c where c: "comps_of (rt_warden demo_entity) 2 = [c]" "ci_cid c = 3" "ci_tid c = Tid 3 3"
    using demo_entity_facts(1) by auto
  have "c_str ''ping'' = ''ping''" by code_simp
  then show ?thesis using c demo_entity_facts(5)
    by (simp add: described_def demo_supported bytes_at_def demo_session_def)
qed

lemma demo_can_send: "can_send demo_sd demo_tid_of demo_config 2 (demo_session demo_entity (replicate n 0))" if "n < 2 ^ 64"
proof -
  obtain c where c: "comps_of (rt_warden demo_entity) 2 = [c]" "ci_cid c = 3" "ci_tid c = Tid 3 3"
    using demo_entity_facts(1) by auto
  have "length (c_str ''ping'') = 4" by code_simp
  then show ?thesis using c that demo_entity_facts demo_run_wf [of "[RtNew 0, RtAdd 0 (Tid 3 3) (Some ''ping'')]"]
    by (auto simp: can_send_def demo_config_def demo_session_def cache_wf_def looked_up_def simple_object_def simple_kind_def
      demo_kind sb_wf_def mb_empty_def demo_entity_def Option.is_none_def)
qed

lemma demo_accepts: "accepts demo_env (snd (demo_run [])) (Tid 3 3)"
  using demo_start_facts(3-5) by (simp add: accepts_def demo_env_def)

lemma demo_can_receive:
  assumes "length bs < 2 ^ 64"
  shows "can_receive demo_sd demo_tid_of demo_config [(Tid 3 3, ''ping'', map of_nat [1..<17])] (demo_session (snd (demo_run [])) bs)"
proof -
  have n: "c_str ''ping'' = ''ping''" by code_simp
  have b: "simple_bytes demo_sd demo_tid_of (Tid 3 3) (map of_nat [1..<17])"
    by (simp add: simple_bytes_def simple_kind_def demo_kind) (simp add: demo_sd_def)
  have "names_kept demo_env" by (simp add: names_kept_def demo_env_def)
  moreover have "rt_wf (ev_exts (cf_env demo_config)) (snd (demo_run []))" using demo_run_wf by (simp add: demo_config_def)
  moreover have "accepts (cf_env demo_config) (snd (demo_run [])) (Tid 3 3)" using demo_accepts by (simp add: demo_config_def)
  moreover have "cache_wf demo_config (demo_session (snd (demo_run [])) bs)" by (simp add: cache_wf_def demo_session_def)
  moreover have "sb_wf (se_ep (demo_session (snd (demo_run [])) bs))"
    using assms by (simp add: sb_wf_def demo_session_def mb_empty_def)
  moreover have "cf_endpoint demo_config = sb_endpoint" "cf_serializers demo_config = [std_table demo_sd sb_endpoint demo_tid_of]"
      "cf_env demo_config = demo_env" "cf_stack demo_config n = replicate n 0xcc" "cf_max_string demo_config = 1000"
      "cf_construct demo_config tid p w = put_bytes p (replicate 16 0) w" for n tid p w
    by (simp_all add: demo_config_def)
  moreover have "se_rt (demo_session (snd (demo_run [])) bs) = snd (demo_run [])" by (simp add: demo_session_def)
  ultimately show ?thesis using demo_start_facts(1,2) demo_names_wf n b
    by (simp add: can_receive_def demo_supported put_bytes_def kWardenComponents_def kMaxComponentNameSize_def)
qed

theorem entity_roundtrip_witness:
  "\<exists>s' eid' r'. serialize_entity_abi demo_config 2 (demo_session demo_entity (replicate 200 0)) = Some (Inr 92, s') \<and>
     deserialize_entity_header_abi demo_config
       (demo_session (snd (demo_run [])) (wire_entity 7 [(Tid 3 3, ''ping'', map of_nat [1..<17])])) = Some (Inr eid', r') \<and>
     described demo_config bytes_at (se_rt r') (se_objects r') eid' = [(Tid 3 3, ''ping'', map of_nat [1..<17])]"
proof -
  let ?cs = "[(Tid 3 3, ''ping'', map of_nat [1..<17])] :: wire_component list"
  let ?s = "demo_session demo_entity (replicate 200 0)" and ?r = "demo_session (snd (demo_run [])) (wire_entity 7 ?cs)"
  have rt: "se_rt ?s = demo_entity" "se_outgoing ?s = 7" by (simp_all add: demo_session_def)
  have len: "length (wire_entity 7 ?cs) = 92" by (simp add: wire_entity_def wire_component_def)
  have d: "?cs = described demo_config bytes_at (se_rt ?s) (se_objects ?s) 2" unfolding rt demo_described ..
  have room: "sb_room (se_ep ?s) (length (wire_entity (se_outgoing ?s) ?cs))"
    unfolding rt len by (simp add: sb_room_def demo_session_def mb_empty_def)
  have pend: "sb_pending (se_ep ?r) = wire_entity (se_outgoing ?s) ?cs @ []"
    unfolding rt by (simp add: sb_pending_def demo_session_def)
  have "can_send demo_sd demo_tid_of demo_config 2 ?s" by (rule demo_can_send) simp
  moreover have "can_receive demo_sd demo_tid_of demo_config ?cs ?r" by (rule demo_can_receive) (simp only: len, simp)
  ultimately show ?thesis using entity_roundtrip [OF _ d room _ pend] unfolding rt len by blast
qed

section \<open>Identifiers as messages\<close>

definition wire_id :: "gxf_uid_t \<Rightarrow> uint64 \<Rightarrow> byte list" where
  "wire_id eid seq = le_bytes 8 (nat (eid mod 2 ^ 64)) @ le_bytes 8 (unat seq)"

definition counted :: "gxf_uid_t \<Rightarrow> int \<Rightarrow> 'u Runtime \<Rightarrow> 'u Runtime" where
  "counted eid n rt = rt\<lparr>rt_warden := (rt_warden rt)\<lparr>w_ref_count := (w_ref_count (rt_warden rt))(eid \<mapsto> n)\<rparr>\<rparr>"

lemma inc_counted: "w_ref_count (rt_warden rt) eid = Some n \<Longrightarrow> GxfEntityRefCountInc eid rt = (GXF_SUCCESS, counted eid (n + 1) rt)"
  by (simp add: GxfEntityRefCountInc_def ew_inc_eq counted_def)

lemma uid_of_wire:
  assumes "0 \<le> eid" "eid < 2 ^ 63"
  shows "sint (of_nat (of_le (le_bytes 8 (nat (eid mod 2 ^ 64)))) :: 64 word) = eid"
proof -
  have "eid mod 2 ^ 64 = eid" using assms by simp
  moreover have "nat eid mod 256 ^ 8 = nat eid" using assms by simp
  ultimately have "of_le (le_bytes 8 (nat (eid mod 2 ^ 64))) = nat eid" by simp
  moreover have "(of_nat (nat eid) :: 64 word) = of_int eid" using assms(1) by simp
  moreover have "sint (of_int eid :: 64 word) = signed_take_bit 63 eid" by (simp add: signed_of_int)
  moreover have "signed_take_bit 63 eid = eid" using assms by (intro signed_take_bit_int_eq_self) simp_all
  ultimately show ?thesis by simp
qed

context sink
begin

lemma id_serialize_ok:
  assumes "cf_endpoint cf = ep" "wr_inv (se_ep s)" "room (se_ep s) (16 + k)" "w_ref_count (rt_warden (se_rt s)) eid = Some n"
  shows "\<exists>e1. id_serialize_entity_abi cf eid s =
      Some (Inr 16, s\<lparr>se_rt := counted eid (n + 1) (se_rt s), se_outgoing := se_outgoing s + 1, se_ep := e1\<rparr>) \<and>
    written e1 = written (se_ep s) @ wire_id eid (se_outgoing s) \<and> wr_inv e1 \<and> room e1 k"
  using se_write_ok [OF assms(1), of "s\<lparr>se_rt := counted eid (n + 1) (se_rt s), se_outgoing := se_outgoing s + 1\<rparr>"
      "wire_id eid (se_outgoing s)" k] assms(2-4)
  by (auto simp: id_serialize_entity_abi_def Let_def inc_counted to_mem_htole wire_id_def value_of_def)

end

context source
begin

lemma id_deserialize_ok:
  assumes "cf_endpoint cf = ep" "rd_inv (se_ep s)" "pending (se_ep s) = wire_id eid seq @ rest" "length (cf_stack cf 16) = 16"
    "w_ref_count (rt_warden (se_rt s)) eid = Some n" "0 < n" "0 \<le> eid" "eid < 2 ^ 63"
  shows "\<exists>e1. id_deserialize_entity_header_abi cf s = Some (Inr eid, s\<lparr>se_ep := e1, se_incoming := se_incoming s + 1\<rparr>) \<and>
    pending e1 = rest \<and> rd_inv e1"
proof -
  have len: "length (wire_id eid seq) = 16" by (simp add: wire_id_def)
  obtain e1 where e1: "se_read cf (cf_stack cf 16) s = Some (Inr (wire_id eid seq), s\<lparr>se_ep := e1\<rparr>)" "pending e1 = rest" "rd_inv e1"
    using se_read_ok [OF assms(1-3), of "cf_stack cf 16"] assms(4) len by auto
  have "sint (of_nat (htole (cf_big_endian cf) 8 (of_mem (cf_big_endian cf) (take 8 (wire_id eid seq)))) :: 64 word) = eid"
    using of_mem_htole [of "le_bytes 8 (nat (eid mod 2 ^ 64))" 8 "cf_big_endian cf"] uid_of_wire [OF assms(7,8)]
    by (simp add: wire_id_def)
  moreover have "Entity_Shared eid (se_rt s) = (Inr eid, counted eid (n + 1) (se_rt s))"
    using inc_counted [OF assms(5)] by (simp add: Entity_Shared_def)
  moreover have "GxfEntityRefCountDec (cf_env cf) eid (counted eid (n + 1) (se_rt s)) = Some (GXF_SUCCESS, se_rt s)"
    using assms(5,6) by (simp add: counted_def GxfEntityRefCountDec_def ew_decEntityRefCount_def Let_def fun_upd_idem)
  ultimately show ?thesis using e1 by (intro exI [of _ e1]) (simp add: id_deserialize_entity_header_abi_def Let_def)
qed

end

text \<open>The count that serializing takes becomes the count of the Entity that deserializing returns: after a
  message has been handed over, one more holder is counted.\<close>

lemma id_handover:
  assumes "cf_endpoint cf = sb_endpoint" "cf_endpoint cf' = sb_endpoint" "length (cf_stack cf' 16) = 16"
    "w_ref_count (rt_warden (se_rt s)) eid = Some n" "0 < n" "0 \<le> eid" "eid < 2 ^ 63" "sb_wf (se_ep s)" "sb_room (se_ep s) 16"
    "se_rt r = counted eid (n + 1) (se_rt s)" "sb_wf (se_ep r)" "sb_pending (se_ep r) = wire_id eid (se_outgoing s) @ rest"
  shows "\<exists>s' r'. id_serialize_entity_abi cf eid s = Some (Inr 16, s') \<and> se_rt s' = se_rt r \<and>
    sb_written (se_ep s') = sb_written (se_ep s) @ wire_id eid (se_outgoing s) \<and>
    id_deserialize_entity_header_abi cf' r = Some (Inr eid, r') \<and> sb_pending (se_ep r') = rest \<and>
    w_ref_count (rt_warden (se_rt r')) eid = Some (n + 1)"
proof -
  have c: "w_ref_count (rt_warden (se_rt r)) eid = Some (n + 1)" using assms(10) by (simp add: counted_def)
  show ?thesis using sb_sink.id_serialize_ok [OF assms(1,8), of 0 eid n] assms(4,9,10)
      sb_source.id_deserialize_ok [OF assms(2,11,12,3) c _ assms(6,7)] assms(5) c by auto
qed

text \<open>When the message does not fit, the count stays.\<close>

lemma id_serialize_leaks:
  assumes "cf_endpoint cf = sb_endpoint" "w_ref_count (rt_warden (se_rt s)) eid = Some n" "sb_wf (se_ep s)" "\<not> sb_room (se_ep s) 16"
  shows "\<exists>s'. id_serialize_entity_abi cf eid s = Some (Inl GXF_EXCEEDING_PREALLOCATED_SIZE, s') \<and>
    w_ref_count (rt_warden (se_rt s')) eid = Some (n + 1)"
proof -
  let ?bs = "wire_id eid (se_outgoing s)" and ?s1 = "s\<lparr>se_rt := counted eid (n + 1) (se_rt s), se_outgoing := se_outgoing s + 1\<rparr>"
  have "length ?bs = 16" by (simp add: wire_id_def)
  then obtain m where "ep_write sb_endpoint (Some ?bs) (se_ep s) = Some (GXF_EXCEEDING_PREALLOCATED_SIZE, m, se_ep s)"
    using assms(3,4) by (auto simp: sb_endpoint_def sb_write_cases sb_room_def)
  then have "se_write cf ?bs ?s1 = Some (Inl GXF_EXCEEDING_PREALLOCATED_SIZE, ?s1)"
    using assms(1) by (simp add: se_write_def Endpoint_write_def ExpectedOrCodeVal_def)
  then have "id_serialize_entity_abi cf eid s = Some (Inl GXF_EXCEEDING_PREALLOCATED_SIZE, ?s1)"
    using assms(2) by (simp add: id_serialize_entity_abi_def Let_def inc_counted to_mem_htole wire_id_def)
  then show ?thesis by (simp add: counted_def)
qed

text \<open>The header is used although it could not be read: the program ends.\<close>

lemma id_deserialize_unread:
  "se_read cf (cf_stack cf 16) s = Some (Inl code, s1) \<Longrightarrow> id_deserialize_entity_header_abi cf s = None"
  by (simp add: id_deserialize_entity_header_abi_def)

end
