(* ===== verification/Spec2Isabelle.thy ===== *)
theory Spec2Isabelle
  imports Fixed_Vector Unique_Index_Map Fixed_Map Staging_Queue Message_Buffers Scheduling_Terms Entity_Executor Message_Router Entity_Warden Program_State Memory_Pools First_Fit_Allocator Multi_Thread_Scheduler Epoch_Scheduler Behavior_Tree Extension_Loader Runtime_Entities Endpoints Entity_Serialization
begin

text \<open>
  This is a verification development of the GXF runtime (com_nvidia_gxf): the containers it is
  built on, the store of entities, the program and its life cycle, the schedulers and the terms they
  consult, the transport of messages between entities, and the memory of tensors.

  The program.  A GXF application is a graph of entities, each a list of components.  The entity
  warden (gxf/std/entity_warden.cpp) owns the entities and takes their components through the
  stages of initialisation.  The program (gxf/std/program.cpp) activates the entities of the graph in
  order, hands them to the schedulers and keeps the state of the whole graph.  A scheduler
  (greedy_scheduler.cpp, epoch_scheduler.cpp, multi_thread_scheduler.cpp) decides which entity is
  executed next: it calls the entity executor (entity_executor.cpp), which asks the scheduling terms
  (scheduling_terms.cpp) for a condition, synchronises the inbox of the entity, ticks its codelets and
  synchronises its outbox through the message router (message_router.cpp).  Messages wait in
  receivers and transmitters (double_buffer_receiver.cpp and its kin), whose queue is the staging queue.
  The data of messages are tensors (tensor.cpp), on memory from pools (block_memory_pool.cpp).

  Theories and sources.
  Prelude: result codes (gxf/core/gxf.h), Expected (gxf/core/expected.hpp), facts on lists and words.
  Fixed_Vector, Unique_Index_Map, Fixed_Map: common/fixed_vector.hpp with memory_utils.hpp,
  unique_index_map.hpp, fixed_map.hpp.  Each container has a record of its fields, one function per
  operation, an invariant that all operations keep, and a refinement of its abstract data type (a
  bounded list, a partial map) over arbitrary sequences of operations.
  Staging_Queue, Message_Buffers: gems/staging_queue/staging_queue.hpp and the receivers and
  transmitters; the ring buffer refines a pair of bounded lists, and the four-slot asynchronous
  buffer is a step relation of a reader and a writer.
  Scheduling_Terms: scheduling_condition.cpp, scheduling_term_combiner.hpp, scheduling_terms.cpp.
  Entity_Executor: entity_executor.cpp, codelet.cpp, controller.hpp.
  Message_Router: message_router.cpp, router_group.cpp, system_group.cpp.
  Entity_Warden: entity_warden.cpp, entity_item.hpp.
  Program_State: program.cpp and the two functions of core/runtime.cpp it works through.
  Tensor_Layout, Memory_Pools: tensor.hpp, tensor.cpp; fixed_pool_uint64.hpp, block_memory_pool.cpp,
  memory_buffer.hpp.
  First_Fit_Allocator: gems/suballocators/first_fit_allocator_base.{hpp,cpp}, first_fit_allocator.hpp;
  the segment tree answers like a search for the first gap in a list, and its loops return.
  Type_Registry: type_registry.cpp; the search along the base types.
  Parameter_Storage, Parameter_Registrar: parameter.hpp, parameter_storage.{hpp,cpp},
  parameter_registrar.{hpp,cpp}, registrar.hpp and the parameter functions of core/runtime.cpp.
  Extension_Loader: extension_loader.{hpp,cpp}, default_extension.{hpp,cpp},
  new_component_allocator.hpp, component_factory.cpp and the type registration of core/runtime.cpp;
  the extension that opening a library yields is an argument of the load, and the runs of loads and
  registrations are an inductive relation with an invariant.
  Runtime_Entities: the functions of core/runtime.cpp on entities and components, core/entity.hpp and
  core/handle.hpp, over the warden, the type registry, the extension loader and the parameter storage;
  the runs of these operations are an inductive relation, with an invariant that ties every component
  to its object and one that counts the holders of an entity.
  Endpoints: gxf/serialization/endpoint.{hpp,cpp}, serialization_buffer, file_stream and file, with
  common/endian.hpp; the locales of a sink and a source of bytes, interpreted on the three endpoints.
  Entity_Serialization: std_entity_serializer.{hpp,cpp}, component_serializer.{hpp,cpp},
  std_component_serializer.{hpp,cpp} and std_entity_id_serializer.cpp; the locales of what writes and
  what reads components, interpreted on the table of the standard serializer, and the round trip of an
  entity from one runtime to another.
  Behavior_Tree: gxf/behavior_tree, the ticks of the behaviours and the repeat controller.
  Job_Lists, Multi_Thread_Scheduler, Greedy_Scheduler, Epoch_Scheduler: event_list.hpp,
  unique_event_list.hpp, timed_job_list.hpp and the three schedulers, with the manual clock of clock.cpp.

  How the code is rendered.  A class is a record of its fields, a method a function from the record to
  the record and its result.  A function that returns gxf_result_t returns a code; a function that
  returns Expected returns the sum type expected.  Virtual calls, and calls of classes that another
  theory models, are functions on an arbitrary state of the rest of the system; what a client relies
  on is stated as a locale, and the locale is interpreted on the model of the class that provides it.
  Unsigned integers are words where their wrap-around is reachable; timestamps are int, since their
  overflow is undefined in C++.  Reads and writes outside of an array are None.  A mutex makes an
  operation one step; where threads meet outside of a mutex the steps interleave.

  Loops.  A loop over a container is recursion on the list of its elements.  A loop that may not end
  is a partial function (the emptying of a transmitter, the rounds of the greedy scheduler, the visits
  of an epoch); the theorems then state that it returns, under hypotheses with a witness.  The loops of
  reshaping have a termination proof.  No fuel is used.

  Not modelled.  The argument checks of the GXF C interface, the loading of graphs
  from YAML, the event-based scheduler, the graph
  worker, the multimedia, network, UCX, CUDA and IPC extensions, logging, profiling and the bindings:
  they either call libraries whose code is not part of the repository, or they are glue over the
  parts that are modelled.  CUDA memory operations and the profiler calls inside of modelled functions
  are left out.
\<close>

end
